(* ===== verification/Prelude.thy ===== *)
theory Prelude
  imports Main "HOL-Library.Word"
begin

unbundle bit_operations_syntax

text \<open>
  Shared vocabulary of the development: the machine integers of the C sources at their
  width, the error codes the runtime returns, the power-of-two rounding idiom
  \<open>(x + a - 1) & ~(a - 1)\<close>, the C string helpers \<open>strncpy\<close> and \<open>strstr\<close> on
  NUL-free character lists, and half-open address ranges on 64-bit words.
\<close>

named_theorems word_nat \<open>readings of word facts through unat\<close>

section \<open>Machine integers\<close>

type_synonym u8 = "8 word"
type_synonym u16 = "16 word"
type_synonym u32 = "32 word"
type_synonym u64 = "64 word"
type_synonym i32 = "32 word"
type_synonym i64 = "64 word"

text \<open>A C \<open>int\<close> result stored in a 64-bit register: \<open>(uint64_t)(int64_t)rc\<close>.\<close>

abbreviation sext64 :: "i32 \<Rightarrow> u64" where
  "sext64 rc \<equiv> scast rc"

text \<open>The value \<open>(uint64_t)-1\<close> the virtual memory allocator returns on failure.\<close>

abbreviation (input) BAD_ADDR :: u64 where
  "BAD_ADDR \<equiv> - 1"

lemma u64_lt: "unat (x :: u64) < 2 ^ 64"
  using unsigned_less [of x, where ?'a = nat] by simp

lemma unat_sub_le: "unat a \<le> unat b \<Longrightarrow> unat (b - a) = unat b - unat a" for a b :: u64
  by (rule unat_sub) (simp add: word_le_nat_alt)

section \<open>Error codes\<close>

abbreviation (input) OK :: i32 where "OK \<equiv> 0"
abbreviation (input) KERR_ESRCH :: i32 where "KERR_ESRCH \<equiv> 0x80020003"
abbreviation (input) KERR_EBADF :: i32 where "KERR_EBADF \<equiv> 0x80020009"
abbreviation (input) KERR_ENOMEM :: i32 where "KERR_ENOMEM \<equiv> 0x8002000c"
abbreviation (input) KERR_EACCES :: i32 where "KERR_EACCES \<equiv> 0x8002000d"
abbreviation (input) KERR_EFAULT :: i32 where "KERR_EFAULT \<equiv> 0x8002000e"
abbreviation (input) KERR_EBUSY :: i32 where "KERR_EBUSY \<equiv> 0x80020010"
abbreviation (input) KERR_EINVAL :: i32 where "KERR_EINVAL \<equiv> 0x80020016"
abbreviation (input) KERR_ENFILE :: i32 where "KERR_ENFILE \<equiv> 0x80020018"
abbreviation (input) KERR_ENOSPC :: i32 where "KERR_ENOSPC \<equiv> 0x8002001c"
abbreviation (input) KERR_EAGAIN :: i32 where "KERR_EAGAIN \<equiv> 0x80020023"
abbreviation (input) KERR_ETIMEDOUT :: i32 where "KERR_ETIMEDOUT \<equiv> 0x8002003c"
abbreviation (input) KERR_ENAMETOOLONG :: i32 where "KERR_ENAMETOOLONG \<equiv> 0x8002003f"

text \<open>Host \<open>errno\<close> values (FreeBSD and Darwin agree on the ones used here).\<close>

abbreviation (input) EPERM :: i32 where "EPERM \<equiv> 1"
abbreviation (input) EAGAIN :: i32 where "EAGAIN \<equiv> 35"
abbreviation (input) EDEADLK :: i32 where "EDEADLK \<equiv> 11"
abbreviation (input) ENOMEM :: i32 where "ENOMEM \<equiv> 12"
abbreviation (input) EFAULT :: i32 where "EFAULT \<equiv> 14"
abbreviation (input) EBUSY :: i32 where "EBUSY \<equiv> 16"
abbreviation (input) EINVAL :: i32 where "EINVAL \<equiv> 22"
abbreviation (input) ENOSPC :: i32 where "ENOSPC \<equiv> 28"
abbreviation (input) ETIMEDOUT :: i32 where "ETIMEDOUT \<equiv> 60"

section \<open>Rounding up to an alignment\<close>

definition align_up :: "u64 \<Rightarrow> u64 \<Rightarrow> u64" where
  "align_up x a = (x + a - 1) AND NOT (a - 1)"

definition is_pow2 :: "u64 \<Rightarrow> bool" where
  "is_pow2 a \<longleftrightarrow> a \<noteq> 0 \<and> a AND (a - 1) = 0"

lemma and_not_eq_diff: "x AND NOT m = x - (x AND m)" for x m :: "'a::len word"
proof -
  have "(x AND NOT m) + (x AND m) = (x AND NOT m) OR (x AND m)"
    by (rule disjunctive_add_eq_or) (simp add: bit_eq_iff bit_simps)
  also have "\<dots> = x"
    by (rule bit_word_eqI) (auto simp: bit_simps)
  finally show ?thesis by (simp add: eq_diff_eq)
qed

lemma unat_and_le1: "unat (x AND m) \<le> unat x" for x m :: "'a::len word"
  using word_and_le2 [of x m] by (simp add: word_le_nat_alt)

lemma unat_and_le2: "unat (x AND m) \<le> unat m" for x m :: "'a::len word"
  using word_and_le2 [of m x] by (simp add: word_le_nat_alt and.commute)

lemma unat_and_not: "unat (x AND NOT m) = unat x - unat (x AND m)" for x m :: "'a::len word"
  unfolding and_not_eq_diff
  by (rule unat_sub) (simp add: word_and_le2)

lemma unat_add_diff_one:
  assumes "a \<noteq> 0" and "unat x + unat a \<le> 2 ^ 64"
  shows "unat (x + a - 1 :: u64) = unat x + unat a - 1"
proof -
  have a: "unat (a - 1) = unat a - 1"
    using assms(1) by (simp add: unat_minus_one)
  have "0 < unat a" using assms(1) by (simp add: unat_gt_0)
  then have "unat x + unat (a - 1) < 2 ^ 64" and "unat x + unat (a - 1) = unat x + unat a - 1"
    using assms(2) a by simp_all
  then have "unat (x + (a - 1)) = unat x + unat a - 1"
    by (simp only: unat_word_ariths) simp
  then show ?thesis by (simp add: add_diff_eq)
qed

lemma align_up_bounds:
  assumes "a \<noteq> 0" and "unat x + unat a \<le> 2 ^ 64"
  shows "unat x \<le> unat (align_up x a)" and "unat (align_up x a) < unat x + unat a"
proof -
  have pos: "0 < unat a" using assms(1) by (simp add: unat_gt_0)
  have s: "unat (x + a - 1) = unat x + unat a - 1"
    by (rule unat_add_diff_one [OF assms])
  have m: "unat ((x + a - 1) AND (a - 1)) \<le> unat a - 1"
    using unat_and_le2 [of "x + a - 1" "a - 1"] assms(1) by (simp add: unat_minus_one)
  show "unat x \<le> unat (align_up x a)"
    unfolding align_up_def unat_and_not using s m pos by linarith
  show "unat (align_up x a) < unat x + unat a"
    unfolding align_up_def unat_and_not using s pos by linarith
qed

lemma unat_exp_less: "k < 64 \<Longrightarrow> unat (2 ^ k :: u64) = 2 ^ k"
proof -
  assume k: "k < 64"
  then have "(2::nat) ^ k < 2 ^ 64" by (rule power_strict_increasing) simp
  moreover have "(2 ^ k :: u64) = of_nat (2 ^ k)" by simp
  ultimately show ?thesis by (simp only: unat_of_nat) simp
qed

text \<open>A power of two in the sense of the bit test is \<open>2 ^ k\<close>, so masking is \<open>mod\<close>.\<close>

lemma is_pow2_exp: "is_pow2 a \<Longrightarrow> \<exists>k < 64. a = 2 ^ k"
proof -
  assume p: "is_pow2 a"
  then have nz: "a \<noteq> 0" by (simp add: is_pow2_def)
  then obtain n where n: "bit a n"
    by (auto simp: bit_eq_iff)
  define k where "k = (LEAST n. bit a n)"
  have k: "bit a k" unfolding k_def using n by (rule LeastI)
  have least: "\<And>j. j < k \<Longrightarrow> \<not> bit a j" unfolding k_def by (rule not_less_Least)
  have k64: "k < 64" using bit_imp_le_length [OF k] by simp
  have t0: "take_bit k a = 0"
    by (rule bit_word_eqI) (auto simp: bit_simps least)
  define r where "r = drop_bit (Suc k) a"
  have "a = push_bit (Suc k) r OR 2 ^ k"
    unfolding r_def
    apply (rule bit_word_eqI)
    subgoal for j
      using k least [of j]
      by (cases "j < k"; cases "j = k") (auto simp: bit_simps simp del: push_bit_Suc)
    done
  moreover have "push_bit (Suc k) r OR 2 ^ k = push_bit (Suc k) r + 2 ^ k"
    by (rule disjunctive_add_eq_or [symmetric], rule bit_word_eqI)
      (auto simp: bit_simps simp del: push_bit_Suc)
  ultimately have dec: "a - 1 = push_bit (Suc k) r + mask k"
    by (simp add: mask_eq_exp_minus_1)
  have "push_bit (Suc k) r + mask k = push_bit (Suc k) r OR mask k"
    by (rule disjunctive_add_eq_or, rule bit_word_eqI)
      (auto simp: bit_simps simp del: push_bit_Suc)
  with dec have dec': "a - 1 = push_bit (Suc k) r OR mask k" by simp
  have "a AND (a - 1) = 0" using p by (simp add: is_pow2_def)
  then have z: "\<And>j. bit a j \<Longrightarrow> \<not> bit (a - 1) j"
    by (metis bit_and_iff bit_0_eq bot_apply bot_bool_def)
  have "a = 2 ^ k"
    apply (rule bit_word_eqI)
    subgoal for j
      using z [of j] k least [of j] unfolding dec'
      by (cases "j < k"; cases "j = k") (auto simp: bit_simps r_def simp del: push_bit_Suc)
    done
  with k64 show ?thesis by blast
qed

lemma align_up_dvd:
  assumes "is_pow2 a"
  shows "unat a dvd unat (align_up x a)"
proof -
  obtain k where k: "k < 64" "a = 2 ^ k" using is_pow2_exp [OF assms] by blast
  have ua: "unat a = 2 ^ k" using k by (simp add: unat_exp_less)
  have "align_up x a AND mask k = 0"
    unfolding align_up_def k(2) mask_eq_exp_minus_1 [symmetric]
    by (rule bit_word_eqI) (simp add: bit_simps)
  then have "2 ^ k dvd unat (align_up x a)"
    using and_mask_dvd_nat by blast
  with ua show ?thesis by simp
qed

text \<open>Rounding up is the least multiple that is not smaller.\<close>

lemma align_up_least:
  assumes "is_pow2 a" and "unat x + unat a \<le> 2 ^ 64" and "unat a dvd n" and "unat x \<le> n"
  shows "unat (align_up x a) \<le> n"
proof -
  have nz: "a \<noteq> 0" using assms(1) by (simp add: is_pow2_def)
  obtain q where q: "unat (align_up x a) = unat a * q"
    using align_up_dvd [OF assms(1), of x] by (auto elim: dvdE)
  obtain p where p: "n = unat a * p" using assms(3) by (auto elim: dvdE)
  have lt: "unat a * q < unat x + unat a"
    using align_up_bounds(2) [OF nz assms(2)] q by simp
  have "unat a * q < unat a * (p + 1)"
    using lt assms(4) p by simp
  then have "q < p + 1"
    using mult_less_cancel1 by blast
  then show ?thesis using q p by simp
qed

section \<open>Half-open ranges of addresses\<close>

text \<open>The C test \<open>lo <= a && a < lo + size\<close>, with the wrap-around of the sum.\<close>

definition in_range :: "u64 \<Rightarrow> u64 \<Rightarrow> u64 \<Rightarrow> bool" where
  "in_range lo sz a \<longleftrightarrow> lo \<le> a \<and> a < lo + sz"

definition no_wrap :: "u64 \<Rightarrow> u64 \<Rightarrow> bool" where
  "no_wrap lo sz \<longleftrightarrow> unat lo + unat sz < 2 ^ 64"

lemma unat_add_no_wrap [word_nat]: "no_wrap lo sz \<Longrightarrow> unat (lo + sz) = unat lo + unat sz"
  by (simp add: no_wrap_def unat_word_ariths)

lemma in_range_nat [word_nat]:
  "no_wrap lo sz \<Longrightarrow> in_range lo sz a \<longleftrightarrow> unat lo \<le> unat a \<and> unat a < unat lo + unat sz"
  by (simp add: in_range_def word_le_nat_alt word_less_nat_alt unat_add_no_wrap)

section \<open>C strings as NUL-free character lists\<close>

text \<open>\<open>strncpy(dst, src, sizeof(dst) - 1)\<close> followed by the terminator.\<close>

definition strncpy_name :: "nat \<Rightarrow> string \<Rightarrow> string" where
  "strncpy_name cap s = take (cap - 1) s"

fun str_prefix :: "string \<Rightarrow> string \<Rightarrow> bool" where
  "str_prefix [] s = True"
| "str_prefix (p # ps) [] = False"
| "str_prefix (p # ps) (c # cs) = (p = c \<and> str_prefix ps cs)"

text \<open>\<open>strstr(hay, needle) != NULL\<close>.\<close>

fun strstr :: "string \<Rightarrow> string \<Rightarrow> bool" where
  "strstr [] needle = (needle = [])"
| "strstr (c # cs) needle = (str_prefix needle (c # cs) \<or> strstr cs needle)"

lemma str_prefix_append [simp]: "str_prefix p (p @ s)"
  by (induction p) auto

lemma strstr_append: "strstr (p @ n @ s) n"
proof (induction p)
  case Nil
  then show ?case
    using str_prefix_append [of n s] by (cases "n @ s") auto
next
  case (Cons a p)
  then show ?case by simp
qed

end
