(* ===== verification/GuestMem.thy ===== *)
theory GuestMem
  imports Prelude
begin

unbundle bit_operations_syntax

text \<open>
  The guest CPU context of \<open>core/recomp_context.h\<close> and the byte-addressed guest memory it
  points to. The host pointer \<open>mem_base\<close> is whether the memory is mapped; a guest access
  \<open>*(T *)(ctx->mem_base + a)\<close> is a little-endian read or write at the guest address
  \<open>a\<close>. Shims read their arguments from the register fields and return through
  \<open>rax\<close> and \<open>SHIM_RETURN\<close>.
\<close>

section \<open>Guest context\<close>

record guest_ctx =
  rax :: u64
  rcx :: u64
  rdx :: u64
  rbx :: u64
  rsp :: u64
  rbp :: u64
  rsi :: u64
  rdi :: u64
  r8 :: u64
  r9 :: u64
  r10 :: u64
  r11 :: u64
  rip :: u64
  fs_base :: u64
  cf :: u8
  zf :: u8
  sf :: u8
  ovf :: u8
  pf :: u8
  af :: u8
  fpu_stack :: "u64 list"
  fpu_top :: i32
  thread_id :: u64

section \<open>Guest memory\<close>

record guest_mem =
  mem_mapped :: bool
  mem_size :: u64
  mem_bytes :: "u64 \<Rightarrow> u8"

definition le_bytes :: "nat \<Rightarrow> 'a::len word \<Rightarrow> u8 list" where
  "le_bytes n w = map (\<lambda>i. ucast (drop_bit (8 * i) w)) [0..<n]"

primrec of_le :: "u8 list \<Rightarrow> 'a::len word" where
  "of_le [] = 0"
| "of_le (b # bs) = ucast b OR push_bit 8 (of_le bs)"

definition rd_bytes :: "guest_mem \<Rightarrow> u64 \<Rightarrow> nat \<Rightarrow> u8 list" where
  "rd_bytes m a n = map (\<lambda>i. mem_bytes m (a + of_nat i)) [0..<n]"

definition wr_bytes :: "guest_mem \<Rightarrow> u64 \<Rightarrow> u8 list \<Rightarrow> guest_mem" where
  "wr_bytes m a bs =
     m\<lparr>mem_bytes := (\<lambda>x. if unat (x - a) < length bs then bs ! unat (x - a) else mem_bytes m x)\<rparr>"

definition rd_u8 :: "guest_mem \<Rightarrow> u64 \<Rightarrow> u8" where
  "rd_u8 m a = mem_bytes m a"

definition rd_u32 :: "guest_mem \<Rightarrow> u64 \<Rightarrow> u32" where
  "rd_u32 m a = of_le (rd_bytes m a 4)"

definition rd_u64 :: "guest_mem \<Rightarrow> u64 \<Rightarrow> u64" where
  "rd_u64 m a = of_le (rd_bytes m a 8)"

definition wr_u32 :: "guest_mem \<Rightarrow> u64 \<Rightarrow> u32 \<Rightarrow> guest_mem" where
  "wr_u32 m a v = wr_bytes m a (le_bytes 4 v)"

definition wr_u64 :: "guest_mem \<Rightarrow> u64 \<Rightarrow> u64 \<Rightarrow> guest_mem" where
  "wr_u64 m a v = wr_bytes m a (le_bytes 8 v)"

text \<open>A C string in guest memory, read up to its NUL and at most \<open>n\<close> characters.\<close>

fun rd_str :: "guest_mem \<Rightarrow> u64 \<Rightarrow> nat \<Rightarrow> string" where
  "rd_str m a 0 = []"
| "rd_str m a (Suc n) =
     (if mem_bytes m a = 0 then [] else char_of (unat (mem_bytes m a)) # rd_str m (a + 1) n)"

section \<open>Returning from a shim\<close>

definition shim_return :: "guest_ctx \<Rightarrow> guest_ctx" where
  "shim_return c = c\<lparr>rsp := rsp c + 8\<rparr>"

definition ret_rax :: "guest_ctx \<Rightarrow> u64 \<Rightarrow> guest_ctx" where
  "ret_rax c v = shim_return (c\<lparr>rax := v\<rparr>)"

text \<open>\<open>ctx->rax = (uint64_t)(int64_t)rc; SHIM_RETURN();\<close>\<close>

definition ret_rc :: "guest_ctx \<Rightarrow> i32 \<Rightarrow> guest_ctx" where
  "ret_rc c rc = ret_rax c (sext64 rc)"

definition set_guest_errno :: "guest_ctx \<Rightarrow> guest_mem \<Rightarrow> i32 \<Rightarrow> guest_mem" where
  "set_guest_errno c m err = (if fs_base c \<noteq> 0 then wr_u32 m (fs_base c + 0x100) err else m)"

section \<open>Round trips of the accessors\<close>

lemma length_le_bytes [simp]: "length (le_bytes n w) = n"
  by (simp add: le_bytes_def)

lemma bit_of_le:
  "bit (of_le bs :: 'a::len word) n \<longleftrightarrow> n < LENGTH('a) \<and> n div 8 < length bs \<and> bit (bs ! (n div 8)) (n mod 8)"
proof (induction bs arbitrary: n)
  case Nil
  then show ?case by simp
next
  case (Cons b bs)
  show ?case
  proof (cases "n < 8")
    case True
    then show ?thesis by (auto simp: bit_simps)
  next
    case False
    then have n: "n div 8 = Suc ((n - 8) div 8)" "n mod 8 = (n - 8) mod 8"
      by (simp_all add: le_div_geq le_mod_geq)
    have "\<not> bit b n"
      using False bit_imp_le_length [of b n] by auto
    with False Cons.IH [of "n - 8"] n show ?thesis
      by (auto simp: bit_simps)
  qed
qed

lemma of_le_le_bytes:
  fixes w :: "'a::len word"
  assumes "LENGTH('a) = 8 * n"
  shows "of_le (le_bytes n w) = w"
proof (rule bit_word_eqI)
  fix k assume k: "k < LENGTH('a)"
  then have d: "k div 8 < n" using assms by simp
  have "k = 8 * (k div 8) + k mod 8" by simp
  then have "bit w k = bit w (8 * (k div 8) + k mod 8)" by simp
  with k d show "bit (of_le (le_bytes n w) :: 'a word) k = bit w k"
    by (simp add: bit_of_le le_bytes_def bit_simps)
qed

lemma rd_wr_bytes:
  assumes "length bs \<le> 2 ^ 32"
  shows "rd_bytes (wr_bytes m a bs) a (length bs) = bs"
proof (rule nth_equalityI)
  fix i assume "i < length (rd_bytes (wr_bytes m a bs) a (length bs))"
  then have i: "i < length bs" by (simp add: rd_bytes_def)
  with assms have "i < 2 ^ 64" by simp
  then have "unat (of_nat i :: u64) = i" by (simp add: unat_of_nat)
  with i show "rd_bytes (wr_bytes m a bs) a (length bs) ! i = bs ! i"
    by (simp add: rd_bytes_def wr_bytes_def)
qed (simp add: rd_bytes_def)

lemma rd_wr_u64 [simp]: "rd_u64 (wr_u64 m a v) a = v"
  using rd_wr_bytes [of "le_bytes 8 v" m a] by (simp add: rd_u64_def wr_u64_def of_le_le_bytes)

lemma rd_wr_u32 [simp]: "rd_u32 (wr_u32 m a v) a = v"
  using rd_wr_bytes [of "le_bytes 4 v" m a] by (simp add: rd_u32_def wr_u32_def of_le_le_bytes)

lemma wr_bytes_other:
  "length bs \<le> unat (x - a) \<Longrightarrow> mem_bytes (wr_bytes m a bs) x = mem_bytes m x"
  by (simp add: wr_bytes_def)

text \<open>A read below a write does not see it.\<close>

lemma rd_bytes_below:
  assumes "unat a + n \<le> unat b" and "unat b + length bs \<le> 2 ^ 64"
  shows "rd_bytes (wr_bytes m b bs) a n = rd_bytes m a n"
  unfolding rd_bytes_def
proof (rule map_cong [OF refl])
  fix i assume "i \<in> set [0..<n]"
  then have i: "i < n" by simp
  have x: "unat (a + of_nat i) = unat a + i"
  proof -
    have "unat a + i < 2 ^ 64" using i assms(1) u64_lt [of b] by simp
    then show ?thesis by (simp add: unat_word_ariths unat_of_nat)
  qed
  have "length bs \<le> unat (a + of_nat i - b)"
  proof -
    have "a + of_nat i < b" using x i assms(1) by (simp add: word_less_nat_alt)
    then have "unat (a + of_nat i - b) = 2 ^ 64 + unat (a + of_nat i) - unat b"
      by (simp add: unat_sub_if_size word_less_nat_alt word_size)
    then show ?thesis using x i assms by simp
  qed
  then show "mem_bytes (wr_bytes m b bs) (a + of_nat i) = mem_bytes m (a + of_nat i)"
    by (rule wr_bytes_other)
qed

lemma wr_bytes_sel [simp]:
  "mem_size (wr_bytes m a bs) = mem_size m" "mem_mapped (wr_bytes m a bs) = mem_mapped m"
  by (simp_all add: wr_bytes_def)

lemma ret_sel [simp]:
  "rax (ret_rax c v) = v" "rsp (ret_rax c v) = rsp c + 8" "rax (ret_rc c rc) = sext64 rc"
  "rsp (ret_rc c rc) = rsp c + 8"
  by (simp_all add: ret_rax_def shim_return_def ret_rc_def)

end
