(* ===== verification/GuestFlags.thy ===== *)
theory GuestFlags
  imports GuestMem
begin

unbundle bit_operations_syntax

text \<open>
  The inline helpers of \<open>core/recomp_context.h\<close> that recompiled guest code calls: the flag
  setters, the parity flag, the CRC32 steps and the x87 register stack. The flag setters of
  the four widths have the same text up to the width, so one definition per operation is
  generic in the word length and each C function is its instance.
\<close>

section \<open>Flag setters\<close>

definition top_bit :: "'a::len word \<Rightarrow> u8" where
  "top_bit w = of_bool (bit (drop_bit (LENGTH('a) - 1) w AND 1) 0)"

definition flags_add :: "guest_ctx \<Rightarrow> 'a::len word \<Rightarrow> 'a word \<Rightarrow> 'a word \<Rightarrow> guest_ctx" where
  "flags_add c a b res = c\<lparr>cf := of_bool (res < a), zf := of_bool (res = 0), sf := top_bit res,
     ovf := top_bit (NOT (a XOR b) AND (a XOR res))\<rparr>"

definition flags_sub :: "guest_ctx \<Rightarrow> 'a::len word \<Rightarrow> 'a word \<Rightarrow> 'a word \<Rightarrow> guest_ctx" where
  "flags_sub c a b res = c\<lparr>cf := of_bool (a < b), zf := of_bool (res = 0), sf := top_bit res,
     ovf := top_bit ((a XOR b) AND (a XOR res))\<rparr>"

definition flags_logic :: "guest_ctx \<Rightarrow> 'a::len word \<Rightarrow> guest_ctx" where
  "flags_logic c res = c\<lparr>cf := 0, ovf := 0, zf := of_bool (res = 0), sf := top_bit res\<rparr>"

text \<open>The most negative value is \<open>2 ^ (w - 1)\<close>: \<open>0x80\<close> for 8 bits and so on.\<close>

definition flags_inc :: "guest_ctx \<Rightarrow> 'a::len word \<Rightarrow> 'a word \<Rightarrow> guest_ctx" where
  "flags_inc c a res = c\<lparr>zf := of_bool (res = 0), sf := top_bit res,
     ovf := of_bool (res = 2 ^ (LENGTH('a) - 1))\<rparr>"

definition flags_dec :: "guest_ctx \<Rightarrow> 'a::len word \<Rightarrow> 'a word \<Rightarrow> guest_ctx" where
  "flags_dec c a res = c\<lparr>zf := of_bool (res = 0), sf := top_bit res,
     ovf := of_bool (a = 2 ^ (LENGTH('a) - 1))\<rparr>"

definition set_flags_add_u64 :: "guest_ctx \<Rightarrow> u64 \<Rightarrow> u64 \<Rightarrow> u64 \<Rightarrow> guest_ctx" where
  "set_flags_add_u64 c a b res = flags_add c a b res"
definition set_flags_sub_u64 :: "guest_ctx \<Rightarrow> u64 \<Rightarrow> u64 \<Rightarrow> u64 \<Rightarrow> guest_ctx" where
  "set_flags_sub_u64 c a b res = flags_sub c a b res"
definition set_flags_logic_u64 :: "guest_ctx \<Rightarrow> u64 \<Rightarrow> guest_ctx" where
  "set_flags_logic_u64 c res = flags_logic c res"
definition set_flags_inc_u64 :: "guest_ctx \<Rightarrow> u64 \<Rightarrow> u64 \<Rightarrow> guest_ctx" where
  "set_flags_inc_u64 c a res = flags_inc c a res"
definition set_flags_dec_u64 :: "guest_ctx \<Rightarrow> u64 \<Rightarrow> u64 \<Rightarrow> guest_ctx" where
  "set_flags_dec_u64 c a res = flags_dec c a res"

definition set_flags_add_u32 :: "guest_ctx \<Rightarrow> u32 \<Rightarrow> u32 \<Rightarrow> u32 \<Rightarrow> guest_ctx" where
  "set_flags_add_u32 c a b res = flags_add c a b res"
definition set_flags_sub_u32 :: "guest_ctx \<Rightarrow> u32 \<Rightarrow> u32 \<Rightarrow> u32 \<Rightarrow> guest_ctx" where
  "set_flags_sub_u32 c a b res = flags_sub c a b res"
definition set_flags_logic_u32 :: "guest_ctx \<Rightarrow> u32 \<Rightarrow> guest_ctx" where
  "set_flags_logic_u32 c res = flags_logic c res"
definition set_flags_inc_u32 :: "guest_ctx \<Rightarrow> u32 \<Rightarrow> u32 \<Rightarrow> guest_ctx" where
  "set_flags_inc_u32 c a res = flags_inc c a res"
definition set_flags_dec_u32 :: "guest_ctx \<Rightarrow> u32 \<Rightarrow> u32 \<Rightarrow> guest_ctx" where
  "set_flags_dec_u32 c a res = flags_dec c a res"

definition set_flags_add_u16 :: "guest_ctx \<Rightarrow> u16 \<Rightarrow> u16 \<Rightarrow> u16 \<Rightarrow> guest_ctx" where
  "set_flags_add_u16 c a b res = flags_add c a b res"
definition set_flags_sub_u16 :: "guest_ctx \<Rightarrow> u16 \<Rightarrow> u16 \<Rightarrow> u16 \<Rightarrow> guest_ctx" where
  "set_flags_sub_u16 c a b res = flags_sub c a b res"
definition set_flags_logic_u16 :: "guest_ctx \<Rightarrow> u16 \<Rightarrow> guest_ctx" where
  "set_flags_logic_u16 c res = flags_logic c res"
definition set_flags_inc_u16 :: "guest_ctx \<Rightarrow> u16 \<Rightarrow> u16 \<Rightarrow> guest_ctx" where
  "set_flags_inc_u16 c a res = flags_inc c a res"
definition set_flags_dec_u16 :: "guest_ctx \<Rightarrow> u16 \<Rightarrow> u16 \<Rightarrow> guest_ctx" where
  "set_flags_dec_u16 c a res = flags_dec c a res"

definition set_flags_add_u8 :: "guest_ctx \<Rightarrow> u8 \<Rightarrow> u8 \<Rightarrow> u8 \<Rightarrow> guest_ctx" where
  "set_flags_add_u8 c a b res = flags_add c a b res"
definition set_flags_sub_u8 :: "guest_ctx \<Rightarrow> u8 \<Rightarrow> u8 \<Rightarrow> u8 \<Rightarrow> guest_ctx" where
  "set_flags_sub_u8 c a b res = flags_sub c a b res"
definition set_flags_logic_u8 :: "guest_ctx \<Rightarrow> u8 \<Rightarrow> guest_ctx" where
  "set_flags_logic_u8 c res = flags_logic c res"
definition set_flags_inc_u8 :: "guest_ctx \<Rightarrow> u8 \<Rightarrow> u8 \<Rightarrow> guest_ctx" where
  "set_flags_inc_u8 c a res = flags_inc c a res"
definition set_flags_dec_u8 :: "guest_ctx \<Rightarrow> u8 \<Rightarrow> u8 \<Rightarrow> guest_ctx" where
  "set_flags_dec_u8 c a res = flags_dec c a res"

lemmas set_flags_defs =
  set_flags_add_u64_def set_flags_add_u32_def set_flags_add_u16_def set_flags_add_u8_def
  set_flags_sub_u64_def set_flags_sub_u32_def set_flags_sub_u16_def set_flags_sub_u8_def
  set_flags_logic_u64_def set_flags_logic_u32_def set_flags_logic_u16_def set_flags_logic_u8_def
  set_flags_inc_u64_def set_flags_inc_u32_def set_flags_inc_u16_def set_flags_inc_u8_def
  set_flags_dec_u64_def set_flags_dec_u32_def set_flags_dec_u16_def set_flags_dec_u8_def

section \<open>Parity, CRC32 and the x87 stack\<close>

text \<open>\<open>!__builtin_parity(val)\<close>: one for an even number of set bits.\<close>

definition compute_parity :: "u8 \<Rightarrow> u8" where
  "compute_parity val = of_bool (even (length (filter (bit val) [0..<8])))"

definition crc_step :: "u32 \<Rightarrow> u32" where
  "crc_step crc = drop_bit 1 crc XOR (0x82F63B78 AND (- (crc AND 1)))"

definition recomp_crc32_u8 :: "u32 \<Rightarrow> u8 \<Rightarrow> u32" where
  "recomp_crc32_u8 crc val = (crc_step ^^ 8) (crc XOR ucast val)"

definition recomp_crc32_u16 :: "u32 \<Rightarrow> u16 \<Rightarrow> u32" where
  "recomp_crc32_u16 crc val =
     recomp_crc32_u8 (recomp_crc32_u8 crc (ucast val)) (ucast (drop_bit 8 val))"

definition recomp_crc32_u32 :: "u32 \<Rightarrow> u32 \<Rightarrow> u32" where
  "recomp_crc32_u32 crc val =
     recomp_crc32_u16 (recomp_crc32_u16 crc (ucast val)) (ucast (drop_bit 16 val))"

definition recomp_crc32_u64 :: "u64 \<Rightarrow> u64 \<Rightarrow> u64" where
  "recomp_crc32_u64 crc val =
     ucast (recomp_crc32_u32 (recomp_crc32_u32 (ucast crc) (ucast val)) (ucast (drop_bit 32 val)))"

definition fpu_push :: "guest_ctx \<Rightarrow> u64 \<Rightarrow> guest_ctx" where
  "fpu_push c v = (let t = (fpu_top c - 1) AND 7
     in c\<lparr>fpu_top := t, fpu_stack := (fpu_stack c)[unat t := v]\<rparr>)"

definition fpu_pop :: "guest_ctx \<Rightarrow> u64 \<times> guest_ctx" where
  "fpu_pop c = (fpu_stack c ! unat (fpu_top c), c\<lparr>fpu_top := (fpu_top c + 1) AND 7\<rparr>)"

definition FPU_ST :: "guest_ctx \<Rightarrow> i32 \<Rightarrow> u64" where
  "FPU_ST c i = fpu_stack c ! unat ((fpu_top c + i) AND 7)"

section \<open>Signed readings\<close>

lemma top_bit_bit: "top_bit (w :: 'a::len word) = of_bool (bit w (LENGTH('a) - Suc 0))"
  by (simp add: top_bit_def bit_simps)

lemma top_bit_sint: "top_bit w = of_bool (sint w < 0)"
  by (simp add: top_bit_bit bit_last_iff)

lemma sint_range:
  fixes w :: "'a::len word"
  shows "- (2 ^ (LENGTH('a) - 1)) \<le> sint w" and "sint w < 2 ^ (LENGTH('a) - 1)"
  using sint_ge [of w] sint_lt [of w] by simp_all

lemma sint_wraps:
  fixes w :: "'a::len word"
  assumes "sint w = signed_take_bit (LENGTH('a) - 1) k"
  shows "\<exists>q. sint w = k + q * (2 * 2 ^ (LENGTH('a) - 1))"
proof -
  have l: "Suc (LENGTH('a) - 1) = LENGTH('a)" by simp
  have "take_bit (Suc (LENGTH('a) - 1)) (sint w) = take_bit (Suc (LENGTH('a) - 1)) k"
    unfolding assms by (simp add: take_bit_signed_take_bit)
  then have "sint w mod (2 * 2 ^ (LENGTH('a) - 1)) = k mod (2 * 2 ^ (LENGTH('a) - 1))"
    unfolding take_bit_eq_mod power_Suc by simp
  then have "2 * 2 ^ (LENGTH('a) - 1) dvd sint w - k" by (simp only: mod_eq_dvd_iff)
  then obtain q where "sint w - k = 2 * 2 ^ (LENGTH('a) - 1) * q" by (rule dvdE)
  then show ?thesis by (intro exI [of _ q]) (simp add: algebra_simps)
qed

text \<open>A signed value that wraps does so once: the sign rule decides whether it did.\<close>

lemma sign_rule:
  fixes N x y z q :: int
  assumes "- N \<le> x" "x < N" "- N \<le> y" "y < N" "- N \<le> z" "z < N" and z: "z = x + y + q * (2 * N)"
  shows "(x < 0) = (y < 0) \<and> (x < 0) \<noteq> (z < 0) \<longleftrightarrow> x + y < - N \<or> N \<le> x + y"
proof -
  have N: "0 < N" using assms(1,2) by simp
  have "q * (2 * N) < 2 * (2 * N)" "- 2 * (2 * N) < q * (2 * N)" using assms by linarith+
  then have "q < 2" "- 2 < q" using N by (simp_all only: mult_less_cancel_right)
  then consider "q = -1" | "q = 0" | "q = 1" by linarith
  then show ?thesis using assms by cases auto
qed

lemma add_overflow_bit:
  fixes a b :: "'a::len word"
  shows "top_bit (NOT (a XOR b) AND (a XOR (a + b))) =
    of_bool (\<not> (- (2 ^ (LENGTH('a) - 1)) \<le> sint a + sint b \<and> sint a + sint b < 2 ^ (LENGTH('a) - 1)))"
proof -
  have "sint (a + b) = signed_take_bit (LENGTH('a) - 1) (sint a + sint b)"
    by (simp add: sint_word_ariths)
  from sint_wraps [OF this] obtain q where
    q: "sint (a + b) = sint a + sint b + q * (2 * 2 ^ (LENGTH('a) - 1))" ..
  note rule = sign_rule [OF sint_range [of a] sint_range [of b] sint_range [of "a + b"] q]
  have "top_bit (NOT (a XOR b) AND (a XOR (a + b))) =
      of_bool ((sint a < 0) = (sint b < 0) \<and> (sint a < 0) \<noteq> (sint (a + b) < 0))"
    unfolding top_bit_bit bit_last_iff [symmetric] by (auto simp: bit_simps)
  then show ?thesis unfolding rule by (simp only: not_le not_less de_Morgan_conj)
qed

lemma sub_overflow_bit:
  fixes a b :: "'a::len word"
  shows "top_bit ((a XOR b) AND (a XOR (a - b))) =
    of_bool (\<not> (- (2 ^ (LENGTH('a) - 1)) \<le> sint a - sint b \<and> sint a - sint b < 2 ^ (LENGTH('a) - 1)))"
proof -
  let ?N = "2 ^ (LENGTH('a) - 1) :: int"
  have "sint (a - b) = signed_take_bit (LENGTH('a) - 1) (sint a - sint b)"
    by (simp add: sint_word_ariths)
  from sint_wraps [OF this] obtain q where q: "sint (a - b) = sint a - sint b + q * (2 * ?N)" ..
  have q': "sint (a - b) = sint a + (- 1 - sint b) + q * (2 * ?N) + 1" using q by simp
  have "(sint a < 0) \<noteq> (sint b < 0) \<and> (sint a < 0) \<noteq> (sint (a - b) < 0)
      \<longleftrightarrow> sint a - sint b < - ?N \<or> ?N \<le> sint a - sint b"
  proof -
    have N: "0 < ?N" by simp
    note r = sint_range [of a] sint_range [of b] sint_range [of "a - b"]
    have "q * (2 * ?N) < 2 * (2 * ?N)" "- 2 * (2 * ?N) < q * (2 * ?N)" using q r by linarith+
    then have "q < 2" "- 2 < q" using N by (simp_all only: mult_less_cancel_right)
    then consider "q = -1" | "q = 0" | "q = 1" by linarith
    then show ?thesis using q r by cases auto
  qed
  moreover have "top_bit ((a XOR b) AND (a XOR (a - b))) =
      of_bool ((sint a < 0) \<noteq> (sint b < 0) \<and> (sint a < 0) \<noteq> (sint (a - b) < 0))"
    unfolding top_bit_bit bit_last_iff [symmetric] by (auto simp: bit_simps)
  ultimately show ?thesis by (simp only: not_le not_less de_Morgan_conj)
qed


lemma add_carry:
  fixes a b :: "'a::len word"
  shows "a + b < a \<longleftrightarrow> 2 ^ LENGTH('a) \<le> unat a + unat b"
proof (cases "unat a + unat b < 2 ^ LENGTH('a)")
  case True
  then have "unat (a + b) = unat a + unat b" by (simp add: unat_word_ariths)
  with True show ?thesis by (simp add: word_less_nat_alt)
next
  case False
  have "unat a + unat b - 2 ^ LENGTH('a) < 2 ^ LENGTH('a)"
    using unsigned_less [of a, where ?'a = nat] unsigned_less [of b, where ?'a = nat] by linarith
  then have "unat (a + b) = unat a + unat b - 2 ^ LENGTH('a)"
    using False by (simp add: unat_word_ariths le_mod_geq)
  moreover have "unat a + unat b - 2 ^ LENGTH('a) < unat a"
    using False unsigned_less [of b, where ?'a = nat] by linarith
  ultimately show ?thesis using False by (simp add: word_less_nat_alt)
qed

lemma sint_min: "sint (2 ^ (LENGTH('a) - 1) :: 'a::len word) = - (2 ^ (LENGTH('a) - 1))"
proof -
  let ?m = "2 ^ (LENGTH('a) - 1) :: 'a word"
  have l: "Suc (LENGTH('a) - 1) = LENGTH('a)" by simp
  have "?m + ?m = 2 ^ Suc (LENGTH('a) - 1)" unfolding power_Suc by simp
  also have "\<dots> = 0" unfolding l by simp
  finally have "?m = - ?m" by (simp add: eq_neg_iff_add_eq_0)
  then have "?m = word_of_int (- (2 ^ (LENGTH('a) - 1)))" by simp
  then have "sint ?m = signed_take_bit (LENGTH('a) - 1) (- (2 ^ (LENGTH('a) - 1)))"
    by (metis One_nat_def sint_sbintrunc')
  also have "\<dots> = - (2 ^ (LENGTH('a) - 1))"
    by (rule signed_take_bit_int_eq_self) simp_all
  finally show ?thesis .
qed

lemma is_min_iff: "(w :: 'a::len word) = 2 ^ (LENGTH('a) - 1) \<longleftrightarrow> sint w = - (2 ^ (LENGTH('a) - 1))"
  unfolding sint_min [symmetric] by (rule word_eq_iff_signed)

lemma inc_overflow:
  fixes a :: "'a::len word"
  shows "a + 1 = 2 ^ (LENGTH('a) - 1) \<longleftrightarrow> 2 ^ (LENGTH('a) - 1) \<le> sint a + 1"
proof -
  let ?N = "2 ^ (LENGTH('a) - 1) :: int"
  have "a + 1 = word_of_int (sint a + 1)" by simp
  then have "sint (a + 1) = signed_take_bit (LENGTH('a) - 1) (sint a + 1)"
    by (simp only: sint_sbintrunc')
  from sint_wraps [OF this] obtain q where q: "sint (a + 1) = sint a + 1 + q * (2 * ?N)" ..
  note r = sint_range [of a] sint_range [of "a + 1"]
  have N: "0 < ?N" by simp
  have "q * (2 * ?N) < 1 * (2 * ?N)" "- 2 * (2 * ?N) < q * (2 * ?N)" using q r N by linarith+
  then have "q < 1" "- 2 < q" using N by (simp_all only: mult_less_cancel_right)
  then consider "q = -1" | "q = 0" by linarith
  then show ?thesis unfolding is_min_iff using q r by cases auto
qed

lemma dec_overflow:
  fixes a :: "'a::len word"
  shows "a = 2 ^ (LENGTH('a) - 1) \<longleftrightarrow> sint a - 1 < - (2 ^ (LENGTH('a) - 1))"
  unfolding is_min_iff using sint_range(1) [of a] by auto

section \<open>What the flags say\<close>

text \<open>The architectural meaning of the flags after \<open>ADD\<close>, \<open>SUB\<close>/\<open>CMP\<close>, \<open>INC\<close> and \<open>DEC\<close>.\<close>

definition signed_fits :: "'a::len itself \<Rightarrow> int \<Rightarrow> bool" where
  "signed_fits T k \<longleftrightarrow> - (2 ^ (LENGTH('a) - 1)) \<le> k \<and> k < 2 ^ (LENGTH('a) - 1)"

definition result_flags :: "'a::len word \<Rightarrow> guest_ctx \<Rightarrow> bool" where
  "result_flags res c \<longleftrightarrow> zf c = of_bool (res = 0) \<and> sf c = of_bool (sint res < 0)"

definition add_flags :: "'a::len word \<Rightarrow> 'a word \<Rightarrow> guest_ctx \<Rightarrow> bool" where
  "add_flags a b c \<longleftrightarrow> result_flags (a + b) c
     \<and> cf c = of_bool (2 ^ LENGTH('a) \<le> unat a + unat b)
     \<and> ovf c = of_bool (\<not> signed_fits TYPE('a) (sint a + sint b))"

definition sub_flags :: "'a::len word \<Rightarrow> 'a word \<Rightarrow> guest_ctx \<Rightarrow> bool" where
  "sub_flags a b c \<longleftrightarrow> result_flags (a - b) c
     \<and> cf c = of_bool (unat a < unat b)
     \<and> ovf c = of_bool (\<not> signed_fits TYPE('a) (sint a - sint b))"

definition inc_flags :: "guest_ctx \<Rightarrow> 'a::len word \<Rightarrow> guest_ctx \<Rightarrow> bool" where
  "inc_flags c0 a c \<longleftrightarrow> result_flags (a + 1) c \<and> cf c = cf c0
     \<and> ovf c = of_bool (\<not> signed_fits TYPE('a) (sint a + 1))"

definition dec_flags :: "guest_ctx \<Rightarrow> 'a::len word \<Rightarrow> guest_ctx \<Rightarrow> bool" where
  "dec_flags c0 a c \<longleftrightarrow> result_flags (a - 1) c \<and> cf c = cf c0
     \<and> ovf c = of_bool (\<not> signed_fits TYPE('a) (sint a - 1))"

lemma flags_add_spec: "add_flags a b (flags_add c a b (a + b))"
  by (simp add: add_flags_def result_flags_def flags_add_def top_bit_sint [of "a + b"]
      add_overflow_bit add_carry signed_fits_def)

lemma flags_sub_spec: "sub_flags a b (flags_sub c a b (a - b))"
  by (simp add: sub_flags_def result_flags_def flags_sub_def top_bit_sint [of "a - b"]
      sub_overflow_bit word_less_nat_alt signed_fits_def)

lemma flags_inc_spec: "inc_flags c a (flags_inc c a (a + 1))"
  unfolding inc_flags_def result_flags_def flags_inc_def signed_fits_def inc_overflow top_bit_sint
  using sint_range(1) [of a] by simp

lemma flags_dec_spec: "dec_flags c a (flags_dec c a (a - 1))"
  unfolding dec_flags_def result_flags_def flags_dec_def signed_fits_def dec_overflow top_bit_sint
  using sint_range(2) [of a] by simp

text \<open>
  After an addition, a subtraction, an increment or a decrement of any width the flag
  setters leave the flags the architecture defines: carry is the unsigned carry or borrow (and
  kept by \<open>INC\<close> and \<open>DEC\<close>), overflow says that the signed result does not fit, zero and sign
  are those of the result.
\<close>

theorem set_flags_architectural:
  "add_flags a64 b64 (set_flags_add_u64 c a64 b64 (a64 + b64))
   \<and> add_flags a32 b32 (set_flags_add_u32 c a32 b32 (a32 + b32))
   \<and> add_flags a16 b16 (set_flags_add_u16 c a16 b16 (a16 + b16))
   \<and> add_flags a8 b8 (set_flags_add_u8 c a8 b8 (a8 + b8))
   \<and> sub_flags a64 b64 (set_flags_sub_u64 c a64 b64 (a64 - b64))
   \<and> sub_flags a32 b32 (set_flags_sub_u32 c a32 b32 (a32 - b32))
   \<and> sub_flags a16 b16 (set_flags_sub_u16 c a16 b16 (a16 - b16))
   \<and> sub_flags a8 b8 (set_flags_sub_u8 c a8 b8 (a8 - b8))
   \<and> inc_flags c a64 (set_flags_inc_u64 c a64 (a64 + 1))
   \<and> inc_flags c a32 (set_flags_inc_u32 c a32 (a32 + 1))
   \<and> inc_flags c a16 (set_flags_inc_u16 c a16 (a16 + 1))
   \<and> inc_flags c a8 (set_flags_inc_u8 c a8 (a8 + 1))
   \<and> dec_flags c a64 (set_flags_dec_u64 c a64 (a64 - 1))
   \<and> dec_flags c a32 (set_flags_dec_u32 c a32 (a32 - 1))
   \<and> dec_flags c a16 (set_flags_dec_u16 c a16 (a16 - 1))
   \<and> dec_flags c a8 (set_flags_dec_u8 c a8 (a8 - 1))"
  unfolding set_flags_defs
  by (intro conjI flags_add_spec flags_sub_spec flags_inc_spec flags_dec_spec)

text \<open>
  The condition codes read off the flags of a comparison decide the comparison: equal by
  zero, unsigned below by carry, signed less by sign against overflow.
\<close>

theorem cmp_condition_codes:
  fixes a b :: u64
  shows "(zf (set_flags_sub_u64 c a b (a - b)) = 1 \<longleftrightarrow> a = b)
    \<and> (cf (set_flags_sub_u64 c a b (a - b)) = 1 \<longleftrightarrow> unat a < unat b)
    \<and> (sf (set_flags_sub_u64 c a b (a - b)) \<noteq> ovf (set_flags_sub_u64 c a b (a - b)) \<longleftrightarrow> sint a < sint b)"
proof -
  let ?c = "set_flags_sub_u64 c a b (a - b)"
  have f: "sub_flags a b ?c" unfolding set_flags_defs by (rule flags_sub_spec)
  have "sint (a - b) = signed_take_bit (LENGTH(64) - 1) (sint a - sint b)"
    by (simp add: sint_word_ariths)
  from sint_wraps [OF this] obtain q where q: "sint (a - b) = sint a - sint b + q * 18446744073709551616"
    by auto
  have r: "- 9223372036854775808 \<le> sint a" "sint a < 9223372036854775808"
    "- 9223372036854775808 \<le> sint b" "sint b < 9223372036854775808"
    "- 9223372036854775808 \<le> sint (a - b)" "sint (a - b) < 9223372036854775808"
    using sint_range [of a] sint_range [of b] sint_range [of "a - b"] by simp_all
  have "- 2 < q" "q < 2" using q r by linarith+
  then consider "q = -1" | "q = 0" | "q = 1" by linarith
  then have "(sint (a - b) < 0) \<noteq> (\<not> signed_fits TYPE(64) (sint a - sint b)) \<longleftrightarrow> sint a < sint b"
    using q r by cases (auto simp: signed_fits_def)
  then show ?thesis
    using f by (auto simp: sub_flags_def result_flags_def)
qed

section \<open>The x87 register stack\<close>

definition fpu_wf :: "guest_ctx \<Rightarrow> bool" where
  "fpu_wf c \<longleftrightarrow> length (fpu_stack c) = 8 \<and> fpu_top c < 8"

lemma and_7_mod: "unat (x AND 7 :: i32) = unat x mod 8"
proof -
  have "x AND 7 = take_bit 3 x" by (simp add: take_bit_eq_mask mask_eq_exp_minus_1)
  then show ?thesis by (simp only: unsigned_take_bit_eq) (simp add: take_bit_eq_mod)
qed

lemma word_zero_less_7: "0 < (7 :: i32)"
  by simp

lemma and_7_less: "x AND 7 < (8 :: i32)"
  by (simp add: word_less_nat_alt and_7_mod)

lemma and_7_idem: "x < (8 :: i32) \<Longrightarrow> x AND 7 = x"
  by (simp add: word_unat_eq_iff and_7_mod word_less_nat_alt)

lemma and_7_add: "((x AND 7) + y) AND 7 = (x + y) AND (7 :: i32)"
  by (simp add: word_unat_eq_iff and_7_mod unat_word_ariths mod_mod_cancel mod_add_left_eq)

text \<open>
  The x87 register file is a stack of depth eight: a push makes the value \<open>ST(0)\<close> and moves
  every other register up by one (\<open>ST(i)\<close> becomes \<open>ST(i + 1)\<close>, the eighth is overwritten), and
  a pop returns \<open>ST(0)\<close> and undoes the push.
\<close>

theorem fpu_stack_discipline:
  assumes "fpu_wf c"
  shows "fpu_wf (fpu_push c v) \<and> FPU_ST (fpu_push c v) 0 = v
    \<and> (\<forall>i < 7. FPU_ST (fpu_push c v) (i + 1) = FPU_ST c i)
    \<and> fst (fpu_pop c) = FPU_ST c 0 \<and> fpu_wf (snd (fpu_pop c))
    \<and> fst (fpu_pop (fpu_push c v)) = v \<and> fpu_top (snd (fpu_pop (fpu_push c v))) = fpu_top c"
proof -
  let ?t = "(fpu_top c - 1) AND 7"
  have t8: "unat ?t < 8" by (simp add: and_7_mod)
  have top: "fpu_top c AND 7 = fpu_top c" using assms by (simp add: fpu_wf_def and_7_idem)
  have bk: "(?t + 1) AND 7 = fpu_top c" using top by (simp add: and_7_add)
  have keep: "FPU_ST (fpu_push c v) (i + 1) = FPU_ST c i" if "i < 7" for i
  proof -
    have "(?t + (i + 1)) AND 7 = (fpu_top c - 1 + (i + 1)) AND 7" by (rule and_7_add)
    then have e: "(?t + (i + 1)) AND 7 = (fpu_top c + i) AND 7" by (simp add: algebra_simps)
    have "unat ((fpu_top c + i) AND 7) \<noteq> unat ?t"
    proof
      assume "unat ((fpu_top c + i) AND 7) = unat ?t"
      then have "(fpu_top c + i) AND 7 = ?t" by (simp only: word_unat_eq_iff)
      then have "((fpu_top c + i) + (1 - fpu_top c)) AND 7 = (fpu_top c - 1 + (1 - fpu_top c)) AND 7"
        by (metis and_7_add)
      then have "(i + 1) AND 7 = 0" by (simp add: algebra_simps)
      then have "unat (i + 1) mod 8 = 0" by (metis and_7_mod unat_eq_0)
      moreover have "unat (i + 1) = unat i + 1"
        using that by (simp add: word_less_nat_alt unat_word_ariths)
      ultimately show False using that by (simp add: word_less_nat_alt)
    qed
    then show ?thesis by (simp add: FPU_ST_def fpu_push_def Let_def e)
  qed
  have "?t AND 7 = ?t" by (simp add: and.assoc)
  then show ?thesis
    using assms t8 keep bk top
    by (simp add: fpu_wf_def FPU_ST_def fpu_push_def fpu_pop_def Let_def and_7_less)
qed

theorem fpu_stack_discipline_witness:
  "FPU_ST (fpu_push (fpu_push \<lparr>rax = 0, rcx = 0, rdx = 0, rbx = 0, rsp = 0, rbp = 0, rsi = 0, rdi = 0,
     r8 = 0, r9 = 0, r10 = 0, r11 = 0, rip = 0, fs_base = 0, cf = 0, zf = 0, sf = 0, ovf = 0, pf = 0,
     af = 0, fpu_stack = replicate 8 0, fpu_top = 0, thread_id = 0\<rparr> 5) 6) 1 = 5"
proof -
  let ?c = "\<lparr>rax = 0, rcx = 0, rdx = 0, rbx = 0, rsp = 0, rbp = 0, rsi = 0, rdi = 0,
     r8 = 0, r9 = 0, r10 = 0, r11 = 0, rip = 0, fs_base = 0, cf = 0, zf = 0, sf = 0, ovf = 0, pf = 0,
     af = 0, fpu_stack = replicate 8 0, fpu_top = 0, thread_id = 0\<rparr>"
  have w: "fpu_wf ?c" by (simp add: fpu_wf_def)
  have "fpu_wf (fpu_push ?c 5) \<and> FPU_ST (fpu_push ?c 5) 0 = 5"
    using fpu_stack_discipline [OF w, of 5] by blast
  moreover from this have "FPU_ST (fpu_push (fpu_push ?c 5) 6) (0 + 1) = FPU_ST (fpu_push ?c 5) 0"
    using fpu_stack_discipline [of "fpu_push ?c 5" 6] by (metis (no_types) word_zero_less_7)
  ultimately show ?thesis by simp
qed

section \<open>The CRC step\<close>

lemma crc_step_xor: "crc_step (x XOR y) = crc_step x XOR crc_step y"
proof -
  have neg1: "- (z AND 1) = (if bit z 0 then - 1 else 0)" for z :: u32
    by (auto simp: and_one_eq odd_iff_mod_2_eq_one bit_0)
  show ?thesis
    unfolding crc_step_def neg1 by (rule bit_word_eqI) (auto simp: bit_simps)
qed

lemma crc_steps_xor: "(crc_step ^^ n) (x XOR y) = (crc_step ^^ n) x XOR (crc_step ^^ n) y"
  by (induction n) (simp_all add: crc_step_xor)

text \<open>
  The CRC32C update is linear over exclusive or in the pair of state and byte, so the state
  after a message and the message's contribution separate, whatever the width of the step.
\<close>

theorem crc32_linear:
  "recomp_crc32_u8 (c XOR d) (v XOR w) = recomp_crc32_u8 c v XOR recomp_crc32_u8 d w
   \<and> recomp_crc32_u16 (c XOR d) (v2 XOR w2) = recomp_crc32_u16 c v2 XOR recomp_crc32_u16 d w2
   \<and> recomp_crc32_u32 (c XOR d) (v4 XOR w4) = recomp_crc32_u32 c v4 XOR recomp_crc32_u32 d w4"
proof -
  have u8: "recomp_crc32_u8 (c XOR d) (v XOR w) = recomp_crc32_u8 c v XOR recomp_crc32_u8 d w" for c d v w
  proof -
    have e: "(c XOR d) XOR ucast (v XOR w) = (c XOR ucast v) XOR (d XOR ucast w)"
      by (rule bit_word_eqI) (auto simp: bit_simps)
    show ?thesis unfolding recomp_crc32_u8_def e by (rule crc_steps_xor)
  qed
  have c16: "ucast (x XOR y) = (ucast x XOR ucast y :: u8)"
    "ucast (drop_bit 8 (x XOR y)) = (ucast (drop_bit 8 x) XOR ucast (drop_bit 8 y) :: u8)" for x y :: u16
    by (rule bit_word_eqI, auto simp: bit_simps)+
  have u16: "recomp_crc32_u16 (c XOR d) (v XOR w) = recomp_crc32_u16 c v XOR recomp_crc32_u16 d w" for c d v w
    unfolding recomp_crc32_u16_def c16 by (simp only: u8)
  have c32: "ucast (x XOR y) = (ucast x XOR ucast y :: u16)"
    "ucast (drop_bit 16 (x XOR y)) = (ucast (drop_bit 16 x) XOR ucast (drop_bit 16 y) :: u16)" for x y :: u32
    by (rule bit_word_eqI, auto simp: bit_simps)+
  have u32: "recomp_crc32_u32 (c XOR d) (v XOR w) = recomp_crc32_u32 c v XOR recomp_crc32_u32 d w" for c d v w
    unfolding recomp_crc32_u32_def c32 by (simp only: u16)
  show ?thesis using u8 u16 u32 by blast
qed

end
