(* ===== verification/Ranges.thy ===== *)
theory Ranges
  imports Prelude
begin

text \<open>
  Lists of address ranges. The runtime keeps three such lists (virtual memory extents,
  direct memory blocks, direct memory mappings), each a linked list of records with a start
  and a size. This theory holds what they share: the lookup by address that the C code
  writes as a scan over the list, the invariant that the ranges do not wrap around and do
  not overlap, and the splice lemmas for replacing one element of the list by pieces of it.
  The functions \<open>lo\<close> and \<open>sz\<close> select the start and the size of an element.
\<close>

definition covers :: "('b \<Rightarrow> u64) \<Rightarrow> ('b \<Rightarrow> u64) \<Rightarrow> u64 \<Rightarrow> 'b \<Rightarrow> bool" where
  "covers lo sz a b \<longleftrightarrow> in_range (lo b) (sz b) a"

definition apart :: "('b \<Rightarrow> u64) \<Rightarrow> ('b \<Rightarrow> u64) \<Rightarrow> 'b \<Rightarrow> 'b \<Rightarrow> bool" where
  "apart lo sz b c \<longleftrightarrow> (\<forall>a. \<not> (covers lo sz a b \<and> covers lo sz a c))"

definition ranges_ok :: "('b \<Rightarrow> u64) \<Rightarrow> ('b \<Rightarrow> u64) \<Rightarrow> 'b list \<Rightarrow> bool" where
  "ranges_ok lo sz bs \<longleftrightarrow> (\<forall>b \<in> set bs. no_wrap (lo b) (sz b)) \<and> sorted_wrt (apart lo sz) bs"

definition range_lookup :: "('b \<Rightarrow> u64) \<Rightarrow> ('b \<Rightarrow> u64) \<Rightarrow> 'b list \<Rightarrow> u64 \<Rightarrow> 'b option" where
  "range_lookup lo sz bs a = List.find (covers lo sz a) bs"

lemma apart_sym: "apart lo sz b c \<longleftrightarrow> apart lo sz c b"
  by (auto simp: apart_def)

lemma ranges_ok_Nil [simp]: "ranges_ok lo sz []"
  by (simp add: ranges_ok_def)

lemma ranges_ok_Cons:
  "ranges_ok lo sz (b # bs) \<longleftrightarrow>
     no_wrap (lo b) (sz b) \<and> (\<forall>c \<in> set bs. apart lo sz b c) \<and> ranges_ok lo sz bs"
  by (auto simp: ranges_ok_def)

lemma ranges_ok_append:
  "ranges_ok lo sz (bs @ cs) \<longleftrightarrow>
     ranges_ok lo sz bs \<and> ranges_ok lo sz cs \<and> (\<forall>b \<in> set bs. \<forall>c \<in> set cs. apart lo sz b c)"
  by (auto simp: ranges_ok_def sorted_wrt_append)

lemma range_lookup_Nil [simp]: "range_lookup lo sz [] a = None"
  by (simp add: range_lookup_def)

lemma range_lookup_Cons:
  "range_lookup lo sz (b # bs) a = (if covers lo sz a b then Some b else range_lookup lo sz bs a)"
  by (simp add: range_lookup_def)

lemma range_lookup_append:
  "range_lookup lo sz (bs @ cs) a =
     (case range_lookup lo sz bs a of Some b \<Rightarrow> Some b | None \<Rightarrow> range_lookup lo sz cs a)"
  by (induction bs) (auto simp: range_lookup_Cons)

lemma range_lookup_None_iff:
  "range_lookup lo sz bs a = None \<longleftrightarrow> (\<forall>b \<in> set bs. \<not> covers lo sz a b)"
  by (auto simp: range_lookup_def find_None_iff)

lemma range_lookup_SomeD:
  "range_lookup lo sz bs a = Some b \<Longrightarrow> b \<in> set bs \<and> covers lo sz a b"
  by (auto simp: range_lookup_def find_Some_iff)

text \<open>In a well-formed list at most one element covers an address, so the scan finds it.\<close>

lemma range_lookup_unique:
  "ranges_ok lo sz bs \<Longrightarrow> b \<in> set bs \<Longrightarrow> covers lo sz a b \<Longrightarrow> range_lookup lo sz bs a = Some b"
  by (induction bs) (auto simp: range_lookup_Cons ranges_ok_Cons apart_def)

section \<open>Splicing: one element replaced by pieces of it\<close>

definition pieces_of :: "('b \<Rightarrow> u64) \<Rightarrow> ('b \<Rightarrow> u64) \<Rightarrow> 'b \<Rightarrow> 'b list \<Rightarrow> bool" where
  "pieces_of lo sz e ps \<longleftrightarrow>
     ranges_ok lo sz ps \<and> (\<forall>p \<in> set ps. \<forall>a. covers lo sz a p \<longrightarrow> covers lo sz a e)"

lemma splice_ranges_ok:
  assumes "ranges_ok lo sz (xs @ e # ys)" and "pieces_of lo sz e ps"
  shows "ranges_ok lo sz (xs @ ps @ ys)"
  using assms unfolding ranges_ok_append ranges_ok_Cons pieces_of_def
  by (fastforce simp: apart_def)

lemma splice_lookup:
  assumes "ranges_ok lo sz (xs @ e # ys)" and "pieces_of lo sz e ps"
    and "covers lo sz a e \<Longrightarrow> \<exists>p \<in> set ps. covers lo sz a p"
  shows "range_lookup lo sz (xs @ ps @ ys) a =
    (if covers lo sz a e then range_lookup lo sz ps a else range_lookup lo sz (xs @ e # ys) a)"
proof (cases "covers lo sz a e")
  case True
  then have xs: "range_lookup lo sz xs a = None"
    using assms(1) by (auto simp: range_lookup_None_iff ranges_ok_append apart_def)
  have "range_lookup lo sz ps a \<noteq> None"
    using assms(3) [OF True] by (simp add: range_lookup_None_iff)
  with True xs show ?thesis
    by (auto simp: range_lookup_append split: option.splits)
next
  case False
  have "range_lookup lo sz ps a = None"
    using assms(2) False by (auto simp: range_lookup_None_iff pieces_of_def)
  with False show ?thesis
    by (auto simp: range_lookup_append range_lookup_Cons split: option.splits)
qed

lemma nth_split: "i < length bs \<Longrightarrow> bs = take i bs @ bs ! i # drop (Suc i) bs"
  by (rule id_take_nth_drop)

text \<open>A sequence of ranges laid end to end from \<open>a\<close> up to \<open>e\<close>.\<close>

fun tiles :: "('b \<Rightarrow> u64) \<Rightarrow> ('b \<Rightarrow> u64) \<Rightarrow> nat \<Rightarrow> 'b list \<Rightarrow> nat \<Rightarrow> bool" where
  "tiles lo sz a [] e = (a = e)"
| "tiles lo sz a (b # bs) e =
     (unat (lo b) = a \<and> 0 < sz b \<and> tiles lo sz (a + unat (sz b)) bs e)"

lemma tiles_append:
  "tiles lo sz a (bs @ cs) e \<longleftrightarrow> (\<exists>m. tiles lo sz a bs m \<and> tiles lo sz m cs e)"
  by (induction bs arbitrary: a) auto

lemma tiles_le: "tiles lo sz a bs e \<Longrightarrow> a \<le> e"
  by (induction bs arbitrary: a) force+

lemma tiles_mem:
  "tiles lo sz a bs e \<Longrightarrow> b \<in> set bs \<Longrightarrow>
     a \<le> unat (lo b) \<and> unat (lo b) + unat (sz b) \<le> e \<and> 0 < unat (sz b)"
proof (induction bs arbitrary: a)
  case Nil
  then show ?case by simp
next
  case (Cons c bs)
  then have t: "tiles lo sz (a + unat (sz c)) bs e" by simp
  show ?case
  proof (cases "b = c")
    case True
    with Cons.prems tiles_le [OF t] show ?thesis by (auto simp: word_less_nat_alt)
  next
    case False
    with Cons.prems Cons.IH [OF t] show ?thesis by auto
  qed
qed

text \<open>Laid end to end below \<open>2 ^ 64\<close>, the ranges neither wrap nor overlap.\<close>

lemma tiles_ranges_ok:
  "tiles lo sz a bs e \<Longrightarrow> e < 2 ^ 64 \<Longrightarrow> ranges_ok lo sz bs"
proof (induction bs arbitrary: a)
  case Nil
  then show ?case by simp
next
  case (Cons b bs)
  then have t: "tiles lo sz (a + unat (sz b)) bs e" by simp
  have nw: "no_wrap (lo b) (sz b)"
    using tiles_mem [OF Cons.prems(1), of b] Cons.prems(2) by (auto simp: no_wrap_def)
  have "apart lo sz b c" if "c \<in> set bs" for c
  proof -
    have m: "a + unat (sz b) \<le> unat (lo c) \<and> unat (lo c) + unat (sz c) \<le> e"
      using tiles_mem [OF t that] by auto
    then have "no_wrap (lo c) (sz c)" using Cons.prems(2) by (simp add: no_wrap_def)
    with m nw Cons.prems(1) show ?thesis
      by (auto simp: apart_def covers_def in_range_nat)
  qed
  with nw Cons.IH [OF t Cons.prems(2)] show ?case
    by (simp add: ranges_ok_Cons)
qed

end
