(* ===== verification/CParse.thy ===== *)
theory CParse
  imports Prelude
begin

text \<open>
  The part of \<open>strtoull\<close> the runtime uses to read sizes from environment variables: leading
  white space, a sign, the prefix of base 0 (hexadecimal, octal or decimal), the digits, and
  saturation at the largest value. The result is the value and the rest of the string, at
  which \<open>end\<close> points.
\<close>

definition is_space :: "char \<Rightarrow> bool" where
  "is_space c \<longleftrightarrow> c = CHR '' '' \<or> (9 \<le> (of_char c :: nat) \<and> (of_char c :: nat) \<le> 13)"

definition digit_val :: "char \<Rightarrow> nat option" where
  "digit_val c =
     (let k = (of_char c :: nat) in
      if 48 \<le> k \<and> k \<le> 57 then Some (k - 48)
      else if 97 \<le> k \<and> k \<le> 122 then Some (k - 87)
      else if 65 \<le> k \<and> k \<le> 90 then Some (k - 55)
      else None)"

fun read_digits :: "nat \<Rightarrow> nat \<Rightarrow> string \<Rightarrow> nat \<times> string" where
  "read_digits b acc [] = (acc, [])"
| "read_digits b acc (c # cs) =
     (case digit_val c of
        Some d \<Rightarrow> if d < b then read_digits b (acc * b + d) cs else (acc, c # cs)
      | None \<Rightarrow> (acc, c # cs))"

definition starts_digit :: "nat \<Rightarrow> string \<Rightarrow> bool" where
  "starts_digit b s = (case s of [] \<Rightarrow> False
     | c # _ \<Rightarrow> (case digit_val c of Some d \<Rightarrow> d < b | None \<Rightarrow> False))"

text \<open>The digits after the sign, with the base the prefix selects; \<open>None\<close> when there are none.\<close>

definition read_base0 :: "string \<Rightarrow> (nat \<times> string) option" where
  "read_base0 s =
     (case s of
        CHR ''0'' # x # r \<Rightarrow>
          if (x = CHR ''x'' \<or> x = CHR ''X'') \<and> starts_digit 16 r then Some (read_digits 16 0 r)
          else Some (read_digits 8 0 s)
      | _ \<Rightarrow> if starts_digit (if take 1 s = ''0'' then 8 else 10) s
             then Some (read_digits (if take 1 s = ''0'' then 8 else 10) 0 s) else None)"

definition strtoull0 :: "string \<Rightarrow> u64 \<times> string" where
  "strtoull0 s =
     (let t = dropWhile is_space s;
          neg = (take 1 t = ''-'');
          u = (if neg \<or> take 1 t = ''+'' then drop 1 t else t)
      in case read_base0 u of
           None \<Rightarrow> (0, s)
         | Some (n, r) \<Rightarrow>
             (if 2 ^ 64 \<le> n then (- 1, r) else (if neg then - of_nat n else of_nat n, r)))"

text \<open>A number with an optional suffix that scales it by a power of 1024.\<close>

definition scale_suffix :: "u64 \<Rightarrow> string \<Rightarrow> u64" where
  "scale_suffix val r =
     (case r of [] \<Rightarrow> val
      | c # _ \<Rightarrow>
        if c = CHR ''g'' \<or> c = CHR ''G'' then val * (1024 * 1024 * 1024)
        else if c = CHR ''m'' \<or> c = CHR ''M'' then val * (1024 * 1024)
        else if c = CHR ''k'' \<or> c = CHR ''K'' then val * 1024
        else val)"

text \<open>\<open>parse_mem_size_str\<close> of \<open>core/recomp_runtime.c\<close>.\<close>

definition parse_mem_size_str :: "string option \<Rightarrow> u64" where
  "parse_mem_size_str str =
     (case str of None \<Rightarrow> 0
      | Some s \<Rightarrow> if s = [] then 0 else (let (val, r) = strtoull0 s in scale_suffix val r))"

end
