(* ===== verification/DirectBlocks.thy ===== *)
theory DirectBlocks
  imports Ranges CParse GuestMem
begin

unbundle bit_operations_syntax

text \<open>
  Direct (physical) memory of \<open>kernel/memory/ps4_direct_mem.c\<close>: the size rule, the
  configuration from the process parameters, and the list of \<open>DirectMemBlock\<close> records with
  allocation, release and queries. Every operation holds \<open>g_direct_mutex\<close> for its whole body,
  so it is one function on the state. Physical addresses are \<open>off_t\<close>; block offsets are never
  negative, the comparisons with an argument are signed as in the source.
\<close>

section \<open>State\<close>

record block =
  blk_off :: i64
  blk_size :: u64
  blk_free :: bool
  blk_vaddr :: u64

record dmap =
  dm_vaddr :: u64
  dm_size :: u64
  dm_phys :: u64

text \<open>\<open>ds_phys\<close> is \<open>g_phys_size\<close> when \<open>g_phys_base\<close> is set.\<close>

record dstate =
  ds_blocks :: "block list"
  ds_maps :: "dmap list"
  ds_phys :: "u64 option"
  ds_inited :: bool
  ds_size :: u64
  ds_configured :: bool

text \<open>
  What the code reads from outside: the environment variable \<open>PS4_DIRECT_MEM_SIZE\<close>, Neo mode,
  whether \<open>PS4_NO_PHYS_ALIAS\<close> is set, and whether the \<open>mmap\<close> of the physical backing succeeds.
\<close>

record denv =
  env_size :: "string option"
  env_neo :: bool
  env_no_alias :: bool
  env_mmap_ok :: bool

definition dstate0 :: dstate where
  "dstate0 = \<lparr>ds_blocks = [], ds_maps = [], ds_phys = None, ds_inited = False, ds_size = 0,
     ds_configured = False\<rparr>"

section \<open>The size of direct memory\<close>

definition flexible_mem_size :: "bool \<Rightarrow> u64 \<Rightarrow> u64" where
  "flexible_mem_size has_flex flex = (if has_flex then flex + push_bit 20 64 else push_bit 20 512)"

definition ps4_direct_mem_size_rule :: "u32 \<Rightarrow> bool \<Rightarrow> bool \<Rightarrow> u64 \<Rightarrow> bool \<Rightarrow> bool \<Rightarrow> u64" where
  "ps4_direct_mem_size_rule sdk neo has_flex flex ext1 ext2 =
     (let mib = push_bit 20 1;
          total = (if neo then 5888 else 5248) * mib;
          flexible = flexible_mem_size has_flex flex;
          ext1' = (0x05000000 \<le> sdk \<or> ext1);
          ext2' = (0x05000000 \<le> sdk \<or> ext2);
          total1 = (if neo \<and> \<not> ext1' then total - 256 * mib else total);
          total2 = (if \<not> neo \<and> \<not> ext2' then total1 - 128 * mib else total1)
      in if flexible < total2 then total2 - flexible else 0)"

definition direct_mem_size_override :: "string option \<Rightarrow> u64" where
  "direct_mem_size_override env =
     (case env of None \<Rightarrow> 0
      | Some s \<Rightarrow> if s = [] then 0 else (let (val, r) = strtoull0 s in scale_suffix val r))"

definition get_total_direct_mem_size :: "denv \<Rightarrow> dstate \<Rightarrow> u64" where
  "get_total_direct_mem_size env d =
     (if ds_configured d then ds_size d else
      let over = direct_mem_size_override (env_size env) in
      if over \<noteq> 0 then over else ps4_direct_mem_size_rule 0 (env_neo env) False 0 False False)"

definition guest_read :: "guest_mem \<Rightarrow> u64 \<Rightarrow> nat \<Rightarrow> u8 list option" where
  "guest_read m addr n =
     (if \<not> mem_mapped m \<or> addr = 0 \<or> mem_size m < addr \<or> mem_size m - addr < of_nat n then None
      else Some (rd_bytes m addr n))"

definition guest_read_or0 :: "guest_mem \<Rightarrow> u64 \<Rightarrow> nat \<Rightarrow> 'a::len word" where
  "guest_read_or0 m addr n = (case guest_read m addr n of None \<Rightarrow> 0 | Some bs \<Rightarrow> of_le bs)"

text \<open>The fields of the process parameters: sdk, flexible size if any, and the two flags.\<close>

definition direct_mem_params :: "guest_mem \<Rightarrow> u64 \<Rightarrow> u64 \<times> bool \<times> u64 \<times> bool \<times> bool" where
  "direct_mem_params m pp =
     (let pp_size = (guest_read_or0 m pp 8 :: u64);
          sdk = (if 0x18 \<le> pp_size then guest_read_or0 m (pp + 0x10) 8 else 0);
          mp = (if 0x48 \<le> pp_size then guest_read_or0 m (pp + 0x40) 8 else 0);
          mp_size = (guest_read_or0 m mp 8 :: u64);
          flex = (if 0x18 \<le> mp_size then
                    (case guest_read m (mp + 0x10) 8 of None \<Rightarrow> None
                     | Some p \<Rightarrow> guest_read m (of_le p) 8)
                  else None);
          ext1 = (if 0x20 \<le> mp_size then
                    (case guest_read m (mp + 0x18) 8 of None \<Rightarrow> 0
                     | Some p \<Rightarrow> (guest_read_or0 m (of_le p) 1 :: u8))
                  else 0);
          ext2 = (if 0x30 \<le> mp_size then
                    (case guest_read m (mp + 0x28) 8 of None \<Rightarrow> 0
                     | Some p \<Rightarrow> (guest_read_or0 m (of_le p) 1 :: u8))
                  else 0)
      in (sdk, flex \<noteq> None, (case flex of None \<Rightarrow> 0 | Some bs \<Rightarrow> of_le bs), ext1 \<noteq> 0, ext2 \<noteq> 0))"

text \<open>The size \<open>ps4_direct_mem_configure\<close> asks for.\<close>

definition configured_total :: "denv \<Rightarrow> guest_mem \<Rightarrow> u64 \<Rightarrow> u64" where
  "configured_total env m pp =
     (let (sdk, has_flex, flex, ext1, ext2) = direct_mem_params m pp;
          size = ps4_direct_mem_size_rule (ucast sdk) (env_neo env) has_flex flex ext1 ext2;
          over = direct_mem_size_override (env_size env)
      in if over \<noteq> 0 then over else size)"

text \<open>Direct memory that already exists is resized at its free end, or not at all.\<close>

definition ps4_direct_mem_configure :: "denv \<Rightarrow> guest_mem \<Rightarrow> u64 \<Rightarrow> dstate \<Rightarrow> dstate" where
  "ps4_direct_mem_configure env m pp d =
     (let total = configured_total env m pp;
          old_total = get_total_direct_mem_size env d;
          bs = ds_blocks d;
          lst = last bs;
          resize = (bs \<noteq> [] \<and> blk_free lst \<and> blk_off lst + blk_size lst = old_total
                    \<and> (old_total < total \<or> old_total - total \<le> blk_size lst));
          (bs', total') =
            (if ds_inited d \<and> total \<noteq> old_total then
               (if resize then (butlast bs @ [lst\<lparr>blk_size := total - blk_off lst\<rparr>], total)
                else (bs, old_total))
             else (bs, total))
      in d\<lparr>ds_blocks := bs', ds_size := total', ds_configured := True\<rparr>)"

section \<open>Init and destroy\<close>

definition dm_phys_init :: "denv \<Rightarrow> dstate \<Rightarrow> dstate" where
  "dm_phys_init env d =
     (if ds_phys d \<noteq> None \<or> env_no_alias env \<or> \<not> env_mmap_ok env then d
      else d\<lparr>ds_phys := Some (push_bit 30 128)\<rparr>)"

definition ps4_direct_mem_init :: "bool \<Rightarrow> denv \<Rightarrow> dstate \<Rightarrow> i32 \<times> dstate" where
  "ps4_direct_mem_init calloc_ok env d =
     (if ds_inited d then (0, d)
      else if \<not> calloc_ok then (-1, d\<lparr>ds_blocks := []\<rparr>)
      else (0, dm_phys_init env (d\<lparr>ds_blocks :=
              [\<lparr>blk_off = 0, blk_size = get_total_direct_mem_size env d, blk_free = True, blk_vaddr = 0\<rparr>],
              ds_inited := True\<rparr>)))"

definition ps4_direct_mem_destroy :: "dstate \<Rightarrow> dstate" where
  "ps4_direct_mem_destroy d = d\<lparr>ds_blocks := [], ds_inited := False\<rparr>"

definition sceKernelGetDirectMemorySize :: "denv \<Rightarrow> dstate \<Rightarrow> u64" where
  "sceKernelGetDirectMemorySize env d = get_total_direct_mem_size env d"

definition free_total :: "block list \<Rightarrow> u64" where
  "free_total bs = fold (\<lambda>b acc. if blk_free b then acc + blk_size b else acc) bs 0"

definition sceKernelAvailableDirectMemorySize :: "bool \<Rightarrow> denv \<Rightarrow> dstate \<Rightarrow> u64 \<times> dstate" where
  "sceKernelAvailableDirectMemorySize calloc_ok env d =
     (let d' = snd (ps4_direct_mem_init calloc_ok env d) in (free_total (ds_blocks d'), d'))"

section \<open>Allocation\<close>

text \<open>
  The search loop: the first free block that holds the aligned range; the loop ends without a
  block when the candidate passes the end of the search range, since blocks are in address
  order.
\<close>

fun dm_scan :: "u64 \<Rightarrow> i64 \<Rightarrow> i64 \<Rightarrow> u64 \<Rightarrow> nat \<Rightarrow> block list \<Rightarrow> (nat \<times> u64) option" where
  "dm_scan al lo hi n i [] = None"
| "dm_scan al lo hi n i (b # bs) =
     (if \<not> blk_free b then dm_scan al lo hi n (Suc i) bs else
      let block_start = blk_off b;
          block_end = block_start + blk_size b;
          from_a = (if lo < block_start then block_start else lo);
          start = align_up from_a al
      in if start < from_a \<or> block_end < start + n then dm_scan al lo hi n (Suc i) bs
         else if hi < start + n then None
         else Some (i, start))"

definition dm_carve :: "block \<Rightarrow> u64 \<Rightarrow> u64 \<Rightarrow> block list" where
  "dm_carve b start n =
     (let front_pad = start - blk_off b;
          pad = (if front_pad \<noteq> 0
                 then [\<lparr>blk_off = blk_off b, blk_size = front_pad, blk_free = True, blk_vaddr = 0\<rparr>] else []);
          off = (if front_pad \<noteq> 0 then start else blk_off b);
          rest = blk_size b - front_pad;
          tl_blk = (if n < rest
                  then [\<lparr>blk_off = off + n, blk_size = rest - n, blk_free = True, blk_vaddr = 0\<rparr>] else []);
          cur = b\<lparr>blk_off := off, blk_size := (if n < rest then n else rest), blk_free := False\<rparr>
      in pad @ [cur] @ tl_blk)"

text \<open>
  The result is the error, or the physical address written to \<open>*physAddrOut\<close>; \<open>out_null\<close>
  says the pointer is NULL, \<open>pad_ok\<close> and \<open>tail_ok\<close> whether the two allocations succeed.
\<close>

definition sceKernelAllocateDirectMemory ::
    "bool \<Rightarrow> bool \<Rightarrow> bool \<Rightarrow> denv \<Rightarrow> dstate \<Rightarrow> bool \<Rightarrow> i64 \<Rightarrow> i64 \<Rightarrow> u64 \<Rightarrow> u64 \<Rightarrow> (i32 + i64) \<times> dstate" where
  "sceKernelAllocateDirectMemory init_ok pad_ok tail_ok env d out_null searchStart searchEnd len alignment =
     (if out_null \<or> len = 0 \<or> sint searchStart < 0 \<or> sint searchEnd < 0 then (Inl KERR_EINVAL, d) else
      let al = (if alignment = 0 then 4096 else alignment);
          n = align_up len al
      in if sint searchEnd \<le> sint searchStart \<or> searchEnd - searchStart < n then (Inl KERR_EAGAIN, d) else
         let d1 = snd (ps4_direct_mem_init init_ok env d);
             bs = ds_blocks d1
         in case dm_scan al searchStart searchEnd n 0 bs of
              None \<Rightarrow> (Inl KERR_EAGAIN, d1)
            | Some (i, start) \<Rightarrow>
                (let b = bs ! i; front_pad = start - blk_off b in
                 if front_pad \<noteq> 0 \<and> \<not> pad_ok \<or> n < blk_size b - front_pad \<and> \<not> tail_ok
                 then (Inl KERR_EAGAIN, d1)
                 else (Inr (if front_pad \<noteq> 0 then start else blk_off b),
                       d1\<lparr>ds_blocks := take i bs @ dm_carve b start n @ drop (Suc i) bs\<rparr>)))"

definition sceKernelAllocateMainDirectMemory ::
    "bool \<Rightarrow> bool \<Rightarrow> bool \<Rightarrow> denv \<Rightarrow> dstate \<Rightarrow> bool \<Rightarrow> u64 \<Rightarrow> u64 \<Rightarrow> (i32 + i64) \<times> dstate" where
  "sceKernelAllocateMainDirectMemory init_ok pad_ok tail_ok env d out_null len alignment =
     sceKernelAllocateDirectMemory init_ok pad_ok tail_ok env d out_null 0
       (sceKernelGetDirectMemorySize env d) len alignment"

text \<open>\<open>EAGAIN\<close> becomes \<open>ENOMEM\<close> for the memory pools.\<close>

definition sceKernelMemoryPoolExpand ::
    "bool \<Rightarrow> bool \<Rightarrow> bool \<Rightarrow> denv \<Rightarrow> dstate \<Rightarrow> bool \<Rightarrow> i64 \<Rightarrow> i64 \<Rightarrow> u64 \<Rightarrow> u64 \<Rightarrow> (i32 + i64) \<times> dstate" where
  "sceKernelMemoryPoolExpand init_ok pad_ok tail_ok env d out_null searchStart searchEnd len alignment =
     (if len = 0 \<or> out_null \<or> sint searchStart < 0 \<or> sint searchEnd \<le> sint searchStart
      then (Inl KERR_EINVAL, d) else
      let al = (if alignment = 0 then 64 * 1024 else alignment) in
      case sceKernelAllocateDirectMemory init_ok pad_ok tail_ok env d out_null searchStart searchEnd len al of
        (Inl rc, d') \<Rightarrow> (Inl (if rc = KERR_EAGAIN then KERR_ENOMEM else rc), d')
      | (Inr a, d') \<Rightarrow> (Inr a, d'))"

section \<open>Release and queries\<close>

definition dm_merge_next :: "block \<Rightarrow> block list \<Rightarrow> block \<times> block list" where
  "dm_merge_next b rest =
     (case rest of [] \<Rightarrow> (b, [])
      | n # r \<Rightarrow> if blk_free n then (b\<lparr>blk_size := blk_size b + blk_size n\<rparr>, r) else (b, rest))"

definition dm_merge_prev :: "block list \<Rightarrow> block \<Rightarrow> block list" where
  "dm_merge_prev pre b =
     (if pre \<noteq> [] \<and> blk_free (last pre)
      then butlast pre @ [(last pre)\<lparr>blk_size := blk_size (last pre) + blk_size b\<rparr>]
      else pre @ [b])"

fun dm_find_block :: "(block \<Rightarrow> bool) \<Rightarrow> nat \<Rightarrow> block list \<Rightarrow> nat option" where
  "dm_find_block p i [] = None"
| "dm_find_block p i (b # bs) = (if p b then Some i else dm_find_block p (Suc i) bs)"

definition sceKernelReleaseDirectMemory :: "bool \<Rightarrow> denv \<Rightarrow> dstate \<Rightarrow> i64 \<Rightarrow> u64 \<Rightarrow> i32 \<times> dstate" where
  "sceKernelReleaseDirectMemory init_ok env d physAddr len =
     (let d1 = snd (ps4_direct_mem_init init_ok env d); bs = ds_blocks d1 in
      case dm_find_block (\<lambda>b. \<not> blk_free b \<and> blk_off b = physAddr) 0 bs of
        None \<Rightarrow> (KERR_EINVAL, d1)
      | Some i \<Rightarrow>
          (let (b, rest) = dm_merge_next ((bs ! i)\<lparr>blk_free := True, blk_vaddr := 0\<rparr>) (drop (Suc i) bs)
           in (0, d1\<lparr>ds_blocks := dm_merge_prev (take i bs) b @ rest\<rparr>)))"

definition sceKernelCheckedReleaseDirectMemory ::
    "bool \<Rightarrow> denv \<Rightarrow> dstate \<Rightarrow> i64 \<Rightarrow> u64 \<Rightarrow> i32 \<times> dstate" where
  "sceKernelCheckedReleaseDirectMemory init_ok env d physAddr len =
     (if physAddr AND 0x3fff \<noteq> 0 \<or> len AND 0x3fff \<noteq> 0 then (KERR_EINVAL, d)
      else if len = 0 then (0, d)
      else sceKernelReleaseDirectMemory init_ok env d physAddr len)"

text \<open>The query returns the start and end of the block; \<open>memoryType\<close> is always 0.\<close>

definition dm_query_hit :: "i64 \<Rightarrow> i32 \<Rightarrow> block \<Rightarrow> bool" where
  "dm_query_hit offset flags b \<longleftrightarrow>
     (let bend = blk_off b + blk_size b in
      if flags = 1 then \<not> blk_free b \<and> sint offset < sint bend
      else sint (blk_off b) \<le> sint offset \<and> sint offset < sint bend)"

definition sceKernelDirectMemoryQuery ::
    "bool \<Rightarrow> denv \<Rightarrow> dstate \<Rightarrow> i64 \<Rightarrow> i32 \<Rightarrow> bool \<Rightarrow> u64 \<Rightarrow> (i32 + u64 \<times> u64 \<times> i32) \<times> dstate" where
  "sceKernelDirectMemoryQuery init_ok env d offset flags info_null infoSize =
     (if info_null \<or> infoSize < 24 then (Inl KERR_EINVAL, d) else
      let d1 = snd (ps4_direct_mem_init init_ok env d) in
      case List.find (dm_query_hit offset flags) (ds_blocks d1) of
        None \<Rightarrow> (Inl KERR_EACCES, d1)
      | Some b \<Rightarrow>
          if blk_free b then (Inl KERR_EACCES, d1)
          else (Inr (blk_off b, blk_off b + blk_size b, 0), d1))"

text \<open>
  The search of \<open>shim_sceKernelAvailableDirectMemorySize\<close> with output pointers: the first free
  range in the searched part, not the largest one.
\<close>

fun dm_avail_scan :: "u64 \<Rightarrow> u64 \<Rightarrow> u64 \<Rightarrow> block list \<Rightarrow> u64 \<times> u64" where
  "dm_avail_scan lo hi al [] = (0, 0)"
| "dm_avail_scan lo hi al (b # bs) =
     (let b_start = blk_off b; b_end = b_start + blk_size b in
      if blk_free b \<and> lo < b_end \<and> b_start < hi then
        (let cand0 = (if b_start < lo then lo else b_start);
             cand = (if 0 < al then align_up cand0 al else cand0);
             cand_end = (if hi < b_end then hi else b_end)
         in if cand < cand_end then (cand, cand_end - cand) else dm_avail_scan lo hi al bs)
      else dm_avail_scan lo hi al bs)"

definition dm_available_range :: "denv \<Rightarrow> dstate \<Rightarrow> u64 \<Rightarrow> u64 \<Rightarrow> u64 \<Rightarrow> u64 \<times> u64" where
  "dm_available_range env d searchStart searchEnd alignment =
     (let total = get_total_direct_mem_size env d;
          hi = (if searchEnd = 0 \<or> total < searchEnd then total else searchEnd)
      in if searchStart < hi then dm_avail_scan searchStart hi alignment (ds_blocks d) else (0, 0))"

section \<open>Aliases of physical memory\<close>

text \<open>
  \<open>dm_alias\<close>, the branch for hosts that can alias (\<open>mach_vm_remap\<close>): \<open>remap_ok\<close> is the
  result of the call, \<open>alloc_ok\<close> whether the record can be allocated. \<open>mem_sz\<close> is the guest
  memory size.
\<close>

definition dm_alias :: "bool \<Rightarrow> bool \<Rightarrow> u64 \<Rightarrow> dstate \<Rightarrow> u64 \<Rightarrow> u64 \<Rightarrow> u64 \<Rightarrow> i32 \<times> dstate" where
  "dm_alias remap_ok alloc_ok mem_sz d vaddr phys len =
     (case ds_phys d of
        None \<Rightarrow> (-1, d)
      | Some psize \<Rightarrow>
          if (vaddr OR phys OR len) AND 0x3fff \<noteq> 0 \<or> psize < phys + len \<or> mem_sz < vaddr + len then (-1, d)
          else if \<not> remap_ok then (-1, d)
          else (0, if alloc_ok then d\<lparr>ds_maps := \<lparr>dm_vaddr = vaddr, dm_size = len, dm_phys = phys\<rparr> # ds_maps d\<rparr>
                   else d))"

text \<open>
  \<open>ps4_direct_mem_on_unmap\<close> on the list: a mapping loses its part in the range. The tail
  record of a mapping that is cut in two starts at the end of the range, so the loop, which
  goes on at the tail, steps over it.
\<close>

fun dm_unmap :: "bool \<Rightarrow> u64 \<Rightarrow> u64 \<Rightarrow> dmap list \<Rightarrow> dmap list" where
  "dm_unmap ok addr end_a [] = []"
| "dm_unmap ok addr end_a (m # ms) =
     (let mend = dm_vaddr m + dm_size m in
      if end_a \<le> dm_vaddr m \<or> mend \<le> addr then m # dm_unmap ok addr end_a ms else
      let ostart = (if addr < dm_vaddr m then dm_vaddr m else addr);
          oend = (if mend < end_a then mend else end_a)
      in if dm_vaddr m < ostart \<and> oend < mend then
           m\<lparr>dm_size := ostart - dm_vaddr m\<rparr>
           # (if ok then [\<lparr>dm_vaddr = oend, dm_size = mend - oend, dm_phys = dm_phys m + (oend - dm_vaddr m)\<rparr>]
              else [])
           @ dm_unmap ok addr end_a ms
         else if dm_vaddr m < ostart then m\<lparr>dm_size := ostart - dm_vaddr m\<rparr> # dm_unmap ok addr end_a ms
         else if oend < mend then
           m\<lparr>dm_phys := dm_phys m + (oend - dm_vaddr m), dm_size := mend - oend, dm_vaddr := oend\<rparr>
           # dm_unmap ok addr end_a ms
         else dm_unmap ok addr end_a ms)"

definition ps4_direct_mem_on_unmap :: "bool \<Rightarrow> u64 \<Rightarrow> u64 \<Rightarrow> dstate \<Rightarrow> dstate" where
  "ps4_direct_mem_on_unmap ok addr sz d =
     (if sz = 0 then d else d\<lparr>ds_maps := dm_unmap ok addr (addr + sz) (ds_maps d)\<rparr>)"

definition dm_lookup :: "dstate \<Rightarrow> u64 \<Rightarrow> (u64 \<times> u64 \<times> u64) option" where
  "dm_lookup d addr =
     (case List.find (\<lambda>m. dm_vaddr m \<le> addr \<and> addr < dm_vaddr m + dm_size m) (ds_maps d) of
        None \<Rightarrow> None
      | Some m \<Rightarrow> Some (dm_vaddr m, dm_vaddr m + dm_size m, dm_phys m))"

end
