(* ===== verification/DirectView.thy ===== *)
theory DirectView
  imports DirectBlocks
begin

unbundle bit_operations_syntax

text \<open>
  The abstract state of direct memory and what its operations do to it. \<open>free_at bs a\<close> says
  that physical address \<open>a\<close> (a natural number) is in a free block. \<open>blocks_wf\<close> is the
  invariant: the blocks lie end to end from 0 to the total size. \<open>merged\<close> says that no two
  neighbours are both free, so that a free range of addresses lies in one block.
\<close>

section \<open>Abstract view and invariant\<close>

abbreviation blk_tiles :: "nat \<Rightarrow> block list \<Rightarrow> nat \<Rightarrow> bool" where
  "blk_tiles \<equiv> tiles blk_off blk_size"

definition blk_has :: "nat \<Rightarrow> block \<Rightarrow> bool" where
  "blk_has a b \<longleftrightarrow> unat (blk_off b) \<le> a \<and> a < unat (blk_off b) + unat (blk_size b)"

definition free_at :: "block list \<Rightarrow> nat \<Rightarrow> bool" where
  "free_at bs a \<longleftrightarrow> (\<exists>b \<in> set bs. blk_free b \<and> blk_has a b)"

definition merged :: "block list \<Rightarrow> bool" where
  "merged bs \<longleftrightarrow> successively (\<lambda>b c. \<not> (blk_free b \<and> blk_free c)) bs"

definition blocks_wf :: "u64 \<Rightarrow> block list \<Rightarrow> bool" where
  "blocks_wf tot bs \<longleftrightarrow> blk_tiles 0 bs (unat tot) \<and> unat tot < 2 ^ 63 \<and> merged bs"

lemma free_at_Nil [simp]: "\<not> free_at [] a"
  by (simp add: free_at_def)

lemma free_at_Cons: "free_at (b # bs) a \<longleftrightarrow> blk_free b \<and> blk_has a b \<or> free_at bs a"
  by (auto simp: free_at_def)

lemma free_at_append: "free_at (xs @ ys) a \<longleftrightarrow> free_at xs a \<or> free_at ys a"
  by (auto simp: free_at_def)

lemma free_at_range: "blk_tiles x bs e \<Longrightarrow> free_at bs a \<Longrightarrow> x \<le> a \<and> a < e"
  using tiles_mem by (fastforce simp: free_at_def blk_has_def)

lemma merged_Cons: "merged (b # bs) \<longleftrightarrow> (bs = [] \<or> \<not> (blk_free b \<and> blk_free (hd bs))) \<and> merged bs"
  by (cases bs) (auto simp: merged_def)

lemma merged_append:
  "merged (xs @ ys) \<longleftrightarrow> merged xs \<and> merged ys
     \<and> (xs = [] \<or> ys = [] \<or> \<not> (blk_free (last xs) \<and> blk_free (hd ys)))"
  by (auto simp: merged_def successively_append_iff)

lemma merged_Nil [simp]: "merged []"
  by (simp add: merged_def)

lemma tiles_split:
  assumes "blk_tiles x (xs @ b # ys) e"
  shows "blk_tiles x xs (unat (blk_off b))" and "0 < unat (blk_size b)"
    and "blk_tiles (unat (blk_off b) + unat (blk_size b)) ys e"
  using assms by (auto simp: tiles_append word_less_nat_alt)

lemma tiles_splice:
  assumes "blk_tiles x (xs @ b # ys) e"
    and "blk_tiles (unat (blk_off b)) ps (unat (blk_off b) + unat (blk_size b))"
  shows "blk_tiles x (xs @ ps @ ys) e"
  using tiles_split [OF assms(1)] assms(2) by (auto simp: tiles_append)

lemma free_at_splice:
  assumes "blk_tiles x (xs @ b # ys) e"
    and "blk_tiles (unat (blk_off b)) ps (unat (blk_off b) + unat (blk_size b))"
  shows "free_at (xs @ ps @ ys) a =
    (if blk_has a b then free_at ps a else free_at (xs @ b # ys) a)"
proof -
  note s = tiles_split [OF assms(1)]
  have "blk_has a b \<Longrightarrow> \<not> free_at xs a \<and> \<not> free_at ys a"
    using free_at_range [OF s(1), of a] free_at_range [OF s(3), of a] by (auto simp: blk_has_def)
  moreover have "\<not> blk_has a b \<Longrightarrow> \<not> free_at ps a"
    using free_at_range [OF assms(2), of a] by (auto simp: blk_has_def)
  ultimately show ?thesis by (auto simp: free_at_append free_at_Cons)
qed

text \<open>In a merged list a range of free addresses lies in one free block.\<close>

lemma free_range_in_block:
  "blk_tiles x bs e \<Longrightarrow> merged bs \<Longrightarrow> 0 < n \<Longrightarrow> \<forall>a. s \<le> a \<and> a < s + n \<longrightarrow> free_at bs a \<Longrightarrow>
     \<exists>k < length bs. blk_free (bs ! k) \<and> unat (blk_off (bs ! k)) \<le> s
       \<and> s + n \<le> unat (blk_off (bs ! k)) + unat (blk_size (bs ! k))"
proof (induction bs arbitrary: x)
  case Nil
  then show ?case by (metis free_at_Nil le_refl less_add_same_cancel1)
next
  case (Cons b bs)
  let ?stop = "unat (blk_off b) + unat (blk_size b)"
  have t: "blk_tiles ?stop bs e" and b: "unat (blk_off b) = x" "0 < unat (blk_size b)"
    using Cons.prems(1) by (auto simp: word_less_nat_alt)
  have in_s: "free_at (b # bs) s" using Cons.prems(3,4) by simp
  then have xs: "x \<le> s" using free_at_range [OF Cons.prems(1)] by simp
  show ?case
  proof (cases "s < ?stop")
    case True
    then have nb: "\<not> free_at bs s" using free_at_range [OF t] by fastforce
    with in_s have fb: "blk_free b" by (simp add: free_at_Cons)
    have "s + n \<le> ?stop"
    proof (rule ccontr)
      assume "\<not> s + n \<le> ?stop"
      then have "free_at (b # bs) ?stop" using True Cons.prems(4) by simp
      then have fe: "free_at bs ?stop" by (auto simp: free_at_Cons blk_has_def)
      then obtain c cs where bs: "bs = c # cs" by (cases bs) auto
      have c: "unat (blk_off c) = ?stop" "0 < unat (blk_size c)"
        "blk_tiles (?stop + unat (blk_size c)) cs e"
        using t bs by (auto simp: word_less_nat_alt)
      have "\<not> free_at cs ?stop" using free_at_range [OF c(3)] c(2) by fastforce
      with fe bs have "blk_free c" by (simp add: free_at_Cons)
      with fb bs Cons.prems(2) show False by (simp add: merged_Cons)
    qed
    with fb b xs show ?thesis by (intro exI [of _ 0]) simp
  next
    case False
    have "merged bs" using Cons.prems(2) by (simp add: merged_Cons)
    moreover have "\<forall>a. s \<le> a \<and> a < s + n \<longrightarrow> free_at bs a"
      using Cons.prems(4) False by (auto simp: free_at_Cons blk_has_def)
    ultimately obtain k where "k < length bs" "blk_free (bs ! k)" "unat (blk_off (bs ! k)) \<le> s"
      "s + n \<le> unat (blk_off (bs ! k)) + unat (blk_size (bs ! k))"
      using Cons.IH [OF t] Cons.prems(3) by blast
    then show ?thesis by (intro exI [of _ "Suc k"]) simp
  qed
qed

text \<open>Blocks are in address order.\<close>

lemma tiles_nth_order:
  "blk_tiles x bs e \<Longrightarrow> m < k \<Longrightarrow> k < length bs \<Longrightarrow>
     unat (blk_off (bs ! m)) + unat (blk_size (bs ! m)) \<le> unat (blk_off (bs ! k))"
proof (induction bs arbitrary: x m k)
  case Nil
  then show ?case by simp
next
  case (Cons b bs)
  then obtain k' where k: "k = Suc k'" by (cases k) auto
  have t: "blk_tiles (x + unat (blk_size b)) bs e" and x: "unat (blk_off b) = x" using Cons.prems(1) by auto
  show ?case
  proof (cases m)
    case 0
    have "bs ! k' \<in> set bs" using Cons.prems(3) k by simp
    from tiles_mem [OF t this] x 0 k show ?thesis by simp
  next
    case (Suc m')
    with Cons.IH [OF t] Cons.prems k show ?thesis by simp
  qed
qed

section \<open>The search loop\<close>

definition dm_from :: "i64 \<Rightarrow> block \<Rightarrow> u64" where
  "dm_from lo b = (if lo < blk_off b then blk_off b else lo)"

definition dm_fit :: "u64 \<Rightarrow> i64 \<Rightarrow> u64 \<Rightarrow> block \<Rightarrow> bool" where
  "dm_fit al lo n b \<longleftrightarrow> blk_free b \<and> \<not> (align_up (dm_from lo b) al < dm_from lo b
     \<or> blk_off b + blk_size b < align_up (dm_from lo b) al + n)"

lemma dm_scan_Cons:
  "dm_scan al lo hi n i (b # bs) =
     (if dm_fit al lo n b
      then (if hi < align_up (dm_from lo b) al + n then None else Some (i, align_up (dm_from lo b) al))
      else dm_scan al lo hi n (Suc i) bs)"
  by (simp add: Let_def dm_fit_def dm_from_def)

lemma dm_scan_SomeD:
  "dm_scan al lo hi n i bs = Some (j, s) \<Longrightarrow>
     \<exists>k < length bs. j = i + k \<and> dm_fit al lo n (bs ! k) \<and> s = align_up (dm_from lo (bs ! k)) al
       \<and> \<not> hi < s + n \<and> (\<forall>m < k. \<not> dm_fit al lo n (bs ! m))"
proof (induction bs arbitrary: i)
  case Nil
  then show ?case by simp
next
  case (Cons b bs)
  show ?case
  proof (cases "dm_fit al lo n b")
    case True
    with Cons.prems show ?thesis
      unfolding dm_scan_Cons by (intro exI [of _ 0]) (auto split: if_splits)
  next
    case False
    with Cons.prems Cons.IH [of "Suc i"] obtain k where
      "k < length bs" "j = Suc i + k" "dm_fit al lo n (bs ! k)"
      "s = align_up (dm_from lo (bs ! k)) al" "\<not> hi < s + n" "\<forall>m < k. \<not> dm_fit al lo n (bs ! m)"
      unfolding dm_scan_Cons by auto
    with False show ?thesis by (intro exI [of _ "Suc k"]) (auto simp: less_Suc_eq_0_disj)
  qed
qed

lemma dm_scan_NoneD:
  "dm_scan al lo hi n i bs = None \<Longrightarrow> k < length bs \<Longrightarrow> dm_fit al lo n (bs ! k) \<Longrightarrow>
     \<exists>m \<le> k. dm_fit al lo n (bs ! m) \<and> hi < align_up (dm_from lo (bs ! m)) al + n"
proof (induction bs arbitrary: i k)
  case Nil
  then show ?case by simp
next
  case (Cons b bs)
  show ?case
  proof (cases "dm_fit al lo n b")
    case True
    with Cons.prems(1) show ?thesis
      unfolding dm_scan_Cons by (intro exI [of _ 0]) (auto split: if_splits)
  next
    case False
    with Cons.prems(3) obtain k' where k: "k = Suc k'" by (cases k) auto
    have "dm_scan al lo hi n (Suc i) bs = None" using Cons.prems(1) False unfolding dm_scan_Cons by simp
    from Cons.IH [OF this, of k'] Cons.prems(2,3) k obtain m where
      "m \<le> k'" "dm_fit al lo n (bs ! m)" "hi < align_up (dm_from lo (bs ! m)) al + n" by auto
    with k show ?thesis by (intro exI [of _ "Suc m"]) simp
  qed
qed

section \<open>The search in natural numbers\<close>

lemma pow2_half:
  assumes "is_pow2 al"
  shows "unat al \<le> 2 ^ 63" and "unat al dvd 2 ^ 63"
proof -
  obtain k where k: "k < 64" "al = 2 ^ k" using is_pow2_exp [OF assms] by blast
  then have u: "unat al = 2 ^ k" by (simp add: unat_exp_less)
  from k(1) have k: "k \<le> 63" by simp
  then show "unat al \<le> 2 ^ 63" unfolding u by (intro power_increasing) simp_all
  show "unat al dvd 2 ^ 63" unfolding u by (rule le_imp_power_dvd [OF k])
qed

lemma dm_from_nat: "unat (dm_from lo b) = max (unat lo) (unat (blk_off b))"
  by (auto simp: dm_from_def word_less_nat_alt)

lemma dm_start_nat:
  assumes "is_pow2 al" and "unat lo < 2 ^ 63" and "unat (blk_off b) < 2 ^ 63"
  shows "unat al dvd unat (align_up (dm_from lo b) al)"
    and "max (unat lo) (unat (blk_off b)) \<le> unat (align_up (dm_from lo b) al)"
    and "\<And>s. unat al dvd s \<Longrightarrow> max (unat lo) (unat (blk_off b)) \<le> s \<Longrightarrow> unat (align_up (dm_from lo b) al) \<le> s"
    and "unat (align_up (dm_from lo b) al) \<le> 2 ^ 63"
proof -
  have nz: "al \<noteq> 0" using assms(1) by (simp add: is_pow2_def)
  have f: "unat (dm_from lo b) < 2 ^ 63" using assms(2,3) by (simp add: dm_from_nat)
  have b: "unat (dm_from lo b) + unat al \<le> 2 ^ 64" using f pow2_half(1) [OF assms(1)] by simp
  show "unat al dvd unat (align_up (dm_from lo b) al)" by (rule align_up_dvd [OF assms(1)])
  show "max (unat lo) (unat (blk_off b)) \<le> unat (align_up (dm_from lo b) al)"
    using align_up_bounds(1) [OF nz b] by (simp add: dm_from_nat)
  show l: "unat (align_up (dm_from lo b) al) \<le> s"
    if "unat al dvd s" "max (unat lo) (unat (blk_off b)) \<le> s" for s
    using align_up_least [OF assms(1) b that(1)] that(2) by (simp add: dm_from_nat)
  show "unat (align_up (dm_from lo b) al) \<le> 2 ^ 63"
    by (rule l [OF pow2_half(2) [OF assms(1)]]) (use assms(2,3) in simp)
qed

lemma dm_fit_nat:
  assumes "is_pow2 al" and "unat lo < 2 ^ 63" and "unat n < 2 ^ 63"
    and "unat (blk_off b) + unat (blk_size b) < 2 ^ 63"
  shows "dm_fit al lo n b \<longleftrightarrow> blk_free b \<and>
      unat (align_up (dm_from lo b) al) + unat n \<le> unat (blk_off b) + unat (blk_size b)"
    and "unat (align_up (dm_from lo b) al + n) = unat (align_up (dm_from lo b) al) + unat n"
proof -
  have o: "unat (blk_off b) < 2 ^ 63" using assms(4) by simp
  note st = dm_start_nat [OF assms(1,2) o]
  show s: "unat (align_up (dm_from lo b) al + n) = unat (align_up (dm_from lo b) al) + unat n"
    using st(4) assms(3) by (intro unat_add_no_wrap) (simp add: no_wrap_def)
  have e: "unat (blk_off b + blk_size b) = unat (blk_off b) + unat (blk_size b)"
    using assms(4) by (intro unat_add_no_wrap) (simp add: no_wrap_def)
  show "dm_fit al lo n b \<longleftrightarrow> blk_free b \<and>
      unat (align_up (dm_from lo b) al) + unat n \<le> unat (blk_off b) + unat (blk_size b)"
    using st(2) by (auto simp: dm_fit_def word_less_nat_alt s e dm_from_nat)
qed

text \<open>A range the caller could be given: aligned, in the search range, all of it free.\<close>

definition dm_candidate :: "block list \<Rightarrow> u64 \<Rightarrow> i64 \<Rightarrow> i64 \<Rightarrow> u64 \<Rightarrow> nat \<Rightarrow> bool" where
  "dm_candidate bs al lo hi n s \<longleftrightarrow> unat al dvd s \<and> unat lo \<le> s \<and> s + unat n \<le> unat hi
     \<and> (\<forall>a. s \<le> a \<and> a < s + unat n \<longrightarrow> free_at bs a)"

lemma blocks_mem_bound:
  "blocks_wf tot bs \<Longrightarrow> k < length bs \<Longrightarrow>
     unat (blk_off (bs ! k)) + unat (blk_size (bs ! k)) < 2 ^ 63"
  using tiles_mem [of blk_off blk_size 0 bs "unat tot" "bs ! k"] by (auto simp: blocks_wf_def)

lemma dm_scan_least:
  assumes wf: "blocks_wf tot bs" and al: "is_pow2 al" and lo: "unat lo < 2 ^ 63"
    and n: "unat n < 2 ^ 63" "n \<noteq> 0"
  shows "dm_scan al lo hi n 0 bs = Some (j, s) \<Longrightarrow>
      j < length bs \<and> blk_free (bs ! j) \<and> unat (blk_off (bs ! j)) \<le> unat s
      \<and> unat s + unat n \<le> unat (blk_off (bs ! j)) + unat (blk_size (bs ! j))
      \<and> dm_candidate bs al lo hi n (unat s) \<and> (\<forall>s'. dm_candidate bs al lo hi n s' \<longrightarrow> unat s \<le> s')"
    and "dm_scan al lo hi n 0 bs = None \<Longrightarrow> \<not> dm_candidate bs al lo hi n s'"
proof -
  have n0: "0 < unat n" using n(2) by (simp add: unat_gt_0)
  have t: "blk_tiles 0 bs (unat tot)" and m: "merged bs" using wf by (auto simp: blocks_wf_def)
  have bd: "unat (blk_off (bs ! k)) + unat (blk_size (bs ! k)) < 2 ^ 63" if "k < length bs" for k
    by (rule blocks_mem_bound [OF wf that])
  have bo: "unat (blk_off (bs ! k)) < 2 ^ 63" if "k < length bs" for k using bd [OF that] by simp
  have cand: "\<exists>k < length bs. dm_fit al lo n (bs ! k) \<and> unat (blk_off (bs ! k)) \<le> s'
      \<and> unat (align_up (dm_from lo (bs ! k)) al) \<le> s'"
    if c: "dm_candidate bs al lo hi n s'" for s'
  proof -
    from c have f: "\<forall>a. s' \<le> a \<and> a < s' + unat n \<longrightarrow> free_at bs a" by (simp add: dm_candidate_def)
    from free_range_in_block [OF t m n0 f] obtain k where k: "k < length bs" "blk_free (bs ! k)"
      "unat (blk_off (bs ! k)) \<le> s'" "s' + unat n \<le> unat (blk_off (bs ! k)) + unat (blk_size (bs ! k))"
      by blast
    have "unat (align_up (dm_from lo (bs ! k)) al) \<le> s'"
      using dm_start_nat(3) [OF al lo bo [OF k(1)], of s'] c k(3) by (simp add: dm_candidate_def)
    with k dm_fit_nat(1) [OF al lo n(1) bd [OF k(1)]] show ?thesis by auto
  qed
  show "\<not> dm_candidate bs al lo hi n s'" if none: "dm_scan al lo hi n 0 bs = None"
  proof
    assume c: "dm_candidate bs al lo hi n s'"
    from cand [OF c] obtain k where k: "k < length bs" "dm_fit al lo n (bs ! k)"
      "unat (blk_off (bs ! k)) \<le> s'" "unat (align_up (dm_from lo (bs ! k)) al) \<le> s'" by blast
    from dm_scan_NoneD [OF none k(1,2)] obtain q where q: "q \<le> k" "dm_fit al lo n (bs ! q)"
      "hi < align_up (dm_from lo (bs ! q)) al + n" by blast
    have ql: "q < length bs" using q(1) k(1) by simp
    note fq = dm_fit_nat [OF al lo n(1) bd [OF ql]]
    have "unat (align_up (dm_from lo (bs ! q)) al) \<le> s'"
    proof (cases "q = k")
      case False
      with q(1) have "q < k" by simp
      from tiles_nth_order [OF t this k(1)] fq(1) q(2) k(3) show ?thesis by simp
    qed (use k in simp)
    then have "unat (align_up (dm_from lo (bs ! q)) al) + unat n \<le> unat hi"
      using c by (simp add: dm_candidate_def)
    with q(3) fq(2) show False by (simp add: word_less_nat_alt)
  qed
  assume some: "dm_scan al lo hi n 0 bs = Some (j, s)"
  from dm_scan_SomeD [OF this] have j: "j < length bs" "dm_fit al lo n (bs ! j)"
    and s: "s = align_up (dm_from lo (bs ! j)) al" and hi: "\<not> hi < s + n"
    and first: "\<forall>q < j. \<not> dm_fit al lo n (bs ! q)" by auto
  note st = dm_start_nat [OF al lo bo [OF j(1)]]
  note fj = dm_fit_nat [OF al lo n(1) bd [OF j(1)]]
  have range: "blk_free (bs ! j)" "unat s + unat n \<le> unat (blk_off (bs ! j)) + unat (blk_size (bs ! j))"
    using fj(1) j(2) s by auto
  have c: "dm_candidate bs al lo hi n (unat s)"
    unfolding dm_candidate_def
  proof (intro conjI allI impI)
    show "unat al dvd unat s" using st(1) s by simp
    show "unat lo \<le> unat s" using st(2) s by simp
    show "unat s + unat n \<le> unat hi" using hi fj(2) s by (simp add: word_less_nat_alt)
    show "free_at bs a" if "unat s \<le> a \<and> a < unat s + unat n" for a
      unfolding free_at_def using that range st(2) s j(1)
      by (intro bexI [of _ "bs ! j"]) (auto simp: blk_has_def)
  qed
  moreover have "unat s \<le> s'" if "dm_candidate bs al lo hi n s'" for s'
  proof -
    from cand [OF that] obtain k where k: "k < length bs" "dm_fit al lo n (bs ! k)"
      "unat (blk_off (bs ! k)) \<le> s'" "unat (align_up (dm_from lo (bs ! k)) al) \<le> s'" by blast
    have "j \<le> k" using first k(2) by (meson not_le)
    show ?thesis
    proof (cases "j = k")
      case True
      with k s show ?thesis by simp
    next
      case False
      with \<open>j \<le> k\<close> have "j < k" by simp
      from tiles_nth_order [OF t this k(1)] range(2) k(3) show ?thesis by simp
    qed
  qed
  ultimately show "j < length bs \<and> blk_free (bs ! j) \<and> unat (blk_off (bs ! j)) \<le> unat s
      \<and> unat s + unat n \<le> unat (blk_off (bs ! j)) + unat (blk_size (bs ! j))
      \<and> dm_candidate bs al lo hi n (unat s) \<and> (\<forall>s'. dm_candidate bs al lo hi n s' \<longrightarrow> unat s \<le> s')"
    using j(1) range st(2) s by auto
qed


section \<open>Installing an allocation\<close>

lemma dm_carve_nat:
  assumes "unat (blk_off b) \<le> unat s" and "unat s + unat n \<le> unat (blk_off b) + unat (blk_size b)"
    and "unat (blk_off b) + unat (blk_size b) < 2 ^ 63"
  shows "unat (s - blk_off b) = unat s - unat (blk_off b)"
    and "unat (blk_size b - (s - blk_off b)) = unat (blk_off b) + unat (blk_size b) - unat s"
    and "unat (s + n) = unat s + unat n"
    and "unat (blk_size b - (s - blk_off b) - n) = unat (blk_off b) + unat (blk_size b) - unat s - unat n"
proof -
  show d: "unat (s - blk_off b) = unat s - unat (blk_off b)"
    using assms(1) by (rule unat_sub_le)
  show r: "unat (blk_size b - (s - blk_off b)) = unat (blk_off b) + unat (blk_size b) - unat s"
    using assms by (subst unat_sub_le) (simp_all add: d)
  show "unat (s + n) = unat s + unat n"
    using assms by (intro unat_add_no_wrap) (simp add: no_wrap_def)
  show "unat (blk_size b - (s - blk_off b) - n) = unat (blk_off b) + unat (blk_size b) - unat s - unat n"
    using assms by (subst unat_sub_le) (simp_all add: r)
qed

lemma dm_carve_eq:
  assumes "unat (blk_off b) \<le> unat s" and "unat s + unat n \<le> unat (blk_off b) + unat (blk_size b)"
    and "unat (blk_off b) + unat (blk_size b) < 2 ^ 63"
  shows "dm_carve b s n =
    (if unat (blk_off b) < unat s
     then [\<lparr>blk_off = blk_off b, blk_size = s - blk_off b, blk_free = True, blk_vaddr = 0\<rparr>] else [])
    @ [b\<lparr>blk_off := s, blk_size := n, blk_free := False\<rparr>]
    @ (if unat s + unat n < unat (blk_off b) + unat (blk_size b)
       then [\<lparr>blk_off = s + n, blk_size = blk_size b - (s - blk_off b) - n, blk_free = True, blk_vaddr = 0\<rparr>]
       else [])"
proof -
  note k = dm_carve_nat [OF assms]
  have pad: "s - blk_off b \<noteq> 0 \<longleftrightarrow> unat (blk_off b) < unat s"
    using k(1) assms(1) by (auto simp: word_unat_eq_iff)
  have off: "(if unat (blk_off b) < unat s then s else blk_off b) = s"
    using assms(1) by (auto simp: word_unat_eq_iff)
  have cut: "n < blk_size b - (s - blk_off b) \<longleftrightarrow> unat s + unat n < unat (blk_off b) + unat (blk_size b)"
    using k(2) assms by (auto simp: word_less_nat_alt)
  have sz: "(if unat s + unat n < unat (blk_off b) + unat (blk_size b) then n
      else blk_size b - (s - blk_off b)) = n"
    using k(2) assms by (auto simp: word_unat_eq_iff)
  show ?thesis unfolding dm_carve_def Let_def pad cut off sz by (rule refl)
qed

lemma dm_carve_view:
  assumes "unat (blk_off b) \<le> unat s" and "unat s + unat n \<le> unat (blk_off b) + unat (blk_size b)"
    and "unat (blk_off b) + unat (blk_size b) < 2 ^ 63" and "n \<noteq> 0"
  shows "blk_tiles (unat (blk_off b)) (dm_carve b s n) (unat (blk_off b) + unat (blk_size b))"
    and "free_at (dm_carve b s n) a \<longleftrightarrow> blk_has a b \<and> \<not> (unat s \<le> a \<and> a < unat s + unat n)"
  unfolding dm_carve_eq [OF assms(1-3)]
  using assms dm_carve_nat [OF assms(1-3)]
  by (auto simp: free_at_Cons blk_has_def word_less_nat_alt unat_gt_0 [symmetric] simp del: unat_gt_0)

lemma dm_carve_merged:
  assumes "merged (xs @ b # ys)" and "blk_free b"
    and "unat (blk_off b) \<le> unat s" and "unat s + unat n \<le> unat (blk_off b) + unat (blk_size b)"
    and "unat (blk_off b) + unat (blk_size b) < 2 ^ 63"
  shows "merged (xs @ dm_carve b s n @ ys)"
  using assms(1,2) unfolding dm_carve_eq [OF assms(3-5)]
  by (auto simp: merged_append merged_Cons)

lemma dm_install:
  assumes wf: "blocks_wf tot bs" and j: "j < length bs" "blk_free (bs ! j)"
    and lo: "unat (blk_off (bs ! j)) \<le> unat s"
    and hi: "unat s + unat n \<le> unat (blk_off (bs ! j)) + unat (blk_size (bs ! j))" and n: "n \<noteq> 0"
  shows "blocks_wf tot (take j bs @ dm_carve (bs ! j) s n @ drop (Suc j) bs)"
    and "free_at (take j bs @ dm_carve (bs ! j) s n @ drop (Suc j) bs) a \<longleftrightarrow>
      free_at bs a \<and> \<not> (unat s \<le> a \<and> a < unat s + unat n)"
proof -
  let ?b = "bs ! j" and ?xs = "take j bs" and ?ys = "drop (Suc j) bs"
  have sp: "?xs @ ?b # ?ys = bs" using nth_split [OF j(1)] by simp
  have bd: "unat (blk_off ?b) + unat (blk_size ?b) < 2 ^ 63" by (rule blocks_mem_bound [OF wf j(1)])
  have t: "blk_tiles 0 (?xs @ ?b # ?ys) (unat tot)" and m: "merged (?xs @ ?b # ?ys)"
    using wf by (simp_all add: sp blocks_wf_def)
  note cv = dm_carve_view [OF lo hi bd n]
  show "blocks_wf tot (?xs @ dm_carve ?b s n @ ?ys)"
    using tiles_splice [OF t cv(1)] dm_carve_merged [OF m j(2) lo hi bd] wf
    by (simp add: blocks_wf_def)
  show "free_at (?xs @ dm_carve ?b s n @ ?ys) a \<longleftrightarrow>
      free_at bs a \<and> \<not> (unat s \<le> a \<and> a < unat s + unat n)"
    using free_at_splice [OF t cv(1), of a] cv(2) [of a] lo hi j unfolding sp
    by (auto simp: blk_has_def free_at_def)
qed

section \<open>Release\<close>

lemma dm_find_block_SomeD:
  "dm_find_block p i bs = Some j \<Longrightarrow> \<exists>k < length bs. j = i + k \<and> p (bs ! k) \<and> (\<forall>m < k. \<not> p (bs ! m))"
proof (induction bs arbitrary: i)
  case Nil
  then show ?case by simp
next
  case (Cons b bs)
  show ?case
  proof (cases "p b")
    case True
    with Cons.prems show ?thesis by (intro exI [of _ 0]) simp
  next
    case False
    with Cons.prems Cons.IH [of "Suc i"] obtain k where
      "k < length bs" "j = Suc i + k" "p (bs ! k)" "\<forall>m < k. \<not> p (bs ! m)" by auto
    with False show ?thesis by (intro exI [of _ "Suc k"]) (auto simp: less_Suc_eq_0_disj)
  qed
qed

lemma dm_find_block_None_iff: "dm_find_block p i bs = None \<longleftrightarrow> (\<forall>b \<in> set bs. \<not> p b)"
  by (induction bs arbitrary: i) auto

lemma blk_join_nat:
  assumes "unat (blk_off b) + unat (blk_size b) = unat (blk_off c)"
    and "unat (blk_off c) + unat (blk_size c) < 2 ^ 63"
  shows "unat (blk_size b + blk_size c) = unat (blk_size b) + unat (blk_size c)"
  using assms by (intro unat_add_no_wrap) (simp add: no_wrap_def)

lemma dm_merge_next_view:
  assumes t: "blk_tiles x (b # rest) e" and e: "e < 2 ^ 63" and b: "blk_free b" and m: "merged rest"
  shows "\<exists>b' r. dm_merge_next b rest = (b', r) \<and> blk_free b' \<and> blk_off b' = blk_off b
    \<and> blk_tiles x (b' # r) e \<and> merged (b' # r) \<and> (\<forall>a. free_at (b' # r) a \<longleftrightarrow> free_at (b # rest) a)"
proof (cases rest)
  case Nil
  then show ?thesis using t b by (simp add: dm_merge_next_def merged_Cons)
next
  case (Cons c cs)
  show ?thesis
  proof (cases "blk_free c")
    case True
    have c: "unat (blk_off b) + unat (blk_size b) = unat (blk_off c)" using t Cons by simp
    have ce: "unat (blk_off c) + unat (blk_size c) \<le> e"
      using tiles_mem [OF t, of c] Cons by simp
    have s: "unat (blk_size b + blk_size c) = unat (blk_size b) + unat (blk_size c)"
      using blk_join_nat [OF c] ce e by simp
    show ?thesis
      using t Cons True b m c s
      by (auto simp: dm_merge_next_def merged_Cons free_at_Cons blk_has_def word_less_nat_alt add.assoc)
  next
    case False
    then show ?thesis using t Cons b m by (simp add: dm_merge_next_def merged_Cons)
  qed
qed

lemma dm_merge_prev_view:
  assumes t: "blk_tiles 0 (pre @ b # rest) e" and e: "e < 2 ^ 63" and b: "blk_free b"
    and m: "merged pre" "merged (b # rest)"
  shows "blk_tiles 0 (dm_merge_prev pre b @ rest) e" and "merged (dm_merge_prev pre b @ rest)"
    and "free_at (dm_merge_prev pre b @ rest) a \<longleftrightarrow> free_at (pre @ b # rest) a"
proof (atomize (full), goal_cases)
  case 1
  show ?case
  proof (cases "pre \<noteq> [] \<and> blk_free (last pre)")
    case False
    then show ?thesis using t m by (auto simp: dm_merge_prev_def merged_append merged_Cons)
  next
    case True
    define p ps where "p = last pre" and "ps = butlast pre"
    have pre: "pre = ps @ [p]" using True by (simp add: p_def ps_def)
    have pf: "blk_free p" using True by (simp add: p_def)
    have t2: "blk_tiles 0 ps (unat (blk_off p))" "blk_tiles (unat (blk_off p)) (p # b # rest) e"
      using t by (auto simp: pre tiles_append)
    have pb: "unat (blk_off p) + unat (blk_size p) = unat (blk_off b)" using t2(2) by simp
    have be: "unat (blk_off b) + unat (blk_size b) \<le> e" using tiles_mem [OF t2(2), of b] by simp
    have s: "unat (blk_size p + blk_size b) = unat (blk_size p) + unat (blk_size b)"
      using blk_join_nat [OF pb] be e by simp
    have eq: "dm_merge_prev pre b = ps @ [p\<lparr>blk_size := blk_size p + blk_size b\<rparr>]"
      using True by (simp add: dm_merge_prev_def p_def ps_def)
    show ?thesis
      unfolding eq using t2 pf b m s pb [symmetric]
      by (auto simp: pre tiles_append merged_append merged_Cons free_at_append free_at_Cons blk_has_def
          word_less_nat_alt add.assoc)
  qed
qed

lemma dm_release_view:
  assumes wf: "blocks_wf tot bs" and i: "i < length bs" and nf: "\<not> blk_free (bs ! i)"
    and mn: "dm_merge_next ((bs ! i)\<lparr>blk_free := True, blk_vaddr := 0\<rparr>) (drop (Suc i) bs) = (b, rest)"
  shows "blocks_wf tot (dm_merge_prev (take i bs) b @ rest)"
    and "free_at (dm_merge_prev (take i bs) b @ rest) a \<longleftrightarrow> free_at bs a \<or> blk_has a (bs ! i)"
proof -
  let ?o = "bs ! i" and ?xs = "take i bs" and ?ys = "drop (Suc i) bs"
  let ?f = "?o\<lparr>blk_free := True, blk_vaddr := 0\<rparr>"
  have sp: "?xs @ ?o # ?ys = bs" using nth_split [OF i] by simp
  have t: "blk_tiles 0 (?xs @ ?o # ?ys) (unat tot)" and m: "merged (?xs @ ?o # ?ys)" and e: "unat tot < 2 ^ 63"
    using wf by (simp_all add: sp blocks_wf_def)
  have t2: "blk_tiles (unat (blk_off ?o)) (?f # ?ys) (unat tot)" and t1: "blk_tiles 0 ?xs (unat (blk_off ?o))"
    using t by (auto simp: tiles_append)
  have my: "merged ?ys" "merged ?xs" using m by (auto simp: merged_append merged_Cons)
  from dm_merge_next_view [OF t2 e _ my(1)] mn have nx: "blk_free b" "blk_off b = blk_off ?o"
    "blk_tiles (unat (blk_off ?o)) (b # rest) (unat tot)" "merged (b # rest)"
    "\<And>a. free_at (b # rest) a \<longleftrightarrow> free_at (?f # ?ys) a" by auto
  have tp: "blk_tiles 0 (?xs @ b # rest) (unat tot)"
    using t1 nx(3) by (auto simp: tiles_append)
  note pv = dm_merge_prev_view [OF tp e nx(1) my(2) nx(4)]
  show "blocks_wf tot (dm_merge_prev ?xs b @ rest)"
    using pv(1,2) e by (simp add: blocks_wf_def)
  have "free_at (?xs @ b # rest) a \<longleftrightarrow> free_at ?xs a \<or> free_at (?f # ?ys) a"
    using nx(5) [of a] by (simp add: free_at_append)
  also have "\<dots> \<longleftrightarrow> free_at (?xs @ ?o # ?ys) a \<or> blk_has a ?o"
    using nf by (auto simp: free_at_append free_at_Cons blk_has_def)
  finally show "free_at (dm_merge_prev ?xs b @ rest) a \<longleftrightarrow> free_at bs a \<or> blk_has a ?o"
    using pv(3) [of a] by (simp add: sp)
qed

section \<open>The free total\<close>

lemma free_total_acc:
  "fold (\<lambda>b acc. if blk_free b then acc + blk_size b else acc) bs x = x + free_total bs"
proof (induction bs arbitrary: x)
  case Nil
  then show ?case by (simp add: free_total_def)
next
  case (Cons b bs)
  have "free_total (b # bs) = (if blk_free b then blk_size b else 0) + free_total bs"
    by (simp add: free_total_def [of "b # bs"]) (simp add: Cons)
  then show ?case by (simp add: Cons)
qed

lemma free_total_Cons:
  "free_total (b # bs) = (if blk_free b then blk_size b else 0) + free_total bs"
  by (simp add: free_total_def [of "b # bs"] free_total_acc)

text \<open>The total is the number of free physical addresses.\<close>

lemma free_total_card:
  "blk_tiles x bs e \<Longrightarrow> e < 2 ^ 63 \<Longrightarrow>
     unat (free_total bs) = card {a. free_at bs a} \<and> card {a. free_at bs a} \<le> e - x"
proof (induction bs arbitrary: x)
  case Nil
  then show ?case by (simp add: free_total_def)
next
  case (Cons b bs)
  let ?stop = "x + unat (blk_size b)"
  have t: "blk_tiles ?stop bs e" and x: "unat (blk_off b) = x" using Cons.prems(1) by auto
  have IH: "unat (free_total bs) = card {a. free_at bs a}" "card {a. free_at bs a} \<le> e - ?stop"
    using Cons.IH [OF t Cons.prems(2)] by auto
  have le: "?stop \<le> e" by (rule tiles_le [OF t])
  have sub: "{a. free_at bs a} \<subseteq> {?stop ..< e}" using free_at_range [OF t] by auto
  then have fin: "finite {a. free_at bs a}" by (rule finite_subset) simp
  show ?case
  proof (cases "blk_free b")
    case True
    have "{a. free_at (b # bs) a} = {x ..< ?stop} \<union> {a. free_at bs a}"
      using True x by (auto simp: free_at_Cons blk_has_def)
    moreover have "card ({x ..< ?stop} \<union> {a. free_at bs a}) = unat (blk_size b) + card {a. free_at bs a}"
      using sub fin by (subst card_Un_disjoint) auto
    moreover have "unat (blk_size b + free_total bs) = unat (blk_size b) + unat (free_total bs)"
      using IH le Cons.prems(2) by (intro unat_add_no_wrap) (simp add: no_wrap_def)
    ultimately show ?thesis using True IH le by (simp add: free_total_Cons)
  next
    case False
    then have "{a. free_at (b # bs) a} = {a. free_at bs a}" by (auto simp: free_at_Cons)
    with False IH show ?thesis by (simp add: free_total_Cons)
  qed
qed

end
