(* ===== verification/DirectAlias.thy ===== *)
theory DirectAlias
  imports DirectView
begin

unbundle bit_operations_syntax

text \<open>
  The aliases of direct memory: \<open>dm_translate d a\<close> is the physical address behind the guest
  address \<open>a\<close>. Unmapping a guest range removes exactly that range from this partial function,
  whatever the mappings look like (they may overlap, the first record wins).
\<close>

definition maps_translate :: "dmap list \<Rightarrow> u64 \<Rightarrow> u64 option" where
  "maps_translate ms a =
     (case List.find (\<lambda>m. dm_vaddr m \<le> a \<and> a < dm_vaddr m + dm_size m) ms of
        None \<Rightarrow> None
      | Some m \<Rightarrow> Some (dm_phys m + (a - dm_vaddr m)))"

definition dm_translate :: "dstate \<Rightarrow> u64 \<Rightarrow> u64 option" where
  "dm_translate d a = (case dm_lookup d a of None \<Rightarrow> None | Some (s, _, p) \<Rightarrow> Some (p + (a - s)))"

definition maps_ok :: "dmap list \<Rightarrow> bool" where
  "maps_ok ms \<longleftrightarrow> (\<forall>m \<in> set ms. no_wrap (dm_vaddr m) (dm_size m))"

lemma dm_translate_maps: "dm_translate d a = maps_translate (ds_maps d) a"
  by (simp add: dm_translate_def maps_translate_def dm_lookup_def split: option.splits)

lemma maps_translate_Nil [simp]: "maps_translate [] a = None"
  by (simp add: maps_translate_def)

lemma maps_translate_Cons:
  "maps_translate (m # ms) a =
     (if in_range (dm_vaddr m) (dm_size m) a then Some (dm_phys m + (a - dm_vaddr m))
      else maps_translate ms a)"
  by (simp add: maps_translate_def in_range_def)

lemma maps_translate_append:
  "maps_translate (xs @ ys) a =
     (case maps_translate xs a of None \<Rightarrow> maps_translate ys a | Some p \<Rightarrow> Some p)"
  by (induction xs) (simp_all add: maps_translate_Cons)

text \<open>What one record becomes.\<close>

definition dm_cut :: "bool \<Rightarrow> u64 \<Rightarrow> u64 \<Rightarrow> dmap \<Rightarrow> dmap list" where
  "dm_cut ok addr end_a m = dm_unmap ok addr end_a [m]"

lemma dm_unmap_Cons: "dm_unmap ok addr end_a (m # ms) = dm_cut ok addr end_a m @ dm_unmap ok addr end_a ms"
  by (simp add: dm_cut_def Let_def)

lemma dm_cut_eq:
  "dm_cut ok addr end_a m =
     (let mend = dm_vaddr m + dm_size m in
      if end_a \<le> dm_vaddr m \<or> mend \<le> addr then [m] else
      (if dm_vaddr m < addr then [m\<lparr>dm_size := addr - dm_vaddr m\<rparr>] else [])
      @ (if end_a < mend then
           (if dm_vaddr m < addr then
              (if ok then [\<lparr>dm_vaddr = end_a, dm_size = mend - end_a, dm_phys = dm_phys m + (end_a - dm_vaddr m)\<rparr>]
               else [])
            else [m\<lparr>dm_phys := dm_phys m + (end_a - dm_vaddr m), dm_size := mend - end_a, dm_vaddr := end_a\<rparr>])
         else []))"
  by (auto simp: dm_cut_def Let_def)

lemma dm_cut_view:
  assumes m: "no_wrap (dm_vaddr m) (dm_size m)" and le: "addr \<le> end_a"
  shows "maps_translate (dm_cut True addr end_a m) a =
      (if addr \<le> a \<and> a < end_a then None else maps_translate [m] a)"
    and "maps_ok (dm_cut ok addr end_a m)"
proof -
  have e: "unat (dm_vaddr m + dm_size m) = unat (dm_vaddr m) + unat (dm_size m)"
    by (rule unat_add_no_wrap [OF m])
  have s1: "unat (addr - dm_vaddr m) = unat addr - unat (dm_vaddr m)" if "dm_vaddr m < addr"
    using that by (intro unat_sub_le) (simp add: word_less_nat_alt)
  have s2: "unat (dm_vaddr m + dm_size m - end_a) = unat (dm_vaddr m) + unat (dm_size m) - unat end_a"
    if "end_a < dm_vaddr m + dm_size m"
    using that e by (subst unat_sub_le) (simp_all add: word_less_nat_alt)
  note nats = word_less_nat_alt word_le_nat_alt e
  show ok: "maps_ok (dm_cut ok addr end_a m)"
    using m le s1 s2 by (auto simp: dm_cut_eq Let_def maps_ok_def no_wrap_def nats)
  have r1: "in_range (dm_vaddr m) (addr - dm_vaddr m) a \<longleftrightarrow> dm_vaddr m \<le> a \<and> a < addr"
    by (simp add: in_range_def)
  have r2: "in_range end_a (dm_vaddr m + dm_size m - end_a) a \<longleftrightarrow> end_a \<le> a \<and> a < dm_vaddr m + dm_size m"
    by (simp add: in_range_def)
  have r0: "in_range (dm_vaddr m) (dm_size m) a \<longleftrightarrow> dm_vaddr m \<le> a \<and> a < dm_vaddr m + dm_size m"
    by (simp add: in_range_def)
  have ph: "dm_phys m + (end_a - dm_vaddr m) + (a - end_a) = dm_phys m + (a - dm_vaddr m)" by simp
  let ?E = "dm_vaddr m + dm_size m"
  have tr: "maps_translate (dm_cut True addr end_a m) a =
      (if (dm_vaddr m \<le> a \<and> a < ?E) \<and> (end_a \<le> dm_vaddr m \<or> ?E \<le> addr \<or> a < addr \<or> end_a \<le> a)
       then Some (dm_phys m + (a - dm_vaddr m)) else None)"
  proof (cases "end_a \<le> dm_vaddr m \<or> ?E \<le> addr")
    case True
    then show ?thesis by (auto simp: dm_cut_eq Let_def maps_translate_Cons r0)
  next
    case False
    then have f: "dm_vaddr m < end_a" "addr < ?E" by auto
    consider (both) "dm_vaddr m < addr" "end_a < ?E" | (lo) "dm_vaddr m < addr" "\<not> end_a < ?E"
      | (hi) "\<not> dm_vaddr m < addr" "end_a < ?E" | (none) "\<not> dm_vaddr m < addr" "\<not> end_a < ?E" by blast
    then show ?thesis
    proof cases
      case both
      then have "dm_cut True addr end_a m = [m\<lparr>dm_size := addr - dm_vaddr m\<rparr>,
          \<lparr>dm_vaddr = end_a, dm_size = ?E - end_a, dm_phys = dm_phys m + (end_a - dm_vaddr m)\<rparr>]"
        using False by (simp add: dm_cut_eq Let_def)
      then show ?thesis using both f le by (auto simp: maps_translate_Cons r1 r2 ph)
    next
      case lo
      then have "dm_cut True addr end_a m = [m\<lparr>dm_size := addr - dm_vaddr m\<rparr>]"
        using False by (simp add: dm_cut_eq Let_def)
      then show ?thesis using lo f le by (auto simp: maps_translate_Cons r1)
    next
      case hi
      then have "dm_cut True addr end_a m =
          [m\<lparr>dm_phys := dm_phys m + (end_a - dm_vaddr m), dm_size := ?E - end_a, dm_vaddr := end_a\<rparr>]"
        using False by (simp add: dm_cut_eq Let_def)
      then show ?thesis using hi f le by (auto simp: maps_translate_Cons r2 ph)
    next
      case none
      then have "dm_cut True addr end_a m = []"
        using False by (simp add: dm_cut_eq Let_def)
      then show ?thesis using none f le by auto
    qed
  qed
  show "maps_translate (dm_cut True addr end_a m) a =
      (if addr \<le> a \<and> a < end_a then None else maps_translate [m] a)"
    unfolding tr by (auto simp: maps_translate_Cons r0)
qed

lemma dm_unmap_view:
  "maps_ok ms \<Longrightarrow> addr \<le> end_a \<Longrightarrow> maps_ok (dm_unmap ok addr end_a ms)
     \<and> maps_translate (dm_unmap True addr end_a ms) a =
       (if addr \<le> a \<and> a < end_a then None else maps_translate ms a)"
proof (induction ms)
  case Nil
  then show ?case by (simp add: maps_ok_def)
next
  case (Cons m ms)
  have m: "no_wrap (dm_vaddr m) (dm_size m)" and ms: "maps_ok ms"
    using Cons.prems(1) by (auto simp: maps_ok_def)
  note c = dm_cut_view [OF m Cons.prems(2)]
  have "maps_ok (dm_unmap ok addr end_a (m # ms))"
    using c(2) [of ok] Cons.IH [OF ms Cons.prems(2)] unfolding dm_unmap_Cons by (auto simp: maps_ok_def)
  moreover have "maps_translate (dm_unmap True addr end_a (m # ms)) a =
      (if addr \<le> a \<and> a < end_a then None else maps_translate (m # ms) a)"
    unfolding dm_unmap_Cons maps_translate_append c(1)
    using Cons.IH [OF ms Cons.prems(2)] by (simp add: maps_translate_Cons split: option.splits)
  ultimately show ?case by blast
qed

lemma on_unmap_view:
  assumes "maps_ok (ds_maps d)" and "no_wrap addr sz"
  shows "maps_ok (ds_maps (ps4_direct_mem_on_unmap ok addr sz d))"
    and "dm_translate (ps4_direct_mem_on_unmap True addr sz d) a =
      (if in_range addr sz a then None else dm_translate d a)"
proof -
  have le: "addr \<le> addr + sz"
    using unat_add_no_wrap [OF assms(2)] by (simp add: word_le_nat_alt)
  note v = dm_unmap_view [OF assms(1) le]
  show "maps_ok (ds_maps (ps4_direct_mem_on_unmap ok addr sz d))"
    using v assms(1) by (simp add: ps4_direct_mem_on_unmap_def)
  show "dm_translate (ps4_direct_mem_on_unmap True addr sz d) a =
      (if in_range addr sz a then None else dm_translate d a)"
    using v by (auto simp: ps4_direct_mem_on_unmap_def dm_translate_maps in_range_def)
qed

lemma on_unmap_sel [simp]:
  "ds_blocks (ps4_direct_mem_on_unmap ok addr sz d) = ds_blocks d"
  "ds_phys (ps4_direct_mem_on_unmap ok addr sz d) = ds_phys d"
  "ds_inited (ps4_direct_mem_on_unmap ok addr sz d) = ds_inited d"
  by (simp_all add: ps4_direct_mem_on_unmap_def)

text \<open>The unmap calls of one \<open>recomp_vm_free\<close>: the union of the ranges is removed.\<close>

lemma fold_unmap_view:
  assumes "maps_ok (ds_maps d)" and "\<forall>r \<in> set rs. no_wrap (fst r) (snd r)"
  shows "maps_ok (ds_maps (fold (\<lambda>r. ps4_direct_mem_on_unmap ok (fst r) (snd r)) rs d))"
    and "dm_translate (fold (\<lambda>r. ps4_direct_mem_on_unmap True (fst r) (snd r)) rs d) a =
      (if \<exists>r \<in> set rs. in_range (fst r) (snd r) a then None else dm_translate d a)"
proof -
  show "maps_ok (ds_maps (fold (\<lambda>r. ps4_direct_mem_on_unmap ok (fst r) (snd r)) rs d))"
    using assms by (induction rs arbitrary: d) (simp_all add: on_unmap_view(1))
  show "dm_translate (fold (\<lambda>r. ps4_direct_mem_on_unmap True (fst r) (snd r)) rs d) a =
      (if \<exists>r \<in> set rs. in_range (fst r) (snd r) a then None else dm_translate d a)"
    using assms
  proof (induction rs arbitrary: d)
    case Nil
    then show ?case by simp
  next
    case (Cons r rs)
    have nw: "no_wrap (fst r) (snd r)" using Cons.prems(2) by simp
    have ok: "maps_ok (ds_maps (ps4_direct_mem_on_unmap True (fst r) (snd r) d))"
      by (rule on_unmap_view(1) [OF Cons.prems(1) nw])
    from Cons.IH [OF ok] Cons.prems(2) show ?case
      by (simp add: on_unmap_view(2) [OF Cons.prems(1) nw])
  qed
qed

text \<open>A new alias is in front of the list: it is what the addresses of its range translate to.\<close>

lemma dm_alias_view:
  assumes "dm_alias True True mem_sz d vaddr phys len = (0, d')"
  shows "dm_translate d' a = (if in_range vaddr len a then Some (phys + (a - vaddr)) else dm_translate d a)"
    and "ds_blocks d' = ds_blocks d"
    and "ds_maps d' = \<lparr>dm_vaddr = vaddr, dm_size = len, dm_phys = phys\<rparr> # ds_maps d"
  using assms
  by (auto simp: dm_alias_def dm_translate_maps maps_translate_Cons split: option.splits if_splits)

end
