(* ===== verification/DirectProps.thy ===== *)
theory DirectProps
  imports DirectAlias
begin

unbundle bit_operations_syntax

text \<open>
  The properties of direct memory: allocation returns the lowest fitting range and fails only
  when there is none, release gives back exactly one block, the blocks always partition the
  memory, the free total counts the free addresses, and unmapping detaches exactly a range.
\<close>

section \<open>The invariant of the component\<close>

definition dstate_wf :: "denv \<Rightarrow> dstate \<Rightarrow> bool" where
  "dstate_wf env d \<longleftrightarrow> (ds_inited d \<longrightarrow> blocks_wf (get_total_direct_mem_size env d) (ds_blocks d))
     \<and> (0 < get_total_direct_mem_size env d \<and> unat (get_total_direct_mem_size env d) < 2 ^ 63)"

lemma total_upd [simp]:
  "get_total_direct_mem_size env (d\<lparr>ds_blocks := bs\<rparr>) = get_total_direct_mem_size env d"
  "get_total_direct_mem_size env (d\<lparr>ds_maps := ms\<rparr>) = get_total_direct_mem_size env d"
  "get_total_direct_mem_size env (d\<lparr>ds_inited := i\<rparr>) = get_total_direct_mem_size env d"
  "get_total_direct_mem_size env (d\<lparr>ds_phys := p\<rparr>) = get_total_direct_mem_size env d"
  by (simp_all add: get_total_direct_mem_size_def)

lemma init_total [simp]:
  "get_total_direct_mem_size env (snd (ps4_direct_mem_init ok env d)) = get_total_direct_mem_size env d"
  by (simp add: ps4_direct_mem_init_def dm_phys_init_def Let_def)

lemma init_inited: "ds_inited d \<Longrightarrow> snd (ps4_direct_mem_init ok env d) = d"
  by (simp add: ps4_direct_mem_init_def)

lemma init_wf:
  assumes "dstate_wf env d"
  shows "dstate_wf env (snd (ps4_direct_mem_init ok env d))"
    and "ok \<Longrightarrow> ds_inited (snd (ps4_direct_mem_init ok env d))"
proof -
  show "dstate_wf env (snd (ps4_direct_mem_init ok env d))"
    using assms unfolding dstate_wf_def init_total
    by (auto simp: ps4_direct_mem_init_def dm_phys_init_def blocks_wf_def merged_Cons)
  show "ok \<Longrightarrow> ds_inited (snd (ps4_direct_mem_init ok env d))"
    by (simp add: ps4_direct_mem_init_def dm_phys_init_def)
qed

text \<open>The effective alignment and the rounded length of a request that does not wrap.\<close>

definition dm_eff_align :: "u64 \<Rightarrow> u64" where
  "dm_eff_align al = (if al = 0 then 4096 else al)"

definition dm_request_ok :: "u64 \<Rightarrow> u64 \<Rightarrow> bool" where
  "dm_request_ok len al \<longleftrightarrow> is_pow2 (dm_eff_align al) \<and> len \<noteq> 0
     \<and> unat len + unat (dm_eff_align al) \<le> 2 ^ 64"

lemma dm_alloc_eq:
  "sceKernelAllocateDirectMemory init_ok pad_ok tail_ok env d out_null lo hi len al =
     (if out_null \<or> len = 0 \<or> sint lo < 0 \<or> sint hi < 0 then (Inl KERR_EINVAL, d) else
      if sint hi \<le> sint lo \<or> hi - lo < align_up len (dm_eff_align al) then (Inl KERR_EAGAIN, d) else
      let d1 = snd (ps4_direct_mem_init init_ok env d); bs = ds_blocks d1; n = align_up len (dm_eff_align al)
      in case dm_scan (dm_eff_align al) lo hi n 0 bs of
           None \<Rightarrow> (Inl KERR_EAGAIN, d1)
         | Some (i, start) \<Rightarrow>
             (let b = bs ! i; front_pad = start - blk_off b in
              if front_pad \<noteq> 0 \<and> \<not> pad_ok \<or> n < blk_size b - front_pad \<and> \<not> tail_ok
              then (Inl KERR_EAGAIN, d1)
              else (Inr (if front_pad \<noteq> 0 then start else blk_off b),
                    d1\<lparr>ds_blocks := take i bs @ dm_carve b start n @ drop (Suc i) bs\<rparr>)))"
  unfolding sceKernelAllocateDirectMemory_def Let_def dm_eff_align_def by (rule refl)

lemma nonneg_sint: "0 \<le> sint (w :: i64) \<Longrightarrow> unat w < 2 ^ 63 \<and> sint w = int (unat w)"
proof -
  assume "0 \<le> sint w"
  then have nb: "\<not> bit w 63" using bit_last_iff [of w] by simp
  have "take_bit 63 w = w"
  proof (rule bit_word_eqI)
    fix n assume "n < LENGTH(64)"
    with nb show "bit (take_bit 63 w) n = bit w n"
      by (cases "n = 63") (auto simp: bit_simps)
  qed
  then have "unat (take_bit 63 w) = unat w" by simp
  then have u: "unat w < 2 ^ 63"
    unfolding unsigned_take_bit_eq by (simp add: take_bit_nat_eq_self_iff)
  have "sint w = signed_take_bit 63 (int (unat w))"
    by (simp add: sint_uint)
  also have "\<dots> = int (unat w)"
  proof (rule signed_take_bit_int_eq_self)
    have "int (unat w) < int (2 ^ 63)" using u by (simp only: of_nat_less_iff)
    then show "int (unat w) < 2 ^ 63" by simp
    show "- (2 ^ 63) \<le> int (unat w)" by (rule order_trans [of _ 0]) simp_all
  qed
  finally show ?thesis using u by simp
qed

text \<open>What a call that reaches the search decides, from the state after \<open>ps4_direct_mem_init\<close>.\<close>

lemma dm_alloc_cases:
  assumes wf: "dstate_wf env d" and ini: "ds_inited d" and req: "dm_request_ok len al"
    and n: "n = align_up len (dm_eff_align al)"
    and res: "sceKernelAllocateDirectMemory init_ok pad_ok tail_ok env d False lo hi len al = (r, d')"
    and sgn: "0 \<le> sint lo" "0 \<le> sint hi"
  shows "\<And>p. r = Inr p \<Longrightarrow> dm_candidate (ds_blocks d) (dm_eff_align al) lo hi n (unat p)
      \<and> (\<forall>s. dm_candidate (ds_blocks d) (dm_eff_align al) lo hi n s \<longrightarrow> unat p \<le> s)
      \<and> dstate_wf env d' \<and> ds_inited d' \<and> ds_maps d' = ds_maps d
      \<and> (\<forall>a. free_at (ds_blocks d') a \<longleftrightarrow>
           free_at (ds_blocks d) a \<and> \<not> (unat p \<le> a \<and> a < unat p + unat n))"
    and "\<And>rc. r = Inl rc \<Longrightarrow> rc = KERR_EAGAIN \<and> d' = d
      \<and> (pad_ok \<and> tail_ok \<longrightarrow> (\<forall>s. \<not> dm_candidate (ds_blocks d) (dm_eff_align al) lo hi n s))"
proof (atomize (full), goal_cases)
  case 1
  let ?al = "dm_eff_align al" and ?bs = "ds_blocks d"
  let ?tot = "get_total_direct_mem_size env d"
  have p2: "is_pow2 ?al" and len: "len \<noteq> 0" and nw: "unat len + unat ?al \<le> 2 ^ 64"
    using req by (auto simp: dm_request_ok_def)
  have nz: "?al \<noteq> 0" using p2 by (simp add: is_pow2_def)
  have n0: "n \<noteq> 0"
    using align_up_bounds(1) [OF nz nw] len n by (metis le_zero_eq unat_eq_0)
  note lo = nonneg_sint [OF sgn(1)] and hi = nonneg_sint [OF sgn(2)]
  have bwf: "blocks_wf ?tot ?bs" using wf ini by (simp add: dstate_wf_def)
  have d1: "snd (ps4_direct_mem_init init_ok env d) = d" by (rule init_inited [OF ini])
  note eq = dm_alloc_eq [of init_ok pad_ok tail_ok env d False lo hi len al, unfolded d1, folded n]
  show ?case
  proof (cases "sint hi \<le> sint lo \<or> hi - lo < n")
    case True
    then have r: "r = Inl KERR_EAGAIN" "d' = d" using res len sgn unfolding eq by auto
    have "\<not> dm_candidate ?bs ?al lo hi n s" for s
    proof
      assume "dm_candidate ?bs ?al lo hi n s"
      then have c: "unat lo + unat n \<le> unat hi" by (simp add: dm_candidate_def)
      moreover have "0 < unat n" using n0 by (simp add: unat_gt_0)
      ultimately have "\<not> sint hi \<le> sint lo" using lo hi by linarith
      with True have lt: "hi - lo < n" by simp
      have "unat (hi - lo) = unat hi - unat lo" using c by (intro unat_sub_le) simp
      with lt c show False by (simp add: word_less_nat_alt)
    qed
    with r show ?thesis by simp
  next
    case False
    then have lh: "unat lo < unat hi" and nhl: "\<not> hi - lo < n" using lo hi by linarith+
    have "unat (hi - lo) = unat hi - unat lo" using lh by (intro unat_sub_le) simp
    with nhl have "unat n \<le> unat hi" by (simp add: word_less_nat_alt)
    then have n63: "unat n < 2 ^ 63" using hi by linarith
    have lo63: "unat lo < 2 ^ 63" using lo by simp
    note least = dm_scan_least [OF bwf p2 lo63 n63 n0]
    show ?thesis
    proof (cases "dm_scan ?al lo hi n 0 ?bs")
      case None
      then have r: "r = Inl KERR_EAGAIN" "d' = d" using res len sgn False unfolding eq by auto
      have "\<not> dm_candidate ?bs ?al lo hi n s" for s by (rule least(2) [OF None])
      with r show ?thesis by simp
    next
      case (Some x)
      obtain i s where x: "x = (i, s)" by (cases x)
      note L = least(1) [OF Some [unfolded x]]
      have i: "i < length ?bs" "blk_free (?bs ! i)" "unat (blk_off (?bs ! i)) \<le> unat s"
        "unat s + unat n \<le> unat (blk_off (?bs ! i)) + unat (blk_size (?bs ! i))" using L by auto
      show ?thesis
      proof (cases "s - blk_off (?bs ! i) \<noteq> 0 \<and> \<not> pad_ok
          \<or> n < blk_size (?bs ! i) - (s - blk_off (?bs ! i)) \<and> \<not> tail_ok")
        case True
        then have "r = Inl KERR_EAGAIN" "d' = d" "\<not> (pad_ok \<and> tail_ok)"
          using res len sgn False Some x unfolding eq by auto
        then show ?thesis by auto
      next
        case ok: False
        have off: "(if s - blk_off (?bs ! i) \<noteq> 0 then s else blk_off (?bs ! i)) = s" by auto
        have r: "r = Inr s"
          and d': "d' = d\<lparr>ds_blocks := take i ?bs @ dm_carve (?bs ! i) s n @ drop (Suc i) ?bs\<rparr>"
          using res len sgn False Some x ok off unfolding eq by (auto simp: Let_def)
        note inst = dm_install [OF bwf i n0]
        have "dstate_wf env d'" using inst(1) wf ini by (simp add: dstate_wf_def d')
        with inst(2) L r d' ini show ?thesis by simp
      qed
    qed
  qed
qed


lemma alloc_block:
  assumes wf: "dstate_wf env d" and ini: "ds_inited d" and req: "dm_request_ok len al"
    and res: "sceKernelAllocateDirectMemory init_ok pad_ok tail_ok env d False lo hi len al = (Inr p, d')"
    and sgn: "0 \<le> sint lo" "0 \<le> sint hi"
  shows "\<exists>b \<in> set (ds_blocks d'). \<not> blk_free b \<and> blk_off b = p \<and> blk_size b = align_up len (dm_eff_align al)"
proof -
  let ?al = "dm_eff_align al" and ?bs = "ds_blocks d"
  let ?n = "align_up len ?al"
  have d1: "snd (ps4_direct_mem_init init_ok env d) = d" by (rule init_inited [OF ini])
  note eq = dm_alloc_eq [of init_ok pad_ok tail_ok env d False lo hi len al, unfolded d1]
  have bwf: "blocks_wf (get_total_direct_mem_size env d) ?bs" using wf ini by (simp add: dstate_wf_def)
  have p2: "is_pow2 ?al" and nw: "len \<noteq> 0" "unat len + unat ?al \<le> 2 ^ 64"
    using req by (auto simp: dm_request_ok_def)
  from res obtain i where ok: "\<not> (sint hi \<le> sint lo \<or> hi - lo < ?n)" "dm_scan ?al lo hi ?n 0 ?bs = Some (i, p)"
    "d' = d\<lparr>ds_blocks := take i ?bs @ dm_carve (?bs ! i) p ?n @ drop (Suc i) ?bs\<rparr>"
    unfolding eq by (auto simp: Let_def split: if_splits option.splits)
  note lo = nonneg_sint [OF sgn(1)] and hi = nonneg_sint [OF sgn(2)]
  have "unat lo \<le> unat hi" using ok(1) lo hi by linarith
  then have "unat (hi - lo) = unat hi - unat lo" by (rule unat_sub_le)
  then have "unat ?n \<le> unat hi" using ok(1) by (auto simp: word_less_nat_alt)
  then have n63: "unat ?n < 2 ^ 63" using hi by linarith
  have nz: "?al \<noteq> 0" using p2 by (simp add: is_pow2_def)
  have n0: "?n \<noteq> 0" using align_up_bounds(1) [OF nz nw(2)] nw(1) by (metis le_zero_eq unat_eq_0)
  have lo63: "unat lo < 2 ^ 63" using lo by simp
  note L = dm_scan_least(1) [OF bwf p2 lo63 n63 n0 ok(2)]
  have i: "i < length ?bs" using L by simp
  show ?thesis
    using L dm_carve_eq [of "?bs ! i" p ?n] blocks_mem_bound [OF bwf i] by (auto simp: ok(3))
qed

text \<open>Blocks of positive size at the same address are the same block.\<close>

lemma same_off_same_block:
  assumes "blocks_wf tot bs" and "b \<in> set bs" and "c \<in> set bs" and "blk_off b = blk_off c"
  shows "b = c"
proof -
  from assms(2,3) obtain i j where ij: "i < length bs" "b = bs ! i" "j < length bs" "c = bs ! j"
    by (auto simp: in_set_conv_nth)
  have t: "blk_tiles 0 bs (unat tot)" using assms(1) by (simp add: blocks_wf_def)
  have pos: "0 < unat (blk_size b)" "0 < unat (blk_size c)"
    using tiles_mem [OF t assms(2)] tiles_mem [OF t assms(3)] by auto
  have "i = j"
  proof (rule ccontr)
    assume "i \<noteq> j"
    then consider "i < j" | "j < i" by linarith
    then show False
      using tiles_nth_order [OF t, of i j] tiles_nth_order [OF t, of j i] ij assms(4) pos by cases auto
  qed
  with ij show ?thesis by simp
qed

section \<open>Allocation\<close>

text \<open>A concrete state: 64 MB of direct memory, the first 16 KB allocated.\<close>

definition ex_env :: denv where
  "ex_env = \<lparr>env_size = None, env_neo = False, env_no_alias = False, env_mmap_ok = True\<rparr>"

definition ex_ds :: dstate where
  "ex_ds = \<lparr>ds_blocks = [\<lparr>blk_off = 0, blk_size = 0x4000, blk_free = False, blk_vaddr = 0\<rparr>,
      \<lparr>blk_off = 0x4000, blk_size = 0x3ffc000, blk_free = True, blk_vaddr = 0\<rparr>],
     ds_maps = [], ds_phys = Some 0x2000000000, ds_inited = True, ds_size = 0x4000000,
     ds_configured = True\<rparr>"

lemmas dm_eval = dm_eff_align_def align_up_def dm_carve_def sceKernelAllocateDirectMemory_def Let_def
  dm_request_ok_def is_pow2_def

lemma ex_ds_wf: "dstate_wf ex_env ex_ds" "ds_inited ex_ds"
  by (simp_all add: dstate_wf_def ex_ds_def ex_env_def get_total_direct_mem_size_def blocks_wf_def
      merged_Cons)



text \<open>
  With memory for the bookkeeping, \<open>EAGAIN\<close> means that no aligned range of the rounded
  length inside the search range is free: the first-fit scan, its early end at the first
  candidate past \<open>searchEnd\<close> included, misses nothing, because free neighbours are always
  merged. Nothing changes then.
\<close>

theorem dm_alloc_eagain_complete:
  assumes "dstate_wf env d" and "ds_inited d" and "dm_request_ok len al"
    and "0 \<le> sint lo" and "0 \<le> sint hi"
    and "sceKernelAllocateDirectMemory init_ok True True env d False lo hi len al = (Inl rc, d')"
  shows "rc = KERR_EAGAIN \<and> d' = d
    \<and> (\<forall>s. \<not> dm_candidate (ds_blocks d) (dm_eff_align al) lo hi (align_up len (dm_eff_align al)) s)"
  using dm_alloc_cases(2) [OF assms(1-3) refl assms(6,4,5) refl] by simp

theorem dm_alloc_eagain_complete_witness:
  "sceKernelAllocateDirectMemory True True True ex_env ex_ds False 0 0x8000 0x5000 0x4000
     = (Inl KERR_EAGAIN, ex_ds)"
proof -
  have "\<exists>rc d'. sceKernelAllocateDirectMemory True True True ex_env ex_ds False 0 0x8000 0x5000 0x4000
      = (Inl rc, d')"
    by (simp add: dm_eval ex_ds_def ps4_direct_mem_init_def)
  then obtain rc d' where
    e: "sceKernelAllocateDirectMemory True True True ex_env ex_ds False 0 0x8000 0x5000 0x4000 = (Inl rc, d')"
    by blast
  have "dm_request_ok 0x5000 0x4000" by (simp add: dm_eval)
  from dm_alloc_eagain_complete [OF ex_ds_wf this _ _ e] e show ?thesis by simp
qed

section \<open>Release\<close>

lemma release_view:
  assumes wf: "dstate_wf env d" and ini: "ds_inited d"
    and res: "sceKernelReleaseDirectMemory init_ok env d p len = (rc, d')"
  shows "rc = 0 \<or> rc = KERR_EINVAL"
    and "rc = 0 \<Longrightarrow> \<exists>b \<in> set (ds_blocks d). \<not> blk_free b \<and> blk_off b = p \<and> dstate_wf env d' \<and> ds_inited d'
      \<and> ds_maps d' = ds_maps d
      \<and> (\<forall>a. free_at (ds_blocks d') a \<longleftrightarrow> free_at (ds_blocks d) a \<or> blk_has a b)"
    and "rc \<noteq> 0 \<Longrightarrow> d' = d \<and> (\<forall>b \<in> set (ds_blocks d). blk_off b = p \<longrightarrow> blk_free b)"
proof (atomize (full), goal_cases)
  case 1
  let ?bs = "ds_blocks d" and ?p = "\<lambda>b. \<not> blk_free b \<and> blk_off b = p"
  have bwf: "blocks_wf (get_total_direct_mem_size env d) ?bs" using wf ini by (simp add: dstate_wf_def)
  have d1: "snd (ps4_direct_mem_init init_ok env d) = d" by (rule init_inited [OF ini])
  show ?case
  proof (cases "dm_find_block ?p 0 ?bs")
    case None
    then have "rc = KERR_EINVAL \<and> d' = d"
      using res by (simp add: sceKernelReleaseDirectMemory_def d1 Let_def)
    moreover have "\<forall>b \<in> set ?bs. \<not> ?p b" using None by (simp only: dm_find_block_None_iff)
    ultimately show ?thesis by auto
  next
    case (Some i)
    from dm_find_block_SomeD [OF this] have i: "i < length ?bs" "?p (?bs ! i)" by auto
    obtain b rest where mn: "dm_merge_next ((?bs ! i)\<lparr>blk_free := True, blk_vaddr := 0\<rparr>) (drop (Suc i) ?bs) = (b, rest)"
      by fastforce
    have r: "rc = 0" "d' = d\<lparr>ds_blocks := dm_merge_prev (take i ?bs) b @ rest\<rparr>"
      using res Some mn by (auto simp: sceKernelReleaseDirectMemory_def d1 Let_def)
    note v = dm_release_view [OF bwf i(1) _ mn]
    have "dstate_wf env d'" using v(1) i(2) wf by (simp add: dstate_wf_def r(2))
    with r i v(2) ini show ?thesis by auto
  qed
qed

text \<open>
  C38. \<open>sceKernelReleaseDirectMemory\<close> frees exactly the allocated block that starts at the given
  address, whatever length is passed, and merges it with its free neighbours so that the
  invariant holds; without such a block it fails and changes nothing.
\<close>

theorem dm_release_exact:
  assumes "dstate_wf env d" and "ds_inited d"
    and "sceKernelReleaseDirectMemory init_ok env d p len = (rc, d')"
  shows "dstate_wf env d' \<and>
    ((rc = 0 \<and> (\<exists>b \<in> set (ds_blocks d). \<not> blk_free b \<and> blk_off b = p
        \<and> (\<forall>a. free_at (ds_blocks d') a \<longleftrightarrow> free_at (ds_blocks d) a \<or> blk_has a b)))
     \<or> (rc = KERR_EINVAL \<and> d' = d \<and> (\<forall>b \<in> set (ds_blocks d). blk_off b = p \<longrightarrow> blk_free b)))"
  using release_view [OF assms] assms(1) by auto

theorem dm_release_exact_witness:
  "\<exists>d'. sceKernelReleaseDirectMemory True ex_env ex_ds 0 0x4000 = (0, d') \<and> free_at (ds_blocks d') 0x3fff"
proof -
  obtain rc d' where e: "sceKernelReleaseDirectMemory True ex_env ex_ds 0 0x4000 = (rc, d')" by fastforce
  have "rc = 0 \<and> free_at (ds_blocks d') 0x3fff"
    using dm_release_exact [OF ex_ds_wf e] by (auto simp: ex_ds_def blk_has_def)
  with e show ?thesis by blast
qed

text \<open>
  Releasing what was just allocated gives the memory back: the same physical addresses are
  free as before the allocation.
\<close>

theorem dm_alloc_release_roundtrip:
  assumes "dstate_wf env d" and "ds_inited d" and "dm_request_ok len al"
    and "0 \<le> sint lo" and "0 \<le> sint hi"
    and "sceKernelAllocateDirectMemory True pad_ok tail_ok env d False lo hi len al = (Inr p, d1)"
    and "sceKernelReleaseDirectMemory True env d1 p len = (rc, d2)"
  shows "rc = 0 \<and> dstate_wf env d2 \<and> free_at (ds_blocks d2) = free_at (ds_blocks d)"
proof -
  let ?n = "align_up len (dm_eff_align al)"
  note a = dm_alloc_cases(1) [OF assms(1-3) refl assms(6,4,5) refl]
  from alloc_block [OF assms(1-3,6,4,5)] obtain b where b: "b \<in> set (ds_blocks d1)" "\<not> blk_free b"
    "blk_off b = p" "blk_size b = ?n" by blast
  have wf1: "dstate_wf env d1" "ds_inited d1" using a by auto
  note r = release_view [OF wf1 assms(7)]
  have rc: "rc = 0" using r(1,3) b by (metis (no_types, lifting))
  from r(2) [OF rc] obtain c where c: "c \<in> set (ds_blocks d1)" "\<not> blk_free c" "blk_off c = p"
    "dstate_wf env d2" "\<And>x. free_at (ds_blocks d2) x \<longleftrightarrow> free_at (ds_blocks d1) x \<or> blk_has x c" by blast
  have "blocks_wf (get_total_direct_mem_size env d1) (ds_blocks d1)"
    using wf1 by (simp add: dstate_wf_def)
  then have "c = b" using same_off_same_block b(1,3) c(1,3) by metis
  then have "blk_has x c \<longleftrightarrow> unat p \<le> x \<and> x < unat p + unat ?n" for x
    using b by (simp add: blk_has_def)
  then have "free_at (ds_blocks d2) x = free_at (ds_blocks d) x" for x
    using c(5) [of x] a by (auto simp: dm_candidate_def)
  with rc c(4) show ?thesis by blast
qed

theorem dm_alloc_release_roundtrip_witness:
  "\<exists>d1 d2. sceKernelAllocateDirectMemory True True True ex_env ex_ds False 0x1000 0x4000000 0x5000 0x10000
       = (Inr 0x10000, d1)
     \<and> sceKernelReleaseDirectMemory True ex_env d1 0x10000 0x5000 = (0, d2)
     \<and> free_at (ds_blocks d2) = free_at (ds_blocks ex_ds)"
proof -
  obtain d1 where d1: "sceKernelAllocateDirectMemory True True True ex_env ex_ds False 0x1000 0x4000000
      0x5000 0x10000 = (Inr 0x10000, d1)"
    by (simp add: dm_eval ex_ds_def ps4_direct_mem_init_def)
  obtain rc d2 where d2: "sceKernelReleaseDirectMemory True ex_env d1 0x10000 0x5000 = (rc, d2)" by fastforce
  have r: "dm_request_ok 0x5000 0x10000" by (simp add: dm_eval)
  from dm_alloc_release_roundtrip [OF ex_ds_wf r _ _ d1 d2] d1 d2 show ?thesis by auto
qed

section \<open>Sizes\<close>

text \<open>
  \<open>sceKernelAvailableDirectMemorySize\<close> is the number of free physical addresses, and never
  more than \<open>sceKernelGetDirectMemorySize\<close>; the sum of the block sizes does not wrap.
\<close>

theorem dm_available_counts_free:
  assumes "dstate_wf env d"
    and "sceKernelAvailableDirectMemorySize True env d = (n, d')"
  shows "unat n = card {a. free_at (ds_blocks d') a} \<and> n \<le> sceKernelGetDirectMemorySize env d
    \<and> dstate_wf env d' \<and> ds_inited d'"
proof -
  have d': "d' = snd (ps4_direct_mem_init True env d)" and n: "n = free_total (ds_blocks d')"
    using assms(2) by (auto simp: sceKernelAvailableDirectMemorySize_def Let_def)
  have wf: "dstate_wf env d'" "ds_inited d'" using init_wf [OF assms(1)] by (simp_all add: d')
  have tot: "get_total_direct_mem_size env d' = get_total_direct_mem_size env d" by (simp add: d')
  have "blocks_wf (get_total_direct_mem_size env d) (ds_blocks d')"
    using wf tot by (simp add: dstate_wf_def)
  with free_total_card [of 0 "ds_blocks d'" "unat (get_total_direct_mem_size env d)"] n wf
  show ?thesis by (simp add: blocks_wf_def sceKernelGetDirectMemorySize_def word_le_nat_alt)
qed

theorem dm_available_counts_free_witness:
  "card {a. free_at (ds_blocks ex_ds) a} = 0x3ffc000"
proof -
  have "sceKernelAvailableDirectMemorySize True ex_env ex_ds = (0x3ffc000, ex_ds)"
    by (simp add: sceKernelAvailableDirectMemorySize_def ps4_direct_mem_init_def free_total_def ex_ds_def)
  from dm_available_counts_free [OF ex_ds_wf(1) this] show ?thesis by simp
qed

lemma size_rule_eq:
  "ps4_direct_mem_size_rule sdk neo has_flex flex ext1 ext2 =
     (let total2 = (if neo then (if 0x05000000 \<le> sdk \<or> ext1 then 0x170000000 else 0x160000000)
                    else (if 0x05000000 \<le> sdk \<or> ext2 then 0x148000000 else 0x140000000));
          flexible = (if has_flex then flex + 0x4000000 else 0x20000000)
      in if flexible < total2 then total2 - flexible else 0)"
  by (simp add: ps4_direct_mem_size_rule_def flexible_mem_size_def Let_def)

text \<open>
  The size rule splits the process's budget: direct plus flexible memory is the mode's
  total less the extended memory that is off, or there is no direct memory. A process without
  parameters gets the 4608 MiB (base) and 5120 MiB (Neo) that the header says retail games test
  for, and the size never exceeds the total of the mode.
\<close>

theorem dm_size_rule_budget:
  "ps4_direct_mem_size_rule 0 False False flex False False = 4608 * 0x100000
   \<and> ps4_direct_mem_size_rule 0 True False flex False False = 5120 * 0x100000
   \<and> unat (ps4_direct_mem_size_rule sdk neo has_flex flex ext1 ext2)
       \<le> (if neo then 5888 else 5248) * 0x100000
   \<and> (ps4_direct_mem_size_rule sdk neo has_flex flex ext1 ext2 \<noteq> 0 \<longrightarrow>
        ps4_direct_mem_size_rule sdk neo has_flex flex ext1 ext2 + flexible_mem_size has_flex flex
          = (if neo then (if 0x05000000 \<le> sdk \<or> ext1 then 5888 else 5632)
             else (if 0x05000000 \<le> sdk \<or> ext2 then 5248 else 5120)) * 0x100000)"
proof -
  let ?t = "(if neo then (if 0x05000000 \<le> sdk \<or> ext1 then 0x170000000 else 0x160000000)
             else (if 0x05000000 \<le> sdk \<or> ext2 then 0x148000000 else 0x140000000)) :: u64"
  have f: "flexible_mem_size has_flex flex = (if has_flex then flex + 0x4000000 else 0x20000000)"
    by (simp add: flexible_mem_size_def)
  have rule: "ps4_direct_mem_size_rule sdk neo has_flex flex ext1 ext2 =
      (if flexible_mem_size has_flex flex < ?t then ?t - flexible_mem_size has_flex flex else 0)"
    unfolding size_rule_eq f Let_def by (rule refl)
  have le: "unat (if x < ?t then ?t - x else 0) \<le> unat ?t" for x :: u64
    by (auto simp: unat_sub_le word_less_nat_alt)
  have t: "unat ?t \<le> (if neo then 5888 else 5248) * 0x100000" by simp
  show ?thesis
    using le [of "flexible_mem_size has_flex flex"] t unfolding rule
    by (auto simp: size_rule_eq)
qed

theorem dm_size_rule_budget_witness:
  "ps4_direct_mem_size_rule 0x06000000 False True 0x1c000000 False False + 0x20000000 = 5248 * 0x100000"
  using dm_size_rule_budget [where sdk = "0x06000000" and neo = False and has_flex = True
      and flex = "0x1c000000" and ?ext1.0 = False and ?ext2.0 = False]
  by (simp add: size_rule_eq flexible_mem_size_def)

section \<open>Unmapping\<close>

text \<open>
  \<open>ps4_direct_mem_on_unmap\<close> detaches exactly the guest range from physical memory: an
  address in the range no longer translates, every other guest address still translates to the
  same physical address, however the mappings are cut, and the blocks are untouched.
\<close>

theorem dm_unmap_exact:
  assumes "maps_ok (ds_maps d)" and "no_wrap addr sz"
  shows "dm_translate (ps4_direct_mem_on_unmap True addr sz d) a =
      (if in_range addr sz a then None else dm_translate d a)
    \<and> maps_ok (ds_maps (ps4_direct_mem_on_unmap True addr sz d))
    \<and> ds_blocks (ps4_direct_mem_on_unmap True addr sz d) = ds_blocks d"
  using on_unmap_view [OF assms] by simp

theorem dm_unmap_exact_witness:
  "dm_translate (ps4_direct_mem_on_unmap True 0x14000 0x4000
     (ex_ds\<lparr>ds_maps := [\<lparr>dm_vaddr = 0x10000, dm_size = 0xc000, dm_phys = 0x4000\<rparr>]\<rparr>)) 0x18000 = Some 0xc000"
proof -
  let ?d = "ex_ds\<lparr>ds_maps := [\<lparr>dm_vaddr = 0x10000, dm_size = 0xc000, dm_phys = 0x4000\<rparr>]\<rparr>"
  have "maps_ok (ds_maps ?d)" "no_wrap (0x14000 :: u64) 0x4000"
    by (simp_all add: maps_ok_def no_wrap_def)
  from dm_unmap_exact [OF this, of "0x18000"] show ?thesis
    by (simp add: in_range_def dm_translate_maps maps_translate_Cons)
qed


section \<open>Every reachable state\<close>

lemma alloc_via_init:
  assumes "\<not> (out_null \<or> len = 0 \<or> sint lo < 0 \<or> sint hi < 0)"
    and "\<not> (sint hi \<le> sint lo \<or> hi - lo < align_up len (dm_eff_align al))"
    and ini: "ds_inited (snd (ps4_direct_mem_init init_ok env d))"
  shows "sceKernelAllocateDirectMemory init_ok pad_ok tail_ok env d out_null lo hi len al
    = sceKernelAllocateDirectMemory True pad_ok tail_ok env (snd (ps4_direct_mem_init init_ok env d))
        out_null lo hi len al"
  unfolding dm_alloc_eq [of init_ok] dm_alloc_eq [of True] init_inited [OF ini] if_not_P [OF assms(1)]
    if_not_P [OF assms(2)] by (rule refl)

lemma dm_alloc_wf:
  assumes wf: "dstate_wf env d" and req: "dm_request_ok len al"
  shows "dstate_wf env (snd (sceKernelAllocateDirectMemory init_ok pad_ok tail_ok env d out_null lo hi len al))"
proof (cases "out_null \<or> len = 0 \<or> sint lo < 0 \<or> sint hi < 0
    \<or> sint hi \<le> sint lo \<or> hi - lo < align_up len (dm_eff_align al)")
  case True
  then show ?thesis using wf unfolding dm_alloc_eq by auto
next
  case False
  let ?d = "snd (ps4_direct_mem_init init_ok env d)"
  have wf1: "dstate_wf env ?d" by (rule init_wf(1) [OF wf])
  show ?thesis
  proof (cases "ds_inited ?d")
    case True
    obtain r d' where e: "sceKernelAllocateDirectMemory True pad_ok tail_ok env ?d False lo hi len al = (r, d')"
      by fastforce
    have sgn: "0 \<le> sint lo" "0 \<le> sint hi" using False by auto
    note c = dm_alloc_cases [OF wf1 True req refl e sgn]
    have "dstate_wf env d'" by (cases r) (use c wf1 in auto)
    moreover have "out_null = False" using False by simp
    ultimately show ?thesis using alloc_via_init [OF _ _ True] False e by simp
  next
    case ni: False
    then have "ds_blocks ?d = []"
      by (auto simp: ps4_direct_mem_init_def dm_phys_init_def split: if_splits)
    then show ?thesis using wf1 False unfolding dm_alloc_eq by (auto simp: Let_def)
  qed
qed

lemma dm_release_wf:
  assumes wf: "dstate_wf env d"
  shows "dstate_wf env (snd (sceKernelReleaseDirectMemory init_ok env d p len))"
proof -
  let ?d = "snd (ps4_direct_mem_init init_ok env d)"
  have wf1: "dstate_wf env ?d" by (rule init_wf(1) [OF wf])
  show ?thesis
  proof (cases "ds_inited ?d")
    case True
    have "sceKernelReleaseDirectMemory init_ok env d p len = sceKernelReleaseDirectMemory True env ?d p len"
      by (simp add: sceKernelReleaseDirectMemory_def init_inited [OF True])
    moreover obtain rc d' where e: "sceKernelReleaseDirectMemory True env ?d p len = (rc, d')" by fastforce
    ultimately show ?thesis using release_view [OF wf1 True e] wf1 by (cases "rc = 0") auto
  next
    case False
    then have "ds_blocks ?d = []"
      by (auto simp: ps4_direct_mem_init_def dm_phys_init_def split: if_splits)
    then show ?thesis using wf1 by (simp add: sceKernelReleaseDirectMemory_def Let_def)
  qed
qed

lemma resize_wf:
  assumes wf: "blocks_wf old bs" and ne: "bs \<noteq> []"
    and ends: "blk_off (last bs) + blk_size (last bs) = old"
    and tot: "unat (blk_off (last bs)) < unat tot" "unat tot < 2 ^ 63"
  shows "blocks_wf tot (butlast bs @ [(last bs)\<lparr>blk_size := tot - blk_off (last bs)\<rparr>])"
proof -
  have sp: "butlast bs @ [last bs] = bs" using ne by simp
  have t: "blk_tiles 0 (butlast bs @ [last bs]) (unat old)" and m: "merged (butlast bs @ [last bs])"
    using wf by (simp_all add: sp blocks_wf_def)
  have t1: "blk_tiles 0 (butlast bs) (unat (blk_off (last bs)))"
    using t by (auto simp: tiles_append)
  have s: "unat (tot - blk_off (last bs)) = unat tot - unat (blk_off (last bs))"
    using tot(1) by (intro unat_sub_le) simp
  show ?thesis
    using t1 m s tot by (auto simp: blocks_wf_def tiles_append merged_append merged_Cons word_less_nat_alt)
qed

text \<open>
  One call by any thread. A request does not wrap, and a configuration leaves a memory that is
  not empty and does not end before the last block starts.
\<close>

inductive dm_step :: "denv \<Rightarrow> dstate \<Rightarrow> dstate \<Rightarrow> bool" for env where
  init: "dm_step env d (snd (ps4_direct_mem_init ok env d))"
| destroy: "dm_step env d (ps4_direct_mem_destroy d)"
| alloc: "dm_request_ok len al \<Longrightarrow>
    dm_step env d (snd (sceKernelAllocateDirectMemory c1 c2 c3 env d out_null lo hi len al))"
| release: "dm_step env d (snd (sceKernelReleaseDirectMemory c1 env d p len))"
| checked: "dm_step env d (snd (sceKernelCheckedReleaseDirectMemory c1 env d p len))"
| config: "tot = configured_total env mem pp \<Longrightarrow> 0 < tot \<Longrightarrow> unat tot < 2 ^ 63 \<Longrightarrow>
    ds_inited d \<longrightarrow> unat (blk_off (last (ds_blocks d))) < unat tot \<Longrightarrow>
    dm_step env d (ps4_direct_mem_configure env mem pp d)"
| unmap: "dm_step env d (ps4_direct_mem_on_unmap c1 addr sz d)"
| aliased: "dm_step env d (snd (dm_alias c1 c2 mem_sz d vaddr phys len))"

inductive dm_reach :: "denv \<Rightarrow> dstate \<Rightarrow> bool" for env where
  start: "dm_reach env dstate0"
| step: "dm_reach env d \<Longrightarrow> dm_step env d d' \<Longrightarrow> dm_reach env d'"

lemma configure_wf:
  assumes wf: "dstate_wf env d" and tot: "tot = configured_total env mem pp" "0 < tot" "unat tot < 2 ^ 63"
    and last: "ds_inited d \<longrightarrow> unat (blk_off (last (ds_blocks d))) < unat tot"
  shows "dstate_wf env (ps4_direct_mem_configure env mem pp d)"
proof -
  let ?old = "get_total_direct_mem_size env d" and ?bs = "ds_blocks d"
  have size: "get_total_direct_mem_size env (ps4_direct_mem_configure env mem pp d)
      = ds_size (ps4_direct_mem_configure env mem pp d)"
    "ds_inited (ps4_direct_mem_configure env mem pp d) = ds_inited d"
    by (simp_all add: get_total_direct_mem_size_def ps4_direct_mem_configure_def Let_def split: prod.splits)
  show ?thesis
  proof (cases "ds_inited d \<and> tot \<noteq> ?old")
    case False
    then have "ds_blocks (ps4_direct_mem_configure env mem pp d) = ?bs"
      "ds_size (ps4_direct_mem_configure env mem pp d) = tot"
      unfolding ps4_direct_mem_configure_def tot(1) [symmetric] Let_def by auto
    with False wf tot size show ?thesis by (auto simp: dstate_wf_def)
  next
    case True
    let ?lst = "List.last ?bs"
    let ?resize = "?bs \<noteq> [] \<and> blk_free ?lst \<and> blk_off ?lst + blk_size ?lst = ?old
      \<and> (?old < tot \<or> ?old - tot \<le> blk_size ?lst)"
    have bwf: "blocks_wf ?old ?bs" using wf True by (simp add: dstate_wf_def)
    show ?thesis
    proof (cases ?resize)
      case r: True
      then have "ds_blocks (ps4_direct_mem_configure env mem pp d)
          = butlast ?bs @ [?lst\<lparr>blk_size := tot - blk_off ?lst\<rparr>]"
        "ds_size (ps4_direct_mem_configure env mem pp d) = tot"
        unfolding ps4_direct_mem_configure_def tot(1) [symmetric] Let_def using True by auto
      with resize_wf [OF bwf, of tot] r last True tot size show ?thesis by (auto simp: dstate_wf_def)
    next
      case r: False
      then have "ds_blocks (ps4_direct_mem_configure env mem pp d) = ?bs"
        "ds_size (ps4_direct_mem_configure env mem pp d) = ?old"
        unfolding ps4_direct_mem_configure_def tot(1) [symmetric] Let_def using True by auto
      with wf bwf size True show ?thesis by (auto simp: dstate_wf_def)
    qed
  qed
qed

lemma dm_step_wf: "dm_step env d d' \<Longrightarrow> dstate_wf env d \<Longrightarrow> dstate_wf env d'"
proof (induction rule: dm_step.induct)
  case init
  then show ?case by (rule init_wf(1))
next
  case (destroy d)
  then show ?case
    by (simp add: dstate_wf_def ps4_direct_mem_destroy_def)
next
  case alloc
  then show ?case by (intro dm_alloc_wf)
next
  case release
  then show ?case by (intro dm_release_wf)
next
  case (checked d c1 p len)
  then show ?case using dm_release_wf [of env d c1 p len] by (simp add: sceKernelCheckedReleaseDirectMemory_def)
next
  case config
  then show ?case by (intro configure_wf)
next
  case (unmap d c1 addr sz)
  then show ?case by (simp add: dstate_wf_def ps4_direct_mem_on_unmap_def)
next
  case (aliased d c1 c2 mem_sz vaddr phys len)
  then show ?case by (simp add: dstate_wf_def dm_alias_def split: option.splits)
qed

lemma dm_reach_wf: "dm_reach env d \<Longrightarrow> dstate_wf env dstate0 \<Longrightarrow> dstate_wf env d"
  by (induction rule: dm_reach.induct) (auto intro: dm_step_wf)

text \<open>
  In every state the direct memory calls can reach, in any order, once the memory exists the
  blocks lie end to end from 0 to the direct memory size and no two neighbours are both free.
\<close>

theorem dm_reachable_partition:
  assumes "dm_reach env d" and "0 < get_total_direct_mem_size env dstate0"
    and "unat (get_total_direct_mem_size env dstate0) < 2 ^ 63" and "ds_inited d"
  shows "blk_tiles 0 (ds_blocks d) (unat (sceKernelGetDirectMemorySize env d)) \<and> merged (ds_blocks d)"
proof -
  have "dstate_wf env dstate0" using assms(2,3) by (simp add: dstate_wf_def dstate0_def)
  with assms(1) have "dstate_wf env d" by (rule dm_reach_wf)
  with assms(4) show ?thesis by (simp add: dstate_wf_def blocks_wf_def sceKernelGetDirectMemorySize_def)
qed

theorem dm_reachable_partition_witness:
  "blk_tiles 0 (ds_blocks (snd (ps4_direct_mem_init True ex_env dstate0))) 0x120000000"
proof -
  have tot: "get_total_direct_mem_size ex_env dstate0 = 0x120000000"
    by (simp add: get_total_direct_mem_size_def dstate0_def ex_env_def direct_mem_size_override_def size_rule_eq)
  have "dm_reach ex_env (snd (ps4_direct_mem_init True ex_env dstate0))"
    by (rule dm_reach.step [OF dm_reach.start dm_step.init])
  moreover have "ds_inited (snd (ps4_direct_mem_init True ex_env dstate0))"
    by (simp add: ps4_direct_mem_init_def dm_phys_init_def)
  ultimately show ?thesis
    using dm_reachable_partition [of ex_env "snd (ps4_direct_mem_init True ex_env dstate0)"] tot
    by (simp add: sceKernelGetDirectMemorySize_def)
qed

text \<open>
  A length that wraps when it is rounded up is granted as an empty block: the call returns
  success for nearly 16 exabytes and no physical address is taken.
\<close>

theorem dm_alloc_wrap_takes_nothing:
  "\<exists>d'. sceKernelAllocateDirectMemory True True True ex_env ex_ds False 0 0x4000000 (- 1) 0x4000
       = (Inr 0x4000, d')
     \<and> \<lparr>blk_off = 0x4000, blk_size = 0, blk_free = False, blk_vaddr = 0\<rparr> \<in> set (ds_blocks d')
     \<and> free_total (ds_blocks d') = free_total (ds_blocks ex_ds)"
  by (simp add: dm_eval ex_ds_def ps4_direct_mem_init_def free_total_def)

end
