(* ===== verification/VmExtents.thy ===== *)
theory VmExtents
  imports Ranges
begin

unbundle bit_operations_syntax

text \<open>
  The guest virtual memory manager of \<open>core/recomp_runtime.c\<close>: the list of
  \<open>GuestVMExtent\<close> records and the operations that carve, split, free and merge them. An
  operation runs with \<open>vm_mutex\<close> held, so it is one function on the state. The doubly
  linked list is a HOL list in link order; a \<open>calloc\<close> that may fail is a boolean argument
  that says whether it succeeds. \<open>vm_view\<close> is the abstract state: what an address is.
\<close>

section \<open>State\<close>

record ext =
  ext_addr :: u64
  ext_size :: u64
  ext_free :: bool
  ext_prot :: i32
  ext_flags :: i32
  ext_mtype :: i32
  ext_name :: string

record vm =
  vm_extents :: "ext list"
  vm_gen :: u64
  vm_mem_size :: u64

text \<open>A \<open>calloc\<close>ed extent with its address and size set and \<open>is_free = true\<close>.\<close>

definition free_ext :: "u64 \<Rightarrow> u64 \<Rightarrow> ext" where
  "free_ext a n = \<lparr>ext_addr = a, ext_size = n, ext_free = True, ext_prot = 0, ext_flags = 0,
     ext_mtype = 0, ext_name = []\<rparr>"

definition recomp_vm_note_change :: "vm \<Rightarrow> vm" where
  "recomp_vm_note_change v = v\<lparr>vm_gen := vm_gen v + 1\<rparr>"

section \<open>Allocation\<close>

text \<open>
  The search loop. \<open>ok\<close> is the region filter of the pass; \<open>best\<close> holds the position,
  the size and the aligned address of the best candidate so far. An exact fit ends the loop.
\<close>

fun vm_scan :: "(ext \<Rightarrow> bool) \<Rightarrow> u64 \<Rightarrow> u64 \<Rightarrow> nat \<Rightarrow> ext list \<Rightarrow> (nat \<times> u64 \<times> u64) option
    \<Rightarrow> (nat \<times> u64 \<times> u64) option" where
  "vm_scan ok al asz i [] best = best"
| "vm_scan ok al asz i (e # es) best =
     (let cand = align_up (ext_addr e) al in
      if ext_free e \<and> ext_addr e \<le> cand \<and> cand + asz \<le> ext_addr e + ext_size e \<and> ok e
         \<and> (case best of None \<Rightarrow> True | Some (_, bsize, _) \<Rightarrow> ext_size e < bsize)
      then (if ext_size e = asz \<and> cand = ext_addr e then Some (i, ext_size e, cand)
            else vm_scan ok al asz (Suc i) es (Some (i, ext_size e, cand)))
      else vm_scan ok al asz (Suc i) es best)"

definition vm_preferred :: "i32 \<Rightarrow> string option \<Rightarrow> ext \<Rightarrow> bool" where
  "vm_preferred flags name e \<longleftrightarrow>
     ext_addr e < 0x800000000 \<or> flags AND 0x80 \<noteq> 0
     \<or> (case name of None \<Rightarrow> False | Some s \<Rightarrow> strstr s ''pool'')"

text \<open>
  The part of extent \<open>e\<close> at \<open>[at, at + asz)\<close> is taken: a free prefix extent when \<open>at\<close>
  is above the start, a free suffix extent for what is left when its \<open>calloc\<close> succeeds.
\<close>

definition vm_carve :: "bool \<Rightarrow> ext \<Rightarrow> u64 \<Rightarrow> u64 \<Rightarrow> i32 \<Rightarrow> i32 \<Rightarrow> string option \<Rightarrow> ext list" where
  "vm_carve suf_ok e at asz prot flags name =
     (let pre = (if ext_addr e < at then [free_ext (ext_addr e) (at - ext_addr e)] else []);
          rest = (if ext_addr e < at then ext_size e - (at - ext_addr e) else ext_size e);
          cut = (asz < rest \<and> suf_ok);
          suf = (if cut then [free_ext (at + asz) (rest - asz)] else []);
          cur = e\<lparr>ext_addr := (if ext_addr e < at then at else ext_addr e),
                  ext_size := (if cut then asz else rest), ext_free := False, ext_prot := prot,
                  ext_flags := flags,
                  ext_name := (case name of None \<Rightarrow> [] | Some s \<Rightarrow> strncpy_name 32 s)\<rparr>
      in pre @ [cur] @ suf)"

definition recomp_vm_alloc_named_aligned ::
    "bool \<Rightarrow> bool \<Rightarrow> vm \<Rightarrow> u64 \<Rightarrow> u64 \<Rightarrow> i32 \<Rightarrow> i32 \<Rightarrow> string option \<Rightarrow> u64 \<times> vm" where
  "recomp_vm_alloc_named_aligned pre_ok suf_ok v sz alignment prot flags name =
     (if sz = 0 then (BAD_ADDR, v) else
      let al = (if alignment < 4096 then 4096 else alignment);
          asz = align_up sz al;
          es = vm_extents v;
          best = (case vm_scan (vm_preferred flags name) al asz 0 es None of
                    None \<Rightarrow> vm_scan (\<lambda>_. True) al asz 0 es None
                  | Some b \<Rightarrow> Some b)
      in case best of
           None \<Rightarrow> (BAD_ADDR, v)
         | Some (i, _, at) \<Rightarrow>
             (if ext_addr (es ! i) < at \<and> \<not> pre_ok then (BAD_ADDR, v) else
              (at, recomp_vm_note_change
                     (v\<lparr>vm_extents := take i es @ vm_carve suf_ok (es ! i) at asz prot flags name
                         @ drop (Suc i) es\<rparr>))))"

definition recomp_vm_alloc_named ::
    "bool \<Rightarrow> bool \<Rightarrow> vm \<Rightarrow> u64 \<Rightarrow> i32 \<Rightarrow> i32 \<Rightarrow> string option \<Rightarrow> u64 \<times> vm" where
  "recomp_vm_alloc_named pre_ok suf_ok v sz prot flags name =
     recomp_vm_alloc_named_aligned pre_ok suf_ok v sz 4096 prot flags name"

text \<open>\<open>PROT_READ | PROT_WRITE\<close> is 3.\<close>

definition recomp_vm_alloc :: "bool \<Rightarrow> bool \<Rightarrow> vm \<Rightarrow> u64 \<Rightarrow> u64 \<times> vm" where
  "recomp_vm_alloc pre_ok suf_ok v sz = recomp_vm_alloc_named pre_ok suf_ok v sz 3 0 (Some ''anon'')"

fun vm_find_index :: "(ext \<Rightarrow> bool) \<Rightarrow> nat \<Rightarrow> ext list \<Rightarrow> nat option" where
  "vm_find_index p i [] = None"
| "vm_find_index p i (e # es) = (if p e then Some i else vm_find_index p (Suc i) es)"

definition vm_fixed_ok :: "u64 \<Rightarrow> u64 \<Rightarrow> ext \<Rightarrow> bool" where
  "vm_fixed_ok at asz e \<longleftrightarrow>
     (ext_free e \<or> ext_name e \<noteq> [] \<and> strstr (ext_name e) ''reserved'')
     \<and> ext_addr e \<le> at \<and> at + asz \<le> ext_addr e + ext_size e"

definition recomp_vm_alloc_fixed ::
    "bool \<Rightarrow> bool \<Rightarrow> vm \<Rightarrow> u64 \<Rightarrow> u64 \<Rightarrow> i32 \<Rightarrow> i32 \<Rightarrow> string option \<Rightarrow> u64 \<times> vm" where
  "recomp_vm_alloc_fixed pre_ok suf_ok v desired sz prot flags name =
     (if sz = 0 then (BAD_ADDR, v) else
      let at = desired AND NOT 4095;
          asz = (sz + 4095) AND NOT 4095;
          es = vm_extents v
      in if vm_mem_size v < at + asz \<or> at + asz < at then (BAD_ADDR, v) else
         case vm_find_index (vm_fixed_ok at asz) 0 es of
           None \<Rightarrow> (BAD_ADDR, v)
         | Some i \<Rightarrow>
             (if ext_addr (es ! i) < at \<and> \<not> pre_ok then (BAD_ADDR, v) else
              (at, recomp_vm_note_change
                     (v\<lparr>vm_extents := take i es @ vm_carve suf_ok (es ! i) at asz prot flags name
                         @ drop (Suc i) es\<rparr>))))"

section \<open>Lookup and the unmapped ranges\<close>

definition recomp_vm_find :: "vm \<Rightarrow> u64 \<Rightarrow> ext option" where
  "recomp_vm_find v addr = List.find (\<lambda>e. ext_addr e \<le> addr \<and> addr < ext_addr e + ext_size e) (vm_extents v)"

definition vm_extent_unmapped :: "ext \<Rightarrow> bool" where
  "vm_extent_unmapped e \<longleftrightarrow> ext_free e \<or> ext_name e = ''reserved''"

text \<open>The merging loop: the open range is \<open>Some (cur_start, cur_end)\<close>.\<close>

fun unmapped_scan :: "ext list \<Rightarrow> (u64 \<times> u64) option \<Rightarrow> (u64 \<times> u64) list" where
  "unmapped_scan [] cur = (case cur of None \<Rightarrow> [] | Some r \<Rightarrow> [r])"
| "unmapped_scan (e # es) cur =
     (if \<not> vm_extent_unmapped e \<or> ext_size e = 0 then unmapped_scan es cur else
      case cur of
        None \<Rightarrow> unmapped_scan es (Some (ext_addr e, ext_addr e + ext_size e))
      | Some (s, t) \<Rightarrow>
          (if ext_addr e = t then unmapped_scan es (Some (s, ext_addr e + ext_size e))
           else (s, t) # unmapped_scan es (Some (ext_addr e, ext_addr e + ext_size e))))"

text \<open>The number of ranges, the generation, and what is written to the \<open>max\<close> slots of \<open>out\<close>.\<close>

definition recomp_vm_unmapped_ranges :: "vm \<Rightarrow> nat \<Rightarrow> nat \<times> u64 \<times> (u64 \<times> u64) list" where
  "recomp_vm_unmapped_ranges v max_n =
     (let rs = unmapped_scan (vm_extents v) None in (length rs, vm_gen v, take max_n rs))"

section \<open>Splitting, merging, freeing\<close>

fun vm_split_list :: "bool \<Rightarrow> u64 \<Rightarrow> ext list \<Rightarrow> bool \<times> ext list" where
  "vm_split_list ok at [] = (True, [])"
| "vm_split_list ok at (e # es) =
     (if ext_free e \<or> at \<le> ext_addr e \<or> ext_addr e + ext_size e \<le> at
      then (let (b, es') = vm_split_list ok at es in (b, e # es'))
      else if \<not> ok then (False, e # es)
      else (True, e\<lparr>ext_size := at - ext_addr e\<rparr>
                  # e\<lparr>ext_addr := at, ext_size := ext_addr e + ext_size e - at\<rparr> # es))"

definition recomp_vm_split_extent_at :: "bool \<Rightarrow> vm \<Rightarrow> u64 \<Rightarrow> bool \<times> vm" where
  "recomp_vm_split_extent_at ok v at =
     (let (b, es) = vm_split_list ok at (vm_extents v) in (b, v\<lparr>vm_extents := es\<rparr>))"

fun vm_merge :: "u64 \<Rightarrow> ext list \<Rightarrow> ext list" where
  "vm_merge end_a (e # n # es) =
     (if ext_addr e \<le> end_a then
        (if ext_free e \<and> ext_free n \<and> ext_addr e + ext_size e = ext_addr n
         then vm_merge end_a (e\<lparr>ext_size := ext_size e + ext_size n\<rparr> # es)
         else e # vm_merge end_a (n # es))
      else e # n # es)"
| "vm_merge end_a es = es"

text \<open>
  The scan skips the extents that end below \<open>start\<close>, then steps back to the previous one
  if there is one; when it runs off the list nothing is merged.
\<close>

definition vm_coalesce_free :: "u64 \<Rightarrow> u64 \<Rightarrow> ext list \<Rightarrow> ext list" where
  "vm_coalesce_free start end_a es =
     (let k = length (takeWhile (\<lambda>e. ext_addr e + ext_size e < start) es) in
      if k = length es then es else take (k - 1) es @ vm_merge end_a (drop (k - 1) es))"

text \<open>
  The phases of \<open>recomp_vm_free\<close>. Phase 1, locked: split at both ends and note the mapped
  ranges inside. \<open>Inl rc\<close> is an early return with its code.
\<close>

definition vm_free_inside :: "u64 \<Rightarrow> u64 \<Rightarrow> ext \<Rightarrow> bool" where
  "vm_free_inside start end_a e \<longleftrightarrow> \<not> ext_free e \<and> start \<le> ext_addr e \<and> ext_addr e + ext_size e \<le> end_a"

definition vm_free_phase1 ::
    "bool \<Rightarrow> bool \<Rightarrow> bool \<Rightarrow> vm \<Rightarrow> u64 \<Rightarrow> u64 \<Rightarrow> (i32 + (u64 \<times> u64) list) \<times> vm" where
  "vm_free_phase1 split1_ok split2_ok malloc_ok v start end_a =
     (let (b1, v1) = recomp_vm_split_extent_at split1_ok v start in
      if \<not> b1 then (Inl (-1), v1) else
      let (b2, v2) = recomp_vm_split_extent_at split2_ok v1 end_a in
      if \<not> b2 then (Inl (-1), v2) else
      let ranges = map (\<lambda>e. (ext_addr e, ext_size e)) (filter (vm_free_inside start end_a) (vm_extents v2)) in
      if ranges = [] then (Inl 0, v2)
      else if \<not> malloc_ok then (Inl (-1), v2)
      else (Inr ranges, v2))"

text \<open>Phase 3, locked: mark the noted ranges free and merge neighbours.\<close>

definition vm_mark_free :: "u64 \<times> u64 \<Rightarrow> ext list \<Rightarrow> ext list" where
  "vm_mark_free r es =
     map (\<lambda>e. if \<not> ext_free e \<and> fst r \<le> ext_addr e \<and> ext_addr e + ext_size e \<le> fst r + snd r
              then e\<lparr>ext_free := True\<rparr> else e) es"

definition vm_free_phase3 :: "vm \<Rightarrow> u64 \<Rightarrow> u64 \<Rightarrow> (u64 \<times> u64) list \<Rightarrow> vm" where
  "vm_free_phase3 v start end_a ranges =
     recomp_vm_note_change
       (v\<lparr>vm_extents := vm_coalesce_free start end_a (fold vm_mark_free ranges (vm_extents v))\<rparr>)"

text \<open>
  The whole call. Phase 2, unlocked, runs \<open>on_unmap\<close> (the direct memory side,
  \<open>ps4_direct_mem_on_unmap\<close>) once per noted range on the state \<open>d\<close> of that component.
\<close>

definition recomp_vm_free ::
    "(u64 \<Rightarrow> u64 \<Rightarrow> 'd \<Rightarrow> 'd) \<Rightarrow> bool \<Rightarrow> bool \<Rightarrow> bool \<Rightarrow> vm \<times> 'd \<Rightarrow> u64 \<Rightarrow> u64 \<Rightarrow> i32 \<times> vm \<times> 'd" where
  "recomp_vm_free on_unmap split1_ok split2_ok malloc_ok vd addr sz =
     (if addr = 0 \<or> sz = 0 then (-1, vd) else
      let start = addr AND NOT 4095;
          end_a = start + ((sz + 4095) AND NOT 4095)
      in if end_a < start then (-1, vd) else
         case vm_free_phase1 split1_ok split2_ok malloc_ok (fst vd) start end_a of
           (Inl rc, v1) \<Rightarrow> (rc, v1, snd vd)
         | (Inr ranges, v1) \<Rightarrow>
             (let d' = fold (\<lambda>r. on_unmap (fst r) (snd r)) ranges (snd vd)
              in (0, vm_free_phase3 v1 start end_a ranges, d')))"

end
