(* ===== verification/VmView.thy ===== *)
theory VmView
  imports VmExtents
begin

unbundle bit_operations_syntax

text \<open>
  The abstract state of the virtual memory manager and the refinement of its operations.
  \<open>vm_view v a\<close> says what the guest address \<open>a\<close> is: in no extent, in a free extent, or
  in a mapped one with its attributes. \<open>vm_wf\<close> is the invariant: the extents lie within the
  guest memory and do not overlap. The list is not sorted by address (the runtime appends
  the main stack extent after the pool extent), so nothing here relies on the order.
\<close>

section \<open>Abstract view and invariant\<close>

datatype page = Hole | Free | Mapped i32 i32 i32 string

definition ext_page :: "ext \<Rightarrow> page" where
  "ext_page e = (if ext_free e then Free else Mapped (ext_prot e) (ext_flags e) (ext_mtype e) (ext_name e))"

abbreviation ext_covers :: "u64 \<Rightarrow> ext \<Rightarrow> bool" where
  "ext_covers \<equiv> covers ext_addr ext_size"

abbreviation ext_lookup :: "ext list \<Rightarrow> u64 \<Rightarrow> ext option" where
  "ext_lookup \<equiv> range_lookup ext_addr ext_size"

definition exts_view :: "ext list \<Rightarrow> u64 \<Rightarrow> page" where
  "exts_view es a = (case ext_lookup es a of None \<Rightarrow> Hole | Some e \<Rightarrow> ext_page e)"

definition vm_view :: "vm \<Rightarrow> u64 \<Rightarrow> page" where
  "vm_view v = exts_view (vm_extents v)"

definition ext_within :: "u64 \<Rightarrow> ext \<Rightarrow> bool" where
  "ext_within lim e \<longleftrightarrow> unat (ext_addr e) + unat (ext_size e) \<le> unat lim"

definition exts_wf :: "u64 \<Rightarrow> ext list \<Rightarrow> bool" where
  "exts_wf lim es \<longleftrightarrow> ranges_ok ext_addr ext_size es \<and> (\<forall>e \<in> set es. ext_within lim e)"

definition vm_wf :: "vm \<Rightarrow> bool" where
  "vm_wf v \<longleftrightarrow> exts_wf (vm_mem_size v) (vm_extents v)"

lemma recomp_vm_find_lookup: "recomp_vm_find v a = ext_lookup (vm_extents v) a"
  by (simp add: recomp_vm_find_def range_lookup_def covers_def [abs_def] in_range_def)

lemma ext_within_no_wrap: "ext_within lim e \<Longrightarrow> no_wrap (ext_addr e) (ext_size e)"
  using u64_lt [of lim] by (simp add: ext_within_def no_wrap_def)

lemma ext_covers_nat:
  "no_wrap (ext_addr e) (ext_size e) \<Longrightarrow>
     ext_covers a e \<longleftrightarrow> unat (ext_addr e) \<le> unat a \<and> unat a < unat (ext_addr e) + unat (ext_size e)"
  by (simp add: covers_def in_range_nat)

lemma free_ext_sel [simp]:
  "ext_addr (free_ext a n) = a" "ext_size (free_ext a n) = n" "ext_free (free_ext a n)"
  by (simp_all add: free_ext_def)

lemma ext_page_free [simp]: "ext_free e \<Longrightarrow> ext_page e = Free"
  by (simp add: ext_page_def)

text \<open>Replacing one extent by pieces of it keeps the invariant and changes the view there only.\<close>

definition ext_pieces :: "ext \<Rightarrow> ext list \<Rightarrow> bool" where
  "ext_pieces e ps \<longleftrightarrow> pieces_of ext_addr ext_size e ps \<and>
     (\<forall>a. ext_covers a e \<longrightarrow> (\<exists>p \<in> set ps. ext_covers a p)) \<and>
     (\<forall>lim. ext_within lim e \<longrightarrow> (\<forall>p \<in> set ps. ext_within lim p))"

lemma splice_wf:
  "exts_wf lim (xs @ e # ys) \<Longrightarrow> ext_pieces e ps \<Longrightarrow> exts_wf lim (xs @ ps @ ys)"
  using splice_ranges_ok [of ext_addr ext_size xs e ys ps]
  by (auto simp: exts_wf_def ext_pieces_def)

lemma splice_view:
  assumes "exts_wf lim (xs @ e # ys)" and "ext_pieces e ps"
  shows "exts_view (xs @ ps @ ys) a =
    (if ext_covers a e then exts_view ps a else exts_view (xs @ e # ys) a)"
  using splice_lookup [of ext_addr ext_size xs e ys ps a] assms
  by (auto simp: exts_view_def exts_wf_def ext_pieces_def)

section \<open>Carving\<close>

lemma ext_covers_free [simp]: "ext_covers a (free_ext b n) \<longleftrightarrow> in_range b n a"
  by (simp add: covers_def)

lemma exts_view_Nil [simp]: "exts_view [] a = Hole"
  by (simp add: exts_view_def)

lemma exts_view_Cons:
  "exts_view (e # es) a = (if ext_covers a e then ext_page e else exts_view es a)"
  by (simp add: exts_view_def range_lookup_Cons)

definition carve_cur :: "ext \<Rightarrow> u64 \<Rightarrow> u64 \<Rightarrow> i32 \<Rightarrow> i32 \<Rightarrow> string option \<Rightarrow> ext" where
  "carve_cur e at n prot flags name = e\<lparr>ext_addr := at, ext_size := n, ext_free := False,
     ext_prot := prot, ext_flags := flags,
     ext_name := (case name of None \<Rightarrow> [] | Some s \<Rightarrow> strncpy_name 32 s)\<rparr>"

lemma carve_cur_sel [simp]:
  "ext_addr (carve_cur e at n prot flags name) = at"
  "ext_size (carve_cur e at n prot flags name) = n"
  "\<not> ext_free (carve_cur e at n prot flags name)"
  "ext_page (carve_cur e at n prot flags name) =
     Mapped prot flags (ext_mtype e) (case name of None \<Rightarrow> [] | Some s \<Rightarrow> strncpy_name 32 s)"
  "ext_covers a (carve_cur e at n prot flags name) \<longleftrightarrow> in_range at n a"
  by (simp_all add: carve_cur_def ext_page_def covers_def)

lemma vm_carve_eq:
  assumes "unat (ext_addr e) \<le> unat at"
  shows "vm_carve suf_ok e at asz prot flags name =
    (let rest = ext_size e - (at - ext_addr e); cut = asz < rest \<and> suf_ok
     in (if ext_addr e < at then [free_ext (ext_addr e) (at - ext_addr e)] else [])
        @ [carve_cur e at (if cut then asz else rest) prot flags name]
        @ (if cut then [free_ext (at + asz) (rest - asz)] else []))"
proof -
  have eq: "\<not> ext_addr e < at \<Longrightarrow> at = ext_addr e"
    using assms by (simp add: word_less_nat_alt word_unat_eq_iff)
  show ?thesis
  proof (cases "ext_addr e < at")
    case True
    then show ?thesis by (simp add: vm_carve_def carve_cur_def Let_def)
  next
    case False
    with eq have "at = ext_addr e" by simp
    then show ?thesis by (simp add: vm_carve_def carve_cur_def Let_def)
  qed
qed

lemma carve_nats:
  assumes nw: "no_wrap (ext_addr e) (ext_size e)"
    and lo: "unat (ext_addr e) \<le> unat at"
    and hi: "unat at + unat asz \<le> unat (ext_addr e) + unat (ext_size e)"
  shows "unat (at - ext_addr e) = unat at - unat (ext_addr e)"
    and "unat (ext_size e - (at - ext_addr e)) = unat (ext_addr e) + unat (ext_size e) - unat at"
    and "unat (at + asz) = unat at + unat asz"
    and "unat (ext_size e - (at - ext_addr e) - asz) =
         unat (ext_addr e) + unat (ext_size e) - unat at - unat asz"
proof -
  show d: "unat (at - ext_addr e) = unat at - unat (ext_addr e)"
    using lo by (rule unat_sub_le)
  show r: "unat (ext_size e - (at - ext_addr e)) = unat (ext_addr e) + unat (ext_size e) - unat at"
    using lo hi by (subst unat_sub_le) (simp_all add: d)
  show "unat (at + asz) = unat at + unat asz"
    using nw hi by (intro unat_add_no_wrap) (simp add: no_wrap_def)
  show "unat (ext_size e - (at - ext_addr e) - asz) =
      unat (ext_addr e) + unat (ext_size e) - unat at - unat asz"
    using lo hi by (subst unat_sub_le) (simp_all add: r)
qed

lemma carve_covers:
  assumes nw: "no_wrap (ext_addr e) (ext_size e)"
    and lo: "unat (ext_addr e) \<le> unat at"
    and hi: "unat at + unat asz \<le> unat (ext_addr e) + unat (ext_size e)"
  shows "no_wrap (ext_addr e) (at - ext_addr e)"
    and "no_wrap at (ext_size e - (at - ext_addr e))"
    and "no_wrap at asz"
    and "no_wrap (at + asz) (ext_size e - (at - ext_addr e) - asz)"
  using nw lo hi by (simp_all add: no_wrap_def carve_nats [OF nw lo hi])

lemma carve_pieces:
  assumes nw: "no_wrap (ext_addr e) (ext_size e)"
    and lo: "unat (ext_addr e) \<le> unat at"
    and hi: "unat at + unat asz \<le> unat (ext_addr e) + unat (ext_size e)"
  shows "ext_pieces e (vm_carve suf_ok e at asz prot flags name)"
proof -
  note n = carve_nats [OF nw lo hi]
  note c = carve_covers [OF nw lo hi]
  have cov: "ext_covers a e \<longleftrightarrow> unat (ext_addr e) \<le> unat a \<and> unat a < unat (ext_addr e) + unat (ext_size e)" for a
    using nw by (rule ext_covers_nat)
  show ?thesis
    using lo hi unfolding vm_carve_eq [OF lo] Let_def ext_pieces_def pieces_of_def
    by (auto simp: ranges_ok_Cons apart_def cov in_range_nat c n ext_within_def word_less_nat_alt
        split: if_splits)
qed

lemma carve_view:
  assumes nw: "no_wrap (ext_addr e) (ext_size e)"
    and lo: "unat (ext_addr e) \<le> unat at"
    and hi: "unat at + unat asz \<le> unat (ext_addr e) + unat (ext_size e)"
    and a: "ext_covers a e"
  shows "exts_view (vm_carve suf_ok e at asz prot flags name) a =
      (if unat at \<le> unat a \<and> (unat a < unat at + unat asz \<or> \<not> suf_ok)
       then Mapped prot flags (ext_mtype e) (case name of None \<Rightarrow> [] | Some s \<Rightarrow> strncpy_name 32 s)
       else Free)"
proof -
  note n = carve_nats [OF nw lo hi]
  note c = carve_covers [OF nw lo hi]
  have "unat (ext_addr e) \<le> unat a \<and> unat a < unat (ext_addr e) + unat (ext_size e)"
    using ext_covers_nat [OF nw] a by blast
  then show ?thesis
    using lo hi unfolding vm_carve_eq [OF lo] Let_def
    by (auto simp: exts_view_Cons in_range_nat c n word_less_nat_alt split: if_splits)
qed

section \<open>The search loop\<close>

definition vm_fit :: "u64 \<Rightarrow> u64 \<Rightarrow> ext \<Rightarrow> bool" where
  "vm_fit al asz e \<longleftrightarrow> ext_free e \<and> ext_addr e \<le> align_up (ext_addr e) al
     \<and> align_up (ext_addr e) al + asz \<le> ext_addr e + ext_size e"

lemma vm_scan_Cons:
  "vm_scan ok al asz i (e # es) best =
     (if vm_fit al asz e \<and> ok e \<and> (case best of None \<Rightarrow> True | Some (_, bsize, _) \<Rightarrow> ext_size e < bsize)
      then (if ext_size e = asz \<and> align_up (ext_addr e) al = ext_addr e
            then Some (i, ext_size e, align_up (ext_addr e) al)
            else vm_scan ok al asz (Suc i) es (Some (i, ext_size e, align_up (ext_addr e) al)))
      else vm_scan ok al asz (Suc i) es best)"
  by (simp add: Let_def vm_fit_def)

lemma vm_scan_SomeD:
  "vm_scan ok al asz i es best = Some (j, s, c) \<Longrightarrow>
     best = Some (j, s, c) \<or>
     (\<exists>k < length es. j = i + k \<and> s = ext_size (es ! k) \<and> c = align_up (ext_addr (es ! k)) al
        \<and> vm_fit al asz (es ! k) \<and> ok (es ! k))"
proof (induction es arbitrary: i best)
  case Nil
  then show ?case by simp
next
  case (Cons e es)
  show ?case
  proof (cases "vm_fit al asz e \<and> ok e \<and> (case best of None \<Rightarrow> True | Some (_, bsize, _) \<Rightarrow> ext_size e < bsize)")
    case True
    with Cons.prems have "(j, s, c) = (i, ext_size e, align_up (ext_addr e) al)
        \<or> (\<exists>k < length es. j = Suc i + k \<and> s = ext_size (es ! k) \<and> c = align_up (ext_addr (es ! k)) al
             \<and> vm_fit al asz (es ! k) \<and> ok (es ! k))"
      unfolding vm_scan_Cons using Cons.IH [of "Suc i" "Some (i, ext_size e, align_up (ext_addr e) al)"]
      by (auto split: if_splits)
    with True show ?thesis by (auto simp: Ex_less_Suc2)
  next
    case False
    with Cons.prems have "vm_scan ok al asz (Suc i) es best = Some (j, s, c)"
      unfolding vm_scan_Cons by (simp only: if_False)
    from Cons.IH [OF this] show ?thesis by (auto simp: Ex_less_Suc2)
  qed
qed

lemma vm_scan_None_iff:
  "vm_scan ok al asz i es best = None \<longleftrightarrow> best = None \<and> (\<forall>e \<in> set es. \<not> (vm_fit al asz e \<and> ok e))"
proof (induction es arbitrary: i best)
  case Nil
  then show ?case by simp
next
  case (Cons e es)
  show ?case unfolding vm_scan_Cons by (auto simp: Cons.IH split: option.splits simp del: not_None_eq)
qed

text \<open>The result is the smallest extent that fits; the early exit on an exact fit loses nothing.\<close>

lemma vm_scan_best:
  assumes "\<forall>e \<in> set es. vm_fit al asz e \<longrightarrow> asz \<le> ext_size e"
    and "vm_scan ok al asz i es best = Some (j, s, c)"
    and "\<And>j' s' c'. best = Some (j', s', c') \<Longrightarrow> asz \<le> s'"
  shows "(\<forall>j' s' c'. best = Some (j', s', c') \<longrightarrow> s \<le> s')
    \<and> (\<forall>e \<in> set es. vm_fit al asz e \<and> ok e \<longrightarrow> s \<le> ext_size e) \<and> asz \<le> s"
  using assms
proof (induction es arbitrary: i best)
  case Nil
  then show ?case by auto
next
  case (Cons e es)
  have pre: "\<forall>e \<in> set es. vm_fit al asz e \<longrightarrow> asz \<le> ext_size e" using Cons.prems(1) by simp
  show ?case
  proof (cases "vm_fit al asz e \<and> ok e \<and> (case best of None \<Rightarrow> True | Some (_, bsize, _) \<Rightarrow> ext_size e < bsize)")
    case True
    show ?thesis
    proof (cases "ext_size e = asz \<and> align_up (ext_addr e) al = ext_addr e")
      case exact: True
      with True Cons.prems(2) have "s = asz" unfolding vm_scan_Cons by simp
      with Cons.prems(1,3) show ?thesis by auto
    next
      case False
      with True Cons.prems(2)
      have "vm_scan ok al asz (Suc i) es (Some (i, ext_size e, align_up (ext_addr e) al)) = Some (j, s, c)"
        unfolding vm_scan_Cons by (simp only: if_True if_False simp_thms)
      from Cons.IH [OF pre this] True Cons.prems(1) have "s \<le> ext_size e
          \<and> (\<forall>e \<in> set es. vm_fit al asz e \<and> ok e \<longrightarrow> s \<le> ext_size e) \<and> asz \<le> s"
        by auto
      with True show ?thesis by (auto split: option.splits)
    qed
  next
    case False
    with Cons.prems(2) have sc: "vm_scan ok al asz (Suc i) es best = Some (j, s, c)"
      unfolding vm_scan_Cons by (simp only: if_False)
    have R: "(\<forall>j' s' c'. best = Some (j', s', c') \<longrightarrow> s \<le> s')
        \<and> (\<forall>e \<in> set es. vm_fit al asz e \<and> ok e \<longrightarrow> s \<le> ext_size e) \<and> asz \<le> s"
      by (rule Cons.IH [OF pre sc]) (rule Cons.prems(3))
    with False show ?thesis
      by (cases best) (auto intro: order.trans simp: not_less)
  qed
qed

text \<open>Under the bound on the request the word comparisons of the fit test are the intended ones.\<close>

lemma vm_fit_nat:
  assumes "ext_within lim e" and "al \<noteq> 0" and "unat asz + unat al + unat lim \<le> 2 ^ 64"
  shows "vm_fit al asz e \<longleftrightarrow> ext_free e \<and>
    unat (align_up (ext_addr e) al) + unat asz \<le> unat (ext_addr e) + unat (ext_size e)"
    and "unat (ext_addr e) \<le> unat (align_up (ext_addr e) al)"
proof -
  have w: "unat (ext_addr e) + unat (ext_size e) \<le> unat lim"
    using assms(1) by (simp add: ext_within_def)
  have b: "unat (ext_addr e) + unat al \<le> 2 ^ 64" using w assms(3) by simp
  show lo: "unat (ext_addr e) \<le> unat (align_up (ext_addr e) al)"
    by (rule align_up_bounds(1) [OF assms(2) b])
  have "unat (align_up (ext_addr e) al) < unat (ext_addr e) + unat al"
    by (rule align_up_bounds(2) [OF assms(2) b])
  then have "no_wrap (align_up (ext_addr e) al) asz"
    using w assms(3) by (simp add: no_wrap_def)
  then show "vm_fit al asz e \<longleftrightarrow> ext_free e \<and>
    unat (align_up (ext_addr e) al) + unat asz \<le> unat (ext_addr e) + unat (ext_size e)"
    using lo ext_within_no_wrap [OF assms(1)]
    by (simp add: vm_fit_def word_le_nat_alt unat_add_no_wrap)
qed

section \<open>Installing a carved extent\<close>

lemma install_wf_view:
  assumes wf: "exts_wf lim es" and i: "i < length es"
    and lo: "unat (ext_addr (es ! i)) \<le> unat at"
    and hi: "unat at + unat asz \<le> unat (ext_addr (es ! i)) + unat (ext_size (es ! i))"
  shows "exts_wf lim (take i es @ vm_carve suf_ok (es ! i) at asz prot flags name @ drop (Suc i) es)"
    and "exts_view (take i es @ vm_carve suf_ok (es ! i) at asz prot flags name @ drop (Suc i) es) a =
      (if ext_covers a (es ! i) then
         (if unat at \<le> unat a \<and> (unat a < unat at + unat asz \<or> \<not> suf_ok)
          then Mapped prot flags (ext_mtype (es ! i)) (case name of None \<Rightarrow> [] | Some s \<Rightarrow> strncpy_name 32 s)
          else Free)
       else exts_view es a)"
    and "ext_covers a (es ! i) \<Longrightarrow> exts_view es a = ext_page (es ! i)"
proof -
  have split: "exts_wf lim (take i es @ es ! i # drop (Suc i) es)"
    using wf nth_split [OF i] by simp
  have nw: "no_wrap (ext_addr (es ! i)) (ext_size (es ! i))"
    using wf i by (auto simp: exts_wf_def ranges_ok_def)
  note ps = carve_pieces [OF nw lo hi]
  show "exts_wf lim (take i es @ vm_carve suf_ok (es ! i) at asz prot flags name @ drop (Suc i) es)"
    by (rule splice_wf [OF split ps])
  show "exts_view (take i es @ vm_carve suf_ok (es ! i) at asz prot flags name @ drop (Suc i) es) a =
      (if ext_covers a (es ! i) then
         (if unat at \<le> unat a \<and> (unat a < unat at + unat asz \<or> \<not> suf_ok)
          then Mapped prot flags (ext_mtype (es ! i)) (case name of None \<Rightarrow> [] | Some s \<Rightarrow> strncpy_name 32 s)
          else Free)
       else exts_view es a)"
    using splice_view [OF split ps, where a = a] carve_view [OF nw lo hi, where a = a]
    by (simp add: nth_split [OF i, symmetric])
  show "exts_view es a = ext_page (es ! i)" if "ext_covers a (es ! i)"
    using range_lookup_unique [of ext_addr ext_size es "es ! i" a] wf i that
    by (simp add: exts_wf_def exts_view_def)
qed

section \<open>Allocation at a chosen address\<close>

text \<open>The alignment the allocator uses, and requests whose rounding and sums do not wrap.\<close>

definition vm_eff_align :: "u64 \<Rightarrow> u64" where
  "vm_eff_align al = (if al < 4096 then 4096 else al)"

definition vm_request_ok :: "vm \<Rightarrow> u64 \<Rightarrow> u64 \<Rightarrow> bool" where
  "vm_request_ok v sz al \<longleftrightarrow> unat sz + 2 * unat (vm_eff_align al) + unat (vm_mem_size v) \<le> 2 ^ 64"

lemma vm_eff_align_nz [simp]: "vm_eff_align al \<noteq> 0"
  by (auto simp: vm_eff_align_def)

lemma vm_request_okD:
  assumes "vm_request_ok v sz al"
  shows "unat sz \<le> unat (align_up sz (vm_eff_align al))"
    and "unat (align_up sz (vm_eff_align al)) + unat (vm_eff_align al) + unat (vm_mem_size v) \<le> 2 ^ 64"
  using align_up_bounds [of "vm_eff_align al" sz] assms by (simp_all add: vm_request_ok_def)

lemma vm_note_change_sel [simp]:
  "vm_extents (recomp_vm_note_change v) = vm_extents v"
  "vm_mem_size (recomp_vm_note_change v) = vm_mem_size v"
  "vm_gen (recomp_vm_note_change v) = vm_gen v + 1"
  by (simp_all add: recomp_vm_note_change_def)

definition vm_best :: "vm \<Rightarrow> u64 \<Rightarrow> u64 \<Rightarrow> i32 \<Rightarrow> string option \<Rightarrow> (nat \<times> u64 \<times> u64) option" where
  "vm_best v sz al flags name =
     (let asz = align_up sz (vm_eff_align al) in
      case vm_scan (vm_preferred flags name) (vm_eff_align al) asz 0 (vm_extents v) None of
        None \<Rightarrow> vm_scan (\<lambda>_. True) (vm_eff_align al) asz 0 (vm_extents v) None
      | Some b \<Rightarrow> Some b)"

lemma alloc_aligned_eq:
  "recomp_vm_alloc_named_aligned pre_ok suf_ok v sz al prot flags name =
     (if sz = 0 then (BAD_ADDR, v) else
      case vm_best v sz al flags name of
           None \<Rightarrow> (BAD_ADDR, v)
         | Some (i, _, at) \<Rightarrow>
             (if ext_addr (vm_extents v ! i) < at \<and> \<not> pre_ok then (BAD_ADDR, v) else
              (at, recomp_vm_note_change
                     (v\<lparr>vm_extents := take i (vm_extents v)
                         @ vm_carve suf_ok (vm_extents v ! i) at (align_up sz (vm_eff_align al)) prot flags name
                         @ drop (Suc i) (vm_extents v)\<rparr>))))"
  unfolding recomp_vm_alloc_named_aligned_def Let_def vm_best_def vm_eff_align_def [symmetric]
  by (rule refl)

lemma vm_best_SomeD:
  assumes "vm_best v sz al flags name = Some (i, s, at)"
  shows "i < length (vm_extents v)" and "at = align_up (ext_addr (vm_extents v ! i)) (vm_eff_align al)"
    and "vm_fit (vm_eff_align al) (align_up sz (vm_eff_align al)) (vm_extents v ! i)"
    and "s = ext_size (vm_extents v ! i)"
proof -
  from assms obtain ok where
    "vm_scan ok (vm_eff_align al) (align_up sz (vm_eff_align al)) 0 (vm_extents v) None = Some (i, s, at)"
    by (auto simp: vm_best_def Let_def split: option.splits)
  from vm_scan_SomeD [OF this] show "i < length (vm_extents v)"
    and "at = align_up (ext_addr (vm_extents v ! i)) (vm_eff_align al)"
    and "vm_fit (vm_eff_align al) (align_up sz (vm_eff_align al)) (vm_extents v ! i)"
    and "s = ext_size (vm_extents v ! i)" by auto
qed

lemma vm_best_None_iff:
  "vm_best v sz al flags name = None \<longleftrightarrow>
     (\<forall>e \<in> set (vm_extents v). \<not> vm_fit (vm_eff_align al) (align_up sz (vm_eff_align al)) e)"
proof (cases "vm_scan (vm_preferred flags name) (vm_eff_align al) (align_up sz (vm_eff_align al)) 0
    (vm_extents v) None")
  case None
  then show ?thesis by (simp add: vm_best_def Let_def) (simp add: vm_scan_None_iff)
next
  case (Some b)
  with vm_scan_None_iff [of "vm_preferred flags name" "vm_eff_align al" "align_up sz (vm_eff_align al)" 0
      "vm_extents v" None]
  show ?thesis by (auto simp: vm_best_def Let_def)
qed

lemma alloc_aligned_elim:
  assumes "recomp_vm_alloc_named_aligned pre_ok suf_ok v sz al prot flags name = (r, v')"
    and "r \<noteq> BAD_ADDR"
  obtains i where "i < length (vm_extents v)" and "sz \<noteq> 0"
    and "vm_fit (vm_eff_align al) (align_up sz (vm_eff_align al)) (vm_extents v ! i)"
    and "r = align_up (ext_addr (vm_extents v ! i)) (vm_eff_align al)"
    and "v' = recomp_vm_note_change (v\<lparr>vm_extents := take i (vm_extents v)
          @ vm_carve suf_ok (vm_extents v ! i) r (align_up sz (vm_eff_align al)) prot flags name
          @ drop (Suc i) (vm_extents v)\<rparr>)"
proof -
  let ?al = "vm_eff_align al" and ?es = "vm_extents v"
  let ?asz = "align_up sz ?al"
  note eq = alloc_aligned_eq [of pre_ok suf_ok v sz al prot flags name]
  from assms obtain i s where b: "vm_best v sz al flags name = Some (i, s, r)" and "sz \<noteq> 0"
    and "v' = recomp_vm_note_change (v\<lparr>vm_extents := take i ?es
          @ vm_carve suf_ok (?es ! i) r ?asz prot flags name @ drop (Suc i) ?es\<rparr>)"
    unfolding eq by (auto split: if_splits option.splits)
  with vm_best_SomeD [OF b] that show ?thesis by blast
qed

lemma alloc_aligned_bad_iff:
  assumes "pre_ok" and "vm_wf v" and "vm_request_ok v sz al" and "sz \<noteq> 0"
  shows "fst (recomp_vm_alloc_named_aligned pre_ok suf_ok v sz al prot flags name) = BAD_ADDR \<longleftrightarrow>
    (\<forall>e \<in> set (vm_extents v). \<not> vm_fit (vm_eff_align al) (align_up sz (vm_eff_align al)) e)"
proof -
  let ?al = "vm_eff_align al" and ?es = "vm_extents v"
  let ?asz = "align_up sz ?al"
  have fitbad: "align_up (ext_addr (?es ! i)) ?al \<noteq> BAD_ADDR"
    if "i < length ?es" "vm_fit ?al ?asz (?es ! i)" for i
  proof
    assume bad: "align_up (ext_addr (?es ! i)) ?al = BAD_ADDR"
    have w: "ext_within (vm_mem_size v) (?es ! i)"
      using assms(2) that(1) by (simp add: vm_wf_def exts_wf_def)
    have "unat (align_up (ext_addr (?es ! i)) ?al) + unat ?asz \<le>
        unat (ext_addr (?es ! i)) + unat (ext_size (?es ! i))"
      using vm_fit_nat(1) [OF w vm_eff_align_nz vm_request_okD(2) [OF assms(3)]] that(2) by blast
    moreover have "0 < unat sz" using assms(4) by (simp add: unat_gt_0)
    moreover have "unat sz \<le> unat ?asz" by (rule vm_request_okD(1) [OF assms(3)])
    ultimately show False
      using ext_within_no_wrap [OF w] by (simp add: bad no_wrap_def unsigned_minus_1_eq_mask mask_eq_exp_minus_1)
  qed
  show ?thesis
  proof (cases "vm_best v sz al flags name")
    case None
    moreover from None have "\<forall>e \<in> set ?es. \<not> vm_fit ?al ?asz e" by (simp only: vm_best_None_iff)
    ultimately show ?thesis using assms(4) by (simp add: alloc_aligned_eq)
  next
    case (Some b)
    obtain i s at where b: "b = (i, s, at)" by (cases b)
    note best = Some [unfolded b]
    have "at \<noteq> BAD_ADDR"
      using vm_best_SomeD [OF best] fitbad by auto
    moreover have "\<not> (\<forall>e \<in> set ?es. \<not> vm_fit ?al ?asz e)"
      using vm_best_None_iff [of v sz al flags name] Some by simp
    ultimately show ?thesis using assms(1,4) best by (simp add: alloc_aligned_eq)
  qed
qed

lemma alloc_aligned_range:
  assumes wf: "vm_wf v" and req: "vm_request_ok v sz al"
    and i: "i < length (vm_extents v)"
    and fit: "vm_fit (vm_eff_align al) (align_up sz (vm_eff_align al)) (vm_extents v ! i)"
    and at: "at = align_up (ext_addr (vm_extents v ! i)) (vm_eff_align al)"
  shows "unat (ext_addr (vm_extents v ! i)) \<le> unat at"
    and "unat at + unat (align_up sz (vm_eff_align al)) \<le>
         unat (ext_addr (vm_extents v ! i)) + unat (ext_size (vm_extents v ! i))"
    and "no_wrap (ext_addr (vm_extents v ! i)) (ext_size (vm_extents v ! i))"
    and "unat sz \<le> unat (align_up sz (vm_eff_align al))"
    and "ext_free (vm_extents v ! i)"
proof -
  have w: "ext_within (vm_mem_size v) (vm_extents v ! i)"
    using wf i by (simp add: vm_wf_def exts_wf_def)
  note f = vm_fit_nat [OF w vm_eff_align_nz vm_request_okD(2) [OF req]]
  show "unat (ext_addr (vm_extents v ! i)) \<le> unat at" using f(2) at by simp
  show "unat at + unat (align_up sz (vm_eff_align al)) \<le>
         unat (ext_addr (vm_extents v ! i)) + unat (ext_size (vm_extents v ! i))"
    using f(1) fit at by simp
  show "no_wrap (ext_addr (vm_extents v ! i)) (ext_size (vm_extents v ! i))"
    by (rule ext_within_no_wrap [OF w])
  show "unat sz \<le> unat (align_up sz (vm_eff_align al))" by (rule vm_request_okD(1) [OF req])
  show "ext_free (vm_extents v ! i)" using fit by (simp add: vm_fit_def)
qed

lemma alloc_aligned_mem_size [simp]:
  "vm_mem_size (snd (recomp_vm_alloc_named_aligned pre_ok suf_ok v sz al prot flags name)) = vm_mem_size v"
  by (simp add: alloc_aligned_eq split: option.splits prod.splits)

lemma alloc_aligned_wf:
  assumes "vm_wf v" and "vm_request_ok v sz al"
  shows "vm_wf (snd (recomp_vm_alloc_named_aligned pre_ok suf_ok v sz al prot flags name))"
proof (cases "vm_best v sz al flags name")
  case None
  with assms(1) show ?thesis by (simp add: alloc_aligned_eq)
next
  case (Some b)
  obtain i s at where b: "b = (i, s, at)" by (cases b)
  note best = vm_best_SomeD [OF Some [unfolded b]]
  note rng = alloc_aligned_range [OF assms best(1) best(3) best(2)]
  have "exts_wf (vm_mem_size v) (vm_extents v)" using assms(1) by (simp add: vm_wf_def)
  note inst = install_wf_view(1) [OF this best(1) rng(1,2)]
  show ?thesis
    using assms(1) inst Some b by (simp add: alloc_aligned_eq vm_wf_def)
qed

text \<open>
  The allocator's contract, as a relation between the views before and after: the \<open>n\<close>
  addresses from \<open>r\<close> were free and are now mapped with the attributes asked for; an address
  that was not free keeps its view.
\<close>

definition vm_took :: "vm \<Rightarrow> vm \<Rightarrow> u64 \<Rightarrow> u64 \<Rightarrow> i32 \<Rightarrow> i32 \<Rightarrow> string \<Rightarrow> bool" where
  "vm_took v v' r n prot flags nm \<longleftrightarrow>
     (\<forall>a. unat r \<le> unat a \<and> unat a < unat r + unat n \<longrightarrow>
        vm_view v a = Free \<and> (\<exists>m. vm_view v' a = Mapped prot flags m nm))
     \<and> (\<forall>a. vm_view v a \<noteq> Free \<longrightarrow> vm_view v' a = vm_view v a)"

definition name_of :: "string option \<Rightarrow> string" where
  "name_of name = (case name of None \<Rightarrow> [] | Some s \<Rightarrow> strncpy_name 32 s)"

lemma alloc_aligned_view:
  assumes wf: "vm_wf v" and req: "vm_request_ok v sz al"
    and res: "recomp_vm_alloc_named_aligned pre_ok suf_ok v sz al prot flags name = (r, v')"
    and ok: "r \<noteq> BAD_ADDR"
  shows "vm_took v v' r (align_up sz (vm_eff_align al)) prot flags (name_of name)"
    and "suf_ok \<Longrightarrow> \<not> (unat r \<le> unat a \<and> unat a < unat r + unat (align_up sz (vm_eff_align al))) \<Longrightarrow>
      vm_view v' a = vm_view v a"
    and "is_pow2 (vm_eff_align al) \<Longrightarrow> unat (vm_eff_align al) dvd unat r"
    and "unat r + unat (align_up sz (vm_eff_align al)) \<le> unat (vm_mem_size v)"
proof -
  let ?asz = "align_up sz (vm_eff_align al)" and ?es = "vm_extents v"
  obtain i where i: "i < length ?es" and fit: "vm_fit (vm_eff_align al) ?asz (?es ! i)"
    and r: "r = align_up (ext_addr (?es ! i)) (vm_eff_align al)"
    and v': "v' = recomp_vm_note_change (v\<lparr>vm_extents := take i ?es
        @ vm_carve suf_ok (?es ! i) r ?asz prot flags name @ drop (Suc i) ?es\<rparr>)"
    by (rule alloc_aligned_elim [OF res ok])
  note rng = alloc_aligned_range [OF wf req i fit r]
  have ewf: "exts_wf (vm_mem_size v) ?es" using wf by (simp add: vm_wf_def)
  note inst = install_wf_view [OF ewf i rng(1,2)]
  have cov: "ext_covers a (?es ! i) \<longleftrightarrow> unat (ext_addr (?es ! i)) \<le> unat a
      \<and> unat a < unat (ext_addr (?es ! i)) + unat (ext_size (?es ! i))" for a
    by (rule ext_covers_nat [OF rng(3)])
  have es': "vm_extents v' = take i ?es @ vm_carve suf_ok (?es ! i) r ?asz prot flags name @ drop (Suc i) ?es"
    by (simp add: v')
  have view': "vm_view v' a = (if ext_covers a (?es ! i) then
         (if unat r \<le> unat a \<and> (unat a < unat r + unat ?asz \<or> \<not> suf_ok)
          then Mapped prot flags (ext_mtype (?es ! i)) (name_of name) else Free)
       else vm_view v a)" for a
    unfolding vm_view_def es' name_of_def by (rule inst(2))
  have view: "ext_covers a (?es ! i) \<Longrightarrow> vm_view v a = Free" for a
    using inst(3) [of a] rng(5) by (simp add: vm_view_def)
  show "vm_took v v' r ?asz prot flags (name_of name)"
    unfolding vm_took_def using view view' rng cov by auto
  show "vm_view v' a = vm_view v a"
    if "suf_ok" "\<not> (unat r \<le> unat a \<and> unat a < unat r + unat ?asz)"
    using that view [of a] view' [of a] by auto
  show "unat (vm_eff_align al) dvd unat r" if "is_pow2 (vm_eff_align al)"
    unfolding r by (rule align_up_dvd [OF that])
  have "ext_within (vm_mem_size v) (?es ! i)" using ewf i by (simp add: exts_wf_def)
  then show "unat r + unat ?asz \<le> unat (vm_mem_size v)"
    using rng(2) by (simp add: ext_within_def)
qed

section \<open>Allocation at a requested address\<close>

lemma vm_find_index_SomeD:
  "vm_find_index p i es = Some j \<Longrightarrow> \<exists>k < length es. j = i + k \<and> p (es ! k) \<and> (\<forall>m < k. \<not> p (es ! m))"
proof (induction es arbitrary: i)
  case Nil
  then show ?case by simp
next
  case (Cons e es)
  show ?case
  proof (cases "p e")
    case True
    with Cons.prems show ?thesis by (intro exI [of _ 0]) simp
  next
    case False
    with Cons.prems Cons.IH [of "Suc i"] obtain k where
      k: "k < length es" "j = Suc i + k" "p (es ! k)" "\<forall>m < k. \<not> p (es ! m)" by auto
    with False show ?thesis
      by (intro exI [of _ "Suc k"]) (auto simp: less_Suc_eq_0_disj)
  qed
qed

lemma vm_find_index_None_iff: "vm_find_index p i es = None \<longleftrightarrow> (\<forall>e \<in> set es. \<not> p e)"
  by (induction es arbitrary: i) auto

lemma page_down: "unat (d AND NOT 4095 :: u64) \<le> unat d" "unat d < unat (d AND NOT 4095 :: u64) + 4096"
proof -
  have "unat (d AND 4095) \<le> 4095" using unat_and_le2 [of d 4095] by simp
  moreover have "unat (d AND 4095) \<le> unat d" by (rule unat_and_le1)
  ultimately show "unat (d AND NOT 4095 :: u64) \<le> unat d"
    "unat d < unat (d AND NOT 4095 :: u64) + 4096"
    unfolding unat_and_not by linarith+
qed

lemma page_up:
  assumes "unat s + 4096 \<le> 2 ^ 64"
  shows "unat s \<le> unat ((s + 4095) AND NOT 4095 :: u64)"
    and "unat ((s + 4095) AND NOT 4095 :: u64) < unat s + 4096"
proof -
  have e1: "s + 4096 - 1 = s + (4095 :: u64)" by (simp add: algebra_simps)
  have e2: "4096 - 1 = (4095 :: u64)" by simp
  have eq: "align_up s 4096 = (s + 4095) AND NOT 4095" unfolding align_up_def e1 e2 by (rule refl)
  have u: "unat (4096 :: u64) = 4096" by simp
  show "unat s \<le> unat ((s + 4095) AND NOT 4095 :: u64)"
    and "unat ((s + 4095) AND NOT 4095 :: u64) < unat s + 4096"
    using align_up_bounds [of 4096 s] assms unfolding eq u by simp_all
qed

lemma page_aligned_down:
  assumes "4096 dvd unat (r :: u64)"
  shows "r AND NOT 4095 = r"
proof -
  have "unat (take_bit 12 r) = 0"
    unfolding unsigned_take_bit_eq using assms by (simp add: take_bit_eq_mod)
  then have "take_bit 12 r = 0" by (simp only: unat_eq_0)
  then have "r AND 4095 = 0"
    by (simp add: take_bit_eq_mask mask_eq_exp_minus_1)
  then show ?thesis unfolding and_not_eq_diff by simp
qed

lemma align_up_4096: "align_up s 4096 = (s + 4095) AND NOT 4095"
proof -
  have "s + 4096 - 1 = s + (4095 :: u64)" by (simp add: algebra_simps)
  moreover have "4096 - 1 = (4095 :: u64)" by simp
  ultimately show ?thesis unfolding align_up_def by (simp only:)
qed

text \<open>Rounding up the last 4095 sizes wraps around to zero.\<close>

lemma align_up_wraps_zero:
  assumes "2 ^ 64 < unat (s :: u64) + 4096"
  shows "align_up s 4096 = 0"
proof -
  have k: "unat (- 4095 :: u64) = 2 ^ 64 - 4095" by simp
  have "unat (s - (- 4095)) = unat s - (2 ^ 64 - 4095)"
    using assms unat_sub_le [of "- 4095" s] unfolding k by simp
  then have "unat (s + 4095) < 2 ^ 12"
    using u64_lt [of s] by simp
  then have "take_bit 12 (s + 4095) = s + 4095"
    by (simp add: word_unat_eq_iff unsigned_take_bit_eq take_bit_nat_eq_self_iff)
  then have "(s + 4095) AND 4095 = s + 4095"
    by (simp add: take_bit_eq_mask mask_eq_exp_minus_1)
  then have "(s + 4095) AND NOT 4095 = 0"
    unfolding and_not_eq_diff by simp
  then show ?thesis by (simp only: align_up_4096)
qed

lemma alloc_fixed_view:
  assumes wf: "vm_wf v" and req: "unat sz + 4096 \<le> 2 ^ 64"
    and res: "recomp_vm_alloc_fixed pre_ok suf_ok v d sz prot flags name = (r, v')"
    and ok: "r \<noteq> BAD_ADDR"
  obtains e where "e \<in> set (vm_extents v)"
    and "ext_free e \<or> strstr (ext_name e) ''reserved''"
    and "r = d AND NOT 4095"
    and "unat (ext_addr e) \<le> unat r"
    and "unat r + unat ((sz + 4095) AND NOT 4095) \<le> unat (ext_addr e) + unat (ext_size e)"
    and "vm_wf v'"
    and "\<And>a. ext_covers a e \<Longrightarrow> vm_view v a = ext_page e"
    and "\<And>a. vm_view v' a = (if ext_covers a e then
         (if unat r \<le> unat a \<and> (unat a < unat r + unat ((sz + 4095) AND NOT 4095) \<or> \<not> suf_ok)
          then Mapped prot flags (ext_mtype e) (name_of name) else Free)
       else vm_view v a)"
proof -
  let ?at = "d AND NOT 4095" and ?asz = "(sz + 4095) AND NOT 4095" and ?es = "vm_extents v"
  obtain i where idx: "vm_find_index (vm_fixed_ok ?at ?asz) 0 ?es = Some i"
    and top: "\<not> (vm_mem_size v < ?at + ?asz \<or> ?at + ?asz < ?at)"
    and r: "r = ?at"
    and v': "v' = recomp_vm_note_change (v\<lparr>vm_extents := take i ?es
        @ vm_carve suf_ok (?es ! i) ?at ?asz prot flags name @ drop (Suc i) ?es\<rparr>)"
    using res ok by (auto simp: recomp_vm_alloc_fixed_def Let_def split: if_splits option.splits)
  from vm_find_index_SomeD [OF idx] have i: "i < length ?es" and f: "vm_fixed_ok ?at ?asz (?es ! i)"
    by auto
  have "?at \<le> ?at + ?asz" using top by (simp add: not_less)
  then have s: "unat (?at + ?asz) = unat ?at + unat ?asz"
    by (rule unat_plus_simple [THEN iffD1])
  have ewf: "exts_wf (vm_mem_size v) ?es" using wf by (simp add: vm_wf_def)
  have "ext_within (vm_mem_size v) (?es ! i)" using ewf i by (simp add: exts_wf_def)
  note nw = ext_within_no_wrap [OF this]
  have lo: "unat (ext_addr (?es ! i)) \<le> unat ?at"
    using f by (simp add: vm_fixed_ok_def word_le_nat_alt)
  have hi: "unat ?at + unat ?asz \<le> unat (ext_addr (?es ! i)) + unat (ext_size (?es ! i))"
    using f s nw by (simp add: vm_fixed_ok_def word_le_nat_alt unat_add_no_wrap)
  note inst = install_wf_view [OF ewf i lo hi]
  have es': "vm_extents v' = take i ?es @ vm_carve suf_ok (?es ! i) ?at ?asz prot flags name @ drop (Suc i) ?es"
    by (simp add: v')
  show ?thesis
  proof (rule that [of "?es ! i"])
    show "?es ! i \<in> set ?es" using i by simp
    show "ext_free (?es ! i) \<or> strstr (ext_name (?es ! i)) ''reserved''"
      using f by (auto simp: vm_fixed_ok_def)
    show "vm_wf v'" using inst(1) wf by (simp add: v' vm_wf_def)
    show "vm_view v a = ext_page (?es ! i)" if "ext_covers a (?es ! i)" for a
      using inst(3) [OF that] by (simp add: vm_view_def)
    show "vm_view v' a = (if ext_covers a (?es ! i) then
         (if unat r \<le> unat a \<and> (unat a < unat r + unat ?asz \<or> \<not> suf_ok)
          then Mapped prot flags (ext_mtype (?es ! i)) (name_of name) else Free)
       else vm_view v a)" for a
      unfolding vm_view_def es' name_of_def r by (rule inst(2))
  qed (use r lo hi in auto)
qed

end
