(* ===== verification/VmFree.thy ===== *)
theory VmFree
  imports VmView
begin

unbundle bit_operations_syntax

text \<open>
  Refinement of the operations of the virtual memory manager that take extents apart and put
  them together: splitting at an address and merging free neighbours leave the abstract view
  alone, \<open>recomp_vm_free\<close> turns exactly the mapped addresses of the page-widened range into
  free ones, and the ranges reported as unmapped are exactly the unmapped addresses.
\<close>

section \<open>Splitting\<close>

lemma vm_split_list_cases:
  assumes "vm_split_list ok at es = (b, es')"
  obtains (same) "es' = es" and "b \<Longrightarrow> \<forall>e \<in> set es. ext_free e \<or> at \<le> ext_addr e \<or> ext_addr e + ext_size e \<le> at"
      and "\<not> b \<Longrightarrow> \<not> ok"
  | (split) xs e ys where "b" and "es = xs @ e # ys" and "\<not> ext_free e"
      and "ext_addr e < at" and "at < ext_addr e + ext_size e"
      and "es' = xs @ [e\<lparr>ext_size := at - ext_addr e\<rparr>,
             e\<lparr>ext_addr := at, ext_size := ext_addr e + ext_size e - at\<rparr>] @ ys"
  using assms
proof (induction es arbitrary: es' thesis)
  case Nil
  then show ?case by simp
next
  case (Cons e es)
  show ?case
  proof (cases "ext_free e \<or> at \<le> ext_addr e \<or> ext_addr e + ext_size e \<le> at")
    case True
    obtain b' fs where fs: "vm_split_list ok at es = (b', fs)" by (cases "vm_split_list ok at es")
    with True Cons.prems(3) have eq: "b' = b" "es' = e # fs" by auto
    show ?thesis
    proof (rule Cons.IH [of fs])
      show "vm_split_list ok at es = (b, fs)" using fs eq by simp
    next
      assume "fs = es" "b \<Longrightarrow> \<forall>e \<in> set es. ext_free e \<or> at \<le> ext_addr e \<or> ext_addr e + ext_size e \<le> at"
        "\<not> b \<Longrightarrow> \<not> ok"
      then show ?thesis using Cons.prems(1) True eq by auto
    next
      fix xs f ys
      assume "b" "es = xs @ f # ys" "\<not> ext_free f" "ext_addr f < at" "at < ext_addr f + ext_size f"
        "fs = xs @ [f\<lparr>ext_size := at - ext_addr f\<rparr>,
             f\<lparr>ext_addr := at, ext_size := ext_addr f + ext_size f - at\<rparr>] @ ys"
      then show ?thesis using Cons.prems(2) [of "e # xs" f ys] eq by simp
    qed
  next
    case False
    then show ?thesis using Cons.prems(1) Cons.prems(2) [of "[]" e es] Cons.prems(3)
      by (auto simp: not_le split: if_splits)
  qed
qed

lemma exts_view_Hole_iff: "exts_view es a = Hole \<longleftrightarrow> (\<forall>e \<in> set es. \<not> ext_covers a e)"
  by (auto simp: exts_view_def range_lookup_None_iff [symmetric] ext_page_def split: option.splits)

lemma split_pieces:
  assumes nw: "no_wrap (ext_addr e) (ext_size e)" and lo: "ext_addr e < at" and hi: "at < ext_addr e + ext_size e"
  shows "ext_pieces e [e\<lparr>ext_size := at - ext_addr e\<rparr>,
             e\<lparr>ext_addr := at, ext_size := ext_addr e + ext_size e - at\<rparr>]"
    and "ext_covers a e \<Longrightarrow> exts_view [e\<lparr>ext_size := at - ext_addr e\<rparr>,
             e\<lparr>ext_addr := at, ext_size := ext_addr e + ext_size e - at\<rparr>] a = ext_page e"
proof -
  let ?p = "e\<lparr>ext_size := at - ext_addr e\<rparr>"
  let ?q = "e\<lparr>ext_addr := at, ext_size := ext_addr e + ext_size e - at\<rparr>"
  have s: "unat (ext_addr e + ext_size e) = unat (ext_addr e) + unat (ext_size e)"
    by (rule unat_add_no_wrap [OF nw])
  have l: "unat (ext_addr e) < unat at" using lo by (simp add: word_less_nat_alt)
  have h: "unat at < unat (ext_addr e) + unat (ext_size e)" using hi s by (simp add: word_less_nat_alt)
  have p: "unat (at - ext_addr e) = unat at - unat (ext_addr e)" using l by (intro unat_sub_le) simp
  have q: "unat (ext_addr e + ext_size e - at) = unat (ext_addr e) + unat (ext_size e) - unat at"
    using h s by (subst unat_sub_le) simp_all
  have np: "no_wrap (ext_addr e) (at - ext_addr e)" and nq: "no_wrap at (ext_addr e + ext_size e - at)"
    using nw l h by (simp_all add: no_wrap_def p q)
  note c = in_range_nat [OF np] in_range_nat [OF nq] in_range_nat [OF nw] p q
  show "ext_pieces e [?p, ?q]"
    using np nq l h by (auto simp: ext_pieces_def pieces_of_def ranges_ok_Cons apart_def covers_def c ext_within_def)
  show "exts_view [?p, ?q] a = ext_page e" if "ext_covers a e"
    using that l h by (auto simp: exts_view_Cons covers_def c ext_page_def)
qed

lemma split_list_view:
  assumes wf: "exts_wf lim es" and sp: "vm_split_list ok at es = (b, es')"
  shows "exts_wf lim es'" and "exts_view es' a = exts_view es a" and "ok \<Longrightarrow> b"
  using sp
proof (atomize (full), cases rule: vm_split_list_cases)
  case same
  with wf show "exts_wf lim es' \<and> exts_view es' a = exts_view es a \<and> (ok \<longrightarrow> b)" by auto
next
  case (split xs e ys)
  have wf': "exts_wf lim (xs @ e # ys)" using wf split(2) by simp
  then have nw: "no_wrap (ext_addr e) (ext_size e)"
    by (auto simp: exts_wf_def ranges_ok_def)
  note ps = split_pieces [OF nw split(4,5)]
  have "exts_view (xs @ e # ys) a = ext_page e" if "ext_covers a e"
    using range_lookup_unique [of ext_addr ext_size "xs @ e # ys" e a] wf' that
    by (simp add: exts_wf_def exts_view_def)
  then show "exts_wf lim es' \<and> exts_view es' a = exts_view es a \<and> (ok \<longrightarrow> b)"
    unfolding split(2,6)
    using splice_wf [OF wf' ps(1)] splice_view [OF wf' ps(1), of a] ps(2) [of a] split(1) by simp
qed

text \<open>No mapped extent strictly contains a boundary after a successful split there.\<close>

definition no_straddle :: "u64 \<Rightarrow> ext list \<Rightarrow> bool" where
  "no_straddle at es \<longleftrightarrow> (\<forall>e \<in> set es. ext_free e \<or> at \<le> ext_addr e \<or> ext_addr e + ext_size e \<le> at)"

lemma split_no_straddle:
  assumes wf: "exts_wf lim es" and sp: "vm_split_list ok at es = (b, es')" and b: "b"
  shows "no_straddle at es'"
  using sp
proof (cases rule: vm_split_list_cases)
  case same
  with b show ?thesis by (simp add: no_straddle_def)
next
  case (split xs e ys)
  have ap: "apart ext_addr ext_size e c" if "c \<in> set xs \<union> set ys" for c
    using wf that split(2) by (auto simp: exts_wf_def ranges_ok_append ranges_ok_Cons apart_sym)
  have nw: "no_wrap (ext_addr c) (ext_size c)" if "c \<in> set (xs @ e # ys)" for c
    using wf that split(2) by (auto simp: exts_wf_def ranges_ok_def)
  have "at \<le> ext_addr c \<or> ext_addr c + ext_size c \<le> at" if c: "c \<in> set xs \<union> set ys" for c
  proof (rule ccontr)
    assume "\<not> ?thesis"
    then have "ext_covers at c" by (auto simp: covers_def in_range_def not_le)
    moreover have "ext_covers at e" using split(4,5) by (auto simp: covers_def in_range_def)
    ultimately show False using ap [OF c] by (auto simp: apart_def)
  qed
  moreover have "ext_addr e + (at - ext_addr e) \<le> at" by simp
  ultimately show ?thesis
    unfolding no_straddle_def split(6) by auto
qed

lemma split_keeps_no_straddle:
  assumes wf: "exts_wf lim es" and sp: "vm_split_list ok at es = (b, es')" and ns: "no_straddle x es"
  shows "no_straddle x es'"
  using sp
proof (cases rule: vm_split_list_cases)
  case same
  with ns show ?thesis by simp
next
  case (split xs e ys)
  have nw: "no_wrap (ext_addr e) (ext_size e)"
    using wf split(2) by (auto simp: exts_wf_def ranges_ok_def)
  have "x \<le> ext_addr e \<or> ext_addr e + ext_size e \<le> x"
    using ns split(2,3) by (auto simp: no_straddle_def)
  then have "x \<le> ext_addr e \<and> x \<le> at \<or> at \<le> x \<and> ext_addr e + ext_size e \<le> x"
    using split(4,5) by auto
  with ns show ?thesis
    unfolding no_straddle_def split(2,6) by auto
qed

section \<open>Merging\<close>

lemma merge_two:
  assumes wf: "exts_wf lim (e # n # es)" and fr: "ext_free e" "ext_free n"
    and adj: "ext_addr e + ext_size e = ext_addr n"
  shows "exts_wf lim (e\<lparr>ext_size := ext_size e + ext_size n\<rparr> # es)"
    and "exts_view (e\<lparr>ext_size := ext_size e + ext_size n\<rparr> # es) a = exts_view (e # n # es) a"
proof -
  let ?m = "e\<lparr>ext_size := ext_size e + ext_size n\<rparr>"
  have nw: "no_wrap (ext_addr e) (ext_size e)" "no_wrap (ext_addr n) (ext_size n)"
    using wf by (auto simp: exts_wf_def ranges_ok_Cons)
  have wi: "ext_within lim e" "ext_within lim n" using wf by (auto simp: exts_wf_def)
  have n: "unat (ext_addr n) = unat (ext_addr e) + unat (ext_size e)"
    using unat_add_no_wrap [OF nw(1)] adj by simp
  have lim: "unat (ext_addr e) + unat (ext_size e) + unat (ext_size n) \<le> unat lim"
    using wi(2) n by (simp add: ext_within_def)
  then have "no_wrap (ext_size e) (ext_size n)" using u64_lt [of lim] by (simp add: no_wrap_def)
  then have s: "unat (ext_size e + ext_size n) = unat (ext_size e) + unat (ext_size n)"
    by (rule unat_add_no_wrap)
  have nwm: "no_wrap (ext_addr e) (ext_size e + ext_size n)"
    using lim u64_lt [of lim] s by (simp add: no_wrap_def)
  have cov: "ext_covers x ?m \<longleftrightarrow> ext_covers x e \<or> ext_covers x n" for x
    using n s by (auto simp: covers_def in_range_nat [OF nw(1)] in_range_nat [OF nw(2)] in_range_nat [OF nwm])
  show "exts_wf lim (?m # es)"
    using wf nwm lim s cov
    by (auto simp: exts_wf_def ranges_ok_Cons apart_def ext_within_def)
  show "exts_view (?m # es) a = exts_view (e # n # es) a"
    using fr cov by (auto simp: exts_view_Cons ext_page_def)
qed

lemma vm_merge_view:
  "exts_wf lim es \<Longrightarrow> exts_wf lim (vm_merge t es) \<and> (\<forall>a. exts_view (vm_merge t es) a = exts_view es a)"
proof (induction t es rule: vm_merge.induct)
  case (1 t e n es)
  show ?case
  proof (cases "ext_addr e \<le> t")
    case True
    show ?thesis
    proof (cases "ext_free e \<and> ext_free n \<and> ext_addr e + ext_size e = ext_addr n")
      case m: True
      note two = merge_two [OF "1.prems"] m
      with "1.IH"(1) [OF True m] True show ?thesis by simp
    next
      case False
      have "exts_wf lim (n # es)" using "1.prems" by (auto simp: exts_wf_def ranges_ok_Cons)
      with "1.IH"(2) [OF True False]
      have ih: "exts_wf lim (vm_merge t (n # es))"
        "\<And>a. exts_view (vm_merge t (n # es)) a = exts_view (n # es) a" by auto
      have "apart ext_addr ext_size e c" if "c \<in> set (vm_merge t (n # es))" for c
        unfolding apart_def
      proof (intro allI notI, elim conjE)
        fix x assume x: "ext_covers x e" "ext_covers x c"
        then have "exts_view (n # es) x \<noteq> Hole"
          using ih(2) [of x] exts_view_Hole_iff [of "vm_merge t (n # es)" x] that by auto
        then obtain d where "d \<in> set (n # es)" "ext_covers x d"
          by (auto simp: exts_view_Hole_iff)
        with x(1) "1.prems" show False by (auto simp: exts_wf_def ranges_ok_Cons apart_def)
      qed
      then have "exts_wf lim (e # vm_merge t (n # es))"
        using ih(1) "1.prems" by (auto simp: exts_wf_def ranges_ok_Cons)
      moreover have "vm_merge t (e # n # es) = e # vm_merge t (n # es)" using True False by auto
      ultimately show ?thesis using ih(2) by (simp add: exts_view_Cons [of e])
    qed
  next
    case False
    with "1.prems" show ?thesis by simp
  qed
qed auto

lemma exts_view_append:
  "exts_view (xs @ ys) a = (if exts_view xs a = Hole then exts_view ys a else exts_view xs a)"
  by (induction xs) (auto simp: exts_view_Cons ext_page_def)

lemma exts_wf_append_view:
  assumes "exts_wf lim (xs @ ys)" and "exts_wf lim ys'" and "\<And>a. exts_view ys' a = exts_view ys a"
  shows "exts_wf lim (xs @ ys')" and "exts_view (xs @ ys') a = exts_view (xs @ ys) a"
proof -
  have "apart ext_addr ext_size b c" if "b \<in> set xs" "c \<in> set ys'" for b c
    unfolding apart_def
  proof (intro allI notI, elim conjE)
    fix x assume x: "ext_covers x b" "ext_covers x c"
    then have "exts_view ys x \<noteq> Hole"
      using assms(3) [of x] exts_view_Hole_iff [of ys' x] that by auto
    then obtain d where "d \<in> set ys" "ext_covers x d" by (auto simp: exts_view_Hole_iff)
    with x(1) that(1) assms(1) show False by (auto simp: exts_wf_def ranges_ok_append apart_def)
  qed
  with assms(1,2) show "exts_wf lim (xs @ ys')"
    by (auto simp: exts_wf_def ranges_ok_append)
  show "exts_view (xs @ ys') a = exts_view (xs @ ys) a"
    by (simp add: exts_view_append assms(3))
qed

lemma coalesce_view:
  assumes "exts_wf lim es"
  shows "exts_wf lim (vm_coalesce_free s t es)" and "exts_view (vm_coalesce_free s t es) a = exts_view es a"
proof -
  define k where "k = length (takeWhile (\<lambda>e. ext_addr e + ext_size e < s) es)"
  have wf: "exts_wf lim (take (k - 1) es @ drop (k - 1) es)" using assms by simp
  then have "exts_wf lim (drop (k - 1) es)" by (auto simp: exts_wf_def ranges_ok_append simp del: append_take_drop_id)
  note m = vm_merge_view [OF this, of t]
  have "exts_wf lim (take (k - 1) es @ vm_merge t (drop (k - 1) es))"
    and "exts_view (take (k - 1) es @ vm_merge t (drop (k - 1) es)) a = exts_view es a"
    using exts_wf_append_view [OF wf] m by auto
  then show "exts_wf lim (vm_coalesce_free s t es)"
    and "exts_view (vm_coalesce_free s t es) a = exts_view es a"
    using assms by (auto simp: vm_coalesce_free_def Let_def k_def [symmetric])
qed

section \<open>Freeing\<close>

definition inside_range :: "u64 \<times> u64 \<Rightarrow> ext \<Rightarrow> bool" where
  "inside_range r e \<longleftrightarrow> fst r \<le> ext_addr e \<and> ext_addr e + ext_size e \<le> fst r + snd r"

lemma fold_mark_free:
  "fold vm_mark_free rs es =
     map (\<lambda>e. if \<not> ext_free e \<and> (\<exists>r \<in> set rs. inside_range r e) then e\<lparr>ext_free := True\<rparr> else e) es"
  by (induction rs arbitrary: es) (auto simp: vm_mark_free_def inside_range_def comp_def)

lemma ext_covers_upd_free [simp]: "ext_covers a (e\<lparr>ext_free := b\<rparr>) = ext_covers a e"
  by (simp add: covers_def)

lemma map_free_wf_view:
  assumes "exts_wf lim es"
  shows "exts_wf lim (map (\<lambda>e. if P e then e\<lparr>ext_free := True\<rparr> else e) es)"
    and "exts_view (map (\<lambda>e. if P e then e\<lparr>ext_free := True\<rparr> else e) es) a =
      (case ext_lookup es a of None \<Rightarrow> Hole | Some e \<Rightarrow> if P e then Free else ext_page e)"
  using assms
proof (induction es)
  case Nil
  { case 1 show ?case by (simp add: exts_wf_def) next case 2 show ?case by simp }
next
  case (Cons e es)
  have cov: "ext_covers x (if P c then c\<lparr>ext_free := True\<rparr> else c) = ext_covers x c" for x c
    by (simp add: covers_def)
  {
    case 1
    with Cons.IH(1) show ?case
      by (auto simp: exts_wf_def ranges_ok_Cons ext_within_def apart_def)
  next
    case 2
    with Cons.IH(2) have "exts_view (map (\<lambda>e. if P e then e\<lparr>ext_free := True\<rparr> else e) es) a =
      (case ext_lookup es a of None \<Rightarrow> Hole | Some e \<Rightarrow> if P e then Free else ext_page e)"
      by (simp add: exts_wf_def ranges_ok_Cons)
    then show ?case
      by (simp add: exts_view_Cons cov range_lookup_Cons)
  }
qed

text \<open>What freeing does to one address.\<close>

definition page_freed :: "page \<Rightarrow> page" where
  "page_freed p = (case p of Mapped _ _ _ _ \<Rightarrow> Free | _ \<Rightarrow> p)"

lemma page_freed_simps [simp]:
  "page_freed Hole = Hole" "page_freed Free = Free" "page_freed (Mapped p f m n) = Free"
  by (simp_all add: page_freed_def)

lemma page_freed_ext: "page_freed (ext_page e) = Free"
  by (simp add: ext_page_def)

text \<open>With no mapped extent across either end, the marked extents are those that meet the range.\<close>

lemma inside_iff:
  assumes nw: "no_wrap (ext_addr e) (ext_size e)" and ns: "no_straddle s es" "no_straddle t es"
    and e: "e \<in> set es" "\<not> ext_free e" "ext_covers a e"
  shows "s \<le> a \<and> a < t \<longleftrightarrow> s \<le> ext_addr e \<and> ext_addr e + ext_size e \<le> t"
proof -
  have s: "unat (ext_addr e + ext_size e) = unat (ext_addr e) + unat (ext_size e)"
    by (rule unat_add_no_wrap [OF nw])
  have "unat (ext_addr e) \<le> unat a \<and> unat a < unat (ext_addr e) + unat (ext_size e)"
    using ext_covers_nat [OF nw] e(3) by blast
  moreover have "s \<le> ext_addr e \<or> ext_addr e + ext_size e \<le> s"
    and "t \<le> ext_addr e \<or> ext_addr e + ext_size e \<le> t"
    using ns e(1,2) by (auto simp: no_straddle_def)
  ultimately show ?thesis
    by (auto simp: word_le_nat_alt word_less_nat_alt s)
qed

lemma phase3_view:
  assumes wf: "exts_wf lim es" and ns: "no_straddle s es" "no_straddle t es"
    and rs: "rs = map (\<lambda>e. (ext_addr e, ext_size e)) (filter (vm_free_inside s t) es)"
  shows "exts_wf lim (fold vm_mark_free rs es)"
    and "exts_view (fold vm_mark_free rs es) a =
      (if s \<le> a \<and> a < t then page_freed (exts_view es a) else exts_view es a)"
proof -
  let ?P = "\<lambda>e. \<not> ext_free e \<and> (\<exists>r \<in> set rs. inside_range r e)"
  show "exts_wf lim (fold vm_mark_free rs es)"
    unfolding fold_mark_free by (rule map_free_wf_view(1) [OF wf])
  have P: "?P e \<longleftrightarrow> s \<le> a \<and> a < t"
    if e: "e \<in> set es" "\<not> ext_free e" "ext_covers a e" for e
  proof -
    have nw: "no_wrap (ext_addr c) (ext_size c)" if "c \<in> set es" for c
      using wf that by (auto simp: exts_wf_def ranges_ok_def)
    have "?P e \<longleftrightarrow> s \<le> ext_addr e \<and> ext_addr e + ext_size e \<le> t"
    proof
      assume "?P e"
      then obtain c where c: "c \<in> set es" "s \<le> ext_addr c" "ext_addr c + ext_size c \<le> t"
        and "inside_range (ext_addr c, ext_size c) e"
        unfolding rs by (auto simp: vm_free_inside_def)
      then show "s \<le> ext_addr e \<and> ext_addr e + ext_size e \<le> t"
        by (auto simp: inside_range_def)
    next
      assume "s \<le> ext_addr e \<and> ext_addr e + ext_size e \<le> t"
      with e have "(ext_addr e, ext_size e) \<in> set rs"
        unfolding rs by (auto simp: vm_free_inside_def)
      with e show "?P e" by (auto simp: inside_range_def intro!: bexI [of _ "(ext_addr e, ext_size e)"])
    qed
    with inside_iff [OF nw [OF e(1)] ns e] show ?thesis by simp
  qed
  show "exts_view (fold vm_mark_free rs es) a =
      (if s \<le> a \<and> a < t then page_freed (exts_view es a) else exts_view es a)"
  proof (cases "ext_lookup es a")
    case None
    then show ?thesis
      unfolding fold_mark_free map_free_wf_view(2) [OF wf] by (simp add: exts_view_def)
  next
    case (Some e)
    from range_lookup_SomeD [OF this] have e: "e \<in> set es" "ext_covers a e" by auto
    show ?thesis
      unfolding fold_mark_free map_free_wf_view(2) [OF wf]
      using Some P [OF e(1) _ e(2)] by (cases "ext_free e") (auto simp: exts_view_def page_freed_ext)
  qed
qed

lemma phase1_view:
  assumes wf: "vm_wf v"
    and ph: "vm_free_phase1 o1 o2 m v s t = (res, v1)"
  shows "vm_wf v1" and "vm_view v1 a = vm_view v a" and "vm_mem_size v1 = vm_mem_size v"
    and "\<And>rs. res = Inr rs \<Longrightarrow> no_straddle s (vm_extents v1) \<and> no_straddle t (vm_extents v1)
      \<and> rs = map (\<lambda>e. (ext_addr e, ext_size e)) (filter (vm_free_inside s t) (vm_extents v1))"
    and "res = Inl 0 \<Longrightarrow> no_straddle s (vm_extents v1) \<and> no_straddle t (vm_extents v1)
      \<and> filter (vm_free_inside s t) (vm_extents v1) = []"
    and "res = Inl 0 \<or> res = Inl (-1) \<or> (\<exists>rs. res = Inr rs)"
    and "o1 \<Longrightarrow> o2 \<Longrightarrow> m \<Longrightarrow> res \<noteq> Inl (-1)"
proof (atomize (full), goal_cases)
  case 1
  obtain b1 e1 where s1: "vm_split_list o1 s (vm_extents v) = (b1, e1)" by fastforce
  obtain b2 e2 where s2: "vm_split_list o2 t e1 = (b2, e2)" by fastforce
  have w0: "exts_wf (vm_mem_size v) (vm_extents v)" using wf by (simp add: vm_wf_def)
  note v1 = split_list_view [OF w0 s1]
  note v2 = split_list_view [OF v1(1) s2]
  have n1: "b1 \<Longrightarrow> no_straddle s e2" 
    using split_keeps_no_straddle [OF v1(1) s2] split_no_straddle [OF w0 s1] by blast
  have n2: "b2 \<Longrightarrow> no_straddle t e2" using split_no_straddle [OF v1(1) s2] by blast
  show ?case
    using ph v1 v2 n1 n2
    by (auto simp: vm_free_phase1_def recomp_vm_split_extent_at_def s1 s2 Let_def vm_wf_def vm_view_def
        split: if_splits)
qed

lemma vm_free_phase3_view:
  assumes wf: "vm_wf v" and ns: "no_straddle s (vm_extents v)" "no_straddle t (vm_extents v)"
    and rs: "rs = map (\<lambda>e. (ext_addr e, ext_size e)) (filter (vm_free_inside s t) (vm_extents v))"
  shows "vm_wf (vm_free_phase3 v s t rs)"
    and "vm_view (vm_free_phase3 v s t rs) a =
      (if s \<le> a \<and> a < t then page_freed (vm_view v a) else vm_view v a)"
    and "vm_mem_size (vm_free_phase3 v s t rs) = vm_mem_size v"
proof -
  have w: "exts_wf (vm_mem_size v) (vm_extents v)" using wf by (simp add: vm_wf_def)
  note p = phase3_view [OF w ns rs]
  show "vm_wf (vm_free_phase3 v s t rs)"
    using coalesce_view(1) [OF p(1)] by (simp add: vm_free_phase3_def vm_wf_def)
  show "vm_view (vm_free_phase3 v s t rs) a =
      (if s \<le> a \<and> a < t then page_freed (vm_view v a) else vm_view v a)"
    using coalesce_view(2) [OF p(1)] p(2) by (simp add: vm_free_phase3_def vm_view_def)
  show "vm_mem_size (vm_free_phase3 v s t rs) = vm_mem_size v"
    by (simp add: vm_free_phase3_def)
qed

lemma no_inside_no_mapped:
  assumes wf: "vm_wf v" and ns: "no_straddle s (vm_extents v)" "no_straddle t (vm_extents v)"
    and none: "filter (vm_free_inside s t) (vm_extents v) = []" and a: "s \<le> a" "a < t"
  shows "page_freed (vm_view v a) = vm_view v a"
proof (cases "ext_lookup (vm_extents v) a")
  case None
  then show ?thesis by (simp add: vm_view_def exts_view_def)
next
  case (Some e)
  from range_lookup_SomeD [OF this] have e: "e \<in> set (vm_extents v)" "ext_covers a e" by auto
  have nw: "no_wrap (ext_addr e) (ext_size e)"
    using wf e(1) by (auto simp: vm_wf_def exts_wf_def ranges_ok_def)
  have "ext_free e"
  proof (rule ccontr)
    assume f: "\<not> ext_free e"
    from inside_iff [OF nw ns e(1) f e(2)] a have "vm_free_inside s t e"
      using f by (simp add: vm_free_inside_def)
    with none e(1) show False by (auto simp: filter_empty_conv)
  qed
  with Some show ?thesis by (simp add: vm_view_def exts_view_def)
qed

text \<open>The range \<open>recomp_vm_free\<close> works on: the page-widened argument.\<close>

definition free_start :: "u64 \<Rightarrow> u64" where
  "free_start addr = addr AND NOT 4095"

definition free_end :: "u64 \<Rightarrow> u64 \<Rightarrow> u64" where
  "free_end addr sz = free_start addr + ((sz + 4095) AND NOT 4095)"

lemma vm_free_eq:
  "recomp_vm_free um o1 o2 m (v, d) addr sz =
     (if addr = 0 \<or> sz = 0 \<or> free_end addr sz < free_start addr then (-1, v, d) else
      case vm_free_phase1 o1 o2 m v (free_start addr) (free_end addr sz) of
        (Inl rc, v1) \<Rightarrow> (rc, v1, d)
      | (Inr ranges, v1) \<Rightarrow>
          (0, vm_free_phase3 v1 (free_start addr) (free_end addr sz) ranges,
           fold (\<lambda>r. um (fst r) (snd r)) ranges d))"
  unfolding recomp_vm_free_def Let_def free_end_def free_start_def fst_conv snd_conv
  by (cases "addr = 0"; cases "sz = 0"; simp only: simp_thms if_True if_False)

lemma vm_free_view:
  assumes wf: "vm_wf v" and res: "recomp_vm_free um o1 o2 m (v, d) addr sz = (rc, v', d')"
  shows "vm_wf v'" and "vm_mem_size v' = vm_mem_size v"
    and "rc \<noteq> 0 \<Longrightarrow> vm_view v' a = vm_view v a \<and> d' = d"
    and "rc = 0 \<Longrightarrow> vm_view v' a =
      (if free_start addr \<le> a \<and> a < free_end addr sz then page_freed (vm_view v a) else vm_view v a)"
proof (atomize (full), goal_cases)
  case 1
  let ?s = "free_start addr" and ?t = "free_end addr sz"
  show ?case
  proof (cases "addr = 0 \<or> sz = 0 \<or> ?t < ?s")
    case True
    with res wf show ?thesis by (auto simp: vm_free_eq)
  next
    case False
    obtain r v1 where ph: "vm_free_phase1 o1 o2 m v ?s ?t = (r, v1)" by fastforce
    note p1 = phase1_view [OF wf ph]
    from p1(6) consider "r = Inl 0" | "r = Inl (-1)" | rs where "r = Inr rs" by blast
    then show ?thesis
    proof cases
      assume r: "r = Inl 0"
      with False res ph have "rc = 0" "v' = v1" by (auto simp: vm_free_eq)
      moreover have "page_freed (vm_view v1 a) = vm_view v1 a" if "?s \<le> a \<and> a < ?t"
        using no_inside_no_mapped [of v1 ?s ?t a] p1(1) p1(5) [OF r] that by auto
      ultimately show ?thesis using p1 by auto
    next
      assume r: "r = Inl (-1)"
      with False res ph have "rc = -1" "v' = v1" "d' = d" by (auto simp: vm_free_eq)
      then show ?thesis using p1 by simp
    next
      fix rs assume r: "r = Inr rs"
      with False res ph have "rc = 0" "v' = vm_free_phase3 v1 ?s ?t rs" by (auto simp: vm_free_eq)
      then show ?thesis
        using vm_free_phase3_view [of v1 ?s ?t rs] p1 p1(4) [OF r] by auto
    qed
  qed
qed

section \<open>The unmapped ranges\<close>

definition addr_unmapped :: "ext list \<Rightarrow> u64 \<Rightarrow> bool" where
  "addr_unmapped es a \<longleftrightarrow> (\<exists>e \<in> set es. vm_extent_unmapped e \<and> ext_covers a e)"

definition in_span :: "u64 \<Rightarrow> u64 \<times> u64 \<Rightarrow> bool" where
  "in_span a r \<longleftrightarrow> fst r \<le> a \<and> a < snd r"

lemma unmapped_scan_spans:
  assumes "\<forall>e \<in> set es. no_wrap (ext_addr e) (ext_size e)"
    and "\<And>s t. cur = Some (s, t) \<Longrightarrow> s \<le> t"
  shows "(\<exists>r \<in> set (unmapped_scan es cur). in_span a r) \<longleftrightarrow>
    addr_unmapped es a \<or> (case cur of None \<Rightarrow> False | Some r \<Rightarrow> in_span a r)"
  using assms
proof (induction es cur rule: unmapped_scan.induct)
  case (1 cur)
  then show ?case by (auto simp: addr_unmapped_def split: option.splits)
next
  case (2 e es cur)
  have nw: "no_wrap (ext_addr e) (ext_size e)" and rest: "\<forall>e \<in> set es. no_wrap (ext_addr e) (ext_size e)"
    using "2.prems"(1) by auto
  have le: "ext_addr e \<le> ext_addr e + ext_size e"
    using unat_add_no_wrap [OF nw] by (simp add: word_le_nat_alt)
  have au: "addr_unmapped (e # es) a \<longleftrightarrow>
      (vm_extent_unmapped e \<and> in_span a (ext_addr e, ext_addr e + ext_size e)) \<or> addr_unmapped es a"
    by (auto simp: addr_unmapped_def in_span_def covers_def in_range_def)
  show ?case
  proof (cases "\<not> vm_extent_unmapped e \<or> ext_size e = 0")
    case True
    have "\<not> (vm_extent_unmapped e \<and> in_span a (ext_addr e, ext_addr e + ext_size e))"
      using True by (auto simp: in_span_def)
    with au have "addr_unmapped (e # es) a \<longleftrightarrow> addr_unmapped es a" by blast
    moreover have "unmapped_scan (e # es) cur = unmapped_scan es cur" using True by auto
    moreover have "(\<exists>r \<in> set (unmapped_scan es cur). in_span a r) \<longleftrightarrow>
        addr_unmapped es a \<or> (case cur of None \<Rightarrow> False | Some r \<Rightarrow> in_span a r)"
      by (rule "2.IH"(1) [OF True rest]) (rule "2.prems"(2))
    ultimately show ?thesis by simp
  next
    case u: False
    show ?thesis
    proof (cases cur)
      case None
      with "2.IH"(2) [OF u None rest] le u au show ?thesis by auto
    next
      case (Some r)
      obtain s t where r: "r = (s, t)" by (cases r)
      have st: "s \<le> t" using "2.prems"(2) Some r by simp
      show ?thesis
      proof (cases "ext_addr e = t")
        case True
        have "s \<le> ext_addr e + ext_size e" using st True le by simp
        with "2.IH"(3) [OF u Some r [symmetric] True rest] have
          "(\<exists>r \<in> set (unmapped_scan (e # es) cur). in_span a r) \<longleftrightarrow>
           addr_unmapped es a \<or> in_span a (s, ext_addr e + ext_size e)"
          using u Some r True by auto
        moreover have "in_span a (s, ext_addr e + ext_size e) \<longleftrightarrow>
            in_span a (s, t) \<or> in_span a (ext_addr e, ext_addr e + ext_size e)"
          using st True le by (auto simp: in_span_def)
        ultimately show ?thesis using u au Some r by auto
      next
        case False
        with "2.IH"(4) [OF u Some r [symmetric] False rest] le u au Some r show ?thesis by auto
      qed
    qed
  qed
qed

end
