(* ===== verification/VmInit.thy ===== *)
theory VmInit
  imports VmFree
begin

unbundle bit_operations_syntax

text \<open>
  The initial extents of \<open>recomp_init_runtime\<close>, the operations on the extent list as a step
  relation in which the two locked phases of \<open>recomp_vm_free\<close> are separate steps, and the
  invariant that every reachable extent list is well formed.
\<close>

section \<open>The initial extents\<close>

text \<open>\<open>recomp_init_runtime\<close>, from the image size to the extents.\<close>

definition vm_init_mem_size :: "u64 \<Rightarrow> u64 option \<Rightarrow> u64 \<Rightarrow> u64" where
  "vm_init_mem_size guest_mem_sz env_mem image_size =
     (let m0 = (if guest_mem_sz = 0 then (case env_mem of Some n \<Rightarrow> n | None \<Rightarrow> 0) else guest_mem_sz);
          m1 = (if m0 = 0 then 0x8000000000 else m0)
      in if 0 < image_size \<and> m1 < image_size + 0x20000 then image_size + 0x20000 else m1)"

definition vm_init_image_end :: "u64 \<Rightarrow> u64" where
  "vm_init_image_end image_size =
     (let image_end = (image_size + 0xFFFF) AND NOT 0xFFFF
      in if image_end < 0x10000 then 0x10000 else image_end)"

definition vm_init_args_addr :: "u64 \<Rightarrow> u64" where
  "vm_init_args_addr image_size = vm_init_image_end image_size + 0x10000 + 0x10000"

definition vm_init_heap_ptr :: "u64 \<Rightarrow> u64" where
  "vm_init_heap_ptr image_size = (vm_init_args_addr image_size + 0x10000 + 0xFFF) AND NOT 0xFFF"

definition vm_low_limit :: "u64 \<Rightarrow> u64" where
  "vm_low_limit mem_sz = (if mem_sz < 0x800000000 then mem_sz else 0x800000000)"

definition vm_stack_floor :: "u64 \<Rightarrow> u64" where
  "vm_stack_floor mem_sz =
     (if 0x4000000 < vm_low_limit mem_sz then vm_low_limit mem_sz - 0x4000000 else vm_low_limit mem_sz)"

definition main_stack_ext :: "u64 \<Rightarrow> ext" where
  "main_stack_ext mem_sz = \<lparr>ext_addr = vm_stack_floor mem_sz,
     ext_size = vm_low_limit mem_sz - vm_stack_floor mem_sz, ext_free = False, ext_prot = 3,
     ext_flags = 0, ext_mtype = 0, ext_name = strncpy_name 32 ''main_stack''\<rparr>"

text \<open>\<open>stack_ok\<close> says whether the \<open>calloc\<close> of the stack extent succeeds.\<close>

definition recomp_init_vm :: "bool \<Rightarrow> u64 \<Rightarrow> u64 \<Rightarrow> vm" where
  "recomp_init_vm stack_ok mem_sz heap_ptr =
     (let heap_start = (heap_ptr + 4095) AND NOT 4095;
          floor_a = vm_stack_floor mem_sz;
          heap = (if heap_start < floor_a then [free_ext heap_start (floor_a - heap_start)] else []);
          pool = (if 0x1000000000 < mem_sz then [free_ext 0x1000000000 (mem_sz - 0x1000000000)] else []);
          stack = (if stack_ok then [main_stack_ext mem_sz] else [])
      in \<lparr>vm_extents = heap @ pool @ stack, vm_gen = 1, vm_mem_size = mem_sz\<rparr>)"

definition init_rsp :: "u64 \<Rightarrow> u64" where
  "init_rsp mem_sz = (vm_low_limit mem_sz - 0x1000) AND NOT 0xFF"

lemma vm_low_limit_le: "unat (vm_low_limit m) \<le> unat m" "unat (vm_low_limit m) \<le> 0x800000000"
  by (auto simp: vm_low_limit_def word_less_nat_alt)

lemma vm_stack_floor_nat:
  "unat (vm_stack_floor m) \<le> unat (vm_low_limit m)"
  "unat (vm_low_limit m - vm_stack_floor m) = unat (vm_low_limit m) - unat (vm_stack_floor m)"
proof -
  show le: "unat (vm_stack_floor m) \<le> unat (vm_low_limit m)"
    by (auto simp: vm_stack_floor_def word_less_nat_alt unat_sub_le)
  then show "unat (vm_low_limit m - vm_stack_floor m) = unat (vm_low_limit m) - unat (vm_stack_floor m)"
    by (rule unat_sub_le)
qed

lemma recomp_init_vm_wf: "vm_wf (recomp_init_vm stack_ok m h)"
proof -
  let ?h = "(h + 4095) AND NOT 4095"
  note s = vm_stack_floor_nat [of m] and l = vm_low_limit_le [of m]
  have heap: "unat (vm_stack_floor m - ?h) = unat (vm_stack_floor m) - unat ?h"
    if "?h < vm_stack_floor m"
    using that by (intro unat_sub_le) (simp add: word_less_nat_alt)
  have pool: "unat (m - 0x1000000000) = unat m - 0x1000000000" if "0x1000000000 < m"
    using that unat_sub_le [of "0x1000000000" m] by (simp add: word_less_nat_alt)
  show ?thesis
    using s l heap pool u64_lt [of m]
    by (auto simp: recomp_init_vm_def vm_wf_def exts_wf_def Let_def ranges_ok_Cons ranges_ok_append
        main_stack_ext_def ext_within_def no_wrap_def apart_def ext_covers_nat in_range_nat
        word_less_nat_alt)
qed

section \<open>Steps and reachability\<close>

text \<open>
  One locked section of any thread. The requests that reach the allocator are bounded
  (\<open>vm_request_ok\<close>); the ranges phase 3 of a free works on are those some earlier phase 1
  noted, here any list: the invariant does not depend on what ran in between.
\<close>

inductive vm_step :: "vm \<Rightarrow> vm \<Rightarrow> bool" where
  alloc: "vm_request_ok v sz al \<Longrightarrow>
    vm_step v (snd (recomp_vm_alloc_named_aligned c1 c2 v sz al prot flags name))"
| fixed: "vm_step v (snd (recomp_vm_alloc_fixed c1 c2 v d sz prot flags name))"
| split: "vm_step v (snd (recomp_vm_split_extent_at c1 v at))"
| free1: "vm_step v (snd (vm_free_phase1 c1 c2 c3 v s t))"
| free3: "vm_step v (vm_free_phase3 v s t rs)"

inductive vm_reach :: "vm \<Rightarrow> vm \<Rightarrow> bool" for v0 where
  start: "vm_reach v0 v0"
| step: "vm_reach v0 v \<Longrightarrow> vm_step v v' \<Longrightarrow> vm_reach v0 v'"

inductive_cases vm_stepE: "vm_step v v'"

lemma alloc_fixed_wf:
  assumes "vm_wf v"
  shows "vm_wf (snd (recomp_vm_alloc_fixed c1 c2 v d sz prot flags name))"
proof -
  let ?at = "d AND NOT 4095" and ?asz = "(sz + 4095) AND NOT 4095" and ?es = "vm_extents v"
  show ?thesis
  proof (cases "vm_find_index (vm_fixed_ok ?at ?asz) 0 ?es")
    case None
    then show ?thesis using assms by (simp add: recomp_vm_alloc_fixed_def Let_def)
  next
    case (Some i)
    from vm_find_index_SomeD [OF this] have i: "i < length ?es" and f: "vm_fixed_ok ?at ?asz (?es ! i)"
      by auto
    have ewf: "exts_wf (vm_mem_size v) ?es" using assms by (simp add: vm_wf_def)
    then have nw: "no_wrap (ext_addr (?es ! i)) (ext_size (?es ! i))"
      using i by (auto simp: exts_wf_def ranges_ok_def)
    have lo: "unat (ext_addr (?es ! i)) \<le> unat ?at"
      using f by (simp add: vm_fixed_ok_def word_le_nat_alt)
    have hi: "unat ?at + unat ?asz \<le> unat (ext_addr (?es ! i)) + unat (ext_size (?es ! i))"
      if "?at \<le> ?at + ?asz"
      using f that nw by (simp add: vm_fixed_ok_def word_le_nat_alt unat_add_no_wrap unat_plus_simple [THEN iffD1])
    have "exts_wf (vm_mem_size v) (take i ?es @ vm_carve c2 (?es ! i) ?at ?asz prot flags name @ drop (Suc i) ?es)"
      if "\<not> ?at + ?asz < ?at"
      using that by (intro install_wf_view(1) ewf i lo hi) simp
    then show ?thesis
      using assms Some by (simp add: recomp_vm_alloc_fixed_def Let_def vm_wf_def)
  qed
qed

lemma vm_step_wf: "vm_step v v' \<Longrightarrow> vm_wf v \<Longrightarrow> vm_wf v'"
proof (induction rule: vm_step.induct)
  case alloc
  then show ?case by (intro alloc_aligned_wf)
next
  case fixed
  then show ?case by (rule alloc_fixed_wf)
next
  case (split v c1 at)
  obtain b es where "vm_split_list c1 at (vm_extents v) = (b, es)" by fastforce
  with split split_list_view(1) [of "vm_mem_size v" "vm_extents v" c1 at b es]
  show ?case by (simp add: recomp_vm_split_extent_at_def vm_wf_def)
next
  case (free1 v c1 c2 c3 s t)
  then show ?case using phase1_view(1) [OF free1] by (metis prod.collapse)
next
  case (free3 v s t rs)
  have "exts_wf (vm_mem_size v) (fold vm_mark_free rs (vm_extents v))"
    using free3 unfolding fold_mark_free vm_wf_def by (rule map_free_wf_view(1))
  then show ?case
    using coalesce_view(1) by (simp add: vm_free_phase3_def vm_wf_def)
qed

lemma vm_reach_wf: "vm_reach v0 v \<Longrightarrow> vm_wf v0 \<Longrightarrow> vm_wf v"
  by (induction rule: vm_reach.induct) (auto intro: vm_step_wf)

end
