(* ===== verification/MemApi.thy ===== *)
theory MemApi
  imports DirectProps VmInit
begin

unbundle bit_operations_syntax

text \<open>
  The mapping calls of \<open>kernel/memory/ps4_direct_mem.c\<close>: direct, flexible and reserved
  mappings, memory pools, protection, names, queries and the batch call. They work on the
  virtual memory manager and on direct memory together (\<open>kmem\<close>). A call returns its code,
  what it writes through its pointers, and the new state. \<open>host\<close> holds the results of the host
  calls that may fail, so that every failure path is a branch.
\<close>

section \<open>State\<close>

record kmem =
  km_vm :: vm
  km_ds :: dstate

record host =
  h_init :: bool
  h_fix_pre :: bool
  h_fix_suf :: bool
  h_any_pre :: bool
  h_any_suf :: bool
  h_remap :: bool
  h_rec :: bool
  h_split1 :: bool
  h_split2 :: bool
  h_malloc :: bool
  h_tail :: bool

definition host_ok :: host where
  "host_ok = \<lparr>h_init = True, h_fix_pre = True, h_fix_suf = True, h_any_pre = True, h_any_suf = True,
     h_remap = True, h_rec = True, h_split1 = True, h_split2 = True, h_malloc = True, h_tail = True\<rparr>"

text \<open>\<open>munmap\<close>: \<open>recomp_vm_free\<close> with the direct memory side attached.\<close>

definition km_free :: "host \<Rightarrow> kmem \<Rightarrow> u64 \<Rightarrow> u64 \<Rightarrow> i32 \<times> kmem" where
  "km_free h k addr sz =
     (case recomp_vm_free (ps4_direct_mem_on_unmap (h_tail h)) (h_split1 h) (h_split2 h) (h_malloc h)
             (km_vm k, km_ds k) addr sz of
        (rc, v, d) \<Rightarrow> (rc, \<lparr>km_vm = v, km_ds = d\<rparr>))"

section \<open>Mapping\<close>

text \<open>
  The sequence the map calls share: a fixed allocation when an address was asked for, and an
  aligned one anywhere when there was none or it failed.
\<close>

definition fixed_or_any :: "('s \<Rightarrow> u64 \<Rightarrow> u64 \<times> 's) \<Rightarrow> ('s \<Rightarrow> u64 \<times> 's) \<Rightarrow> 's \<Rightarrow> u64 \<Rightarrow> u64 \<times> 's" where
  "fixed_or_any fixed any s req =
     (let (v, s1) = (if req \<noteq> 0 then fixed s req else (BAD_ADDR, s))
      in if v = BAD_ADDR then any s1 else (v, s1))"

definition vm_fixed_or_any :: "host \<Rightarrow> vm \<Rightarrow> u64 \<Rightarrow> u64 \<Rightarrow> u64 \<Rightarrow> i32 \<Rightarrow> i32 \<Rightarrow> string \<Rightarrow> u64 \<times> vm" where
  "vm_fixed_or_any h v req len al prot flags nm =
     fixed_or_any
       (\<lambda>s a. recomp_vm_alloc_fixed (h_fix_pre h) (h_fix_suf h) s a len prot flags (Some nm))
       (\<lambda>s. recomp_vm_alloc_named_aligned (h_any_pre h) (h_any_suf h) s len al prot flags (Some nm))
       v req"

text \<open>The block that holds the range to map; \<open>physAddr\<close> is compared as a signed \<open>off_t\<close>.\<close>

definition dm_map_hit :: "i64 \<Rightarrow> u64 \<Rightarrow> block \<Rightarrow> bool" where
  "dm_map_hit physAddr len b \<longleftrightarrow>
     \<not> blk_free b \<and> sint (blk_off b) \<le> sint physAddr \<and> physAddr + len \<le> blk_off b + blk_size b"

text \<open>\<open>addr_in\<close> is \<open>None\<close> when \<open>addrInOut\<close> is NULL. On success the mapped address is returned.\<close>

definition sceKernelMapDirectMemory ::
    "host \<Rightarrow> denv \<Rightarrow> kmem \<Rightarrow> u64 option \<Rightarrow> u64 \<Rightarrow> i32 \<Rightarrow> i32 \<Rightarrow> i64 \<Rightarrow> u64 \<Rightarrow> (i32 + u64) \<times> kmem" where
  "sceKernelMapDirectMemory h env k addr_in len prot flags physAddr alignment =
     (case addr_in of None \<Rightarrow> (Inl KERR_EINVAL, k) | Some req \<Rightarrow>
      if len = 0 then (Inl KERR_EINVAL, k) else
      let al = (if alignment = 0 then 4096 else alignment);
          aligned_len = align_up len al;
          d1 = snd (ps4_direct_mem_init (h_init h) env (km_ds k))
      in case dm_find_block (dm_map_hit physAddr len) 0 (ds_blocks d1) of
           None \<Rightarrow> (Inl KERR_EINVAL, k\<lparr>km_ds := d1\<rparr>)
         | Some i \<Rightarrow>
             (let (vaddr, v1) = vm_fixed_or_any h (km_vm k) req aligned_len al prot flags ''direct_mem'' in
              if vaddr = BAD_ADDR then (Inl KERR_ENOMEM, k\<lparr>km_ds := d1, km_vm := v1\<rparr>) else
              let d2 = d1\<lparr>ds_blocks := (ds_blocks d1)[i := (ds_blocks d1 ! i)\<lparr>blk_vaddr := vaddr\<rparr>]\<rparr>;
                  d3 = snd (dm_alias (h_remap h) (h_rec h) (vm_mem_size v1) d2 vaddr physAddr
                              ((len + 0x3fff) AND NOT 0x3fff))
              in (Inr vaddr, k\<lparr>km_ds := d3, km_vm := v1\<rparr>)))"

definition sceKernelMapNamedFlexibleMemory ::
    "host \<Rightarrow> kmem \<Rightarrow> u64 option \<Rightarrow> u64 \<Rightarrow> i32 \<Rightarrow> i32 \<Rightarrow> string option \<Rightarrow> (i32 + u64) \<times> kmem" where
  "sceKernelMapNamedFlexibleMemory h k addr_in len prot flags name =
     (case addr_in of None \<Rightarrow> (Inl KERR_EINVAL, k) | Some req \<Rightarrow>
      if len = 0 then (Inl KERR_EINVAL, k) else
      let tag = (case name of None \<Rightarrow> ''flexible_mem'' | Some s \<Rightarrow> if s = [] then ''flexible_mem'' else s);
          aligned_len = align_up len 65536;
          (vaddr, v1) = vm_fixed_or_any h (km_vm k) req aligned_len 65536 prot flags tag
      in if vaddr = BAD_ADDR then (Inl KERR_ENOMEM, k\<lparr>km_vm := v1\<rparr>) else (Inr vaddr, k\<lparr>km_vm := v1\<rparr>))"

definition sceKernelMapFlexibleMemory ::
    "host \<Rightarrow> kmem \<Rightarrow> u64 option \<Rightarrow> u64 \<Rightarrow> i32 \<Rightarrow> i32 \<Rightarrow> (i32 + u64) \<times> kmem" where
  "sceKernelMapFlexibleMemory h k addr_in len prot flags =
     sceKernelMapNamedFlexibleMemory h k addr_in len prot flags (Some ''flexible_mem'')"

definition sceKernelReserveVirtualRange ::
    "host \<Rightarrow> kmem \<Rightarrow> u64 option \<Rightarrow> u64 \<Rightarrow> i32 \<Rightarrow> u64 \<Rightarrow> (i32 + u64) \<times> kmem" where
  "sceKernelReserveVirtualRange h k addr_in len flags alignment =
     (case addr_in of None \<Rightarrow> (Inl KERR_EINVAL, k) | Some req \<Rightarrow>
      if len = 0 then (Inl KERR_EINVAL, k) else
      let al = (if alignment = 0 then 65536 else alignment);
          aligned_len = align_up len al;
          (vaddr, v1) = vm_fixed_or_any h (km_vm k) req aligned_len al 0 flags ''reserved''
      in if vaddr = BAD_ADDR then (Inl KERR_ENOMEM, k\<lparr>km_vm := v1\<rparr>) else (Inr vaddr, k\<lparr>km_vm := v1\<rparr>))"

section \<open>Memory pools\<close>

text \<open>A fixed reservation that the allocator refuses is accepted at the requested address.\<close>

definition sceKernelMemoryPoolReserve ::
    "host \<Rightarrow> kmem \<Rightarrow> u64 \<Rightarrow> u64 \<Rightarrow> u64 \<Rightarrow> i32 \<Rightarrow> bool \<Rightarrow> (i32 + u64) \<times> kmem" where
  "sceKernelMemoryPoolReserve h k addr_in len alignment flags out_null =
     (if out_null \<or> len = 0 then (Inl KERR_EINVAL, k) else
      let al = (if alignment = 0 then 2 * 1024 * 1024 else alignment);
          aligned_size = align_up len al;
          (vaddr, v1) =
            (if addr_in \<noteq> 0 then
               (let (r, v) = recomp_vm_alloc_fixed (h_fix_pre h) (h_fix_suf h) (km_vm k) addr_in
                               aligned_size 3 flags (Some ''pool_reserved'')
                in (if r = BAD_ADDR then addr_in else r, v))
             else recomp_vm_alloc_named_aligned (h_any_pre h) (h_any_suf h) (km_vm k) aligned_size al 3
                    flags (Some ''pool_reserved''))
      in if vaddr = BAD_ADDR then (Inl KERR_ENOMEM, k\<lparr>km_vm := v1\<rparr>) else (Inr vaddr, k\<lparr>km_vm := v1\<rparr>))"

definition sceKernelMemoryPoolCommit :: "u64 \<Rightarrow> u64 \<Rightarrow> i32" where
  "sceKernelMemoryPoolCommit addr len = (if addr = 0 then - EINVAL else 0)"

definition sceKernelMemoryPoolDecommit :: "u64 \<Rightarrow> u64 \<Rightarrow> i32" where
  "sceKernelMemoryPoolDecommit addr len = (if addr = 0 \<or> len = 0 then - EINVAL else 0)"

section \<open>Flexible memory sizes\<close>

definition sceKernelConfiguredFlexibleMemorySize :: "guest_mem \<Rightarrow> u64 \<Rightarrow> u64" where
  "sceKernelConfiguredFlexibleMemorySize m proc_param =
     (let min_fmem = 4 * 1024 * 1024 * 1024;
          mp = (if mem_mapped m \<and> proc_param \<noteq> 0 \<and> proc_param + 0x48 \<le> mem_size m
                then rd_u64 m (proc_param + 0x40) else 0);
          flex_ptr = (if mp \<noteq> 0 \<and> mp + 0x18 \<le> mem_size m then rd_u64 m (mp + 0x10) else 0);
          flex = (if flex_ptr \<noteq> 0 \<and> flex_ptr + 8 \<le> mem_size m then rd_u64 m flex_ptr else 0);
          from_param = (if 0 < flex \<and> flex < 32 * 1024 * 1024 * 1024 then flex + 272 * 1024 * 1024 else 0)
      in if min_fmem < from_param then from_param else min_fmem)"

definition flexible_used :: "ext list \<Rightarrow> u64" where
  "flexible_used es = fold (\<lambda>e acc. if \<not> ext_free e \<and> strstr (ext_name e) ''flexible''
                                    then acc + ext_size e else acc) es 0"

definition sceKernelAvailableFlexibleMemorySize :: "guest_mem \<Rightarrow> u64 \<Rightarrow> kmem \<Rightarrow> u64" where
  "sceKernelAvailableFlexibleMemorySize m proc_param k =
     (let total_fmem = sceKernelConfiguredFlexibleMemorySize m proc_param;
          used = flexible_used (vm_extents (km_vm k))
      in if total_fmem \<le> used then 0 else total_fmem - used)"

section \<open>Queries\<close>

record vq_info =
  vq_start :: u64
  vq_end :: u64
  vq_offset :: u64
  vq_prot :: i32
  vq_flags :: i32
  vq_flexible :: bool
  vq_direct :: bool
  vq_pooled :: bool
  vq_committed :: bool
  vq_name :: string

text \<open>\<open>prot ? prot : PROT_READ | PROT_WRITE\<close>.\<close>

definition shown_prot :: "ext \<Rightarrow> i32" where
  "shown_prot e = (if ext_prot e \<noteq> 0 then ext_prot e else 3)"

text \<open>\<open>sizeof(OrbisKernelVirtualQueryInfo)\<close> is 72.\<close>

definition sceKernelVirtualQuery :: "kmem \<Rightarrow> u64 \<Rightarrow> bool \<Rightarrow> u64 \<Rightarrow> i32 + vq_info" where
  "sceKernelVirtualQuery k addr info_null info_size =
     (if info_null \<or> info_size < 72 then Inl (- EINVAL) else
      case recomp_vm_find (km_vm k) addr of
        None \<Rightarrow> Inl (- EFAULT)
      | Some e \<Rightarrow>
          (let info = \<lparr>vq_start = ext_addr e, vq_end = ext_addr e + ext_size e, vq_offset = 0,
                 vq_prot = shown_prot e, vq_flags = ext_flags e,
                 vq_flexible = strstr (ext_name e) ''flexible'', vq_direct = strstr (ext_name e) ''direct'',
                 vq_pooled = strstr (ext_name e) ''pool'', vq_committed = \<not> ext_free e,
                 vq_name = strncpy_name 32 (ext_name e)\<rparr>
           in case dm_lookup (km_ds k) addr of
                None \<Rightarrow> Inr info
              | Some (s, t, p) \<Rightarrow>
                  Inr (info\<lparr>vq_start := s, vq_end := t, vq_offset := p, vq_direct := True,
                            vq_flexible := False, vq_committed := True\<rparr>)))"

definition sceKernelQueryMemoryProtection :: "kmem \<Rightarrow> u64 \<Rightarrow> i32 + u64 \<times> u64 \<times> i32" where
  "sceKernelQueryMemoryProtection k addr =
     (case recomp_vm_find (km_vm k) addr of
        None \<Rightarrow> Inl (- EFAULT)
      | Some e \<Rightarrow> Inr (ext_addr e, ext_addr e + ext_size e, shown_prot e))"

section \<open>Names and protection\<close>

definition ext_overlaps :: "u64 \<Rightarrow> u64 \<Rightarrow> ext \<Rightarrow> bool" where
  "ext_overlaps start end_a e \<longleftrightarrow> \<not> ext_free e \<and> ext_addr e < end_a \<and> start < ext_addr e + ext_size e"

definition sceKernelSetVirtualRangeName :: "kmem \<Rightarrow> u64 \<Rightarrow> u64 \<Rightarrow> string option \<Rightarrow> i32 \<times> kmem" where
  "sceKernelSetVirtualRangeName k addr len name =
     (case name of None \<Rightarrow> (KERR_EFAULT, k) | Some s \<Rightarrow>
      if 32 \<le> length s then (KERR_ENAMETOOLONG, k) else
      let v = km_vm k;
          es = map (\<lambda>e. if ext_overlaps addr (addr + len) e then e\<lparr>ext_name := strncpy_name 32 s\<rparr> else e)
                 (vm_extents v)
      in (0, k\<lparr>km_vm := recomp_vm_note_change (v\<lparr>vm_extents := es\<rparr>)\<rparr>))"

text \<open>\<open>sceKernelMprotect\<close> changes whole extents: it does not split them.\<close>

definition sceKernelMprotect :: "kmem \<Rightarrow> u64 \<Rightarrow> u64 \<Rightarrow> i32 \<Rightarrow> i32 \<times> kmem" where
  "sceKernelMprotect k addr sz prot =
     (if sz = 0 then (0, k) else
      let start = addr AND NOT 0x3fff;
          span = ((sz + (addr - start)) + 0x3fff) AND NOT 0x3fff;
          v = km_vm k;
          es = map (\<lambda>e. if ext_overlaps start (start + span) e then e\<lparr>ext_prot := prot\<rparr> else e) (vm_extents v)
      in (0, k\<lparr>km_vm := v\<lparr>vm_extents := es\<rparr>\<rparr>))"

definition sceKernelMtypeprotect :: "host \<Rightarrow> kmem \<Rightarrow> u64 \<Rightarrow> u64 \<Rightarrow> i32 \<Rightarrow> i32 \<Rightarrow> i32 \<times> kmem" where
  "sceKernelMtypeprotect h k addr sz mtype prot =
     (if sz = 0 then (0, k) else
      let start = addr AND NOT 0x3fff;
          span = (sz + (addr - start) + 0x3fff) AND NOT 0x3fff;
          end_a = start + span;
          v = km_vm k
      in if end_a < start \<or> vm_mem_size v < end_a then (KERR_EINVAL, k) else
         if filter (ext_overlaps start end_a) (vm_extents v) = [] then (KERR_EINVAL, k) else
         let (b1, v1) = recomp_vm_split_extent_at (h_split1 h) v start in
         if \<not> b1 then (KERR_ENOMEM, k\<lparr>km_vm := v1\<rparr>) else
         let (b2, v2) = recomp_vm_split_extent_at (h_split2 h) v1 end_a in
         if \<not> b2 then (KERR_ENOMEM, k\<lparr>km_vm := v2\<rparr>) else
         let es = map (\<lambda>e. if ext_free e \<or> ext_addr e < start \<or> end_a < ext_addr e + ext_size e then e
                           else e\<lparr>ext_prot := prot, ext_mtype := mtype\<rparr>) (vm_extents v2)
         in (0, k\<lparr>km_vm := v2\<lparr>vm_extents := es\<rparr>\<rparr>))"

section \<open>The batch call\<close>

record batch_entry =
  be_start :: u64
  be_offset :: u64
  be_length :: u64
  be_prot :: u8
  be_type :: u8
  be_op :: i32

text \<open>A mapping placed elsewhere than requested is undone and fails.\<close>

definition batch_fixed_result :: "host \<Rightarrow> u64 \<Rightarrow> u64 \<Rightarrow> (i32 + u64) \<times> kmem \<Rightarrow> (i32 + u64) \<times> kmem" where
  "batch_fixed_result h req len res =
     (case res of
        (Inl rc, k) \<Rightarrow> (Inl rc, k)
      | (Inr mapped, k) \<Rightarrow>
          if req = 0 \<or> mapped = req then (Inr mapped, k)
          else (Inl KERR_ENOMEM, snd (km_free h k mapped len)))"

text \<open>One entry: the code, the \<open>start\<close> field afterwards, and the state.\<close>

definition batch_entry_run :: "host \<Rightarrow> denv \<Rightarrow> kmem \<Rightarrow> batch_entry \<Rightarrow> i32 \<times> u64 \<times> kmem" where
  "batch_entry_run h env k e =
     (let prot = ucast (be_prot e); put = (\<lambda>r. case r of
                                             (Inl rc, k') \<Rightarrow> (rc, be_start e, k')
                                           | (Inr mapped, k') \<Rightarrow> (0, mapped, k'))
      in if be_op e = 0 then
           put (batch_fixed_result h (be_start e) (be_length e)
                  (sceKernelMapDirectMemory h env k (Some (be_start e)) (be_length e) prot 0x10 (be_offset e) 0))
         else if be_op e = 1 then
           (let (rc, k') = km_free h k (be_start e) (be_length e)
            in (if rc = 0 then 0 else KERR_EINVAL, be_start e, k'))
         else if be_op e = 2 then
           (let (rc, k') = sceKernelMprotect k (be_start e) (be_length e) prot in (rc, be_start e, k'))
         else if be_op e = 3 then
           put (batch_fixed_result h (be_start e) (be_length e)
                  (sceKernelMapNamedFlexibleMemory h k (Some (be_start e)) (be_length e) prot 0x10 (Some ''anon'')))
         else
           (let (rc, k') = sceKernelMtypeprotect h k (be_start e) (be_length e) (ucast (be_type e)) prot
            in (rc, be_start e, k')))"

text \<open>
  The loop: the result, the number of entries that completed, the entries as written back and
  the state. Entry \<open>i\<close> runs with the host results \<open>hs i\<close>.
\<close>

fun batch_loop :: "(nat \<Rightarrow> host) \<Rightarrow> denv \<Rightarrow> nat \<Rightarrow> kmem \<Rightarrow> batch_entry list
    \<Rightarrow> i32 \<times> nat \<times> batch_entry list \<times> kmem" where
  "batch_loop hs env i k [] = (0, i, [], k)"
| "batch_loop hs env i k (e # es) =
     (if be_length e = 0 \<or> 4 < be_op e then (KERR_EINVAL, i, e # es, k) else
      case batch_entry_run (hs i) env k e of
        (rc, start, k') \<Rightarrow>
          (if rc \<noteq> 0 then (rc, i, e\<lparr>be_start := start\<rparr> # es, k') else
           case batch_loop hs env (Suc i) k' es of
             (res, n, es', k'') \<Rightarrow> (res, n, e\<lparr>be_start := start\<rparr> # es', k'')))"

text \<open>A NULL array with a positive count fails at once.\<close>

definition sceKernelBatchMap ::
    "(nat \<Rightarrow> host) \<Rightarrow> denv \<Rightarrow> kmem \<Rightarrow> batch_entry list option \<Rightarrow> i32 \<Rightarrow> i32 \<times> nat \<times> batch_entry list \<times> kmem" where
  "sceKernelBatchMap hs env k entries num =
     (if sint num \<le> 0 then (0, 0, (case entries of None \<Rightarrow> [] | Some es \<Rightarrow> es), k) else
      case entries of
        None \<Rightarrow> (KERR_EINVAL, 0, [], k)
      | Some es \<Rightarrow>
          (case batch_loop hs env 0 k (take (unat num) es) of
             (rc, n, es', k') \<Rightarrow> (rc, n, es' @ drop (unat num) es, k')))"

end
