(* ===== verification/VmProps.thy ===== *)
theory VmProps
  imports VmInit
begin

unbundle bit_operations_syntax

text \<open>
  The properties of the virtual memory manager, each with a witness on the extents that
  \<open>recomp_init_runtime\<close> builds for 128 GB of guest memory (\<open>ex_vm\<close>).
\<close>

section \<open>A concrete state\<close>

definition ex_vm :: vm where
  "ex_vm = recomp_init_vm True 0x2000000000 0x100000"

lemmas vm_eval = recomp_vm_alloc_named_aligned_def vm_preferred_def vm_carve_def align_up_def
  recomp_vm_note_change_def strncpy_name_def recomp_vm_alloc_fixed_def vm_fixed_ok_def
  vm_request_ok_def vm_eff_align_def free_ext_def Let_def

lemma ex_vm_eq:
  "ex_vm = \<lparr>vm_extents = [free_ext 0x100000 0x7fbf00000, free_ext 0x1000000000 0x1000000000,
     \<lparr>ext_addr = 0x7fc000000, ext_size = 0x4000000, ext_free = False, ext_prot = 3, ext_flags = 0,
      ext_mtype = 0, ext_name = ''main_stack''\<rparr>], vm_gen = 1, vm_mem_size = 0x2000000000\<rparr>"
  by (simp add: ex_vm_def recomp_init_vm_def vm_stack_floor_def vm_low_limit_def main_stack_ext_def vm_eval)

lemma ex_vm_wf: "vm_wf ex_vm"
  unfolding ex_vm_def by (rule recomp_init_vm_wf)

section \<open>Allocation\<close>



text \<open>
  C6. When memory for the bookkeeping is available, an in-bounds request fails only if no free
  extent can hold the rounded size at an aligned address: the search over the preferred region
  and then over everything misses no fitting extent.
\<close>

theorem vm_alloc_complete:
  assumes "vm_wf v" and "vm_request_ok v sz al" and "sz \<noteq> 0"
    and "recomp_vm_alloc_named_aligned True suf_ok v sz al prot flags name = (BAD_ADDR, v')"
  shows "v' = v \<and> (\<forall>e \<in> set (vm_extents v). ext_free e \<longrightarrow>
    unat (ext_addr e) + unat (ext_size e)
      < unat (align_up (ext_addr e) (vm_eff_align al)) + unat (align_up sz (vm_eff_align al)))"
proof -
  have none: "\<forall>e \<in> set (vm_extents v). \<not> vm_fit (vm_eff_align al) (align_up sz (vm_eff_align al)) e"
    using alloc_aligned_bad_iff [OF TrueI assms(1-3), of suf_ok prot flags name] assms(4) by simp
  have "v' = v"
    using assms(3,4) vm_best_None_iff [of v sz al flags name, THEN iffD2, OF none]
    by (simp add: alloc_aligned_eq)
  moreover have "unat (ext_addr e) + unat (ext_size e)
      < unat (align_up (ext_addr e) (vm_eff_align al)) + unat (align_up sz (vm_eff_align al))"
    if e: "e \<in> set (vm_extents v)" "ext_free e" for e
  proof -
    have "ext_within (vm_mem_size v) e" using assms(1) e by (simp add: vm_wf_def exts_wf_def)
    from vm_fit_nat(1) [OF this vm_eff_align_nz vm_request_okD(2) [OF assms(2)]] none e
    show ?thesis by (auto simp: not_le)
  qed
  ultimately show ?thesis by blast
qed

theorem vm_alloc_complete_witness:
  "recomp_vm_alloc_named_aligned True True ex_vm 0x2000000000 0x4000 3 0 None = (BAD_ADDR, ex_vm)"
proof -
  have "\<exists>v'. recomp_vm_alloc_named_aligned True True ex_vm 0x2000000000 0x4000 3 0 None = (BAD_ADDR, v')"
    by (simp add: ex_vm_eq vm_eval)
  then obtain v' where
    v': "recomp_vm_alloc_named_aligned True True ex_vm 0x2000000000 0x4000 3 0 None = (BAD_ADDR, v')" ..
  have "v' = ex_vm"
    using vm_alloc_complete [OF ex_vm_wf _ _ v'] by (simp add: ex_vm_eq vm_eval)
  with v' show ?thesis by simp
qed

text \<open>
  The allocator is best fit with a region preference: the extent it takes is a smallest
  fitting one among the preferred extents (below 32 GB, or any for a request that names a pool
  or asks for it by flag), and it takes a non-preferred extent only when no preferred one fits.
\<close>

theorem vm_alloc_best_fit:
  assumes "vm_wf v" and "vm_request_ok v sz al"
    and "recomp_vm_alloc_named_aligned pre_ok suf_ok v sz al prot flags name = (r, v')"
    and "r \<noteq> BAD_ADDR"
  shows "\<exists>e \<in> set (vm_extents v). vm_fit (vm_eff_align al) (align_up sz (vm_eff_align al)) e
    \<and> r = align_up (ext_addr e) (vm_eff_align al)
    \<and> (\<forall>e' \<in> set (vm_extents v). vm_fit (vm_eff_align al) (align_up sz (vm_eff_align al)) e' \<longrightarrow>
         (vm_preferred flags name e \<and> (vm_preferred flags name e' \<longrightarrow> ext_size e \<le> ext_size e'))
         \<or> (\<not> vm_preferred flags name e' \<and> ext_size e \<le> ext_size e'))"
proof -
  let ?al = "vm_eff_align al" and ?es = "vm_extents v"
  let ?asz = "align_up sz ?al"
  have fit: "\<forall>e \<in> set ?es. vm_fit ?al ?asz e \<longrightarrow> ?asz \<le> ext_size e"
  proof (intro ballI impI)
    fix e assume e: "e \<in> set ?es" "vm_fit ?al ?asz e"
    have "ext_within (vm_mem_size v) e" using assms(1) e by (simp add: vm_wf_def exts_wf_def)
    from vm_fit_nat [OF this vm_eff_align_nz vm_request_okD(2) [OF assms(2)]] e(2)
    show "?asz \<le> ext_size e" by (simp add: word_le_nat_alt)
  qed
  obtain i s where b: "vm_best v sz al flags name = Some (i, s, r)"
    using assms(3,4) by (auto simp: alloc_aligned_eq split: if_splits option.splits)
  note sel = vm_best_SomeD [OF b]
  have i: "?es ! i \<in> set ?es" using sel(1) by simp
  show ?thesis
  proof (cases "vm_scan (vm_preferred flags name) ?al ?asz 0 ?es None")
    case None
    then have np: "\<forall>e \<in> set ?es. vm_fit ?al ?asz e \<longrightarrow> \<not> vm_preferred flags name e"
      using vm_scan_None_iff by blast
    have "vm_scan (\<lambda>_. True) ?al ?asz 0 ?es None = Some (i, s, r)"
      using b None by (simp add: vm_best_def Let_def)
    from vm_scan_best [OF fit this] np sel i show ?thesis by (intro bexI [of _ "?es ! i"]) auto
  next
    case (Some c)
    then have sc: "vm_scan (vm_preferred flags name) ?al ?asz 0 ?es None = Some (i, s, r)"
      using b by (simp add: vm_best_def Let_def)
    have "vm_preferred flags name (?es ! i)"
      using vm_scan_SomeD [OF sc] by auto
    with vm_scan_best [OF fit sc] sel i show ?thesis by (intro bexI [of _ "?es ! i"]) auto
  qed
qed

theorem vm_alloc_best_fit_witness:
  "\<exists>e \<in> set (vm_extents ex_vm). (0x100000 :: u64) = align_up (ext_addr e) 0x10000"
proof -
  obtain v' where v': "recomp_vm_alloc_named_aligned True True ex_vm 0x5000 0x10000 3 0 (Some ''anon'')
      = (0x100000, v')"
    by (simp add: ex_vm_eq vm_eval)
  have "vm_request_ok ex_vm 0x5000 0x10000" by (simp add: ex_vm_eq vm_eval)
  moreover have "vm_eff_align 0x10000 = 0x10000" by (simp add: vm_eff_align_def)
  moreover have "(0x100000 :: u64) \<noteq> BAD_ADDR" by simp
  ultimately show ?thesis
    using vm_alloc_best_fit [OF ex_vm_wf _ v'] by auto
qed

text \<open>
  A request whose size wraps around when it is rounded up to pages (the last 4095 values of
  \<open>size_t\<close>) may be granted, but nothing is mapped: every address keeps its view, so the
  address returned is still free.
\<close>

theorem vm_alloc_wrap_maps_nothing:
  assumes "vm_wf v" and "2 ^ 64 < unat sz + 4096"
    and "recomp_vm_alloc_named pre_ok True v sz prot flags name = (r, v')" and "r \<noteq> BAD_ADDR"
  shows "vm_view v' a = vm_view v a"
proof -
  let ?es = "vm_extents v"
  have al: "vm_eff_align 4096 = 4096" by (simp add: vm_eff_align_def)
  have asz: "align_up sz 4096 = 0" by (rule align_up_wraps_zero [OF assms(2)])
  obtain i where i: "i < length ?es" and fit: "vm_fit 4096 0 (?es ! i)"
    and r: "r = align_up (ext_addr (?es ! i)) 4096"
    and v': "v' = recomp_vm_note_change (v\<lparr>vm_extents := take i ?es
        @ vm_carve True (?es ! i) r 0 prot flags name @ drop (Suc i) ?es\<rparr>)"
    using assms(3,4) unfolding recomp_vm_alloc_named_def
    by (rule alloc_aligned_elim) (simp_all add: al asz)
  have ewf: "exts_wf (vm_mem_size v) ?es" using assms(1) by (simp add: vm_wf_def)
  then have nw: "no_wrap (ext_addr (?es ! i)) (ext_size (?es ! i))"
    using i by (auto simp: exts_wf_def ranges_ok_def)
  have lo: "unat (ext_addr (?es ! i)) \<le> unat r"
    and hi: "unat r + unat (0 :: u64) \<le> unat (ext_addr (?es ! i)) + unat (ext_size (?es ! i))"
    using fit r nw by (simp_all add: vm_fit_def word_le_nat_alt unat_add_no_wrap)
  note inst = install_wf_view(2,3) [OF ewf i lo hi, where a = a]
  have "ext_covers a (?es ! i) \<Longrightarrow> exts_view ?es a = Free"
    using inst(2) fit by (simp add: vm_fit_def)
  then show ?thesis
    using inst(1) [of True prot flags name] by (auto simp: vm_view_def v')
qed

theorem vm_alloc_wrap_maps_nothing_witness:
  "\<exists>v'. recomp_vm_alloc_named True True ex_vm (- 0x800) 3 0 None = (0x100000, v')
     \<and> vm_view v' 0x100000 = Free"
proof -
  obtain v' where v': "recomp_vm_alloc_named True True ex_vm (- 0x800) 3 0 None = (0x100000, v')"
    by (simp add: ex_vm_eq vm_eval recomp_vm_alloc_named_def)
  have "vm_view v' 0x100000 = vm_view ex_vm 0x100000"
    by (rule vm_alloc_wrap_maps_nothing [OF ex_vm_wf _ v']) simp_all
  also have "\<dots> = Free"
    by (simp add: vm_view_def ex_vm_eq exts_view_Cons in_range_def free_ext_def covers_def ext_page_def)
  finally show ?thesis using v' by blast
qed

section \<open>Allocation at a fixed address\<close>

definition page_reserved :: "page \<Rightarrow> bool" where
  "page_reserved p = (case p of Mapped _ _ _ nm \<Rightarrow> strstr nm ''reserved'' | _ \<Rightarrow> False)"

text \<open>
  A successful \<open>recomp_vm_alloc_fixed\<close> returns the requested address rounded down to its
  page; a range of at least the requested size from there, which was free or inside one
  reservation, is now mapped as asked. Nothing outside changes, except that an address of a
  reservation may become free.
\<close>

theorem vm_alloc_fixed_sound:
  assumes "vm_wf v" and "unat sz + 4096 \<le> 2 ^ 64"
    and "recomp_vm_alloc_fixed pre_ok True v d sz prot flags name = (r, v')" and "r \<noteq> BAD_ADDR"
  shows "vm_wf v' \<and> r = d AND NOT 4095
    \<and> (\<exists>n. sz \<le> n
        \<and> (\<forall>a. unat r \<le> unat a \<and> unat a < unat r + unat n \<longrightarrow>
             (vm_view v a = Free \<or> page_reserved (vm_view v a))
             \<and> (\<exists>m. vm_view v' a = Mapped prot flags m (name_of name)))
        \<and> (\<forall>a. \<not> (unat r \<le> unat a \<and> unat a < unat r + unat n) \<longrightarrow>
             vm_view v' a = vm_view v a \<or> (page_reserved (vm_view v a) \<and> vm_view v' a = Free)))"
proof (rule alloc_fixed_view [OF assms], goal_cases)
  case (1 e)
  let ?n = "(sz + 4095) AND NOT 4095"
  have e_in: "ext_covers a e" if "unat r \<le> unat a \<and> unat a < unat r + unat ?n" for a
  proof -
    have "no_wrap (ext_addr e) (ext_size e)"
      using assms(1) 1(1) by (auto simp: vm_wf_def exts_wf_def ranges_ok_def)
    then show ?thesis using that 1(4,5) by (simp add: ext_covers_nat)
  qed
  have pg: "ext_page e = Free \<or> page_reserved (ext_page e)"
    using 1(2) by (auto simp: ext_page_def page_reserved_def)
  have "sz \<le> ?n" using page_up(1) [OF assms(2)] by (simp add: word_le_nat_alt)
  with 1(3,6-) e_in pg show ?case
    by (intro conjI exI [of _ ?n]) auto
qed

text \<open>A state with a 64 KB reservation, and a mapping of 16 KB into its middle.\<close>

definition ex_reserved :: vm where
  "ex_reserved = snd (recomp_vm_alloc_fixed True True ex_vm 0x200000 0x10000 0 0 (Some ''reserved''))"

lemma ex_reserved_eq:
  "ex_reserved = \<lparr>vm_extents = [free_ext 0x100000 0x100000,
     \<lparr>ext_addr = 0x200000, ext_size = 0x10000, ext_free = False, ext_prot = 0, ext_flags = 0,
      ext_mtype = 0, ext_name = ''reserved''\<rparr>, free_ext 0x210000 0x7fbdf0000,
     free_ext 0x1000000000 0x1000000000,
     \<lparr>ext_addr = 0x7fc000000, ext_size = 0x4000000, ext_free = False, ext_prot = 3, ext_flags = 0,
      ext_mtype = 0, ext_name = ''main_stack''\<rparr>], vm_gen = 2, vm_mem_size = 0x2000000000\<rparr>"
  by (simp add: ex_reserved_def ex_vm_eq vm_eval)

lemma ex_reserved_wf: "vm_wf ex_reserved"
  unfolding ex_reserved_def by (rule alloc_fixed_wf [OF ex_vm_wf])

theorem vm_alloc_fixed_sound_witness:
  "\<exists>v'. recomp_vm_alloc_fixed True True ex_reserved 0x204000 0x4000 3 0 (Some ''direct'') = (0x204000, v')
     \<and> vm_wf v'"
proof -
  obtain v' where v': "recomp_vm_alloc_fixed True True ex_reserved 0x204000 0x4000 3 0 (Some ''direct'')
      = (0x204000, v')"
    by (simp add: ex_reserved_eq vm_eval)
  have "vm_wf v'"
    using vm_alloc_fixed_sound [OF ex_reserved_wf _ v'] by simp
  with v' show ?thesis by blast
qed

text \<open>
  Mapping into a reservation ends the rest of it: every address of the reserved extent that
  the new mapping does not take becomes free (and may be handed out by the next allocation),
  where the comment above \<open>recomp_vm_unmapped_ranges\<close> says that mapping into a reservation
  \<open>splits it and renames the mapped part\<close>.
\<close>

theorem vm_fixed_ends_reservation:
  assumes "vm_wf v" and "unat sz + 4096 \<le> 2 ^ 64" and "sz \<noteq> 0"
    and "recomp_vm_alloc_fixed pre_ok True v d sz prot flags name = (r, v')" and "r \<noteq> BAD_ADDR"
    and "e \<in> set (vm_extents v)" and "ext_covers r e" and "ext_covers a e"
    and "\<not> (unat r \<le> unat a \<and> unat a < unat r + unat ((sz + 4095) AND NOT 4095))"
  shows "vm_view v' a = Free"
proof (rule alloc_fixed_view [OF assms(1,2,4,5)], goal_cases)
  case (1 e0)
  have "no_wrap (ext_addr e0) (ext_size e0)"
    using assms(1) 1(1) by (auto simp: vm_wf_def exts_wf_def ranges_ok_def)
  moreover have "0 < unat ((sz + 4095) AND NOT 4095)"
    using page_up(1) [OF assms(2)] assms(3) unat_gt_0 [of sz] by linarith
  ultimately have "ext_covers r e0"
    using 1(4,5) by (simp add: ext_covers_nat)
  then have "ext_lookup (vm_extents v) r = Some e0" "ext_lookup (vm_extents v) r = Some e"
    using assms(1,6,7) 1(1) by (auto simp: vm_wf_def exts_wf_def intro: range_lookup_unique)
  then have "e0 = e" by simp
  with 1(8) assms(8,9) show ?case by auto
qed

theorem vm_fixed_ends_reservation_witness:
  "page_reserved (vm_view ex_reserved 0x200000)
   \<and> (\<exists>v'. recomp_vm_alloc_fixed True True ex_reserved 0x204000 0x4000 3 0 (Some ''direct'') = (0x204000, v')
        \<and> vm_view v' 0x200000 = Free)"
proof -
  obtain v' where v': "recomp_vm_alloc_fixed True True ex_reserved 0x204000 0x4000 3 0 (Some ''direct'')
      = (0x204000, v')"
    by (simp add: ex_reserved_eq vm_eval)
  have "vm_view v' 0x200000 = Free"
    by (rule vm_fixed_ends_reservation [OF ex_reserved_wf _ _ v', of "vm_extents ex_reserved ! 1"])
      (simp_all add: ex_reserved_eq covers_def in_range_def)
  moreover have "page_reserved (vm_view ex_reserved 0x200000)"
    by (simp add: vm_view_def ex_reserved_eq exts_view_Cons in_range_def free_ext_def covers_def
        ext_page_def page_reserved_def)
  ultimately show ?thesis using v' by blast
qed


section \<open>Freeing\<close>

lemma vm_free_ok:
  assumes "vm_wf v" and "addr \<noteq> 0" and "sz \<noteq> 0" and "free_start addr \<le> free_end addr sz"
  shows "fst (recomp_vm_free um True True True (v, d) addr sz) = 0"
proof -
  obtain r v1 where ph: "vm_free_phase1 True True True v (free_start addr) (free_end addr sz) = (r, v1)"
    by fastforce
  note p1 = phase1_view(6,7) [OF assms(1) ph]
  from p1 consider "r = Inl 0" | rs where "r = Inr rs" by blast
  then show ?thesis using assms ph by cases (auto simp: vm_free_eq not_less)
qed

text \<open>
  C2. With memory for the bookkeeping, \<open>recomp_vm_free\<close> of any non-empty range that does not
  wrap succeeds, and its effect is exact: every mapped address of the page-widened range becomes
  free, whatever extents or holes the range spans, and every other address keeps its view with
  all its attributes. When it fails, no address changes and no direct mapping is detached.
\<close>

theorem vm_free_exact:
  assumes "vm_wf v" and "recomp_vm_free um c1 c2 c3 (v, d) addr sz = (rc, v', d')"
  shows "vm_wf v'
    \<and> (c1 \<and> c2 \<and> c3 \<and> addr \<noteq> 0 \<and> sz \<noteq> 0 \<and> free_start addr \<le> free_end addr sz \<longrightarrow> rc = 0)
    \<and> (rc = 0 \<longrightarrow> (\<forall>a. vm_view v' a =
          (if free_start addr \<le> a \<and> a < free_end addr sz then page_freed (vm_view v a) else vm_view v a)))
    \<and> (rc \<noteq> 0 \<longrightarrow> vm_view v' = vm_view v \<and> d' = d)"
proof -
  note view = vm_free_view [OF assms]
  have "rc = 0"
    if "c1 \<and> c2 \<and> c3 \<and> addr \<noteq> 0 \<and> sz \<noteq> 0 \<and> free_start addr \<le> free_end addr sz"
    using that vm_free_ok [OF assms(1), of addr sz um d] assms(2) by simp
  with view show ?thesis by (auto simp: fun_eq_iff)
qed

theorem vm_free_exact_witness:
  "\<exists>v'. recomp_vm_free (\<lambda>_ _ d. d) True True True (ex_reserved, ()) 0x204000 0x4000 = (0, v', ())
     \<and> vm_view v' 0x205000 = Free \<and> vm_view v' 0x208000 = Mapped 0 0 0 ''reserved''"
proof -
  obtain rc v' d where v': "recomp_vm_free (\<lambda>_ _ d. d) True True True (ex_reserved, ()) 0x204000 0x4000
      = (rc, v', d)"
    by (rule prod_cases3)
  note ex = vm_free_exact [OF ex_reserved_wf v']
  have se: "free_start 0x204000 = 0x204000" "free_end 0x204000 0x4000 = 0x208000"
    by (simp_all add: free_start_def free_end_def)
  have rc: "rc = 0" using ex by (simp add: se)
  have pre: "vm_view ex_reserved 0x205000 = Mapped 0 0 0 ''reserved''"
    "vm_view ex_reserved 0x208000 = Mapped 0 0 0 ''reserved''"
    by (simp_all add: vm_view_def ex_reserved_eq exts_view_Cons in_range_def free_ext_def covers_def
        ext_page_def)
  have "vm_view v' 0x205000 = Free" "vm_view v' 0x208000 = Mapped 0 0 0 ''reserved''"
    using ex rc pre by (simp_all add: se)
  moreover have "d = ()" by simp
  ultimately show ?thesis using v' rc by blast
qed

text \<open>
  Freeing what was allocated gives the address space back: after an allocation of whole
  pages and \<open>recomp_vm_free\<close> of the returned address with the same size, every guest address
  is what it was before the allocation.
\<close>

theorem vm_alloc_free_roundtrip:
  assumes "vm_wf v" and "vm_request_ok v sz 4096"
    and "recomp_vm_alloc_named pre_ok True v sz prot flags name = (r, v1)" and "r \<noteq> BAD_ADDR"
    and "recomp_vm_free um True True True (v1, d) r sz = (rc, v2, d2)" and "r \<noteq> 0" and "sz \<noteq> 0"
  shows "rc = 0 \<and> vm_wf v2 \<and> vm_view v2 = vm_view v"
proof -
  have al: "vm_eff_align 4096 = 4096" by (simp add: vm_eff_align_def)
  let ?n = "align_up sz 4096"
  note view = alloc_aligned_view [OF assms(1,2) assms(3) [unfolded recomp_vm_alloc_named_def] assms(4),
      unfolded al]
  have wf1: "vm_wf v1"
    using alloc_aligned_wf [OF assms(1,2), of pre_ok True prot flags name] assms(3)
    by (simp add: recomp_vm_alloc_named_def)
  have p2: "is_pow2 4096" by (simp add: is_pow2_def)
  have "4096 dvd unat r" using view(3) [OF p2] by simp
  then have fs: "free_start r = r" unfolding free_start_def by (rule page_aligned_down)
  have n4: "(sz + 4095) AND NOT 4095 = ?n" by (rule align_up_4096 [symmetric])
  have nw: "no_wrap r ?n" using view(4) u64_lt [of "vm_mem_size v"] vm_request_okD(2) [OF assms(2)]
    by (simp add: no_wrap_def al)
  have fe: "free_end r sz = r + ?n" unfolding free_end_def fs n4 by (rule refl)
  have in_iff: "free_start r \<le> a \<and> a < free_end r sz \<longleftrightarrow>
      unat r \<le> unat a \<and> unat a < unat r + unat ?n" for a
    unfolding fs fe using in_range_nat [OF nw, of a] by (simp add: in_range_def)
  have le: "free_start r \<le> free_end r sz"
    unfolding fs fe using unat_add_no_wrap [OF nw] by (simp add: word_le_nat_alt)
  have rc: "rc = 0"
    using vm_free_ok [OF wf1 assms(6,7) le, of um d] assms(5) by simp
  have "vm_view v2 a = vm_view v a" for a
  proof (cases "unat r \<le> unat a \<and> unat a < unat r + unat ?n")
    case True
    with view(1) obtain m where "vm_view v a = Free" "vm_view v1 a = Mapped prot flags m (name_of name)"
      unfolding vm_took_def by blast
    then show ?thesis using vm_free_view(4) [OF wf1 assms(5) rc, of a] in_iff [of a] True by simp
  next
    case False
    have "vm_view v2 a = vm_view v1 a"
      using vm_free_view(4) [OF wf1 assms(5) rc, of a] unfolding in_iff if_not_P [OF False] .
    then show ?thesis using view(2) [OF TrueI False] by simp
  qed
  then show ?thesis using rc vm_free_view(1) [OF wf1 assms(5)] by auto
qed

theorem vm_alloc_free_roundtrip_witness:
  "\<exists>v1 v2. recomp_vm_alloc_named True True ex_vm 0x5000 3 0 None = (0x100000, v1)
     \<and> recomp_vm_free (\<lambda>_ _ d. d) True True True (v1, ()) 0x100000 0x5000 = (0, v2, ())
     \<and> vm_view v2 = vm_view ex_vm"
proof -
  obtain v1 where v1: "recomp_vm_alloc_named True True ex_vm 0x5000 3 0 None = (0x100000, v1)"
    by (simp add: ex_vm_eq vm_eval recomp_vm_alloc_named_def)
  obtain rc v2 d where v2: "recomp_vm_free (\<lambda>_ _ d. d) True True True (v1, ()) 0x100000 0x5000 = (rc, v2, d)"
    by (rule prod_cases3)
  have "rc = 0 \<and> vm_wf v2 \<and> vm_view v2 = vm_view ex_vm"
    by (rule vm_alloc_free_roundtrip [OF ex_vm_wf _ v1 _ v2]) (simp_all add: ex_vm_eq vm_eval)
  moreover have "d = ()" by simp
  ultimately show ?thesis using v1 v2 by blast
qed

section \<open>The unmapped ranges and the lookup\<close>

text \<open>
  \<open>recomp_vm_unmapped_ranges\<close> is exact: when the buffer is large enough, an address is in
  one of the ranges it writes exactly when its page is free or a reservation nothing was mapped
  into, whatever the order of the extent list.
\<close>

theorem vm_unmapped_ranges_exact:
  assumes "vm_wf v" and "recomp_vm_unmapped_ranges v k = (n, gen, out)" and "n \<le> k"
  shows "length out = n \<and> gen = vm_gen v
    \<and> ((\<exists>r \<in> set out. in_span a r) \<longleftrightarrow>
         vm_view v a = Free \<or> (\<exists>p f m. vm_view v a = Mapped p f m ''reserved''))"
proof -
  have out: "out = unmapped_scan (vm_extents v) None" "n = length out" "gen = vm_gen v"
    using assms(2,3) by (auto simp: recomp_vm_unmapped_ranges_def Let_def)
  have ok: "ranges_ok ext_addr ext_size (vm_extents v)"
    using assms(1) by (simp add: vm_wf_def exts_wf_def)
  then have nw: "\<forall>e \<in> set (vm_extents v). no_wrap (ext_addr e) (ext_size e)"
    by (simp add: ranges_ok_def)
  have "(\<exists>r \<in> set out. in_span a r) \<longleftrightarrow> addr_unmapped (vm_extents v) a"
    using unmapped_scan_spans [OF nw, of None a] out(1) by simp
  also have "\<dots> \<longleftrightarrow> vm_view v a = Free \<or> (\<exists>p f m. vm_view v a = Mapped p f m ''reserved'')"
  proof (cases "ext_lookup (vm_extents v) a")
    case None
    then have "\<forall>e \<in> set (vm_extents v). \<not> ext_covers a e" by (simp only: range_lookup_None_iff)
    with None show ?thesis by (auto simp: addr_unmapped_def vm_view_def exts_view_def)
  next
    case (Some e)
    have "e' = e" if "e' \<in> set (vm_extents v)" "ext_covers a e'" for e'
      using range_lookup_unique [OF ok that] Some by simp
    then have "addr_unmapped (vm_extents v) a \<longleftrightarrow> vm_extent_unmapped e"
      using range_lookup_SomeD [OF Some] by (auto simp: addr_unmapped_def)
    with Some show ?thesis
      by (simp add: vm_view_def exts_view_def ext_page_def vm_extent_unmapped_def)
  qed
  finally show ?thesis using out by simp
qed

theorem vm_unmapped_ranges_exact_witness:
  "\<exists>out. recomp_vm_unmapped_ranges ex_reserved 64 = (2, 2, out) \<and> (\<exists>r \<in> set out. in_span 0x204000 r)
     \<and> \<not> (\<exists>r \<in> set out. in_span 0x7fc000000 r)"
proof -
  obtain out where out: "recomp_vm_unmapped_ranges ex_reserved 64 = (2, 2, out)"
    by (simp add: recomp_vm_unmapped_ranges_def ex_reserved_eq vm_extent_unmapped_def free_ext_def)
  have view: "vm_view ex_reserved 0x204000 = Mapped 0 0 0 ''reserved''"
    "vm_view ex_reserved 0x7fc000000 = Mapped 3 0 0 ''main_stack''"
    by (simp_all add: vm_view_def ex_reserved_eq exts_view_Cons in_range_def free_ext_def covers_def
        ext_page_def)
  have "\<exists>r \<in> set out. in_span 0x204000 r" "\<not> (\<exists>r \<in> set out. in_span 0x7fc000000 r)"
    using vm_unmapped_ranges_exact [OF ex_reserved_wf out, of "0x204000"]
      vm_unmapped_ranges_exact [OF ex_reserved_wf out, of "0x7fc000000"] view by simp_all
  with out show ?thesis by blast
qed



text \<open>
  The two locked halves of \<open>recomp_vm_free\<close> are not atomic together: when a reservation
  is freed and another thread maps into it by address between the halves, the second half marks
  that thread's new mapping free. The comment says nobody can take the range in between, because
  it is still allocated; \<open>recomp_vm_alloc_fixed\<close> takes reserved extents.
\<close>

theorem vm_free_race_frees_new_mapping:
  "\<exists>ranges v1 v2. vm_free_phase1 True True True ex_reserved 0x200000 0x210000 = (Inr ranges, v1)
     \<and> recomp_vm_alloc_fixed True True v1 0x204000 0x4000 3 0 (Some ''direct'') = (0x204000, v2)
     \<and> vm_view v2 0x204000 = Mapped 3 0 0 ''direct''
     \<and> vm_view (vm_free_phase3 v2 0x200000 0x210000 ranges) 0x204000 = Free"
proof -
  have p1: "vm_free_phase1 True True True ex_reserved 0x200000 0x210000
      = (Inr [(0x200000, 0x10000)], ex_reserved)"
  proof -
    have "vm_split_list True 0x200000 (vm_extents ex_reserved) = (True, vm_extents ex_reserved)"
      "vm_split_list True 0x210000 (vm_extents ex_reserved) = (True, vm_extents ex_reserved)"
      by (simp_all add: ex_reserved_eq free_ext_def)
    then have "recomp_vm_split_extent_at True ex_reserved 0x200000 = (True, ex_reserved)"
      "recomp_vm_split_extent_at True ex_reserved 0x210000 = (True, ex_reserved)"
      by (simp_all add: recomp_vm_split_extent_at_def)
    moreover have "filter (vm_free_inside 0x200000 0x210000) (vm_extents ex_reserved)
        = [vm_extents ex_reserved ! 1]"
      by (simp add: ex_reserved_eq free_ext_def vm_free_inside_def)
    ultimately show ?thesis
      by (simp add: vm_free_phase1_def) (simp add: ex_reserved_eq)
  qed
  define v2 where
    "v2 = snd (recomp_vm_alloc_fixed True True ex_reserved 0x204000 0x4000 3 0 (Some ''direct''))"
  have v2: "recomp_vm_alloc_fixed True True ex_reserved 0x204000 0x4000 3 0 (Some ''direct'')
      = (0x204000, v2)"
    by (simp add: v2_def ex_reserved_eq vm_eval)
  have es: "vm_extents v2 = [free_ext 0x100000 0x100000, free_ext 0x200000 0x4000,
      \<lparr>ext_addr = 0x204000, ext_size = 0x4000, ext_free = False, ext_prot = 3, ext_flags = 0,
       ext_mtype = 0, ext_name = ''direct''\<rparr>, free_ext 0x208000 0x8000,
     free_ext 0x210000 0x7fbdf0000, free_ext 0x1000000000 0x1000000000,
     \<lparr>ext_addr = 0x7fc000000, ext_size = 0x4000000, ext_free = False, ext_prot = 3, ext_flags = 0,
      ext_mtype = 0, ext_name = ''main_stack''\<rparr>]"
    by (simp add: v2_def ex_reserved_eq vm_eval)
  have "vm_view v2 0x204000 = Mapped 3 0 0 ''direct''"
    by (simp add: vm_view_def es exts_view_Cons in_range_def free_ext_def covers_def ext_page_def)
  moreover have "vm_view (vm_free_phase3 v2 0x200000 0x210000 [(0x200000, 0x10000)]) 0x204000 = Free"
    by (simp add: vm_view_def vm_free_phase3_def es vm_coalesce_free_def vm_mark_free_def exts_view_Cons
        in_range_def free_ext_def covers_def ext_page_def)
  ultimately show ?thesis using p1 v2 by blast
qed

end
