(* ===== verification/MemView.thy ===== *)
theory MemView
  imports MemApi VmProps
begin

unbundle bit_operations_syntax

text \<open>
  What the mapping calls rely on and what they promise. The locale \<open>vm_mapper\<close> states the
  contract of the two allocation calls of the virtual memory manager as the mapping calls use
  them; its client lemma is about the sequence \<open>fixed_or_any\<close>. The interpretation discharges
  the contract for the allocator of \<open>core/recomp_runtime.c\<close>.
\<close>

section \<open>The contract of the allocator\<close>

definition live :: "page \<Rightarrow> bool" where
  "live p \<longleftrightarrow> (case p of Mapped _ _ _ nm \<Rightarrow> \<not> strstr nm ''reserved'' | _ \<Rightarrow> False)"

text \<open>
  The range from \<open>r\<close> was free or reserved and is now mapped as asked, and every page of a live
  mapping (one that is not a reservation) is as before.
\<close>

definition map_effect ::
    "(u64 \<Rightarrow> page) \<Rightarrow> (u64 \<Rightarrow> page) \<Rightarrow> u64 \<Rightarrow> nat \<Rightarrow> i32 \<Rightarrow> i32 \<Rightarrow> string \<Rightarrow> bool" where
  "map_effect V V' r len prot flags nm \<longleftrightarrow>
     (\<forall>a. unat r \<le> unat a \<and> unat a < unat r + len \<longrightarrow>
        (V a = Free \<or> page_reserved (V a)) \<and> (\<exists>m. V' a = Mapped prot flags m nm))
     \<and> (\<forall>a. live (V a) \<longrightarrow> V' a = V a)"

locale vm_mapper =
  fixes inv :: "'s \<Rightarrow> bool" and view :: "'s \<Rightarrow> u64 \<Rightarrow> page"
    and fixed :: "'s \<Rightarrow> u64 \<Rightarrow> u64 \<times> 's" and any :: "'s \<Rightarrow> u64 \<times> 's"
    and len :: nat and prot :: i32 and flags :: i32 and nm :: string
  assumes fixed_fails: "inv s \<Longrightarrow> fixed s a = (BAD_ADDR, s') \<Longrightarrow> s' = s"
    and fixed_maps: "inv s \<Longrightarrow> fixed s a = (r, s') \<Longrightarrow> r \<noteq> BAD_ADDR \<Longrightarrow>
      inv s' \<and> map_effect (view s) (view s') r len prot flags nm"
    and any_fails: "inv s \<Longrightarrow> any s = (BAD_ADDR, s') \<Longrightarrow> s' = s"
    and any_maps: "inv s \<Longrightarrow> any s = (r, s') \<Longrightarrow> r \<noteq> BAD_ADDR \<Longrightarrow>
      inv s' \<and> map_effect (view s) (view s') r len prot flags nm"
begin

lemma request_fails:
  assumes "inv s" and "fixed_or_any fixed any s req = (BAD_ADDR, s')"
  shows "s' = s"
proof -
  obtain v s1 where f: "(if req \<noteq> 0 then fixed s req else (BAD_ADDR, s)) = (v, s1)" by fastforce
  with assms(2) have v: "v = BAD_ADDR" "any s1 = (BAD_ADDR, s')"
    by (auto simp: fixed_or_any_def split: if_splits)
  with f assms(1) have "s1 = s" by (auto split: if_splits dest: fixed_fails)
  with v(2) assms(1) show ?thesis by (auto dest: any_fails)
qed

lemma request_maps:
  assumes "inv s" and "fixed_or_any fixed any s req = (r, s')" and "r \<noteq> BAD_ADDR"
  shows "inv s' \<and> map_effect (view s) (view s') r len prot flags nm"
proof -
  obtain v s1 where f: "(if req \<noteq> 0 then fixed s req else (BAD_ADDR, s)) = (v, s1)" by fastforce
  show ?thesis
  proof (cases "v = BAD_ADDR")
    case True
    with f assms(1) have s1: "s1 = s" by (auto split: if_splits dest: fixed_fails)
    with assms(2) f True have "any s = (r, s')" by (auto simp: fixed_or_any_def split: if_splits)
    from any_maps [OF assms(1) this assms(3)] show ?thesis .
  next
    case False
    with f have "fixed s req = (v, s1)" by (auto split: if_splits)
    moreover have "r = v" "s' = s1" using assms(2) f False by (auto simp: fixed_or_any_def split: if_splits)
    ultimately show ?thesis using fixed_maps [OF assms(1)] False by blast
  qed
qed

lemma request_keeps_inv:
  assumes "inv s"
  shows "inv (snd (fixed_or_any fixed any s req))"
proof -
  obtain r s' where e: "fixed_or_any fixed any s req = (r, s')" by fastforce
  then show ?thesis
    using assms request_fails [OF assms] request_maps [OF assms e] by (cases "r = BAD_ADDR") auto
qed

end

section \<open>The allocator fulfils it\<close>

lemma alloc_fixed_mem_size:
  "vm_mem_size (snd (recomp_vm_alloc_fixed c1 c2 v d sz prot flags name)) = vm_mem_size v"
  by (simp add: recomp_vm_alloc_fixed_def Let_def split: option.splits)

lemma alloc_fixed_bad:
  assumes "recomp_vm_alloc_fixed c1 c2 v d sz prot flags name = (BAD_ADDR, v')"
  shows "v' = v"
proof -
  have "d AND NOT 4095 \<noteq> BAD_ADDR"
  proof
    assume "d AND NOT 4095 = BAD_ADDR"
    then have "bit (d AND NOT 4095) 0 = bit BAD_ADDR 0" by simp
    then show False by (simp add: bit_and_iff bit_not_iff)
  qed
  with assms show ?thesis
    by (auto simp: recomp_vm_alloc_fixed_def Let_def split: if_splits option.splits)
qed

lemma strncpy_name_short: "length s < 32 \<Longrightarrow> strncpy_name 32 s = s"
  by (simp add: strncpy_name_def)

definition vm_inv :: "u64 \<Rightarrow> u64 \<Rightarrow> vm \<Rightarrow> bool" where
  "vm_inv len al v \<longleftrightarrow> vm_wf v \<and> vm_request_ok v len al \<and> len \<noteq> 0"

lemma vm_inv_carry:
  "vm_inv len al v \<Longrightarrow> vm_wf v' \<Longrightarrow> vm_mem_size v' = vm_mem_size v \<Longrightarrow> vm_inv len al v'"
  by (simp add: vm_inv_def vm_request_ok_def)

lemma map_effect_shorter:
  "map_effect V V' r n prot flags nm \<Longrightarrow> m \<le> n \<Longrightarrow> map_effect V V' r m prot flags nm"
  by (fastforce simp: map_effect_def)

lemma fixed_map_effect:
  assumes "vm_inv len al v" and "recomp_vm_alloc_fixed c1 c2 v d len prot flags (Some nm) = (r, v')"
    and "r \<noteq> BAD_ADDR"
  shows "vm_inv len al v' \<and> map_effect (vm_view v) (vm_view v') r (unat len) prot flags (strncpy_name 32 nm)"
proof -
  have wf: "vm_wf v" and len: "unat len + 4096 \<le> 2 ^ 64"
  proof -
    show "vm_wf v" using assms(1) by (simp add: vm_inv_def)
    have "4096 \<le> unat (vm_eff_align al)"
      by (auto simp: vm_eff_align_def word_less_nat_alt)
    moreover have "unat len + 2 * unat (vm_eff_align al) \<le> 2 ^ 64"
      using assms(1) unfolding vm_inv_def vm_request_ok_def by linarith
    ultimately show "unat len + 4096 \<le> 2 ^ 64" by linarith
  qed
  have carry: "vm_inv len al v'"
    using alloc_fixed_mem_size [of c1 c2 v d len prot flags "Some nm"] assms(2)
      alloc_fixed_wf [OF wf, of c1 c2 d len prot flags "Some nm"] by (intro vm_inv_carry [OF assms(1)]) simp_all
  show ?thesis
  proof (rule alloc_fixed_view [OF wf len assms(2,3)], goal_cases)
    case (1 e)
    let ?n = "(len + 4095) AND NOT 4095"
    have ln: "unat len \<le> unat ?n" by (rule page_up(1) [OF len])
    have nw: "no_wrap (ext_addr e) (ext_size e)"
      using wf 1(1) by (auto simp: vm_wf_def exts_wf_def ranges_ok_def)
    have pg: "ext_page e = Free \<or> page_reserved (ext_page e)" "\<not> live (ext_page e)"
      using 1(2) by (auto simp: ext_page_def page_reserved_def live_def)
    have "map_effect (vm_view v) (vm_view v') r (unat len) prot flags (strncpy_name 32 nm)"
      unfolding map_effect_def
    proof (intro conjI allI impI)
      fix a :: u64 assume a: "unat r \<le> unat a \<and> unat a < unat r + unat len"
      then have c: "ext_covers a e" using 1(4,5) ln by (simp add: ext_covers_nat [OF nw])
      show "vm_view v a = Free \<or> page_reserved (vm_view v a)" using 1(7) [OF c] pg by simp
      show "\<exists>m. vm_view v' a = Mapped prot flags m (strncpy_name 32 nm)"
        using 1(8) [of a] c a ln by (simp add: name_of_def)
    next
      fix a :: u64 assume l: "live (vm_view v a)"
      then have "\<not> ext_covers a e" using 1(7) [of a] pg by auto
      then show "vm_view v' a = vm_view v a" using 1(8) [of a] by simp
    qed
    with carry show ?case by blast
  qed
qed

lemma any_map_effect:
  assumes "vm_inv len al v"
    and "recomp_vm_alloc_named_aligned c1 c2 v len al prot flags (Some nm) = (r, v')" and "r \<noteq> BAD_ADDR"
  shows "vm_inv len al v' \<and> map_effect (vm_view v) (vm_view v') r (unat len) prot flags (strncpy_name 32 nm)"
proof -
  have wf: "vm_wf v" "vm_request_ok v len al" using assms(1) by (simp_all add: vm_inv_def)
  have took: "vm_took v v' r (align_up len (vm_eff_align al)) prot flags (name_of (Some nm))"
    by (rule alloc_aligned_view(1) [OF wf assms(2,3)])
  have ln: "unat len \<le> unat (align_up len (vm_eff_align al))" by (rule vm_request_okD(1) [OF wf(2)])
  have "map_effect (vm_view v) (vm_view v') r (unat len) prot flags (strncpy_name 32 nm)"
    unfolding map_effect_def
  proof (intro conjI allI impI)
    fix a :: u64 assume "unat r \<le> unat a \<and> unat a < unat r + unat len"
    with ln have "unat r \<le> unat a \<and> unat a < unat r + unat (align_up len (vm_eff_align al))" by simp
    with took have "vm_view v a = Free \<and> (\<exists>m. vm_view v' a = Mapped prot flags m (name_of (Some nm)))"
      unfolding vm_took_def by blast
    then show "vm_view v a = Free \<or> page_reserved (vm_view v a)"
      and "\<exists>m. vm_view v' a = Mapped prot flags m (strncpy_name 32 nm)"
      by (simp_all add: name_of_def)
  next
    fix a :: u64 assume "live (vm_view v a)"
    then have "vm_view v a \<noteq> Free" by (auto simp: live_def)
    with took show "vm_view v' a = vm_view v a" unfolding vm_took_def by blast
  qed
  moreover have "vm_inv len al v'"
    using alloc_aligned_mem_size [of c1 c2 v len al prot flags "Some nm"] assms(2)
      alloc_aligned_wf [OF wf, of c1 c2 prot flags "Some nm"] by (intro vm_inv_carry [OF assms(1)]) simp_all
  ultimately show ?thesis by blast
qed

lemma any_bad:
  assumes "vm_inv len al v" and "recomp_vm_alloc_named_aligned c1 c2 v len al prot flags name = (BAD_ADDR, v')"
  shows "v' = v"
proof (cases "vm_best v len al flags name")
  case None
  with assms(2) show ?thesis by (simp add: alloc_aligned_eq split: if_splits)
next
  case (Some b)
  obtain i s at where b: "b = (i, s, at)" by (cases b)
  note best = vm_best_SomeD [OF Some [unfolded b]]
  have wf: "vm_wf v" "vm_request_ok v len al" "len \<noteq> 0" using assms(1) by (simp_all add: vm_inv_def)
  note rng = alloc_aligned_range [OF wf(1,2) best(1,3,2)]
  have "0 < unat len" using wf(3) by (simp add: unat_gt_0)
  then have "at \<noteq> BAD_ADDR"
    using rng(2,3,4) by (auto simp: no_wrap_def unsigned_minus_1_eq_mask mask_eq_exp_minus_1)
  with assms(2) Some b show ?thesis by (auto simp: alloc_aligned_eq split: if_splits)
qed

interpretation vmm: vm_mapper "vm_inv len al" vm_view
  "\<lambda>s a. recomp_vm_alloc_fixed c1 c2 s a len prot flags (Some nm)"
  "\<lambda>s. recomp_vm_alloc_named_aligned c3 c4 s len al prot flags (Some nm)"
  "unat len" prot flags "strncpy_name 32 nm"
  for len al c1 c2 c3 c4 prot flags nm
  by unfold_locales (blast dest: alloc_fixed_bad fixed_map_effect any_bad any_map_effect)+

lemma vm_fixed_or_any_maps:
  assumes "vm_inv len al v" and "vm_fixed_or_any h v req len al prot flags nm = (r, v')"
  shows "r = BAD_ADDR \<Longrightarrow> v' = v"
    and "r \<noteq> BAD_ADDR \<Longrightarrow> vm_inv len al v'
      \<and> map_effect (vm_view v) (vm_view v') r (unat len) prot flags (strncpy_name 32 nm)"
  using vmm.request_fails [OF assms(1)] vmm.request_maps [OF assms(1)] assms(2)
  unfolding vm_fixed_or_any_def by blast+

end
