(* ===== verification/MemProps.thy ===== *)
theory MemProps
  imports MemView
begin

unbundle bit_operations_syntax

text \<open>
  The properties of the mapping calls: what a direct mapping makes of the address space and of
  the translation to physical memory, what unmapping undoes, what the protection calls change,
  and the prefix semantics of the batch call.
\<close>

section \<open>Updating the attributes of extents\<close>

lemma map_ext_view:
  assumes "\<And>e. ext_addr (f e) = ext_addr e" and "\<And>e. ext_size (f e) = ext_size e"
  shows "exts_wf lim (map f es) = exts_wf lim es" and "ext_lookup (map f es) a = map_option f (ext_lookup es a)"
proof -
  have cov: "ext_covers x (f e) = ext_covers x e" for x e by (simp add: covers_def assms)
  show "ext_lookup (map f es) a = map_option f (ext_lookup es a)"
    by (induction es) (simp_all add: range_lookup_Cons cov)
  show "exts_wf lim (map f es) = exts_wf lim es"
    by (induction es) (auto simp: exts_wf_def ranges_ok_Cons apart_def cov ext_within_def assms)
qed

lemma overlap_covered:
  assumes nw: "no_wrap (ext_addr e) (ext_size e)" and c: "ext_covers a e" and f: "\<not> ext_free e"
    and a: "s \<le> a" "a < t"
  shows "ext_overlaps s t e"
proof -
  have "unat (ext_addr e + ext_size e) = unat (ext_addr e) + unat (ext_size e)"
    by (rule unat_add_no_wrap [OF nw])
  then show ?thesis
    using f a ext_covers_nat [OF nw, of a] c
    by (auto simp: ext_overlaps_def word_less_nat_alt word_le_nat_alt)
qed

section \<open>Unmapping\<close>

lemma inside_ranges_cover:
  assumes wf: "exts_wf lim es" and ns: "no_straddle s es" "no_straddle t es"
  shows "(\<exists>r \<in> set (map (\<lambda>e. (ext_addr e, ext_size e)) (filter (vm_free_inside s t) es)).
      in_range (fst r) (snd r) a)
    \<longleftrightarrow> s \<le> a \<and> a < t \<and> (\<exists>p f m n. exts_view es a = Mapped p f m n)"
proof -
  have nw: "no_wrap (ext_addr e) (ext_size e)" if "e \<in> set es" for e
    using wf that by (auto simp: exts_wf_def ranges_ok_def)
  have look: "ext_lookup es a = Some e" if "e \<in> set es" "ext_covers a e" for e
    using range_lookup_unique [of ext_addr ext_size es e a] wf that by (simp add: exts_wf_def)
  have "(\<exists>r \<in> set (map (\<lambda>e. (ext_addr e, ext_size e)) (filter (vm_free_inside s t) es)).
      in_range (fst r) (snd r) a) \<longleftrightarrow> (\<exists>e \<in> set es. vm_free_inside s t e \<and> ext_covers a e)"
    by (auto simp: covers_def)
  also have "\<dots> \<longleftrightarrow> (\<exists>e \<in> set es. \<not> ext_free e \<and> ext_covers a e) \<and> s \<le> a \<and> a < t"
    using inside_iff [OF nw ns] by (auto simp: vm_free_inside_def)
  also have "\<dots> \<longleftrightarrow> s \<le> a \<and> a < t \<and> (\<exists>p f m n. exts_view es a = Mapped p f m n)"
  proof (cases "ext_lookup es a")
    case None
    then have "\<forall>e \<in> set es. \<not> ext_covers a e" by (simp only: range_lookup_None_iff)
    with None show ?thesis by (simp add: exts_view_def)
  next
    case (Some e)
    from range_lookup_SomeD [OF this] have e: "e \<in> set es" "ext_covers a e" by auto
    have "e' = e" if "e' \<in> set es" "ext_covers a e'" for e' using look [OF that] Some by simp
    with e have "(\<exists>e \<in> set es. \<not> ext_free e \<and> ext_covers a e) \<longleftrightarrow> \<not> ext_free e" by blast
    moreover have "(\<exists>p f m n. exts_view es a = Mapped p f m n) \<longleftrightarrow> \<not> ext_free e"
      using Some by (simp add: exts_view_def ext_page_def)
    ultimately show ?thesis by blast
  qed
  finally show ?thesis .
qed

lemma km_free_view:
  assumes wf: "vm_wf (km_vm k)" and ok: "maps_ok (ds_maps (km_ds k))" and h: "h_tail h"
    and res: "km_free h k addr sz = (0, k')"
  shows "vm_wf (km_vm k') \<and> maps_ok (ds_maps (km_ds k'))
    \<and> vm_view (km_vm k') a =
        (if free_start addr \<le> a \<and> a < free_end addr sz then page_freed (vm_view (km_vm k) a)
         else vm_view (km_vm k) a)
    \<and> dm_translate (km_ds k') a =
        (if free_start addr \<le> a \<and> a < free_end addr sz \<and> (\<exists>p f m n. vm_view (km_vm k) a = Mapped p f m n)
         then None else dm_translate (km_ds k) a)
    \<and> ds_blocks (km_ds k') = ds_blocks (km_ds k)"
proof -
  let ?s = "free_start addr" and ?t = "free_end addr sz" and ?um = "ps4_direct_mem_on_unmap (h_tail h)"
  obtain v d where vd: "recomp_vm_free ?um (h_split1 h) (h_split2 h) (h_malloc h) (km_vm k, km_ds k) addr sz
      = (0, v, d)" and k': "k' = \<lparr>km_vm = v, km_ds = d\<rparr>"
    using res by (auto simp: km_free_def split: prod.splits)
  note view = vm_free_view [OF wf vd]
  obtain r v1 where ph: "vm_free_phase1 (h_split1 h) (h_split2 h) (h_malloc h) (km_vm k) ?s ?t = (r, v1)"
    by fastforce
  note p1 = phase1_view [OF wf ph]
  have bad: "\<not> (addr = 0 \<or> sz = 0 \<or> ?t < ?s)" "r \<noteq> Inl (-1)"
    using vd ph by (auto simp: vm_free_eq split: if_splits)
  with p1(6) consider "r = Inl 0" | rs where "r = Inr rs" by blast
  then have "maps_ok (ds_maps d) \<and> ds_blocks d = ds_blocks (km_ds k)
      \<and> dm_translate d a = (if ?s \<le> a \<and> a < ?t \<and> (\<exists>p f m n. vm_view (km_vm k) a = Mapped p f m n)
         then None else dm_translate (km_ds k) a)"
  proof cases
    assume r: "r = Inl 0"
    then have d: "d = km_ds k" using vd ph bad by (auto simp: vm_free_eq)
    have e1: "exts_wf (vm_mem_size v1) (vm_extents v1)" using p1(1) by (simp add: vm_wf_def)
    have "\<not> (?s \<le> a \<and> a < ?t \<and> (\<exists>p f m n. exts_view (vm_extents v1) a = Mapped p f m n))"
      using inside_ranges_cover [OF e1, of ?s ?t a] p1(5) [OF r] by auto
    then show ?thesis using d ok p1(2) [of a] by (auto simp: vm_view_def)
  next
    fix rs assume r: "r = Inr rs"
    then have d: "d = fold (\<lambda>r. ?um (fst r) (snd r)) rs (km_ds k)"
      using vd ph bad by (auto simp: vm_free_eq)
    have e1: "exts_wf (vm_mem_size v1) (vm_extents v1)" using p1(1) by (simp add: vm_wf_def)
    have rs: "no_straddle ?s (vm_extents v1)" "no_straddle ?t (vm_extents v1)"
      "rs = map (\<lambda>e. (ext_addr e, ext_size e)) (filter (vm_free_inside ?s ?t) (vm_extents v1))"
      using p1(4) [OF r] by auto
    have nw: "\<forall>r \<in> set rs. no_wrap (fst r) (snd r)"
      using e1 rs(3) by (auto simp: exts_wf_def ranges_ok_def)
    have blocks: "ds_blocks (fold (\<lambda>r. ?um (fst r) (snd r)) rs x) = ds_blocks x" for x
      by (induction rs arbitrary: x) simp_all
    show ?thesis
      using fold_unmap_view(1) [OF ok nw, of "h_tail h"] fold_unmap_view(2) [OF ok nw, of a]
        inside_ranges_cover [OF e1 rs(1,2), of a] p1(2) [of a] h rs(3) blocks [of "km_ds k"]
      by (simp add: d vm_view_def)
  qed
  with view k' show ?thesis by simp
qed

section \<open>Mapping\<close>

text \<open>The lemma behind the map calls that only touch the virtual memory manager.\<close>

lemma map_flexible_view:
  assumes "vm_inv (align_up len 65536) 65536 (km_vm k)" and "len \<noteq> 0" and "unat len + 65536 \<le> 2 ^ 64"
    and "sceKernelMapNamedFlexibleMemory h k (Some req) len prot flags (Some nm) = (Inr va, k')"
    and "nm \<noteq> []"
  shows "map_effect (vm_view (km_vm k)) (vm_view (km_vm k')) va (unat len) prot flags (strncpy_name 32 nm)
    \<and> vm_wf (km_vm k') \<and> km_ds k' = km_ds k"
proof -
  obtain v1 where v1: "vm_fixed_or_any h (km_vm k) req (align_up len 65536) 65536 prot flags nm = (va, v1)"
    "va \<noteq> BAD_ADDR" "k' = k\<lparr>km_vm := v1\<rparr>"
    using assms(2,4,5)
    by (auto simp: sceKernelMapNamedFlexibleMemory_def Let_def split: prod.splits if_splits)
  have "unat len \<le> unat (align_up len 65536)"
    using align_up_bounds(1) [of 65536 len] assms(3) by simp
  with vm_fixed_or_any_maps(2) [OF assms(1) v1(1,2)] v1(3) show ?thesis
    by (auto simp: vm_inv_def intro: map_effect_shorter)
qed

lemma map_direct_steps:
  assumes "sceKernelMapDirectMemory h env k (Some req) len prot flags pa al = (Inr va, k')"
  obtains i v1 where "len \<noteq> 0" and "va \<noteq> BAD_ADDR"
    and "dm_find_block (dm_map_hit pa len) 0 (ds_blocks (snd (ps4_direct_mem_init (h_init h) env (km_ds k)))) = Some i"
    and "vm_fixed_or_any h (km_vm k) req (align_up len (if al = 0 then 4096 else al))
       (if al = 0 then 4096 else al) prot flags ''direct_mem'' = (va, v1)"
    and "km_vm k' = v1"
    and "km_ds k' = (let d1 = snd (ps4_direct_mem_init (h_init h) env (km_ds k)) in
       snd (dm_alias (h_remap h) (h_rec h) (vm_mem_size v1)
         (d1\<lparr>ds_blocks := (ds_blocks d1)[i := (ds_blocks d1 ! i)\<lparr>blk_vaddr := va\<rparr>]\<rparr>) va pa
         ((len + 0x3fff) AND NOT 0x3fff)))"
  using assms
  by (auto simp: sceKernelMapDirectMemory_def Let_def split: if_splits option.splits prod.splits)


text \<open>A concrete kernel state: the virtual memory and direct memory states of the other examples.\<close>

definition ex_km :: kmem where
  "ex_km = \<lparr>km_vm = ex_vm, km_ds = ex_ds\<rparr>"

lemmas km_eval = ex_km_def ex_ds_def ex_vm_eq vm_eval ps4_direct_mem_init_def dm_map_hit_def dm_alias_def
  vm_fixed_or_any_def fixed_or_any_def sceKernelMapDirectMemory_def host_ok_def


text \<open>
  A direct mapping whose length is not a multiple of 16 KB aliases more than it maps: with
  the default alignment the extent has the length rounded to 4 KB, the alias the length rounded
  to 16 KB. The tail of the alias covers guest addresses that belong to no mapping, and
  \<open>munmap\<close> of the mapping leaves it attached to physical memory.
\<close>

theorem map_direct_alias_past_extent:
  "\<exists>k1 k2. sceKernelMapDirectMemory host_ok ex_env ex_km (Some 0x200000) 0x1000 3 0 0 0 = (Inr 0x200000, k1)
     \<and> vm_view (km_vm k1) 0x201000 = Free \<and> dm_translate (km_ds k1) 0x201000 = Some 0x1000
     \<and> km_free host_ok k1 0x200000 0x1000 = (0, k2) \<and> dm_translate (km_ds k2) 0x201000 = Some 0x1000"
proof -
  define k1 where "k1 = snd (sceKernelMapDirectMemory host_ok ex_env ex_km (Some 0x200000) 0x1000 3 0 0 0)"
  have m: "sceKernelMapDirectMemory host_ok ex_env ex_km (Some 0x200000) 0x1000 3 0 0 0 = (Inr 0x200000, k1)"
    by (simp add: k1_def km_eval)
  have maps: "ds_maps (km_ds k1) = [\<lparr>dm_vaddr = 0x200000, dm_size = 0x4000, dm_phys = 0\<rparr>]"
    by (simp add: k1_def km_eval)
  have es: "vm_extents (km_vm k1) = [free_ext 0x100000 0x100000,
      \<lparr>ext_addr = 0x200000, ext_size = 0x1000, ext_free = False, ext_prot = 3, ext_flags = 0,
       ext_mtype = 0, ext_name = ''direct_mem''\<rparr>, free_ext 0x201000 0x7fbdff000,
     free_ext 0x1000000000 0x1000000000,
     \<lparr>ext_addr = 0x7fc000000, ext_size = 0x4000000, ext_free = False, ext_prot = 3, ext_flags = 0,
      ext_mtype = 0, ext_name = ''main_stack''\<rparr>]"
    by (simp add: k1_def km_eval)
  have v: "vm_view (km_vm k1) 0x201000 = Free"
    by (simp add: vm_view_def es exts_view_Cons in_range_def free_ext_def covers_def ext_page_def)
  have t: "dm_translate (km_ds k1) 0x201000 = Some 0x1000"
    by (simp add: dm_translate_maps maps maps_translate_Cons in_range_def)
  have wf: "vm_wf (km_vm k1)"
    using alloc_fixed_wf [OF ex_vm_wf, of True True "0x200000" "0x1000" 3 0 "Some ''direct_mem''"]
    by (simp add: k1_def km_eval)
  obtain rc k2 where f: "km_free host_ok k1 0x200000 0x1000 = (rc, k2)" by fastforce
  have se: "free_start 0x200000 = 0x200000" "free_end 0x200000 0x1000 = 0x201000"
    by (simp_all add: free_start_def free_end_def)
  have rc: "rc = 0"
    using f vm_free_ok [OF wf, of "0x200000" "0x1000" "ps4_direct_mem_on_unmap True" "km_ds k1"]
    by (auto simp: km_free_def host_ok_def se split: prod.splits)
  have "maps_ok (ds_maps (km_ds k1))" by (simp add: maps maps_ok_def no_wrap_def)
  from km_free_view [OF wf this _ f [unfolded rc], of "0x201000"]
  have "dm_translate (km_ds k2) 0x201000 = Some 0x1000" by (simp add: host_ok_def se t)
  with m v t f rc show ?thesis by blast
qed

text \<open>
  \<open>munmap\<close> undoes both halves of a direct mapping: when it succeeds, the mapped addresses of
  the page-widened range become free and exactly those no longer translate to physical memory;
  other addresses keep their page and their translation, and physical memory stays allocated.
\<close>

theorem munmap_detaches_exactly:
  assumes "vm_wf (km_vm k)" and "maps_ok (ds_maps (km_ds k))" and "h_tail h"
    and "km_free h k addr sz = (0, k')"
  shows "vm_view (km_vm k') a =
        (if free_start addr \<le> a \<and> a < free_end addr sz then page_freed (vm_view (km_vm k) a)
         else vm_view (km_vm k) a)
    \<and> dm_translate (km_ds k') a =
        (if free_start addr \<le> a \<and> a < free_end addr sz \<and> (\<exists>p f m n. vm_view (km_vm k) a = Mapped p f m n)
         then None else dm_translate (km_ds k) a)
    \<and> ds_blocks (km_ds k') = ds_blocks (km_ds k) \<and> vm_wf (km_vm k') \<and> maps_ok (ds_maps (km_ds k'))"
  using km_free_view [OF assms, of a] by blast

theorem munmap_detaches_exactly_witness:
  "\<exists>k2. km_free host_ok
       \<lparr>km_vm = ex_reserved, km_ds = ex_ds\<lparr>ds_maps := [\<lparr>dm_vaddr = 0x200000, dm_size = 0x8000, dm_phys = 0\<rparr>]\<rparr>\<rparr>
       0x200000 0x4000 = (0, k2)
     \<and> dm_translate (km_ds k2) 0x200000 = None \<and> dm_translate (km_ds k2) 0x204000 = Some 0x4000"
proof -
  let ?k = "\<lparr>km_vm = ex_reserved, km_ds = ex_ds\<lparr>ds_maps := [\<lparr>dm_vaddr = 0x200000, dm_size = 0x8000, dm_phys = 0\<rparr>]\<rparr>\<rparr>"
  obtain rc k2 where f: "km_free host_ok ?k 0x200000 0x4000 = (rc, k2)" by fastforce
  have se: "free_start 0x200000 = 0x200000" "free_end 0x200000 0x4000 = 0x204000"
    by (simp_all add: free_start_def free_end_def)
  have rc: "rc = 0"
    using f vm_free_ok [OF ex_reserved_wf, of "0x200000" "0x4000" "ps4_direct_mem_on_unmap True" "km_ds ?k"]
    by (auto simp: km_free_def host_ok_def se split: prod.splits)
  have w: "vm_wf (km_vm ?k)" "maps_ok (ds_maps (km_ds ?k))" "h_tail host_ok"
    using ex_reserved_wf by (simp_all add: maps_ok_def no_wrap_def host_ok_def)
  have view: "vm_view (km_vm ?k) 0x200000 = Mapped 0 0 0 ''reserved''"
    by (simp add: vm_view_def ex_reserved_eq exts_view_Cons in_range_def free_ext_def covers_def ext_page_def)
  have tr: "dm_translate (km_ds ?k) 0x204000 = Some 0x4000"
    by (simp add: dm_translate_maps maps_translate_Cons in_range_def)
  have "dm_translate (km_ds k2) 0x200000 = None"
    using munmap_detaches_exactly [OF w f [unfolded rc], of "0x200000"] view by (simp add: se)
  moreover have "dm_translate (km_ds k2) 0x204000 = Some 0x4000"
    using munmap_detaches_exactly [OF w f [unfolded rc], of "0x204000"] tr by (simp add: se)
  ultimately show ?thesis using f rc by blast
qed


section \<open>Protection\<close>

definition page_retag :: "i32 \<Rightarrow> i32 \<Rightarrow> page \<Rightarrow> page" where
  "page_retag prot mtype p = (case p of Mapped _ f _ n \<Rightarrow> Mapped prot f mtype n | _ \<Rightarrow> p)"

definition mt_start :: "u64 \<Rightarrow> u64" where
  "mt_start addr = addr AND NOT 0x3fff"

definition mt_end :: "u64 \<Rightarrow> u64 \<Rightarrow> u64" where
  "mt_end addr sz = mt_start addr + ((sz + (addr - mt_start addr) + 0x3fff) AND NOT 0x3fff)"

lemma split_extent_view:
  assumes "vm_wf v" and "recomp_vm_split_extent_at ok v at = (b, v')"
  shows "vm_wf v'" and "vm_view v' a = vm_view v a" and "vm_mem_size v' = vm_mem_size v"
    and "b \<Longrightarrow> no_straddle at (vm_extents v')"
    and "no_straddle x (vm_extents v) \<Longrightarrow> no_straddle x (vm_extents v')"
    and "ok \<Longrightarrow> b"
proof -
  obtain es where sp: "vm_split_list ok at (vm_extents v) = (b, es)" and v': "v' = v\<lparr>vm_extents := es\<rparr>"
    using assms(2) by (auto simp: recomp_vm_split_extent_at_def split: prod.splits)
  have w: "exts_wf (vm_mem_size v) (vm_extents v)" using assms(1) by (simp add: vm_wf_def)
  note view = split_list_view [OF w sp]
  show "vm_wf v'" "vm_view v' a = vm_view v a" "vm_mem_size v' = vm_mem_size v" "ok \<Longrightarrow> b"
    using view by (simp_all add: v' vm_wf_def vm_view_def)
  show "b \<Longrightarrow> no_straddle at (vm_extents v')" using split_no_straddle [OF w sp] by (simp add: v')
  show "no_straddle x (vm_extents v')" if "no_straddle x (vm_extents v)"
    using split_keeps_no_straddle [OF w sp that] by (simp add: v')
qed

text \<open>The last loop of \<open>sceKernelMtypeprotect\<close>, once both ends are extent boundaries.\<close>

definition mt_retag :: "u64 \<Rightarrow> u64 \<Rightarrow> i32 \<Rightarrow> i32 \<Rightarrow> ext \<Rightarrow> ext" where
  "mt_retag s t prot mtype e = (if ext_free e \<or> ext_addr e < s \<or> t < ext_addr e + ext_size e then e
     else e\<lparr>ext_prot := prot, ext_mtype := mtype\<rparr>)"

lemma retag_view:
  assumes wf: "exts_wf lim es" and ns: "no_straddle s es" "no_straddle t es"
  shows "exts_wf lim (map (mt_retag s t prot mtype) es)"
    and "exts_view (map (mt_retag s t prot mtype) es) a =
      (if s \<le> a \<and> a < t then page_retag prot mtype (exts_view es a) else exts_view es a)"
proof -
  have keep: "ext_addr (mt_retag s t prot mtype e) = ext_addr e"
    "ext_size (mt_retag s t prot mtype e) = ext_size e" for e
    by (simp_all add: mt_retag_def)
  note m = map_ext_view [of "mt_retag s t prot mtype", OF keep]
  show "exts_wf lim (map (mt_retag s t prot mtype) es)" using wf m(1) by simp
  show "exts_view (map (mt_retag s t prot mtype) es) a =
      (if s \<le> a \<and> a < t then page_retag prot mtype (exts_view es a) else exts_view es a)"
  proof (cases "ext_lookup es a")
    case None
    then show ?thesis by (simp add: exts_view_def m(2) page_retag_def)
  next
    case (Some e)
    from range_lookup_SomeD [OF this] have e: "e \<in> set es" "ext_covers a e" by auto
    have nw: "no_wrap (ext_addr e) (ext_size e)" using wf e(1) by (auto simp: exts_wf_def ranges_ok_def)
    have "ext_page (mt_retag s t prot mtype e) =
        (if s \<le> a \<and> a < t then page_retag prot mtype (ext_page e) else ext_page e)"
    proof (cases "ext_free e")
      case True
      then show ?thesis by (simp add: mt_retag_def page_retag_def)
    next
      case False
      from inside_iff [OF nw ns e(1) False e(2)] False show ?thesis
        by (auto simp: mt_retag_def page_retag_def ext_page_def not_le)
    qed
    then show ?thesis using Some by (simp add: exts_view_def m(2))
  qed
qed

lemma mtypeprotect_eq:
  "sceKernelMtypeprotect h k addr sz mtype prot =
     (if sz = 0 then (0, k) else
      if mt_end addr sz < mt_start addr \<or> vm_mem_size (km_vm k) < mt_end addr sz then (KERR_EINVAL, k) else
      if filter (ext_overlaps (mt_start addr) (mt_end addr sz)) (vm_extents (km_vm k)) = [] then (KERR_EINVAL, k) else
      let (b1, v1) = recomp_vm_split_extent_at (h_split1 h) (km_vm k) (mt_start addr) in
      if \<not> b1 then (KERR_ENOMEM, k\<lparr>km_vm := v1\<rparr>) else
      let (b2, v2) = recomp_vm_split_extent_at (h_split2 h) v1 (mt_end addr sz) in
      if \<not> b2 then (KERR_ENOMEM, k\<lparr>km_vm := v2\<rparr>) else
      (0, k\<lparr>km_vm := v2\<lparr>vm_extents := map (mt_retag (mt_start addr) (mt_end addr sz) prot mtype) (vm_extents v2)\<rparr>\<rparr>))"
  unfolding sceKernelMtypeprotect_def mt_end_def mt_start_def mt_retag_def [abs_def] Let_def by (rule refl)

text \<open>
  \<open>sceKernelMtypeprotect\<close> is exact at 16 KB granularity: on success every mapped address of
  the widened range has the new protection and memory type and keeps its flags and name, every
  other address is untouched (extents are split at the ends), and a range that meets no mapping
  or leaves guest memory fails without a change. A failed call changes no address at all.
\<close>

theorem mtypeprotect_exact:
  assumes "vm_wf (km_vm k)" and "sz \<noteq> 0"
    and "sceKernelMtypeprotect h k addr sz mtype prot = (rc, k')"
  shows "vm_wf (km_vm k') \<and> km_ds k' = km_ds k
    \<and> (rc = 0 \<longrightarrow> (\<forall>a. vm_view (km_vm k') a =
         (if mt_start addr \<le> a \<and> a < mt_end addr sz then page_retag prot mtype (vm_view (km_vm k) a)
          else vm_view (km_vm k) a)))
    \<and> (rc \<noteq> 0 \<longrightarrow> vm_view (km_vm k') = vm_view (km_vm k))
    \<and> (\<forall>a p f m n. mt_start addr \<le> a \<and> a < mt_end addr sz \<and> vm_view (km_vm k) a = Mapped p f m n
         \<and> mt_end addr sz \<le> vm_mem_size (km_vm k) \<and> h_split1 h \<and> h_split2 h \<longrightarrow> rc = 0)"
proof -
  let ?s = "mt_start addr" and ?t = "mt_end addr sz" and ?v = "km_vm k"
  have wf0: "exts_wf (vm_mem_size ?v) (vm_extents ?v)" using assms(1) by (simp add: vm_wf_def)
  have meets: "filter (ext_overlaps ?s ?t) (vm_extents ?v) \<noteq> []"
    if "?s \<le> a" "a < ?t" "vm_view ?v a = Mapped p f m n" for a p f m n
  proof -
    note pm = that
    obtain e where e: "ext_lookup (vm_extents ?v) a = Some e" "\<not> ext_free e"
      using pm(3) by (auto simp: vm_view_def exts_view_def ext_page_def split: option.splits if_splits)
    from range_lookup_SomeD [OF e(1)] have m: "e \<in> set (vm_extents ?v)" "ext_covers a e" by auto
    have "no_wrap (ext_addr e) (ext_size e)" using wf0 m(1) by (auto simp: exts_wf_def ranges_ok_def)
    from overlap_covered [OF this m(2) e(2) pm(1,2)] m(1) show ?thesis by (auto simp: filter_empty_conv)
  qed
  obtain b1 v1 where s1: "recomp_vm_split_extent_at (h_split1 h) ?v ?s = (b1, v1)" by fastforce
  obtain b2 v2 where s2: "recomp_vm_split_extent_at (h_split2 h) v1 ?t = (b2, v2)" by fastforce
  note p1 = split_extent_view [OF assms(1) s1]
  note p2 = split_extent_view [OF p1(1) s2]
  have eq: "(rc, k') = (if ?t < ?s \<or> vm_mem_size ?v < ?t then (KERR_EINVAL, k) else
      if filter (ext_overlaps ?s ?t) (vm_extents ?v) = [] then (KERR_EINVAL, k) else
      if \<not> b1 then (KERR_ENOMEM, k\<lparr>km_vm := v1\<rparr>) else if \<not> b2 then (KERR_ENOMEM, k\<lparr>km_vm := v2\<rparr>) else
      (0, k\<lparr>km_vm := v2\<lparr>vm_extents := map (mt_retag ?s ?t prot mtype) (vm_extents v2)\<rparr>\<rparr>))"
    using assms(3) unfolding mtypeprotect_eq if_not_P [OF assms(2)] s1 s2 Let_def prod.case by (rule sym)
  consider (bad) "?t < ?s \<or> vm_mem_size ?v < ?t \<or> filter (ext_overlaps ?s ?t) (vm_extents ?v) = []"
    | (nomem) "\<not> (?t < ?s \<or> vm_mem_size ?v < ?t)" "filter (ext_overlaps ?s ?t) (vm_extents ?v) \<noteq> []" "\<not> (b1 \<and> b2)"
    | (ok) "\<not> (?t < ?s \<or> vm_mem_size ?v < ?t)" "filter (ext_overlaps ?s ?t) (vm_extents ?v) \<noteq> []" "b1" "b2"
    by blast
  then show ?thesis
  proof cases
    case bad
    then have r: "rc = KERR_EINVAL" "k' = k" using eq by (auto split: if_splits)
    have "\<not> (?s \<le> a \<and> a < ?t \<and> vm_view ?v a = Mapped p f m n \<and> ?t \<le> vm_mem_size ?v)" for a p f m n
      using bad meets [of a p f m n] by auto
    with r assms(1) show ?thesis by auto
  next
    case nomem
    then have r: "rc = KERR_ENOMEM" "k' = k\<lparr>km_vm := v1\<rparr> \<or> k' = k\<lparr>km_vm := v2\<rparr>" "\<not> (h_split1 h \<and> h_split2 h)"
      using eq p1(6) p2(6) by (auto split: if_splits)
    then show ?thesis using p1(1,2) p2(1,2) by auto
  next
    case ok
    then have r: "rc = 0"
      "k' = k\<lparr>km_vm := v2\<lparr>vm_extents := map (mt_retag ?s ?t prot mtype) (vm_extents v2)\<rparr>\<rparr>"
      using eq by auto
    have w2: "exts_wf (vm_mem_size v2) (vm_extents v2)" using p2(1) by (simp add: vm_wf_def)
    note rt = retag_view [OF w2 p2(5) [OF p1(4) [OF ok(3)]] p2(4) [OF ok(4)]]
    show ?thesis
      using rt p1(2) p2(2) r by (simp add: vm_wf_def vm_view_def)
  qed
qed

theorem mtypeprotect_exact_witness:
  "\<exists>k'. sceKernelMtypeprotect host_ok \<lparr>km_vm = ex_reserved, km_ds = ex_ds\<rparr> 0x205000 0x1000 3 1 = (0, k')
     \<and> vm_view (km_vm k') 0x204000 = Mapped 1 0 3 ''reserved''
     \<and> vm_view (km_vm k') 0x208000 = Mapped 0 0 0 ''reserved''"
proof -
  let ?k = "\<lparr>km_vm = ex_reserved, km_ds = ex_ds\<rparr>"
  obtain rc k' where e: "sceKernelMtypeprotect host_ok ?k 0x205000 0x1000 3 1 = (rc, k')" by fastforce
  have wf: "vm_wf (km_vm ?k)" using ex_reserved_wf by simp
  have se: "mt_start 0x205000 = 0x204000" "mt_end 0x205000 0x1000 = 0x208000"
    by (simp_all add: mt_start_def mt_end_def)
  have view: "vm_view (km_vm ?k) 0x204000 = Mapped 0 0 0 ''reserved''"
    "vm_view (km_vm ?k) 0x208000 = Mapped 0 0 0 ''reserved''"
    by (simp_all add: vm_view_def ex_reserved_eq exts_view_Cons in_range_def free_ext_def covers_def ext_page_def)
  have mem: "vm_mem_size (km_vm ?k) = 0x2000000000" by (simp add: ex_reserved_eq)
  note ex = mtypeprotect_exact [OF wf _ e]
  have rc: "rc = 0"
  proof -
    have "\<forall>a p f m n. mt_start 0x205000 \<le> a \<and> a < mt_end 0x205000 0x1000 \<and> vm_view (km_vm ?k) a = Mapped p f m n
         \<and> mt_end 0x205000 0x1000 \<le> vm_mem_size (km_vm ?k) \<and> h_split1 host_ok \<and> h_split2 host_ok \<longrightarrow> rc = 0"
      using ex by simp
    from this [rule_format, of "0x204000" 0 0 0 "''reserved''"] view mem show ?thesis
      by (simp add: se host_ok_def)
  qed
  have "vm_view (km_vm k') 0x204000 = Mapped 1 0 3 ''reserved''"
    "vm_view (km_vm k') 0x208000 = Mapped 0 0 0 ''reserved''"
    using ex rc view by (simp_all add: se page_retag_def)
  with e rc show ?thesis by blast
qed

text \<open>
  \<open>sceKernelMprotect\<close> never splits: protecting one page of a mapping changes the protection
  the whole mapping reports, also of addresses outside the requested range.
\<close>

theorem mprotect_whole_extent:
  assumes "vm_wf (km_vm k)" and "sz \<noteq> 0" and "sceKernelMprotect k addr sz prot = (rc, k')"
    and "e \<in> set (vm_extents (km_vm k))"
    and "ext_overlaps (mt_start addr) (mt_end addr sz) e" and "ext_covers a e"
  shows "rc = 0 \<and> vm_wf (km_vm k')
    \<and> vm_view (km_vm k') a = Mapped prot (ext_flags e) (ext_mtype e) (ext_name e)"
proof -
  let ?f = "\<lambda>e. if ext_overlaps (mt_start addr) (mt_end addr sz) e then e\<lparr>ext_prot := prot\<rparr> else e"
  have r: "rc = 0" "k' = k\<lparr>km_vm := (km_vm k)\<lparr>vm_extents := map ?f (vm_extents (km_vm k))\<rparr>\<rparr>"
    using assms(2,3) by (auto simp: sceKernelMprotect_def Let_def mt_start_def mt_end_def)
  have keep: "ext_addr (?f e) = ext_addr e" "ext_size (?f e) = ext_size e" for e by simp_all
  note m = map_ext_view [of ?f, OF keep]
  have wf: "exts_wf (vm_mem_size (km_vm k)) (vm_extents (km_vm k))" using assms(1) by (simp add: vm_wf_def)
  have "ext_lookup (vm_extents (km_vm k)) a = Some e"
    using range_lookup_unique [of ext_addr ext_size "vm_extents (km_vm k)" e a] wf assms(4,6)
    by (simp add: exts_wf_def)
  moreover have "\<not> ext_free e" using assms(5) by (simp add: ext_overlaps_def)
  ultimately show ?thesis
    using r m wf assms(5) by (simp add: vm_wf_def vm_view_def exts_view_def ext_page_def)
qed

theorem mprotect_whole_extent_witness:
  "\<exists>k'. sceKernelMprotect \<lparr>km_vm = ex_reserved, km_ds = ex_ds\<rparr> 0x204000 0x1000 1 = (0, k')
     \<and> vm_view (km_vm k') 0x20f000 = Mapped 1 0 0 ''reserved''"
proof -
  let ?k = "\<lparr>km_vm = ex_reserved, km_ds = ex_ds\<rparr>" and ?e = "vm_extents ex_reserved ! 1"
  obtain rc k' where e: "sceKernelMprotect ?k 0x204000 0x1000 1 = (rc, k')" by fastforce
  have "rc = 0 \<and> vm_wf (km_vm k') \<and> vm_view (km_vm k') 0x20f000 =
      Mapped 1 (ext_flags ?e) (ext_mtype ?e) (ext_name ?e)"
    by (rule mprotect_whole_extent [OF _ _ e])
      (use ex_reserved_wf in \<open>simp_all add: ex_reserved_eq ext_overlaps_def mt_start_def mt_end_def covers_def in_range_def\<close>)
  with e show ?thesis by (simp add: ex_reserved_eq)
qed

section \<open>Queries\<close>

text \<open>
  \<open>sceKernelVirtualQuery\<close> reports what the address is: it fails with \<open>-EFAULT\<close> exactly for
  an address in no extent; otherwise the address lies in the reported range, a free extent is
  reported as not committed unless it translates, and for an address backed by direct memory the
  reported offset is the physical address of the reported start.
\<close>

theorem virtual_query_reports_view:
  assumes "vm_wf (km_vm k)" and "72 \<le> sz" and "maps_ok (ds_maps (km_ds k))"
  shows "(sceKernelVirtualQuery k addr False sz = Inl (- EFAULT) \<longleftrightarrow> vm_view (km_vm k) addr = Hole)
    \<and> (\<forall>i. sceKernelVirtualQuery k addr False sz = Inr i \<longrightarrow>
         vq_start i \<le> addr \<and> addr < vq_end i
         \<and> (vq_committed i \<longleftrightarrow> vm_view (km_vm k) addr \<noteq> Free \<or> dm_translate (km_ds k) addr \<noteq> None)
         \<and> (\<forall>p. dm_translate (km_ds k) addr = Some p \<longrightarrow>
              vq_direct i \<and> \<not> vq_flexible i \<and> p = vq_offset i + (addr - vq_start i)))"
proof -
  have sz: "\<not> sz < 72" using assms(2) by simp
  have find: "recomp_vm_find (km_vm k) addr = ext_lookup (vm_extents (km_vm k)) addr"
    by (rule recomp_vm_find_lookup)
  show ?thesis
  proof (cases "ext_lookup (vm_extents (km_vm k)) addr")
    case None
    then show ?thesis using sz by (simp add: sceKernelVirtualQuery_def find vm_view_def exts_view_def)
  next
    case (Some e)
    from range_lookup_SomeD [OF this] have in_e: "ext_addr e \<le> addr \<and> addr < ext_addr e + ext_size e"
      by (simp add: covers_def in_range_def)
    have view: "vm_view (km_vm k) addr = ext_page e" using Some by (simp add: vm_view_def exts_view_def)
    have pg: "ext_page e \<noteq> Hole" "ext_page e \<noteq> Free \<longleftrightarrow> \<not> ext_free e" by (simp_all add: ext_page_def)
    show ?thesis
    proof (cases "dm_lookup (km_ds k) addr")
      case None
      then have "dm_translate (km_ds k) addr = None" by (simp add: dm_translate_def)
      then show ?thesis
        using None Some sz in_e pg by (auto simp: sceKernelVirtualQuery_def find view)
    next
      case (Some x)
      obtain s t p where x: "x = (s, t, p)" by (cases x)
      have st: "s \<le> addr" "addr < t"
        using Some by (auto simp: dm_lookup_def x find_Some_iff split: option.splits)
      have "dm_translate (km_ds k) addr = Some (p + (addr - s))" using Some by (simp add: dm_translate_def x)
      then show ?thesis
        using Some \<open>ext_lookup (vm_extents (km_vm k)) addr = Some e\<close> sz st pg
        by (auto simp: sceKernelVirtualQuery_def find view x)
    qed
  qed
qed

theorem virtual_query_reports_view_witness:
  "sceKernelVirtualQuery ex_km 0x10 False 72 = Inl (- EFAULT)"
proof -
  have "vm_view (km_vm ex_km) 0x10 = Hole"
    by (simp add: ex_km_def vm_view_def ex_vm_eq exts_view_Cons in_range_def free_ext_def covers_def ext_page_def)
  moreover have "vm_wf (km_vm ex_km)" "maps_ok (ds_maps (km_ds ex_km))"
    using ex_vm_wf by (simp_all add: ex_km_def ex_ds_def maps_ok_def)
  ultimately show ?thesis using virtual_query_reports_view [of ex_km 72 "0x10"] by simp
qed

section \<open>The batch call\<close>

text \<open>The state after running entries one after the other, and the check an entry must pass.\<close>

fun batch_prefix :: "(nat \<Rightarrow> host) \<Rightarrow> denv \<Rightarrow> nat \<Rightarrow> kmem \<Rightarrow> batch_entry list \<Rightarrow> kmem" where
  "batch_prefix hs env i k [] = k"
| "batch_prefix hs env i k (e # es) =
     batch_prefix hs env (Suc i) (snd (snd (batch_entry_run (hs i) env k e))) es"

definition batch_valid :: "batch_entry \<Rightarrow> bool" where
  "batch_valid e \<longleftrightarrow> be_length e \<noteq> 0 \<and> be_op e \<le> 4"

lemma batch_loop_prefix:
  "batch_loop hs env i k es = (rc, n, es', k') \<Longrightarrow>
     i \<le> n \<and> n - i \<le> length es \<and> length es' = length es \<and> (rc = 0 \<longleftrightarrow> n - i = length es)
     \<and> (\<forall>j < n - i. batch_valid (es ! j)
          \<and> fst (batch_entry_run (hs (i + j)) env (batch_prefix hs env i k (take j es)) (es ! j)) = 0)
     \<and> (n - i = length es \<longrightarrow> k' = batch_prefix hs env i k es)
     \<and> (n - i < length es \<longrightarrow>
          (if batch_valid (es ! (n - i))
           then \<exists>start. batch_entry_run (hs n) env (batch_prefix hs env i k (take (n - i) es)) (es ! (n - i)) = (rc, start, k')
           else rc = KERR_EINVAL \<and> k' = batch_prefix hs env i k (take (n - i) es)))"
proof (induction es arbitrary: i k rc n es' k')
  case Nil
  then show ?case by simp
next
  case (Cons e es)
  show ?case
  proof (cases "batch_valid e")
    case False
    then have "be_length e = 0 \<or> 4 < be_op e" by (auto simp: batch_valid_def not_le)
    then have "rc = KERR_EINVAL" "n = i" "es' = e # es" "k' = k" using Cons.prems by auto
    with False show ?thesis by simp
  next
    case True
    then have nv: "\<not> (be_length e = 0 \<or> 4 < be_op e)" by (auto simp: batch_valid_def)
    obtain rc1 st k1 where run: "batch_entry_run (hs i) env k e = (rc1, st, k1)" by (rule prod_cases3)
    show ?thesis
    proof (cases "rc1 = 0")
      case False
      then have "rc = rc1" "n = i" "length es' = Suc (length es)" "k' = k1"
        using Cons.prems nv run by auto
      with True run False show ?thesis by auto
    next
      case zero: True
      obtain rc2 n2 es2 k2 where rec: "batch_loop hs env (Suc i) k1 es = (rc2, n2, es2, k2)"
        by (rule prod_cases4)
      have r: "rc = rc2" "n = n2" "es' = e\<lparr>be_start := st\<rparr> # es2" "k' = k2"
        using Cons.prems nv run zero rec by auto
      note IH = Cons.IH [OF rec]
      have ni: "n - i = Suc (n - Suc i)" using IH r by auto
      have bp: "batch_prefix hs env i k (take (Suc m) (e # es)) = batch_prefix hs env (Suc i) k1 (take m es)" for m
        by (simp add: run)
      have all: "batch_valid ((e # es) ! j)
          \<and> fst (batch_entry_run (hs (i + j)) env (batch_prefix hs env i k (take j (e # es))) ((e # es) ! j)) = 0"
        if "j < n - i" for j
      proof (cases j)
        case 0
        with True run zero show ?thesis by simp
      next
        case (Suc m)
        then have "m < n2 - Suc i" using that ni r by simp
        with IH Suc show ?thesis by (simp add: run)
      qed
      show ?thesis
        using IH r ni all bp by (auto simp: run)
    qed
  qed
qed

text \<open>
  \<open>sceKernelBatchMap\<close> runs a prefix: the count it reports is the number of entries that
  succeeded, in order, from the first; it returns 0 exactly when all did, and otherwise the error
  of the first entry that failed, whose effect (none for an invalid entry) is the last one; the
  entries after it do not run.
\<close>

theorem batch_map_runs_prefix:
  assumes "sceKernelBatchMap hs env k (Some es) num = (rc, n, es', k')"
    and "0 < sint num" and "unat num = length es"
  shows "n \<le> length es \<and> length es' = length es \<and> (rc = 0 \<longleftrightarrow> n = length es)
    \<and> (\<forall>j < n. batch_valid (es ! j)
          \<and> fst (batch_entry_run (hs j) env (batch_prefix hs env 0 k (take j es)) (es ! j)) = 0)
    \<and> (n = length es \<longrightarrow> k' = batch_prefix hs env 0 k es)
    \<and> (n < length es \<longrightarrow>
          (if batch_valid (es ! n)
           then \<exists>start. batch_entry_run (hs n) env (batch_prefix hs env 0 k (take n es)) (es ! n) = (rc, start, k')
           else rc = KERR_EINVAL \<and> k' = batch_prefix hs env 0 k (take n es)))"
proof -
  obtain es2 where "batch_loop hs env 0 k es = (rc, n, es2, k')" "es' = es2"
    using assms by (auto simp: sceKernelBatchMap_def split: prod.splits)
  from batch_loop_prefix [OF this(1), unfolded diff_zero add_0] this(2) show ?thesis by blast
qed

theorem batch_map_runs_prefix_witness:
  "\<exists>es' k'. sceKernelBatchMap (\<lambda>_. host_ok) ex_env ex_km
       (Some [\<lparr>be_start = 0, be_offset = 0, be_length = 0x10000, be_prot = 3, be_type = 0, be_op = 3\<rparr>,
              \<lparr>be_start = 0, be_offset = 0, be_length = 0, be_prot = 3, be_type = 0, be_op = 3\<rparr>]) 2
       = (KERR_EINVAL, 1, es', k')"
proof -
  let ?es = "[\<lparr>be_start = 0, be_offset = 0, be_length = 0x10000, be_prot = 3, be_type = 0, be_op = 3\<rparr>,
              \<lparr>be_start = 0, be_offset = 0, be_length = 0, be_prot = 3, be_type = 0, be_op = 3\<rparr>]"
  obtain rc n es' k' where e: "sceKernelBatchMap (\<lambda>_. host_ok) ex_env ex_km (Some ?es) 2 = (rc, n, es', k')"
    by (rule prod_cases4)
  have first: "fst (batch_entry_run host_ok ex_env ex_km (?es ! 0)) = 0"
    by (simp add: batch_entry_run_def sceKernelMapNamedFlexibleMemory_def batch_fixed_result_def km_eval)
  have h: "0 < sint (2 :: i32)" "unat (2 :: i32) = length ?es" by simp_all
  note b = batch_map_runs_prefix [OF e h]
  have p1: "n \<le> length ?es" using b by (elim conjE) assumption
  have p2: "rc = 0 \<longleftrightarrow> n = length ?es" using b by (elim conjE) assumption
  have p3: "\<forall>j < n. batch_valid (?es ! j)" using b by blast
  have p4: "n < length ?es \<longrightarrow> (if batch_valid (?es ! n)
       then \<exists>start. batch_entry_run host_ok ex_env (batch_prefix (\<lambda>_. host_ok) ex_env 0 ex_km (take n ?es)) (?es ! n)
          = (rc, start, k')
       else rc = KERR_EINVAL \<and> k' = batch_prefix (\<lambda>_. host_ok) ex_env 0 ex_km (take n ?es))"
    using b by (elim conjE) assumption
  have inv: "\<not> batch_valid (?es ! 1)" by (simp add: batch_valid_def)
  have "n \<le> 1"
  proof (rule ccontr)
    assume "\<not> n \<le> 1"
    then have "1 < n" by simp
    with p3 inv show False by blast
  qed
  moreover have "n \<noteq> 0"
  proof
    assume n: "n = 0"
    have "batch_valid (?es ! 0)" by (simp add: batch_valid_def)
    moreover have "n < length ?es" using n by simp
    ultimately obtain start where
      "batch_entry_run host_ok ex_env (batch_prefix (\<lambda>_. host_ok) ex_env 0 ex_km (take n ?es)) (?es ! n) = (rc, start, k')"
      using p4 n by (metis (no_types, lifting))
    then have "batch_entry_run host_ok ex_env ex_km (?es ! 0) = (rc, start, k')"
      unfolding n by (simp only: take_0 batch_prefix.simps)
    with first have "rc = 0" by (simp only: fst_conv)
    with p2 n show False by simp
  qed
  ultimately have n: "n = 1" by simp
  have "n < length ?es" using n by simp
  with p4 inv n have "rc = KERR_EINVAL" by (metis (no_types, lifting))
  with e n show ?thesis by blast
qed

end
