(* ===== verification/MemShims.thy ===== *)
theory MemShims
  imports MemProps
begin

unbundle bit_operations_syntax

text \<open>
  The guest-facing side of \<open>kernel/memory/ps4_direct_mem.c\<close>: the \<open>shim_sceKernel*\<close>
  functions, which take their arguments from the registers, read and write the guest memory
  through the pointers the guest passed, and return a code in \<open>rax\<close>. A shim maps the
  registers and the process (guest memory and memory managers) to the new ones.
\<close>

section \<open>Process state\<close>

record proc =
  pr_mem :: guest_mem
  pr_km :: kmem

type_synonym shim = "guest_ctx \<Rightarrow> proc \<Rightarrow> guest_ctx \<times> proc"

text \<open>\<open>p && ctx->mem_base && p + 8 <= ctx->mem_size\<close>; the sum wraps as in C.\<close>

definition ptr_ok :: "guest_mem \<Rightarrow> u64 \<Rightarrow> bool" where
  "ptr_ok m p \<longleftrightarrow> p \<noteq> 0 \<and> mem_mapped m \<and> p + 8 \<le> mem_size m"

definition opt_wr64 :: "guest_mem \<Rightarrow> bool \<Rightarrow> u64 \<Rightarrow> u64 \<Rightarrow> guest_mem" where
  "opt_wr64 m g p v = (if g then wr_u64 m p v else m)"

text \<open>
  The result of a call with an output pointer: on success the value is written when \<open>g\<close> holds;
  the code goes to \<open>rax\<close>.
\<close>

definition out_result :: "guest_ctx \<Rightarrow> guest_mem \<Rightarrow> bool \<Rightarrow> u64 \<Rightarrow> (i32 + u64) \<times> kmem \<Rightarrow> guest_ctx \<times> proc" where
  "out_result c m g p r =
     (case r of
        (Inl rc, k) \<Rightarrow> (ret_rc c rc, \<lparr>pr_mem = m, pr_km = k\<rparr>)
      | (Inr v, k) \<Rightarrow> (ret_rc c 0, \<lparr>pr_mem = opt_wr64 m g p v, pr_km = k\<rparr>))"

text \<open>\<open>mappedAddr\<close>: what the in/out pointer holds before the call, NULL when it is not read.\<close>

definition in_addr :: "guest_mem \<Rightarrow> bool \<Rightarrow> u64 \<Rightarrow> u64" where
  "in_addr m g p = (if g then rd_u64 m p else 0)"

definition with_ds :: "kmem \<Rightarrow> 'a \<times> dstate \<Rightarrow> 'a \<times> kmem" where
  "with_ds k r = (fst r, k\<lparr>km_ds := snd r\<rparr>)"

section \<open>Direct memory\<close>

definition shim_sceKernelAllocateDirectMemory :: "host \<Rightarrow> denv \<Rightarrow> shim" where
  "shim_sceKernelAllocateDirectMemory h env c s =
     out_result c (pr_mem s) (r9 c \<noteq> 0) (r9 c)
       (with_ds (pr_km s) (sceKernelAllocateDirectMemory (h_init h) (h_split1 h) (h_split2 h) env
          (km_ds (pr_km s)) False (rdi c) (rsi c) (rdx c) (rcx c)))"

definition shim_sceKernelAllocateMainDirectMemory :: "host \<Rightarrow> denv \<Rightarrow> shim" where
  "shim_sceKernelAllocateMainDirectMemory h env c s =
     out_result c (pr_mem s) (rcx c \<noteq> 0) (rcx c)
       (with_ds (pr_km s) (sceKernelAllocateMainDirectMemory (h_init h) (h_split1 h) (h_split2 h) env
          (km_ds (pr_km s)) False (rdi c) (rsi c)))"

definition shim_sceKernelGetDirectMemorySize :: "denv \<Rightarrow> shim" where
  "shim_sceKernelGetDirectMemorySize env c s =
     (ret_rax c (sceKernelGetDirectMemorySize env (km_ds (pr_km s))), s)"

text \<open>
  With an output pointer the first free range is reported, and \<open>ENOMEM\<close> (zero extended) when
  there is none; the bounds of the pointers are checked but not \<open>mem_base\<close>.
\<close>

definition shim_sceKernelAvailableDirectMemorySize :: "host \<Rightarrow> denv \<Rightarrow> shim" where
  "shim_sceKernelAvailableDirectMemorySize h env c s =
     (let k = pr_km s; m = pr_mem s in
      if rcx c \<noteq> 0 \<or> r8 c \<noteq> 0 then
        (let d = snd (ps4_direct_mem_init (h_init h) env (km_ds k));
             (start, sz) = dm_available_range env d (rdi c) (rsi c) (rdx c);
             m1 = opt_wr64 m (rcx c \<noteq> 0 \<and> rcx c + 8 \<le> mem_size m) (rcx c) start;
             m2 = opt_wr64 m1 (r8 c \<noteq> 0 \<and> r8 c + 8 \<le> mem_size m) (r8 c) sz
         in (ret_rax c (if sz = 0 then 0x8002000c else 0), \<lparr>pr_mem = m2, pr_km = k\<lparr>km_ds := d\<rparr>\<rparr>))
      else
        (let (v, d) = sceKernelAvailableDirectMemorySize (h_init h) env (km_ds k)
         in (ret_rax c v, s\<lparr>pr_km := k\<lparr>km_ds := d\<rparr>\<rparr>)))"

definition shim_sceKernelMapDirectMemory :: "host \<Rightarrow> denv \<Rightarrow> shim" where
  "shim_sceKernelMapDirectMemory h env c s =
     out_result c (pr_mem s) (rdi c \<noteq> 0) (rdi c)
       (sceKernelMapDirectMemory h env (pr_km s) (Some (in_addr (pr_mem s) (rdi c \<noteq> 0) (rdi c))) (rsi c)
          (ucast (rdx c)) (ucast (rcx c)) (r8 c) (r9 c))"

definition shim_sceKernelReleaseDirectMemory :: "host \<Rightarrow> denv \<Rightarrow> shim" where
  "shim_sceKernelReleaseDirectMemory h env c s =
     (let (rc, k) = with_ds (pr_km s)
                      (sceKernelReleaseDirectMemory (h_init h) env (km_ds (pr_km s)) (rdi c) (rsi c))
      in (ret_rc c rc, s\<lparr>pr_km := k\<rparr>))"

definition shim_sceKernelCheckedReleaseDirectMemory :: "host \<Rightarrow> denv \<Rightarrow> shim" where
  "shim_sceKernelCheckedReleaseDirectMemory h env c s =
     (let (rc, k) = with_ds (pr_km s)
                      (sceKernelCheckedReleaseDirectMemory (h_init h) env (km_ds (pr_km s)) (rdi c) (rsi c))
      in (ret_rc c rc, s\<lparr>pr_km := k\<rparr>))"

text \<open>
  \<open>OrbisDirectMemoryQueryInfo\<close> is 24 bytes: two 64-bit fields, a 32-bit one and padding. The
  guest buffer receives the first \<open>infoSize\<close> of them.
\<close>

definition dq_bytes :: "u64 \<times> u64 \<times> i32 \<Rightarrow> u8 list" where
  "dq_bytes q = (case q of (s, t, ty) \<Rightarrow> le_bytes 8 s @ le_bytes 8 t @ le_bytes 4 ty @ replicate 4 0)"

definition wr_prefix :: "guest_mem \<Rightarrow> u64 \<Rightarrow> u64 \<Rightarrow> u8 list \<Rightarrow> guest_mem" where
  "wr_prefix m p sz bs =
     wr_bytes m p (take (if sz < of_nat (length bs) then unat sz else length bs) bs)"

definition shim_sceKernelDirectMemoryQuery :: "host \<Rightarrow> denv \<Rightarrow> shim" where
  "shim_sceKernelDirectMemoryQuery h env c s =
     (if rdx c = 0 then (ret_rax c 0x80020016, s) else
      case with_ds (pr_km s)
             (sceKernelDirectMemoryQuery (h_init h) env (km_ds (pr_km s)) (rdi c) (ucast (rsi c)) False 24) of
        (Inl rc, k) \<Rightarrow> (ret_rc c rc, s\<lparr>pr_km := k\<rparr>)
      | (Inr q, k) \<Rightarrow> (ret_rc c 0, \<lparr>pr_mem = wr_prefix (pr_mem s) (rdx c) (rcx c) (dq_bytes q), pr_km = k\<rparr>))"

section \<open>Flexible and reserved memory\<close>

definition shim_sceKernelMapFlexibleMemory :: "host \<Rightarrow> shim" where
  "shim_sceKernelMapFlexibleMemory h c s =
     (let m = pr_mem s; g = ptr_ok m (rdi c)
      in out_result c m g (rdi c)
           (sceKernelMapFlexibleMemory h (pr_km s) (Some (in_addr m g (rdi c))) (rsi c)
              (ucast (rdx c)) (ucast (rcx c))))"

text \<open>The name is read from the guest when its address is in bounds, 31 characters at most.\<close>

definition guest_name :: "guest_mem \<Rightarrow> u64 \<Rightarrow> string" where
  "guest_name m p = (if p \<noteq> 0 \<and> mem_mapped m \<and> p < mem_size m then rd_str m p 31 else [])"

definition shim_sceKernelMapNamedFlexibleMemory :: "host \<Rightarrow> shim" where
  "shim_sceKernelMapNamedFlexibleMemory h c s =
     (let m = pr_mem s; g = ptr_ok m (rdi c); nm = guest_name m (r8 c)
      in out_result c m g (rdi c)
           (sceKernelMapNamedFlexibleMemory h (pr_km s) (Some (in_addr m g (rdi c))) (rsi c)
              (ucast (rdx c)) (ucast (rcx c)) (Some (if nm = [] then ''flexible_mem'' else nm))))"

definition shim_sceKernelReserveVirtualRange :: "host \<Rightarrow> shim" where
  "shim_sceKernelReserveVirtualRange h c s =
     (let m = pr_mem s; g = ptr_ok m (rdi c)
      in out_result c m g (rdi c)
           (sceKernelReserveVirtualRange h (pr_km s) (Some (in_addr m g (rdi c))) (rsi c)
              (ucast (rdx c)) (rcx c)))"

text \<open>\<open>pp\<close> is \<open>g_proc_param_addr\<close>. A missing pointer and one out of bounds are told apart.\<close>

definition shim_sceKernelConfiguredFlexibleMemorySize :: "u64 \<Rightarrow> shim" where
  "shim_sceKernelConfiguredFlexibleMemorySize pp c s =
     (let m = pr_mem s; v = sceKernelConfiguredFlexibleMemorySize m pp
      in if rdi c = 0 then (ret_rc c (- EINVAL), s)
         else if ptr_ok m (rdi c) then (ret_rc c 0, s\<lparr>pr_mem := wr_u64 m (rdi c) v\<rparr>)
         else (ret_rc c (- EFAULT), s))"

definition shim_sceKernelAvailableFlexibleMemorySize :: "u64 \<Rightarrow> shim" where
  "shim_sceKernelAvailableFlexibleMemorySize pp c s =
     (let m = pr_mem s; v = sceKernelAvailableFlexibleMemorySize m pp (pr_km s)
      in if ptr_ok m (rdi c) then (ret_rax c 0, s\<lparr>pr_mem := wr_u64 m (rdi c) v\<rparr>)
         else (ret_rax c v, s))"

section \<open>Queries\<close>

text \<open>
  The 72 bytes of \<open>OrbisKernelVirtualQueryInfo\<close>: addresses at 0 and 8, offset at 16, protection
  and flags at 24 and 28, the bit field at 32 (flexible, direct, stack, pooled, committed), the
  name at 36, padding at 68. The structure was cleared, so unused bytes are 0.
\<close>

definition vq_bits :: "vq_info \<Rightarrow> u32" where
  "vq_bits i = of_bool (vq_flexible i) OR push_bit 1 (of_bool (vq_direct i))
     OR push_bit 3 (of_bool (vq_pooled i)) OR push_bit 4 (of_bool (vq_committed i))"

definition name_bytes :: "nat \<Rightarrow> string \<Rightarrow> u8 list" where
  "name_bytes n s = map (\<lambda>c. of_nat (of_char c)) (take n s) @ replicate (n - length s) 0"

definition vq_bytes :: "vq_info \<Rightarrow> u8 list" where
  "vq_bytes i =
     le_bytes 8 (vq_start i) @ le_bytes 8 (vq_end i) @ le_bytes 8 (vq_offset i)
     @ le_bytes 4 (vq_prot i) @ le_bytes 4 (vq_flags i) @ le_bytes 4 (vq_bits i)
     @ name_bytes 32 (vq_name i) @ replicate 4 0"

definition shim_sceKernelVirtualQuery :: shim where
  "shim_sceKernelVirtualQuery c s =
     (if rdx c = 0 then (ret_rc c (- EINVAL), s) else
      case sceKernelVirtualQuery (pr_km s) (rdi c) False 72 of
        Inl rc \<Rightarrow> (ret_rc c rc, s)
      | Inr i \<Rightarrow> (ret_rc c 0, s\<lparr>pr_mem := wr_prefix (pr_mem s) (rdx c) (rcx c) (vq_bytes i)\<rparr>))"

definition shim_sceKernelQueryMemoryProtection :: shim where
  "shim_sceKernelQueryMemoryProtection c s =
     (case sceKernelQueryMemoryProtection (pr_km s) (rdi c) of
        Inl rc \<Rightarrow> (ret_rc c rc, s)
      | Inr (start, end_a, prot) \<Rightarrow>
          (let m1 = opt_wr64 (pr_mem s) (rsi c \<noteq> 0) (rsi c) start;
               m2 = opt_wr64 m1 (rdx c \<noteq> 0) (rdx c) end_a;
               m3 = (if rcx c \<noteq> 0 then wr_u32 m2 (rcx c) prot else m2)
           in (ret_rc c 0, s\<lparr>pr_mem := m3\<rparr>)))"

section \<open>Memory pools\<close>

text \<open>The old three-argument stub passed the output pointer first.\<close>

definition shim_sceKernelMemoryPoolReserve :: "host \<Rightarrow> shim" where
  "shim_sceKernelMemoryPoolReserve h c s =
     (let old = r8 c = 0 \<and> rdi c \<noteq> 0 \<and> rsi c \<noteq> 0 \<and> rdx c \<noteq> 0 \<and> rcx c = 0;
          out = (if old then rdi c else r8 c);
          addr_in = (if old then 0 else rdi c);
          flags = (if old then ucast (rdx c) else ucast (rcx c))
      in out_result c (pr_mem s) (out \<noteq> 0 \<and> out < mem_size (pr_mem s)) out
           (sceKernelMemoryPoolReserve h (pr_km s) addr_in (rsi c) (rdx c) flags False))"

definition shim_sceKernelMemoryPoolExpand :: "host \<Rightarrow> denv \<Rightarrow> shim" where
  "shim_sceKernelMemoryPoolExpand h env c s =
     out_result c (pr_mem s) (r8 c \<noteq> 0 \<and> r8 c < mem_size (pr_mem s)) (r8 c)
       (with_ds (pr_km s) (sceKernelMemoryPoolExpand (h_init h) (h_split1 h) (h_split2 h) env
          (km_ds (pr_km s)) False (rdi c) (rsi c) (rdx c) (rcx c)))"

definition shim_sceKernelMemoryPoolCommit :: shim where
  "shim_sceKernelMemoryPoolCommit c s = (ret_rc c (sceKernelMemoryPoolCommit (rdi c) (rsi c)), s)"

text \<open>\<open>advise\<close> is \<open>madvise(MADV_DONTNEED)\<close>: what it leaves in the range is up to the host.\<close>

definition shim_sceKernelMemoryPoolDecommit :: "(guest_mem \<Rightarrow> u64 \<Rightarrow> u64 \<Rightarrow> guest_mem) \<Rightarrow> shim" where
  "shim_sceKernelMemoryPoolDecommit advise c s =
     (let rc = sceKernelMemoryPoolDecommit (rdi c) (rsi c); m = pr_mem s
      in (ret_rc c rc,
          if rc = 0 \<and> mem_mapped m \<and> rdi c + rsi c \<le> mem_size m
          then s\<lparr>pr_mem := advise m (rdi c) (rsi c)\<rparr> else s))"

section \<open>Names and protection\<close>

text \<open>\<open>strlen(name) >= 32\<close> is decided by the first 32 characters.\<close>

definition shim_sceKernelSetVirtualRangeName :: shim where
  "shim_sceKernelSetVirtualRangeName c s =
     (let m = pr_mem s;
          nm = (if rdx c \<noteq> 0 \<and> mem_mapped m then Some (rd_str m (rdx c) 32) else None);
          (rc, k) = sceKernelSetVirtualRangeName (pr_km s) (rdi c) (rsi c) nm
      in (ret_rc c rc, s\<lparr>pr_km := k\<rparr>))"

definition shim_sceKernelMprotect :: shim where
  "shim_sceKernelMprotect c s =
     (let (rc, k) = sceKernelMprotect (pr_km s) (rdi c) (rsi c) (ucast (rdx c))
      in (ret_rc c rc, s\<lparr>pr_km := k\<rparr>))"

definition shim_sceKernelMtypeprotect :: "host \<Rightarrow> shim" where
  "shim_sceKernelMtypeprotect h c s =
     (let (rc, k) = sceKernelMtypeprotect h (pr_km s) (rdi c) (rsi c) (ucast (rdx c)) (ucast (rcx c))
      in (ret_rc c rc, s\<lparr>pr_km := k\<rparr>))"

section \<open>The batch call\<close>

text \<open>
  The array lies in guest memory, 32 bytes an entry. The loop reads an entry, runs it and writes
  the \<open>start\<close> field back when a mapping succeeded, before the next entry is read.
\<close>

definition rd_entry :: "guest_mem \<Rightarrow> u64 \<Rightarrow> batch_entry" where
  "rd_entry m p = \<lparr>be_start = rd_u64 m p, be_offset = rd_u64 m (p + 8), be_length = rd_u64 m (p + 16),
     be_prot = rd_u8 m (p + 24), be_type = rd_u8 m (p + 25), be_op = rd_u32 m (p + 28)\<rparr>"

definition entry_maps :: "batch_entry \<Rightarrow> bool" where
  "entry_maps e \<longleftrightarrow> be_op e = 0 \<or> be_op e = 3"

fun batch_mem_loop :: "(nat \<Rightarrow> host) \<Rightarrow> denv \<Rightarrow> u64 \<Rightarrow> nat \<Rightarrow> nat \<Rightarrow> proc \<Rightarrow> i32 \<times> nat \<times> proc" where
  "batch_mem_loop hs env p i 0 s = (0, i, s)"
| "batch_mem_loop hs env p i (Suc n) s =
     (let e = rd_entry (pr_mem s) p in
      if be_length e = 0 \<or> 4 < be_op e then (KERR_EINVAL, i, s) else
      case batch_entry_run (hs i) env (pr_km s) e of
        (rc, start, k) \<Rightarrow>
          (let s' = \<lparr>pr_mem = opt_wr64 (pr_mem s) (rc = 0 \<and> entry_maps e) p start, pr_km = k\<rparr>
           in if rc \<noteq> 0 then (rc, i, s') else batch_mem_loop hs env (p + 32) (Suc i) n s'))"

definition shim_sceKernelBatchMap :: "(nat \<Rightarrow> host) \<Rightarrow> denv \<Rightarrow> shim" where
  "shim_sceKernelBatchMap hs env c s =
     (let num = ucast (rsi c) :: i32;
          (rc, n, s') =
            (if sint num \<le> 0 then (0, 0, s)
             else if rdi c = 0 then (KERR_EINVAL, 0, s)
             else batch_mem_loop hs env (rdi c) 0 (unat num) s);
          m' = (if rdx c \<noteq> 0 then wr_u32 (pr_mem s') (rdx c) (of_nat n) else pr_mem s')
      in (ret_rc c rc, s'\<lparr>pr_mem := m'\<rparr>))"

end
