(* ===== verification/MemShimProps.thy ===== *)
theory MemShimProps
  imports MemShims
begin

unbundle bit_operations_syntax

text \<open>
  The properties of the guest-facing memory calls: the batch call on the array in guest memory
  is the batch call on the list of its entries, and what a mapping call wrote is what a later
  query reads back, through the structures in guest memory.
\<close>

section \<open>Reading back what was written\<close>

lemma u64_add_of_nat: "unat (x + of_nat i - x :: u64) = i" if "i < 2 ^ 64" for i
  using that by (simp add: unat_of_nat)

lemma wr_bytes_at: "i < length bs \<Longrightarrow> i < 2 ^ 64 \<Longrightarrow> mem_bytes (wr_bytes m p bs) (p + of_nat i) = bs ! i"
  by (simp add: wr_bytes_def u64_add_of_nat [unfolded add_diff_cancel_left'] unat_of_nat)

lemma rd_bytes_slice:
  assumes "o1 + n \<le> length bs" and "length bs < 2 ^ 64"
  shows "rd_bytes (wr_bytes m p bs) (p + of_nat o1) n = take n (drop o1 bs)"
proof (rule nth_equalityI)
  fix i assume "i < length (rd_bytes (wr_bytes m p bs) (p + of_nat o1) n)"
  then have i: "i < n" by (simp add: rd_bytes_def)
  have "p + of_nat o1 + of_nat i = p + of_nat (o1 + i)" by simp
  with i assms show "rd_bytes (wr_bytes m p bs) (p + of_nat o1) n ! i = take n (drop o1 bs) ! i"
    using wr_bytes_at [of "o1 + i" bs m p] by (simp add: rd_bytes_def add.assoc)
qed (use assms in \<open>simp add: rd_bytes_def\<close>)

text \<open>A read of a range that a write does not touch.\<close>

lemma rd_bytes_other:
  assumes "\<And>i. i < n \<Longrightarrow> length bs \<le> unat (a + of_nat i - p)"
  shows "rd_bytes (wr_bytes m p bs) a n = rd_bytes m a n"
  unfolding rd_bytes_def by (rule map_cong [OF refl]) (simp add: wr_bytes_other assms)

lemma wr_bytes_same:
  assumes "bs = rd_bytes m p (length bs)" and "length bs < 2 ^ 64"
  shows "wr_bytes m p bs = m"
proof -
  have "mem_bytes (wr_bytes m p bs) x = mem_bytes m x" for x
  proof (cases "unat (x - p) < length bs")
    case True
    then have "bs ! unat (x - p) = mem_bytes m (p + of_nat (unat (x - p)))"
      by (subst assms(1)) (simp add: rd_bytes_def)
    with True show ?thesis by (simp add: wr_bytes_def)
  qed (simp add: wr_bytes_def)
  then have "mem_bytes (wr_bytes m p bs) = mem_bytes m" by (rule ext)
  then show ?thesis by (simp add: wr_bytes_def)
qed

section \<open>The batch array\<close>

lemma le_bytes_of_le:
  assumes "length bs = n" and "LENGTH('a::len) = 8 * n"
  shows "le_bytes n (of_le bs :: 'a word) = bs"
proof (rule nth_equalityI)
  fix i assume "i < length (le_bytes n (of_le bs :: 'a word))"
  then have i: "i < n" by simp
  show "le_bytes n (of_le bs :: 'a word) ! i = bs ! i"
  proof (rule bit_word_eqI)
    fix k assume k: "k < LENGTH(8)"
    then have "(8 * i + k) div 8 = i" "(8 * i + k) mod 8 = k" "8 * i + k < LENGTH('a)"
      using i assms(2) by auto
    with i k assms(1) show "bit (le_bytes n (of_le bs :: 'a word) ! i) k = bit (bs ! i) k"
      by (simp add: le_bytes_def bit_simps bit_of_le add.commute)
  qed
qed (simp add: assms)

lemma wr_u64_same: "wr_u64 m p (rd_u64 m p) = m"
  by (simp add: wr_u64_def rd_u64_def wr_bytes_same le_bytes_of_le rd_bytes_def)

text \<open>The place of entry \<open>j\<close> of an array at \<open>p\<close> that does not wrap around.\<close>

definition entry_at :: "u64 \<Rightarrow> nat \<Rightarrow> u64" where
  "entry_at p j = p + of_nat (32 * j)"

lemma entry_at_Suc: "entry_at (p + 32) j = entry_at p (Suc j)"
  by (simp add: entry_at_def)

lemma rd_entry_written:
  "rd_entry (wr_u64 m p v) p = (rd_entry m p)\<lparr>be_start := v\<rparr>"
proof -
  have 8: "rd_bytes (wr_bytes m p (le_bytes 8 v)) (p + 8) 8 = rd_bytes m (p + 8) 8"
    and 16: "rd_bytes (wr_bytes m p (le_bytes 8 v)) (p + 16) 8 = rd_bytes m (p + 16) 8"
    and 28: "rd_bytes (wr_bytes m p (le_bytes 8 v)) (p + 28) 4 = rd_bytes m (p + 28) 4"
    by (rule rd_bytes_other; simp add: unat_word_ariths unat_of_nat; fail)+
  have "mem_bytes (wr_bytes m p (le_bytes 8 v)) (p + 24) = mem_bytes m (p + 24)"
    "mem_bytes (wr_bytes m p (le_bytes 8 v)) (p + 25) = mem_bytes m (p + 25)"
    by (simp_all add: wr_bytes_other)
  with 8 16 28 show ?thesis
    using rd_wr_u64 [of m p v] by (simp add: rd_entry_def rd_u64_def rd_u32_def rd_u8_def wr_u64_def)
qed

lemma rd_entry_later:
  assumes "0 < j" and "32 * j + 32 \<le> 2 ^ 64"
  shows "rd_entry (wr_u64 m p v) (entry_at p j) = rd_entry m (entry_at p j)"
proof -
  have off: "8 \<le> unat (entry_at p j + of_nat i - p)" if "i < 32" for i
  proof -
    have "entry_at p j + of_nat i - p = of_nat (32 * j + i)" by (simp add: entry_at_def)
    moreover have "32 * j + i < 2 ^ 64" using that assms(2) by simp
    ultimately show ?thesis using assms(1) by (simp only: unat_of_nat) simp
  qed
  have rd: "rd_bytes (wr_bytes m p (le_bytes 8 v)) (entry_at p j + of_nat o1) n = rd_bytes m (entry_at p j + of_nat o1) n"
    if "o1 + n \<le> 32" for o1 n
  proof (rule rd_bytes_other)
    fix i assume "i < n"
    then show "length (le_bytes 8 v) \<le> unat (entry_at p j + of_nat o1 + of_nat i - p)"
      using off [of "o1 + i"] that by (simp add: add.assoc)
  qed
  have "mem_bytes (wr_bytes m p (le_bytes 8 v)) (entry_at p j + 24) = mem_bytes m (entry_at p j + 24)"
    "mem_bytes (wr_bytes m p (le_bytes 8 v)) (entry_at p j + 25) = mem_bytes m (entry_at p j + 25)"
    using off [of 24] off [of 25] by (simp_all add: wr_bytes_other)
  then show ?thesis
    using rd [of 0 8] rd [of 8 8] rd [of 16 8] rd [of 28 4]
    by (simp add: rd_entry_def rd_u64_def rd_u32_def rd_u8_def wr_u64_def)
qed

lemma batch_entry_run_start:
  "batch_entry_run h env k e = (rc, st, k') \<Longrightarrow> rc \<noteq> 0 \<or> \<not> entry_maps e \<Longrightarrow> st = be_start e"
  by (auto simp: batch_entry_run_def entry_maps_def Let_def split: if_splits prod.splits sum.splits)

lemma batch_entry_run_zero_maps:
  "wr_u64 m p (be_start (rd_entry m p)) = m"
  by (simp add: rd_entry_def wr_u64_same)

text \<open>Each round writes the \<open>start\<close> the list version records, if only its old value.\<close>

lemma batch_round_mem:
  assumes "batch_entry_run h env k (rd_entry m p) = (rc, st, k')"
  shows "opt_wr64 m (rc = 0 \<and> entry_maps (rd_entry m p)) p st = wr_u64 m p st"
  using batch_entry_run_start [OF assms] batch_entry_run_zero_maps [of m p] by (auto simp: opt_wr64_def)

definition entries_at :: "guest_mem \<Rightarrow> u64 \<Rightarrow> nat \<Rightarrow> batch_entry list" where
  "entries_at m p n = map (\<lambda>j. rd_entry m (entry_at p j)) [0..<n]"

lemma entries_at_Suc:
  "entries_at m p (Suc n) = rd_entry m p # entries_at m (p + 32) n"
  by (simp add: entries_at_def entry_at_Suc upt_conv_Cons map_Suc_upt [symmetric] del: upt_Suc)
    (simp add: entry_at_def)

lemma entries_at_written:
  assumes "32 * Suc n \<le> 2 ^ 64"
  shows "entries_at (wr_u64 m p v) (p + 32) n = entries_at m (p + 32) n"
proof -
  have "rd_entry (wr_u64 m p v) (entry_at (p + 32) j) = rd_entry m (entry_at (p + 32) j)" if "j < n" for j
    unfolding entry_at_Suc using that assms by (intro rd_entry_later) simp_all
  then show ?thesis by (simp add: entries_at_def)
qed

text \<open>The bytes outside the array stay; \<open>array_has\<close> is the array of \<open>n\<close> entries at \<open>p\<close>.\<close>

definition array_has :: "u64 \<Rightarrow> nat \<Rightarrow> u64 \<Rightarrow> bool" where
  "array_has p n x \<longleftrightarrow> unat (x - p) < 32 * n"

lemma array_has_Suc:
  assumes "32 * Suc n \<le> 2 ^ 64"
  shows "array_has p (Suc n) x \<longleftrightarrow> unat (x - p) < 32 \<or> array_has (p + 32) n x"
proof -
  have "unat (x - (p + 32)) = (if unat (x - p) < 32 then 2 ^ 64 + unat (x - p) - 32 else unat (x - p) - 32)"
    by (simp add: diff_diff_eq [symmetric] unat_sub_if_size word_size)
  with assms show ?thesis by (auto simp: array_has_def)
qed

lemma rd_entry_cong:
  assumes "\<And>x. unat (x - p) < 32 \<Longrightarrow> mem_bytes m' x = mem_bytes m x"
  shows "rd_entry m' p = rd_entry m p"
proof -
  have b: "mem_bytes m' (p + of_nat i) = mem_bytes m (p + of_nat i)" if "i < 32" for i
    using that by (intro assms) (simp add: unat_of_nat)
  have "rd_bytes m' (p + of_nat o1) n = rd_bytes m (p + of_nat o1) n" if "o1 + n \<le> 32" for o1 n
    unfolding rd_bytes_def
    by (rule map_cong [OF refl]) (use b [of "o1 + i" for i] that in \<open>simp add: add.assoc\<close>)
  from this [of 0 8] this [of 8 8] this [of 16 8] this [of 28 4] b [of 24] b [of 25] show ?thesis
    by (simp add: rd_entry_def rd_u64_def rd_u32_def rd_u8_def)
qed

lemma batch_mem_loop_list:
  "batch_mem_loop hs env p i n s = (rc, cnt, s') \<Longrightarrow> 32 * n \<le> 2 ^ 64 \<Longrightarrow>
     batch_loop hs env i (pr_km s) (entries_at (pr_mem s) p n) = (rc, cnt, entries_at (pr_mem s') p n, pr_km s')
     \<and> (\<forall>x. \<not> array_has p n x \<longrightarrow> mem_bytes (pr_mem s') x = mem_bytes (pr_mem s) x)"
proof (induction n arbitrary: p i s)
  case 0
  then show ?case by (auto simp: entries_at_def)
next
  case (Suc n)
  let ?m = "pr_mem s" and ?e = "rd_entry (pr_mem s) p"
  show ?case
  proof (cases "be_length ?e = 0 \<or> 4 < be_op ?e")
    case True
    then show ?thesis using Suc.prems(1) by (auto simp: entries_at_Suc)
  next
    case valid: False
    obtain rc1 st k1 where run: "batch_entry_run (hs i) env (pr_km s) ?e = (rc1, st, k1)" by (rule prod_cases3)
    let ?m1 = "wr_u64 ?m p st" and ?s1 = "\<lparr>pr_mem = wr_u64 (pr_mem s) p st, pr_km = k1\<rparr>"
    have m1: "opt_wr64 ?m (rc1 = 0 \<and> entry_maps ?e) p st = ?m1" by (rule batch_round_mem [OF run])
    have e1: "rd_entry ?m1 p = ?e\<lparr>be_start := st\<rparr>" by (rule rd_entry_written)
    have tl1: "entries_at ?m1 (p + 32) n = entries_at ?m (p + 32) n"
      by (rule entries_at_written [OF Suc.prems(2)])
    have out1: "mem_bytes ?m1 x = mem_bytes ?m x" if "\<not> array_has p (Suc n) x" for x
      using that array_has_Suc [OF Suc.prems(2), of p x] by (simp add: wr_u64_def wr_bytes_other)
    show ?thesis
    proof (cases "rc1 = 0")
      case False
      then have "rc = rc1" "cnt = i" "s' = ?s1" using Suc.prems(1) valid run m1 by (auto simp: Let_def)
      with False valid run e1 tl1 out1 show ?thesis by (auto simp: entries_at_Suc)
    next
      case True
      then have rec: "batch_mem_loop hs env (p + 32) (Suc i) n ?s1 = (rc, cnt, s')"
        using Suc.prems(1) valid run m1 by (auto simp: Let_def)
      have IH: "batch_loop hs env (Suc i) k1 (entries_at ?m (p + 32) n)
            = (rc, cnt, entries_at (pr_mem s') (p + 32) n, pr_km s')"
        and out2: "\<And>x. \<not> array_has (p + 32) n x \<Longrightarrow> mem_bytes (pr_mem s') x = mem_bytes ?m1 x"
        using Suc.IH [OF rec] Suc.prems(2) tl1 by auto
      have "rd_entry (pr_mem s') p = rd_entry ?m1 p"
      proof (rule rd_entry_cong)
        fix x assume x: "unat (x - p) < 32"
        have "unat (x - (p + 32)) = 2 ^ 64 + unat (x - p) - 32"
          using x by (simp add: diff_diff_eq [symmetric] unat_sub_if_size word_size)
        then have "\<not> array_has (p + 32) n x" using Suc.prems(2) by (simp add: array_has_def)
        then show "mem_bytes (pr_mem s') x = mem_bytes ?m1 x" by (rule out2)
      qed
      then have "entries_at (pr_mem s') p (Suc n) = ?e\<lparr>be_start := st\<rparr> # entries_at (pr_mem s') (p + 32) n"
        using e1 by (simp add: entries_at_Suc)
      with True valid run IH out1 out2 array_has_Suc [OF Suc.prems(2), of p] show ?thesis
        by (auto simp: entries_at_Suc)
    qed
  qed
qed

lemma wr_prefix_slice:
  assumes "of_nat (length bs) \<le> sz" and "length bs < 2 ^ 32" and "o1 + n \<le> length bs"
  shows "rd_bytes (wr_prefix m p sz bs) (p + of_nat o1) n = take n (drop o1 bs)"
  using assms rd_bytes_slice [of o1 n bs m p] by (auto simp: wr_prefix_def)


definition ex_regs :: guest_ctx where
  "ex_regs = \<lparr>rax = 0, rcx = 0, rdx = 0, rbx = 0, rsp = 0x1000, rbp = 0, rsi = 0, rdi = 0, r8 = 0, r9 = 0,
     r10 = 0, r11 = 0, rip = 0, fs_base = 0, cf = 0, zf = 0, sf = 0, ovf = 0, pf = 0, af = 0,
     fpu_stack = [], fpu_top = 0, thread_id = 1\<rparr>"

text \<open>An array of one entry at 0x1000 that protects one byte at 0.\<close>

definition ex_batch_mem :: guest_mem where
  "ex_batch_mem = \<lparr>mem_mapped = True, mem_size = 0x10000,
     mem_bytes = (\<lambda>_. 0)(0x1010 := 1, 0x101c := 2)\<rparr>"

lemma ex_batch_entry:
  "rd_entry ex_batch_mem 0x1000
     = \<lparr>be_start = 0, be_offset = 0, be_length = 1, be_prot = 0, be_type = 0, be_op = 2\<rparr>"
proof -
  have u: "[0..<8] = [0, 1, 2, 3, 4, 5, 6, 7 :: nat]" "[0..<4] = [0, 1, 2, 3 :: nat]"
    by (simp_all add: eval_nat_numeral)
  have b: "rd_bytes ex_batch_mem 0x1000 8 = [0, 0, 0, 0, 0, 0, 0, 0]"
    "rd_bytes ex_batch_mem 0x1008 8 = [0, 0, 0, 0, 0, 0, 0, 0]"
    "rd_bytes ex_batch_mem 0x1010 8 = [1, 0, 0, 0, 0, 0, 0, 0]"
    "rd_bytes ex_batch_mem 0x101c 4 = [2, 0, 0, 0]"
    by (simp_all add: rd_bytes_def ex_batch_mem_def u)
  have l: "of_le [1, 0, 0, 0, 0, 0, 0, 0] = (1 :: u64)" "of_le [0, 0, 0, 0, 0, 0, 0, 0] = (0 :: u64)"
    "of_le [2, 0, 0, 0] = (2 :: u32)"
    by simp_all
  have "rd_u8 ex_batch_mem 0x1018 = 0" "rd_u8 ex_batch_mem 0x1019 = 0"
    by (simp_all add: rd_u8_def ex_batch_mem_def)
  then show ?thesis by (simp add: rd_entry_def rd_u64_def rd_u32_def b l del: of_le.simps)
qed


section \<open>A mapping and the query after it\<close>

lemma char_byte: "char_of (unat (of_nat (of_char c) :: u8)) = (c :: char)"
proof -
  have "(of_char c :: nat) < 256" using mod_less_divisor [of 256 "of_char c :: nat"] by simp
  then show ?thesis by (simp add: unat_of_nat)
qed

lemma char_byte_zero: "(of_nat (of_char c) :: u8) = 0 \<longleftrightarrow> c = CHR 0x00"
proof
  assume "(of_nat (of_char c) :: u8) = 0"
  then have "char_of (unat (of_nat (of_char c) :: u8)) = (char_of (0::nat) :: char)" by simp
  then show "c = CHR 0x00" unfolding char_byte by (simp add: char_of_def)
qed simp

lemma rd_str_stored:
  assumes "\<And>i. i < length s \<Longrightarrow> mem_bytes m (p + of_nat i) = of_nat (of_char (s ! i))"
    and "mem_bytes m (p + of_nat (length s)) = 0" and "CHR 0x00 \<notin> set s" and "length s < n"
  shows "rd_str m p n = s"
  using assms
proof (induction s arbitrary: p n)
  case Nil
  then show ?case by (cases n) simp_all
next
  case (Cons c s)
  obtain k where n: "n = Suc k" using Cons.prems(4) by (cases n) auto
  have c: "mem_bytes m p = of_nat (of_char c)" using Cons.prems(1) [of 0] by simp
  moreover have "rd_str m (p + 1) k = s"
  proof (rule Cons.IH)
    show "mem_bytes m (p + 1 + of_nat i) = of_nat (of_char (s ! i))" if "i < length s" for i
      using Cons.prems(1) [of "Suc i"] that by (simp add: add.assoc)
    show "mem_bytes m (p + 1 + of_nat (length s)) = 0"
      using Cons.prems(2) by (simp add: add.assoc)
  qed (use Cons.prems n in auto)
  ultimately show ?case using Cons.prems(3) n by (auto simp: char_byte char_byte_zero)
qed

lemma rd_str_props: "length (rd_str m p n) \<le> n \<and> CHR 0x00 \<notin> set (rd_str m p n)"
proof (induction m p n rule: rd_str.induct)
  case (2 m a n)
  have "char_of (unat (mem_bytes m a)) \<noteq> CHR 0x00" if "mem_bytes m a \<noteq> 0"
  proof
    assume "char_of (unat (mem_bytes m a)) = CHR 0x00"
    then have "of_char (char_of (unat (mem_bytes m a)) :: char) = (of_char CHR 0x00 :: nat)" by simp
    moreover have "unat (mem_bytes m a) < 256" using unsigned_less [of "mem_bytes m a", where ?'a = nat] by simp
    ultimately show False using that by (simp add: unat_eq_zero)
  qed
  with 2 show ?case by auto
qed simp

lemma vq_bytes_length [simp]: "length (vq_bytes i) = 72"
  by (simp add: vq_bytes_def name_bytes_def)

text \<open>The fields of the structure, read back from a guest buffer that holds all of it.\<close>

lemma vq_fields:
  fixes m p i
  assumes "72 \<le> sz"
  defines "m' \<equiv> wr_prefix m p sz (vq_bytes i)"
  shows "rd_u64 m' p = vq_start i" and "rd_u64 m' (p + 8) = vq_end i" and "rd_u64 m' (p + 16) = vq_offset i"
    and "rd_u32 m' (p + 24) = vq_prot i" and "rd_u32 m' (p + 28) = vq_flags i"
    and "rd_u32 m' (p + 32) = vq_bits i"
proof -
  have sl: "rd_bytes m' (p + of_nat o1) n = take n (drop o1 (vq_bytes i))" if "o1 + n \<le> 72" for o1 n
    unfolding m'_def using assms(1) that by (intro wr_prefix_slice) simp_all
  from sl [of 0 8] sl [of 8 8] sl [of 16 8] sl [of 24 4] sl [of 28 4] sl [of 32 4]
  show "rd_u64 m' p = vq_start i" and "rd_u64 m' (p + 8) = vq_end i" and "rd_u64 m' (p + 16) = vq_offset i"
    and "rd_u32 m' (p + 24) = vq_prot i" and "rd_u32 m' (p + 28) = vq_flags i"
    and "rd_u32 m' (p + 32) = vq_bits i"
    by (simp_all add: rd_u64_def rd_u32_def vq_bytes_def of_le_le_bytes)
qed

lemma vq_name_field:
  assumes "72 \<le> sz" and "length (vq_name i) < 32" and "CHR 0x00 \<notin> set (vq_name i)"
  shows "rd_str (wr_prefix m p sz (vq_bytes i)) (p + 36) 32 = vq_name i"
proof (rule rd_str_stored)
  let ?m = "wr_prefix m p sz (vq_bytes i)"
  have at: "mem_bytes ?m (p + of_nat k) = vq_bytes i ! k" if "k < 72" for k
  proof -
    have "rd_bytes ?m (p + of_nat k) 1 = take 1 (drop k (vq_bytes i))"
      using assms(1) that by (intro wr_prefix_slice) simp_all
    with that show ?thesis by (simp add: rd_bytes_def take_Suc_conv_app_nth)
  qed
  have nm: "vq_bytes i ! (36 + k) = name_bytes 32 (vq_name i) ! k" if "k < 32" for k
    using that by (simp add: vq_bytes_def nth_append name_bytes_def)
  have p36: "p + 36 + of_nat k = p + of_nat (36 + k)" for k by simp
  show "mem_bytes ?m (p + 36 + of_nat k) = of_nat (of_char (vq_name i ! k))" if "k < length (vq_name i)" for k
    unfolding p36 using at [of "36 + k"] nm [of k] that assms(2) by (simp add: name_bytes_def nth_append)
  show "mem_bytes ?m (p + 36 + of_nat (length (vq_name i))) = 0"
    unfolding p36 using at [of "36 + length (vq_name i)"] nm [of "length (vq_name i)"] assms(2)
    by (simp add: name_bytes_def nth_append)
qed (use assms in simp_all)

lemma kerr_not_ok [simp]: "sext64 rc = 0 \<longleftrightarrow> rc = 0"
proof
  assume z: "sext64 rc = 0"
  show "rc = 0"
  proof (rule bit_word_eqI)
    fix n assume n: "n < LENGTH(32)"
    have "\<not> bit (sext64 rc) n" unfolding z by simp
    with n show "bit rc n = bit (0 :: i32) n" by (simp add: bit_simps)
  qed
qed simp

lemma kerr_nonzero: "fst (sceKernelMapNamedFlexibleMemory h k a len prot flags nm) \<noteq> Inl 0"
  by (auto simp: sceKernelMapNamedFlexibleMemory_def Let_def split: option.splits prod.splits if_splits)

lemma dm_lookup_in: "dm_lookup d a = Some (u, t, p) \<Longrightarrow> u \<le> a \<and> a < t"
  by (auto simp: dm_lookup_def find_Some_iff split: option.splits)

text \<open>The query on an address the view maps.\<close>

lemma query_mapped:
  assumes "vm_view (km_vm k) a = Mapped prot flags mt nm"
  obtains i where "sceKernelVirtualQuery k a False 72 = Inr i" and "vq_start i \<le> a" and "a < vq_end i"
    and "vq_prot i = (if prot = 0 then 3 else prot)" and "vq_flags i = flags" and "vq_committed i"
    and "vq_name i = strncpy_name 32 nm"
proof -
  obtain e where e: "ext_lookup (vm_extents (km_vm k)) a = Some e" and pg: "ext_page e = Mapped prot flags mt nm"
    using assms by (auto simp: vm_view_def exts_view_def split: option.splits)
  have at: "\<not> ext_free e" "ext_prot e = prot" "ext_flags e = flags" "ext_name e = nm"
    using pg by (auto simp: ext_page_def split: if_splits)
  from range_lookup_SomeD [OF e] have in_e: "ext_addr e \<le> a" "a < ext_addr e + ext_size e"
    by (simp_all add: covers_def in_range_def)
  have find: "recomp_vm_find (km_vm k) a = Some e" by (simp add: recomp_vm_find_lookup e)
  obtain i where i: "sceKernelVirtualQuery k a False 72 = Inr i"
    using find by (cases "dm_lookup (km_ds k) a") (auto simp: sceKernelVirtualQuery_def intro: that)
  have "vq_start i \<le> a \<and> a < vq_end i \<and> vq_committed i"
    using i find at in_e dm_lookup_in [of "km_ds k" a]
    by (cases "dm_lookup (km_ds k) a") (auto simp: sceKernelVirtualQuery_def Let_def)
  moreover have "vq_prot i = shown_prot e \<and> vq_flags i = flags \<and> vq_name i = strncpy_name 32 nm"
    using i find at by (cases "dm_lookup (km_ds k) a") (auto simp: sceKernelVirtualQuery_def Let_def)
  ultimately show ?thesis using at by (intro that [OF i]) (auto simp: shown_prot_def)
qed


definition ex_zero_mem :: guest_mem where
  "ex_zero_mem = \<lparr>mem_mapped = True, mem_size = 0x2000000000, mem_bytes = (\<lambda>_. 0)\<rparr>"


end
