(* ===== verification/SyncObjects.thy ===== *)
theory SyncObjects
  imports VmProps GuestMem
begin

unbundle bit_operations_syntax

text \<open>
  The guest-visible synchronisation objects of \<open>kernel/sync/ps4_sync_objects.c\<close>: an arena of
  \<open>2 ^ 20\<close> slots of 128 bytes in guest memory, mapped by the virtual memory manager at the first
  allocation. A handle is the guest address of a live slot. All calls hold \<open>g_lock\<close>.
\<close>

section \<open>State and operations\<close>

text \<open>\<open>sa_free\<close> is the stack \<open>g_free\<close> with its top first; \<open>sa_live\<close> the array \<open>g_live\<close>.\<close>

record sync_arena =
  sa_base :: u64
  sa_next :: u64
  sa_free :: "u32 list"
  sa_live :: "u64 \<Rightarrow> bool"

abbreviation (input) SYNC_OBJ_STRIDE :: u64 where "SYNC_OBJ_STRIDE \<equiv> 0x80"
abbreviation (input) SYNC_OBJ_SLOTS :: u64 where "SYNC_OBJ_SLOTS \<equiv> 0x100000"

definition sync_arena0 :: sync_arena where
  "sync_arena0 = \<lparr>sa_base = 0, sa_next = 0, sa_free = [], sa_live = (\<lambda>_. False)\<rparr>"

text \<open>The slot that is handed out: a freed one first, else the next one never used.\<close>

definition sync_pick :: "sync_arena \<Rightarrow> (u64 \<times> sync_arena) option" where
  "sync_pick a =
     (case sa_free a of
        s # r \<Rightarrow> Some (ucast s, a\<lparr>sa_free := r\<rparr>)
      | [] \<Rightarrow> if sa_next a < SYNC_OBJ_SLOTS then Some (sa_next a, a\<lparr>sa_next := sa_next a + 1\<rparr>) else None)"

definition sync_take :: "guest_mem \<Rightarrow> sync_arena \<Rightarrow> u64 \<times> guest_mem \<times> sync_arena" where
  "sync_take m a =
     (case sync_pick a of
        None \<Rightarrow> (0, m, a)
      | Some (slot, a1) \<Rightarrow>
          (sa_base a + slot * SYNC_OBJ_STRIDE,
           wr_bytes m (sa_base a + slot * SYNC_OBJ_STRIDE) (replicate 0x80 0),
           a1\<lparr>sa_live := (sa_live a1)(slot := True)\<rparr>))"

text \<open>
  \<open>c1\<close> and \<open>c2\<close> are the bookkeeping allocations of the virtual memory manager, \<open>malloc_ok\<close>
  whether the two host arrays can be allocated.
\<close>

definition sync_obj_alloc ::
    "bool \<Rightarrow> bool \<Rightarrow> bool \<Rightarrow> vm \<Rightarrow> guest_mem \<Rightarrow> sync_arena \<Rightarrow> u64 \<times> vm \<times> guest_mem \<times> sync_arena" where
  "sync_obj_alloc c1 c2 malloc_ok v m a =
     (if sa_base a = 0 then
        (let (addr, v1) = recomp_vm_alloc_named c1 c2 v (SYNC_OBJ_STRIDE * SYNC_OBJ_SLOTS) 3 0
                            (Some ''sync_objects'')
         in if addr = BAD_ADDR \<or> \<not> malloc_ok then (0, v1, m, a)
            else (let (r, m', a') = sync_take m (a\<lparr>sa_base := addr\<rparr>) in (r, v1, m', a')))
      else (let (r, m', a') = sync_take m a in (r, v, m', a')))"

text \<open>The result \<open>-1\<close> of the C functions is \<open>None\<close>.\<close>

definition sync_obj_index :: "sync_arena \<Rightarrow> u64 \<Rightarrow> u64 option" where
  "sync_obj_index a v =
     (if sa_base a = 0 \<or> v < sa_base a then None else
      let off = v - sa_base a
      in if SYNC_OBJ_STRIDE * SYNC_OBJ_SLOTS \<le> off \<or> off mod SYNC_OBJ_STRIDE \<noteq> 0 then None
         else Some (off div SYNC_OBJ_STRIDE))"

definition sync_obj_slot :: "sync_arena \<Rightarrow> u64 \<Rightarrow> u64 option" where
  "sync_obj_slot a v =
     (case sync_obj_index a v of None \<Rightarrow> None | Some s \<Rightarrow> if sa_live a s then Some s else None)"

definition sync_obj_free :: "u64 \<Rightarrow> sync_arena \<Rightarrow> sync_arena" where
  "sync_obj_free v a =
     (case sync_obj_slot a v of
        None \<Rightarrow> a
      | Some s \<Rightarrow> a\<lparr>sa_live := (sa_live a)(s := False), sa_free := ucast s # sa_free a\<rparr>)"

definition sync_obj_hash :: "u64 \<Rightarrow> u64" where
  "sync_obj_hash v = v div SYNC_OBJ_STRIDE"

section \<open>Invariant and handles\<close>

definition sync_ok :: "sync_arena \<Rightarrow> bool" where
  "sync_ok a \<longleftrightarrow> unat (sa_next a) \<le> 2 ^ 20 \<and> unat (sa_base a) + 2 ^ 27 \<le> 2 ^ 64
     \<and> distinct (sa_free a)
     \<and> (\<forall>s \<in> set (sa_free a). unat s < unat (sa_next a) \<and> \<not> sa_live a (ucast s))
     \<and> (\<forall>s. sa_live a s \<longrightarrow> unat s < unat (sa_next a))
     \<and> (\<forall>s. unat s < unat (sa_next a) \<longrightarrow> sa_live a s \<or> ucast s \<in> set (sa_free a))
     \<and> (sa_base a = 0 \<longrightarrow> sa_next a = 0)"

definition sync_handles :: "sync_arena \<Rightarrow> u64 set" where
  "sync_handles a = {v. sync_obj_slot a v \<noteq> None}"

lemma sync_ok0: "sync_ok sync_arena0" "sync_handles sync_arena0 = {}"
  by (simp_all add: sync_ok_def sync_arena0_def sync_handles_def sync_obj_slot_def sync_obj_index_def)

lemma slot_addr:
  assumes "unat s < 2 ^ 20" and "unat b + 2 ^ 27 \<le> 2 ^ 64"
  shows "unat (b + s * 0x80 :: u64) = unat b + 128 * unat s"
proof -
  have m: "unat (s * 0x80 :: u64) = 128 * unat s" using assms(1) by (simp add: unat_word_ariths)
  show ?thesis using assms m by (subst unat_word_ariths) simp
qed

lemma sync_index_iff:
  assumes "sync_ok a" and "sa_base a \<noteq> 0"
  shows "sync_obj_index a v = Some s \<longleftrightarrow> unat s < 2 ^ 20 \<and> v = sa_base a + s * 0x80"
proof
  assume l: "sync_obj_index a v = Some s"
  let ?off = "v - sa_base a"
  from l have o: "?off < 0x8000000" "?off mod 0x80 = 0" "s = ?off div 0x80"
    using assms(2) by (auto simp: sync_obj_index_def Let_def not_le split: if_splits)
  have "s * 0x80 = ?off" using o(2,3) mult_div_mod_eq [of "0x80" ?off] by (simp add: mult.commute)
  moreover have "unat s < 2 ^ 20"
    using o(1) unfolding o(3) by (simp add: unat_div word_less_nat_alt)
  ultimately show "unat s < 2 ^ 20 \<and> v = sa_base a + s * 0x80" by simp
next
  assume r: "unat s < 2 ^ 20 \<and> v = sa_base a + s * 0x80"
  then have a: "unat v = unat (sa_base a) + 128 * unat s"
    using slot_addr [of s "sa_base a"] assms(1) by (simp add: sync_ok_def)
  have m: "unat (s * 0x80) = 128 * unat s" using r by (simp add: unat_word_ariths)
  have "\<not> v < sa_base a" using a by (simp add: word_less_nat_alt)
  moreover have "\<not> 0x8000000 \<le> s * 0x80" using m r by (simp add: word_le_nat_alt)
  moreover have "s * 0x80 mod 0x80 = 0"
    by (rule word_unat_eq_iff [THEN iffD2]) (simp add: unat_mod m)
  moreover have "s * 0x80 div 0x80 = s"
    by (rule word_unat_eq_iff [THEN iffD2]) (simp add: unat_div m)
  ultimately show "sync_obj_index a v = Some s"
    using r assms(2) by (simp add: sync_obj_index_def Let_def)
qed

lemma sync_handle_iff:
  assumes "sync_ok a"
  shows "v \<in> sync_handles a \<longleftrightarrow> sa_base a \<noteq> 0 \<and> (\<exists>s. sa_live a s \<and> v = sa_base a + s * 0x80)"
proof (cases "sa_base a = 0")
  case True
  then show ?thesis by (simp add: sync_handles_def sync_obj_slot_def sync_obj_index_def)
next
  case False
  have l: "sa_live a s \<Longrightarrow> unat s < 2 ^ 20" for s using assms unfolding sync_ok_def by fastforce
  have "v \<in> sync_handles a \<longleftrightarrow> (\<exists>s. sync_obj_index a v = Some s \<and> sa_live a s)"
    by (auto simp: sync_handles_def sync_obj_slot_def split: option.splits)
  also have "\<dots> \<longleftrightarrow> (\<exists>s. sa_live a s \<and> v = sa_base a + s * 0x80)"
    using l unfolding sync_index_iff [OF assms False] by blast
  finally show ?thesis using False by blast
qed

text \<open>Distinct slots are at distinct addresses, and their bytes do not overlap.\<close>

lemma slot_apart:
  assumes "sync_ok a" "unat s < 2 ^ 20" "unat s' < 2 ^ 20" "s \<noteq> s'"
  shows "128 \<le> unat (sa_base a + s * 0x80 - (sa_base a + s' * 0x80))"
    and "sa_base a + s * 0x80 \<noteq> sa_base a + s' * 0x80"
proof -
  have m: "unat (t * 0x80 :: u64) = 128 * unat t" if "unat t < 2 ^ 20" for t
    using that by (simp add: unat_word_ariths)
  have d: "sa_base a + s * 0x80 - (sa_base a + s' * 0x80) = s * 0x80 - s' * 0x80" by simp
  have ne: "unat s \<noteq> unat s'" using assms(4) by (simp add: word_unat_eq_iff)
  have u: "unat (s * 0x80 - s' * 0x80 :: u64) = (if unat s' \<le> unat s then 128 * unat s - 128 * unat s'
      else 2 ^ 64 + 128 * unat s - 128 * unat s')"
  proof (cases "unat s' \<le> unat s")
    case True
    then have "unat (s' * 0x80) \<le> unat (s * 0x80 :: u64)" using m assms by simp
    from unat_sub_le [OF this] show ?thesis using True m assms by simp
  next
    case False
    let ?k = "int (128 * unat s) - int (128 * unat s')"
    have x: "uint (s * 0x80 :: u64) = int (128 * unat s)" "uint (s' * 0x80 :: u64) = int (128 * unat s')"
      using m [OF assms(2)] m [OF assms(3)] by (metis uint_nat)+
    have "uint (s * 0x80 - s' * 0x80 :: u64) = (uint (s * 0x80) - uint (s' * 0x80)) mod 2 ^ LENGTH(64)"
      by (rule uint_word_ariths(2))
    then have "uint (s * 0x80 - s' * 0x80 :: u64) = ?k mod 2 ^ 64"
      unfolding x by (simp only: len_of_numeral_defs) simp
    also have "\<dots> = (?k + 2 ^ 64) mod 2 ^ 64" by simp
    also have "\<dots> = ?k + 2 ^ 64"
    proof -
      have "(int (128 * i) - int (128 * j) + 2 ^ 64) mod 2 ^ 64 = int (128 * i) - int (128 * j) + 2 ^ 64"
        if "\<not> j \<le> i" "j < 2 ^ 20" for i j
        using that by (intro mod_pos_pos_trivial) auto
      from this [OF False assms(3)] show ?thesis .
    qed
    finally have "unat (s * 0x80 - s' * 0x80 :: u64) = nat (?k + 2 ^ 64)"
      by (simp only: unat_eq_nat_uint)
    moreover have "nat (int (128 * i) - int (128 * j) + 2 ^ 64) = 2 ^ 64 + 128 * i - 128 * j"
      if "\<not> j \<le> i" "j < 2 ^ 20" for i j
      using that by (simp add: nat_eq_iff)
    note this [OF False assms(3)]
    ultimately show ?thesis using False by (simp only: if_False)
  qed
  show "128 \<le> unat (sa_base a + s * 0x80 - (sa_base a + s' * 0x80))"
    unfolding d u using ne assms(2,3) by auto
  then show "sa_base a + s * 0x80 \<noteq> sa_base a + s' * 0x80" by (metis diff_self unat_0 not_numeral_le_zero)
qed

section \<open>Allocation and freeing\<close>

lemma unat_u32_u64: "unat (ucast s :: u64) = unat s" for s :: u32
proof -
  have "unat s < 2 ^ 32" using unsigned_less [of s, where ?'a = nat] by simp
  then have "take_bit 64 (unat s) = unat s" by (intro take_bit_nat_eq_self) simp
  then show ?thesis by (simp add: unsigned_ucast_eq)
qed

lemma unat_u64_u32: "unat s \<le> 2 ^ 20 \<Longrightarrow> unat (ucast s :: u32) = unat s" for s :: u64
proof -
  assume "unat s \<le> 2 ^ 20"
  then have "take_bit 32 (unat s) = unat s" by (intro take_bit_nat_eq_self) simp
  then show ?thesis by (simp only: unsigned_ucast_eq) simp
qed

lemma ucast_u32: "unat s \<le> 2 ^ 20 \<Longrightarrow> ucast (ucast s :: u32) = s" for s :: u64
  by (rule word_unat_eq_iff [THEN iffD2]) (simp only: unat_u32_u64 unat_u64_u32)

lemma sync_pick_fresh:
  assumes ok: "sync_ok a" and p: "sync_pick a = Some (slot, a1)"
  shows "unat slot < 2 ^ 20" "\<not> sa_live a slot" "sa_base a1 = sa_base a" "sa_live a1 = sa_live a"
    and "sa_base a \<noteq> 0 \<Longrightarrow> sync_ok (a1\<lparr>sa_live := (sa_live a1)(slot := True)\<rparr>)"
proof -
  have "unat slot < 2 ^ 20 \<and> \<not> sa_live a slot \<and> sa_base a1 = sa_base a \<and> sa_live a1 = sa_live a
    \<and> (sa_base a \<noteq> 0 \<longrightarrow> sync_ok (a1\<lparr>sa_live := (sa_live a1)(slot := True)\<rparr>))"
  proof (cases "sa_free a")
    case Nil
    with p have n: "sa_next a < 0x100000" "slot = sa_next a" "a1 = a\<lparr>sa_next := sa_next a + 1\<rparr>"
      by (auto simp: sync_pick_def split: if_splits)
    have u: "unat (sa_next a + 1) = unat (sa_next a) + 1" "unat (sa_next a) < 2 ^ 20"
      using n(1) by (simp_all add: word_less_nat_alt unat_word_ariths)
    have live: "sa_live a s \<Longrightarrow> unat s < unat (sa_next a)" for s using ok unfolding sync_ok_def by blast
    have all: "unat s < unat (sa_next a) \<Longrightarrow> sa_live a s" for s using ok Nil unfolding sync_ok_def by auto
    have eq: "unat s < unat (sa_next a) + 1 \<longleftrightarrow> unat s < unat (sa_next a) \<or> s = sa_next a" for s
      by (auto simp: less_Suc_eq word_unat_eq_iff)
    have "\<not> sa_live a slot" using live n(2) by blast
    moreover have "sync_ok (a1\<lparr>sa_live := (sa_live a1)(slot := True)\<rparr>)" if "sa_base a \<noteq> 0"
      using that ok n u Nil live all eq [unfolded Suc_eq_plus1 [symmetric]]
      unfolding sync_ok_def by (auto intro: less_SucI)
    ultimately show ?thesis using n u by auto
  next
    case (Cons s r)
    with p have n: "slot = ucast s" "a1 = a\<lparr>sa_free := r\<rparr>" by (auto simp: sync_pick_def)
    have s: "unat s < unat (sa_next a)" "\<not> sa_live a (ucast s)" "unat (sa_next a) \<le> 2 ^ 20" "s \<notin> set r"
      using ok Cons unfolding sync_ok_def by auto
    have us: "unat (ucast s :: u64) = unat s" by (rule unat_u32_u64)
    have inj: "(ucast s' :: u64) = ucast s \<longleftrightarrow> s' = s" for s' :: u32
      by (simp only: word_unat_eq_iff unat_u32_u64)
    have "sync_ok (a1\<lparr>sa_live := (sa_live a1)(slot := True)\<rparr>)" if "sa_base a \<noteq> 0"
      unfolding sync_ok_def
    proof (intro conjI ballI allI impI)
      fix x assume x: "x \<in> set (sa_free (a1\<lparr>sa_live := (sa_live a1)(slot := True)\<rparr>))"
      then have x: "x \<in> set r" using n by simp
      then show "unat x < unat (sa_next (a1\<lparr>sa_live := (sa_live a1)(slot := True)\<rparr>))"
        using ok Cons n unfolding sync_ok_def by simp
      have "x \<noteq> s" using x s by blast
      then show "\<not> sa_live (a1\<lparr>sa_live := (sa_live a1)(slot := True)\<rparr>) (ucast x)"
        using ok Cons n x inj [of x] unfolding sync_ok_def by simp
    next
      fix x assume "sa_live (a1\<lparr>sa_live := (sa_live a1)(slot := True)\<rparr>) x"
      then show "unat x < unat (sa_next (a1\<lparr>sa_live := (sa_live a1)(slot := True)\<rparr>))"
        using ok n s us unfolding sync_ok_def by (auto split: if_splits)
    next
      fix x :: u64 assume x: "unat x < unat (sa_next (a1\<lparr>sa_live := (sa_live a1)(slot := True)\<rparr>))"
      then have x: "unat x < unat (sa_next a)" using n by simp
      then have "sa_live a x \<or> ucast x \<in> set (s # r)" using ok Cons unfolding sync_ok_def by auto
      moreover have "ucast x = s \<Longrightarrow> x = ucast s" using ucast_u32 [of x] x s(3) by auto
      ultimately show "sa_live (a1\<lparr>sa_live := (sa_live a1)(slot := True)\<rparr>) x
          \<or> ucast x \<in> set (sa_free (a1\<lparr>sa_live := (sa_live a1)(slot := True)\<rparr>))"
        using n by auto
    qed (use ok n that Cons in \<open>auto simp: sync_ok_def\<close>)
    then show ?thesis using n s us by auto
  qed
  then show "unat slot < 2 ^ 20" "\<not> sa_live a slot" "sa_base a1 = sa_base a" "sa_live a1 = sa_live a"
    "sa_base a \<noteq> 0 \<Longrightarrow> sync_ok (a1\<lparr>sa_live := (sa_live a1)(slot := True)\<rparr>)" by auto
qed

text \<open>Taking a slot of a mapped arena adds one handle, whose bytes are zero.\<close>

definition sync_added :: "sync_arena \<Rightarrow> guest_mem \<Rightarrow> u64 \<Rightarrow> guest_mem \<Rightarrow> sync_arena \<Rightarrow> bool" where
  "sync_added a m r m' a' \<longleftrightarrow> r \<notin> sync_handles a \<and> sync_handles a' = insert r (sync_handles a)
     \<and> rd_bytes m' r 128 = replicate 128 0
     \<and> (\<forall>x. 128 \<le> unat (x - r) \<longrightarrow> mem_bytes m' x = mem_bytes m x)
     \<and> (\<forall>h \<in> sync_handles a. 128 \<le> unat (h - r) \<and> 128 \<le> unat (r - h))"

lemma sync_take_exact:
  assumes ok: "sync_ok a" and b: "sa_base a \<noteq> 0" and t: "sync_take m a = (r, m', a')"
  shows "sync_ok a' \<and> (if r = 0 then a' = a \<and> m' = m \<and> (\<forall>s. unat s < 2 ^ 20 \<longrightarrow> sa_live a s) else sync_added a m r m' a')"
proof (cases "sync_pick a")
  case None
  then have "sa_free a = []" "\<not> sa_next a < 0x100000"
    by (auto simp: sync_pick_def split: list.splits if_splits)
  moreover have "unat (sa_next a) \<le> 2 ^ 20" using ok by (simp add: sync_ok_def)
  ultimately have "unat s < 2 ^ 20 \<longrightarrow> sa_live a s" for s
    using ok unfolding sync_ok_def by (auto simp: word_less_nat_alt)
  then show ?thesis using None t ok by (simp add: sync_take_def)
next
  case (Some p)
  obtain slot a1 where p: "p = (slot, a1)" by (rule prod.exhaust)
  note f = sync_pick_fresh [OF ok Some [unfolded p]]
  have e: "r = sa_base a + slot * 0x80" "m' = wr_bytes m r (replicate 0x80 0)"
    "a' = a1\<lparr>sa_live := (sa_live a1)(slot := True)\<rparr>"
    using t Some p by (auto simp: sync_take_def)
  have ok': "sync_ok a'" unfolding e by (rule f(5) [OF b])
  have h: "h \<in> sync_handles a \<longleftrightarrow> (\<exists>s. sa_live a s \<and> h = sa_base a + s * 0x80)" for h
    using sync_handle_iff [OF ok] b by simp
  have h': "h \<in> sync_handles a' \<longleftrightarrow> (\<exists>s. (s = slot \<or> sa_live a s) \<and> h = sa_base a + s * 0x80)" for h
    using sync_handle_iff [OF ok', of h] b f(3,4) by (auto simp: e(3))
  have lt: "sa_live a s \<Longrightarrow> unat s < 2 ^ 20" for s using ok unfolding sync_ok_def by fastforce
  have ap: "128 \<le> unat (h - r) \<and> 128 \<le> unat (r - h) \<and> h \<noteq> r" if "h \<in> sync_handles a" for h
  proof -
    from that h obtain s where s: "sa_live a s" "h = sa_base a + s * 0x80" by blast
    then have "s \<noteq> slot" using f(2) by blast
    then show ?thesis
      using slot_apart [OF ok lt [OF s(1)] f(1)] slot_apart [OF ok f(1) lt [OF s(1)]] s(2) e(1) by auto
  qed
  have "unat r = unat (sa_base a) + 128 * unat slot"
    using slot_addr [OF f(1)] ok by (simp add: e(1) sync_ok_def)
  moreover have "0 < unat (sa_base a)" using b by (simp add: unat_gt_0)
  ultimately have "r \<noteq> 0" by (metis add_is_0 less_not_refl unat_0)
  moreover have "sync_handles a' = insert r (sync_handles a)"
    using h h' e(1) by blast
  moreover have "rd_bytes m' r 128 = replicate 128 0"
    using rd_wr_bytes [of "replicate 128 (0 :: u8)" m r] by (simp add: e(2))
  moreover have "\<forall>x. 128 \<le> unat (x - r) \<longrightarrow> mem_bytes m' x = mem_bytes m x"
    unfolding e(2) by (auto intro: wr_bytes_other)
  ultimately show ?thesis using ok' ap by (simp add: sync_added_def) blast
qed

lemma sync_free_exact:
  assumes ok: "sync_ok a"
  shows "sync_ok (sync_obj_free v a) \<and> sync_handles (sync_obj_free v a) = sync_handles a - {v}"
proof (cases "sync_obj_slot a v")
  case None
  then have "sync_obj_free v a = a" "v \<notin> sync_handles a" by (simp_all add: sync_obj_free_def sync_handles_def)
  then show ?thesis using ok by auto
next
  case (Some s)
  then have i: "sync_obj_index a v = Some s" "sa_live a s"
    by (auto simp: sync_obj_slot_def split: option.splits if_splits)
  then have b: "sa_base a \<noteq> 0" by (auto simp: sync_obj_index_def)
  have s: "unat s < 2 ^ 20" "v = sa_base a + s * 0x80" using i(1) sync_index_iff [OF ok b] by auto
  have lt: "sa_live a s' \<Longrightarrow> unat s' < 2 ^ 20" for s' using ok unfolding sync_ok_def by fastforce
  define a' where "a' = sync_obj_free v a"
  have e: "a' = a\<lparr>sa_live := (sa_live a)(s := False), sa_free := ucast s # sa_free a\<rparr>"
    using Some by (simp add: a'_def sync_obj_free_def)
  have us: "ucast (ucast s :: u32) = s" "unat (ucast s :: u32) = unat s"
    using ucast_u32 [of s] unat_u64_u32 [of s] s(1) by simp_all
  have notin: "ucast s \<notin> set (sa_free a)"
    using ok i(2) us(1) unfolding sync_ok_def by metis
  have ok': "sync_ok a'"
    unfolding sync_ok_def
  proof (intro conjI ballI allI impI)
    show "distinct (sa_free a')" using ok notin by (simp add: e sync_ok_def)
  next
    fix x :: u32 assume x: "x \<in> set (sa_free a')"
    show "unat x < unat (sa_next a')"
      using x ok i(2) us(2) unfolding e sync_ok_def by auto
    show "\<not> sa_live a' (ucast x)"
      using x ok us(1) unfolding e sync_ok_def by auto
  next
    fix x assume "sa_live a' x"
    then show "unat x < unat (sa_next a')" using ok unfolding e sync_ok_def by (auto split: if_splits)
  next
    fix x :: u64 assume "unat x < unat (sa_next a')"
    then show "sa_live a' x \<or> ucast x \<in> set (sa_free a')"
      using ok unfolding e sync_ok_def by auto
  qed (use ok b in \<open>auto simp: e sync_ok_def\<close>)
  have "h \<in> sync_handles a' \<longleftrightarrow> h \<in> sync_handles a \<and> h \<noteq> v" for h
  proof -
    have "h \<in> sync_handles a' \<longleftrightarrow> (\<exists>s'. sa_live a s' \<and> s' \<noteq> s \<and> h = sa_base a + s' * 0x80)"
      using sync_handle_iff [OF ok'] b by (auto simp: e)
    then show ?thesis
      using sync_handle_iff [OF ok] b s slot_apart(2) [OF ok _ s(1)] lt by blast
  qed
  then show ?thesis using ok' unfolding a'_def by blast
qed

text \<open>
  The live handles behave like a set: an allocation either fails and leaves them as they are,
  which in a mapped arena happens only when all \<open>2 ^ 20\<close> slots are live, or adds one new handle
  whose 128 bytes are zero, changes no other memory, and does not overlap another object;
  freeing removes exactly the given handle, and anything that is not a handle is ignored.
\<close>

theorem sync_objects_exact:
  assumes "sync_ok a" and "vm_wf v" and "vm_request_ok v 0x8000000 4096" and "vm_view v 0 \<noteq> Free"
    and "sync_obj_alloc c1 c2 malloc_ok v m a = (r, v', m', a')"
  shows "sync_ok a' \<and> vm_wf v'
    \<and> (if r = 0 then sync_handles a' = sync_handles a \<and> m' = m
          \<and> (sa_base a \<noteq> 0 \<longrightarrow> (\<forall>s. unat s < 2 ^ 20 \<longrightarrow> sa_live a s))
        else sync_added a m r m' a')
    \<and> sync_ok (sync_obj_free h a) \<and> sync_handles (sync_obj_free h a) = sync_handles a - {h}"
proof (cases "sa_base a = 0")
  case False
  then have t: "sync_take m a = (r, m', a')" "v' = v"
    using assms(5) by (auto simp: sync_obj_alloc_def split: prod.splits)
  show ?thesis using sync_take_exact [OF assms(1) False t(1)] sync_free_exact [OF assms(1)] assms(2) t(2)
    by auto
next
  case True
  obtain addr v1 where al: "recomp_vm_alloc_named_aligned c1 c2 v 0x8000000 4096 3 0 (Some ''sync_objects'') = (addr, v1)"
    by (rule prod.exhaust)
  have v1: "vm_wf v1" using alloc_aligned_wf [OF assms(2,3), of c1 c2 3 0 "Some ''sync_objects''"] al by simp
  have empty: "sync_handles a = {}" using sync_handle_iff [OF assms(1)] True by blast
  show ?thesis
  proof (cases "addr = BAD_ADDR \<or> \<not> malloc_ok")
    case fail: True
    then have "(r, v', m', a') = (0, v1, m, a)"
      using assms(5) True al by (simp add: sync_obj_alloc_def recomp_vm_alloc_named_def)
    then show ?thesis using assms(1) v1 sync_free_exact [OF assms(1)] True by simp
  next
    case False
    let ?a = "a\<lparr>sa_base := addr\<rparr>"
    have t: "sync_take m ?a = (r, m', a')" "v' = v1"
      using assms(5) True False al by (auto simp: sync_obj_alloc_def recomp_vm_alloc_named_def split: prod.splits)
    have ea: "vm_eff_align 4096 = 4096" by (simp add: vm_eff_align_def)
    have sz: "unat (0x8000000 :: u64) \<le> unat (align_up 0x8000000 4096)"
      by (rule align_up_bounds(1)) simp_all
    have nb: "addr \<noteq> BAD_ADDR" using False by blast
    note took = alloc_aligned_view(1) [OF assms(2,3) al nb, unfolded ea]
      and bnd = alloc_aligned_view(4) [OF assms(2,3) al nb, unfolded ea]
    have "vm_view v addr = Free" using took sz unfolding vm_took_def by simp
    then have nz: "addr \<noteq> 0" using assms(4) by auto
    have ok: "sync_ok ?a"
      using assms(1) True sz bnd u64_lt [of "vm_mem_size v"] unfolding sync_ok_def by auto
    have "sync_handles ?a = {}"
      using sync_handle_iff [OF ok] assms(1) True unfolding sync_ok_def by auto
    then show ?thesis
      using sync_take_exact [OF ok _ t(1)] nz v1 t(2) empty True sync_free_exact [OF assms(1)]
      by (auto simp: sync_added_def)
  qed
qed

theorem sync_objects_exact_witness:
  "\<exists>r v' m' a'. sync_obj_alloc True True True ex_vm
      \<lparr>mem_mapped = True, mem_size = 0x2000000000, mem_bytes = (\<lambda>_. 0xff)\<rparr> sync_arena0 = (r, v', m', a')
     \<and> r = 0x100000 \<and> sync_ok a' \<and> sync_handles a' = {0x100000}"
proof -
  let ?m = "\<lparr>mem_mapped = True, mem_size = 0x2000000000, mem_bytes = (\<lambda>_. 0xff)\<rparr>"
  obtain r v' m' a' where al: "sync_obj_alloc True True True ex_vm ?m sync_arena0 = (r, v', m', a')"
    by (metis prod_cases4)
  have r: "r = 0x100000"
    using al by (simp add: sync_obj_alloc_def recomp_vm_alloc_named_def ex_vm_eq vm_eval sync_arena0_def
        sync_take_def sync_pick_def)
  have "vm_view ex_vm 0 \<noteq> Free"
    by (simp add: ex_vm_eq vm_view_def exts_view_def range_lookup_def covers_def in_range_def free_ext_def)
  moreover have "vm_request_ok ex_vm 0x8000000 4096" by (simp add: ex_vm_eq vm_eval)
  ultimately have x: "sync_ok a' \<and> sync_added sync_arena0 ?m r m' a'"
    using sync_objects_exact [OF sync_ok0(1) ex_vm_wf _ _ al] r by simp
  then have "sync_handles a' = {0x100000}" using r sync_ok0(2) by (simp add: sync_added_def)
  then show ?thesis using al r x by blast
qed

end
