(* ===== verification/SlotTable.thy ===== *)
theory SlotTable
  imports Prelude
begin

text \<open>
  The tables of kernel objects (event flags, semaphores) share a shape: a fixed array whose
  lowest unused slot is taken, handles that name slots, and operations on the object behind a
  handle. The contract is the partial map from live handles to objects: creating adds a fresh
  handle, deleting removes one, an operation updates one entry, and a dead handle is refused.
  It is stated here as the locales \<open>handle_map\<close> and \<open>handle_ops\<close>; each table interprets them.
\<close>

section \<open>The lowest unused slot\<close>

fun first_free :: "(nat \<Rightarrow> bool) \<Rightarrow> nat \<Rightarrow> nat \<Rightarrow> nat option" where
  "first_free used i 0 = None"
| "first_free used i (Suc n) = (if \<not> used i then Some i else first_free used (Suc i) n)"

lemma first_free_Some:
  "first_free used i n = Some k \<Longrightarrow> i \<le> k \<and> k < i + n \<and> \<not> used k \<and> (\<forall>j. i \<le> j \<and> j < k \<longrightarrow> used j)"
proof (induction n arbitrary: i)
  case 0
  then show ?case by simp
next
  case (Suc n)
  show ?case
  proof (cases "used i")
    case True
    then have "first_free used (Suc i) n = Some k" using Suc.prems by simp
    from Suc.IH [OF this] show ?thesis using True
      by (metis Suc_leI Suc_leD add_Suc add_Suc_right le_neq_implies_less)
  next
    case False
    then show ?thesis using Suc.prems by auto
  qed
qed

lemma first_free_None: "first_free used i n = None \<longleftrightarrow> (\<forall>j. i \<le> j \<and> j < i + n \<longrightarrow> used j)"
proof (induction n arbitrary: i)
  case 0
  then show ?case by auto
next
  case (Suc n)
  have "(\<forall>j. i \<le> j \<and> j < i + Suc n \<longrightarrow> used j) \<longleftrightarrow> used i \<and> (\<forall>j. Suc i \<le> j \<and> j < Suc i + n \<longrightarrow> used j)"
    by (metis Suc_leI Suc_leD add_Suc add_Suc_right le_add1 le_imp_less_Suc le_neq_implies_less le_refl)
  then show ?case using Suc.IH [of "Suc i"] by simp
qed

lemma first_free_first: "\<not> used i \<Longrightarrow> 0 < n \<Longrightarrow> first_free used i n = Some i"
  by (cases n) simp_all

section \<open>Wake-ups of a blocked thread\<close>

text \<open>
  A blocked thread sees the table each time it wakes. A wake-up is what the other threads did
  since, with the flag that says a timed wait reported a timeout; \<open>wake_states\<close> lists the
  tables seen, the one before the first sleep included.
\<close>

fun wake_states :: "'t \<Rightarrow> (bool \<times> ('t \<Rightarrow> 't)) list \<Rightarrow> 't list" where
  "wake_states t [] = [t]"
| "wake_states t ((to, env) # ws) = t # wake_states (env t) ws"

lemma length_wake_states [simp]: "length (wake_states t ws) = Suc (length ws)"
  by (induction t ws rule: wake_states.induct) simp_all

lemma wake_states_0 [simp]: "wake_states t ws ! 0 = t"
  by (cases "(t, ws)" rule: wake_states.cases) simp_all

text \<open>The thread is still asleep before state \<open>k\<close>: it neither found what it waits for nor timed out.\<close>

definition asleep :: "('t \<Rightarrow> bool) \<Rightarrow> bool \<Rightarrow> 't \<Rightarrow> (bool \<times> ('t \<Rightarrow> 't)) list \<Rightarrow> nat \<Rightarrow> bool" where
  "asleep waiting timed t ws k \<longleftrightarrow>
     (\<forall>j<k. waiting (wake_states t ws ! j) \<and> (0 < j \<longrightarrow> \<not> (timed \<and> fst (ws ! (j - 1)))))"

lemma asleep_0 [simp]: "asleep w timed t ws 0"
  by (simp add: asleep_def)

lemma asleep_Suc0: "w t \<Longrightarrow> asleep w timed t ws (Suc 0)"
  by (simp add: asleep_def)

lemma asleep_Cons:
  assumes "w t" and "\<not> (timed \<and> to)"
  shows "asleep w timed t ((to, env) # ws) (Suc k) \<longleftrightarrow> asleep w timed (env t) ws k"
proof
  assume l: "asleep w timed t ((to, env) # ws) (Suc k)"
  show "asleep w timed (env t) ws k"
    unfolding asleep_def
  proof (intro allI impI conjI)
    fix j assume "j < k"
    then have "Suc j < Suc k" by simp
    with l have s: "w (wake_states t ((to, env) # ws) ! Suc j)"
      "\<not> (timed \<and> fst (((to, env) # ws) ! (Suc j - 1)))"
      unfolding asleep_def by blast+
    from s(1) show "w (wake_states (env t) ws ! j)" by simp
    assume "0 < j"
    with s(2) show "\<not> (timed \<and> fst (ws ! (j - 1)))" by simp
  qed
next
  assume r: "asleep w timed (env t) ws k"
  show "asleep w timed t ((to, env) # ws) (Suc k)"
    unfolding asleep_def
  proof (intro allI impI)
    fix j assume j: "j < Suc k"
    show "w (wake_states t ((to, env) # ws) ! j) \<and> (0 < j \<longrightarrow> \<not> (timed \<and> fst (((to, env) # ws) ! (j - 1))))"
    proof (cases j)
      case 0
      then show ?thesis using assms(1) by simp
    next
      case (Suc i)
      then have "w (wake_states (env t) ws ! i) \<and> (0 < i \<longrightarrow> \<not> (timed \<and> fst (ws ! (i - 1))))"
        using r j unfolding asleep_def by simp
      then show ?thesis using Suc assms(2) by (cases i) simp_all
    qed
  qed
qed

text \<open>
  The loop \<open>while (waiting) { if (timed) { if (timedwait() == ETIMEDOUT) ... } else wait(); }\<close>: the
  result is whether a timed wait ended it, and the table then; \<open>None\<close> when the thread still
  sleeps after the given wake-ups.
\<close>

fun sleep_loop :: "('t \<Rightarrow> bool) \<Rightarrow> bool \<Rightarrow> 't \<Rightarrow> (bool \<times> ('t \<Rightarrow> 't)) list \<Rightarrow> (bool \<times> 't) option" where
  "sleep_loop waiting timed t [] = (if waiting t then None else Some (False, t))"
| "sleep_loop waiting timed t ((to, env) # ws) =
     (if \<not> waiting t then Some (False, t)
      else if timed \<and> to then Some (True, env t)
      else sleep_loop waiting timed (env t) ws)"

lemma sleep_loop_awake: "\<not> w t \<Longrightarrow> sleep_loop w timed t ws = Some (False, t)"
  by (cases "(w, timed, t, ws)" rule: sleep_loop.cases) simp_all

lemma sleep_loop_None:
  "sleep_loop w timed t ws = None \<longleftrightarrow> asleep w timed t ws (Suc (length ws))"
proof (induction w timed t ws rule: sleep_loop.induct)
  case (1 w timed t)
  then show ?case by (simp add: asleep_def)
next
  case (2 w timed t to env ws)
  show ?case
  proof (cases "w t \<and> \<not> (timed \<and> to)")
    case True
    then have "w t" "\<not> (timed \<and> to)" by blast+
    then show ?thesis
      using "2.IH" asleep_Cons [of w t timed to env ws "Suc (length ws)"] by (cases timed; cases to) simp_all
  next
    case False
    have "\<not> asleep w timed t ((to, env) # ws) (Suc (length ((to, env) # ws)))"
    proof
      assume a: "asleep w timed t ((to, env) # ws) (Suc (length ((to, env) # ws)))"
      then have "w t" unfolding asleep_def by (metis wake_states_0 zero_less_Suc)
      moreover have "1 < Suc (length ((to, env) # ws))" by simp
      then have "0 < (1::nat) \<longrightarrow> \<not> (timed \<and> fst (((to, env) # ws) ! (1 - 1)))"
        by (rule a [unfolded asleep_def, rule_format, THEN conjunct2])
      ultimately show False using False by simp
    qed
    moreover have "sleep_loop w timed t ((to, env) # ws) \<noteq> None" using False by auto
    ultimately show ?thesis by simp
  qed
qed

lemma sleep_loop_Some:
  "sleep_loop w timed t ws = Some (to, u) \<Longrightarrow>
     \<exists>k \<le> length ws. asleep w timed t ws k \<and> u = wake_states t ws ! k
       \<and> to = (0 < k \<and> timed \<and> fst (ws ! (k - 1))) \<and> (\<not> to \<longrightarrow> \<not> w u)"
proof (induction w timed t ws rule: sleep_loop.induct)
  case (1 w timed t)
  then show ?case by (auto split: if_splits)
next
  case (2 w timed t to' env ws)
  show ?case
  proof (cases "w t")
    case False
    then show ?thesis using "2.prems" by (intro exI [of _ 0]) auto
  next
    case w: True
    show ?thesis
    proof (cases "timed \<and> to'")
      case True
      then show ?thesis using "2.prems" w by (intro exI [of _ 1]) (auto simp: asleep_Suc0)
    next
      case False
      then have "sleep_loop w timed (env t) ws = Some (to, u)" using "2.prems" w by auto
      from "2.IH" [OF _ False this] w obtain k where k: "k \<le> length ws" "asleep w timed (env t) ws k"
        "u = wake_states (env t) ws ! k" "to = (0 < k \<and> timed \<and> fst (ws ! (k - 1)))" "\<not> to \<longrightarrow> \<not> w u"
        by blast
      have "to = (timed \<and> fst (((to', env) # ws) ! k))" using k(4) False by (cases k) auto
      moreover have "asleep w timed t ((to', env) # ws) (Suc k)"
        using asleep_Cons [of w t timed to' env ws k, OF w False] k(2) by blast
      moreover have "wake_states t ((to', env) # ws) ! Suc k = u" using k(3) by simp
      ultimately show ?thesis
        using k(1,5) by (metis (no_types, lifting) Suc_le_mono diff_Suc_1 length_Cons zero_less_Suc)
    qed
  qed
qed

section \<open>Handles\<close>

text \<open>A handle is a positive \<open>int\<close> below the table size: the slot number.\<close>

lemma handle_nat:
  fixes h :: i32
  assumes "i < 1024"
  shows "unat (of_nat i :: i32) = i" and "sint (of_nat i :: i32) = int i"
    and "unat h = i \<longleftrightarrow> h = of_nat i"
proof -
  show u: "unat (of_nat i :: i32) = i" using assms by (simp add: unat_of_nat)
  have "sint (of_nat i :: i32) = signed_take_bit 31 (int i)" by (simp add: signed_of_nat)
  also have "\<dots> = int i" by (rule signed_take_bit_int_eq_self) (use assms in simp_all)
  finally show "sint (of_nat i :: i32) = int i" .
  show "unat h = i \<longleftrightarrow> h = of_nat i"
    using u by (metis word_unat_eq_iff)
qed

lemma sint_nonneg_unat: "0 \<le> sint w \<Longrightarrow> sint w = int (unat w)" for w :: "'a::len word"
proof -
  assume "0 \<le> sint w"
  then have nb: "\<not> bit w (LENGTH('a) - Suc 0)" using bit_last_iff [of w] by simp
  have "sint w = take_bit (LENGTH('a) - Suc 0) (uint w)"
    unfolding sint_uint by (rule signed_take_bit_eq_if_positive) (simp add: bit_uint_iff nb)
  also have "\<dots> = uint w"
  proof (rule bit_eqI)
    fix n
    show "bit (take_bit (LENGTH('a) - Suc 0) (uint w)) n \<longleftrightarrow> bit (uint w) n"
      using nb by (cases "n = LENGTH('a) - Suc 0") (auto simp: bit_take_bit_iff bit_uint_iff)
  qed
  finally show ?thesis by simp
qed

lemma handle_range:
  fixes h :: i32
  shows "\<not> (sint h \<le> 0 \<or> 1024 \<le> sint h) \<longleftrightarrow> 1 \<le> unat h \<and> unat h < 1024"
proof
  assume "\<not> (sint h \<le> 0 \<or> 1024 \<le> sint h)"
  then have s: "0 < sint h" "sint h < 1024" by linarith+
  then have "sint h = int (unat h)" by (intro sint_nonneg_unat) linarith
  then show "1 \<le> unat h \<and> unat h < 1024" using s by linarith
next
  assume a: "1 \<le> unat h \<and> unat h < 1024"
  then have "h = of_nat (unat h)" by simp
  with handle_nat(2) [of "unat h"] a have "sint h = int (unat h)" by metis
  then show "\<not> (sint h \<le> 0 \<or> 1024 \<le> sint h)" using a by linarith
qed

text \<open>The live object behind a handle, in a table indexed by slot.\<close>

definition slot_get :: "('o \<Rightarrow> bool) \<Rightarrow> (nat \<Rightarrow> 'o) \<Rightarrow> i32 \<Rightarrow> nat option" where
  "slot_get live t h = (if 1 \<le> unat h \<and> unat h < 1024 \<and> live (t (unat h)) then Some (unat h) else None)"

definition slot_objs :: "('o \<Rightarrow> bool) \<Rightarrow> (nat \<Rightarrow> 'o) \<Rightarrow> i32 \<Rightarrow> 'o option" where
  "slot_objs live t h = (if 1 \<le> unat h \<and> unat h < 1024 \<and> live (t (unat h)) then Some (t (unat h)) else None)"

lemma slot_objs_put:
  assumes "1 \<le> i" "i < 1024"
  shows "slot_objs live (t(i := x)) = (slot_objs live t)(of_nat i := (if live x then Some x else None))"
proof
  fix h
  show "slot_objs live (t(i := x)) h = ((slot_objs live t)(of_nat i := (if live x then Some x else None))) h"
  proof (cases "h = of_nat i")
    case True
    then show ?thesis using assms handle_nat(1) [OF assms(2)] by (simp add: slot_objs_def)
  next
    case False
    then have "unat h \<noteq> i" using handle_nat(3) [OF assms(2)] by blast
    then show ?thesis using False by (simp add: slot_objs_def)
  qed
qed

section \<open>The contract of a table\<close>

locale handle_map =
  fixes objs :: "'t \<Rightarrow> 'id \<Rightarrow> 'o option"
    and inv :: "'t \<Rightarrow> bool"
    and create :: "'a \<Rightarrow> 't \<Rightarrow> (i32 + 'id) \<times> 't"
    and delete :: "'t \<Rightarrow> 'id \<Rightarrow> i32 \<times> 't"
    and initial :: "'a \<Rightarrow> 'o"
    and good :: "'a \<Rightarrow> bool"
  assumes create_new: "inv t \<Longrightarrow> create a t = (Inr h, t') \<Longrightarrow>
      good a \<and> inv t' \<and> objs t h = None \<and> objs t' = (objs t)(h \<mapsto> initial a)"
    and create_fails: "inv t \<Longrightarrow> create a t = (Inl e, t') \<Longrightarrow> inv t' \<and> objs t' = objs t"
    and delete_live: "inv t \<Longrightarrow> objs t h \<noteq> None \<Longrightarrow>
      fst (delete t h) = 0 \<and> inv (snd (delete t h)) \<and> objs (snd (delete t h)) = (objs t)(h := None)"
    and delete_dead: "objs t h = None \<Longrightarrow> fst (delete t h) \<noteq> 0 \<and> snd (delete t h) = t"
begin

lemma create_delete:
  assumes "inv t" and "create a t = (Inr h, t')"
  shows "fst (delete t' h) = 0" and "objs (snd (delete t' h)) = objs t"
proof -
  have n: "good a \<and> inv t' \<and> objs t h = None \<and> objs t' = (objs t)(h \<mapsto> initial a)"
    by (rule create_new [OF assms])
  then have l: "inv t'" "objs t' h \<noteq> None" by simp_all
  show "fst (delete t' h) = 0" using delete_live [OF l] by simp
  show "objs (snd (delete t' h)) = objs t" using delete_live [OF l] n by auto
qed

lemma delete_twice:
  assumes "inv t"
  shows "fst (delete (snd (delete t h)) h) \<noteq> 0"
proof (cases "objs t h = None")
  case True
  then show ?thesis using delete_dead [OF True] by simp
next
  case False
  then have "objs (snd (delete t h)) h = None" using delete_live [OF assms False] by simp
  then show ?thesis using delete_dead by blast
qed

lemma delete_inv: "inv t \<Longrightarrow> inv (snd (delete t h))"
  using delete_live [of t h] delete_dead [of t h] by (cases "objs t h = None") simp_all

lemma create_inv: "inv t \<Longrightarrow> inv (snd (create a t))"
  using create_new [of t a "projr (fst (create a t))" "snd (create a t)"]
    create_fails [of t a "projl (fst (create a t))" "snd (create a t)"]
  by (metis prod.collapse sum.collapse(1) sum.collapse(2))

end

section \<open>Operations and reachable tables\<close>

inductive tbl_reach :: "('a \<Rightarrow> 't \<Rightarrow> 'r \<times> 't) \<Rightarrow> ('t \<Rightarrow> 'id \<Rightarrow> i32 \<times> 't) \<Rightarrow> ('c \<Rightarrow> 't \<Rightarrow> 'id \<Rightarrow> 'q \<times> 't)
    \<Rightarrow> 't \<Rightarrow> 't \<Rightarrow> bool" for create delete op t0 where
  tbl_start: "tbl_reach create delete op t0 t0"
| tbl_create: "tbl_reach create delete op t0 t \<Longrightarrow> tbl_reach create delete op t0 (snd (create a t))"
| tbl_delete: "tbl_reach create delete op t0 t \<Longrightarrow> tbl_reach create delete op t0 (snd (delete t h))"
| tbl_op: "tbl_reach create delete op t0 t \<Longrightarrow> tbl_reach create delete op t0 (snd (op c t h))"

locale handle_ops = handle_map objs inv create delete initial good
  for objs :: "'t \<Rightarrow> 'id \<Rightarrow> 'o option" and inv and create :: "'a \<Rightarrow> 't \<Rightarrow> (i32 + 'id) \<times> 't"
    and delete and initial and good +
  fixes op :: "'c \<Rightarrow> 't \<Rightarrow> 'id \<Rightarrow> 'q \<times> 't"
    and sop :: "'c \<Rightarrow> 'o \<Rightarrow> 'q \<times> 'o"
    and dead :: "'c \<Rightarrow> 'q"
  assumes op_live: "inv t \<Longrightarrow> objs t h = Some x \<Longrightarrow>
      fst (op c t h) = fst (sop c x) \<and> inv (snd (op c t h))
      \<and> objs (snd (op c t h)) = (objs t)(h \<mapsto> snd (sop c x))"
    and op_dead: "objs t h = None \<Longrightarrow> op c t h = (dead c, t)"
begin

lemma op_inv: "inv t \<Longrightarrow> inv (snd (op c t h))"
  using op_live [of t h _ c] op_dead [of t h c] by (cases "objs t h") auto

lemma op_other: "inv t \<Longrightarrow> h' \<noteq> h \<Longrightarrow> objs (snd (op c t h)) h' = objs t h'"
  using op_live [of t h _ c] op_dead [of t h c] by (cases "objs t h") auto

text \<open>What holds of fresh objects and is kept by the operations holds of every live object.\<close>

lemma reach_objs:
  assumes "tbl_reach create delete op t0 t" and "inv t0" and "\<forall>h x. objs t0 h = Some x \<longrightarrow> P x"
    and fresh: "\<And>a. good a \<Longrightarrow> P (initial a)" and keep: "\<And>c x. P x \<Longrightarrow> P (snd (sop c x))"
  shows "inv t \<and> (\<forall>h x. objs t h = Some x \<longrightarrow> P x)"
  using assms(1)
proof induction
  case tbl_start
  then show ?case using assms(2,3) by simp
next
  case (tbl_create t a)
  then have i: "inv t" by simp
  show ?case
  proof (cases "create a t")
    case (Pair r t')
    show ?thesis
    proof (cases r)
      case (Inl e)
      then show ?thesis using create_fails [OF i, of a e t'] Pair tbl_create.IH by simp
    next
      case (Inr h)
      then show ?thesis using create_new [OF i, of a h t'] Pair tbl_create.IH fresh by auto
    qed
  qed
next
  case (tbl_delete t h)
  then show ?case
    using delete_live [of t h] delete_dead [of t h] by (cases "objs t h = None") (auto split: if_splits)
next
  case (tbl_op t c h)
  then show ?case
    using op_live [of t h _ c] op_dead [of t h c] keep [of _ c]
    by (cases "objs t h") (auto split: if_splits)
qed

end

end
