(* ===== verification/EventFlag.thy ===== *)
theory EventFlag
  imports SlotTable GuestMem
begin

unbundle bit_operations_syntax

text \<open>
  Event flags of \<open>kernel/sync/ps4_event_flag.c\<close>: the table of 1024 slots, every call and its
  register-level shim. A call that takes the flag's mutex once is one function on the table.
  A wait holds the mutex except while it sleeps on the condition variable, so it is a loop over
  the wake-ups: each carries what the other threads did to the table meanwhile and whether the
  timed wait reported a timeout.
\<close>

section \<open>State\<close>

record evf =
  ev_magic :: u32
  ev_in_use :: bool
  ev_attr :: u32
  ev_pattern :: u64
  ev_name :: string

record evf_tab =
  et_slots :: "nat \<Rightarrow> evf"
  et_inited :: bool

abbreviation (input) EVF_MAGIC :: u32 where "EVF_MAGIC \<equiv> 0x45564631"
abbreviation (input) MAX_EVENT_FLAGS :: nat where "MAX_EVENT_FLAGS \<equiv> 1024"

definition evf_zero :: evf where
  "evf_zero = \<lparr>ev_magic = 0, ev_in_use = False, ev_attr = 0, ev_pattern = 0, ev_name = []\<rparr>"

definition evf_tab0 :: evf_tab where
  "evf_tab0 = \<lparr>et_slots = (\<lambda>_. evf_zero), et_inited = False\<rparr>"

text \<open>A write to the fields of one slot.\<close>

definition evf_put :: "evf_tab \<Rightarrow> nat \<Rightarrow> (evf \<Rightarrow> evf) \<Rightarrow> evf_tab" where
  "evf_put t i f = t\<lparr>et_slots := (et_slots t)(i := f (et_slots t i))\<rparr>"

section \<open>The table\<close>

definition ps4_event_flag_init :: "evf_tab \<Rightarrow> evf_tab" where
  "ps4_event_flag_init t =
     (if et_inited t then t else t\<lparr>et_slots := (\<lambda>_. evf_zero), et_inited := True\<rparr>)"

definition ps4_event_flag_destroy :: "evf_tab \<Rightarrow> evf_tab" where
  "ps4_event_flag_destroy t =
     t\<lparr>et_slots := (\<lambda>i. if 1 \<le> i \<and> i < MAX_EVENT_FLAGS \<and> ev_in_use (et_slots t i)
                          then (et_slots t i)\<lparr>ev_in_use := False, ev_magic := 0\<rparr> else et_slots t i),
       et_inited := False\<rparr>"

definition alloc_evf_slot :: "evf_tab \<Rightarrow> nat option \<times> evf_tab" where
  "alloc_evf_slot t =
     (case first_free (\<lambda>i. ev_in_use (et_slots t i)) 1 (MAX_EVENT_FLAGS - 1) of
        None \<Rightarrow> (None, t)
      | Some i \<Rightarrow> (Some i, evf_put t i (ev_in_use_update (\<lambda>_. True))))"

definition get_evf :: "evf_tab \<Rightarrow> i32 \<Rightarrow> nat option" where
  "get_evf t h =
     (if sint h \<le> 0 \<or> int MAX_EVENT_FLAGS \<le> sint h then None else
      let i = unat h; f = et_slots t i
      in if \<not> ev_in_use f \<or> ev_magic f \<noteq> EVF_MAGIC then None else Some i)"

section \<open>Waiting for a pattern\<close>

definition check_evf_condition :: "u64 \<Rightarrow> u64 \<Rightarrow> u32 \<Rightarrow> bool" where
  "check_evf_condition cur pat mode =
     (if mode AND 0x02 \<noteq> 0 then cur AND pat \<noteq> 0 else cur AND pat = pat)"

text \<open>The clear modes: all bits, or the bits waited for; the first takes precedence.\<close>

definition evf_clear :: "u64 \<Rightarrow> u32 \<Rightarrow> u64 \<Rightarrow> u64" where
  "evf_clear pat mode cur =
     (if mode AND 0x10 \<noteq> 0 then 0 else if mode AND 0x20 \<noteq> 0 then cur AND NOT pat else cur)"

abbreviation set_pattern :: "evf_tab \<Rightarrow> nat \<Rightarrow> (u64 \<Rightarrow> u64) \<Rightarrow> evf_tab" where
  "set_pattern t i g \<equiv> evf_put t i (\<lambda>f. f\<lparr>ev_pattern := g (ev_pattern f)\<rparr>)"

section \<open>Calls\<close>

definition sceKernelCreateEventFlag ::
    "bool \<times> string option \<times> u32 \<times> u64 \<Rightarrow> evf_tab \<Rightarrow> (i32 + i32) \<times> evf_tab" where
  "sceKernelCreateEventFlag args t =
     (case args of (out_null, name, attr, initPattern) \<Rightarrow>
      if out_null then (Inl KERR_EINVAL, t) else
      case alloc_evf_slot (ps4_event_flag_init t) of
        (None, t1) \<Rightarrow> (Inl KERR_ENFILE, t1)
      | (Some i, t1) \<Rightarrow>
          (Inr (of_nat i),
           evf_put t1 i (\<lambda>f. f\<lparr>ev_magic := EVF_MAGIC, ev_attr := attr, ev_pattern := initPattern,
             ev_name := (case name of None \<Rightarrow> [] | Some s \<Rightarrow> strncpy_name 32 s)\<rparr>)))"

text \<open>
  Deleting takes two locked sections: the flag is invalidated under its mutex, then the slot is
  released under the table lock.
\<close>

definition evf_delete_mark :: "evf_tab \<Rightarrow> nat \<Rightarrow> evf_tab" where
  "evf_delete_mark t i = evf_put t i (\<lambda>f. f\<lparr>ev_magic := 0\<rparr>)"

definition evf_delete_release :: "evf_tab \<Rightarrow> nat \<Rightarrow> evf_tab" where
  "evf_delete_release t i = evf_put t i (\<lambda>f. f\<lparr>ev_in_use := False\<rparr>)"

definition sceKernelDeleteEventFlag :: "evf_tab \<Rightarrow> i32 \<Rightarrow> i32 \<times> evf_tab" where
  "sceKernelDeleteEventFlag t h =
     (case get_evf t h of None \<Rightarrow> (KERR_EINVAL, t)
      | Some i \<Rightarrow> (0, evf_delete_release (evf_delete_mark t i) i))"

definition sceKernelSetEventFlag :: "evf_tab \<Rightarrow> i32 \<Rightarrow> u64 \<Rightarrow> i32 \<times> evf_tab" where
  "sceKernelSetEventFlag t h pat =
     (case get_evf t h of None \<Rightarrow> (KERR_EINVAL, t)
      | Some i \<Rightarrow> (0, set_pattern t i (\<lambda>p. p OR pat)))"

definition sceKernelClearEventFlag :: "evf_tab \<Rightarrow> i32 \<Rightarrow> u64 \<Rightarrow> i32 \<times> evf_tab" where
  "sceKernelClearEventFlag t h pat =
     (case get_evf t h of None \<Rightarrow> (KERR_EINVAL, t)
      | Some i \<Rightarrow> (0, set_pattern t i (\<lambda>p. p AND pat)))"

text \<open>The second component is what is written to \<open>*resultPattern\<close>, if anything.\<close>

definition sceKernelPollEventFlag :: "evf_tab \<Rightarrow> i32 \<Rightarrow> u64 \<Rightarrow> u32 \<Rightarrow> (i32 \<times> u64 option) \<times> evf_tab" where
  "sceKernelPollEventFlag t h pat mode =
     (case get_evf t h of None \<Rightarrow> ((KERR_EINVAL, None), t)
      | Some i \<Rightarrow>
          if check_evf_condition (ev_pattern (et_slots t i)) pat mode
          then ((0, Some (ev_pattern (et_slots t i))), set_pattern t i (evf_clear pat mode))
          else ((KERR_EBUSY, None), t))"

text \<open>A wake-up: the table after what other threads did, and whether the timed wait timed out.\<close>

type_synonym evf_wake = "bool \<times> (evf_tab \<Rightarrow> evf_tab)"

text \<open>
  The result of a wait: the code, the pattern written, whether \<open>*timeout\<close> is set to zero, and
  the table. \<open>None\<close> means that the thread still sleeps after the given wake-ups.
\<close>

definition evf_blocked :: "nat \<Rightarrow> u64 \<Rightarrow> u32 \<Rightarrow> evf_tab \<Rightarrow> bool" where
  "evf_blocked i pat mode t \<longleftrightarrow> ev_magic (et_slots t i) = EVF_MAGIC
     \<and> \<not> check_evf_condition (ev_pattern (et_slots t i)) pat mode"

definition evf_wait_loop :: "nat \<Rightarrow> u64 \<Rightarrow> u32 \<Rightarrow> bool \<Rightarrow> evf_tab \<Rightarrow> evf_wake list
    \<Rightarrow> (i32 \<times> u64 option \<times> bool \<times> evf_tab) option" where
  "evf_wait_loop i pat mode timed t ws =
     (case sleep_loop (evf_blocked i pat mode) timed t ws of
        None \<Rightarrow> None
      | Some (timeout, u) \<Rightarrow>
          (let f = et_slots u i in
           if timeout then Some (KERR_ETIMEDOUT, Some (ev_pattern f), True, u)
           else if ev_magic f \<noteq> EVF_MAGIC then Some (KERR_EINVAL, None, False, u)
           else Some (0, Some (ev_pattern f), False, set_pattern u i (evf_clear pat mode))))"

definition sceKernelWaitEventFlag ::
    "evf_tab \<Rightarrow> i32 \<Rightarrow> u64 \<Rightarrow> u32 \<Rightarrow> u32 option \<Rightarrow> evf_wake list \<Rightarrow> (i32 \<times> u64 option \<times> bool \<times> evf_tab) option" where
  "sceKernelWaitEventFlag t h pat mode timeout ws =
     (case get_evf t h of None \<Rightarrow> Some (KERR_EINVAL, None, False, t)
      | Some i \<Rightarrow>
          if timeout = Some 0 then
            (if check_evf_condition (ev_pattern (et_slots t i)) pat mode
             then Some (0, Some (ev_pattern (et_slots t i)), False, set_pattern t i (evf_clear pat mode))
             else Some (KERR_ETIMEDOUT, Some (ev_pattern (et_slots t i)), False, t))
          else evf_wait_loop i pat mode (timeout \<noteq> None) t ws)"

text \<open>The number of waiting threads is always reported as 0.\<close>

definition sceKernelCancelEventFlag :: "evf_tab \<Rightarrow> i32 \<Rightarrow> u64 \<Rightarrow> (i32 \<times> i32 option) \<times> evf_tab" where
  "sceKernelCancelEventFlag t h setPattern =
     (case get_evf t h of None \<Rightarrow> ((KERR_EINVAL, None), t)
      | Some i \<Rightarrow> ((0, Some 0), set_pattern t i (\<lambda>_. setPattern)))"

section \<open>Guest shims\<close>

definition opt_wr_u64 :: "guest_mem \<Rightarrow> u64 \<Rightarrow> u64 \<Rightarrow> guest_mem" where
  "opt_wr_u64 m a v = (if a \<noteq> 0 then wr_u64 m a v else m)"

definition opt_wr_u32 :: "guest_mem \<Rightarrow> u64 \<Rightarrow> u32 \<Rightarrow> guest_mem" where
  "opt_wr_u32 m a v = (if a \<noteq> 0 then wr_u32 m a v else m)"

text \<open>A name argument: a guest string, of which at most 31 characters are used.\<close>

definition arg_name :: "guest_mem \<Rightarrow> u64 \<Rightarrow> string option" where
  "arg_name m a = (if a \<noteq> 0 then Some (rd_str m a 31) else None)"

definition shim_sceKernelCreateEventFlag ::
    "guest_ctx \<Rightarrow> guest_mem \<Rightarrow> evf_tab \<Rightarrow> guest_ctx \<times> guest_mem \<times> evf_tab" where
  "shim_sceKernelCreateEventFlag c m t =
     (case sceKernelCreateEventFlag (False, arg_name m (rsi c), ucast (rdx c), rcx c) t of
        (Inl rc, t') \<Rightarrow> (ret_rc c rc, m, t')
      | (Inr h, t') \<Rightarrow> (ret_rc c 0, opt_wr_u32 m (rdi c) h, t'))"

definition shim_sceKernelDeleteEventFlag :: "guest_ctx \<Rightarrow> evf_tab \<Rightarrow> guest_ctx \<times> evf_tab" where
  "shim_sceKernelDeleteEventFlag c t =
     (let (rc, t') = sceKernelDeleteEventFlag t (ucast (rdi c)) in (ret_rc c rc, t'))"

definition shim_sceKernelSetEventFlag :: "guest_ctx \<Rightarrow> evf_tab \<Rightarrow> guest_ctx \<times> evf_tab" where
  "shim_sceKernelSetEventFlag c t =
     (let (rc, t') = sceKernelSetEventFlag t (ucast (rdi c)) (rsi c) in (ret_rc c rc, t'))"

definition shim_sceKernelClearEventFlag :: "guest_ctx \<Rightarrow> evf_tab \<Rightarrow> guest_ctx \<times> evf_tab" where
  "shim_sceKernelClearEventFlag c t =
     (let (rc, t') = sceKernelClearEventFlag t (ucast (rdi c)) (rsi c) in (ret_rc c rc, t'))"

text \<open>
  The poll and wait shims write the result in every case; it is 0 when none was reported. The wait
  reads its timeout from the memory \<open>m\<close> at entry and writes to the memory \<open>m'\<close> at its return.
\<close>

definition shim_sceKernelPollEventFlag ::
    "guest_ctx \<Rightarrow> guest_mem \<Rightarrow> evf_tab \<Rightarrow> guest_ctx \<times> guest_mem \<times> evf_tab" where
  "shim_sceKernelPollEventFlag c m t =
     (let ((rc, res), t') = sceKernelPollEventFlag t (ucast (rdi c)) (rsi c) (ucast (rdx c))
      in (ret_rc c rc, opt_wr_u64 m (rcx c) (case res of None \<Rightarrow> 0 | Some p \<Rightarrow> p), t'))"

definition shim_sceKernelWaitEventFlag ::
    "guest_ctx \<Rightarrow> guest_mem \<Rightarrow> guest_mem \<Rightarrow> evf_tab \<Rightarrow> evf_wake list \<Rightarrow> (guest_ctx \<times> guest_mem \<times> evf_tab) option" where
  "shim_sceKernelWaitEventFlag c m m' t ws =
     (let timeout = (if r8 c \<noteq> 0 then Some (rd_u32 m (r8 c)) else None) in
      case sceKernelWaitEventFlag t (ucast (rdi c)) (rsi c) (ucast (rdx c)) timeout ws of
        None \<Rightarrow> None
      | Some (rc, res, zeroed, t') \<Rightarrow>
          (let m1 = opt_wr_u64 m' (rcx c) (case res of None \<Rightarrow> 0 | Some p \<Rightarrow> p);
               m2 = (case timeout of None \<Rightarrow> m1 | Some n \<Rightarrow> wr_u32 m1 (r8 c) (if zeroed then 0 else n))
           in Some (ret_rc c rc, m2, t')))"

definition shim_sceKernelCancelEventFlag ::
    "guest_ctx \<Rightarrow> guest_mem \<Rightarrow> evf_tab \<Rightarrow> guest_ctx \<times> guest_mem \<times> evf_tab" where
  "shim_sceKernelCancelEventFlag c m t =
     (let ((rc, n), t') = sceKernelCancelEventFlag t (ucast (rdi c)) (rsi c)
      in (ret_rc c rc,
          (case n of None \<Rightarrow> m | Some k \<Rightarrow> if rdx c \<noteq> 0 \<and> mem_mapped m then wr_u32 m (rdx c) k else m), t'))"

end
