(* ===== verification/EventFlagProps.thy ===== *)
theory EventFlagProps
  imports EventFlag
begin

unbundle bit_operations_syntax

text \<open>
  Event flags as a map from live handles to flags: the interpretation of the table contract, the
  effect of every call on one flag, and what a blocked wait returns under any interleaving.
\<close>

section \<open>Handles\<close>

definition evf_live :: "evf \<Rightarrow> bool" where
  "evf_live f \<longleftrightarrow> ev_in_use f \<and> ev_magic f = EVF_MAGIC"

lemma get_evf_eq: "get_evf t h = slot_get evf_live (et_slots t) h"
  using handle_range [of h] by (auto simp: get_evf_def slot_get_def Let_def evf_live_def)

lemma get_evf_iff: "get_evf t h = Some i \<longleftrightarrow> i = unat h \<and> 1 \<le> i \<and> i < 1024 \<and> evf_live (et_slots t i)"
  by (auto simp: get_evf_eq slot_get_def)

lemma get_evf_None: "get_evf t h = None \<longleftrightarrow> \<not> (1 \<le> unat h \<and> unat h < 1024 \<and> evf_live (et_slots t (unat h)))"
  using get_evf_iff [of t h] by (metis not_Some_eq)

text \<open>The map from handles to flags, and the invariant that every slot in use holds a valid flag.\<close>

definition evf_objs :: "evf_tab \<Rightarrow> i32 \<Rightarrow> evf option" where
  "evf_objs t h = slot_objs evf_live (et_slots t) h"

definition evf_inv :: "evf_tab \<Rightarrow> bool" where
  "evf_inv t \<longleftrightarrow> (\<forall>i. ev_in_use (et_slots t i) \<longrightarrow>
     et_inited t \<and> ev_magic (et_slots t i) = EVF_MAGIC)"

definition evf_initial :: "bool \<times> string option \<times> u32 \<times> u64 \<Rightarrow> evf" where
  "evf_initial args = (case args of (_, name, attr, pat) \<Rightarrow>
     \<lparr>ev_magic = EVF_MAGIC, ev_in_use = True, ev_attr = attr, ev_pattern = pat,
      ev_name = (case name of None \<Rightarrow> [] | Some s \<Rightarrow> strncpy_name 32 s)\<rparr>)"

lemma evf_objs_put:
  "1 \<le> i \<Longrightarrow> i < 1024 \<Longrightarrow> evf_objs (evf_put t i g) =
     (evf_objs t)(of_nat i := (if evf_live (g (et_slots t i)) then Some (g (et_slots t i)) else None))"
  using slot_objs_put [of i evf_live "et_slots t" "g (et_slots t i)"]
  by (simp add: evf_objs_def [abs_def] evf_put_def)

lemma evf_objs_get: "evf_objs t h = map_option (et_slots t) (get_evf t h)"
  by (simp add: evf_objs_def slot_objs_def get_evf_eq slot_get_def)

lemma evf_objs_init: "evf_inv t \<Longrightarrow> evf_objs (ps4_event_flag_init t) = evf_objs t \<and> evf_inv (ps4_event_flag_init t)
    \<and> et_inited (ps4_event_flag_init t)"
proof (cases "et_inited t")
  case True
  then show "evf_inv t \<Longrightarrow> ?thesis" by (simp add: ps4_event_flag_init_def)
next
  case False
  moreover assume "evf_inv t"
  ultimately have "\<And>h. get_evf t h = None" by (simp add: evf_inv_def get_evf_None evf_live_def)
  moreover have "get_evf (ps4_event_flag_init t) h = None" for h
    using False by (simp add: get_evf_None evf_live_def ps4_event_flag_init_def evf_zero_def)
  ultimately show ?thesis
    using False by (simp add: evf_objs_get fun_eq_iff) (simp add: ps4_event_flag_init_def evf_inv_def evf_zero_def)
qed

lemma evf_inv_put:
  "evf_inv t \<Longrightarrow> (ev_in_use (g (et_slots t i)) \<Longrightarrow> et_inited t \<and> ev_magic (g (et_slots t i)) = EVF_MAGIC)
    \<Longrightarrow> evf_inv (evf_put t i g)"
  by (auto simp: evf_inv_def evf_put_def)

section \<open>The calls as operations of the table\<close>

datatype evf_cmd = EvSet u64 | EvClear u64 | EvPoll u64 u32 | EvCancel u64

definition evf_op :: "evf_cmd \<Rightarrow> evf_tab \<Rightarrow> i32 \<Rightarrow> (i32 \<times> u64 option) \<times> evf_tab" where
  "evf_op c t h = (case c of
     EvSet p \<Rightarrow> (let (rc, t') = sceKernelSetEventFlag t h p in ((rc, None), t'))
   | EvClear p \<Rightarrow> (let (rc, t') = sceKernelClearEventFlag t h p in ((rc, None), t'))
   | EvPoll p m \<Rightarrow> sceKernelPollEventFlag t h p m
   | EvCancel p \<Rightarrow> (let ((rc, n), t') = sceKernelCancelEventFlag t h p in ((rc, None), t')))"

text \<open>What a call means for the pattern alone.\<close>

definition evf_spec :: "evf_cmd \<Rightarrow> u64 \<Rightarrow> (i32 \<times> u64 option) \<times> u64" where
  "evf_spec c p = (case c of
     EvSet b \<Rightarrow> ((0, None), p OR b)
   | EvClear b \<Rightarrow> ((0, None), p AND b)
   | EvPoll b m \<Rightarrow> (if check_evf_condition p b m then ((0, Some p), evf_clear b m p)
                    else ((KERR_EBUSY, None), p))
   | EvCancel b \<Rightarrow> ((0, None), b))"

definition evf_sop :: "evf_cmd \<Rightarrow> evf \<Rightarrow> (i32 \<times> u64 option) \<times> evf" where
  "evf_sop c f = (fst (evf_spec c (ev_pattern f)), f\<lparr>ev_pattern := snd (evf_spec c (ev_pattern f))\<rparr>)"

lemmas evf_call_defs = sceKernelSetEventFlag_def sceKernelClearEventFlag_def sceKernelPollEventFlag_def
  sceKernelCancelEventFlag_def

lemma evf_objs_Some: "evf_objs t h = Some f \<longleftrightarrow> get_evf t h = Some (unat h) \<and> f = et_slots t (unat h)"
  using get_evf_iff [of t h] by (auto simp: evf_objs_get)

lemma evf_op_live:
  assumes "evf_inv t" and "evf_objs t h = Some f"
  shows "fst (evf_op c t h) = fst (evf_sop c f) \<and> evf_inv (snd (evf_op c t h))
    \<and> evf_objs (snd (evf_op c t h)) = (evf_objs t)(h \<mapsto> snd (evf_sop c f))"
proof -
  have g: "get_evf t h = Some (unat h)" and f: "f = et_slots t (unat h)"
    using assms(2) by (simp_all add: evf_objs_Some)
  have r: "1 \<le> unat h" "unat h < 1024" and l: "evf_live f"
    using g f get_evf_iff [of t h "unat h"] by auto
  have h: "of_nat (unat h) = h" by simp
  have eq: "fst (evf_op c t h) = fst (evf_sop c f)
      \<and> (snd (evf_op c t h) = evf_put t (unat h) (\<lambda>_. snd (evf_sop c f)))"
    using g f by (cases c)
      (auto simp: evf_op_def evf_sop_def evf_spec_def evf_call_defs evf_put_def fun_upd_idem_iff)
  have l': "evf_live (snd (evf_sop c f))" using l by (simp add: evf_live_def evf_sop_def)
  have "ev_in_use (snd (evf_sop c f)) = ev_in_use f" by (simp add: evf_sop_def)
  then have i: "evf_inv (evf_put t (unat h) (\<lambda>_. snd (evf_sop c f)))"
    using assms(1) f l' by (intro evf_inv_put) (auto simp: evf_inv_def evf_live_def)
  show ?thesis using eq i evf_objs_put [OF r, of t "\<lambda>_. snd (evf_sop c f)"] l' h by simp
qed

lemma evf_op_dead: "evf_objs t h = None \<Longrightarrow> evf_op c t h = ((KERR_EINVAL, None), t)"
  by (cases c) (simp_all add: evf_objs_get evf_op_def evf_call_defs)

lemma evf_alloc:
  "alloc_evf_slot t = (Some i, t') \<Longrightarrow> 1 \<le> i \<and> i < 1024 \<and> \<not> ev_in_use (et_slots t i)
     \<and> (\<forall>j. 1 \<le> j \<and> j < i \<longrightarrow> ev_in_use (et_slots t j)) \<and> t' = evf_put t i (ev_in_use_update (\<lambda>_. True))"
  by (auto simp: alloc_evf_slot_def split: option.splits dest!: first_free_Some)

lemma evf_alloc_None:
  "alloc_evf_slot t = (None, t') \<longleftrightarrow> t' = t \<and> (\<forall>j. 1 \<le> j \<and> j < 1024 \<longrightarrow> ev_in_use (et_slots t j))"
  using first_free_None [of "\<lambda>i. ev_in_use (et_slots t i)" 1 1023]
  by (auto simp: alloc_evf_slot_def split: option.splits)

lemma evf_create_new:
  assumes "evf_inv t" and "sceKernelCreateEventFlag args t = (Inr h, t')"
  shows "\<not> fst args \<and> evf_inv t' \<and> evf_objs t h = None \<and> evf_objs t' = (evf_objs t)(h \<mapsto> evf_initial args)"
proof -
  obtain n name attr pat where args: "args = (n, name, attr, pat)" by (cases args)
  define t0 where "t0 = ps4_event_flag_init t"
  note t0 = evf_objs_init [OF assms(1), folded t0_def]
  from assms(2) args obtain i t1 where a: "\<not> n" "alloc_evf_slot t0 = (Some i, t1)" "h = of_nat i"
    "t' = evf_put t1 i (\<lambda>f. f\<lparr>ev_magic := EVF_MAGIC, ev_attr := attr, ev_pattern := pat,
             ev_name := (case name of None \<Rightarrow> [] | Some s \<Rightarrow> strncpy_name 32 s)\<rparr>)"
    by (auto simp: sceKernelCreateEventFlag_def t0_def split: if_splits prod.splits option.splits)
  from evf_alloc [OF a(2)] have i: "1 \<le> i" "i < 1024" "\<not> ev_in_use (et_slots t0 i)"
    "t1 = evf_put t0 i (ev_in_use_update (\<lambda>_. True))" by auto
  have t': "t' = evf_put t0 i (\<lambda>_. evf_initial args)"
    unfolding a(4) i(4) evf_put_def evf_initial_def args by (cases "et_slots t0 i") simp
  have "evf_objs t0 h = None"
    using i(3) handle_nat(1) [OF i(2)] a(3) by (simp add: evf_objs_get get_evf_None evf_live_def)
  moreover have "evf_live (evf_initial args)" by (simp add: evf_initial_def evf_live_def args)
  moreover have "evf_inv t'" unfolding t'
    using t0 by (intro evf_inv_put) (auto simp: evf_initial_def args)
  ultimately show ?thesis
    using evf_objs_put [OF i(1,2), of t0 "\<lambda>_. evf_initial args"] t0 a(1,3) t' args by simp
qed

lemma evf_create_fails:
  assumes "evf_inv t" and "sceKernelCreateEventFlag args t = (Inl e, t')"
  shows "evf_inv t' \<and> evf_objs t' = evf_objs t"
  using assms evf_objs_init [OF assms(1)] evf_alloc_None [of "ps4_event_flag_init t"]
  by (auto simp: sceKernelCreateEventFlag_def split: if_splits prod.splits option.splits)

lemma evf_delete_live:
  assumes "evf_inv t" and "evf_objs t h \<noteq> None"
  shows "fst (sceKernelDeleteEventFlag t h) = 0 \<and> evf_inv (snd (sceKernelDeleteEventFlag t h))
    \<and> evf_objs (snd (sceKernelDeleteEventFlag t h)) = (evf_objs t)(h := None)"
proof -
  from assms(2) obtain f where "evf_objs t h = Some f" by blast
  then have g: "get_evf t h = Some (unat h)" by (simp add: evf_objs_Some)
  then have r: "1 \<le> unat h" "unat h < 1024" using get_evf_iff [of t h "unat h"] by auto
  have d: "snd (sceKernelDeleteEventFlag t h)
      = evf_put t (unat h) (\<lambda>f. f\<lparr>ev_magic := 0, ev_in_use := False\<rparr>)"
    using g by (simp add: sceKernelDeleteEventFlag_def evf_delete_release_def evf_delete_mark_def evf_put_def)
  have "evf_inv (evf_put t (unat h) (\<lambda>f. f\<lparr>ev_magic := 0, ev_in_use := False\<rparr>))"
    using assms(1) by (intro evf_inv_put) auto
  then show ?thesis unfolding d
    using g evf_objs_put [OF r, of t "\<lambda>f. f\<lparr>ev_magic := 0, ev_in_use := False\<rparr>"]
    by (simp add: sceKernelDeleteEventFlag_def evf_live_def)
qed

lemma evf_delete_dead:
  "evf_objs t h = None \<Longrightarrow> fst (sceKernelDeleteEventFlag t h) \<noteq> 0 \<and> snd (sceKernelDeleteEventFlag t h) = t"
  by (simp add: evf_objs_get sceKernelDeleteEventFlag_def)

interpretation evft: handle_ops evf_objs evf_inv sceKernelCreateEventFlag sceKernelDeleteEventFlag
  evf_initial "\<lambda>a. \<not> fst a" evf_op evf_sop "\<lambda>_. (KERR_EINVAL, None)"
  by unfold_locales
    (erule (1) evf_create_new evf_create_fails evf_delete_live evf_op_live | erule evf_delete_dead evf_op_dead)+

section \<open>Properties\<close>

lemma and_eq_bits: "p AND b = b \<longleftrightarrow> (\<forall>n < 64. bit b n \<longrightarrow> bit p n)" for p b :: u64
  by (auto simp: bit_eq_iff bit_and_iff dest: bit_imp_le_length)

lemma and_nz_bits: "p AND b \<noteq> 0 \<longleftrightarrow> (\<exists>n < 64. bit b n \<and> bit p n)" for p b :: u64
  by (auto simp: bit_eq_iff bit_and_iff dest: bit_imp_le_length)

text \<open>
  On a live event flag every call does what it says and touches nothing else: setting ors
  the bits in, clearing keeps the given bits, a poll succeeds exactly when one of the bits (mode
  OR) or all of them are set, then reports the pattern and clears all bits, the bits polled, or
  none by its mode, and fails with \<open>EBUSY\<close> without effect otherwise. All other handles keep
  their flags.
\<close>

theorem evf_calls_exact:
  fixes b :: u64 and mode :: u32
  assumes "evf_inv t" and "evf_objs t h = Some f"
  defines "p \<equiv> ev_pattern f"
  defines "met \<equiv> (if mode AND 0x02 \<noteq> 0 then \<exists>n < 64. bit b n \<and> bit p n
                  else \<forall>n < 64. bit b n \<longrightarrow> bit p n)"
  defines "left \<equiv> (if mode AND 0x10 \<noteq> 0 then 0 else if mode AND 0x20 \<noteq> 0 then p AND NOT b else p)"
  defines "becomes \<equiv> \<lambda>q. (evf_objs t)(h \<mapsto> f\<lparr>ev_pattern := q\<rparr>)"
  shows "(let (rc, t') = sceKernelSetEventFlag t h b in rc = 0 \<and> evf_objs t' = becomes (p OR b))
    \<and> (let (rc, t') = sceKernelClearEventFlag t h b in rc = 0 \<and> evf_objs t' = becomes (p AND b))
    \<and> (let (r, t') = sceKernelPollEventFlag t h b mode in
         r = (if met then (0, Some p) else (KERR_EBUSY, None))
         \<and> evf_objs t' = becomes (if met then left else p))
    \<and> (let (r, t') = sceKernelCancelEventFlag t h b in r = (0, Some 0) \<and> evf_objs t' = becomes b)"
proof -
  note op = evft.op_live [OF assms(1,2)]
  have m: "met = check_evf_condition p b mode"
    unfolding met_def check_evf_condition_def and_eq_bits and_nz_bits by simp
  have l: "left = evf_clear b mode p" unfolding left_def evf_clear_def by simp
  have s: "(let (rc, t') = sceKernelSetEventFlag t h b in rc = 0 \<and> evf_objs t' = becomes (p OR b))"
    using op [of "EvSet b"]
    by (simp add: evf_op_def evf_sop_def evf_spec_def becomes_def p_def split: prod.splits)
  have c: "(let (rc, t') = sceKernelClearEventFlag t h b in rc = 0 \<and> evf_objs t' = becomes (p AND b))"
    using op [of "EvClear b"]
    by (simp add: evf_op_def evf_sop_def evf_spec_def becomes_def p_def split: prod.splits)
  have q: "(let (r, t') = sceKernelPollEventFlag t h b mode in
         r = (if met then (0, Some p) else (KERR_EBUSY, None))
         \<and> evf_objs t' = becomes (if met then left else p))"
    using op [of "EvPoll b mode"] unfolding m l
    by (auto simp: evf_op_def evf_sop_def evf_spec_def becomes_def p_def split: prod.splits if_splits)
  have k: "(let (r, t') = sceKernelCancelEventFlag t h b in r = (0, Some 0) \<and> evf_objs t' = becomes b)"
    using op [of "EvCancel b"] assms(2)
    by (simp add: evf_op_def evf_sop_def evf_spec_def becomes_def p_def evf_objs_Some
        sceKernelCancelEventFlag_def split: prod.splits)
  from s c q k show ?thesis by blast
qed

definition ex_evf :: evf_tab where
  "ex_evf = snd (sceKernelCreateEventFlag (False, Some ''vsync'', 1, 6) evf_tab0)"

lemma ex_evf_eq: "ex_evf = \<lparr>et_slots = (\<lambda>_. evf_zero)(1 := \<lparr>ev_magic = EVF_MAGIC, ev_in_use = True,
    ev_attr = 1, ev_pattern = 6, ev_name = ''vsync''\<rparr>), et_inited = True\<rparr>"
  by (simp add: ex_evf_def sceKernelCreateEventFlag_def ps4_event_flag_init_def evf_tab0_def
      alloc_evf_slot_def first_free_first evf_put_def evf_zero_def strncpy_name_def)

lemma ex_evf_facts: "evf_inv ex_evf" "evf_objs ex_evf 1 = Some (et_slots ex_evf 1)"
  unfolding ex_evf_eq by (simp_all add: evf_inv_def evf_zero_def evf_objs_Some get_evf_iff evf_live_def)

theorem evf_calls_exact_witness:
  "evf_inv ex_evf \<and> evf_objs ex_evf 1 = Some (et_slots ex_evf 1)
   \<and> fst (sceKernelPollEventFlag ex_evf 1 4 0x20) = (0, Some 6)
   \<and> fst (sceKernelPollEventFlag ex_evf 1 5 1) = (KERR_EBUSY, None)
   \<and> ev_pattern (the (evf_objs (snd (sceKernelPollEventFlag ex_evf 1 4 0x20)) 1)) = 2"
proof -
  note x = evf_calls_exact [OF ex_evf_facts]
  have p: "ev_pattern (et_slots ex_evf 1) = 6" by (simp add: ex_evf_eq)
  have "fst (sceKernelPollEventFlag ex_evf 1 4 0x20) = (0, Some 6)
      \<and> ev_pattern (the (evf_objs (snd (sceKernelPollEventFlag ex_evf 1 4 0x20)) 1)) = 2"
    using x [of 4 "0x20"] unfolding p and_eq_bits [symmetric] by (simp split: prod.splits)
  moreover have "fst (sceKernelPollEventFlag ex_evf 1 5 1) = (KERR_EBUSY, None)"
    using x [of 5 1] unfolding p and_eq_bits [symmetric] by (simp split: prod.splits)
  ultimately show ?thesis using ex_evf_facts by blast
qed

text \<open>
  Handles are created and deleted like the keys of a map: a created flag gets a handle no
  live flag has, with the requested attribute, pattern and truncated name; deleting it gives the
  previous flags back, and a second delete is refused. Creation fails only with \<open>ENFILE\<close>, and
  exactly when all 1023 handles are live.
\<close>

theorem evf_create_delete:
  assumes "evf_inv t"
  shows "(case sceKernelCreateEventFlag (False, name, attr, pat) t of
      (Inr h, t') \<Rightarrow> evf_objs t h = None
        \<and> evf_objs t' = (evf_objs t)(h \<mapsto> \<lparr>ev_magic = EVF_MAGIC, ev_in_use = True, ev_attr = attr,
             ev_pattern = pat, ev_name = (case name of None \<Rightarrow> [] | Some s \<Rightarrow> take 31 s)\<rparr>)
        \<and> fst (sceKernelDeleteEventFlag t' h) = 0
        \<and> evf_objs (snd (sceKernelDeleteEventFlag t' h)) = evf_objs t
        \<and> fst (sceKernelDeleteEventFlag (snd (sceKernelDeleteEventFlag t' h)) h) \<noteq> 0
        \<and> (\<exists>h'. 1 \<le> unat h' \<and> unat h' < 1024 \<and> evf_objs t h' = None)
    | (Inl e, t') \<Rightarrow> e = KERR_ENFILE \<and> evf_objs t' = evf_objs t
        \<and> (\<forall>h. 1 \<le> unat h \<and> unat h < 1024 \<longrightarrow> evf_objs t h \<noteq> None))"
proof (cases "sceKernelCreateEventFlag (False, name, attr, pat) t")
  case (Pair r t')
  show ?thesis
  proof (cases r)
    case (Inr h)
    note eq = Pair [unfolded Inr]
    note n = evft.create_new [OF assms eq] and d = evft.create_delete [OF assms eq]
    have i: "evf_inv t'" using n by blast
    have h: "1 \<le> unat h" "unat h < 1024"
      using eq evf_alloc [of "ps4_event_flag_init t"] handle_nat(1)
      by (auto simp: sceKernelCreateEventFlag_def split: option.splits prod.splits)
    show ?thesis unfolding eq using n d evft.delete_twice [OF i, of h] h
      by (cases name) (auto simp: evf_initial_def strncpy_name_def)
  next
    case (Inl e)
    note eq = Pair [unfolded Inl]
    define t0 where "t0 = ps4_event_flag_init t"
    note t0 = evf_objs_init [OF assms, folded t0_def]
    have e: "e = KERR_ENFILE" "alloc_evf_slot t0 = (None, t')"
      using eq by (auto simp: sceKernelCreateEventFlag_def t0_def split: option.splits prod.splits)
    then have "t' = t0" "\<forall>j. 1 \<le> j \<and> j < 1024 \<longrightarrow> ev_in_use (et_slots t0 j)"
      using evf_alloc_None by blast+
    moreover have "evf_live (et_slots t0 j) = ev_in_use (et_slots t0 j)" for j
      using t0 by (auto simp: evf_inv_def evf_live_def)
    ultimately have "evf_objs t0 h \<noteq> None" if "1 \<le> unat h \<and> unat h < 1024" for h
      using that get_evf_iff [of t0 h "unat h"] by (simp add: evf_objs_get)
    then show ?thesis unfolding eq using e(1) \<open>t' = t0\<close> t0 by simp
  qed
qed

theorem evf_create_delete_witness:
  "evf_inv ex_evf \<and> fst (sceKernelCreateEventFlag (False, None, 0, 9) ex_evf) = Inr 2
   \<and> evf_objs ex_evf 2 = None"
proof -
  have c: "fst (sceKernelCreateEventFlag (False, None, 0, 9) ex_evf) = Inr 2"
    unfolding ex_evf_eq
    by (simp add: sceKernelCreateEventFlag_def ps4_event_flag_init_def alloc_evf_slot_def
        first_free_first evf_zero_def numeral_eq_Suc)
  then show ?thesis
    using evf_create_delete [OF ex_evf_facts(1), where name = None and attr = 0 and pat = 9] ex_evf_facts(1)
    by (auto split: prod.splits sum.splits)
qed

text \<open>How a wait can end at the table \<open>u\<close> it sees at wake-up \<open>k\<close>.\<close>

definition evf_wait_ends :: "nat \<Rightarrow> u64 \<Rightarrow> u32 \<Rightarrow> bool \<Rightarrow> evf_tab
    \<Rightarrow> i32 \<times> u64 option \<times> bool \<times> evf_tab \<Rightarrow> bool" where
  "evf_wait_ends i b mode timeout u res \<longleftrightarrow>
     (if timeout then res = (KERR_ETIMEDOUT, Some (ev_pattern (et_slots u i)), True, u)
      else if ev_magic (et_slots u i) \<noteq> EVF_MAGIC then res = (KERR_EINVAL, None, False, u)
      else check_evf_condition (ev_pattern (et_slots u i)) b mode
        \<and> res = (0, Some (ev_pattern (et_slots u i)), False, set_pattern u i (evf_clear b mode)))"

lemma evf_wait_loop_None:
  "evf_wait_loop i b mode timed t ws = None \<longleftrightarrow> asleep (evf_blocked i b mode) timed t ws (Suc (length ws))"
  unfolding sleep_loop_None [symmetric]
  by (cases "sleep_loop (evf_blocked i b mode) timed t ws") (auto simp: evf_wait_loop_def Let_def)

lemma evf_wait_loop_Some:
  assumes "evf_wait_loop i b mode timed t ws = Some res"
  shows "\<exists>k \<le> length ws. asleep (evf_blocked i b mode) timed t ws k
       \<and> evf_wait_ends i b mode (0 < k \<and> timed \<and> fst (ws ! (k - 1))) (wake_states t ws ! k) res"
proof -
  from assms obtain to u where s: "sleep_loop (evf_blocked i b mode) timed t ws = Some (to, u)"
    by (auto simp: evf_wait_loop_def split: option.splits)
  with assms have "evf_wait_ends i b mode to u res"
    using sleep_loop_Some [OF s]
    by (auto simp: evf_wait_loop_def evf_wait_ends_def evf_blocked_def Let_def split: if_splits)
  with sleep_loop_Some [OF s] show ?thesis by blast
qed

text \<open>
  A blocking wait on a live flag, under any behaviour of the other threads, returns at the
  first wake-up at which it may: it sleeps on exactly while the flag is valid, the pattern is
  not there and no timed wait reported a timeout. It then fails with \<open>ETIMEDOUT\<close> after a
  timeout (even when the pattern has come by then) and with \<open>EINVAL\<close> when the flag was
  deleted; otherwise the pattern is there, is reported as it is at that moment, and only then
  the bits its mode asks for are cleared.
\<close>

theorem evf_wait_exact:
  assumes "get_evf t h = Some i" and "timeout \<noteq> Some 0"
  shows "(case sceKernelWaitEventFlag t h b mode timeout ws of
      None \<Rightarrow> asleep (evf_blocked i b mode) (timeout \<noteq> None) t ws (Suc (length ws))
    | Some res \<Rightarrow> \<exists>k \<le> length ws. asleep (evf_blocked i b mode) (timeout \<noteq> None) t ws k
        \<and> evf_wait_ends i b mode (0 < k \<and> timeout \<noteq> None \<and> fst (ws ! (k - 1))) (wake_states t ws ! k) res)"
proof -
  have eq: "sceKernelWaitEventFlag t h b mode timeout ws = evf_wait_loop i b mode (timeout \<noteq> None) t ws"
    using assms by (simp add: sceKernelWaitEventFlag_def)
  show ?thesis
  proof (cases "evf_wait_loop i b mode (timeout \<noteq> None) t ws")
    case None
    have "asleep (evf_blocked i b mode) (timeout \<noteq> None) t ws (Suc (length ws))"
      by (rule evf_wait_loop_None [THEN iffD1, OF None])
    then show ?thesis unfolding eq None option.case .
  next
    case (Some res)
    from evf_wait_loop_Some [OF this] show ?thesis unfolding eq Some option.case .
  qed
qed

definition ex_set8 :: evf_wake where
  "ex_set8 = (False, \<lambda>t. snd (sceKernelSetEventFlag t 1 8))"

lemma ex_evf_get: "get_evf ex_evf 1 = Some 1"
  unfolding ex_evf_eq by (simp add: get_evf_iff evf_live_def)

lemma ex_set8_eq: "snd ex_set8 ex_evf = \<lparr>et_slots = (\<lambda>_. evf_zero)(1 := \<lparr>ev_magic = EVF_MAGIC,
    ev_in_use = True, ev_attr = 1, ev_pattern = 14, ev_name = ''vsync''\<rparr>), et_inited = True\<rparr>"
  by (simp add: ex_set8_def sceKernelSetEventFlag_def ex_evf_get) (simp add: ex_evf_eq evf_put_def)

lemma ex_wait: "sceKernelWaitEventFlag ex_evf 1 b mode None ws = evf_wait_loop 1 b mode False ex_evf ws"
  by (simp add: sceKernelWaitEventFlag_def ex_evf_get)

theorem evf_wait_exact_witness:
  "get_evf ex_evf 1 = Some 1 \<and> sceKernelWaitEventFlag ex_evf 1 8 1 None [] = None
   \<and> asleep (evf_blocked 1 8 1) False ex_evf [] 1
   \<and> (\<exists>u. sceKernelWaitEventFlag ex_evf 1 8 1 None [ex_set8] = Some (0, Some 14, False, u))"
proof -
  have b: "evf_blocked 1 8 1 ex_evf" by (simp add: evf_blocked_def ex_evf_eq check_evf_condition_def)
  then have n: "sceKernelWaitEventFlag ex_evf 1 8 1 None [] = None"
    unfolding ex_wait by (simp add: evf_wait_loop_None asleep_Suc0)
  have l: "evf_wait_loop 1 8 1 False ex_evf [ex_set8] = evf_wait_loop 1 8 1 False (snd ex_set8 ex_evf) []"
    using b by (simp add: evf_wait_loop_def ex_set8_def)
  have "\<exists>u. evf_wait_loop 1 8 1 False (snd ex_set8 ex_evf) [] = Some (0, Some 14, False, u)"
    unfolding ex_set8_eq
    by (simp add: evf_wait_loop_def evf_blocked_def evf_put_def check_evf_condition_def Let_def)
  then have "\<exists>u. sceKernelWaitEventFlag ex_evf 1 8 1 None [ex_set8] = Some (0, Some 14, False, u)"
    unfolding ex_wait l .
  then show ?thesis
    using evf_wait_exact [OF ex_evf_get, of None 8 1 "[]"] n ex_evf_get by simp
qed

text \<open>
  A slot is reused while threads still hold it. A thread that waits on a flag which is
  deleted and replaced before it runs again finds the new flag in its slot: here it returns
  success for the new flag's pattern and clears it, instead of failing with \<open>EINVAL\<close>. And of two
  threads that delete the same flag, the slower one releases the slot again after a new flag was
  made in it, so that a live flag disappears.
\<close>

theorem evf_slot_reuse_hits_new_flag:
  "let reuse = (\<lambda>t. snd (sceKernelCreateEventFlag (False, Some ''new'', 0, 1)
                 (snd (sceKernelDeleteEventFlag t 1)))) in
   (\<exists>u. sceKernelWaitEventFlag ex_evf 1 1 0x11 None [(False, reuse)] = Some (0, Some 1, False, u)
        \<and> ev_name (et_slots u 1) = ''new'' \<and> ev_pattern (et_slots u 1) = 0)
   \<and> evf_objs (reuse ex_evf) 1 \<noteq> None
   \<and> evf_objs (evf_delete_release (evf_delete_mark (reuse ex_evf) 1) 1) 1 = None"
proof -
  define reuse where "reuse = (\<lambda>t. snd (sceKernelCreateEventFlag (False, Some ''new'', 0, 1)
                 (snd (sceKernelDeleteEventFlag t 1))))"
  have d: "snd (sceKernelDeleteEventFlag ex_evf 1) = evf_put ex_evf 1 (\<lambda>f. f\<lparr>ev_magic := 0, ev_in_use := False\<rparr>)"
    by (simp add: sceKernelDeleteEventFlag_def ex_evf_get evf_delete_release_def evf_delete_mark_def evf_put_def)
  have d': "evf_put ex_evf 1 (\<lambda>f. f\<lparr>ev_magic := 0, ev_in_use := False\<rparr>) = \<lparr>et_slots = (\<lambda>_. evf_zero)(1 :=
      \<lparr>ev_magic = 0, ev_in_use = False, ev_attr = 1, ev_pattern = 6, ev_name = ''vsync''\<rparr>), et_inited = True\<rparr>"
    by (simp add: ex_evf_eq evf_put_def)
  have r: "reuse ex_evf = \<lparr>et_slots = (\<lambda>_. evf_zero)(1 := \<lparr>ev_magic = EVF_MAGIC, ev_in_use = True,
      ev_attr = 0, ev_pattern = 1, ev_name = ''new''\<rparr>), et_inited = True\<rparr>"
    unfolding reuse_def d d'
    by (simp add: sceKernelCreateEventFlag_def ps4_event_flag_init_def alloc_evf_slot_def
        first_free_first evf_put_def evf_zero_def strncpy_name_def)
  have b: "evf_blocked 1 1 0x11 ex_evf" by (simp add: evf_blocked_def ex_evf_eq check_evf_condition_def)
  have "evf_wait_loop 1 1 0x11 False ex_evf [(False, reuse)] = evf_wait_loop 1 1 0x11 False (reuse ex_evf) []"
    using b by (simp add: evf_wait_loop_def)
  moreover have "\<exists>u. evf_wait_loop 1 1 0x11 False (reuse ex_evf) [] = Some (0, Some 1, False, u)
        \<and> ev_name (et_slots u 1) = ''new'' \<and> ev_pattern (et_slots u 1) = 0"
    by (simp add: evf_wait_loop_def evf_blocked_def r evf_put_def check_evf_condition_def evf_clear_def Let_def)
  ultimately have w: "\<exists>u. sceKernelWaitEventFlag ex_evf 1 1 0x11 None [(False, reuse)] = Some (0, Some 1, False, u)
        \<and> ev_name (et_slots u 1) = ''new'' \<and> ev_pattern (et_slots u 1) = 0"
    unfolding ex_wait by metis
  have "evf_objs (reuse ex_evf) 1 \<noteq> None"
    unfolding r by (simp add: evf_objs_get get_evf_None evf_live_def)
  moreover have "evf_objs (evf_delete_release (evf_delete_mark (reuse ex_evf) 1) 1) 1 = None"
    unfolding r by (simp add: evf_objs_get get_evf_None evf_live_def evf_delete_release_def evf_delete_mark_def evf_put_def)
  ultimately show ?thesis using w unfolding reuse_def Let_def by blast
qed

end
