(* ===== verification/Semaphore.thy ===== *)
theory Semaphore
  imports SlotTable GuestMem
begin

unbundle bit_operations_syntax

text \<open>
  The POSIX semaphores of \<open>kernel/sync/ps4_semaphore.c\<close> (\<open>sem_*\<close>) and their \<open>scePthreadSem*\<close>
  variants on the same table. A guest \<open>sem_t\<close> holds the slot number; every call reads it from
  guest memory. The two families differ in how they report errors: the first sets \<open>errno\<close> and
  returns \<open>-1\<close>, the second returns a kernel code, zero-extended. The state of a blocked thread is
  the pair of guest memory and table, which other threads change while it sleeps.
\<close>

section \<open>State\<close>

record sem =
  sm_magic :: u32
  sm_in_use :: bool
  sm_value :: i32

type_synonym sem_tab = "nat \<Rightarrow> sem"
type_synonym sem_state = "guest_mem \<times> sem_tab"
type_synonym sem_wake = "bool \<times> (sem_state \<Rightarrow> sem_state)"

abbreviation (input) SEM_MAGIC :: u32 where "SEM_MAGIC \<equiv> 0x53454d31"
abbreviation (input) MAX_SEMS :: nat where "MAX_SEMS \<equiv> 1024"

definition sem_tab0 :: sem_tab where
  "sem_tab0 = (\<lambda>_. \<lparr>sm_magic = 0, sm_in_use = False, sm_value = 0\<rparr>)"

definition sem_put :: "sem_tab \<Rightarrow> nat \<Rightarrow> (sem \<Rightarrow> sem) \<Rightarrow> sem_tab" where
  "sem_put t i f = t(i := f (t i))"

definition alloc_sem_slot :: "sem_tab \<Rightarrow> nat option \<times> sem_tab" where
  "alloc_sem_slot t =
     (case first_free (\<lambda>i. sm_in_use (t i)) 1 (MAX_SEMS - 1) of
        None \<Rightarrow> (None, t)
      | Some i \<Rightarrow> (Some i, sem_put t i (sm_in_use_update (\<lambda>_. True))))"

definition get_sem :: "sem_tab \<Rightarrow> u32 \<Rightarrow> nat option" where
  "get_sem t h =
     (if h = 0 \<or> MAX_SEMS \<le> unat h then None
      else if \<not> sm_in_use (t (unat h)) \<or> sm_magic (t (unat h)) \<noteq> SEM_MAGIC then None
      else Some (unat h))"

text \<open>The parts both families share: setting a slot up and invalidating and releasing it.\<close>

definition sem_setup :: "sem_tab \<Rightarrow> nat \<Rightarrow> i32 \<Rightarrow> sem_tab" where
  "sem_setup t i v = sem_put t i (\<lambda>s. s\<lparr>sm_magic := SEM_MAGIC, sm_value := v\<rparr>)"

definition sem_teardown :: "sem_tab \<Rightarrow> nat \<Rightarrow> sem_tab" where
  "sem_teardown t i = sem_put (sem_put t i (\<lambda>s. s\<lparr>sm_magic := 0\<rparr>)) i (\<lambda>s. s\<lparr>sm_in_use := False\<rparr>)"

definition sem_add :: "i32 \<Rightarrow> sem_tab \<Rightarrow> nat \<Rightarrow> sem_tab" where
  "sem_add d t i = sem_put t i (\<lambda>s. s\<lparr>sm_value := sm_value s + d\<rparr>)"

abbreviation sem_avail :: "sem_tab \<Rightarrow> nat \<Rightarrow> bool" where
  "sem_avail t i \<equiv> 0 < sint (sm_value (t i))"

section \<open>POSIX calls\<close>

definition sem_fail :: "i32 \<Rightarrow> guest_ctx \<Rightarrow> guest_mem \<Rightarrow> sem_tab \<Rightarrow> guest_ctx \<times> guest_mem \<times> sem_tab" where
  "sem_fail err c m t = (ret_rax c (- 1), set_guest_errno c m err, t)"

definition shim_sem_init :: "guest_ctx \<Rightarrow> guest_mem \<Rightarrow> sem_tab \<Rightarrow> guest_ctx \<times> guest_mem \<times> sem_tab" where
  "shim_sem_init c m t =
     (if rdi c = 0 then sem_fail EFAULT c m t else
      case alloc_sem_slot t of
        (None, t1) \<Rightarrow> sem_fail ENOSPC c m t1
      | (Some i, t1) \<Rightarrow> (ret_rax c 0, wr_u64 m (rdi c) (of_nat i), sem_setup t1 i (ucast (rdx c))))"

definition shim_sem_destroy :: "guest_ctx \<Rightarrow> guest_mem \<Rightarrow> sem_tab \<Rightarrow> guest_ctx \<times> guest_mem \<times> sem_tab" where
  "shim_sem_destroy c m t =
     (if rdi c = 0 then sem_fail EFAULT c m t else
      case get_sem t (rd_u32 m (rdi c)) of
        None \<Rightarrow> sem_fail EINVAL c m t
      | Some i \<Rightarrow> (ret_rax c 0, m, sem_teardown t i))"

text \<open>\<open>sem_wait\<close> tests the value only: it does not notice that the semaphore was destroyed.\<close>

definition shim_sem_wait ::
    "guest_ctx \<Rightarrow> guest_mem \<Rightarrow> sem_tab \<Rightarrow> sem_wake list \<Rightarrow> (guest_ctx \<times> guest_mem \<times> sem_tab) option" where
  "shim_sem_wait c m t ws =
     (if rdi c = 0 then Some (sem_fail EFAULT c m t) else
      case get_sem t (rd_u32 m (rdi c)) of
        None \<Rightarrow> Some (sem_fail EINVAL c m t)
      | Some i \<Rightarrow>
          (case sleep_loop (\<lambda>st. \<not> sem_avail (snd st) i) False (m, t) ws of
             None \<Rightarrow> None
           | Some (_, m', t') \<Rightarrow> Some (ret_rax c 0, m', sem_add (- 1) t' i)))"

text \<open>
  The deadline of \<open>sem_timedwait\<close>: \<open>Inl\<close> for a bad timespec, otherwise whether the wait is timed;
  \<open>now\<close> is the current second.
\<close>

definition sem_deadline :: "guest_mem \<Rightarrow> u64 \<Rightarrow> i64 \<Rightarrow> i32 + bool" where
  "sem_deadline m ts_addr now =
     (if ts_addr = 0 then Inr False else
      let sec = rd_u64 m ts_addr; nsec = rd_u64 m (ts_addr + 8)
      in if sint nsec < 0 \<or> 1000000000 \<le> sint nsec then Inl EINVAL
         else Inr (sint sec < sint (now + 30 * 365 * 86400)))"

definition shim_sem_timedwait ::
    "i64 \<Rightarrow> guest_ctx \<Rightarrow> guest_mem \<Rightarrow> sem_tab \<Rightarrow> sem_wake list \<Rightarrow> (guest_ctx \<times> guest_mem \<times> sem_tab) option" where
  "shim_sem_timedwait now c m t ws =
     (case (if rdi c \<noteq> 0 then get_sem t (rd_u32 m (rdi c)) else None) of
        None \<Rightarrow> Some (sem_fail EINVAL c m t)
      | Some i \<Rightarrow>
          if sem_avail t i then Some (ret_rax c 0, m, sem_add (- 1) t i) else
          (case sem_deadline m (rsi c) now of
             Inl e \<Rightarrow> Some (sem_fail e c m t)
           | Inr timed \<Rightarrow>
               (case sleep_loop (\<lambda>st. \<not> sem_avail (snd st) i \<and> sm_magic (snd st i) = SEM_MAGIC)
                       timed (m, t) ws of
                  None \<Rightarrow> None
                | Some (_, m', t') \<Rightarrow>
                    if sm_magic (t' i) \<noteq> SEM_MAGIC then Some (sem_fail EINVAL c m' t')
                    else if sem_avail t' i then Some (ret_rax c 0, m', sem_add (- 1) t' i)
                    else Some (sem_fail ETIMEDOUT c m' t'))))"

definition shim_sem_trywait :: "guest_ctx \<Rightarrow> guest_mem \<Rightarrow> sem_tab \<Rightarrow> guest_ctx \<times> guest_mem \<times> sem_tab" where
  "shim_sem_trywait c m t =
     (if rdi c = 0 then sem_fail EFAULT c m t else
      case get_sem t (rd_u32 m (rdi c)) of
        None \<Rightarrow> sem_fail EINVAL c m t
      | Some i \<Rightarrow> if sem_avail t i then (ret_rax c 0, m, sem_add (- 1) t i) else sem_fail EAGAIN c m t)"

definition shim_sem_post :: "guest_ctx \<Rightarrow> guest_mem \<Rightarrow> sem_tab \<Rightarrow> guest_ctx \<times> guest_mem \<times> sem_tab" where
  "shim_sem_post c m t =
     (if rdi c = 0 then sem_fail EFAULT c m t else
      case get_sem t (rd_u32 m (rdi c)) of
        None \<Rightarrow> sem_fail EINVAL c m t
      | Some i \<Rightarrow> (ret_rax c 0, m, sem_add 1 t i))"

definition shim_sem_getvalue :: "guest_ctx \<Rightarrow> guest_mem \<Rightarrow> sem_tab \<Rightarrow> guest_ctx \<times> guest_mem \<times> sem_tab" where
  "shim_sem_getvalue c m t =
     (if rdi c = 0 \<or> rsi c = 0 then sem_fail EFAULT c m t else
      case get_sem t (rd_u32 m (rdi c)) of
        None \<Rightarrow> sem_fail EINVAL c m t
      | Some i \<Rightarrow> (ret_rax c 0, wr_u32 m (rsi c) (sm_value (t i)), t))"

section \<open>scePthread calls\<close>

definition sce_ret :: "i32 \<Rightarrow> guest_ctx \<Rightarrow> guest_mem \<Rightarrow> sem_tab \<Rightarrow> guest_ctx \<times> guest_mem \<times> sem_tab" where
  "sce_ret code c m t = (ret_rax c (ucast code), m, t)"

definition shim_scePthreadSemInit ::
    "guest_ctx \<Rightarrow> guest_mem \<Rightarrow> sem_tab \<Rightarrow> guest_ctx \<times> guest_mem \<times> sem_tab" where
  "shim_scePthreadSemInit c m t =
     (if (ucast (rsi c) :: i32) \<noteq> 0 then sce_ret KERR_EINVAL c m t
      else if rdi c = 0 then sce_ret KERR_EFAULT c m t else
      case alloc_sem_slot t of
        (None, t1) \<Rightarrow> sce_ret KERR_ENOSPC c m t1
      | (Some i, t1) \<Rightarrow> (ret_rax c 0, wr_u64 m (rdi c) (of_nat i), sem_setup t1 i (ucast (rdx c))))"

definition shim_scePthreadSemDestroy ::
    "guest_ctx \<Rightarrow> guest_mem \<Rightarrow> sem_tab \<Rightarrow> guest_ctx \<times> guest_mem \<times> sem_tab" where
  "shim_scePthreadSemDestroy c m t =
     (if rdi c = 0 then sce_ret KERR_EFAULT c m t else
      case get_sem t (rd_u32 m (rdi c)) of
        None \<Rightarrow> sce_ret KERR_EINVAL c m t
      | Some i \<Rightarrow> (ret_rax c 0, m, sem_teardown t i))"

definition sce_blocked :: "nat \<Rightarrow> sem_state \<Rightarrow> bool" where
  "sce_blocked i st \<longleftrightarrow> sm_magic (snd st i) = SEM_MAGIC \<and> \<not> sem_avail (snd st) i"

definition shim_scePthreadSemWait ::
    "guest_ctx \<Rightarrow> guest_mem \<Rightarrow> sem_tab \<Rightarrow> sem_wake list \<Rightarrow> (guest_ctx \<times> guest_mem \<times> sem_tab) option" where
  "shim_scePthreadSemWait c m t ws =
     (if rdi c = 0 then Some (sce_ret KERR_EFAULT c m t) else
      case get_sem t (rd_u32 m (rdi c)) of
        None \<Rightarrow> Some (sce_ret KERR_EINVAL c m t)
      | Some i \<Rightarrow>
          (case sleep_loop (sce_blocked i) False (m, t) ws of
             None \<Rightarrow> None
           | Some (_, m', t') \<Rightarrow>
               if sm_magic (t' i) \<noteq> SEM_MAGIC then Some (sce_ret KERR_EINVAL c m' t')
               else Some (ret_rax c 0, m', sem_add (- 1) t' i)))"

definition shim_scePthreadSemTrywait ::
    "guest_ctx \<Rightarrow> guest_mem \<Rightarrow> sem_tab \<Rightarrow> guest_ctx \<times> guest_mem \<times> sem_tab" where
  "shim_scePthreadSemTrywait c m t =
     (if rdi c = 0 then sce_ret KERR_EFAULT c m t else
      case get_sem t (rd_u32 m (rdi c)) of
        None \<Rightarrow> sce_ret KERR_EINVAL c m t
      | Some i \<Rightarrow> if sem_avail t i then (ret_rax c 0, m, sem_add (- 1) t i) else sce_ret KERR_EAGAIN c m t)"

definition shim_scePthreadSemTimedwait ::
    "guest_ctx \<Rightarrow> guest_mem \<Rightarrow> sem_tab \<Rightarrow> sem_wake list \<Rightarrow> (guest_ctx \<times> guest_mem \<times> sem_tab) option" where
  "shim_scePthreadSemTimedwait c m t ws =
     (if rdi c = 0 then Some (sce_ret KERR_EFAULT c m t) else
      case get_sem t (rd_u32 m (rdi c)) of
        None \<Rightarrow> Some (sce_ret KERR_EINVAL c m t)
      | Some i \<Rightarrow>
          (case sleep_loop (sce_blocked i) True (m, t) ws of
             None \<Rightarrow> None
           | Some (timeout, m', t') \<Rightarrow>
               if timeout then Some (sce_ret KERR_ETIMEDOUT c m' t')
               else if sm_magic (t' i) \<noteq> SEM_MAGIC then Some (sce_ret KERR_EINVAL c m' t')
               else Some (ret_rax c 0, m', sem_add (- 1) t' i)))"

definition shim_scePthreadSemPost ::
    "guest_ctx \<Rightarrow> guest_mem \<Rightarrow> sem_tab \<Rightarrow> guest_ctx \<times> guest_mem \<times> sem_tab" where
  "shim_scePthreadSemPost c m t =
     (if rdi c = 0 then sce_ret KERR_EFAULT c m t else
      case get_sem t (rd_u32 m (rdi c)) of
        None \<Rightarrow> sce_ret KERR_EINVAL c m t
      | Some i \<Rightarrow> (ret_rax c 0, m, sem_add 1 t i))"

definition shim_scePthreadSemGetvalue ::
    "guest_ctx \<Rightarrow> guest_mem \<Rightarrow> sem_tab \<Rightarrow> guest_ctx \<times> guest_mem \<times> sem_tab" where
  "shim_scePthreadSemGetvalue c m t =
     (if rdi c = 0 \<or> rsi c = 0 then sce_ret KERR_EFAULT c m t else
      case get_sem t (rd_u32 m (rdi c)) of
        None \<Rightarrow> sce_ret KERR_EINVAL c m t
      | Some i \<Rightarrow> (ret_rax c 0, wr_u32 m (rsi c) (sm_value (t i)), t))"

end
