(* ===== verification/KernelSema.thy ===== *)
theory KernelSema
  imports EventFlag
begin

unbundle bit_operations_syntax

text \<open>
  The kernel semaphores of \<open>kernel/sync/ps4_semaphore.c\<close>: counting semaphores with a name and a
  maximum, from which a thread takes several units at once. The comparisons are signed and the
  sums wrap at 32 bits as in the source.
\<close>

section \<open>State\<close>

record ksem =
  ks_magic :: u32
  ks_in_use :: bool
  ks_name :: string
  ks_count :: i32
  ks_init :: i32
  ks_max :: i32
  ks_attr :: u32
  ks_waiters :: i32

type_synonym ksem_tab = "nat \<Rightarrow> ksem"
type_synonym ksem_wake = "bool \<times> (ksem_tab \<Rightarrow> ksem_tab)"

abbreviation (input) KSEM_MAGIC :: u32 where "KSEM_MAGIC \<equiv> 0x4b53454d"
abbreviation (input) MAX_KSEMS :: nat where "MAX_KSEMS \<equiv> 1024"

definition ksem_zero :: ksem where
  "ksem_zero = \<lparr>ks_magic = 0, ks_in_use = False, ks_name = [], ks_count = 0, ks_init = 0, ks_max = 0,
     ks_attr = 0, ks_waiters = 0\<rparr>"

definition ksem_put :: "ksem_tab \<Rightarrow> nat \<Rightarrow> (ksem \<Rightarrow> ksem) \<Rightarrow> ksem_tab" where
  "ksem_put t i f = t(i := f (t i))"

definition alloc_ksem_slot :: "ksem_tab \<Rightarrow> nat option \<times> ksem_tab" where
  "alloc_ksem_slot t =
     (case first_free (\<lambda>i. ks_in_use (t i)) 1 (MAX_KSEMS - 1) of
        None \<Rightarrow> (None, t)
      | Some i \<Rightarrow> (Some i, ksem_put t i (ks_in_use_update (\<lambda>_. True))))"

definition get_ksem :: "ksem_tab \<Rightarrow> i32 \<Rightarrow> nat option" where
  "get_ksem t h =
     (if sint h \<le> 0 \<or> int MAX_KSEMS \<le> sint h then None
      else if \<not> ks_in_use (t (unat h)) \<or> ks_magic (t (unat h)) \<noteq> KSEM_MAGIC then None
      else Some (unat h))"

section \<open>Calls\<close>

text \<open>The arguments of a creation: NULL handle pointer, name, attribute, initial and maximal count.\<close>

type_synonym ksem_args = "bool \<times> string option \<times> u32 \<times> i32 \<times> i32"

definition sceKernelCreateSema :: "ksem_args \<Rightarrow> ksem_tab \<Rightarrow> (i32 + i32) \<times> ksem_tab" where
  "sceKernelCreateSema args t =
     (case args of (out_null, name, attr, initCount, maxCount) \<Rightarrow>
      if out_null \<or> name = None \<or> 2 < attr \<or> sint initCount < 0 \<or> sint maxCount \<le> 0
         \<or> sint maxCount < sint initCount
      then (Inl KERR_EINVAL, t) else
      case alloc_ksem_slot t of
        (None, t1) \<Rightarrow> (Inl KERR_ENFILE, t1)
      | (Some i, t1) \<Rightarrow>
          (Inr (of_nat i),
           ksem_put t1 i (\<lambda>s. s\<lparr>ks_magic := KSEM_MAGIC, ks_name := strncpy_name 32 (the name),
             ks_init := initCount, ks_max := maxCount, ks_count := initCount, ks_attr := attr,
             ks_waiters := 0\<rparr>)))"

definition sceKernelDeleteSema :: "ksem_tab \<Rightarrow> i32 \<Rightarrow> i32 \<times> ksem_tab" where
  "sceKernelDeleteSema t h =
     (case get_ksem t h of None \<Rightarrow> (KERR_ESRCH, t)
      | Some i \<Rightarrow> (0, ksem_put (ksem_put t i (\<lambda>s. s\<lparr>ks_magic := 0\<rparr>)) i (\<lambda>s. s\<lparr>ks_in_use := False\<rparr>)))"

definition sceKernelSignalSema :: "ksem_tab \<Rightarrow> i32 \<Rightarrow> i32 \<Rightarrow> i32 \<times> ksem_tab" where
  "sceKernelSignalSema t h signalCount =
     (if sint signalCount \<le> 0 then (KERR_EINVAL, t) else
      case get_ksem t h of None \<Rightarrow> (KERR_ESRCH, t)
      | Some i \<Rightarrow>
          if sint (ks_max (t i)) < sint (ks_count (t i) + signalCount) then (KERR_EINVAL, t)
          else (0, ksem_put t i (\<lambda>s. s\<lparr>ks_count := ks_count s + signalCount\<rparr>)))"

definition ksem_blocked :: "nat \<Rightarrow> i32 \<Rightarrow> ksem_tab \<Rightarrow> bool" where
  "ksem_blocked i need t \<longleftrightarrow> ks_magic (t i) = KSEM_MAGIC \<and> sint (ks_count (t i)) < sint need"

definition ksem_take :: "i32 \<Rightarrow> ksem_tab \<Rightarrow> nat \<Rightarrow> ksem_tab" where
  "ksem_take need t i = ksem_put t i (\<lambda>s. s\<lparr>ks_count := ks_count s - need\<rparr>)"

text \<open>
  The result: the code, whether \<open>*pTimeout\<close> is set to zero, and the table; \<open>None\<close> while the
  thread sleeps.
\<close>

definition sceKernelWaitSema ::
    "ksem_tab \<Rightarrow> i32 \<Rightarrow> i32 \<Rightarrow> u32 option \<Rightarrow> ksem_wake list \<Rightarrow> (i32 \<times> bool \<times> ksem_tab) option" where
  "sceKernelWaitSema t h needCount timeout ws =
     (if sint needCount \<le> 0 then Some (KERR_EINVAL, False, t) else
      case get_ksem t h of None \<Rightarrow> Some (KERR_ESRCH, False, t)
      | Some i \<Rightarrow>
          if sint needCount \<le> sint (ks_count (t i)) then Some (0, False, ksem_take needCount t i)
          else if timeout = Some 0 then Some (KERR_ETIMEDOUT, False, t)
          else
            (let t1 = ksem_put t i (\<lambda>s. s\<lparr>ks_waiters := ks_waiters s + 1\<rparr>) in
             case sleep_loop (ksem_blocked i needCount) (timeout \<noteq> None) t1 ws of
               None \<Rightarrow> None
             | Some (timed_out, u) \<Rightarrow>
                 (let u1 = ksem_put u i (\<lambda>s. s\<lparr>ks_waiters := ks_waiters s - 1\<rparr>) in
                  if timed_out then Some (KERR_ETIMEDOUT, True, u1)
                  else if ks_magic (u1 i) \<noteq> KSEM_MAGIC then Some (KERR_ESRCH, False, u1)
                  else Some (0, False, ksem_take needCount u1 i))))"

definition sceKernelPollSema :: "ksem_tab \<Rightarrow> i32 \<Rightarrow> i32 \<Rightarrow> i32 \<times> ksem_tab" where
  "sceKernelPollSema t h needCount =
     (if sint needCount \<le> 0 then (KERR_EINVAL, t) else
      case get_ksem t h of None \<Rightarrow> (KERR_ESRCH, t)
      | Some i \<Rightarrow>
          if sint needCount \<le> sint (ks_count (t i)) then (0, ksem_take needCount t i)
          else (KERR_EBUSY, t))"

text \<open>The result is the code and the number of waiting threads, if it is reported.\<close>

definition sceKernelCancelSema :: "ksem_tab \<Rightarrow> i32 \<Rightarrow> i32 \<Rightarrow> (i32 \<times> i32 option) \<times> ksem_tab" where
  "sceKernelCancelSema t h setCount =
     (case get_ksem t h of None \<Rightarrow> ((KERR_ESRCH, None), t)
      | Some i \<Rightarrow> ((0, Some (ks_waiters (t i))),
                 ksem_put t i (\<lambda>s. s\<lparr>ks_count := (if sint setCount < 0 then ks_init s else setCount)\<rparr>)))"

section \<open>Guest shims\<close>

definition shim_sceKernelCreateSema ::
    "guest_ctx \<Rightarrow> guest_mem \<Rightarrow> ksem_tab \<Rightarrow> guest_ctx \<times> guest_mem \<times> ksem_tab" where
  "shim_sceKernelCreateSema c m t =
     (case sceKernelCreateSema (False, arg_name m (rsi c), ucast (rdx c), ucast (rcx c), ucast (r8 c)) t of
        (Inl rc, t') \<Rightarrow> (ret_rc c rc, m, t')
      | (Inr h, t') \<Rightarrow> (ret_rc c 0, opt_wr_u32 m (rdi c) h, t'))"

definition shim_sceKernelDeleteSema :: "guest_ctx \<Rightarrow> ksem_tab \<Rightarrow> guest_ctx \<times> ksem_tab" where
  "shim_sceKernelDeleteSema c t = (let (rc, t') = sceKernelDeleteSema t (ucast (rdi c)) in (ret_rc c rc, t'))"

text \<open>The wait reads its timeout from the memory \<open>m\<close> at entry and writes to \<open>m'\<close>, the one at its return.\<close>

definition shim_sceKernelWaitSema ::
    "guest_ctx \<Rightarrow> guest_mem \<Rightarrow> guest_mem \<Rightarrow> ksem_tab \<Rightarrow> ksem_wake list \<Rightarrow> (guest_ctx \<times> guest_mem \<times> ksem_tab) option" where
  "shim_sceKernelWaitSema c m m' t ws =
     (let timeout = (if rdx c \<noteq> 0 then Some (rd_u32 m (rdx c)) else None) in
      case sceKernelWaitSema t (ucast (rdi c)) (ucast (rsi c)) timeout ws of
        None \<Rightarrow> None
      | Some (rc, zeroed, t') \<Rightarrow> Some (ret_rc c rc, if zeroed then wr_u32 m' (rdx c) 0 else m', t'))"

definition shim_sceKernelSignalSema :: "guest_ctx \<Rightarrow> ksem_tab \<Rightarrow> guest_ctx \<times> ksem_tab" where
  "shim_sceKernelSignalSema c t =
     (let (rc, t') = sceKernelSignalSema t (ucast (rdi c)) (ucast (rsi c)) in (ret_rc c rc, t'))"

definition shim_sceKernelPollSema :: "guest_ctx \<Rightarrow> ksem_tab \<Rightarrow> guest_ctx \<times> ksem_tab" where
  "shim_sceKernelPollSema c t =
     (let (rc, t') = sceKernelPollSema t (ucast (rdi c)) (ucast (rsi c)) in (ret_rc c rc, t'))"

definition shim_sceKernelCancelSema ::
    "guest_ctx \<Rightarrow> guest_mem \<Rightarrow> ksem_tab \<Rightarrow> guest_ctx \<times> guest_mem \<times> ksem_tab" where
  "shim_sceKernelCancelSema c m t =
     (let ((rc, n), t') = sceKernelCancelSema t (ucast (rdi c)) (ucast (rsi c))
      in (ret_rc c rc, (case n of None \<Rightarrow> m | Some k \<Rightarrow> opt_wr_u32 m (rdx c) k), t'))"

end
