(* ===== verification/SemaProps.thy ===== *)
theory SemaProps
  imports Semaphore KernelSema
begin

unbundle bit_operations_syntax

text \<open>
  The semaphores: what every wait does under any behaviour of the other threads, the bounds of
  the kernel semaphores and the calls that break them.
\<close>

section \<open>POSIX and scePthread waits\<close>

text \<open>A wait that returns at wake-up \<open>k\<close> took one token there, and one was there.\<close>

definition sem_took :: "nat \<Rightarrow> sem_state \<Rightarrow> guest_ctx \<times> guest_mem \<times> sem_tab \<Rightarrow> guest_ctx \<Rightarrow> bool" where
  "sem_took i st res c \<longleftrightarrow> 0 < sint (sm_value (snd st i))
     \<and> res = (ret_rax c 0, fst st, (snd st)(i := (snd st i)\<lparr>sm_value := sm_value (snd st i) - 1\<rparr>))"

definition sce_wait_ends :: "nat \<Rightarrow> bool \<Rightarrow> sem_state \<Rightarrow> guest_ctx \<times> guest_mem \<times> sem_tab \<Rightarrow> guest_ctx \<Rightarrow> bool" where
  "sce_wait_ends i timeout st res c \<longleftrightarrow>
     (if timeout then res = (ret_rax c (ucast KERR_ETIMEDOUT), st)
      else if sm_magic (snd st i) \<noteq> SEM_MAGIC then res = (ret_rax c (ucast KERR_EINVAL), st)
      else sem_took i st res c)"

lemma sem_add_minus: "sem_add (- 1) t i = t(i := (t i)\<lparr>sm_value := sm_value (t i) - 1\<rparr>)"
  by (simp add: sem_add_def sem_put_def)

text \<open>Both waits end in the same way, with or without a timeout.\<close>

definition sce_finish :: "nat \<Rightarrow> guest_ctx \<Rightarrow> bool \<times> sem_state \<Rightarrow> guest_ctx \<times> guest_mem \<times> sem_tab" where
  "sce_finish i c r = (case r of (timeout, m', t') \<Rightarrow>
     if timeout then sce_ret KERR_ETIMEDOUT c m' t'
     else if sm_magic (t' i) \<noteq> SEM_MAGIC then sce_ret KERR_EINVAL c m' t'
     else (ret_rax c 0, m', sem_add (- 1) t' i))"

lemma sce_finish_ends:
  "(\<not> timeout \<longrightarrow> \<not> sce_blocked i st) \<Longrightarrow> sce_wait_ends i timeout st (sce_finish i c (timeout, st)) c"
  by (cases st) (auto simp: sce_finish_def sce_wait_ends_def sem_took_def sce_blocked_def sem_add_minus sce_ret_def)

lemma sce_sleep_exact:
  "(case map_option (sce_finish i c) (sleep_loop (sce_blocked i) timed st ws) of
      None \<Rightarrow> asleep (sce_blocked i) timed st ws (Suc (length ws))
    | Some res \<Rightarrow> \<exists>k \<le> length ws. asleep (sce_blocked i) timed st ws k
        \<and> sce_wait_ends i (0 < k \<and> timed \<and> fst (ws ! (k - 1))) (wake_states st ws ! k) res c)"
proof (cases "sleep_loop (sce_blocked i) timed st ws")
  case None
  have "asleep (sce_blocked i) timed st ws (Suc (length ws))"
    by (rule sleep_loop_None [THEN iffD1, OF None])
  then show ?thesis unfolding None by simp
next
  case (Some p)
  obtain to u where p: "p = (to, u)" by (rule prod.exhaust)
  from sleep_loop_Some [OF Some [unfolded p]] obtain k where k: "k \<le> length ws"
    "asleep (sce_blocked i) timed st ws k" "u = wake_states st ws ! k"
    "to = (0 < k \<and> timed \<and> fst (ws ! (k - 1)))" "\<not> to \<longrightarrow> \<not> sce_blocked i u" by blast
  from sce_finish_ends [OF k(5), of c] show ?thesis
    unfolding Some p option.map option.case using k(1,2) unfolding k(3,4) by blast
qed

lemma sce_wait_eq:
  assumes "rdi c \<noteq> 0" and "get_sem t (rd_u32 m (rdi c)) = Some i"
  shows "shim_scePthreadSemTimedwait c m t ws = map_option (sce_finish i c) (sleep_loop (sce_blocked i) True (m, t) ws)"
    and "shim_scePthreadSemWait c m t ws = map_option (sce_finish i c) (sleep_loop (sce_blocked i) False (m, t) ws)"
proof -
  show "shim_scePthreadSemTimedwait c m t ws = map_option (sce_finish i c) (sleep_loop (sce_blocked i) True (m, t) ws)"
    using assms by (simp add: shim_scePthreadSemTimedwait_def sce_finish_def split: option.splits prod.splits)
  have "\<not> to" if "sleep_loop (sce_blocked i) False (m, t) ws = Some (to, u)" for to u
    using sleep_loop_Some [OF that] by blast
  then show "shim_scePthreadSemWait c m t ws = map_option (sce_finish i c) (sleep_loop (sce_blocked i) False (m, t) ws)"
    using assms
    by (cases "sleep_loop (sce_blocked i) False (m, t) ws") (auto simp: shim_scePthreadSemWait_def sce_finish_def)
qed

text \<open>
  Under any behaviour of the other threads, a blocking \<open>scePthreadSemWait\<close> on a live
  semaphore returns at the first wake-up at which a token is there or the semaphore was
  destroyed: it takes exactly one token and returns 0, or fails with \<open>EINVAL\<close> without effect.
  \<open>scePthreadSemTimedwait\<close> does the same and fails with \<open>ETIMEDOUT\<close> without effect at the first
  timeout before that.
\<close>

theorem sem_wait_exact:
  assumes "rdi c \<noteq> 0" and "get_sem t (rd_u32 m (rdi c)) = Some i"
  shows "(case shim_scePthreadSemWait c m t ws of
      None \<Rightarrow> asleep (sce_blocked i) False (m, t) ws (Suc (length ws))
    | Some res \<Rightarrow> \<exists>k \<le> length ws. asleep (sce_blocked i) False (m, t) ws k
        \<and> sce_wait_ends i False (wake_states (m, t) ws ! k) res c)
    \<and> (case shim_scePthreadSemTimedwait c m t ws of
      None \<Rightarrow> asleep (sce_blocked i) True (m, t) ws (Suc (length ws))
    | Some res \<Rightarrow> \<exists>k \<le> length ws. asleep (sce_blocked i) True (m, t) ws k
        \<and> sce_wait_ends i (0 < k \<and> fst (ws ! (k - 1))) (wake_states (m, t) ws ! k) res c)"
  unfolding sce_wait_eq [OF assms]
  using sce_sleep_exact [where timed = False and st = "(m, t)" and i = i and c = c and ws = ws]
    sce_sleep_exact [where timed = True and st = "(m, t)" and i = i and c = c and ws = ws]
  by (simp only: simp_thms)

text \<open>A context with its first two arguments set, and a memory that holds a handle at \<open>0x100\<close>.\<close>

definition ex_ctx :: "u64 \<Rightarrow> u64 \<Rightarrow> guest_ctx" where
  "ex_ctx a b = \<lparr>rax = 0, rcx = 0, rdx = 0, rbx = 0, rsp = 0x8000, rbp = 0, rsi = b, rdi = a, r8 = 0, r9 = 0,
     r10 = 0, r11 = 0, rip = 0, fs_base = 0, cf = 0, zf = 0, sf = 0, ovf = 0, pf = 0, af = 0,
     fpu_stack = replicate 8 0, fpu_top = 0, thread_id = 1\<rparr>"

definition ex_mem :: guest_mem where
  "ex_mem = wr_u32 \<lparr>mem_mapped = True, mem_size = 0x10000, mem_bytes = (\<lambda>_. 0)\<rparr> 0x100 1"

definition ex_sem :: "i32 \<Rightarrow> sem_tab" where
  "ex_sem v = sem_tab0(1 := \<lparr>sm_magic = SEM_MAGIC, sm_in_use = True, sm_value = v\<rparr>)"

lemma ex_sem_facts:
  "rdi (ex_ctx 0x100 b) = 0x100" "rd_u32 ex_mem 0x100 = 1" "get_sem (ex_sem v) 1 = Some 1"
  by (simp_all add: ex_ctx_def ex_mem_def get_sem_def ex_sem_def)

theorem sem_wait_exact_witness:
  "rdi (ex_ctx 0x100 0) \<noteq> 0 \<and> get_sem (ex_sem 0) (rd_u32 ex_mem (rdi (ex_ctx 0x100 0))) = Some 1
   \<and> shim_scePthreadSemWait (ex_ctx 0x100 0) ex_mem (ex_sem 0) [] = None
   \<and> asleep (sce_blocked 1) False (ex_mem, ex_sem 0) [] 1
   \<and> shim_scePthreadSemWait (ex_ctx 0x100 0) ex_mem (ex_sem 0) [(False, \<lambda>(m, t). (m, sem_add 1 t 1))]
      = Some (ret_rax (ex_ctx 0x100 0) 0, ex_mem, ex_sem 0)"
proof -
  have r: "rdi (ex_ctx 0x100 0) \<noteq> 0" and g: "get_sem (ex_sem 0) (rd_u32 ex_mem (rdi (ex_ctx 0x100 0))) = Some 1"
    by (simp_all add: ex_sem_facts)
  have n: "shim_scePthreadSemWait (ex_ctx 0x100 0) ex_mem (ex_sem 0) [] = None"
    unfolding sce_wait_eq [OF r g] by (simp add: sce_blocked_def ex_sem_def)
  have "shim_scePthreadSemWait (ex_ctx 0x100 0) ex_mem (ex_sem 0) [(False, \<lambda>(m, t). (m, sem_add 1 t 1))]
      = Some (ret_rax (ex_ctx 0x100 0) 0, ex_mem, ex_sem 0)"
    unfolding sce_wait_eq [OF r g]
    by (simp add: sce_blocked_def ex_sem_def sem_add_def sem_put_def sce_finish_def)
  then show ?thesis
    using sem_wait_exact [OF r g, of "[]"] n r g by simp
qed

text \<open>
  \<open>sem_wait\<close> is not released when its semaphore is destroyed, unlike \<open>scePthreadSemWait\<close>:
  after the destruction the first sleeps on while the second returns \<open>EINVAL\<close>; and when the slot
  is given to a new semaphore with tokens, the sleeper takes one of the new semaphore's.
\<close>

theorem sem_wait_misses_destroy:
  "let destroy = (\<lambda>(m, t). (m, sem_teardown t 1)); reuse = (\<lambda>(m, t). (m, sem_setup (snd (alloc_sem_slot t)) 1 5));
       c = ex_ctx 0x100 0
   in shim_sem_wait c ex_mem (ex_sem 0) [(False, destroy)] = None
      \<and> (\<exists>u. shim_scePthreadSemWait c ex_mem (ex_sem 0) [(False, destroy)]
               = Some (ret_rax c (ucast KERR_EINVAL), ex_mem, u))
      \<and> fst (alloc_sem_slot (snd (destroy (ex_mem, ex_sem 0)))) = Some 1
      \<and> (\<exists>u. shim_sem_wait c ex_mem (ex_sem 0) [(False, destroy), (False, reuse)]
               = Some (ret_rax c 0, ex_mem, u) \<and> sm_value (u 1) = 4)"
proof -
  have r: "rdi (ex_ctx 0x100 0) \<noteq> 0" and g: "get_sem (ex_sem 0) (rd_u32 ex_mem (rdi (ex_ctx 0x100 0))) = Some 1"
    by (simp_all add: ex_sem_facts)
  have w: "shim_sem_wait (ex_ctx 0x100 0) ex_mem (ex_sem 0) ws =
      (case sleep_loop (\<lambda>st. \<not> sem_avail (snd st) 1) False (ex_mem, ex_sem 0) ws of
         None \<Rightarrow> None | Some (_, m', t') \<Rightarrow> Some (ret_rax (ex_ctx 0x100 0) 0, m', sem_add (- 1) t' 1))" for ws
    using r g by (simp only: shim_sem_wait_def if_False option.case)
  show ?thesis
    unfolding Let_def w sce_wait_eq [OF r g]
    by (simp add: sce_blocked_def sce_finish_def sce_ret_def ex_sem_def sem_tab0_def sem_teardown_def
        sem_setup_def sem_add_def sem_put_def alloc_sem_slot_def first_free_first)
qed

end
