(* ===== verification/KsemProps.thy ===== *)
theory KsemProps
  imports KernelSema
begin

unbundle bit_operations_syntax

text \<open>
  Kernel semaphores: the table contract, the bounds every call keeps, what a wait takes under
  any behaviour of the other threads, and the calls that leave the bounds.
\<close>

section \<open>The table contract\<close>

definition ksem_live :: "ksem \<Rightarrow> bool" where
  "ksem_live s \<longleftrightarrow> ks_in_use s \<and> ks_magic s = KSEM_MAGIC"

definition ksem_objs :: "ksem_tab \<Rightarrow> i32 \<Rightarrow> ksem option" where
  "ksem_objs t = slot_objs ksem_live t"

definition ksem_inv :: "ksem_tab \<Rightarrow> bool" where
  "ksem_inv t \<longleftrightarrow> (\<forall>i. ks_in_use (t i) \<longrightarrow> ks_magic (t i) = KSEM_MAGIC)"

definition ksem_args_ok :: "ksem_args \<Rightarrow> bool" where
  "ksem_args_ok args = (case args of (out_null, name, attr, ini, maxc) \<Rightarrow>
     \<not> out_null \<and> name \<noteq> None \<and> attr \<le> 2 \<and> 0 \<le> sint ini \<and> 0 < sint maxc \<and> sint ini \<le> sint maxc)"

definition ksem_initial :: "ksem_args \<Rightarrow> ksem" where
  "ksem_initial args = (case args of (_, name, attr, ini, maxc) \<Rightarrow>
     \<lparr>ks_magic = KSEM_MAGIC, ks_in_use = True, ks_name = strncpy_name 32 (the name), ks_count = ini,
      ks_init = ini, ks_max = maxc, ks_attr = attr, ks_waiters = 0\<rparr>)"

lemma get_ksem_eq: "get_ksem t h = slot_get ksem_live t h"
  using handle_range [of h] by (auto simp: get_ksem_def slot_get_def ksem_live_def)

lemma ksem_objs_put:
  "1 \<le> i \<Longrightarrow> i < 1024 \<Longrightarrow> ksem_objs (ksem_put t i g) =
     (ksem_objs t)(of_nat i := (if ksem_live (g (t i)) then Some (g (t i)) else None))"
  unfolding ksem_objs_def ksem_put_def by (rule slot_objs_put)

lemma ksem_inv_put:
  "ksem_inv t \<Longrightarrow> (ks_in_use (g (t i)) \<Longrightarrow> ks_magic (g (t i)) = KSEM_MAGIC) \<Longrightarrow> ksem_inv (ksem_put t i g)"
  by (auto simp: ksem_inv_def ksem_put_def)

datatype ksem_cmd = KSignal i32 | KPoll i32 | KCancel i32

definition ksem_op :: "ksem_cmd \<Rightarrow> ksem_tab \<Rightarrow> i32 \<Rightarrow> i32 \<times> ksem_tab" where
  "ksem_op c t h = (case c of
     KSignal n \<Rightarrow> sceKernelSignalSema t h n
   | KPoll n \<Rightarrow> sceKernelPollSema t h n
   | KCancel n \<Rightarrow> (let ((rc, k), t') = sceKernelCancelSema t h n in (rc, t')))"

definition ksem_dead :: "ksem_cmd \<Rightarrow> i32" where
  "ksem_dead c = (case c of
     KSignal n \<Rightarrow> if sint n \<le> 0 then KERR_EINVAL else KERR_ESRCH
   | KPoll n \<Rightarrow> if sint n \<le> 0 then KERR_EINVAL else KERR_ESRCH
   | KCancel n \<Rightarrow> KERR_ESRCH)"

text \<open>What a call means for one semaphore: the code and the new count.\<close>

definition ksem_spec :: "ksem_cmd \<Rightarrow> ksem \<Rightarrow> i32 \<times> i32" where
  "ksem_spec c s = (case c of
     KSignal n \<Rightarrow> if sint n \<le> 0 \<or> sint (ks_max s) < sint (ks_count s + n) then (KERR_EINVAL, ks_count s)
                  else (0, ks_count s + n)
   | KPoll n \<Rightarrow> if sint n \<le> 0 then (KERR_EINVAL, ks_count s)
                else if sint n \<le> sint (ks_count s) then (0, ks_count s - n) else (KERR_EBUSY, ks_count s)
   | KCancel n \<Rightarrow> (0, if sint n < 0 then ks_init s else n))"

definition ksem_sop :: "ksem_cmd \<Rightarrow> ksem \<Rightarrow> i32 \<times> ksem" where
  "ksem_sop c s = (fst (ksem_spec c s), s\<lparr>ks_count := snd (ksem_spec c s)\<rparr>)"

lemma ksem_op_eq:
  assumes "get_ksem t h = Some i"
  shows "ksem_op c t h = (fst (ksem_sop c (t i)), ksem_put t i (\<lambda>_. snd (ksem_sop c (t i))))"
  using assms by (cases c)
    (auto simp: ksem_op_def ksem_sop_def ksem_spec_def ksem_put_def sceKernelSignalSema_def
      sceKernelPollSema_def sceKernelCancelSema_def ksem_take_def fun_upd_idem_iff)

lemma ksem_op_live:
  assumes "ksem_inv t" and "ksem_objs t h = Some s"
  shows "fst (ksem_op c t h) = fst (ksem_sop c s) \<and> ksem_inv (snd (ksem_op c t h))
    \<and> ksem_objs (snd (ksem_op c t h)) = (ksem_objs t)(h \<mapsto> snd (ksem_sop c s))"
proof -
  from assms(2) have g: "get_ksem t h = Some (unat h)" and s: "s = t (unat h)"
    and r: "1 \<le> unat h" "unat h < 1024" and l: "ksem_live s"
    by (auto simp: ksem_objs_def get_ksem_eq slot_objs_def slot_get_def split: if_splits)
  have l': "ksem_live (snd (ksem_sop c s))" using l by (simp add: ksem_live_def ksem_sop_def)
  have "ksem_inv (ksem_put t (unat h) (\<lambda>_. snd (ksem_sop c s)))"
    using assms(1) l' by (intro ksem_inv_put) (auto simp: ksem_live_def)
  then show ?thesis
    using ksem_objs_put [OF r, of t "\<lambda>_. snd (ksem_sop c s)"] l' by (simp add: ksem_op_eq [OF g] s)
qed

lemma ksem_op_dead: "ksem_objs t h = None \<Longrightarrow> ksem_op c t h = (ksem_dead c, t)"
  by (cases c)
    (auto simp: ksem_objs_def slot_objs_def ksem_op_def ksem_dead_def sceKernelSignalSema_def
      sceKernelPollSema_def sceKernelCancelSema_def get_ksem_eq slot_get_def split: if_splits)

lemma ksem_create_new:
  assumes "ksem_inv t" and "sceKernelCreateSema args t = (Inr h, t')"
  shows "ksem_args_ok args \<and> ksem_inv t' \<and> ksem_objs t h = None
    \<and> ksem_objs t' = (ksem_objs t)(h \<mapsto> ksem_initial args)"
proof -
  obtain n name attr ini maxc where args: "args = (n, name, attr, ini, maxc)" by (cases args)
  have ok: "ksem_args_ok args"
    using assms(2) by (auto simp: sceKernelCreateSema_def ksem_args_ok_def args split: if_splits)
  from assms(2) obtain i where i: "first_free (\<lambda>i. ks_in_use (t i)) 1 1023 = Some i" "h = of_nat i"
    and "t' = ksem_put (ksem_put t i (ks_in_use_update (\<lambda>_. True))) i
      (\<lambda>s. s\<lparr>ks_magic := KSEM_MAGIC, ks_name := strncpy_name 32 (the name), ks_init := ini,
             ks_max := maxc, ks_count := ini, ks_attr := attr, ks_waiters := 0\<rparr>)"
    by (auto simp: sceKernelCreateSema_def alloc_ksem_slot_def args split: if_splits option.splits)
  then have t': "t' = ksem_put t i (\<lambda>_. ksem_initial args)"
    by (cases "t i") (simp add: ksem_put_def ksem_initial_def args)
  from first_free_Some [OF i(1)] have r: "1 \<le> i" "i < 1024" "\<not> ks_in_use (t i)" by auto
  have "ksem_objs t h = None"
    using r(3) handle_nat(1) [OF r(2)] i(2) by (simp add: ksem_objs_def slot_objs_def ksem_live_def)
  moreover have "ksem_inv t'" unfolding t'
    using assms(1) by (intro ksem_inv_put) (auto simp: ksem_initial_def args)
  ultimately show ?thesis
    using ok i(2) ksem_objs_put [OF r(1,2), of t "\<lambda>_. ksem_initial args"] t'
    by (simp add: ksem_initial_def ksem_live_def args)
qed

lemma ksem_create_fails:
  "ksem_inv t \<Longrightarrow> sceKernelCreateSema args t = (Inl e, t') \<Longrightarrow> ksem_inv t' \<and> ksem_objs t' = ksem_objs t"
  by (auto simp: sceKernelCreateSema_def alloc_ksem_slot_def split: if_splits option.splits prod.splits)

lemma ksem_delete_live:
  assumes "ksem_inv t" and "ksem_objs t h \<noteq> None"
  shows "fst (sceKernelDeleteSema t h) = 0 \<and> ksem_inv (snd (sceKernelDeleteSema t h))
    \<and> ksem_objs (snd (sceKernelDeleteSema t h)) = (ksem_objs t)(h := None)"
proof -
  from assms(2) have g: "get_ksem t h = Some (unat h)" and r: "1 \<le> unat h" "unat h < 1024"
    by (auto simp: ksem_objs_def get_ksem_eq slot_objs_def slot_get_def split: if_splits)
  have d: "sceKernelDeleteSema t h = (0, ksem_put t (unat h) (\<lambda>s. s\<lparr>ks_magic := 0, ks_in_use := False\<rparr>))"
    using g by (simp add: sceKernelDeleteSema_def ksem_put_def)
  have "ksem_inv (ksem_put t (unat h) (\<lambda>s. s\<lparr>ks_magic := 0, ks_in_use := False\<rparr>))"
    using assms(1) by (intro ksem_inv_put) auto
  then show ?thesis unfolding d
    using ksem_objs_put [OF r, of t "\<lambda>s. s\<lparr>ks_magic := 0, ks_in_use := False\<rparr>"]
    by (simp add: ksem_live_def)
qed

lemma ksem_delete_dead:
  "ksem_objs t h = None \<Longrightarrow> fst (sceKernelDeleteSema t h) \<noteq> 0 \<and> snd (sceKernelDeleteSema t h) = t"
  by (auto simp: ksem_objs_def slot_objs_def sceKernelDeleteSema_def get_ksem_eq slot_get_def split: if_splits)

interpretation kst: handle_ops ksem_objs ksem_inv sceKernelCreateSema sceKernelDeleteSema
  ksem_initial ksem_args_ok ksem_op ksem_sop ksem_dead
  by unfold_locales
    (erule (1) ksem_create_new ksem_create_fails ksem_delete_live ksem_op_live
      | erule ksem_delete_dead ksem_op_dead)+

section \<open>Bounds\<close>

definition ksem_bounded :: "ksem \<Rightarrow> bool" where
  "ksem_bounded s \<longleftrightarrow> 0 \<le> sint (ks_count s) \<and> sint (ks_count s) \<le> sint (ks_max s)
     \<and> 0 \<le> sint (ks_init s) \<and> sint (ks_init s) \<le> sint (ks_max s)"

definition ksem_ok :: "ksem_tab \<Rightarrow> bool" where
  "ksem_ok t \<longleftrightarrow> (\<forall>i. ks_magic (t i) = KSEM_MAGIC \<longrightarrow> ksem_bounded (t i))"

lemma sint_add32:
  fixes a b :: i32
  assumes "- (2 ^ 31) \<le> sint a + sint b" and "sint a + sint b < 2 ^ 31"
  shows "sint (a + b) = sint a + sint b"
proof -
  have "sint (a + b) = signed_take_bit 31 (sint a + sint b)" by (simp add: sint_word_ariths)
  also have "\<dots> = sint a + sint b" by (rule signed_take_bit_int_eq_self) (use assms in simp_all)
  finally show ?thesis .
qed

lemma sint_sub32:
  fixes a b :: i32
  assumes "- (2 ^ 31) \<le> sint a - sint b" and "sint a - sint b < 2 ^ 31"
  shows "sint (a - b) = sint a - sint b"
proof -
  have "sint (a - b) = signed_take_bit 31 (sint a - sint b)" by (simp add: sint_word_ariths)
  also have "\<dots> = sint a - sint b" by (rule signed_take_bit_int_eq_self) (use assms in simp_all)
  finally show ?thesis .
qed

lemma sint32_lt: "sint (a :: i32) < 2 ^ 31"
  using sint_lt [of a] by simp

lemma sint_take:
  fixes a n :: i32
  assumes "0 < sint n" and "sint n \<le> sint a"
  shows "sint (a - n) = sint a - sint n"
  by (rule sint_sub32) (use assms sint32_lt [of a] in linarith)+

lemma ksem_ok_put:
  "ksem_ok t \<Longrightarrow> (ks_magic (g (t i)) = KSEM_MAGIC \<Longrightarrow> ksem_bounded (g (t i))) \<Longrightarrow> ksem_ok (ksem_put t i g)"
  by (auto simp: ksem_ok_def ksem_put_def)

lemma ksem_ok_op:
  assumes "ksem_ok t"
    and "\<And>i. get_ksem t h = Some i \<Longrightarrow> ksem_bounded (t i) \<Longrightarrow> ksem_bounded (snd (ksem_sop c (t i)))"
  shows "ksem_ok (snd (ksem_op c t h))"
proof (cases "get_ksem t h")
  case None
  then have "ksem_objs t h = None" by (simp add: ksem_objs_def slot_objs_def get_ksem_eq slot_get_def split: if_splits)
  then show ?thesis using assms(1) by (simp add: ksem_op_dead)
next
  case (Some i)
  then have "ks_magic (t i) = KSEM_MAGIC"
    by (auto simp: get_ksem_eq slot_get_def ksem_live_def split: if_splits)
  then have "ksem_bounded (t i)" using assms(1) by (simp add: ksem_ok_def)
  then show ?thesis
    unfolding ksem_op_eq [OF Some] snd_conv using assms by (intro ksem_ok_put) (auto intro: Some)
qed

lemma ksem_ok_take: "ksem_ok t \<Longrightarrow> 0 < sint n \<Longrightarrow> sint n \<le> sint (ks_count (t i)) \<Longrightarrow> ksem_ok (ksem_take n t i)"
  unfolding ksem_take_def
  by (rule ksem_ok_put) (auto simp: ksem_ok_def ksem_bounded_def sint_take)

lemma ksem_ok_states:
  "ksem_ok t \<Longrightarrow> \<forall>w \<in> set ws. \<forall>u. ksem_ok u \<longrightarrow> ksem_ok (snd w u) \<Longrightarrow> k \<le> length ws
     \<Longrightarrow> ksem_ok (wake_states t ws ! k)"
proof (induction t ws arbitrary: k rule: wake_states.induct)
  case (1 t)
  then show ?case by simp
next
  case (2 t to env ws)
  then show ?case by (cases k) auto
qed

lemma ksem_ok_wait:
  assumes ok: "ksem_ok t" and env: "\<forall>w \<in> set ws. \<forall>u. ksem_ok u \<longrightarrow> ksem_ok (snd w u)"
    and r: "sceKernelWaitSema t h n timeout ws = Some (rc, z, t')"
  shows "ksem_ok t'"
proof (cases "sint n \<le> 0 \<or> get_ksem t h = None")
  case True
  then show ?thesis using r ok by (auto simp: sceKernelWaitSema_def split: if_splits)
next
  case False
  then obtain i where n: "0 < sint n" and g: "get_ksem t h = Some i" by auto
  define t1 where "t1 = ksem_put t i (\<lambda>s. s\<lparr>ks_waiters := ks_waiters s + 1\<rparr>)"
  have w: "ksem_ok (ksem_put u i (\<lambda>s. s\<lparr>ks_waiters := f s\<rparr>))" if "ksem_ok u" for u f
    using that by (intro ksem_ok_put) (auto simp: ksem_ok_def ksem_bounded_def)
  consider "sint n \<le> sint (ks_count (t i))" | "timeout = Some 0" "t' = t"
    | to u where "sleep_loop (ksem_blocked i n) (timeout \<noteq> None) t1 ws = Some (to, u)"
      "\<not> sint n \<le> sint (ks_count (t i))" "timeout \<noteq> Some 0"
    using r n g by (force simp: sceKernelWaitSema_def t1_def split: if_splits option.splits)
  then show ?thesis
  proof cases
    case 1
    then have "t' = ksem_take n t i" using r n g by (simp add: sceKernelWaitSema_def)
    then show ?thesis using ksem_ok_take [OF ok n 1] by simp
  next
    case 2
    then show ?thesis using ok by simp
  next
    case (3 to u)
    from sleep_loop_Some [OF 3(1)] ksem_ok_states [OF w [OF ok] env] have u: "ksem_ok u"
      by (auto simp: t1_def)
    define u1 where "u1 = ksem_put u i (\<lambda>s. s\<lparr>ks_waiters := ks_waiters s - 1\<rparr>)"
    have u1: "ksem_ok u1" "ks_count (u1 i) = ks_count (u i)" "ks_magic (u1 i) = ks_magic (u i)"
      using w [OF u] by (simp_all add: u1_def ksem_put_def)
    have "\<not> to \<longrightarrow> \<not> ksem_blocked i n u" using sleep_loop_Some [OF 3(1)] by blast
    moreover have "t' = (if to \<or> ks_magic (u1 i) \<noteq> KSEM_MAGIC then u1 else ksem_take n u1 i)"
      using r n g 3 by (auto simp: sceKernelWaitSema_def t1_def [symmetric] u1_def [symmetric] Let_def split: if_splits)
    ultimately show ?thesis
      using u1 ksem_ok_take [OF u1(1) n, of i] by (auto simp: ksem_blocked_def not_less)
  qed
qed

text \<open>
  The count of every kernel semaphore stays between zero and its maximum: creation
  establishes it, and deletion, polling and signalling (when the sum fits 32 bits) keep it; a
  wait keeps it whenever the other threads do while it sleeps, and a cancellation does when it
  sets no more than the maximum.
\<close>

theorem ksem_bounds_kept:
  assumes "ksem_ok t"
  shows "ksem_ok (snd (sceKernelCreateSema args t)) \<and> ksem_ok (snd (sceKernelDeleteSema t h))
    \<and> ksem_ok (snd (sceKernelPollSema t h n))
    \<and> ((\<forall>i. get_ksem t h = Some i \<longrightarrow> sint (ks_count (t i)) + sint n < 2 ^ 31) \<longrightarrow>
         ksem_ok (snd (sceKernelSignalSema t h n)))
    \<and> ((\<forall>i. get_ksem t h = Some i \<longrightarrow> sint n \<le> sint (ks_max (t i))) \<longrightarrow>
         ksem_ok (snd (sceKernelCancelSema t h n)))
    \<and> (\<forall>rc z t'. (\<forall>w \<in> set ws. \<forall>u. ksem_ok u \<longrightarrow> ksem_ok (snd w u)) \<longrightarrow>
         sceKernelWaitSema t h n timeout ws = Some (rc, z, t') \<longrightarrow> ksem_ok t')"
proof (intro conjI impI allI)
  show "ksem_ok (snd (sceKernelCreateSema args t))"
    using assms by (auto simp: sceKernelCreateSema_def alloc_ksem_slot_def ksem_ok_def ksem_put_def
        ksem_bounded_def split: option.splits prod.splits)
  show "ksem_ok (snd (sceKernelDeleteSema t h))"
    using assms by (auto simp: sceKernelDeleteSema_def ksem_ok_def ksem_put_def split: option.splits)
  show "ksem_ok (snd (sceKernelPollSema t h n))"
    using ksem_ok_op [OF assms, of h "KPoll n"]
    by (simp add: ksem_op_def ksem_sop_def ksem_spec_def ksem_bounded_def sint_take)
next
  assume fits: "\<forall>i. get_ksem t h = Some i \<longrightarrow> sint (ks_count (t i)) + sint n < 2 ^ 31"
  have "ksem_bounded (snd (ksem_sop (KSignal n) (t i)))" if "get_ksem t h = Some i" "ksem_bounded (t i)" for i
    using that fits sint_add32 [of "ks_count (t i)" n]
    by (auto simp: ksem_sop_def ksem_spec_def ksem_bounded_def)
  then have "ksem_ok (snd (ksem_op (KSignal n) t h))" by (intro ksem_ok_op [OF assms]) blast
  then show "ksem_ok (snd (sceKernelSignalSema t h n))" by (simp add: ksem_op_def)
next
  assume fits: "\<forall>i. get_ksem t h = Some i \<longrightarrow> sint n \<le> sint (ks_max (t i))"
  have "ksem_bounded (snd (ksem_sop (KCancel n) (t i)))" if "get_ksem t h = Some i" "ksem_bounded (t i)" for i
    using that fits by (auto simp: ksem_sop_def ksem_spec_def ksem_bounded_def)
  then have "ksem_ok (snd (ksem_op (KCancel n) t h))" by (intro ksem_ok_op [OF assms]) blast
  then show "ksem_ok (snd (sceKernelCancelSema t h n))" by (simp add: ksem_op_def split: prod.splits)
next
  fix rc z t'
  assume "\<forall>w \<in> set ws. \<forall>u. ksem_ok u \<longrightarrow> ksem_ok (snd w u)"
    and "sceKernelWaitSema t h n timeout ws = Some (rc, z, t')"
  then show "ksem_ok t'" by (rule ksem_ok_wait [OF assms])
qed

definition ex_ksem :: "i32 \<Rightarrow> i32 \<Rightarrow> ksem_tab" where
  "ex_ksem n mx = snd (sceKernelCreateSema (False, Some ''pool'', 1, n, mx) (\<lambda>_. ksem_zero))"

lemma ex_ksem_eq:
  "0 \<le> sint n \<Longrightarrow> 0 < sint mx \<Longrightarrow> sint n \<le> sint mx \<Longrightarrow> ex_ksem n mx = (\<lambda>_. ksem_zero)(1 :=
     \<lparr>ks_magic = KSEM_MAGIC, ks_in_use = True, ks_name = ''pool'', ks_count = n, ks_init = n, ks_max = mx,
      ks_attr = 1, ks_waiters = 0\<rparr>)"
  by (simp add: ex_ksem_def sceKernelCreateSema_def alloc_ksem_slot_def first_free_first ksem_put_def
      ksem_zero_def strncpy_name_def fun_eq_iff)

lemma ex_ksem_get:
  "0 \<le> sint n \<Longrightarrow> 0 < sint mx \<Longrightarrow> sint n \<le> sint mx \<Longrightarrow> get_ksem (ex_ksem n mx) 1 = Some 1"
  by (simp add: ex_ksem_eq get_ksem_eq slot_get_def ksem_live_def)

theorem ksem_bounds_kept_witness:
  "ksem_ok (ex_ksem 2 5) \<and> fst (sceKernelSignalSema (ex_ksem 2 5) 1 3) = 0
   \<and> ksem_ok (snd (sceKernelSignalSema (ex_ksem 2 5) 1 3))
   \<and> fst (sceKernelSignalSema (ex_ksem 2 5) 1 4) = KERR_EINVAL"
proof -
  have g: "get_ksem (ex_ksem 2 5) 1 = Some 1" by (simp add: ex_ksem_get)
  have c: "ks_count (ex_ksem 2 5 1) = 2" "ks_max (ex_ksem 2 5 1) = 5" by (simp_all add: ex_ksem_eq)
  have ok: "ksem_ok (ex_ksem 2 5)"
    by (simp add: ex_ksem_eq ksem_ok_def ksem_bounded_def ksem_zero_def)
  have "ksem_ok (snd (sceKernelSignalSema (ex_ksem 2 5) 1 3))"
    using ksem_bounds_kept [OF ok, of _ 1 3] g c by simp
  then show ?thesis using ok g c by (simp add: sceKernelSignalSema_def)
qed

text \<open>
  Two calls leave the bounds: a cancellation may set any count, also one above the maximum,
  after which every signal is refused although the semaphore counts; and a signal whose sum
  passes \<open>2 ^ 31\<close> wraps to a negative number, passes the test against the maximum and succeeds.
\<close>

theorem ksem_bounds_broken:
  "sint (ks_count (snd (sceKernelCancelSema (ex_ksem 2 5) 1 100) 1)) = 100
   \<and> fst (sceKernelSignalSema (snd (sceKernelCancelSema (ex_ksem 2 5) 1 100)) 1 1) = KERR_EINVAL
   \<and> fst (sceKernelSignalSema (ex_ksem 0x7fffffff 0x7fffffff) 1 1) = 0
   \<and> sint (ks_count (snd (sceKernelSignalSema (ex_ksem 0x7fffffff 0x7fffffff) 1 1) 1)) = - (2 ^ 31)"
proof -
  have g: "get_ksem (ex_ksem 2 5) 1 = Some 1" "get_ksem (ex_ksem 0x7fffffff 0x7fffffff) 1 = Some 1"
    by (simp_all add: ex_ksem_get)
  have c: "snd (sceKernelCancelSema (ex_ksem 2 5) 1 100) = (ex_ksem 2 5)(1 := (ex_ksem 2 5 1)\<lparr>ks_count := 100\<rparr>)"
    using g by (simp add: sceKernelCancelSema_def ksem_put_def)
  have "get_ksem ((ex_ksem 2 5)(1 := (ex_ksem 2 5 1)\<lparr>ks_count := 100\<rparr>)) 1 = Some 1"
    by (simp add: ex_ksem_eq get_ksem_eq slot_get_def ksem_live_def)
  then have "fst (sceKernelSignalSema ((ex_ksem 2 5)(1 := (ex_ksem 2 5 1)\<lparr>ks_count := 100\<rparr>)) 1 1) = KERR_EINVAL"
    by (simp add: sceKernelSignalSema_def ex_ksem_eq)
  moreover have "fst (sceKernelSignalSema (ex_ksem 0x7fffffff 0x7fffffff) 1 1) = 0
      \<and> sint (ks_count (snd (sceKernelSignalSema (ex_ksem 0x7fffffff 0x7fffffff) 1 1) 1)) = - (2 ^ 31)"
    by (simp add: sceKernelSignalSema_def g(2) [simplified] ksem_put_def) (simp add: ex_ksem_eq)
  ultimately show ?thesis unfolding c by simp
qed

text \<open>How a blocked wait ends at the table \<open>u\<close>: the thread is no longer counted as a waiter.\<close>

definition ksem_wait_ends :: "nat \<Rightarrow> i32 \<Rightarrow> bool \<Rightarrow> ksem_tab \<Rightarrow> i32 \<times> bool \<times> ksem_tab \<Rightarrow> bool" where
  "ksem_wait_ends i n timeout u res \<longleftrightarrow>
     (let s = (u i)\<lparr>ks_waiters := ks_waiters (u i) - 1\<rparr> in
      if timeout then res = (KERR_ETIMEDOUT, True, u(i := s))
      else if ks_magic (u i) \<noteq> KSEM_MAGIC then res = (KERR_ESRCH, False, u(i := s))
      else sint n \<le> sint (ks_count (u i))
        \<and> res = (0, False, u(i := s\<lparr>ks_count := ks_count (u i) - n\<rparr>)))"

text \<open>
  C39. A kernel semaphore wait that finds too few units counts itself as a waiter and, under any
  behaviour of the other threads, returns at the first wake-up at which the units are there, the
  semaphore was deleted or a timeout was reported. Only in the first case it succeeds, and then
  it takes exactly the units asked for, all at once; in every case it is no longer a waiter.
\<close>

theorem ksem_wait_exact:
  assumes "get_ksem t h = Some i" and "0 < sint n" and "sint (ks_count (t i)) < sint n" and "timeout \<noteq> Some 0"
  defines "t1 \<equiv> t(i := (t i)\<lparr>ks_waiters := ks_waiters (t i) + 1\<rparr>)"
  shows "(case sceKernelWaitSema t h n timeout ws of
      None \<Rightarrow> asleep (ksem_blocked i n) (timeout \<noteq> None) t1 ws (Suc (length ws))
    | Some res \<Rightarrow> \<exists>k \<le> length ws. asleep (ksem_blocked i n) (timeout \<noteq> None) t1 ws k
        \<and> ksem_wait_ends i n (0 < k \<and> timeout \<noteq> None \<and> fst (ws ! (k - 1))) (wake_states t1 ws ! k) res)"
proof (cases "sleep_loop (ksem_blocked i n) (timeout \<noteq> None) t1 ws")
  case None
  then have "sceKernelWaitSema t h n timeout ws = None"
    using assms(1-4) by (simp add: sceKernelWaitSema_def ksem_put_def t1_def)
  moreover have "asleep (ksem_blocked i n) (timeout \<noteq> None) t1 ws (Suc (length ws))"
    by (rule sleep_loop_None [THEN iffD1, OF None])
  ultimately show ?thesis by (simp only: option.case)
next
  case (Some p)
  obtain to u where p: "p = (to, u)" by (rule prod.exhaust)
  from sleep_loop_Some [OF Some [unfolded p]] obtain k where k: "k \<le> length ws"
    "asleep (ksem_blocked i n) (timeout \<noteq> None) t1 ws k" "u = wake_states t1 ws ! k"
    "to = (0 < k \<and> timeout \<noteq> None \<and> fst (ws ! (k - 1)))" "\<not> to \<longrightarrow> \<not> ksem_blocked i n u" by blast
  obtain res where r: "sceKernelWaitSema t h n timeout ws = Some res"
    "res = (let u1 = u(i := (u i)\<lparr>ks_waiters := ks_waiters (u i) - 1\<rparr>) in
            if to then (KERR_ETIMEDOUT, True, u1)
            else if ks_magic (u1 i) \<noteq> KSEM_MAGIC then (KERR_ESRCH, False, u1)
            else (0, False, ksem_take n u1 i))"
    using assms(1-4) Some p by (simp add: sceKernelWaitSema_def ksem_put_def t1_def Let_def)
  have "ksem_wait_ends i n to u res"
    using k(5) unfolding r(2)
    by (auto simp: ksem_wait_ends_def ksem_blocked_def ksem_take_def ksem_put_def Let_def)
  then show ?thesis unfolding r(1) option.case using k(1,2) unfolding k(3,4) by blast
qed

theorem ksem_wait_exact_witness:
  "get_ksem (ex_ksem 2 5) 1 = Some 1 \<and> sceKernelWaitSema (ex_ksem 2 5) 1 3 None [] = None
   \<and> (\<exists>k \<le> 1. asleep (ksem_blocked 1 3) True ((ex_ksem 2 5)(1 := (ex_ksem 2 5 1)\<lparr>ks_waiters := 1\<rparr>))
        [(True, \<lambda>t. t)] k)"
proof -
  have g: "get_ksem (ex_ksem 2 5) 1 = Some 1" by (simp add: ex_ksem_get)
  have c: "ks_count (ex_ksem 2 5 1) = 2" "ks_waiters (ex_ksem 2 5 1) = 0" "ks_magic (ex_ksem 2 5 1) = KSEM_MAGIC"
    by (simp_all add: ex_ksem_eq)
  have n: "sceKernelWaitSema (ex_ksem 2 5) 1 3 None [] = None"
    using g c by (simp add: sceKernelWaitSema_def ksem_blocked_def ksem_put_def)
  have "0 < sint (3 :: i32)" "sint (ks_count (ex_ksem 2 5 1)) < sint (3 :: i32)" "Some 10 \<noteq> Some (0 :: u32)"
    using c by simp_all
  from ksem_wait_exact [OF g this, of "[(True, \<lambda>t. t)]"] g n c show ?thesis
    by (auto split: option.splits intro: exI [of _ 0])
qed

end
