(* ===== verification/Equeue.thy ===== *)
theory Equeue
  imports EventFlag
begin

unbundle bit_operations_syntax

text \<open>
  Event queues of \<open>kernel/equeue/ps4_equeue.c\<close>: 128 queues found by an id that only grows, each a
  ring buffer of 64 events under its own mutex. A call locks the table, finds the queue, locks
  it and releases the table, so its effect on the queue is atomic. A wait that blocks works on
  the pair of guest memory and table, which other threads change while it sleeps.
\<close>

section \<open>State\<close>

record kevent =
  ke_ident :: u64
  ke_filter :: u16
  ke_flags :: u16
  ke_fflags :: u32
  ke_data :: i64
  ke_udata :: u64

record equeue =
  eq_id :: i32
  eq_in_use :: bool
  eq_deleted :: bool
  eq_name :: string
  eq_events :: "kevent list"
  eq_head :: nat
  eq_tail :: nat
  eq_count :: nat

record eq_tab =
  eqs :: "nat \<Rightarrow> equeue"
  g_next_eq_id :: i32

type_synonym eq_state = "guest_mem \<times> eq_tab"
type_synonym eq_wake = "bool \<times> (eq_state \<Rightarrow> eq_state)"

abbreviation (input) MAX_EQUEUES :: nat where "MAX_EQUEUES \<equiv> 128"
abbreviation (input) EQUEUE_CAPACITY :: nat where "EQUEUE_CAPACITY \<equiv> 64"
abbreviation (input) EVFILT_USER :: u16 where "EVFILT_USER \<equiv> - 11"

definition kevent0 :: kevent where
  "kevent0 = \<lparr>ke_ident = 0, ke_filter = 0, ke_flags = 0, ke_fflags = 0, ke_data = 0, ke_udata = 0\<rparr>"

definition equeue0 :: equeue where
  "equeue0 = \<lparr>eq_id = 0, eq_in_use = False, eq_deleted = False, eq_name = [],
     eq_events = replicate EQUEUE_CAPACITY kevent0, eq_head = 0, eq_tail = 0, eq_count = 0\<rparr>"

definition eq_tab0 :: eq_tab where
  "eq_tab0 = \<lparr>eqs = (\<lambda>_. equeue0), g_next_eq_id = 1\<rparr>"

definition eq_put :: "eq_tab \<Rightarrow> nat \<Rightarrow> (equeue \<Rightarrow> equeue) \<Rightarrow> eq_tab" where
  "eq_put t i f = t\<lparr>eqs := (eqs t)(i := f (eqs t i))\<rparr>"

section \<open>The ring\<close>

text \<open>Appending an event; a full queue is left as it is.\<close>

definition eq_push :: "equeue \<Rightarrow> kevent \<Rightarrow> equeue" where
  "eq_push q ev =
     (if eq_count q < EQUEUE_CAPACITY then
        q\<lparr>eq_events := (eq_events q)[eq_tail q := ev],
          eq_tail := (eq_tail q + 1) mod EQUEUE_CAPACITY, eq_count := eq_count q + 1\<rparr>
      else q)"

text \<open>The loop that takes up to \<open>n\<close> events from the head.\<close>

fun eq_drain :: "equeue \<Rightarrow> nat \<Rightarrow> kevent list \<times> equeue" where
  "eq_drain q 0 = ([], q)"
| "eq_drain q (Suc n) =
     (if eq_count q = 0 then ([], q) else
      let ev = eq_events q ! eq_head q;
          (evs, q') = eq_drain (q\<lparr>eq_head := (eq_head q + 1) mod EQUEUE_CAPACITY,
                                   eq_count := eq_count q - 1\<rparr>) n
      in (ev # evs, q'))"

text \<open>
  The loop that drops events in place: \<open>i\<close> reads, \<open>w\<close> writes, \<open>n\<close> events are left to look at.
\<close>

fun eq_compact :: "(kevent \<Rightarrow> bool) \<Rightarrow> nat \<Rightarrow> nat \<Rightarrow> nat \<Rightarrow> nat \<Rightarrow> kevent list \<Rightarrow> nat \<times> kevent list" where
  "eq_compact drop_ev base i w 0 evs = (w, evs)"
| "eq_compact drop_ev base i w (Suc n) evs =
     (let ev = evs ! ((base + i) mod EQUEUE_CAPACITY) in
      if drop_ev ev then eq_compact drop_ev base (Suc i) w n evs
      else eq_compact drop_ev base (Suc i) (Suc w) n
             (if w \<noteq> i then evs[(base + w) mod EQUEUE_CAPACITY := ev] else evs))"

definition remove_events_locked :: "(kevent \<Rightarrow> bool) \<Rightarrow> equeue \<Rightarrow> equeue" where
  "remove_events_locked drop_ev q =
     (let (w, evs) = eq_compact drop_ev (eq_head q) 0 0 (eq_count q) (eq_events q)
      in q\<lparr>eq_events := evs, eq_count := w, eq_tail := (eq_head q + w) mod EQUEUE_CAPACITY\<rparr>)"

text \<open>The index of the first pending event with the given identity, and the trigger on one queue.\<close>

definition eq_same :: "u64 \<Rightarrow> u16 \<Rightarrow> kevent \<Rightarrow> bool" where
  "eq_same ident filt ev \<longleftrightarrow> ke_ident ev = ident \<and> ke_filter ev = filt"

definition eq_find_pending :: "equeue \<Rightarrow> u64 \<Rightarrow> u16 \<Rightarrow> nat option" where
  "eq_find_pending q ident filt =
     first_free (\<lambda>i. \<not> eq_same ident filt (eq_events q ! ((eq_head q + i) mod EQUEUE_CAPACITY)))
       0 (eq_count q)"

definition eq_trigger :: "equeue \<Rightarrow> u64 \<Rightarrow> u16 \<Rightarrow> i64 \<Rightarrow> u64 \<Rightarrow> equeue" where
  "eq_trigger q ident filt data udata =
     (case eq_find_pending q ident filt of
        Some i \<Rightarrow>
          (let idx = (eq_head q + i) mod EQUEUE_CAPACITY; ev = eq_events q ! idx
           in q\<lparr>eq_events := (eq_events q)[idx := ev\<lparr>ke_data := data, ke_udata := udata,
                                                    ke_fflags := ke_fflags ev + 1\<rparr>]\<rparr>)
      | None \<Rightarrow> eq_push q \<lparr>ke_ident = ident, ke_filter = filt, ke_flags = 0, ke_fflags = 1,
                            ke_data = data, ke_udata = udata\<rparr>)"

section \<open>Calls\<close>

definition find_equeue_locked :: "eq_tab \<Rightarrow> i32 \<Rightarrow> nat option" where
  "find_equeue_locked t h =
     (if sint h \<le> 0 then None
      else first_free (\<lambda>i. \<not> (eq_in_use (eqs t i) \<and> eq_id (eqs t i) = h)) 0 MAX_EQUEUES)"

text \<open>The slot keeps the events array of its previous queue; head, tail and count are reset.\<close>

definition sceKernelCreateEqueue :: "bool \<Rightarrow> string option \<Rightarrow> eq_tab \<Rightarrow> (i32 + i32) \<times> eq_tab" where
  "sceKernelCreateEqueue out_null name t =
     (if out_null then (Inl (- EINVAL), t) else
      case first_free (\<lambda>i. eq_in_use (eqs t i)) 0 MAX_EQUEUES of
        None \<Rightarrow> (Inl (- ENOMEM), t)
      | Some i \<Rightarrow>
          (Inr (g_next_eq_id t),
           eq_put (t\<lparr>g_next_eq_id := g_next_eq_id t + 1\<rparr>) i
             (\<lambda>q. q\<lparr>eq_id := g_next_eq_id t, eq_in_use := True, eq_deleted := False, eq_head := 0,
                    eq_tail := 0, eq_count := 0,
                    eq_name := (case name of None \<Rightarrow> [] | Some s \<Rightarrow> strncpy_name 64 s)\<rparr>)))"

definition sceKernelDeleteEqueue :: "eq_tab \<Rightarrow> i32 \<Rightarrow> i32 \<times> eq_tab" where
  "sceKernelDeleteEqueue t h =
     (case find_equeue_locked t h of None \<Rightarrow> (- EINVAL, t)
      | Some i \<Rightarrow> (0, eq_put t i (\<lambda>q. q\<lparr>eq_deleted := True, eq_in_use := False\<rparr>)))"

definition ps4_equeue_destroy :: "eq_tab \<Rightarrow> eq_tab" where
  "ps4_equeue_destroy t = t\<lparr>eqs := (\<lambda>i. if i < MAX_EQUEUES \<and> eq_in_use (eqs t i)
     then (eqs t i)\<lparr>eq_deleted := True, eq_in_use := False\<rparr> else eqs t i)\<rparr>"

definition ps4_equeue_post_event :: "eq_tab \<Rightarrow> i32 \<Rightarrow> u64 \<Rightarrow> u16 \<Rightarrow> i64 \<Rightarrow> u64 \<Rightarrow> i32 \<times> eq_tab" where
  "ps4_equeue_post_event t h ident filt data udata =
     (case find_equeue_locked t h of None \<Rightarrow> (- EINVAL, t)
      | Some i \<Rightarrow>
          if eq_deleted (eqs t i) then (- EINVAL, t)
          else (0, eq_put t i (\<lambda>q. eq_push q \<lparr>ke_ident = ident, ke_filter = filt, ke_flags = 0,
                                   ke_fflags = 0, ke_data = data, ke_udata = udata\<rparr>)))"

definition ps4_equeue_exists :: "eq_tab \<Rightarrow> i32 \<Rightarrow> bool" where
  "ps4_equeue_exists t h =
     (case find_equeue_locked t h of None \<Rightarrow> False | Some i \<Rightarrow> \<not> eq_deleted (eqs t i))"

definition ps4_equeue_trigger_event :: "eq_tab \<Rightarrow> i32 \<Rightarrow> u64 \<Rightarrow> u16 \<Rightarrow> i64 \<Rightarrow> u64 \<Rightarrow> i32 \<times> eq_tab" where
  "ps4_equeue_trigger_event t h ident filt data udata =
     (case find_equeue_locked t h of None \<Rightarrow> (- EINVAL, t)
      | Some i \<Rightarrow>
          if eq_deleted (eqs t i) then (- EINVAL, t)
          else (0, eq_put t i (\<lambda>q. eq_trigger q ident filt data udata)))"

definition ps4_equeue_remove_events :: "eq_tab \<Rightarrow> i32 \<Rightarrow> u64 \<Rightarrow> u16 \<Rightarrow> i32 \<times> eq_tab" where
  "ps4_equeue_remove_events t h ident filt =
     (case find_equeue_locked t h of None \<Rightarrow> (- EINVAL, t)
      | Some i \<Rightarrow> (0, eq_put t i (remove_events_locked (eq_same ident filt))))"

text \<open>The user event is compared by the low 32 bits of its identifier.\<close>

definition sceKernelDeleteUserEvent :: "eq_tab \<Rightarrow> i32 \<Rightarrow> i32 \<Rightarrow> i32 \<times> eq_tab" where
  "sceKernelDeleteUserEvent t h ident =
     (case find_equeue_locked t h of None \<Rightarrow> (KERR_EBADF, t)
      | Some i \<Rightarrow> (0, eq_put t i (remove_events_locked
                   (\<lambda>ev. ke_filter ev = EVFILT_USER \<and> ucast (ke_ident ev) = ident))))"

definition sceKernelAddUserEvent :: "eq_tab \<Rightarrow> i32 \<Rightarrow> i32 \<Rightarrow> i32" where
  "sceKernelAddUserEvent t h ident = (case find_equeue_locked t h of None \<Rightarrow> KERR_EBADF | Some i \<Rightarrow> 0)"

definition sceKernelAddUserEventEdge :: "eq_tab \<Rightarrow> i32 \<Rightarrow> i32 \<Rightarrow> i32" where
  "sceKernelAddUserEventEdge t h ident = sceKernelAddUserEvent t h ident"

definition sceKernelTriggerUserEvent :: "eq_tab \<Rightarrow> i32 \<Rightarrow> i32 \<Rightarrow> u64 \<Rightarrow> i32 \<times> eq_tab" where
  "sceKernelTriggerUserEvent t h ident udata = ps4_equeue_post_event t h (scast ident) EVFILT_USER 0 udata"

section \<open>Waiting\<close>

text \<open>An \<open>OrbisKernelEvent\<close> as 32 bytes of guest memory.\<close>

definition kevent_bytes :: "kevent \<Rightarrow> u8 list" where
  "kevent_bytes ev = le_bytes 8 (ke_ident ev) @ le_bytes 2 (ke_filter ev) @ le_bytes 2 (ke_flags ev)
     @ le_bytes 4 (ke_fflags ev) @ le_bytes 8 (ke_data ev) @ le_bytes 8 (ke_udata ev)"

fun wr_events :: "guest_mem \<Rightarrow> u64 \<Rightarrow> kevent list \<Rightarrow> guest_mem" where
  "wr_events m a [] = m"
| "wr_events m a (ev # evs) = wr_events (wr_bytes m a (kevent_bytes ev)) (a + 32) evs"

definition eq_blocked :: "nat \<Rightarrow> eq_state \<Rightarrow> bool" where
  "eq_blocked i st \<longleftrightarrow> eq_count (eqs (snd st) i) = 0 \<and> \<not> eq_deleted (eqs (snd st) i)"

text \<open>Taking the events: they and their number are written out; none at all is a timeout.\<close>

definition eq_deliver :: "nat \<Rightarrow> u64 \<Rightarrow> i32 \<Rightarrow> u64 \<Rightarrow> eq_state \<Rightarrow> i32 \<times> eq_state" where
  "eq_deliver i eventsOut numEvents outCount st =
     (case st of (m, t) \<Rightarrow>
      let (evs, q) = eq_drain (eqs t i) (unat numEvents)
      in (if evs = [] then KERR_ETIMEDOUT else 0,
          opt_wr_u32 (wr_events m eventsOut evs) outCount (of_nat (length evs)),
          eq_put t i (\<lambda>_. q)))"

definition sceKernelWaitEqueue ::
    "eq_state \<Rightarrow> i32 \<Rightarrow> u64 \<Rightarrow> i32 \<Rightarrow> u64 \<Rightarrow> u32 option \<Rightarrow> eq_wake list \<Rightarrow> (i32 \<times> eq_state) option" where
  "sceKernelWaitEqueue st0 h eventsOut numEvents outCount timeout ws =
     (let st = (opt_wr_u32 (fst st0) outCount 0, snd st0) in
      if sint numEvents \<le> 0 then Some (KERR_EINVAL, st)
      else if eventsOut = 0 then Some (KERR_EFAULT, st)
      else case find_equeue_locked (snd st) h of
        None \<Rightarrow> Some (KERR_EBADF, st)
      | Some i \<Rightarrow>
          if eq_deleted (eqs (snd st) i) then Some (KERR_EBADF, st)
          else if timeout = Some 0 then Some (eq_deliver i eventsOut numEvents outCount st)
          else (case sleep_loop (eq_blocked i) (timeout \<noteq> None) st ws of
                  None \<Rightarrow> None
                | Some (_, u) \<Rightarrow>
                    if eq_deleted (eqs (snd u) i) then Some (KERR_EBADF, u)
                    else Some (eq_deliver i eventsOut numEvents outCount u)))"

section \<open>Guest shims\<close>

text \<open>The wait clears \<open>*outCount\<close> before it reads \<open>*timeout\<close>, which matters when they are the same word.\<close>

definition shim_sceKernelCreateEqueue ::
    "guest_ctx \<Rightarrow> guest_mem \<Rightarrow> eq_tab \<Rightarrow> guest_ctx \<times> guest_mem \<times> eq_tab" where
  "shim_sceKernelCreateEqueue c m t =
     (case sceKernelCreateEqueue False (if rsi c \<noteq> 0 then Some (rd_str m (rsi c) 63) else None) t of
        (Inl rc, t') \<Rightarrow> (ret_rc c rc, m, t')
      | (Inr h, t') \<Rightarrow> (ret_rc c 0, opt_wr_u32 m (rdi c) h, t'))"

definition shim_sceKernelDeleteEqueue :: "guest_ctx \<Rightarrow> eq_tab \<Rightarrow> guest_ctx \<times> eq_tab" where
  "shim_sceKernelDeleteEqueue c t = (let (rc, t') = sceKernelDeleteEqueue t (ucast (rdi c)) in (ret_rc c rc, t'))"

definition shim_sceKernelWaitEqueue ::
    "guest_ctx \<Rightarrow> eq_state \<Rightarrow> eq_wake list \<Rightarrow> (guest_ctx \<times> eq_state) option" where
  "shim_sceKernelWaitEqueue c st ws =
     (case sceKernelWaitEqueue st (ucast (rdi c)) (rsi c) (ucast (rdx c)) (rcx c)
             (if r8 c \<noteq> 0 then Some (rd_u32 (opt_wr_u32 (fst st) (rcx c) 0) (r8 c)) else None) ws of
        None \<Rightarrow> None | Some (rc, st') \<Rightarrow> Some (ret_rc c rc, st'))"

definition shim_sceKernelDeleteUserEvent :: "guest_ctx \<Rightarrow> eq_tab \<Rightarrow> guest_ctx \<times> eq_tab" where
  "shim_sceKernelDeleteUserEvent c t =
     (let (rc, t') = sceKernelDeleteUserEvent t (ucast (rdi c)) (ucast (rsi c)) in (ret_rc c rc, t'))"

definition shim_sceKernelAddUserEvent :: "guest_ctx \<Rightarrow> eq_tab \<Rightarrow> guest_ctx" where
  "shim_sceKernelAddUserEvent c t = ret_rc c (sceKernelAddUserEvent t (ucast (rdi c)) (ucast (rsi c)))"

definition shim_sceKernelAddUserEventEdge :: "guest_ctx \<Rightarrow> eq_tab \<Rightarrow> guest_ctx" where
  "shim_sceKernelAddUserEventEdge c t = ret_rc c (sceKernelAddUserEventEdge t (ucast (rdi c)) (ucast (rsi c)))"

definition shim_sceKernelTriggerUserEvent :: "guest_ctx \<Rightarrow> eq_tab \<Rightarrow> guest_ctx \<times> eq_tab" where
  "shim_sceKernelTriggerUserEvent c t =
     (let (rc, t') = sceKernelTriggerUserEvent t (ucast (rdi c)) (ucast (rsi c)) (rdx c) in (ret_rc c rc, t'))"

text \<open>The accessors read the event at the guest address, or return 0 without one.\<close>

definition shim_sceKernelGetEventId :: "guest_ctx \<Rightarrow> guest_mem \<Rightarrow> guest_ctx" where
  "shim_sceKernelGetEventId c m =
     (if rdi c = 0 \<or> \<not> mem_mapped m then ret_rax c 0 else ret_rax c (rd_u64 m (rdi c)))"

definition shim_sceKernelGetEventFilter :: "guest_ctx \<Rightarrow> guest_mem \<Rightarrow> guest_ctx" where
  "shim_sceKernelGetEventFilter c m =
     (if rdi c = 0 \<or> \<not> mem_mapped m then ret_rax c 0
      else ret_rax c (scast (of_le (rd_bytes m (rdi c + 8) 2) :: u16)))"

definition shim_sceKernelGetEventData :: "guest_ctx \<Rightarrow> guest_mem \<Rightarrow> guest_ctx" where
  "shim_sceKernelGetEventData c m =
     (if rdi c = 0 \<or> \<not> mem_mapped m then ret_rax c 0 else ret_rax c (rd_u64 m (rdi c + 16)))"

definition shim_sceKernelGetEventUserData :: "guest_ctx \<Rightarrow> guest_mem \<Rightarrow> guest_ctx" where
  "shim_sceKernelGetEventUserData c m =
     (if rdi c = 0 \<or> \<not> mem_mapped m then ret_rax c 0 else ret_rax c (rd_u64 m (rdi c + 24)))"

end
