(* ===== verification/EqueueProps.thy ===== *)
theory EqueueProps
  imports Equeue
begin

unbundle bit_operations_syntax

text \<open>
  The ring buffer refines a list of pending events with at most 64 entries; the queue contract
  as a locale and its interpretation on the ring; the effect of every call on the queue behind
  an id; what a wait delivers.
\<close>

section \<open>The contract of a bounded queue\<close>

datatype 'e qcmd = QPush 'e | QDrain nat

text \<open>A sequence of appends and drains: the events taken out, in order, and the queue.\<close>

fun q_run :: "('q \<Rightarrow> 'e \<Rightarrow> 'q) \<Rightarrow> ('q \<Rightarrow> nat \<Rightarrow> 'e list \<times> 'q) \<Rightarrow> 'q \<Rightarrow> 'e qcmd list \<Rightarrow> 'e list \<times> 'q" where
  "q_run push drain q [] = ([], q)"
| "q_run push drain q (QPush e # cs) = q_run push drain (push q e) cs"
| "q_run push drain q (QDrain n # cs) =
     (let (out, q1) = drain q n; (outs, q2) = q_run push drain q1 cs in (out @ outs, q2))"

text \<open>The events accepted by a queue of capacity \<open>cap\<close> that holds \<open>len\<close> events.\<close>

fun q_accepted :: "nat \<Rightarrow> nat \<Rightarrow> 'e qcmd list \<Rightarrow> 'e list" where
  "q_accepted cap len [] = []"
| "q_accepted cap len (QPush e # cs) =
     (if len < cap then e # q_accepted cap (Suc len) cs else q_accepted cap len cs)"
| "q_accepted cap len (QDrain n # cs) = q_accepted cap (len - n) cs"

locale fifo =
  fixes items :: "'q \<Rightarrow> 'e list" and ok :: "'q \<Rightarrow> bool"
    and push :: "'q \<Rightarrow> 'e \<Rightarrow> 'q" and drain :: "'q \<Rightarrow> nat \<Rightarrow> 'e list \<times> 'q" and cap :: nat
  assumes push_items: "ok q \<Longrightarrow> ok (push q e)
      \<and> items (push q e) = (if length (items q) < cap then items q @ [e] else items q)"
    and drain_items: "ok q \<Longrightarrow> fst (drain q n) = take n (items q) \<and> ok (snd (drain q n))
      \<and> items (snd (drain q n)) = drop n (items q)"
begin

lemma run_delivers:
  "ok q \<Longrightarrow> q_run push drain q cs = (out, q') \<Longrightarrow>
     ok q' \<and> out @ items q' = items q @ q_accepted cap (length (items q)) cs"
proof (induction cs arbitrary: q out q')
  case Nil
  then show ?case by simp
next
  case (Cons c cs)
  show ?case
  proof (cases c)
    case (QPush e)
    with Cons.prems have "ok (push q e)" "q_run push drain (push q e) cs = (out, q')"
      using push_items by simp_all
    from Cons.IH [OF this] show ?thesis using push_items [OF Cons.prems(1), of e] QPush by auto
  next
    case (QDrain n)
    obtain o1 q1 where d: "drain q n = (o1, q1)" by (cases "drain q n")
    obtain o2 q2 where r: "q_run push drain q1 cs = (o2, q2)" by (cases "q_run push drain q1 cs")
    have eq: "out = o1 @ o2" "q' = q2" using Cons.prems(2) d r QDrain by simp_all
    from drain_items [OF Cons.prems(1), of n] d
    have i: "ok q1" "o1 = take n (items q)" "items q1 = drop n (items q)" by simp_all
    from Cons.IH [OF i(1) r] i show ?thesis using eq QDrain
      by (metis append_assoc append_take_drop_id length_drop q_accepted.simps(3))
  qed
qed

end

section \<open>The ring is such a queue\<close>

definition eq_list :: "equeue \<Rightarrow> kevent list" where
  "eq_list q = map (\<lambda>i. eq_events q ! ((eq_head q + i) mod 64)) [0..<eq_count q]"

definition ring_ok :: "equeue \<Rightarrow> bool" where
  "ring_ok q \<longleftrightarrow> length (eq_events q) = 64 \<and> eq_head q < 64 \<and> eq_count q \<le> 64
     \<and> eq_tail q = (eq_head q + eq_count q) mod 64"

lemma length_eq_list [simp]: "length (eq_list q) = eq_count q"
  by (simp add: eq_list_def)

lemma ring_index: "i < 64 \<Longrightarrow> j < 64 \<Longrightarrow> (h + i) mod 64 = (h + j) mod 64 \<longleftrightarrow> i = j" for h i j :: nat
proof -
  assume ij: "i < 64" "j < 64"
  have r: "(h + k) mod 64 = (if h mod 64 + k < 64 then h mod 64 + k else h mod 64 + k - 64)" if "k < 64" for k
  proof -
    have "(h + k) mod 64 = (h mod 64 + k) mod 64" by (simp add: mod_simps)
    also have "h mod 64 < 64" by simp
    then have "(h mod 64 + k) mod 64 = (if h mod 64 + k < 64 then h mod 64 + k else h mod 64 + k - 64)"
      using that by (simp add: le_mod_geq)
    finally show ?thesis .
  qed
  have "h mod 64 < 64" by simp
  then show ?thesis unfolding r [OF ij(1)] r [OF ij(2)] using ij by (auto split: if_splits)
qed

lemma push_ring:
  assumes "ring_ok q"
  shows "ring_ok (eq_push q ev)
    \<and> eq_list (eq_push q ev) = (if length (eq_list q) < 64 then eq_list q @ [ev] else eq_list q)"
proof (cases "eq_count q < 64")
  case False
  then show ?thesis using assms by (simp add: eq_push_def)
next
  case True
  have e: "eq_events (eq_push q ev) = (eq_events q)[(eq_head q + eq_count q) mod 64 := ev]"
    "eq_head (eq_push q ev) = eq_head q" "eq_count (eq_push q ev) = Suc (eq_count q)"
    "eq_tail (eq_push q ev) = ((eq_head q + eq_count q) mod 64 + 1) mod 64"
    using assms True by (simp_all add: eq_push_def ring_ok_def)
  have "eq_list (eq_push q ev) = eq_list q @ [ev]"
    using True assms unfolding eq_list_def e ring_ok_def
    by (auto simp: ring_index)
  moreover have "ring_ok (eq_push q ev)"
    using True assms unfolding ring_ok_def e by (simp add: mod_simps)
  ultimately show ?thesis using True by simp
qed

lemma eq_list_step:
  assumes "0 < eq_count q"
  shows "eq_list q = eq_events q ! (eq_head q mod 64)
    # eq_list (q\<lparr>eq_head := (eq_head q + 1) mod 64, eq_count := eq_count q - 1\<rparr>)"
proof -
  obtain n where n: "eq_count q = Suc n" using assms by (cases "eq_count q") auto
  have "[0..<Suc n] = 0 # map Suc [0..<n]" by (simp add: map_Suc_upt upt_conv_Cons)
  then show ?thesis by (simp add: eq_list_def n comp_def mod_simps)
qed

lemma drain_ring:
  "ring_ok q \<Longrightarrow> fst (eq_drain q n) = take n (eq_list q) \<and> ring_ok (snd (eq_drain q n))
     \<and> eq_list (snd (eq_drain q n)) = drop n (eq_list q)"
proof (induction n arbitrary: q)
  case 0
  then show ?case by simp
next
  case (Suc n)
  show ?case
  proof (cases "eq_count q = 0")
    case True
    then show ?thesis using Suc.prems by (simp add: eq_list_def)
  next
    case False
    define q1 where "q1 = q\<lparr>eq_head := (eq_head q + 1) mod 64, eq_count := eq_count q - 1\<rparr>"
    have s: "eq_list q = eq_events q ! eq_head q # eq_list q1"
      using eq_list_step [of q] False Suc.prems by (simp add: q1_def ring_ok_def)
    have "ring_ok q1"
    proof -
      obtain n where n: "eq_count q = Suc n" using False by (cases "eq_count q") auto
      have "(eq_head q + Suc n) mod 64 = (Suc (eq_head q) mod 64 + n) mod 64" by (simp add: mod_simps)
      then show ?thesis using Suc.prems by (simp add: ring_ok_def q1_def n)
    qed
    note IH = Suc.IH [OF this]
    have "eq_drain q (Suc n) = (eq_events q ! eq_head q # fst (eq_drain q1 n), snd (eq_drain q1 n))"
      using False by (simp add: q1_def Let_def split: prod.splits)
    then show ?thesis using IH s by simp
  qed
qed

interpretation ring: fifo eq_list ring_ok eq_push eq_drain 64
  by unfold_locales (fact push_ring drain_ring)+

section \<open>Removing and triggering on the ring\<close>

definition ring_part :: "nat \<Rightarrow> kevent list \<Rightarrow> nat \<Rightarrow> nat \<Rightarrow> kevent list" where
  "ring_part base evs a b = map (\<lambda>j. evs ! ((base + j) mod 64)) [a..<b]"

lemma ring_part_upd:
  "length evs = 64 \<Longrightarrow> w < a \<or> b \<le> w \<Longrightarrow> w < 64 \<Longrightarrow> b \<le> 64 \<Longrightarrow>
     ring_part base (evs[(base + w) mod 64 := ev]) a b = ring_part base evs a b"
  by (auto simp: ring_part_def nth_list_update ring_index)

lemma ring_part_Suc: "a \<le> b \<Longrightarrow> ring_part base evs a (Suc b) = ring_part base evs a b @ [evs ! ((base + b) mod 64)]"
  by (simp add: ring_part_def)

lemma ring_part_Cons: "a < b \<Longrightarrow> ring_part base evs a b = evs ! ((base + a) mod 64) # ring_part base evs (Suc a) b"
  by (simp add: ring_part_def upt_conv_Cons)

lemma compact_ring:
  "length evs = 64 \<Longrightarrow> w \<le> i \<Longrightarrow> i + n \<le> 64 \<Longrightarrow> eq_compact p base i w n evs = (w', evs') \<Longrightarrow>
     length evs' = 64 \<and> w' \<le> i + n
     \<and> ring_part base evs' 0 w' = ring_part base evs 0 w @ filter (\<lambda>e. \<not> p e) (ring_part base evs i (i + n))"
proof (induction n arbitrary: i w evs)
  case 0
  then show ?case by (simp add: ring_part_def)
next
  case (Suc n)
  let ?ev = "evs ! ((base + i) mod 64)"
  have c: "ring_part base evs i (i + Suc n) = ?ev # ring_part base evs (Suc i) (Suc i + n)"
    using ring_part_Cons [of i "i + Suc n" base evs] by simp
  show ?case
  proof (cases "p ?ev")
    case True
    then have "eq_compact p base (Suc i) w n evs = (w', evs')" using Suc.prems(4) by (simp add: Let_def)
    from Suc.IH [OF Suc.prems(1) _ _ this] Suc.prems(2,3) c True show ?thesis by simp
  next
    case False
    define evs2 where "evs2 = evs[(base + w) mod 64 := ?ev]"
    have e2: "(if w \<noteq> i then evs[(base + w) mod 64 := ?ev] else evs) = evs2"
      by (simp add: evs2_def)
    then have r: "eq_compact p base (Suc i) (Suc w) n evs2 = (w', evs')"
      using Suc.prems(4) False by (simp add: Let_def)
    have l2: "length evs2 = 64" using Suc.prems(1) by (simp add: evs2_def)
    have "ring_part base evs2 0 (Suc w) = ring_part base evs 0 w @ [?ev]"
      using ring_part_upd [of evs w 0 w base ?ev] Suc.prems by (simp add: ring_part_Suc evs2_def)
    moreover have "ring_part base evs2 (Suc i) (Suc i + n) = ring_part base evs (Suc i) (Suc i + n)"
      using ring_part_upd [of evs w "Suc i" "Suc i + n" base ?ev] Suc.prems by (simp add: evs2_def)
    ultimately show ?thesis
      using Suc.IH [OF l2 _ _ r] Suc.prems(2,3) c False by simp
  qed
qed

lemma remove_ring:
  assumes "ring_ok q"
  shows "ring_ok (remove_events_locked p q)"
    and "eq_list (remove_events_locked p q) = filter (\<lambda>e. \<not> p e) (eq_list q)"
proof -
  obtain w evs where c: "eq_compact p (eq_head q) 0 0 (eq_count q) (eq_events q) = (w, evs)"
    by (cases "eq_compact p (eq_head q) 0 0 (eq_count q) (eq_events q)")
  from compact_ring [OF _ _ _ c] assms
  have r: "length evs = 64" "w \<le> eq_count q"
    "ring_part (eq_head q) evs 0 w = filter (\<lambda>e. \<not> p e) (ring_part (eq_head q) (eq_events q) 0 (eq_count q))"
    by (auto simp: ring_ok_def ring_part_def)
  show "ring_ok (remove_events_locked p q)"
    using assms r by (simp add: remove_events_locked_def c ring_ok_def)
  show "eq_list (remove_events_locked p q) = filter (\<lambda>e. \<not> p e) (eq_list q)"
    using r(3) by (simp add: remove_events_locked_def c eq_list_def ring_part_def)
qed

text \<open>What triggering does to the list of pending events.\<close>

definition trigger_list :: "u64 \<Rightarrow> u16 \<Rightarrow> i64 \<Rightarrow> u64 \<Rightarrow> kevent list \<Rightarrow> kevent list \<Rightarrow> bool" where
  "trigger_list ident filt data udata xs ys \<longleftrightarrow>
     (if \<exists>ev \<in> set xs. eq_same ident filt ev then
        \<exists>i < length xs. eq_same ident filt (xs ! i) \<and> (\<forall>j<i. \<not> eq_same ident filt (xs ! j))
          \<and> ys = xs[i := (xs ! i)\<lparr>ke_data := data, ke_udata := udata, ke_fflags := ke_fflags (xs ! i) + 1\<rparr>]
      else if length xs < 64 then
        ys = xs @ [\<lparr>ke_ident = ident, ke_filter = filt, ke_flags = 0, ke_fflags = 1, ke_data = data, ke_udata = udata\<rparr>]
      else ys = xs)"

lemma find_pending_list:
  "eq_find_pending q ident filt = first_free (\<lambda>i. \<not> (i < eq_count q \<longrightarrow> eq_same ident filt (eq_list q ! i))) 0 (eq_count q)"
proof -
  have "first_free (\<lambda>i. \<not> eq_same ident filt (eq_events q ! ((eq_head q + i) mod 64))) a n
      = first_free (\<lambda>i. \<not> (i < eq_count q \<longrightarrow> eq_same ident filt (eq_list q ! i))) a n"
    if "a + n \<le> eq_count q" for a n
    using that
  proof (induction n arbitrary: a)
    case 0
    then show ?case by simp
  next
    case (Suc n)
    then show ?case by (simp add: eq_list_def)
  qed
  then show ?thesis by (simp add: eq_find_pending_def)
qed

lemma trigger_ring:
  assumes "ring_ok q"
  shows "ring_ok (eq_trigger q ident filt data udata)"
    and "trigger_list ident filt data udata (eq_list q) (eq_list (eq_trigger q ident filt data udata))"
proof -
  let ?q = "eq_trigger q ident filt data udata"
  have "ring_ok ?q \<and> trigger_list ident filt data udata (eq_list q) (eq_list ?q)"
  proof (cases "eq_find_pending q ident filt")
    case None
    from None [unfolded find_pending_list first_free_None]
    have "\<not> (\<exists>ev \<in> set (eq_list q). eq_same ident filt ev)"
      by (auto simp: in_set_conv_nth)
    then show ?thesis using None push_ring [OF assms] by (simp add: eq_trigger_def trigger_list_def)
  next
    case (Some i)
    from first_free_Some [OF Some [unfolded find_pending_list]]
    have i: "i < eq_count q" "eq_same ident filt (eq_list q ! i)"
      "\<forall>j<i. \<not> eq_same ident filt (eq_list q ! j)" by auto
    have x: "eq_events q ! ((eq_head q + i) mod 64) = eq_list q ! i" using i(1) by (simp add: eq_list_def)
    let ?ev = "(eq_list q ! i)\<lparr>ke_data := data, ke_udata := udata, ke_fflags := ke_fflags (eq_list q ! i) + 1\<rparr>"
    have q: "?q = q\<lparr>eq_events := (eq_events q)[(eq_head q + i) mod 64 := ?ev]\<rparr>"
      using Some by (simp add: eq_trigger_def Let_def x)
    have "eq_list ?q = (eq_list q)[i := ?ev]"
    proof (rule nth_equalityI)
      show "length (eq_list ?q) = length ((eq_list q)[i := ?ev])" by (simp add: q)
      fix j assume j: "j < length (eq_list ?q)"
      then have j: "j < eq_count q" by (simp add: q)
      then have "j < 64" "i < 64" using assms i(1) by (simp_all add: ring_ok_def)
      then show "eq_list ?q ! j = (eq_list q)[i := ?ev] ! j"
        using j i(1) assms ring_index [of i j "eq_head q"]
        by (simp add: q eq_list_def nth_list_update ring_ok_def)
    qed
    moreover have "\<exists>ev \<in> set (eq_list q). eq_same ident filt ev" using i by force
    moreover have "ring_ok ?q" using assms unfolding q by (simp add: ring_ok_def)
    ultimately show ?thesis using i by (simp add: trigger_list_def) blast
  qed
  then show "ring_ok ?q" "trigger_list ident filt data udata (eq_list q) (eq_list ?q)" by simp_all
qed

section \<open>The table\<close>

lemma sint_plus_one: "0 < sint a \<Longrightarrow> sint a < 2 ^ 31 - 1 \<Longrightarrow> sint (a + 1) = sint a + 1" for a :: i32
proof -
  assume a: "0 < sint a" "sint a < 2 ^ 31 - 1"
  have "sint (a + 1) = signed_take_bit 31 (sint a + 1)" by (simp add: sint_word_ariths)
  also have "\<dots> = sint a + 1" by (rule signed_take_bit_int_eq_self) (use a in simp_all)
  finally show ?thesis .
qed

definition eq_live :: "eq_tab \<Rightarrow> nat \<Rightarrow> i32 \<Rightarrow> bool" where
  "eq_live t i h \<longleftrightarrow> i < 128 \<and> eq_in_use (eqs t i) \<and> eq_id (eqs t i) = h"

text \<open>Rings are well formed, and the queues in use are not deleted and have distinct ids already given out.\<close>

definition eq_tab_ok :: "eq_tab \<Rightarrow> bool" where
  "eq_tab_ok t \<longleftrightarrow> 0 < sint (g_next_eq_id t) \<and> (\<forall>i. ring_ok (eqs t i))
     \<and> (\<forall>i h. eq_live t i h \<longrightarrow> \<not> eq_deleted (eqs t i) \<and> 0 < sint h \<and> sint h < sint (g_next_eq_id t))
     \<and> (\<forall>i j h. eq_live t i h \<longrightarrow> eq_live t j h \<longrightarrow> i = j)"

text \<open>The abstract state: the pending events of each live queue.\<close>

definition eq_view :: "eq_tab \<Rightarrow> i32 \<Rightarrow> kevent list option" where
  "eq_view t h = map_option (\<lambda>i. eq_list (eqs t i)) (find_equeue_locked t h)"

lemma find_live: "find_equeue_locked t h = Some i \<Longrightarrow> eq_live t i h \<and> 0 < sint h"
  by (auto simp: find_equeue_locked_def eq_live_def split: if_splits dest: first_free_Some)

lemma live_find:
  assumes "eq_tab_ok t" and "eq_live t i h"
  shows "find_equeue_locked t h = Some i"
proof -
  have p: "0 < sint h" using assms by (simp add: eq_tab_ok_def)
  have "find_equeue_locked t h \<noteq> None"
    using assms(2) p first_free_None [of "\<lambda>i. \<not> (eq_in_use (eqs t i) \<and> eq_id (eqs t i) = h)" 0 128]
    by (auto simp: find_equeue_locked_def eq_live_def)
  then obtain j where j: "find_equeue_locked t h = Some j" by blast
  have "j = i" using find_live [OF j] assms unfolding eq_tab_ok_def by blast
  with j show ?thesis by simp
qed

lemma find_iff: "eq_tab_ok t \<Longrightarrow> find_equeue_locked t h = Some i \<longleftrightarrow> eq_live t i h"
  using find_live live_find by blast

lemma eq_view_Some: "eq_tab_ok t \<Longrightarrow> eq_view t h = Some xs \<longleftrightarrow> (\<exists>i. eq_live t i h \<and> xs = eq_list (eqs t i))"
  by (auto simp: eq_view_def find_iff)

lemma eq_view_eqI:
  assumes "eq_tab_ok t" "eq_tab_ok t'" and "\<And>h xs. eq_view t' h = Some xs \<longleftrightarrow> v h = Some xs"
  shows "eq_view t' = v"
proof
  fix h
  show "eq_view t' h = v h"
  proof (cases "v h")
    case None
    then have "eq_view t' h \<noteq> Some xs" for xs using assms(3) [of h xs] by simp
    then show ?thesis using None by (metis not_Some_eq)
  next
    case (Some xs)
    then show ?thesis using assms(3) [of h xs] by simp
  qed
qed

lemma eq_put_other: "j \<noteq> i \<Longrightarrow> eqs (eq_put t i f) j = eqs t j"
  by (simp add: eq_put_def)

text \<open>An update of the ring of a live queue is an update of its list.\<close>

lemma eq_put_ring:
  assumes ok: "eq_tab_ok t" and i: "eq_live t i h" and "ring_ok q"
    and same: "eq_id q = eq_id (eqs t i)" "eq_in_use q = eq_in_use (eqs t i)" "eq_deleted q = eq_deleted (eqs t i)"
  shows "eq_tab_ok (eq_put t i (\<lambda>_. q)) \<and> eq_view (eq_put t i (\<lambda>_. q)) = (eq_view t)(h \<mapsto> eq_list q)"
proof -
  have l: "eq_live (eq_put t i (\<lambda>_. q)) j k \<longleftrightarrow> eq_live t j k" for j k
    using same by (simp add: eq_live_def eq_put_def)
  have ok': "eq_tab_ok (eq_put t i (\<lambda>_. q))"
    using ok assms(3) same unfolding eq_tab_ok_def l by (auto simp: eq_put_def)
  have "eq_view (eq_put t i (\<lambda>_. q)) = (eq_view t)(h \<mapsto> eq_list q)"
  proof (rule eq_view_eqI [OF ok ok'])
    fix k xs
    have u: "eq_live t j k \<Longrightarrow> eq_live t i k \<Longrightarrow> j = i" for j using ok by (simp add: eq_tab_ok_def)
    show "eq_view (eq_put t i (\<lambda>_. q)) k = Some xs \<longleftrightarrow> ((eq_view t)(h \<mapsto> eq_list q)) k = Some xs"
    proof (cases "k = h")
      case True
      then have "eq_live t j k \<longleftrightarrow> j = i" for j using i u by blast
      then show ?thesis unfolding eq_view_Some [OF ok'] l using True by (auto simp: eq_put_def)
    next
      case False
      then have "eq_live t j k \<Longrightarrow> j \<noteq> i" for j using i by (auto simp: eq_live_def)
      then have "(\<exists>j. eq_live t j k \<and> xs = eq_list (eqs (eq_put t i (\<lambda>_. q)) j))
          \<longleftrightarrow> (\<exists>j. eq_live t j k \<and> xs = eq_list (eqs t j))"
        by (metis (no_types, lifting) eq_put_other)
      then show ?thesis unfolding eq_view_Some [OF ok'] l using False eq_view_Some [OF ok, of k xs] by simp
    qed
  qed
  with ok' show ?thesis by simp
qed

lemma eq_trigger_same [simp]:
  "eq_id (eq_trigger q a b c d) = eq_id q" "eq_in_use (eq_trigger q a b c d) = eq_in_use q"
  "eq_deleted (eq_trigger q a b c d) = eq_deleted q"
  by (auto simp: eq_trigger_def eq_push_def Let_def split: option.splits)

lemma eq_push_same [simp]:
  "eq_id (eq_push q e) = eq_id q" "eq_in_use (eq_push q e) = eq_in_use q" "eq_deleted (eq_push q e) = eq_deleted q"
  by (auto simp: eq_push_def)

lemma eq_remove_same [simp]:
  "eq_id (remove_events_locked p q) = eq_id q" "eq_in_use (remove_events_locked p q) = eq_in_use q"
  "eq_deleted (remove_events_locked p q) = eq_deleted q"
  by (simp_all add: remove_events_locked_def split: prod.splits)

lemma eq_drain_same [simp]:
  "eq_id (snd (eq_drain q n)) = eq_id q \<and> eq_in_use (snd (eq_drain q n)) = eq_in_use q
   \<and> eq_deleted (snd (eq_drain q n)) = eq_deleted q"
proof (induction n arbitrary: q)
  case 0
  then show ?case by simp
next
  case (Suc n)
  define q1 where "q1 = q\<lparr>eq_head := (eq_head q + 1) mod 64, eq_count := eq_count q - 1\<rparr>"
  have "snd (eq_drain q (Suc n)) = (if eq_count q = 0 then q else snd (eq_drain q1 n))"
    by (simp add: q1_def Let_def split: prod.splits)
  moreover have "eq_id q1 = eq_id q" "eq_in_use q1 = eq_in_use q" "eq_deleted q1 = eq_deleted q"
    by (simp_all add: q1_def)
  ultimately show ?case using Suc.IH [of q1] by simp
qed

lemma eq_put_const: "eq_put t i f = eq_put t i (\<lambda>_. f (eqs t i))"
  by (simp add: eq_put_def)

lemma eq_deliver_exact:
  assumes ok: "eq_tab_ok t" and i: "eq_live t i h"
  shows "\<exists>t'. eq_deliver i a n oc (m, t) =
      (if take (unat n) (eq_list (eqs t i)) = [] then KERR_ETIMEDOUT else 0,
       opt_wr_u32 (wr_events m a (take (unat n) (eq_list (eqs t i)))) oc
         (of_nat (length (take (unat n) (eq_list (eqs t i))))), t')
    \<and> eq_tab_ok t' \<and> eq_view t' = (eq_view t)(h \<mapsto> drop (unat n) (eq_list (eqs t i)))"
proof -
  have r: "ring_ok (eqs t i)" using ok by (simp add: eq_tab_ok_def)
  define d where "d = eq_drain (eqs t i) (unat n)"
  note dr = drain_ring [OF r, of "unat n", folded d_def]
  have s: "eq_id (snd d) = eq_id (eqs t i)" "eq_in_use (snd d) = eq_in_use (eqs t i)"
    "eq_deleted (snd d) = eq_deleted (eqs t i)" by (simp_all add: d_def)
  have e: "eq_deliver i a n oc (m, t) = (if fst d = [] then KERR_ETIMEDOUT else 0,
       opt_wr_u32 (wr_events m a (fst d)) oc (of_nat (length (fst d))), eq_put t i (\<lambda>_. snd d))"
    by (simp add: eq_deliver_def d_def split: prod.splits)
  have "eq_tab_ok (eq_put t i (\<lambda>_. snd d))
      \<and> eq_view (eq_put t i (\<lambda>_. snd d)) = (eq_view t)(h \<mapsto> eq_list (snd d))"
    by (rule eq_put_ring [OF ok i _ s]) (use dr in simp)
  then show ?thesis unfolding e using dr by (intro exI [of _ "eq_put t i (\<lambda>_. snd d)"]) simp
qed

text \<open>Triggering and removing on the lists of pending events.\<close>

lemma trigger_view:
  assumes "eq_tab_ok t" and "eq_view t h = Some xs"
  shows "\<exists>ys t'. ps4_equeue_trigger_event t h ident filt data udata = (0, t')
    \<and> trigger_list ident filt data udata xs ys \<and> eq_tab_ok t' \<and> eq_view t' = (eq_view t)(h \<mapsto> ys)"
proof -
  obtain i where i: "eq_live t i h" and xs: "xs = eq_list (eqs t i)"
    using assms(1,2) by (auto simp: eq_view_Some)
  have f: "find_equeue_locked t h = Some i" by (rule live_find [OF assms(1) i])
  have nd: "\<not> eq_deleted (eqs t i)" and r: "ring_ok (eqs t i)" using assms(1) i by (auto simp: eq_tab_ok_def)
  show ?thesis
    using eq_put_ring [OF assms(1) i, of "eq_trigger (eqs t i) ident filt data udata"]
      trigger_ring [OF r, of ident filt data udata] f nd
    by (auto simp: ps4_equeue_trigger_event_def xs eq_put_const [of t i "\<lambda>q. eq_trigger q ident filt data udata"])
qed

lemma remove_view:
  assumes "eq_tab_ok t" and "eq_view t h = Some xs"
  shows "\<exists>t'. ps4_equeue_remove_events t h ident filt = (0, t') \<and> eq_tab_ok t'
    \<and> eq_view t' = (eq_view t)(h \<mapsto> filter (\<lambda>ev. \<not> (ke_ident ev = ident \<and> ke_filter ev = filt)) xs)"
proof -
  obtain i where i: "eq_live t i h" and xs: "xs = eq_list (eqs t i)"
    using assms(1,2) by (auto simp: eq_view_Some)
  have f: "find_equeue_locked t h = Some i" by (rule live_find [OF assms(1) i])
  have r: "ring_ok (eqs t i)" using assms(1) i by (auto simp: eq_tab_ok_def)
  show ?thesis
    using eq_put_ring [OF assms(1) i, of "remove_events_locked (eq_same ident filt) (eqs t i)"]
      remove_ring [OF r, of "eq_same ident filt"] f
    by (simp add: ps4_equeue_remove_events_def xs eq_same_def [abs_def]
        eq_put_const [of t i "remove_events_locked q" for q])
qed

lemma dead_view:
  assumes "eq_tab_ok t"
  shows "eq_view t h = None \<Longrightarrow> snd (ps4_equeue_trigger_event t h ident filt data udata) = t"
    and "ps4_equeue_exists t h \<longleftrightarrow> eq_view t h \<noteq> None"
proof -
  show "eq_view t h = None \<Longrightarrow> snd (ps4_equeue_trigger_event t h ident filt data udata) = t"
    by (simp add: eq_view_def ps4_equeue_trigger_event_def)
  show "ps4_equeue_exists t h \<longleftrightarrow> eq_view t h \<noteq> None"
    using assms find_live [of t h]
    by (auto simp: ps4_equeue_exists_def eq_view_def eq_tab_ok_def split: option.split)
qed

section \<open>Properties\<close>

text \<open>
  C11. On a live queue every call acts on its list of pending events and on nothing else: posting
  appends the event unless 64 are pending, in which case it is dropped and the call still
  returns 0; triggering updates the first pending event of the same identity and filter and
  counts the trigger, or appends one; removing and deleting a user event drop exactly the
  matching events and keep the order; a poll takes the oldest events up to the number asked
  for, writes them and their number, and fails with \<open>ETIMEDOUT\<close> when there are none.
\<close>

theorem equeue_calls_exact:
  assumes "eq_tab_ok t" and "eq_view t h = Some xs"
  defines "becomes \<equiv> \<lambda>t' ys. eq_tab_ok t' \<and> eq_view t' = (eq_view t)(h \<mapsto> ys)"
  shows "(let (rc, t') = ps4_equeue_post_event t h ident filt data udata in rc = 0 \<and> becomes t'
        (if length xs < 64 then xs @ [\<lparr>ke_ident = ident, ke_filter = filt, ke_flags = 0, ke_fflags = 0,
           ke_data = data, ke_udata = udata\<rparr>] else xs))
    \<and> (let (rc, t') = ps4_equeue_trigger_event t h ident filt data udata in rc = 0
        \<and> (\<exists>ys. trigger_list ident filt data udata xs ys \<and> becomes t' ys))
    \<and> (let (rc, t') = ps4_equeue_remove_events t h ident filt in rc = 0
        \<and> becomes t' (filter (\<lambda>ev. \<not> (ke_ident ev = ident \<and> ke_filter ev = filt)) xs))
    \<and> (let (rc, t') = sceKernelDeleteUserEvent t h uid in rc = 0
        \<and> becomes t' (filter (\<lambda>ev. \<not> (ke_filter ev = EVFILT_USER \<and> ucast (ke_ident ev) = uid)) xs))
    \<and> (0 < sint n \<and> a \<noteq> 0 \<longrightarrow> (\<exists>t'. sceKernelWaitEqueue (m, t) h a n oc (Some 0) ws =
         Some (if xs = [] then KERR_ETIMEDOUT else 0,
               opt_wr_u32 (wr_events (opt_wr_u32 m oc 0) a (take (unat n) xs)) oc
                 (of_nat (length (take (unat n) xs))), t')
         \<and> becomes t' (drop (unat n) xs)))"
proof -
  obtain i where i: "eq_live t i h" and xs: "xs = eq_list (eqs t i)"
    using assms(1,2) by (auto simp: eq_view_Some)
  have f: "find_equeue_locked t h = Some i" by (rule live_find [OF assms(1) i])
  have nd: "\<not> eq_deleted (eqs t i)" and r: "ring_ok (eqs t i)" using assms(1) i by (auto simp: eq_tab_ok_def)
  note put = eq_put_ring [OF assms(1) i]
  let ?ev = "\<lparr>ke_ident = ident, ke_filter = filt, ke_flags = 0, ke_fflags = 0, ke_data = data, ke_udata = udata\<rparr>"
  have p: "(let (rc, t') = ps4_equeue_post_event t h ident filt data udata in rc = 0 \<and> becomes t'
        (if length xs < 64 then xs @ [?ev] else xs))"
    using put [of "eq_push (eqs t i) ?ev"] push_ring [OF r, of ?ev] f nd
    by (simp add: ps4_equeue_post_event_def becomes_def xs eq_put_const [of t i "\<lambda>q. eq_push q ?ev"])
  have tr: "(let (rc, t') = ps4_equeue_trigger_event t h ident filt data udata in rc = 0
        \<and> (\<exists>ys. trigger_list ident filt data udata xs ys \<and> becomes t' ys))"
    using trigger_view [OF assms(1,2), of ident filt data udata] by (auto simp: becomes_def)
  have rm: "(let (rc, t') = ps4_equeue_remove_events t h ident filt in rc = 0
        \<and> becomes t' (filter (\<lambda>ev. \<not> (ke_ident ev = ident \<and> ke_filter ev = filt)) xs))"
    using remove_view [OF assms(1,2), of ident filt] by (auto simp: becomes_def)
  let ?p = "\<lambda>ev. ke_filter ev = EVFILT_USER \<and> ucast (ke_ident ev) = uid"
  have du: "(let (rc, t') = sceKernelDeleteUserEvent t h uid in rc = 0
        \<and> becomes t' (filter (\<lambda>ev. \<not> (ke_filter ev = EVFILT_USER \<and> ucast (ke_ident ev) = uid)) xs))"
    using put [of "remove_events_locked ?p (eqs t i)"] remove_ring [OF r, of ?p] f
    by (simp add: sceKernelDeleteUserEvent_def becomes_def xs eq_put_const [of t i "remove_events_locked q" for q])
  have po: "\<exists>t'. sceKernelWaitEqueue (m, t) h a n oc (Some 0) ws =
         Some (if xs = [] then KERR_ETIMEDOUT else 0,
               opt_wr_u32 (wr_events (opt_wr_u32 m oc 0) a (take (unat n) xs)) oc
                 (of_nat (length (take (unat n) xs))), t')
         \<and> becomes t' (drop (unat n) xs)" if "0 < sint n" "a \<noteq> 0"
  proof -
    have "unat n \<noteq> 0" using that(1) by (metis sint_0 unat_eq_zero less_irrefl)
    then have z: "take (unat n) xs = [] \<longleftrightarrow> xs = []" by simp
    have "sceKernelWaitEqueue (m, t) h a n oc (Some 0) ws = Some (eq_deliver i a n oc (opt_wr_u32 m oc 0, t))"
      using that f nd by (simp add: sceKernelWaitEqueue_def)
    with eq_deliver_exact [OF assms(1) i, of a n oc "opt_wr_u32 m oc 0", folded xs, unfolded z]
    show ?thesis by (auto simp: becomes_def)
  qed
  from p tr rm du po show ?thesis by blast
qed

definition ex_gm :: guest_mem where
  "ex_gm = \<lparr>mem_mapped = True, mem_size = 0x10000, mem_bytes = (\<lambda>_. 0)\<rparr>"

definition ex_event :: "u64 \<Rightarrow> kevent" where
  "ex_event n = \<lparr>ke_ident = n, ke_filter = EVFILT_USER, ke_flags = 0, ke_fflags = 0, ke_data = 0, ke_udata = 0\<rparr>"

lemma ring_ok0: "ring_ok equeue0" "eq_list equeue0 = []"
  by (simp_all add: ring_ok_def equeue0_def eq_list_def)

definition ex_eq1 :: eq_tab where
  "ex_eq1 = snd (sceKernelCreateEqueue False (Some ''vblank'') eq_tab0)"

lemma ex_eq1_eq: "ex_eq1 = \<lparr>eqs = (\<lambda>_. equeue0)(0 := equeue0\<lparr>eq_id := 1, eq_in_use := True, eq_name := ''vblank''\<rparr>),
    g_next_eq_id = 2\<rparr>"
proof -
  have u: "eq_in_use equeue0 = False" "eq_deleted equeue0 = False" "eq_head equeue0 = 0"
    "eq_tail equeue0 = 0" "eq_count equeue0 = 0" by (simp_all add: equeue0_def)
  have "first_free (\<lambda>i. eq_in_use (eqs eq_tab0 i)) 0 128 = Some 0"
    by (rule first_free_first) (simp_all add: eq_tab0_def u)
  then show ?thesis
    by (simp add: ex_eq1_def sceKernelCreateEqueue_def eq_put_def eq_tab0_def strncpy_name_def)
      (simp add: equeue0_def)
qed

lemma ex_eq1_facts: "eq_tab_ok ex_eq1" "eq_view ex_eq1 1 = Some []"
proof -
  have l: "eq_live ex_eq1 i h \<longleftrightarrow> i = 0 \<and> h = 1" for i h
    by (auto simp: ex_eq1_eq eq_live_def equeue0_def)
  have r: "ring_ok (eqs ex_eq1 i)" for i
    using ring_ok0(1) by (simp add: ex_eq1_eq ring_ok_def)
  show ok: "eq_tab_ok ex_eq1"
    unfolding eq_tab_ok_def l using r by (simp add: ex_eq1_eq equeue0_def)
  show "eq_view ex_eq1 1 = Some []"
    unfolding eq_view_Some [OF ok] l by (simp add: ex_eq1_eq eq_list_def equeue0_def)
qed

theorem equeue_calls_exact_witness:
  "eq_tab_ok ex_eq1 \<and> eq_view ex_eq1 1 = Some []
   \<and> (let (rc, t') = ps4_equeue_post_event ex_eq1 1 7 EVFILT_USER 0 0
       in rc = 0 \<and> eq_tab_ok t' \<and> eq_view t' 1 = Some [ex_event 7])
   \<and> (\<exists>t'. sceKernelWaitEqueue (ex_gm, ex_eq1) 1 0x4000 8 0 (Some 0) [] = Some (KERR_ETIMEDOUT, ex_gm, t'))"
proof -
  note x = equeue_calls_exact [OF ex_eq1_facts, where ident = 7 and filt = EVFILT_USER and data = 0 and udata = 0
      and n = 8 and a = "0x4000" and oc = 0 and m = ex_gm and ws = "[]"]
  have "(let (rc, t') = ps4_equeue_post_event ex_eq1 1 7 EVFILT_USER 0 0
       in rc = 0 \<and> eq_tab_ok t' \<and> eq_view t' 1 = Some [ex_event 7])"
    using x [THEN conjunct1] by (auto simp: ex_event_def split: prod.splits)
  moreover have "\<exists>t'. sceKernelWaitEqueue (ex_gm, ex_eq1) 1 0x4000 8 0 (Some 0) [] = Some (KERR_ETIMEDOUT, ex_gm, t')"
    using x [THEN conjunct2, THEN conjunct2, THEN conjunct2, THEN conjunct2]
    by (auto simp: opt_wr_u32_def)
  ultimately show ?thesis using ex_eq1_facts by simp
qed

text \<open>
  No accepted event is lost, duplicated or reordered: over any sequence of posts and
  retrievals on one queue, the events retrieved followed by those still pending are the events
  pending at the start followed by the accepted ones in the order they were posted; an event is
  refused only while 64 are pending.
\<close>

theorem equeue_fifo_delivery:
  assumes "ring_ok q" and "q_run eq_push eq_drain q cs = (out, q')"
  shows "ring_ok q' \<and> out @ eq_list q' = eq_list q @ q_accepted 64 (length (eq_list q)) cs"
  by (rule ring.run_delivers [OF assms])

theorem equeue_fifo_delivery_witness:
  "ring_ok equeue0 \<and> (\<exists>out q'. q_run eq_push eq_drain equeue0
       [QPush (ex_event 1), QPush (ex_event 2), QDrain 1, QPush (ex_event 3), QDrain 1] = (out, q')
     \<and> out @ eq_list q' = [ex_event 1, ex_event 2, ex_event 3])"
proof -
  obtain out q' where r: "q_run eq_push eq_drain equeue0
      [QPush (ex_event 1), QPush (ex_event 2), QDrain 1, QPush (ex_event 3), QDrain 1] = (out, q')"
    by (rule prod.exhaust)
  show ?thesis using equeue_fifo_delivery [OF ring_ok0(1) r] ring_ok0 r by auto
qed

text \<open>
  Queue ids are never reused while the counter lasts: creating a queue gives an id no live
  queue has and every later id is larger, with an empty queue behind it and the others
  unchanged, and fails only when all 128 slots are in use; deleting the queue gives the previous
  queues back, and the id stays dead.
\<close>

theorem equeue_create_delete:
  assumes "eq_tab_ok t" and "sint (g_next_eq_id t) < 2 ^ 31 - 1"
  shows "(case sceKernelCreateEqueue False name t of
      (Inr h, t') \<Rightarrow> eq_view t h = None \<and> eq_tab_ok t' \<and> eq_view t' = (eq_view t)(h \<mapsto> [])
        \<and> sint h < sint (g_next_eq_id t')
        \<and> (let (rc, t'') = sceKernelDeleteEqueue t' h in
            rc = 0 \<and> eq_tab_ok t'' \<and> eq_view t'' = eq_view t \<and> g_next_eq_id t'' = g_next_eq_id t')
    | (Inl e, t') \<Rightarrow> e = - ENOMEM \<and> t' = t \<and> (\<forall>i<128. eq_in_use (eqs t i)))"
proof (cases "first_free (\<lambda>i. eq_in_use (eqs t i)) 0 128")
  case None
  then show ?thesis
    using first_free_None [of "\<lambda>i. eq_in_use (eqs t i)" 0 128] by (simp add: sceKernelCreateEqueue_def)
next
  case (Some i)
  let ?h = "g_next_eq_id t"
  define q where "q = (eqs t i)\<lparr>eq_id := ?h, eq_in_use := True, eq_deleted := False, eq_head := 0,
      eq_tail := 0, eq_count := 0, eq_name := (case name of None \<Rightarrow> [] | Some s \<Rightarrow> strncpy_name 64 s)\<rparr>"
  define t' where "t' = eq_put (t\<lparr>g_next_eq_id := ?h + 1\<rparr>) i (\<lambda>_. q)"
  define t'' where "t'' = eq_put t' i (\<lambda>q. q\<lparr>eq_deleted := True, eq_in_use := False\<rparr>)"
  note ok = assms(1)
  have c: "sceKernelCreateEqueue False name t = (Inr ?h, t')"
    using Some by (simp add: sceKernelCreateEqueue_def t'_def q_def eq_put_def)
  from first_free_Some [OF Some] have i: "i < 128" "\<not> eq_in_use (eqs t i)" by auto
  have nx: "sint (?h + 1) = sint ?h + 1" using assms by (intro sint_plus_one) (auto simp: eq_tab_ok_def)
  have p: "0 < sint ?h" using ok by (simp add: eq_tab_ok_def)
  have q: "ring_ok q" "eq_list q = []" "eq_id q = ?h" "eq_in_use q" "\<not> eq_deleted q"
    using ok by (simp_all add: q_def ring_ok_def eq_list_def eq_tab_ok_def)
  have fresh: "\<not> eq_live t j ?h" for j using ok by (auto simp: eq_tab_ok_def)
  have l': "eq_live t' j k \<longleftrightarrow> (if j = i then k = ?h else eq_live t j k)" for j k
    using q i by (auto simp: t'_def eq_live_def eq_put_def)
  have l'': "eq_live t'' j k \<longleftrightarrow> eq_live t j k" for j k
    using i by (auto simp: t''_def t'_def eq_live_def eq_put_def)
  have ok': "eq_tab_ok t'"
    unfolding eq_tab_ok_def l'
    using ok q p nx fresh i by (auto simp: t'_def eq_put_def eq_tab_ok_def eq_live_def split: if_splits)
  have "ring_ok (q\<lparr>eq_deleted := True, eq_in_use := False\<rparr>)" using q(1) by (simp add: ring_ok_def)
  then have ok'': "eq_tab_ok t''"
    unfolding eq_tab_ok_def l''
    using ok q p nx i by (auto simp: t'_def t''_def eq_put_def eq_tab_ok_def eq_live_def split: if_splits)
  have v: "eq_view t' = (eq_view t)(?h \<mapsto> [])"
  proof (rule eq_view_eqI [OF ok ok'])
    fix k xs
    show "eq_view t' k = Some xs \<longleftrightarrow> ((eq_view t)(?h \<mapsto> [])) k = Some xs"
    proof (cases "k = ?h")
      case True
      then show ?thesis
        unfolding eq_view_Some [OF ok'] l' using q(2) fresh by (auto simp: t'_def eq_put_def split: if_splits)
    next
      case False
      have "eqs t' j = eqs t j" if "j \<noteq> i" for j using that by (simp add: t'_def eq_put_def)
      then have "(\<exists>j. (if j = i then k = ?h else eq_live t j k) \<and> xs = eq_list (eqs t' j))
          \<longleftrightarrow> (\<exists>j. eq_live t j k \<and> xs = eq_list (eqs t j))"
        using False i by (metis eq_live_def)
      then show ?thesis
        unfolding eq_view_Some [OF ok'] l' using False eq_view_Some [OF ok, of k xs] by simp
    qed
  qed
  have v'': "eq_view t'' = eq_view t"
  proof (rule eq_view_eqI [OF ok ok''])
    fix k xs
    have "eqs t'' j = eqs t j" if "j \<noteq> i" for j using that by (simp add: t''_def t'_def eq_put_def)
    then show "eq_view t'' k = Some xs \<longleftrightarrow> eq_view t k = Some xs"
      unfolding eq_view_Some [OF ok''] eq_view_Some [OF ok] l'' using i by (metis eq_live_def)
  qed
  have "find_equeue_locked t' ?h = Some i" by (rule live_find [OF ok']) (simp add: l')
  then have d: "sceKernelDeleteEqueue t' ?h = (0, t'')" by (simp add: sceKernelDeleteEqueue_def t''_def)
  have "eq_view t ?h = None" using fresh eq_view_Some [OF ok, of ?h] by (metis not_Some_eq)
  then show ?thesis unfolding c using d ok' ok'' v v'' nx by (simp add: t'_def t''_def eq_put_def)
qed

theorem equeue_create_delete_witness:
  "eq_tab_ok ex_eq1 \<and> sint (g_next_eq_id ex_eq1) < 2 ^ 31 - 1
   \<and> fst (sceKernelCreateEqueue False None ex_eq1) = Inr 2 \<and> eq_view ex_eq1 2 = None"
proof -
  have n: "g_next_eq_id ex_eq1 = 2" by (simp add: ex_eq1_eq)
  have f: "first_free (\<lambda>i. eq_in_use (eqs ex_eq1 i)) 0 128 = Some 1"
    by (simp add: ex_eq1_eq equeue0_def numeral_eq_Suc)
  have c: "fst (sceKernelCreateEqueue False None ex_eq1) = Inr 2"
    using f n by (simp add: sceKernelCreateEqueue_def)
  have s: "sint (g_next_eq_id ex_eq1) < 2 ^ 31 - 1" by (simp add: n)
  from equeue_create_delete [OF ex_eq1_facts(1) s, of None] c have "eq_view ex_eq1 2 = None"
    by (auto split: prod.splits sum.splits)
  then show ?thesis using c s ex_eq1_facts(1) by simp
qed

lemma eq_drain_empty: "0 < n \<Longrightarrow> fst (eq_drain q n) = [] \<longleftrightarrow> eq_count q = 0"
  by (cases n) (auto simp: Let_def split: prod.splits)

lemma eq_deliver_rc: "n \<noteq> 0 \<Longrightarrow> fst (eq_deliver i a n oc st) = (if eq_count (eqs (snd st) i) = 0 then KERR_ETIMEDOUT else 0)"
  using eq_drain_empty [of "unat n" "eqs (snd st) i"]
  by (auto simp: eq_deliver_def unat_gt_0 split: prod.splits)

text \<open>
  A blocking wait sleeps exactly while its queue is empty, not deleted and no timeout was
  reported, under any behaviour of the other threads. It then fails with \<open>EBADF\<close> without effect
  when the queue was deleted, and otherwise takes the pending events: an event that came with
  the timeout is still delivered, and \<open>ETIMEDOUT\<close> is returned only when there is none.
\<close>

theorem equeue_wait_exact:
  fixes m :: guest_mem and oc :: u64
  assumes "find_equeue_locked t h = Some i" and "\<not> eq_deleted (eqs t i)" and "0 < sint n" and "a \<noteq> 0"
    and "timeout \<noteq> Some 0"
  defines "st1 \<equiv> (opt_wr_u32 m oc 0, t)"
  shows "(case sceKernelWaitEqueue (m, t) h a n oc timeout ws of
      None \<Rightarrow> asleep (eq_blocked i) (timeout \<noteq> None) st1 ws (Suc (length ws))
    | Some (rc, st') \<Rightarrow> \<exists>k \<le> length ws. asleep (eq_blocked i) (timeout \<noteq> None) st1 ws k
        \<and> (let u = wake_states st1 ws ! k; q = eqs (snd u) i in
            if eq_deleted q then (rc, st') = (KERR_EBADF, u)
            else (rc, st') = eq_deliver i a n oc u
              \<and> (if eq_count q = 0 then rc = KERR_ETIMEDOUT \<and> 0 < k \<and> timeout \<noteq> None \<and> fst (ws ! (k - 1))
                 else rc = 0)))"
proof (cases "sleep_loop (eq_blocked i) (timeout \<noteq> None) st1 ws")
  case None
  have "sceKernelWaitEqueue (m, t) h a n oc timeout ws = None"
    using assms(1-5) None by (simp add: sceKernelWaitEqueue_def st1_def)
  moreover have "asleep (eq_blocked i) (timeout \<noteq> None) st1 ws (Suc (length ws))"
    by (rule sleep_loop_None [THEN iffD1, OF None])
  ultimately show ?thesis by (simp only: option.case)
next
  case (Some p)
  obtain to u where p: "p = (to, u)" by (rule prod.exhaust)
  from sleep_loop_Some [OF Some [unfolded p]] obtain k where k: "k \<le> length ws"
    "asleep (eq_blocked i) (timeout \<noteq> None) st1 ws k" "u = wake_states st1 ws ! k"
    "to = (0 < k \<and> timeout \<noteq> None \<and> fst (ws ! (k - 1)))" "\<not> to \<longrightarrow> \<not> eq_blocked i u" by blast
  obtain rc st' where r: "(if eq_deleted (eqs (snd u) i) then (KERR_EBADF, u) else eq_deliver i a n oc u) = (rc, st')"
    by (rule prod.exhaust)
  have w: "sceKernelWaitEqueue (m, t) h a n oc timeout ws = Some (rc, st')"
    using assms(1-5) Some p r by (simp add: sceKernelWaitEqueue_def st1_def split: if_splits)
  have n: "n \<noteq> 0" using assms(3) by auto
  have "(if eq_deleted (eqs (snd u) i) then (rc, st') = (KERR_EBADF, u)
            else (rc, st') = eq_deliver i a n oc u
              \<and> (if eq_count (eqs (snd u) i) = 0 then rc = KERR_ETIMEDOUT \<and> to else rc = 0))"
    using r k(5) eq_deliver_rc [OF n, of i a oc u] by (auto simp: eq_blocked_def split: if_splits)
  then show ?thesis unfolding w option.case prod.case Let_def
    using k(1,2) unfolding k(3) k(4) by blast
qed

theorem equeue_wait_exact_witness:
  "find_equeue_locked ex_eq1 1 = Some 0 \<and> \<not> eq_deleted (eqs ex_eq1 0)
   \<and> sceKernelWaitEqueue (ex_gm, ex_eq1) 1 0x4000 8 0 (Some 5) [] = None
   \<and> asleep (eq_blocked 0) True (ex_gm, ex_eq1) [] 1
   \<and> (\<exists>st'. sceKernelWaitEqueue (ex_gm, ex_eq1) 1 0x4000 8 0 (Some 5) [(True, \<lambda>st. st)] = Some (KERR_ETIMEDOUT, st'))"
proof -
  have f: "find_equeue_locked ex_eq1 1 = Some 0"
    by (rule live_find [OF ex_eq1_facts(1)]) (simp add: eq_live_def ex_eq1_eq)
  have d: "\<not> eq_deleted (eqs ex_eq1 0)" "eq_count (eqs ex_eq1 0) = 0"
    by (simp_all add: ex_eq1_eq equeue0_def)
  have b: "eq_blocked 0 (ex_gm, ex_eq1)" using d by (simp add: eq_blocked_def)
  have n: "sceKernelWaitEqueue (ex_gm, ex_eq1) 1 0x4000 8 0 (Some 5) [] = None"
    using f d b by (simp add: sceKernelWaitEqueue_def opt_wr_u32_def)
  have "0 < sint (8 :: i32)" "(0x4000 :: u64) \<noteq> 0" "Some 5 \<noteq> Some (0 :: u32)" by simp_all
  note x = equeue_wait_exact [OF f d(1) this, where m = ex_gm and oc = 0]
  have "asleep (eq_blocked 0) True (ex_gm, ex_eq1) [] 1"
    using x [of "[]"] n by (simp add: opt_wr_u32_def)
  moreover have "sceKernelWaitEqueue (ex_gm, ex_eq1) 1 0x4000 8 0 (Some 5) [(True, \<lambda>st. st)]
      = Some (eq_deliver 0 0x4000 8 0 (ex_gm, ex_eq1))"
    using f d b by (simp add: sceKernelWaitEqueue_def opt_wr_u32_def)
  moreover have "fst (eq_deliver 0 0x4000 8 0 (ex_gm, ex_eq1)) = KERR_ETIMEDOUT"
    using eq_deliver_rc [of 8 0 "0x4000" 0 "(ex_gm, ex_eq1)"] d by simp
  ultimately show ?thesis using f d n by (cases "eq_deliver 0 0x4000 8 0 (ex_gm, ex_eq1)") simp
qed

end
