(* ===== verification/GuestMutex.thy ===== *)
theory GuestMutex
  imports GuestMem
begin

unbundle bit_operations_syntax

text \<open>
  Guest mutexes and condition variables of \<open>kernel/sync/ps4_sync.c\<close>, at the granularity of
  their atomic accesses: the owner word is taken with a compare-and-swap, a contended lock spins
  and then sleeps on a host condition variable under a host lock. Each C function is a step
  function from a program counter and the shared state; a thread that cannot go on (the host
  lock is taken, the thread sleeps) has no step. The accesses are sequentially consistent, as the
  ones the protocol rests on are in the source. The statistics fields are not modelled: no branch
  reads them.
\<close>

section \<open>State\<close>

text \<open>
  \<open>gm_lk\<close> is the holder of the host mutex \<open>lk\<close>, \<open>gm_cv\<close> the threads asleep on the host condition
  variable \<open>cv\<close>. The second record adds the condition variable that is used with the mutex: whether
  a wait has stored the mutex in it, and who sleeps on its host condition variable.
\<close>

record gmutex =
  gm_owner :: u64
  gm_count :: u32
  gm_type :: i32
  gm_waiters :: u32
  gm_lk :: "u64 option"
  gm_cv :: "u64 set"

record gsync = gmutex +
  cn_m :: bool
  cn_cv :: "u64 set"

text \<open>The global switches, fixed at start-up: \<open>PS4_MUTEX_LEGACY\<close>, a spin time, an extra delay.\<close>

record mx_cfg =
  mx_legacy :: bool
  mx_spin :: bool
  mx_extra :: bool

definition gm_fresh :: "i32 \<Rightarrow> gsync" where
  "gm_fresh ty = \<lparr>gm_owner = 0, gm_count = 0, gm_type = ty, gm_waiters = 0, gm_lk = None, gm_cv = {},
                  cn_m = False, cn_cv = {}\<rparr>"

text \<open>What the scheduler and the clock decide in a step.\<close>

datatype choice = Go | Timeout | Spurious | Wake u64

text \<open>
  Host primitives. A signal wakes one sleeper, or nobody when there is none; a wait returns when
  the thread was signalled, when its time is over, or spuriously.
\<close>

definition lk_take :: "u64 \<Rightarrow> gsync \<Rightarrow> gsync option" where
  "lk_take me m = (if gm_lk m = None then Some (m\<lparr>gm_lk := Some me\<rparr>) else None)"

abbreviation lk_drop :: "gsync \<Rightarrow> gsync" where
  "lk_drop m \<equiv> m\<lparr>gm_lk := None\<rparr>"

definition cv_signal :: "choice \<Rightarrow> u64 set \<Rightarrow> u64 set option" where
  "cv_signal ch S =
     (if S = {} then Some {} else
      case ch of Wake w \<Rightarrow> if w \<in> S then Some (S - {w}) else None | _ \<Rightarrow> None)"

definition cv_return :: "choice \<Rightarrow> bool \<Rightarrow> u64 \<Rightarrow> u64 set \<Rightarrow> (bool \<times> u64 set) option" where
  "cv_return ch timed me S =
     (case ch of
        Go \<Rightarrow> if me \<in> S then None else Some (False, S)
      | Spurious \<Rightarrow> Some (False, S - {me})
      | Timeout \<Rightarrow> if timed then Some (True, S - {me}) else None
      | Wake _ \<Rightarrow> None)"

section \<open>Program counters\<close>

datatype lock_pc = LkRead | LkCas | LkCont | LkSpin | LkAcq
datatype sleep_pc = SlLk | SlInc | SlCas bool | SlWait | SlAsleep | SlRelk bool | SlDec bool | SlUnlk bool
datatype legacy_pc = LgLk | LgTest bool | LgWait | LgAsleep | LgRelk bool | LgExtra bool | LgExtraLk bool
  | LgUnlk i32
datatype try_pc = TrLk | TrRead | TrCas | TrAcq | TrUnlk i32
datatype unlock_pc = UnRead | UnStore | UnLoad | UnLk | UnSig | UnUnlk | UnLegLk | UnLegDo | UnLegUnlk i32
datatype wait_pc = CwRead | CwLk u32 | CwRel u32 | CwNote u32 | CwWait u32 | CwAsleep u32
  | CwRelk u32 i32 | CwInc u32 i32 | CwCas u32 i32 | CwMWait u32 i32 | CwMAsleep u32 i32 | CwMRelk u32 i32
  | CwDec u32 i32 | CwUnlk u32 i32
datatype signal_pc = SgLoad | SgLk | SgSend bool | SgUnlk

datatype mx_call = CLock | CTry | CUnlock | CWait | CSignal

text \<open>The flag of a lock or wait is whether it has a time limit, that of a signal whether it wakes all.\<close>

datatype mx_pc = Idle | Done mx_call i32
  | InLock bool lock_pc | InSleep bool sleep_pc | InLegacy bool legacy_pc | InTry try_pc
  | InUnlock unlock_pc | InWait bool wait_pc | InSignal bool signal_pc

section \<open>Step functions\<close>

text \<open>
  Relocking by the owner. Only the owner reads and writes the count, so this is one step; a timed
  lock of a non-recursive type has waited its time out when it returns.
\<close>

definition gm_relock :: "bool \<Rightarrow> gsync \<Rightarrow> i32 \<times> gsync" where
  "gm_relock timed m =
     (if gm_type m = 1 \<or> gm_type m = 3 \<or> gm_type m = 4
      then (if timed then ETIMEDOUT else EDEADLK, m)
      else (0, m\<lparr>gm_count := gm_count m + 1\<rparr>))"

definition gm_acquired :: "gsync \<Rightarrow> gsync" where
  "gm_acquired m = m\<lparr>gm_count := 1\<rparr>"

definition gm_cas :: "gsync \<Rightarrow> u64 \<Rightarrow> gsync option" where
  "gm_cas m me = (if gm_owner m = 0 then Some (m\<lparr>gm_owner := me\<rparr>) else None)"

text \<open>\<open>gm_lock\<close> and \<open>gm_spin\<close>: one step per read or compare-and-swap of the owner word.\<close>

definition gm_spin :: "choice \<Rightarrow> u64 \<Rightarrow> bool \<Rightarrow> gsync \<Rightarrow> (gsync \<times> mx_pc) option" where
  "gm_spin ch me timed m =
     (if ch = Timeout then Some (m, InSleep timed SlLk)
      else case gm_cas m me of
             Some m' \<Rightarrow> Some (m', InLock timed LkAcq)
           | None \<Rightarrow> Some (m, InLock timed LkSpin))"

fun gm_lock :: "mx_cfg \<Rightarrow> choice \<Rightarrow> u64 \<Rightarrow> bool \<Rightarrow> lock_pc \<Rightarrow> gsync \<Rightarrow> (gsync \<times> mx_pc) option" where
  "gm_lock cfg ch me timed LkRead m =
     (if gm_owner m = me then (let (r, m') = gm_relock timed m in Some (m', Done CLock r))
      else if mx_legacy cfg then Some (m, InLegacy timed LgLk)
      else if gm_owner m = 0 then Some (m, InLock timed LkCas)
      else Some (m, InLock timed LkCont))"
| "gm_lock cfg ch me timed LkCas m =
     (case gm_cas m me of
        Some m' \<Rightarrow> Some (m', InLock timed LkAcq)
      | None \<Rightarrow> Some (m, InLock timed LkCont))"
| "gm_lock cfg ch me timed LkCont m =
     Some (m, if mx_spin cfg then InLock timed LkSpin else InSleep timed SlLk)"
| "gm_lock cfg ch me timed LkSpin m = gm_spin ch me timed m"
| "gm_lock cfg ch me timed LkAcq m = Some (gm_acquired m, Done CLock 0)"

text \<open>\<open>gm_sleep\<close>: the flag of \<open>SlCas\<close> and \<open>SlRelk\<close> is that the last wait timed out.\<close>

fun gm_sleep :: "choice \<Rightarrow> u64 \<Rightarrow> bool \<Rightarrow> sleep_pc \<Rightarrow> gsync \<Rightarrow> (gsync \<times> mx_pc) option" where
  "gm_sleep ch me timed SlLk m =
     map_option (\<lambda>m'. (m', InSleep timed SlInc)) (lk_take me m)"
| "gm_sleep ch me timed SlInc m =
     Some (m\<lparr>gm_waiters := gm_waiters m + 1\<rparr>, InSleep timed (SlCas False))"
| "gm_sleep ch me timed (SlCas r) m =
     (case gm_cas m me of
        Some m' \<Rightarrow> Some (m', InSleep timed (SlDec True))
      | None \<Rightarrow> Some (m, InSleep timed (if r then SlDec False else SlWait)))"
| "gm_sleep ch me timed SlWait m =
     Some (lk_drop (m\<lparr>gm_cv := insert me (gm_cv m)\<rparr>), InSleep timed SlAsleep)"
| "gm_sleep ch me timed SlAsleep m =
     map_option (\<lambda>(r, S). (m\<lparr>gm_cv := S\<rparr>, InSleep timed (SlRelk r))) (cv_return ch timed me (gm_cv m))"
| "gm_sleep ch me timed (SlRelk r) m =
     map_option (\<lambda>m'. (m', InSleep timed (SlCas r))) (lk_take me m)"
| "gm_sleep ch me timed (SlDec got) m =
     Some (m\<lparr>gm_waiters := gm_waiters m - 1\<rparr>, InSleep timed (SlUnlk got))"
| "gm_sleep ch me timed (SlUnlk got) m =
     Some (lk_drop m, if got then InLock timed LkAcq else Done CLock ETIMEDOUT)"

text \<open>\<open>gm_acquire_locked\<close> between the lock and unlock of \<open>lk\<close> in \<open>gm_lock\<close>.\<close>

fun gm_acquire_locked ::
    "mx_cfg \<Rightarrow> choice \<Rightarrow> u64 \<Rightarrow> bool \<Rightarrow> legacy_pc \<Rightarrow> gsync \<Rightarrow> (gsync \<times> mx_pc) option" where
  "gm_acquire_locked cfg ch me timed LgLk m =
     map_option (\<lambda>m'. (m', InLegacy timed (LgTest False))) (lk_take me m)"
| "gm_acquire_locked cfg ch me timed (LgTest r) m =
     (if gm_owner m = 0 then Some (gm_acquired (m\<lparr>gm_owner := me\<rparr>), InLegacy timed (LgUnlk 0))
      else Some (m, InLegacy timed (if r then LgUnlk ETIMEDOUT else LgWait)))"
| "gm_acquire_locked cfg ch me timed LgWait m =
     Some (lk_drop (m\<lparr>gm_waiters := gm_waiters m + 1, gm_cv := insert me (gm_cv m)\<rparr>), InLegacy timed LgAsleep)"
| "gm_acquire_locked cfg ch me timed LgAsleep m =
     map_option (\<lambda>(r, S). (m\<lparr>gm_cv := S\<rparr>, InLegacy timed (LgRelk r))) (cv_return ch timed me (gm_cv m))"
| "gm_acquire_locked cfg ch me timed (LgRelk r) m =
     map_option (\<lambda>m'. (m'\<lparr>gm_waiters := gm_waiters m - 1\<rparr>,
                       InLegacy timed (if mx_extra cfg then LgExtra r else LgTest r))) (lk_take me m)"
| "gm_acquire_locked cfg ch me timed (LgExtra r) m = Some (lk_drop m, InLegacy timed (LgExtraLk r))"
| "gm_acquire_locked cfg ch me timed (LgExtraLk r) m =
     map_option (\<lambda>m'. (m', InLegacy timed (LgTest r))) (lk_take me m)"
| "gm_acquire_locked cfg ch me timed (LgUnlk r) m = Some (lk_drop m, Done CLock r)"

fun gm_trylock :: "mx_cfg \<Rightarrow> u64 \<Rightarrow> try_pc \<Rightarrow> gsync \<Rightarrow> (gsync \<times> mx_pc) option" where
  "gm_trylock cfg me TrLk m =
     (if mx_legacy cfg then map_option (\<lambda>m'. (m', InTry TrRead)) (lk_take me m)
      else Some (m, InTry TrRead))"
| "gm_trylock cfg me TrRead m =
     (if gm_owner m = me then
        (let (r, m') = gm_relock False m in Some (m', InTry (TrUnlk (if r = EDEADLK then EBUSY else r))))
      else if gm_owner m \<noteq> 0 then Some (m, InTry (TrUnlk EBUSY))
      else if mx_legacy cfg then Some (gm_acquired (m\<lparr>gm_owner := me\<rparr>), InTry (TrUnlk 0))
      else Some (m, InTry TrCas))"
| "gm_trylock cfg me TrCas m =
     (case gm_cas m me of
        Some m' \<Rightarrow> Some (m', InTry TrAcq)
      | None \<Rightarrow> Some (m, InTry (TrUnlk EBUSY)))"
| "gm_trylock cfg me TrAcq m = Some (gm_acquired m, InTry (TrUnlk 0))"
| "gm_trylock cfg me (TrUnlk r) m = Some (if mx_legacy cfg then lk_drop m else m, Done CTry r)"

text \<open>\<open>gm_release\<close>: the owner word is cleared before the waiters are read.\<close>

definition gm_release :: "choice \<Rightarrow> u64 \<Rightarrow> unlock_pc \<Rightarrow> gsync \<Rightarrow> (gsync \<times> mx_pc) option" where
  "gm_release ch me pc m =
     (case pc of
        UnStore \<Rightarrow> Some (m\<lparr>gm_owner := 0\<rparr>, InUnlock UnLoad)
      | UnLoad \<Rightarrow> Some (m, if gm_waiters m \<noteq> 0 then InUnlock UnLk else Done CUnlock 0)
      | UnLk \<Rightarrow> map_option (\<lambda>m'. (m', InUnlock UnSig)) (lk_take me m)
      | UnSig \<Rightarrow> map_option (\<lambda>S. (m\<lparr>gm_cv := S\<rparr>, InUnlock UnUnlk)) (cv_signal ch (gm_cv m))
      | UnUnlk \<Rightarrow> Some (lk_drop m, Done CUnlock 0)
      | _ \<Rightarrow> None)"

text \<open>The legacy unlock, under \<open>lk\<close>.\<close>

definition gm_unlock_locked :: "choice \<Rightarrow> u64 \<Rightarrow> gsync \<Rightarrow> (i32 \<times> gsync) option" where
  "gm_unlock_locked ch me m =
     (if gm_owner m \<noteq> me then Some (EPERM, m) else
      let m1 = m\<lparr>gm_count := gm_count m - 1\<rparr> in
      if gm_count m1 = 0
      then map_option (\<lambda>S. (0, m1\<lparr>gm_owner := 0, gm_cv := S\<rparr>)) (cv_signal ch (gm_cv m1))
      else Some (0, m1))"

fun gm_unlock :: "mx_cfg \<Rightarrow> choice \<Rightarrow> u64 \<Rightarrow> unlock_pc \<Rightarrow> gsync \<Rightarrow> (gsync \<times> mx_pc) option" where
  "gm_unlock cfg ch me UnRead m =
     (if mx_legacy cfg then Some (m, InUnlock UnLegLk)
      else if gm_owner m \<noteq> me then Some (m, Done CUnlock EPERM)
      else let m1 = m\<lparr>gm_count := gm_count m - 1\<rparr>
           in Some (m1, if gm_count m1 = 0 then InUnlock UnStore else Done CUnlock 0))"
| "gm_unlock cfg ch me UnLegLk m = map_option (\<lambda>m'. (m', InUnlock UnLegDo)) (lk_take me m)"
| "gm_unlock cfg ch me UnLegDo m =
     map_option (\<lambda>(r, m'). (m', InUnlock (UnLegUnlk r))) (gm_unlock_locked ch me m)"
| "gm_unlock cfg ch me (UnLegUnlk r) m = Some (lk_drop m, Done CUnlock r)"
| "gm_unlock cfg ch me UnStore m = gm_release ch me UnStore m"
| "gm_unlock cfg ch me UnLoad m = gm_release ch me UnLoad m"
| "gm_unlock cfg ch me UnLk m = gm_release ch me UnLk m"
| "gm_unlock cfg ch me UnSig m = gm_release ch me UnSig m"
| "gm_unlock cfg ch me UnUnlk m = gm_release ch me UnUnlk m"

text \<open>
  \<open>gm_cond_wait\<close>; \<open>d\<close> is the saved recursion depth and \<open>r\<close> the result of the host wait. The
  count of waiters is read at \<open>CwNote\<close> under \<open>lk\<close>, which is held by everyone who changes it upwards.
\<close>

fun gm_cond_wait :: "mx_cfg \<Rightarrow> choice \<Rightarrow> u64 \<Rightarrow> bool \<Rightarrow> wait_pc \<Rightarrow> gsync \<Rightarrow> (gsync \<times> mx_pc) option" where
  "gm_cond_wait cfg ch me timed CwRead m =
     Some (m, if gm_owner m \<noteq> me then Done CWait EPERM else InWait timed (CwLk (gm_count m)))"
| "gm_cond_wait cfg ch me timed (CwLk d) m =
     map_option (\<lambda>m'. (m'\<lparr>cn_m := True, gm_count := 0\<rparr>, InWait timed (CwRel d))) (lk_take me m)"
| "gm_cond_wait cfg ch me timed (CwRel d) m = Some (m\<lparr>gm_owner := 0\<rparr>, InWait timed (CwNote d))"
| "gm_cond_wait cfg ch me timed (CwNote d) m =
     (if mx_legacy cfg \<or> gm_waiters m \<noteq> 0
      then map_option (\<lambda>S. (m\<lparr>gm_cv := S\<rparr>, InWait timed (CwWait d))) (cv_signal ch (gm_cv m))
      else Some (m, InWait timed (CwWait d)))"
| "gm_cond_wait cfg ch me timed (CwWait d) m =
     Some (lk_drop (m\<lparr>cn_cv := insert me (cn_cv m)\<rparr>), InWait timed (CwAsleep d))"
| "gm_cond_wait cfg ch me timed (CwAsleep d) m =
     map_option (\<lambda>(t, S). (m\<lparr>cn_cv := S\<rparr>, InWait timed (CwRelk d (if t then ETIMEDOUT else 0))))
       (cv_return ch timed me (cn_cv m))"
| "gm_cond_wait cfg ch me timed (CwRelk d r) m =
     map_option (\<lambda>m'. (m', InWait timed (CwInc d r))) (lk_take me m)"
| "gm_cond_wait cfg ch me timed (CwInc d r) m =
     Some (m\<lparr>gm_waiters := gm_waiters m + 1\<rparr>, InWait timed (CwCas d r))"
| "gm_cond_wait cfg ch me timed (CwCas d r) m =
     (case gm_cas m me of
        Some m' \<Rightarrow> Some (m', InWait timed (CwDec d r))
      | None \<Rightarrow> Some (m, InWait timed (CwMWait d r)))"
| "gm_cond_wait cfg ch me timed (CwMWait d r) m =
     Some (lk_drop (m\<lparr>gm_cv := insert me (gm_cv m)\<rparr>), InWait timed (CwMAsleep d r))"
| "gm_cond_wait cfg ch me timed (CwMAsleep d r) m =
     map_option (\<lambda>(t, S). (m\<lparr>gm_cv := S\<rparr>, InWait timed (CwMRelk d r))) (cv_return ch False me (gm_cv m))"
| "gm_cond_wait cfg ch me timed (CwMRelk d r) m =
     map_option (\<lambda>m'. (m', InWait timed (CwCas d r))) (lk_take me m)"
| "gm_cond_wait cfg ch me timed (CwDec d r) m =
     Some (m\<lparr>gm_waiters := gm_waiters m - 1, gm_count := d\<rparr>, InWait timed (CwUnlk d r))"
| "gm_cond_wait cfg ch me timed (CwUnlk d r) m = Some (lk_drop m, Done CWait r)"

text \<open>\<open>gc_signal\<close>; a broadcast wakes every sleeper. The flag of \<open>SgSend\<close> is that \<open>lk\<close> is held.\<close>

fun gc_signal :: "mx_cfg \<Rightarrow> choice \<Rightarrow> u64 \<Rightarrow> bool \<Rightarrow> signal_pc \<Rightarrow> gsync \<Rightarrow> (gsync \<times> mx_pc) option" where
  "gc_signal cfg ch me wake_all SgLoad m =
     Some (m, InSignal wake_all (if \<not> mx_legacy cfg \<and> cn_m m then SgLk else SgSend False))"
| "gc_signal cfg ch me wake_all SgLk m =
     map_option (\<lambda>m'. (m', InSignal wake_all (SgSend True))) (lk_take me m)"
| "gc_signal cfg ch me wake_all (SgSend locked) m =
     map_option (\<lambda>S. (m\<lparr>cn_cv := S\<rparr>, if locked then InSignal wake_all SgUnlk else Done CSignal 0))
       (if wake_all then Some {} else cv_signal ch (cn_cv m))"
| "gc_signal cfg ch me wake_all SgUnlk m = Some (lk_drop m, Done CSignal 0)"

section \<open>The system of threads\<close>

definition gm_step :: "mx_cfg \<Rightarrow> choice \<Rightarrow> u64 \<Rightarrow> mx_pc \<Rightarrow> gsync \<Rightarrow> (gsync \<times> mx_pc) option" where
  "gm_step cfg ch me pc m =
     (case pc of
        Idle \<Rightarrow> None
      | Done _ _ \<Rightarrow> None
      | InLock timed p \<Rightarrow> gm_lock cfg ch me timed p m
      | InSleep timed p \<Rightarrow> gm_sleep ch me timed p m
      | InLegacy timed p \<Rightarrow> gm_acquire_locked cfg ch me timed p m
      | InTry p \<Rightarrow> gm_trylock cfg me p m
      | InUnlock p \<Rightarrow> gm_unlock cfg ch me p m
      | InWait timed p \<Rightarrow> gm_cond_wait cfg ch me timed p m
      | InSignal wake_all p \<Rightarrow> gc_signal cfg ch me wake_all p m)"

definition gm_entry :: "mx_call \<Rightarrow> bool \<Rightarrow> mx_pc" where
  "gm_entry c flag =
     (case c of CLock \<Rightarrow> InLock flag LkRead | CTry \<Rightarrow> InTry TrLk | CUnlock \<Rightarrow> InUnlock UnRead
      | CWait \<Rightarrow> InWait flag CwRead | CSignal \<Rightarrow> InSignal flag SgLoad)"

record msys =
  ms_m :: gsync
  ms_pc :: "u64 \<Rightarrow> mx_pc"

text \<open>A thread outside every call starts one; a thread inside a call makes a step.\<close>

inductive mx_step :: "mx_cfg \<Rightarrow> u64 set \<Rightarrow> u64 \<Rightarrow> msys \<Rightarrow> msys \<Rightarrow> bool" for cfg T where
  start: "\<lbrakk>t \<in> T; ms_pc s t = Idle \<or> ms_pc s t = Done c0 r0\<rbrakk>
    \<Longrightarrow> mx_step cfg T t s (s\<lparr>ms_pc := (ms_pc s)(t := gm_entry c flag)\<rparr>)"
| run: "\<lbrakk>t \<in> T; gm_step cfg ch t (ms_pc s t) (ms_m s) = Some (m', p')\<rbrakk>
    \<Longrightarrow> mx_step cfg T t s (s\<lparr>ms_m := m', ms_pc := (ms_pc s)(t := p')\<rparr>)"

definition msys0 :: "i32 \<Rightarrow> msys" where
  "msys0 ty = \<lparr>ms_m = gm_fresh ty, ms_pc = (\<lambda>_. Idle)\<rparr>"

inductive mx_reach :: "mx_cfg \<Rightarrow> u64 set \<Rightarrow> i32 \<Rightarrow> msys \<Rightarrow> bool" for cfg T ty where
  init: "mx_reach cfg T ty (msys0 ty)"
| step: "\<lbrakk>mx_reach cfg T ty s; mx_step cfg T t s s'\<rbrakk> \<Longrightarrow> mx_reach cfg T ty s'"

text \<open>A schedule of steps as a function, to evaluate runs on concrete schedules.\<close>

datatype sched = Call u64 mx_call bool | Run u64 choice

fun mx_exec :: "mx_cfg \<Rightarrow> sched list \<Rightarrow> msys \<Rightarrow> msys option" where
  "mx_exec cfg [] s = Some s"
| "mx_exec cfg (Call t c flag # es) s =
     (case ms_pc s t of
        Idle \<Rightarrow> mx_exec cfg es (s\<lparr>ms_pc := (ms_pc s)(t := gm_entry c flag)\<rparr>)
      | Done _ _ \<Rightarrow> mx_exec cfg es (s\<lparr>ms_pc := (ms_pc s)(t := gm_entry c flag)\<rparr>)
      | _ \<Rightarrow> None)"
| "mx_exec cfg (Run t ch # es) s =
     (case gm_step cfg ch t (ms_pc s t) (ms_m s) of
        None \<Rightarrow> None
      | Some (m', p') \<Rightarrow> mx_exec cfg es (s\<lparr>ms_m := m', ms_pc := (ms_pc s)(t := p')\<rparr>))"


text \<open>
  One call as its thread sees it: before each attempt to make a step the other threads act on the
  shared state; an attempt that finds the thread blocked is made again. \<open>None\<close> while the call has
  not returned after the given attempts.
\<close>

fun gm_run :: "mx_cfg \<Rightarrow> u64 \<Rightarrow> mx_pc \<Rightarrow> (choice \<times> (gsync \<Rightarrow> gsync)) list \<Rightarrow> gsync \<Rightarrow> (i32 \<times> gsync) option" where
  "gm_run cfg me pc [] m = (case pc of Done c r \<Rightarrow> Some (r, m) | _ \<Rightarrow> None)"
| "gm_run cfg me pc ((ch, env) # ws) m =
     (case pc of
        Done c r \<Rightarrow> Some (r, m)
      | _ \<Rightarrow> (case gm_step cfg ch me pc (env m) of
                None \<Rightarrow> gm_run cfg me pc ws (env m)
              | Some (m', pc') \<Rightarrow> gm_run cfg me pc' ws m'))"

end
