(* ===== verification/MutexTable.thy ===== *)
theory MutexTable
  imports GuestMutex SyncObjects
begin

unbundle bit_operations_syntax

text \<open>
  How \<open>kernel/sync/ps4_sync.c\<close> finds the host object behind a guest variable: the handle in the
  variable, given on first use; the two-level table of mutexes that is indexed by the slot of the
  handle and read without a lock, with its recycled nodes; and the hash maps of condition
  variables. Then the mutex and condition variable shims on top of both.
\<close>

section \<open>Tables\<close>

text \<open>
  A node is a number below \<open>mt_all\<close>, its fields are \<open>mt_node\<close>. \<open>mt_page\<close> is \<open>g_mtab\<close>: a page is
  missing or maps the low 12 bits of an id to a node. \<open>mt_free\<close> is the stack of nodes to reuse.
\<close>

record mtab =
  mt_page :: "u64 \<Rightarrow> (u64 \<Rightarrow> nat option) option"
  mt_hash :: "u64 \<Rightarrow> (u64 \<times> nat) list"
  mt_free :: "nat list"
  mt_all :: nat
  mt_node :: "nat \<Rightarrow> gmutex"

record cond_node =
  cd_m :: "nat option"
  cd_cv :: "u64 set"

record sync_st =
  ss_vm :: vm
  ss_mem :: guest_mem
  ss_arena :: sync_arena
  ss_mtab :: mtab
  ss_cond :: "u64 \<Rightarrow> (u64 \<times> cond_node) list"

abbreviation (input) MTAB_IDS :: u64 where "MTAB_IDS \<equiv> 0x1000000"
abbreviation (input) MUTEX_MAP_SIZE :: u64 where "MUTEX_MAP_SIZE \<equiv> 1024"
abbreviation (input) COND_MAP_SIZE :: u64 where "COND_MAP_SIZE \<equiv> 1024"

definition mtab0 :: mtab where
  "mtab0 = \<lparr>mt_page = (\<lambda>_. None), mt_hash = (\<lambda>_. []), mt_free = [], mt_all = 0,
            mt_node = (\<lambda>_. gmutex.truncate (gm_fresh 0))\<rparr>"

text \<open>The handle of a guest variable; \<open>None\<close> is the abort when no object can be allocated.\<close>

definition sync_handle :: "bool \<times> bool \<times> bool \<Rightarrow> sync_st \<Rightarrow> u64 \<Rightarrow> bool \<Rightarrow> (u64 \<times> sync_st) option" where
  "sync_handle al st addr fresh =
     (if addr = 0 then Some (0, st) else
      let v = rd_u64 (ss_mem st) addr in
      if \<not> fresh \<and> sync_obj_slot (ss_arena st) v \<noteq> None then Some (v, st) else
      case sync_obj_alloc (fst al) (fst (snd al)) (snd (snd al)) (ss_vm st) (ss_mem st) (ss_arena st) of
        (h, vm', m', a') \<Rightarrow>
          if h = 0 then None
          else Some (h, st\<lparr>ss_vm := vm', ss_mem := wr_u64 m' addr h, ss_arena := a'\<rparr>))"

definition sync_handle_take :: "sync_st \<Rightarrow> u64 \<Rightarrow> u64 \<times> sync_st" where
  "sync_handle_take st addr =
     (if addr = 0 then (0, st) else
      let v = rd_u64 (ss_mem st) addr
      in (if sync_obj_slot (ss_arena st) v \<noteq> None then v else 0, st\<lparr>ss_mem := wr_u64 (ss_mem st) addr 0\<rparr>))"

definition gm_id :: "sync_arena \<Rightarrow> u64 \<Rightarrow> u64" where
  "gm_id a h = (case sync_obj_index a h of Some slot \<Rightarrow> slot + 1 | None \<Rightarrow> 0)"

text \<open>A node off the free stack, or a new one; its host lock and condition variable are kept.\<close>

definition gm_reset :: "i32 \<Rightarrow> gmutex \<Rightarrow> gmutex" where
  "gm_reset ty g = g\<lparr>gm_owner := 0, gm_count := 0, gm_type := ty, gm_waiters := 0\<rparr>"

definition gm_alloc_locked :: "i32 \<Rightarrow> mtab \<Rightarrow> nat \<times> mtab" where
  "gm_alloc_locked ty t =
     (case mt_free t of
        n # r \<Rightarrow> (n, t\<lparr>mt_free := r, mt_node := (mt_node t)(n := gm_reset ty (mt_node t n))\<rparr>)
      | [] \<Rightarrow> (mt_all t, t\<lparr>mt_all := mt_all t + 1,
                            mt_node := (mt_node t)(mt_all t := gmutex.truncate (gm_fresh ty))\<rparr>))"

definition gm_get_locked :: "sync_arena \<Rightarrow> u64 \<Rightarrow> i32 \<Rightarrow> mtab \<Rightarrow> nat \<times> mtab" where
  "gm_get_locked a h ty t =
     (let i = gm_id a h; hi = drop_bit 12 i; lo = i AND 0xfff in
      if i < MTAB_IDS then
        (let pg = (case mt_page t hi of None \<Rightarrow> (\<lambda>_. None) | Some pg \<Rightarrow> pg);
             t1 = t\<lparr>mt_page := (mt_page t)(hi := Some pg)\<rparr>
         in case pg lo of
              Some n \<Rightarrow> (n, t1)
            | None \<Rightarrow> (let (n, t2) = gm_alloc_locked ty t1
                        in (n, t2\<lparr>mt_page := (mt_page t2)(hi := Some (pg(lo := Some n)))\<rparr>)))
      else
        (let b = sync_obj_hash h mod MUTEX_MAP_SIZE in
         case map_of (mt_hash t b) h of
           Some n \<Rightarrow> (n, t)
         | None \<Rightarrow> (let (n, t2) = gm_alloc_locked ty t
                     in (n, t2\<lparr>mt_hash := (mt_hash t2)(b := (h, n) # mt_hash t2 b)\<rparr>))))"

text \<open>The read of the table without the lock.\<close>

definition mt_lookup :: "mtab \<Rightarrow> u64 \<Rightarrow> nat option" where
  "mt_lookup t i = (case mt_page t (drop_bit 12 i) of None \<Rightarrow> None | Some pg \<Rightarrow> pg (i AND 0xfff))"

definition get_host_mutex_with_type :: "bool \<Rightarrow> sync_arena \<Rightarrow> u64 \<Rightarrow> i32 \<Rightarrow> mtab \<Rightarrow> nat \<times> mtab" where
  "get_host_mutex_with_type leg a h ty t =
     (let i = gm_id a h in
      if \<not> leg \<and> i < MTAB_IDS then
        (case mt_lookup t i of Some n \<Rightarrow> (n, t) | None \<Rightarrow> gm_get_locked a h ty t)
      else gm_get_locked a h ty t)"

definition get_host_mutex :: "bool \<Rightarrow> sync_arena \<Rightarrow> u64 \<Rightarrow> mtab \<Rightarrow> nat \<times> mtab" where
  "get_host_mutex leg a h t = get_host_mutex_with_type leg a h 0 t"

definition gm_lookup :: "bool \<Rightarrow> bool \<times> bool \<times> bool \<Rightarrow> sync_st \<Rightarrow> u64 \<Rightarrow> (nat \<times> sync_st) option" where
  "gm_lookup leg al st addr =
     (case sync_handle al st addr False of
        None \<Rightarrow> None
      | Some (h, st1) \<Rightarrow>
          (let (n, t) = get_host_mutex leg (ss_arena st1) h (ss_mtab st1) in Some (n, st1\<lparr>ss_mtab := t\<rparr>)))"

text \<open>The chain of a hash bucket without the node of a handle.\<close>

fun bucket_del :: "u64 \<Rightarrow> (u64 \<times> 'a) list \<Rightarrow> (u64 \<times> 'a) list" where
  "bucket_del h [] = []"
| "bucket_del h (e # es) = (if fst e = h then es else e # bucket_del h es)"

text \<open>Unlinking the mutex of a handle and freeing its node.\<close>

definition mt_unlink :: "sync_arena \<Rightarrow> u64 \<Rightarrow> mtab \<Rightarrow> nat option \<times> mtab" where
  "mt_unlink a h t =
     (let i = gm_id a h; hi = drop_bit 12 i in
      if i < MTAB_IDS then
        (case mt_page t hi of
           None \<Rightarrow> (None, t)
         | Some pg \<Rightarrow> (pg (i AND 0xfff), t\<lparr>mt_page := (mt_page t)(hi := Some (pg(i AND 0xfff := None)))\<rparr>))
      else
        (let b = sync_obj_hash h mod MUTEX_MAP_SIZE
         in (map_of (mt_hash t b) h, t\<lparr>mt_hash := (mt_hash t)(b := bucket_del h (mt_hash t b))\<rparr>)))"

definition mt_destroy :: "sync_arena \<Rightarrow> u64 \<Rightarrow> mtab \<Rightarrow> mtab" where
  "mt_destroy a h t =
     (case mt_unlink a h t of
        (None, t1) \<Rightarrow> t1
      | (Some n, t1) \<Rightarrow> t1\<lparr>mt_free := n # mt_free t1\<rparr>)"


section \<open>Mutex shims\<close>

text \<open>
  The owner id of the calling thread: the guest thread of the context, else the current thread
  \<open>cur\<close> of the runtime (0 when there is none), else the host thread \<open>self\<close>.
\<close>

definition guest_owner_id :: "u64 \<Rightarrow> u64 \<Rightarrow> guest_ctx \<Rightarrow> u64" where
  "guest_owner_id cur self c =
     (if thread_id c \<noteq> 0 then thread_id c else if cur \<noteq> 0 then cur else self OR push_bit 63 1)"

text \<open>What a shim needs from its surroundings: the switches, the host allocations, who calls.\<close>

record sync_env =
  se_cfg :: mx_cfg
  se_alloc :: "bool \<times> bool \<times> bool"
  se_cur :: u64
  se_self :: u64

type_synonym shim_res = "(guest_ctx \<times> sync_st) option"
type_synonym mx_run = "(choice \<times> (gsync \<Rightarrow> gsync)) list"

abbreviation se_me :: "sync_env \<Rightarrow> guest_ctx \<Rightarrow> u64" where
  "se_me e c \<equiv> guest_owner_id (se_cur e) (se_self e) c"

text \<open>A mutex with a condition variable next to it, as the step functions see them.\<close>

definition gs_of :: "gmutex \<Rightarrow> bool \<Rightarrow> u64 set \<Rightarrow> gsync" where
  "gs_of g b S = gmutex.extend g \<lparr>cn_m = b, cn_cv = S\<rparr>"

text \<open>One call on the mutex named by the variable at \<open>addr\<close>; \<open>None\<close> while it has not returned.\<close>

definition mutex_call :: "mx_call \<Rightarrow> bool \<Rightarrow> sync_env \<Rightarrow> mx_run \<Rightarrow> guest_ctx \<Rightarrow> sync_st \<Rightarrow> shim_res" where
  "mutex_call call flag e ws c st =
     (case gm_lookup (mx_legacy (se_cfg e)) (se_alloc e) st (rdi c) of
        None \<Rightarrow> None
      | Some (n, st1) \<Rightarrow>
          (case gm_run (se_cfg e) (se_me e c) (gm_entry call flag) ws (gs_of (mt_node (ss_mtab st1) n) False {}) of
             None \<Rightarrow> None
           | Some (r, g) \<Rightarrow>
               Some (ret_rc c r, st1\<lparr>ss_mtab := (ss_mtab st1)
                       \<lparr>mt_node := (mt_node (ss_mtab st1))(n := gmutex.truncate g)\<rparr>\<rparr>)))"

definition shim_pthread_mutex_init :: "sync_env \<Rightarrow> guest_ctx \<Rightarrow> sync_st \<Rightarrow> shim_res" where
  "shim_pthread_mutex_init e c st =
     (let ty = (if rsi c \<noteq> 0 then rd_u32 (ss_mem st) (rsi c) else 0) in
      case sync_handle (se_alloc e) st (rdi c) True of
        None \<Rightarrow> None
      | Some (h, st1) \<Rightarrow>
          (let t = snd (get_host_mutex_with_type (mx_legacy (se_cfg e)) (ss_arena st1) h ty (ss_mtab st1))
           in Some (ret_rax c 0, st1\<lparr>ss_mtab := t, ss_mem := wr_u32 (ss_mem st1) (h + 0x20) (ty AND 0xff)\<rparr>)))"

definition shim_pthread_mutex_lock :: "sync_env \<Rightarrow> mx_run \<Rightarrow> guest_ctx \<Rightarrow> sync_st \<Rightarrow> shim_res" where
  "shim_pthread_mutex_lock e ws c st = mutex_call CLock False e ws c st"

definition shim_pthread_mutex_trylock :: "sync_env \<Rightarrow> mx_run \<Rightarrow> guest_ctx \<Rightarrow> sync_st \<Rightarrow> shim_res" where
  "shim_pthread_mutex_trylock e ws c st = mutex_call CTry False e ws c st"

definition shim_pthread_mutex_timedlock :: "sync_env \<Rightarrow> mx_run \<Rightarrow> guest_ctx \<Rightarrow> sync_st \<Rightarrow> shim_res" where
  "shim_pthread_mutex_timedlock e ws c st = mutex_call CLock (rsi c \<noteq> 0) e ws c st"

definition shim_pthread_mutex_unlock :: "sync_env \<Rightarrow> mx_run \<Rightarrow> guest_ctx \<Rightarrow> sync_st \<Rightarrow> shim_res" where
  "shim_pthread_mutex_unlock e ws c st = mutex_call CUnlock False e ws c st"

definition shim_pthread_mutex_destroy :: "guest_ctx \<Rightarrow> sync_st \<Rightarrow> guest_ctx \<times> sync_st" where
  "shim_pthread_mutex_destroy c st =
     (let (h, st1) = sync_handle_take st (rdi c)
      in (ret_rax c 0, st1\<lparr>ss_mtab := mt_destroy (ss_arena st1) h (ss_mtab st1),
                           ss_arena := sync_obj_free h (ss_arena st1)\<rparr>))"

definition shim_pthread_mutexattr_init :: "guest_ctx \<Rightarrow> sync_st \<Rightarrow> guest_ctx \<times> sync_st" where
  "shim_pthread_mutexattr_init c st =
     (ret_rax c 0, if rdi c \<noteq> 0 then st\<lparr>ss_mem := wr_u32 (ss_mem st) (rdi c) 0\<rparr> else st)"

definition shim_pthread_mutexattr_settype :: "guest_ctx \<Rightarrow> sync_st \<Rightarrow> guest_ctx \<times> sync_st" where
  "shim_pthread_mutexattr_settype c st =
     (ret_rax c 0, if rdi c \<noteq> 0 then st\<lparr>ss_mem := wr_u32 (ss_mem st) (rdi c) (ucast (rsi c))\<rparr> else st)"

definition shim_pthread_mutexattr_destroy :: "guest_ctx \<Rightarrow> sync_st \<Rightarrow> guest_ctx \<times> sync_st" where
  "shim_pthread_mutexattr_destroy c st = (ret_rax c 0, st)"

section \<open>Condition variable shims\<close>

definition get_host_cond :: "u64 \<Rightarrow> sync_st \<Rightarrow> cond_node \<times> sync_st" where
  "get_host_cond h st =
     (let b = sync_obj_hash h mod COND_MAP_SIZE in
      case map_of (ss_cond st b) h of
        Some n \<Rightarrow> (n, st)
      | None \<Rightarrow> (let n = \<lparr>cd_m = None, cd_cv = {}\<rparr>
                  in (n, st\<lparr>ss_cond := (ss_cond st)(b := (h, n) # ss_cond st b)\<rparr>)))"

text \<open>The node of a handle is changed in place.\<close>

definition cond_put :: "u64 \<Rightarrow> cond_node \<Rightarrow> sync_st \<Rightarrow> sync_st" where
  "cond_put h n st =
     (let b = sync_obj_hash h mod COND_MAP_SIZE
      in st\<lparr>ss_cond := (ss_cond st)(b := map (\<lambda>e. if fst e = h then (h, n) else e) (ss_cond st b))\<rparr>)"

definition shim_pthread_cond_init :: "sync_env \<Rightarrow> guest_ctx \<Rightarrow> sync_st \<Rightarrow> shim_res" where
  "shim_pthread_cond_init e c st =
     (case sync_handle (se_alloc e) st (rdi c) True of
        None \<Rightarrow> None
      | Some (h, st1) \<Rightarrow> Some (ret_rax c 0, snd (get_host_cond h st1)))"

text \<open>
  A wait on the condition variable of \<open>rdi\<close> with the mutex of \<open>rsi\<close>. The variable keeps the mutex
  of the latest wait.
\<close>

definition cond_wait_call :: "bool \<Rightarrow> sync_env \<Rightarrow> mx_run \<Rightarrow> guest_ctx \<Rightarrow> sync_st \<Rightarrow> shim_res" where
  "cond_wait_call timed e ws c st =
     (case sync_handle (se_alloc e) st (rdi c) False of
        None \<Rightarrow> None
      | Some (hc, st1) \<Rightarrow>
          (let (cd, st2) = get_host_cond hc st1 in
           case sync_handle (se_alloc e) st2 (rsi c) False of
             None \<Rightarrow> None
           | Some (hm, st3) \<Rightarrow>
               (let (n, t) = get_host_mutex (mx_legacy (se_cfg e)) (ss_arena st3) hm (ss_mtab st3) in
                case gm_run (se_cfg e) (se_me e c) (gm_entry CWait timed) ws
                       (gs_of (mt_node t n) (cd_m cd = Some n) (cd_cv cd)) of
                  None \<Rightarrow> None
                | Some (r, g) \<Rightarrow>
                    Some (ret_rc c r,
                          cond_put hc \<lparr>cd_m = (if cn_m g then Some n else cd_m cd), cd_cv = cn_cv g\<rparr>
                            (st3\<lparr>ss_mtab := t\<lparr>mt_node := (mt_node t)(n := gmutex.truncate g)\<rparr>\<rparr>)))))"

definition shim_pthread_cond_wait :: "sync_env \<Rightarrow> mx_run \<Rightarrow> guest_ctx \<Rightarrow> sync_st \<Rightarrow> shim_res" where
  "shim_pthread_cond_wait e ws c st = cond_wait_call False e ws c st"

definition shim_pthread_cond_timedwait :: "sync_env \<Rightarrow> mx_run \<Rightarrow> guest_ctx \<Rightarrow> sync_st \<Rightarrow> shim_res" where
  "shim_pthread_cond_timedwait e ws c st = cond_wait_call (rdx c \<noteq> 0) e ws c st"

text \<open>A signal uses the host lock of the mutex of the latest wait; without one, no lock.\<close>

definition cond_signal_call :: "bool \<Rightarrow> sync_env \<Rightarrow> mx_run \<Rightarrow> guest_ctx \<Rightarrow> sync_st \<Rightarrow> shim_res" where
  "cond_signal_call wake_all e ws c st =
     (case sync_handle (se_alloc e) st (rdi c) False of
        None \<Rightarrow> None
      | Some (h, st1) \<Rightarrow>
          (let (cd, st2) = get_host_cond h st1;
               g0 = (case cd_m cd of Some n \<Rightarrow> mt_node (ss_mtab st2) n | None \<Rightarrow> gmutex.truncate (gm_fresh 0)) in
           case gm_run (se_cfg e) (se_me e c) (gm_entry CSignal wake_all) ws (gs_of g0 (cd_m cd \<noteq> None) (cd_cv cd)) of
             None \<Rightarrow> None
           | Some (r, g) \<Rightarrow>
               Some (ret_rc c r,
                     cond_put h (cd\<lparr>cd_cv := cn_cv g\<rparr>)
                       (case cd_m cd of
                          Some n \<Rightarrow> st2\<lparr>ss_mtab := (ss_mtab st2)
                             \<lparr>mt_node := (mt_node (ss_mtab st2))(n := gmutex.truncate g)\<rparr>\<rparr>
                        | None \<Rightarrow> st2))))"

definition shim_pthread_cond_signal :: "sync_env \<Rightarrow> mx_run \<Rightarrow> guest_ctx \<Rightarrow> sync_st \<Rightarrow> shim_res" where
  "shim_pthread_cond_signal e ws c st = cond_signal_call False e ws c st"

definition shim_pthread_cond_broadcast :: "sync_env \<Rightarrow> mx_run \<Rightarrow> guest_ctx \<Rightarrow> sync_st \<Rightarrow> shim_res" where
  "shim_pthread_cond_broadcast e ws c st = cond_signal_call True e ws c st"

definition shim_pthread_cond_destroy :: "guest_ctx \<Rightarrow> sync_st \<Rightarrow> guest_ctx \<times> sync_st" where
  "shim_pthread_cond_destroy c st =
     (let (h, st1) = sync_handle_take st (rdi c); b = sync_obj_hash h mod COND_MAP_SIZE
      in (ret_rax c 0, st1\<lparr>ss_cond := (ss_cond st1)(b := bucket_del h (ss_cond st1 b)),
                           ss_arena := sync_obj_free h (ss_arena st1)\<rparr>))"

section \<open>scePthread variants\<close>

text \<open>Failures become kernel error codes.\<close>

definition SCE_PTHREAD_ERR :: "guest_ctx \<Rightarrow> guest_ctx" where
  "SCE_PTHREAD_ERR c =
     (let err = (ucast (rax c) :: u32)
      in if err \<noteq> 0 \<and> err < 0x100 then c\<lparr>rax := 0x80020000 OR ucast err\<rparr> else c)"

abbreviation sce_res :: "shim_res \<Rightarrow> shim_res" where
  "sce_res r \<equiv> map_option (apfst SCE_PTHREAD_ERR) r"

definition shim_scePthreadMutexInit :: "sync_env \<Rightarrow> guest_ctx \<Rightarrow> sync_st \<Rightarrow> shim_res" where
  "shim_scePthreadMutexInit e c st = sce_res (shim_pthread_mutex_init e c st)"

definition shim_scePthreadMutexLock :: "sync_env \<Rightarrow> mx_run \<Rightarrow> guest_ctx \<Rightarrow> sync_st \<Rightarrow> shim_res" where
  "shim_scePthreadMutexLock e ws c st = sce_res (shim_pthread_mutex_lock e ws c st)"

definition shim_scePthreadMutexTrylock :: "sync_env \<Rightarrow> mx_run \<Rightarrow> guest_ctx \<Rightarrow> sync_st \<Rightarrow> shim_res" where
  "shim_scePthreadMutexTrylock e ws c st = sce_res (shim_pthread_mutex_trylock e ws c st)"

text \<open>A time of 0 microseconds is a trylock.\<close>

definition shim_scePthreadMutexTimedlock :: "sync_env \<Rightarrow> mx_run \<Rightarrow> guest_ctx \<Rightarrow> sync_st \<Rightarrow> shim_res" where
  "shim_scePthreadMutexTimedlock e ws c st =
     sce_res (if rsi c = 0 then mutex_call CTry False e ws c st else mutex_call CLock True e ws c st)"

definition shim_scePthreadMutexUnlock :: "sync_env \<Rightarrow> mx_run \<Rightarrow> guest_ctx \<Rightarrow> sync_st \<Rightarrow> shim_res" where
  "shim_scePthreadMutexUnlock e ws c st = sce_res (shim_pthread_mutex_unlock e ws c st)"

definition shim_scePthreadMutexDestroy :: "guest_ctx \<Rightarrow> sync_st \<Rightarrow> guest_ctx \<times> sync_st" where
  "shim_scePthreadMutexDestroy c st = apfst SCE_PTHREAD_ERR (shim_pthread_mutex_destroy c st)"

definition shim_scePthreadMutexattrInit :: "guest_ctx \<Rightarrow> sync_st \<Rightarrow> guest_ctx \<times> sync_st" where
  "shim_scePthreadMutexattrInit c st = apfst SCE_PTHREAD_ERR (shim_pthread_mutexattr_init c st)"

definition shim_scePthreadMutexattrDestroy :: "guest_ctx \<Rightarrow> sync_st \<Rightarrow> guest_ctx \<times> sync_st" where
  "shim_scePthreadMutexattrDestroy c st = apfst SCE_PTHREAD_ERR (shim_pthread_mutexattr_destroy c st)"

definition shim_scePthreadMutexattrSettype :: "guest_ctx \<Rightarrow> sync_st \<Rightarrow> guest_ctx \<times> sync_st" where
  "shim_scePthreadMutexattrSettype c st = apfst SCE_PTHREAD_ERR (shim_pthread_mutexattr_settype c st)"

definition shim_scePthreadMutexattrSetprotocol :: "guest_ctx \<Rightarrow> guest_ctx" where
  "shim_scePthreadMutexattrSetprotocol c = ret_rax c 0"

definition shim_pthread_mutexattr_setprotocol :: "guest_ctx \<Rightarrow> guest_ctx" where
  "shim_pthread_mutexattr_setprotocol c = ret_rax c 0"

definition shim_scePthreadCondInit :: "sync_env \<Rightarrow> guest_ctx \<Rightarrow> sync_st \<Rightarrow> shim_res" where
  "shim_scePthreadCondInit e c st = sce_res (shim_pthread_cond_init e c st)"

definition shim_scePthreadCondDestroy :: "guest_ctx \<Rightarrow> sync_st \<Rightarrow> guest_ctx \<times> sync_st" where
  "shim_scePthreadCondDestroy c st = apfst SCE_PTHREAD_ERR (shim_pthread_cond_destroy c st)"

definition shim_scePthreadCondSignal :: "sync_env \<Rightarrow> mx_run \<Rightarrow> guest_ctx \<Rightarrow> sync_st \<Rightarrow> shim_res" where
  "shim_scePthreadCondSignal e ws c st = sce_res (shim_pthread_cond_signal e ws c st)"

definition shim_scePthreadCondBroadcast :: "sync_env \<Rightarrow> mx_run \<Rightarrow> guest_ctx \<Rightarrow> sync_st \<Rightarrow> shim_res" where
  "shim_scePthreadCondBroadcast e ws c st = sce_res (shim_pthread_cond_broadcast e ws c st)"

definition shim_scePthreadCondWait :: "sync_env \<Rightarrow> mx_run \<Rightarrow> guest_ctx \<Rightarrow> sync_st \<Rightarrow> shim_res" where
  "shim_scePthreadCondWait e ws c st = sce_res (shim_pthread_cond_wait e ws c st)"

definition shim_scePthreadCondTimedwait :: "sync_env \<Rightarrow> mx_run \<Rightarrow> guest_ctx \<Rightarrow> sync_st \<Rightarrow> shim_res" where
  "shim_scePthreadCondTimedwait e ws c st = sce_res (cond_wait_call True e ws c st)"

definition shim_condattr :: "guest_ctx \<Rightarrow> guest_ctx" where
  "shim_condattr c = ret_rax c 0"

text \<open>
  The deadline of a relative time in microseconds, from the current time; \<open>time_t\<close> and \<open>long\<close>
  are 64 bits wide.
\<close>

definition abs_from_usec :: "i64 \<times> i64 \<Rightarrow> u64 \<Rightarrow> i64 \<times> i64" where
  "abs_from_usec now usec =
     (let sec = fst now + usec div 1000000; ns = snd now + (usec mod 1000000) * 1000
      in if 1000000000 \<le> sint ns then (sec + 1, ns - 1000000000) else (sec, ns))"

end
