(* ===== verification/MutexInv.thy ===== *)
theory MutexInv
  imports GuestMutex
begin

unbundle bit_operations_syntax

text \<open>
  The invariant of the guest mutexes. For every program counter it is fixed whether the thread
  holds the host lock, is counted as a waiter, and owns the mutex; the shared words agree with
  that. \<open>mx_awake\<close> is the wake-up argument of the source: while the mutex is free and a thread
  sleeps for it, some thread is on its way to wake a sleeper or to take the mutex.
\<close>

section \<open>What a program counter says\<close>

fun sl_holds :: "sleep_pc \<Rightarrow> bool" where
  "sl_holds SlInc = True" | "sl_holds (SlCas _) = True" | "sl_holds SlWait = True"
| "sl_holds (SlDec _) = True" | "sl_holds (SlUnlk _) = True" | "sl_holds _ = False"

fun lg_holds :: "legacy_pc \<Rightarrow> bool" where
  "lg_holds (LgTest _) = True" | "lg_holds LgWait = True" | "lg_holds (LgExtra _) = True"
| "lg_holds (LgUnlk _) = True" | "lg_holds _ = False"

fun un_holds :: "unlock_pc \<Rightarrow> bool" where
  "un_holds UnSig = True" | "un_holds UnUnlk = True" | "un_holds UnLegDo = True"
| "un_holds (UnLegUnlk _) = True" | "un_holds _ = False"

fun cw_holds :: "wait_pc \<Rightarrow> bool" where
  "cw_holds (CwRel _) = True" | "cw_holds (CwNote _) = True" | "cw_holds (CwWait _) = True"
| "cw_holds (CwInc _ _) = True" | "cw_holds (CwCas _ _) = True" | "cw_holds (CwMWait _ _) = True"
| "cw_holds (CwDec _ _) = True" | "cw_holds (CwUnlk _ _) = True" | "cw_holds _ = False"

fun sg_holds :: "signal_pc \<Rightarrow> bool" where
  "sg_holds (SgSend b) = b" | "sg_holds SgUnlk = True" | "sg_holds _ = False"

fun holds_lk :: "bool \<Rightarrow> mx_pc \<Rightarrow> bool" where
  "holds_lk leg (InSleep _ p) = sl_holds p"
| "holds_lk leg (InLegacy _ p) = lg_holds p"
| "holds_lk leg (InTry p) = (leg \<and> p \<noteq> TrLk)"
| "holds_lk leg (InUnlock p) = un_holds p"
| "holds_lk leg (InWait _ p) = cw_holds p"
| "holds_lk leg (InSignal _ p) = sg_holds p"
| "holds_lk leg _ = False"

fun sl_counted :: "sleep_pc \<Rightarrow> bool" where
  "sl_counted SlLk = False" | "sl_counted SlInc = False" | "sl_counted (SlUnlk _) = False"
| "sl_counted _ = True"

fun cw_counted :: "wait_pc \<Rightarrow> bool" where
  "cw_counted (CwCas _ _) = True" | "cw_counted (CwMWait _ _) = True" | "cw_counted (CwMAsleep _ _) = True"
| "cw_counted (CwMRelk _ _) = True" | "cw_counted (CwDec _ _) = True" | "cw_counted _ = False"

fun counted :: "mx_pc \<Rightarrow> bool" where
  "counted (InSleep _ p) = sl_counted p"
| "counted (InLegacy _ p) = (case p of LgAsleep \<Rightarrow> True | LgRelk _ \<Rightarrow> True | _ \<Rightarrow> False)"
| "counted (InWait _ p) = cw_counted p"
| "counted _ = False"

text \<open>\<open>owns\<close>: the thread took the mutex in this call, or has not given it up yet.\<close>

fun owns :: "mx_pc \<Rightarrow> bool" where
  "owns (InLock _ p) = (p = LkAcq)"
| "owns (InSleep _ p) = (p = SlDec True \<or> p = SlUnlk True)"
| "owns (InLegacy _ p) = (p = LgUnlk 0)"
| "owns (InTry p) = (p = TrAcq \<or> p = TrUnlk 0)"
| "owns (InUnlock p) = (p = UnStore)"
| "owns (InWait _ p) = (case p of CwLk _ \<Rightarrow> True | CwRel _ \<Rightarrow> True | CwDec _ _ \<Rightarrow> True | CwUnlk _ _ \<Rightarrow> True | _ \<Rightarrow> False)"
| "owns (Done c r) = ((c = CLock \<or> c = CTry) \<and> r = 0 \<or> c = CWait \<and> r \<noteq> EPERM)"
| "owns _ = False"

text \<open>\<open>scheme\<close>: the program counters of the two schemes do not mix.\<close>

fun scheme :: "bool \<Rightarrow> mx_pc \<Rightarrow> bool" where
  "scheme leg (InLock _ p) = (leg \<longrightarrow> p = LkRead)"
| "scheme leg (InSleep _ p) = (\<not> leg)"
| "scheme leg (InLegacy _ p) = leg"
| "scheme leg (InTry p) = (leg \<longrightarrow> p \<noteq> TrCas \<and> p \<noteq> TrAcq)"
| "scheme leg (InUnlock p) = (case p of UnRead \<Rightarrow> True | UnLegLk \<Rightarrow> leg | UnLegDo \<Rightarrow> leg | UnLegUnlk _ \<Rightarrow> leg | _ \<Rightarrow> \<not> leg)"
| "scheme leg _ = True"

text \<open>Asleep on the condition variable of the mutex, and about to fall asleep there.\<close>

fun sleeps_cv :: "mx_pc \<Rightarrow> bool" where
  "sleeps_cv (InSleep _ p) = (p = SlAsleep)"
| "sleeps_cv (InLegacy _ p) = (p = LgAsleep)"
| "sleeps_cv (InWait _ p) = (case p of CwMAsleep _ _ \<Rightarrow> True | _ \<Rightarrow> False)"
| "sleeps_cv _ = False"

fun near_cv :: "mx_pc \<Rightarrow> bool" where
  "near_cv (InSleep _ p) = (p = SlWait)"
| "near_cv (InLegacy _ p) = (p = LgWait)"
| "near_cv (InWait _ p) = (case p of CwMWait _ _ \<Rightarrow> True | _ \<Rightarrow> False)"
| "near_cv _ = False"

fun sleeps_cond :: "mx_pc \<Rightarrow> bool" where
  "sleeps_cond (InWait _ p) = (case p of CwAsleep _ \<Rightarrow> True | _ \<Rightarrow> False)"
| "sleeps_cond _ = False"

text \<open>On the way to wake a sleeper, or to try to take the mutex under \<open>lk\<close>.\<close>

fun waking :: "mx_pc \<Rightarrow> bool" where
  "waking (InSleep _ p) = (case p of SlCas _ \<Rightarrow> True | SlRelk _ \<Rightarrow> True | _ \<Rightarrow> False)"
| "waking (InLegacy _ p) = (case p of LgTest _ \<Rightarrow> True | LgRelk _ \<Rightarrow> True | LgExtra _ \<Rightarrow> True | LgExtraLk _ \<Rightarrow> True | _ \<Rightarrow> False)"
| "waking (InUnlock p) = (p = UnLoad \<or> p = UnLk \<or> p = UnSig)"
| "waking (InWait _ p) = (case p of CwNote _ \<Rightarrow> True | CwCas _ _ \<Rightarrow> True | CwMRelk _ _ \<Rightarrow> True | _ \<Rightarrow> False)"
| "waking _ = False"

section \<open>The invariant\<close>

definition mx_inv :: "mx_cfg \<Rightarrow> u64 set \<Rightarrow> msys \<Rightarrow> bool" where
  "mx_inv cfg T s \<longleftrightarrow>
     (\<forall>t. t \<notin> T \<longrightarrow> ms_pc s t = Idle)
     \<and> (\<forall>t. scheme (mx_legacy cfg) (ms_pc s t))
     \<and> (\<forall>t. holds_lk (mx_legacy cfg) (ms_pc s t) \<longleftrightarrow> gm_lk (ms_m s) = Some t)
     \<and> (\<forall>t. owns (ms_pc s t) \<longrightarrow> gm_owner (ms_m s) = t)
     \<and> (\<forall>t b d. ms_pc s t = InWait b (CwLk d) \<longrightarrow> gm_count (ms_m s) = d)
     \<and> (\<forall>t \<in> gm_cv (ms_m s). sleeps_cv (ms_pc s t))
     \<and> (\<forall>t \<in> cn_cv (ms_m s). sleeps_cond (ms_pc s t))
     \<and> gm_waiters (ms_m s) = of_nat (card {t \<in> T. counted (ms_pc s t)})"

definition mx_awake :: "msys \<Rightarrow> bool" where
  "mx_awake s \<longleftrightarrow>
     (gm_owner (ms_m s) = 0 \<and> (\<exists>t. t \<in> gm_cv (ms_m s) \<or> near_cv (ms_pc s t))
      \<longrightarrow> (\<exists>u. waking (ms_pc s u) \<or> sleeps_cv (ms_pc s u) \<and> u \<notin> gm_cv (ms_m s)))"

lemma count_upd:
  fixes f :: "u64 \<Rightarrow> mx_pc"
  assumes "finite T" and "t \<in> T"
  shows "of_nat (card {u \<in> T. P ((f(t := x)) u)})
    = of_nat (card {u \<in> T. P (f u)}) + (if P x then 1 else 0) - (if P (f t) then 1 else (0 :: u32))"
proof -
  have one: "card {u \<in> T. P (g u)} = card {u \<in> T - {t}. P (g u)} + (if P (g t) then 1 else 0)"
    for g :: "u64 \<Rightarrow> mx_pc"
  proof (cases "P (g t)")
    case True
    then have "{u \<in> T. P (g u)} = insert t {u \<in> T - {t}. P (g u)}" using assms(2) by auto
    then show ?thesis using True assms(1) by simp
  next
    case False
    then have "{u \<in> T. P (g u)} = {u \<in> T - {t}. P (g u)}" by auto
    then show ?thesis using False by simp
  qed
  have same: "{u \<in> T - {t}. P ((f(t := x)) u)} = {u \<in> T - {t}. P (f u)}" by auto
  show ?thesis unfolding one [of "f(t := x)"] one [of f] same by simp
qed

section \<open>One step\<close>

text \<open>
  What a step of thread \<open>t\<close> may do to the shared words, given that the words agree with its
  program counter before: the host lock and the owner word are taken when free and given back by
  their holder only, the count is the owner's, and the number of waiters follows \<open>counted\<close>.
\<close>

definition pc_ok :: "bool \<Rightarrow> u64 \<Rightarrow> mx_pc \<Rightarrow> gsync \<Rightarrow> bool" where
  "pc_ok leg t p m \<longleftrightarrow>
     scheme leg p \<and> (holds_lk leg p \<longleftrightarrow> gm_lk m = Some t) \<and> (owns p \<longrightarrow> gm_owner m = t)
     \<and> (\<forall>b d. p = InWait b (CwLk d) \<longrightarrow> gm_count m = d)
     \<and> (t \<in> gm_cv m \<longrightarrow> sleeps_cv p) \<and> (t \<in> cn_cv m \<longrightarrow> sleeps_cond p)"

definition words_step :: "u64 \<Rightarrow> mx_pc \<Rightarrow> gsync \<Rightarrow> mx_pc \<Rightarrow> gsync \<Rightarrow> bool" where
  "words_step t p m p' m' \<longleftrightarrow>
     (gm_lk m' = gm_lk m \<or> gm_lk m = None \<and> gm_lk m' = Some t \<or> gm_lk m = Some t \<and> gm_lk m' = None)
     \<and> (gm_owner m' = gm_owner m \<or> gm_owner m = 0 \<and> gm_owner m' = t \<or> gm_owner m = t \<and> gm_owner m' = 0)
     \<and> (gm_count m' = gm_count m \<or> gm_owner m = t \<or> gm_owner m' = t)
     \<and> gm_cv m' - {t} \<subseteq> gm_cv m \<and> cn_cv m' - {t} \<subseteq> cn_cv m
     \<and> gm_type m' = gm_type m
     \<and> gm_waiters m' = gm_waiters m + (if counted p' then 1 else 0) - (if counted p then 1 else 0)"

definition step_good :: "bool \<Rightarrow> u64 \<Rightarrow> mx_pc \<Rightarrow> gsync \<Rightarrow> mx_pc \<Rightarrow> gsync \<Rightarrow> bool" where
  "step_good leg t p m p' m' \<longleftrightarrow> (pc_ok leg t p m \<longrightarrow> pc_ok leg t p' m' \<and> words_step t p m p' m')"

lemmas step_simps = step_good_def pc_ok_def words_step_def gm_cas_def lk_take_def gm_acquired_def
  gm_relock_def Let_def

lemma gm_lock_good:
  "gm_lock cfg ch t b q m = Some (m', p') \<Longrightarrow> t \<noteq> 0 \<Longrightarrow> step_good (mx_legacy cfg) t (InLock b q) m p' m'"
  by (cases q) (auto simp: step_simps gm_spin_def split: if_splits option.splits prod.splits)

lemma gm_sleep_good:
  "gm_sleep ch t b q m = Some (m', p') \<Longrightarrow> t \<noteq> 0 \<Longrightarrow> step_good leg t (InSleep b q) m p' m'"
  by (cases q) (auto simp: step_simps cv_return_def split: if_splits option.splits prod.splits choice.splits)

lemma gm_legacy_good:
  "gm_acquire_locked cfg ch t b q m = Some (m', p') \<Longrightarrow> t \<noteq> 0
    \<Longrightarrow> step_good (mx_legacy cfg) t (InLegacy b q) m p' m'"
  by (cases q) (auto simp: step_simps cv_return_def split: if_splits option.splits prod.splits choice.splits)

lemma gm_try_good:
  "gm_trylock cfg t q m = Some (m', p') \<Longrightarrow> t \<noteq> 0 \<Longrightarrow> step_good (mx_legacy cfg) t (InTry q) m p' m'"
  by (cases q) (auto simp: step_simps split: if_splits option.splits prod.splits)

lemma gm_unlock_good:
  "gm_unlock cfg ch t q m = Some (m', p') \<Longrightarrow> t \<noteq> 0 \<Longrightarrow> step_good (mx_legacy cfg) t (InUnlock q) m p' m'"
  by (cases q) (auto simp: step_simps gm_release_def gm_unlock_locked_def cv_signal_def
      split: if_splits option.splits prod.splits choice.splits)

lemma gm_wait_good:
  "gm_cond_wait cfg ch t b q m = Some (m', p') \<Longrightarrow> t \<noteq> 0 \<Longrightarrow> step_good (mx_legacy cfg) t (InWait b q) m p' m'"
  by (cases q) (auto simp: step_simps cv_signal_def cv_return_def
      split: if_splits option.splits prod.splits choice.splits)

lemma gc_signal_good:
  "gc_signal cfg ch t b q m = Some (m', p') \<Longrightarrow> t \<noteq> 0 \<Longrightarrow> step_good (mx_legacy cfg) t (InSignal b q) m p' m'"
  by (cases q) (auto simp: step_simps cv_signal_def split: if_splits option.splits prod.splits choice.splits)

lemma gm_step_good:
  "gm_step cfg ch t p m = Some (m', p') \<Longrightarrow> t \<noteq> 0 \<Longrightarrow> step_good (mx_legacy cfg) t p m p' m'"
  by (cases p) (auto simp: gm_step_def intro: gm_lock_good gm_sleep_good gm_legacy_good gm_try_good
      gm_unlock_good gm_wait_good gc_signal_good)


lemma gm_entry_ok: "pc_ok leg t p m \<Longrightarrow> p = Idle \<or> p = Done c0 r0 \<Longrightarrow> pc_ok leg t (gm_entry c flag) m"
  by (cases c) (auto simp: pc_ok_def gm_entry_def)

lemma gm_entry_counted: "\<not> counted (gm_entry c flag)" "\<not> near_cv (gm_entry c flag)"
  by (cases c; simp add: gm_entry_def)+

lemma mx_inv_pc_ok: "mx_inv cfg T s \<Longrightarrow> pc_ok (mx_legacy cfg) t (ms_pc s t) (ms_m s)"
  unfolding mx_inv_def pc_ok_def by blast

text \<open>A thread whose words are untouched by the step of another thread stays consistent.\<close>

lemma other_pc_ok:
  assumes w: "words_step t p m p' m'" and q: "pc_ok leg u q m" and ut: "u \<noteq> t" "u = 0 \<Longrightarrow> q = Idle"
  shows "pc_ok leg u q m'"
proof -
  have o: "owns q \<Longrightarrow> gm_owner m = u \<and> u \<noteq> 0" using q ut(2) by (auto simp: pc_ok_def)
  have o': "gm_owner m' = u" if "owns q" using o [OF that] w ut(1) by (auto simp: words_step_def)
  have c: "gm_count m' = gm_count m" if "owns q"
    using o [OF that] o' [OF that] w ut(1) by (auto simp: words_step_def)
  have l: "holds_lk leg q \<longleftrightarrow> gm_lk m' = Some u"
    using q w ut(1) by (auto simp: pc_ok_def words_step_def)
  have v: "u \<in> gm_cv m' \<Longrightarrow> u \<in> gm_cv m" "u \<in> cn_cv m' \<Longrightarrow> u \<in> cn_cv m"
    using w ut(1) by (auto simp: words_step_def)
  have d: "\<forall>b d. q = InWait b (CwLk d) \<longrightarrow> gm_count m' = d" using q c by (auto simp: pc_ok_def)
  show ?thesis using q o' l v d unfolding pc_ok_def by blast
qed

lemma mx_inv_upd:
  assumes "mx_inv cfg T s" and "finite T" and "t \<in> T" and "t \<noteq> 0"
    and "step_good (mx_legacy cfg) t (ms_pc s t) (ms_m s) p' m'" and "0 \<notin> T"
  shows "mx_inv cfg T (s\<lparr>ms_m := m', ms_pc := (ms_pc s)(t := p')\<rparr>)"
proof -
  let ?L = "mx_legacy cfg" and ?s = "s\<lparr>ms_m := m', ms_pc := (ms_pc s)(t := p')\<rparr>"
  have ok: "pc_ok ?L t (ms_pc s t) (ms_m s)" by (rule mx_inv_pc_ok [OF assms(1)])
  then have ok': "pc_ok ?L t p' m'" and w: "words_step t (ms_pc s t) (ms_m s) p' m'"
    using assms(5) unfolding step_good_def by blast+
  have z: "ms_pc s 0 = Idle" using assms(1,6) by (auto simp: mx_inv_def)
  have all: "pc_ok ?L u (ms_pc ?s u) m'" for u
    using other_pc_ok [OF w mx_inv_pc_ok [OF assms(1), of u]] ok' z by simp
  have "gm_waiters m' = of_nat (card {u \<in> T. counted (ms_pc ?s u)})"
    using assms(1) w count_upd [OF assms(2,3), of counted "ms_pc s" p']
    by (simp add: mx_inv_def words_step_def)
  moreover have "\<forall>u. u \<notin> T \<longrightarrow> ms_pc ?s u = Idle" using assms(1,3) by (auto simp: mx_inv_def)
  ultimately show ?thesis using all unfolding mx_inv_def pc_ok_def by (simp del: fun_upd_apply)
qed

lemma mx_inv_step:
  assumes "mx_inv cfg T s" and "mx_step cfg T t s s'" and "finite T" and "0 \<notin> T"
  shows "mx_inv cfg T s'"
  using assms(2)
proof cases
  case (start c0 r0 c flag)
  have "step_good (mx_legacy cfg) t (ms_pc s t) (ms_m s) (gm_entry c flag) (ms_m s)"
    using start gm_entry_ok [of "mx_legacy cfg" t "ms_pc s t" "ms_m s" c0 r0 c flag] gm_entry_counted
    by (auto simp: step_good_def words_step_def)
  from mx_inv_upd [OF assms(1,3) start(2) _ this assms(4)] show ?thesis
    using start assms(4) by auto
next
  case (run ch m' p')
  have "t \<noteq> 0" using run assms(4) by auto
  from mx_inv_upd [OF assms(1,3) run(2) this gm_step_good [OF run(3) this] assms(4)] show ?thesis
    using run by simp
qed

lemma mx_inv_init: "mx_inv cfg T (msys0 ty)"
  by (simp add: mx_inv_def msys0_def gm_fresh_def)

theorem mx_reach_inv:
  assumes "mx_reach cfg T ty s" and "finite T" and "0 \<notin> T"
  shows "mx_inv cfg T s"
  using assms(1) by induction (use assms(2,3) mx_inv_init mx_inv_step in blast)+

section \<open>No wake-up is lost\<close>

lemma near_cv_holds: "near_cv p \<Longrightarrow> holds_lk leg p"
  by (cases p) (auto split: wait_pc.splits)

lemma sleeps_cv_counted: "sleeps_cv p \<Longrightarrow> counted p"
  by (cases p) (auto split: wait_pc.splits)

lemma near_cv_counted: "near_cv p \<Longrightarrow> scheme False p \<Longrightarrow> counted p"
  by (cases p) (auto split: wait_pc.splits)

text \<open>
  A step that leaves the mutex free puts nobody to sleep; and a thread that was on the way to
  wake or take still is, unless it saw no waiter, or it signalled under \<open>lk\<close>.
\<close>

definition wake_kept :: "bool \<Rightarrow> u64 \<Rightarrow> mx_pc \<Rightarrow> gsync \<Rightarrow> mx_pc \<Rightarrow> gsync \<Rightarrow> bool" where
  "wake_kept leg t p m p' m' \<longleftrightarrow>
     (pc_ok leg t p m \<longrightarrow> gm_owner m' = 0 \<longrightarrow>
      (near_cv p' \<or> t \<in> gm_cv m' \<longrightarrow> near_cv p \<or> t \<in> gm_cv m)
      \<and> (gm_owner m \<noteq> 0 \<or> waking p \<or> sleeps_cv p \<and> t \<notin> gm_cv m \<longrightarrow>
           waking p' \<or> sleeps_cv p' \<and> t \<notin> gm_cv m'
           \<or> \<not> leg \<and> gm_waiters m = 0
           \<or> \<not> near_cv p' \<and> gm_lk m = Some t \<and> (gm_cv m' = {} \<or> (\<exists>w \<in> gm_cv m. w \<notin> gm_cv m' \<and> w \<noteq> t))))"

lemmas wake_simps = wake_kept_def pc_ok_def gm_cas_def lk_take_def gm_acquired_def gm_relock_def Let_def
  cv_signal_def cv_return_def

lemma gm_step_wake:
  "gm_step cfg ch t p m = Some (m', p') \<Longrightarrow> t \<noteq> 0 \<Longrightarrow> wake_kept (mx_legacy cfg) t p m p' m'"
proof (cases p)
  case (InLock b q)
  assume "gm_step cfg ch t p m = Some (m', p')" "t \<noteq> 0"
  with InLock show ?thesis
    by (cases q) (auto simp: gm_step_def gm_spin_def wake_simps split: if_splits option.splits prod.splits)
next
  case (InSleep b q)
  assume "gm_step cfg ch t p m = Some (m', p')" "t \<noteq> 0"
  with InSleep show ?thesis
    by (cases q) (auto simp: gm_step_def wake_simps split: if_splits option.splits prod.splits choice.splits)
next
  case (InLegacy b q)
  assume "gm_step cfg ch t p m = Some (m', p')" "t \<noteq> 0"
  with InLegacy show ?thesis
    by (cases q) (auto simp: gm_step_def wake_simps split: if_splits option.splits prod.splits choice.splits)
next
  case (InTry q)
  assume "gm_step cfg ch t p m = Some (m', p')" "t \<noteq> 0"
  with InTry show ?thesis
    by (cases q) (auto simp: gm_step_def wake_simps split: if_splits option.splits prod.splits)
next
  case (InUnlock q)
  assume "gm_step cfg ch t p m = Some (m', p')" "t \<noteq> 0"
  with InUnlock show ?thesis
    by (cases q) (auto simp: gm_step_def gm_release_def gm_unlock_locked_def wake_simps
        split: if_splits option.splits prod.splits choice.splits)
next
  case (InWait b q)
  assume "gm_step cfg ch t p m = Some (m', p')" "t \<noteq> 0"
  with InWait show ?thesis
    by (cases q) (auto simp: gm_step_def wake_simps split: if_splits option.splits prod.splits choice.splits)
next
  case (InSignal b q)
  assume "gm_step cfg ch t p m = Some (m', p')" "t \<noteq> 0"
  with InSignal show ?thesis
    by (cases q) (auto simp: gm_step_def wake_simps split: if_splits option.splits prod.splits choice.splits)
qed (auto simp: gm_step_def)


lemma waiters_seen:
  assumes "mx_inv cfg T s" and "finite T" and "card T < 2 ^ 32" and "counted (ms_pc s v)"
  shows "gm_waiters (ms_m s) \<noteq> 0"
proof -
  let ?C = "{t \<in> T. counted (ms_pc s t)}"
  have "v \<in> T"
  proof (rule ccontr)
    assume "v \<notin> T"
    then have "ms_pc s v = Idle" using assms(1) by (simp add: mx_inv_def)
    then show False using assms(4) by simp
  qed
  then have "v \<in> ?C" using assms(4) by simp
  then have "card ?C \<noteq> 0" using assms(2) by auto
  moreover have "card ?C < 2 ^ 32" using card_mono [OF assms(2), of ?C] assms(3) by force
  ultimately have "unat (of_nat (card ?C) :: u32) \<noteq> 0" by (simp add: unat_of_nat)
  moreover have "gm_waiters (ms_m s) = of_nat (card ?C)" using assms(1) unfolding mx_inv_def by blast
  ultimately show ?thesis by auto
qed

lemma mx_awake_upd:
  assumes inv: "mx_inv cfg T s" and aw: "mx_awake s" and fin: "finite T" "card T < 2 ^ 32" and t: "t \<noteq> 0"
    and w: "words_step t (ms_pc s t) (ms_m s) p' m'"
    and k: "wake_kept (mx_legacy cfg) t (ms_pc s t) (ms_m s) p' m'"
  shows "mx_awake (s\<lparr>ms_m := m', ms_pc := (ms_pc s)(t := p')\<rparr>)"
proof -
  let ?L = "mx_legacy cfg" and ?m = "ms_m s" and ?pc = "ms_pc s"
  let ?pc' = "?pc(t := p')"
  have ok: "pc_ok ?L u (?pc u) ?m" for u by (rule mx_inv_pc_ok [OF inv])
  have "\<exists>u. waking (?pc' u) \<or> sleeps_cv (?pc' u) \<and> u \<notin> gm_cv m'"
    if o': "gm_owner m' = 0" and v: "v \<in> gm_cv m' \<or> near_cv (?pc' v)" for v
  proof -
    have nt: "near_cv p' \<or> t \<in> gm_cv m' \<Longrightarrow> near_cv (?pc t) \<or> t \<in> gm_cv ?m"
      and tt: "gm_owner ?m \<noteq> 0 \<or> waking (?pc t) \<or> sleeps_cv (?pc t) \<and> t \<notin> gm_cv ?m \<Longrightarrow>
           waking p' \<or> sleeps_cv p' \<and> t \<notin> gm_cv m' \<or> \<not> ?L \<and> gm_waiters ?m = 0
           \<or> \<not> near_cv p' \<and> gm_lk ?m = Some t \<and> (gm_cv m' = {} \<or> (\<exists>w \<in> gm_cv ?m. w \<notin> gm_cv m' \<and> w \<noteq> t))"
      using k ok [of t] o' unfolding wake_kept_def by blast+
    have v0: "v \<in> gm_cv ?m \<or> near_cv (?pc v)"
      using v nt w by (cases "v = t") (auto simp: words_step_def)
    have mine: ?thesis
      if b: "gm_owner ?m \<noteq> 0 \<or> waking (?pc t) \<or> sleeps_cv (?pc t) \<and> t \<notin> gm_cv ?m"
      using tt [OF b]
    proof (elim disjE)
      assume z: "\<not> ?L \<and> gm_waiters ?m = 0"
      have "counted (?pc v)"
        using v0 ok [of v] z sleeps_cv_counted near_cv_counted unfolding pc_ok_def by auto
      then show ?thesis using waiters_seen [OF inv fin] z by blast
    next
      assume z: "\<not> near_cv p' \<and> gm_lk ?m = Some t \<and> (gm_cv m' = {} \<or> (\<exists>w \<in> gm_cv ?m. w \<notin> gm_cv m' \<and> w \<noteq> t))"
      have "\<not> near_cv (?pc' v)"
      proof (cases "v = t")
        case False
        then have "gm_lk ?m \<noteq> Some v" using z by simp
        then show ?thesis using near_cv_holds ok [of v] False unfolding pc_ok_def by auto
      qed (use z in simp)
      then have "v \<in> gm_cv m'" using v by simp
      then obtain w where "w \<in> gm_cv ?m" "w \<notin> gm_cv m'" "w \<noteq> t" using z by blast
      then show ?thesis using ok [of w] unfolding pc_ok_def by auto
    qed (metis fun_upd_same)+
    show ?thesis
    proof (cases "gm_owner ?m = 0")
      case True
      then obtain u where u: "waking (?pc u) \<or> sleeps_cv (?pc u) \<and> u \<notin> gm_cv ?m"
        using aw v0 unfolding mx_awake_def by blast
      show ?thesis
      proof (cases "u = t")
        case False
        then have "u \<notin> gm_cv ?m \<Longrightarrow> u \<notin> gm_cv m'" using w by (auto simp: words_step_def)
        then show ?thesis using u False by (metis fun_upd_other)
      qed (use u mine in blast)
    qed (use mine in blast)
  qed
  then show ?thesis unfolding mx_awake_def by (simp del: fun_upd_apply) blast
qed

lemma mx_awake_step:
  assumes "mx_inv cfg T s" and "mx_awake s" and "mx_step cfg T t s s'"
    and "finite T" and "0 \<notin> T" and "card T < 2 ^ 32"
  shows "mx_awake s'"
  using assms(3)
proof cases
  case (start c0 r0 c flag)
  then have t: "t \<noteq> 0" using assms(5) by auto
  have "gm_owner (ms_m s) = 0 \<Longrightarrow> t \<in> gm_cv (ms_m s) \<Longrightarrow> False"
    using start(3) mx_inv_pc_ok [OF assms(1), of t] by (auto simp: pc_ok_def)
  then have "wake_kept (mx_legacy cfg) t (ms_pc s t) (ms_m s) (gm_entry c flag) (ms_m s)"
    using start(3) gm_entry_counted by (auto simp: wake_kept_def)
  moreover have "words_step t (ms_pc s t) (ms_m s) (gm_entry c flag) (ms_m s)"
    using start(3) gm_entry_counted by (auto simp: words_step_def)
  ultimately show ?thesis
    using mx_awake_upd [OF assms(1,2,4,6) t] start(1) by fastforce
next
  case (run ch m' p')
  then have t: "t \<noteq> 0" using assms(5) by auto
  have "words_step t (ms_pc s t) (ms_m s) p' m'"
    using gm_step_good [OF run(3) t] mx_inv_pc_ok [OF assms(1)] unfolding step_good_def by blast
  then show ?thesis
    using mx_awake_upd [OF assms(1,2,4,6) t _ gm_step_wake [OF run(3) t]] run(1) by simp
qed

theorem mx_reach_awake:
  assumes "mx_reach cfg T ty s" and "finite T" and "0 \<notin> T" and "card T < 2 ^ 32"
  shows "mx_awake s"
  using assms(1)
proof induction
  case init
  show ?case by (simp add: mx_awake_def msys0_def gm_fresh_def)
next
  case (step s t s')
  show ?case by (rule mx_awake_step [OF mx_reach_inv [OF step(1) assms(2,3)] step(3,2) assms(2,3,4)])
qed

end
