(* ===== verification/MutexProps.thy ===== *)
theory MutexProps
  imports MutexInv
begin

unbundle bit_operations_syntax

text \<open>
  The guest mutex against its specification: a mutex is free or owned by one thread with a
  recursion depth, and every call takes effect in one atomic operation on that (a wait on a
  condition variable in two). Mutual exclusion, the results of the calls, and that no thread
  sleeps on a free mutex for good follow for every interleaving of any number of threads.
\<close>

section \<open>The specification\<close>

type_synonym mx_spec = "(u64 \<times> u32) option"

datatype mop = Acquire | Relock | Unlock | Release u32 | Reacquire u32

text \<open>The types whose owner may lock again: all but error-checking, normal and adaptive.\<close>

definition mx_recursive :: "i32 \<Rightarrow> bool" where
  "mx_recursive ty \<longleftrightarrow> ty \<notin> {1, 3, 4}"

fun mop_apply :: "i32 \<Rightarrow> u64 \<Rightarrow> mop \<Rightarrow> mx_spec \<Rightarrow> mx_spec option" where
  "mop_apply ty t Acquire None = Some (Some (t, 1))"
| "mop_apply ty t Relock (Some (u, d)) =
     (if u = t \<and> mx_recursive ty then Some (Some (t, d + 1)) else None)"
| "mop_apply ty t Unlock (Some (u, d)) =
     (if u = t then Some (if d - 1 = 0 then None else Some (t, d - 1)) else None)"
| "mop_apply ty t (Release d) (Some (u, d')) = (if u = t \<and> d' = d then Some None else None)"
| "mop_apply ty t (Reacquire d) None = Some (Some (t, d))"
| "mop_apply ty t _ _ = None"

text \<open>The recursion depth, where the count is not written yet or already cleared.\<close>

fun mx_depth :: "mx_pc \<Rightarrow> u32 \<Rightarrow> u32" where
  "mx_depth (InLock _ p) n = (if p = LkAcq then 1 else n)"
| "mx_depth (InSleep _ p) n = (if p = SlDec True \<or> p = SlUnlk True then 1 else n)"
| "mx_depth (InTry p) n = (if p = TrAcq then 1 else n)"
| "mx_depth (InUnlock p) n = (if p = UnStore then 1 else n)"
| "mx_depth (InWait _ p) n = (case p of CwRel d \<Rightarrow> d | CwDec d _ \<Rightarrow> d | _ \<Rightarrow> n)"
| "mx_depth _ n = n"

definition mx_abs :: "msys \<Rightarrow> mx_spec" where
  "mx_abs s =
     (let u = gm_owner (ms_m s) in if u = 0 then None else Some (u, mx_depth (ms_pc s u) (gm_count (ms_m s))))"

text \<open>How many operations of the specification the call in progress has performed.\<close>

fun mx_done :: "mx_pc \<Rightarrow> nat" where
  "mx_done (InLock _ p) = (if p = LkAcq then 1 else 0)"
| "mx_done (InSleep _ p) = (if p = SlDec True \<or> p = SlUnlk True then 1 else 0)"
| "mx_done (InLegacy _ p) = (if p = LgUnlk 0 then 1 else 0)"
| "mx_done (InTry p) = (if p = TrAcq \<or> p = TrUnlk 0 then 1 else 0)"
| "mx_done (InUnlock p) =
     (case p of UnLoad \<Rightarrow> 1 | UnLk \<Rightarrow> 1 | UnSig \<Rightarrow> 1 | UnUnlk \<Rightarrow> 1 | UnLegUnlk r \<Rightarrow> if r = 0 then 1 else 0 | _ \<Rightarrow> 0)"
| "mx_done (InWait _ p) =
     (case p of CwRead \<Rightarrow> 0 | CwLk _ \<Rightarrow> 0 | CwRel _ \<Rightarrow> 0 | CwDec _ _ \<Rightarrow> 2 | CwUnlk _ _ \<Rightarrow> 2 | _ \<Rightarrow> 1)"
| "mx_done (Done c r) =
     (case c of CLock \<Rightarrow> if r = 0 then 1 else 0 | CTry \<Rightarrow> if r = 0 then 1 else 0
      | CUnlock \<Rightarrow> if r = 0 then 1 else 0 | CWait \<Rightarrow> if r = EPERM then 0 else 2 | CSignal \<Rightarrow> 0)"
| "mx_done _ = 0"

text \<open>The operations the next step of a call may perform.\<close>

fun mx_ops :: "mx_pc \<Rightarrow> mop set" where
  "mx_ops (InLock _ _) = {Acquire, Relock}"
| "mx_ops (InSleep _ _) = {Acquire}"
| "mx_ops (InLegacy _ _) = {Acquire}"
| "mx_ops (InTry _) = {Acquire, Relock}"
| "mx_ops (InUnlock _) = {Unlock}"
| "mx_ops (InWait _ p) = (case p of CwRel d \<Rightarrow> {Release d} | CwCas d _ \<Rightarrow> {Reacquire d} | _ \<Rightarrow> {})"
| "mx_ops _ = {}"

definition own_view :: "u64 \<Rightarrow> mx_pc \<Rightarrow> gsync \<Rightarrow> mx_spec" where
  "own_view t p m =
     (if gm_owner m = 0 then None
      else Some (gm_owner m, if gm_owner m = t then mx_depth p (gm_count m) else gm_count m))"

definition lin_step :: "bool \<Rightarrow> u64 \<Rightarrow> mx_pc \<Rightarrow> gsync \<Rightarrow> mx_pc \<Rightarrow> gsync \<Rightarrow> bool" where
  "lin_step leg t p m p' m' \<longleftrightarrow>
     (pc_ok leg t p m \<longrightarrow>
      mx_done p' = mx_done p \<and> own_view t p' m' = own_view t p m
      \<or> mx_done p' = Suc (mx_done p)
        \<and> (\<exists>op \<in> mx_ops p. mop_apply (gm_type m) t op (own_view t p m) = Some (own_view t p' m')))"

lemma gm_relock_cases:
  assumes "gm_relock timed m = (r, m')"
  obtains "r = ETIMEDOUT" "timed" "m' = m" | "r = EDEADLK" "\<not> timed" "m' = m"
  | "r = 0" "m' = m\<lparr>gm_count := gm_count m + 1\<rparr>" "mx_recursive (gm_type m)"
  using assms by (auto simp: gm_relock_def mx_recursive_def split: if_splits)

text \<open>The results a call in progress may carry, and the time limit behind a timeout.\<close>

fun mx_timed :: "mx_pc \<Rightarrow> bool" where
  "mx_timed (InLock b _) = b" | "mx_timed (InSleep b _) = b" | "mx_timed (InLegacy b _) = b"
| "mx_timed (InWait b _) = b" | "mx_timed _ = False"

fun mx_result_ok :: "u64 \<Rightarrow> mx_pc \<Rightarrow> gsync \<Rightarrow> bool" where
  "mx_result_ok t (InSleep b p) m =
     (case p of SlCas r \<Rightarrow> r \<longrightarrow> b | SlRelk r \<Rightarrow> r \<longrightarrow> b | SlDec g \<Rightarrow> \<not> g \<longrightarrow> b | SlUnlk g \<Rightarrow> \<not> g \<longrightarrow> b | _ \<Rightarrow> True)"
| "mx_result_ok t (InLegacy b p) m =
     (case p of LgTest r \<Rightarrow> r \<longrightarrow> b | LgRelk r \<Rightarrow> r \<longrightarrow> b | LgExtra r \<Rightarrow> r \<longrightarrow> b | LgExtraLk r \<Rightarrow> r \<longrightarrow> b
      | LgUnlk r \<Rightarrow> r = 0 \<or> r = ETIMEDOUT \<and> b | _ \<Rightarrow> True)"
| "mx_result_ok t (InTry p) m = (case p of TrUnlk r \<Rightarrow> r = 0 \<or> r = EBUSY | _ \<Rightarrow> True)"
| "mx_result_ok t (InUnlock p) m =
     (case p of UnLegUnlk r \<Rightarrow> r = 0 \<or> r = EPERM \<and> gm_owner m \<noteq> t | _ \<Rightarrow> True)"
| "mx_result_ok t (InWait b p) m =
     (case p of CwRelk _ r \<Rightarrow> r = 0 \<or> r = ETIMEDOUT \<and> b | CwInc _ r \<Rightarrow> r = 0 \<or> r = ETIMEDOUT \<and> b
      | CwCas _ r \<Rightarrow> r = 0 \<or> r = ETIMEDOUT \<and> b | CwMWait _ r \<Rightarrow> r = 0 \<or> r = ETIMEDOUT \<and> b
      | CwMAsleep _ r \<Rightarrow> r = 0 \<or> r = ETIMEDOUT \<and> b | CwMRelk _ r \<Rightarrow> r = 0 \<or> r = ETIMEDOUT \<and> b
      | CwDec _ r \<Rightarrow> r = 0 \<or> r = ETIMEDOUT \<and> b | CwUnlk _ r \<Rightarrow> r = 0 \<or> r = ETIMEDOUT \<and> b | _ \<Rightarrow> True)"
| "mx_result_ok t _ m = True"

text \<open>What the results of the five calls are, and when a call is refused.\<close>

definition mx_verdict :: "u64 \<Rightarrow> mx_pc \<Rightarrow> gsync \<Rightarrow> mx_call \<Rightarrow> i32 \<Rightarrow> bool" where
  "mx_verdict t p m c r \<longleftrightarrow>
     (case c of
        CLock \<Rightarrow> r = 0 \<or> r = EDEADLK \<and> gm_owner m = t \<and> \<not> mx_recursive (gm_type m) \<and> \<not> mx_timed p
                 \<or> r = ETIMEDOUT \<and> mx_timed p
      | CTry \<Rightarrow> r = 0 \<or> r = EBUSY
      | CUnlock \<Rightarrow> r = 0 \<or> r = EPERM \<and> gm_owner m \<noteq> t
      | CWait \<Rightarrow> r = 0 \<or> r = EPERM \<and> gm_owner m \<noteq> t \<or> r = ETIMEDOUT \<and> mx_timed p
      | CSignal \<Rightarrow> r = 0)"

fun mx_ended :: "u64 \<Rightarrow> mx_pc \<Rightarrow> gsync \<Rightarrow> mx_pc \<Rightarrow> bool" where
  "mx_ended t p m (Done c r) = mx_verdict t p m c r"
| "mx_ended t p m _ = True"

lemmas run_simps = gm_step_def gm_spin_def gm_cas_def lk_take_def cv_signal_def cv_return_def
  gm_release_def gm_unlock_locked_def Let_def

text \<open>One step: its results, and its effect on the specification.\<close>

lemma gm_step_result:
  assumes "gm_step cfg ch t p m = Some (m', p')" and "t \<noteq> 0" and "mx_result_ok t p m"
  shows "mx_result_ok t p' m' \<and> mx_ended t p m p'"
proof (cases p)
  case (InLock b q)
  show ?thesis using assms unfolding InLock
    by (cases q; clarsimp simp: run_simps mx_verdict_def split: if_splits prod.splits elim!: gm_relock_cases)
      (auto simp: gm_relock_def mx_recursive_def mx_verdict_def split: if_splits)
next
  case (InSleep b q)
  show ?thesis using assms unfolding InSleep
    by (cases q; clarsimp simp: run_simps mx_verdict_def split: if_splits choice.splits)
next
  case (InLegacy b q)
  show ?thesis using assms unfolding InLegacy
    by (cases q; clarsimp simp: run_simps mx_verdict_def split: if_splits choice.splits)
next
  case (InTry q)
  show ?thesis using assms unfolding InTry
    by (cases q; auto simp: run_simps mx_verdict_def split: if_splits prod.splits elim!: gm_relock_cases)
next
  case (InUnlock q)
  show ?thesis using assms unfolding InUnlock
    by (cases q; clarsimp simp: run_simps mx_verdict_def split: if_splits choice.splits)
next
  case (InWait b q)
  show ?thesis using assms unfolding InWait
    by (cases q; clarsimp simp: run_simps mx_verdict_def split: if_splits choice.splits)
      (auto split: if_splits)
next
  case (InSignal b q)
  show ?thesis using assms unfolding InSignal
    by (cases q; clarsimp simp: run_simps mx_verdict_def split: if_splits choice.splits)
qed (use assms in \<open>auto simp: gm_step_def\<close>)

lemma gm_step_lin:
  assumes "gm_step cfg ch t p m = Some (m', p')" and "t \<noteq> 0" and "mx_result_ok t p m"
  shows "lin_step (mx_legacy cfg) t p m p' m'"
proof (cases p)
  case (InLock b q)
  show ?thesis using assms unfolding InLock
    by (cases q; clarsimp simp: run_simps split: if_splits prod.splits elim!: gm_relock_cases)
      (auto simp: lin_step_def own_view_def pc_ok_def gm_acquired_def elim!: gm_relock_cases)
next
  case (InSleep b q)
  show ?thesis using assms unfolding InSleep
    by (cases q; clarsimp simp: run_simps split: if_splits choice.splits)
      (auto simp: lin_step_def own_view_def pc_ok_def)
next
  case (InLegacy b q)
  show ?thesis using assms unfolding InLegacy
    by (cases q; clarsimp simp: run_simps split: if_splits choice.splits)
      (auto simp: lin_step_def own_view_def pc_ok_def gm_acquired_def)
next
  case (InTry q)
  show ?thesis using assms unfolding InTry
    by (cases q; clarsimp simp: run_simps split: if_splits prod.splits elim!: gm_relock_cases)
      (auto simp: lin_step_def own_view_def pc_ok_def gm_acquired_def elim!: gm_relock_cases)
next
  case (InUnlock q)
  show ?thesis using assms unfolding InUnlock
    by (cases q; clarsimp simp: run_simps split: if_splits choice.splits)
      (auto simp: lin_step_def own_view_def pc_ok_def)
next
  case (InWait b q)
  show ?thesis using assms unfolding InWait
    by (cases q; clarsimp simp: run_simps split: if_splits choice.splits)
      (auto simp: lin_step_def own_view_def pc_ok_def)
next
  case (InSignal b q)
  show ?thesis using assms unfolding InSignal
    by (cases q; clarsimp simp: run_simps split: if_splits choice.splits)
      (auto simp: lin_step_def own_view_def pc_ok_def)
qed (use assms in \<open>auto simp: gm_step_def\<close>)


section \<open>All threads\<close>

definition mx_outside :: "mx_pc \<Rightarrow> bool" where
  "mx_outside p \<longleftrightarrow> p = Idle \<or> (\<exists>c r. p = Done c r)"

lemma words_step_type: "words_step t p m p' m' \<Longrightarrow> gm_type m' = gm_type m"
  by (simp add: words_step_def)

lemma run_words:
  assumes "mx_inv cfg T s" and "gm_step cfg ch t (ms_pc s t) (ms_m s) = Some (m', p')" and "t \<noteq> 0"
  shows "words_step t (ms_pc s t) (ms_m s) p' m'"
  using gm_step_good [OF assms(2,3)] mx_inv_pc_ok [OF assms(1)] unfolding step_good_def by blast

lemma mx_result_other:
  "mx_result_ok u q m \<Longrightarrow> gm_owner m' = gm_owner m \<or> gm_owner m' \<noteq> u \<Longrightarrow> mx_result_ok u q m'"
  by (cases q) (auto split: unlock_pc.splits)

lemma mx_reach_result:
  assumes "mx_reach cfg T ty s" and "finite T" and "0 \<notin> T"
  shows "mx_result_ok u (ms_pc s u) (ms_m s) \<and> gm_type (ms_m s) = ty"
  using assms(1)
proof (induction arbitrary: u)
  case init
  show ?case by (simp add: msys0_def gm_fresh_def)
next
  case (step s t s')
  from step(2) show ?case
  proof cases
    case (start c0 r0 c flag)
    have "mx_result_ok t (gm_entry c flag) m" for m by (cases c) (auto simp: gm_entry_def)
    then show ?thesis using step(3) [of u] start(1) by auto
  next
    case (run ch m' p')
    have t: "t \<noteq> 0" using run(2) assms(3) by auto
    have w: "words_step t (ms_pc s t) (ms_m s) p' m'"
      by (rule run_words [OF mx_reach_inv [OF step(1) assms(2,3)] run(3) t])
    have ty: "gm_type m' = ty" using words_step_type [OF w] step(3) by simp
    show ?thesis
    proof (cases "u = t")
      case True
      then show ?thesis using gm_step_result [OF run(3) t] step(3) [of t] run(1) ty by simp
    next
      case False
      have "gm_owner m' = gm_owner (ms_m s) \<or> gm_owner m' \<noteq> u \<or> u = 0"
        using w False by (auto simp: words_step_def)
      moreover have "ms_pc s 0 = Idle"
        using mx_reach_inv [OF step(1) assms(2,3)] assms(3) by (auto simp: mx_inv_def)
      ultimately show ?thesis
        using mx_result_other [of u "ms_pc s u" "ms_m s" m'] step(3) [of u] run(1) ty False by auto
    qed
  qed
qed

lemma own_view_abs:
  "gm_owner (ms_m s) = 0 \<or> gm_owner (ms_m s) = t \<Longrightarrow> own_view t (ms_pc s t) (ms_m s) = mx_abs s"
  by (auto simp: own_view_def mx_abs_def Let_def)

text \<open>An operation by one thread never applies to a mutex another one owns.\<close>

lemma mop_apply_owner: "mop_apply ty t op (Some (u, d)) = Some b \<Longrightarrow> u = t"
  by (cases op) (auto split: if_splits)

lemma mop_apply_result: "mop_apply ty t op a = Some (Some (u, d)) \<Longrightarrow> u = t"
  by (cases op; cases a) (auto split: if_splits)

lemma run_abs:
  assumes inv: "mx_inv cfg T s" and run: "gm_step cfg ch t (ms_pc s t) (ms_m s) = Some (m', p')"
    and t: "t \<noteq> 0" and res: "mx_result_ok t (ms_pc s t) (ms_m s)"
    and s': "s' = s\<lparr>ms_m := m', ms_pc := (ms_pc s)(t := p')\<rparr>"
  shows "mx_done p' = mx_done (ms_pc s t) \<and> mx_abs s' = mx_abs s
    \<or> mx_done p' = Suc (mx_done (ms_pc s t))
      \<and> (\<exists>op \<in> mx_ops (ms_pc s t). mop_apply (gm_type (ms_m s)) t op (mx_abs s) = Some (mx_abs s'))"
proof -
  let ?m = "ms_m s" and ?p = "ms_pc s t"
  have lin: "mx_done p' = mx_done ?p \<and> own_view t p' m' = own_view t ?p ?m
      \<or> mx_done p' = Suc (mx_done ?p)
        \<and> (\<exists>op \<in> mx_ops ?p. mop_apply (gm_type ?m) t op (own_view t ?p ?m) = Some (own_view t p' m'))"
    using gm_step_lin [OF run t res] mx_inv_pc_ok [OF inv] unfolding lin_step_def by blast
  have w: "words_step t ?p ?m p' m'" by (rule run_words [OF inv run t])
  show ?thesis
  proof (cases "gm_owner ?m = 0 \<or> gm_owner ?m = t")
    case True
    then have "gm_owner m' = 0 \<or> gm_owner m' = t" using w by (auto simp: words_step_def)
    then have "own_view t p' m' = mx_abs s'" using own_view_abs [of s' t] s' by simp
    then show ?thesis using lin own_view_abs [OF True] by simp
  next
    case False
    then have o: "gm_owner m' = gm_owner ?m" "gm_count m' = gm_count ?m" using w by (auto simp: words_step_def)
    then have same: "mx_abs s' = mx_abs s" using False s' by (simp add: mx_abs_def Let_def)
    have "own_view t ?p ?m = Some (gm_owner ?m, gm_count ?m)" using False by (simp add: own_view_def)
    then have "mx_done p' = mx_done ?p" using lin mop_apply_owner False by metis
    then show ?thesis using same by simp
  qed
qed

text \<open>
  C1. Guest mutexes implement their specification for every interleaving. A mutex is free or owned
  with a recursion depth; from any reachable state a step of a thread either leaves that alone, or
  performs one operation the call in progress allows: a lock or trylock takes a free mutex with
  depth 1, or deepens the caller's own mutex of a recursive type; an unlock lowers the depth and
  frees the mutex at 0; a condition wait first gives up the whole depth and later takes the mutex
  back with that depth. Starting a call does nothing, and \<open>mx_done\<close> of the result tells how many
  operations the finished call performed: one for a lock, trylock or unlock that returns 0, two
  for a wait that does not fail with EPERM, and none for a refused call or a signal.
\<close>
theorem mutex_linearizes:
  assumes "mx_reach cfg T ty s" and "mx_step cfg T t s s'" and "finite T" and "0 \<notin> T"
  shows "if mx_outside (ms_pc s t) then mx_abs s' = mx_abs s \<and> mx_done (ms_pc s' t) = 0
    else mx_done (ms_pc s' t) = mx_done (ms_pc s t) \<and> mx_abs s' = mx_abs s
      \<or> mx_done (ms_pc s' t) = Suc (mx_done (ms_pc s t))
        \<and> (\<exists>op \<in> mx_ops (ms_pc s t). mop_apply ty t op (mx_abs s) = Some (mx_abs s'))"
  using assms(2)
proof cases
  case (start c0 r0 c flag)
  have "mx_depth (gm_entry c flag) n = n" "mx_done (gm_entry c flag) = 0" for n
    by (cases c; simp add: gm_entry_def)+
  then show ?thesis using start by (auto simp: mx_outside_def mx_abs_def Let_def)
next
  case (run ch m' p')
  have t: "t \<noteq> 0" using run(2) assms(4) by auto
  have "\<not> mx_outside (ms_pc s t)" using run(3) by (auto simp: mx_outside_def gm_step_def)
  then show ?thesis
    using run_abs [OF mx_reach_inv [OF assms(1,3,4)] run(3) t _ run(1)] mx_reach_result [OF assms(1,3,4)] run(1)
    by auto
qed


lemma mx_exec_reach:
  assumes "mx_reach cfg T ty s" and "mx_exec cfg es s = Some s'"
    and "\<forall>e \<in> set es. (case e of Call t _ _ \<Rightarrow> t | Run t _ \<Rightarrow> t) \<in> T"
  shows "mx_reach cfg T ty s'"
  using assms
proof (induction cfg es s rule: mx_exec.induct)
  case (2 cfg t c flag es s)
  let ?s = "s\<lparr>ms_pc := (ms_pc s)(t := gm_entry c flag)\<rparr>"
  have o: "ms_pc s t = Idle \<or> (\<exists>c r. ms_pc s t = Done c r)" and e: "mx_exec cfg es ?s = Some s'"
    using "2.prems"(2) by (auto split: mx_pc.splits)
  have "mx_step cfg T t s ?s" using o "2.prems"(3) by (auto intro: mx_step.start)
  then have "mx_reach cfg T ty ?s" by (rule mx_reach.step [OF "2.prems"(1)])
  then show ?case using o "2.IH" e "2.prems"(3) by auto
next
  case (3 cfg t ch es s)
  then obtain m' p' where r: "gm_step cfg ch t (ms_pc s t) (ms_m s) = Some (m', p')"
    by (auto split: option.splits)
  then have "mx_reach cfg T ty (s\<lparr>ms_m := m', ms_pc := (ms_pc s)(t := p')\<rparr>)"
    using mx_reach.step [OF "3.prems"(1) mx_step.run [OF _ r]] "3.prems"(3) by auto
  then show ?case using 3 r by auto
qed simp

text \<open>Two threads: 1 takes the mutex, 2 spins in vain and sleeps, 1 is about to release.\<close>

definition ex_mx_cfg :: mx_cfg where
  "ex_mx_cfg = \<lparr>mx_legacy = False, mx_spin = True, mx_extra = False\<rparr>"

definition ex_contended :: "sched list" where
  "ex_contended =
     [Call 1 CLock False, Run 1 Go, Run 1 Go, Run 1 Go,
      Call 2 CLock False, Run 2 Go, Run 2 Go, Run 2 Go, Run 2 Timeout, Run 2 Go, Run 2 Go, Run 2 Go, Run 2 Go,
      Call 1 CUnlock False, Run 1 Go]"

definition ex_mx :: msys where
  "ex_mx = \<lparr>ms_m = \<lparr>gm_owner = 1, gm_count = 0, gm_type = 2, gm_waiters = 1, gm_lk = None, gm_cv = {2},
                      cn_m = False, cn_cv = {}\<rparr>,
            ms_pc = (\<lambda>_. Idle)(1 := InUnlock UnStore, 2 := InSleep False SlAsleep)\<rparr>"

lemma ex_mx_run: "mx_exec ex_mx_cfg ex_contended (msys0 2) = Some ex_mx"
  by (simp add: ex_contended_def ex_mx_cfg_def ex_mx_def msys0_def gm_fresh_def run_simps gm_entry_def
      gm_acquired_def fun_upd_twist)

lemma ex_mx_reach: "mx_reach ex_mx_cfg {1, 2} 2 ex_mx"
  by (rule mx_exec_reach [OF mx_reach.init ex_mx_run]) (simp add: ex_contended_def)

theorem mutex_linearizes_witness:
  "mx_abs ex_mx = Some (1, 1) \<and>
   (\<exists>s'. mx_step ex_mx_cfg {1, 2} 1 ex_mx s' \<and> mop_apply 2 1 Unlock (mx_abs ex_mx) = Some (mx_abs s')
      \<and> mx_abs s' = None)"
proof -
  let ?s = "ex_mx\<lparr>ms_m := (ms_m ex_mx)\<lparr>gm_owner := 0\<rparr>, ms_pc := (ms_pc ex_mx)(1 := InUnlock UnLoad)\<rparr>"
  have st: "mx_step ex_mx_cfg {1, 2} 1 ex_mx ?s"
    by (rule mx_step.run [where ch = Go]) (simp_all add: ex_mx_def run_simps)
  have "mx_abs ?s = None" by (simp add: mx_abs_def ex_mx_def)
  moreover have "\<not> mx_outside (ms_pc ex_mx 1)" "mx_done (ms_pc ex_mx 1) = 0" "mx_done (ms_pc ?s 1) = 1"
    "mx_ops (ms_pc ex_mx 1) = {Unlock}" by (simp_all add: ex_mx_def mx_outside_def)
  ultimately show ?thesis
    using mutex_linearizes [OF ex_mx_reach st] st by (auto simp: mx_abs_def ex_mx_def)
qed

text \<open>
  C5. Mutual exclusion. When a lock or trylock has returned 0, or a condition wait has returned
  without EPERM, the caller is the owner and the recursion depth is the count; no two threads are
  in that position at once, whatever the scheme, the types and the interleaving.
\<close>
theorem mutex_exclusion:
  assumes "mx_reach cfg T ty s" and "finite T" and "0 \<notin> T"
    and "ms_pc s t = Done c r" and "(c = CLock \<or> c = CTry) \<and> r = 0 \<or> c = CWait \<and> r \<noteq> EPERM"
    and "ms_pc s u = Done c' r'" and "(c' = CLock \<or> c' = CTry) \<and> r' = 0 \<or> c' = CWait \<and> r' \<noteq> EPERM"
  shows "t = u \<and> mx_abs s = Some (t, gm_count (ms_m s))"
proof -
  have o: "owns (ms_pc s v) \<Longrightarrow> gm_owner (ms_m s) = v" for v
    using mx_inv_pc_ok [OF mx_reach_inv [OF assms(1-3)], of v] by (simp add: pc_ok_def)
  have "gm_owner (ms_m s) = t" "gm_owner (ms_m s) = u" using o [of t] o [of u] assms(4-7) by simp_all
  moreover have "ms_pc s 0 = Idle"
    using mx_reach_inv [OF assms(1-3)] assms(3) by (auto simp: mx_inv_def)
  then have "t \<noteq> 0" using assms(4) by auto
  ultimately show ?thesis using assms(4) by (simp add: mx_abs_def)
qed

definition ex_mx_locked :: "sched list" where
  "ex_mx_locked = [Call 1 CTry False, Run 1 Go, Run 1 Go, Run 1 Go, Run 1 Go, Run 1 Go,
                   Call 2 CTry False, Run 2 Go, Run 2 Go, Run 2 Go]"

theorem mutex_exclusion_witness:
  "\<exists>s. mx_reach ex_mx_cfg {1, 2} 0 s \<and> ms_pc s 1 = Done CTry 0 \<and> ms_pc s 2 = Done CTry EBUSY
     \<and> mx_abs s = Some (1, 1)"
proof -
  let ?s = "\<lparr>ms_m = \<lparr>gm_owner = 1, gm_count = 1, gm_type = 0, gm_waiters = 0, gm_lk = None, gm_cv = {},
                      cn_m = False, cn_cv = {}\<rparr>,
            ms_pc = (\<lambda>_. Idle)(1 := Done CTry 0, 2 := Done CTry 16)\<rparr>"
  have "mx_exec ex_mx_cfg ex_mx_locked (msys0 0) = Some ?s"
    by (simp add: ex_mx_locked_def ex_mx_cfg_def msys0_def gm_fresh_def run_simps gm_entry_def
        gm_acquired_def fun_upd_twist)
  then have "mx_reach ex_mx_cfg {1, 2} 0 ?s"
    by (rule mx_exec_reach [OF mx_reach.init]) (simp add: ex_mx_locked_def)
  moreover from mutex_exclusion [OF this, of 1 CTry 0 1 CTry 0] have "mx_abs ?s = Some (1, 1)" by simp
  ultimately show ?thesis by (intro exI [of _ ?s]) simp
qed


section \<open>Progress\<close>

text \<open>A thread that holds the host lock can always go on, without a timeout or a spurious wake-up.\<close>

definition can_run :: "mx_cfg \<Rightarrow> u64 \<Rightarrow> msys \<Rightarrow> bool" where
  "can_run cfg u s \<longleftrightarrow> (\<exists>ch. ch \<noteq> Timeout \<and> ch \<noteq> Spurious \<and> gm_step cfg ch u (ms_pc s u) (ms_m s) \<noteq> None)"

lemma cv_signal_some: "\<exists>ch. ch \<noteq> Timeout \<and> ch \<noteq> Spurious \<and> (\<exists>S'. cv_signal ch S = Some S')"
proof (cases "S = {}")
  case True
  then show ?thesis by (intro exI [of _ Go]) (simp add: cv_signal_def)
next
  case False
  then obtain w where "w \<in> S" by blast
  then show ?thesis by (intro exI [of _ "Wake w"]) (simp add: cv_signal_def)
qed

lemma holder_runs:
  assumes "holds_lk (mx_legacy cfg) (ms_pc s h)"
  shows "can_run cfg h s"
proof -
  obtain ch where ch: "ch \<noteq> Timeout" "ch \<noteq> Spurious" "\<exists>S'. cv_signal ch (gm_cv (ms_m s)) = Some S'"
    using cv_signal_some by blast
  obtain ch2 where ch2: "ch2 \<noteq> Timeout" "ch2 \<noteq> Spurious" "\<exists>S'. cv_signal ch2 (cn_cv (ms_m s)) = Some S'"
    using cv_signal_some by blast
  have "gm_step cfg ch h (ms_pc s h) (ms_m s) \<noteq> None \<or> gm_step cfg ch2 h (ms_pc s h) (ms_m s) \<noteq> None"
  proof (cases "ms_pc s h")
    case (InSleep b q)
    then show ?thesis using assms by (cases q) (auto simp: gm_step_def split: option.splits)
  next
    case (InLegacy b q)
    then show ?thesis using assms by (cases q) (auto simp: gm_step_def)
  next
    case (InTry q)
    then show ?thesis using assms by (cases q) (auto simp: gm_step_def split: option.splits prod.splits)
  next
    case (InUnlock q)
    then show ?thesis using assms ch
      by (cases q) (auto simp: gm_step_def gm_release_def gm_unlock_locked_def Let_def)
  next
    case (InWait b q)
    then show ?thesis using assms ch by (cases q) (auto simp: gm_step_def split: option.splits)
  next
    case (InSignal b q)
    then show ?thesis using assms ch2 by (cases q) (auto simp: gm_step_def)
  qed (use assms in auto)
  then show ?thesis using ch ch2 unfolding can_run_def by blast
qed

lemma waking_runs:
  assumes "gm_lk (ms_m s) = None" and "waking (ms_pc s u) \<or> sleeps_cv (ms_pc s u) \<and> u \<notin> gm_cv (ms_m s)"
    and ok: "pc_ok (mx_legacy cfg) u (ms_pc s u) (ms_m s)"
  shows "can_run cfg u s"
proof -
  have "\<not> holds_lk (mx_legacy cfg) (ms_pc s u)" using ok assms(1) by (simp add: pc_ok_def)
  then have "gm_step cfg Go u (ms_pc s u) (ms_m s) \<noteq> None"
    using assms(1,2)
  proof (cases "ms_pc s u")
    case (InSleep b q)
    then show ?thesis using assms(1,2) by (cases q) (auto simp: run_simps split: option.splits)
  next
    case (InLegacy b q)
    then show ?thesis using assms(1,2) by (cases q) (auto simp: run_simps)
  next
    case (InUnlock q)
    then show ?thesis using assms(1,2) \<open>\<not> holds_lk _ _\<close> by (cases q) (auto simp: run_simps)
  next
    case (InWait b q)
    then show ?thesis using assms(1,2) \<open>\<not> holds_lk _ _\<close> by (cases q) (auto simp: run_simps)
  qed auto
  then show ?thesis unfolding can_run_def by (intro exI [of _ Go]) simp
qed

text \<open>
  C3. No wake-up is lost. While the mutex is free and a thread sleeps on it, in a lock or in the
  second half of a condition wait, some thread is waking a sleeper or trying to take the mutex;
  and a thread can go on without anybody timing out or waking up spuriously: that thread, or the
  holder of the host lock it waits for. So no schedule leaves sleepers behind on a free mutex.
\<close>
theorem mutex_no_lost_wakeup:
  assumes "mx_reach cfg T ty s" and "finite T" and "0 \<notin> T" and "card T < 2 ^ 32"
    and "mx_abs s = None" and "t \<in> gm_cv (ms_m s)"
  shows "\<exists>u \<in> T. (waking (ms_pc s u) \<or> sleeps_cv (ms_pc s u) \<and> u \<notin> gm_cv (ms_m s))
    \<and> (case gm_lk (ms_m s) of None \<Rightarrow> can_run cfg u s | Some h \<Rightarrow> h \<in> T \<and> can_run cfg h s)"
proof -
  have inv: "mx_inv cfg T s" by (rule mx_reach_inv [OF assms(1-3)])
  have "gm_owner (ms_m s) = 0" using assms(5) by (auto simp: mx_abs_def Let_def split: if_splits)
  then obtain u where u: "waking (ms_pc s u) \<or> sleeps_cv (ms_pc s u) \<and> u \<notin> gm_cv (ms_m s)"
    using mx_reach_awake [OF assms(1-4)] assms(6) unfolding mx_awake_def by blast
  have inT: "v \<in> T" if "ms_pc s v \<noteq> Idle" for v using inv that unfolding mx_inv_def by blast
  have "u \<in> T" using u by (intro inT) auto
  moreover have "h \<in> T \<and> can_run cfg h s" if h: "gm_lk (ms_m s) = Some h" for h
  proof -
    have "holds_lk (mx_legacy cfg) (ms_pc s h)" using mx_inv_pc_ok [OF inv, of h] h by (simp add: pc_ok_def)
    then show ?thesis using holder_runs inT by (metis holds_lk.simps(7))
  qed
  moreover have "can_run cfg u s" if "gm_lk (ms_m s) = None"
    by (rule waking_runs [OF that u mx_inv_pc_ok [OF inv]])
  ultimately show ?thesis using u by (auto split: option.splits)
qed

text \<open>One step after \<open>ex_mx\<close>: the owner word is cleared, thread 2 still sleeps.\<close>

theorem mutex_no_lost_wakeup_witness:
  "\<exists>s. mx_reach ex_mx_cfg {1, 2} 2 s \<and> mx_abs s = None \<and> 2 \<in> gm_cv (ms_m s) \<and> can_run ex_mx_cfg 1 s"
proof -
  let ?s = "ex_mx\<lparr>ms_m := (ms_m ex_mx)\<lparr>gm_owner := 0\<rparr>, ms_pc := (ms_pc ex_mx)(1 := InUnlock UnLoad)\<rparr>"
  have st: "mx_step ex_mx_cfg {1, 2} 1 ex_mx ?s"
    by (rule mx_step.run [where ch = Go]) (simp_all add: ex_mx_def run_simps)
  have r: "mx_reach ex_mx_cfg {1, 2} 2 ?s" by (rule mx_reach.step [OF ex_mx_reach st])
  have a: "mx_abs ?s = None" "2 \<in> gm_cv (ms_m ?s)" by (simp_all add: mx_abs_def ex_mx_def)
  have c: "can_run ex_mx_cfg 1 ?s"
    using mutex_no_lost_wakeup [OF r _ _ _ a] by (auto simp: ex_mx_def split: if_splits)
  show ?thesis using r a c by blast
qed


section \<open>Condition variables\<close>

fun cw_released :: "mx_pc \<Rightarrow> bool" where
  "cw_released (InWait _ p) = (case p of CwRel _ \<Rightarrow> True | CwNote _ \<Rightarrow> True | CwWait _ \<Rightarrow> True | _ \<Rightarrow> False)"
| "cw_released _ = False"

fun sends_free :: "mx_pc \<Rightarrow> bool" where
  "sends_free (InSignal _ p) = (p = SgSend False)"
| "sends_free _ = False"

definition cond_inv :: "msys \<Rightarrow> bool" where
  "cond_inv s \<longleftrightarrow>
     (\<forall>u. sends_free (ms_pc s u) \<and> gm_owner (ms_m s) = u \<longrightarrow> \<not> cn_m (ms_m s))
     \<and> (\<forall>t. cw_released (ms_pc s t) \<longrightarrow> cn_m (ms_m s))"

lemma gm_step_cond:
  assumes "gm_step cfg ch t p m = Some (m', p')" and "\<not> mx_legacy cfg"
  shows "(cn_m m' = cn_m m \<or> cn_m m' \<and> owns p \<and> owns p')
    \<and> (cw_released p' \<longrightarrow> cw_released p \<and> cn_m m' = cn_m m \<or> cn_m m')
    \<and> (sends_free p' \<longrightarrow> \<not> cn_m m' \<and> gm_owner m' = gm_owner m)"
proof (cases p)
  case (InLock b q)
  show ?thesis using assms unfolding InLock
    by (cases q; auto simp: run_simps gm_acquired_def split: if_splits prod.splits elim!: gm_relock_cases)
next
  case (InSleep b q)
  show ?thesis using assms unfolding InSleep
    by (cases q; auto simp: run_simps split: if_splits choice.splits)
next
  case (InLegacy b q)
  show ?thesis using assms unfolding InLegacy
    by (cases q; auto simp: run_simps gm_acquired_def split: if_splits choice.splits)
next
  case (InTry q)
  show ?thesis using assms unfolding InTry
    by (cases q; auto simp: run_simps gm_acquired_def split: if_splits prod.splits elim!: gm_relock_cases)
next
  case (InUnlock q)
  show ?thesis using assms unfolding InUnlock
    by (cases q; auto simp: run_simps split: if_splits choice.splits)
next
  case (InWait b q)
  show ?thesis using assms unfolding InWait
    by (cases q; auto simp: run_simps split: if_splits choice.splits)
next
  case (InSignal b q)
  show ?thesis using assms unfolding InSignal
    by (cases q; auto simp: run_simps split: if_splits choice.splits)
qed (use assms in \<open>auto simp: gm_step_def\<close>)

lemma mx_reach_cond:
  assumes "mx_reach cfg T ty s" and "finite T" and "0 \<notin> T" and "\<not> mx_legacy cfg"
  shows "cond_inv s"
  using assms(1)
proof induction
  case init
  show ?case by (simp add: cond_inv_def msys0_def)
next
  case (step s t s')
  have inv: "mx_inv cfg T s" by (rule mx_reach_inv [OF step(1) assms(2,3)])
  from step(2) show ?case
  proof cases
    case (start c0 r0 c flag)
    have "\<not> sends_free (gm_entry c flag)" "\<not> cw_released (gm_entry c flag)" by (cases c; simp add: gm_entry_def)+
    then show ?thesis using step(3) start(1) by (auto simp: cond_inv_def)
  next
    case (run ch m' p')
    let ?m = "ms_m s" and ?p = "ms_pc s t"
    have t: "t \<noteq> 0" using run(2) assms(3) by auto
    have w: "words_step t ?p ?m p' m'" by (rule run_words [OF inv run(3) t])
    note c = gm_step_cond [OF run(3) assms(4)]
    have ot: "owns ?p \<Longrightarrow> gm_owner ?m = t" using mx_inv_pc_ok [OF inv, of t] by (simp add: pc_ok_def)
    have ot': "owns p' \<Longrightarrow> gm_owner m' = t"
      using gm_step_good [OF run(3) t] mx_inv_pc_ok [OF inv, of t] by (auto simp: step_good_def pc_ok_def)
    have z: "ms_pc s 0 = Idle" using inv assms(3) by (auto simp: mx_inv_def)
    have 1: "\<not> cn_m m'" if "sends_free (((ms_pc s)(t := p')) u)" "gm_owner m' = u" for u
    proof (cases "u = t")
      case False
      then have "sends_free (ms_pc s u)" "u \<noteq> 0" using that z by auto
      moreover from this have "gm_owner ?m = u" using w that(2) False by (auto simp: words_step_def)
      ultimately show ?thesis using step(3) c ot' that(2) False unfolding cond_inv_def by metis
    qed (use that c in auto)
    have 2: "cn_m m'" if "cw_released (((ms_pc s)(t := p')) v)" for v
    proof (cases "v = t")
      case True
      then show ?thesis using that c step(3) unfolding cond_inv_def by (metis fun_upd_same)
    next
      case False
      then show ?thesis using that c step(3) unfolding cond_inv_def by (metis fun_upd_other)
    qed
    show ?thesis unfolding cond_inv_def using 1 2 run(1) by simp
  qed
qed

text \<open>
  C10. A signal sent by the next owner is not lost. While a thread has given up the mutex in a
  condition wait and is not asleep yet, the thread that owns the mutex by then cannot get its
  signal or broadcast out: a call it starts finds the mutex stored in the condition variable and
  then has to wait for the host lock, which the waiter keeps until it sleeps.
\<close>
theorem cond_signal_not_lost:
  assumes "mx_reach cfg T ty s" and "finite T" and "0 \<notin> T" and "\<not> mx_legacy cfg"
    and "ms_pc s t = InWait b (CwNote d) \<or> ms_pc s t = InWait b (CwWait d)"
    and "gm_owner (ms_m s) = u"
  shows "ms_pc s u \<noteq> InSignal wake_all (SgSend locked)
    \<and> (ms_pc s u = InSignal wake_all SgLoad \<longrightarrow>
         gm_step cfg ch u (ms_pc s u) (ms_m s) = Some (ms_m s, InSignal wake_all SgLk))
    \<and> (ms_pc s u = InSignal wake_all SgLk \<longrightarrow> gm_step cfg ch u (ms_pc s u) (ms_m s) = None)"
proof -
  have inv: "mx_inv cfg T s" by (rule mx_reach_inv [OF assms(1-3)])
  have ci: "cond_inv s" by (rule mx_reach_cond [OF assms(1-4)])
  have "cw_released (ms_pc s t)" using assms(5) by auto
  then have m: "cn_m (ms_m s)" using ci unfolding cond_inv_def by blast
  have lk: "gm_lk (ms_m s) = Some t" using mx_inv_pc_ok [OF inv, of t] assms(5) by (auto simp: pc_ok_def)
  have "ms_pc s u \<noteq> InSignal wake_all (SgSend locked)"
  proof
    assume a: "ms_pc s u = InSignal wake_all (SgSend locked)"
    have "\<not> sends_free (ms_pc s u)" using ci assms(6) m by (auto simp: cond_inv_def)
    then have "locked" using a by auto
    then have "gm_lk (ms_m s) = Some u" using a mx_inv_pc_ok [OF inv, of u] by (simp add: pc_ok_def)
    then show False using lk a assms(5) by auto
  qed
  then show ?thesis using m lk assms(4) by (simp add: gm_step_def lk_take_def)
qed

definition ex_cond :: "sched list" where
  "ex_cond =
     [Call 1 CLock False, Run 1 Go, Run 1 Go, Run 1 Go,
      Call 1 CWait False, Run 1 Go, Run 1 Go, Run 1 Go,
      Call 2 CLock False, Run 2 Go, Run 2 Go, Run 2 Go,
      Call 2 CSignal True, Run 2 Go]"

theorem cond_signal_not_lost_witness:
  "\<exists>s. mx_reach ex_mx_cfg {1, 2} 1 s \<and> ms_pc s 1 = InWait False (CwNote 1) \<and> gm_owner (ms_m s) = 2
     \<and> ms_pc s 2 = InSignal True SgLk \<and> (\<forall>ch. gm_step ex_mx_cfg ch 2 (ms_pc s 2) (ms_m s) = None)"
proof -
  let ?s = "\<lparr>ms_m = \<lparr>gm_owner = 2, gm_count = 1, gm_type = 1, gm_waiters = 0, gm_lk = Some 1, gm_cv = {},
                      cn_m = True, cn_cv = {}\<rparr>,
            ms_pc = (\<lambda>_. Idle)(1 := InWait False (CwNote 1), 2 := InSignal True SgLk)\<rparr>"
  have "mx_exec ex_mx_cfg ex_cond (msys0 1) = Some ?s"
    by (simp add: ex_cond_def ex_mx_cfg_def msys0_def gm_fresh_def run_simps gm_entry_def
        gm_acquired_def fun_upd_twist)
  then have r: "mx_reach ex_mx_cfg {1, 2} 1 ?s"
    by (rule mx_exec_reach [OF mx_reach.init]) (simp add: ex_cond_def)
  have "gm_step ex_mx_cfg ch 2 (ms_pc ?s 2) (ms_m ?s) = None" for ch
    using cond_signal_not_lost [OF r, where t = 1 and b = False and d = 1 and u = 2 and wake_all = True and ch = ch]
    by (simp add: ex_mx_cfg_def)
  then show ?thesis using r by (intro exI [of _ ?s]) simp
qed

section \<open>Results\<close>

text \<open>
  The results of the calls. A lock fails with EDEADLK only untimed and only on the caller's
  own mutex of a type that does not nest, and with ETIMEDOUT only when it was given a time; a
  trylock fails with EBUSY only; an unlock or condition wait fails with EPERM only when the
  caller does not own the mutex, a wait ends otherwise with 0 or, if timed, ETIMEDOUT.
\<close>
theorem mutex_results:
  assumes "mx_reach cfg T ty s" and "finite T" and "0 \<notin> T"
    and "gm_step cfg ch t (ms_pc s t) (ms_m s) = Some (m', Done c r)"
  shows "case c of
      CLock \<Rightarrow> r = 0 \<or> r = EDEADLK \<and> gm_owner (ms_m s) = t \<and> \<not> mx_recursive ty \<and> \<not> mx_timed (ms_pc s t)
               \<or> r = ETIMEDOUT \<and> mx_timed (ms_pc s t)
    | CTry \<Rightarrow> r = 0 \<or> r = EBUSY
    | CUnlock \<Rightarrow> r = 0 \<or> r = EPERM \<and> gm_owner (ms_m s) \<noteq> t
    | CWait \<Rightarrow> r = 0 \<or> r = EPERM \<and> gm_owner (ms_m s) \<noteq> t \<or> r = ETIMEDOUT \<and> mx_timed (ms_pc s t)
    | CSignal \<Rightarrow> r = 0"
proof -
  have "ms_pc s t \<noteq> Idle" using assms(4) by (auto simp: gm_step_def)
  then have "t \<in> T" using mx_reach_inv [OF assms(1-3)] unfolding mx_inv_def by blast
  then have "t \<noteq> 0" using assms(3) by auto
  then have "mx_verdict t (ms_pc s t) (ms_m s) c r"
    using gm_step_result [OF assms(4)] mx_reach_result [OF assms(1-3)] by fastforce
  moreover have "gm_type (ms_m s) = ty" using mx_reach_result [OF assms(1-3)] by simp
  ultimately show ?thesis unfolding mx_verdict_def by (cases c) auto
qed

theorem mutex_results_witness:
  "\<exists>s m'. mx_reach ex_mx_cfg {1, 2} 1 s \<and> gm_owner (ms_m s) = 1
     \<and> gm_step ex_mx_cfg Go 1 (ms_pc s 1) (ms_m s) = Some (m', Done CLock EDEADLK) \<and> \<not> mx_timed (ms_pc s 1)"
proof -
  let ?m = "\<lparr>gm_owner = 1, gm_count = 1, gm_type = 1, gm_waiters = 0, gm_lk = None, gm_cv = {},
              cn_m = False, cn_cv = {}\<rparr>"
  let ?s = "\<lparr>ms_m = ?m, ms_pc = (\<lambda>_. Idle)(1 := InLock False LkRead)\<rparr>"
  have "mx_exec ex_mx_cfg [Call 1 CLock False, Run 1 Go, Run 1 Go, Run 1 Go, Call 1 CLock False] (msys0 1) = Some ?s"
    by (simp add: ex_mx_cfg_def msys0_def gm_fresh_def run_simps gm_entry_def gm_acquired_def)
  then have r: "mx_reach ex_mx_cfg {1, 2} 1 ?s" by (rule mx_exec_reach [OF mx_reach.init]) simp
  have g: "gm_step ex_mx_cfg Go 1 (ms_pc ?s 1) (ms_m ?s) = Some (?m, Done CLock 11)"
    by (simp add: gm_step_def gm_relock_def)
  have "gm_owner (ms_m ?s) = 1 \<and> \<not> mx_timed (ms_pc ?s 1)" using mutex_results [OF r _ _ g] by simp
  then show ?thesis using r g by (intro exI [of _ ?s] exI [of _ ?m]) simp
qed

end
