(* ===== verification/MutexTabProps.thy ===== *)
theory MutexTabProps
  imports MutexTable MutexProps
begin

unbundle bit_operations_syntax

text \<open>
  The table of mutexes as a partial map from handles to nodes: lookups with and without the lock
  agree, every handle has a mutex of its own, a node is recycled in its initial state, and
  destroying a mutex touches no other.
\<close>

section \<open>Ids\<close>

lemma gm_id_bound:
  assumes "sync_ok a"
  shows "gm_id a h < MTAB_IDS"
proof (cases "sync_obj_index a h")
  case None
  then show ?thesis by (simp add: gm_id_def)
next
  case (Some s)
  then have "sa_base a \<noteq> 0" by (auto simp: sync_obj_index_def)
  then have "unat s < 2 ^ 20" using Some sync_index_iff [OF assms] by blast
  then have "unat (s + 1) < 2 ^ 24" by (simp add: unat_word_ariths)
  then show ?thesis using Some by (simp add: gm_id_def word_less_nat_alt)
qed

lemma gm_id_inj:
  assumes "sync_ok a" and "h \<in> sync_handles a" and "h' \<in> sync_handles a" and "gm_id a h = gm_id a h'"
  shows "h = h'"
proof -
  obtain s s' where i: "sync_obj_index a h = Some s" "sync_obj_index a h' = Some s'"
    using assms(2,3) by (auto simp: sync_handles_def sync_obj_slot_def split: option.splits)
  then have "sa_base a \<noteq> 0" by (auto simp: sync_obj_index_def)
  note x = sync_index_iff [OF assms(1) this]
  have "s = s'" using assms(4) i by (simp add: gm_id_def)
  then show ?thesis using i x by metis
qed

lemma page_split: "drop_bit 12 i = drop_bit 12 j \<Longrightarrow> i AND 0xfff = j AND 0xfff \<Longrightarrow> i = j" for i j :: u64
proof (rule bit_word_eqI)
  fix n assume a: "drop_bit 12 i = drop_bit 12 j" "i AND 0xfff = j AND 0xfff"
  have m: "(0xfff :: u64) = mask 12" by (simp add: mask_eq_exp_minus_1)
  show "bit i n = bit j n"
  proof (cases "n < 12")
    case True
    have "bit (i AND mask 12) n = bit (j AND mask 12) n" using a(2) unfolding m by simp
    then show ?thesis using True by (simp add: bit_simps)
  next
    case False
    have "bit (drop_bit 12 i) (n - 12) = bit (drop_bit 12 j) (n - 12)" using a(1) by simp
    then show ?thesis using False by (simp add: bit_simps)
  qed
qed

section \<open>The table as a map\<close>

definition mtab_ok :: "mtab \<Rightarrow> bool" where
  "mtab_ok t \<longleftrightarrow> distinct (mt_free t) \<and> (\<forall>n \<in> set (mt_free t). n < mt_all t)
     \<and> (\<forall>i n. mt_lookup t i = Some n \<longrightarrow> n < mt_all t \<and> n \<notin> set (mt_free t))
     \<and> (\<forall>i j n. mt_lookup t i = Some n \<and> mt_lookup t j = Some n \<longrightarrow> i = j)"

lemma mt_lookup_page_upd:
  assumes "pg = (case mt_page t (drop_bit 12 i) of None \<Rightarrow> (\<lambda>_. None) | Some pg \<Rightarrow> pg)"
  shows "mt_lookup (t\<lparr>mt_page := (mt_page t)(drop_bit 12 i := Some (pg(i AND 0xfff := x)))\<rparr>) j
    = (if j = i then x else mt_lookup t j)"
  using assms page_split [of j i] by (auto simp: mt_lookup_def split: option.splits)

lemma mt_lookup_more [simp]:
  "mt_lookup (t\<lparr>mt_node := f\<rparr>) = mt_lookup t"
  "mt_lookup (t\<lparr>mt_free := l\<rparr>) = mt_lookup t"
  "mt_lookup (t\<lparr>mt_all := k\<rparr>) = mt_lookup t"
  by (simp_all add: mt_lookup_def fun_eq_iff)

lemma gm_alloc_fresh:
  assumes "mtab_ok t" and "gm_alloc_locked ty t = (n, t')"
  shows "mt_page t' = mt_page t" "\<forall>i. mt_lookup t i \<noteq> Some n" "n < mt_all t'" "n \<notin> set (mt_free t')"
    "mt_all t \<le> mt_all t'" "set (mt_free t') \<subseteq> set (mt_free t)" "distinct (mt_free t')"
    "\<forall>k. k \<noteq> n \<longrightarrow> mt_node t' k = mt_node t k"
    "gm_owner (mt_node t' n) = 0" "gm_count (mt_node t' n) = 0" "gm_type (mt_node t' n) = ty"
    "gm_waiters (mt_node t' n) = 0"
  using assms unfolding mtab_ok_def gm_alloc_locked_def
  by (auto simp: gm_reset_def gm_fresh_def gmutex.truncate_def split: list.splits)

text \<open>What a lookup-or-create and an unlink do to the map.\<close>

definition mt_created :: "mtab \<Rightarrow> u64 \<Rightarrow> i32 \<Rightarrow> nat \<Rightarrow> mtab \<Rightarrow> bool" where
  "mt_created t i ty n t' \<longleftrightarrow>
     (\<forall>j. mt_lookup t j \<noteq> Some n) \<and> gm_owner (mt_node t' n) = 0 \<and> gm_count (mt_node t' n) = 0
     \<and> gm_type (mt_node t' n) = ty \<and> gm_waiters (mt_node t' n) = 0
     \<and> (\<forall>k. k \<noteq> n \<longrightarrow> mt_node t' k = mt_node t k)"

lemma gm_get_locked_exact:
  assumes ok: "sync_ok a" "mtab_ok t" and g: "gm_get_locked a h ty t = (n, t')"
  shows "mtab_ok t' \<and> mt_lookup t' = (mt_lookup t)(gm_id a h \<mapsto> n)
    \<and> (case mt_lookup t (gm_id a h) of Some n' \<Rightarrow> n = n' \<and> t' = t | None \<Rightarrow> mt_created t (gm_id a h) ty n t')"
proof -
  let ?i = "gm_id a h" let ?hi = "drop_bit 12 (gm_id a h)"
  define pg where "pg = (case mt_page t ?hi of None \<Rightarrow> (\<lambda>_. None) | Some pg \<Rightarrow> pg)"
  define t1 where "t1 = t\<lparr>mt_page := (mt_page t)(?hi := Some pg)\<rparr>"
  have look: "mt_lookup t ?i = pg (?i AND 0xfff)" by (simp add: mt_lookup_def pg_def split: option.splits)
  have l1: "mt_lookup t1 = mt_lookup t"
    unfolding t1_def using mt_lookup_page_upd [OF pg_def, of "pg (?i AND 0xfff)"] look by fastforce
  have ok1: "mtab_ok t1" using ok(2) l1 by (simp add: mtab_ok_def t1_def)
  show ?thesis
  proof (cases "pg (?i AND 0xfff)")
    case (Some n')
    then obtain pg' where "mt_page t ?hi = Some pg'" by (auto simp: pg_def split: option.splits)
    then have "t1 = t" by (simp add: t1_def pg_def fun_upd_idem)
    moreover have "n = n' \<and> t' = t1"
      using g Some gm_id_bound [OF ok(1), of h] by (simp add: gm_get_locked_def Let_def pg_def [symmetric] t1_def [symmetric])
    ultimately show ?thesis using look Some ok(2) by (auto simp: fun_upd_idem)
  next
    case None
    obtain n0 t2 where al: "gm_alloc_locked ty t1 = (n0, t2)" by (rule prod.exhaust)
    note f = gm_alloc_fresh [OF ok1 al]
    have e: "n = n0" "t' = t2\<lparr>mt_page := (mt_page t2)(?hi := Some (pg(?i AND 0xfff := Some n0)))\<rparr>"
      using g None al gm_id_bound [OF ok(1), of h]
      by (auto simp add: gm_get_locked_def Let_def pg_def [symmetric] t1_def [symmetric])
    have l2: "mt_lookup t2 = mt_lookup t" using f(1) l1 by (simp add: mt_lookup_def fun_eq_iff)
    have p2: "pg = (case mt_page t2 ?hi of None \<Rightarrow> (\<lambda>_. None) | Some pg \<Rightarrow> pg)" using f(1) by (simp add: t1_def)
    have l: "mt_lookup t' = (mt_lookup t)(?i \<mapsto> n)"
      unfolding e using mt_lookup_page_upd [OF p2] l2 by (auto simp: fun_eq_iff)
    have "mtab_ok t'"
      using ok1 f l l1 e unfolding mtab_ok_def by (auto split: if_splits) (metis subsetD order_less_le_trans)+
    then show ?thesis using l look None f l1 e by (auto simp: mt_created_def t1_def)
  qed
qed


lemma mt_destroy_exact:
  assumes ok: "sync_ok a" "mtab_ok t"
  shows "mtab_ok (mt_destroy a h t) \<and> mt_lookup (mt_destroy a h t) = (mt_lookup t)(gm_id a h := None)
    \<and> mt_node (mt_destroy a h t) = mt_node t"
proof -
  let ?i = "gm_id a h" let ?hi = "drop_bit 12 (gm_id a h)"
  show ?thesis
  proof (cases "mt_page t ?hi")
    case None
    then have "mt_destroy a h t = t" "mt_lookup t ?i = None"
      using gm_id_bound [OF ok(1), of h] by (simp_all add: mt_destroy_def mt_unlink_def Let_def mt_lookup_def)
    then show ?thesis using ok(2) by (simp add: fun_upd_idem)
  next
    case (Some pg)
    define t1 where "t1 = t\<lparr>mt_page := (mt_page t)(?hi := Some (pg(?i AND 0xfff := None)))\<rparr>"
    have look: "mt_lookup t ?i = pg (?i AND 0xfff)" using Some by (simp add: mt_lookup_def)
    have "pg = (case mt_page t ?hi of None \<Rightarrow> (\<lambda>_. None) | Some pg \<Rightarrow> pg)" using Some by simp
    then have l1: "mt_lookup t1 = (mt_lookup t)(?i := None)"
      unfolding t1_def using mt_lookup_page_upd by (auto simp: fun_eq_iff)
    have d: "mt_destroy a h t = (case mt_lookup t ?i of None \<Rightarrow> t1 | Some n \<Rightarrow> t1\<lparr>mt_free := n # mt_free t1\<rparr>)"
      using Some gm_id_bound [OF ok(1), of h]
      by (simp add: mt_destroy_def mt_unlink_def Let_def look t1_def split: option.splits)
    have "mt_lookup (mt_destroy a h t) = (mt_lookup t)(?i := None)"
      unfolding d using l1 by (auto simp: fun_eq_iff split: option.splits)
    moreover have "mtab_ok (mt_destroy a h t)"
    proof (cases "mt_lookup t ?i")
      case None
      then show ?thesis using ok(2) l1 d by (simp add: mtab_ok_def t1_def fun_upd_idem)
    next
      case (Some n)
      then have e: "mt_destroy a h t = t1\<lparr>mt_free := n # mt_free t1\<rparr>" using d by simp
      have n: "n < mt_all t" "n \<notin> set (mt_free t)" and inj: "mt_lookup t j = Some n \<Longrightarrow> j = ?i" for j
        using ok(2) Some unfolding mtab_ok_def by blast+
      have "mt_lookup (mt_destroy a h t) j = Some k \<longleftrightarrow> j \<noteq> ?i \<and> mt_lookup t j = Some k" for j k
        unfolding e using l1 by auto
      then show ?thesis using ok(2) n inj unfolding mtab_ok_def e by (simp add: t1_def) blast
    qed
    moreover have "mt_node (mt_destroy a h t) = mt_node t"
      unfolding d by (simp add: t1_def split: option.splits)
    ultimately show ?thesis by blast
  qed
qed

text \<open>
  A lookup of a mutex without the table lock gives the same node and the same table as the
  locked one, so the fast path and the legacy path are the same function of the table.
\<close>
theorem mutex_lookup_equiv:
  assumes "sync_ok a" and "mtab_ok t"
  shows "get_host_mutex_with_type False a h ty t = gm_get_locked a h ty t
    \<and> get_host_mutex_with_type True a h ty t = gm_get_locked a h ty t"
proof -
  obtain n t' where g: "gm_get_locked a h ty t = (n, t')" by (rule prod.exhaust)
  from gm_get_locked_exact [OF assms g] show ?thesis
    using g gm_id_bound [OF assms(1), of h]
    by (auto simp: get_host_mutex_with_type_def Let_def split: option.splits)
qed

text \<open>
  C9. Every handle has one mutex and no two share one. Looking a handle up keeps all other
  handles' mutexes, returns the mutex the handle has, and otherwise creates one, unowned and of
  the type asked for, on a node no other handle uses; no mutex ever lands in the hash table.
  Destroying the mutex of a handle forgets it and changes no other mutex.
\<close>
theorem mutex_table_exact:
  assumes "sync_ok a" and "mtab_ok t"
    and "get_host_mutex_with_type leg a h ty t = (n, t')"
  shows "mtab_ok t' \<and> mt_hash t' = mt_hash t \<and> mt_lookup t' = (mt_lookup t)(gm_id a h \<mapsto> n)
    \<and> (case mt_lookup t (gm_id a h) of Some n' \<Rightarrow> n = n' \<and> t' = t | None \<Rightarrow> mt_created t (gm_id a h) ty n t')
    \<and> (\<forall>h1 \<in> sync_handles a. \<forall>h2 \<in> sync_handles a. h1 \<noteq> h2 \<longrightarrow> mt_lookup t' (gm_id a h1) = Some k
          \<longrightarrow> mt_lookup t' (gm_id a h2) \<noteq> Some k)
    \<and> mtab_ok (mt_destroy a h t) \<and> mt_lookup (mt_destroy a h t) = (mt_lookup t)(gm_id a h := None)
    \<and> mt_node (mt_destroy a h t) = mt_node t"
proof -
  obtain m u where g: "gm_get_locked a h ty t = (m, u)" by (rule prod.exhaust)
  have "get_host_mutex_with_type leg a h ty t = (m, u)"
    using gm_get_locked_exact [OF assms(1,2) g] g gm_id_bound [OF assms(1), of h]
    by (auto simp: get_host_mutex_with_type_def Let_def split: option.splits)
  then have e: "m = n" "u = t'" using assms(3) by simp_all
  note x = gm_get_locked_exact [OF assms(1,2) g, unfolded e]
  have "mt_hash t' = mt_hash t"
    using g gm_id_bound [OF assms(1), of h] unfolding e
    by (auto simp: gm_get_locked_def gm_alloc_locked_def Let_def split: option.splits list.splits prod.splits)
  moreover have "h1 = h2" if "h1 \<in> sync_handles a" "h2 \<in> sync_handles a"
      "mt_lookup t' (gm_id a h1) = Some k" "mt_lookup t' (gm_id a h2) = Some k" for h1 h2
    using that x gm_id_inj [OF assms(1) that(1,2)] unfolding mtab_ok_def by blast
  ultimately show ?thesis using x mt_destroy_exact [OF assms(1,2), of h] by blast
qed


section \<open>A mutex from init to destroy\<close>

text \<open>The slots of the arena that are not live have no mutex in the table.\<close>

definition sync_st_ok :: "sync_st \<Rightarrow> bool" where
  "sync_st_ok st \<longleftrightarrow> sync_ok (ss_arena st) \<and> mtab_ok (ss_mtab st) \<and> sa_base (ss_arena st) \<noteq> 0
     \<and> (\<forall>slot. \<not> sa_live (ss_arena st) slot \<longrightarrow> unat slot < 2 ^ 20 \<longrightarrow> mt_lookup (ss_mtab st) (slot + 1) = None)"

text \<open>The variable lies below the arena.\<close>

definition var_below :: "sync_arena \<Rightarrow> u64 \<Rightarrow> bool" where
  "var_below a x \<longleftrightarrow> x \<noteq> 0 \<and> unat x + 8 \<le> unat (sa_base a)"

lemma sync_handle_fresh:
  assumes ok: "sync_st_ok st" and x: "var_below (ss_arena st) x"
    and h: "sync_handle al st x True = Some (h, st')"
  shows "h \<notin> sync_handles (ss_arena st)" "sync_handles (ss_arena st') = insert h (sync_handles (ss_arena st))"
    "sync_ok (ss_arena st')" "sa_base (ss_arena st') = sa_base (ss_arena st)" "ss_mtab st' = ss_mtab st"
    "ss_mem st' = wr_u64 (wr_bytes (ss_mem st) h (replicate 0x80 0)) x h"
    "unat (sa_base (ss_arena st)) \<le> unat h" "unat h + 128 \<le> 2 ^ 64"
    "\<exists>slot. sync_obj_index (ss_arena st') h = Some slot \<and> \<not> sa_live (ss_arena st) slot \<and> unat slot < 2 ^ 20
       \<and> sa_live (ss_arena st') = (sa_live (ss_arena st))(slot := True)"
    "ss_cond st' = ss_cond st"
proof -
  let ?a = "ss_arena st"
  have a: "sync_ok ?a" "sa_base ?a \<noteq> 0" using ok by (auto simp: sync_st_ok_def)
  obtain r m' a' where t: "sync_take (ss_mem st) ?a = (r, m', a')" by (rule prod_cases3)
  have e: "r = h" "r \<noteq> 0" "st' = st\<lparr>ss_mem := wr_u64 m' x h, ss_arena := a'\<rparr>"
    using h x t a by (auto simp: sync_handle_def var_below_def sync_obj_alloc_def Let_def split: if_splits)
  note y = sync_take_exact [OF a t]
  have add: "sync_added ?a (ss_mem st) h m' a'" using y e by simp
  obtain slot a1 where p: "sync_pick ?a = Some (slot, a1)"
    using t e(2) by (auto simp: sync_take_def split: option.splits)
  note f = sync_pick_fresh [OF a(1) p]
  have ee: "h = sa_base ?a + slot * 0x80" "m' = wr_bytes (ss_mem st) h (replicate 0x80 0)"
    "a' = a1\<lparr>sa_live := (sa_live a1)(slot := True)\<rparr>"
    using t p e(1) by (auto simp: sync_take_def)
  have ok': "sync_ok a'" using y by blast
  have hu: "unat h = unat (sa_base ?a) + 128 * unat slot"
    using slot_addr [OF f(1)] a(1) by (simp add: ee(1) sync_ok_def)
  show "h \<notin> sync_handles ?a" "sync_handles (ss_arena st') = insert h (sync_handles ?a)"
    using add e(3) by (auto simp: sync_added_def)
  show "sync_ok (ss_arena st')" "sa_base (ss_arena st') = sa_base ?a" "ss_mtab st' = ss_mtab st"
    "ss_mem st' = wr_u64 (wr_bytes (ss_mem st) h (replicate 0x80 0)) x h" "ss_cond st' = ss_cond st"
    using ok' e ee f(3) by simp_all
  show "unat (sa_base ?a) \<le> unat h" "unat h + 128 \<le> 2 ^ 64"
    using hu f(1) a(1) unfolding sync_ok_def by auto
  have "sync_obj_index a' h = Some slot"
    using sync_index_iff [OF ok', of h slot] a(2) f(1,3) ee by simp
  then show "\<exists>slot. sync_obj_index (ss_arena st') h = Some slot \<and> \<not> sa_live ?a slot \<and> unat slot < 2 ^ 20
       \<and> sa_live (ss_arena st') = (sa_live ?a)(slot := True)"
    using f(1,2,4) e(3) ee(3) by auto
qed

lemma rd_var_below:
  assumes "unat x + 8 \<le> unat b" and "unat b + 4 \<le> 2 ^ 64"
  shows "rd_u64 (wr_u32 m b v) x = rd_u64 m x"
  using rd_bytes_below [of x 8 b "le_bytes 4 v" m] assms by (simp add: rd_u64_def wr_u32_def)

lemma gs_of_sel [simp]:
  "gmutex.truncate (gs_of g b S) = g" "gm_owner (gs_of g b S) = gm_owner g" "gm_count (gs_of g b S) = gm_count g"
  "gm_type (gs_of g b S) = gm_type g" "gm_waiters (gs_of g b S) = gm_waiters g" "gm_lk (gs_of g b S) = gm_lk g"
  "gm_cv (gs_of g b S) = gm_cv g"
  by (simp_all add: gs_of_def gmutex.truncate_def gmutex.extend_def)

text \<open>A thread that meets no interference locks a free mutex and unlocks its own.\<close>

definition solo :: "nat \<Rightarrow> mx_run" where
  "solo n = replicate n (Go, \<lambda>m. m)"

lemma lock_alone:
  assumes "gm_owner g = 0" and "me \<noteq> 0" and "\<not> mx_legacy cfg"
  shows "gm_run cfg me (gm_entry CLock b) (solo 3) (gs_of g b' S)
    = Some (0, (gs_of g b' S)\<lparr>gm_owner := me, gm_count := 1\<rparr>)"
  using assms by (simp add: solo_def gm_entry_def run_simps gm_acquired_def eval_nat_numeral)


lemma guest_owner_id_nonzero: "guest_owner_id cur self c \<noteq> 0"
proof -
  have "bit (self OR push_bit 63 1) 63" by (simp add: bit_simps)
  then have "self OR push_bit 63 1 \<noteq> 0" by auto
  then show ?thesis by (simp add: guest_owner_id_def)
qed

lemma sync_handle_found:
  assumes "rd_u64 (ss_mem st) x = h" and "h \<in> sync_handles (ss_arena st)" and "x \<noteq> 0"
  shows "sync_handle al st x False = Some (h, st)"
  using assms by (simp add: sync_handle_def sync_handles_def)

lemma get_host_mutex_found:
  assumes "sync_ok a" and "mtab_ok t" and "mt_lookup t (gm_id a h) = Some n"
  shows "get_host_mutex leg a h t = (n, t)"
proof -
  obtain m u where g: "gm_get_locked a h 0 t = (m, u)" by (rule prod.exhaust)
  show ?thesis
    using gm_get_locked_exact [OF assms(1,2) g] g assms(3) gm_id_bound [OF assms(1), of h]
    by (auto simp: get_host_mutex_def get_host_mutex_with_type_def Let_def)
qed

lemma mutex_init_exact:
  assumes ok: "sync_st_ok st" and x: "var_below (ss_arena st) (rdi c)"
    and i: "shim_pthread_mutex_init e c st = Some (c1, st1)"
    and ty: "ty = (if rsi c \<noteq> 0 then rd_u32 (ss_mem st) (rsi c) else 0)"
  obtains h n where "rd_u64 (ss_mem st1) (rdi c) = h" "rax c1 = 0" "h \<notin> sync_handles (ss_arena st)"
    "sync_handles (ss_arena st1) = insert h (sync_handles (ss_arena st))" "sync_ok (ss_arena st1)"
    "mtab_ok (ss_mtab st1)" "mt_lookup (ss_mtab st) (gm_id (ss_arena st1) h) = None"
    "mt_lookup (ss_mtab st1) = (mt_lookup (ss_mtab st))(gm_id (ss_arena st1) h \<mapsto> n)"
    "mt_created (ss_mtab st) (gm_id (ss_arena st1) h) ty n (ss_mtab st1)"
proof -
  let ?x = "rdi c"
  from i obtain h st' where hd: "sync_handle (se_alloc e) st ?x True = Some (h, st')"
    by (auto simp: shim_pthread_mutex_init_def Let_def split: option.splits)
  note f = sync_handle_fresh [OF ok x hd]
  obtain n t where g: "get_host_mutex_with_type (mx_legacy (se_cfg e)) (ss_arena st') h ty (ss_mtab st') = (n, t)"
    by (rule prod.exhaust)
  have e: "c1 = ret_rax c 0"
    "st1 = st'\<lparr>ss_mtab := t, ss_mem := wr_u32 (ss_mem st') (h + 0x20) (ty AND 0xff)\<rparr>"
    using i hd g unfolding ty by (simp_all add: shim_pthread_mutex_init_def Let_def)
  have mt: "mtab_ok (ss_mtab st')" using ok f(5) by (simp add: sync_st_ok_def)
  have up: "unat (h + 0x20) = unat h + 32" using f(8) by (simp add: unat_word_ariths)
  have xb: "unat ?x + 8 \<le> unat (sa_base (ss_arena st))" using x by (simp add: var_below_def)
  have h: "rd_u64 (ss_mem st1) ?x = h"
    using rd_var_below [of ?x "h + 0x20" "ss_mem st'"] f(6,7,8) xb up by (simp add: e)
  obtain slot where s: "sync_obj_index (ss_arena st') h = Some slot" "\<not> sa_live (ss_arena st) slot" "unat slot < 2 ^ 20"
    using f(9) by blast
  then have none: "mt_lookup (ss_mtab st) (gm_id (ss_arena st') h) = None"
    using ok by (simp add: gm_id_def sync_st_ok_def)
  obtain m u where g': "gm_get_locked (ss_arena st') h ty (ss_mtab st') = (m, u)" by (rule prod.exhaust)
  have "get_host_mutex_with_type (mx_legacy (se_cfg e)) (ss_arena st') h ty (ss_mtab st') = (m, u)"
    using g' none f(5) by (simp add: get_host_mutex_with_type_def Let_def)
  then have "m = n" "u = t" using g by simp_all
  note y = gm_get_locked_exact [OF f(3) mt g', unfolded this]
  show ?thesis
    by (rule that [of h n]) (use h f(1-3) y none e f(5) in auto)
qed

text \<open>
  C23. A mutex from creation to destruction. Initialising a variable below the arena stores a handle
  that was not live, whose mutex is unowned, of the attribute's type, and shared with no other
  handle; locking it through the variable returns 0 and makes the caller its owner with depth 1;
  destroying it clears the variable and leaves exactly the handles and mutexes there were before.
\<close>
theorem mutex_lifecycle:
  assumes "sync_st_ok st" and "var_below (ss_arena st) (rdi c)" and "\<not> mx_legacy (se_cfg e)"
    and "shim_pthread_mutex_init e c st = Some (c1, st1)"
    and "ty = (if rsi c \<noteq> 0 then rd_u32 (ss_mem st) (rsi c) else 0)"
  shows "\<exists>h n. rd_u64 (ss_mem st1) (rdi c) = h \<and> rax c1 = 0 \<and> h \<notin> sync_handles (ss_arena st)
    \<and> sync_handles (ss_arena st1) = insert h (sync_handles (ss_arena st))
    \<and> mt_lookup (ss_mtab st1) = (mt_lookup (ss_mtab st))(gm_id (ss_arena st1) h \<mapsto> n)
    \<and> mt_created (ss_mtab st) (gm_id (ss_arena st1) h) ty n (ss_mtab st1)
    \<and> (\<exists>st2. shim_pthread_mutex_lock e (solo 3) c st1 = Some (ret_rc c 0, st2)
         \<and> mt_lookup (ss_mtab st2) = mt_lookup (ss_mtab st1)
         \<and> mt_node (ss_mtab st2) = (mt_node (ss_mtab st1))
             (n := (mt_node (ss_mtab st1) n)\<lparr>gm_owner := se_me e c, gm_count := 1\<rparr>))
    \<and> rd_u64 (ss_mem (snd (shim_pthread_mutex_destroy c st1))) (rdi c) = 0
    \<and> sync_handles (ss_arena (snd (shim_pthread_mutex_destroy c st1))) = sync_handles (ss_arena st)
    \<and> mt_lookup (ss_mtab (snd (shim_pthread_mutex_destroy c st1))) = mt_lookup (ss_mtab st)"
proof -
  from mutex_init_exact [OF assms(1,2,4,5)] obtain h n where
    f: "rd_u64 (ss_mem st1) (rdi c) = h" "rax c1 = 0" "h \<notin> sync_handles (ss_arena st)"
    "sync_handles (ss_arena st1) = insert h (sync_handles (ss_arena st))" "sync_ok (ss_arena st1)"
    "mtab_ok (ss_mtab st1)" "mt_lookup (ss_mtab st) (gm_id (ss_arena st1) h) = None"
    "mt_lookup (ss_mtab st1) = (mt_lookup (ss_mtab st))(gm_id (ss_arena st1) h \<mapsto> n)"
    "mt_created (ss_mtab st) (gm_id (ss_arena st1) h) ty n (ss_mtab st1)" by metis
  have x: "rdi c \<noteq> 0" using assms(2) by (simp add: var_below_def)
  have live: "h \<in> sync_handles (ss_arena st1)" using f(4) by simp
  let ?g = "mt_node (ss_mtab st1) n"
  have g0: "gm_owner ?g = 0" using f(9) by (simp add: mt_created_def)
  have l: "gm_lookup (mx_legacy (se_cfg e)) (se_alloc e) st1 (rdi c) = Some (n, st1)"
    using sync_handle_found [OF f(1) live x] get_host_mutex_found [OF f(5,6), of h n] f(8)
    by (simp add: gm_lookup_def)
  let ?st2 = "st1\<lparr>ss_mtab := (ss_mtab st1)\<lparr>mt_node := (mt_node (ss_mtab st1))
      (n := ?g\<lparr>gm_owner := se_me e c, gm_count := 1\<rparr>)\<rparr>\<rparr>"
  have "gmutex.truncate ((gs_of ?g False {})\<lparr>gm_owner := se_me e c, gm_count := 1\<rparr>)
      = ?g\<lparr>gm_owner := se_me e c, gm_count := 1\<rparr>"
    by (simp add: gs_of_def gmutex.truncate_def gmutex.extend_def)
  then have "shim_pthread_mutex_lock e (solo 3) c st1 = Some (ret_rc c 0, ?st2)"
    using l lock_alone [OF g0 guest_owner_id_nonzero assms(3)]
    by (simp add: shim_pthread_mutex_lock_def mutex_call_def)
  moreover
  have t: "sync_handle_take st1 (rdi c) = (h, st1\<lparr>ss_mem := wr_u64 (ss_mem st1) (rdi c) 0\<rparr>)"
    using f(1) live x by (simp add: sync_handle_take_def sync_handles_def)
  have "sync_handles (sync_obj_free h (ss_arena st1)) = sync_handles (ss_arena st)"
    using sync_free_exact [OF f(5), of h] f(3,4) by auto
  moreover have "mt_lookup (mt_destroy (ss_arena st1) h (ss_mtab st1)) = mt_lookup (ss_mtab st)"
    using mt_destroy_exact [OF f(5,6), of h] f(7,8) by (auto simp: fun_eq_iff)
  ultimately show ?thesis
    using f t by (intro exI [of _ h] exI [of _ n]) (simp add: shim_pthread_mutex_destroy_def)
qed

text \<open>An arena at 1 MB with no live object, and an empty table.\<close>

definition ex_sync :: sync_st where
  "ex_sync = \<lparr>ss_vm = ex_vm, ss_mem = \<lparr>mem_mapped = True, mem_size = 0x2000000000, mem_bytes = (\<lambda>_. 0)\<rparr>,
     ss_arena = \<lparr>sa_base = 0x100000, sa_next = 0, sa_free = [], sa_live = (\<lambda>_. False)\<rparr>,
     ss_mtab = mtab0, ss_cond = (\<lambda>_. [])\<rparr>"

definition ex_sync_env :: sync_env where
  "ex_sync_env = \<lparr>se_cfg = ex_mx_cfg, se_alloc = (True, True, True), se_cur = 7, se_self = 0\<rparr>"

definition ex_call :: "u64 \<Rightarrow> u64 \<Rightarrow> guest_ctx" where
  "ex_call a b = \<lparr>rax = 0, rcx = 0, rdx = 0, rbx = 0, rsp = 0, rbp = 0, rsi = b, rdi = a, r8 = 0, r9 = 0,
     r10 = 0, r11 = 0, rip = 0, fs_base = 0, cf = 0, zf = 0, sf = 0, ovf = 0, pf = 0, af = 0, fpu_stack = [],
     fpu_top = 0, thread_id = 0\<rparr>"

lemma ex_sync_ok: "sync_st_ok ex_sync"
  by (simp add: sync_st_ok_def ex_sync_def sync_ok_def mtab_ok_def mtab0_def mt_lookup_def)

theorem mutex_lifecycle_witness:
  "\<exists>c1 st1 h n. shim_pthread_mutex_init ex_sync_env (ex_call 0x1000 0) ex_sync = Some (c1, st1)
     \<and> rd_u64 (ss_mem st1) 0x1000 = h \<and> sync_handles (ss_arena st1) = {h}
     \<and> (\<exists>st2. shim_pthread_mutex_lock ex_sync_env (solo 3) (ex_call 0x1000 0) st1 = Some (ret_rc (ex_call 0x1000 0) 0, st2)
          \<and> gm_owner (mt_node (ss_mtab st2) n) = 7)"
proof -
  let ?c = "ex_call 0x1000 0"
  have h0: "sync_handles (ss_arena ex_sync) = {}"
    by (simp add: sync_handles_def sync_obj_slot_def ex_sync_def split: option.splits)
  have v: "var_below (ss_arena ex_sync) (rdi ?c)" by (simp add: var_below_def ex_sync_def ex_call_def)
  have n: "shim_pthread_mutex_init ex_sync_env ?c ex_sync \<noteq> None"
    by (simp add: shim_pthread_mutex_init_def ex_sync_env_def ex_call_def sync_handle_def ex_sync_def
        sync_obj_alloc_def sync_take_def sync_pick_def Let_def)
  then obtain c1 st1 where i: "shim_pthread_mutex_init ex_sync_env ?c ex_sync = Some (c1, st1)" by auto
  have "\<not> mx_legacy (se_cfg ex_sync_env)" by (simp add: ex_sync_env_def ex_mx_cfg_def)
  from mutex_lifecycle [OF ex_sync_ok v this i refl] obtain h n st2 where
    "rd_u64 (ss_mem st1) (rdi ?c) = h" "sync_handles (ss_arena st1) = insert h (sync_handles (ss_arena ex_sync))"
    "shim_pthread_mutex_lock ex_sync_env (solo 3) ?c st1 = Some (ret_rc ?c 0, st2)"
    "mt_node (ss_mtab st2) = (mt_node (ss_mtab st1))
       (n := (mt_node (ss_mtab st1) n)\<lparr>gm_owner := se_me ex_sync_env ?c, gm_count := 1\<rparr>)" by blast
  then show ?thesis
    using i h0 by (intro exI [of _ c1] exI [of _ st1] exI [of _ h] exI [of _ n])
      (simp add: ex_call_def guest_owner_id_def ex_sync_env_def)
qed

theorem mutex_lookup_equiv_witness:
  "get_host_mutex_with_type False (ss_arena ex_sync) 0x100080 2 mtab0 = gm_get_locked (ss_arena ex_sync) 0x100080 2 mtab0"
  using mutex_lookup_equiv [of "ss_arena ex_sync" mtab0] ex_sync_ok by (simp add: sync_st_ok_def ex_sync_def)

theorem mutex_table_exact_witness:
  "\<exists>n t. get_host_mutex_with_type True (ss_arena ex_sync) 0x100080 2 mtab0 = (n, t)
     \<and> mtab_ok t \<and> mt_created mtab0 (gm_id (ss_arena ex_sync) 0x100080) 2 n t"
proof -
  obtain n t where g: "get_host_mutex_with_type True (ss_arena ex_sync) 0x100080 2 mtab0 = (n, t)"
    by (rule prod.exhaust)
  have "sync_ok (ss_arena ex_sync)" "mtab_ok mtab0" using ex_sync_ok by (simp_all add: sync_st_ok_def ex_sync_def)
  from mutex_table_exact [OF this g] show ?thesis using g by (simp add: mtab0_def mt_lookup_def)
qed

end
