(* ===== verification/RwLock.thy ===== *)
theory RwLock
  imports MutexTabProps SlotTable
begin

unbundle bit_operations_syntax

text \<open>
  Guest read-write locks of \<open>kernel/sync/ps4_sync.c\<close>: each handle has a host lock in a hash map,
  and a shim passes the host's result on. The host lock is the POSIX one: readers share it, a
  writer is alone, the try variants fail with EBUSY, an unlock by a thread that holds nothing
  fails with EPERM and a lock by the writer itself with EDEADLK. Then the attribute objects, which
  live in the host heap and are named by a pointer in guest memory.
\<close>

section \<open>The host lock\<close>

text \<open>The thread that writes, and the threads that read, one entry per lock they hold.\<close>

record rwl =
  rw_writer :: "u64 option"
  rw_readers :: "u64 list"

definition rwl0 :: rwl where
  "rwl0 = \<lparr>rw_writer = None, rw_readers = []\<rparr>"

definition rw_free :: "rwl \<Rightarrow> bool" where
  "rw_free w \<longleftrightarrow> rw_writer w = None \<and> rw_readers w = []"

definition rw_tryrd :: "u64 \<Rightarrow> rwl \<Rightarrow> i32 \<times> rwl" where
  "rw_tryrd me w =
     (if rw_writer w \<noteq> None then (EBUSY, w)
      else (0, w\<lparr>rw_readers := me # rw_readers w\<rparr>))"

definition rw_trywr :: "u64 \<Rightarrow> rwl \<Rightarrow> i32 \<times> rwl" where
  "rw_trywr me w = (if rw_free w then (0, w\<lparr>rw_writer := Some me\<rparr>) else (EBUSY, w))"

definition rw_unlock :: "u64 \<Rightarrow> rwl \<Rightarrow> i32 \<times> rwl" where
  "rw_unlock me w =
     (if rw_writer w = Some me then (0, w\<lparr>rw_writer := None\<rparr>)
      else if me \<in> set (rw_readers w) then (0, w\<lparr>rw_readers := remove1 me (rw_readers w)\<rparr>)
      else (EPERM, w))"

text \<open>The blocking calls wait until the try variant would succeed.\<close>

type_synonym rw_wakes = "(bool \<times> (rwl \<Rightarrow> rwl)) list"

definition rw_rd :: "u64 \<Rightarrow> rw_wakes \<Rightarrow> rwl \<Rightarrow> (i32 \<times> rwl) option" where
  "rw_rd me ws w =
     (if rw_writer w = Some me then Some (EDEADLK, w)
      else map_option (\<lambda>(_, w'). rw_tryrd me w') (sleep_loop (\<lambda>w. rw_writer w \<noteq> None) False w ws))"

definition rw_wr :: "u64 \<Rightarrow> rw_wakes \<Rightarrow> rwl \<Rightarrow> (i32 \<times> rwl) option" where
  "rw_wr me ws w =
     (if rw_writer w = Some me then Some (EDEADLK, w)
      else map_option (\<lambda>(_, w'). rw_trywr me w') (sleep_loop (\<lambda>w. \<not> rw_free w) False w ws))"

section \<open>Shims\<close>

record rw_st =
  rs_sync :: sync_st
  rs_map :: "u64 \<Rightarrow> (u64 \<times> rwl) list"
  rs_attr :: "u64 \<Rightarrow> (i32 \<times> i32) option"

abbreviation (input) RWLOCK_MAP_SIZE :: u64 where "RWLOCK_MAP_SIZE \<equiv> 1024"

definition get_host_rwlock :: "u64 \<Rightarrow> rw_st \<Rightarrow> rwl \<times> rw_st" where
  "get_host_rwlock h st =
     (let b = sync_obj_hash h mod RWLOCK_MAP_SIZE in
      case map_of (rs_map st b) h of
        Some w \<Rightarrow> (w, st)
      | None \<Rightarrow> (rwl0, st\<lparr>rs_map := (rs_map st)(b := (h, rwl0) # rs_map st b)\<rparr>))"

definition rw_put :: "u64 \<Rightarrow> rwl \<Rightarrow> rw_st \<Rightarrow> rw_st" where
  "rw_put h w st =
     (let b = sync_obj_hash h mod RWLOCK_MAP_SIZE
      in st\<lparr>rs_map := (rs_map st)(b := map (\<lambda>e. if fst e = h then (h, w) else e) (rs_map st b))\<rparr>)"

text \<open>One call of the host on the lock of the variable in \<open>rdi\<close>, and the result in \<open>rax\<close>.\<close>

definition rw_call :: "(rwl \<Rightarrow> (i32 \<times> rwl) option) \<Rightarrow> bool \<times> bool \<times> bool \<Rightarrow> guest_ctx \<Rightarrow> rw_st
    \<Rightarrow> (guest_ctx \<times> rw_st) option" where
  "rw_call hostf al c st =
     (case sync_handle al (rs_sync st) (rdi c) False of
        None \<Rightarrow> None
      | Some (h, s1) \<Rightarrow>
          (let (w, st2) = get_host_rwlock h (st\<lparr>rs_sync := s1\<rparr>) in
           case hostf w of
             None \<Rightarrow> None
           | Some (r, w') \<Rightarrow> Some (ret_rc c r, rw_put h w' st2)))"

type_synonym rw_res = "(guest_ctx \<times> rw_st) option"

definition shim_pthread_rwlock_rdlock :: "u64 \<Rightarrow> rw_wakes \<Rightarrow> bool \<times> bool \<times> bool \<Rightarrow> guest_ctx \<Rightarrow> rw_st \<Rightarrow> rw_res" where
  "shim_pthread_rwlock_rdlock me ws al c st = rw_call (rw_rd me ws) al c st"

definition shim_pthread_rwlock_wrlock :: "u64 \<Rightarrow> rw_wakes \<Rightarrow> bool \<times> bool \<times> bool \<Rightarrow> guest_ctx \<Rightarrow> rw_st \<Rightarrow> rw_res" where
  "shim_pthread_rwlock_wrlock me ws al c st = rw_call (rw_wr me ws) al c st"

definition shim_pthread_rwlock_tryrdlock :: "u64 \<Rightarrow> bool \<times> bool \<times> bool \<Rightarrow> guest_ctx \<Rightarrow> rw_st \<Rightarrow> rw_res" where
  "shim_pthread_rwlock_tryrdlock me al c st = rw_call (Some \<circ> rw_tryrd me) al c st"

definition shim_pthread_rwlock_trywrlock :: "u64 \<Rightarrow> bool \<times> bool \<times> bool \<Rightarrow> guest_ctx \<Rightarrow> rw_st \<Rightarrow> rw_res" where
  "shim_pthread_rwlock_trywrlock me al c st = rw_call (Some \<circ> rw_trywr me) al c st"

definition shim_pthread_rwlock_unlock :: "u64 \<Rightarrow> bool \<times> bool \<times> bool \<Rightarrow> guest_ctx \<Rightarrow> rw_st \<Rightarrow> rw_res" where
  "shim_pthread_rwlock_unlock me al c st = rw_call (Some \<circ> rw_unlock me) al c st"

text \<open>The two \<open>scePthread\<close> try variants convert the result themselves.\<close>

definition rw_sce_code :: "i32 \<Rightarrow> u64" where
  "rw_sce_code r = (if r \<noteq> 0 then (if r = EBUSY then 0x80020010 else ucast (0x80020000 OR r)) else 0)"

definition sce_try :: "(rwl \<Rightarrow> i32 \<times> rwl) \<Rightarrow> bool \<times> bool \<times> bool \<Rightarrow> guest_ctx \<Rightarrow> rw_st \<Rightarrow> rw_res" where
  "sce_try hostf al c st =
     (case sync_handle al (rs_sync st) (rdi c) False of
        None \<Rightarrow> None
      | Some (h, s1) \<Rightarrow>
          (let (w, st2) = get_host_rwlock h (st\<lparr>rs_sync := s1\<rparr>); (r, w') = hostf w
           in Some (ret_rax c (rw_sce_code r), rw_put h w' st2)))"

definition shim_scePthreadRwlockTryrdlock :: "u64 \<Rightarrow> bool \<times> bool \<times> bool \<Rightarrow> guest_ctx \<Rightarrow> rw_st \<Rightarrow> rw_res" where
  "shim_scePthreadRwlockTryrdlock me al c st = sce_try (rw_tryrd me) al c st"

definition shim_scePthreadRwlockTrywrlock :: "u64 \<Rightarrow> bool \<times> bool \<times> bool \<Rightarrow> guest_ctx \<Rightarrow> rw_st \<Rightarrow> rw_res" where
  "shim_scePthreadRwlockTrywrlock me al c st = sce_try (rw_trywr me) al c st"

definition shim_pthread_rwlock_init :: "bool \<times> bool \<times> bool \<Rightarrow> guest_ctx \<Rightarrow> rw_st \<Rightarrow> rw_res" where
  "shim_pthread_rwlock_init al c st =
     (case sync_handle al (rs_sync st) (rdi c) True of
        None \<Rightarrow> None
      | Some (h, s1) \<Rightarrow> Some (ret_rax c 0, snd (get_host_rwlock h (st\<lparr>rs_sync := s1\<rparr>))))"

definition shim_scePthreadRwlockInit :: "bool \<times> bool \<times> bool \<Rightarrow> guest_ctx \<Rightarrow> rw_st \<Rightarrow> rw_res" where
  "shim_scePthreadRwlockInit al c st =
     (case sync_handle al (rs_sync st) (rdi c) True of
        None \<Rightarrow> None
      | Some (h, s1) \<Rightarrow> Some (ret_rax c 0, snd (get_host_rwlock h (st\<lparr>rs_sync := s1\<rparr>))))"

definition shim_pthread_rwlock_destroy :: "guest_ctx \<Rightarrow> rw_st \<Rightarrow> guest_ctx \<times> rw_st" where
  "shim_pthread_rwlock_destroy c st =
     (let (h, s1) = sync_handle_take (rs_sync st) (rdi c); b = sync_obj_hash h mod RWLOCK_MAP_SIZE
      in (ret_rax c 0, st\<lparr>rs_sync := s1\<lparr>ss_arena := sync_obj_free h (ss_arena s1)\<rparr>,
                          rs_map := (rs_map st)(b := bucket_del h (rs_map st b))\<rparr>))"

definition shim_scePthreadRwlockDestroy :: "guest_ctx \<Rightarrow> rw_st \<Rightarrow> guest_ctx \<times> rw_st" where
  "shim_scePthreadRwlockDestroy c st = shim_pthread_rwlock_destroy c st"

definition shim_scePthreadRwlockRdlock :: "u64 \<Rightarrow> rw_wakes \<Rightarrow> bool \<times> bool \<times> bool \<Rightarrow> guest_ctx \<Rightarrow> rw_st \<Rightarrow> rw_res" where
  "shim_scePthreadRwlockRdlock me ws al c st = shim_pthread_rwlock_rdlock me ws al c st"

definition shim_scePthreadRwlockWrlock :: "u64 \<Rightarrow> rw_wakes \<Rightarrow> bool \<times> bool \<times> bool \<Rightarrow> guest_ctx \<Rightarrow> rw_st \<Rightarrow> rw_res" where
  "shim_scePthreadRwlockWrlock me ws al c st = shim_pthread_rwlock_wrlock me ws al c st"

definition shim_scePthreadRwlockUnlock :: "u64 \<Rightarrow> bool \<times> bool \<times> bool \<Rightarrow> guest_ctx \<Rightarrow> rw_st \<Rightarrow> rw_res" where
  "shim_scePthreadRwlockUnlock me al c st = shim_pthread_rwlock_unlock me al c st"

section \<open>Attributes\<close>

text \<open>
  \<open>rs_attr\<close> is the host heap of attribute objects, \<open>(pshared, type)\<close> by pointer. The result
  \<open>None\<close> stands for a pointer in guest memory that is not such an object: the C code then reads
  or writes through a wild pointer. \<open>p\<close> is the result of \<open>calloc\<close>, 0 on failure.
\<close>

abbreviation rs_mem :: "rw_st \<Rightarrow> guest_mem" where
  "rs_mem st \<equiv> ss_mem (rs_sync st)"

abbreviation rs_wr :: "(guest_mem \<Rightarrow> guest_mem) \<Rightarrow> rw_st \<Rightarrow> rw_st" where
  "rs_wr f st \<equiv> st\<lparr>rs_sync := (rs_sync st)\<lparr>ss_mem := f (ss_mem (rs_sync st))\<rparr>\<rparr>"

definition rwattr_init :: "u64 \<Rightarrow> u64 \<Rightarrow> u64 \<Rightarrow> guest_ctx \<Rightarrow> rw_st \<Rightarrow> guest_ctx \<times> rw_st" where
  "rwattr_init einval enomem p c st =
     (if rdi c = 0 \<or> \<not> mem_mapped (rs_mem st) then (ret_rax c einval, st)
      else if p = 0 then (ret_rax c enomem, st)
      else (ret_rax c 0, rs_wr (\<lambda>m. wr_u64 m (rdi c) p) (st\<lparr>rs_attr := (rs_attr st)(p := Some (0, 0))\<rparr>)))"

definition shim_scePthreadRwlockattrInit :: "u64 \<Rightarrow> guest_ctx \<Rightarrow> rw_st \<Rightarrow> guest_ctx \<times> rw_st" where
  "shim_scePthreadRwlockattrInit p c st = rwattr_init 0x80020016 0x8002000c p c st"

definition shim_pthread_rwlockattr_init :: "u64 \<Rightarrow> guest_ctx \<Rightarrow> rw_st \<Rightarrow> guest_ctx \<times> rw_st" where
  "shim_pthread_rwlockattr_init p c st = rwattr_init 22 12 p c st"

definition shim_scePthreadRwlockattrDestroy :: "guest_ctx \<Rightarrow> rw_st \<Rightarrow> rw_res" where
  "shim_scePthreadRwlockattrDestroy c st =
     (if rdi c \<noteq> 0 \<and> mem_mapped (rs_mem st) \<and> rd_u64 (rs_mem st) (rdi c) \<noteq> 0 then
        (let p = rd_u64 (rs_mem st) (rdi c) in
         case rs_attr st p of
           None \<Rightarrow> None
         | Some _ \<Rightarrow> Some (ret_rax c 0, rs_wr (\<lambda>m. wr_u64 m (rdi c) 0) (st\<lparr>rs_attr := (rs_attr st)(p := None)\<rparr>)))
      else Some (ret_rax c 0, st))"

definition shim_pthread_rwlockattr_destroy :: "guest_ctx \<Rightarrow> rw_st \<Rightarrow> rw_res" where
  "shim_pthread_rwlockattr_destroy c st = shim_scePthreadRwlockattrDestroy c st"

definition rwattr_settype :: "u64 \<Rightarrow> guest_ctx \<Rightarrow> rw_st \<Rightarrow> rw_res" where
  "rwattr_settype einval c st =
     (let ty = (ucast (rsi c) :: i32) in
      if rdi c = 0 \<or> \<not> mem_mapped (rs_mem st) then Some (ret_rax c einval, st) else
      let p = rd_u64 (rs_mem st) (rdi c) in
      if p = 0 \<or> sint ty < 0 \<or> 2 < sint ty then Some (ret_rax c einval, st) else
      case rs_attr st p of
        None \<Rightarrow> None
      | Some (ps, _) \<Rightarrow> Some (ret_rax c 0, st\<lparr>rs_attr := (rs_attr st)(p := Some (ps, ty))\<rparr>))"

definition shim_scePthreadRwlockattrSettype :: "guest_ctx \<Rightarrow> rw_st \<Rightarrow> rw_res" where
  "shim_scePthreadRwlockattrSettype c st = rwattr_settype 0x80020016 c st"

definition shim_pthread_rwlockattr_settype_np :: "guest_ctx \<Rightarrow> rw_st \<Rightarrow> rw_res" where
  "shim_pthread_rwlockattr_settype_np c st = rwattr_settype 22 c st"

definition rwattr_get :: "(i32 \<times> i32 \<Rightarrow> i32) \<Rightarrow> guest_ctx \<Rightarrow> rw_st \<Rightarrow> rw_res" where
  "rwattr_get sel c st =
     (if rdi c = 0 \<or> rsi c = 0 \<or> \<not> mem_mapped (rs_mem st) then Some (ret_rax c 0x80020016, st) else
      let p = rd_u64 (rs_mem st) (rdi c) in
      if p = 0 then Some (ret_rax c 0x80020016, st) else
      case rs_attr st p of
        None \<Rightarrow> None
      | Some a \<Rightarrow> Some (ret_rax c 0, rs_wr (\<lambda>m. wr_u32 m (rsi c) (sel a)) st))"

definition shim_scePthreadRwlockattrGettype :: "guest_ctx \<Rightarrow> rw_st \<Rightarrow> rw_res" where
  "shim_scePthreadRwlockattrGettype c st = rwattr_get snd c st"

definition shim_pthread_rwlockattr_gettype_np :: "guest_ctx \<Rightarrow> rw_st \<Rightarrow> rw_res" where
  "shim_pthread_rwlockattr_gettype_np c st = shim_scePthreadRwlockattrGettype c st"

definition shim_scePthreadRwlockattrSetpshared :: "guest_ctx \<Rightarrow> rw_st \<Rightarrow> rw_res" where
  "shim_scePthreadRwlockattrSetpshared c st =
     (let ps = (ucast (rsi c) :: i32) in
      if rdi c = 0 \<or> \<not> mem_mapped (rs_mem st) \<or> ps \<noteq> 0 then Some (ret_rax c 0x80020016, st) else
      let p = rd_u64 (rs_mem st) (rdi c) in
      if p = 0 then Some (ret_rax c 0x80020016, st) else
      case rs_attr st p of
        None \<Rightarrow> None
      | Some (_, ty) \<Rightarrow> Some (ret_rax c 0, st\<lparr>rs_attr := (rs_attr st)(p := Some (ps, ty))\<rparr>))"

definition shim_pthread_rwlockattr_setpshared :: "guest_ctx \<Rightarrow> rw_st \<Rightarrow> rw_res" where
  "shim_pthread_rwlockattr_setpshared c st = shim_scePthreadRwlockattrSetpshared c st"

definition shim_scePthreadRwlockattrGetpshared :: "guest_ctx \<Rightarrow> rw_st \<Rightarrow> rw_res" where
  "shim_scePthreadRwlockattrGetpshared c st = rwattr_get fst c st"

definition shim_pthread_rwlockattr_getpshared :: "guest_ctx \<Rightarrow> rw_st \<Rightarrow> rw_res" where
  "shim_pthread_rwlockattr_getpshared c st = shim_scePthreadRwlockattrGetpshared c st"


section \<open>Properties\<close>

text \<open>The lock of a handle, if it has one yet; the chains have one node per handle.\<close>

definition rw_view :: "rw_st \<Rightarrow> u64 \<Rightarrow> rwl option" where
  "rw_view st h = map_of (rs_map st (sync_obj_hash h mod RWLOCK_MAP_SIZE)) h"

definition rw_ok :: "rw_st \<Rightarrow> bool" where
  "rw_ok st \<longleftrightarrow> (\<forall>b. distinct (map fst (rs_map st b)))"

lemma map_of_bucket_del:
  "distinct (map fst es) \<Longrightarrow> map_of (bucket_del h es) = (map_of es)(h := None)"
proof (induction es)
  case (Cons e es)
  show ?case
  proof (cases "fst e = h")
    case True
    then have "map_of es h = None" using Cons.prems by (auto simp: map_of_eq_None_iff)
    then show ?thesis using True by (cases e) (auto simp: fun_eq_iff)
  qed (use Cons in \<open>cases e; auto simp: fun_eq_iff\<close>)
qed (simp add: fun_eq_iff)

lemma fst_bucket_del: "fst ` set (bucket_del h es) \<subseteq> fst ` set es"
  by (induction es) auto

lemma distinct_bucket_del: "distinct (map fst es) \<Longrightarrow> distinct (map fst (bucket_del h es))"
proof (induction es)
  case (Cons e es)
  then have "fst e \<notin> fst ` set (bucket_del h es)" using fst_bucket_del [of h es] by auto
  then show ?case using Cons by simp
qed simp

lemma map_of_bucket_put:
  "map_of (map (\<lambda>e. if fst e = h then (h, w) else e) es)
    = (if map_of es h = None then map_of es else (map_of es)(h \<mapsto> w))"
  by (induction es) (auto simp: fun_eq_iff)

lemma fst_bucket_put: "map fst (map (\<lambda>e. if fst e = h then (h, w) else e) es) = map fst es"
  by (induction es) auto

lemma get_host_rwlock_view:
  assumes "rw_ok st" and "get_host_rwlock h st = (w, st')"
  shows "rw_ok st' \<and> w = (case rw_view st h of None \<Rightarrow> rwl0 | Some w \<Rightarrow> w)
    \<and> rw_view st' = (rw_view st)(h \<mapsto> w) \<and> rs_sync st' = rs_sync st"
proof (cases "map_of (rs_map st (sync_obj_hash h mod 1024)) h")
  case None
  then have "h \<notin> fst ` set (rs_map st (sync_obj_hash h mod 1024))" by (simp add: map_of_eq_None_iff)
  then show ?thesis using assms None by (auto simp: get_host_rwlock_def Let_def rw_view_def rw_ok_def fun_eq_iff)
next
  case (Some w')
  then have "w' = w" "st' = st" using assms(2) by (simp_all add: get_host_rwlock_def Let_def)
  then show ?thesis using assms(1) Some by (auto simp: rw_view_def fun_eq_iff)
qed

lemma rw_put_view:
  assumes "rw_ok st" and "rw_view st h \<noteq> None"
  shows "rw_ok (rw_put h w st) \<and> rw_view (rw_put h w st) = (rw_view st)(h \<mapsto> w) \<and> rs_sync (rw_put h w st) = rs_sync st"
  using assms
  by (auto simp: rw_put_def Let_def rw_view_def rw_ok_def fun_eq_iff map_of_bucket_put fst_bucket_put
      simp del: map_map)

lemma rw_call_view:
  assumes "rd_u64 (rs_mem st) (rdi c) = h" and "h \<in> sync_handles (ss_arena (rs_sync st))"
    and "rdi c \<noteq> 0" and "get_host_rwlock h st = (w, st2)"
  shows "rw_call f al c st = (case f w of None \<Rightarrow> None | Some (r, w') \<Rightarrow> Some (ret_rc c r, rw_put h w' st2))"
proof -
  have "st\<lparr>rs_sync := rs_sync st\<rparr> = st" by simp
  then show ?thesis
    using sync_handle_found [of "rs_sync st" "rdi c" h al] assms by (simp add: rw_call_def)
qed

text \<open>
  Every handle has a read-write lock of its own. A call through a variable that holds a live
  handle hands the host's result on in \<open>rax\<close>, applies the host call to the lock of that handle
  (made on first use) and to no other, and initialising a variable stores a fresh handle;
  destroying it removes the lock and the handle and leaves the others.
\<close>
theorem rwlock_calls_exact:
  assumes "rw_ok st" and "rd_u64 (rs_mem st) (rdi c) = h" and "h \<in> sync_handles (ss_arena (rs_sync st))"
    and "rdi c \<noteq> 0" and "sync_ok (ss_arena (rs_sync st))"
    and "f (case rw_view st h of None \<Rightarrow> rwl0 | Some w \<Rightarrow> w) = Some (r, w')"
  shows "(\<exists>st'. rw_call f al c st = Some (ret_rc c r, st') \<and> rw_ok st' \<and> rw_view st' = (rw_view st)(h \<mapsto> w')
        \<and> rs_sync st' = rs_sync st)
    \<and> (let (c2, st2) = shim_pthread_rwlock_destroy c st
       in rax c2 = 0 \<and> rw_ok st2 \<and> rw_view st2 = (rw_view st)(h := None)
          \<and> sync_handles (ss_arena (rs_sync st2)) = sync_handles (ss_arena (rs_sync st)) - {h}
          \<and> rd_u64 (rs_mem st2) (rdi c) = 0)"
proof
  obtain w st2 where g: "get_host_rwlock h st = (w, st2)" by (rule prod.exhaust)
  note x = get_host_rwlock_view [OF assms(1) g]
  have "rw_view st2 h \<noteq> None" using x by simp
  from rw_put_view [OF _ this, of w'] x
  show "\<exists>st'. rw_call f al c st = Some (ret_rc c r, st') \<and> rw_ok st' \<and> rw_view st' = (rw_view st)(h \<mapsto> w')
        \<and> rs_sync st' = rs_sync st"
    using rw_call_view [OF assms(2-4) g, of f al] assms(6) by simp
next
  have t: "sync_handle_take (rs_sync st) (rdi c) = (h, (rs_sync st)\<lparr>ss_mem := wr_u64 (rs_mem st) (rdi c) 0\<rparr>)"
    using assms(2-4) by (simp add: sync_handle_take_def sync_handles_def)
  let ?b = "sync_obj_hash h mod 1024"
  have v: "map_of (((rs_map st)(?b := bucket_del h (rs_map st ?b))) (sync_obj_hash k mod 1024)) k
      = (if k = h then None else rw_view st k)" for k
    using map_of_bucket_del [of "rs_map st ?b" h] assms(1) by (auto simp: rw_view_def rw_ok_def)
  have d: "\<forall>b. distinct (map fst (((rs_map st)(?b := bucket_del h (rs_map st ?b))) b))"
    using assms(1) distinct_bucket_del by (auto simp: rw_ok_def)
  show "let (c2, st2) = shim_pthread_rwlock_destroy c st
       in rax c2 = 0 \<and> rw_ok st2 \<and> rw_view st2 = (rw_view st)(h := None)
          \<and> sync_handles (ss_arena (rs_sync st2)) = sync_handles (ss_arena (rs_sync st)) - {h}
          \<and> rd_u64 (rs_mem st2) (rdi c) = 0"
    using t v d sync_free_exact [OF assms(5), of h]
    by (simp add: shim_pthread_rwlock_destroy_def Let_def rw_ok_def rw_view_def fun_eq_iff)
qed

text \<open>
  The read-write lock calls disagree on error codes. The two \<open>scePthread\<close> try calls report a
  host error as a kernel error, \<open>0x80020000\<close> with the error number in its low byte; the other
  \<open>scePthread\<close> calls report the plain error number, as an unlock of a lock nobody holds shows;
  and the POSIX \<open>setpshared\<close>, \<open>getpshared\<close> and \<open>gettype_np\<close> report kernel errors where the other
  POSIX calls on attributes report EINVAL.
\<close>
theorem rwlock_error_codes:
  "rw_sce_code 0 = 0 \<and> rw_sce_code EBUSY = 0x80020010 \<and> rw_sce_code EDEADLK = 0x8002000b
   \<and> (rw_ok st \<and> rd_u64 (rs_mem st) (rdi c) = h \<and> h \<in> sync_handles (ss_arena (rs_sync st)) \<and> rdi c \<noteq> 0
        \<and> rw_view st h = Some rwl0
      \<longrightarrow> map_option (rax \<circ> fst) (shim_scePthreadRwlockUnlock me al c st) = Some 1)
   \<and> (rdi c' = 0 \<longrightarrow> map_option (rax \<circ> fst) (shim_pthread_rwlockattr_setpshared c' st) = Some 0x80020016
        \<and> map_option (rax \<circ> fst) (shim_pthread_rwlockattr_gettype_np c' st) = Some 0x80020016
        \<and> map_option (rax \<circ> fst) (shim_pthread_rwlockattr_settype_np c' st) = Some 22)"
proof -
  have "map_option (rax \<circ> fst) (shim_scePthreadRwlockUnlock me al c st) = Some 1"
    if "rw_ok st" "rd_u64 (rs_mem st) (rdi c) = h" "h \<in> sync_handles (ss_arena (rs_sync st))" "rdi c \<noteq> 0"
      "rw_view st h = Some rwl0"
  proof -
    obtain w st2 where g: "get_host_rwlock h st = (w, st2)" by (rule prod.exhaust)
    have "w = rwl0" using get_host_rwlock_view [OF that(1) g] that(5) by simp
    then show ?thesis
      using rw_call_view [OF that(2-4) g, of "Some \<circ> rw_unlock me" al]
      by (simp add: shim_scePthreadRwlockUnlock_def shim_pthread_rwlock_unlock_def rw_unlock_def rwl0_def)
  qed
  then show ?thesis
    by (auto simp: rw_sce_code_def shim_pthread_rwlockattr_setpshared_def shim_scePthreadRwlockattrSetpshared_def
        shim_pthread_rwlockattr_gettype_np_def shim_scePthreadRwlockattrGettype_def rwattr_get_def
        shim_pthread_rwlockattr_settype_np_def rwattr_settype_def Let_def)
qed


text \<open>A variable at \<open>0x1000\<close> that holds the first object of an arena at 1 MB.\<close>

definition ex_rw :: "rwl option \<Rightarrow> rw_st" where
  "ex_rw w = \<lparr>rs_sync = ex_sync\<lparr>ss_mem := wr_u64 (ss_mem ex_sync) 0x1000 0x100000,
                 ss_arena := \<lparr>sa_base = 0x100000, sa_next = 1, sa_free = [], sa_live = (\<lambda>s. s = 0)\<rparr>\<rparr>,
              rs_map = (case w of None \<Rightarrow> (\<lambda>_. []) | Some w \<Rightarrow> (\<lambda>_. [])(0 := [(0x100000, w)])), rs_attr = (\<lambda>_. None)\<rparr>"

lemma ex_rw_facts:
  "rw_ok (ex_rw w)" "rd_u64 (rs_mem (ex_rw w)) 0x1000 = 0x100000"
  "0x100000 \<in> sync_handles (ss_arena (rs_sync (ex_rw w)))" "sync_ok (ss_arena (rs_sync (ex_rw w)))"
  "rw_view (ex_rw w) 0x100000 = w"
proof -
  show "rw_ok (ex_rw w)" by (simp add: ex_rw_def rw_ok_def split: option.split)
  show "rd_u64 (rs_mem (ex_rw w)) 0x1000 = 0x100000" by (simp add: ex_rw_def)
  show "0x100000 \<in> sync_handles (ss_arena (rs_sync (ex_rw w)))"
    by (simp add: ex_rw_def sync_handles_def sync_obj_slot_def sync_obj_index_def)
  have "unat (s :: u64) < 1 \<longleftrightarrow> s = 0" for s by (simp add: unat_eq_zero)
  then show "sync_ok (ss_arena (rs_sync (ex_rw w)))" by (auto simp: ex_rw_def sync_ok_def)
  show "rw_view (ex_rw w) 0x100000 = w" by (simp add: ex_rw_def rw_view_def sync_obj_hash_def split: option.split)
qed

theorem rwlock_calls_exact_witness:
  "\<exists>st'. rw_call (Some \<circ> rw_trywr 3) (True, True, True) (ex_call 0x1000 0) (ex_rw None)
       = Some (ret_rc (ex_call 0x1000 0) 0, st')
     \<and> rw_view st' 0x100000 = Some (rwl0\<lparr>rw_writer := Some 3\<rparr>)"
proof -
  have "(Some \<circ> rw_trywr 3) (case rw_view (ex_rw None) 0x100000 of None \<Rightarrow> rwl0 | Some w \<Rightarrow> w)
      = Some (0, rwl0\<lparr>rw_writer := Some 3\<rparr>)"
    using ex_rw_facts(5) [of None] by (simp add: rw_trywr_def rwl0_def rw_free_def)
  then show ?thesis
    using rwlock_calls_exact [where st = "ex_rw None" and c = "ex_call 0x1000 0" and h = "0x100000"
        and f = "Some \<circ> rw_trywr 3" and al = "(True, True, True)"] ex_rw_facts [of None]
    by (auto simp: ex_call_def)
qed

theorem rwlock_error_codes_witness:
  "map_option (rax \<circ> fst) (shim_scePthreadRwlockUnlock 3 (True, True, True) (ex_call 0x1000 0) (ex_rw (Some rwl0))) = Some 1"
  using rwlock_error_codes [where st = "ex_rw (Some rwl0)" and c = "ex_call 0x1000 0" and h = "0x100000"
      and me = 3 and al = "(True, True, True)" and c' = "ex_call 0 0"]
    ex_rw_facts [of "Some rwl0"]
  by (simp add: ex_call_def)

end
