(* ===== verification/RunOnce.thy ===== *)
theory RunOnce
  imports SlotTable GuestMem
begin

unbundle bit_operations_syntax

text \<open>
  One-time initialisation: \<open>pthread_once\<close> and the C++ guards of function-local statics of
  \<open>kernel/sync/ps4_sync.c\<close>. Both keep their state in a word of guest memory and change it under
  one host lock, so a call is one step per critical section. The contract is a cell that is
  fresh, busy or finished; it is stated as a locale that both interpret.
\<close>

section \<open>The contract\<close>

datatype cell = Fresh | Busy u32 | Finished

text \<open>What entering finds: the caller runs the initialiser, it is done, it is running, it recurses.\<close>

datatype entered = Start | Already | Blocked | Recursive

datatype cell_event = Enter u32 | Complete | Abandon

text \<open>A run of entries and ends by any threads, in the order of their critical sections.\<close>

fun cell_run :: "(u32 \<Rightarrow> 's \<Rightarrow> entered \<times> 's) \<Rightarrow> ('s \<Rightarrow> 's) \<Rightarrow> ('s \<Rightarrow> 's) \<Rightarrow> cell_event list \<Rightarrow> 's
    \<Rightarrow> entered list \<times> 's" where
  "cell_run enter complete abandon [] s = ([], s)"
| "cell_run enter complete abandon (Enter t # es) s =
     (let (r, s1) = enter t s; (rs, s2) = cell_run enter complete abandon es s1 in (r # rs, s2))"
| "cell_run enter complete abandon (Complete # es) s = cell_run enter complete abandon es (complete s)"
| "cell_run enter complete abandon (Abandon # es) s = cell_run enter complete abandon es (abandon s)"

definition starts :: "entered list \<Rightarrow> nat" where
  "starts rs = length (filter ((=) Start) rs)"

definition abandons :: "cell_event list \<Rightarrow> nat" where
  "abandons es = length (filter ((=) Abandon) es)"

lemma starts_simps [simp]:
  "starts [] = 0" "starts (r # rs) = (if r = Start then Suc (starts rs) else starts rs)"
  by (simp_all add: starts_def)

lemma abandons_simps [simp]:
  "abandons [] = 0" "abandons (e # es) = (if e = Abandon then Suc (abandons es) else abandons es)"
  by (simp_all add: abandons_def)

locale one_time =
  fixes view :: "'s \<Rightarrow> cell"
    and enter :: "u32 \<Rightarrow> 's \<Rightarrow> entered \<times> 's"
    and complete :: "'s \<Rightarrow> 's"
  assumes enter_fresh: "view s = Fresh \<Longrightarrow> fst (enter t s) = Start \<and> (\<exists>h. view (snd (enter t s)) = Busy h)"
    and enter_busy: "view s = Busy h \<Longrightarrow> fst (enter t s) \<in> {Blocked, Recursive} \<and> snd (enter t s) = s"
    and enter_finished: "view s = Finished \<Longrightarrow> enter t s = (Already, s)"
    and complete_finished: "view (complete s) = Finished"
begin

text \<open>
  The facts about runs, for an operation that gives an attempt up, where there is one: it makes
  the cell fresh again unless it is finished.
\<close>

abbreviation gives_up :: "('s \<Rightarrow> 's) \<Rightarrow> bool" where
  "gives_up ab \<equiv> (\<forall>s. view (ab s) = (if view s = Finished then Finished else Fresh))"

lemma starts_bound:
  assumes "Abandon \<in> set es \<Longrightarrow> gives_up ab"
  shows "starts (fst (cell_run enter complete ab es s)) \<le> abandons es + (if view s = Fresh then 1 else 0)"
  using assms
proof (induction es arbitrary: s)
  case Nil
  then show ?case by simp
next
  case (Cons e es)
  then have IH: "starts (fst (cell_run enter complete ab es s)) \<le> abandons es + (if view s = Fresh then 1 else 0)" for s
    by simp
  show ?case
  proof (cases e)
    case (Enter t)
    show ?thesis
    proof (cases "view s")
      case Fresh
      then obtain h where "fst (enter t s) = Start" "view (snd (enter t s)) = Busy h" using enter_fresh by blast
      then show ?thesis using IH [of "snd (enter t s)"] Enter Fresh by (simp add: case_prod_beta)
    next
      case (Busy h)
      then have "fst (enter t s) \<noteq> Start" "snd (enter t s) = s" using enter_busy [of s h t] by auto
      then show ?thesis using IH [of s] Enter Busy by (simp add: case_prod_beta)
    next
      case Finished
      then show ?thesis using IH [of s] Enter enter_finished by (simp add: case_prod_beta)
    qed
  next
    case Complete
    then show ?thesis using IH [of "complete s"] complete_finished by simp
  next
    case Abandon
    then have "view (ab s) = (if view s = Finished then Finished else Fresh)" using Cons.prems by simp
    then show ?thesis using IH [of "ab s"] Abandon by (auto split: if_splits)
  qed
qed

lemma finished_stays:
  assumes "Abandon \<in> set es \<Longrightarrow> gives_up ab" and "view s = Finished"
  shows "set (fst (cell_run enter complete ab es s)) \<subseteq> {Already}
    \<and> view (snd (cell_run enter complete ab es s)) = Finished"
  using assms
proof (induction es arbitrary: s)
  case (Cons e es)
  have "e = Abandon \<Longrightarrow> view (ab s) = Finished" using Cons.prems by simp
  then show ?case
    using Cons enter_finished complete_finished by (cases e) (auto simp: case_prod_beta)
qed simp

lemma not_early:
  assumes "Abandon \<in> set es \<Longrightarrow> gives_up ab" and "view s \<noteq> Finished" and "Complete \<notin> set es"
  shows "Already \<notin> set (fst (cell_run enter complete ab es s))"
  using assms
proof (induction es arbitrary: s)
  case (Cons e es)
  then have IH: "view s \<noteq> Finished \<Longrightarrow> Already \<notin> set (fst (cell_run enter complete ab es s))" for s by simp
  show ?case
  proof (cases e)
    case (Enter t)
    have "fst (enter t s) \<noteq> Already \<and> view (snd (enter t s)) \<noteq> Finished"
    proof (cases "view s")
      case Fresh
      then show ?thesis using enter_fresh [of s t] by auto
    next
      case (Busy h)
      then show ?thesis using enter_busy [of s h t] by auto
    next
      case Finished
      then show ?thesis using Cons.prems by simp
    qed
    then show ?thesis using IH Enter by (auto simp: case_prod_beta)
  next
    case Abandon
    then have "view (ab s) \<noteq> Finished" using Cons.prems by simp
    then show ?thesis using IH Abandon by simp
  qed (use Cons.prems in auto)
qed simp

end

text \<open>A cell whose attempts can be given up.\<close>

locale retried = one_time view enter complete
  for view :: "'s \<Rightarrow> cell" and enter :: "u32 \<Rightarrow> 's \<Rightarrow> entered \<times> 's" and complete :: "'s \<Rightarrow> 's" +
  fixes abandon :: "'s \<Rightarrow> 's"
  assumes abandon_view: "view (abandon s) = (if view s = Finished then Finished else Fresh)"
begin

lemma gives_up: "gives_up abandon"
  using abandon_view by blast

lemmas run_facts = starts_bound [OF gives_up] finished_stays [OF gives_up] not_early [OF gives_up]

end

section \<open>pthread_once\<close>

text \<open>The control word: 0 not run, 2 in progress, 1 done; any other value counts as not run.\<close>

definition once_enter :: "u64 \<Rightarrow> u32 \<Rightarrow> guest_mem \<Rightarrow> entered \<times> guest_mem" where
  "once_enter a t m =
     (if rd_u32 m a = 2 then (Blocked, m)
      else if rd_u32 m a = 1 then (Already, m)
      else (Start, wr_u32 m a 2))"

definition once_complete :: "u64 \<Rightarrow> guest_mem \<Rightarrow> guest_mem" where
  "once_complete a m = wr_u32 m a 1"

definition once_view :: "u64 \<Rightarrow> guest_mem \<Rightarrow> cell" where
  "once_view a m = (if rd_u32 m a = 1 then Finished else if rd_u32 m a = 2 then Busy 0 else Fresh)"

text \<open>
  The whole shim. The wait is a loop over wake-ups, each with what the others did to memory;
  \<open>dispatch\<close> runs the recompiled routine at a guest address. \<open>None\<close> while the caller sleeps.
\<close>

definition shim_pthread_once ::
    "(guest_ctx \<Rightarrow> guest_mem \<Rightarrow> u64 \<Rightarrow> guest_ctx \<times> guest_mem) \<Rightarrow> (bool \<times> (guest_mem \<Rightarrow> guest_mem)) list
      \<Rightarrow> guest_ctx \<Rightarrow> guest_mem \<Rightarrow> (guest_ctx \<times> guest_mem) option" where
  "shim_pthread_once dispatch ws c m =
     (if rdi c = 0 then Some (ret_rc c EINVAL, m) else
      case sleep_loop (\<lambda>m. rd_u32 m (rdi c) = 2) False m ws of
        None \<Rightarrow> None
      | Some (_, m1) \<Rightarrow>
          (case once_enter (rdi c) 0 m1 of
             (Start, m2) \<Rightarrow>
               (let c1 = c\<lparr>rsp := rsp c - 8\<rparr>;
                    (c2, m3) = dispatch c1 (wr_u64 m2 (rsp c1) 0xdeadbeef) (rsi c)
                in Some (ret_rax c2 0, once_complete (rdi c) m3))
           | _ \<Rightarrow> Some (ret_rax c 0, m1)))"

section \<open>Guards of static variables\<close>

text \<open>Byte 0 is set when initialised, byte 1 while in progress, bytes 4 to 7 hold the thread.\<close>

definition guard_tid :: "guest_ctx \<Rightarrow> u32" where
  "guard_tid c = (if thread_id c \<noteq> 0 then ucast (thread_id c) else 1)"

definition guard_enter :: "u64 \<Rightarrow> u32 \<Rightarrow> guest_mem \<Rightarrow> entered \<times> guest_mem" where
  "guard_enter a t m =
     (if rd_u8 m a AND 1 \<noteq> 0 then (Already, m)
      else if rd_u8 m (a + 1) \<noteq> 0 then (if rd_u32 m (a + 4) = t then Recursive else Blocked, m)
      else (Start, wr_u32 (wr_bytes m (a + 1) [1]) (a + 4) t))"

definition guard_release :: "u64 \<Rightarrow> guest_mem \<Rightarrow> guest_mem" where
  "guard_release a m = wr_u32 (wr_bytes (wr_bytes m a [1]) (a + 1) [0]) (a + 4) 0"

definition guard_abort :: "u64 \<Rightarrow> guest_mem \<Rightarrow> guest_mem" where
  "guard_abort a m = wr_u32 (wr_bytes m (a + 1) [0]) (a + 4) 0"

definition guard_view :: "u64 \<Rightarrow> guest_mem \<Rightarrow> cell" where
  "guard_view a m =
     (if rd_u8 m a AND 1 \<noteq> 0 then Finished
      else if rd_u8 m (a + 1) \<noteq> 0 then Busy (rd_u32 m (a + 4)) else Fresh)"

definition shim_cxa_guard_acquire ::
    "(bool \<times> (guest_mem \<Rightarrow> guest_mem)) list \<Rightarrow> guest_ctx \<Rightarrow> guest_mem \<Rightarrow> (guest_ctx \<times> guest_mem) option" where
  "shim_cxa_guard_acquire ws c m =
     (if rdi c = 0 then Some (ret_rax c 0, m)
      else if rd_u8 m (rdi c) AND 1 \<noteq> 0 then Some (ret_rax c 0, m)
      else case sleep_loop (\<lambda>m. fst (guard_enter (rdi c) (guard_tid c) m) = Blocked) False m ws of
             None \<Rightarrow> None
           | Some (_, m1) \<Rightarrow>
               (case guard_enter (rdi c) (guard_tid c) m1 of
                  (r, m2) \<Rightarrow> Some (ret_rax c (if r = Start then 1 else 0), m2)))"

definition shim_cxa_guard_release :: "guest_ctx \<Rightarrow> guest_mem \<Rightarrow> guest_ctx \<times> guest_mem" where
  "shim_cxa_guard_release c m = (ret_rax c 0, if rdi c \<noteq> 0 then guard_release (rdi c) m else m)"

definition shim_cxa_guard_abort :: "guest_ctx \<Rightarrow> guest_mem \<Rightarrow> guest_ctx \<times> guest_mem" where
  "shim_cxa_guard_abort c m = (ret_rax c 0, if rdi c \<noteq> 0 then guard_abort (rdi c) m else m)"

section \<open>The two cells\<close>

interpretation once: one_time "once_view a" "once_enter a" "once_complete a" for a
  by unfold_locales (auto simp: once_view_def once_enter_def once_complete_def split: if_splits)

text \<open>The bytes of a guard do not overlap.\<close>

lemma guard_bytes:
  "mem_bytes (wr_bytes m (a + 1) [v]) a = mem_bytes m a"
  "mem_bytes (wr_bytes m (a + 1) [v]) (a + 1) = v"
  "mem_bytes (wr_bytes m a [v]) a = v"
  "mem_bytes (wr_u32 m (a + 4) w) a = mem_bytes m a"
  "mem_bytes (wr_u32 m (a + 4) w) (a + 1) = mem_bytes m (a + 1)"
  by (simp_all add: wr_bytes_def wr_u32_def unat_eq_zero)

interpretation guard: retried "guard_view a" "guard_enter a" "guard_release a" "guard_abort a" for a
  by unfold_locales
    (auto simp: guard_view_def guard_enter_def guard_release_def guard_abort_def rd_u8_def guard_bytes
      split: if_splits)

section \<open>Properties\<close>

text \<open>
  \<open>pthread_once\<close> runs its routine once. However the calls of any threads on one control word
  interleave, at most one of them starts the routine, none does once it has completed or when it is
  in progress, and none returns before the routine has completed.
\<close>
theorem once_runs_once:
  assumes "Abandon \<notin> set es" and "cell_run (once_enter a) (once_complete a) (\<lambda>m. m) es m = (rs, m')"
  shows "starts rs \<le> (if rd_u32 m a \<noteq> 1 \<and> rd_u32 m a \<noteq> 2 then 1 else 0)
    \<and> (rd_u32 m a \<noteq> 1 \<longrightarrow> Already \<in> set rs \<longrightarrow> Complete \<in> set es)
    \<and> (rd_u32 m a = 1 \<longrightarrow> set rs \<subseteq> {Already} \<and> rd_u32 m' a = 1)"
proof -
  have "abandons es = 0" using assms(1) by (auto simp: abandons_def filter_empty_conv)
  then show ?thesis
    using once.starts_bound [of es a "\<lambda>m. m" m] once.not_early [of es a "\<lambda>m. m" m]
      once.finished_stays [of es a "\<lambda>m. m" m] assms
    by (auto simp: once_view_def split: if_splits)
qed

theorem once_runs_once_witness:
  "\<exists>rs m'. cell_run (once_enter 8) (once_complete 8) (\<lambda>m. m) [Enter 1, Enter 2, Complete, Enter 3]
       \<lparr>mem_mapped = True, mem_size = 64, mem_bytes = (\<lambda>_. 0)\<rparr> = (rs, m')
     \<and> rs = [Start, Blocked, Already] \<and> starts rs \<le> 1"
proof -
  let ?m = "\<lparr>mem_mapped = True, mem_size = 64, mem_bytes = (\<lambda>_. 0)\<rparr>"
  have z: "rd_u32 ?m 8 = 0" by (simp add: rd_u32_def rd_bytes_def upt_rec)
  obtain rs m' where r: "cell_run (once_enter 8) (once_complete 8) (\<lambda>m. m) [Enter 1, Enter 2, Complete, Enter 3] ?m
      = (rs, m')" by (rule prod.exhaust)
  then have "rs = [Start, Blocked, Already]" using z by (auto simp: once_enter_def once_complete_def)
  then show ?thesis using r once_runs_once [OF _ r] z by auto
qed



end
