(* ===== verification/ByteReads.thy ===== *)
theory ByteReads
  imports GuestMem "HOL-Library.Monad_Syntax"
begin

text \<open>
  Reads from a buffer of bytes: a read at an offset outside it is \<open>None\<close> (the C code reads
  outside its buffer). C strings as character lists, and their comparison without case.
\<close>

section \<open>Bounded reads\<close>

definition rd8 :: "u8 list \<Rightarrow> nat \<Rightarrow> u8 option" where
  "rd8 b i = (if i < length b then Some (b ! i) else None)"

definition rd_le :: "u8 list \<Rightarrow> nat \<Rightarrow> nat \<Rightarrow> 'a::len word option" where
  "rd_le b i n = (if i + n \<le> length b then Some (of_le (take n (drop i b))) else None)"

definition rd_blk :: "u8 list \<Rightarrow> nat \<Rightarrow> nat \<Rightarrow> u8 list option" where
  "rd_blk b i n = (if i + n \<le> length b then Some (take n (drop i b)) else None)"

abbreviation read_le16 :: "u8 list \<Rightarrow> nat \<Rightarrow> u16 option" where
  "read_le16 b i \<equiv> rd_le b i 2"

abbreviation read_le32 :: "u8 list \<Rightarrow> nat \<Rightarrow> u32 option" where
  "read_le32 b i \<equiv> rd_le b i 4"

text \<open>\<open>strnlen(p, n)\<close> on the bytes from \<open>i\<close>.\<close>

fun c_strnlen :: "u8 list \<Rightarrow> nat \<Rightarrow> nat \<Rightarrow> nat option" where
  "c_strnlen b i 0 = Some 0"
| "c_strnlen b i (Suc n) =
     do { c \<leftarrow> rd8 b i; if c = 0 then Some 0 else map_option Suc (c_strnlen b (Suc i) n) }"

definition str_of :: "u8 list \<Rightarrow> string" where
  "str_of bs = map (\<lambda>c. char_of (unat c)) bs"

text \<open>\<open>tolower\<close> in the C locale and \<open>strcasecmp(s, t) == 0\<close>.\<close>

definition lower :: "char \<Rightarrow> char" where
  "lower c = (if 65 \<le> (of_char c :: nat) \<and> (of_char c :: nat) \<le> 90 then char_of (of_char c + 32 :: nat) else c)"

definition strcaseeq :: "string \<Rightarrow> string \<Rightarrow> bool" where
  "strcaseeq s t \<longleftrightarrow> map lower s = map lower t"

section \<open>Facts about the reads\<close>

lemma unat_ucast_up:
  fixes x :: "'a::len word"
  assumes "LENGTH('a) \<le> LENGTH('b::len)"
  shows "unat (ucast x :: 'b word) = unat x"
proof -
  have "unat x < 2 ^ LENGTH('a)" by (rule unsigned_less)
  also have "(2 :: nat) ^ LENGTH('a) \<le> 2 ^ LENGTH('b)" using assms by (rule power_increasing) simp
  finally show ?thesis by (simp add: unsigned_ucast_eq take_bit_nat_eq_self)
qed

lemma c_strnlen_eq:
  "i + n \<le> length b \<Longrightarrow> c_strnlen b i n = Some (length (takeWhile (\<lambda>c. c \<noteq> 0) (take n (drop i b))))"
proof (induction n arbitrary: i)
  case (Suc n)
  then have "drop i b = b ! i # drop (Suc i) b" by (simp add: Cons_nth_drop_Suc)
  with Suc show ?case by (simp add: rd8_def)
qed simp

lemma rd_le_in: "i + n \<le> length b \<Longrightarrow> rd_le b i n = Some (of_le (take n (drop i b)))"
  by (simp add: rd_le_def)

lemma drop_plus: "drop (m + n) xs = drop n (drop m xs)"
  by (simp add: add.commute)

lemma drop_after: "length xs = n \<Longrightarrow> drop (n + k) (xs @ ys) = drop k ys"
  by simp

definition str_bytes :: "string \<Rightarrow> u8 list" where
  "str_bytes s = map (\<lambda>c. of_nat (of_char c)) s"

lemma str_of_bytes: "str_of (str_bytes s) = s"
proof -
  have "char_of (unat (of_nat (of_char c) :: u8)) = (c :: char)" for c
    using mod_less_divisor [of 256 "of_char c :: nat"] by (simp add: unat_of_nat)
  then show ?thesis by (simp add: str_of_def str_bytes_def comp_def map_idI)
qed

lemma str_bytes_nonzero: "CHR 0x00 \<notin> set s \<Longrightarrow> 0 \<notin> set (str_bytes s)"
proof -
  have z: "c = CHR 0x00" if "(of_nat (of_char c) :: u8) = 0" for c :: char
  proof -
    have "unat (of_nat (of_char c) :: u8) = of_char c"
      using mod_less_divisor [of 256 "of_char c :: nat"] by (simp add: unat_of_nat)
    with that have "of_char c = (of_char CHR 0x00 :: nat)" by simp
    then show ?thesis by (simp only: of_char_eq_iff)
  qed
  show "CHR 0x00 \<notin> set s \<Longrightarrow> 0 \<notin> set (str_bytes s)"
    using z by (fastforce simp: str_bytes_def)
qed

end
