(* ===== verification/PresentQueue.thy ===== *)
theory PresentQueue
  imports ByteReads
begin

text \<open>
  The frame queue between the renderer and the presenter,
  \<open>modules/libSceVideoOut/ps4_present_queue.c\<close>. Every operation runs under the queue's
  mutex; the non-blocking transitions are functions on the queue, the blocking calls repeat one
  of them after each wake-up, which is a function saying what the other threads did meanwhile.
  The slot \<open>-1\<close> is \<open>None\<close>. The floating-point pacing (\<open>ps4_present_min_duration\<close>) and the
  clock are not modelled.
\<close>

section \<open>State\<close>

datatype pq_state = PQ_FREE | PQ_RENDERING | PQ_QUEUED | PQ_PRESENTING

record pqueue =
  pq_n :: nat
  pq_mailbox :: bool
  pq_stop :: bool
  pq_st :: "pq_state list"
  pq_keep :: "bool list"
  pq_order :: "u64 list"
  pq_next :: u64
  pq_superseded :: u64
  pq_credits :: int

datatype present_mode = UNCAPPED | VSYNC | MAILBOX

definition ps4_present_parse_mode :: "string option \<Rightarrow> bool \<times> present_mode" where
  "ps4_present_parse_mode s =
     (case s of None \<Rightarrow> (True, UNCAPPED)
      | Some t \<Rightarrow>
          if t = [] \<or> strcaseeq t ''uncapped'' then (True, UNCAPPED)
          else if strcaseeq t ''vsync'' then (True, VSYNC)
          else if strcaseeq t ''mailbox'' then (True, MAILBOX)
          else (False, UNCAPPED))"

definition ps4_present_mode_name :: "present_mode \<Rightarrow> string" where
  "ps4_present_mode_name m =
     (case m of VSYNC \<Rightarrow> ''vsync'' | MAILBOX \<Rightarrow> ''mailbox'' | UNCAPPED \<Rightarrow> ''uncapped'')"

definition ps4_pq_init :: "int \<Rightarrow> bool \<Rightarrow> pqueue" where
  "ps4_pq_init n mb =
     \<lparr>pq_n = (if n < 1 then 1 else if n > 4 then 4 else nat n), pq_mailbox = mb, pq_stop = False,
      pq_st = replicate 4 PQ_FREE, pq_keep = replicate 4 False, pq_order = replicate 4 0,
      pq_next = 0, pq_superseded = 0, pq_credits = 0\<rparr>"

section \<open>Transitions\<close>

text \<open>The loop over the slots from \<open>i\<close> on, \<open>best\<close> the oldest one so far.\<close>

fun oldest_scan :: "pqueue \<Rightarrow> bool \<Rightarrow> nat option \<Rightarrow> nat list \<Rightarrow> nat option" where
  "oldest_scan q skip_keep best [] = best"
| "oldest_scan q skip_keep best (i # is) =
     (if pq_st q ! i \<noteq> PQ_QUEUED \<or> skip_keep \<and> pq_keep q ! i then oldest_scan q skip_keep best is
      else oldest_scan q skip_keep
             (case best of None \<Rightarrow> Some i
              | Some b \<Rightarrow> if pq_order q ! i < pq_order q ! b then Some i else Some b) is)"

definition oldest_queued :: "pqueue \<Rightarrow> bool \<Rightarrow> nat option" where
  "oldest_queued q skip_keep = oldest_scan q skip_keep None [0..<pq_n q]"

text \<open>The slot to acquire, and whether it is a queued frame that is replaced.\<close>

definition acquirable :: "pqueue \<Rightarrow> (nat \<times> bool) option" where
  "acquirable q =
     (if \<not> pq_mailbox q \<and> pq_credits q \<le> 0 then None else
      case List.find (\<lambda>i. pq_st q ! i = PQ_FREE) [0..<pq_n q] of
        Some i \<Rightarrow> Some (i, False)
      | None \<Rightarrow> if \<not> pq_mailbox q then None else map_option (\<lambda>i. (i, True)) (oldest_queued q True))"

definition ps4_pq_try_acquire_locked :: "pqueue \<Rightarrow> (nat \<times> bool) option \<times> pqueue" where
  "ps4_pq_try_acquire_locked q =
     (case acquirable q of
        None \<Rightarrow> (None, q)
      | Some (i, replaces) \<Rightarrow>
          (let q1 = q\<lparr>pq_st := (pq_st q)[i := PQ_RENDERING]\<rparr>
           in (Some (i, replaces),
               if replaces then q1\<lparr>pq_superseded := pq_superseded q1 + 1\<rparr>
               else if \<not> pq_mailbox q then q1\<lparr>pq_credits := pq_credits q1 - 1\<rparr> else q1)))"

definition ps4_pq_can_acquire_locked :: "pqueue \<Rightarrow> bool" where
  "ps4_pq_can_acquire_locked q \<longleftrightarrow> acquirable q \<noteq> None"

text \<open>\<open>slot\<close> is an \<open>int\<close> of the caller: a negative one is refused.\<close>

definition owned :: "pqueue \<Rightarrow> int \<Rightarrow> pq_state \<Rightarrow> bool" where
  "owned q slot s \<longleftrightarrow> 0 \<le> slot \<and> slot < int (pq_n q) \<and> pq_st q ! nat slot = s"

definition ps4_pq_submit_locked :: "pqueue \<Rightarrow> int \<Rightarrow> bool \<Rightarrow> bool \<times> pqueue" where
  "ps4_pq_submit_locked q slot keep =
     (if \<not> owned q slot PQ_RENDERING then (False, q) else
      let i = nat slot
      in (True, q\<lparr>pq_st := (pq_st q)[i := PQ_QUEUED], pq_keep := (pq_keep q)[i := keep],
                 pq_order := (pq_order q)[i := pq_next q + 1], pq_next := pq_next q + 1\<rparr>))"

definition ps4_pq_cancel_locked :: "pqueue \<Rightarrow> int \<Rightarrow> bool \<times> pqueue" where
  "ps4_pq_cancel_locked q slot =
     (if \<not> owned q slot PQ_RENDERING then (False, q) else
      let q1 = q\<lparr>pq_st := (pq_st q)[nat slot := PQ_FREE]\<rparr>
      in (True, if \<not> pq_mailbox q1 \<and> pq_credits q1 < 1 then q1\<lparr>pq_credits := pq_credits q1 + 1\<rparr> else q1))"

definition ps4_pq_try_take_locked :: "pqueue \<Rightarrow> nat option \<times> pqueue" where
  "ps4_pq_try_take_locked q =
     (case oldest_queued q False of
        None \<Rightarrow> (None, q)
      | Some i \<Rightarrow> (Some i, q\<lparr>pq_st := (pq_st q)[i := PQ_PRESENTING]\<rparr>))"

definition ps4_pq_release_locked :: "pqueue \<Rightarrow> int \<Rightarrow> bool \<times> pqueue" where
  "ps4_pq_release_locked q slot =
     (if \<not> owned q slot PQ_PRESENTING then (False, q) else
      (True, q\<lparr>pq_st := (pq_st q)[nat slot := PQ_FREE], pq_keep := (pq_keep q)[nat slot := False]\<rparr>))"

definition ps4_pq_grant_locked :: "pqueue \<Rightarrow> pqueue" where
  "ps4_pq_grant_locked q = (if pq_credits q < 1 then q\<lparr>pq_credits := pq_credits q + 1\<rparr> else q)"

definition ps4_pq_claim_drawable_locked :: "pqueue \<Rightarrow> bool \<times> pqueue" where
  "ps4_pq_claim_drawable_locked q =
     (if \<exists>i < pq_n q. pq_st q ! i = PQ_RENDERING \<or> pq_st q ! i = PQ_QUEUED then (False, q)
      else (True, if \<not> pq_mailbox q \<and> 0 < pq_credits q then q\<lparr>pq_credits := pq_credits q - 1\<rparr> else q))"

definition ps4_pq_idle_locked :: "pqueue \<Rightarrow> bool" where
  "ps4_pq_idle_locked q \<longleftrightarrow>
     \<not> (\<exists>i < pq_n q. pq_st q ! i = PQ_QUEUED \<or> pq_st q ! i = PQ_PRESENTING)"

section \<open>Blocking calls\<close>

text \<open>
  A wake-up is \<open>None\<close> when the deadline had passed before the wait and \<open>Some w\<close> when the
  thread slept and \<open>w\<close> is what happened to the queue. The result is \<open>None\<close> while the thread
  still sleeps after the given wake-ups.
\<close>

type_synonym pq_wake = "pqueue \<Rightarrow> pqueue"

fun ps4_pq_acquire :: "pqueue \<Rightarrow> pq_wake option list \<Rightarrow> ((nat \<times> bool) option \<times> pqueue) option" where
  "ps4_pq_acquire q ws =
     (if pq_stop q then Some (None, q) else
      case ps4_pq_try_acquire_locked q of
        (Some r, q') \<Rightarrow> Some (Some r, q')
      | (None, _) \<Rightarrow>
          (case ws of [] \<Rightarrow> None
           | None # _ \<Rightarrow> Some (None, q)
           | Some w # ws' \<Rightarrow> ps4_pq_acquire (w q) ws'))"

fun ps4_pq_take :: "pqueue \<Rightarrow> pq_wake list \<Rightarrow> (nat option \<times> pqueue) option" where
  "ps4_pq_take q ws =
     (if pq_stop q then Some (None, q) else
      case ps4_pq_try_take_locked q of
        (Some i, q') \<Rightarrow> Some (Some i, q')
      | (None, _) \<Rightarrow> (case ws of [] \<Rightarrow> None | w # ws' \<Rightarrow> ps4_pq_take (w q) ws'))"

fun ps4_pq_drain :: "pqueue \<Rightarrow> pq_wake option list \<Rightarrow> (bool \<times> pqueue) option" where
  "ps4_pq_drain q ws =
     (if ps4_pq_idle_locked q then Some (True, q) else
      case ws of [] \<Rightarrow> None
      | None # _ \<Rightarrow> Some (False, q)
      | Some w # ws' \<Rightarrow> ps4_pq_drain (w q) ws')"

definition ps4_pq_submit :: "pqueue \<Rightarrow> int \<Rightarrow> bool \<Rightarrow> bool \<times> pqueue" where
  "ps4_pq_submit q slot keep = ps4_pq_submit_locked q slot keep"

definition ps4_pq_cancel :: "pqueue \<Rightarrow> int \<Rightarrow> bool \<times> pqueue" where
  "ps4_pq_cancel q slot = ps4_pq_cancel_locked q slot"

definition ps4_pq_release :: "pqueue \<Rightarrow> int \<Rightarrow> bool \<times> pqueue" where
  "ps4_pq_release q slot = ps4_pq_release_locked q slot"

definition ps4_pq_grant :: "pqueue \<Rightarrow> pqueue" where
  "ps4_pq_grant q = ps4_pq_grant_locked q"

definition ps4_pq_stop :: "pqueue \<Rightarrow> pqueue" where
  "ps4_pq_stop q = q\<lparr>pq_stop := True\<rparr>"

end
