(* ===== verification/PresentProps.thy ===== *)
theory PresentProps
  imports PresentQueue "HOL-Library.Multiset"
begin

text \<open>
  The frame queue as a line of slots in submission order: what each transition does to the line,
  what happens to every submitted frame over any run, and when the blocking calls return.
\<close>

section \<open>The line of queued slots\<close>

definition queued_slots :: "pqueue \<Rightarrow> nat list" where
  "queued_slots q = filter (\<lambda>i. pq_st q ! i = PQ_QUEUED) [0..<pq_n q]"

definition pq_line :: "pqueue \<Rightarrow> nat list" where
  "pq_line q = sort_key (\<lambda>i. pq_order q ! i) (queued_slots q)"

definition pq_ok :: "pqueue \<Rightarrow> bool" where
  "pq_ok q \<longleftrightarrow> 1 \<le> pq_n q \<and> pq_n q \<le> 4
     \<and> length (pq_st q) = 4 \<and> length (pq_keep q) = 4 \<and> length (pq_order q) = 4
     \<and> 0 \<le> pq_credits q \<and> pq_credits q \<le> 1
     \<and> inj_on (\<lambda>i. pq_order q ! i) (set (queued_slots q))
     \<and> (\<forall>i \<in> set (queued_slots q). pq_order q ! i \<le> pq_next q)"

lemma mem_queued [simp]: "i \<in> set (queued_slots q) \<longleftrightarrow> i < pq_n q \<and> pq_st q ! i = PQ_QUEUED"
  by (auto simp: queued_slots_def)

lemma distinct_queued [simp]: "distinct (queued_slots q)"
  by (simp add: queued_slots_def)

lemma mem_line [simp]: "i \<in> set (pq_line q) \<longleftrightarrow> i < pq_n q \<and> pq_st q ! i = PQ_QUEUED"
  by (simp add: pq_line_def)

lemma distinct_line [simp]: "distinct (pq_line q)"
  by (simp add: pq_line_def)

lemma sorted_line: "sorted (map (\<lambda>i. pq_order q ! i) (pq_line q))"
  by (simp add: pq_line_def)

lemma strict_line:
  assumes "pq_ok q"
  shows "sorted_wrt (<) (map (\<lambda>i. pq_order q ! i) (pq_line q))"
proof -
  have "inj_on (\<lambda>i. pq_order q ! i) (set (pq_line q))"
    using assms by (auto simp: pq_ok_def inj_on_def)
  then have "distinct (map (\<lambda>i. pq_order q ! i) (pq_line q))" by (simp add: distinct_map)
  with sorted_line show ?thesis by (auto simp: strict_sorted_iff)
qed

text \<open>A list with the queued slots in strict order of submission is the line.\<close>

lemma line_unique:
  assumes "set xs = set (queued_slots q)" and "sorted_wrt (<) (map (\<lambda>i. pq_order q ! i) xs)"
  shows "pq_line q = xs"
proof -
  have s: "sorted (map (\<lambda>i. pq_order q ! i) xs)" and d: "distinct (map (\<lambda>i. pq_order q ! i) xs)"
    using assms(2) by (simp_all add: strict_sorted_iff)
  have i: "inj_on (\<lambda>i. pq_order q ! i) (set xs)" and dx: "distinct xs" using d by (simp_all add: distinct_map)
  have "mset (queued_slots q) = mset xs"
    using dx assms(1) by (simp add: set_eq_iff_mset_eq_distinct)
  with i s assms(1) show ?thesis unfolding pq_line_def by (intro sort_key_inj_key_eq) simp_all
qed

section \<open>The oldest slot\<close>

definition candidate :: "pqueue \<Rightarrow> bool \<Rightarrow> nat \<Rightarrow> bool" where
  "candidate q sk i \<longleftrightarrow> pq_st q ! i = PQ_QUEUED \<and> \<not> (sk \<and> pq_keep q ! i)"

lemma oldest_scan_spec:
  "(oldest_scan q sk best is = None \<longleftrightarrow> best = None \<and> (\<forall>i \<in> set is. \<not> candidate q sk i))
   \<and> (\<forall>r. oldest_scan q sk best is = Some r \<longrightarrow>
        (best = Some r \<or> r \<in> set is \<and> candidate q sk r)
        \<and> (\<forall>i \<in> set is. candidate q sk i \<longrightarrow> pq_order q ! r \<le> pq_order q ! i)
        \<and> (\<forall>b. best = Some b \<longrightarrow> pq_order q ! r \<le> pq_order q ! b))"
proof (induction "is" arbitrary: best)
  case Nil
  then show ?case by simp
next
  case (Cons i "is")
  show ?case
  proof (cases "candidate q sk i")
    case False
    then have "oldest_scan q sk best (i # is) = oldest_scan q sk best is" by (auto simp: candidate_def)
    with Cons.IH [of best] False show ?thesis by auto
  next
    case True
    let ?b = "case best of None \<Rightarrow> Some i | Some b \<Rightarrow> if pq_order q ! i < pq_order q ! b then Some i else Some b"
    have e: "oldest_scan q sk best (i # is) = oldest_scan q sk ?b is" using True by (auto simp: candidate_def)
    obtain b where b: "?b = Some b" "b = i \<or> best = Some b" "pq_order q ! b \<le> pq_order q ! i"
      "\<forall>x. best = Some x \<longrightarrow> pq_order q ! b \<le> pq_order q ! x"
    proof (cases best)
      case None
      then show ?thesis by (intro that [of i]) simp_all
    next
      case (Some a)
      then show ?thesis
        by (intro that [of "if pq_order q ! i < pq_order q ! a then i else a"]) (auto simp: not_less)
    qed
    from Cons.IH [of ?b] b True show ?thesis unfolding e by (auto dest: order_trans)
  qed
qed

lemma oldest_queued_line:
  assumes "pq_ok q"
  shows "oldest_queued q sk = List.find (\<lambda>i. \<not> (sk \<and> pq_keep q ! i)) (pq_line q)"
proof (cases "oldest_queued q sk")
  case None
  then have "\<forall>i < pq_n q. \<not> candidate q sk i"
    using oldest_scan_spec [of q sk None "[0..<pq_n q]"] by (auto simp: oldest_queued_def)
  then have "List.find (\<lambda>i. \<not> (sk \<and> pq_keep q ! i)) (pq_line q) = None"
    by (auto simp: find_None_iff candidate_def)
  with None show ?thesis by simp
next
  case (Some r)
  then have r: "r < pq_n q" "candidate q sk r"
    and least: "\<And>i. i < pq_n q \<Longrightarrow> candidate q sk i \<Longrightarrow> pq_order q ! r \<le> pq_order q ! i"
    using oldest_scan_spec [of q sk None "[0..<pq_n q]"] by (auto simp: oldest_queued_def)
  have "r \<in> set (pq_line q)" using r by (simp add: candidate_def)
  then obtain k where k: "k < length (pq_line q)" "pq_line q ! k = r" by (auto simp: in_set_conv_nth)
  have "sk \<and> pq_keep q ! (pq_line q ! j)" if "j < k" for j
  proof (rule ccontr)
    assume n: "\<not> (sk \<and> pq_keep q ! (pq_line q ! j))"
    have j: "pq_line q ! j \<in> set (pq_line q)" using that k(1) by (intro nth_mem) simp
    then have "candidate q sk (pq_line q ! j)" "pq_line q ! j < pq_n q" using n by (auto simp: candidate_def simp del: nth_mem)
    then have "pq_order q ! r \<le> pq_order q ! (pq_line q ! j)" using least by blast
    moreover have "pq_order q ! (pq_line q ! j) < pq_order q ! r"
      using sorted_wrt_nth_less [OF strict_line [OF assms], of j k] that k by simp
    ultimately show False by simp
  qed
  then have "List.find (\<lambda>i. \<not> (sk \<and> pq_keep q ! i)) (pq_line q) = Some r"
    using k r(2) by (auto simp: find_Some_iff candidate_def)
  with Some show ?thesis by simp
qed

section \<open>What a transition does to the line\<close>

lemma pq_okD:
  assumes "pq_ok q"
  shows "1 \<le> pq_n q" "pq_n q \<le> 4" "length (pq_st q) = 4" "length (pq_keep q) = 4" "length (pq_order q) = 4"
    "0 \<le> pq_credits q" "pq_credits q \<le> 1"
  using assms by (simp_all add: pq_ok_def)

lemma set_slot:
  assumes "pq_ok q" and "i < 4" and "s \<noteq> PQ_QUEUED"
    and "pq_st q' = (pq_st q)[i := s]" and "pq_n q' = pq_n q" and "pq_order q' = pq_order q"
  shows "pq_line q' = filter (\<lambda>j. j \<noteq> i) (pq_line q)"
proof (rule line_unique)
  note d = pq_okD [OF assms(1)]
  show "set (filter (\<lambda>j. j \<noteq> i) (pq_line q)) = set (queued_slots q')"
    using assms(2-5) d by (auto simp: nth_list_update split: if_splits)
  show "sorted_wrt (<) (map (\<lambda>j. pq_order q' ! j) (filter (\<lambda>j. j \<noteq> i) (pq_line q)))"
    using strict_line [OF assms(1)] assms(6) by (simp add: sorted_wrt_map sorted_wrt_filter)
qed

lemma set_slot_ok:
  assumes "pq_ok q" and "i < 4" and "s \<noteq> PQ_QUEUED"
    and "pq_st q' = (pq_st q)[i := s]" and "pq_n q' = pq_n q" and "pq_order q' = pq_order q"
    and "length (pq_keep q') = 4" and "pq_next q' = pq_next q" and "0 \<le> pq_credits q'" and "pq_credits q' \<le> 1"
  shows "pq_ok q'"
proof -
  note d = pq_okD [OF assms(1)]
  have "set (queued_slots q') \<subseteq> set (queued_slots q)"
    using assms(2-5) d by (auto simp: nth_list_update split: if_splits)
  with assms d show ?thesis by (auto simp: pq_ok_def intro: inj_on_subset)
qed

lemma submit_line:
  fixes k
  assumes "pq_ok q" and "i < pq_n q" and "pq_st q ! i = PQ_RENDERING" and "pq_next q \<noteq> - 1"
  defines "q' \<equiv> q\<lparr>pq_st := (pq_st q)[i := PQ_QUEUED], pq_keep := (pq_keep q)[i := k],
                 pq_order := (pq_order q)[i := pq_next q + 1], pq_next := pq_next q + 1\<rparr>"
  shows "pq_line q' = pq_line q @ [i]" and "pq_ok q'"
    and "\<forall>j \<in> set (pq_line q). pq_order q' ! j = pq_order q ! j \<and> pq_keep q' ! j = pq_keep q ! j"
    and "pq_order q' ! i = pq_next q' \<and> pq_keep q' ! i = k" and "pq_next q < pq_next q + 1"
proof -
  note d = pq_okD [OF assms(1)]
  have i4: "i < 4" using assms(2) d by simp
  show up: "pq_next q < pq_next q + 1"
  proof -
    have "Suc (unat (pq_next q)) < 2 ^ 64"
    proof (rule ccontr)
      assume "\<not> Suc (unat (pq_next q)) < 2 ^ 64"
      then have "unat (pq_next q) = 2 ^ 64 - 1" using u64_lt [of "pq_next q"] by simp
      then have "unat (pq_next q) = unat (- 1 :: u64)"
        by (simp add: unsigned_minus_1_eq_mask mask_eq_exp_minus_1)
      then show False using assms(4) by (simp add: unsigned_word_eqI)
    qed
    then show ?thesis by (simp add: word_less_nat_alt unat_word_ariths)
  qed
  have le: "pq_order q ! j \<le> pq_next q" if "j \<in> set (pq_line q)" for j
    using that assms(1) by (simp add: pq_ok_def)
  have ne: "j \<noteq> i" if "j \<in> set (pq_line q)" for j using that assms(3) by auto
  have old: "pq_order q' ! j = pq_order q ! j" if "j \<in> set (pq_line q)" for j
    using ne [OF that] by (auto simp: q'_def)
  show keep: "\<forall>j \<in> set (pq_line q). pq_order q' ! j = pq_order q ! j \<and> pq_keep q' ! j = pq_keep q ! j"
    using assms(3) i4 d by (auto simp: q'_def nth_list_update)
  show new: "pq_order q' ! i = pq_next q' \<and> pq_keep q' ! i = k" using i4 d by (simp add: q'_def)
  have set: "set (pq_line q @ [i]) = set (queued_slots q')"
    using assms(2,3) d i4 by (auto simp: q'_def nth_list_update split: if_splits)
  have m: "map (\<lambda>j. pq_order q' ! j) (pq_line q) = map (\<lambda>j. pq_order q ! j) (pq_line q)" using old by simp
  have s: "sorted_wrt (<) (map (\<lambda>j. pq_order q' ! j) (pq_line q @ [i]))"
    unfolding map_append sorted_wrt_append m
    using strict_line [OF assms(1)] new le up by (fastforce simp: q'_def)
  show "pq_line q' = pq_line q @ [i]" by (rule line_unique [OF set s])
  have "inj_on (\<lambda>j. pq_order q' ! j) (set (queued_slots q'))"
    using s unfolding set [symmetric] by (simp only: strict_sorted_iff distinct_map)
  moreover have "\<forall>j \<in> set (queued_slots q'). pq_order q' ! j \<le> pq_next q'"
    unfolding set [symmetric] using old le new up by (fastforce simp: q'_def)
  ultimately show "pq_ok q'" using d by (simp add: pq_ok_def q'_def)
qed

section \<open>The transitions\<close>

lemma acquirable_line:
  assumes "pq_ok q"
  shows "acquirable q = (if \<not> pq_mailbox q \<and> pq_credits q \<le> 0 then None else
      case List.find (\<lambda>i. pq_st q ! i = PQ_FREE) [0..<pq_n q] of
        Some i \<Rightarrow> Some (i, False)
      | None \<Rightarrow> if \<not> pq_mailbox q then None
          else map_option (\<lambda>i. (i, True)) (List.find (\<lambda>i. \<not> pq_keep q ! i) (pq_line q)))"
  by (simp add: acquirable_def oldest_queued_line [OF assms] cong: option.case_cong)

text \<open>What an acquired slot was, and the queue afterwards.\<close>

lemma try_acquire_Some:
  assumes "pq_ok q" and "ps4_pq_try_acquire_locked q = (Some (i, r), q')"
  shows "i < pq_n q \<and> pq_ok q' \<and> pq_n q' = pq_n q \<and> pq_mailbox q' = pq_mailbox q
    \<and> pq_line q' = filter (\<lambda>j. j \<noteq> i) (pq_line q) \<and> pq_order q' = pq_order q \<and> pq_keep q' = pq_keep q
    \<and> pq_next q' = pq_next q \<and> pq_st q' = (pq_st q)[i := PQ_RENDERING]"
    and "if r then pq_mailbox q \<and> i \<in> set (pq_line q) \<and> \<not> pq_keep q ! i
           \<and> pq_superseded q' = pq_superseded q + 1 \<and> pq_credits q' = pq_credits q
         else pq_st q ! i = PQ_FREE \<and> pq_superseded q' = pq_superseded q
           \<and> pq_credits q' = (if pq_mailbox q then pq_credits q else pq_credits q - 1)"
    and "\<not> pq_mailbox q \<Longrightarrow> 0 < pq_credits q"
proof -
  note d = pq_okD [OF assms(1)]
  let ?q1 = "q\<lparr>pq_st := (pq_st q)[i := PQ_RENDERING]\<rparr>"
  have acq: "acquirable q = Some (i, r)" and q': "q' = (if r then ?q1\<lparr>pq_superseded := pq_superseded q + 1\<rparr>
      else if \<not> pq_mailbox q then ?q1\<lparr>pq_credits := pq_credits q - 1\<rparr> else ?q1)"
    using assms(2) by (auto simp: ps4_pq_try_acquire_locked_def Let_def split: option.splits prod.splits if_splits)
  have cr: "\<not> pq_mailbox q \<Longrightarrow> 0 < pq_credits q"
    using acq by (auto simp: acquirable_def split: if_splits)
  have i: "i < pq_n q" "if r then pq_mailbox q \<and> i \<in> set (pq_line q) \<and> \<not> pq_keep q ! i else pq_st q ! i = PQ_FREE"
    using acq unfolding acquirable_line [OF assms(1)]
    by (auto simp: find_Some_iff split: if_splits option.splits dest: nth_mem)
  have ok: "pq_ok q'"
    using set_slot_ok [OF assms(1), of i PQ_RENDERING q'] i(1) d cr q' by (cases r; cases "pq_mailbox q") auto
  have ln: "pq_line q' = filter (\<lambda>j. j \<noteq> i) (pq_line q)"
    using set_slot [OF assms(1), of i PQ_RENDERING q'] i(1) d q' by (cases r; cases "pq_mailbox q") auto
  show "i < pq_n q \<and> pq_ok q' \<and> pq_n q' = pq_n q \<and> pq_mailbox q' = pq_mailbox q
    \<and> pq_line q' = filter (\<lambda>j. j \<noteq> i) (pq_line q) \<and> pq_order q' = pq_order q \<and> pq_keep q' = pq_keep q
    \<and> pq_next q' = pq_next q \<and> pq_st q' = (pq_st q)[i := PQ_RENDERING]"
    using i(1) ok ln by (simp add: q')
  show "if r then pq_mailbox q \<and> i \<in> set (pq_line q) \<and> \<not> pq_keep q ! i
           \<and> pq_superseded q' = pq_superseded q + 1 \<and> pq_credits q' = pq_credits q
         else pq_st q ! i = PQ_FREE \<and> pq_superseded q' = pq_superseded q
           \<and> pq_credits q' = (if pq_mailbox q then pq_credits q else pq_credits q - 1)"
    using i(2) by (cases r) (simp_all add: q')
  show "0 < pq_credits q" if "\<not> pq_mailbox q" using cr that by blast
qed

lemma try_take_line:
  assumes "pq_ok q"
  shows "ps4_pq_try_take_locked q =
    (case pq_line q of [] \<Rightarrow> (None, q) | i # _ \<Rightarrow> (Some i, q\<lparr>pq_st := (pq_st q)[i := PQ_PRESENTING]\<rparr>))"
  by (simp add: ps4_pq_try_take_locked_def oldest_queued_line [OF assms] split: list.splits)

lemma try_take_elim:
  assumes "pq_ok q" and "ps4_pq_try_take_locked q = (Some i, q')"
  obtains xs where "pq_line q = i # xs" and "pq_line q' = xs" and "pq_ok q'" and "i < pq_n q"
    and "q' = q\<lparr>pq_st := (pq_st q)[i := PQ_PRESENTING]\<rparr>"
proof -
  note d = pq_okD [OF assms(1)]
  obtain xs where xs: "pq_line q = i # xs" and q': "q' = q\<lparr>pq_st := (pq_st q)[i := PQ_PRESENTING]\<rparr>"
    using assms(2) unfolding try_take_line [OF assms(1)] by (auto split: list.splits)
  have i: "i < pq_n q" using mem_line [of i q] xs by simp
  have "i \<notin> set xs" using distinct_line [of q] xs by simp
  then have "filter (\<lambda>j. j \<noteq> i) xs = xs" by (auto intro: filter_True)
  then have "pq_line q' = xs" using set_slot [OF assms(1), of i PQ_PRESENTING q'] i d xs q' by simp
  moreover have "pq_ok q'" using set_slot_ok [OF assms(1), of i PQ_PRESENTING q'] i d q' by simp
  ultimately show ?thesis using that xs i q' by blast
qed

lemma ownedD: "pq_ok q \<Longrightarrow> owned q slot s \<Longrightarrow> nat slot < pq_n q \<and> nat slot < 4 \<and> pq_st q ! nat slot = s"
  by (auto simp: owned_def pq_ok_def)

text \<open>Giving a slot back does not touch the line.\<close>

lemma line_keeps:
  assumes "pq_ok q" and "i < pq_n q" and "pq_st q ! i \<noteq> PQ_QUEUED"
    and "pq_st q' = (pq_st q)[i := s]" and "s \<noteq> PQ_QUEUED" and "pq_n q' = pq_n q" and "pq_order q' = pq_order q"
  shows "pq_line q' = pq_line q"
proof -
  have "i \<notin> set (pq_line q)" using assms(3) by simp
  then have "filter (\<lambda>j. j \<noteq> i) (pq_line q) = pq_line q" by (auto intro: filter_True)
  with set_slot [OF assms(1) _ assms(5,4,6,7)] assms(2) pq_okD [OF assms(1)] show ?thesis by simp
qed

lemma same_line:
  "pq_st q' = pq_st q \<Longrightarrow> pq_n q' = pq_n q \<Longrightarrow> pq_order q' = pq_order q \<Longrightarrow> pq_line q' = pq_line q"
  by (simp add: pq_line_def queued_slots_def)

lemma same_ok:
  "pq_ok q \<Longrightarrow> pq_st q' = pq_st q \<Longrightarrow> pq_n q' = pq_n q \<Longrightarrow> pq_order q' = pq_order q \<Longrightarrow> pq_next q' = pq_next q
   \<Longrightarrow> pq_keep q' = pq_keep q \<Longrightarrow> 0 \<le> pq_credits q' \<Longrightarrow> pq_credits q' \<le> 1 \<Longrightarrow> pq_ok q'"
  by (simp add: pq_ok_def queued_slots_def)

text \<open>Handing a rendered or presented slot back.\<close>

lemma give_back:
  assumes "pq_ok q" and "owned q slot s" and "s \<noteq> PQ_QUEUED"
    and "pq_st q' = (pq_st q)[nat slot := PQ_FREE]" and "pq_n q' = pq_n q" and "pq_order q' = pq_order q"
    and "length (pq_keep q') = length (pq_keep q)" and "pq_next q' = pq_next q"
    and "0 \<le> pq_credits q'" and "pq_credits q' \<le> 1"
  shows "pq_ok q' \<and> pq_line q' = pq_line q \<and> pq_st q' ! nat slot = PQ_FREE"
proof -
  note d = pq_okD [OF assms(1)]
  have o: "nat slot < pq_n q" "nat slot < 4" "pq_st q ! nat slot \<noteq> PQ_QUEUED"
    using ownedD [OF assms(1,2)] assms(3) by auto
  have "pq_ok q'" using set_slot_ok [OF assms(1) o(2) _ assms(4-6) _ assms(8-10)] assms(7) d by simp
  moreover have "pq_line q' = pq_line q" using line_keeps [OF assms(1) o(1,3) assms(4) _ assms(5,6)] by simp
  ultimately show ?thesis using assms(4) o(2) d by simp
qed

lemma cancel_line:
  assumes "pq_ok q" and "ps4_pq_cancel q slot = (b, q')"
  shows "b = owned q slot PQ_RENDERING \<and> pq_ok q' \<and> pq_line q' = pq_line q
    \<and> (b \<longrightarrow> pq_st q' ! nat slot = PQ_FREE)"
proof (cases "owned q slot PQ_RENDERING")
  case True
  then have q': "b" "pq_st q' = (pq_st q)[nat slot := PQ_FREE]" "pq_n q' = pq_n q" "pq_order q' = pq_order q"
    "length (pq_keep q') = length (pq_keep q)" "pq_next q' = pq_next q"
    using assms(2) by (auto simp: ps4_pq_cancel_def ps4_pq_cancel_locked_def Let_def split: if_splits)
  have "0 \<le> pq_credits q' \<and> pq_credits q' \<le> 1"
    using True assms(2) pq_okD [OF assms(1)]
    by (auto simp: ps4_pq_cancel_def ps4_pq_cancel_locked_def Let_def split: if_splits)
  with give_back [OF assms(1) True _ q'(2-6)] True q'(1) show ?thesis by simp
qed (use assms in \<open>auto simp: ps4_pq_cancel_def ps4_pq_cancel_locked_def\<close>)

lemma release_line:
  assumes "pq_ok q" and "ps4_pq_release q slot = (b, q')"
  shows "b = owned q slot PQ_PRESENTING \<and> pq_ok q' \<and> pq_line q' = pq_line q
    \<and> (b \<longrightarrow> pq_st q' ! nat slot = PQ_FREE)"
proof (cases "owned q slot PQ_PRESENTING")
  case True
  then have q': "b" "q' = q\<lparr>pq_st := (pq_st q)[nat slot := PQ_FREE], pq_keep := (pq_keep q)[nat slot := False]\<rparr>"
    using assms(2) by (auto simp: ps4_pq_release_def ps4_pq_release_locked_def)
  with give_back [OF assms(1) True, of q'] True pq_okD [OF assms(1)] show ?thesis by simp
qed (use assms in \<open>auto simp: ps4_pq_release_def ps4_pq_release_locked_def\<close>)

lemma find_first_split:
  assumes "List.find P xs = Some x" and "distinct xs"
  shows "\<exists>ys zs. xs = ys @ x # zs \<and> filter (\<lambda>y. y \<noteq> x) xs = ys @ zs \<and> P x \<and> (\<forall>y \<in> set ys. \<not> P y)"
proof -
  obtain ys zs where x: "xs = ys @ x # zs" "P x" "\<forall>y \<in> set ys. \<not> P y"
    using assms(1) by (induction xs) (auto split: if_splits, fastforce, metis Cons_eq_appendI set_ConsD)
  moreover have "filter (\<lambda>y. y \<noteq> x) ys = ys" "filter (\<lambda>y. y \<noteq> x) zs = zs"
    using assms(2) x(1) by (auto intro!: filter_True)
  ultimately show ?thesis by auto
qed

lemma acquire_line:
  assumes "pq_ok q" and "ps4_pq_try_acquire_locked q = (a, q')"
  shows "pq_ok q'" and "a \<noteq> None \<longleftrightarrow> ps4_pq_can_acquire_locked q" and "a = None \<Longrightarrow> q' = q"
    and "a \<noteq> None \<Longrightarrow> pq_mailbox q \<or> pq_credits q = 1 \<and> pq_credits q' = 0"
    and "a = Some (i, False) \<Longrightarrow>
      pq_st q ! i = PQ_FREE \<and> (\<forall>j < i. pq_st q ! j \<noteq> PQ_FREE) \<and> pq_line q' = pq_line q"
    and "a = Some (i, True) \<Longrightarrow> pq_mailbox q \<and> (\<forall>j < pq_n q. pq_st q ! j \<noteq> PQ_FREE)
      \<and> (\<exists>xs ys. pq_line q = xs @ i # ys \<and> pq_line q' = xs @ ys \<and> \<not> pq_keep q ! i \<and> (\<forall>j \<in> set xs. pq_keep q ! j))"
proof -
  note d = pq_okD [OF assms(1)]
  have acq: "a = acquirable q"
    using assms(2) by (auto simp: ps4_pq_try_acquire_locked_def Let_def split: option.splits prod.splits)
  then show "a \<noteq> None \<longleftrightarrow> ps4_pq_can_acquire_locked q" by (simp add: ps4_pq_can_acquire_locked_def)
  show none: "q' = q" if "a = None"
    using assms(2) that acq by (auto simp: ps4_pq_try_acquire_locked_def)
  show "pq_ok q'"
  proof (cases a)
    case (Some p)
    then show ?thesis using try_acquire_Some(1) [OF assms(1)] assms(2) by (cases p) auto
  qed (use none assms in auto)
  show "pq_mailbox q \<or> pq_credits q = 1 \<and> pq_credits q' = 0" if "a \<noteq> None"
  proof -
    obtain j r where "a = Some (j, r)" using \<open>a \<noteq> None\<close> by auto
    with try_acquire_Some(2,3) [OF assms(1) assms(2) [unfolded this]] d show ?thesis
      by (cases r; cases "pq_mailbox q") simp_all
  qed
  show "pq_st q ! i = PQ_FREE \<and> (\<forall>j < i. pq_st q ! j \<noteq> PQ_FREE) \<and> pq_line q' = pq_line q" if "a = Some (i, False)"
  proof -
    note s = try_acquire_Some [OF assms(1) assms(2) [unfolded that]]
    have "List.find (\<lambda>i. pq_st q ! i = PQ_FREE) [0..<pq_n q] = Some i"
      using that acq by (auto simp: acquirable_def split: if_splits option.splits)
    then have f: "pq_st q ! i = PQ_FREE" "\<forall>j < i. pq_st q ! j \<noteq> PQ_FREE" by (auto simp: find_Some_iff)
    then have "filter (\<lambda>j. j \<noteq> i) (pq_line q) = pq_line q" by (auto intro: filter_True)
    with s f show ?thesis by simp
  qed
  show "pq_mailbox q \<and> (\<forall>j < pq_n q. pq_st q ! j \<noteq> PQ_FREE)
      \<and> (\<exists>xs ys. pq_line q = xs @ i # ys \<and> pq_line q' = xs @ ys \<and> \<not> pq_keep q ! i \<and> (\<forall>j \<in> set xs. pq_keep q ! j))"
    if "a = Some (i, True)"
  proof -
    note s = try_acquire_Some [OF assms(1) assms(2) [unfolded that]]
    have "List.find (\<lambda>i. pq_st q ! i = PQ_FREE) [0..<pq_n q] = None"
      and f: "List.find (\<lambda>i. \<not> pq_keep q ! i) (pq_line q) = Some i"
      using that acq unfolding acquirable_line [OF assms(1)] by (auto split: if_splits option.splits)
    then have "\<forall>j < pq_n q. pq_st q ! j \<noteq> PQ_FREE" by (auto simp: find_None_iff)
    with s find_first_split [OF f distinct_line] show ?thesis by auto
  qed
qed

lemma submit_call:
  assumes "pq_ok q" and "ps4_pq_submit q slot k = (b, q') \<and> pq_next q \<noteq> - 1"
  shows "b = owned q slot PQ_RENDERING \<and> pq_ok q' \<and> pq_line q' = (if b then pq_line q @ [nat slot] else pq_line q)"
proof (cases "owned q slot PQ_RENDERING")
  case True
  with assms submit_line(1,2) [OF assms(1), of "nat slot" k] ownedD [OF assms(1) True] show ?thesis
    by (auto simp: ps4_pq_submit_def ps4_pq_submit_locked_def Let_def)
qed (use assms in \<open>auto simp: ps4_pq_submit_def ps4_pq_submit_locked_def\<close>)

lemma take_call:
  assumes "pq_ok q" and "ps4_pq_try_take_locked q = (r, q')"
  shows "pq_ok q' \<and> (case pq_line q of [] \<Rightarrow> r = None \<and> q' = q
      | i # xs \<Rightarrow> r = Some i \<and> pq_line q' = xs \<and> pq_st q' ! i = PQ_PRESENTING)"
proof (cases r)
  case None
  with assms(2) show ?thesis unfolding try_take_line [OF assms(1)] using assms(1) by (auto split: list.splits)
next
  case (Some i)
  obtain xs where "pq_line q = i # xs" "pq_line q' = xs" "pq_ok q'" "i < pq_n q"
    "q' = q\<lparr>pq_st := (pq_st q)[i := PQ_PRESENTING]\<rparr>"
    by (rule try_take_elim [OF assms(1) assms(2) [unfolded Some]])
  then show ?thesis using Some pq_okD [OF assms(1)] by simp
qed

lemma acquire_call:
  assumes "pq_ok q" and "ps4_pq_try_acquire_locked q = (a, q')"
  shows "pq_ok q' \<and> (a \<noteq> None \<longleftrightarrow> ps4_pq_can_acquire_locked q)
      \<and> (a \<noteq> None \<longrightarrow> pq_mailbox q \<or> pq_credits q = 1 \<and> pq_credits q' = 0)
      \<and> (\<forall>i. a = Some (i, False) \<longrightarrow>
            pq_st q ! i = PQ_FREE \<and> (\<forall>j < i. pq_st q ! j \<noteq> PQ_FREE) \<and> pq_line q' = pq_line q)
      \<and> (\<forall>i. a = Some (i, True) \<longrightarrow> pq_mailbox q \<and> (\<forall>j < pq_n q. pq_st q ! j \<noteq> PQ_FREE)
            \<and> (\<exists>xs ys. pq_line q = xs @ i # ys \<and> pq_line q' = xs @ ys \<and> \<not> pq_keep q ! i
                 \<and> (\<forall>j \<in> set xs. pq_keep q ! j)))"
  by (intro conjI allI impI acquire_line [OF assms]) 

lemma claim_call:
  assumes "pq_ok q" and "ps4_pq_claim_drawable_locked q = (b, q')"
  shows "pq_ok q' \<and> pq_line q' = pq_line q \<and> (b \<longrightarrow> pq_line q = [])"
proof -
  have "pq_line q = []" if "\<not> (\<exists>i < pq_n q. pq_st q ! i = PQ_RENDERING \<or> pq_st q ! i = PQ_QUEUED)"
    using that mem_line [of _ q] by (metis list.set_intros(1) neq_Nil_conv)
  moreover have "pq_st q' = pq_st q" "pq_n q' = pq_n q" "pq_order q' = pq_order q" "pq_next q' = pq_next q"
    "pq_keep q' = pq_keep q" "0 \<le> pq_credits q'" "pq_credits q' \<le> 1"
    "b \<longrightarrow> \<not> (\<exists>i < pq_n q. pq_st q ! i = PQ_RENDERING \<or> pq_st q ! i = PQ_QUEUED)"
    using assms(2) pq_okD [OF assms(1)] by (auto simp: ps4_pq_claim_drawable_locked_def split: if_splits)
  ultimately show ?thesis using same_line [of q' q] same_ok [OF assms(1), of q'] by blast
qed

lemma grant_call:
  assumes "pq_ok q"
  shows "pq_ok (ps4_pq_grant q) \<and> pq_line (ps4_pq_grant q) = pq_line q \<and> pq_credits (ps4_pq_grant q) = 1"
  using same_line [of "ps4_pq_grant q" q] same_ok [OF assms, of "ps4_pq_grant q"] pq_okD [OF assms] assms
  by (auto simp: ps4_pq_grant_def ps4_pq_grant_locked_def)

section \<open>Each call on the line\<close>


section \<open>Every frame over a run\<close>

text \<open>
  A run of any interleaving of the calls. \<open>subs\<close> are the submitted frames by submission number
  with their keep flag, \<open>shown\<close> the frames the presenter took, in this order, \<open>dropped\<close> the ones
  replaced. Fewer than \<open>2 ^ 64 - 1\<close> frames are submitted.
\<close>

inductive pq_run :: "int \<Rightarrow> bool \<Rightarrow> pqueue \<Rightarrow> (u64 \<times> bool) list \<Rightarrow> u64 list \<Rightarrow> u64 list \<Rightarrow> bool"
  for n mb where
  start: "pq_run n mb (ps4_pq_init n mb) [] [] []"
| submit: "pq_run n mb q subs shown dropped \<Longrightarrow> ps4_pq_submit q slot k = (True, q') \<Longrightarrow>
    pq_next q \<noteq> - 1 \<Longrightarrow> pq_run n mb q' (subs @ [(pq_next q', k)]) shown dropped"
| take: "pq_run n mb q subs shown dropped \<Longrightarrow> ps4_pq_try_take_locked q = (Some i, q') \<Longrightarrow>
    pq_run n mb q' subs (shown @ [pq_order q ! i]) dropped"
| acquire: "pq_run n mb q subs shown dropped \<Longrightarrow> ps4_pq_try_acquire_locked q = (Some (i, r), q') \<Longrightarrow>
    pq_run n mb q' subs shown (if r then dropped @ [pq_order q ! i] else dropped)"
| cancel: "pq_run n mb q subs shown dropped \<Longrightarrow> ps4_pq_cancel q slot = (b, q') \<Longrightarrow> pq_run n mb q' subs shown dropped"
| release: "pq_run n mb q subs shown dropped \<Longrightarrow> ps4_pq_release q slot = (b, q') \<Longrightarrow> pq_run n mb q' subs shown dropped"
| grant: "pq_run n mb q subs shown dropped \<Longrightarrow> pq_run n mb (ps4_pq_grant q) subs shown dropped"
| claim: "pq_run n mb q subs shown dropped \<Longrightarrow> ps4_pq_claim_drawable_locked q = (b, q') \<Longrightarrow>
    pq_run n mb q' subs shown dropped"
| halt: "pq_run n mb q subs shown dropped \<Longrightarrow> pq_run n mb (ps4_pq_stop q) subs shown dropped"

definition line_orders :: "pqueue \<Rightarrow> u64 list" where
  "line_orders q = map (\<lambda>i. pq_order q ! i) (pq_line q)"

definition run_inv :: "bool \<Rightarrow> pqueue \<Rightarrow> (u64 \<times> bool) list \<Rightarrow> u64 list \<Rightarrow> u64 list \<Rightarrow> bool" where
  "run_inv mb q subs shown dropped \<longleftrightarrow> pq_ok q \<and> pq_mailbox q = mb
     \<and> sorted_wrt (<) (map fst subs) \<and> (\<forall>x \<in> set subs. fst x \<le> pq_next q)
     \<and> sorted_wrt (<) (shown @ line_orders q)
     \<and> mset (map fst subs) = mset shown + mset (line_orders q) + mset dropped
     \<and> (\<forall>i \<in> set (pq_line q). (pq_order q ! i, pq_keep q ! i) \<in> set subs)
     \<and> (\<forall>x \<in> set subs. snd x \<longrightarrow> fst x \<notin> set dropped)
     \<and> (\<not> mb \<longrightarrow> dropped = []) \<and> pq_superseded q = of_nat (length dropped)"

lemma init_ok: "pq_ok (ps4_pq_init n mb) \<and> pq_line (ps4_pq_init n mb) = []"
proof -
  have "pq_st (ps4_pq_init n mb) ! i = PQ_FREE" if "i < pq_n (ps4_pq_init n mb)" for i
    using that by (auto simp: ps4_pq_init_def split: if_splits)
  then have "queued_slots (ps4_pq_init n mb) = []" by (auto simp: queued_slots_def filter_empty_conv)
  moreover have "1 \<le> pq_n (ps4_pq_init n mb) \<and> pq_n (ps4_pq_init n mb) \<le> 4"
    by (simp add: ps4_pq_init_def) linarith
  ultimately show ?thesis by (simp add: pq_ok_def pq_line_def) (simp add: ps4_pq_init_def)
qed

lemma run_inv_same:
  assumes "run_inv mb q subs shown dropped" and "pq_ok q'" and "pq_line q' = pq_line q"
    and "pq_order q' = pq_order q" and "\<forall>i \<in> set (pq_line q). pq_keep q' ! i = pq_keep q ! i"
    and "pq_mailbox q' = pq_mailbox q" and "pq_next q' = pq_next q" and "pq_superseded q' = pq_superseded q"
  shows "run_inv mb q' subs shown dropped"
  using assms by (simp add: run_inv_def line_orders_def)

lemma sub_unique:
  fixes a :: u64
  assumes "sorted_wrt (<) (map fst subs)" and "(a, k) \<in> set subs" and "(a, k') \<in> set subs"
  shows "k = k'"
proof -
  have "distinct (map fst subs)" using assms(1) by (simp add: strict_sorted_iff)
  then show ?thesis using eq_key_imp_eq_value assms(2,3) by metis
qed

lemma submit_inv:
  assumes inv: "run_inv mb q subs shown dropped" and call: "ps4_pq_submit q slot k = (True, q')"
    and room: "pq_next q \<noteq> - 1"
  shows "run_inv mb q' (subs @ [(pq_next q', k)]) shown dropped"
proof -
  have ok: "pq_ok q" using inv by (simp add: run_inv_def)
  have own: "owned q slot PQ_RENDERING"
    using call by (auto simp: ps4_pq_submit_def ps4_pq_submit_locked_def split: if_splits)
  let ?i = "nat slot"
  have q': "q' = q\<lparr>pq_st := (pq_st q)[?i := PQ_QUEUED], pq_keep := (pq_keep q)[?i := k],
      pq_order := (pq_order q)[?i := pq_next q + 1], pq_next := pq_next q + 1\<rparr>"
    using call own by (auto simp: ps4_pq_submit_def ps4_pq_submit_locked_def Let_def)
  have i: "?i < pq_n q" "pq_st q ! ?i = PQ_RENDERING" using ownedD [OF ok own] by auto
  note sub = submit_line(1-4) [OF ok i room, where k = k, folded q']
  have up: "pq_next q < pq_next q'" and nxt: "pq_next q' = pq_next q + 1"
    using submit_line(5) [OF ok i room] by (simp_all add: q')
  have subs: "\<forall>x \<in> set subs. fst x \<le> pq_next q" using inv by (simp add: run_inv_def)
  have ord: "line_orders q' = line_orders q @ [pq_next q']"
    using sub(1,3,4) by (simp add: line_orders_def)
  have ms: "mset (map fst subs) = mset shown + mset (line_orders q) + mset dropped"
    using inv by (simp add: run_inv_def)
  have below: "a < pq_next q'" if "a \<in> set shown \<union> set (line_orders q) \<union> set dropped" for a
  proof -
    from ms have "set (map fst subs) = set shown \<union> set (line_orders q) \<union> set dropped"
      by (metis (no_types, lifting) mset_append set_append set_mset_mset)
    with that have "a \<in> fst ` set subs" by simp
    then obtain x where "x \<in> set subs" "fst x = a" by blast
    with subs up show ?thesis by (auto intro: le_less_trans)
  qed
  have s: "sorted_wrt (<) (shown @ line_orders q')"
    using inv below unfolding ord append_assoc [symmetric] sorted_wrt_append [of _ "shown @ _"]
    by (auto simp: run_inv_def)
  have ss: "sorted_wrt (<) (map fst (subs @ [(pq_next q', k)]))"
    using inv subs up unfolding map_append sorted_wrt_append by (fastforce simp: run_inv_def intro: le_less_trans)
  have keep: "\<forall>i \<in> set (pq_line q'). (pq_order q' ! i, pq_keep q' ! i) \<in> set (subs @ [(pq_next q', k)])"
    using inv sub(1,3,4) by (simp add: run_inv_def)
  have nd: "pq_next q' \<notin> set dropped" using below by auto
  show ?thesis
    unfolding run_inv_def
  proof (intro conjI)
    show "mset (map fst (subs @ [(pq_next q', k)])) = mset shown + mset (line_orders q') + mset dropped"
      using ms ord by simp
    show "\<forall>x \<in> set (subs @ [(pq_next q', k)]). fst x \<le> pq_next q'"
      using subs up by (auto intro: order_trans less_imp_le)
    show "\<forall>x \<in> set (subs @ [(pq_next q', k)]). snd x \<longrightarrow> fst x \<notin> set dropped"
      using inv nd by (auto simp: run_inv_def)
  qed (use sub(2) s ss keep inv in \<open>simp_all add: run_inv_def q'\<close>)
qed

lemma take_inv:
  assumes inv: "run_inv mb q subs shown dropped" and call: "ps4_pq_try_take_locked q = (Some i, q')"
  shows "run_inv mb q' subs (shown @ [pq_order q ! i]) dropped"
proof -
  have ok: "pq_ok q" using inv by (simp add: run_inv_def)
  obtain xs where t: "pq_line q = i # xs" "pq_line q' = xs" "pq_ok q'" "i < pq_n q"
    and q': "q' = q\<lparr>pq_st := (pq_st q)[i := PQ_PRESENTING]\<rparr>"
    by (rule try_take_elim [OF ok call])
  have "line_orders q = pq_order q ! i # line_orders q'" using t q' by (simp add: line_orders_def)
  with inv t(2,3) t(1) show ?thesis unfolding run_inv_def by (simp add: q')
qed

lemma acquire_inv:
  assumes inv: "run_inv mb q subs shown dropped" and call: "ps4_pq_try_acquire_locked q = (Some (i, r), q')"
  shows "run_inv mb q' subs shown (if r then dropped @ [pq_order q ! i] else dropped)"
proof (cases r)
  have ok: "pq_ok q" using inv by (simp add: run_inv_def)
  note a = try_acquire_Some [OF ok call]
  {
    assume r: "\<not> r"
    have "pq_line q' = pq_line q" using acquire_line(5) [OF ok call] r by simp
    then show ?thesis using run_inv_same [OF inv] a r by simp
  next
    assume r: r
    obtain xs ys where l: "pq_line q = xs @ i # ys" "pq_line q' = xs @ ys" and nk: "\<not> pq_keep q ! i"
      using acquire_line(6) [OF ok call] r by blast
    have o: "line_orders q = map (\<lambda>j. pq_order q ! j) xs @ pq_order q ! i # map (\<lambda>j. pq_order q ! j) ys"
      "line_orders q' = map (\<lambda>j. pq_order q ! j) xs @ map (\<lambda>j. pq_order q ! j) ys"
      using l a by (simp_all add: line_orders_def)
    have unkept: "\<not> k" if "(pq_order q ! i, k) \<in> set subs" for k
    proof -
      have "(pq_order q ! i, pq_keep q ! i) \<in> set subs" using inv l(1) unfolding run_inv_def by simp
      with that inv nk show ?thesis using sub_unique [of subs "pq_order q ! i" k "pq_keep q ! i"]
        by (simp add: run_inv_def)
    qed
    have "sorted_wrt (<) (shown @ line_orders q')"
      using inv unfolding run_inv_def o by (simp add: sorted_wrt_append)
    moreover have "\<forall>x \<in> set subs. snd x \<longrightarrow> fst x \<notin> set (dropped @ [pq_order q ! i])"
      using inv unkept unfolding run_inv_def by fastforce
    moreover have "mset (map fst subs) = mset shown + mset (line_orders q') + mset (dropped @ [pq_order q ! i])"
      using inv unfolding run_inv_def o by (simp add: ac_simps)
    moreover have "\<forall>j \<in> set (pq_line q'). (pq_order q' ! j, pq_keep q' ! j) \<in> set subs"
      using inv l a unfolding run_inv_def by auto
    ultimately show ?thesis using inv a r by (simp add: run_inv_def)
  }
qed

lemma pq_run_inv: "pq_run n mb q subs shown dropped \<Longrightarrow> run_inv mb q subs shown dropped"
proof (induction rule: pq_run.induct)
  case start
  show ?case using init_ok [of n mb] by (simp add: run_inv_def line_orders_def) (simp add: ps4_pq_init_def)
next
  case (submit q subs shown dropped slot k q')
  then show ?case by (blast intro: submit_inv)
next
  case (take q subs shown dropped i q')
  then show ?case by (blast intro: take_inv)
next
  case (acquire q subs shown dropped i r q')
  then show ?case by (blast intro: acquire_inv)
next
  case (cancel q subs shown dropped slot b q')
  have ok: "pq_ok q" using cancel.IH by (simp add: run_inv_def)
  have "pq_order q' = pq_order q" "pq_keep q' = pq_keep q" "pq_mailbox q' = pq_mailbox q"
    "pq_next q' = pq_next q" "pq_superseded q' = pq_superseded q"
    using cancel.hyps(2) by (auto simp: ps4_pq_cancel_def ps4_pq_cancel_locked_def Let_def split: if_splits)
  with run_inv_same [OF cancel.IH] cancel_line [OF ok cancel.hyps(2)] show ?case by simp
next
  case (release q subs shown dropped slot b q')
  have ok: "pq_ok q" using release.IH by (simp add: run_inv_def)
  have f: "pq_order q' = pq_order q" "pq_mailbox q' = pq_mailbox q" "pq_next q' = pq_next q"
    "pq_superseded q' = pq_superseded q"
    using release.hyps(2) by (auto simp: ps4_pq_release_def ps4_pq_release_locked_def split: if_splits)
  have "\<forall>i \<in> set (pq_line q). pq_keep q' ! i = pq_keep q ! i"
  proof (cases "owned q slot PQ_PRESENTING")
    case True
    then have "pq_st q ! nat slot = PQ_PRESENTING" using ownedD [OF ok] by blast
    then have "nat slot \<noteq> i" if "i \<in> set (pq_line q)" for i using that by auto
    with True release.hyps(2) show ?thesis
      by (auto simp: ps4_pq_release_def ps4_pq_release_locked_def simp del: mem_line)
  qed (use release.hyps(2) in \<open>simp add: ps4_pq_release_def ps4_pq_release_locked_def\<close>)
  with f run_inv_same [OF release.IH] release_line [OF ok release.hyps(2)] show ?case by simp
next
  case (grant q subs shown dropped)
  have ok: "pq_ok q" using grant.IH by (simp add: run_inv_def)
  with run_inv_same [OF grant.IH] grant_call [OF ok] show ?case
    by (simp add: ps4_pq_grant_def ps4_pq_grant_locked_def)
next
  case (claim q subs shown dropped b q')
  have ok: "pq_ok q" using claim.IH by (simp add: run_inv_def)
  have "pq_order q' = pq_order q" "pq_keep q' = pq_keep q" "pq_mailbox q' = pq_mailbox q"
    "pq_next q' = pq_next q" "pq_superseded q' = pq_superseded q"
    using claim.hyps(2) by (auto simp: ps4_pq_claim_drawable_locked_def split: if_splits)
  with run_inv_same [OF claim.IH] claim_call [OF ok claim.hyps(2)] show ?case by simp
next
  case (halt q subs shown dropped)
  have ok: "pq_ok q" using halt.IH by (simp add: run_inv_def)
  have "pq_ok (ps4_pq_stop q)" "pq_line (ps4_pq_stop q) = pq_line q"
    using ok pq_okD [OF ok] same_ok [OF ok, of "ps4_pq_stop q"] same_line [of "ps4_pq_stop q" q]
    by (simp_all add: ps4_pq_stop_def)
  with run_inv_same [OF halt.IH, of "ps4_pq_stop q"] show ?case by (simp add: ps4_pq_stop_def)
qed

text \<open>
  C34. No frame is lost, shown twice or shown out of order, over any interleaving of the calls of
  the renderer and the presenter: every submitted frame is exactly once shown, still queued or
  superseded; the shown frames followed by the queued ones are in submission order; a frame
  marked to be kept is never superseded, and without mailbox mode none is; the counter says how
  many were.
\<close>

theorem pq_frames_in_order:
  assumes "pq_run n mb q subs shown dropped"
  shows "mset (map fst subs) = mset shown + mset (map (\<lambda>i. pq_order q ! i) (pq_line q)) + mset dropped
    \<and> distinct (map fst subs)
    \<and> sorted_wrt (<) (shown @ map (\<lambda>i. pq_order q ! i) (pq_line q))
    \<and> (\<forall>x \<in> set subs. snd x \<longrightarrow> fst x \<notin> set dropped)
    \<and> (\<not> mb \<longrightarrow> dropped = []) \<and> pq_superseded q = of_nat (length dropped)"
  using pq_run_inv [OF assms] by (simp add: run_inv_def line_orders_def strict_sorted_iff)

text \<open>A run in mailbox mode: two slots, three frames, the second is replaced by the third.\<close>

definition ex_pq :: "nat \<Rightarrow> pqueue" where
  "ex_pq k = (let step = [\<lambda>q. snd (ps4_pq_try_acquire_locked q), \<lambda>q. snd (ps4_pq_submit q 0 True),
      \<lambda>q. snd (ps4_pq_try_acquire_locked q), \<lambda>q. snd (ps4_pq_submit q 1 False),
      \<lambda>q. snd (ps4_pq_try_acquire_locked q), \<lambda>q. snd (ps4_pq_submit q 1 False),
      \<lambda>q. snd (ps4_pq_try_take_locked q)]
    in fold (\<lambda>f q. f q) (take k step) (ps4_pq_init 2 True))"

lemma ex_pq_steps:
  "ps4_pq_try_acquire_locked (ex_pq 0) = (Some (0, False), ex_pq 1)"
  "ps4_pq_submit (ex_pq 1) 0 True = (True, ex_pq 2)"
  "ps4_pq_try_acquire_locked (ex_pq 2) = (Some (1, False), ex_pq 3)"
  "ps4_pq_submit (ex_pq 3) 1 False = (True, ex_pq 4)"
  "ps4_pq_try_acquire_locked (ex_pq 4) = (Some (1, True), ex_pq 5)"
  "ps4_pq_submit (ex_pq 5) 1 False = (True, ex_pq 6)"
  "ps4_pq_try_take_locked (ex_pq 6) = (Some 0, ex_pq 7)"
  by code_simp+

lemma ex_pq_fields:
  "pq_next (ex_pq 1) = 0" "pq_next (ex_pq 2) = 1" "pq_next (ex_pq 3) = 1" "pq_next (ex_pq 4) = 2"
  "pq_next (ex_pq 5) = 2" "pq_next (ex_pq 6) = 3" "pq_order (ex_pq 4) ! 1 = 2" "pq_order (ex_pq 6) ! 0 = 1"
  "pq_superseded (ex_pq 7) = 1"
  by code_simp+

theorem pq_frames_in_order_witness:
  "pq_run 2 True (ex_pq 7) [(1, True), (2, False), (3, False)] [1] [2]
   \<and> map (\<lambda>i. pq_order (ex_pq 7) ! i) (pq_line (ex_pq 7)) = [3]"
proof -
  have "ps4_pq_init 2 True = ex_pq 0" by (simp add: ex_pq_def)
  then have "pq_run 2 True (ex_pq 0) [] [] []" by (metis pq_run.start)
  from pq_run.acquire [OF this ex_pq_steps(1)] have "pq_run 2 True (ex_pq 1) [] [] []" by simp
  from pq_run.submit [OF this ex_pq_steps(2)] have "pq_run 2 True (ex_pq 2) [(1, True)] [] []"
    by (simp add: ex_pq_fields ex_pq_fields(1) [unfolded One_nat_def])
  from pq_run.acquire [OF this ex_pq_steps(3)] have "pq_run 2 True (ex_pq 3) [(1, True)] [] []" by simp
  from pq_run.submit [OF this ex_pq_steps(4)] have "pq_run 2 True (ex_pq 4) [(1, True), (2, False)] [] []"
    by (simp add: ex_pq_fields)
  from pq_run.acquire [OF this ex_pq_steps(5)]
  have "pq_run 2 True (ex_pq 5) [(1, True), (2, False)] [] [2]"
    by (simp add: ex_pq_fields ex_pq_fields(7) [unfolded One_nat_def])
  from pq_run.submit [OF this ex_pq_steps(6)]
  have "pq_run 2 True (ex_pq 6) [(1, True), (2, False), (3, False)] [] [2]" by (simp add: ex_pq_fields)
  from pq_run.take [OF this ex_pq_steps(7)]
  have r: "pq_run 2 True (ex_pq 7) [(1, True), (2, False), (3, False)] [1] [2]" by (simp add: ex_pq_fields)
  let ?l = "map (\<lambda>i. pq_order (ex_pq 7) ! i) (pq_line (ex_pq 7))"
  from pq_frames_in_order [OF r] have "mset ?l = {#3#}" by simp
  then have "?l = [3]" by (metis mset_single_iff_right)
  with r show ?thesis by blast
qed

text \<open>The witness of the calls: a queue with one frame in line and a free slot.\<close>

lemma ex_pq_ok: "pq_ok (ps4_pq_init 3 False)"
  using init_ok by blast


section \<open>Blocking calls\<close>

text \<open>The queue at the \<open>k\<close>-th wake-up.\<close>

definition pq_at :: "pqueue \<Rightarrow> pq_wake list \<Rightarrow> nat \<Rightarrow> pqueue" where
  "pq_at q ws k = fold (\<lambda>w s. w s) (take k ws) q"

lemma pq_at_0 [simp]: "pq_at q ws 0 = q"
  by (simp add: pq_at_def)

lemma pq_at_Suc [simp]: "pq_at q (w # ws) (Suc k) = pq_at (w q) ws k"
  by (simp add: pq_at_def)

lemma find_map_Suc: "List.find P (map Suc xs) = map_option Suc (List.find (\<lambda>k. P (Suc k)) xs)"
  by (induction xs) simp_all

definition pq_take_ready :: "pqueue \<Rightarrow> bool" where
  "pq_take_ready q \<longleftrightarrow> pq_stop q \<or> fst (ps4_pq_try_take_locked q) \<noteq> None"

lemma take_first:
  "ps4_pq_take q ws = map_option (\<lambda>k. let s = pq_at q ws k in if pq_stop s then (None, s) else ps4_pq_try_take_locked s)
     (List.find (\<lambda>k. pq_take_ready (pq_at q ws k)) [0..<Suc (length ws)])"
proof (induction ws arbitrary: q)
  case Nil
  show ?case by (cases "ps4_pq_try_take_locked q") (auto simp: pq_take_ready_def split: option.splits)
next
  case (Cons w ws)
  have u: "[0..<Suc (Suc (length ws))] = 0 # map Suc [0..<Suc (length ws)]"
    by (simp add: upt_conv_Cons map_Suc_upt del: upt_Suc)
  show ?case
  proof (cases "pq_take_ready q")
    case True
    then show ?thesis
      by (cases "ps4_pq_try_take_locked q") (auto simp: pq_take_ready_def u simp del: upt_Suc split: option.splits)
  next
    case False
    then have "ps4_pq_take q (w # ws) = ps4_pq_take (w q) ws"
      by (cases "ps4_pq_try_take_locked q") (auto simp: pq_take_ready_def split: option.splits)
    with False Cons.IH [of "w q"] show ?thesis
      by (simp add: u find_map_Suc option.map_comp comp_def del: upt_Suc ps4_pq_take.simps)
  qed
qed

lemma take_ready_iff: "pq_ok q \<Longrightarrow> pq_take_ready q \<longleftrightarrow> pq_stop q \<or> pq_line q \<noteq> []"
  by (auto simp: pq_take_ready_def try_take_line split: list.splits)

text \<open>
  The presenter wakes up as soon as it can: \<open>ps4_pq_take\<close> still sleeps exactly while the queue
  was running with no frame in line at every wake-up so far; it returns at the first wake-up where
  there is a frame, with the oldest one, or where the queue was stopped, with none.
\<close>

theorem pq_take_exact:
  assumes "\<forall>k \<le> length ws. pq_ok (pq_at q ws k)"
  shows "(ps4_pq_take q ws = None \<longleftrightarrow>
      (\<forall>k \<le> length ws. \<not> pq_stop (pq_at q ws k) \<and> pq_line (pq_at q ws k) = []))
    \<and> (\<forall>r q'. ps4_pq_take q ws = Some (r, q') \<longrightarrow>
        (\<exists>k \<le> length ws. (\<forall>j < k. \<not> pq_stop (pq_at q ws j) \<and> pq_line (pq_at q ws j) = [])
           \<and> (let s = pq_at q ws k in
              if pq_stop s then r = None \<and> q' = s
              else pq_line s \<noteq> [] \<and> r = Some (hd (pq_line s)) \<and> pq_line q' = tl (pq_line s))))"
proof (cases "List.find (\<lambda>k. pq_take_ready (pq_at q ws k)) [0..<Suc (length ws)]")
  case None
  then have "\<forall>k \<le> length ws. \<not> pq_take_ready (pq_at q ws k)"
    by (auto simp: find_None_iff less_Suc_eq_le simp del: upt_Suc)
  with None assms show ?thesis by (simp add: take_first take_ready_iff del: ps4_pq_take.simps upt_Suc)
next
  case (Some k)
  then have k: "k \<le> length ws" "pq_take_ready (pq_at q ws k)" "\<forall>j < k. \<not> pq_take_ready (pq_at q ws j)"
    by (auto simp: find_Some_iff less_Suc_eq_le simp del: upt_Suc)
  let ?s = "pq_at q ws k"
  have ok: "pq_ok ?s" using assms k(1) by blast
  have rdy: "pq_stop ?s \<or> pq_line ?s \<noteq> []" using k(2) take_ready_iff [OF ok] by blast
  have before: "\<forall>j < k. \<not> pq_stop (pq_at q ws j) \<and> pq_line (pq_at q ws j) = []"
    using k(1,3) assms take_ready_iff by (metis less_imp_le order_trans)
  have res: "ps4_pq_take q ws = Some (if pq_stop ?s then (None, ?s) else ps4_pq_try_take_locked ?s)"
    using Some by (simp add: take_first Let_def del: ps4_pq_take.simps upt_Suc)
  have "if pq_stop ?s then r = None \<and> q' = ?s
      else pq_line ?s \<noteq> [] \<and> r = Some (hd (pq_line ?s)) \<and> pq_line q' = tl (pq_line ?s)"
    if "ps4_pq_take q ws = Some (r, q')" for r q'
    using that res rdy take_call [OF ok, of r q'] by (auto split: list.splits if_splits)
  with before k(1) have "\<forall>r q'. ps4_pq_take q ws = Some (r, q') \<longrightarrow>
      (\<exists>k \<le> length ws. (\<forall>j < k. \<not> pq_stop (pq_at q ws j) \<and> pq_line (pq_at q ws j) = [])
         \<and> (let s = pq_at q ws k in
            if pq_stop s then r = None \<and> q' = s
            else pq_line s \<noteq> [] \<and> r = Some (hd (pq_line s)) \<and> pq_line q' = tl (pq_line s)))"
    unfolding Let_def by blast
  moreover have "ps4_pq_take q ws \<noteq> None" unfolding res by simp
  ultimately show ?thesis using rdy k(1) by blast
qed

text \<open>A presenter that sleeps until the first frame of the example run is submitted.\<close>

theorem pq_take_exact_witness:
  "\<exists>q'. ps4_pq_take (ex_pq 1) [\<lambda>_. ex_pq 2] = Some (Some 0, q')"
proof -
  have ok: "pq_ok (ex_pq 0)" using init_ok [of 2 True] by (simp add: ex_pq_def)
  have ok1: "pq_ok (ex_pq 1)" by (rule acquire_line(1) [OF ok ex_pq_steps(1)])
  have l1: "pq_line (ex_pq 1) = []" using acquire_line(5) [OF ok ex_pq_steps(1)] init_ok [of 2 True]
    by (simp add: ex_pq_def)
  have o: "owned (ex_pq 1) 0 PQ_RENDERING" "\<not> pq_stop (ex_pq 1)" "\<not> pq_stop (ex_pq 2)" "pq_next (ex_pq 1) \<noteq> - 1"
    by code_simp+
  have l2: "pq_ok (ex_pq 2)" "pq_line (ex_pq 2) = [0]"
    using submit_call [OF ok1 conjI [OF ex_pq_steps(2) o(4)]] l1 by simp_all
  have at: "pq_at (ex_pq 1) [\<lambda>_. ex_pq 2] k = (if k = 0 then ex_pq 1 else ex_pq 2)" for k
    by (cases k) (simp_all add: pq_at_def)
  have a: "\<forall>k \<le> length [\<lambda>_ :: pqueue. ex_pq 2]. pq_ok (pq_at (ex_pq 1) [\<lambda>_. ex_pq 2] k)"
    using ok1 l2 unfolding at by simp
  note t = pq_take_exact [OF a]
  have "ps4_pq_take (ex_pq 1) [\<lambda>_. ex_pq 2] \<noteq> None"
    using conjunct1 [OF t] l2(2) unfolding at by fastforce
  then obtain r q' where r: "ps4_pq_take (ex_pq 1) [\<lambda>_. ex_pq 2] = Some (r, q')" by auto
  from conjunct2 [OF t, rule_format, OF this] obtain k where
    "let s = pq_at (ex_pq 1) [\<lambda>_. ex_pq 2] k in if pq_stop s then r = None \<and> q' = s
      else pq_line s \<noteq> [] \<and> r = Some (hd (pq_line s)) \<and> pq_line q' = tl (pq_line s)" by blast
  then have "r = Some 0" using l1 l2(2) o(2,3) unfolding at Let_def by (cases "k = 0") simp_all
  with r show ?thesis by blast
qed

end
