(* ===== verification/Sfo.thy ===== *)
theory Sfo
  imports ByteReads
begin

text \<open>
  The reader of \<open>param.sfo\<close> files, \<open>core/ps4_sfo.c\<close>. The file is a list of bytes, read as in \<open>ByteReads\<close>: a result is \<open>Some r\<close> when every access
  was inside the buffer. Offsets are computed at the width of the C
  expressions: the sums that are compared with the size are 32-bit sums, the pointer sums are not.
\<close>

section \<open>The context\<close>

record sfo_ctx =
  sfo_data :: "u8 list option"
  sfo_size :: u64
  sfo_keys :: u32
  sfo_vals :: u32
  sfo_count :: u32
  sfo_alloc :: bool

definition sfo_zero :: sfo_ctx where
  "sfo_zero = \<lparr>sfo_data = None, sfo_size = 0, sfo_keys = 0, sfo_vals = 0, sfo_count = 0, sfo_alloc = False\<rparr>"

text \<open>The header is 20 bytes, an entry 16. \<open>None\<close> for the buffer is a NULL pointer.\<close>

definition ps4_sfo_load_memory :: "sfo_ctx \<Rightarrow> u8 list option \<Rightarrow> bool \<times> sfo_ctx" where
  "ps4_sfo_load_memory s buf =
     (case buf of None \<Rightarrow> (False, s) | Some b \<Rightarrow>
      if length b < 20 then (False, s)
      else if take 4 b \<noteq> [0, 0x50, 0x53, 0x46] then (False, s)
      else
        (let keys = of_le (take 4 (drop 8 b)) :: u32; vals = of_le (take 4 (drop 12 b)) :: u32;
             cnt = of_le (take 4 (drop 16 b)) :: u32; sz = of_nat (length b) :: u64
         in if sz < ucast keys \<or> sz < ucast vals then (False, s)
            else if ucast keys < 20 + ucast cnt * (16 :: u64) then (False, s)
            else (True, \<lparr>sfo_data = Some b, sfo_size = sz, sfo_keys = keys, sfo_vals = vals,
                         sfo_count = cnt, sfo_alloc = False\<rparr>)))"

text \<open>
  A file is its contents; \<open>io\<close> says whether opening, seeking, allocating and reading work. Files
  of less than the header or more than 16 MB are refused.
\<close>

definition ps4_sfo_load_file :: "(string \<Rightarrow> u8 list option) \<Rightarrow> bool \<Rightarrow> sfo_ctx \<Rightarrow> string option \<Rightarrow> bool \<times> sfo_ctx" where
  "ps4_sfo_load_file files io s path =
     (case path of None \<Rightarrow> (False, s) | Some p \<Rightarrow>
      if p = [] then (False, s) else
      case files p of None \<Rightarrow> (False, s)
      | Some b \<Rightarrow>
          if \<not> io \<or> length b < 20 \<or> 16 * 1024 * 1024 < length b then (False, s)
          else (case ps4_sfo_load_memory s (Some b) of
                  (False, _) \<Rightarrow> (False, s)
                | (True, s') \<Rightarrow> (True, s'\<lparr>sfo_alloc := True\<rparr>)))"

definition ps4_sfo_free :: "sfo_ctx \<Rightarrow> sfo_ctx" where
  "ps4_sfo_free s = sfo_zero"

section \<open>Lookup\<close>

text \<open>
  The loop over \<open>n\<close> entries from number \<open>i\<close>: the offset of the entry with the key, \<open>Some None\<close>
  when there is none.
\<close>

fun find_loop :: "sfo_ctx \<Rightarrow> u8 list \<Rightarrow> string \<Rightarrow> nat \<Rightarrow> nat \<Rightarrow> nat option option" where
  "find_loop s b key i 0 = Some None"
| "find_loop s b key i (Suc n) =
     do { let e = 20 + 16 * i;
          koff \<leftarrow> read_le16 b e;
          let sum = sfo_keys s + ucast koff;
          if sfo_size s \<le> ucast sum then find_loop s b key (Suc i) n else
          do { let at = unat (sfo_keys s) + unat koff;
               let room = unat (sfo_size s - ucast sum);
               len \<leftarrow> c_strnlen b at room;
               if len = room then find_loop s b key (Suc i) n
               else if str_of (take len (drop at b)) = key then Some (Some e)
               else find_loop s b key (Suc i) n } }"

definition find_entry :: "sfo_ctx \<Rightarrow> string option \<Rightarrow> nat option option" where
  "find_entry s key =
     (case (sfo_data s, key) of
        (Some b, Some k) \<Rightarrow> find_loop s b k 0 (unat (sfo_count s))
      | _ \<Rightarrow> Some None)"

text \<open>\<open>Some (Some v)\<close> is success with the value, \<open>Some None\<close> failure, \<open>None\<close> a read outside.\<close>

definition ps4_sfo_get_int :: "sfo_ctx \<Rightarrow> string option \<Rightarrow> bool \<Rightarrow> i32 option option" where
  "ps4_sfo_get_int s key out_null =
     (if out_null then Some None else
      do { r \<leftarrow> find_entry s key;
           case r of None \<Rightarrow> Some None
           | Some e \<Rightarrow>
               do { let b = the (sfo_data s);
                    data_off \<leftarrow> read_le32 b (e + 12);
                    param_len \<leftarrow> read_le32 b (e + 4);
                    if param_len \<noteq> 4 then Some None
                    else if sfo_size s < ucast (sfo_vals s + data_off + 4) then Some None
                    else map_option Some (read_le32 b (unat (sfo_vals s) + unat data_off)) } })"

text \<open>\<open>out_sz\<close> is the size of the caller's buffer; the result is the copied bytes, without the NUL.\<close>

definition ps4_sfo_get_string :: "sfo_ctx \<Rightarrow> string option \<Rightarrow> bool \<Rightarrow> u64 \<Rightarrow> u8 list option option" where
  "ps4_sfo_get_string s key out_null out_sz =
     (if out_null \<or> out_sz = 0 then Some None else
      do { r \<leftarrow> find_entry s key;
           case r of None \<Rightarrow> Some None
           | Some e \<Rightarrow>
               do { let b = the (sfo_data s);
                    data_off \<leftarrow> read_le32 b (e + 12);
                    param_len \<leftarrow> read_le32 b (e + 4);
                    if sfo_size s < ucast (sfo_vals s + data_off + param_len) then Some None
                    else
                      (let at = unat (sfo_vals s) + unat data_off;
                           n = (if ucast param_len < out_sz then unat param_len else unat (out_sz - 1))
                       in if at + n \<le> length b then Some (Some (take n (drop at b))) else None) } })"

section \<open>Finding the file\<close>

text \<open>
  The candidates are tried in order: paths the virtual file system resolves, paths below the
  application root, paths below the working directory. \<open>resolve\<close> is \<open>ps4_vfs_resolve\<close>,
  \<open>readable\<close> is \<open>access(p, R_OK) == 0\<close>; the paths are cut to the buffer of 1024.
\<close>

fun try_load :: "(string \<Rightarrow> u8 list option) \<Rightarrow> bool \<Rightarrow> (string \<Rightarrow> bool) \<Rightarrow> sfo_ctx \<Rightarrow> string list \<Rightarrow> bool \<times> sfo_ctx" where
  "try_load files io readable s [] = (False, s)"
| "try_load files io readable s (p # ps) =
     (if readable p then
        (case ps4_sfo_load_file files io s (Some p) of
           (True, s') \<Rightarrow> (True, s')
         | (False, s') \<Rightarrow> try_load files io readable s' ps)
      else try_load files io readable s ps)"

definition ps4_sfo_find_and_load ::
    "(string \<Rightarrow> u8 list option) \<Rightarrow> bool \<Rightarrow> (string \<Rightarrow> bool) \<Rightarrow> (string \<Rightarrow> string option) \<Rightarrow> string option
     \<Rightarrow> sfo_ctx \<Rightarrow> bool \<times> sfo_ctx" where
  "ps4_sfo_find_and_load files io readable resolve app_root s =
     (let vfs = [''/app0/sce_sys/param.sfo'', ''/app0/sce_sys/sce_sys/param.sfo'', ''/app0/param.sfo''];
          rel = [''sce_sys/param.sfo'', ''sce_sys/sce_sys/param.sfo'', ''param.sfo''];
          under = (case app_root of None \<Rightarrow> []
                   | Some r \<Rightarrow> if r = [] then [] else map (\<lambda>p. take 1023 (r @ ''/'' @ p)) rel)
      in try_load files io readable s
           (List.map_filter resolve vfs @ under @ rel @ [''assets/sce_sys/param.sfo'']))"

end
