(* ===== verification/SfoProps.thy ===== *)
theory SfoProps
  imports Sfo
begin

text \<open>
  The reader of \<open>param.sfo\<close> against what a file says: the lookup stays inside the buffer and
  finds the first entry with the key, the integer getter reads outside exactly when a 32-bit sum
  of offsets wraps, and reading a file that a reference writer made gives its parameters back.
\<close>

section \<open>Loading\<close>

lemma load_memory_SomeD:
  assumes "ps4_sfo_load_memory s (Some b) = (True, s')" and "length b < 2 ^ 64"
  shows "sfo_data s' = Some b" and "unat (sfo_size s') = length b"
    and "20 + 16 * unat (sfo_count s') \<le> unat (sfo_keys s')" and "unat (sfo_keys s') \<le> length b"
    and "unat (sfo_vals s') \<le> length b"
proof -
  let ?k = "of_le (take 4 (drop 8 b)) :: u32" and ?v = "of_le (take 4 (drop 12 b)) :: u32"
    and ?c = "of_le (take 4 (drop 16 b)) :: u32"
  have l: "\<not> of_nat (length b) < (ucast ?k :: u64)" "\<not> of_nat (length b) < (ucast ?v :: u64)"
    "\<not> (ucast ?k :: u64) < 20 + ucast ?c * 16"
    and s': "s' = \<lparr>sfo_data = Some b, sfo_size = of_nat (length b), sfo_keys = ?k, sfo_vals = ?v,
                 sfo_count = ?c, sfo_alloc = False\<rparr>"
    using assms(1) by (auto simp: ps4_sfo_load_memory_def Let_def split: if_splits)
  have n: "unat (of_nat (length b) :: u64) = length b" using assms(2) by (simp add: unat_of_nat)
  have uc: "unat (ucast x :: u64) = unat x" for x :: u32
    by (simp add: unat_ucast_up)
  have c: "unat (20 + ucast ?c * 16 :: u64) = 20 + 16 * unat ?c"
  proof -
    have "unat ?c < 2 ^ 32" using unsigned_less [of ?c, where ?'a = nat] by simp
    then show ?thesis by (simp add: unat_word_ariths uc)
  qed
  show "sfo_data s' = Some b" "unat (sfo_size s') = length b" using s' n by simp_all
  show "20 + 16 * unat (sfo_count s') \<le> unat (sfo_keys s')" "unat (sfo_keys s') \<le> length b"
    "unat (sfo_vals s') \<le> length b"
    using l s' by (simp_all add: not_less word_le_nat_alt n uc c)
qed

section \<open>The entry with a key\<close>

text \<open>What the bytes say the key of an entry is: \<open>None\<close> when it does not end inside the file.\<close>

definition key_at :: "u8 list \<Rightarrow> nat \<Rightarrow> string option" where
  "key_at b i = (if 0 \<in> set (drop i b) then Some (str_of (takeWhile (\<lambda>c. c \<noteq> 0) (drop i b))) else None)"

definition entry_key :: "sfo_ctx \<Rightarrow> u8 list \<Rightarrow> nat \<Rightarrow> string option" where
  "entry_key s b i =
     key_at b (unat (sfo_keys s) + unat (of_le (take 2 (drop (20 + 16 * i) b)) :: u16))"

lemma find_loop_exact:
  assumes "unat (sfo_size s) = length b" and "length b + 0xffff < 2 ^ 32"
    and "20 + 16 * (i + n) \<le> length b" and "unat (sfo_keys s) \<le> length b"
  shows "find_loop s b key i n =
    Some (map_option (\<lambda>j. 20 + 16 * j) (List.find (\<lambda>j. entry_key s b j = Some key) [i..<i + n]))"
  using assms(3)
proof (induction n arbitrary: i)
  case 0
  then show ?case by simp
next
  case (Suc n)
  let ?koff = "of_le (take 2 (drop (20 + 16 * i) b)) :: u16"
  let ?at = "unat (sfo_keys s) + unat ?koff" and ?sum = "sfo_keys s + ucast ?koff :: u32"
  have rd: "read_le16 b (20 + 16 * i) = Some ?koff" using Suc.prems by (simp add: rd_le_def)
  have k: "unat ?koff < 2 ^ 16" using unsigned_less [of ?koff, where ?'a = nat] by simp
  have uk: "unat (ucast ?koff :: u32) = unat ?koff"
    by (simp add: unat_ucast_up)
  have sum: "unat ?sum = ?at"
    using k assms(2,4) by (simp add: unat_word_ariths uk)
  have us: "unat (ucast ?sum :: u64) = ?at"
    using sum by (simp add: unat_ucast_up)
  have IH: "find_loop s b key (Suc i) n =
      Some (map_option (\<lambda>j. 20 + 16 * j) (List.find (\<lambda>j. entry_key s b j = Some key) [Suc i..<i + Suc n]))"
    using Suc.IH [of "Suc i"] Suc.prems by simp
  have u: "[i..<Suc (i + n)] = i # [Suc i..<Suc (i + n)]" by (simp add: upt_conv_Cons del: upt_Suc)
  have ek: "entry_key s b i = key_at b ?at" by (simp add: entry_key_def)
  show ?case
  proof (cases "length b \<le> ?at")
    case True
    then have "sfo_size s \<le> ucast ?sum" using assms(1) us by (simp add: word_le_nat_alt)
    moreover have "entry_key s b i = None" using True by (simp add: ek key_at_def)
    ultimately show ?thesis using IH rd by (simp add: u Let_def del: upt_Suc)
  next
    case False
    then have le: "\<not> sfo_size s \<le> ucast ?sum" using assms(1) us by (simp add: word_le_nat_alt)
    have room: "unat (sfo_size s - ucast ?sum) = length b - ?at"
      using False assms(1) us by (subst unat_sub_le) simp_all
    let ?w = "takeWhile (\<lambda>c. c \<noteq> 0) (drop ?at b)"
    have len: "c_strnlen b ?at (length b - ?at) = Some (length ?w)"
      using c_strnlen_eq [of ?at "length b - ?at" b] False by simp
    have full: "length ?w = length b - ?at \<longleftrightarrow> 0 \<notin> set (drop ?at b)"
    proof
      assume l: "length ?w = length b - ?at"
      have "?w = take (length ?w) (drop ?at b)" by (rule takeWhile_eq_take)
      with l have "?w = drop ?at b" by simp
      then show "0 \<notin> set (drop ?at b)" by (metis (mono_tags, lifting) set_takeWhileD)
    next
      assume "0 \<notin> set (drop ?at b)"
      then have "?w = drop ?at b" by (metis (mono_tags, lifting) takeWhile_eq_all_conv)
      then show "length ?w = length b - ?at" by (metis length_drop)
    qed
    have tk: "take (length ?w) (drop ?at b) = ?w" by (rule takeWhile_eq_take [symmetric])
    show ?thesis
      using IH rd le room len full tk
      by (auto simp: u Let_def ek key_at_def simp del: upt_Suc)
  qed
qed

text \<open>
  Looking a key up never reads outside the file: for every file of less than 4 GB less 64 KB
  that loads, whatever its tables say, \<open>find_entry\<close> returns the first entry whose key is the
  one asked for, or none.
\<close>

theorem sfo_lookup_in_bounds:
  assumes "ps4_sfo_load_memory s0 (Some b) = (True, s)" and "length b + 0xffff < 2 ^ 32"
  shows "find_entry s (Some key) =
    Some (map_option (\<lambda>j. 20 + 16 * j)
      (List.find (\<lambda>j. entry_key s b j = Some key) [0..<unat (sfo_count s)]))"
proof -
  have "length b < 2 ^ 64" using assms(2) by simp
  note l = load_memory_SomeD [OF assms(1) this]
  have "20 + 16 * (0 + unat (sfo_count s)) \<le> length b" using l by simp
  from find_loop_exact [OF l(2) assms(2) this l(4), of key] l(1) show ?thesis
    by (simp add: find_entry_def)
qed

section \<open>Reading a value\<close>

text \<open>The fields of the entry at offset \<open>e\<close>.\<close>

definition ent_off :: "u8 list \<Rightarrow> nat \<Rightarrow> u32" where
  "ent_off b e = of_le (take 4 (drop (e + 12) b))"

definition ent_len :: "u8 list \<Rightarrow> nat \<Rightarrow> u32" where
  "ent_len b e = of_le (take 4 (drop (e + 4) b))"

lemma find_entry_in:
  assumes "ps4_sfo_load_memory s0 (Some b) = (True, s)" and "length b + 0xffff < 2 ^ 32"
    and "find_entry s (Some key) = Some (Some e)"
  shows "e + 16 \<le> length b"
proof -
  have "length b < 2 ^ 64" using assms(2) by simp
  note l = load_memory_SomeD [OF assms(1) this]
  have "20 + 16 * (0 + unat (sfo_count s)) \<le> length b" using l by simp
  from find_loop_exact [OF l(2) assms(2) this l(4), of key] l(1) assms(3)
  obtain j where "e = 20 + 16 * j" "List.find (\<lambda>j. entry_key s b j = Some key) [0..<unat (sfo_count s)] = Some j"
    by (auto simp: find_entry_def)
  then have "j < unat (sfo_count s)" by (auto simp: find_Some_iff)
  with \<open>e = 20 + 16 * j\<close> l show ?thesis by simp
qed

lemma unat_sum32: "unat (a + b :: u32) = (unat a + unat b) mod 2 ^ 32"
  by (simp add: unat_word_ariths)

text \<open>
  What \<open>ps4_sfo_get_int\<close> does with a found entry of length 4: the sum of offsets it compares
  with the size is a 32-bit sum. When the sum does not wrap the value is read inside the file
  or refused. When it wraps to something within the size the call reads at the unwrapped
  offset, outside the file.
\<close>

theorem sfo_get_int_bounds:
  assumes "ps4_sfo_load_memory s0 (Some b) = (True, s)" and "length b + 0xffff < 2 ^ 32"
    and "find_entry s (Some key) = Some (Some e)" and "ent_len b e = 4"
  shows "ps4_sfo_get_int s (Some key) False =
    (let at = unat (sfo_vals s) + unat (ent_off b e) in
     if at + 4 \<le> length b then Some (Some (of_le (take 4 (drop at b))))
     else if 2 ^ 32 \<le> at + 4 \<and> at + 4 - 2 ^ 32 \<le> length b then None
     else Some None)"
proof -
  have "length b < 2 ^ 64" using assms(2) by simp
  note l = load_memory_SomeD [OF assms(1) this]
  have e: "e + 16 \<le> length b" by (rule find_entry_in [OF assms(1-3)])
  have off: "read_le32 b (e + 12) = Some (ent_off b e)" using e by (simp add: rd_le_in ent_off_def)
  have len: "read_le32 b (e + 4) = Some 4" using e assms(4) by (simp add: rd_le_in ent_len_def)
  let ?at = "unat (sfo_vals s) + unat (ent_off b e)"
  have v: "unat (ent_off b e) < 2 ^ 32" using unsigned_less [of "ent_off b e", where ?'a = nat] by simp
  have at: "?at + 4 < 2 ^ 33" using v l(5) assms(2) by simp
  have sum: "unat (sfo_vals s + ent_off b e + 4) = (?at + 4) mod 2 ^ 32"
    by (simp add: unat_sum32 mod_add_left_eq)
  have cmp: "sfo_size s < ucast (sfo_vals s + ent_off b e + 4) \<longleftrightarrow> length b < (?at + 4) mod 2 ^ 32"
    using l(2) by (simp add: word_less_nat_alt unat_ucast_up sum)
  have r: "ps4_sfo_get_int s (Some key) False =
      (if length b < (?at + 4) mod 2 ^ 32 then Some None else map_option Some (read_le32 b ?at))"
    using assms(3) l(1) off len cmp by (simp add: ps4_sfo_get_int_def Let_def)
  show ?thesis
  proof (cases "?at + 4 < 2 ^ 32")
    case True
    then have "(?at + 4) mod 2 ^ 32 = ?at + 4" by (rule mod_less)
    with True show ?thesis unfolding r by (simp add: rd_le_def Let_def)
  next
    case False
    then have "(?at + 4) mod 2 ^ 32 = ?at + 4 - 2 ^ 32"
      using at by (subst le_mod_geq) simp_all
    moreover have "\<not> ?at + 4 \<le> length b" using False assms(2) by simp
    ultimately show ?thesis using False unfolding r by (simp add: rd_le_def Let_def)
  qed
qed

text \<open>A file of 38 bytes whose only entry has the key A and the data offset 0xfffffff0.\<close>

definition ex_sfo :: "u8 list" where
  "ex_sfo = [0, 0x50, 0x53, 0x46, 1, 1, 0, 0, 36, 0, 0, 0, 38, 0, 0, 0, 1, 0, 0, 0,
     0, 0, 4, 4, 4, 0, 0, 0, 4, 0, 0, 0, 0xf0, 0xff, 0xff, 0xff, 65, 0]"

definition ex_sfo_ctx :: sfo_ctx where
  "ex_sfo_ctx = \<lparr>sfo_data = Some ex_sfo, sfo_size = 38, sfo_keys = 36, sfo_vals = 38, sfo_count = 1,
     sfo_alloc = False\<rparr>"

lemma ex_sfo_loads: "ps4_sfo_load_memory sfo_zero (Some ex_sfo) = (True, ex_sfo_ctx)"
  by code_simp

lemma ex_sfo_len: "length ex_sfo + 0xffff < 2 ^ 32"
  by (simp add: ex_sfo_def)

theorem sfo_lookup_in_bounds_witness: "find_entry ex_sfo_ctx (Some ''A'') = Some (Some 20)"
proof -
  have "entry_key ex_sfo_ctx ex_sfo 0 = Some ''A''" by code_simp
  then have "List.find (\<lambda>j. entry_key ex_sfo_ctx ex_sfo j = Some ''A'') [0..<unat (sfo_count ex_sfo_ctx)] = Some 0"
    by (simp add: ex_sfo_ctx_def)
  with sfo_lookup_in_bounds [OF ex_sfo_loads ex_sfo_len, of "''A''"] show ?thesis by simp
qed

theorem sfo_get_int_bounds_witness: "ps4_sfo_get_int ex_sfo_ctx (Some ''A'') False = None"
proof -
  have f: "find_entry ex_sfo_ctx (Some ''A'') = Some (Some 20)" by code_simp
  have "ent_len ex_sfo 20 = 4" "ent_off ex_sfo 20 = 0xfffffff0" by code_simp+
  with sfo_get_int_bounds [OF ex_sfo_loads ex_sfo_len f] show ?thesis
    by (simp add: ex_sfo_ctx_def ex_sfo_def)
qed

section \<open>A reference writer\<close>

text \<open>A parameter: key, format and data. The tables are in the order of the parameters.\<close>

type_synonym sfo_param = "string \<times> u16 \<times> u8 list"

definition key_table :: "sfo_param list \<Rightarrow> u8 list" where
  "key_table ps = concat (map (\<lambda>(k, _, _). str_bytes k @ [0]) ps)"

definition data_table :: "sfo_param list \<Rightarrow> u8 list" where
  "data_table ps = concat (map (\<lambda>(_, _, d). d) ps)"

definition write_entry :: "sfo_param list \<Rightarrow> nat \<Rightarrow> u8 list" where
  "write_entry ps i =
     (case ps ! i of (k, f, d) \<Rightarrow>
        le_bytes 2 (of_nat (length (key_table (take i ps))) :: u16) @ le_bytes 2 f
        @ le_bytes 4 (of_nat (length d) :: u32) @ le_bytes 4 (of_nat (length d) :: u32)
        @ le_bytes 4 (of_nat (length (data_table (take i ps))) :: u32))"

definition write_header :: "sfo_param list \<Rightarrow> u8 list" where
  "write_header ps =
     (let keys = 20 + 16 * length ps; vals = keys + length (key_table ps)
      in [0, 0x50, 0x53, 0x46] @ le_bytes 4 (0x101 :: u32) @ le_bytes 4 (of_nat keys :: u32)
         @ le_bytes 4 (of_nat vals :: u32) @ le_bytes 4 (of_nat (length ps) :: u32))"

definition write_entries :: "sfo_param list \<Rightarrow> u8 list" where
  "write_entries ps = concat (map (write_entry ps) [0..<length ps])"

definition write_sfo :: "sfo_param list \<Rightarrow> u8 list" where
  "write_sfo ps = write_header ps @ write_entries ps @ key_table ps @ data_table ps"

definition sfo_params_ok :: "sfo_param list \<Rightarrow> bool" where
  "sfo_params_ok ps \<longleftrightarrow> (\<forall>(k, _, _) \<in> set ps. CHR 0x00 \<notin> set k)
     \<and> length (key_table ps) < 2 ^ 16 \<and> length (write_sfo ps) + 0xffff < 2 ^ 32"

lemma length_write_entry [simp]: "length (write_entry ps i) = 16"
  by (simp add: write_entry_def split: prod.splits)

lemma drop_concat_uniform:
  assumes "\<forall>x \<in> set xss. length x = n" and "i < length xss"
  shows "take n (drop (n * i) (concat xss @ r)) = xss ! i"
  using assms
proof (induction xss arbitrary: i)
  case (Cons x xss)
  show ?case
  proof (cases i)
    case (Suc j)
    with Cons show ?thesis by simp
  qed (use Cons.prems in simp)
qed simp

lemma length_concat_uniform: "\<forall>x \<in> set xss. length x = n \<Longrightarrow> length (concat xss) = n * length xss"
  by (induction xss) simp_all

lemma length_entries [simp]: "length (write_entries ps) = 16 * length ps"
  using length_concat_uniform [of "map (write_entry ps) [0..<length ps]" 16] by (simp add: write_entries_def)

lemma length_header [simp]: "length (write_header ps) = 20"
  by (simp add: write_header_def Let_def)

lemma length_write_sfo:
  "length (write_sfo ps) = 20 + 16 * length ps + length (key_table ps) + length (data_table ps)"
  by (simp add: write_sfo_def)

lemma entry_slice:
  assumes "i < length ps"
  shows "take 16 (drop (20 + 16 * i) (write_sfo ps)) = write_entry ps i"
proof -
  let ?es = "map (write_entry ps) [0..<length ps]"
  have "drop (20 + 16 * i) (write_sfo ps) = drop (16 * i) (concat ?es @ key_table ps @ data_table ps)"
    unfolding write_sfo_def by (subst drop_after) (simp_all add: write_entries_def)
  moreover have "take 16 (drop (16 * i) (concat ?es @ key_table ps @ data_table ps)) = ?es ! i"
    using assms by (intro drop_concat_uniform) auto
  ultimately show ?thesis using assms by simp
qed

lemma slice_slice: "o1 + n \<le> m \<Longrightarrow> take n (drop (k + o1) b) = take n (drop o1 (take m (drop k b)))"
  by (simp add: drop_take min_def add.commute)

lemma entry_fields:
  assumes "i < length ps" and "ps ! i = (k, f, d)" and "sfo_params_ok ps"
  defines "e \<equiv> 20 + 16 * i" and "b \<equiv> write_sfo ps"
  shows "of_le (take 2 (drop e b)) = (of_nat (length (key_table (take i ps))) :: u16)"
    and "ent_len b e = of_nat (length d)" and "ent_off b e = of_nat (length (data_table (take i ps)))"
proof -
  have s: "take n (drop (e + o1) b) = take n (drop o1 (write_entry ps i))" if "o1 + n \<le> 16" for o1 n
    using slice_slice [OF that, of e b] entry_slice [OF assms(1)] by (simp add: e_def b_def)
  show "of_le (take 2 (drop e b)) = (of_nat (length (key_table (take i ps))) :: u16)"
    using s [of 0 2] assms(2) by (simp add: write_entry_def of_le_le_bytes)
  show "ent_len b e = of_nat (length d)"
    using s [of 4 4] assms(2) by (simp add: write_entry_def ent_len_def of_le_le_bytes)
  show "ent_off b e = of_nat (length (data_table (take i ps)))"
    using s [of 12 4] assms(2) by (simp add: write_entry_def ent_off_def of_le_le_bytes)
qed

lemma tables_from:
  "drop (20 + 16 * length ps) (write_sfo ps) = key_table ps @ data_table ps"
  "drop (20 + 16 * length ps + length (key_table ps)) (write_sfo ps) = data_table ps"
proof -
  have h: "write_sfo ps = (write_header ps @ write_entries ps) @ key_table ps @ data_table ps"
    by (simp add: write_sfo_def)
  show "drop (20 + 16 * length ps) (write_sfo ps) = key_table ps @ data_table ps"
    unfolding h by (subst drop_append) simp
  show "drop (20 + 16 * length ps + length (key_table ps)) (write_sfo ps) = data_table ps"
    unfolding h by (subst drop_after) simp_all
qed

lemma table_split:
  assumes "i < length ps" and "ps ! i = (k, f, d)"
  shows "drop (length (key_table (take i ps))) (key_table ps) = str_bytes k @ [0] @ key_table (drop (Suc i) ps)"
    and "drop (length (data_table (take i ps))) (data_table ps) = d @ data_table (drop (Suc i) ps)"
    and "length (key_table (take i ps)) + length k < length (key_table ps)"
    and "length (data_table (take i ps)) + length d \<le> length (data_table ps)"
proof -
  have ps: "ps = take i ps @ (k, f, d) # drop (Suc i) ps"
    using id_take_nth_drop [OF assms(1)] assms(2) by simp
  have k: "key_table ps = key_table (take i ps) @ str_bytes k @ [0] @ key_table (drop (Suc i) ps)"
    by (subst ps) (simp add: key_table_def)
  have d: "data_table ps = data_table (take i ps) @ d @ data_table (drop (Suc i) ps)"
    by (subst ps) (simp add: data_table_def)
  show "drop (length (key_table (take i ps))) (key_table ps) = str_bytes k @ [0] @ key_table (drop (Suc i) ps)"
    by (subst k) simp
  show "drop (length (data_table (take i ps))) (data_table ps) = d @ data_table (drop (Suc i) ps)"
    by (subst d) simp
  show "length (key_table (take i ps)) + length k < length (key_table ps)"
    using arg_cong [OF k, of length] by (simp add: str_bytes_def)
  show "length (data_table (take i ps)) + length d \<le> length (data_table ps)"
    using arg_cong [OF d, of length] by simp
qed

lemma write_sfo_loads:
  assumes "sfo_params_ok ps"
  shows "ps4_sfo_load_memory s0 (Some (write_sfo ps)) =
    (True, \<lparr>sfo_data = Some (write_sfo ps), sfo_size = of_nat (length (write_sfo ps)),
       sfo_keys = of_nat (20 + 16 * length ps), sfo_vals = of_nat (20 + 16 * length ps + length (key_table ps)),
       sfo_count = of_nat (length ps), sfo_alloc = False\<rparr>)"
proof -
  let ?b = "write_sfo ps" and ?k = "20 + 16 * length ps"
  let ?v = "?k + length (key_table ps)"
  have len: "length ?b + 0xffff < 2 ^ 32" using assms by (simp add: sfo_params_ok_def)
  have sizes: "?k \<le> length ?b" "?v \<le> length ?b" "?v < 2 ^ 32" "length ps < 2 ^ 32"
    using len by (simp_all add: length_write_sfo)
  have magic: "take 4 ?b = [0, 0x50, 0x53, 0x46]" by (simp add: write_sfo_def write_header_def Let_def)
  have f: "of_le (take 4 (drop 8 ?b)) = (of_nat ?k :: u32)" "of_le (take 4 (drop 12 ?b)) = (of_nat ?v :: u32)"
    "of_le (take 4 (drop 16 ?b)) = (of_nat (length ps) :: u32)"
    by (simp_all add: write_sfo_def write_header_def Let_def of_le_le_bytes del: of_nat_add of_nat_mult)
  have u: "unat (of_nat n :: u32) = n" if "n < 2 ^ 32" for n
    using that by (simp add: unat_of_nat)
  have n: "unat (of_nat (length ?b) :: u64) = length ?b" using len by (simp add: unat_of_nat)
  have uk: "unat (ucast (of_nat ?k :: u32) :: u64) = ?k" "unat (ucast (of_nat ?v :: u32) :: u64) = ?v"
    "unat (ucast (of_nat (length ps) :: u32) :: u64) = length ps"
    using sizes u by (simp_all add: unat_ucast_up del: of_nat_add of_nat_mult)
  have c: "unat (20 + ucast (of_nat (length ps) :: u32) * 16 :: u64) = ?k"
    using sizes uk(3) by (simp add: unat_word_ariths)
  have "\<not> length ?b < 20" by (simp add: length_write_sfo)
  moreover have "\<not> of_nat (length ?b) < (ucast (of_nat ?k :: u32) :: u64)"
    "\<not> of_nat (length ?b) < (ucast (of_nat ?v :: u32) :: u64)"
    "\<not> (ucast (of_nat ?k :: u32) :: u64) < 20 + ucast (of_nat (length ps) :: u32) * 16"
    unfolding word_less_nat_alt n uk c using sizes by simp_all
  ultimately show ?thesis
    unfolding ps4_sfo_load_memory_def option.case f Let_def magic by (simp del: of_nat_add of_nat_mult)
qed

lemma written_key:
  assumes "sfo_params_ok ps" and "i < length ps" and "ps4_sfo_load_memory s0 (Some (write_sfo ps)) = (True, s)"
  shows "entry_key s (write_sfo ps) i = Some (fst (ps ! i))"
proof -
  obtain k f d where p: "ps ! i = (k, f, d)" by (cases "ps ! i")
  let ?b = "write_sfo ps" and ?o = "length (key_table (take i ps))"
  have kt: "length (key_table ps) < 2 ^ 16" and len: "length ?b + 0xffff < 2 ^ 32"
    using assms(1) by (simp_all add: sfo_params_ok_def)
  have o16: "?o < 2 ^ 16" using table_split(3) [OF assms(2) p] kt by simp
  have keys: "unat (sfo_keys s) = 20 + 16 * length ps"
    using assms(3) len unfolding write_sfo_loads [OF assms(1)]
    by (auto simp: unat_of_nat length_write_sfo simp del: of_nat_add of_nat_mult)
  have "unat (of_nat ?o :: u16) = ?o" using o16 by (simp add: unat_of_nat)
  then have "entry_key s ?b i = key_at ?b (20 + 16 * length ps + ?o)"
    using keys entry_fields(1) [OF assms(2) p assms(1)] by (simp add: entry_key_def)
  moreover have dr: "drop (20 + 16 * length ps + ?o) ?b = str_bytes k @ [0] @ key_table (drop (Suc i) ps) @ data_table ps"
  proof -
    have "drop (20 + 16 * length ps + ?o) ?b = drop ?o (key_table ps @ data_table ps)"
      unfolding drop_plus [of _ ?o] tables_from(1) ..
    also have "\<dots> = drop ?o (key_table ps) @ data_table ps"
      using table_split(3) [OF assms(2) p] by simp
    finally show ?thesis using table_split(1) [OF assms(2) p] by simp
  qed
  moreover have nz: "0 \<notin> set (str_bytes k)"
  proof (rule str_bytes_nonzero)
    have "\<forall>(k, _, _) \<in> set ps. CHR 0x00 \<notin> set k"
      using assms(1) unfolding sfo_params_ok_def by (rule conjunct1)
    from bspec [OF this nth_mem [OF assms(2)]] show "CHR 0x00 \<notin> set k" by (simp add: p)
  qed
  moreover have "takeWhile (\<lambda>c. c \<noteq> 0) (str_bytes k @ 0 # r) = str_bytes k" for r
    using nz by (subst takeWhile_append2) auto
  ultimately show ?thesis using p by (simp add: key_at_def str_of_bytes)
qed

text \<open>
  C37. Reading a written file gives its parameters back: for parameters with keys without a NUL
  that fit the format, the file loads; the first parameter with a key is found, its value read as
  an integer when it has four bytes and as bytes cut to the caller's buffer otherwise; a key that
  no parameter has is not found.
\<close>

theorem sfo_roundtrip:
  assumes "sfo_params_ok ps"
  shows "\<exists>s. ps4_sfo_load_memory s0 (Some (write_sfo ps)) = (True, s)
    \<and> (\<forall>xs k f d ys. ps = xs @ (k, f, d) # ys \<and> k \<notin> fst ` set xs \<longrightarrow>
         ps4_sfo_get_int s (Some k) False = Some (if length d = 4 then Some (of_le d) else None)
         \<and> (\<forall>sz. sz \<noteq> 0 \<longrightarrow> ps4_sfo_get_string s (Some k) False sz = Some (Some (take (unat sz - 1) d))))
    \<and> (\<forall>k sz. k \<notin> fst ` set ps \<and> sz \<noteq> 0 \<longrightarrow> ps4_sfo_get_int s (Some k) False = Some None
         \<and> ps4_sfo_get_string s (Some k) False sz = Some None)"
proof -
  let ?b = "write_sfo ps" and ?v = "20 + 16 * length ps + length (key_table ps)"
  obtain s where ld: "ps4_sfo_load_memory s0 (Some ?b) = (True, s)"
    and s: "sfo_data s = Some ?b" "sfo_vals s = of_nat ?v" "sfo_count s = of_nat (length ps)"
      "sfo_size s = of_nat (length ?b)"
    using write_sfo_loads [OF assms, of s0] by simp
  have len: "length ?b + 0xffff < 2 ^ 32" using assms by (simp add: sfo_params_ok_def)
  have n: "unat (sfo_count s) = length ps" using s(3) len by (simp add: unat_of_nat length_write_sfo)
  have v: "unat (sfo_vals s) = ?v" using s(2) len by (simp add: unat_of_nat length_write_sfo del: of_nat_add of_nat_mult)
  have fe: "find_entry s (Some k) = Some (map_option (\<lambda>j. 20 + 16 * j)
      (List.find (\<lambda>j. fst (ps ! j) = k) [0..<length ps]))" for k
  proof -
    have "20 + 16 * (0 + length ps) \<le> length ?b" by (simp add: length_write_sfo)
    from find_loop_exact [of s ?b 0 "length ps" k] this len n s load_memory_SomeD [OF ld]
    have "find_entry s (Some k) = Some (map_option (\<lambda>j. 20 + 16 * j)
        (List.find (\<lambda>j. entry_key s ?b j = Some k) [0..<length ps]))"
      by (simp add: find_entry_def)
    moreover have "List.find (\<lambda>j. entry_key s ?b j = Some k) [0..<length ps]
        = List.find (\<lambda>j. fst (ps ! j) = k) [0..<length ps]"
      using written_key [OF assms _ ld] by (intro find_cong) auto
    ultimately show ?thesis by simp
  qed
  have hit: "ps4_sfo_get_int s (Some k) False = Some (if length d = 4 then Some (of_le d) else None)
      \<and> (\<forall>sz. sz \<noteq> 0 \<longrightarrow> ps4_sfo_get_string s (Some k) False sz = Some (Some (take (unat sz - 1) d)))"
    if ps: "ps = xs @ (k, f, d) # ys" and fresh: "k \<notin> fst ` set xs" for xs k f d ys
  proof -
    let ?i = "length xs" let ?e = "20 + 16 * ?i"
    have i: "?i < length ps" "ps ! ?i = (k, f, d)" using ps by simp_all
    have "List.find (\<lambda>j. fst (ps ! j) = k) [0..<length ps] = Some ?i"
      unfolding find_Some_iff using i fresh
      by (intro exI [of _ ?i]) (auto simp: ps nth_append)
    then have f: "find_entry s (Some k) = Some (Some ?e)" by (simp add: fe)
    have e: "?e + 16 \<le> length ?b" using i by (simp add: length_write_sfo)
    let ?o = "length (data_table (take ?i ps))"
    have fit: "?v + ?o + length d \<le> length ?b"
      using table_split(4) [OF i] by (simp add: length_write_sfo)
    have od: "?o < 2 ^ 32" "length d < 2 ^ 32" "?v + ?o + length d < 2 ^ 32" using fit len by simp_all
    have off: "ent_off ?b ?e = of_nat ?o" "unat (ent_off ?b ?e) = ?o"
      using entry_fields(3) [OF i assms] od by (simp_all add: unat_of_nat)
    have pl: "ent_len ?b ?e = of_nat (length d)" "unat (ent_len ?b ?e) = length d"
      using entry_fields(2) [OF i assms] od by (simp_all add: unat_of_nat)
    have ro: "read_le32 ?b (?e + 12) = Some (ent_off ?b ?e)" "read_le32 ?b (?e + 4) = Some (ent_len ?b ?e)"
      using e by (simp_all add: rd_le_in ent_off_def ent_len_def)
    have dat: "drop (?v + ?o) ?b = d @ data_table (drop (Suc ?i) ps)"
      unfolding drop_plus [of _ ?o] tables_from(2) by (rule table_split(2) [OF i])
    have cmp: "\<not> sfo_size s < ucast (sfo_vals s + ent_off ?b ?e + ent_len ?b ?e)"
    proof -
      have "unat (sfo_vals s + ent_off ?b ?e + ent_len ?b ?e) = ?v + ?o + length d"
        using v off(2) pl(2) od(3) by (simp add: unat_sum32)
      then show ?thesis using load_memory_SomeD(2) [OF ld] len fit
        by (simp add: word_less_nat_alt unat_ucast_up)
    qed
    have int: "ps4_sfo_get_int s (Some k) False = Some (if length d = 4 then Some (of_le d) else None)"
    proof (cases "length d = 4")
      case True
      then have four: "ent_len ?b ?e = 4" using pl by simp
      have "read_le32 ?b (?v + ?o) = Some (of_le d)"
        using fit True dat by (simp add: rd_le_in)
      with f s(1) ro four cmp v off(2) True show ?thesis by (simp add: ps4_sfo_get_int_def Let_def)
    next
      case False
      then have "ent_len ?b ?e \<noteq> 4" using pl(2) by auto
      with f s(1) ro False show ?thesis by (simp add: ps4_sfo_get_int_def Let_def)
    qed
    have "ps4_sfo_get_string s (Some k) False sz = Some (Some (take (unat sz - 1) d))" if sz: "sz \<noteq> 0" for sz
    proof -
      let ?n = "if ucast (ent_len ?b ?e) < sz then unat (ent_len ?b ?e) else unat (sz - 1)"
      have sz1: "unat (sz - 1) = unat sz - 1" using sz by (simp add: unat_minus_one)
      have "?n = (if length d < unat sz then length d else unat sz - 1)"
        using pl(2) sz1 by (simp add: word_less_nat_alt unat_ucast_up)
      moreover have "0 < unat sz" using sz by (simp add: unat_gt_0)
      ultimately have n: "take ?n d = take (unat sz - 1) d" "?n \<le> length d" by (auto simp: not_less)
      have "take ?n (drop (?v + ?o) ?b) = take ?n d" unfolding dat using n(2) by simp
      with f s(1) ro cmp v off(2) sz n fit show ?thesis
        by (simp add: ps4_sfo_get_string_def Let_def)
    qed
    with int show ?thesis by blast
  qed
  have miss: "ps4_sfo_get_int s (Some k) False = Some None \<and> ps4_sfo_get_string s (Some k) False sz = Some None"
    if "k \<notin> fst ` set ps" and "sz \<noteq> 0" for k sz
  proof -
    have "List.find (\<lambda>j. fst (ps ! j) = k) [0..<length ps] = None"
      using that(1) by (auto simp: find_None_iff)
    with fe [of k] that(2) show ?thesis by (simp add: ps4_sfo_get_int_def ps4_sfo_get_string_def)
  qed
  show ?thesis using ld hit miss by blast
qed

definition ex_params :: "sfo_param list" where
  "ex_params = [(''APP_VER'', 0x204, [0x30, 0x31, 0]), (''ATTR'', 0x404, [1, 2, 0, 0])]"

theorem sfo_roundtrip_witness:
  "\<exists>s. ps4_sfo_load_memory sfo_zero (Some (write_sfo ex_params)) = (True, s)
     \<and> ps4_sfo_get_int s (Some ''ATTR'') False = Some (Some 0x201)
     \<and> ps4_sfo_get_string s (Some ''APP_VER'') False 3 = Some (Some [0x30, 0x31])"
proof -
  have ok: "sfo_params_ok ex_params"
    by (simp add: sfo_params_ok_def length_write_sfo ex_params_def key_table_def data_table_def str_bytes_def)
  obtain s where l: "ps4_sfo_load_memory sfo_zero (Some (write_sfo ex_params)) = (True, s)"
    and r: "\<And>xs k f d ys sz. ex_params = xs @ (k, f, d) # ys \<Longrightarrow> k \<notin> fst ` set xs \<Longrightarrow>
         ps4_sfo_get_int s (Some k) False = Some (if length d = 4 then Some (of_le d) else None)
         \<and> (sz \<noteq> 0 \<longrightarrow> ps4_sfo_get_string s (Some k) False sz = Some (Some (take (unat sz - 1) d)))"
    using sfo_roundtrip [OF ok, of sfo_zero] by blast
  have v: "of_le [1, 2, 0, 0] = (0x201 :: u32)" by code_simp
  have cut: "take (unat (3 :: u64) - 1) [0x30, 0x31, 0] = [0x30, 0x31 :: u8]" by code_simp
  have "ex_params = [(''APP_VER'', 0x204, [0x30, 0x31, 0])] @ (''ATTR'', 0x404, [1, 2, 0, 0]) # []"
    by (simp add: ex_params_def)
  from r [OF this] v have a: "ps4_sfo_get_int s (Some ''ATTR'') False = Some (Some 0x201)" by simp
  have "ex_params = [] @ (''APP_VER'', 0x204, [0x30, 0x31, 0]) # [(''ATTR'', 0x404, [1, 2, 0, 0])]"
    by (simp add: ex_params_def)
  from r [OF this, of 3] have "ps4_sfo_get_string s (Some ''APP_VER'') False 3 = Some (Some [0x30, 0x31])"
    using cut by simp
  with l a show ?thesis by blast
qed

end
