(* ===== verification/OpenTable.thy ===== *)
theory OpenTable
  imports ByteReads
begin

unbundle bit_operations_syntax

text \<open>
  The open-addressing hash tables of \<open>kernel/vfs/ps4_pak.c\<close>, for an entry type \<open>'e\<close> with the
  hash of an entry \<open>key\<close>: a slot is free when its hash is 0, a search goes on to the next slot,
  the table doubles when it is half full. A search in a table without a free slot never returns;
  its value is then \<open>None\<close>. \<open>hash_table_insert_file\<close> and \<open>hash_table_insert_dir\<close> are the same
  code for two entry types and are instances of \<open>ht_insert\<close>.
\<close>

section \<open>The table\<close>

record 'e htab =
  ht_slots :: "'e list"
  ht_count :: nat

text \<open>\<open>hash & (capacity - 1)\<close>.\<close>

definition ht_slot :: "nat \<Rightarrow> u64 \<Rightarrow> nat" where
  "ht_slot cap h = unat (h AND (of_nat cap - 1))"

partial_function (option) probe :: "(u64 \<Rightarrow> bool) \<Rightarrow> u64 list \<Rightarrow> nat \<Rightarrow> nat option" where
  "probe stop ks i = (if stop (ks ! i) then Some i else probe stop ks (ht_slot (length ks) (of_nat (i + 1))))"

text \<open>The two conditions the loops stop on.\<close>

definition at_free :: "u64 \<Rightarrow> bool" where
  "at_free k \<longleftrightarrow> k = 0"

definition at_hash :: "u64 \<Rightarrow> u64 \<Rightarrow> bool" where
  "at_hash h k \<longleftrightarrow> k = 0 \<or> k = h"

definition ht_search :: "(u64 \<Rightarrow> bool) \<Rightarrow> ('e \<Rightarrow> u64) \<Rightarrow> 'e list \<Rightarrow> u64 \<Rightarrow> nat option" where
  "ht_search stop key es h = probe stop (map key es) (ht_slot (length es) h)"

fun ht_rehash :: "('e \<Rightarrow> u64) \<Rightarrow> 'e list \<Rightarrow> 'e list \<Rightarrow> 'e list option" where
  "ht_rehash key [] new = Some new"
| "ht_rehash key (e # es) new =
     (if key e = 0 then ht_rehash key es new
      else do { i \<leftarrow> ht_search at_free key new (key e); ht_rehash key es (new[i := e]) })"

text \<open>
  \<open>calloc(n, esz)\<close> fails when the product does not fit; otherwise \<open>mem\<close> says whether that many
  bytes can be allocated.
\<close>

definition calloc_ok :: "(nat \<Rightarrow> bool) \<Rightarrow> nat \<Rightarrow> nat \<Rightarrow> bool" where
  "calloc_ok mem n esz \<longleftrightarrow> mem (n * esz) \<and> n * esz < 2 ^ 64"

text \<open>
  \<open>blank\<close> is the zeroed entry, \<open>init\<close> the first capacity, \<open>esz\<close> the size of an entry. When the
  allocation fails the entry is not inserted.
\<close>

definition grown :: "nat \<Rightarrow> nat \<Rightarrow> nat" where
  "grown init cap = (if cap = 0 then init else cap * 2)"

definition ht_insert :: "('e \<Rightarrow> u64) \<Rightarrow> 'e \<Rightarrow> nat \<Rightarrow> nat \<Rightarrow> (nat \<Rightarrow> bool) \<Rightarrow> 'e \<Rightarrow> 'e htab \<Rightarrow> 'e htab option" where
  "ht_insert key blank init esz mem e t =
     (let cap = length (ht_slots t); grow = cap \<le> ht_count t * 2; new_cap = grown init cap in
      if grow \<and> \<not> calloc_ok mem new_cap esz then Some t else
      do { es \<leftarrow> (if grow then ht_rehash key (ht_slots t) (replicate new_cap blank) else Some (ht_slots t));
           i \<leftarrow> ht_search (at_hash (key e)) key es (key e);
           Some \<lparr>ht_slots = es[i := e],
                 ht_count = (if key (es ! i) = 0 then ht_count t + 1 else ht_count t)\<rparr> })"

text \<open>The search of the lookups: an entry, or the free slot that ends it.\<close>

definition ht_find :: "('e \<Rightarrow> u64) \<Rightarrow> 'e htab \<Rightarrow> u64 \<Rightarrow> 'e option option" where
  "ht_find key t h =
     map_option (\<lambda>i. if key (ht_slots t ! i) = 0 then None else Some (ht_slots t ! i))
       (ht_search (at_hash h) key (ht_slots t) h)"

section \<open>Searches end\<close>

definition pow2_cap :: "nat \<Rightarrow> bool" where
  "pow2_cap n \<longleftrightarrow> (\<exists>k < 64. n = 2 ^ k)"

lemma ht_slot_mod:
  assumes "pow2_cap cap"
  shows "ht_slot cap h = unat h mod cap"
proof -
  obtain k where k: "k < 64" "cap = 2 ^ k" using assms by (auto simp: pow2_cap_def)
  have "(of_nat cap - 1 :: u64) = mask k" by (simp add: k mask_eq_exp_minus_1)
  then have "ht_slot cap h = unat (take_bit k h)" by (simp add: ht_slot_def take_bit_eq_mask)
  also have "\<dots> = take_bit k (unat h)" by (rule unsigned_take_bit_eq)
  also have "\<dots> = unat h mod cap" by (simp add: k take_bit_eq_mod)
  finally show ?thesis .
qed

lemma pow2_cap_pos: "pow2_cap cap \<Longrightarrow> 0 < cap"
  by (auto simp: pow2_cap_def)

lemma pow2_cap_lt: "pow2_cap cap \<Longrightarrow> cap < 2 ^ 64"
  unfolding pow2_cap_def by (metis power_strict_increasing_iff one_less_numeral_iff semiring_norm(76))

lemma ht_next_mod:
  assumes "pow2_cap cap" and "i < cap"
  shows "ht_slot cap (of_nat (i + 1)) = (i + 1) mod cap"
proof -
  have "i + 1 < 2 ^ 64" using assms pow2_cap_lt [OF assms(1)] by simp
  then show ?thesis using assms(1) by (simp add: ht_slot_mod unat_of_nat del: of_nat_Suc of_nat_add)
qed

text \<open>The slots a search visits from slot \<open>i\<close>, and where it stops.\<close>

definition stops_at :: "(u64 \<Rightarrow> bool) \<Rightarrow> u64 list \<Rightarrow> nat \<Rightarrow> nat \<Rightarrow> nat \<Rightarrow> bool" where
  "stops_at stop ks i d j \<longleftrightarrow> j = (i + d) mod length ks \<and> stop (ks ! j)
     \<and> (\<forall>d' < d. \<not> stop (ks ! ((i + d') mod length ks)))"

lemma probe_stops:
  assumes "pow2_cap (length ks)"
  shows "i < length ks \<Longrightarrow> stops_at stop ks i d j \<Longrightarrow> probe stop ks i = Some j"
proof (induction d arbitrary: i)
  case 0
  then have "stop (ks ! i)" "j = i" by (auto simp: stops_at_def)
  then show ?case by (simp add: probe.simps [of _ _ i])
next
  case (Suc d)
  let ?n = "length ks"
  have ns: "\<not> stop (ks ! i)" using Suc.prems by (auto simp: stops_at_def dest: spec [of _ 0])
  have nx: "ht_slot ?n (of_nat (i + 1)) = (i + 1) mod ?n" by (rule ht_next_mod [OF assms Suc.prems(1)])
  have "stops_at stop ks ((i + 1) mod ?n) d j"
    unfolding stops_at_def
  proof (intro conjI allI impI)
    show "j = ((i + 1) mod ?n + d) mod ?n" using Suc.prems(2) by (simp add: stops_at_def mod_add_left_eq)
    show "stop (ks ! j)" using Suc.prems(2) unfolding stops_at_def by blast
    fix d' assume "d' < d"
    then have "\<not> stop (ks ! ((i + Suc d') mod ?n))" using Suc.prems(2) unfolding stops_at_def by blast
    then show "\<not> stop (ks ! (((i + 1) mod ?n + d') mod ?n))" by (simp add: mod_add_left_eq)
  qed
  then have "probe stop ks ((i + 1) mod ?n) = Some j"
    using pow2_cap_pos [OF assms] by (intro Suc.IH) simp_all
  with ns nx show ?case by (simp add: probe.simps [of _ _ i] del: of_nat_Suc of_nat_add)
qed

lemma probe_total:
  assumes "pow2_cap (length ks)" and "i < length ks" and "z < length ks" and "stop (ks ! z)"
  obtains d j where "stops_at stop ks i d j" and "probe stop ks i = Some j" and "j < length ks" and "stop (ks ! j)"
proof -
  let ?n = "length ks" and ?P = "\<lambda>d. stop (ks ! ((i + d) mod length ks))"
  have "?P ((z + ?n - i) mod ?n)"
  proof -
    have "(i + (z + ?n - i) mod ?n) mod ?n = (i + (z + ?n - i)) mod ?n" by (rule mod_add_right_eq)
    also have "\<dots> = z" using assms(2,3) by simp
    finally show ?thesis using assms(4) by simp
  qed
  then have st: "?P (LEAST d. ?P d)" "\<And>d'. d' < (LEAST d. ?P d) \<Longrightarrow> \<not> ?P d'"
    by (rule LeastI) (rule not_less_Least)
  let ?j = "(i + (LEAST d. ?P d)) mod ?n"
  have s: "stops_at stop ks i (LEAST d. ?P d) ?j" using st by (simp add: stops_at_def)
  show ?thesis
    by (rule that [OF s probe_stops [OF assms(1,2) s]]) (use st(1) pow2_cap_pos [OF assms(1)] in simp_all)
qed

text \<open>The search stops at a stopping slot, and at only one.\<close>

lemma stops_at_unique:
  assumes "pow2_cap (length ks)" and "i < length ks" and "stops_at stop ks i d j" and "stops_at stop ks i d' j'"
  shows "j = j'"
  using probe_stops [OF assms(1,2,3)] probe_stops [OF assms(1,2,4)] by simp

section \<open>Well-formed tables\<close>

text \<open>Every used slot is where the search for its hash stops.\<close>

definition home :: "u64 list \<Rightarrow> u64 \<Rightarrow> nat" where
  "home ks h = ht_slot (length ks) h"

definition ks_ok :: "u64 list \<Rightarrow> bool" where
  "ks_ok ks \<longleftrightarrow> (\<forall>i < length ks. ks ! i \<noteq> 0 \<longrightarrow> (\<exists>d. stops_at (at_hash (ks ! i)) ks (home ks (ks ! i)) d i))"

definition used :: "u64 list \<Rightarrow> nat" where
  "used ks = length (filter (\<lambda>k. k \<noteq> 0) ks)"

lemma home_lt: "pow2_cap (length ks) \<Longrightarrow> home ks h < length ks"
  using pow2_cap_pos [of "length ks"] by (simp add: home_def ht_slot_mod)

lemma free_slot:
  assumes "used ks < length ks"
  obtains z where "z < length ks" and "ks ! z = 0"
proof -
  have "\<exists>z < length ks. ks ! z = 0"
  proof (rule ccontr)
    assume "\<not> ?thesis"
    then have "filter (\<lambda>k. k \<noteq> 0) ks = ks" by (auto simp: filter_id_conv in_set_conv_nth)
    then show False using assms by (simp add: used_def)
  qed
  then show thesis using that by blast
qed

lemma ks_ok_unique:
  assumes "ks_ok ks" and "pow2_cap (length ks)"
    and "i < length ks" and "j < length ks" and "ks ! i = ks ! j" and "ks ! i \<noteq> 0"
  shows "i = j"
proof -
  obtain d d' where "stops_at (at_hash (ks ! i)) ks (home ks (ks ! i)) d i"
    "stops_at (at_hash (ks ! i)) ks (home ks (ks ! i)) d' j"
    using assms unfolding ks_ok_def by metis
  then show ?thesis using stops_at_unique [OF assms(2) home_lt [OF assms(2)]] by blast
qed

lemma ks_search:
  assumes "ks_ok ks" and "pow2_cap (length ks)" and "used ks < length ks" and "h \<noteq> 0"
  obtains d j where "stops_at (at_hash h) ks (home ks h) d j" and "probe (at_hash h) ks (home ks h) = Some j"
    and "j < length ks" and "ks ! j = h \<or> ks ! j = 0 \<and> h \<notin> set ks"
proof -
  obtain z where z: "z < length ks" "ks ! z = 0" using free_slot [OF assms(3)] .
  obtain d j where s: "stops_at (at_hash h) ks (home ks h) d j" "probe (at_hash h) ks (home ks h) = Some j"
    "j < length ks" "at_hash h (ks ! j)"
    using probe_total [OF assms(2) home_lt [OF assms(2)] z(1), of "at_hash h"] z(2) by (auto simp: at_hash_def)
  have "ks ! j = h \<or> ks ! j = 0 \<and> h \<notin> set ks"
  proof (rule ccontr)
    assume n: "\<not> ?thesis"
    with s(4) have j0: "ks ! j = 0" and "h \<in> set ks" by (auto simp: at_hash_def)
    then obtain i where i: "i < length ks" "ks ! i = h" by (auto simp: in_set_conv_nth)
    then obtain d' where "stops_at (at_hash h) ks (home ks h) d' i" using assms(1,4) unfolding ks_ok_def by metis
    then have "i = j" using stops_at_unique [OF assms(2) home_lt [OF assms(2)]] s(1) by blast
    with i j0 assms(4) show False by simp
  qed
  with s that show thesis by blast
qed

text \<open>Inserting at the slot where the search stopped keeps the table well-formed.\<close>

lemma used_update:
  "j < length ks \<Longrightarrow> ks ! j = 0 \<Longrightarrow> h \<noteq> 0 \<Longrightarrow> used (ks[j := h]) = Suc (used ks)"
proof (induction ks arbitrary: j)
  case (Cons k ks)
  then show ?case by (cases j) (auto simp: used_def)
qed simp

lemma stops_at_update:
  assumes "stops_at (at_hash k) ks i d j'" and "ks ! j = 0" and "j < length ks"
    and "j' = j \<Longrightarrow> k = h" and "h \<noteq> 0" and "k \<noteq> 0"
  shows "stops_at (at_hash k) (ks[j := h]) i d j'"
proof -
  have "j \<noteq> (i + d') mod length ks" if "d' < d" for d'
    using assms(1,2) that by (auto simp: stops_at_def at_hash_def)
  then have "\<forall>d' < d. ks[j := h] ! ((i + d') mod length ks) = ks ! ((i + d') mod length ks)"
    by (simp add: nth_list_update_neq)
  moreover have "ks[j := h] ! j' = (if j' = j then h else ks ! j')" using assms(3) by simp
  ultimately have "at_hash k (ks[j := h] ! j')" "\<forall>d' < d. ks[j := h] ! ((i + d') mod length ks) = ks ! ((i + d') mod length ks)"
    using assms by (auto simp: stops_at_def at_hash_def)
  then show ?thesis using assms(1) unfolding stops_at_def length_list_update by simp
qed

lemma ks_ok_place:
  assumes "ks_ok ks" and "pow2_cap (length ks)" and "stops_at (at_hash h) ks (home ks h) d j"
    and "j < length ks" and "h \<noteq> 0"
  shows "ks_ok (ks[j := h])"
proof (cases "ks ! j = h")
  case True
  then show ?thesis using assms(1) by (metis list_update_id)
next
  case False
  then have j0: "ks ! j = 0" using assms(3) by (auto simp: stops_at_def at_hash_def)
  show ?thesis unfolding ks_ok_def
  proof (intro allI impI)
    fix i assume i: "i < length (ks[j := h])" "ks[j := h] ! i \<noteq> 0"
    have hm: "home (ks[j := h]) x = home ks x" for x by (simp add: home_def)
    show "\<exists>d. stops_at (at_hash (ks[j := h] ! i)) (ks[j := h]) (home (ks[j := h]) (ks[j := h] ! i)) d i"
    proof (cases "i = j")
      case True
      with assms j0 show ?thesis by (auto simp: hm intro!: exI [of _ d] stops_at_update)
    next
      case False
      then obtain d' where "stops_at (at_hash (ks ! i)) ks (home ks (ks ! i)) d' i"
        using assms(1) i unfolding ks_ok_def by auto
      with False i j0 assms show ?thesis by (auto simp: hm intro!: exI [of _ d'] stops_at_update)
    qed
  qed
qed

section \<open>The table as a map\<close>

definition ht_map :: "('e \<Rightarrow> u64) \<Rightarrow> 'e list \<Rightarrow> u64 \<Rightarrow> 'e option" where
  "ht_map key es h = (if h = 0 then None else List.find (\<lambda>e. key e = h) es)"

lemma ht_map_iff:
  assumes "ks_ok (map key es)" and "pow2_cap (length es)"
  shows "ht_map key es h = Some e \<longleftrightarrow> h \<noteq> 0 \<and> key e = h \<and> e \<in> set es"
proof
  assume "ht_map key es h = Some e"
  then show "h \<noteq> 0 \<and> key e = h \<and> e \<in> set es"
    by (auto simp: ht_map_def find_Some_iff split: if_splits)
next
  assume a: "h \<noteq> 0 \<and> key e = h \<and> e \<in> set es"
  then obtain i where i: "i < length es" "es ! i = e" by (auto simp: in_set_conv_nth)
  have "\<exists>e'. List.find (\<lambda>e. key e = h) es = Some e'" using a by (auto simp: find_None_iff not_None_eq [symmetric])
  then obtain e' j where j: "List.find (\<lambda>e. key e = h) es = Some e'" "j < length es" "es ! j = e'" "key e' = h"
    by (auto simp: find_Some_iff)
  have "j = i" using ks_ok_unique [of "map key es" j i] assms i j a by simp
  with i j a show "ht_map key es h = Some e" by (simp add: ht_map_def)
qed

lemma ht_map_None: "ht_map key es h = None \<longleftrightarrow> h = 0 \<or> h \<notin> key ` set es"
  by (auto simp: ht_map_def find_None_iff)

lemma ht_map_blank: "key blank = 0 \<Longrightarrow> ht_map key (replicate n blank) h = None"
  by (auto simp: ht_map_None)

lemma place_map:
  assumes "ks_ok (map key es)" and "pow2_cap (length es)" and "key e \<noteq> 0"
    and "stops_at (at_hash (key e)) (map key es) (home (map key es) (key e)) d j" and "j < length es"
    and "key (es ! j) = key e \<or> key (es ! j) = 0"
  shows "ks_ok (map key (es[j := e])) \<and> ht_map key (es[j := e]) = (ht_map key es)(key e \<mapsto> e)"
proof
  show ok: "ks_ok (map key (es[j := e]))"
    using ks_ok_place [OF assms(1) _ assms(4)] assms by (simp add: map_update)
  have "ht_map key (es[j := e]) h = Some x \<longleftrightarrow> ((ht_map key es)(key e \<mapsto> e)) h = Some x" for h x
  proof (cases "h = key e")
    case True
    have "e \<in> set (es[j := e])" using assms(5) by (simp add: set_update_memI)
    then have "ht_map key (es[j := e]) h = Some e" using ht_map_iff [OF ok] True assms by simp
    with True show ?thesis by auto
  next
    case False
    then have "h \<noteq> 0 \<Longrightarrow> key x = h \<Longrightarrow> x \<in> set (es[j := e]) \<longleftrightarrow> x \<in> set es"
      using assms(5,6) by (fastforce simp: in_set_conv_nth nth_list_update)
    then show ?thesis using ht_map_iff [OF ok, of h x] ht_map_iff [OF assms(1,2), of h x] False assms(2) by auto
  qed
  then have "ht_map key (es[j := e]) h = ((ht_map key es)(key e \<mapsto> e)) h" for h
    by (metis not_Some_eq)
  then show "ht_map key (es[j := e]) = (ht_map key es)(key e \<mapsto> e)" by blast
qed

section \<open>Rehashing\<close>

lemma ht_search_home: "ht_search stop key es h = probe stop (map key es) (home (map key es) h)"
  by (simp add: ht_search_def home_def)

lemma ht_map_Cons: "ht_map key (e # es) h = (if h \<noteq> 0 \<and> key e = h then Some e else ht_map key es h)"
  by (simp add: ht_map_def)

lemma at_free_stop:
  assumes "stops_at at_free ks i d j" and "h \<notin> set ks" and "0 < length ks"
  shows "stops_at (at_hash h) ks i d j"
proof -
  have "ks ! ((i + d') mod length ks) \<noteq> h" for d'
    using assms(2,3) by (metis mod_less_divisor nth_mem)
  then show ?thesis using assms(1) by (auto simp: stops_at_def at_free_def at_hash_def)
qed

lemma ht_rehash_spec:
  assumes "ks_ok (map key new)" and "pow2_cap (length new)"
    and "used (map key new) + used (map key es) < length new"
    and "\<forall>e \<in> set es. key e \<noteq> 0 \<longrightarrow> key e \<notin> key ` set new"
    and "distinct (filter (\<lambda>k. k \<noteq> 0) (map key es))"
  shows "\<exists>new'. ht_rehash key es new = Some new' \<and> length new' = length new \<and> ks_ok (map key new')
    \<and> used (map key new') = used (map key new) + used (map key es)
    \<and> (\<forall>h. ht_map key new' h = (case ht_map key es h of None \<Rightarrow> ht_map key new h | Some e \<Rightarrow> Some e))"
  using assms
proof (induction es arbitrary: new)
  case Nil
  then show ?case by (simp add: used_def ht_map_def)
next
  case (Cons e es)
  show ?case
  proof (cases "key e = 0")
    case True
    have "used (map key (e # es)) = used (map key es)" using True by (simp add: used_def)
    then show ?thesis using Cons.IH [of new] Cons.prems True by (auto simp: ht_map_Cons)
  next
    case False
    let ?ks = "map key new"
    have p2: "pow2_cap (length ?ks)" and us: "used ?ks < length ?ks"
      and hn: "key e \<notin> set ?ks" using Cons.prems False by auto
    obtain z where z: "z < length ?ks" "?ks ! z = 0" using free_slot [OF us] .
    obtain d j where j: "stops_at at_free ?ks (home ?ks (key e)) d j" "probe at_free ?ks (home ?ks (key e)) = Some j"
      "j < length ?ks" "at_free (?ks ! j)"
      using probe_total [OF p2 home_lt [OF p2] z(1), of at_free] z(2) by (auto simp: at_free_def)
    have j': "j < length new" and j0: "key (new ! j) = 0" using j(3,4) by (simp_all add: at_free_def)
    have pl: "ks_ok (map key (new[j := e]))" "ht_map key (new[j := e]) = (ht_map key new)(key e \<mapsto> e)"
      using place_map [OF Cons.prems(1,2) False at_free_stop [OF j(1) hn] j'] j0 pow2_cap_pos [OF p2] by auto
    have u1: "used (map key (new[j := e])) = Suc (used ?ks)"
      using used_update [OF j(3) _ False] j(4) by (simp add: map_update at_free_def)
    have u2: "used (map key (e # es)) = Suc (used (map key es))" using False by (simp add: used_def)
    have fresh: "\<forall>x \<in> set es. key x \<noteq> 0 \<longrightarrow> key x \<notin> key ` set (new[j := e])"
    proof (intro ballI impI)
      fix x assume x: "x \<in> set es" "key x \<noteq> 0"
      then have "key x \<noteq> key e" using Cons.prems(5) False by (auto simp: image_iff)
      moreover have "key x \<notin> key ` set new" using Cons.prems(4) x by simp
      ultimately show "key x \<notin> key ` set (new[j := e])" using set_update_subset_insert [of new j e] by auto
    qed
    have "\<exists>new'. ht_rehash key es (new[j := e]) = Some new' \<and> length new' = length (new[j := e]) \<and> ks_ok (map key new')
      \<and> used (map key new') = used (map key (new[j := e])) + used (map key es)
      \<and> (\<forall>h. ht_map key new' h = (case ht_map key es h of None \<Rightarrow> ht_map key (new[j := e]) h | Some e \<Rightarrow> Some e))"
      using Cons.prems(2,3,5) u1 u2 fresh pl(1) False by (intro Cons.IH) simp_all
    then obtain new' where n: "ht_rehash key es (new[j := e]) = Some new'" "length new' = length new" "ks_ok (map key new')"
      "used (map key new') = used (map key (new[j := e])) + used (map key es)"
      "\<forall>h. ht_map key new' h = (case ht_map key es h of None \<Rightarrow> ht_map key (new[j := e]) h | Some e \<Rightarrow> Some e)"
      by auto
    have "ht_map key es (key e) = None" using Cons.prems(5) False by (auto simp: ht_map_None)
    then have "\<forall>h. ht_map key new' h = (case ht_map key (e # es) h of None \<Rightarrow> ht_map key new h | Some e \<Rightarrow> Some e)"
      using n(5) False by (auto simp: ht_map_Cons fun_cong [OF pl(2)] split: option.split)
    moreover have "ht_rehash key (e # es) new = Some new'"
      using n(1) j(2) False by (simp add: ht_search_home)
    ultimately show ?thesis using n(2,3,4) u1 u2 by auto
  qed
qed

section \<open>Inserting and finding\<close>

definition ht_inv :: "('e \<Rightarrow> u64) \<Rightarrow> 'e htab \<Rightarrow> bool" where
  "ht_inv key t \<longleftrightarrow> (let es = ht_slots t in
     es = [] \<and> ht_count t = 0
     \<or> pow2_cap (length es) \<and> even (length es) \<and> ks_ok (map key es)
       \<and> used (map key es) \<le> ht_count t \<and> 2 * ht_count t \<le> length es)"

text \<open>The insertion is dropped: the table is half full and cannot grow.\<close>

definition ht_refuses :: "nat \<Rightarrow> nat \<Rightarrow> (nat \<Rightarrow> bool) \<Rightarrow> 'e htab \<Rightarrow> bool" where
  "ht_refuses init esz mem t \<longleftrightarrow> length (ht_slots t) \<le> ht_count t * 2 \<and> \<not> calloc_ok mem (grown init (length (ht_slots t))) esz"

lemma ht_find_map:
  assumes "ht_inv key t" and "ht_slots t \<noteq> []"
  shows "ht_find key t h = Some (ht_map key (ht_slots t) h)"
proof -
  let ?es = "ht_slots t" and ?ks = "map key (ht_slots t)"
  have ok: "ks_ok ?ks" and p2: "pow2_cap (length ?es)" and le: "2 * used ?ks \<le> length ?ks"
    using assms by (auto simp: ht_inv_def Let_def)
  have us: "used ?ks < length ?ks" using le pow2_cap_pos [OF p2] unfolding length_map by linarith
  show ?thesis
  proof (cases "h = 0")
    case True
    obtain z where z: "z < length ?ks" "?ks ! z = 0" using free_slot [OF us] .
    obtain j where "probe (at_hash 0) ?ks (home ?ks 0) = Some j" "at_hash 0 (?ks ! j)" "j < length ?ks"
      using probe_total [OF _ home_lt z(1), of "at_hash 0" 0] p2 z(2) by (auto simp: at_hash_def)
    then show ?thesis using True by (simp add: ht_find_def ht_search_home at_hash_def ht_map_def)
  next
    case False
    obtain d j where j: "probe (at_hash h) ?ks (home ?ks h) = Some j" "j < length ?ks"
      "?ks ! j = h \<or> ?ks ! j = 0 \<and> h \<notin> set ?ks"
      using ks_search [OF ok _ us False] p2 by auto
    then have "ht_map key ?es h = (if key (?es ! j) = 0 then None else Some (?es ! j))"
    proof (cases "?ks ! j = h")
      case True
      then show ?thesis using ht_map_iff [OF ok p2, of h "?es ! j"] j(2) False by simp
    next
      case False
      then show ?thesis using j by (auto simp: ht_map_None)
    qed
    then show ?thesis using j(1) by (simp add: ht_find_def ht_search_home)
  qed
qed

lemma ks_distinct:
  assumes "ks_ok ks" and "pow2_cap (length ks)"
  shows "distinct (filter (\<lambda>k. k \<noteq> 0) ks)"
proof -
  have "filter (\<lambda>k. k \<noteq> 0) (map ((!) ks) [0..<length ks]) = map ((!) ks) (filter (\<lambda>i. ks ! i \<noteq> 0) [0..<length ks])"
    by (simp add: filter_map comp_def)
  then show ?thesis using ks_ok_unique [OF assms] by (auto simp: map_nth distinct_map inj_on_def)
qed

text \<open>The insertion into a table with room.\<close>

lemma ht_put:
  assumes "pow2_cap (length es)" and "ks_ok (map key es)" and "used (map key es) \<le> c" and "2 * c < length es"
    and "even (length es)"
  shows "\<exists>t'. do { i \<leftarrow> ht_search (at_hash (key e)) key es (key e);
      Some \<lparr>ht_slots = es[i := e], ht_count = (if key (es ! i) = 0 then c + 1 else c)\<rparr> } = Some t'
    \<and> ht_inv key t' \<and> ht_slots t' \<noteq> []
    \<and> ht_map key (ht_slots t') = (if key e = 0 then ht_map key es else (ht_map key es)(key e \<mapsto> e))"
proof -
  let ?ks = "map key es"
  have us: "used ?ks < length ?ks" and ne: "es \<noteq> []" using assms by auto
  have c1: "2 * (c + 1) \<le> length es" using assms(4,5) by presburger
  show ?thesis
  proof (cases "key e = 0")
    case True
    obtain z where z: "z < length ?ks" "?ks ! z = 0" using free_slot [OF us] .
    obtain j where j: "probe (at_hash 0) ?ks (home ?ks 0) = Some j" "at_hash 0 (?ks ! j)" "j < length ?ks"
      using probe_total [OF _ home_lt z(1), of "at_hash 0" 0] assms(1) z(2) by (auto simp: at_hash_def)
    then have j0: "key (es ! j) = 0" "j < length es" by (auto simp: at_hash_def)
    have km: "map key (es[j := e]) = ?ks" using True j0 by (simp add: map_update) (metis j(3) list_update_id nth_map)
    have "ht_map key (es[j := e]) h = Some x \<longleftrightarrow> ht_map key es h = Some x" for h x
    proof (cases "h = 0")
      case False
      then have "key x = h \<Longrightarrow> x \<in> set (es[j := e]) \<longleftrightarrow> x \<in> set es"
        using True j0 by (fastforce simp: in_set_conv_nth nth_list_update)
      then show ?thesis using ht_map_iff [of key "es[j := e]" h x] ht_map_iff [of key es h x] km assms(1,2) by auto
    qed (simp add: ht_map_def)
    then have "ht_map key (es[j := e]) = ht_map key es" by (metis ext not_Some_eq)
    then show ?thesis using True j(1) j0 km assms c1 ne by (simp add: ht_search_home ht_inv_def Let_def)
  next
    case False
    obtain d j where j: "stops_at (at_hash (key e)) ?ks (home ?ks (key e)) d j"
      "probe (at_hash (key e)) ?ks (home ?ks (key e)) = Some j" "j < length ?ks" "?ks ! j = key e \<or> ?ks ! j = 0 \<and> key e \<notin> set ?ks"
      using ks_search [OF assms(2) _ us False] assms(1) by auto
    have jk: "key (es ! j) = key e \<or> key (es ! j) = 0" "j < length es" using j(3,4) by auto
    note pl = place_map [OF assms(2,1) False j(1) jk(2,1)]
    have u: "used (map key (es[j := e])) = (if key (es ! j) = 0 then Suc (used ?ks) else used ?ks)"
    proof (cases "key (es ! j) = 0")
      case True
      then show ?thesis using used_update [of j ?ks "key e"] j(3) False by (simp add: map_update)
    next
      case F: False
      then have "map key (es[j := e]) = ?ks" using jk by (simp add: map_update) (metis j(3) list_update_id nth_map)
      with F show ?thesis by simp
    qed
    show ?thesis using pl u j(2) assms c1 ne False by (simp add: ht_search_home ht_inv_def Let_def)
  qed
qed

lemma pow2_cap_double:
  assumes "pow2_cap n" and "n * 2 * esz < 2 ^ 64" and "8 \<le> esz"
  shows "pow2_cap (n * 2)"
proof -
  obtain k where k: "k < 64" "n = 2 ^ k" using assms(1) by (auto simp: pow2_cap_def)
  have "n * 2 * 8 \<le> n * 2 * esz" using assms(3) by simp
  then have "n * 2 * 8 < 2 ^ 64" using assms(2) by linarith
  then have "(2 :: nat) ^ (k + 4) < 2 ^ 64" using k by (simp add: power_add)
  then have "k + 4 < 64" by (rule power_less_imp_less_exp [rotated]) simp
  then show ?thesis using k unfolding pow2_cap_def by (intro exI [of _ "Suc k"]) simp
qed

lemma ht_insert_spec:
  assumes "ht_inv key t" and "key blank = 0" and "pow2_cap init" and "even init" and "8 \<le> esz"
  shows "\<exists>t'. ht_insert key blank init esz mem e t = Some t' \<and> ht_inv key t'
    \<and> (ht_refuses init esz mem t \<longrightarrow> t' = t)
    \<and> (\<not> ht_refuses init esz mem t \<longrightarrow> ht_slots t' \<noteq> [] \<and>
         ht_map key (ht_slots t') =
           (if key e = 0 then ht_map key (ht_slots t) else (ht_map key (ht_slots t))(key e \<mapsto> e)))"
proof (cases "ht_refuses init esz mem t")
  case True
  then show ?thesis using assms(1) by (simp add: ht_insert_def ht_refuses_def Let_def)
next
  case F: False
  let ?es = "ht_slots t" and ?n = "grown init (length (ht_slots t))"
  show ?thesis
  proof (cases "length ?es \<le> ht_count t * 2")
    case True
    then have ok: "calloc_ok mem ?n esz" using F by (simp add: ht_refuses_def)
    have n: "pow2_cap ?n \<and> even ?n \<and> 2 * ht_count t < ?n \<and> used (map key ?es) \<le> ht_count t
      \<and> distinct (filter (\<lambda>k. k \<noteq> 0) (map key ?es))"
    proof (cases "?es = []")
      case True
      then show ?thesis using assms pow2_cap_pos [OF assms(3)]
        by (auto simp: grown_def ht_inv_def Let_def used_def pow2_cap_def)
    next
      case False
      then have i: "pow2_cap (length ?es)" "used (map key ?es) \<le> ht_count t" "2 * ht_count t \<le> length ?es" "ks_ok (map key ?es)"
        using assms(1) by (auto simp: ht_inv_def Let_def)
      have n2: "?n = length ?es * 2" using False by (simp add: grown_def)
      have "pow2_cap ?n" using pow2_cap_double [OF i(1) _ assms(5)] ok unfolding n2 calloc_ok_def by blast
      moreover have "2 * ht_count t < ?n" using i(3) pow2_cap_pos [OF i(1)] unfolding n2 by linarith
      moreover have "even ?n" by (simp add: n2)
      ultimately show ?thesis using i ks_distinct [of "map key ?es"] by simp
    qed
    let ?new = "replicate ?n blank"
    have uz: "used (map key ?new) = 0" using assms(2) by (simp add: used_def)
    have "\<exists>new'. ht_rehash key ?es ?new = Some new' \<and> length new' = length ?new \<and> ks_ok (map key new')
      \<and> used (map key new') = used (map key ?new) + used (map key ?es)
      \<and> (\<forall>h. ht_map key new' h = (case ht_map key ?es h of None \<Rightarrow> ht_map key ?new h | Some e \<Rightarrow> Some e))"
      using n uz assms(2) by (intro ht_rehash_spec) (auto simp: ks_ok_def)
    then obtain new' where r: "ht_rehash key ?es ?new = Some new'" "length new' = ?n" "ks_ok (map key new')"
      "used (map key new') = used (map key ?es)"
      "\<And>h. ht_map key new' h = (case ht_map key ?es h of None \<Rightarrow> ht_map key ?new h | Some e \<Rightarrow> Some e)"
      using uz by auto
    have "ht_map key new' = ht_map key ?es"
      using r(5) ht_map_blank [of key blank, OF assms(2)] by (auto split: option.splits intro!: ext)
    then show ?thesis
      using ht_put [of new' key "ht_count t" e] r(1-4) n True F ok
      unfolding ht_insert_def ht_refuses_def Let_def by (simp only: if_True simp_thms bind.bind_lunit r(2)) simp
  next
    case False
    then have "?es \<noteq> []" by auto
    then have "pow2_cap (length ?es)" "ks_ok (map key ?es)" "used (map key ?es) \<le> ht_count t" "even (length ?es)"
      using assms(1) by (auto simp: ht_inv_def Let_def)
    from ht_put [OF this(1-3) _ this(4), of e] False F show ?thesis
      by (simp add: ht_insert_def ht_refuses_def Let_def)
  qed
qed

end
