(* ===== verification/Pak.thy ===== *)
theory Pak
  imports OpenTable
begin

unbundle bit_operations_syntax

text \<open>
  The index of the archives of a title, \<open>kernel/vfs/ps4_pak.c\<close>: the index parser of an archive
  file, the tables of file and directory hashes, the lookup with its fallback to parent locales.
  The calls run under one mutex. A result \<open>None\<close> is a read outside a buffer or a search that
  never ends; the properties say when it cannot happen.

  Host: \<open>mem n\<close> says whether \<open>n\<close> bytes can be allocated, an opened file is its descriptor and
  its contents, \<open>ls\<close> lists a directory. An overflowing \<open>int\<close> wraps.
\<close>

section \<open>Hashes and tables\<close>

definition fnv_step :: "u64 \<Rightarrow> char \<Rightarrow> u64" where
  "fnv_step h c = (let l = lower c; l' = (if l = CHR 0x5C then CHR 0x2F else l) in (h XOR of_char l') * 1099511628211)"

definition fnv1a_64_lower :: "string \<Rightarrow> u64" where
  "fnv1a_64_lower s = foldl fnv_step 14695981039346656037 s"

record pak_entry =
  pe_hash :: u64
  pe_fd :: i32
  pe_off :: u64
  pe_size :: u64
  pe_comp :: u32

text \<open>A directory entry is its hash.\<close>

record pak_state =
  pk_files :: "pak_entry htab"
  pk_dirs :: "u64 htab"
  pk_fds :: "i32 list"

definition no_table :: "'e htab" where
  "no_table = \<lparr>ht_slots = [], ht_count = 0\<rparr>"

definition pak_zero :: pak_state where
  "pak_zero = \<lparr>pk_files = no_table, pk_dirs = no_table, pk_fds = []\<rparr>"

definition pe_blank :: pak_entry where
  "pe_blank = \<lparr>pe_hash = 0, pe_fd = 0, pe_off = 0, pe_size = 0, pe_comp = 0\<rparr>"

definition hash_table_insert_file :: "(nat \<Rightarrow> bool) \<Rightarrow> u64 \<Rightarrow> i32 \<Rightarrow> u64 \<Rightarrow> u64 \<Rightarrow> u32 \<Rightarrow> pak_state \<Rightarrow> pak_state option" where
  "hash_table_insert_file mem hash pak_fd data_offset sz cmp st =
     do { t \<leftarrow> ht_insert pe_hash pe_blank 65536 40 mem
                \<lparr>pe_hash = hash, pe_fd = pak_fd, pe_off = data_offset, pe_size = sz, pe_comp = cmp\<rparr> (pk_files st);
          Some (st\<lparr>pk_files := t\<rparr>) }"

definition hash_table_insert_dir :: "(nat \<Rightarrow> bool) \<Rightarrow> u64 \<Rightarrow> pak_state \<Rightarrow> pak_state option" where
  "hash_table_insert_dir mem hash st =
     do { t \<leftarrow> ht_insert (\<lambda>h. h) 0 4096 8 mem hash (pk_dirs st); Some (st\<lparr>pk_dirs := t\<rparr>) }"

section \<open>The directory index\<close>

text \<open>
  A name with its length word \<open>len\<close>: bytes when positive, two-byte characters when negative.
  \<open>Some None\<close> ends the enclosing loop, \<open>cap\<close> is the size of the name buffer.
\<close>

definition cstr :: "u8 list \<Rightarrow> string" where
  "cstr bs = str_of (takeWhile (\<lambda>c. c \<noteq> 0) bs)"

definition pak_name :: "nat \<Rightarrow> u8 list \<Rightarrow> u64 \<Rightarrow> i32 \<Rightarrow> (string \<times> u64) option option" where
  "pak_name cap b pos len =
     (let sz = of_nat (length b) :: u64 in
      if 0 <s len then
        (let n = scast len :: u64; copy = (if n < of_nat cap then unat n else cap - 1) in
         if sz < pos + n then Some None
         else do { bs \<leftarrow> rd_blk b (unat pos) copy; Some (Some (cstr bs, pos + n)) })
      else if len <s 0 then
        (let n2 = scast (- len * 2) :: u64; n = scast (- len) :: u64;
             num = (if of_nat cap \<le> n then cap - 1 else unat n) in
         if sz < pos + n2 then Some None
         else do { bs \<leftarrow> those (map (\<lambda>c. rd8 b (unat (pos + of_nat c * 2))) [0..<num]);
                   Some (Some (cstr bs, pos + n2)) })
      else Some (Some ([], pos)))"

text \<open>A number of the encoded entries: 32 bits when the flag is set, else 64.\<close>

definition pak_num :: "u8 list \<Rightarrow> u64 \<Rightarrow> bool \<Rightarrow> u64 \<Rightarrow> (u64 \<times> u64) option option" where
  "pak_num enc enc_sz short epos =
     (if short then
        (if enc_sz < epos + 4 then Some None
         else map_option (\<lambda>v. Some (ucast (v :: u32), epos + 4)) (rd_le enc (unat epos) 4))
      else if enc_sz < epos + 8 then Some None
      else map_option (\<lambda>v. Some (v, epos + 8)) (rd_le enc (unat epos) 8))"

text \<open>Offset, size and compression of the encoded entry at \<open>enc_off\<close>; \<open>Some None\<close>: the file is skipped.\<close>

definition pak_decode :: "u8 list \<Rightarrow> u64 \<Rightarrow> i32 \<Rightarrow> (u64 \<times> u64 \<times> u32) option option" where
  "pak_decode enc enc_sz enc_off =
     (if enc_off <s 0 \<or> enc_sz < scast enc_off + 4 then Some None else
      do { bits \<leftarrow> (rd_le enc (unat (scast enc_off :: u64)) 4 :: u32 option);
           let e1 = (scast enc_off + 4 :: u64);
           let cmp = drop_bit 23 bits AND 0x3f;
           let e2 = (if bits AND 0x3f = 0x3f then e1 + 4 else e1);
           r \<leftarrow> pak_num enc enc_sz (bit bits 31) e2;
           case r of None \<Rightarrow> Some None
           | Some (foff, e3) \<Rightarrow>
               do { s \<leftarrow> pak_num enc enc_sz (bit bits 30) e3;
                    case s of None \<Rightarrow> Some None
                    | Some (usz, _) \<Rightarrow> Some (Some (foff, usz, cmp)) } })"

definition pak_path :: "string \<Rightarrow> string \<Rightarrow> string" where
  "pak_path dir name = take 1023 (if dir = [] then name else dir @ ''/'' @ name)"

text \<open>The loop over the files of a directory: the position where it ends.\<close>

fun pak_file_loop :: "(nat \<Rightarrow> bool) \<Rightarrow> i32 \<Rightarrow> string \<Rightarrow> u8 list \<Rightarrow> u8 list \<Rightarrow> u64 \<Rightarrow> nat \<Rightarrow> u64 \<Rightarrow> pak_state
    \<Rightarrow> (u64 \<times> pak_state) option" where
  "pak_file_loop mem fd dir fdi enc enc_sz 0 pos st = Some (pos, st)"
| "pak_file_loop mem fd dir fdi enc enc_sz (Suc n) pos st =
     (if of_nat (length fdi) < pos + 4 then Some (pos, st) else
      do { flen \<leftarrow> rd_le fdi (unat pos) 4;
           r \<leftarrow> pak_name 256 fdi (pos + 4) flen;
           case r of None \<Rightarrow> Some (pos + 4, st)
           | Some (fname, pos2) \<Rightarrow>
               if of_nat (length fdi) < pos2 + 4 then Some (pos2, st) else
               do { enc_off \<leftarrow> rd_le fdi (unat pos2) 4;
                    d \<leftarrow> pak_decode enc enc_sz enc_off;
                    st' \<leftarrow> (case d of None \<Rightarrow> Some st
                           | Some (foff, usz, cmp) \<Rightarrow>
                               hash_table_insert_file mem (fnv1a_64_lower (pak_path dir fname)) fd (foff + 53) usz cmp st);
                    pak_file_loop mem fd dir fdi enc enc_sz n (pos2 + 4) st' } })"

definition is_slash :: "char \<Rightarrow> bool" where
  "is_slash c \<longleftrightarrow> c = CHR 0x2F"

definition skip_slashes :: "string \<Rightarrow> string" where
  "skip_slashes s = dropWhile is_slash s"

definition strip_slashes :: "string \<Rightarrow> string" where
  "strip_slashes s = rev (dropWhile is_slash (rev s))"

fun pak_dir_loop :: "(nat \<Rightarrow> bool) \<Rightarrow> i32 \<Rightarrow> u8 list \<Rightarrow> u8 list \<Rightarrow> u64 \<Rightarrow> nat \<Rightarrow> u64 \<Rightarrow> pak_state \<Rightarrow> pak_state option" where
  "pak_dir_loop mem fd fdi enc enc_sz 0 pos st = Some st"
| "pak_dir_loop mem fd fdi enc enc_sz (Suc n) pos st =
     (if of_nat (length fdi) < pos + 4 then Some st else
      do { dlen \<leftarrow> rd_le fdi (unat pos) 4;
           r \<leftarrow> pak_name 512 fdi (pos + 4) dlen;
           case r of None \<Rightarrow> Some st
           | Some (raw, pos2) \<Rightarrow>
               do { let dir = skip_slashes (strip_slashes raw);
                    st1 \<leftarrow> (if dir = [] then Some st else hash_table_insert_dir mem (fnv1a_64_lower dir) st);
                    if of_nat (length fdi) < pos2 + 4 then Some st1 else
                    do { nf \<leftarrow> (rd_le fdi (unat pos2) 4 :: u32 option);
                         (pos3, st2) \<leftarrow> pak_file_loop mem fd dir fdi enc enc_sz (unat nf) (pos2 + 4) st1;
                         pak_dir_loop mem fd fdi enc enc_sz n pos3 st2 } } })"

section \<open>An archive\<close>

text \<open>\<open>pread\<close> of the whole range; a range that is not in the file gives fewer bytes or fails.\<close>

definition pread_all :: "u8 list \<Rightarrow> u64 \<Rightarrow> u64 \<Rightarrow> u8 list option" where
  "pread_all f n off = (if unat off + unat n \<le> length f then Some (take (unat n) (drop (unat off) f)) else None)"

definition pak_footer :: "u8 list \<Rightarrow> nat option" where
  "pak_footer tail = List.find (\<lambda>i. (of_le (take 4 (drop i tail)) :: u32) = 0x5A6F12E1) (rev [0..<253])"

text \<open>
  The index header: offset and size of the directory index, position and size of the encoded
  entries. \<open>Some None\<close> is a malformed header.
\<close>

definition pak_index :: "u8 list \<Rightarrow> (u64 \<times> u64 \<times> u64 \<times> u32) option option" where
  "pak_index b =
     (let sz = of_nat (length b) :: u64 in
      if sz < 4 then Some None else
      do { mlen \<leftarrow> (rd_le b 0 4 :: i32 option);
           let mbytes = ((if 0 <s mlen then scast mlen else scast (- mlen * 2)) :: u64);
           if sz < 4 + mbytes + 4 + 8 + 4 then Some None else
           do { let p = 4 + mbytes;
                entries \<leftarrow> (rd_le b (unat p) 4 :: u32 option);
                has_phi \<leftarrow> (rd_le b (unat (p + 12)) 4 :: u32 option);
                if has_phi \<noteq> 0 \<and> sz < p + 16 + 16 + 20 then Some None else
                do { let p2 = (if has_phi \<noteq> 0 then p + 52 else p + 16);
                     if sz < p2 + 4 then Some None else
                     do { has_fdi \<leftarrow> (rd_le b (unat p2) 4 :: u32 option);
                          if has_fdi = 0 \<or> sz < p2 + 4 + 16 + 20 + 4 then Some None else
                          do { fdi_off \<leftarrow> rd_le b (unat (p2 + 4)) 8;
                               fdi_sz \<leftarrow> rd_le b (unat (p2 + 12)) 8;
                               enc_sz \<leftarrow> (rd_le b (unat (p2 + 40)) 4 :: u32 option);
                               if sz < p2 + 44 + ucast enc_sz then Some None
                               else Some (Some (fdi_off, fdi_sz, p2 + 44, enc_sz)) } } } } })"

text \<open>The index an archive's footer points to; \<open>None\<close> when the file is refused.\<close>

definition pak_read_index :: "(nat \<Rightarrow> bool) \<Rightarrow> u8 list \<Rightarrow> u8 list option" where
  "pak_read_index mem f =
     (if length f < 256 then None else
      let tail = drop (length f - 256) f in
      case pak_footer tail of None \<Rightarrow> None
      | Some mp \<Rightarrow>
          if 256 < mp + 24 then None else
          (let idx_off = of_le (take 8 (drop (mp + 8) tail)); idx_sz = of_le (take 8 (drop (mp + 16) tail)) :: u64 in
           if of_nat (length f) < idx_off + idx_sz \<or> idx_sz = 0 \<or> \<not> mem (unat idx_sz) then None
           else pread_all f idx_sz idx_off))"

text \<open>The directory index, and the encoded entries with their size.\<close>

definition pak_read_dirs :: "(nat \<Rightarrow> bool) \<Rightarrow> u8 list \<Rightarrow> u8 list \<Rightarrow> (u8 list \<times> u8 list \<times> u64) option option" where
  "pak_read_dirs mem f b =
     do { h \<leftarrow> pak_index b;
          case h of None \<Rightarrow> Some None
          | Some (fdi_off, fdi_sz, p, enc_sz) \<Rightarrow>
              if \<not> mem (unat fdi_sz) then Some None else
              Some (map_option (\<lambda>fdi. (fdi, drop (unat p) b, ucast enc_sz)) (pread_all f fdi_sz fdi_off)) }"

text \<open>The descriptor is kept open once the directory index has been read.\<close>

definition parse_pak_file :: "(nat \<Rightarrow> bool) \<Rightarrow> (i32 \<times> u8 list) option \<Rightarrow> pak_state \<Rightarrow> (bool \<times> pak_state) option" where
  "parse_pak_file mem file st =
     (case file of None \<Rightarrow> Some (False, st)
      | Some (fd, f) \<Rightarrow>
          (case pak_read_index mem f of None \<Rightarrow> Some (False, st)
           | Some b \<Rightarrow>
               do { d \<leftarrow> pak_read_dirs mem f b;
                    case d of None \<Rightarrow> Some (False, st)
                    | Some (fdi, enc, enc_sz) \<Rightarrow>
                        (let st1 = st\<lparr>pk_fds := pk_fds st @ [fd]\<rparr> in
                         if length fdi < 4 then Some (False, st1) else
                         do { nd \<leftarrow> (rd_le fdi 0 4 :: u32 option);
                              st2 \<leftarrow> pak_dir_loop mem fd fdi enc enc_sz (unat nd) 4 st1;
                              Some (True, st2) }) }))"

section \<open>Finding the archives\<close>

definition is_pak :: "string \<Rightarrow> bool" where
  "is_pak nm \<longleftrightarrow> take 1 nm \<noteq> ''.'' \<and> 4 < length nm \<and> strcaseeq (drop (length nm - 4) nm) ''.pak''"

fun scan_paks :: "(nat \<Rightarrow> bool) \<Rightarrow> (string \<Rightarrow> (i32 \<times> u8 list) option) \<Rightarrow> string \<Rightarrow> string list \<Rightarrow> pak_state \<Rightarrow> pak_state option" where
  "scan_paks mem opn dir [] st = Some st"
| "scan_paks mem opn dir (nm # ns) st =
     (if is_pak nm then
        do { (_, st') \<leftarrow> parse_pak_file mem (opn (take 1023 (dir @ ''/'' @ nm))) st; scan_paks mem opn dir ns st' }
      else scan_paks mem opn dir ns st)"

definition scan_dir_for_paks :: "(nat \<Rightarrow> bool) \<Rightarrow> (string \<Rightarrow> (i32 \<times> u8 list) option) \<Rightarrow> (string \<Rightarrow> string list option)
    \<Rightarrow> string \<Rightarrow> pak_state \<Rightarrow> pak_state option" where
  "scan_dir_for_paks mem opn ls dir st =
     (case ls dir of None \<Rightarrow> Some st | Some ns \<Rightarrow> scan_paks mem opn dir ns st)"

definition ps4_pak_init :: "(nat \<Rightarrow> bool) \<Rightarrow> (string \<Rightarrow> (i32 \<times> u8 list) option) \<Rightarrow> (string \<Rightarrow> string list option)
    \<Rightarrow> string option \<Rightarrow> pak_state \<Rightarrow> pak_state option" where
  "ps4_pak_init mem opn ls app_root st =
     (if ht_slots (pk_files st) \<noteq> [] then Some st else
      let root = (case app_root of None \<Rightarrow> ''.'' | Some r \<Rightarrow> if r = [] then ''.'' else r) in
      do { s1 \<leftarrow> scan_dir_for_paks mem opn ls (take 1023 (root @ ''/phoenix/content/paks'')) st;
           s2 \<leftarrow> scan_dir_for_paks mem opn ls (take 1023 (root @ ''/content/paks'')) s1;
           s3 \<leftarrow> scan_dir_for_paks mem opn ls (take 1023 (root @ ''/paks'')) s2;
           scan_dir_for_paks mem opn ls root s3 })"

section \<open>Lookup\<close>

text \<open>The last underscore of the file name before \<open>.res\<close>; the parent of \<open>en_US.res\<close> is \<open>en.res\<close>.\<close>

definition name_start :: "string \<Rightarrow> nat" where
  "name_start path = (case List.find (\<lambda>i. path ! i = CHR 0x2F) (rev [0..<length path]) of None \<Rightarrow> 0 | Some i \<Rightarrow> i + 1)"

definition ps4_pak_get_parent_locale_path :: "string option \<Rightarrow> nat \<Rightarrow> string option" where
  "ps4_pak_get_parent_locale_path path out_sz =
     (case path of None \<Rightarrow> None
      | Some p \<Rightarrow>
          if out_sz = 0 \<or> length p < 5 then None
          else if \<not> strcaseeq (drop (length p - 4) p) ''.res'' then None
          else (case List.find (\<lambda>i. p ! i = CHR 0x5F) (rev [name_start p..<length p - 4]) of
                  None \<Rightarrow> None
                | Some us \<Rightarrow>
                    if us = name_start p then None
                    else if out_sz \<le> us + 4 then None
                    else Some (take us p @ drop (length p - 4) p)))"

type_synonym pak_hit = "i32 \<times> u64 \<times> u64 \<times> u32"

definition pak_hit :: "pak_entry \<Rightarrow> pak_hit" where
  "pak_hit e = (pe_fd e, pe_off e, pe_size e, pe_comp e)"

lemma parent_shorter: "ps4_pak_get_parent_locale_path (Some p) n = Some q \<Longrightarrow> length q < length p"
  by (auto simp: ps4_pak_get_parent_locale_path_def find_Some_iff rev_nth split: if_splits option.splits)

text \<open>The loop over the parent locales.\<close>

function pak_fallback :: "pak_entry htab \<Rightarrow> string \<Rightarrow> pak_hit option option" where
  "pak_fallback t cur =
     (case ps4_pak_get_parent_locale_path (Some cur) 1024 of None \<Rightarrow> Some None
      | Some par \<Rightarrow>
          (case ht_find pe_hash t (fnv1a_64_lower par) of None \<Rightarrow> None
           | Some (Some e) \<Rightarrow> Some (Some (pak_hit e))
           | Some None \<Rightarrow> pak_fallback t (take 1023 par)))"
  by pat_completeness auto

termination
  by (relation "measure (\<lambda>(t, cur). length cur)") (auto dest: parent_shorter)

definition ps4_pak_lookup :: "pak_state \<Rightarrow> string option \<Rightarrow> pak_hit option option" where
  "ps4_pak_lookup st subpath =
     (case subpath of None \<Rightarrow> Some None
      | Some sp \<Rightarrow>
          if sp = [] then Some None
          else
            (let path = skip_slashes sp; t = pk_files st in
             if ht_slots t = [] \<or> ht_count t = 0 then Some None
             else
               (case ht_find pe_hash t (fnv1a_64_lower path) of None \<Rightarrow> None
                | Some (Some e) \<Rightarrow> Some (Some (pak_hit e))
                | Some None \<Rightarrow> pak_fallback t (take 1023 path))))"

definition ps4_pak_dir_exists :: "pak_state \<Rightarrow> string option \<Rightarrow> bool option" where
  "ps4_pak_dir_exists st subpath =
     (case subpath of None \<Rightarrow> Some False
      | Some sp \<Rightarrow>
          if sp = [] then Some False
          else
            (let clean = strip_slashes (take 1023 (skip_slashes sp)); t = pk_dirs st in
             if ht_slots t = [] \<or> ht_count t = 0 then Some False
             else map_option (\<lambda>r. r \<noteq> None) (ht_find (\<lambda>h. h) t (fnv1a_64_lower clean))))"

text \<open>The descriptors that are closed are returned.\<close>

definition ps4_pak_destroy :: "pak_state \<Rightarrow> i32 list \<times> pak_state" where
  "ps4_pak_destroy st = (filter (\<lambda>fd. \<not> fd <s 0) (pk_fds st), pak_zero)"

end
