(* ===== verification/PakTables.thy ===== *)
theory PakTables
  imports Pak
begin

text \<open>
  The contract of the two hash tables of the archive index: they behave as maps, whatever is
  inserted, and the well-formed states of the index.
\<close>

section \<open>The contract of a table\<close>

text \<open>
  \<open>store t\<close> is the map a table stands for, \<open>fill t\<close> how many entries it counts; an insertion that
  can be dropped needs at least \<open>limit\<close> of them.
\<close>

locale hash_store =
  fixes inv :: "'t \<Rightarrow> bool" and store :: "'t \<Rightarrow> u64 \<Rightarrow> 'e option" and fill :: "'t \<Rightarrow> nat" and limit :: nat
    and insert :: "'e \<Rightarrow> 't \<Rightarrow> 't option" and key :: "'e \<Rightarrow> u64"
  assumes insert_ok: "inv t \<Longrightarrow> \<exists>t'. insert e t = Some t' \<and> inv t' \<and> fill t' \<le> fill t + 1
      \<and> (store t' = store t \<or> key e \<noteq> 0 \<and> store t' = (store t)(key e \<mapsto> e))"
    and insert_store: "inv t \<Longrightarrow> fill t < limit \<Longrightarrow> insert e t = Some t' \<Longrightarrow> key e \<noteq> 0
      \<Longrightarrow> store t' = (store t)(key e \<mapsto> e)"
begin

text \<open>Inserting a list of entries.\<close>

primrec insert_all :: "'e list \<Rightarrow> 't \<Rightarrow> 't option" where
  "insert_all [] t = Some t"
| "insert_all (e # es) t = (case insert e t of None \<Rightarrow> None | Some t' \<Rightarrow> insert_all es t')"

lemma insert_all_ok: "inv t \<Longrightarrow> \<exists>t'. insert_all es t = Some t' \<and> inv t' \<and> fill t' \<le> fill t + length es"
proof (induction es arbitrary: t)
  case (Cons e es)
  obtain t1 where t1: "insert e t = Some t1" "inv t1" "fill t1 \<le> fill t + 1"
    using insert_ok [OF Cons.prems, of e] by blast
  then show ?case using Cons.IH [OF t1(2)] by fastforce
qed simp

lemma insert_all_append:
  "insert_all (xs @ ys) t = (case insert_all xs t of None \<Rightarrow> None | Some t' \<Rightarrow> insert_all ys t')"
  by (induction xs arbitrary: t) (auto split: option.split)

text \<open>Only what was inserted is found, and nothing stored is lost.\<close>

lemma insert_all_sound:
  "inv t \<Longrightarrow> insert_all es t = Some t' \<Longrightarrow> store t' h = Some e \<Longrightarrow> store t h = Some e \<or> e \<in> set es \<and> key e = h"
proof (induction es arbitrary: t)
  case (Cons x es)
  obtain t1 where t1: "insert x t = Some t1" "inv t1" "store t1 = store t \<or> store t1 = (store t)(key x \<mapsto> x)"
    using insert_ok [OF Cons.prems(1), of x] by blast
  then show ?case using Cons.IH [OF t1(2)] Cons.prems(2,3) by (fastforce split: if_splits)
qed simp

lemma insert_all_keeps:
  "inv t \<Longrightarrow> insert_all es t = Some t' \<Longrightarrow> store t h \<noteq> None \<Longrightarrow> store t' h \<noteq> None"
proof (induction es arbitrary: t)
  case (Cons x es)
  obtain t1 where t1: "insert x t = Some t1" "inv t1" "store t1 = store t \<or> store t1 = (store t)(key x \<mapsto> x)"
    using insert_ok [OF Cons.prems(1), of x] by blast
  then show ?case using Cons.IH [OF t1(2)] Cons.prems(2,3) by (fastforce split: if_splits)
qed simp

text \<open>With room, the last entry with a hash is the one that is found.\<close>

lemma insert_all_store:
  "inv t \<Longrightarrow> insert_all es t = Some t' \<Longrightarrow> fill t + length es \<le> limit \<Longrightarrow> \<forall>e \<in> set es. key e \<noteq> 0
   \<Longrightarrow> store t' = foldl (\<lambda>m e. m(key e \<mapsto> e)) (store t) es"
proof (induction es arbitrary: t)
  case (Cons x es)
  obtain t1 where t1: "insert x t = Some t1" "inv t1" "fill t1 \<le> fill t + 1"
    using insert_ok [OF Cons.prems(1), of x] by blast
  have r: "insert_all es t1 = Some t'" "fill t1 + length es \<le> limit" "\<forall>e \<in> set es. key e \<noteq> 0" "fill t < limit"
    using Cons.prems t1 by auto
  have "store t1 = (store t)(key x \<mapsto> x)" using insert_store [OF Cons.prems(1) r(4) t1(1)] Cons.prems(4) by simp
  with Cons.IH [OF t1(2) r(1-3)] show ?case by (simp only: foldl.simps)
qed simp

end

section \<open>The tables keep the contract\<close>

definition room :: "(nat \<Rightarrow> bool) \<Rightarrow> nat" where
  "room mem = (if \<forall>n. mem n then 2 ^ 55 else 0)"

lemma pow2_init: "pow2_cap 65536" "pow2_cap 4096"
  unfolding pow2_cap_def by (rule exI [of _ 16], simp) (rule exI [of _ 12], simp)

lemma ht_insert_fill:
  assumes "ht_insert key blank init esz mem e t = Some t'"
  shows "ht_count t' \<le> ht_count t + 1"
  using assms by (auto simp: ht_insert_def Let_def Option.bind_eq_Some_conv split: if_splits)

lemma not_refused:
  assumes "ht_inv key t" and "ht_count t < room mem" and "esz \<le> 40" and "init \<le> 65536"
  shows "\<not> ht_refuses init esz mem t"
proof -
  have m: "mem n" and c: "ht_count t < 2 ^ 55" for n using assms(2) by (auto simp: room_def split: if_splits)
  have "grown init (length (ht_slots t)) * esz < 2 ^ 64" if "length (ht_slots t) \<le> ht_count t * 2"
  proof -
    have "grown init (length (ht_slots t)) \<le> 2 ^ 57" using c that assms(4) by (simp add: grown_def)
    then have "grown init (length (ht_slots t)) * esz \<le> 2 ^ 57 * 40" using assms(3) by (rule mult_le_mono)
    then show ?thesis by simp
  qed
  then show ?thesis using m by (auto simp: ht_refuses_def calloc_ok_def)
qed

lemma ht_store:
  assumes "key blank = 0" and "pow2_cap init" and "even init" and "8 \<le> esz" and "esz \<le> 40" and "init \<le> 65536"
  shows "hash_store (ht_inv key) (\<lambda>t. ht_map key (ht_slots t)) ht_count (room mem) (ht_insert key blank init esz mem) key"
proof
  fix t e assume i: "ht_inv key t"
  show "\<exists>t'. ht_insert key blank init esz mem e t = Some t' \<and> ht_inv key t' \<and> ht_count t' \<le> ht_count t + 1
      \<and> (ht_map key (ht_slots t') = ht_map key (ht_slots t)
         \<or> key e \<noteq> 0 \<and> ht_map key (ht_slots t') = (ht_map key (ht_slots t))(key e \<mapsto> e))"
    using ht_insert_spec [OF i, of blank init esz mem e] assms ht_insert_fill by metis
next
  fix t e t' assume i: "ht_inv key t" and c: "ht_count t < room mem"
    and s: "ht_insert key blank init esz mem e t = Some t'" and k: "key e \<noteq> 0"
  show "ht_map key (ht_slots t') = (ht_map key (ht_slots t))(key e \<mapsto> e)"
    using ht_insert_spec [of key t blank init esz mem e, OF i assms(1-4)] not_refused [OF i c assms(5,6)] s k by auto
qed

interpretation files: hash_store "ht_inv pe_hash" "\<lambda>t. ht_map pe_hash (ht_slots t)" ht_count "room mem"
    "ht_insert pe_hash pe_blank 65536 40 mem" pe_hash for mem
  by (rule ht_store) (simp_all add: pe_blank_def pow2_init)

interpretation dirs: hash_store "ht_inv (\<lambda>h. h)" "\<lambda>t. ht_map (\<lambda>h. h) (ht_slots t)" ht_count "room mem"
    "ht_insert (\<lambda>h. h) 0 4096 8 mem" "\<lambda>h. h" for mem
  by (rule ht_store) (simp_all add: pow2_init)

section \<open>States\<close>

definition pak_inv :: "pak_state \<Rightarrow> bool" where
  "pak_inv st \<longleftrightarrow> ht_inv pe_hash (pk_files st) \<and> ht_inv (\<lambda>h. h) (pk_dirs st)"

text \<open>What the index says about a file hash, and which directory hashes it holds.\<close>

definition pak_files :: "pak_state \<Rightarrow> u64 \<Rightarrow> pak_entry option" where
  "pak_files st = ht_map pe_hash (ht_slots (pk_files st))"

definition pak_dirs :: "pak_state \<Rightarrow> u64 set" where
  "pak_dirs st = {h. ht_map (\<lambda>h. h) (ht_slots (pk_dirs st)) h \<noteq> None}"

lemma no_table_inv: "ht_inv key no_table"
  by (simp add: ht_inv_def no_table_def)

lemma pak_zero_inv: "pak_inv pak_zero"
  by (simp add: pak_inv_def pak_zero_def no_table_inv)

text \<open>A step that inserts file entries of one archive and directory hashes.\<close>

definition inserts :: "(nat \<Rightarrow> bool) \<Rightarrow> i32 \<Rightarrow> pak_state \<Rightarrow> pak_state \<Rightarrow> bool" where
  "inserts mem fd st st' \<longleftrightarrow> pk_fds st' = pk_fds st
     \<and> (\<exists>es. files.insert_all mem es (pk_files st) = Some (pk_files st') \<and> (\<forall>e \<in> set es. pe_fd e = fd))
     \<and> (\<exists>ds. dirs.insert_all mem ds (pk_dirs st) = Some (pk_dirs st'))"

lemma inserts_refl [simp]: "inserts mem fd st st"
  by (auto simp: inserts_def intro: exI [of _ "[]"])

lemma inserts_trans:
  assumes "inserts mem fd a b" and "inserts mem fd b c"
  shows "inserts mem fd a c"
proof -
  obtain e1 d1 e2 d2 where 1: "files.insert_all mem e1 (pk_files a) = Some (pk_files b)" "\<forall>e \<in> set e1. pe_fd e = fd"
      "dirs.insert_all mem d1 (pk_dirs a) = Some (pk_dirs b)"
    and 2: "files.insert_all mem e2 (pk_files b) = Some (pk_files c)" "\<forall>e \<in> set e2. pe_fd e = fd"
      "dirs.insert_all mem d2 (pk_dirs b) = Some (pk_dirs c)"
    and 3: "pk_fds c = pk_fds a"
    using assms unfolding inserts_def by (elim conjE exE) simp
  have "files.insert_all mem (e1 @ e2) (pk_files a) = Some (pk_files c)" "\<forall>e \<in> set (e1 @ e2). pe_fd e = fd"
    "dirs.insert_all mem (d1 @ d2) (pk_dirs a) = Some (pk_dirs c)"
    using 1 2 by (auto simp: files.insert_all_append dirs.insert_all_append)
  with 3 show ?thesis unfolding inserts_def by blast
qed

lemma inserts_inv: "inserts mem fd st st' \<Longrightarrow> pak_inv st \<Longrightarrow> pak_inv st'"
  unfolding inserts_def pak_inv_def
  by (elim conjE exE) (metis files.insert_all_ok dirs.insert_all_ok option.inject)

text \<open>Such a step finds what was stored or a new entry, and forgets no hash.\<close>

lemma inserts_view:
  assumes "inserts mem fd st st'" and "pak_inv st"
  shows "pak_files st' h = Some e \<Longrightarrow> pak_files st h = Some e \<or> pe_fd e = fd"
    and "pak_files st h \<noteq> None \<Longrightarrow> pak_files st' h \<noteq> None" and "pak_dirs st \<subseteq> pak_dirs st'"
  using assms files.insert_all_sound files.insert_all_keeps dirs.insert_all_keeps
  unfolding inserts_def pak_inv_def pak_files_def pak_dirs_def by blast+

lemma insert_file_ok:
  assumes "pak_inv st"
  shows "\<exists>st'. hash_table_insert_file mem h fd off sz cmp st = Some st' \<and> inserts mem fd st st'"
proof -
  let ?e = "\<lparr>pe_hash = h, pe_fd = fd, pe_off = off, pe_size = sz, pe_comp = cmp\<rparr>"
  obtain t where t: "ht_insert pe_hash pe_blank 65536 40 mem ?e (pk_files st) = Some t"
    using assms files.insert_ok [of "pk_files st" mem ?e] by (auto simp: pak_inv_def)
  then have "files.insert_all mem [?e] (pk_files st) = Some t" by simp
  with t show ?thesis unfolding hash_table_insert_file_def inserts_def
    by (auto intro!: exI [of _ "[?e]"] intro: exI [of _ "[]"])
qed

lemma insert_dir_ok:
  assumes "pak_inv st"
  shows "\<exists>st'. hash_table_insert_dir mem h st = Some st' \<and> inserts mem fd st st'"
proof -
  obtain t where t: "ht_insert (\<lambda>h. h) 0 4096 8 mem h (pk_dirs st) = Some t"
    using assms dirs.insert_ok [of "pk_dirs st" mem h] by (auto simp: pak_inv_def)
  then have "dirs.insert_all mem [h] (pk_dirs st) = Some t" by simp
  with t show ?thesis unfolding hash_table_insert_dir_def inserts_def
    by (auto intro!: exI [of _ "[h]"] intro: exI [of _ "[]"])
qed

end
