(* ===== verification/PakParse.thy ===== *)
theory PakParse
  imports PakTables
begin

unbundle bit_operations_syntax

text \<open>
  The parser of an archive reads only inside its buffers, ends, and adds entries of this archive.
\<close>

section \<open>Reads inside the buffer\<close>

text \<open>The length word of a name is not so negative that twice its size overflows.\<close>

definition len_ok :: "i32 \<Rightarrow> bool" where
  "len_ok v \<longleftrightarrow> - (2 ^ 30) < sint v"

lemma rd_le_some: "i + n \<le> length b \<Longrightarrow> \<exists>v. rd_le b i n = Some v"
  by (simp add: rd_le_def)

lemma rd8_those:
  assumes "\<forall>c < n. f c < length b"
  shows "\<exists>bs. those (map (\<lambda>c. rd8 b (f c)) [0..<n]) = Some bs"
proof -
  have "\<exists>bs. those (map (\<lambda>c. rd8 b (f c)) xs) = Some bs" if "\<forall>c \<in> set xs. f c < length b" for xs
    using that by (induction xs) (auto simp: rd8_def)
  then show ?thesis using assms by simp
qed

lemma uint_scast64: "uint (scast w :: u64) = take_bit 64 (sint w)" for w :: i32
  by transfer simp

lemma uint_scast_pos: "0 \<le> sint w \<Longrightarrow> uint (scast w :: u64) = sint w" for w :: i32
  using sint_lt [of w] uint_scast64 [of w] take_bit_int_eq_self [of "sint w" 64] by simp

text \<open>The arithmetic of a negative length.\<close>

lemma neg_len:
  fixes v :: i32
  assumes "v <s 0" and "len_ok v"
  obtains m where "sint v = - int m" and "0 < m" and "m < 2 ^ 30"
    and "unat (scast (- v * 2) :: u64) = 2 * m" and "unat (scast (- v) :: u64) = m"
proof -
  define m where "m = nat (- sint v)"
  have sv: "sint v = - int m" and m: "0 < m" "m < 2 ^ 30"
    using assms by (auto simp: m_def len_ok_def word_sless_alt)
  have s1: "sint (- v) = int m"
    using m by (simp add: sint_word_ariths(4) sv signed_take_bit_int_eq_self)
  have s2: "sint (- v * 2) = 2 * int m"
    using m s1 by (simp add: sint_word_ariths(3) signed_take_bit_int_eq_self del: mult_minus_left)
  have "uint (scast (- v * 2) :: u64) = 2 * int m" "uint (scast (- v) :: u64) = int m"
    using uint_scast_pos s1 s2 by simp_all
  then have "unat (scast (- v * 2) :: u64) = 2 * m" "unat (scast (- v) :: u64) = m" by (simp_all add: unat_eq_nat_uint nat_mult_distrib)
  with sv m that show thesis by blast
qed

lemma pos_len:
  fixes v :: i32
  assumes "\<not> v <s 0"
  shows "unat (scast v :: u64) < 2 ^ 31" and "int (unat (scast v :: u64)) = sint v"
proof -
  have "0 \<le> sint v" "sint v < 2 ^ 31" using assms sint_lt [of v] by (auto simp: word_sless_alt)
  then have "uint (scast v :: u64) = sint v" by (simp add: uint_scast_pos)
  with \<open>0 \<le> sint v\<close> \<open>sint v < 2 ^ 31\<close> show "unat (scast v :: u64) < 2 ^ 31" "int (unat (scast v :: u64)) = sint v"
    by (simp_all add: unat_eq_nat_uint)
qed

lemma unat_add_small: "unat a + unat b < 2 ^ 64 \<Longrightarrow> unat (a + b) = unat a + unat b" for a b :: u64
  by (simp add: unat_word_ariths)

text \<open>A name is read inside the buffer and the position stays in it.\<close>

lemma pak_name_in:
  assumes "unat pos \<le> length b" and "length b < 2 ^ 62" and "len_ok len" and "1 \<le> cap" and "cap < 2 ^ 62"
  shows "\<exists>r. pak_name cap b pos len = Some r \<and> (\<forall>s pos'. r = Some (s, pos') \<longrightarrow> unat pos' \<le> length b)"
proof -
  have sz: "unat (of_nat (length b) :: u64) = length b" using assms(2) by (simp add: unat_of_nat)
  have uc: "unat (of_nat cap :: u64) = cap" using assms(5) by (simp add: unat_of_nat)
  have add: "unat (pos + w) = unat pos + unat w" if "unat w < 2 ^ 62" for w :: u64
    using that assms(1,2) by (intro unat_add_small) simp
  consider "0 <s len" | "len <s 0" | "\<not> 0 <s len" "\<not> len <s 0" by blast
  then show ?thesis
  proof cases
    case 1
    then have nn: "\<not> len <s 0" by (simp add: word_sless_alt)
    let ?n = "scast len :: u64"
    have n: "unat (pos + ?n) = unat pos + unat ?n" using pos_len(1) [OF nn] by (intro add) simp
    show ?thesis
    proof (cases "of_nat (length b) < pos + ?n")
      case True
      then show ?thesis using 1 by (simp add: pak_name_def Let_def)
    next
      case False
      then have le: "unat pos + unat ?n \<le> length b" using n sz by (simp add: word_less_nat_alt not_less)
      moreover have "(if ?n < of_nat cap then unat ?n else cap - 1) \<le> unat ?n"
        using uc by (auto simp: word_less_nat_alt)
      ultimately show ?thesis using 1 False n by (auto simp: pak_name_def Let_def rd_blk_def)
    qed
  next
    case 2
    then have n0: "\<not> 0 <s len" by (simp add: word_sless_alt)
    obtain m where m: "0 < m" "m < 2 ^ 30" "unat (scast (- len * 2) :: u64) = 2 * m" "unat (scast (- len) :: u64) = m"
      using neg_len [OF 2 assms(3)] by metis
    let ?n2 = "scast (- len * 2) :: u64" and ?num = "if of_nat cap \<le> (scast (- len) :: u64) then cap - 1 else unat (scast (- len) :: u64)"
    have n: "unat (pos + ?n2) = unat pos + 2 * m" using m by (subst add) simp_all
    have num: "?num \<le> m" using uc m by (auto simp: word_le_nat_alt)
    show ?thesis
    proof (cases "of_nat (length b) < pos + ?n2")
      case True
      then show ?thesis using 2 n0 by (simp add: pak_name_def Let_def)
    next
      case False
      then have le: "unat pos + 2 * m \<le> length b" using n sz by (simp add: word_less_nat_alt not_less)
      have "unat (pos + of_nat c * 2) < length b" if "c < ?num" for c
      proof -
        have c: "c < m" using that num by simp
        then have "unat (of_nat c * 2 :: u64) = c * 2" using m by (simp add: unat_word_ariths unat_of_nat)
        then show ?thesis using c le m by (subst add) simp_all
      qed
      then obtain bs where "those (map (\<lambda>c. rd8 b (unat (pos + of_nat c * 2))) [0..<?num]) = Some bs"
        using rd8_those [of ?num "\<lambda>c. unat (pos + of_nat c * 2)" b] by blast
      then show ?thesis using 2 n0 False n le by (auto simp: pak_name_def Let_def)
    qed
  next
    case 3
    then show ?thesis using assms(1) by (simp add: pak_name_def)
  qed
qed

lemma pak_num_in:
  assumes "unat esz \<le> length enc" and "unat e < 2 ^ 62"
  shows "\<exists>r. pak_num enc esz sh e = Some r \<and> (\<forall>v e'. r = Some (v, e') \<longrightarrow> unat e' \<le> unat e + 8)"
proof -
  have a: "unat (e + 4) = unat e + 4" "unat (e + 8) = unat e + 8"
    using assms(2) by (simp_all add: unat_add_small)
  then show ?thesis using assms(1) by (auto simp: pak_num_def rd_le_def word_less_nat_alt not_less)
qed

lemma pak_decode_in:
  assumes "unat esz \<le> length enc"
  shows "\<exists>r. pak_decode enc esz off = Some r"
proof (cases "off <s 0 \<or> esz < scast off + 4")
  case True
  then show ?thesis by (simp add: pak_decode_def)
next
  case False
  let ?o = "scast off :: u64"
  have o: "unat ?o < 2 ^ 31" using pos_len False by blast
  have o4: "unat (?o + 4) = unat ?o + 4" using o by (simp add: unat_add_small)
  have "unat ?o + 4 \<le> length enc" using False o4 assms by (simp add: word_less_nat_alt not_less)
  then obtain bits :: u32 where b: "rd_le enc (unat ?o) 4 = Some bits" using rd_le_some by blast
  let ?e2 = "if bits AND 0x3f = 0x3f then (?o + 4) + 4 else ?o + 4"
  have e2: "unat ?e2 < 2 ^ 32" using o o4 by (simp add: unat_add_small)
  obtain r where r: "pak_num enc esz (bit bits 31) ?e2 = Some r" "\<And>v e'. r = Some (v, e') \<Longrightarrow> unat e' \<le> unat ?e2 + 8"
    using pak_num_in [OF assms, of ?e2 "bit bits 31"] e2 by auto
  show ?thesis
  proof (cases r)
    case None
    then show ?thesis using False b r(1) by (simp add: pak_decode_def)
  next
    case (Some fe)
    obtain foff e3 where fe: "fe = (foff, e3)" by fastforce
    have "unat e3 < 2 ^ 62" using r(2) [of foff e3] Some fe e2 by simp
    then obtain q where "pak_num enc esz (bit bits 30) e3 = Some q" using pak_num_in [OF assms] by blast
    then show ?thesis using False b r(1) Some fe by (cases q) (auto simp: pak_decode_def)
  qed
qed

text \<open>The bytes of an index whose words are never taken for such a length.\<close>

definition words_ok :: "u8 list \<Rightarrow> bool" where
  "words_ok b \<longleftrightarrow> (\<forall>p v. rd_le b p 4 = Some v \<longrightarrow> len_ok v)"

lemma pak_file_loop_in:
  assumes "words_ok fdi" and "length fdi < 2 ^ 62" and "unat esz \<le> length enc"
  shows "unat pos \<le> length fdi \<Longrightarrow> pak_inv st \<Longrightarrow>
    \<exists>pos' st'. pak_file_loop mem fd dir fdi enc esz n pos st = Some (pos', st') \<and> unat pos' \<le> length fdi
      \<and> inserts mem fd st st'"
proof (induction n arbitrary: pos st)
  case (Suc n)
  let ?sz = "of_nat (length fdi) :: u64"
  have sz: "unat ?sz = length fdi" using assms(2) by (simp add: unat_of_nat)
  have p4: "unat (p + 4) = unat p + 4" if "unat p \<le> length fdi" for p :: u64
    using that assms(2) by (simp add: unat_add_small)
  have in4: "unat p + 4 \<le> length fdi" if "unat p \<le> length fdi" "\<not> ?sz < p + 4" for p :: u64
    using that p4 [OF that(1)] sz by (simp add: word_less_nat_alt not_less)
  show ?case
  proof (cases "?sz < pos + 4")
    case True
    then show ?thesis using Suc.prems by simp
  next
    case F: False
    note i = in4 [OF Suc.prems(1) F]
    then obtain flen :: i32 where fl: "rd_le fdi (unat pos) 4 = Some flen" using rd_le_some by blast
    have "unat (pos + 4) \<le> length fdi" using i p4 [OF Suc.prems(1)] by simp
    then obtain r where r: "pak_name 256 fdi (pos + 4) flen = Some r" "\<And>s q. r = Some (s, q) \<Longrightarrow> unat q \<le> length fdi"
      using pak_name_in [OF _ assms(2), of "pos + 4" flen 256] assms(1) fl by (auto simp: words_ok_def)
    show ?thesis
    proof (cases r)
      case None
      then show ?thesis using F fl r(1) i p4 [OF Suc.prems(1)] Suc.prems(2) by simp
    next
      case (Some sq)
      obtain s q where sq: "sq = (s, q)" by fastforce
      have q: "unat q \<le> length fdi" using r(2) Some sq by blast
      show ?thesis
      proof (cases "?sz < q + 4")
        case True
        then show ?thesis using F fl r(1) Some sq q Suc.prems(2) by simp
      next
        case F2: False
        obtain off :: i32 where off: "rd_le fdi (unat q) 4 = Some off" using rd_le_some in4 [OF q F2] by blast
        obtain d where d: "pak_decode enc esz off = Some d" using pak_decode_in [OF assms(3)] by blast
        define ins where "ins = (case d of None \<Rightarrow> Some st
          | Some (foff, usz, cmp) \<Rightarrow> hash_table_insert_file mem (fnv1a_64_lower (pak_path dir s)) fd (foff + 53) usz cmp st)"
        obtain st1 where st1: "ins = Some st1" "inserts mem fd st st1"
          using insert_file_ok [OF Suc.prems(2)] Suc.prems(2) unfolding ins_def
          by (cases d) (fastforce split: prod.splits)+
        have "unat (q + 4) \<le> length fdi" using in4 [OF q F2] p4 [OF q] by simp
        from Suc.IH [OF this inserts_inv [OF st1(2) Suc.prems(2)]] show ?thesis
          using F fl r(1) Some sq F2 off d st1(1) inserts_trans [OF st1(2)] by (auto simp: ins_def [symmetric])
      qed
    qed
  qed
qed simp

lemma pak_dir_loop_in:
  assumes "words_ok fdi" and "length fdi < 2 ^ 62" and "unat esz \<le> length enc"
  shows "unat pos \<le> length fdi \<Longrightarrow> pak_inv st \<Longrightarrow>
    \<exists>st'. pak_dir_loop mem fd fdi enc esz n pos st = Some st' \<and> inserts mem fd st st'"
proof (induction n arbitrary: pos st)
  case (Suc n)
  let ?sz = "of_nat (length fdi) :: u64"
  have sz: "unat ?sz = length fdi" using assms(2) by (simp add: unat_of_nat)
  have p4: "unat (p + 4) = unat p + 4" if "unat p \<le> length fdi" for p :: u64
    using that assms(2) by (simp add: unat_add_small)
  have in4: "unat p + 4 \<le> length fdi" if "unat p \<le> length fdi" "\<not> ?sz < p + 4" for p :: u64
    using that p4 [OF that(1)] sz by (simp add: word_less_nat_alt not_less)
  show ?case
  proof (cases "?sz < pos + 4")
    case True
    then show ?thesis using Suc.prems by simp
  next
    case F: False
    note i = in4 [OF Suc.prems(1) F]
    then obtain dlen :: i32 where fl: "rd_le fdi (unat pos) 4 = Some dlen" using rd_le_some by blast
    have "unat (pos + 4) \<le> length fdi" using i p4 [OF Suc.prems(1)] by simp
    then obtain r where r: "pak_name 512 fdi (pos + 4) dlen = Some r" "\<And>s q. r = Some (s, q) \<Longrightarrow> unat q \<le> length fdi"
      using pak_name_in [OF _ assms(2), of "pos + 4" dlen 512] assms(1) fl by (auto simp: words_ok_def)
    show ?thesis
    proof (cases r)
      case None
      then show ?thesis using F fl r(1) Suc.prems(2) by simp
    next
      case (Some sq)
      obtain s q where sq: "sq = (s, q)" by fastforce
      have q: "unat q \<le> length fdi" using r(2) Some sq by blast
      let ?d = "skip_slashes (strip_slashes s)"
      define ins where "ins = (if ?d = [] then Some st else hash_table_insert_dir mem (fnv1a_64_lower ?d) st)"
      obtain st1 where st1: "ins = Some st1" "inserts mem fd st st1"
        using insert_dir_ok [OF Suc.prems(2), of mem "fnv1a_64_lower ?d" fd] Suc.prems(2) unfolding ins_def by (cases "?d = []") auto
      show ?thesis
      proof (cases "?sz < q + 4")
        case True
        then show ?thesis using F fl r(1) Some sq st1 by (simp add: ins_def [symmetric] Let_def)
      next
        case F2: False
        obtain nf :: u32 where nf: "rd_le fdi (unat q) 4 = Some nf" using rd_le_some in4 [OF q F2] by blast
        have "unat (q + 4) \<le> length fdi" using in4 [OF q F2] p4 [OF q] by simp
        then obtain pos3 st2 where l: "pak_file_loop mem fd ?d fdi enc esz (unat nf) (q + 4) st1 = Some (pos3, st2)"
          "unat pos3 \<le> length fdi" "inserts mem fd st1 st2"
          using pak_file_loop_in [OF assms _ inserts_inv [OF st1(2) Suc.prems(2)]] by blast
        note t2 = inserts_trans [OF st1(2) l(3)]
        from Suc.IH [OF l(2) inserts_inv [OF t2 Suc.prems(2)]] show ?thesis
          using F fl r(1) Some sq F2 nf st1(1) l(1) inserts_trans [OF t2] by (auto simp: ins_def [symmetric] Let_def)
      qed
    qed
  qed
qed simp

section \<open>The header of the index\<close>

lemma first_word: "4 \<le> length b \<Longrightarrow> rd_le b 0 4 = Some (of_le (take 4 b))"
  by (simp add: rd_le_def)

lemma pak_index_in:
  assumes "length b < 2 ^ 62" and "4 \<le> length b \<longrightarrow> len_ok (of_le (take 4 b))"
  shows "\<exists>r. pak_index b = Some r \<and> (\<forall>o1 n p e. r = Some (o1, n, p, e) \<longrightarrow> unat p + unat e \<le> length b)"
proof (cases "of_nat (length b) < (4 :: u64)")
  case True
  then show ?thesis by (simp add: pak_index_def)
next
  case F: False
  let ?sz = "of_nat (length b) :: u64" and ?mlen = "of_le (take 4 b) :: i32"
  have sz: "unat ?sz = length b" using assms(1) by (simp add: unat_of_nat)
  have l4: "4 \<le> length b" using F sz by (simp add: word_less_nat_alt)
  define mb where "mb = ((if 0 <s ?mlen then scast ?mlen else scast (- ?mlen * 2)) :: u64)"
  have mb: "unat mb < 2 ^ 31"
  proof -
    consider "0 <s ?mlen" | "?mlen <s 0" | "?mlen = 0"
      by (metis signed.less_linear)
    then show ?thesis
    proof cases
      case 1
      then show ?thesis using pos_len(1) [of ?mlen] by (auto simp: mb_def word_sless_alt)
    next
      case 2
      have "len_ok ?mlen" using assms(2) l4 by blast
      then obtain m where "m < 2 ^ 30" "unat (scast (- ?mlen * 2) :: u64) = 2 * m" by (rule neg_len [OF 2])
      moreover have "\<not> 0 <s ?mlen" using 2 by (simp add: word_sless_alt)
      ultimately have "unat mb = 2 * m" by (simp only: mb_def if_False)
      with \<open>m < 2 ^ 30\<close> show ?thesis by simp
    qed (simp add: mb_def)
  qed
  have add: "unat (4 + mb + w) = 4 + unat mb + unat w" if "unat w < 2 ^ 60" for w :: u64
    using that mb by (simp add: unat_add_small)
  note rd0 = first_word [OF l4, where ?'a = 32]
  show ?thesis
  proof (cases "?sz < 4 + mb + 4 + 8 + 4")
    case True
    then show ?thesis using F rd0 by (simp add: pak_index_def mb_def [symmetric] Let_def)
  next
    case F1: False
    have "4 + mb + 4 + 8 + 4 = 4 + mb + 16" by simp
    then have i1: "unat mb + 20 \<le> length b" using F1 sz add [of 16] by (simp add: word_less_nat_alt not_less)
    have m12: "unat (4 + mb + 12) = unat mb + 16" "unat (4 + mb) = unat mb + 4"
      using add [of 12] add [of 0] by simp_all
    obtain en ph :: u32 where en: "rd_le b (unat (4 + mb)) 4 = Some en" "rd_le b (unat (4 + mb + 12)) 4 = Some ph"
      using rd_le_some [of "unat (4 + mb)" 4 b, where ?'a = 32] rd_le_some [of "unat (4 + mb + 12)" 4 b, where ?'a = 32] i1 m12
      by auto
    show ?thesis
    proof (cases "ph \<noteq> 0 \<and> ?sz < 4 + mb + 16 + 16 + 20")
      case True
      then show ?thesis using F rd0 F1 en by (simp add: pak_index_def mb_def [symmetric] Let_def)
    next
      case F2: False
      define p2 where "p2 = (if ph \<noteq> 0 then 4 + mb + 52 else 4 + mb + 16)"
      have p2: "unat p2 < 2 ^ 32" using add [of 52] add [of 16] mb by (simp add: p2_def)
      have a2: "unat (p2 + w) = unat p2 + unat w" if "unat w < 2 ^ 60" for w :: u64
        using that p2 by (simp add: unat_add_small)
      show ?thesis
      proof (cases "?sz < p2 + 4")
        case True
        then show ?thesis using F rd0 F1 F2 en by (simp add: pak_index_def mb_def [symmetric] p2_def [symmetric] Let_def)
      next
        case F3: False
        then have "unat p2 + 4 \<le> length b" using sz a2 [of 4] by (simp add: word_less_nat_alt not_less)
        then obtain hf :: u32 where hf: "rd_le b (unat p2) 4 = Some hf" using rd_le_some by blast
        show ?thesis
        proof (cases "hf = 0 \<or> ?sz < p2 + 4 + 16 + 20 + 4")
          case True
          then show ?thesis using F rd0 F1 F2 F3 en hf by (simp add: pak_index_def mb_def [symmetric] p2_def [symmetric] Let_def)
        next
          case F4: False
          have e: "p2 + 4 + 16 + 20 + 4 = p2 + 44" by simp
          have u: "unat (p2 + 44) = unat p2 + 44" using a2 [of 44] by simp
          have "\<not> unat ?sz < unat (p2 + 44)" using F4 unfolding e word_less_nat_alt by blast
          then have i4: "unat p2 + 44 \<le> length b" unfolding sz u by linarith
          obtain fo fs :: u64 and es :: u32 where rs: "rd_le b (unat (p2 + 4)) 8 = Some fo" "rd_le b (unat (p2 + 12)) 8 = Some fs"
            "rd_le b (unat (p2 + 40)) 4 = Some es"
            using rd_le_some [of "unat (p2 + 4)" 8 b, where ?'a = 64] rd_le_some [of "unat (p2 + 12)" 8 b, where ?'a = 64]
              rd_le_some [of "unat (p2 + 40)" 4 b, where ?'a = 32] i4 a2 [of 4] a2 [of 12] a2 [of 40] by auto
          have "unat (p2 + 44 + ucast es) = unat p2 + 44 + unat es"
          proof -
            have "unat (ucast es :: u64) = unat es" by (simp add: unat_ucast_up)
            moreover have "unat es < 2 ^ 32" using unsigned_less [of es, where ?'a = nat] by simp
            ultimately show ?thesis using p2 a2 [of 44] by (simp add: unat_add_small)
          qed
          then show ?thesis using F rd0 F1 F2 F3 F4 en hf rs sz a2 [of 44]
            by (auto simp: pak_index_def mb_def [symmetric] p2_def [symmetric] Let_def word_less_nat_alt not_less)
        qed
      qed
    qed
  qed
qed

section \<open>Parsing an archive\<close>

lemma pread_all_len: "pread_all f n off = Some b \<Longrightarrow> length b \<le> length f"
  by (auto simp: pread_all_def split: if_splits)

lemma pak_read_index_len: "pak_read_index mem f = Some b \<Longrightarrow> length b \<le> length f"
  by (auto simp: pak_read_index_def Let_def pread_all_len split: if_splits option.splits)

lemma pak_read_dirs_in:
  assumes "length b < 2 ^ 62" and "4 \<le> length b \<longrightarrow> len_ok (of_le (take 4 b))"
  shows "\<exists>d. pak_read_dirs mem f b = Some d
    \<and> (\<forall>fdi enc esz. d = Some (fdi, enc, esz) \<longrightarrow> length fdi \<le> length f \<and> unat esz \<le> length enc)"
proof -
  obtain r where r: "pak_index b = Some r" "\<And>o1 n p e. r = Some (o1, n, p, e) \<Longrightarrow> unat p + unat e \<le> length b"
    using pak_index_in [OF assms] by auto
  show ?thesis
  proof (cases r)
    case None
    then show ?thesis using r(1) by (simp add: pak_read_dirs_def)
  next
    case (Some h)
    obtain o1 n p e where h: "h = (o1, n, p, e)" using prod_cases4 by blast
    have "unat p + unat e \<le> length b" using r(2) Some h by blast
    moreover have "unat (ucast e :: u64) = unat e" by (simp add: unat_ucast_up)
    ultimately show ?thesis using r(1) Some h pread_all_len by (auto simp: pak_read_dirs_def)
  qed
qed


section \<open>Examples\<close>

text \<open>An archive with the file \<open>b\<close> in the directory \<open>a\<close>.\<close>

definition ex_fdi :: "u8 list" where
  "ex_fdi = [1,0,0,0, 2,0,0,0, 97,0, 1,0,0,0, 2,0,0,0, 98,0, 0,0,0,0]"

definition ex_idx :: "u8 list" where
  "ex_idx = replicate 4 0 @ [1,0,0,0] @ replicate 8 0 @ replicate 4 0 @ [1,0,0,0] @ replicate 8 0 @ [24,0,0,0,0,0,0,0]
     @ replicate 20 0 @ [12,0,0,0] @ [0,0,0,0xC0, 16,0,0,0, 9,0,0,0]"

definition ex_pak :: "u8 list" where
  "ex_pak = ex_fdi @ ex_idx @ replicate 132 0 @ [0xE1,0x12,0x6F,0x5A, 11,0,0,0, 24,0,0,0,0,0,0,0, 76,0,0,0,0,0,0,0]"

lemma words_ok_ascii:
  assumes "\<forall>c \<in> set b. c < 0x80"
  shows "words_ok b"
  unfolding words_ok_def
proof (intro allI impI)
  fix p and v :: i32 assume r: "rd_le b p 4 = Some v"
  then have p: "p + 4 \<le> length b" and v: "v = of_le (take 4 (drop p b))" by (auto simp: rd_le_def split: if_splits)
  have "b ! (p + 3) < 0x80" using assms p by simp
  then have "unat (b ! (p + 3)) div 2 ^ 7 = 0" by (simp add: word_less_nat_alt)
  then have "\<not> bit (unat (b ! (p + 3))) 7" by (simp only: bit_iff_odd) simp
  then have "\<not> bit (b ! (p + 3)) 7" by (simp add: bit_unsigned_iff)
  then have "\<not> bit v 31" using p by (simp add: v bit_of_le)
  then have "0 \<le> sint v" using bit_last_iff [of v] by simp
  then show "len_ok v" by (simp add: len_ok_def)
qed

lemma ex_pak_index: "pak_read_index (\<lambda>n. True) ex_pak = Some ex_idx"
  by code_simp

lemma ex_pak_dirs: "map_option (map_option fst) (pak_read_dirs (\<lambda>n. True) ex_pak ex_idx) = Some (Some ex_fdi)"
  by code_simp

lemma ex_len: "length ex_pak < 2 ^ 62" "4 \<le> length ex_idx \<longrightarrow> len_ok (of_le (take 4 ex_idx))" "words_ok ex_fdi"
proof -
  show "length ex_pak < 2 ^ 62" by (simp add: ex_pak_def ex_idx_def ex_fdi_def)
  have "(of_le (take 4 ex_idx) :: i32) = 0" by code_simp
  then show "4 \<le> length ex_idx \<longrightarrow> len_ok (of_le (take 4 ex_idx))" by (simp add: len_ok_def)
  show "words_ok ex_fdi" by (rule words_ok_ascii) (simp add: ex_fdi_def)
qed


text \<open>A length word of \<open>-(2 ^ 31 - 1)\<close> reads outside a directory index of 20 bytes.\<close>

lemma pak_name_reads_outside: "pak_name 512 (replicate 20 0) 8 0x80000001 = None"
  by code_simp

end
