(* ===== verification/PakProps.thy ===== *)
theory PakProps
  imports PakParse
begin

text \<open>
  A lookup finds the path or its nearest stored parent locale; an insertion updates one hash.
\<close>

section \<open>Parent locales\<close>

lemma find_last: "List.find P (rev [a..<b]) = Some i \<longleftrightarrow> a \<le> i \<and> i < b \<and> P i \<and> (\<forall>j. i < j \<and> j < b \<longrightarrow> \<not> P j)"
proof (induction b)
  case (Suc b)
  then show ?case by (cases "a \<le> b") (auto simp: less_Suc_eq)
qed simp

text \<open>\<open>q\<close> is \<open>p\<close> without the last underscore part of its file name: \<open>dir/en_US.res\<close>, \<open>dir/en.res\<close>.\<close>

definition parent_of :: "string \<Rightarrow> string \<Rightarrow> bool" where
  "parent_of p q \<longleftrightarrow> (\<exists>dir nm sub ext. p = dir @ nm @ CHR 0x5F # sub @ ext \<and> q = dir @ nm @ ext
     \<and> length ext = 4 \<and> strcaseeq ext ''.res'' \<and> nm \<noteq> [] \<and> CHR 0x2F \<notin> set (nm @ sub) \<and> CHR 0x5F \<notin> set sub
     \<and> (dir = [] \<or> last dir = CHR 0x2F))"

lemma ext_plain: "strcaseeq ext ''.res'' \<Longrightarrow> CHR 0x2F \<notin> set ext"
proof
  assume e: "strcaseeq ext ''.res''" and m: "CHR 0x2F \<in> set ext"
  have "lower CHR 0x2F \<in> set (map lower ext)" using m by simp
  also have "map lower ext = map lower ''.res''" using e by (simp add: strcaseeq_def)
  finally show False by (auto simp: lower_def)
qed

lemma name_start_eq:
  assumes "p = dir @ rest" and "CHR 0x2F \<notin> set rest" and "dir = [] \<or> last dir = CHR 0x2F"
  shows "name_start p = length dir"
proof (cases "dir = []")
  case True
  then have "List.find (\<lambda>i. p ! i = CHR 0x2F) (rev [0..<length p]) = None"
    using assms(1,2) by (auto simp: find_None_iff in_set_conv_nth)
  then show ?thesis using True by (simp add: name_start_def)
next
  case False
  then have l: "dir ! (length dir - 1) = CHR 0x2F" using assms(3) by (simp add: last_conv_nth)
  have "List.find (\<lambda>i. p ! i = CHR 0x2F) (rev [0..<length p]) = Some (length dir - 1)"
    unfolding find_last using False assms(1,2) l length_greater_0_conv [THEN iffD2, OF False] by (auto simp: nth_append in_set_conv_nth less_diff_conv trans_less_add1)
  then show ?thesis using False by (simp add: name_start_def)
qed

lemma name_start_split:
  obtains "name_start p \<le> length p" and "CHR 0x2F \<notin> set (drop (name_start p) p)"
    and "take (name_start p) p = [] \<or> last (take (name_start p) p) = CHR 0x2F"
proof (cases "List.find (\<lambda>i. p ! i = CHR 0x2F) (rev [0..<length p])")
  case None
  then have "name_start p = 0" by (simp add: name_start_def)
  moreover have "CHR 0x2F \<notin> set p" using None by (auto simp: find_None_iff in_set_conv_nth)
  ultimately show thesis using that by simp
next
  case (Some i)
  then have ns: "name_start p = Suc i" by (simp add: name_start_def)
  have i: "i < length p" "p ! i = CHR 0x2F" "\<forall>j. i < j \<and> j < length p \<longrightarrow> p ! j \<noteq> CHR 0x2F"
    using Some unfolding find_last by auto
  have "CHR 0x2F \<notin> set (drop (Suc i) p)" using i(3) by (auto simp: in_set_conv_nth)
  moreover have "last (take (Suc i) p) = CHR 0x2F" using i(1,2) by (simp add: take_Suc_conv_app_nth)
  ultimately show thesis using that i(1) ns by simp
qed

lemma get_parent_iff:
  assumes "length p \<le> 1023"
  shows "ps4_pak_get_parent_locale_path (Some p) 1024 = Some q \<longleftrightarrow> parent_of p q"
proof
  assume g: "ps4_pak_get_parent_locale_path (Some p) 1024 = Some q"
  let ?n = "length p - 4" and ?s = "name_start p"
  obtain us where us: "5 \<le> length p" "strcaseeq (drop ?n p) ''.res''" "us \<noteq> ?s"
      "List.find (\<lambda>i. p ! i = CHR 0x5F) (rev [?s..<?n]) = Some us" "q = take us p @ drop ?n p"
    using g by (auto simp: ps4_pak_get_parent_locale_path_def split: if_splits option.splits)
  have f: "?s < us" "us < ?n" "p ! us = CHR 0x5F" "\<forall>j. us < j \<and> j < ?n \<longrightarrow> p ! j \<noteq> CHR 0x5F"
    using us(3,4) unfolding find_last by auto
  obtain ns: "?s \<le> length p" "CHR 0x2F \<notin> set (drop ?s p)" "take ?s p = [] \<or> last (take ?s p) = CHR 0x2F"
    by (rule name_start_split)
  let ?nm = "drop ?s (take us p)" and ?sub = "drop (Suc us) (take ?n p)"
  have "take us p = take ?s p @ ?nm" using f(1) by (metis append_take_drop_id min.absorb1 less_imp_le take_take)
  moreover have "take ?n p = take us p @ CHR 0x5F # ?sub"
  proof -
    have "us < length (take ?n p)" using f(2) by simp
    from id_take_nth_drop [OF this] f(2,3) show ?thesis by (simp add: min.absorb1)
  qed
  moreover have "p = take ?n p @ drop ?n p" by simp
  ultimately have "p = take ?s p @ ?nm @ CHR 0x5F # ?sub @ drop ?n p" "q = take ?s p @ ?nm @ drop ?n p"
    using us(5) by (metis append.assoc append_Cons)+
  moreover have "length (drop ?n p) = 4" "?nm \<noteq> []" using us(1) f by auto
  moreover have "CHR 0x2F \<notin> set (?nm @ ?sub)"
  proof -
    have "set ?nm \<subseteq> set (drop ?s p)" "set ?sub \<subseteq> set (drop ?s p)"
      using f(1) by (auto simp: drop_take dest!: in_set_takeD) (meson less_SucI less_imp_le set_drop_subset_set_drop subsetD)
    then show ?thesis using ns(2) by auto
  qed
  moreover have "CHR 0x5F \<notin> set ?sub" using f(4) by (auto simp: in_set_conv_nth)
  ultimately show "parent_of p q" unfolding parent_of_def using us(2) ns(3) by blast
next
  assume "parent_of p q"
  then obtain dir nm sub ext where p: "p = dir @ nm @ CHR 0x5F # sub @ ext" "q = dir @ nm @ ext" "length ext = 4"
      "strcaseeq ext ''.res''" "nm \<noteq> []" "CHR 0x2F \<notin> set (nm @ sub)" "CHR 0x5F \<notin> set sub" "dir = [] \<or> last dir = CHR 0x2F"
    unfolding parent_of_def by blast
  have ns: "name_start p = length dir"
    using p ext_plain [OF p(4)] by (intro name_start_eq [of _ _ "nm @ CHR 0x5F # sub @ ext"]) auto
  let ?us = "length dir + length nm"
  have n: "length p - 4 = ?us + 1 + length sub" using p(1,3) by simp
  have f: "List.find (\<lambda>i. p ! i = CHR 0x5F) (rev [length dir..<length p - 4]) = Some ?us"
    unfolding find_last n
  proof (intro conjI allI impI)
    show "p ! ?us = CHR 0x5F" by (simp add: p(1) nth_append)
    fix j assume j: "?us < j \<and> j < ?us + 1 + length sub"
    define k where "k = j - ?us - 1"
    have k: "j = length (dir @ nm) + Suc k" "k < length sub" using j by (auto simp: k_def)
    have "p = (dir @ nm) @ (CHR 0x5F # sub @ ext)" by (simp add: p(1))
    then have "p ! j = (CHR 0x5F # sub @ ext) ! Suc k" unfolding k(1) by (metis nth_append_length_plus)
    then show "p ! j \<noteq> CHR 0x5F" using p(7) k(2) by (auto simp: nth_append in_set_conv_nth)
  qed simp_all
  have "drop (?us + 1 + length sub) p = ext" by (simp add: p(1))
  then have "drop (length p - 4) p = ext" by (simp only: n)
  moreover have "take ?us p = dir @ nm" by (simp add: p(1))
  ultimately show "ps4_pak_get_parent_locale_path (Some p) 1024 = Some q"
    using p assms ns f by (simp add: ps4_pak_get_parent_locale_path_def)
qed

section \<open>Lookup\<close>

text \<open>The paths a lookup falls back to, nearest first.\<close>

inductive locale_chain :: "string \<Rightarrow> string list \<Rightarrow> bool" where
  root: "(\<And>q. \<not> parent_of p q) \<Longrightarrow> locale_chain p []"
| parent: "parent_of p q \<Longrightarrow> locale_chain q qs \<Longrightarrow> locale_chain p (q # qs)"

lemma parent_of_shorter: "parent_of p q \<Longrightarrow> length q < length p"
  by (auto simp: parent_of_def)

lemma locale_chain_ex: "\<exists>qs. locale_chain p qs"
proof (induction "length p" arbitrary: p rule: less_induct)
  case less
  show ?case
  proof (cases "\<exists>q. parent_of p q")
    case True
    then show ?thesis using less parent_of_shorter parent by blast
  next
    case False
    then show ?thesis using root by blast
  qed
qed

definition first_hit :: "pak_state \<Rightarrow> string list \<Rightarrow> pak_hit option" where
  "first_hit st ps =
     (case List.find (\<lambda>p. pak_files st (fnv1a_64_lower p) \<noteq> None) ps of
        None \<Rightarrow> None
      | Some p \<Rightarrow> map_option pak_hit (pak_files st (fnv1a_64_lower p)))"

lemma empty_table:
  assumes "ht_inv key t" and "ht_slots t = [] \<or> ht_count t = 0"
  shows "ht_map key (ht_slots t) h = None"
proof -
  have "used (map key (ht_slots t)) = 0" using assms by (auto simp: ht_inv_def Let_def used_def)
  then have "\<forall>e \<in> set (ht_slots t). key e = 0" by (auto simp: used_def filter_empty_conv)
  then show ?thesis by (auto simp: ht_map_None)
qed

lemma pak_fallback_chain:
  assumes "pak_inv st" and "ht_slots (pk_files st) \<noteq> []" and "locale_chain p qs" and "length p \<le> 1023"
  shows "pak_fallback (pk_files st) p = Some (first_hit st qs)"
  using assms(3,4)
proof (induction rule: locale_chain.induct)
  case (root p)
  then have "ps4_pak_get_parent_locale_path (Some p) 1024 = None"
    using get_parent_iff [OF root(2)] by (cases "ps4_pak_get_parent_locale_path (Some p) 1024") auto
  then show ?case by (simp add: pak_fallback.simps [of _ p] first_hit_def)
next
  case (parent p q qs)
  have g: "ps4_pak_get_parent_locale_path (Some p) 1024 = Some q" using get_parent_iff parent.hyps(1) parent.prems by blast
  have l: "length q \<le> 1023" using parent_of_shorter [OF parent.hyps(1)] parent.prems by simp
  have f: "ht_find pe_hash (pk_files st) h = Some (pak_files st h)" for h
    using ht_find_map assms(1,2) by (auto simp: pak_inv_def pak_files_def)
  show ?case
  proof (cases "pak_files st (fnv1a_64_lower q)")
    case None
    then show ?thesis using g f parent.IH [OF l] l by (simp add: pak_fallback.simps [of _ p] first_hit_def)
  next
    case (Some e)
    then show ?thesis using g f by (simp add: pak_fallback.simps [of _ p] first_hit_def)
  qed
qed

text \<open>
  C36. A lookup always ends, and finds the entry of the path without its leading slashes or, when
  that is not stored, of the nearest stored parent locale (the file name without its last part
  before \<open>.res\<close>, and so on); it fails only when none of them is stored. A directory exists when
  the hash of its path without leading and trailing slashes is stored.
\<close>

theorem pak_lookup_exact:
  assumes "pak_inv st" and "sp \<noteq> []" and "length (skip_slashes sp) \<le> 1023"
  shows "(\<exists>qs. locale_chain (skip_slashes sp) qs
      \<and> ps4_pak_lookup st (Some sp) = Some (first_hit st (skip_slashes sp # qs)))
    \<and> ps4_pak_dir_exists st (Some sp) = Some (fnv1a_64_lower (strip_slashes (skip_slashes sp)) \<in> pak_dirs st)"
proof
  let ?p = "skip_slashes sp" and ?t = "pk_files st"
  obtain qs where c: "locale_chain ?p qs" using locale_chain_ex by blast
  have inv: "ht_inv pe_hash ?t" "ht_inv (\<lambda>h. h) (pk_dirs st)" using assms(1) by (simp_all add: pak_inv_def)
  have "ps4_pak_lookup st (Some sp) = Some (first_hit st (?p # qs))"
  proof (cases "ht_slots ?t = [] \<or> ht_count ?t = 0")
    case True
    then have "pak_files st h = None" for h using empty_table [OF inv(1) True] by (simp add: pak_files_def)
    then have "first_hit st (?p # qs) = None"
      using find_None_iff [of "\<lambda>p. pak_files st (fnv1a_64_lower p) \<noteq> None" "?p # qs"] by (simp add: first_hit_def)
    then show ?thesis using True assms(2) by (simp add: ps4_pak_lookup_def)
  next
    case False
    have f: "ht_find pe_hash ?t h = Some (pak_files st h)" for h
      using ht_find_map [OF inv(1)] False by (simp add: pak_files_def)
    have fb: "pak_fallback ?t (take 1023 ?p) = Some (first_hit st qs)"
      using pak_fallback_chain [OF assms(1) _ c assms(3)] False assms(3) by simp
    show ?thesis
    proof (cases "pak_files st (fnv1a_64_lower ?p)")
      case None
      then have "first_hit st (?p # qs) = first_hit st qs" by (simp add: first_hit_def)
      then show ?thesis using False assms(2) f None fb by (simp add: ps4_pak_lookup_def)
    next
      case (Some e)
      then show ?thesis using False assms(2) f by (simp add: ps4_pak_lookup_def first_hit_def)
    qed
  qed
  then show "\<exists>qs. locale_chain ?p qs \<and> ps4_pak_lookup st (Some sp) = Some (first_hit st (?p # qs))" using c by blast
  show "ps4_pak_dir_exists st (Some sp) = Some (fnv1a_64_lower (strip_slashes ?p) \<in> pak_dirs st)"
  proof (cases "ht_slots (pk_dirs st) = [] \<or> ht_count (pk_dirs st) = 0")
    case True
    then show ?thesis using empty_table [OF inv(2) True] assms(2) by (simp add: ps4_pak_dir_exists_def pak_dirs_def)
  next
    case False
    then show ?thesis using ht_find_map [OF inv(2)] assms(2,3) by (simp add: ps4_pak_dir_exists_def pak_dirs_def)
  qed
qed

section \<open>Inserting\<close>

text \<open>
  C29. Both tables stay maps: from any well-formed state an insertion ends, keeps the state
  well-formed and, when memory does not run out, makes the hash find exactly the new entry and
  every other hash what it found before, through all rehashing; a directory hash is added to the
  set of directories. The empty index and the one after \<open>ps4_pak_destroy\<close> are well-formed.
\<close>

theorem pak_insert_exact:
  assumes "pak_inv st"
  shows "(\<exists>st'. hash_table_insert_file mem h fd off sz cmp st = Some st' \<and> pak_inv st'
      \<and> pk_dirs st' = pk_dirs st \<and> pk_fds st' = pk_fds st
      \<and> (h \<noteq> 0 \<and> ht_count (pk_files st) < room mem \<longrightarrow>
           pak_files st' = (pak_files st)(h \<mapsto> \<lparr>pe_hash = h, pe_fd = fd, pe_off = off, pe_size = sz, pe_comp = cmp\<rparr>)))
    \<and> (\<exists>st'. hash_table_insert_dir mem h st = Some st' \<and> pak_inv st'
      \<and> pk_files st' = pk_files st \<and> pk_fds st' = pk_fds st
      \<and> (h \<noteq> 0 \<and> ht_count (pk_dirs st) < room mem \<longrightarrow> pak_dirs st' = insert h (pak_dirs st)))
    \<and> pak_inv pak_zero \<and> snd (ps4_pak_destroy st) = pak_zero"
proof (intro conjI)
  let ?e = "\<lparr>pe_hash = h, pe_fd = fd, pe_off = off, pe_size = sz, pe_comp = cmp\<rparr>"
  have inv: "ht_inv pe_hash (pk_files st)" "ht_inv (\<lambda>h. h) (pk_dirs st)" using assms by (simp_all add: pak_inv_def)
  obtain t where t: "ht_insert pe_hash pe_blank 65536 40 mem ?e (pk_files st) = Some t" "ht_inv pe_hash t"
    using files.insert_ok [OF inv(1), of mem ?e] by blast
  have "ht_map pe_hash (ht_slots t) = (ht_map pe_hash (ht_slots (pk_files st)))(h \<mapsto> ?e)"
    if "h \<noteq> 0 \<and> ht_count (pk_files st) < room mem"
    using files.insert_store [OF inv(1) _ t(1)] that by simp
  then show "\<exists>st'. hash_table_insert_file mem h fd off sz cmp st = Some st' \<and> pak_inv st'
      \<and> pk_dirs st' = pk_dirs st \<and> pk_fds st' = pk_fds st
      \<and> (h \<noteq> 0 \<and> ht_count (pk_files st) < room mem \<longrightarrow> pak_files st' = (pak_files st)(h \<mapsto> ?e))"
    using t inv by (simp add: hash_table_insert_file_def pak_inv_def pak_files_def [abs_def])
  obtain d where d: "ht_insert (\<lambda>h. h) 0 4096 8 mem h (pk_dirs st) = Some d" "ht_inv (\<lambda>h. h) d"
    using dirs.insert_ok [OF inv(2), of mem h] by blast
  have "ht_map (\<lambda>h. h) (ht_slots d) = (ht_map (\<lambda>h. h) (ht_slots (pk_dirs st)))(h \<mapsto> h)"
    if "h \<noteq> 0 \<and> ht_count (pk_dirs st) < room mem"
    using dirs.insert_store [OF inv(2) _ d(1)] that by simp
  then show "\<exists>st'. hash_table_insert_dir mem h st = Some st' \<and> pak_inv st'
      \<and> pk_files st' = pk_files st \<and> pk_fds st' = pk_fds st
      \<and> (h \<noteq> 0 \<and> ht_count (pk_dirs st) < room mem \<longrightarrow> pak_dirs st' = insert h (pak_dirs st))"
    using d inv by (auto simp: hash_table_insert_dir_def pak_inv_def pak_dirs_def)
qed (simp_all add: pak_zero_inv ps4_pak_destroy_def)

section \<open>Examples\<close>

text \<open>An index that holds \<open>a/en.res\<close> only.\<close>

lemma ex_parent: "parent_of ''a/en_US.res'' q \<longleftrightarrow> q = ''a/en.res''"
proof -
  have "ps4_pak_get_parent_locale_path (Some ''a/en_US.res'') 1024 = Some ''a/en.res''" by code_simp
  then show ?thesis using get_parent_iff [of "''a/en_US.res''" q] by auto
qed

theorem pak_lookup_exact_witness:
  "\<exists>st. pak_inv st \<and> ps4_pak_lookup st (Some ''/a/en_US.res'') = Some (Some (7, 100, 5, 0))
    \<and> ps4_pak_dir_exists st (Some ''/a/en_US.res'') = Some False"
proof -
  let ?h = "fnv1a_64_lower ''a/en.res''" and ?p = "''a/en_US.res''"
  let ?e = "\<lparr>pe_hash = ?h, pe_fd = 7, pe_off = 100, pe_size = 5, pe_comp = 0\<rparr>"
  let ?mem = "\<lambda>n :: nat. True"
  have inv: "ht_inv pe_hash (no_table :: pak_entry htab)" by (rule no_table_inv)
  have h: "?h \<noteq> 0" "fnv1a_64_lower ?p \<noteq> ?h" by code_simp+
  obtain t where t: "ht_insert pe_hash pe_blank 65536 40 ?mem ?e no_table = Some t" "ht_inv pe_hash t"
    using files.insert_ok [OF inv, of ?mem ?e] by blast
  have "ht_map pe_hash (ht_slots t) = (ht_map pe_hash (ht_slots no_table))(?h \<mapsto> ?e)"
    using files.insert_store [OF inv _ t(1)] h(1) by (simp add: room_def no_table_def)
  then have m: "ht_map pe_hash (ht_slots t) = [?h \<mapsto> ?e]" by (simp add: no_table_def ht_map_def fun_eq_iff)
  let ?st = "pak_zero\<lparr>pk_files := t\<rparr>"
  have i: "pak_inv ?st" using t(2) pak_zero_inv by (simp add: pak_inv_def)
  have sk: "skip_slashes ''/a/en_US.res'' = ?p" by code_simp
  have "(\<exists>qs. locale_chain ?p qs \<and> ps4_pak_lookup ?st (Some ''/a/en_US.res'') = Some (first_hit ?st (?p # qs)))
    \<and> ps4_pak_dir_exists ?st (Some ''/a/en_US.res'') = Some (fnv1a_64_lower (strip_slashes ?p) \<in> pak_dirs ?st)"
    using pak_lookup_exact [OF i, of "''/a/en_US.res''"] unfolding sk by simp
  then obtain qs where qs: "locale_chain ?p qs"
      "ps4_pak_lookup ?st (Some ''/a/en_US.res'') = Some (first_hit ?st (?p # qs))"
    and d: "ps4_pak_dir_exists ?st (Some ''/a/en_US.res'') = Some (fnv1a_64_lower (strip_slashes ?p) \<in> pak_dirs ?st)"
    by blast
  obtain rs where "qs = ''a/en.res'' # rs"
    using qs(1) by (cases rule: locale_chain.cases) (auto simp: ex_parent)
  then have "first_hit ?st (?p # qs) = Some (7, 100, 5, 0)"
    using h m by (simp add: first_hit_def pak_files_def pak_hit_def)
  moreover have "pak_dirs ?st = {}" by (simp add: pak_dirs_def pak_zero_def no_table_def ht_map_def)
  ultimately show ?thesis using i qs(2) d by auto
qed

theorem pak_insert_exact_witness:
  "\<exists>st'. hash_table_insert_file (\<lambda>n. True) 5 3 100 9 0 pak_zero = Some st' \<and> pak_inv st'
    \<and> pak_files st' 5 = Some \<lparr>pe_hash = 5, pe_fd = 3, pe_off = 100, pe_size = 9, pe_comp = 0\<rparr>"
  using pak_insert_exact [OF pak_zero_inv, of "\<lambda>n. True" 5 3 100 9 0, THEN conjunct1]
  by (auto simp: room_def pak_zero_def no_table_def)

end
