(* ===== verification/Calendar.thy ===== *)
theory Calendar
  imports Prelude
begin

text \<open>
  The proleptic Gregorian calendar: leap years, month lengths, the number of a day, the order of
  dates, and the date of a day number. It is the reference the clock library is compared with,
  and the model of the C library's \<open>gmtime_r\<close>.
\<close>

section \<open>Days of a date\<close>

definition leap :: "int \<Rightarrow> bool" where
  "leap y \<longleftrightarrow> y mod 4 = 0 \<and> (y mod 100 \<noteq> 0 \<or> y mod 400 = 0)"

text \<open>Leap years among \<open>1..y\<close>, days before January 1st of the year \<open>y\<close> since the year 1.\<close>

definition leaps :: "int \<Rightarrow> int" where
  "leaps y = y div 4 - y div 100 + y div 400"

definition before_year :: "int \<Rightarrow> int" where
  "before_year y = 365 * (y - 1) + leaps (y - 1)"

definition month_len :: "bool \<Rightarrow> int \<Rightarrow> int" where
  "month_len lp m = (if m = 2 then (if lp then 29 else 28) else if m \<in> {4, 6, 9, 11} then 30 else 31)"

text \<open>Days before the first of the month.\<close>

definition before_month :: "bool \<Rightarrow> int \<Rightarrow> int" where
  "before_month lp m = [0, 31, 59, 90, 120, 151, 181, 212, 243, 273, 304, 334] ! nat (m - 1)
     + (if lp \<and> 2 < m then 1 else 0)"

datatype cdate = CDate (cyear: int) (cmonth: int) (cday: int)

definition valid_date :: "cdate \<Rightarrow> bool" where
  "valid_date d \<longleftrightarrow> 1 \<le> cmonth d \<and> cmonth d \<le> 12 \<and> 1 \<le> cday d \<and> cday d \<le> month_len (leap (cyear d)) (cmonth d)"

text \<open>Days since the Unix epoch.\<close>

definition epoch_day :: "cdate \<Rightarrow> int" where
  "epoch_day d = before_year (cyear d) + before_month (leap (cyear d)) (cmonth d) + cday d - 1 - 719162"

section \<open>The order of dates\<close>

instantiation cdate :: linorder
begin

definition less_eq_cdate :: "cdate \<Rightarrow> cdate \<Rightarrow> bool" where
  "less_eq_cdate a b \<longleftrightarrow> cyear a < cyear b \<or> cyear a = cyear b \<and>
     (cmonth a < cmonth b \<or> cmonth a = cmonth b \<and> cday a \<le> cday b)"

definition less_cdate :: "cdate \<Rightarrow> cdate \<Rightarrow> bool" where
  "less_cdate a b \<longleftrightarrow> cyear a < cyear b \<or> cyear a = cyear b \<and>
     (cmonth a < cmonth b \<or> cmonth a = cmonth b \<and> cday a < cday b)"

instance
  by standard (auto simp: less_eq_cdate_def less_cdate_def cdate.expand)

end

lemma div_bounds:
  fixes a k :: int
  assumes "0 < k"
  shows "k * (a div k) \<le> a" and "a < k * (a div k) + k"
  using mult_div_mod_eq [of k a] pos_mod_sign [OF assms, of a] pos_mod_bound [OF assms, of a] by linarith+

lemma div_step:
  fixes y k :: int
  assumes "0 < k"
  shows "y div k = (y - 1) div k + (if y mod k = 0 then 1 else 0)"
proof -
  note e = mult_div_mod_eq [of k y] and b = pos_mod_sign [OF assms, of y] pos_mod_bound [OF assms, of y]
  show ?thesis
  proof (cases "y mod k = 0")
    case True
    have "(y - 1) div k = y div k - 1"
      by (rule int_div_pos_eq [of _ _ _ "k - 1"]) (use e True assms in \<open>simp_all add: algebra_simps\<close>)
    then show ?thesis using True by simp
  next
    case False
    have "(y - 1) div k = y div k"
      by (rule int_div_pos_eq [of _ _ _ "y mod k - 1"]) (use e b False in \<open>simp_all add: algebra_simps\<close>)
    then show ?thesis using False by simp
  qed
qed

lemma leaps_step: "leaps y = leaps (y - 1) + (if leap y then 1 else 0)"
proof -
  have d: "y div 4 = (y - 1) div 4 + (if y mod 4 = 0 then 1 else 0)"
    "y div 100 = (y - 1) div 100 + (if y mod 100 = 0 then 1 else 0)"
    "y div 400 = (y - 1) div 400 + (if y mod 400 = 0 then 1 else 0)"
    by (rule div_step; simp)+
  have "y mod 100 = 0" if "y mod 400 = 0"
  proof -
    have "100 dvd (400 :: int)" by simp
    with that show ?thesis unfolding mod_eq_0_iff_dvd by (rule dvd_trans [rotated])
  qed
  moreover have "y mod 4 = 0" if "y mod 100 = 0"
  proof -
    have "4 dvd (100 :: int)" by simp
    with that show ?thesis unfolding mod_eq_0_iff_dvd by (rule dvd_trans [rotated])
  qed
  ultimately have w: "y mod 400 = 0 \<longrightarrow> y mod 100 = 0" "y mod 100 = 0 \<longrightarrow> y mod 4 = 0" by blast+
  have "a + p - (b + q) + (c + s) = a - b + c + (if u \<and> (\<not> v \<or> w) then 1 else 0)"
    if "p = (if u then 1 else 0)" "q = (if v then 1 else 0)" "s = (if w then 1 else 0)" "w \<longrightarrow> v" "v \<longrightarrow> u"
    for a b c p q s :: int and u v w using that by (cases u; cases v; cases w; simp)
  from this [OF refl refl refl w] show ?thesis unfolding leaps_def leap_def d .
qed

lemma before_year_Suc: "before_year (y + 1) = before_year y + 365 + (if leap y then 1 else 0)"
  using leaps_step [of y] by (simp add: before_year_def)

lemma before_year_mono:
  assumes "y < z"
  shows "before_year y + 365 + (if leap y then 1 else 0) \<le> before_year z"
proof -
  have "before_year (y + 1) \<le> before_year (y + 1 + int n)" for n
  proof (induction n)
    case (Suc n)
    have "y + 1 + int (Suc n) = (y + 1 + int n) + 1" by simp
    then have "before_year (y + 1 + int n) \<le> before_year (y + 1 + int (Suc n))"
      using before_year_Suc [of "y + 1 + int n"] by (simp only:) simp
    with Suc show ?case by simp
  qed simp
  from this [of "nat (z - y - 1)"] assms show ?thesis by (simp add: before_year_Suc)
qed

lemma month_cases:
  fixes m :: int
  assumes "1 \<le> m" and "m \<le> 12"
  obtains "m = 1" | "m = 2" | "m = 3" | "m = 4" | "m = 5" | "m = 6" | "m = 7" | "m = 8" | "m = 9"
    | "m = 10" | "m = 11" | "m = 12"
proof -
  have "m = 1 \<or> m = 2 \<or> m = 3 \<or> m = 4 \<or> m = 5 \<or> m = 6 \<or> m = 7 \<or> m = 8 \<or> m = 9 \<or> m = 10 \<or> m = 11 \<or> m = 12"
    using assms by presburger
  then show thesis using that by blast
qed

lemma before_month_vals:
  "before_month lp 1 = 0" "before_month lp 2 = 31" "before_month lp 3 = 59 + (if lp then 1 else 0)"
  "before_month lp 4 = 90 + (if lp then 1 else 0)" "before_month lp 5 = 120 + (if lp then 1 else 0)"
  "before_month lp 6 = 151 + (if lp then 1 else 0)" "before_month lp 7 = 181 + (if lp then 1 else 0)"
  "before_month lp 8 = 212 + (if lp then 1 else 0)" "before_month lp 9 = 243 + (if lp then 1 else 0)"
  "before_month lp 10 = 273 + (if lp then 1 else 0)" "before_month lp 11 = 304 + (if lp then 1 else 0)"
  "before_month lp 12 = 334 + (if lp then 1 else 0)"
  by (simp_all add: before_month_def eval_nat_numeral)

lemma before_month_Suc:
  assumes "1 \<le> m" and "m < 12"
  shows "before_month lp (m + 1) = before_month lp m + month_len lp m"
  by (rule month_cases [of m]) (use assms in \<open>simp_all add: before_month_vals month_len_def\<close>)

lemma before_month_end: "before_month lp 12 + month_len lp 12 = 365 + (if lp then 1 else 0)"
  by (simp add: before_month_vals month_len_def)

lemma before_month_mono:
  assumes "1 \<le> m" and "m < n" and "n \<le> 12"
  shows "before_month lp m + month_len lp m \<le> before_month lp n"
proof -
  have "before_month lp (m + 1) \<le> before_month lp (m + 1 + int k)" if "m + 1 + int k \<le> 12" for k
    using that
  proof (induction k)
    case (Suc k)
    have "m + 1 + int (Suc k) = (m + 1 + int k) + 1" by simp
    then have "before_month lp (m + 1 + int (Suc k)) = before_month lp (m + 1 + int k) + month_len lp (m + 1 + int k)"
      using before_month_Suc [of "m + 1 + int k" lp] Suc.prems assms(1) by (simp only:)
    moreover have "0 \<le> month_len lp (m + 1 + int k)" by (simp add: month_len_def)
    ultimately show ?case using Suc by simp
  qed simp
  from this [of "nat (n - m - 1)"] have "before_month lp (m + 1) \<le> before_month lp n" using assms by simp
  then show ?thesis using before_month_Suc [of m lp] assms by simp
qed

lemma month_range:
  assumes "1 \<le> m" and "m \<le> 12"
  shows "0 \<le> before_month lp m" "before_month lp m + month_len lp m \<le> 365 + (if lp then 1 else 0)"
proof -
  show "0 \<le> before_month lp m" by (rule month_cases [OF assms]) (simp_all add: before_month_vals)
  show "before_month lp m + month_len lp m \<le> 365 + (if lp then 1 else 0)"
    by (rule month_cases [OF assms]) (simp_all add: before_month_vals month_len_def)
qed

text \<open>Days are counted in the order of the dates.\<close>

lemma epoch_day_mono:
  assumes "valid_date a" and "valid_date b" and "a < b"
  shows "epoch_day a < epoch_day b"
proof -
  note v = assms(1,2) [unfolded valid_date_def]
  consider "cyear a < cyear b" | "cyear a = cyear b" "cmonth a < cmonth b" | "cyear a = cyear b" "cmonth a = cmonth b" "cday a < cday b"
    using assms(3) by (auto simp: less_cdate_def)
  then show ?thesis
  proof cases
    case 1
    show ?thesis
      using before_year_mono [OF 1] month_range(2) [of "cmonth a" "leap (cyear a)"]
        month_range(1) [of "cmonth b" "leap (cyear b)"] v by (simp add: epoch_day_def)
  next
    case 2
    show ?thesis
      using before_month_mono [of "cmonth a" "cmonth b" "leap (cyear a)"] 2 v by (simp add: epoch_day_def)
  next
    case 3
    then show ?thesis by (simp add: epoch_day_def)
  qed
qed

lemma epoch_day_inj: "valid_date a \<Longrightarrow> valid_date b \<Longrightarrow> epoch_day a = epoch_day b \<Longrightarrow> a = b"
  using epoch_day_mono [of a b] epoch_day_mono [of b a] by (cases a b rule: linorder_cases) auto

section \<open>The date of a day\<close>

text \<open>The year that the day \<open>n\<close> since the year 1 falls in: an estimate, corrected by one.\<close>

definition year_of :: "int \<Rightarrow> int" where
  "year_of n = (let y = n * 400 div 146097 + 1
     in if n < before_year y then y - 1 else if before_year (y + 1) \<le> n then y + 1 else y)"

definition month_of :: "bool \<Rightarrow> int \<Rightarrow> int" where
  "month_of lp doy = int (length (filter (\<lambda>m. before_month lp m \<le> doy) [1, 2, 3, 4, 5, 6, 7, 8, 9, 10, 11, 12]))"

definition date_of_day :: "int \<Rightarrow> cdate" where
  "date_of_day days =
     (let n = days + 719162; y = year_of n; doy = n - before_year y; m = month_of (leap y) doy
      in CDate y m (doy - before_month (leap y) m + 1))"

lemma leaps_bounds: "97 * y - 699 \<le> 400 * leaps y" "400 * leaps y \<le> 97 * y + 396"
proof -
  have "97 * y - 699 \<le> 400 * (p - q + r) \<and> 400 * (p - q + r) \<le> 97 * y + 396"
    if "4 * p \<le> y" "y < 4 * p + 4" "100 * q \<le> y" "y < 100 * q + 100" "400 * r \<le> y" "y < 400 * r + 400" for p q r
    using that unfolding right_diff_distrib distrib_left by linarith
  from this [of "y div 4" "y div 100" "y div 400"] div_bounds
  show "97 * y - 699 \<le> 400 * leaps y" "400 * leaps y \<le> 97 * y + 396" by (simp_all add: leaps_def)
qed

lemma year_of:
  shows "before_year (year_of n) \<le> n" and "n < before_year (year_of n + 1)"
proof -
  define y where "y = n * 400 div 146097 + 1"
  have e: "146097 * (y - 1) \<le> 400 * n" "400 * n < 146097 * y"
    using div_bounds [of 146097 "n * 400"] unfolding y_def by (simp_all add: algebra_simps)
  have b: "400 * before_year z = 146000 * (z - 1) + 400 * leaps (z - 1)" for z by (simp add: before_year_def)
  have "before_year (y - 1) \<le> n"
  proof -
    have "146097 * (y - 1) \<le> 400 * n \<Longrightarrow> 400 * l \<le> 97 * (y - 2) + 396 \<Longrightarrow> 365 * (y - 2) + l \<le> n" for l
      unfolding right_diff_distrib distrib_left by linarith
    from this [OF e(1) leaps_bounds(2)] show ?thesis by (simp add: before_year_def)
  qed
  moreover have "n < before_year (y + 2)"
  proof -
    have "400 * n < 146097 * y \<Longrightarrow> 97 * (y + 1) - 699 \<le> 400 * l \<Longrightarrow> n < 365 * (y + 1) + l" for l
      unfolding right_diff_distrib distrib_left by linarith
    from this [OF e(2) leaps_bounds(1)] show ?thesis by (simp add: before_year_def add.commute)
  qed
  moreover have "year_of n = (if n < before_year y then y - 1 else if before_year (y + 1) \<le> n then y + 1 else y)"
    by (simp only: year_of_def Let_def y_def)
  moreover have "y + 1 + 1 = y + 2" "y - 1 + 1 = y" by simp_all
  ultimately show "before_year (year_of n) \<le> n" "n < before_year (year_of n + 1)"
    by (simp_all only: split: if_split) auto
qed

lemma month_of:
  assumes "0 \<le> doy" and "doy < 365 + (if lp then 1 else 0)"
  shows "1 \<le> month_of lp doy" and "month_of lp doy \<le> 12" and "before_month lp (month_of lp doy) \<le> doy"
    and "doy < before_month lp (month_of lp doy) + month_len lp (month_of lp doy)"
  using assms
  by (cases lp; force simp: month_of_def before_month_vals month_len_def)+

lemma date_of_day: "valid_date (date_of_day n)" "epoch_day (date_of_day n) = n"
proof -
  let ?n = "n + 719162"
  let ?y = "year_of ?n"
  have d: "0 \<le> ?n - before_year ?y" "?n - before_year ?y < 365 + (if leap ?y then 1 else 0)"
    using year_of [of ?n] before_year_Suc [of ?y] by simp_all
  note m = month_of [OF d]
  show "valid_date (date_of_day n)" using m by (simp add: valid_date_def date_of_day_def Let_def)
  show "epoch_day (date_of_day n) = n" by (simp add: epoch_day_def date_of_day_def Let_def)
qed

text \<open>A date is determined by its day.\<close>

lemma date_of_day_eq: "valid_date d \<Longrightarrow> date_of_day (epoch_day d) = d"
  using date_of_day epoch_day_inj by blast

lemma date_le_iff:
  assumes "valid_date a" and "valid_date b"
  shows "a \<le> b \<longleftrightarrow> epoch_day a \<le> epoch_day b"
  using epoch_day_mono [OF assms] epoch_day_mono [OF assms(2,1)] by (cases a b rule: linorder_cases) auto

lemma cyear_range:
  assumes "valid_date d"
  shows "1 \<le> cyear d \<longleftrightarrow> -719162 \<le> epoch_day d" and "cyear d \<le> 9999 \<longleftrightarrow> epoch_day d \<le> 2932896"
proof -
  have v: "valid_date (CDate 1 1 1)" "valid_date (CDate 9999 12 31)"
    by (simp_all add: valid_date_def month_len_def)
  have e: "epoch_day (CDate 1 1 1) = -719162" "epoch_day (CDate 9999 12 31) = 2932896"
    by (simp_all add: epoch_day_def before_month_vals before_year_def leaps_def leap_def)
  have "1 \<le> cyear d \<longleftrightarrow> CDate 1 1 1 \<le> d"
    using assms unfolding less_eq_cdate_def valid_date_def cdate.sel by arith
  also have "\<dots> \<longleftrightarrow> -719162 \<le> epoch_day d" unfolding date_le_iff [OF v(1) assms] e(1) by (rule refl)
  finally show "1 \<le> cyear d \<longleftrightarrow> -719162 \<le> epoch_day d" .
  have m: "cday d \<le> 31" using assms by (auto simp: valid_date_def month_len_def split: if_splits)
  have "cyear d \<le> 9999 \<longleftrightarrow> d \<le> CDate 9999 12 31"
    using assms m unfolding less_eq_cdate_def valid_date_def cdate.sel by arith
  also have "\<dots> \<longleftrightarrow> epoch_day d \<le> 2932896" unfolding date_le_iff [OF assms v(2)] e(2) by (rule refl)
  finally show "cyear d \<le> 9999 \<longleftrightarrow> epoch_day d \<le> 2932896" .
qed

end
