(* ===== verification/CText.thy ===== *)
theory CText
  imports ByteReads "HOL-Library.Monad_Syntax"
begin

text \<open>
  The texts the C library reads and writes: decimal numbers of \<open>printf\<close> and \<open>sscanf\<close>, and a
  number that is printed is read back. An \<open>int\<close> that overflows wraps (\<open>wrap32\<close>).
\<close>

definition wrap32 :: "int \<Rightarrow> int" where
  "wrap32 i = sint (word_of_int i :: i32)"

lemma wrap32_small: "- (2 ^ 31) \<le> i \<Longrightarrow> i < 2 ^ 31 \<Longrightarrow> wrap32 i = i"
  by (simp add: wrap32_def sint_sbintrunc' signed_take_bit_int_eq_self)

lemma sint32: "- (2 ^ 31) \<le> i \<Longrightarrow> i < 2 ^ 31 \<Longrightarrow> sint (word_of_int i :: i32) = i"
  by (simp add: sint_sbintrunc' signed_take_bit_int_eq_self)

section \<open>Numbers in texts\<close>

fun dec :: "nat \<Rightarrow> string" where
  "dec n = (if n < 10 then [char_of (48 + n)] else dec (n div 10) @ [char_of (48 + n mod 10)])"

definition pad0 :: "nat \<Rightarrow> string \<Rightarrow> string" where
  "pad0 w s = replicate (w - length s) CHR 0x30 @ s"

text \<open>\<open>%0wd\<close>.\<close>

definition fmt0 :: "nat \<Rightarrow> int \<Rightarrow> string" where
  "fmt0 w i = (if i < 0 then CHR 0x2D # pad0 (w - 1) (dec (nat (- i))) else pad0 w (dec (nat i)))"

definition is_digit :: "char \<Rightarrow> bool" where
  "is_digit c \<longleftrightarrow> 48 \<le> (of_char c :: nat) \<and> (of_char c :: nat) \<le> 57"

definition is_space :: "char \<Rightarrow> bool" where
  "is_space c \<longleftrightarrow> (of_char c :: nat) = 32 \<or> 9 \<le> (of_char c :: nat) \<and> (of_char c :: nat) \<le> 13"

definition digits_val :: "string \<Rightarrow> int" where
  "digits_val ds = foldl (\<lambda>v c. 10 * v + int (of_char c - 48)) 0 ds"

text \<open>\<open>%d\<close> of \<open>sscanf\<close>: the value and the rest.\<close>

definition scan_d :: "string \<Rightarrow> (int \<times> string) option" where
  "scan_d s =
     (let t = dropWhile is_space s;
          neg = (t \<noteq> [] \<and> hd t = CHR 0x2D);
          u = (if t \<noteq> [] \<and> (hd t = CHR 0x2D \<or> hd t = CHR 0x2B) then tl t else t);
          ds = takeWhile is_digit u
      in if ds = [] then None
         else Some (if neg then - digits_val ds else digits_val ds, dropWhile is_digit u))"

text \<open>\<open>%d\<close> with a literal before each number but the first; \<open>None\<close> when fewer are matched.\<close>

fun scan_ds :: "char option list \<Rightarrow> string \<Rightarrow> int list option" where
  "scan_ds [] s = Some []"
| "scan_ds (l # ls) s =
     do { t \<leftarrow> (case l of None \<Rightarrow> Some s
               | Some c \<Rightarrow> if s \<noteq> [] \<and> hd s = c then Some (tl s) else None);
          (v, r) \<leftarrow> scan_d t;
          vs \<leftarrow> scan_ds ls r;
          Some (v # vs) }"

section \<open>Decimal numbers\<close>

declare dec.simps [simp del]

lemma of_char_digit: "n < 10 \<Longrightarrow> (of_char (char_of (48 + n) :: char) :: nat) = 48 + n" for n :: nat
  by (simp add: of_char_of)

lemma is_digit_digit: "n < 10 \<Longrightarrow> is_digit (char_of (48 + n))" for n :: nat
  by (simp add: is_digit_def of_char_digit del: of_char_of)

lemma dec_digits: "\<forall>c \<in> set (dec n). is_digit c"
proof (induction n rule: dec.induct)
  case (1 n)
  then show ?case using is_digit_digit [of "n mod 10"] is_digit_digit [of n] by (subst dec.simps) auto
qed

lemma dec_nonempty [simp]: "dec n \<noteq> []"
  by (subst dec.simps) simp

lemma digits_val_snoc: "digits_val (ds @ [c]) = 10 * digits_val ds + int (of_char c - 48)"
  by (simp add: digits_val_def)

lemma dec_val: "digits_val (dec n) = int n"
proof (induction n rule: dec.induct)
  case (1 n)
  show ?case
  proof (cases "n < 10")
    case True
    then have "dec n = [char_of (48 + n)]" by (subst dec.simps) simp
    then show ?thesis using of_char_digit [OF True] by (simp only: digits_val_def) simp
  next
    case False
    have m: "n mod 10 < 10" by simp
    have "dec n = dec (n div 10) @ [char_of (48 + n mod 10)]" using False by (subst dec.simps) simp
    then have "digits_val (dec n) = 10 * int (n div 10) + int (n mod 10)"
      using 1 [OF False] of_char_digit [OF m] by (simp add: digits_val_snoc del: of_char_of)
    then show ?thesis by (simp add: zdiv_int zmod_int)
  qed
qed

lemma digits_val_zeros: "digits_val (replicate k CHR 0x30 @ ds) = digits_val ds"
proof -
  have "foldl (\<lambda>v c. 10 * v + int (of_char c - 48)) 0 (replicate k CHR 0x30) = 0" by (induction k) simp_all
  then show ?thesis by (simp add: digits_val_def)
qed

lemma dec_length: "1 \<le> w \<Longrightarrow> n < 10 ^ w \<Longrightarrow> length (dec n) \<le> w"
proof (induction w arbitrary: n)
  case (Suc w)
  show ?case
  proof (cases "n < 10")
    case True
    then show ?thesis by (subst dec.simps) simp
  next
    case False
    have "1 \<le> w"
    proof (rule ccontr)
      assume "\<not> 1 \<le> w"
      then show False using Suc.prems False by (cases w) simp_all
    qed
    moreover have "n div 10 < 10 ^ w" using Suc.prems by (simp add: less_mult_imp_div_less mult.commute)
    ultimately have "length (dec (n div 10)) \<le> w" by (rule Suc.IH)
    then show ?thesis using False by (subst dec.simps) simp
  qed
qed simp

lemma fmt0_pos: "0 \<le> i \<Longrightarrow> fmt0 w i = replicate (w - length (dec (nat i))) CHR 0x30 @ dec (nat i)"
  by (simp add: fmt0_def pad0_def)

lemma fmt0_digits: "0 \<le> i \<Longrightarrow> \<forall>c \<in> set (fmt0 w i). is_digit c"
  using dec_digits [of "nat i"] by (auto simp: fmt0_pos is_digit_def)

lemma fmt0_nonempty: "0 \<le> i \<Longrightarrow> fmt0 w i \<noteq> []"
  by (simp add: fmt0_pos)

lemma fmt0_val: "0 \<le> i \<Longrightarrow> digits_val (fmt0 w i) = i"
  by (simp add: fmt0_pos digits_val_zeros dec_val)

lemma fmt0_length: "0 \<le> i \<Longrightarrow> nat i < 10 ^ w \<Longrightarrow> 1 \<le> w \<Longrightarrow> length (fmt0 w i) = w"
  using dec_length [of w "nat i"] by (simp add: fmt0_pos)

lemma fmt_lengths: "0 \<le> i \<Longrightarrow> i < 100 \<Longrightarrow> length (fmt0 2 i) = 2" "0 \<le> i \<Longrightarrow> i < 10000 \<Longrightarrow> length (fmt0 4 i) = 4"
  by (rule fmt0_length; simp)+

text \<open>Reading a number back.\<close>

lemma digit_plain: "is_digit c \<Longrightarrow> \<not> is_space c \<and> c \<noteq> CHR 0x2D \<and> c \<noteq> CHR 0x2B \<and> c \<noteq> CHR 0x5A"
  by (auto simp: is_digit_def is_space_def)

lemma scan_d_fmt0:
  assumes "0 \<le> i" and "rest = [] \<or> \<not> is_digit (hd rest)"
  shows "scan_d (fmt0 w i @ rest) = Some (i, rest)"
proof -
  obtain c cs where f: "fmt0 w i = c # cs" using fmt0_nonempty [OF assms(1)] by (cases "fmt0 w i") auto
  have dg: "\<forall>x \<in> set (c # cs). is_digit x" using fmt0_digits [OF assms(1), of w] f by simp
  then have c: "\<not> is_space c" "c \<noteq> CHR 0x2D" "c \<noteq> CHR 0x2B" using digit_plain [of c] by simp_all
  have tk: "takeWhile is_digit (fmt0 w i @ rest) = fmt0 w i" "dropWhile is_digit (fmt0 w i @ rest) = rest"
    using dg f assms(2) by (cases rest; simp)+
  then show ?thesis using c fmt0_val [OF assms(1), of w] f by (simp add: scan_d_def Let_def)
qed

lemma scan_ds_fmt0:
  assumes "0 \<le> i" and "rest = [] \<or> \<not> is_digit (hd rest)"
  shows "scan_ds (Some c # ls) (c # fmt0 w i @ rest) = map_option ((#) i) (scan_ds ls rest)"
    and "scan_ds (None # ls) (fmt0 w i @ rest) = map_option ((#) i) (scan_ds ls rest)"
  using scan_d_fmt0 [OF assms, of w] by (cases "scan_ds ls rest"; simp)+

text \<open>The same for a negative number, printed with its sign.\<close>

lemma scan_d_fmt0_all:
  assumes "rest = [] \<or> \<not> is_digit (hd rest)"
  shows "scan_d (fmt0 w i @ rest) = Some (i, rest)"
proof (cases "0 \<le> i")
  case False
  have f: "fmt0 w i = CHR 0x2D # fmt0 (w - 1) (- i)" using False by (simp add: fmt0_def)
  have dg: "\<forall>x \<in> set (fmt0 (w - 1) (- i)). is_digit x" using False by (intro fmt0_digits) simp
  have tk: "takeWhile is_digit (fmt0 (w - 1) (- i) @ rest) = fmt0 (w - 1) (- i)"
      "dropWhile is_digit (fmt0 (w - 1) (- i) @ rest) = rest"
    using dg assms by (cases rest; simp)+
  have "\<not> is_space CHR 0x2D" by (simp add: is_space_def)
  then show ?thesis
    using tk fmt0_val [of "- i" "w - 1"] fmt0_nonempty [of "- i" "w - 1"] False
    by (simp add: scan_d_def Let_def f)
qed (rule scan_d_fmt0 [OF _ assms])

end
