(* ===== verification/Rtc.thy ===== *)
theory Rtc
  imports Calendar CText "HOL-Library.Signed_Division"
begin

unbundle bit_operations_syntax

text \<open>
  The clock library, \<open>modules/libSceRtc\<close>: ticks, calendar dates and their texts. C's truncating
  division is \<open>sdiv\<close> and \<open>smod\<close>; an \<open>int\<close> sum that overflows wraps (\<open>wrap32\<close>). Of the C library,
  \<open>gmtime_r\<close> is the calendar of \<open>Calendar\<close>, \<open>localtime_r\<close> is \<open>gmtime_r\<close> shifted by the offset of the
  host's time zone at that time, \<open>sscanf\<close> is written out for its format; the current time, the
  zone, \<open>mktime\<close>, \<open>timegm\<close> and \<open>strptime\<close> are the fields of \<open>host_clock\<close>.
\<close>

section \<open>The C library\<close>

record tm =
  tm_year :: int
  tm_mon :: int
  tm_mday :: int
  tm_hour :: int
  tm_min :: int
  tm_sec :: int
  tm_wday :: int
  tm_isdst :: int
  tm_gmtoff :: int

definition tm_zero :: tm where
  "tm_zero = \<lparr>tm_year = 0, tm_mon = 0, tm_mday = 0, tm_hour = 0, tm_min = 0, tm_sec = 0, tm_wday = 0, tm_isdst = 0, tm_gmtoff = 0\<rparr>"

record host_clock =
  hc_sec :: int
  hc_usec :: int
  hc_off :: "int \<Rightarrow> int"
  hc_mktime :: "tm \<Rightarrow> int"
  hc_timegm :: "tm \<Rightarrow> int"
  hc_strptime :: "string \<Rightarrow> string \<Rightarrow> tm \<Rightarrow> bool \<times> tm"

definition gmtime :: "int \<Rightarrow> tm" where
  "gmtime s = (let d = date_of_day (s div 86400); r = s mod 86400 in
     \<lparr>tm_year = cyear d - 1900, tm_mon = cmonth d - 1, tm_mday = cday d, tm_hour = r div 3600,
      tm_min = r mod 3600 div 60, tm_sec = r mod 60, tm_wday = (s div 86400 + 4) mod 7, tm_isdst = 0, tm_gmtoff = 0\<rparr>)"

definition localtime :: "host_clock \<Rightarrow> int \<Rightarrow> tm" where
  "localtime h s = (gmtime (s + hc_off h s))\<lparr>tm_gmtoff := hc_off h s\<rparr>"

section \<open>Dates and ticks\<close>

record date_time =
  dt_year :: u16
  dt_month :: u16
  dt_day :: u16
  dt_hour :: u16
  dt_minute :: u16
  dt_second :: u16
  dt_us :: u32

type_synonym 'a rtc = "i32 + 'a"

abbreviation (input) EINVAL_NEG :: i32 where
  "EINVAL_NEG \<equiv> - 22"

definition sceRtcGetTickResolution :: i32 where
  "sceRtcGetTickResolution = 1000000"

definition sceRtcGetCurrentTick :: "host_clock \<Rightarrow> bool \<Rightarrow> u64 rtc" where
  "sceRtcGetCurrentTick h null =
     (if null then Inl EINVAL_NEG else Inr (word_of_int (hc_sec h) * 1000000 + word_of_int (hc_usec h)))"

definition dt_of_tm :: "tm \<Rightarrow> u32 \<Rightarrow> date_time" where
  "dt_of_tm t us =
     \<lparr>dt_year = word_of_int (tm_year t + 1900), dt_month = word_of_int (tm_mon t + 1),
      dt_day = word_of_int (tm_mday t), dt_hour = word_of_int (tm_hour t),
      dt_minute = word_of_int (tm_min t), dt_second = word_of_int (tm_sec t), dt_us = us\<rparr>"

definition sceRtcGetCurrentClockLocalTime :: "host_clock \<Rightarrow> bool \<Rightarrow> date_time rtc" where
  "sceRtcGetCurrentClockLocalTime h null =
     (if null then Inl EINVAL_NEG else Inr (dt_of_tm (localtime h (hc_sec h)) (word_of_int (hc_usec h))))"

definition sceRtcGetCurrentClock :: "host_clock \<Rightarrow> bool \<Rightarrow> i32 \<Rightarrow> date_time rtc" where
  "sceRtcGetCurrentClock h null timeZone =
     (if null then Inl EINVAL_NEG
      else Inr (dt_of_tm (gmtime (hc_sec h + sint timeZone * 60)) (word_of_int (hc_usec h))))"

definition sceRtcConvertUtcToLocalTime :: "host_clock \<Rightarrow> u64 option \<Rightarrow> bool \<Rightarrow> u64 rtc" where
  "sceRtcConvertUtcToLocalTime h utc null =
     (case utc of None \<Rightarrow> Inl EINVAL_NEG
      | Some t \<Rightarrow>
          if null then Inl EINVAL_NEG
          else Inr (t + word_of_int (tm_gmtoff (localtime h (sint (t div 1000000))) * 1000000)))"

definition tm_of_dt :: "date_time \<Rightarrow> tm" where
  "tm_of_dt d = tm_zero\<lparr>tm_year := uint (dt_year d) - 1900, tm_mon := uint (dt_month d) - 1,
     tm_mday := uint (dt_day d), tm_hour := uint (dt_hour d), tm_min := uint (dt_minute d),
     tm_sec := uint (dt_second d), tm_isdst := -1\<rparr>"

definition sceRtcGetTick :: "host_clock \<Rightarrow> date_time option \<Rightarrow> bool \<Rightarrow> u64 rtc" where
  "sceRtcGetTick h timeIn null =
     (case timeIn of None \<Rightarrow> Inl EINVAL_NEG
      | Some d \<Rightarrow>
          if null then Inl EINVAL_NEG
          else (let sec = hc_mktime h (tm_of_dt d)
                in if sec = -1 then Inl EINVAL_NEG
                   else Inr (word_of_int sec * 1000000 + ucast (dt_us d))))"

definition sceRtcSetTick :: "host_clock \<Rightarrow> bool \<Rightarrow> u64 option \<Rightarrow> date_time rtc" where
  "sceRtcSetTick h null tick =
     (case tick of None \<Rightarrow> Inl EINVAL_NEG
      | Some t \<Rightarrow>
          if null then Inl EINVAL_NEG
          else Inr (dt_of_tm (localtime h (sint (t div 1000000))) (ucast (t mod 1000000))))"

definition sceRtcGetDayOfWeek :: "i32 \<Rightarrow> i32 \<Rightarrow> i32 \<Rightarrow> i32" where
  "sceRtcGetDayOfWeek year month day =
     (if month <s 1 \<or> 12 <s month \<or> day <s 1 \<or> 31 <s day then EINVAL_NEG
      else
        (let t = [0, 3, 2, 5, 0, 3, 5, 1, 4, 6, 2, 4];
             y = (if month <s 3 then wrap32 (sint year - 1) else sint year)
         in word_of_int (wrap32 (y + y sdiv 4 - y sdiv 100 + y sdiv 400 + t ! nat (sint month - 1) + sint day) smod 7)))"

definition sceRtcIsLeapYear :: "i32 \<Rightarrow> i32" where
  "sceRtcIsLeapYear year =
     (let y = sint year in if y smod 4 = 0 \<and> (y smod 100 \<noteq> 0 \<or> y smod 400 = 0) then 1 else 0)"

definition sceRtcGetTime_t :: "host_clock \<Rightarrow> date_time option \<Rightarrow> bool \<Rightarrow> i64 rtc" where
  "sceRtcGetTime_t h pTime null =
     (if pTime = None \<or> null then Inl EINVAL_NEG
      else case sceRtcGetTick h pTime False of Inl rc \<Rightarrow> Inl rc | Inr t \<Rightarrow> Inr (t div 1000000))"

text \<open>The formats are tried in turn, on the \<open>tm\<close> the previous attempt left.\<close>

definition sceRtcParseDateTime :: "host_clock \<Rightarrow> bool \<Rightarrow> string option \<Rightarrow> u64 rtc" where
  "sceRtcParseDateTime h null str =
     (case str of None \<Rightarrow> Inl EINVAL_NEG
      | Some s \<Rightarrow>
          if null then Inl EINVAL_NEG
          else
            (let (r1, t1) = hc_strptime h ''%Y-%m-%dT%H:%M:%S'' s tm_zero;
                 (r2, t2) = (if r1 then (r1, t1) else hc_strptime h ''%Y-%m-%d %H:%M:%S'' s t1);
                 (r3, t3) = (if r2 then (r2, t2) else hc_strptime h ''%Y/%m/%d %H:%M:%S'' s t2)
             in if \<not> r3 then Inl EINVAL_NEG
                else (let g = hc_timegm h t3; u = (if g = -1 then hc_mktime h t3 else g)
                      in Inr (word_of_int u * 1000000))))"

definition sceRtcGetCurrentNetworkTick :: "host_clock \<Rightarrow> bool \<Rightarrow> u64 rtc" where
  "sceRtcGetCurrentNetworkTick h null = sceRtcGetCurrentTick h null"

definition sceRtcTickAddSeconds :: "bool \<Rightarrow> u64 option \<Rightarrow> i64 \<Rightarrow> u64 rtc" where
  "sceRtcTickAddSeconds dst_null src add =
     (case src of None \<Rightarrow> Inl 0x80B50002
      | Some t \<Rightarrow> if dst_null then Inl 0x80B50002 else Inr (t + add * 1000000))"

section \<open>Seconds since 1970 to a date\<close>

definition rtc_civil_from_unix :: "int \<Rightarrow> date_time option" where
  "rtc_civil_from_unix secs =
     (let days0 = secs sdiv 86400; rem0 = secs smod 86400;
          rem = (if rem0 < 0 then rem0 + 86400 else rem0);
          days = (if rem0 < 0 then days0 - 1 else days0);
          z = days + 719468;
          era = (if 0 \<le> z then z else z - 146096) sdiv 146097;
          doe = z - era * 146097;
          yoe = (doe - doe sdiv 1460 + doe sdiv 36524 - doe sdiv 146096) sdiv 365;
          y0 = yoe + era * 400;
          doy = doe - (365 * yoe + yoe sdiv 4 - yoe sdiv 100);
          mp = (5 * doy + 2) sdiv 153;
          d = doy - (153 * mp + 2) sdiv 5 + 1;
          m = (if mp < 10 then mp + 3 else mp - 9);
          y = (if m \<le> 2 then y0 + 1 else y0)
      in if y < 1 \<or> 9999 < y then None
         else Some \<lparr>dt_year = word_of_int y, dt_month = word_of_int m, dt_day = word_of_int d,
                    dt_hour = word_of_int (rem sdiv 3600), dt_minute = word_of_int (rem smod 3600 sdiv 60),
                    dt_second = word_of_int (rem smod 60), dt_us = 0\<rparr>)"

definition sceRtcSetTime_t :: "bool \<Rightarrow> i64 \<Rightarrow> u32 \<Rightarrow> date_time rtc" where
  "sceRtcSetTime_t null time sdk_version =
     (if null then Inl 0x80B50002
      else if 0x3000000 \<le> sdk_version \<and> time <s 0 then Inl 0x80B50003
      else
        (let t = (if sdk_version < 0x3000000 then time AND 0xffffffff else time)
         in case rtc_civil_from_unix (sint t) of None \<Rightarrow> Inl 0x80B50003 | Some d \<Rightarrow> Inr d))"

text \<open>\<open>proc\<close> is \<open>proc_param_addr\<close> of the process context.\<close>

definition rtc_compiled_sdk_version :: "u64 \<Rightarrow> guest_mem \<Rightarrow> u32" where
  "rtc_compiled_sdk_version proc m =
     (if proc = 0 \<or> \<not> mem_mapped m \<or> mem_size m < proc + 0x14 then 0xffffffff else rd_u32 m (proc + 0x10))"

section \<open>Texts\<close>

definition ps4_rtc_tick_to_unix_us :: "u64 \<Rightarrow> int" where
  "ps4_rtc_tick_to_unix_us tick =
     (if 62135596800000000 \<le> tick then sint (tick - 62135596800000000) else sint tick)"

definition ps4_rtc_format_rfc3339 :: "int \<Rightarrow> i32 \<Rightarrow> string rtc" where
  "ps4_rtc_format_rfc3339 unix_us tz_minutes =
     (let us0 = unix_us smod 1000000; secs0 = unix_us sdiv 1000000;
          us = (if us0 < 0 then us0 + 1000000 else us0);
          secs = (if us0 < 0 then secs0 - 1 else secs0)
      in case rtc_civil_from_unix (secs + sint tz_minutes * 60) of
           None \<Rightarrow> Inl 0x80B50003
         | Some d \<Rightarrow>
             (let body = take 28 (fmt0 4 (uint (dt_year d)) @ ''-'' @ fmt0 2 (uint (dt_month d)) @ ''-'' @ fmt0 2 (uint (dt_day d))
                           @ ''T'' @ fmt0 2 (uint (dt_hour d)) @ '':'' @ fmt0 2 (uint (dt_minute d)) @ '':''
                           @ fmt0 2 (uint (dt_second d)) @ ''.'' @ fmt0 2 (us sdiv 10000));
                  tz = (if tz_minutes <s 0 then wrap32 (- sint tz_minutes) else sint tz_minutes);
                  zone = (if tz_minutes = 0 then ''Z''
                          else take 6 ((if tz_minutes <s 0 then ''-'' else ''+'') @ fmt0 2 (tz sdiv 60 smod 100) @ '':'' @ fmt0 2 (tz smod 60)))
              in Inr (body @ zone)))"

definition now_us :: "host_clock \<Rightarrow> int" where
  "now_us h = hc_sec h * 1000000 + hc_usec h"

definition sceRtcFormatRFC3339 :: "host_clock \<Rightarrow> bool \<Rightarrow> u64 option \<Rightarrow> i32 \<Rightarrow> string rtc" where
  "sceRtcFormatRFC3339 h null tick tz =
     (if null then Inl EINVAL_NEG
      else (let t = (case tick of None \<Rightarrow> (case sceRtcGetCurrentTick h False of Inr t \<Rightarrow> t | Inl _ \<Rightarrow> 0) | Some t \<Rightarrow> t)
            in ps4_rtc_format_rfc3339 (ps4_rtc_tick_to_unix_us t) tz))"

definition sceRtcFormatRFC3339LocalTime :: "host_clock \<Rightarrow> bool \<Rightarrow> u64 option \<Rightarrow> string rtc" where
  "sceRtcFormatRFC3339LocalTime h null tick =
     (if null then Inl 0x80B50002
      else
        (let us = (case tick of Some t \<Rightarrow> ps4_rtc_tick_to_unix_us t | None \<Rightarrow> now_us h);
             secs = (if 0 \<le> us then us sdiv 1000000 else - ((- us + 999999) sdiv 1000000))
         in ps4_rtc_format_rfc3339 us (word_of_int (tm_gmtoff (localtime h secs) sdiv 60))))"

definition sceRtcFormatRFC2822 :: "host_clock \<Rightarrow> bool \<Rightarrow> u64 option \<Rightarrow> i32 \<Rightarrow> string rtc" where
  "sceRtcFormatRFC2822 h null tick tz_minutes =
     (if null then Inl 0x80B50002
      else
        (let us = (case tick of Some t \<Rightarrow> ps4_rtc_tick_to_unix_us t | None \<Rightarrow> now_us h);
             tm = gmtime (us sdiv 1000000 + sint tz_minutes * 60);
             days = [''Sun'', ''Mon'', ''Tue'', ''Wed'', ''Thu'', ''Fri'', ''Sat''];
             months = [''Jan'', ''Feb'', ''Mar'', ''Apr'', ''May'', ''Jun'', ''Jul'', ''Aug'', ''Sep'', ''Oct'', ''Nov'', ''Dec''];
             tz = (if tz_minutes <s 0 then wrap32 (- sint tz_minutes) else sint tz_minutes);
             sign = (if tz_minutes <s 0 then ''-'' else ''+'')
         in Inr (take 31 (days ! nat (tm_wday tm smod 7) @ '', '' @ fmt0 2 (tm_mday tm) @ '' '' @ months ! nat (tm_mon tm smod 12)
              @ '' '' @ fmt0 4 (tm_year tm + 1900) @ '' '' @ fmt0 2 (tm_hour tm) @ '':'' @ fmt0 2 (tm_min tm) @ '':''
              @ fmt0 2 (tm_sec tm) @ '' '' @ sign @ fmt0 2 (tz sdiv 60 smod 100) @ fmt0 2 (tz smod 60)))))"

text \<open>The zone at the end of the text, as the seconds that are subtracted from the tick.\<close>

definition rfc3339_zone :: "string \<Rightarrow> u64 option" where
  "rfc3339_zone s =
     (case dropWhile (\<lambda>c. c \<notin> {CHR 0x5A, CHR 0x2B, CHR 0x2D}) (drop 10 s) of [] \<Rightarrow> None
      | c # r \<Rightarrow>
          if c = CHR 0x5A then None
          else (case scan_ds [None] r of None \<Rightarrow> None
                | Some _ \<Rightarrow>
                    (let vs = (case scan_ds [None, Some CHR 0x3A] r of Some v \<Rightarrow> v | None \<Rightarrow> the (scan_ds [None] r) @ [0]);
                         off = word_of_int (wrap32 ((vs ! 0 * 60 + vs ! 1) * 60))
                     in Some (if c = CHR 0x2B then off else - off))))"

definition sceRtcParseRFC3339 :: "host_clock \<Rightarrow> bool \<Rightarrow> string option \<Rightarrow> u64 rtc" where
  "sceRtcParseRFC3339 h null str =
     (case str of None \<Rightarrow> Inl EINVAL_NEG
      | Some s \<Rightarrow>
          if null then Inl EINVAL_NEG
          else
            (case scan_ds [None, Some CHR 0x2D, Some CHR 0x2D, Some CHR 0x54, Some CHR 0x3A, Some CHR 0x3A] s of
               None \<Rightarrow> Inl EINVAL_NEG
             | Some v \<Rightarrow>
                 (let d = \<lparr>dt_year = word_of_int (v ! 0), dt_month = word_of_int (v ! 1), dt_day = word_of_int (v ! 2),
                           dt_hour = word_of_int (v ! 3), dt_minute = word_of_int (v ! 4), dt_second = word_of_int (v ! 5),
                           dt_us = 0\<rparr>
                  in case sceRtcGetTick h (Some d) False of Inl rc \<Rightarrow> Inl rc
                     | Inr t \<Rightarrow> Inr (t - (case rfc3339_zone s of None \<Rightarrow> 0 | Some off \<Rightarrow> off * 1000000)))))"

end
