(* ===== verification/RtcCivil.thy ===== *)
theory RtcCivil
  imports Rtc
begin

text \<open>
  \<open>rtc_civil_from_unix\<close> computes the calendar date: its era, year and month formulas against the
  reference calendar, for every number of seconds.
\<close>

section \<open>Truncating division\<close>

lemma sdiv_pos: "0 \<le> a \<Longrightarrow> 0 < b \<Longrightarrow> a sdiv b = a div b" for a b :: int
  by (cases "a = 0") (simp_all add: signed_divide_int_def)

lemma smod_eq: "a smod b = a - a sdiv b * b" for a b :: int
  using sdiv_mult_smod_eq [of a b] by simp

lemma smod_pos: "0 \<le> a \<Longrightarrow> 0 < b \<Longrightarrow> a smod b = a mod b" for a b :: int
  by (simp add: smod_eq sdiv_pos minus_div_mult_eq_mod)

lemma sdiv_neg: "a \<le> 0 \<Longrightarrow> 0 < b \<Longrightarrow> a sdiv b = - (- a div b)" for a b :: int
  by (cases "a = 0") (simp_all add: signed_divide_int_def)

lemma smod_neg: "a \<le> 0 \<Longrightarrow> 0 < b \<Longrightarrow> a smod b = - (- a mod b)" for a b :: int
proof -
  assume a: "a \<le> 0" "0 < b"
  have "b * (- a div b) + - a mod b = - a" by (rule mult_div_mod_eq)
  moreover have "a smod b = a + b * (- a div b)" using a by (simp add: smod_eq sdiv_neg)
  ultimately show ?thesis by linarith
qed

text \<open>The correction of a negative remainder gives the floor.\<close>

lemma floor_split:
  fixes a b :: int
  assumes "0 < b"
  shows "(if a smod b < 0 then a smod b + b else a smod b) = a mod b"
    and "(if a smod b < 0 then a sdiv b - 1 else a sdiv b) = a div b"
proof -
  have "(if a smod b < 0 then a smod b + b else a smod b) = a mod b
      \<and> (if a smod b < 0 then a sdiv b - 1 else a sdiv b) = a div b"
  proof (cases "0 \<le> a")
    case True
    then show ?thesis using assms pos_mod_sign [OF assms, of a] by (simp add: sdiv_pos smod_pos not_less)
  next
    case False
    define q r where "q = (- a) div b" and "r = (- a) mod b"
    have a: "a = - (q * b + r)" "0 \<le> r" "r < b" using assms by (simp_all add: q_def r_def)
    have s: "a sdiv b = - q" using False assms by (simp add: sdiv_neg q_def)
    have m: "a smod b = - r" using s a(1) by (simp add: smod_eq)
    show ?thesis
    proof (cases "r = 0")
      case True
      then have "a div b = - q" by (intro int_div_pos_eq [of _ _ _ 0]) (use a assms in \<open>simp_all add: mult.commute\<close>)
      then show ?thesis using True s m a by simp
    next
      case r0: False
      have "a div b = - q - 1"
        by (rule int_div_pos_eq [of _ _ _ "b - r"]) (use a r0 in \<open>simp_all add: algebra_simps\<close>)
      moreover have "a mod b = b - r"
        by (rule int_mod_pos_eq [of _ _ "- q - 1"]) (use a r0 in \<open>simp_all add: algebra_simps\<close>)
      ultimately show ?thesis using s m a r0 by simp
    qed
  qed
  then show "(if a smod b < 0 then a smod b + b else a smod b) = a mod b"
    "(if a smod b < 0 then a sdiv b - 1 else a sdiv b) = a div b" by blast+
qed

lemma era_floor: "(if 0 \<le> z then z else z - 146096) sdiv 146097 = z div 146097" for z :: int
proof (cases "0 \<le> z")
  case True
  then show ?thesis by (simp add: sdiv_pos)
next
  case False
  define q r where "q = z div 146097" and "r = z mod 146097"
  have z: "z = 146097 * q + r" "0 \<le> r" "r < 146097" by (simp_all add: q_def r_def)
  have "- (z - 146096) div 146097 = - q"
    by (rule int_div_pos_eq [of _ _ _ "146096 - r"]) (use z in simp_all)
  then show ?thesis using False by (simp add: sdiv_neg q_def)
qed

section \<open>The year of the era\<close>

text \<open>A day of the era is a day of a century, of a group of four years in it, and of a year in that.\<close>

lemma era_parts:
  fixes doe :: int
  assumes "0 \<le> doe" and "doe < 146097"
  obtains c q a t where "doe = 36524 * c + 1461 * q + 365 * a + t" and "0 \<le> c" "c \<le> 3" and "0 \<le> q" "q \<le> 24"
    and "0 \<le> a" "a \<le> 3" and "0 \<le> t" "t \<le> 364 \<or> a = 3 \<and> t = 365 \<and> (q \<noteq> 24 \<or> c = 3)"
proof -
  define c where "c = (if doe div 36524 = 4 then 3 else doe div 36524)"
  define d where "d = doe - 36524 * c"
  have c: "0 \<le> c" "c \<le> 3" "0 \<le> d" "d \<le> 36524" "d = 36524 \<longrightarrow> c = 3"
    using div_bounds [of 36524 doe] assms by (auto simp: c_def d_def)
  define q where "q = d div 1461"
  define r where "r = d - 1461 * q"
  have q: "0 \<le> q" "q \<le> 24" "0 \<le> r" "r \<le> 1460" "r = 1460 \<longrightarrow> q = 24 \<longrightarrow> c = 3"
    using div_bounds [of 1461 d] c by (auto simp: q_def r_def)
  define a where "a = (if r = 1460 then 3 else r div 365)"
  have a: "0 \<le> a" "a \<le> 3" "365 * a \<le> r" "r \<le> 365 * a + 364 \<or> a = 3 \<and> r = 1460"
    using div_bounds [of 365 r] q by (auto simp: a_def)
  have "doe = 36524 * c + 1461 * q + 365 * a + (r - 365 * a)" by (simp add: r_def d_def)
  moreover have "r - 365 * a \<le> 364 \<or> a = 3 \<and> r - 365 * a = 365 \<and> (q \<noteq> 24 \<or> c = 3)"
    using a(4) q(5) by (elim disjE) simp_all
  moreover have "0 \<le> r - 365 * a" using a(3) by simp
  ultimately show thesis using that c(1,2) q(1,2) a(1,2) by blast
qed

text \<open>The day of the era on which year \<open>y\<close>, counted from March, begins.\<close>

definition year_start :: "int \<Rightarrow> int" where
  "year_start y = 365 * y + y div 4 - y div 100"

lemma yoe_correct:
  fixes doe :: int
  assumes "0 \<le> doe" and "doe < 146097"
  defines "yoe \<equiv> (doe - doe div 1460 + doe div 36524 - doe div 146096) div 365"
  shows "0 \<le> yoe" "yoe < 400" "year_start yoe \<le> doe" "doe - year_start yoe \<le> 365"
    "doe - year_start yoe = 365 \<longrightarrow> leap (yoe + 1)"
proof -
  obtain c q a t where d: "doe = 36524 * c + 1461 * q + 365 * a + t" and c: "0 \<le> c" "c \<le> 3" and q: "0 \<le> q" "q \<le> 24"
    and a: "0 \<le> a" "a \<le> 3" and t: "0 \<le> t" "t \<le> 364 \<or> a = 3 \<and> t = 365 \<and> (q \<noteq> 24 \<or> c = 3)"
    using era_parts [OF assms(1,2)] by blast
  have t365: "t \<le> 365" "a * 365 + t \<le> 1460" using a t by auto
  define e where "e = (if 1460 \<le> 24 * c + q + 365 * a + t then 1 else 0 :: int)"
  define last where "last = (if doe = 146096 then 1 else 0 :: int)"
  have d1: "doe div 1460 = 25 * c + q + e"
    by (rule int_div_pos_eq [of _ _ _ "24 * c + q + 365 * a + t - 1460 * e"]) (use d c q a t(1) t365 in \<open>auto simp: e_def\<close>)
  have d2: "doe div 36524 = c + last"
  proof (cases "doe = 146096")
    case True
    then have "c = 3" using d c q t365 by auto
    then show ?thesis using True by (simp add: last_def)
  next
    case False
    have "1461 * q + 365 * a + t < 36524"
      using False assms(2) d c q a t by (auto simp: less_le)
    then show ?thesis using False
      by (intro int_div_pos_eq [of _ _ _ "1461 * q + 365 * a + t"]) (use d q a t in \<open>auto simp: last_def\<close>)
  qed
  have d3: "doe div 146096 = last"
    using assms(1,2) by (cases "doe = 146096") (auto simp: last_def)
  have yoe: "yoe = 100 * c + 4 * q + a"
    unfolding assms(3) d1 d2 d3
    by (rule int_div_pos_eq [of _ _ _ "t - e"]) (use d c q a t in \<open>auto simp: e_def\<close>)
  have y4: "yoe div 4 = 25 * c + q"
    by (rule int_div_pos_eq [of _ _ _ a]) (use yoe a in simp_all)
  have y100: "yoe div 100 = c"
    by (rule int_div_pos_eq [of _ _ _ "4 * q + a"]) (use yoe q a in simp_all)
  have ys: "year_start yoe = 36524 * c + 1461 * q + 365 * a"
    by (simp add: year_start_def y4 y100) (simp add: yoe)
  show "0 \<le> yoe" "yoe < 400" using yoe c q a by simp_all
  show "year_start yoe \<le> doe" "doe - year_start yoe \<le> 365" using ys d t t365 by simp_all
  have "leap (yoe + 1)" if t: "t = 365" "a = 3" "q \<noteq> 24 \<or> c = 3"
  proof -
    have y1: "yoe + 1 = 100 * c + 4 * (q + 1)" using yoe t(2) by simp
    have "(yoe + 1) mod 4 = 0" unfolding y1 by presburger
    moreover have "(yoe + 1) mod 400 = 0" if "q = 24" using y1 that t(3) by simp
    moreover have "(yoe + 1) mod 100 \<noteq> 0" if "q \<noteq> 24"
    proof -
      have "(yoe + 1) mod 100 = 4 * (q + 1)"
        by (rule int_mod_pos_eq [of _ _ c]) (use y1 q that in simp_all)
      then show ?thesis using q by simp
    qed
    ultimately show ?thesis by (cases "q = 24") (simp_all add: leap_def)
  qed
  then show "doe - year_start yoe = 365 \<longrightarrow> leap (yoe + 1)" using ys d t by auto
qed

section \<open>The month\<close>

definition month_start :: "int \<Rightarrow> int" where
  "month_start mp = (153 * mp + 2) div 5"

lemma month_start_vals:
  "month_start 0 = 0" "month_start 1 = 31" "month_start 2 = 61" "month_start 3 = 92" "month_start 4 = 122"
  "month_start 5 = 153" "month_start 6 = 184" "month_start 7 = 214" "month_start 8 = 245" "month_start 9 = 275"
  "month_start 10 = 306" "month_start 11 = 337"
  by (simp_all add: month_start_def)

lemma month_part:
  fixes doy :: int
  assumes "0 \<le> doy" and "doy \<le> 365"
  defines "mp \<equiv> (5 * doy + 2) div 153"
  defines "m \<equiv> if mp < 10 then mp + 3 else mp - 9"
  shows "0 \<le> mp" "mp \<le> 11" "1 \<le> m" "m \<le> 12" "month_start mp \<le> doy"
    "doy - month_start mp < (if m = 2 then 29 else month_len lp m)" "m = 2 \<and> doy - month_start mp = 28 \<longrightarrow> doy = 365"
    "before_month lp m = (if m \<le> 2 then month_start mp - 306 else month_start mp + 59 + (if lp then 1 else 0))"
proof -
  have b: "153 * mp \<le> 5 * doy + 2" "5 * doy + 2 < 153 * mp + 153"
    using div_bounds [of 153 "5 * doy + 2"] by (simp_all add: mp_def)
  have r: "0 \<le> mp" "mp \<le> 11" using b assms(1,2) by simp_all
  then have "mp = 0 \<or> mp = 1 \<or> mp = 2 \<or> mp = 3 \<or> mp = 4 \<or> mp = 5 \<or> mp = 6 \<or> mp = 7 \<or> mp = 8 \<or> mp = 9 \<or> mp = 10 \<or> mp = 11"
    by presburger
  then have "1 \<le> m \<and> m \<le> 12 \<and> month_start mp \<le> doy \<and> doy - month_start mp < (if m = 2 then 29 else month_len lp m)
    \<and> (m = 2 \<and> doy - month_start mp = 28 \<longrightarrow> doy = 365)
    \<and> before_month lp m = (if m \<le> 2 then month_start mp - 306 else month_start mp + 59 + (if lp then 1 else 0))"
    using b assms(2)
    by (elim disjE; simp add: m_def month_start_vals month_len_def before_month_vals)
  with r show "0 \<le> mp" "mp \<le> 11" "1 \<le> m" "m \<le> 12" "month_start mp \<le> doy"
    "doy - month_start mp < (if m = 2 then 29 else month_len lp m)" "m = 2 \<and> doy - month_start mp = 28 \<longrightarrow> doy = 365"
    "before_month lp m = (if m \<le> 2 then month_start mp - 306 else month_start mp + 59 + (if lp then 1 else 0))"
    by blast+
qed

section \<open>The date\<close>

lemma leaps_era: "leaps (y + 400 * e) = leaps y + 97 * e"
proof -
  have "(y + 400 * e) div 4 = y div 4 + 100 * e" "(y + 400 * e) div 100 = y div 100 + 4 * e"
    "(y + 400 * e) div 400 = y div 400 + e"
    using div_mult_self2 [of 4 y "100 * e"] div_mult_self2 [of 100 y "4 * e"] by simp_all
  then show ?thesis by (simp add: leaps_def)
qed

lemma leap_era: "leap (y + 400 * e) = leap y"
proof -
  have "(y + 400 * e) mod 4 = y mod 4" "(y + 400 * e) mod 100 = y mod 100"
    using mod_mult_self2 [of y 4 "100 * e"] mod_mult_self2 [of y 100 "4 * e"] by simp_all
  then show ?thesis by (simp add: leap_def)
qed

text \<open>What the code computes from the days since 1970.\<close>

definition civil_of :: "int \<Rightarrow> cdate" where
  "civil_of days =
     (let z = days + 719468; era = z div 146097; doe = z mod 146097;
          yoe = (doe - doe div 1460 + doe div 36524 - doe div 146096) div 365;
          doy = doe - year_start yoe; mp = (5 * doy + 2) div 153; m = (if mp < 10 then mp + 3 else mp - 9)
      in CDate (if m \<le> 2 then yoe + 400 * era + 1 else yoe + 400 * era) m (doy - month_start mp + 1))"

lemma civil_of_date: "civil_of days = date_of_day days"
proof -
  define z where "z = days + 719468"
  define era where "era = z div 146097"
  define doe where "doe = z mod 146097"
  define yoe where "yoe = (doe - doe div 1460 + doe div 36524 - doe div 146096) div 365"
  define doy where "doy = doe - year_start yoe"
  define mp where "mp = (5 * doy + 2) div 153"
  define m where "m = (if mp < 10 then mp + 3 else mp - 9)"
  define Y where "Y = yoe + 400 * era"
  define y where "y = (if m \<le> 2 then Y + 1 else Y)"
  have doe: "0 \<le> doe" "doe < 146097" and z: "z = 146097 * era + doe" by (simp_all add: doe_def era_def)
  note yc = yoe_correct [OF doe, folded yoe_def]
  have doy: "0 \<le> doy" "doy \<le> 365" using yc(3,4) by (simp_all add: doy_def)
  note mc = month_part [OF doy, folded mp_def, folded m_def]
  have "Y + 1 = yoe + 1 + 400 * era" by (simp add: Y_def)
  then have "leap (Y + 1) = leap (yoe + 1)" using leap_era [of "yoe + 1" era] by (simp only:)
  then have "doy = 365 \<longrightarrow> leap (Y + 1)" using yc(5) by (simp add: doy_def)
  then have "doy - month_start mp + 1 \<le> month_len (leap y) m"
    using mc(6) [of "leap y"] mc(7) by (cases "m = 2") (auto simp: y_def month_len_def split: if_splits)
  then have v: "valid_date (CDate y m (doy - month_start mp + 1))"
    using mc(3,4,5) by (simp add: valid_date_def)
  have ly: "leaps Y = yoe div 4 - yoe div 100 + 97 * era"
    using yc(1,2) leaps_era [of yoe era] by (simp add: Y_def leaps_def)
  have "before_year y + before_month (leap y) m = 365 * Y + leaps Y - 306 + month_start mp"
  proof (cases "m \<le> 2")
    case True
    then show ?thesis using mc(8) by (simp add: y_def before_year_def)
  next
    case False
    then show ?thesis using mc(8) leaps_step [of Y] by (simp add: y_def before_year_def)
  qed
  then have "epoch_day (CDate y m (doy - month_start mp + 1)) = 365 * Y + leaps Y - 306 + doy - 719162"
    by (simp add: epoch_day_def)
  also have "\<dots> = days"
    using z unfolding ly doy_def year_start_def z_def by (simp add: Y_def)
  finally have e: "epoch_day (CDate y m (doy - month_start mp + 1)) = days" .
  have "civil_of days = CDate y m (doy - month_start mp + 1)"
    by (simp only: civil_of_def Let_def z_def [symmetric] era_def [symmetric] doe_def [symmetric] yoe_def [symmetric]
        doy_def [symmetric] mp_def [symmetric] m_def [symmetric] Y_def [symmetric] y_def [symmetric])
  then show ?thesis using date_of_day_eq [OF v] e by simp
qed

lemma rtc_civil_eq:
  "rtc_civil_from_unix secs =
    (let d = date_of_day (secs div 86400) in
     if cyear d < 1 \<or> 9999 < cyear d then None else Some (dt_of_tm (gmtime secs) 0))"
proof -
  define z where "z = secs div 86400 + 719468"
  define doe where "doe = z mod 146097"
  define yoe where "yoe = (doe - doe div 1460 + doe div 36524 - doe div 146096) div 365"
  define doy where "doy = doe - year_start yoe"
  define mp where "mp = (5 * doy + 2) div 153"
  define r where "r = secs mod 86400"
  have doe: "0 \<le> doe" "doe < 146097" by (simp_all add: doe_def)
  have r: "0 \<le> r" by (simp add: r_def)
  note yc = yoe_correct [OF doe, folded yoe_def]
  have doy: "0 \<le> doy" "doy \<le> 365" using yc(3,4) by (simp_all add: doy_def)
  note mc = month_part [OF doy, folded mp_def]
  note fl = floor_split [of 86400 secs]
  have ys: "365 * yoe + yoe sdiv 4 - yoe sdiv 100 = year_start yoe" using yc(1) by (simp add: year_start_def sdiv_pos)
  have yd: "(doe - doe sdiv 1460 + doe sdiv 36524 - doe sdiv 146096) sdiv 365 = yoe"
  proof -
    have "doe div 1460 \<le> doe" using div_bounds [of 1460 doe] doe by simp
    moreover have "doe div 146096 \<le> doe div 36524" using doe by (intro zdiv_mono2) simp_all
    ultimately show ?thesis using doe by (simp add: sdiv_pos yoe_def)
  qed
  have md: "(5 * doy + 2) sdiv 153 = mp" "(153 * mp + 2) sdiv 5 = month_start mp"
    using doy mc(1) by (simp_all add: sdiv_pos mp_def month_start_def)
  have de: "z - z div 146097 * 146097 = doe" by (simp add: doe_def minus_div_mult_eq_mod)
  have rs: "r sdiv 3600 = r div 3600" "r smod 3600 sdiv 60 = r mod 3600 div 60" "r smod 60 = r mod 60"
    using r by (simp_all add: sdiv_pos smod_pos)
  have "civil_of (secs div 86400) = CDate (if (if mp < 10 then mp + 3 else mp - 9) \<le> 2 then yoe + 400 * (z div 146097) + 1
      else yoe + 400 * (z div 146097)) (if mp < 10 then mp + 3 else mp - 9) (doy - month_start mp + 1)"
    by (simp only: civil_of_def Let_def z_def [symmetric] doe_def [symmetric] yoe_def [symmetric] doy_def [symmetric] mp_def [symmetric])
  then have d: "date_of_day (secs div 86400) = CDate (if (if mp < 10 then mp + 3 else mp - 9) \<le> 2 then yoe + z div 146097 * 400 + 1
      else yoe + z div 146097 * 400) (if mp < 10 then mp + 3 else mp - 9) (doy - month_start mp + 1)"
    by (simp only: civil_of_date mult.commute)
  have g: "dt_of_tm (gmtime secs) 0 = (let d = date_of_day (secs div 86400) in
     \<lparr>dt_year = word_of_int (cyear d), dt_month = word_of_int (cmonth d), dt_day = word_of_int (cday d),
      dt_hour = word_of_int (r div 3600), dt_minute = word_of_int (r mod 3600 div 60), dt_second = word_of_int (r mod 60), dt_us = 0\<rparr>)"
    by (simp add: dt_of_tm_def gmtime_def Let_def r_def)
  show ?thesis
    unfolding g d Let_def cdate.sel
    unfolding rtc_civil_from_unix_def Let_def fl [simplified] r_def [symmetric] z_def [symmetric] era_floor de yd
      ys doy_def [symmetric] md rs
    by (simp only:)
qed

end
