(* ===== verification/RtcShims.thy ===== *)
theory RtcShims
  imports Rtc
begin

text \<open>
  The guest calls of the clock library: arguments from registers and guest memory, results in
  guest memory and \<open>rax\<close>. A null guest address is a null pointer.
\<close>

section \<open>Structures in guest memory\<close>

definition dt_bytes :: "date_time \<Rightarrow> u8 list" where
  "dt_bytes d = le_bytes 2 (dt_year d) @ le_bytes 2 (dt_month d) @ le_bytes 2 (dt_day d) @ le_bytes 2 (dt_hour d)
     @ le_bytes 2 (dt_minute d) @ le_bytes 2 (dt_second d) @ le_bytes 4 (dt_us d)"

definition rd_dt :: "guest_mem \<Rightarrow> u64 \<Rightarrow> date_time" where
  "rd_dt m a =
     \<lparr>dt_year = of_le (rd_bytes m a 2), dt_month = of_le (rd_bytes m (a + 2) 2), dt_day = of_le (rd_bytes m (a + 4) 2),
      dt_hour = of_le (rd_bytes m (a + 6) 2), dt_minute = of_le (rd_bytes m (a + 8) 2),
      dt_second = of_le (rd_bytes m (a + 10) 2), dt_us = of_le (rd_bytes m (a + 12) 4)\<rparr>"

definition tick_at :: "guest_mem \<Rightarrow> u64 \<Rightarrow> u64 option" where
  "tick_at m a = (if a = 0 then None else Some (rd_u64 m a))"

definition dt_at :: "guest_mem \<Rightarrow> u64 \<Rightarrow> date_time option" where
  "dt_at m a = (if a = 0 then None else Some (rd_dt m a))"

text \<open>A string ends at its NUL, at the latest at the end of guest memory.\<close>

definition str_at :: "guest_mem \<Rightarrow> u64 \<Rightarrow> string option" where
  "str_at m a = (if a = 0 then None else Some (rd_str m a (unat (mem_size m - a))))"

text \<open>The result code goes to \<open>rax\<close>, the value of a call that succeeds to guest memory.\<close>

definition rtc_store :: "guest_ctx \<Rightarrow> guest_mem \<Rightarrow> u64 \<Rightarrow> ('a \<Rightarrow> u8 list) \<Rightarrow> 'a rtc \<Rightarrow> guest_ctx \<times> guest_mem" where
  "rtc_store c m p f r = (case r of Inl rc \<Rightarrow> (ret_rc c rc, m) | Inr v \<Rightarrow> (ret_rc c 0, wr_bytes m p (f v)))"

definition text_bytes :: "string \<Rightarrow> u8 list" where
  "text_bytes s = str_bytes s @ [0]"

type_synonym rtc_shim = "guest_ctx \<Rightarrow> guest_mem \<Rightarrow> guest_ctx \<times> guest_mem"

section \<open>The calls\<close>

definition shim_sceRtcGetTickResolution :: rtc_shim where
  "shim_sceRtcGetTickResolution c m = (ret_rc c sceRtcGetTickResolution, m)"

definition shim_sceRtcGetCurrentTick :: "host_clock \<Rightarrow> rtc_shim" where
  "shim_sceRtcGetCurrentTick h c m = rtc_store c m (rdi c) (le_bytes 8) (sceRtcGetCurrentTick h (rdi c = 0))"

definition shim_sceRtcGetCurrentClockLocalTime :: "host_clock \<Rightarrow> rtc_shim" where
  "shim_sceRtcGetCurrentClockLocalTime h c m =
     rtc_store c m (rdi c) dt_bytes (sceRtcGetCurrentClockLocalTime h (rdi c = 0))"

definition shim_sceRtcGetCurrentClock :: "host_clock \<Rightarrow> rtc_shim" where
  "shim_sceRtcGetCurrentClock h c m =
     rtc_store c m (rdi c) dt_bytes (sceRtcGetCurrentClock h (rdi c = 0) (ucast (rsi c)))"

definition shim_sceRtcConvertUtcToLocalTime :: "host_clock \<Rightarrow> rtc_shim" where
  "shim_sceRtcConvertUtcToLocalTime h c m =
     rtc_store c m (rsi c) (le_bytes 8) (sceRtcConvertUtcToLocalTime h (tick_at m (rdi c)) (rsi c = 0))"

definition shim_sceRtcGetTick :: "host_clock \<Rightarrow> rtc_shim" where
  "shim_sceRtcGetTick h c m = rtc_store c m (rsi c) (le_bytes 8) (sceRtcGetTick h (dt_at m (rdi c)) (rsi c = 0))"

definition shim_sceRtcSetTick :: "host_clock \<Rightarrow> rtc_shim" where
  "shim_sceRtcSetTick h c m = rtc_store c m (rdi c) dt_bytes (sceRtcSetTick h (rdi c = 0) (tick_at m (rsi c)))"

definition shim_sceRtcGetDayOfWeek :: rtc_shim where
  "shim_sceRtcGetDayOfWeek c m = (ret_rc c (sceRtcGetDayOfWeek (ucast (rdi c)) (ucast (rsi c)) (ucast (rdx c))), m)"

definition shim_sceRtcIsLeapYear :: rtc_shim where
  "shim_sceRtcIsLeapYear c m = (ret_rc c (sceRtcIsLeapYear (ucast (rdi c))), m)"

definition shim_sceRtcGetTime_t :: "host_clock \<Rightarrow> rtc_shim" where
  "shim_sceRtcGetTime_t h c m =
     (if rdi c = 0 \<or> rsi c = 0 then (ret_rc c EINVAL_NEG, m)
      else rtc_store c m (rsi c) (le_bytes 8) (sceRtcGetTime_t h (dt_at m (rdi c)) False))"

definition shim_sceRtcParseDateTime :: "host_clock \<Rightarrow> rtc_shim" where
  "shim_sceRtcParseDateTime h c m =
     (if rdi c = 0 \<or> rsi c = 0 then (ret_rc c EINVAL_NEG, m)
      else rtc_store c m (rdi c) (le_bytes 8) (sceRtcParseDateTime h False (str_at m (rsi c))))"

definition shim_sceRtcGetCurrentNetworkTick :: "host_clock \<Rightarrow> rtc_shim" where
  "shim_sceRtcGetCurrentNetworkTick h c m = shim_sceRtcGetCurrentTick h c m"

definition shim_sceRtcFormatRFC3339 :: "host_clock \<Rightarrow> rtc_shim" where
  "shim_sceRtcFormatRFC3339 h c m =
     (if rdi c = 0 \<or> \<not> mem_mapped m then (ret_rc c EINVAL_NEG, m)
      else rtc_store c m (rdi c) text_bytes (sceRtcFormatRFC3339 h False (tick_at m (rsi c)) (ucast (rdx c))))"

definition shim_sceRtcParseRFC3339 :: "host_clock \<Rightarrow> rtc_shim" where
  "shim_sceRtcParseRFC3339 h c m =
     (if rdi c = 0 \<or> rsi c = 0 \<or> \<not> mem_mapped m then (ret_rc c EINVAL_NEG, m)
      else rtc_store c m (rdi c) (le_bytes 8) (sceRtcParseRFC3339 h False (str_at m (rsi c))))"

definition shim_sceRtcFormatRFC2822 :: "host_clock \<Rightarrow> rtc_shim" where
  "shim_sceRtcFormatRFC2822 h c m =
     rtc_store c m (rdi c) text_bytes (sceRtcFormatRFC2822 h (rdi c = 0) (tick_at m (rsi c)) (ucast (rdx c)))"

definition shim_sceRtcTickAddSeconds :: rtc_shim where
  "shim_sceRtcTickAddSeconds c m =
     rtc_store c m (rdi c) (le_bytes 8) (sceRtcTickAddSeconds (rdi c = 0) (tick_at m (rsi c)) (rdx c))"

definition shim_sceRtcSetTime_t :: "u64 \<Rightarrow> rtc_shim" where
  "shim_sceRtcSetTime_t proc c m =
     rtc_store c m (rdi c) dt_bytes (sceRtcSetTime_t (rdi c = 0) (rsi c) (rtc_compiled_sdk_version proc m))"

definition shim_sceRtcFormatRFC3339LocalTime :: "host_clock \<Rightarrow> rtc_shim" where
  "shim_sceRtcFormatRFC3339LocalTime h c m =
     rtc_store c m (rdi c) text_bytes (sceRtcFormatRFC3339LocalTime h (rdi c = 0) (tick_at m (rsi c)))"

end
