(* ===== verification/RtcProps.thy ===== *)
theory RtcProps
  imports RtcCivil RtcShims
begin

unbundle bit_operations_syntax

text \<open>
  The clock library against the calendar: dates written to guest memory, weekdays, and texts that
  are read back.
\<close>

section \<open>Fields of a date\<close>

lemma small16: "0 \<le> i \<Longrightarrow> i < 65536 \<Longrightarrow> uint (word_of_int i :: u16) = i"
  by (simp add: uint_word_of_int)

lemma gmtime_ranges:
  "1 \<le> tm_mon (gmtime s) + 1" "tm_mon (gmtime s) + 1 \<le> 12" "1 \<le> tm_mday (gmtime s)" "tm_mday (gmtime s) \<le> 31"
  "0 \<le> tm_hour (gmtime s)" "tm_hour (gmtime s) < 24" "0 \<le> tm_min (gmtime s)" "tm_min (gmtime s) < 60"
  "0 \<le> tm_sec (gmtime s)" "tm_sec (gmtime s) < 60"
proof -
  have v: "valid_date (date_of_day (s div 86400))" by (rule date_of_day)
  show "1 \<le> tm_mon (gmtime s) + 1" "tm_mon (gmtime s) + 1 \<le> 12" "1 \<le> tm_mday (gmtime s)"
    using v by (simp_all add: gmtime_def Let_def valid_date_def)
  show "tm_mday (gmtime s) \<le> 31" using v by (auto simp: gmtime_def Let_def valid_date_def month_len_def split: if_splits)
  define r where "r = s mod 86400"
  define q where "q = r mod 3600"
  have r: "0 \<le> r" "r < 86400" and q: "0 \<le> q" "q < 3600" by (simp_all add: r_def q_def)
  have "3600 * (r div 3600) \<le> r" "60 * (q div 60) \<le> q" by (rule div_bounds, simp)+
  then have u: "r div 3600 < 24" "q div 60 < 60" using r q by linarith+
  have l: "0 \<le> r div 3600" "0 \<le> q div 60" using r q by (simp_all add: pos_imp_zdiv_nonneg_iff)
  have g: "tm_hour (gmtime s) = r div 3600" "tm_min (gmtime s) = q div 60" "tm_sec (gmtime s) = r mod 60"
    by (simp_all add: gmtime_def Let_def r_def q_def)
  show "0 \<le> tm_hour (gmtime s)" "tm_hour (gmtime s) < 24" "0 \<le> tm_min (gmtime s)" "tm_min (gmtime s) < 60"
    "0 \<le> tm_sec (gmtime s)" "tm_sec (gmtime s) < 60"
    unfolding g using u l by simp_all
qed

text \<open>A date and a time of day in the year range, and its seconds since 1970.\<close>

definition good_time :: "cdate \<Rightarrow> int \<Rightarrow> int \<Rightarrow> int \<Rightarrow> bool" where
  "good_time d h mi s \<longleftrightarrow> valid_date d \<and> 1 \<le> cyear d \<and> cyear d \<le> 9999 \<and> 0 \<le> h \<and> h < 24 \<and> 0 \<le> mi \<and> mi < 60 \<and> 0 \<le> s \<and> s < 60"

definition unix_secs :: "cdate \<Rightarrow> int \<Rightarrow> int \<Rightarrow> int \<Rightarrow> int" where
  "unix_secs d h mi s = epoch_day d * 86400 + h * 3600 + mi * 60 + s"

definition dt_make :: "cdate \<Rightarrow> int \<Rightarrow> int \<Rightarrow> int \<Rightarrow> date_time" where
  "dt_make d h mi s = \<lparr>dt_year = word_of_int (cyear d), dt_month = word_of_int (cmonth d), dt_day = word_of_int (cday d),
     dt_hour = word_of_int h, dt_minute = word_of_int mi, dt_second = word_of_int s, dt_us = 0\<rparr>"

lemma gmtime_unix_secs:
  assumes "good_time d h mi s"
  shows "dt_of_tm (gmtime (unix_secs d h mi s)) 0 = dt_make d h mi s"
    and "date_of_day (unix_secs d h mi s div 86400) = d"
proof -
  have r: "0 \<le> h * 3600 + mi * 60 + s" "h * 3600 + mi * 60 + s < 86400" using assms by (auto simp: good_time_def)
  have d: "unix_secs d h mi s div 86400 = epoch_day d"
    by (rule int_div_pos_eq [of _ _ _ "h * 3600 + mi * 60 + s"]) (use r in \<open>simp_all add: unix_secs_def\<close>)
  have m: "unix_secs d h mi s mod 86400 = h * 3600 + mi * 60 + s"
    by (rule int_mod_pos_eq [of _ _ "epoch_day d"]) (use r in \<open>simp_all add: unix_secs_def\<close>)
  have "0 \<le> mi * 60 + s" "mi * 60 + s < 3600" using assms by (auto simp: good_time_def)
  then have h: "(h * 3600 + mi * 60 + s) div 3600 = h" "(h * 3600 + mi * 60 + s) mod 3600 = mi * 60 + s"
    by (auto intro!: int_div_pos_eq [of _ _ _ "mi * 60 + s"] int_mod_pos_eq [of _ _ h])
  have "0 \<le> s" "s < 60" using assms by (auto simp: good_time_def)
  then have mi: "(mi * 60 + s) div 60 = mi"
    by (auto intro!: int_div_pos_eq [of _ _ _ s])
  have sec: "(h * 3600 + mi * 60 + s) mod 60 = s"
    using \<open>0 \<le> s\<close> \<open>s < 60\<close> by (auto intro!: int_mod_pos_eq [of _ _ "h * 60 + mi"])
  show dd: "date_of_day (unix_secs d h mi s div 86400) = d"
    unfolding d using assms by (intro date_of_day_eq) (simp add: good_time_def)
  show "dt_of_tm (gmtime (unix_secs d h mi s)) 0 = dt_make d h mi s"
    by (simp add: dt_of_tm_def gmtime_def Let_def dd m h mi sec dt_make_def)
qed

lemma unix_secs_bounds:
  assumes "good_time d h mi s"
  shows "unix_secs d h mi s < 2 ^ 62" "- (2 ^ 62) < unix_secs d h mi s"
  using assms cyear_range [of d] by (auto simp: good_time_def unix_secs_def)

section \<open>Dates in guest memory\<close>

lemma rd_bytes_split: "rd_bytes m a (k + n) = rd_bytes m a k @ rd_bytes m (a + of_nat k) n"
proof -
  have "map (\<lambda>i. mem_bytes m (a + of_nat i)) [k..<k + n] = map (\<lambda>i. mem_bytes m (a + of_nat k + of_nat i)) [0..<n]"
    by (rule nth_equalityI) (simp_all add: add.assoc)
  moreover have "[0..<k + n] = [0..<k] @ [k..<k + n]" by (rule upt_add_eq_append) simp
  ultimately show ?thesis by (simp add: rd_bytes_def)
qed

lemma length_dt_bytes [simp]: "length (dt_bytes d) = 16"
  by (simp add: dt_bytes_def)

lemma rd_wr_dt [simp]: "rd_dt (wr_bytes m a (dt_bytes d)) a = d"
proof -
  let ?m = "wr_bytes m a (dt_bytes d)"
  have "rd_bytes ?m a 16 = dt_bytes d" using rd_wr_bytes [of "dt_bytes d" m a] by simp
  also have "rd_bytes ?m a 16 = rd_bytes ?m a 2 @ rd_bytes ?m (a + 2) 2 @ rd_bytes ?m (a + 4) 2 @ rd_bytes ?m (a + 6) 2
      @ rd_bytes ?m (a + 8) 2 @ rd_bytes ?m (a + 10) 2 @ rd_bytes ?m (a + 12) 4"
    using rd_bytes_split [of ?m a 2 14] rd_bytes_split [of ?m "a + 2" 2 12] rd_bytes_split [of ?m "a + 4" 2 10]
      rd_bytes_split [of ?m "a + 6" 2 8] rd_bytes_split [of ?m "a + 8" 2 6] rd_bytes_split [of ?m "a + 10" 2 4]
    by (simp add: add.assoc)
  finally have "rd_bytes ?m a 2 = le_bytes 2 (dt_year d) \<and> rd_bytes ?m (a + 2) 2 = le_bytes 2 (dt_month d)
      \<and> rd_bytes ?m (a + 4) 2 = le_bytes 2 (dt_day d) \<and> rd_bytes ?m (a + 6) 2 = le_bytes 2 (dt_hour d)
      \<and> rd_bytes ?m (a + 8) 2 = le_bytes 2 (dt_minute d) \<and> rd_bytes ?m (a + 10) 2 = le_bytes 2 (dt_second d)
      \<and> rd_bytes ?m (a + 12) 4 = le_bytes 4 (dt_us d)"
    unfolding dt_bytes_def by (simp add: rd_bytes_def append_eq_append_conv)
  then show ?thesis by (simp add: rd_dt_def of_le_le_bytes)
qed

text \<open>
  \<open>sceRtcSetTime_t\<close> writes the calendar date: for every valid date of the years 1970 to 9999
  and time of day, the call with its number of seconds returns 0 and leaves exactly that date in
  the guest's structure; before SDK 3.0 it does so for the seconds modulo \<open>2 ^ 32\<close>. A negative
  time, for newer titles, and a null pointer are refused and write nothing.
\<close>

theorem rtc_set_time_exact:
  assumes "good_time d h mi s" and "rdi c \<noteq> 0" and "0 \<le> unix_secs d h mi s"
    and "rtc_compiled_sdk_version proc m < 0x3000000 \<longrightarrow> unix_secs d h mi s = sint (rsi c AND 0xffffffff)"
    and "0x3000000 \<le> rtc_compiled_sdk_version proc m \<longrightarrow> rsi c = word_of_int (unix_secs d h mi s)"
  shows "rax (fst (shim_sceRtcSetTime_t proc c m)) = 0
    \<and> rd_dt (snd (shim_sceRtcSetTime_t proc c m)) (rdi c) = dt_make d h mi s
    \<and> (\<forall>c'. rdi c' = 0 \<or> 0x3000000 \<le> rtc_compiled_sdk_version proc m \<and> rsi c' <s 0 \<longrightarrow>
         snd (shim_sceRtcSetTime_t proc c' m) = m
         \<and> rax (fst (shim_sceRtcSetTime_t proc c' m)) = (if rdi c' = 0 then sext64 0x80B50002 else sext64 0x80B50003))"
proof -
  let ?t = "unix_secs d h mi s" and ?sdk = "rtc_compiled_sdk_version proc m"
  note b = unix_secs_bounds [OF assms(1)]
  have civ: "rtc_civil_from_unix ?t = Some (dt_make d h mi s)"
    using gmtime_unix_secs [OF assms(1)] assms(1) by (simp add: rtc_civil_eq Let_def good_time_def)
  have st: "sint (word_of_int ?t :: u64) = ?t"
    using b by (simp add: sint_sbintrunc' signed_take_bit_int_eq_self)
  have "sceRtcSetTime_t False (rsi c) ?sdk = Inr (dt_make d h mi s)"
  proof (cases "?sdk < 0x3000000")
    case True
    then have "\<not> 0x3000000 \<le> ?sdk" by simp
    then show ?thesis using True assms(4) civ by (simp add: sceRtcSetTime_t_def)
  next
    case False
    then have "rsi c = word_of_int ?t" using assms(5) by simp
    moreover have "\<not> (word_of_int ?t :: u64) <s 0" using st assms(3) by (simp add: word_sless_alt)
    ultimately show ?thesis using False civ st by (simp add: sceRtcSetTime_t_def)
  qed
  then show ?thesis
    using assms(2) by (auto simp: shim_sceRtcSetTime_t_def rtc_store_def sceRtcSetTime_t_def)
qed

section \<open>Weekdays and leap years\<close>

text \<open>The table of the code against the days before the month.\<close>

definition sakamoto :: "int \<Rightarrow> int" where
  "sakamoto m = [0, 3, 2, 5, 0, 3, 5, 1, 4, 6, 2, 4] ! nat (m - 1)"

lemma sakamoto_vals:
  "sakamoto 1 = 0" "sakamoto 2 = 3" "sakamoto 3 = 2" "sakamoto 4 = 5" "sakamoto 5 = 0" "sakamoto 6 = 3"
  "sakamoto 7 = 5" "sakamoto 8 = 1" "sakamoto 9 = 4" "sakamoto 10 = 6" "sakamoto 11 = 2" "sakamoto 12 = 4"
  by (simp_all add: sakamoto_def eval_nat_numeral)

lemma sakamoto_month:
  assumes "1 \<le> m" and "m \<le> 12"
  shows "before_month False m
      = sakamoto m + 7 * [0, 4, 8, 12, 17, 21, 25, 30, 34, 38, 43, 47] ! nat (m - 1) + (if m < 3 then 0 else 1)"
    and "0 \<le> sakamoto m" and "sakamoto m \<le> 6"
  by (rule month_cases [OF assms]; simp add: before_month_vals sakamoto_vals eval_nat_numeral)+

lemma weekday_sum:
  assumes "valid_date d"
  defines "y \<equiv> if cmonth d < 3 then cyear d - 1 else cyear d"
  shows "(y + leaps y + sakamoto (cmonth d) + cday d) mod 7 = (epoch_day d + 4) mod 7"
proof -
  let ?m = "cmonth d" and ?Y = "cyear d"
  have m: "1 \<le> ?m" "?m \<le> 12" using assms(1) by (simp_all add: valid_date_def)
  define k :: int where "k = [0, 4, 8, 12, 17, 21, 25, 30, 34, 38, 43, 47] ! nat (?m - 1)"
  have bm: "before_month False ?m = sakamoto ?m + 7 * k + (if ?m < 3 then 0 else 1)"
    unfolding k_def by (rule sakamoto_month [OF m])
  have bl: "before_month lp ?m = before_month False ?m + (if lp \<and> \<not> ?m < 3 then 1 else 0)" for lp
    by (simp add: before_month_def)
  have "epoch_day d + 4 = y + leaps y + sakamoto ?m + cday d + 7 * (52 * y + k - (if ?m < 3 then 102737 else 102789))"
  proof (cases "?m < 3")
    case True
    then show ?thesis using bm bl [of "leap ?Y"] by (simp add: epoch_day_def before_year_def y_def)
  next
    case False
    then show ?thesis using bm bl [of "leap ?Y"] leaps_step [of ?Y]
      by (simp add: epoch_day_def before_year_def y_def algebra_simps)
  qed
  then show ?thesis by (simp only: mod_mult_self2)
qed

text \<open>
  The weekday is the calendar's: for every valid date of the years 1 to a billion
  \<open>sceRtcGetDayOfWeek\<close> gives the number of days since a Sunday modulo 7 (1970-01-01 was a
  Thursday), it refuses every month and day out of range, and \<open>sceRtcIsLeapYear\<close> decides the leap
  years of all \<open>int\<close> years, negative ones included.
\<close>

theorem rtc_weekday_exact:
  "(\<forall>d. valid_date d \<longrightarrow> 1 \<le> cyear d \<longrightarrow> cyear d \<le> 1000000000 \<longrightarrow>
      sint (sceRtcGetDayOfWeek (word_of_int (cyear d)) (word_of_int (cmonth d)) (word_of_int (cday d)))
        = (epoch_day d + 4) mod 7)
   \<and> (\<forall>y m dd. sceRtcGetDayOfWeek y m dd = EINVAL_NEG \<longleftrightarrow> \<not> (1 \<le> sint m \<and> sint m \<le> 12 \<and> 1 \<le> sint dd \<and> sint dd \<le> 31))
   \<and> (\<forall>y. sceRtcIsLeapYear y = (if leap (sint y) then 1 else 0))"
proof (intro conjI allI impI)
  fix d assume v: "valid_date d" and y: "1 \<le> cyear d" "cyear d \<le> 1000000000"
  let ?m = "cmonth d" and ?Y = "cyear d"
  define z where "z = (if ?m < 3 then ?Y - 1 else ?Y)"
  have m: "1 \<le> ?m" "?m \<le> 12" and dd: "1 \<le> cday d" "cday d \<le> 31"
    using v by (auto simp: valid_date_def month_len_def split: if_splits)
  have z: "0 \<le> z" "z \<le> 1000000000" using y by (auto simp: z_def)
  have s: "sint (word_of_int ?m :: i32) = ?m" "sint (word_of_int ?Y :: i32) = ?Y" "sint (word_of_int (cday d) :: i32) = cday d"
    using m y dd by (simp_all add: sint32)
  have l: "z + z sdiv 4 - z sdiv 100 + z sdiv 400 = z + leaps z" using z by (simp add: leaps_def sdiv_pos)
  have lb: "0 \<le> leaps z" "leaps z \<le> 250000000"
  proof -
    have "z div 100 \<le> z div 4" using z by (intro zdiv_mono2) simp_all
    moreover have "0 \<le> z div 400" "z div 400 \<le> z div 100" using z by (simp_all add: pos_imp_zdiv_nonneg_iff zdiv_mono2)
    moreover have "4 * (z div 4) \<le> z" by (rule div_bounds) simp
    ultimately show "0 \<le> leaps z" "leaps z \<le> 250000000" using z unfolding leaps_def by linarith+
  qed
  note sk = sakamoto_month(2,3) [OF m]
  have w: "wrap32 (z + leaps z + sakamoto ?m + cday d) = z + leaps z + sakamoto ?m + cday d"
    using z lb sk dd by (intro wrap32_small) simp_all
  have w1: "wrap32 (?Y - 1) = ?Y - 1" using y by (intro wrap32_small) simp_all
  have "0 \<le> z + leaps z + sakamoto ?m + cday d" using z lb sk dd by simp
  then have r: "(z + leaps z + sakamoto ?m + cday d) smod 7 = (epoch_day d + 4) mod 7"
    using weekday_sum [OF v] by (simp add: smod_pos z_def)
  have "sceRtcGetDayOfWeek (word_of_int ?Y) (word_of_int ?m) (word_of_int (cday d))
      = word_of_int (wrap32 (z + z sdiv 4 - z sdiv 100 + z sdiv 400 + sakamoto ?m + cday d) smod 7)"
    using m dd by (simp add: sceRtcGetDayOfWeek_def word_sless_alt s w1 z_def sakamoto_def Let_def)
  also have "\<dots> = word_of_int ((epoch_day d + 4) mod 7)" unfolding l w r by (rule refl)
  finally have e: "sceRtcGetDayOfWeek (word_of_int ?Y) (word_of_int ?m) (word_of_int (cday d)) = word_of_int ((epoch_day d + 4) mod 7)" .
  have "0 \<le> (epoch_day d + 4) mod 7" "(epoch_day d + 4) mod 7 < 7" by simp_all
  then show "sint (sceRtcGetDayOfWeek (word_of_int ?Y) (word_of_int ?m) (word_of_int (cday d))) = (epoch_day d + 4) mod 7"
    unfolding e by (intro sint32) simp_all
next
  fix y m dd :: i32
  have "(word_of_int (x smod 7) :: i32) \<noteq> - 22" for x
  proof -
    have "\<bar>x smod 7\<bar> < 7"
    proof (cases "0 \<le> x")
      case True
      then show ?thesis by (simp add: smod_pos)
    next
      case False
      then have "x smod 7 = - (- x mod 7)" by (simp add: smod_neg)
      moreover have "0 \<le> - x mod 7" "- x mod 7 < 7" by simp_all
      ultimately show ?thesis by linarith
    qed
    then have "sint (word_of_int (x smod 7) :: i32) = x smod 7" "- 7 < x smod 7" by (auto intro!: sint32)
    then show ?thesis by (auto dest!: arg_cong [of _ _ sint])
  qed
  then show "sceRtcGetDayOfWeek y m dd = EINVAL_NEG \<longleftrightarrow> \<not> (1 \<le> sint m \<and> sint m \<le> 12 \<and> 1 \<le> sint dd \<and> sint dd \<le> 31)"
    by (auto simp: sceRtcGetDayOfWeek_def word_sless_alt Let_def)
next
  fix y :: i32
  have "x smod k = 0 \<longleftrightarrow> x mod k = 0" if "0 < k" for x k :: int
  proof (cases "0 \<le> x")
    case True
    then show ?thesis using that by (simp add: smod_pos)
  next
    case False
    then have "x smod k = - (- x mod k)" using that by (simp add: smod_neg)
    then show ?thesis using pos_mod_bound [OF that, of x] by (simp add: zmod_zminus1_eq_if)
  qed
  then show "sceRtcIsLeapYear y = (if leap (sint y) then 1 else 0)"
    by (simp add: sceRtcIsLeapYear_def leap_def Let_def)
qed

section \<open>Examples\<close>

theorem rtc_weekday_exact_witness:
  "sint (sceRtcGetDayOfWeek (word_of_int 2024) (word_of_int 2) (word_of_int 29)) = 4"
proof -
  have v: "valid_date (CDate 2024 2 29)" by (simp add: valid_date_def month_len_def leap_def)
  have "(epoch_day (CDate 2024 2 29) + 4) mod 7 = 4"
    by (simp add: epoch_day_def before_month_vals before_year_def leaps_def leap_def)
  then show ?thesis using rtc_weekday_exact [THEN conjunct1, rule_format, OF v] by simp
qed

definition ex_call :: guest_ctx where
  "ex_call = \<lparr>rax = 0, rcx = 0, rdx = 0, rbx = 0, rsp = 0, rbp = 0, rsi = 951827696, rdi = 16, r8 = 0, r9 = 0, r10 = 0,
     r11 = 0, rip = 0, fs_base = 0, cf = 0, zf = 0, sf = 0, ovf = 0, pf = 0, af = 0, fpu_stack = [], fpu_top = 0, thread_id = 0\<rparr>"

definition ex_mem :: guest_mem where
  "ex_mem = \<lparr>mem_mapped = True, mem_size = 4096, mem_bytes = \<lambda>a. 0\<rparr>"

theorem rtc_set_time_exact_witness:
  "rd_dt (snd (shim_sceRtcSetTime_t 0 ex_call ex_mem)) 16
    = \<lparr>dt_year = 2000, dt_month = 2, dt_day = 29, dt_hour = 12, dt_minute = 34, dt_second = 56, dt_us = 0\<rparr>"
proof -
  have g: "good_time (CDate 2000 2 29) 12 34 56" by (simp add: good_time_def valid_date_def month_len_def leap_def)
  have u: "unix_secs (CDate 2000 2 29) 12 34 56 = 951827696"
    by (simp add: unix_secs_def epoch_day_def before_month_vals before_year_def leaps_def leap_def)
  have s: "rtc_compiled_sdk_version 0 ex_mem = 0xffffffff" by (simp add: rtc_compiled_sdk_version_def)
  have "rd_dt (snd (shim_sceRtcSetTime_t 0 ex_call ex_mem)) (rdi ex_call) = dt_make (CDate 2000 2 29) 12 34 56"
    by (rule rtc_set_time_exact [OF g, THEN conjunct2, THEN conjunct1]) (simp_all add: u s ex_call_def)
  then show ?thesis by (simp add: ex_call_def dt_make_def)
qed

end
