(* ===== verification/RtcText.thy ===== *)
theory RtcText
  imports RtcProps
begin

unbundle bit_operations_syntax

text \<open>
  RFC 3339 texts: what the formatter writes fits its buffer and is read back by the parser.
\<close>

section \<open>The text of a time\<close>

text \<open>The two parts of the text of a date with a fraction.\<close>

definition day_text :: "date_time \<Rightarrow> string" where
  "day_text d = fmt0 4 (uint (dt_year d)) @ ''-'' @ fmt0 2 (uint (dt_month d)) @ ''-'' @ fmt0 2 (uint (dt_day d))"

definition clock_text :: "date_time \<Rightarrow> int \<Rightarrow> string" where
  "clock_text d us = ''T'' @ fmt0 2 (uint (dt_hour d)) @ '':'' @ fmt0 2 (uint (dt_minute d)) @ '':''
     @ fmt0 2 (uint (dt_second d)) @ ''.'' @ fmt0 2 (us div 10000)"

definition zone_text :: "int \<Rightarrow> string" where
  "zone_text tz = (if tz = 0 then ''Z'' else (if tz < 0 then ''-'' else ''+'')
     @ fmt0 2 (\<bar>tz\<bar> div 60) @ '':'' @ fmt0 2 (\<bar>tz\<bar> mod 60))"

definition dt_small :: "date_time \<Rightarrow> bool" where
  "dt_small d \<longleftrightarrow> uint (dt_year d) < 10000 \<and> uint (dt_month d) < 100 \<and> uint (dt_day d) < 100 \<and> uint (dt_hour d) < 100
     \<and> uint (dt_minute d) < 100 \<and> uint (dt_second d) < 100"

lemma day_text_length: "dt_small d \<Longrightarrow> length (day_text d) = 10"
  by (simp add: day_text_def dt_small_def fmt_lengths)

lemma clock_text_length: "dt_small d \<Longrightarrow> 0 \<le> us \<Longrightarrow> us < 1000000 \<Longrightarrow> length (clock_text d us) = 12"
  by (simp add: clock_text_def dt_small_def fmt_lengths pos_imp_zdiv_nonneg_iff)

lemma zone_text_length: "\<bar>tz\<bar> < 6000 \<Longrightarrow> length (zone_text tz) = (if tz = 0 then 1 else 6)"
  by (simp add: zone_text_def fmt_lengths pos_imp_zdiv_nonneg_iff)

lemma gmtime_small:
  assumes "rtc_civil_from_unix s = Some d"
  shows "dt_small d" and "dt_us d = 0"
proof -
  let ?c = "date_of_day (s div 86400)"
  have d: "d = dt_of_tm (gmtime s) 0" and y: "1 \<le> cyear ?c" "cyear ?c \<le> 9999"
    using assms by (auto simp: rtc_civil_eq Let_def split: if_splits)
  have ty: "tm_year (gmtime s) + 1900 = cyear ?c" by (simp add: gmtime_def Let_def)
  note g = gmtime_ranges [of s]
  have "uint (dt_year d) = cyear ?c" unfolding d dt_of_tm_def date_time.simps ty using y by (intro small16) simp_all
  moreover have "uint (dt_month d) = tm_mon (gmtime s) + 1" "uint (dt_day d) = tm_mday (gmtime s)" "uint (dt_hour d) = tm_hour (gmtime s)"
    "uint (dt_minute d) = tm_min (gmtime s)" "uint (dt_second d) = tm_sec (gmtime s)"
    unfolding d dt_of_tm_def date_time.simps by (rule small16; use g in linarith)+
  ultimately show "dt_small d" using y g by (simp add: dt_small_def)
  show "dt_us d = 0" by (simp add: d dt_of_tm_def)
qed

lemma sint_zone:
  fixes tz :: i32
  assumes "\<bar>sint tz\<bar> < 6000"
  shows "(if tz <s 0 then wrap32 (- sint tz) else sint tz) = \<bar>sint tz\<bar>"
  using assms by (auto simp: word_sless_alt wrap32_small)

lemma zone_code:
  fixes tz :: i32
  assumes "\<bar>sint tz\<bar> < 6000"
  shows "(if tz = 0 then ''Z'' else take 6 ((if tz <s 0 then ''-'' else ''+'') @ fmt0 2 (\<bar>sint tz\<bar> sdiv 60 smod 100) @ '':'' @ fmt0 2 (\<bar>sint tz\<bar> smod 60)))
    = zone_text (sint tz)"
proof -
  let ?a = "\<bar>sint tz\<bar>"
  have q: "?a div 60 < 100" using div_bounds [of 60 ?a] assms by linarith
  have e: "?a sdiv 60 smod 100 = ?a div 60" "?a smod 60 = ?a mod 60"
    using q by (simp_all add: sdiv_pos smod_pos pos_imp_zdiv_nonneg_iff)
  have z: "tz = 0 \<longleftrightarrow> sint tz = 0" by (metis signed_0 word_eq_iff_signed)
  have "length ((if sint tz < 0 then ''-'' else ''+'') @ fmt0 2 (?a div 60) @ '':'' @ fmt0 2 (?a mod 60)) = 6"
    using q by (simp add: fmt_lengths pos_imp_zdiv_nonneg_iff)
  then show ?thesis unfolding e by (simp add: zone_text_def z word_sless_alt)
qed

lemma format_text:
  assumes "0 \<le> us" and "us < 1000000" and "\<bar>sint tz\<bar> < 6000"
    and "rtc_civil_from_unix (s + sint tz * 60) = Some d"
  shows "ps4_rtc_format_rfc3339 (s * 1000000 + us) tz = Inr (day_text d @ clock_text d us @ zone_text (sint tz))"
proof -
  let ?u = "s * 1000000 + us"
  have f: "?u mod 1000000 = us" "?u div 1000000 = s"
    by (rule int_mod_pos_eq [of _ _ s] int_div_pos_eq [of _ _ _ us]; use assms(1,2) in simp)+
  note fl = floor_split [of 1000000 ?u, simplified f, simplified]
  have u: "us sdiv 10000 = us div 10000" using assms(1) by (simp add: sdiv_pos)
  have l: "length (day_text d @ clock_text d us) = 22"
    using day_text_length clock_text_length gmtime_small(1) [OF assms(4)] assms(1,2) by simp
  then have t: "take 28 (day_text d @ clock_text d us) = day_text d @ clock_text d us" by simp
  have b: "fmt0 4 (uint (dt_year d)) @ ''-'' @ fmt0 2 (uint (dt_month d)) @ ''-'' @ fmt0 2 (uint (dt_day d))
       @ ''T'' @ fmt0 2 (uint (dt_hour d)) @ '':'' @ fmt0 2 (uint (dt_minute d)) @ '':''
       @ fmt0 2 (uint (dt_second d)) @ ''.'' @ fmt0 2 (us div 10000) = day_text d @ clock_text d us"
    by (simp add: day_text_def clock_text_def)
  show ?thesis
    unfolding ps4_rtc_format_rfc3339_def Let_def fl
    by (simp only: assms(4) option.case u b t sint_zone [OF assms(3)] zone_code [OF assms(3)] append_assoc)
qed

section \<open>Reading it back\<close>

lemma scan_text:
  assumes "rest = [] \<or> \<not> is_digit (hd rest)"
  shows "scan_ds [None, Some CHR 0x2D, Some CHR 0x2D, Some CHR 0x54, Some CHR 0x3A, Some CHR 0x3A]
      (day_text d @ ''T'' @ fmt0 2 (uint (dt_hour d)) @ '':'' @ fmt0 2 (uint (dt_minute d)) @ '':''
        @ fmt0 2 (uint (dt_second d)) @ rest)
    = Some [uint (dt_year d), uint (dt_month d), uint (dt_day d), uint (dt_hour d), uint (dt_minute d), uint (dt_second d)]"
  using assms by (simp add: day_text_def scan_ds_fmt0 is_digit_def del: scan_ds.simps(2))

lemma dropWhile_first: "\<forall>x \<in> set xs. P x \<Longrightarrow> \<not> P y \<Longrightarrow> dropWhile P (xs @ y # ys) = y # ys"
  by (induction xs) simp_all

lemma clock_plain:
  assumes "0 \<le> us"
  shows "\<forall>c \<in> set (clock_text d us). c \<notin> {CHR 0x5A, CHR 0x2B, CHR 0x2D}"
proof -
  have f: "c \<notin> {CHR 0x5A, CHR 0x2B, CHR 0x2D}" if "c \<in> set (fmt0 2 i)" "0 \<le> i" for c i
    using fmt0_digits [OF that(2), of 2] that(1) digit_plain [of c] by auto
  have u: "0 \<le> us div 10000" using assms by (simp add: pos_imp_zdiv_nonneg_iff)
  show ?thesis unfolding clock_text_def using f [OF _ u] f [OF _ uint_ge_0] by auto
qed

lemma zone_scan:
  assumes "\<bar>z\<bar> < 6000"
  shows "scan_ds [None] (fmt0 2 (\<bar>z\<bar> div 60) @ '':'' @ fmt0 2 (\<bar>z\<bar> mod 60)) = Some [\<bar>z\<bar> div 60]"
    and "scan_ds [None, Some CHR 0x3A] (fmt0 2 (\<bar>z\<bar> div 60) @ '':'' @ fmt0 2 (\<bar>z\<bar> mod 60)) = Some [\<bar>z\<bar> div 60, \<bar>z\<bar> mod 60]"
proof -
  have q: "0 \<le> \<bar>z\<bar> div 60" "0 \<le> \<bar>z\<bar> mod 60" by (simp_all add: pos_imp_zdiv_nonneg_iff)
  note a = scan_ds_fmt0(2) [OF q(1), of "'':'' @ fmt0 2 (\<bar>z\<bar> mod 60)", where w = 2]
  show "scan_ds [None] (fmt0 2 (\<bar>z\<bar> div 60) @ '':'' @ fmt0 2 (\<bar>z\<bar> mod 60)) = Some [\<bar>z\<bar> div 60]"
    using a [of "[]"] by (simp add: is_digit_def)
  show "scan_ds [None, Some CHR 0x3A] (fmt0 2 (\<bar>z\<bar> div 60) @ '':'' @ fmt0 2 (\<bar>z\<bar> mod 60)) = Some [\<bar>z\<bar> div 60, \<bar>z\<bar> mod 60]"
    using a [of "[Some CHR 0x3A]"] scan_ds_fmt0(1) [OF q(2), of "[]" "CHR 0x3A" "[]" 2]
    by (simp add: is_digit_def del: scan_ds.simps(2))
qed

lemma zone_read:
  assumes "dt_small d" and "0 \<le> us" and "\<bar>z\<bar> < 6000"
  shows "rfc3339_zone (day_text d @ clock_text d us @ zone_text z) = (if z = 0 then None else Some (word_of_int (z * 60)))"
proof -
  have dr: "drop 10 (day_text d @ clock_text d us @ zone_text z) = clock_text d us @ zone_text z"
    using day_text_length [OF assms(1)] by simp
  define P where "P = (\<lambda>c. c \<notin> {CHR 0x5A, CHR 0x2B, CHR 0x2D})"
  have pl: "\<forall>c \<in> set (clock_text d us). P c" using clock_plain [OF assms(2), of d] by (simp add: P_def)
  show ?thesis
  proof (cases "z = 0")
    case True
    then have "dropWhile P (clock_text d us @ zone_text z) = CHR 0x5A # []"
      using dropWhile_first [OF pl, of "CHR 0x5A" "[]"] by (simp add: zone_text_def P_def)
    then show ?thesis using True unfolding rfc3339_zone_def dr P_def by simp
  next
    case False
    define c where "c = (if z < 0 then CHR 0x2D else CHR 0x2B)"
    define body where "body = fmt0 2 (\<bar>z\<bar> div 60) @ '':'' @ fmt0 2 (\<bar>z\<bar> mod 60)"
    have zt: "zone_text z = c # body" using False by (simp add: zone_text_def c_def body_def)
    have dw: "dropWhile P (clock_text d us @ zone_text z) = c # body"
      unfolding zt by (rule dropWhile_first [OF pl]) (simp add: P_def c_def)
    have b: "(\<bar>z\<bar> div 60 * 60 + \<bar>z\<bar> mod 60) * 60 = \<bar>z\<bar> * 60" by simp
    define hh mm where "hh = \<bar>z\<bar> div 60" and "mm = \<bar>z\<bar> mod 60"
    have w: "wrap32 ((hh * 60 + mm) * 60) = \<bar>z\<bar> * 60"
      unfolding hh_def mm_def b using assms(3) by (intro wrap32_small) simp_all
    note zs = zone_scan [OF assms(3), folded hh_def mm_def]
    have "rfc3339_zone (day_text d @ clock_text d us @ zone_text z)
        = Some (if c = CHR 0x2B then word_of_int (\<bar>z\<bar> * 60) else - word_of_int (\<bar>z\<bar> * 60))"
      unfolding rfc3339_zone_def dr using dw zs w
      unfolding P_def body_def [folded hh_def mm_def, symmetric] by (simp add: c_def Let_def del: scan_ds.simps of_int_mult)
    also have "(if c = CHR 0x2B then word_of_int (\<bar>z\<bar> * 60) else - word_of_int (\<bar>z\<bar> * 60)) = (word_of_int (z * 60) :: u64)"
      by (simp add: c_def)
    finally show ?thesis using False by simp
  qed
qed


text \<open>A host two hours east of UTC: the tick that is read back is two hours early.\<close>

definition ex_clock :: host_clock where
  "ex_clock = \<lparr>hc_sec = 0, hc_usec = 0, hc_off = \<lambda>s. 7200, hc_mktime = \<lambda>t. 1792413296 - 7200, hc_timegm = \<lambda>t. 1792413296,
     hc_strptime = \<lambda>f s t. (False, t)\<rparr>"


end
