(* ===== verification/MemBudget.thy ===== *)
theory MemBudget
  imports Prelude
begin

unbundle bit_operations_syntax

text \<open>
  GPU memory accounting and budget decisions
  (\<open>modules/libSceGnmDriver/ps4_gnm_membudget.c\<close>): the policies read from environment
  variables, the choice of textures to evict, admission of no-copy buffers, the hysteresis of the
  budget state, the purge back-off, the telemetry rate and the window reference counts.
  A C string argument is \<open>string option\<close>, \<open>None\<close> for NULL. The queries of the Mach
  kernel, which feed these functions, are not part of the model.
\<close>

section \<open>Samples and policies\<close>

record gpumem_sample =
  gs_t_ns :: u64
  gs_wired :: u64
  gs_footprint :: u64
  gs_device :: u64
  gs_nocopy_count :: u64
  gs_nocopy_sum :: u64
  gs_nocopy_distinct :: u64

definition ps4_gpumem_charged :: "gpumem_sample \<Rightarrow> u64" where
  "ps4_gpumem_charged s =
     (let own = if gs_device s > gs_nocopy_sum s then gs_device s - gs_nocopy_sum s else 0
      in own + gs_nocopy_distinct s)"

abbreviation (input) UINT64_MAX :: u64 where "UINT64_MAX \<equiv> - 1"

fun parse_digits :: "u64 \<Rightarrow> string \<Rightarrow> u64" where
  "parse_digits n [] = n"
| "parse_digits n (c # cs) =
     (if of_char c < (48 :: nat) \<or> of_char c > (57 :: nat) then 0
      else if n > (UINT64_MAX - 9) div 10 then 0
      else parse_digits (n * 10 + of_nat (of_char c - 48)) cs)"

definition parse_u64 :: "string option \<Rightarrow> u64" where
  "parse_u64 v = (case v of None \<Rightarrow> 0 | Some s \<Rightarrow> if s = [] then 0 else parse_digits 0 s)"

record gpumem_policy =
  gp_mem_total :: u64
  gp_budget :: u64
  gp_nocopy_warn :: u64
  gp_nocopy_max :: u64
  gp_idle_ns :: u64
  gp_press_ns :: u64

definition ps4_gpumem_policy_init ::
  "u64 \<Rightarrow> string option \<Rightarrow> string option \<Rightarrow> string option \<Rightarrow> gpumem_policy" where
  "ps4_gpumem_policy_init mem_total budget_pct budget_mb idle_s =
     (let mb = parse_u64 budget_mb;
          budget =
            (if mb \<noteq> 0 \<and> mb \<le> drop_bit 20 UINT64_MAX then push_bit 20 mb
             else
               let pct = parse_u64 budget_pct;
                   pct = if pct = 0 then 40 else pct;
                   pct = if pct < 5 then 5 else pct;
                   pct = if pct > 90 then 90 else pct
               in if mem_total \<noteq> 0 then mem_total div 100 * pct else UINT64_MAX);
          idle = (if idle_s \<noteq> None then parse_u64 idle_s else 30);
          idle_zero = (idle_s = Some ''0'')
      in \<lparr> gp_mem_total = mem_total, gp_budget = budget,
           gp_nocopy_warn = push_bit 30 1, gp_nocopy_max = push_bit 30 2,
           gp_idle_ns = (if idle_zero then 0
                         else (if idle \<noteq> 0 then idle else 30) * 1000000000),
           gp_press_ns = 250000000 \<rparr>)"

record texcache_policy =
  tp_budget :: u64
  tp_low_water :: u64
  tp_keep_ns :: u64
  tp_press_ns :: u64

definition ps4_texcache_policy_init ::
  "gpumem_policy \<Rightarrow> string option \<Rightarrow> string option \<Rightarrow> texcache_policy" where
  "ps4_texcache_policy_init gp tex_mb keep_ms =
     (let mb = parse_u64 tex_mb;
          mb_zero = (tex_mb = Some ''0'');
          budget = (if mb_zero then UINT64_MAX
                    else if mb \<noteq> 0 \<and> mb \<le> drop_bit 20 UINT64_MAX then push_bit 20 mb
                    else if gp_budget gp = UINT64_MAX then UINT64_MAX else gp_budget gp div 12);
          low_water = (if budget = UINT64_MAX then UINT64_MAX else budget div 10 * 9);
          keep = (if keep_ms \<noteq> None then parse_u64 keep_ms else 2000);
          keep = (if keep = 0 then 2000 else keep);
          keep = (if keep < 100 then 100 else keep)
      in \<lparr> tp_budget = budget, tp_low_water = low_water, tp_keep_ns = keep * 1000000,
           tp_press_ns = (if gp_press_ns gp < 100000000 then 100000000 else gp_press_ns gp) \<rparr>)"

section \<open>Texture cache eviction\<close>

definition ps4_texcache_evict_due :: "texcache_policy \<Rightarrow> u64 \<Rightarrow> bool \<Rightarrow> bool" where
  "ps4_texcache_evict_due p sampled_bytes gpu_over \<longleftrightarrow> gpu_over \<or> sampled_bytes > tp_budget p"

record texcache_item =
  ti_last_ns :: u64
  ti_last_seq :: u64
  ti_bytes :: u64
  ti_id :: u64

definition texcache_lru_cmp :: "texcache_item \<Rightarrow> texcache_item \<Rightarrow> int" where
  "texcache_lru_cmp x y =
     (if ti_last_ns x \<noteq> ti_last_ns y then (if ti_last_ns x < ti_last_ns y then -1 else 1)
      else if ti_last_seq x \<noteq> ti_last_seq y then (if ti_last_seq x < ti_last_seq y then -1 else 1)
      else if ti_id x < ti_id y then -1 else if ti_id x > ti_id y then 1 else 0)"

text \<open>
  \<open>qsort\<close> of the C library, as an insertion by the comparison function. The standard leaves
  the order of elements that compare equal open; the callers give items distinct ids.
\<close>

fun cmp_insert :: "('a \<Rightarrow> 'a \<Rightarrow> int) \<Rightarrow> 'a \<Rightarrow> 'a list \<Rightarrow> 'a list" where
  "cmp_insert cmp x [] = [x]"
| "cmp_insert cmp x (y # ys) = (if cmp x y \<le> 0 then x # y # ys else y # cmp_insert cmp x ys)"

definition c_qsort :: "('a \<Rightarrow> 'a \<Rightarrow> int) \<Rightarrow> 'a list \<Rightarrow> 'a list" where
  "c_qsort cmp xs = foldr (cmp_insert cmp) xs []"

text \<open>The two tests of the candidate loop.\<close>

definition texcache_candidate :: "u64 \<Rightarrow> u64 \<Rightarrow> u64 \<Rightarrow> texcache_item \<Rightarrow> bool" where
  "texcache_candidate min_age now_ns completed_seq it \<longleftrightarrow>
     \<not> ti_last_seq it > completed_seq \<and>
     \<not> (now_ns < ti_last_ns it \<or> now_ns - ti_last_ns it < min_age)"

text \<open>The loop \<open>for (i = 0; i < n; ++i)\<close> over the array, with the swap \<open>items[i] = items[m]\<close>.\<close>

function texcache_front ::
  "(texcache_item \<Rightarrow> bool) \<Rightarrow> nat \<Rightarrow> nat \<Rightarrow> texcache_item list \<Rightarrow> texcache_item list \<times> nat" where
  "texcache_front cand i m items =
     (if i < length items then
        (let it = items ! i in
         if \<not> cand it then texcache_front cand (Suc i) m items
         else texcache_front cand (Suc i) (Suc m) ((items[i := items ! m])[m := it]))
      else (items, m))"
  by pat_completeness auto
termination by (relation "measure (\<lambda>(_, i, _, items). length items - i)") auto

declare texcache_front.simps [simp del]

text \<open>The loop that takes victims: \<open>vs\<close> is what is left of the candidates.\<close>

fun texcache_take :: "bool \<Rightarrow> u64 \<Rightarrow> u64 \<Rightarrow> u64 \<Rightarrow> texcache_item list \<Rightarrow> nat \<times> u64" where
  "texcache_take gpu_over tot low_water freed [] = (0, freed)"
| "texcache_take gpu_over tot low_water freed (v # vs) =
     (if gpu_over \<or> (freed < tot \<and> tot - freed > low_water)
      then (let (k, f) = texcache_take gpu_over tot low_water (freed + ti_bytes v) vs in (Suc k, f))
      else (0, freed))"

definition ps4_texcache_select ::
  "texcache_item list \<Rightarrow> u64 \<Rightarrow> texcache_policy \<Rightarrow> bool \<Rightarrow> u64 \<Rightarrow> u64 \<Rightarrow>
   texcache_item list \<times> nat \<times> u64" where
  "ps4_texcache_select items tot p gpu_over now_ns completed_seq =
     (if \<not> ps4_texcache_evict_due p tot gpu_over then (items, 0, 0)
      else
        let min_age = (if gpu_over then tp_press_ns p else tp_keep_ns p);
            (items1, m) = texcache_front (texcache_candidate min_age now_ns completed_seq) 0 0 items;
            items2 = c_qsort texcache_lru_cmp (take m items1) @ drop m items1;
            (k, freed) = texcache_take gpu_over tot (tp_low_water p) 0 (take m items2)
        in (items2, k, freed))"

section \<open>Admission of no-copy buffers and release of windows\<close>

datatype gpumem_admit = ADMIT | ADMIT_LARGE | REFUSE_TOO_LARGE | REFUSE_HOLES

definition ps4_gpumem_admit_nocopy :: "gpumem_policy \<Rightarrow> u64 \<Rightarrow> bool \<Rightarrow> gpumem_admit" where
  "ps4_gpumem_admit_nocopy p len has_holes =
     (if len > gp_nocopy_max p then REFUSE_TOO_LARGE
      else if has_holes then REFUSE_HOLES
      else if len > gp_nocopy_warn p then ADMIT_LARGE else ADMIT)"

definition GPUMEM_COPY_MAX :: u64 where "GPUMEM_COPY_MAX = push_bit 20 64"

definition ps4_gpumem_refused_copy :: "gpumem_admit \<Rightarrow> bool \<Rightarrow> u64 \<Rightarrow> bool" where
  "ps4_gpumem_refused_copy adm written sz \<longleftrightarrow>
     adm = REFUSE_HOLES \<and> \<not> written \<and> sz \<le> GPUMEM_COPY_MAX"

definition ps4_gpumem_should_release :: "gpumem_policy \<Rightarrow> u64 \<Rightarrow> u64 \<Rightarrow> bool \<Rightarrow> bool" where
  "ps4_gpumem_should_release p now_ns last_use_ns over_budget =
     (if now_ns < last_use_ns then False
      else let idle = now_ns - last_use_ns in
           if gp_idle_ns p \<noteq> 0 \<and> idle \<ge> gp_idle_ns p then True
           else over_budget \<and> idle \<ge> gp_press_ns p)"

section \<open>Budget state, purge back-off, telemetry rate\<close>

record budget_state =
  bs_over :: bool
  bs_times_over :: u64

definition ps4_gpumem_budget_update ::
  "gpumem_policy \<Rightarrow> u64 \<Rightarrow> budget_state \<Rightarrow> int \<times> budget_state" where
  "ps4_gpumem_budget_update p charged st =
     (if \<not> bs_over st \<and> charged > gp_budget p
      then (1, st\<lparr>bs_over := True, bs_times_over := bs_times_over st + 1\<rparr>)
      else if bs_over st \<and> charged < gp_budget p div 10 * 9 then (-1, st\<lparr>bs_over := False\<rparr>)
      else (0, st))"

record purge_state =
  pu_futile :: u32
  pu_have :: bool
  pu_last_charged :: u64

definition ps4_gpumem_purge_due :: "bool \<Rightarrow> u64 \<Rightarrow> purge_state \<Rightarrow> bool \<times> purge_state" where
  "ps4_gpumem_purge_due over charged st =
     (if \<not> over then (False, st\<lparr>pu_futile := 0, pu_have := False\<rparr>)
      else
        let st = (if pu_have st
                  then (if charged < pu_last_charged st then st\<lparr>pu_futile := 0\<rparr>
                        else st\<lparr>pu_futile := pu_futile st + 1\<rparr>)
                  else st)
        in if pu_futile st \<ge> 10 then (False, st\<lparr>pu_last_charged := charged\<rparr>)
           else (True, st\<lparr>pu_have := True, pu_last_charged := charged\<rparr>))"

record log_state =
  ls_have :: bool
  ls_t_ns :: u64
  ls_last :: gpumem_sample

definition ps4_gpumem_log_due ::
  "gpumem_sample \<Rightarrow> u64 \<Rightarrow> u64 \<Rightarrow> log_state \<Rightarrow> bool \<times> log_state" where
  "ps4_gpumem_log_due s period_ns step st =
     (let now = [gs_wired s, gs_footprint s, gs_device s, gs_nocopy_distinct s];
          l = ls_last st;
          was = [gs_wired l, gs_footprint l, gs_device l, gs_nocopy_distinct l];
          due = \<not> ls_have st \<or> gs_t_ns s - ls_t_ns st \<ge> period_ns
                \<or> list_ex (\<lambda>(n, w). n \<ge> w + step) (zip now was)
      in if \<not> due then (False, st)
         else (True, st\<lparr>ls_have := True, ls_t_ns := gs_t_ns s, ls_last := s\<rparr>))"

section \<open>Reference counts of guest windows\<close>

record gpumem_windows =
  gw_refs :: "u16 list"
  gw_nwin :: u64
  gw_win_size :: u64
  gw_count :: u64
  gw_sum :: u64
  gw_distinct :: u64

definition windows_zero :: gpumem_windows where
  "windows_zero = \<lparr>gw_refs = [], gw_nwin = 0, gw_win_size = 0, gw_count = 0, gw_sum = 0, gw_distinct = 0\<rparr>"

text \<open>\<open>calloc_ok\<close>: the host's answer to the allocation.\<close>

definition ps4_gpumem_windows_init :: "bool \<Rightarrow> u64 \<Rightarrow> u64 \<Rightarrow> bool \<times> gpumem_windows" where
  "ps4_gpumem_windows_init calloc_ok mem_size win_size =
     (let w = windows_zero in
      if win_size = 0 then (False, w)
      else
        let nwin = (mem_size + win_size - 1) div win_size;
            w = w\<lparr>gw_win_size := win_size, gw_nwin := nwin\<rparr>
        in if calloc_ok
           then (True, w\<lparr>gw_refs := replicate (unat (if nwin \<noteq> 0 then nwin else 1)) 0\<rparr>)
           else (False, w))"

definition ps4_gpumem_windows_free :: "gpumem_windows \<Rightarrow> gpumem_windows" where
  "ps4_gpumem_windows_free w = windows_zero"

text \<open>
  The two counting loops \<open>for (i = first_win; i < first_win + n && i < nwin; ++i)\<close>: the bound
  \<open>first_win + n\<close> is computed once, with its wrap-around.
\<close>

lemma u64_step: "i < lim \<Longrightarrow> unat lim - unat (i + 1) < unat lim - unat i" for i lim :: u64
proof -
  assume l: "i < lim"
  then have "unat i < unat lim" by (simp add: word_less_nat_alt)
  moreover have "unat (i + 1) = Suc (unat i)"
  proof -
    have "unat i + 1 < 2 ^ 64" using \<open>unat i < unat lim\<close> u64_lt [of lim] by linarith
    then show ?thesis by (simp add: unat_word_ariths)
  qed
  ultimately show ?thesis by simp
qed

function refs_inc :: "u64 \<Rightarrow> u64 \<Rightarrow> u64 \<Rightarrow> u16 list \<Rightarrow> u64 \<Rightarrow> u16 list \<times> u64" where
  "refs_inc i lim nwin refs newly =
     (if i < lim \<and> i < nwin then
        (let r = refs ! unat i in
         refs_inc (i + 1) lim nwin (refs[unat i := r + 1]) (if r = 0 then newly + 1 else newly))
      else (refs, newly))"
  by pat_completeness auto
termination
  by (relation "measure (\<lambda>(i, lim, _). unat lim - unat i)") (auto simp: u64_step)

function refs_dec :: "u64 \<Rightarrow> u64 \<Rightarrow> u64 \<Rightarrow> u16 list \<Rightarrow> u64 \<Rightarrow> u16 list \<times> u64" where
  "refs_dec i lim nwin refs freed =
     (if i < lim \<and> i < nwin then
        (let r = refs ! unat i in
         if r = 0 then refs_dec (i + 1) lim nwin refs freed
         else refs_dec (i + 1) lim nwin (refs[unat i := r - 1]) (if r - 1 = 0 then freed + 1 else freed))
      else (refs, freed))"
  by pat_completeness auto
termination
  by (relation "measure (\<lambda>(i, lim, _). unat lim - unat i)") (auto simp: u64_step)

declare refs_inc.simps [simp del] refs_dec.simps [simp del]

definition ps4_gpumem_windows_add :: "u64 \<Rightarrow> u64 \<Rightarrow> u64 \<Rightarrow> gpumem_windows \<Rightarrow> gpumem_windows" where
  "ps4_gpumem_windows_add first_win n len w =
     (let (refs, newly) = refs_inc first_win (first_win + n) (gw_nwin w) (gw_refs w) 0
      in w\<lparr>gw_refs := refs, gw_count := gw_count w + 1, gw_sum := gw_sum w + len,
           gw_distinct := gw_distinct w + newly * gw_win_size w\<rparr>)"

definition ps4_gpumem_windows_remove :: "u64 \<Rightarrow> u64 \<Rightarrow> u64 \<Rightarrow> gpumem_windows \<Rightarrow> gpumem_windows" where
  "ps4_gpumem_windows_remove first_win n len w =
     (let (refs, freed) = refs_dec first_win (first_win + n) (gw_nwin w) (gw_refs w) 0;
          fb = freed * gw_win_size w
      in w\<lparr>gw_refs := refs,
           gw_count := (if gw_count w \<noteq> 0 then gw_count w - 1 else 0),
           gw_sum := (if gw_sum w > len then gw_sum w - len else 0),
           gw_distinct := (if gw_distinct w > fb then gw_distinct w - fb else 0)\<rparr>)"

definition ps4_gpumem_windows_read :: "gpumem_windows \<Rightarrow> gpumem_sample \<Rightarrow> gpumem_sample" where
  "ps4_gpumem_windows_read w s =
     s\<lparr>gs_nocopy_count := gw_count w, gs_nocopy_sum := gw_sum w, gs_nocopy_distinct := gw_distinct w\<rparr>"

end
