(* ===== verification/MemBudgetProps.thy ===== *)
theory MemBudgetProps
  imports MemBudget "HOL-Library.Multiset"
begin

text \<open>
  The decisions of the GPU memory budget: which textures the eviction takes, the hysteresis of
  the budget state, the back-off of the purges.
\<close>

section \<open>Sorting by a comparison function\<close>

locale cmp_order =
  fixes cmp :: "'a \<Rightarrow> 'a \<Rightarrow> int"
  assumes cmp_conv: "0 < cmp x y \<Longrightarrow> cmp y x \<le> 0"
    and cmp_trans: "cmp x y \<le> 0 \<Longrightarrow> cmp y z \<le> 0 \<Longrightarrow> cmp x z \<le> 0"
begin

lemma mset_insert: "mset (cmp_insert cmp x ys) = add_mset x (mset ys)"
  by (induction ys) simp_all

lemma mset_qsort: "mset (c_qsort cmp xs) = mset xs"
  by (induction xs) (simp_all add: c_qsort_def mset_insert)

lemma sorted_insert:
  "sorted_wrt (\<lambda>x y. cmp x y \<le> 0) ys \<Longrightarrow> sorted_wrt (\<lambda>x y. cmp x y \<le> 0) (cmp_insert cmp x ys)"
proof (induction ys)
  case (Cons y ys)
  have "set (cmp_insert cmp x ys) = insert x (set ys)"
    using arg_cong [OF mset_insert [of x ys], of set_mset] by simp
  with Cons show ?case
    by (auto simp: not_le intro: cmp_conv cmp_trans)
qed simp

lemma sorted_qsort: "sorted_wrt (\<lambda>x y. cmp x y \<le> 0) (c_qsort cmp xs)"
  by (induction xs) (simp_all add: c_qsort_def sorted_insert)

end

interpretation lru: cmp_order texcache_lru_cmp
  by unfold_locales (auto simp: texcache_lru_cmp_def split: if_splits)

section \<open>The candidate loop\<close>

text \<open>
  After \<open>i\<close> rounds the first \<open>m\<close> places hold the candidates among the first \<open>i\<close> items, in
  their order, and the rest is untouched from \<open>i\<close> on.
\<close>

lemma texcache_front_inv:
  assumes "i \<le> length items" and "take m items = filter cand (take i xs)" and "m \<le> i"
    and "drop i items = drop i xs" and "mset items = mset xs"
  shows "case texcache_front cand i m items of (r, k) \<Rightarrow>
           take k r = filter cand xs \<and> k \<le> length r \<and> mset r = mset xs"
  using assms
proof (induction cand i m items rule: texcache_front.induct)
  case (1 cand i m items)
  have len: "length items = length xs" using 1(7) by (rule mset_eq_length)
  show ?case
  proof (cases "i < length items")
    case False
    with 1(3,4,5,6,7) len show ?thesis
      by (subst texcache_front.simps) auto
  next
    case True
    have at: "items ! i = xs ! i" using 1(6) True len by (metis nth_via_drop Cons_nth_drop_Suc)
    have dr: "drop (Suc i) items = drop (Suc i) xs"
      using arg_cong [OF 1(6), of tl] by (simp add: drop_Suc tl_drop)
    have tk: "take (Suc i) xs = take i xs @ [items ! i]"
      using True len at by (simp add: take_Suc_conv_app_nth)
    show ?thesis
    proof (cases "cand (items ! i)")
      case False
      with 1(1) [OF True refl] 1(4,5,7) dr tk True show ?thesis
        by (subst texcache_front.simps) (simp add: Let_def)
    next
      case cd: True
      let ?i2 = "(items[i := items ! m])[m := items ! i]"
      have a: "take (Suc m) ?i2 = filter cand (take (Suc i) xs)"
      proof -
        have "take (Suc m) ?i2 = take m items @ [items ! i]"
          using 1(5) True by (cases "m = i")
            (auto simp: take_Suc_conv_app_nth take_update_swap list_update_append split: nat.split)
        with 1(4) cd tk show ?thesis by simp
      qed
      have b: "drop (Suc i) ?i2 = drop (Suc i) xs"
        using 1(5) dr by (simp add: drop_update_swap)
      have c: "mset ?i2 = mset xs"
        using mset_swap [of m items i] 1(5,7) True by (simp add: list_update_swap)
      show ?thesis
        using 1(2) [OF True refl] cd a b c 1(5) True
        by (subst texcache_front.simps) (simp add: Let_def)
    qed
  qed
qed

lemma texcache_front_all:
  "case texcache_front cand 0 0 xs of (r, k) \<Rightarrow>
     take k r = filter cand xs \<and> k \<le> length r \<and> mset r = mset xs"
  by (rule texcache_front_inv) simp_all

section \<open>The victims\<close>

abbreviation bytes_of :: "texcache_item list \<Rightarrow> nat" where
  "bytes_of its \<equiv> sum_list (map (\<lambda>it. unat (ti_bytes it)) its)"

lemma texcache_take_exact:
  assumes "unat freed + bytes_of vs < 2 ^ 64"
  shows "case texcache_take over tot low freed vs of (k, f) \<Rightarrow>
           k \<le> length vs \<and> unat f = unat freed + bytes_of (take k vs) \<and> (over \<longrightarrow> k = length vs) \<and>
           (\<not> over \<longrightarrow>
              (\<forall>j < k. unat low < unat tot - (unat freed + bytes_of (take j vs))) \<and>
              (k = length vs \<or> unat tot - (unat freed + bytes_of (take k vs)) \<le> unat low))"
  using assms
proof (induction over tot low freed vs rule: texcache_take.induct)
  case (2 over tot low freed v vs)
  have gt: "freed < tot \<and> tot - freed > low \<longleftrightarrow> unat low < unat tot - unat freed"
    by (auto simp: word_less_nat_alt unat_sub_le)
  show ?case
  proof (cases "over \<or> (freed < tot \<and> tot - freed > low)")
    case False
    then show ?thesis using gt by auto
  next
    case True
    obtain k f where kf: "texcache_take over tot low (freed + ti_bytes v) vs = (k, f)"
      by (cases "texcache_take over tot low (freed + ti_bytes v) vs")
    have u: "unat (freed + ti_bytes v) = unat freed + unat (ti_bytes v)"
      using 2(2) by (simp add: unat_word_ariths)
    note ih = 2(1) [OF True, unfolded kf u prod.case]
    have step: "unat low < unat tot - (unat freed + bytes_of (take j (v # vs)))"
      if "\<not> over" and "j < Suc k" for j
      using that ih 2(2) True gt by (cases j) (auto simp: add.assoc)
    show ?thesis
      using ih 2(2) True step by (simp add: kf add.assoc)
  qed
qed simp

lemma unat_add_list: "unat freed + bytes_of vs < 2 ^ 64 \<Longrightarrow> unat freed < 2 ^ 64"
  by simp

lemma bytes_of_take: "bytes_of (take k xs) \<le> bytes_of xs"
  by (metis append_take_drop_id le_add1 map_append sum_list_append)

lemma bytes_of_mset: "mset xs = mset ys \<Longrightarrow> bytes_of xs = bytes_of ys"
  by (metis mset_map sum_mset_sum_list)

lemma bytes_of_filter: "bytes_of (filter P xs) \<le> bytes_of xs"
  by (induction xs) auto

text \<open>
  The victims as the header file promises them: the candidates in order of use, all of them under
  pressure, else as many as bring the cache to the low-water mark and not one more.
\<close>

definition victims_ok ::
  "texcache_policy \<Rightarrow> bool \<Rightarrow> u64 \<Rightarrow> u64 \<Rightarrow> texcache_item list \<Rightarrow> texcache_item list \<Rightarrow> bool" where
  "victims_ok p over now_ns completed_seq items vs \<longleftrightarrow>
     (let cand = texcache_candidate (if over then tp_press_ns p else tp_keep_ns p) now_ns completed_seq;
          cs = c_qsort texcache_lru_cmp (filter cand items);
          left = (\<lambda>k. bytes_of items - bytes_of (take k cs));
          k = length vs
      in vs = take k cs \<and>
         (if over then vs = cs
          else if bytes_of items \<le> unat (tp_budget p) then vs = []
          else (\<forall>j < k. unat (tp_low_water p) < left j) \<and>
               (vs = cs \<or> left k \<le> unat (tp_low_water p))))"

text \<open>
  C24. For items whose sizes sum to the total passed in, the selection reorders the
  items and puts first exactly the victims \<open>victims_ok\<close> describes, with their bytes as the freed
  count: only textures no pending command buffer uses and that were not used recently, the least
  recently used first, down to the low-water mark and no further unless the GPU budget is exceeded.
\<close>

theorem texcache_select_exact:
  assumes "bytes_of items = unat tot"
  shows "case ps4_texcache_select items tot p over now_ns completed_seq of (r, k, freed) \<Rightarrow>
           mset r = mset items \<and> k \<le> length r \<and>
           victims_ok p over now_ns completed_seq items (take k r) \<and>
           unat freed = bytes_of (take k r)"
proof -
  let ?cand = "texcache_candidate (if over then tp_press_ns p else tp_keep_ns p) now_ns completed_seq"
  obtain r1 m where f: "texcache_front ?cand 0 0 items = (r1, m)"
    by (cases "texcache_front ?cand 0 0 items")
  have fr: "take m r1 = filter ?cand items" "m \<le> length r1" "mset r1 = mset items"
    using texcache_front_all [of ?cand items] by (simp_all add: f)
  define cs where "cs = c_qsort texcache_lru_cmp (filter ?cand items)"
  have mcs: "mset cs = mset (filter ?cand items)"
    unfolding cs_def by (rule lru.mset_qsort)
  have lcs: "length cs = m"
    using mset_eq_length [OF mcs] fr(2) fr(1) [symmetric] by simp
  have mr: "mset (cs @ drop m r1) = mset items"
    using mcs fr(1,3) by (metis append_take_drop_id mset_append)
  have bcs: "bytes_of cs \<le> bytes_of items"
    using bytes_of_mset [OF mcs] bytes_of_filter [of ?cand items] by simp
  obtain k fd where t: "texcache_take over tot (tp_low_water p) 0 cs = (k, fd)"
    by (cases "texcache_take over tot (tp_low_water p) 0 cs")
  have "unat (0 :: u64) + bytes_of cs < 2 ^ 64"
    using bcs assms u64_lt [of tot] by simp
  note te = texcache_take_exact [OF this, where over = over and tot = tot and low = "tp_low_water p",
      unfolded t prod.case]
  show ?thesis
  proof (cases "ps4_texcache_evict_due p tot over")
    case False
    then show ?thesis
      using assms by (simp add: ps4_texcache_select_def ps4_texcache_evict_due_def victims_ok_def
          word_less_nat_alt)
  next
    case True
    then have "ps4_texcache_select items tot p over now_ns completed_seq = (cs @ drop m r1, k, fd)"
      using f fr(1) t lcs by (simp add: ps4_texcache_select_def Let_def cs_def)
    moreover have "victims_ok p over now_ns completed_seq items (take k cs)"
      using te assms True lcs
      unfolding victims_ok_def Let_def cs_def [symmetric]
      by (auto simp: ps4_texcache_evict_due_def word_less_nat_alt min_def)
    ultimately show ?thesis using te mr lcs mset_eq_length [OF mr] by simp
  qed
qed

text \<open>
  A cache of three textures, one used too recently and one still bound to a pending command
  buffer: only the third goes, although the cache stays over its low-water mark.
\<close>

definition tex_items :: "texcache_item list" where
  "tex_items =
     [\<lparr>ti_last_ns = 900, ti_last_seq = 1, ti_bytes = 100, ti_id = 1\<rparr>,
      \<lparr>ti_last_ns = 10, ti_last_seq = 9, ti_bytes = 100, ti_id = 2\<rparr>,
      \<lparr>ti_last_ns = 20, ti_last_seq = 2, ti_bytes = 100, ti_id = 3\<rparr>]"

definition tex_policy :: texcache_policy where
  "tex_policy = \<lparr>tp_budget = 250, tp_low_water = 225, tp_keep_ns = 500, tp_press_ns = 200\<rparr>"

lemma texcache_select_exact_witness:
  "(case ps4_texcache_select tex_items 300 tex_policy False 1000 5 of (r, k, freed) \<Rightarrow>
      mset r = mset tex_items \<and> k \<le> length r \<and>
      victims_ok tex_policy False 1000 5 tex_items (take k r) \<and>
      unat freed = bytes_of (take k r)) \<and>
   bytes_of tex_items = 300"
  using texcache_select_exact [of tex_items 300 tex_policy False 1000 5]
  by (simp add: tex_items_def)

section \<open>Hysteresis of the budget state\<close>

definition budget_run :: "gpumem_policy \<Rightarrow> u64 list \<Rightarrow> budget_state \<Rightarrow> budget_state" where
  "budget_run p cs st = fold (\<lambda>c st. snd (ps4_gpumem_budget_update p c st)) cs st"

text \<open>The samples that can change the state: above the budget or below nine tenths of it.\<close>

definition outside_band :: "gpumem_policy \<Rightarrow> u64 \<Rightarrow> bool" where
  "outside_band p c \<longleftrightarrow> gp_budget p < c \<or> c < gp_budget p div 10 * 9"

lemma nine_tenths: "b div 10 * 9 \<le> b" for b :: u64
proof -
  have "unat b div 10 * 9 < 2 ^ 64" and "unat b div 10 < 2 ^ 64" using u64_lt [of b] by linarith+
  then have "unat (b div 10 * 9) = unat b div 10 * 9"
    by (simp add: unat_word_ariths unat_div mod_less)
  then show ?thesis unfolding word_le_nat_alt by linarith
qed

lemma budget_update_over:
  "bs_over (snd (ps4_gpumem_budget_update p c st)) =
     (if outside_band p c then gp_budget p < c else bs_over st)"
  using nine_tenths [of "gp_budget p"]
  by (auto simp: ps4_gpumem_budget_update_def outside_band_def)

text \<open>
  After any sequence of samples the process is over its GPU memory budget
  exactly when the last sample outside the band between nine tenths of the budget and the budget
  was above it; samples inside the band never change the state.
\<close>

theorem budget_hysteresis:
  "bs_over (budget_run p cs st) =
     (case rev (filter (outside_band p) cs) of [] \<Rightarrow> bs_over st | c # _ \<Rightarrow> gp_budget p < c)"
  unfolding budget_run_def
  by (induction cs arbitrary: st rule: rev_induct)
    (auto simp: budget_update_over split: list.splits)

section \<open>Back-off of the purges\<close>

fun purge_run :: "purge_state \<Rightarrow> u64 list \<Rightarrow> bool list" where
  "purge_run st [] = []"
| "purge_run st (c # cs) =
     (case ps4_gpumem_purge_due True c st of (b, st') \<Rightarrow> b # purge_run st' cs)"

lemma map_upt_shift: "map f [Suc 0..<Suc n] = map (\<lambda>i. f (Suc i)) [0..<n]"
  by (simp add: map_Suc_upt [symmetric] comp_def del: upt_Suc)

lemma purge_run_futile:
  assumes "pu_have st" and "sorted (pu_last_charged st # cs)" and "unat (pu_futile st) + length cs < 2 ^ 32"
    and "d < last (pu_last_charged st # cs)"
  shows "purge_run st (cs @ [d]) = map (\<lambda>i. unat (pu_futile st) + 1 + i < 10) [0..<length cs] @ [True]"
  using assms
proof (induction cs arbitrary: st)
  case Nil
  then show ?case by (simp add: ps4_gpumem_purge_due_def)
next
  case (Cons c cs)
  obtain b st' where due: "ps4_gpumem_purge_due True c st = (b, st')"
    by (cases "ps4_gpumem_purge_due True c st")
  have nl: "\<not> c < pu_last_charged st" using Cons.prems(2) by (simp add: not_less)
  have f: "unat (pu_futile st + 1) = unat (pu_futile st) + 1"
    using Cons.prems(3) by (simp add: unat_word_ariths)
  have st': "pu_have st'" "pu_last_charged st' = c" "pu_futile st' = pu_futile st + 1"
    and b: "b \<longleftrightarrow> unat (pu_futile st) + 1 < 10"
    using due Cons.prems(1) nl f
    by (auto simp: ps4_gpumem_purge_due_def Let_def word_le_nat_alt not_le split: if_splits)
  have "purge_run st' (cs @ [d]) = map (\<lambda>i. unat (pu_futile st') + 1 + i < 10) [0..<length cs] @ [True]"
    using Cons.prems st' f by (intro Cons.IH) auto
  then show ?case
    using b f st'(3) by (simp add: due upt_conv_Cons map_upt_shift del: upt_Suc)
qed

text \<open>
  From a fresh state, sweeps over budget whose charged total never falls run
  exactly ten purges and then none, and the first sweep that finds the total lower purges again.
\<close>

theorem purge_backs_off:
  assumes "\<not> pu_have st" and "pu_futile st = 0" and "sorted cs" and "cs \<noteq> []"
    and "length cs < 2 ^ 32" and "d < last cs"
  shows "purge_run st (cs @ [d]) = map (\<lambda>i. i < 10) [0..<length cs] @ [True]"
proof (cases cs)
  case (Cons c ds)
  define st' where "st' = st\<lparr>pu_have := True, pu_last_charged := c\<rparr>"
  have due: "ps4_gpumem_purge_due True c st = (True, st')"
    using assms(1,2) by (simp add: ps4_gpumem_purge_due_def st'_def)
  have "purge_run st' (ds @ [d]) = map (\<lambda>i. unat (pu_futile st') + 1 + i < 10) [0..<length ds] @ [True]"
    using assms Cons by (intro purge_run_futile) (auto simp: st'_def split: if_splits)
  then show ?thesis
    using Cons assms(2) by (simp add: due st'_def upt_conv_Cons map_upt_shift del: upt_Suc)
qed (use assms in simp)

lemma purge_backs_off_witness:
  "purge_run \<lparr>pu_futile = 0, pu_have = False, pu_last_charged = 0\<rparr> (replicate 12 7 @ [6]) =
     replicate 10 True @ [False, False, True]"
proof -
  let ?st = "\<lparr>pu_futile = 0, pu_have = False, pu_last_charged = 0\<rparr>"
  have "purge_run ?st (replicate 12 7 @ [6]) = map (\<lambda>i. i < 10) [0..<length (replicate 12 (7 :: u64))] @ [True]"
    by (rule purge_backs_off) simp_all
  also have "\<dots> = replicate 10 True @ [False, False, True]" by code_simp
  finally show ?thesis .
qed

text \<open>
  The product with the nanoseconds per millisecond wraps for the largest values of the variable,
  so the age below which a texture is kept can fall under the 100 ms the header file promises.
\<close>

lemma keep_ns_wraps:
  "tp_keep_ns (ps4_texcache_policy_init gp None (Some ''18446744073710'')) = 448384"
proof -
  have "parse_u64 (Some ''18446744073710'') = 18446744073710" by code_simp
  then show ?thesis by (simp add: ps4_texcache_policy_init_def Let_def)
qed

end
