(* ===== verification/GpuWindows.thy ===== *)
theory GpuWindows
  imports MemBudget "HOL-Library.Multiset"
begin

text \<open>
  The reference counts of guest windows (\<open>ps4_gpumem_windows_*\<close>): after any sequence of additions
  and removals of live buffers, the counters are the number of live buffers, the sum of their
  lengths and the bytes of the windows at least one of them covers.
\<close>

lemma len64: "LENGTH(64) = 64" by simp

section \<open>The counting loops\<close>

text \<open>The windows a loop from \<open>i\<close> visits.\<close>

definition visits :: "u64 \<Rightarrow> u64 \<Rightarrow> u64 \<Rightarrow> nat \<Rightarrow> bool" where
  "visits i lim nwin j \<longleftrightarrow> unat i \<le> j \<and> j < unat lim \<and> j < unat nwin"

lemma finite_visits [simp]: "finite {j. visits i lim nwin j \<and> P j}"
  by (rule finite_subset [of _ "{..<unat lim}"]) (auto simp: visits_def)

lemma visits_none: "\<not> (i < lim \<and> i < nwin) \<Longrightarrow> \<not> visits i lim nwin j"
  by (auto simp: visits_def word_less_nat_alt)

lemma visits_step:
  "i < lim \<and> i < nwin \<Longrightarrow> visits i lim nwin j \<longleftrightarrow> j = unat i \<or> visits (i + 1) lim nwin j"
  using u64_lt [of lim] by (auto simp: visits_def word_less_nat_alt unat_word_ariths)

lemma visits_later: "i < lim \<and> i < nwin \<Longrightarrow> \<not> visits (i + 1) lim nwin (unat i)"
  using u64_lt [of lim] by (auto simp: visits_def word_less_nat_alt unat_word_ariths)

lemma card_visits_step:
  assumes "i < lim \<and> i < nwin"
  shows "card {j. visits i lim nwin j \<and> P j} =
           (if P (unat i) then 1 else 0) + card {j. visits (i + 1) lim nwin j \<and> P j}"
proof -
  have "{j. visits i lim nwin j \<and> P j} =
          (if P (unat i) then {unat i} else {}) \<union> {j. visits (i + 1) lim nwin j \<and> P j}"
    using visits_step [OF assms] by auto
  then show ?thesis using visits_later [OF assms] by (simp add: card_insert_if)
qed

lemma visits_nth:
  "i < lim \<and> i < nwin \<Longrightarrow> visits (i + 1) lim nwin j \<Longrightarrow> refs[unat i := x] ! j = refs ! j"
  using visits_later by (metis nth_list_update_neq)

lemma refs_inc_exact:
  assumes "unat nwin \<le> length refs"
  shows "length (fst (refs_inc i lim nwin refs newly)) = length refs \<and>
         (\<forall>j < length refs. fst (refs_inc i lim nwin refs newly) ! j =
            refs ! j + (if visits i lim nwin j then 1 else 0)) \<and>
         snd (refs_inc i lim nwin refs newly) =
           newly + of_nat (card {j. visits i lim nwin j \<and> refs ! j = 0})"
  using assms
proof (induction i lim nwin refs newly rule: refs_inc.induct)
  case (1 i lim nwin refs newly)
  show ?case
  proof (cases "i < lim \<and> i < nwin")
    case False
    then have "refs_inc i lim nwin refs newly = (refs, newly)"
      by (subst refs_inc.simps) (rule if_not_P)
    then show ?thesis by (simp add: visits_none [OF False])
  next
    case True
    let ?refs' = "refs[unat i := refs ! unat i + 1]"
    have same: "{j. visits (i + 1) lim nwin j \<and> ?refs' ! j = 0} = {j. visits (i + 1) lim nwin j \<and> refs ! j = 0}"
      using visits_later [OF True] by (metis nth_list_update_neq)
    have un: "refs_inc i lim nwin refs newly =
        refs_inc (i + 1) lim nwin ?refs' (if refs ! unat i = 0 then newly + 1 else newly)"
      using True by (subst refs_inc.simps) (simp add: Let_def)
    have "unat i < length refs" using True 1(2) by (simp add: word_less_nat_alt)
    then show ?thesis
      using 1(1) [OF True refl] 1(2) True
      unfolding un same card_visits_step [OF True]
      by (auto simp: visits_nth [OF True] visits_step [OF True] visits_later [OF True] nth_list_update)
  qed
qed

lemma refs_dec_exact:
  assumes "unat nwin \<le> length refs" and "\<forall>j. visits i lim nwin j \<longrightarrow> refs ! j \<noteq> 0"
  shows "length (fst (refs_dec i lim nwin refs freed)) = length refs \<and>
         (\<forall>j < length refs. fst (refs_dec i lim nwin refs freed) ! j =
            refs ! j - (if visits i lim nwin j then 1 else 0)) \<and>
         snd (refs_dec i lim nwin refs freed) =
           freed + of_nat (card {j. visits i lim nwin j \<and> refs ! j = 1})"
  using assms
proof (induction i lim nwin refs freed rule: refs_dec.induct)
  case (1 i lim nwin refs freed)
  show ?case
  proof (cases "i < lim \<and> i < nwin")
    case False
    then have "refs_dec i lim nwin refs freed = (refs, freed)"
      by (subst refs_dec.simps) (rule if_not_P)
    then show ?thesis by (simp add: visits_none [OF False])
  next
    case True
    let ?refs' = "refs[unat i := refs ! unat i - 1]"
    have nz: "refs ! unat i \<noteq> 0" using 1(4) visits_step [OF True] by blast
    have same: "{j. visits (i + 1) lim nwin j \<and> ?refs' ! j = 1} = {j. visits (i + 1) lim nwin j \<and> refs ! j = 1}"
      using visits_later [OF True] by (metis nth_list_update_neq)
    have un: "refs_dec i lim nwin refs freed =
        refs_dec (i + 1) lim nwin ?refs' (if refs ! unat i = 1 then freed + 1 else freed)"
      using True nz by (subst refs_dec.simps) (simp add: Let_def)
    have pre: "\<forall>j. visits (i + 1) lim nwin j \<longrightarrow> ?refs' ! j \<noteq> 0"
      using 1(4) visits_later [OF True] visits_step [OF True] by (metis nth_list_update_neq)
    have "length (fst (refs_dec (i + 1) lim nwin ?refs' (if refs ! unat i = 1 then freed + 1 else freed))) = length refs \<and>
         (\<forall>j < length refs. fst (refs_dec (i + 1) lim nwin ?refs' (if refs ! unat i = 1 then freed + 1 else freed)) ! j =
            ?refs' ! j - (if visits (i + 1) lim nwin j then 1 else 0)) \<and>
         snd (refs_dec (i + 1) lim nwin ?refs' (if refs ! unat i = 1 then freed + 1 else freed)) =
           (if refs ! unat i = 1 then freed + 1 else freed) + of_nat (card {j. visits (i + 1) lim nwin j \<and> ?refs' ! j = 1})"
      using 1(2) [OF True refl nz] 1(3) pre by (simp split: if_split_asm)
    moreover have "unat i < length refs" using True 1(3) by (simp add: word_less_nat_alt)
    ultimately show ?thesis
      using True
      unfolding un same card_visits_step [OF True]
      by (auto simp: visits_nth [OF True] visits_step [OF True] visits_later [OF True] nth_list_update)
  qed
qed

section \<open>Live buffers\<close>

text \<open>A no-copy buffer: its first window, the number of windows it spans, its length.\<close>

type_synonym nocopy_buf = "u64 \<times> u64 \<times> u64"

fun covers :: "nat \<Rightarrow> nocopy_buf \<Rightarrow> bool" where
  "covers j (first_win, n, len) \<longleftrightarrow> unat first_win \<le> j \<and> j < unat first_win + unat n"

fun buf_len :: "nocopy_buf \<Rightarrow> nat" where
  "buf_len (first_win, n, len) = unat len"

fun buf_ok :: "nocopy_buf \<Rightarrow> bool" where
  "buf_ok (first_win, n, len) \<longleftrightarrow> unat first_win + unat n < 2 ^ 64"

text \<open>
  What the renderer does: it adds buffers whose windows do not wrap, fewer than 65536 at a time,
  and removes only buffers that are live.
\<close>

inductive win_reach :: "u64 \<Rightarrow> u64 \<Rightarrow> gpumem_windows \<Rightarrow> nocopy_buf multiset \<Rightarrow> bool"
  for mem_size win_size where
  win_init: "unat mem_size + unat win_size \<le> 2 ^ 64 \<Longrightarrow>
     ps4_gpumem_windows_init True mem_size win_size = (True, w) \<Longrightarrow> win_reach mem_size win_size w {#}"
| win_add: "win_reach mem_size win_size w L \<Longrightarrow> buf_ok (f, n, len) \<Longrightarrow> size L < 2 ^ 16 - 1 \<Longrightarrow>
     (\<Sum>b\<in>#L. buf_len b) + unat len < 2 ^ 64 \<Longrightarrow>
     win_reach mem_size win_size (ps4_gpumem_windows_add f n len w) (add_mset (f, n, len) L)"
| win_remove: "win_reach mem_size win_size w L \<Longrightarrow> (f, n, len) \<in># L \<Longrightarrow>
     win_reach mem_size win_size (ps4_gpumem_windows_remove f n len w) (L - {#(f, n, len)#})"

definition win_inv :: "u64 \<Rightarrow> gpumem_windows \<Rightarrow> nocopy_buf multiset \<Rightarrow> bool" where
  "win_inv win_size w L \<longleftrightarrow>
     unat (gw_nwin w) \<le> length (gw_refs w) \<and>
     unat (gw_nwin w) * unat win_size < 2 ^ 64 \<and> gw_win_size w = win_size \<and>
     (\<forall>b \<in># L. buf_ok b) \<and> size L < 2 ^ 16 \<and> (\<Sum>b\<in>#L. buf_len b) < 2 ^ 64 \<and>
     (\<forall>j < length (gw_refs w). unat (gw_refs w ! j) = (if j < unat (gw_nwin w) then size (filter_mset (covers j) L) else 0)) \<and>
     unat (gw_count w) = size L \<and> unat (gw_sum w) = (\<Sum>b\<in>#L. buf_len b) \<and>
     unat (gw_distinct w) = unat win_size * card {j. j < unat (gw_nwin w) \<and> gw_refs w ! j \<noteq> 0}"

lemma visits_covers:
  "buf_ok (f, n, len) \<Longrightarrow> visits f (f + n) nwin j \<longleftrightarrow> covers j (f, n, len) \<and> j < unat nwin"
  by (auto simp: visits_def unat_word_ariths)

lemma card_below: "card {j. j < n \<and> P j} \<le> n"
  by (metis (no_types, lifting) card_lessThan card_mono finite_lessThan lessThan_iff mem_Collect_eq subsetI)

text \<open>The windows covered before and after one more, or one fewer, buffer.\<close>

lemma card_covered_add:
  fixes rs rs' :: "u16 list"
  assumes "\<forall>j < n. rs' ! j = rs ! j + (if V j then 1 else 0)" and "\<forall>j < n. rs' ! j = 0 \<longrightarrow> \<not> V j"
    and "\<forall>j. V j \<longrightarrow> j < n"
  shows "card {j. j < n \<and> rs' ! j \<noteq> 0} = card {j. j < n \<and> rs ! j \<noteq> 0} + card {j. V j \<and> rs ! j = 0}"
proof -
  have "{j. j < n \<and> rs' ! j \<noteq> 0} = {j. j < n \<and> rs ! j \<noteq> 0} \<union> {j. V j \<and> rs ! j = 0}"
    using assms by auto
  moreover have "finite {j. V j \<and> rs ! j = 0}"
    using assms(3) by (auto intro: finite_subset [of _ "{..<n}"])
  ultimately show ?thesis by (simp add: card_Un_disjnt disjnt_iff)
qed

lemma win_inv_init:
  assumes "unat mem_size + unat win_size \<le> 2 ^ 64" and "ps4_gpumem_windows_init True mem_size win_size = (True, w)"
  shows "win_inv win_size w {#}"
proof -
  define nwin where "nwin = (mem_size + win_size - 1) div win_size"
  have nz: "win_size \<noteq> 0" using assms(2) by (auto simp: ps4_gpumem_windows_init_def)
  have w: "w = windows_zero\<lparr>gw_win_size := win_size, gw_nwin := nwin,
      gw_refs := replicate (unat (if nwin \<noteq> 0 then nwin else 1)) 0\<rparr>"
    using assms(2) nz unfolding ps4_gpumem_windows_init_def Let_def nwin_def [symmetric] by simp
  have "unat nwin * unat win_size \<le> unat (mem_size + win_size - 1)"
    by (simp add: nwin_def unat_div)
  also have "\<dots> < 2 ^ 64" by (rule u64_lt)
  finally show ?thesis by (auto simp: win_inv_def w windows_zero_def)
qed

lemma win_inv_add:
  assumes inv: "win_inv ws w L" and ok: "buf_ok (f, n, len)" and sz: "size L < 2 ^ 16 - 1"
    and sm: "(\<Sum>b\<in>#L. buf_len b) + unat len < 2 ^ 64"
  shows "win_inv ws (ps4_gpumem_windows_add f n len w) (add_mset (f, n, len) L)"
proof -
  let ?nw = "unat (gw_nwin w)" and ?rs = "gw_refs w"
  obtain rs' nly where r: "refs_inc f (f + n) (gw_nwin w) (gw_refs w) 0 = (rs', nly)"
    by (cases "refs_inc f (f + n) (gw_nwin w) (gw_refs w) 0")
  let ?V = "\<lambda>j. visits f (f + n) (gw_nwin w) j"
  have nw: "?nw \<le> length ?rs" and ws: "gw_win_size w = ws" and bd: "?nw * unat ws < 2 ^ 64"
    using inv by (simp_all add: win_inv_def)
  have ex: "length rs' = length ?rs" "\<forall>j < length ?rs. rs' ! j = ?rs ! j + (if ?V j then 1 else 0)"
      "nly = of_nat (card {j. ?V j \<and> ?rs ! j = 0})"
    using refs_inc_exact [OF nw, of f "f + n" 0] by (simp_all add: r)
  have old: "unat (?rs ! j) = (if j < ?nw then size (filter_mset (covers j) L) else 0)"
    if "j < length ?rs" for j
    using inv that by (simp add: win_inv_def)
  have small: "unat (?rs ! j) + 1 < 2 ^ 16" if "j < length ?rs" for j
    using old [OF that] sz le_less_trans [OF size_filter_mset_lesseq [of "covers j" L] sz]
    by (simp split: if_splits)
  have new: "unat (rs' ! j) = unat (?rs ! j) + (if ?V j then 1 else 0)" if "j < length ?rs" for j
    using ex(2) that small [OF that] by (auto simp: unat_word_ariths)
  have nlt: "card {j. j < ?nw \<and> rs' ! j \<noteq> 0} = card {j. j < ?nw \<and> ?rs ! j \<noteq> 0} + card {j. ?V j \<and> ?rs ! j = 0}"
  proof (rule card_covered_add)
    show "\<forall>j < ?nw. rs' ! j = ?rs ! j + (if ?V j then 1 else 0)" using ex(2) nw by simp
    show "\<forall>j < ?nw. rs' ! j = 0 \<longrightarrow> \<not> ?V j" 
    proof (intro allI impI)
      fix j assume j: "j < ?nw" "rs' ! j = 0"
      then have "unat (rs' ! j) = unat (?rs ! j) + (if ?V j then 1 else 0)" using new [of j] nw by simp
      with j(2) show "\<not> ?V j" by (simp split: if_splits)
    qed
  qed (simp add: visits_def)
  have "(card {j. j < ?nw \<and> ?rs ! j \<noteq> 0} + card {j. ?V j \<and> ?rs ! j = 0}) * unat ws < 2 ^ 64"
    unfolding nlt [symmetric] by (rule le_less_trans [OF mult_le_mono1 [OF card_below] bd])
  then have tot: "unat (gw_distinct w) + card {j. ?V j \<and> ?rs ! j = 0} * unat ws < 2 ^ 64"
    using inv by (simp add: win_inv_def algebra_simps)
  have cb: "card {j. ?V j \<and> ?rs ! j = 0} < 2 ^ 64"
  proof -
    have "card {j. ?V j \<and> ?rs ! j = 0} \<le> ?nw"
      by (rule order_trans [OF card_mono card_below [of ?nw "\<lambda>_. True"]]) (auto simp: visits_def)
    then show ?thesis using u64_lt [of "gw_nwin w"] by linarith
  qed
  have "unat (nly * ws) = card {j. ?V j \<and> ?rs ! j = 0} * unat ws"
    using tot cb by (simp add: ex(3) unat_word_ariths unat_of_nat)
  then have dis: "unat (gw_distinct w + nly * ws) = unat (gw_distinct w) + card {j. ?V j \<and> ?rs ! j = 0} * unat ws"
    using tot by (simp add: unat_word_ariths)
  have refs: "\<forall>j < length rs'. unat (rs' ! j) =
      (if j < ?nw then size (filter_mset (covers j) (add_mset (f, n, len) L)) else 0)"
    using new old ex(1) visits_covers [OF ok, of "gw_nwin w"] by auto
  let ?w' = "ps4_gpumem_windows_add f n len w" and ?L' = "add_mset (f, n, len) L"
  have w': "gw_refs ?w' = rs'" "gw_nwin ?w' = gw_nwin w" "gw_win_size ?w' = ws" "gw_count ?w' = gw_count w + 1"
      "gw_sum ?w' = gw_sum w + len" "gw_distinct ?w' = gw_distinct w + nly * ws"
    by (simp_all add: ps4_gpumem_windows_add_def r ws)
  have fl: "unat (gw_count w) = size L" "unat (gw_sum w) = (\<Sum>b\<in>#L. buf_len b)"
      "unat (gw_distinct w) = unat ws * card {j. j < ?nw \<and> ?rs ! j \<noteq> 0}"
    using inv unfolding win_inv_def by blast+
  have cnt: "unat (gw_count w + 1) = size ?L'" "size ?L' < 2 ^ 16"
  proof -
    show "size ?L' < 2 ^ 16" using sz by simp
    then have "unat (gw_count w) + 1 < 2 ^ 64" using fl(1) by simp
    then show "unat (gw_count w + 1) = size ?L'" using fl(1) by (simp add: unat_word_ariths)
  qed
  have sums: "unat (gw_sum w + len) = (\<Sum>b\<in>#?L'. buf_len b)" "(\<Sum>b\<in>#?L'. buf_len b) < 2 ^ 64"
  proof -
    show "(\<Sum>b\<in>#?L'. buf_len b) < 2 ^ 64" using sm by simp
    have "unat (gw_sum w) + unat len < 2 ^ 64" using fl(2) sm by simp
    then have "unat (gw_sum w + len) = unat (gw_sum w) + unat len" by (simp only: unat_word_ariths mod_less len64)
    then show "unat (gw_sum w + len) = (\<Sum>b\<in>#?L'. buf_len b)" using fl(2) by simp
  qed
  have oks: "\<forall>b \<in># ?L'. buf_ok b" using inv ok by (simp add: win_inv_def)
  have ds: "unat (gw_distinct w + nly * ws) = unat ws * card {j. j < ?nw \<and> rs' ! j \<noteq> 0}"
    using dis nlt fl by (simp add: distrib_left)
  show ?thesis
    unfolding win_inv_def w' ex(1) [symmetric]
    using nw bd oks cnt sums refs ds ex(1) by (intro conjI) simp_all
qed

lemma card_covered_remove:
  fixes rs rs' :: "u16 list"
  assumes "\<forall>j < n. rs' ! j = rs ! j - (if V j then 1 else 0)" and "\<forall>j < n. V j \<longrightarrow> rs ! j \<noteq> 0"
    and "\<forall>j. V j \<longrightarrow> j < n"
  shows "card {j. j < n \<and> rs ! j \<noteq> 0} = card {j. j < n \<and> rs' ! j \<noteq> 0} + card {j. V j \<and> rs ! j = 1}"
proof -
  have "{j. j < n \<and> rs ! j \<noteq> 0} = {j. j < n \<and> rs' ! j \<noteq> 0} \<union> {j. V j \<and> rs ! j = 1}"
    using assms by (auto split: if_splits)
  moreover have "finite {j. V j \<and> rs ! j = 1}"
    using assms(3) by (auto intro: finite_subset [of _ "{..<n}"])
  moreover have "disjnt {j. j < n \<and> rs' ! j \<noteq> 0} {j. V j \<and> rs ! j = 1}"
    using assms(1) by (auto simp: disjnt_iff)
  ultimately show ?thesis by (simp add: card_Un_disjnt)
qed

lemma sum_remove1:
  fixes g :: "'a \<Rightarrow> nat"
  assumes "b \<in># L"
  shows "(\<Sum>x\<in>#(L - {#b#}). g x) = (\<Sum>x\<in>#L. g x) - g b" and "g b \<le> (\<Sum>x\<in>#L. g x)"
  using assms by (auto dest!: multi_member_split)

lemma filter_remove1:
  assumes "b \<in># L"
  shows "size (filter_mset P (L - {#b#})) = size (filter_mset P L) - (if P b then 1 else 0)"
  using assms by (auto dest!: multi_member_split)

lemma win_inv_remove:
  assumes inv: "win_inv ws w L" and mem: "(f, n, len) \<in># L"
  shows "win_inv ws (ps4_gpumem_windows_remove f n len w) (L - {#(f, n, len)#})"
proof -
  let ?nw = "unat (gw_nwin w)" and ?rs = "gw_refs w"
  obtain rs' fr where r: "refs_dec f (f + n) (gw_nwin w) (gw_refs w) 0 = (rs', fr)"
    by (cases "refs_dec f (f + n) (gw_nwin w) (gw_refs w) 0")
  let ?V = "\<lambda>j. visits f (f + n) (gw_nwin w) j"
  have nw: "?nw \<le> length ?rs" and ws: "gw_win_size w = ws" and bd: "?nw * unat ws < 2 ^ 64"
    and ok: "buf_ok (f, n, len)"
    using inv mem by (auto simp: win_inv_def)
  have old: "unat (?rs ! j) = (if j < ?nw then size (filter_mset (covers j) L) else 0)"
    if "j < length ?rs" for j
    using inv that by (simp add: win_inv_def)
  have nz: "?rs ! j \<noteq> 0" if "?V j" for j
  proof -
    have c: "covers j (f, n, len)" and "j < ?nw" using that visits_covers [OF ok] by auto
    have "(f, n, len) \<in># filter_mset (covers j) L" using mem c by simp
    then have "filter_mset (covers j) L \<noteq> {#}" by force
    then have "unat (?rs ! j) \<noteq> 0" using old [of j] \<open>j < ?nw\<close> nw by simp
    then show ?thesis by auto
  qed
  have ex: "length rs' = length ?rs" "\<forall>j < length ?rs. rs' ! j = ?rs ! j - (if ?V j then 1 else 0)"
      "fr = of_nat (card {j. ?V j \<and> ?rs ! j = 1})"
    using refs_dec_exact [OF nw, of f "f + n" 0] nz by (simp_all add: r)
  have new: "unat (rs' ! j) = unat (?rs ! j) - (if ?V j then 1 else 0)" if "j < length ?rs" for j
    using ex(2) that nz [of j] by (auto simp: unat_minus_one)
  have nlt: "card {j. j < ?nw \<and> ?rs ! j \<noteq> 0} = card {j. j < ?nw \<and> rs' ! j \<noteq> 0} + card {j. ?V j \<and> ?rs ! j = 1}"
  proof (rule card_covered_remove)
    show "\<forall>j < ?nw. rs' ! j = ?rs ! j - (if ?V j then 1 else 0)" using ex(2) nw by simp
  qed (use nz in \<open>auto simp: visits_def\<close>)
  have dw: "unat (gw_distinct w) = unat ws * card {j. j < ?nw \<and> ?rs ! j \<noteq> 0}"
    using inv by (simp add: win_inv_def)
  have cb: "card {j. ?V j \<and> ?rs ! j = 1} < 2 ^ 64"
  proof -
    have "card {j. ?V j \<and> ?rs ! j = 1} \<le> ?nw"
      by (rule order_trans [OF card_mono card_below [of ?nw "\<lambda>_. True"]]) (auto simp: visits_def)
    then show ?thesis using u64_lt [of "gw_nwin w"] by linarith
  qed
  have le: "card {j. ?V j \<and> ?rs ! j = 1} * unat ws \<le> unat (gw_distinct w)"
    using nlt dw by simp
  then have fb: "unat (fr * ws) = card {j. ?V j \<and> ?rs ! j = 1} * unat ws"
    using cb u64_lt [of "gw_distinct w"] by (simp add: ex(3) unat_word_ariths unat_of_nat)
  have dis: "unat (if gw_distinct w > fr * ws then gw_distinct w - fr * ws else 0) =
      unat ws * card {j. j < ?nw \<and> rs' ! j \<noteq> 0}"
    using fb le dw nlt by (auto simp: word_less_nat_alt unat_sub_le algebra_simps)
  have refs: "\<forall>j < length rs'. unat (rs' ! j) =
      (if j < ?nw then size (filter_mset (covers j) (L - {#(f, n, len)#})) else 0)"
    using new old ex(1) visits_covers [OF ok, of "gw_nwin w"]
    by (simp add: filter_remove1 [OF mem] del: filter_diff_mset)
  have cnt: "unat (if gw_count w \<noteq> 0 then gw_count w - 1 else 0) = size L - 1"
    using inv by (auto simp: win_inv_def unat_minus_one)
  have sm: "unat (if gw_sum w > len then gw_sum w - len else 0) = (\<Sum>b\<in>#(L - {#(f, n, len)#}). buf_len b)"
    using inv by (auto simp: win_inv_def sum_remove1(1) [OF mem] word_less_nat_alt unat_sub_le)
  have szs: "size (L - {#(f, n, len)#}) = size L - 1" "size (L - {#(f, n, len)#}) < 2 ^ 16"
      "(\<Sum>b\<in>#(L - {#(f, n, len)#}). buf_len b) < 2 ^ 64" "\<forall>b \<in># L - {#(f, n, len)#}. buf_ok b"
    using inv mem by (auto simp: win_inv_def size_Diff_singleton sum_remove1(1) [OF mem] dest: in_diffD)
  show ?thesis
    using refs dis cnt sm szs ex(1) nw ws bd
    unfolding win_inv_def ps4_gpumem_windows_remove_def
    by (simp add: r Let_def)
qed

lemma win_reach_inv: "win_reach mem_size win_size w L \<Longrightarrow> win_inv win_size w L"
  by (induction rule: win_reach.induct) (blast intro: win_inv_init win_inv_add win_inv_remove)+

text \<open>
  C25. While fewer than 65536 buffers are live, the counters the sampler reads are
  exact after any additions and removals: the number of live buffers, the sum of their lengths and
  the size of the windows that at least one live buffer covers.
\<close>

theorem windows_count_exact:
  assumes "win_reach mem_size win_size w L"
  shows "unat (gw_count w) = size L \<and> unat (gw_sum w) = (\<Sum>b\<in>#L. buf_len b) \<and>
         unat (gw_distinct w) =
           unat win_size * card {j. j < unat (gw_nwin w) \<and> (\<exists>b \<in># L. covers j b)}"
proof -
  have inv: "win_inv win_size w L" by (rule win_reach_inv [OF assms])
  have "gw_refs w ! j \<noteq> 0 \<longleftrightarrow> (\<exists>b \<in># L. covers j b)" if "j < unat (gw_nwin w)" for j
  proof -
    have "unat (gw_refs w ! j) = size (filter_mset (covers j) L)"
      using inv that by (auto simp: win_inv_def)
    then have "gw_refs w ! j = 0 \<longleftrightarrow> filter_mset (covers j) L = {#}"
      by (metis size_eq_0_iff_empty unat_eq_zero)
    then show ?thesis by (metis filter_mset_eq_mempty_iff)
  qed
  then have "{j. j < unat (gw_nwin w) \<and> gw_refs w ! j \<noteq> 0} =
      {j. j < unat (gw_nwin w) \<and> (\<exists>b \<in># L. covers j b)}" by blast
  with inv show ?thesis by (simp add: win_inv_def)
qed

text \<open>Two overlapping buffers over a memory of eight windows; the longer one is released.\<close>

definition win_example :: gpumem_windows where
  "win_example =
     ps4_gpumem_windows_remove 1 3 300 (ps4_gpumem_windows_add 2 1 50 (ps4_gpumem_windows_add 1 3 300
       (snd (ps4_gpumem_windows_init True 800 100))))"

lemma windows_count_exact_witness:
  "win_reach 800 100 win_example {#(2, 1, 50)#} \<and>
   unat (gw_distinct win_example) =
     unat (100 :: u64) * card {j. j < unat (gw_nwin win_example) \<and> (\<exists>b \<in># {#(2, 1, 50 :: u64)#}. covers j b)}"
proof -
  have i: "ps4_gpumem_windows_init True 800 100 = (True, snd (ps4_gpumem_windows_init True 800 100))"
    by (simp add: ps4_gpumem_windows_init_def Let_def)
  have "win_reach 800 100 (snd (ps4_gpumem_windows_init True 800 100)) {#}"
    by (rule win_init [OF _ i]) simp
  then have a: "win_reach 800 100 (ps4_gpumem_windows_add 1 3 300 (snd (ps4_gpumem_windows_init True 800 100)))
      {#(1, 3, 300)#}"
    by (rule win_add) simp_all
  have b: "win_reach 800 100 (ps4_gpumem_windows_add 2 1 50
      (ps4_gpumem_windows_add 1 3 300 (snd (ps4_gpumem_windows_init True 800 100))))
      (add_mset (2, 1, 50) {#(1, 3, 300)#})"
    by (rule win_add [OF a]) simp_all
  have "win_reach 800 100 win_example (add_mset (2, 1, 50) {#(1, 3, 300)#} - {#(1, 3, 300)#})"
    unfolding win_example_def by (rule win_remove [OF b]) simp
  then have "win_reach 800 100 win_example {#(2, 1, 50)#}" by simp
  with windows_count_exact [OF this] show ?thesis by blast
qed

end
