(* ===== verification/SettingsFile.thy ===== *)
theory SettingsFile
  imports CText
begin

text \<open>
  The per-game settings file (\<open>core/ps4_settings_file.c\<close>): lines \<open>key=value\<close>. A file is its
  text, \<open>None\<close> when it cannot be opened; the process writes a temporary file and renames it, and
  whether each host call succeeds is a parameter.
\<close>

abbreviation (input) NL :: char where "NL \<equiv> CHR 0x0A"
abbreviation (input) NUL :: char where "NUL \<equiv> CHR 0x00"
abbreviation (input) EQ :: char where "EQ \<equiv> CHR ''=''"

definition SETTINGS_FILE_MAX :: nat where "SETTINGS_FILE_MAX = 64 * 1024"

record settings =
  st_lang :: i32
  st_pro :: i32
  st_upscale :: i32
  st_hud :: i32
  st_metal :: i32

definition kOwned :: "string list" where
  "kOwned = [''lang'', ''pro'', ''upscale'', ''hud'']"

definition owned_value :: "settings \<Rightarrow> nat \<Rightarrow> i32" where
  "owned_value s k =
     (if k = 0 then st_lang s
      else if k = 1 then of_bool (st_pro s \<noteq> 0)
      else if k = 2 then of_bool (st_upscale s \<noteq> 0)
      else of_bool (st_hud s \<noteq> 0))"

text \<open>The index in \<open>kOwned\<close> of the line's key, the text before the first \<open>=\<close>.\<close>

definition owned_key :: "string \<Rightarrow> nat option" where
  "owned_key line =
     (if EQ \<notin> set line then None
      else let key = takeWhile (\<lambda>c. c \<noteq> EQ) line
           in List.find (\<lambda>k. kOwned ! k = key) [0..<4])"

section \<open>Reading\<close>

text \<open>
  \<open>fgets(line, 256, f)\<close>: at most 255 characters, up to and with the first newline; the lines the
  reading loop sees, each cut at its first NUL by the string functions.
\<close>

definition fgets_chunk :: "string \<Rightarrow> string" where
  "fgets_chunk s =
     (let l = takeWhile (\<lambda>c. c \<noteq> NL) (take 255 s)
      in if length l < 255 \<and> length l < length s then l @ [NL] else l)"

lemma fgets_chunk_nonempty: "s \<noteq> [] \<Longrightarrow> fgets_chunk s \<noteq> []"
  by (cases s) (auto simp: fgets_chunk_def Let_def)

function fgets_lines :: "string \<Rightarrow> string list" where
  "fgets_lines s =
     (if s = [] then []
      else takeWhile (\<lambda>c. c \<noteq> NUL) (fgets_chunk s) # fgets_lines (drop (length (fgets_chunk s)) s))"
  by pat_completeness auto
termination by (relation "measure length") (auto simp: fgets_chunk_nonempty)

declare fgets_lines.simps [simp del]

text \<open>
  \<open>sscanf(line, "%63[^=]=%d", key, &v) == 2\<close>. A number outside 64 bits is clamped and the result
  stored in 32 bits, as on the hosts the runtime is built for.
\<close>

definition clamp64 :: "int \<Rightarrow> int" where
  "clamp64 i = (if i < - (2 ^ 63) then - (2 ^ 63) else if i \<ge> 2 ^ 63 then 2 ^ 63 - 1 else i)"

definition scan_key_value :: "string \<Rightarrow> (string \<times> i32) option" where
  "scan_key_value line =
     (let key = takeWhile (\<lambda>c. c \<noteq> EQ) (take 63 line);
          rest = drop (length key) line
      in if key = [] \<or> rest = [] \<or> hd rest \<noteq> EQ then None
         else case scan_d (tl rest) of None \<Rightarrow> None
              | Some (v, _) \<Rightarrow> Some (key, word_of_int (clamp64 v)))"

definition read_line :: "string \<Rightarrow> settings \<Rightarrow> settings" where
  "read_line line s =
     (case scan_key_value line of None \<Rightarrow> s
      | Some (key, v) \<Rightarrow>
          if key = ''lang'' then s\<lparr>st_lang := v\<rparr>
          else if key = ''pro'' then s\<lparr>st_pro := of_bool (v \<noteq> 0)\<rparr>
          else if key = ''upscale'' then s\<lparr>st_upscale := of_bool (v \<noteq> 0)\<rparr>
          else if key = ''hud'' then s\<lparr>st_hud := of_bool (v \<noteq> 0)\<rparr>
          else if key = ''metal'' then s\<lparr>st_metal := (if v = 3 \<or> v = 4 then v else 0)\<rparr>
          else s)"

definition ps4_settings_file_read :: "string option \<Rightarrow> settings \<Rightarrow> bool \<times> settings" where
  "ps4_settings_file_read file s =
     (case file of None \<Rightarrow> (False, s)
      | Some text \<Rightarrow> (True, fold read_line (fgets_lines text) (s\<lparr>st_metal := 0\<rparr>)))"

section \<open>Writing\<close>

text \<open>\<open>fprintf(out, "%s=%d\\n", kOwned[k], owned_value(s, k))\<close>.\<close>

definition owned_line :: "settings \<Rightarrow> nat \<Rightarrow> string" where
  "owned_line s k = kOwned ! k @ [EQ] @ fmt0 0 (sint (owned_value s k)) @ [NL]"

text \<open>The loop over the old lines: what it writes and which keys it has written.\<close>

function copy_lines :: "settings \<Rightarrow> bool list \<Rightarrow> string \<Rightarrow> string \<times> bool list" where
  "copy_lines s written old =
     (if old = [] then ([], written)
      else
        let line = takeWhile (\<lambda>c. c \<noteq> NL) old;
            rest = drop (Suc (length line)) old
        in case owned_key line of
             None \<Rightarrow> (let (out, w) = copy_lines s written rest in (line @ [NL] @ out, w))
           | Some k \<Rightarrow>
               if \<not> written ! k
               then (let (out, w) = copy_lines s (written[k := True]) rest in (owned_line s k @ out, w))
               else copy_lines s written rest)"
  by pat_completeness auto
termination by (relation "measure (\<lambda>(_, _, old). length old)") auto

declare copy_lines.simps [simp del]

definition settings_text :: "settings \<Rightarrow> string \<Rightarrow> string" where
  "settings_text s old =
     (let (out, written) = copy_lines s (replicate 4 False) old
      in out @ concat (map (owned_line s) (filter (\<lambda>k. \<not> written ! k) [0..<4])))"

text \<open>
  The host's part: whether reading fails, whether the temporary name fits its buffer, whether the
  temporary file opens, is flushed and closed, and is renamed. The result is the return value and
  the new content of the file, \<open>None\<close> when it stays as it is.
\<close>

record write_host =
  wh_read_err :: bool
  wh_name_fits :: bool
  wh_open_ok :: bool
  wh_flush_ok :: bool
  wh_rename_ok :: bool

definition ps4_settings_file_write ::
  "write_host \<Rightarrow> string option \<Rightarrow> settings \<Rightarrow> bool \<times> string option" where
  "ps4_settings_file_write h file s =
     (let old = (case file of None \<Rightarrow> [] | Some text \<Rightarrow> text) in
      if file \<noteq> None \<and> (length old > SETTINGS_FILE_MAX \<or> wh_read_err h) then (False, None)
      else if \<not> wh_name_fits h then (False, None)
      else if \<not> wh_open_ok h then (False, None)
      else if wh_flush_ok h \<and> wh_rename_ok h then (True, Some (settings_text s old))
      else (False, None))"

end
