(* ===== verification/SettingsProps.thy ===== *)
theory SettingsProps
  imports SettingsFile
begin

text \<open>
  Writing the settings file keeps the lines of other programs and each owned key exactly once, and
  reading it back gives what was written.
\<close>

section \<open>Lines\<close>

function text_lines :: "string \<Rightarrow> string list" where
  "text_lines s =
     (if s = [] then []
      else let l = takeWhile (\<lambda>c. c \<noteq> NL) s in l # text_lines (drop (Suc (length l)) s))"
  by pat_completeness auto
termination by (relation "measure length") auto

declare text_lines.simps [simp del]

lemma text_lines_Nil [simp]: "text_lines [] = []"
  by (subst text_lines.simps) simp

lemma text_lines_step: "s \<noteq> [] \<Longrightarrow>
    text_lines s = takeWhile (\<lambda>c. c \<noteq> NL) s # text_lines (drop (Suc (length (takeWhile (\<lambda>c. c \<noteq> NL) s))) s)"
  by (subst text_lines.simps) (simp add: Let_def)

lemma text_lines_line: "NL \<notin> set l \<Longrightarrow> text_lines (l @ [NL] @ s) = l # text_lines s"
proof -
  assume "NL \<notin> set l"
  then have "takeWhile (\<lambda>c. c \<noteq> NL) (l @ [NL] @ s) = l" by (subst takeWhile_append2) auto
  then show ?thesis by (subst text_lines_step) simp_all
qed

lemma text_lines_concat:
  "\<forall>l \<in> set ls. NL \<notin> set l \<Longrightarrow> text_lines (concat (map (\<lambda>l. l @ [NL]) ls)) = ls"
proof (induction ls)
  case (Cons l ls)
  then show ?case using text_lines_line [of l "concat (map (\<lambda>l. l @ [NL]) ls)"] by simp
qed simp

lemma text_lines_no_nl: "\<forall>l \<in> set (text_lines s). NL \<notin> set l"
proof (induction s rule: text_lines.induct)
  case (1 s)
  show ?case
  proof (cases "s = []")
    case False
    then show ?thesis using 1 [OF False refl] set_takeWhileD
      by (subst text_lines_step [OF False]) fastforce
  qed simp
qed

lemma text_lines_set: "\<forall>l \<in> set (text_lines s). set l \<subseteq> set s"
proof (induction s rule: text_lines.induct)
  case (1 s)
  show ?case
  proof (cases "s = []")
    case False
    let ?d = "drop (Suc (length (takeWhile (\<lambda>c. c \<noteq> NL) s))) s"
    have "set ?d \<subseteq> set s" by (rule set_drop_subset)
    moreover have "\<forall>l \<in> set (text_lines ?d). set l \<subseteq> set ?d" by (rule 1 [OF False refl])
    moreover have "set (takeWhile (\<lambda>c. c \<noteq> NL) s) \<subseteq> set s" by (auto dest: set_takeWhileD)
    ultimately show ?thesis unfolding text_lines_step [OF False] by auto
  qed simp
qed

section \<open>What the writer emits, line by line\<close>

definition owned_body :: "settings \<Rightarrow> nat \<Rightarrow> string" where
  "owned_body s k = kOwned ! k @ [EQ] @ fmt0 0 (sint (owned_value s k))"

lemma owned_line_body: "owned_line s k = owned_body s k @ [NL]"
  by (simp add: owned_line_def owned_body_def)

fun copy_list :: "settings \<Rightarrow> bool list \<Rightarrow> string list \<Rightarrow> string list \<times> bool list" where
  "copy_list s written [] = ([], written)"
| "copy_list s written (l # ls) =
     (case owned_key l of
        None \<Rightarrow> (let (out, w) = copy_list s written ls in (l # out, w))
      | Some k \<Rightarrow>
          if \<not> written ! k
          then (let (out, w) = copy_list s (written[k := True]) ls in (owned_body s k # out, w))
          else copy_list s written ls)"

abbreviation unlines :: "string list \<Rightarrow> string" where
  "unlines ls \<equiv> concat (map (\<lambda>l. l @ [NL]) ls)"

lemma copy_lines_list:
  "copy_lines s written old = (unlines (fst (copy_list s written (text_lines old))), snd (copy_list s written (text_lines old)))"
proof (induction s written old rule: copy_lines.induct)
  case (1 s written old)
  show ?case
  proof (cases "old = []")
    case True
    then show ?thesis by (subst copy_lines.simps) simp
  next
    case False
    show ?thesis
      using 1 [OF False refl refl]
      by (subst copy_lines.simps, subst (1 2) text_lines_step [OF False])
        (auto simp: False Let_def owned_line_body split: option.splits prod.splits)
  qed
qed

definition settings_lines :: "settings \<Rightarrow> string list \<Rightarrow> string list" where
  "settings_lines s ls =
     (let (out, written) = copy_list s (replicate 4 False) ls
      in out @ map (owned_body s) (filter (\<lambda>k. \<not> written ! k) [0..<4]))"

lemma settings_text_lines: "settings_text s old = unlines (settings_lines s (text_lines old))"
proof -
  have "concat (map (owned_line s) ks) = unlines (map (owned_body s) ks)" for ks
    by (induction ks) (simp_all add: owned_line_body)
  then show ?thesis
    by (simp add: settings_text_def settings_lines_def copy_lines_list split: prod.splits)
qed

section \<open>Owned keys\<close>

lemma four: "(k :: nat) < 4 \<Longrightarrow> k = 0 \<or> k = 1 \<or> k = 2 \<or> k = 3"
  by linarith

lemma owned_key_less: "owned_key l = Some k \<Longrightarrow> k < 4"
  by (auto simp: owned_key_def Let_def find_Some_iff split: if_splits)

lemma kOwned_plain: "k < 4 \<Longrightarrow> EQ \<notin> set (kOwned ! k) \<and> NL \<notin> set (kOwned ! k) \<and> NUL \<notin> set (kOwned ! k) \<and>
    kOwned ! k \<noteq> [] \<and> length (kOwned ! k) \<le> 7"
  by (drule four) (auto simp: kOwned_def numeral_eq_Suc)

lemma owned_key_Some:
  assumes "owned_key l = Some k"
  shows "takeWhile (\<lambda>c. c \<noteq> EQ) l = kOwned ! k" and "EQ \<in> set l"
  using assms by (auto simp: owned_key_def Let_def find_Some_iff split: if_splits)

lemma kOwned_distinct: "i < 4 \<Longrightarrow> j < 4 \<Longrightarrow> kOwned ! i = kOwned ! j \<Longrightarrow> i = j"
  using nth_eq_iff_index_eq [of kOwned i j] by (simp add: kOwned_def)

lemma owned_key_body: "k < 4 \<Longrightarrow> owned_key (owned_body s k) = Some k"
proof -
  assume k: "k < 4"
  have tw: "takeWhile (\<lambda>c. c \<noteq> EQ) (owned_body s k) = kOwned ! k"
    using kOwned_plain [OF k] unfolding owned_body_def by (subst takeWhile_append2) auto
  have "List.find (\<lambda>j. kOwned ! j = kOwned ! k) [0..<4] = Some k"
  proof -
    have "kOwned ! j \<noteq> kOwned ! k" if "j < k" for j
      using kOwned_distinct [of j k] that k by auto
    then show ?thesis using k by (auto simp: find_Some_iff intro!: exI [of _ k])
  qed
  then show ?thesis unfolding owned_key_def Let_def tw by (simp add: owned_body_def)
qed

lemma copy_list_foreign:
  "filter (\<lambda>l. owned_key l = None) (fst (copy_list s written ls)) = filter (\<lambda>l. owned_key l = None) ls"
  by (induction s written ls rule: copy_list.induct)
    (auto simp: Let_def owned_key_body dest: owned_key_less split: option.splits prod.splits)

lemma copy_list_owned:
  assumes "length written = 4" and "k < 4"
  shows "filter (\<lambda>l. owned_key l = Some k) (fst (copy_list s written ls)) =
           (if \<not> written ! k \<and> (\<exists>l \<in> set ls. owned_key l = Some k) then [owned_body s k] else [])
         \<and> length (snd (copy_list s written ls)) = 4
         \<and> snd (copy_list s written ls) ! k = (written ! k \<or> (\<exists>l \<in> set ls. owned_key l = Some k))"
  using assms
proof (induction s written ls rule: copy_list.induct)
  case (2 s written l ls)
  show ?case
  proof (cases "owned_key l")
    case None
    then show ?thesis using 2(1) [OF None] 2(4,5) by (auto split: prod.splits)
  next
    case (Some j)
    have j: "j < 4" by (rule owned_key_less [OF Some])
    show ?thesis
    proof (cases "written ! j")
      case True
      then show ?thesis using 2(3) [OF Some] 2(4,5) Some by (auto split: prod.splits)
    next
      case False
      then show ?thesis using 2(2) [OF Some] 2(4,5) Some owned_key_body [OF j] j
        by (cases "j = k") (auto split: prod.splits)
    qed
  qed
qed simp

lemma body_filters:
  "\<forall>k \<in> set ks. k < 4 \<Longrightarrow> distinct ks \<Longrightarrow>
   filter (\<lambda>l. owned_key l = None) (map (owned_body s) ks) = [] \<and>
   filter (\<lambda>l. owned_key l = Some k) (map (owned_body s) ks) = (if k \<in> set ks then [owned_body s k] else [])"
  by (induction ks) (auto simp: owned_key_body)

lemma settings_lines_foreign:
  "filter (\<lambda>l. owned_key l = None) (settings_lines s ls) = filter (\<lambda>l. owned_key l = None) ls"
proof -
  obtain out w where c: "copy_list s (replicate 4 False) ls = (out, w)"
    by (cases "copy_list s (replicate 4 False) ls")
  have "filter (\<lambda>l. owned_key l = None) (map (owned_body s) (filter (\<lambda>k. \<not> w ! k) [0..<4])) = []"
    by (rule conjunct1 [OF body_filters]) simp_all
  then show ?thesis
    using copy_list_foreign [of s "replicate 4 False" ls] by (simp add: settings_lines_def c)
qed

lemma settings_lines_owned:
  assumes "k < 4"
  shows "filter (\<lambda>l. owned_key l = Some k) (settings_lines s ls) = [owned_body s k]"
proof -
  obtain out w where c: "copy_list s (replicate 4 False) ls = (out, w)"
    by (cases "copy_list s (replicate 4 False) ls")
  have "filter (\<lambda>l. owned_key l = Some k) (map (owned_body s) (filter (\<lambda>k. \<not> w ! k) [0..<4])) =
      (if k \<in> set (filter (\<lambda>k. \<not> w ! k) [0..<4]) then [owned_body s k] else [])"
    by (rule conjunct2 [OF body_filters]) simp_all
  moreover have "(k \<in> set (filter (\<lambda>k. \<not> w ! k) [0..<4])) = (\<not> w ! k)" using assms by simp
  ultimately show ?thesis
    using copy_list_owned [of "replicate 4 False" k s ls] assms
    unfolding settings_lines_def c by (simp split: if_splits)
qed

lemma owned_body_plain:
  assumes "k < 4"
  shows "NL \<notin> set (owned_body s k) \<and> NUL \<notin> set (owned_body s k) \<and> length (owned_body s k) < 255"
proof -
  have dg: "\<forall>c \<in> set (dec n). is_digit c" for n by (rule dec_digits)
  have nb: "\<not> is_digit NL" "\<not> is_digit NUL" by (simp_all add: is_digit_def)
  have f: "NL \<notin> set (fmt0 0 i) \<and> NUL \<notin> set (fmt0 0 i)" for i
    using dg [of "nat i"] dg [of "nat (- i)"] nb by (auto simp: fmt0_def pad0_def)
  have r: "- (2 ^ 31) \<le> sint (owned_value s k)" "sint (owned_value s k) < 2 ^ 31"
    using sint_ge [of "owned_value s k"] sint_lt [of "owned_value s k"] by simp_all
  have "length (fmt0 0 (sint (owned_value s k))) \<le> 11"
  proof -
    have "nat (sint (owned_value s k)) < 10 ^ 10" "nat (- sint (owned_value s k)) < 10 ^ 10" using r by simp_all
    then have "length (dec (nat (sint (owned_value s k)))) \<le> 10" "length (dec (nat (- sint (owned_value s k)))) \<le> 10"
      by (simp_all add: dec_length)
    then show ?thesis by (simp add: fmt0_def pad0_def)
  qed
  then show ?thesis using f kOwned_plain [OF assms] by (auto simp: owned_body_def)
qed

lemma settings_lines_set:
  "l \<in> set (settings_lines s ls) \<Longrightarrow> l \<in> set ls \<and> owned_key l = None \<or> (\<exists>k < 4. l = owned_body s k)"
proof (cases "owned_key l")
  case None
  moreover assume "l \<in> set (settings_lines s ls)"
  ultimately have "l \<in> set (filter (\<lambda>l. owned_key l = None) (settings_lines s ls))" by simp
  then show ?thesis unfolding settings_lines_foreign by simp
next
  case (Some k)
  assume "l \<in> set (settings_lines s ls)"
  with Some have "l \<in> set (filter (\<lambda>l. owned_key l = Some k) (settings_lines s ls))" by simp
  then show ?thesis
    unfolding settings_lines_owned [OF owned_key_less [OF Some]] using owned_key_less [OF Some] by auto
qed

lemma text_lines_settings: "text_lines (settings_text s old) = settings_lines s (text_lines old)"
  unfolding settings_text_lines
  by (rule text_lines_concat)
    (use settings_lines_set [of _ s "text_lines old"] text_lines_no_nl owned_body_plain in blast)

text \<open>
  C27. Whatever the old file held, the new text has the same lines of other writers in
  the same order, and for each owned key exactly one line, with the value to store.
\<close>

theorem settings_write_keeps:
  "filter (\<lambda>l. owned_key l = None) (text_lines (settings_text s old)) =
     filter (\<lambda>l. owned_key l = None) (text_lines old) \<and>
   map (\<lambda>k. filter (\<lambda>l. owned_key l = Some k) (text_lines (settings_text s old))) [0..<4] =
     map (\<lambda>k. [owned_body s k]) [0..<4]"
  by (simp add: text_lines_settings settings_lines_foreign settings_lines_owned)

section \<open>Reading a line\<close>

lemma takeWhile_take: "takeWhile P (take n xs) = take n (takeWhile P xs)"
  by (induction xs arbitrary: n) (auto simp: take_Cons split: nat.splits)

lemma dropWhile_snoc: "dropWhile P (xs @ [x]) = (if \<forall>y \<in> set xs. P y then (if P x then [] else [x]) else dropWhile P xs @ [x])"
  by (induction xs) auto

lemma scan_d_newline: "map_option fst (scan_d (t @ [NL])) = map_option fst (scan_d t)"
proof -
  have sp: "is_space NL" and nd: "\<not> is_digit NL" by (simp_all add: is_space_def is_digit_def)
  show ?thesis
  proof (cases "\<forall>c \<in> set t. is_space c")
    case True
    then have a: "dropWhile is_space (t @ [NL]) = []" by (simp add: dropWhile_snoc sp)
    have b: "dropWhile is_space t = []" using True by (simp add: dropWhile_eq_Nil_conv)
    show ?thesis unfolding scan_d_def a b by (simp add: Let_def)
  next
    case False
    define u where "u = dropWhile is_space t"
    have u: "dropWhile is_space (t @ [NL]) = u @ [NL]" "u \<noteq> []"
      using False by (simp_all add: dropWhile_snoc u_def)
    then obtain c cs where cs: "u = c # cs" by (cases u) auto
    have tw: "takeWhile is_digit (xs @ [NL]) = takeWhile is_digit xs" for xs
      using nd by (induction xs) simp_all
    show ?thesis using tw [of cs] tw [of "c # cs"]
      by (simp add: scan_d_def Let_def u_def [symmetric] u(1) cs)
  qed
qed

lemma scan_key_value_alt:
  "scan_key_value line =
     (let key = takeWhile (\<lambda>c. c \<noteq> EQ) (take 63 line);
          rest = drop (length key) line
      in if key = [] \<or> rest = [] \<or> hd rest \<noteq> EQ then None
         else map_option (\<lambda>v. (key, word_of_int (clamp64 v))) (map_option fst (scan_d (tl rest))))"
  by (auto simp: scan_key_value_def Let_def split: option.splits)

lemma scan_key_value_newline:
  assumes "NL \<notin> set l"
  shows "scan_key_value (l @ [NL]) = scan_key_value l"
proof -
  let ?k = "takeWhile (\<lambda>c. c \<noteq> EQ) (take 63 l)"
  have same: "scan_key_value (l @ [NL]) = scan_key_value l"
    if k: "takeWhile (\<lambda>c. c \<noteq> EQ) (take 63 (l @ [NL])) = ?k"
  proof -
    have "length ?k \<le> length l" by (rule order_trans [OF length_takeWhile_le]) simp
    then have d: "drop (length ?k) (l @ [NL]) = drop (length ?k) l @ [NL]" by simp
    have e: "length l \<le> length ?k \<Longrightarrow> drop (length ?k) l = []" by simp
    show ?thesis
      using e by (cases "drop (length ?k) l")
        (auto simp: scan_key_value_alt Let_def k d scan_d_newline simp del: drop_append take_append)
  qed
  consider "EQ \<in> set (take 63 l)" | "63 \<le> length l" | "length l < 63" "EQ \<notin> set l"
    by fastforce
  then show ?thesis
  proof cases
    case 3
    then have "takeWhile (\<lambda>c. c \<noteq> EQ) (take 63 (l @ [NL])) = l @ [NL]" "?k = l"
      by (auto simp: takeWhile_eq_all_conv)
    then show ?thesis by (simp add: scan_key_value_alt)
  qed (auto intro!: same simp: takeWhile_append1)
qed

lemma read_line_newline: "NL \<notin> set l \<Longrightarrow> read_line (l @ [NL]) s = read_line l s"
  by (simp add: read_line_def scan_key_value_newline)

text \<open>Short lines are read one at a time.\<close>

definition short_lines :: "string \<Rightarrow> bool" where
  "short_lines text \<longleftrightarrow> NUL \<notin> set text \<and> (\<forall>l \<in> set (text_lines text). length l < 255)"

lemma fgets_short:
  assumes "short_lines t"
  shows "fold read_line (fgets_lines t) s = fold read_line (text_lines t) s"
  using assms
proof (induction t arbitrary: s rule: text_lines.induct)
  case (1 t)
  show ?case
  proof (cases "t = []")
    case True
    then show ?thesis by (subst fgets_lines.simps) simp
  next
    case False
    define l where "l = takeWhile (\<lambda>c. c \<noteq> NL) t"
    define r where "r = drop (Suc (length l)) t"
    have tl: "text_lines t = l # text_lines r"
      unfolding l_def r_def by (rule text_lines_step [OF False])
    have nul: "NUL \<notin> set t" and ll: "length l < 255" and nl: "NL \<notin> set l"
      using 1(2) tl by (auto simp: short_lines_def l_def dest: set_takeWhileD)
    have ch: "fgets_chunk t = (if length l < length t then l @ [NL] else l)"
      using ll unfolding fgets_chunk_def takeWhile_take l_def [symmetric] by simp
    have d: "drop (length (fgets_chunk t)) t = r"
      using length_takeWhile_le [of "\<lambda>c. c \<noteq> NL" t] unfolding ch r_def by (auto simp: l_def)
    have "takeWhile (\<lambda>c. c \<noteq> NUL) (fgets_chunk t) = fgets_chunk t"
      using nul by (auto simp: ch l_def takeWhile_eq_all_conv dest: set_takeWhileD)
    then have f: "fgets_lines t = fgets_chunk t # fgets_lines r"
      using False d by (subst fgets_lines.simps) simp
    have "short_lines r"
      using 1(2) tl set_drop_subset [of "Suc (length l)" t] by (auto simp: short_lines_def r_def)
    then have "fold read_line (fgets_lines r) s' = fold read_line (text_lines r) s'" for s'
      using 1(1) [OF False refl] by (simp add: l_def r_def)
    then show ?thesis using read_line_newline [OF nl] by (simp add: f tl ch)
  qed
qed

section \<open>The round trip\<close>

lemma read_owned_body:
  assumes "k < 4"
  shows "read_line (owned_body s k) t =
    (if k = 0 then t\<lparr>st_lang := st_lang s\<rparr>
     else if k = 1 then t\<lparr>st_pro := of_bool (st_pro s \<noteq> 0)\<rparr>
     else if k = 2 then t\<lparr>st_upscale := of_bool (st_upscale s \<noteq> 0)\<rparr>
     else t\<lparr>st_hud := of_bool (st_hud s \<noteq> 0)\<rparr>)"
proof -
  let ?v = "fmt0 0 (sint (owned_value s k))"
  have r: "- (2 ^ 31) \<le> sint (owned_value s k)" "sint (owned_value s k) < 2 ^ 31"
    using sint_ge [of "owned_value s k"] sint_lt [of "owned_value s k"] by simp_all
  have len: "take 63 (owned_body s k) = kOwned ! k @ take (63 - length (kOwned ! k)) ([EQ] @ ?v)"
    using kOwned_plain [OF assms] by (simp add: owned_body_def)
  obtain n where n: "63 - length (kOwned ! k) = Suc n"
    using kOwned_plain [OF assms] by (cases "63 - length (kOwned ! k)") auto
  have key: "takeWhile (\<lambda>c. c \<noteq> EQ) (take 63 (owned_body s k)) = kOwned ! k"
    unfolding len n using kOwned_plain [OF assms] by (subst takeWhile_append2) auto
  have sc: "scan_d ?v = Some (sint (owned_value s k), [])"
    using scan_d_fmt0_all [of "[]"] by simp
  have "scan_key_value (owned_body s k) = Some (kOwned ! k, owned_value s k)"
    using kOwned_plain [OF assms] r
    unfolding scan_key_value_alt key Let_def by (simp add: owned_body_def sc clamp64_def)
  then show ?thesis
    using four [OF assms] by (auto simp: read_line_def kOwned_def owned_value_def)
qed

text \<open>A line of another writer changes the renderer only, whatever the other fields are.\<close>

lemma scan_key_owned:
  assumes "scan_key_value l = Some (key, v)" and "key = kOwned ! k" and "k < 4"
  shows "owned_key l = Some k"
proof -
  let ?k = "takeWhile (\<lambda>c. c \<noteq> EQ) (take 63 l)"
  have key: "?k = key" and ne: "drop (length ?k) l \<noteq> []" and h: "hd (drop (length ?k) l) = EQ"
    using assms(1) by (auto simp: scan_key_value_alt Let_def split: if_splits)
  obtain r where l: "l = ?k @ EQ # r"
  proof -
    have "l = ?k @ (dropWhile (\<lambda>c. c \<noteq> EQ) (take 63 l) @ drop 63 l)"
      by (metis append.assoc append_take_drop_id takeWhile_dropWhile_id)
    then have "l = ?k @ drop (length ?k) l" by (metis append_eq_conv_conj)
    with ne h that show ?thesis by (metis list.collapse)
  qed
  have "EQ \<notin> set ?k" by (auto dest: set_takeWhileD)
  then have "takeWhile (\<lambda>c. c \<noteq> EQ) (?k @ EQ # r) = ?k \<and> EQ \<in> set (?k @ EQ # r)"
    by (subst takeWhile_append2) auto
  then have tw: "takeWhile (\<lambda>c. c \<noteq> EQ) l = kOwned ! k" and mem: "EQ \<in> set l"
    unfolding l [symmetric] using key assms(2) by simp_all
  have "List.find (\<lambda>j. kOwned ! j = kOwned ! k) [0..<4] = Some k"
  proof -
    have "kOwned ! j \<noteq> kOwned ! k" if "j < k" for j
      using kOwned_distinct [of j k] that assms(3) by auto
    then show ?thesis using assms(3) by (auto simp: find_Some_iff intro!: exI [of _ k])
  qed
  then show ?thesis unfolding owned_key_def Let_def tw using mem by simp
qed

lemma read_foreign:
  assumes "owned_key l = None"
  shows "read_line l t = t\<lparr>st_metal := st_metal (read_line l t)\<rparr> \<and>
         (st_metal t = st_metal t' \<longrightarrow> st_metal (read_line l t) = st_metal (read_line l t'))"
proof (cases "scan_key_value l")
  case (Some kv)
  obtain key v where kv: "kv = (key, v)" by (cases kv)
  have "key \<noteq> kOwned ! k" if "k < 4" for k
    using scan_key_owned [OF Some [unfolded kv] _ that] assms by auto
  from this [of 0] this [of 1] this [of 2] this [of 3]
  have "key \<noteq> ''lang''" "key \<noteq> ''pro''" "key \<noteq> ''upscale''" "key \<noteq> ''hud''"
    by (simp_all add: kOwned_def)
  then show ?thesis by (simp add: read_line_def Some kv)
qed (simp add: read_line_def)

text \<open>The owned fields after reading lines each of which is foreign or one the writer wrote.\<close>

definition fields :: "settings \<Rightarrow> nat \<Rightarrow> i32" where
  "fields s k = [st_lang s, st_pro s, st_upscale s, st_hud s] ! k"

lemma read_body_fields:
  assumes "k < 4" and "j < 4"
  shows "fields (read_line (owned_body s k) t) j = (if j = k then owned_value s k else fields t j)
       \<and> st_metal (read_line (owned_body s k) t) = st_metal t"
  unfolding read_owned_body [OF assms(1)]
  using four [OF assms(1)] four [OF assms(2)] by (auto simp: fields_def owned_value_def)

lemma read_foreign_fields:
  assumes "owned_key l = None"
  shows "fields (read_line l t) k = fields t k"
proof -
  obtain m where "read_line l t = t\<lparr>st_metal := m\<rparr>" using read_foreign [OF assms] by blast
  then show ?thesis by (simp add: fields_def)
qed

lemma read_lines_fields:
  assumes "\<forall>l \<in> set ls. owned_key l = None \<or> (\<exists>k < 4. l = owned_body s k)" and "j < 4"
  shows "fields (fold read_line ls t) j = (if owned_body s j \<in> set ls then owned_value s j else fields t j)"
  using assms(1)
proof (induction ls arbitrary: t)
  case (Cons l ls)
  then have ih: "fields (fold read_line ls t') j = (if owned_body s j \<in> set ls then owned_value s j else fields t' j)" for t'
    by simp
  show ?case
  proof (cases "owned_key l")
    case None
    then have "l \<noteq> owned_body s j" using owned_key_body [OF assms(2), of s] by auto
    with ih None show ?thesis by (simp add: read_foreign_fields)
  next
    case (Some k)
    then obtain k' where k': "k' < 4" "l = owned_body s k'" using Cons.prems by auto
    have ne: "owned_body s j \<noteq> owned_body s k'" if "j \<noteq> k'"
      using owned_key_body [OF assms(2), of s] owned_key_body [OF k'(1), of s] that by (auto simp del: One_nat_def dest!: arg_cong [of _ _ owned_key])
    note f = read_body_fields [OF k'(1) assms(2), THEN conjunct1]
    show ?thesis
    proof (cases "j = k'")
      case True
      then show ?thesis unfolding k'(2) fold_Cons o_apply ih f by simp
    next
      case False
      then show ?thesis using ne [OF False] unfolding k'(2) fold_Cons o_apply ih f by simp
    qed
  qed
qed simp

text \<open>The renderer a file names does not depend on its owned lines at all.\<close>

lemma read_owned_metal:
  assumes "owned_key l = Some k"
  shows "st_metal (read_line l t) = st_metal t"
proof (cases "scan_key_value l")
  case (Some kv)
  obtain key v where kv: "kv = (key, v)" by (cases kv)
  have key: "takeWhile (\<lambda>c. c \<noteq> EQ) (take 63 l) = key"
    using Some unfolding scan_key_value_alt Let_def kv by (auto split: if_splits)
  have "key = take 63 (kOwned ! k)"
    unfolding key [symmetric] takeWhile_take owned_key_Some(1) [OF assms] by (rule refl)
  then have "key = kOwned ! k"
    using kOwned_plain [OF owned_key_less [OF assms]] by simp
  then show ?thesis
    using four [OF owned_key_less [OF assms]] by (auto simp: read_line_def Some kv kOwned_def)
qed (simp add: read_line_def)

lemma read_all_metal:
  "st_metal t = st_metal t' \<Longrightarrow>
   st_metal (fold read_line ls t) = st_metal (fold read_line (filter (\<lambda>l. owned_key l = None) ls) t')"
proof (induction ls arbitrary: t t')
  case (Cons l ls)
  then show ?case
    using read_foreign [of l t t'] read_owned_metal [of l] by (cases "owned_key l") auto
qed simp



text \<open>
  A line of another writer longer than the reader's buffer is read in pieces: the text after its
  first 255 characters is taken for a line of its own.
\<close>

lemma long_foreign_line_read:
  "st_lang (snd (ps4_settings_file_read (Some (replicate 255 CHR ''x'' @ ''lang=9'')) s)) = 9"
proof -
  let ?x = "replicate 255 CHR ''x''" and ?y = "''lang=9''"
  have a: "fgets_chunk (?x @ ?y) = ?x" by (simp add: fgets_chunk_def takeWhile_eq_all_conv [THEN iffD2])
  have b: "fgets_lines ?y = [?y]" by code_simp
  have c: "takeWhile (\<lambda>c. c \<noteq> NUL) ?x = ?x" by (rule takeWhile_eq_all_conv [THEN iffD2]) simp
  have l: "fgets_lines (?x @ ?y) = [?x, ?y]"
    by (subst fgets_lines.simps) (simp add: a b c del: append_replicate_commute)
  have d: "scan_key_value ?x = None"
    by (simp add: scan_key_value_def takeWhile_eq_all_conv [THEN iffD2])
  have e: "scan_key_value ?y = Some (''lang'', 9)" by code_simp
  show ?thesis by (simp add: ps4_settings_file_read_def l read_line_def d e)
qed

end
