(* ===== verification/GameKey.thy ===== *)
theory GameKey
  imports Prelude "HOL-Library.Char_ord" "HOL-Library.List_Lexorder" "HOL-Library.Product_Lexorder"
begin

text \<open>
  Names of the per-game files (\<open>core/ps4_game_key.c\<close>): the settings key and the save directory
  of a title. A C string argument is \<open>string option\<close>, \<open>None\<close> for NULL; the result is the return
  value and the text in the output buffer. \<open>strcmp\<close> is the order of character lists.
\<close>

definition TITLE_ID_MAX :: nat where "TITLE_ID_MAX = 31"

definition key_char :: "char \<Rightarrow> bool" where
  "key_char c \<longleftrightarrow> (CHR ''0'' \<le> c \<and> c \<le> CHR ''9'') \<or> (CHR ''a'' \<le> c \<and> c \<le> CHR ''z'') \<or>
     (CHR ''A'' \<le> c \<and> c \<le> CHR ''Z'') \<or> c = CHR ''-'' \<or> c = CHR ''_''"

text \<open>The loop of \<open>valid_title_id\<close> from position \<open>n\<close>.\<close>

fun valid_title_from :: "nat \<Rightarrow> string \<Rightarrow> bool" where
  "valid_title_from n [] = True"
| "valid_title_from n (c # cs) =
     (if \<not> key_char c \<or> n \<ge> TITLE_ID_MAX then False else valid_title_from (Suc n) cs)"

definition valid_title_id :: "string option \<Rightarrow> bool" where
  "valid_title_id s = (case s of None \<Rightarrow> False | Some t \<Rightarrow> if t = [] then False else valid_title_from 0 t)"

text \<open>\<open>snprintf(out, out_size, "%s", src)\<close> and the test \<open>n > 0 && n < out_size\<close>.\<close>

definition put_string :: "nat \<Rightarrow> string \<Rightarrow> bool \<times> string" where
  "put_string out_size src = (src \<noteq> [] \<and> length src < out_size, take (out_size - 1) src)"

definition ps4_settings_key :: "string option \<Rightarrow> string option \<Rightarrow> nat \<Rightarrow> bool \<times> string" where
  "ps4_settings_key title_id fallback out_size =
     (if out_size = 0 then (False, [])
      else
        let src = (if valid_title_id title_id then title_id else fallback)
        in case src of None \<Rightarrow> (False, [])
           | Some s \<Rightarrow> if s = [] then (False, []) else put_string out_size s)"

text \<open>The base name: without trailing slashes, the part after the last slash.\<close>

fun trim_end :: "string \<Rightarrow> nat \<Rightarrow> nat" where
  "trim_end s 0 = 0"
| "trim_end s (Suc e) = (if s ! e = CHR ''/'' then trim_end s e else Suc e)"

fun find_start :: "string \<Rightarrow> nat \<Rightarrow> nat" where
  "find_start s 0 = 0"
| "find_start s (Suc b) = (if s ! b \<noteq> CHR ''/'' then find_start s b else Suc b)"

definition ps4_game_key_for_root :: "string option \<Rightarrow> string option \<Rightarrow> nat \<Rightarrow> bool \<times> string" where
  "ps4_game_key_for_root title_id app_root out_size =
     (let base = (case app_root of None \<Rightarrow> ''default''
                  | Some r \<Rightarrow>
                      let e = trim_end r (length r); b = find_start r e
                      in if e > b \<and> e - b < 256 then take (e - b) (drop b r) else ''default'')
      in ps4_settings_key title_id (Some base) out_size)"

section \<open>The save directory of a title\<close>

text \<open>
  One entry of the base directory: its name and what \<open>lstat\<close> says of it, \<open>None\<close> when it fails,
  else whether it is a directory and the time of its last change (seconds, nanoseconds).
\<close>

record dir_entry =
  de_name :: string
  de_stat :: "(bool \<times> int \<times> int) option"

definition newer :: "int \<times> int \<Rightarrow> string \<Rightarrow> int \<times> int \<Rightarrow> string \<Rightarrow> bool" where
  "newer mtime path best_mtime best =
     (if fst mtime \<noteq> fst best_mtime then fst mtime > fst best_mtime
      else if snd mtime \<noteq> snd best_mtime then snd mtime > snd best_mtime
      else path > best)"

definition scan_entry :: "string \<Rightarrow> string \<Rightarrow> dir_entry \<Rightarrow> string \<times> int \<times> int \<Rightarrow> string \<times> int \<times> int" where
  "scan_entry base_dir suff e acc =
     (let name = de_name e; l = length name; best = fst acc; best_mtime = snd acc in
      if l \<le> length suff \<or> drop (l - length suff) name \<noteq> suff then acc
      else
        let path = base_dir @ ''/'' @ name
        in if length path \<ge> 1024 then acc
           else case de_stat e of
                  None \<Rightarrow> acc
                | Some (is_dir, mtime) \<Rightarrow>
                    if \<not> is_dir then acc
                    else if best = [] \<or> newer mtime path best_mtime best then (path, mtime)
                    else acc)"

text \<open>\<open>entries\<close>: what \<open>readdir\<close> delivers, \<open>None\<close> when the directory cannot be opened.\<close>

definition ps4_find_save_dir_by_title_id ::
  "dir_entry list option \<Rightarrow> string \<Rightarrow> string \<Rightarrow> nat \<Rightarrow> bool \<times> string option" where
  "ps4_find_save_dir_by_title_id entries base_dir title_id out_size =
     (if base_dir = [] \<or> title_id = [] \<or> out_size = 0 then (False, None)
      else
        let suff = '' ['' @ title_id @ '']''
        in if length suff \<ge> 96 then (False, None)
           else case entries of
                  None \<Rightarrow> (False, None)
                | Some es \<Rightarrow>
                    let (best, _) = fold (scan_entry base_dir suff) es ([], 0, 0)
                    in if best = [] then (False, None)
                       else let (ok, out) = put_string out_size best in (ok, Some out))"

section \<open>What they compute\<close>

lemma valid_title_from_iff: "valid_title_from n s \<longleftrightarrow> list_all key_char s \<and> (s = [] \<or> n + length s \<le> TITLE_ID_MAX)"
  by (induction n s rule: valid_title_from.induct) (auto simp: Suc_le_eq)

text \<open>A candidate directory, as the key the choice is made by: time of change, then path.\<close>

definition save_dir_key :: "string \<Rightarrow> string \<Rightarrow> dir_entry \<Rightarrow> ((int \<times> int) \<times> string) option" where
  "save_dir_key base_dir suff e =
     (let path = base_dir @ ''/'' @ de_name e in
      case de_stat e of
        Some (True, mtime) \<Rightarrow>
          if length suff < length (de_name e) \<and> drop (length (de_name e) - length suff) (de_name e) = suff
            \<and> length path < 1024
          then Some (mtime, path) else None
      | _ \<Rightarrow> None)"

lemma newer_less: "newer m p bm b \<longleftrightarrow> (bm, b) < (m, p)"
  by (cases m; cases bm) (auto simp: newer_def less_prod_def)

lemma scan_entry_key:
  "scan_entry base_dir suff e acc =
    (case save_dir_key base_dir suff e of None \<Rightarrow> acc
     | Some k \<Rightarrow> if fst acc = [] \<or> (snd acc, fst acc) < k then (snd k, fst k) else acc)"
proof -
  let ?c = "length suff < length (de_name e) \<and> drop (length (de_name e) - length suff) (de_name e) = suff"
  let ?p = "base_dir @ ''/'' @ de_name e"
  consider "\<not> ?c \<or> 1024 \<le> length ?p" | "?c" "length ?p < 1024" by linarith
  then show ?thesis
  proof cases
    case 1
    then have "save_dir_key base_dir suff e = None" by (auto simp: save_dir_key_def Let_def split: option.splits bool.splits)
    with 1 show ?thesis by (auto simp: scan_entry_def Let_def)
  next
    case 2
    then show ?thesis
      by (cases "de_stat e") (auto simp: scan_entry_def save_dir_key_def Let_def newer_less split: bool.splits)
  qed
qed

definition best_of :: "((int \<times> int) \<times> string) list \<Rightarrow> string \<times> int \<times> int" where
  "best_of ks = (if ks = [] then ([], 0, 0) else (snd (Max (set ks)), fst (Max (set ks))))"

lemma save_dir_key_path: "save_dir_key base_dir suff e = Some k \<Longrightarrow> base_dir \<noteq> [] \<Longrightarrow> snd k \<noteq> []"
  by (auto simp: save_dir_key_def Let_def split: option.splits if_splits bool.splits)

lemma Max_path:
  assumes "ks = List.map_filter (save_dir_key base_dir suff) es" and "ks \<noteq> []" and "base_dir \<noteq> []"
  shows "snd (Max (set ks)) \<noteq> []"
proof -
  have "Max (set ks) \<in> set ks" using assms(2) by (intro Max_in) simp_all
  then obtain e where "save_dir_key base_dir suff e = Some (Max (set ks))"
    unfolding assms(1) List.map_filter_def by auto
  then show ?thesis using assms(3) by (rule save_dir_key_path)
qed

lemma fold_scan_entry:
  assumes "base_dir \<noteq> []"
  shows "fold (scan_entry base_dir suff) es ([], 0, 0) = best_of (List.map_filter (save_dir_key base_dir suff) es)"
proof (induction es rule: rev_induct)
  case Nil
  then show ?case by (simp add: best_of_def List.map_filter_def)
next
  case (snoc e es)
  define ks where "ks = List.map_filter (save_dir_key base_dir suff) es"
  have app: "List.map_filter (save_dir_key base_dir suff) (es @ [e]) =
      ks @ (case save_dir_key base_dir suff e of None \<Rightarrow> [] | Some k \<Rightarrow> [k])"
    by (simp add: List.map_filter_def ks_def split: option.splits)
  have step: "fold (scan_entry base_dir suff) (es @ [e]) ([], 0, 0) = scan_entry base_dir suff e (best_of ks)"
    using snoc.IH by (simp add: ks_def)
  show ?case
  proof (cases "save_dir_key base_dir suff e")
    case None
    then show ?thesis unfolding step app by (simp add: scan_entry_key)
  next
    case (Some k)
    show ?thesis
    proof (cases "ks = []")
      case True
      then show ?thesis unfolding step app by (simp add: scan_entry_key Some best_of_def)
    next
      case False
      have p: "snd (Max (set ks)) \<noteq> []" by (rule Max_path [OF ks_def False assms])
      define M where "M = Max (set ks)"
      have mx: "Max (set (ks @ [k])) = max k M" using False by (simp add: M_def)
      have a: "best_of (ks @ [k]) = (snd (max k M), fst (max k M))" unfolding best_of_def mx by simp
      have b: "best_of ks = (snd M, fst M)" using False by (simp add: best_of_def M_def)
      have "scan_entry base_dir suff e (best_of ks) = (if M < k then (snd k, fst k) else (snd M, fst M))"
        using p by (simp add: scan_entry_key Some b M_def [symmetric])
      then show ?thesis unfolding step app using a by (auto simp: Some max_def dest: leD)
    qed
  qed
qed

text \<open>
  The save directory found is the candidate with the greatest time of change, and among
  equal times the greatest path; the call fails exactly when the arguments are empty or too long,
  the base directory cannot be opened or there is no candidate.
\<close>

theorem save_dir_newest:
  "ps4_find_save_dir_by_title_id entries base_dir title_id out_size =
     (if base_dir = [] \<or> title_id = [] \<or> out_size = 0 \<or> 96 \<le> length title_id + 3 then (False, None)
      else case map_option (List.map_filter (save_dir_key base_dir ('' ['' @ title_id @ '']''))) entries of
             None \<Rightarrow> (False, None)
           | Some ks \<Rightarrow>
               if ks = [] then (False, None)
               else let p = snd (Max (set ks)) in (length p < out_size, Some (take (out_size - 1) p)))"
proof -
  let ?suff = "'' ['' @ title_id @ '']''"
  consider "base_dir = [] \<or> title_id = [] \<or> out_size = 0 \<or> 96 \<le> length title_id + 3" | "entries = None"
    | es where "base_dir \<noteq> []" "title_id \<noteq> []" "out_size \<noteq> 0" "length ?suff < 96" "entries = Some es"
    by (cases entries) force+
  then show ?thesis
  proof cases
    case (3 es)
    define ks where "ks = List.map_filter (save_dir_key base_dir ?suff) es"
    have "ps4_find_save_dir_by_title_id entries base_dir title_id out_size =
        (let (best, _) = best_of ks in if best = [] then (False, None)
           else let (ok, out) = put_string out_size best in (ok, Some out))"
      using 3 fold_scan_entry [OF 3(1), of ?suff es] by (simp add: ps4_find_save_dir_by_title_id_def ks_def)
    moreover have "List.map_filter (save_dir_key base_dir (CHR '' '' # CHR ''['' # title_id @ '']'')) es = ks"
      by (simp add: ks_def)
    ultimately show ?thesis
      using 3 Max_path [OF ks_def _ 3(1)]
      by (cases "ks = []") (simp_all add: best_of_def put_string_def Let_def)
  qed (auto simp: ps4_find_save_dir_by_title_id_def Let_def)
qed

definition last_component :: "string \<Rightarrow> string" where
  "last_component r =
     rev (takeWhile (\<lambda>c. c \<noteq> CHR ''/'') (dropWhile (\<lambda>c. c = CHR ''/'') (rev r)))"

lemma trim_end_rev:
  "e \<le> length r \<Longrightarrow> trim_end r e \<le> e \<and>
     rev (take (trim_end r e) r) = dropWhile (\<lambda>c. c = CHR ''/'') (rev (take e r))"
  by (induction r e rule: trim_end.induct) (auto simp: take_Suc_conv_app_nth)

lemma find_start_rev:
  "b \<le> length r \<Longrightarrow> find_start r b \<le> b \<and>
     rev (take (b - find_start r b) (drop (find_start r b) r)) = takeWhile (\<lambda>c. c \<noteq> CHR ''/'') (rev (take b r))"
proof (induction r b rule: find_start.induct)
  case (2 s b)
  show ?case
  proof (cases "s ! b = CHR ''/''")
    case True
    then show ?thesis using 2(2) by (simp add: take_Suc_conv_app_nth)
  next
    case False
    let ?a = "find_start s b"
    have ih: "?a \<le> b" "rev (take (b - ?a) (drop ?a s)) = takeWhile (\<lambda>c. c \<noteq> CHR ''/'') (rev (take b s))"
      using 2 False by simp_all
    have "take (Suc b - ?a) (drop ?a s) = take (b - ?a) (drop ?a s) @ [s ! b]"
      using ih(1) 2(2) by (simp add: Suc_diff_le take_Suc_conv_app_nth)
    then show ?thesis using False ih 2(2) by (simp add: take_Suc_conv_app_nth)
  qed
qed simp

lemma base_name:
  "(let e = trim_end r (length r); b = find_start r e in take (e - b) (drop b r)) = last_component r
   \<and> (let e = trim_end r (length r); b = find_start r e in e - b) = length (last_component r)"
proof -
  define e where "e = trim_end r (length r)"
  have e: "e \<le> length r" "rev (take e r) = dropWhile (\<lambda>c. c = CHR ''/'') (rev r)"
    using trim_end_rev [of "length r" r] by (simp_all add: e_def)
  have b: "find_start r e \<le> e" "rev (take (e - find_start r e) (drop (find_start r e) r)) = takeWhile (\<lambda>c. c \<noteq> CHR ''/'') (rev (take e r))"
    using find_start_rev [OF e(1)] by simp_all
  have t: "take (e - find_start r e) (drop (find_start r e) r) = last_component r"
    using arg_cong [OF b(2), of rev] by (simp add: e(2) last_component_def)
  have "e - find_start r e = length (take (e - find_start r e) (drop (find_start r e) r))"
    using e(1) b(1) by simp
  then show ?thesis using t by (simp add: e_def [symmetric] Let_def)
qed

text \<open>
  The settings key is the title id when it has 1 to 31 letters, digits, dashes or
  underscores and otherwise the last component of the application's directory, \<open>default\<close> when that is
  empty or longer than 255 characters.
\<close>

theorem game_key_exact:
  "ps4_game_key_for_root title_id app_root out_size =
     (let valid = (\<exists>t. title_id = Some t \<and> 1 \<le> length t \<and> length t \<le> 31 \<and> list_all key_char t);
          comp = (case app_root of None \<Rightarrow> [] | Some r \<Rightarrow> last_component r);
          key = (if valid then the title_id else if comp = [] \<or> 255 < length comp then ''default'' else comp)
      in (length key < out_size, take (out_size - 1) key))"
proof -
  have valid: "valid_title_id title_id \<longleftrightarrow> (\<exists>t. title_id = Some t \<and> 1 \<le> length t \<and> length t \<le> 31 \<and> list_all key_char t)"
    by (auto simp: valid_title_id_def valid_title_from_iff TITLE_ID_MAX_def Suc_le_eq split: option.splits)
  have base: "(case app_root of None \<Rightarrow> ''default'' | Some r \<Rightarrow>
        let e = trim_end r (length r); b = find_start r e
        in if e > b \<and> e - b < 256 then take (e - b) (drop b r) else ''default'') =
      (let comp = (case app_root of None \<Rightarrow> [] | Some r \<Rightarrow> last_component r)
       in if comp = [] \<or> 255 < length comp then ''default'' else comp)"
  proof (cases app_root)
    case (Some r)
    have l: "trim_end r (length r) - find_start r (trim_end r (length r)) = length (last_component r)"
      "take (trim_end r (length r) - find_start r (trim_end r (length r))) (drop (find_start r (trim_end r (length r))) r) = last_component r"
      using base_name [of r] unfolding Let_def by blast+
    then have "find_start r (trim_end r (length r)) < trim_end r (length r) \<longleftrightarrow> last_component r \<noteq> []"
      by (metis length_greater_0_conv zero_less_diff)
    then show ?thesis using l by (auto simp: Some Let_def)
  qed simp
  define bn where "bn = (let comp = (case app_root of None \<Rightarrow> [] | Some r \<Rightarrow> last_component r)
       in if comp = [] \<or> 255 < length comp then ''default'' else comp)"
  have ne: "bn \<noteq> []" by (simp add: bn_def Let_def)
  have "ps4_game_key_for_root title_id app_root out_size = ps4_settings_key title_id (Some bn) out_size"
    unfolding ps4_game_key_for_root_def base bn_def by (simp add: Let_def)
  also have "\<dots> = (let key = if valid_title_id title_id then the title_id else bn
      in (length key < out_size, take (out_size - 1) key))"
    using ne valid by (auto simp: ps4_settings_key_def put_string_def Let_def)
  finally show ?thesis unfolding valid bn_def by (auto simp: Let_def)
qed

end
