(* ===== verification/Vfs.thy ===== *)
theory Vfs
  imports Pak
begin

unbundle bit_operations_syntax

text \<open>
  The virtual file system, \<open>kernel/vfs/ps4_vfs.c\<close>: the application root, the mount table, the
  translation of guest paths, and files that are either host files or entries of a pak archive
  under virtual descriptors. The host's file system is the record \<open>host_fs\<close>; a C call that
  returns -1 and sets \<open>errno\<close> gives \<open>Inl errno\<close>. Buffers of 1024 bytes cut their text at 1023
  characters (\<open>cut1024\<close>).
\<close>

section \<open>The host\<close>

record vstat =
  vs_mode :: u32
  vs_nlink :: u32
  vs_size :: u64
  vs_blksize :: u32
  vs_blocks :: u64

record host_fs =
  hf_access :: "string \<Rightarrow> u32 \<Rightarrow> bool"
  hf_list :: "string \<Rightarrow> string list option"
  hf_realpath :: "string \<Rightarrow> string option"
  hf_stat :: "string \<Rightarrow> i32 + vstat"
  hf_open :: "string \<Rightarrow> u32 \<Rightarrow> u32 \<Rightarrow> i32 + i32"
  hf_app_dir :: "string option"
  hf_exec_path :: "string option"
  hf_cwd :: "string option"

abbreviation (input) F_OK :: u32 where "F_OK \<equiv> 0"
abbreviation (input) W_OK :: u32 where "W_OK \<equiv> 2"
abbreviation (input) O_CREAT :: u32 where "O_CREAT \<equiv> 0x200"
abbreviation (input) O_ACCMODE :: u32 where "O_ACCMODE \<equiv> 3"
abbreviation (input) ENOENT :: i32 where "ENOENT \<equiv> 2"
abbreviation (input) EBADF :: i32 where "EBADF \<equiv> 9"
abbreviation (input) EACCES :: i32 where "EACCES \<equiv> 13"
abbreviation (input) ENFILE :: i32 where "ENFILE \<equiv> 23"
abbreviation (input) EROFS :: i32 where "EROFS \<equiv> 30"
abbreviation (input) ENAMETOOLONG :: i32 where "ENAMETOOLONG \<equiv> 63"

abbreviation cut1024 :: "string \<Rightarrow> string" where
  "cut1024 s \<equiv> take 1023 s"

abbreviation exists_file :: "host_fs \<Rightarrow> string \<Rightarrow> bool" where
  "exists_file h p \<equiv> hf_access h p F_OK"

abbreviation (input) SL :: char where "SL \<equiv> CHR 0x2F"

section \<open>Finding the application root\<close>

text \<open>\<open>dirname\<close> of the C library.\<close>

definition c_dirname :: "string \<Rightarrow> string" where
  "c_dirname p =
     (let t = rev (dropWhile (\<lambda>c. c = SL) (rev p)) in
      if p = [] then ''.''
      else if t = [] then ''/''
      else if SL \<notin> set t then ''.''
      else let d = rev (dropWhile (\<lambda>c. c = SL) (dropWhile (\<lambda>c. c \<noteq> SL) (rev t)))
           in if d = [] then ''/'' else d)"

definition real_or :: "host_fs \<Rightarrow> string \<Rightarrow> string" where
  "real_or h p = (case hf_realpath h p of Some r \<Rightarrow> r | None \<Rightarrow> p)"

text \<open>\<open>realpath(p)\<close> when it exists.\<close>

definition real_existing :: "host_fs \<Rightarrow> string \<Rightarrow> string option" where
  "real_existing h p = (case hf_realpath h p of Some r \<Rightarrow> if exists_file h r then Some r else None | None \<Rightarrow> None)"

fun parents_with_assets :: "host_fs \<Rightarrow> nat \<Rightarrow> string \<Rightarrow> string option" where
  "parents_with_assets h 0 cur = None"
| "parents_with_assets h (Suc n) cur =
     (let parent = c_dirname cur in
      if exists_file h (cut1024 (parent @ ''/assets'')) then Some (real_or h parent)
      else parents_with_assets h n (cut1024 parent))"

definition discover_app_root :: "host_fs \<Rightarrow> string option \<Rightarrow> string" where
  "discover_app_root h hint =
     (let given = (\<lambda>v. case v of None \<Rightarrow> None | Some e \<Rightarrow> if e \<noteq> [] \<and> exists_file h e then Some e else None);
          exe_dir = (case hf_exec_path h of None \<Rightarrow> None
                     | Some e \<Rightarrow> map_option (\<lambda>r. c_dirname (cut1024 r)) (hf_realpath h e));
          bundle = (\<lambda>name. case exe_dir of None \<Rightarrow> None
                     | Some d \<Rightarrow> real_existing h (cut1024 (d @ name)));
          sub = (\<lambda>d name. exists_file h (cut1024 (d @ name)))
      in case given (hf_app_dir h) of Some e \<Rightarrow> real_or h e
       | None \<Rightarrow>
      (case bundle ''/../SharedSupport'' of Some r \<Rightarrow> r
       | None \<Rightarrow>
      (case bundle ''/../Resources'' of Some r \<Rightarrow> r
       | None \<Rightarrow>
      (case (case given hint of Some d \<Rightarrow>
               if sub d ''/sce_sys'' \<or> sub d ''/param.sfo'' \<or> sub d ''/eboot.bin'' \<or> sub d ''/Media''
               then Some (real_or h d) else None
             | None \<Rightarrow> None) of Some r \<Rightarrow> r
       | None \<Rightarrow>
      (case (case exe_dir of None \<Rightarrow> None
             | Some d \<Rightarrow>
                 if sub d ''/param.sfo'' \<or> sub d ''/sce_sys'' \<or> sub d ''/assets'' then Some (real_or h d)
                 else parents_with_assets h 4 (cut1024 d)) of Some r \<Rightarrow> r
       | None \<Rightarrow>
      if exists_file h ''assets'' \<or> exists_file h ''Media''
      then (case hf_cwd h of Some c \<Rightarrow> c | None \<Rightarrow> ''.'')
      else (case given hint of Some d \<Rightarrow> real_or h d | None \<Rightarrow> ''.''))))))"

section \<open>State, mounts\<close>

definition MAX_VFS_MOUNTS :: nat where "MAX_VFS_MOUNTS = 32"
definition MAX_VIRTUAL_FILES :: nat where "MAX_VIRTUAL_FILES = 256"
definition PS4_VFS_VIRTUAL_FD_BASE :: nat where "PS4_VFS_VIRTUAL_FD_BASE = 10000"

record vfs_mount =
  vm_guest :: string
  vm_host :: string
  vm_active :: bool

record vfile =
  vf_active :: bool
  vf_pak_fd :: i32
  vf_data :: u64
  vf_size :: u64
  vf_cur :: u64
  vf_path :: string

definition vfile_zero :: vfile where
  "vfile_zero = \<lparr>vf_active = False, vf_pak_fd = 0, vf_data = 0, vf_size = 0, vf_cur = 0, vf_path = []\<rparr>"

text \<open>The mount table is the first \<open>g_mount_count\<close> entries of the array.\<close>

record vfs =
  v_root :: "string option"
  v_mounts :: "vfs_mount list"
  v_files :: "vfile list"

definition strip_trailing :: "string \<Rightarrow> string" where
  "strip_trailing s = take (max 1 (length (dropWhile (\<lambda>c. c = SL) (rev s)))) s"

definition ps4_vfs_init :: "host_fs \<Rightarrow> string option \<Rightarrow> vfs \<Rightarrow> vfs" where
  "ps4_vfs_init h app_root st =
     \<lparr>v_root = Some (strip_trailing (discover_app_root h app_root)), v_mounts = [],
      v_files = replicate MAX_VIRTUAL_FILES vfile_zero\<rparr>"

definition ps4_vfs_get_app_root :: "vfs \<Rightarrow> string" where
  "ps4_vfs_get_app_root st = (case v_root st of Some r \<Rightarrow> r | None \<Rightarrow> ''.'')"

fun find_mount :: "string \<Rightarrow> vfs_mount list \<Rightarrow> nat option" where
  "find_mount g [] = None"
| "find_mount g (m # ms) =
     (if vm_active m \<and> vm_guest m = g then Some 0 else map_option Suc (find_mount g ms))"

definition ps4_vfs_mount :: "string option \<Rightarrow> string option \<Rightarrow> vfs \<Rightarrow> i32 \<times> vfs" where
  "ps4_vfs_mount guest_prefix host_path st =
     (case (guest_prefix, host_path) of
        (Some g, Some p) \<Rightarrow>
          if g = [] \<or> p = [] then (- EINVAL, st)
          else (case find_mount g (v_mounts st) of
                  Some i \<Rightarrow> (0, st\<lparr>v_mounts := (v_mounts st)[i := (v_mounts st ! i)\<lparr>vm_host := strncpy_name 1024 p\<rparr>]\<rparr>)
                | None \<Rightarrow>
                    if length (v_mounts st) \<ge> MAX_VFS_MOUNTS then (- ENOMEM, st)
                    else (0, st\<lparr>v_mounts := v_mounts st @ [\<lparr>vm_guest = strncpy_name 64 g, vm_host = strncpy_name 1024 p, vm_active = True\<rparr>]\<rparr>))
      | _ \<Rightarrow> (- EINVAL, st))"

definition ps4_vfs_unmount :: "string option \<Rightarrow> vfs \<Rightarrow> i32 \<times> vfs" where
  "ps4_vfs_unmount guest_prefix st =
     (case guest_prefix of
        None \<Rightarrow> (- EINVAL, st)
      | Some g \<Rightarrow> (case find_mount g (v_mounts st) of
                    Some i \<Rightarrow> (0, st\<lparr>v_mounts := (v_mounts st)[i := (v_mounts st ! i)\<lparr>vm_active := False\<rparr>]\<rparr>)
                  | None \<Rightarrow> (- ENOENT, st)))"

section \<open>Paths\<close>

text \<open>The tokens \<open>strtok_r\<close> finds between slashes.\<close>

fun slash_tokens :: "string \<Rightarrow> string \<Rightarrow> string list" where
  "slash_tokens acc [] = (if acc = [] then [] else [acc])"
| "slash_tokens acc (c # cs) =
     (if c = SL then (if acc = [] then slash_tokens [] cs else acc # slash_tokens [] cs)
      else slash_tokens (acc @ [c]) cs)"

definition norm_segment :: "string \<Rightarrow> string list \<Rightarrow> string list" where
  "norm_segment token segs =
     (if token = ''.'' \<or> token = [] then segs
      else if token = ''..'' then butlast segs
      else if length segs < 64 then segs @ [token] else segs)"

fun norm_write :: "nat \<Rightarrow> string \<Rightarrow> string list \<Rightarrow> string" where
  "norm_write out_sz out [] = out"
| "norm_write out_sz out (s # ss) =
     (if length out + length s + 2 \<ge> out_sz then out
      else norm_write out_sz (out @ (if out \<noteq> [] then [SL] else []) @ s) ss)"

definition normalize_chroot_subpath :: "string \<Rightarrow> nat \<Rightarrow> string" where
  "normalize_chroot_subpath subpath out_sz =
     (let segs = fold norm_segment (slash_tokens [] (cut1024 subpath)) []
      in norm_write out_sz [] segs)"

text \<open>
  The first loop of the case-insensitive lookup: components are cut from the end of \<open>cur\<close> until
  what is left exists. At most 64 are kept. When no slash is left, the part that is stored points to
  the text that is then emptied, so it is stored empty.
\<close>

definition push_part :: "string \<Rightarrow> string list \<Rightarrow> string list" where
  "push_part p parts = (if length parts < 64 then parts @ [p] else parts)"

definition last_slash :: "string \<Rightarrow> nat option" where
  "last_slash s = List.find (\<lambda>i. s ! i = SL) (rev [0..<length s])"

lemma last_slash_less: "last_slash s = Some i \<Longrightarrow> i < length s"
  by (auto simp: last_slash_def find_Some_iff rev_nth)

function peel :: "host_fs \<Rightarrow> string \<Rightarrow> string list \<Rightarrow> string \<times> string list" where
  "peel h cur parts =
     (if cur = [] then (cur, parts)
      else if exists_file h cur then (cur, parts)
      else (case last_slash cur of
              None \<Rightarrow> ([], push_part [] parts)
            | Some i \<Rightarrow>
                if i = 0 then ([], push_part (drop 1 cur) parts)
                else peel h (take i cur) (push_part (drop (Suc i) cur) parts)))"
  by pat_completeness auto
termination by (relation "measure (\<lambda>(h, cur, parts). length cur)") (auto dest: last_slash_less)

declare peel.simps [simp del]

definition under :: "string \<Rightarrow> string \<Rightarrow> string" where
  "under resolved name = cut1024 (resolved @ (if resolved = ''/'' then [] else ''/'') @ name)"

definition match_part :: "host_fs \<Rightarrow> string \<Rightarrow> string \<Rightarrow> string" where
  "match_part h part resolved =
     (if part = [] then resolved
      else if exists_file h (under resolved part) then under resolved part
      else (case hf_list h resolved of
              None \<Rightarrow> under resolved part
            | Some names \<Rightarrow>
                (case List.find (\<lambda>n. strcaseeq n part) names of
                   Some n \<Rightarrow> under resolved n
                 | None \<Rightarrow> under resolved part)))"

definition case_insensitive_lookup :: "host_fs \<Rightarrow> string \<Rightarrow> nat \<Rightarrow> i32 + string" where
  "case_insensitive_lookup h host_path out_sz =
     (if out_sz = 0 then Inl (- EINVAL)
      else if exists_file h host_path then
        (if length host_path \<ge> out_sz then Inl (- ENAMETOOLONG) else Inr host_path)
      else if length host_path \<ge> 1024 then Inl (- ENAMETOOLONG)
      else
        let (cur, parts) = peel h host_path [];
            resolved = fold (match_part h) (rev parts) (if cur \<noteq> [] then cur else ''/'')
        in if length resolved \<ge> out_sz then Inl (- ENAMETOOLONG) else Inr resolved)"

definition has_prefix :: "string \<Rightarrow> string \<Rightarrow> bool" where
  "has_prefix g p \<longleftrightarrow> take (length p) g = p \<and> (length g = length p \<or> g ! length p = SL)"

definition host_join :: "string \<Rightarrow> string \<Rightarrow> string" where
  "host_join root g =
     (let norm = normalize_chroot_subpath (skip_slashes g) 1024
      in cut1024 (if norm \<noteq> [] then root @ ''/'' @ norm else root))"

definition mounted_path :: "vfs_mount list \<Rightarrow> string \<Rightarrow> string" where
  "mounted_path ms g =
     (case List.find (\<lambda>m. vm_active m \<and> has_prefix g (vm_guest m)) ms of
        None \<Rightarrow> []
      | Some m \<Rightarrow> host_join (vm_host m) (drop (length (vm_guest m)) g))"

definition raw_host_path :: "vfs \<Rightarrow> string \<Rightarrow> string" where
  "raw_host_path st g =
     (let root = ps4_vfs_get_app_root st; mp = mounted_path (v_mounts st) g in
      if mp \<noteq> [] then mp
      else if has_prefix g ''/app0'' then host_join root (drop 5 g)
      else if has_prefix g ''/hostapp'' then host_join root (drop 8 g)
      else if has_prefix g ''/data'' then host_join (root @ ''/data'') (drop 5 g)
      else if take 1 g \<noteq> ''/'' then
        (let norm = normalize_chroot_subpath g 1024
         in cut1024 (if norm \<noteq> [] then root @ ''/'' @ norm else root))
      else cut1024 g)"

definition ps4_vfs_resolve :: "host_fs \<Rightarrow> vfs \<Rightarrow> string option \<Rightarrow> nat \<Rightarrow> i32 + string" where
  "ps4_vfs_resolve h st guest_path host_path_sz =
     (case guest_path of None \<Rightarrow> Inl (- EINVAL)
      | Some g \<Rightarrow> if host_path_sz = 0 then Inl (- EINVAL)
                 else case_insensitive_lookup h (raw_host_path st g) host_path_sz)"

definition get_app0_subpath :: "string \<Rightarrow> string option" where
  "get_app0_subpath g =
     (if take 6 g = ''/app0/'' then Some (drop 6 g)
      else if g = ''/app0'' then Some []
      else if take 9 g = ''/hostapp/'' then Some (drop 9 g)
      else if take 1 g \<noteq> ''/'' then Some g
      else None)"

section \<open>Virtual descriptors\<close>

definition ps4_vfs_is_virtual_fd :: "i32 \<Rightarrow> bool" where
  "ps4_vfs_is_virtual_fd fd \<longleftrightarrow>
     int PS4_VFS_VIRTUAL_FD_BASE \<le> sint fd \<and> sint fd < int (PS4_VFS_VIRTUAL_FD_BASE + MAX_VIRTUAL_FILES)"

definition vfd_slot :: "i32 \<Rightarrow> nat" where
  "vfd_slot fd = nat (sint fd - int PS4_VFS_VIRTUAL_FD_BASE)"

text \<open>The loop over the parent locales of a resource bundle: the first that answers.\<close>

function locale_try :: "(string \<Rightarrow> 'a option) \<Rightarrow> string \<Rightarrow> 'a option" where
  "locale_try f cur =
     (case ps4_pak_get_parent_locale_path (Some cur) 1024 of None \<Rightarrow> None
      | Some par \<Rightarrow> (case f par of Some r \<Rightarrow> Some r | None \<Rightarrow> locale_try f (cut1024 par)))"
  by pat_completeness auto
termination by (relation "measure (\<lambda>(f, cur). length cur)") (auto dest: parent_shorter)

declare locale_try.simps [simp del]

definition resolved_with :: "host_fs \<Rightarrow> vfs \<Rightarrow> (string \<Rightarrow> 'a option) \<Rightarrow> string \<Rightarrow> 'a option" where
  "resolved_with h st f g =
     (case ps4_vfs_resolve h st (Some g) 1024 of Inl _ \<Rightarrow> None | Inr r \<Rightarrow> f r)"

definition free_slot :: "vfile list \<Rightarrow> nat option" where
  "free_slot fs = List.find (\<lambda>i. \<not> vf_active (fs ! i)) [0..<length fs]"

text \<open>The outer option is \<open>None\<close> when the archive lookup does not end.\<close>

definition ps4_vfs_open ::
  "host_fs \<Rightarrow> pak_state \<Rightarrow> string option \<Rightarrow> u32 \<Rightarrow> u32 \<Rightarrow> vfs \<Rightarrow> ((i32 + i32) \<times> vfs) option" where
  "ps4_vfs_open h pk guest_path host_flags mode st =
     (case guest_path of None \<Rightarrow> Some (Inl EFAULT, st)
      | Some g \<Rightarrow>
          (case resolved_with h st
                  (\<lambda>r. if exists_file h r \<or> host_flags AND O_CREAT \<noteq> 0
                       then Some (hf_open h r host_flags (if mode \<noteq> 0 then mode else 438)) else None) g of
             Some res \<Rightarrow> Some (res, st)
           | None \<Rightarrow>
          (case locale_try (resolved_with h st
                  (\<lambda>r. if exists_file h r then Some (hf_open h r host_flags mode) else None)) (cut1024 g) of
             Some res \<Rightarrow> Some (res, st)
           | None \<Rightarrow>
          (case get_app0_subpath g of
             None \<Rightarrow> Some (Inl ENOENT, st)
           | Some sub \<Rightarrow>
               (case ps4_pak_lookup pk (Some sub) of
                  None \<Rightarrow> None
                | Some None \<Rightarrow> Some (Inl ENOENT, st)
                | Some (Some (fd, off, sz, cmpr)) \<Rightarrow>
                    if host_flags AND O_ACCMODE \<noteq> 0 then Some (Inl EROFS, st)
                    else (case free_slot (v_files st) of
                            None \<Rightarrow> Some (Inl ENFILE, st)
                          | Some s \<Rightarrow>
                              Some (Inr (of_nat (PS4_VFS_VIRTUAL_FD_BASE + s)),
                                st\<lparr>v_files := (v_files st)[s :=
                                  \<lparr>vf_active = True, vf_pak_fd = fd, vf_data = off, vf_size = sz,
                                   vf_cur = 0, vf_path = strncpy_name 512 g\<rparr>]\<rparr>)))))))"

end
