(* ===== verification/VfsPaths.thy ===== *)
theory VfsPaths
  imports Vfs
begin

text \<open>
  Path translation stays inside the directory a guest path is mapped to, and resolves names
  without regard to case.
\<close>

section \<open>Normalised subpaths\<close>

definition plain_name :: "string \<Rightarrow> bool" where
  "plain_name s \<longleftrightarrow> s \<noteq> [] \<and> SL \<notin> set s \<and> s \<noteq> ''.'' \<and> s \<noteq> ''..''"

text \<open>The components of a path below its root.\<close>

definition join_path :: "string \<Rightarrow> string list \<Rightarrow> string" where
  "join_path root segs = root @ concat (map (\<lambda>s. SL # s) segs)"

lemma join_path_simps [simp]:
  "join_path root [] = root"
  "join_path root (s # ss) = join_path (root @ [SL] @ s) ss"
  "join_path root (ss @ [s]) = join_path root ss @ [SL] @ s"
  by (simp_all add: join_path_def)

lemma slash_tokens_plain:
  "SL \<notin> set acc \<Longrightarrow> \<forall>t \<in> set (slash_tokens acc s). t \<noteq> [] \<and> SL \<notin> set t"
proof (induction s arbitrary: acc)
  case (Cons c cs)
  have "\<forall>t \<in> set (slash_tokens [] cs). t \<noteq> [] \<and> SL \<notin> set t" by (rule Cons.IH) simp
  moreover have "c \<noteq> SL \<Longrightarrow> \<forall>t \<in> set (slash_tokens (acc @ [c]) cs). t \<noteq> [] \<and> SL \<notin> set t"
    by (rule Cons.IH) (use Cons.prems in auto)
  ultimately show ?case using Cons.prems by (cases "c = SL") auto
qed simp

lemma slash_tokens_length:
  "sum_list (map (\<lambda>t. Suc (length t)) (slash_tokens acc s)) \<le> length acc + length s + 1"
proof (induction acc s rule: slash_tokens.induct)
  case (2 acc c cs)
  consider "c = SL" "acc = []" | "c = SL" "acc \<noteq> []" | "c \<noteq> SL" by blast
  then show ?case
  proof cases
    case 1
    then show ?thesis using 2(1) [OF 1] by simp
  next
    case k: 2
    then show ?thesis using 2(2) [OF k] by simp
  next
    case 3
    then show ?thesis using 2(3) [OF 3] by simp
  qed
qed simp

definition norm_segs :: "string \<Rightarrow> string list" where
  "norm_segs sub = fold norm_segment (slash_tokens [] (cut1024 sub)) []"

lemma fold_norm_segment_plain:
  assumes "\<forall>t \<in> set ts. t \<noteq> [] \<and> SL \<notin> set t" and "\<forall>s \<in> set segs. plain_name s" and "length segs \<le> 64"
  shows "(\<forall>s \<in> set (fold norm_segment ts segs). plain_name s) \<and> length (fold norm_segment ts segs) \<le> 64"
  using assms
proof (induction ts arbitrary: segs)
  case (Cons t ts)
  have "(\<forall>s \<in> set (norm_segment t segs). plain_name s) \<and> length (norm_segment t segs) \<le> 64"
    using Cons.prems by (auto simp: norm_segment_def plain_name_def dest: in_set_butlastD)
  then show ?case using Cons.IH [of "norm_segment t segs"] Cons.prems(1) by simp
qed simp

abbreviation segs_len :: "string list \<Rightarrow> nat" where
  "segs_len ss \<equiv> sum_list (map (\<lambda>t. Suc (length t)) ss)"

lemma segs_len_butlast: "segs_len (butlast ss) \<le> segs_len ss"
  by (induction ss) auto

lemma fold_norm_segment_length:
  "segs_len (fold norm_segment ts segs) \<le> segs_len segs + segs_len ts"
proof (induction ts arbitrary: segs)
  case (Cons t ts)
  have "segs_len (norm_segment t segs) \<le> segs_len segs + Suc (length t)"
    using segs_len_butlast [of segs] by (auto simp: norm_segment_def)
  then show ?case using Cons.IH [of "norm_segment t segs"] by simp
qed simp

lemma norm_segs_plain: "\<forall>s \<in> set (norm_segs sub). plain_name s" "length (norm_segs sub) \<le> 64"
  using fold_norm_segment_plain [of "slash_tokens [] (cut1024 sub)" "[]"] slash_tokens_plain [of "[]" "cut1024 sub"]
  by (simp_all add: norm_segs_def)

lemma norm_segs_length: "segs_len (norm_segs sub) \<le> Suc (length sub)"
proof -
  have "segs_len (norm_segs sub) \<le> segs_len (slash_tokens [] (cut1024 sub))"
    using fold_norm_segment_length [of "slash_tokens [] (cut1024 sub)" "[]"] by (simp add: norm_segs_def)
  also have "\<dots> \<le> Suc (length (cut1024 sub))" using slash_tokens_length [of "[]" "cut1024 sub"] by simp
  finally show ?thesis by simp
qed

lemma join_path_tl: "segs \<noteq> [] \<Longrightarrow> join_path out segs = out @ [SL] @ tl (join_path [] segs)"
  by (cases segs) (simp_all add: join_path_def)

lemma length_join_path: "length (join_path root segs) = length root + segs_len segs"
  by (induction segs arbitrary: root) simp_all

lemma norm_write_all:
  assumes "\<forall>s \<in> set segs. plain_name s" and "length out + segs_len segs + 2 < out_sz"
  shows "norm_write out_sz out segs = (if out = [] then tl (join_path [] segs) else join_path out segs)"
  using assms
proof (induction segs arbitrary: out)
  case (Cons s ss)
  have s: "s \<noteq> []" using Cons.prems(1) by (simp add: plain_name_def)
  let ?o = "out @ (if out \<noteq> [] then [SL] else []) @ s"
  have "length ?o + segs_len ss + 2 < out_sz" using Cons.prems(2) by simp
  moreover have "?o \<noteq> []" using s by simp
  ultimately have "norm_write out_sz ?o ss = join_path ?o ss"
    using Cons.IH [of ?o] Cons.prems(1) by simp
  moreover have "norm_write out_sz out (s # ss) = norm_write out_sz ?o ss" using Cons.prems(2) by simp
  moreover have "tl (join_path [] (s # ss)) = join_path s ss" by (simp add: join_path_def)
  ultimately show ?case by auto
qed simp

lemma skip_slashes_length: "length (skip_slashes g) \<le> length g"
  by (simp add: skip_slashes_def length_dropWhile_le)

lemma host_join_path:
  assumes "length root + length g \<le> 1000"
  shows "host_join root g = join_path root (norm_segs (skip_slashes g))"
proof -
  let ?s = "norm_segs (skip_slashes g)"
  have l: "segs_len ?s \<le> Suc (length g)"
    using norm_segs_length [of "skip_slashes g"] skip_slashes_length [of g] by simp
  have n: "normalize_chroot_subpath (skip_slashes g) 1024 = tl (join_path [] ?s)"
    using norm_write_all [OF norm_segs_plain(1), of "[]" "skip_slashes g" 1024] l assms
    by (simp add: normalize_chroot_subpath_def norm_segs_def)
  have c: "cut1024 (join_path root ?s) = join_path root ?s"
    using l assms by (simp add: length_join_path)
  show ?thesis
  proof (cases "?s = []")
    case True
    then show ?thesis using assms by (simp add: host_join_def n)
  next
    case False
    then obtain s ss where s: "?s = s # ss" by (cases ?s) auto
    then have "s \<noteq> []" using norm_segs_plain(1) [of "skip_slashes g"] by (auto simp: plain_name_def)
    then have "tl (join_path [] ?s) \<noteq> []" by (simp add: s join_path_def)
    then show ?thesis using c join_path_tl [OF False, of root] by (simp add: host_join_def n)
  qed
qed

section \<open>Names without regard to case\<close>

lemma lower_low: "(of_char d :: nat) < 65 \<Longrightarrow> lower c = d \<Longrightarrow> c = d"
proof -
  assume d: "(of_char d :: nat) < 65" and l: "lower c = d"
  show "c = d"
  proof (cases "65 \<le> (of_char c :: nat) \<and> (of_char c :: nat) \<le> 90")
    case True
    then have "(of_char (char_of (of_char c + 32 :: nat) :: char) :: nat) = of_char c + 32"
      by (simp add: of_char_of)
    then show ?thesis using True d l by (simp add: lower_def del: of_char_of)
  next
    case False
    then show ?thesis using l by (simp only: lower_def if_False)
  qed
qed

lemma lower_fixed: "lower SL = SL" "lower CHR ''.'' = CHR ''.''"
  by (simp_all add: lower_def)

lemma strcaseeq_low_mem:
  assumes "strcaseeq s t" and "(of_char d :: nat) < 65" and "d \<in> set s"
  shows "d \<in> set t"
proof -
  have "lower d = d" using assms(2) by (simp add: lower_def)
  then have "d \<in> lower ` set t"
    using assms(1,3) by (metis imageI list.set_map strcaseeq_def)
  then obtain c where "d = lower c" "c \<in> set t" by (rule imageE)
  from lower_low [OF assms(2) this(1) [symmetric]] this(2) show ?thesis by (simp only:)
qed

lemma strcaseeq_dots:
  assumes "strcaseeq s t" and "\<forall>c \<in> set s. c = CHR ''.''"
  shows "s = t"
proof -
  have "map lower s = s"
  proof (rule map_idI)
    fix x assume "x \<in> set s"
    with assms(2) have x: "x = CHR ''.''" by (rule bspec)
    show "lower x = x" unfolding x by (rule lower_fixed(2))
  qed
  then have m: "map lower t = s" using assms(1) unfolding strcaseeq_def by metis
  have "t ! i = s ! i" if i: "i < length t" for i
  proof -
    have a: "lower (t ! i) = s ! i" unfolding m [symmetric] using i by simp
    have "s ! i \<in> set s" unfolding m [symmetric] using i by simp
    then have d: "s ! i = CHR ''.''" using assms(2) by blast
    have "t ! i = CHR ''.''" using a unfolding d by (rule lower_low [rotated]) simp
    with d show ?thesis by simp
  qed
  then show ?thesis using m by (metis length_map nth_equalityI)
qed

lemma strcaseeq_plain:
  assumes "strcaseeq s t" and "plain_name t"
  shows "plain_name s"
proof -
  have "length s = length t" using assms(1) by (metis length_map strcaseeq_def)
  then have "s \<noteq> []" using assms(2) by (auto simp: plain_name_def)
  moreover have "SL \<notin> set s"
    using strcaseeq_low_mem [OF assms(1), of SL] assms(2) by (auto simp: plain_name_def)
  moreover have "s \<noteq> ''.''" "s \<noteq> ''..''"
    using strcaseeq_dots [OF assms(1)] assms(2) by (auto simp: plain_name_def)
  ultimately show ?thesis by (simp add: plain_name_def)
qed

lemma strcaseeq_length: "strcaseeq s t \<Longrightarrow> length s = length t"
  by (metis length_map strcaseeq_def)

lemma strcaseeq_refl [simp]: "strcaseeq s s"
  by (simp add: strcaseeq_def)

section \<open>The lookup below an existing directory\<close>

lemma last_slash_snoc: "last_slash (p @ [c]) = (if c = SL then Some (length p) else last_slash p)"
proof -
  have "List.find (\<lambda>i. (p @ [c]) ! i = SL) (rev [0..<length p]) = List.find (\<lambda>i. p ! i = SL) (rev [0..<length p])"
    by (rule find_cong) (auto simp: nth_append)
  then show ?thesis by (simp add: last_slash_def)
qed

lemma last_slash_join: "SL \<notin> set s \<Longrightarrow> last_slash (p @ [SL] @ s) = Some (length p)"
proof (induction s rule: rev_induct)
  case Nil
  then show ?case using last_slash_snoc [of p SL] by simp
next
  case (snoc c s)
  then have "c \<noteq> SL" by auto
  then show ?case using last_slash_snoc [of "p @ [SL] @ s" c] snoc by simp
qed

lemma peel_join:
  assumes "exists_file h root" and "root \<noteq> []" and "\<forall>s \<in> set segs. plain_name s" and "length segs + length parts \<le> 64"
  shows "\<exists>k \<le> length segs. peel h (join_path root segs) parts = (join_path root (take k segs), parts @ rev (drop k segs))"
  using assms(3,4)
proof (induction segs arbitrary: parts rule: rev_induct)
  case Nil
  then show ?case using assms(1,2) by (subst peel.simps) simp
next
  case (snoc s segs)
  let ?p = "join_path root segs"
  show ?case
  proof (cases "exists_file h (join_path root (segs @ [s]))")
    case True
    then have "peel h (join_path root (segs @ [s])) parts = (join_path root (segs @ [s]), parts)"
      by (subst peel.simps) simp
    then show ?thesis by (intro exI [of _ "length (segs @ [s])"]) simp
  next
    case False
    have s: "SL \<notin> set s" using snoc.prems(1) by (simp add: plain_name_def)
    have ls: "last_slash (?p @ [SL] @ s) = Some (length ?p)" by (rule last_slash_join [OF s])
    have ne: "?p \<noteq> []" using assms(2) by (simp add: join_path_def)
    have "peel h (join_path root (segs @ [s])) parts = peel h ?p (parts @ [s])"
      using False ls ne snoc.prems(2)
      by (subst peel.simps) (simp add: push_part_def)
    moreover obtain k where "k \<le> length segs"
      "peel h ?p (parts @ [s]) = (join_path root (take k segs), (parts @ [s]) @ rev (drop k segs))"
      using snoc.IH [of "parts @ [s]"] snoc.prems by auto
    ultimately show ?thesis by (intro exI [of _ k]) simp
  qed
qed

lemma match_part_cases:
  assumes "plain_name s" and "r \<noteq> ''/''" and "length r + length s < 1023"
  shows "\<exists>s'. strcaseeq s' s \<and> match_part h s r = r @ [SL] @ s'"
proof -
  have u: "under r n = r @ [SL] @ n" if "length n = length s" for n
    using assms(2,3) that by (simp add: under_def)
  have "\<exists>s'. strcaseeq s' s \<and> match_part h s r = under r s'"
    using assms(1)
    by (auto simp: match_part_def plain_name_def find_Some_iff split: option.splits intro: exI [of _ s])
  then show ?thesis using u strcaseeq_length by metis
qed

lemma fold_match_part:
  assumes "\<forall>s \<in> set ss. plain_name s" and "r \<noteq> ''/''" and "length r + segs_len ss \<le> 1023" and "r \<noteq> []"
  shows "\<exists>ss'. list_all2 strcaseeq ss' ss \<and> fold (match_part h) ss r = join_path r ss'"
  using assms
proof (induction ss arbitrary: r)
  case (Cons s ss)
  obtain s' where s': "strcaseeq s' s" "match_part h s r = r @ [SL] @ s'"
    using match_part_cases [of s r h] Cons.prems by auto
  have "length s' = length s" by (rule strcaseeq_length [OF s'(1)])
  then obtain ss' where "list_all2 strcaseeq ss' ss" "fold (match_part h) ss (r @ [SL] @ s') = join_path (r @ [SL] @ s') ss'"
    using Cons.IH [of "r @ [SL] @ s'"] Cons.prems by (auto simp: append_eq_Cons_conv)
  then show ?case using s' by (intro exI [of _ "s' # ss'"]) simp
qed simp

lemma lookup_below:
  assumes "exists_file h root" and "root \<noteq> []" and "root \<noteq> ''/''" and "\<forall>s \<in> set segs. plain_name s"
    and "length segs \<le> 64" and "length (join_path root segs) \<le> 1023"
  shows "\<exists>segs'. list_all2 strcaseeq segs' segs \<and> case_insensitive_lookup h (join_path root segs) 1024 = Inr (join_path root segs')
    \<and> (exists_file h (join_path root segs) \<longrightarrow> segs' = segs)"
proof (cases "exists_file h (join_path root segs)")
  case True
  then show ?thesis
    using assms(6) by (intro exI [of _ segs]) (simp add: case_insensitive_lookup_def list_all2_refl)
next
  case False
  obtain k where k: "k \<le> length segs" "peel h (join_path root segs) [] = (join_path root (take k segs), rev (drop k segs))"
    using peel_join [OF assms(1,2,4), of "[]"] assms(5) by auto
  let ?r = "join_path root (take k segs)"
  have split: "join_path root segs = join_path ?r (drop k segs)"
  proof -
    have "concat (map ((#) SL) segs) = concat (map ((#) SL) (take k segs)) @ concat (map ((#) SL) (drop k segs))"
      by (metis append_take_drop_id concat_append map_append)
    then show ?thesis by (simp add: join_path_def)
  qed
  have ne: "?r \<noteq> []" "?r \<noteq> ''/''"
  proof -
    show "?r \<noteq> []" using assms(2) by (simp add: join_path_def)
    show "?r \<noteq> ''/''"
    proof
      assume r: "?r = ''/''"
      then have "length root + segs_len (take k segs) = 1" using length_join_path [of root "take k segs"] by simp
      then have "take k segs = []" using assms(2) by (cases "take k segs"; cases root) auto
      then have "?r = root" by (simp only: join_path_simps)
      then show False using r assms(3) by simp
    qed
  qed
  have "\<forall>s \<in> set (drop k segs). plain_name s" using assms(4) by (meson in_set_dropD)
  then obtain ss' where ss': "list_all2 strcaseeq ss' (drop k segs)" "fold (match_part h) (drop k segs) ?r = join_path ?r ss'"
    using fold_match_part [of "drop k segs" ?r h] ne assms(6) unfolding split length_join_path [symmetric] by auto
  let ?s = "take k segs @ ss'"
  have l2: "list_all2 strcaseeq ?s segs"
    using ss'(1) by (metis append_take_drop_id list_all2_appendI list_all2_refl strcaseeq_refl)
  have "length (join_path root ?s) = length (join_path root segs)"
  proof -
    have "map length ?s = map length segs"
      using l2 by (auto simp: list_all2_conv_all_nth list_eq_iff_nth_eq strcaseeq_length simp del: map_append)
    then have "map (\<lambda>t. Suc (length t)) ?s = map (\<lambda>t. Suc (length t)) segs"
      by (metis (mono_tags, lifting) comp_apply map_eq_conv map_map)
    then show ?thesis by (simp only: length_join_path)
  qed
  moreover have "join_path ?r ss' = join_path root ?s" by (simp add: join_path_def)
  ultimately have "case_insensitive_lookup h (join_path root segs) 1024 = Inr (join_path root ?s)"
    using False k(2) ss'(2) ne(1) assms(6) by (simp add: case_insensitive_lookup_def)
  then show ?thesis using l2 False by blast
qed

section \<open>Where a guest path leads\<close>

text \<open>The host directory a guest path is relative to, and the rest of the path.\<close>

definition guest_root :: "vfs \<Rightarrow> string \<Rightarrow> (string \<times> string) option" where
  "guest_root st g =
     (case List.find (\<lambda>m. vm_active m \<and> has_prefix g (vm_guest m)) (v_mounts st) of
        Some m \<Rightarrow> Some (vm_host m, drop (length (vm_guest m)) g)
      | None \<Rightarrow>
          let root = ps4_vfs_get_app_root st in
          if has_prefix g ''/app0'' then Some (root, drop 5 g)
          else if has_prefix g ''/hostapp'' then Some (root, drop 8 g)
          else if has_prefix g ''/data'' then Some (root @ ''/data'', drop 5 g)
          else if take 1 g \<noteq> ''/'' then Some (root, g)
          else None)"

lemma host_join_nonempty: "root \<noteq> [] \<Longrightarrow> host_join root g \<noteq> []"
  by (simp add: host_join_def Let_def)

lemma skip_slashes_relative: "take 1 g \<noteq> ''/'' \<Longrightarrow> skip_slashes g = g"
  by (cases g) (auto simp: skip_slashes_def is_slash_def)

lemma raw_host_path_root:
  assumes "guest_root st g = Some (root, sub)" and "root \<noteq> []"
  shows "raw_host_path st g = host_join root sub"
proof (cases "List.find (\<lambda>m. vm_active m \<and> has_prefix g (vm_guest m)) (v_mounts st)")
  case (Some m)
  then have "root = vm_host m" "sub = drop (length (vm_guest m)) g"
    using assms(1) by (simp_all add: guest_root_def)
  then show ?thesis
    using Some host_join_nonempty [OF assms(2)] by (simp add: raw_host_path_def mounted_path_def)
next
  case None
  then have mp: "mounted_path (v_mounts st) g = []" by (simp add: mounted_path_def)
  have rel: "take 1 g \<noteq> ''/'' \<Longrightarrow> (let norm = normalize_chroot_subpath g 1024
         in cut1024 (if norm \<noteq> [] then r @ ''/'' @ norm else r)) = host_join r g" for r
    unfolding host_join_def by (simp add: skip_slashes_relative)
  show ?thesis
    using assms(1) None
    unfolding raw_host_path_def mp guest_root_def
    by (auto simp: Let_def rel [unfolded Let_def] split: if_splits)
qed


text \<open>A host directory with one subdirectory, entered with another case and dots in the path.\<close>

definition small_host :: host_fs where
  "small_host = \<lparr>hf_access = (\<lambda>p m. p = ''/h'' \<or> p = ''/h/Media'' \<or> p = ''/h/Media/a.bin''),
     hf_list = (\<lambda>p. if p = ''/h'' then Some [''Media''] else if p = ''/h/Media'' then Some [''a.bin''] else None),
     hf_realpath = (\<lambda>p. None), hf_stat = (\<lambda>p. Inl ENOENT), hf_open = (\<lambda>p f m. Inl ENOENT),
     hf_app_dir = None, hf_exec_path = None, hf_cwd = None\<rparr>"

definition small_vfs :: vfs where
  "small_vfs = \<lparr>v_root = Some ''/h'', v_mounts = [], v_files = []\<rparr>"


section \<open>The mount table\<close>

lemma find_mount_Some:
  "find_mount g ms = Some i \<Longrightarrow> i < length ms \<and> vm_active (ms ! i) \<and> vm_guest (ms ! i) = g"
  by (induction ms arbitrary: i) (auto split: if_splits)

lemma find_mount_inactive: "\<forall>m \<in> set ms. \<not> vm_active m \<Longrightarrow> find_mount g ms = None"
  by (induction ms) auto

definition mount_cycle :: "string \<Rightarrow> string \<Rightarrow> vfs \<Rightarrow> vfs" where
  "mount_cycle g p st = snd (ps4_vfs_unmount (Some g) (snd (ps4_vfs_mount (Some g) (Some p) st)))"

lemma find_mount_last:
  "\<forall>m \<in> set ms. \<not> vm_active m \<Longrightarrow> vm_active m \<Longrightarrow> vm_guest m = g \<Longrightarrow> find_mount g (ms @ [m]) = Some (length ms)"
  by (induction ms) auto

lemma mount_cycle_step:
  assumes "g \<noteq> []" and "length g \<le> 63" and "p \<noteq> []" and "\<forall>m \<in> set (v_mounts st). \<not> vm_active m"
  shows "(\<forall>m \<in> set (v_mounts (mount_cycle g p st)). \<not> vm_active m) \<and>
    length (v_mounts (mount_cycle g p st)) = (if length (v_mounts st) < 32 then Suc (length (v_mounts st)) else length (v_mounts st))"
proof -
  have n: "find_mount g (v_mounts st) = None" by (rule find_mount_inactive [OF assms(4)])
  show ?thesis
  proof (cases "length (v_mounts st) < 32")
    case True
    let ?m = "\<lparr>vm_guest = strncpy_name 64 g, vm_host = strncpy_name 1024 p, vm_active = True\<rparr>"
    have f: "find_mount g (v_mounts st @ [?m]) = Some (length (v_mounts st))"
      using assms(2) by (intro find_mount_last [OF assms(4)]) (simp_all add: strncpy_name_def)
    show ?thesis
      using True n f assms(1,3,4)
      by (auto simp: mount_cycle_def ps4_vfs_mount_def ps4_vfs_unmount_def MAX_VFS_MOUNTS_def)
  next
    case False
    then show ?thesis
      using n assms by (simp add: mount_cycle_def ps4_vfs_mount_def ps4_vfs_unmount_def MAX_VFS_MOUNTS_def)
  qed
qed

lemma mount_cycles:
  assumes "g \<noteq> []" and "length g \<le> 63" and "p \<noteq> []" and "v_mounts st = []" and "n \<le> 32"
  shows "(\<forall>m \<in> set (v_mounts ((mount_cycle g p ^^ n) st)). \<not> vm_active m) \<and> length (v_mounts ((mount_cycle g p ^^ n) st)) = n"
  using assms(5)
proof (induction n)
  case (Suc n)
  then show ?case using mount_cycle_step [OF assms(1-3), of "(mount_cycle g p ^^ n) st"] by simp
qed (simp add: assms(4))

text \<open>
  C15. The entry of an unmounted directory is never used again: after a directory has been
  mounted and unmounted 32 times nothing is mounted, but every further mount, of any prefix,
  fails with \<open>-ENOMEM\<close> and leaves the table as it is.
\<close>

theorem vfs_mounts_run_out:
  assumes "g \<noteq> []" and "length g \<le> 63" and "p \<noteq> []" and "v_mounts st = []" and "g' \<noteq> []" and "p' \<noteq> []"
  shows "(\<forall>m \<in> set (v_mounts ((mount_cycle g p ^^ 32) st)). \<not> vm_active m) \<and>
    ps4_vfs_mount (Some g') (Some p') ((mount_cycle g p ^^ 32) st) = (- ENOMEM, (mount_cycle g p ^^ 32) st)"
proof -
  let ?st = "(mount_cycle g p ^^ 32) st"
  have c: "(\<forall>m \<in> set (v_mounts ?st). \<not> vm_active m) \<and> length (v_mounts ?st) = 32"
    by (rule mount_cycles [OF assms(1-4)]) simp
  then have "find_mount g' (v_mounts ?st) = None" by (intro find_mount_inactive) blast
  then show ?thesis using c assms(5,6) by (simp add: ps4_vfs_mount_def MAX_VFS_MOUNTS_def)
qed

lemma vfs_mounts_run_out_witness:
  "fst (ps4_vfs_mount (Some ''/savedata0'') (Some ''/h/s'') ((mount_cycle ''/savedata0'' ''/h/s'' ^^ 32) small_vfs)) = - ENOMEM"
  using vfs_mounts_run_out [of "''/savedata0''" "''/h/s''" small_vfs "''/savedata0''" "''/h/s''"]
  by (simp add: small_vfs_def)

end
