(* ===== verification/VfsFiles.thy ===== *)
theory VfsFiles
  imports Vfs
begin

unbundle bit_operations_syntax

text \<open>
  Reading, seeking and querying files (\<open>kernel/vfs/ps4_vfs.c\<close>). What the host's \<open>read\<close> and
  \<open>pread\<close> answer is a list of answers: an interruption, an error, or that up to so many bytes
  are available now, with the bytes of the file behind the descriptor. An exhausted list means that
  the call has not returned yet (\<open>None\<close>).
\<close>

section \<open>Reading in pieces\<close>

datatype io_answer = IoGot nat | IoEintr | IoErr i32

text \<open>
  \<open>pread(fd, buf, n, off)\<close> on a file with the given bytes delivers at least one byte and at most
  \<open>n\<close>, and none at the end of the file.
\<close>

definition host_bytes :: "u8 list \<Rightarrow> nat \<Rightarrow> nat \<Rightarrow> nat \<Rightarrow> u8 list" where
  "host_bytes file off n k = take (min n (Suc k)) (drop off file)"

fun io_loop :: "u8 list \<Rightarrow> nat \<Rightarrow> nat \<Rightarrow> io_answer list \<Rightarrow> u8 list \<Rightarrow> (i32 + u8 list) option" where
  "io_loop file off want as acc =
     (if length acc \<ge> want then Some (Inr acc)
      else (case as of
              [] \<Rightarrow> None
            | IoEintr # as' \<Rightarrow> io_loop file off want as' acc
            | IoErr e # as' \<Rightarrow> if acc \<noteq> [] then Some (Inr acc) else Some (Inl e)
            | IoGot k # as' \<Rightarrow>
                let bs = host_bytes file (off + length acc) (want - length acc) k
                in if bs = [] then Some (Inr acc) else io_loop file off want as' (acc @ bs)))"

declare io_loop.simps [simp del]

text \<open>A single call, as for descriptors that are not regular files.\<close>

fun io_once :: "u8 list \<Rightarrow> nat \<Rightarrow> nat \<Rightarrow> io_answer \<Rightarrow> i32 + u8 list" where
  "io_once file off want (IoGot k) = Inr (host_bytes file off want k)"
| "io_once file off want IoEintr = Inl 4"
| "io_once file off want (IoErr e) = Inl e"

text \<open>
  The state of host descriptors: the bytes of their file, its position, whether it is a regular
  file. \<open>lseek\<close>, \<open>close\<close> and \<open>fstat\<close> on them go to the host.
\<close>

record host_fd =
  hd_file :: "u8 list"
  hd_pos :: nat
  hd_regular :: bool

definition live_slot :: "vfs \<Rightarrow> i32 \<Rightarrow> nat option" where
  "live_slot st fd =
     (let s = vfd_slot fd in
      if s < length (v_files st) \<and> vf_active (v_files st ! s) then Some s else None)"

definition set_file :: "nat \<Rightarrow> vfile \<Rightarrow> vfs \<Rightarrow> vfs" where
  "set_file s f st = st\<lparr>v_files := (v_files st)[s := f]\<rparr>"

section \<open>Close\<close>

definition ps4_vfs_close :: "(i32 \<Rightarrow> i32 + unit) \<Rightarrow> i32 \<Rightarrow> vfs \<Rightarrow> (i32 + unit) \<times> vfs" where
  "ps4_vfs_close host_close fd st =
     (if ps4_vfs_is_virtual_fd fd then
        (case live_slot st fd of
           Some s \<Rightarrow> (Inr (), set_file s ((v_files st ! s)\<lparr>vf_active := False\<rparr>) st)
         | None \<Rightarrow> (Inl EBADF, st))
      else (host_close fd, st))"

section \<open>Read\<close>

text \<open>The bytes to read: \<open>cur_offset + to_read\<close> is a 64-bit sum.\<close>

definition clip_read :: "vfile \<Rightarrow> u64 \<Rightarrow> u64 \<Rightarrow> u64" where
  "clip_read f offs cnt = (if offs + cnt > vf_size f then vf_size f - offs else cnt)"

text \<open>\<open>archive\<close> gives the bytes behind the archive's descriptor.\<close>

definition ps4_vfs_read ::
  "(i32 \<Rightarrow> u8 list) \<Rightarrow> (i32 \<Rightarrow> host_fd) \<Rightarrow> i32 \<Rightarrow> u64 \<Rightarrow> io_answer list \<Rightarrow> vfs \<Rightarrow> ((i32 + u8 list) \<times> vfs) option" where
  "ps4_vfs_read archive hfd fd cnt as st =
     (if ps4_vfs_is_virtual_fd fd then
        (case live_slot st fd of
           None \<Rightarrow> Some (Inl EBADF, st)
         | Some s \<Rightarrow>
             let f = v_files st ! s in
             if vf_cur f \<ge> vf_size f then Some (Inr [], st)
             else
               (case io_loop (archive (vf_pak_fd f)) (unat (vf_data f + vf_cur f))
                       (unat (clip_read f (vf_cur f) cnt)) as [] of
                  None \<Rightarrow> None
                | Some (Inl e) \<Rightarrow> Some (Inl e, st)
                | Some (Inr bs) \<Rightarrow>
                    Some (Inr bs, set_file s (f\<lparr>vf_cur := vf_cur f + of_nat (length bs)\<rparr>) st)))
      else if hd_regular (hfd fd) then
        map_option (\<lambda>r. (r, st)) (io_loop (hd_file (hfd fd)) (hd_pos (hfd fd)) (unat cnt) as [])
      else (case as of [] \<Rightarrow> None | a # _ \<Rightarrow> Some (io_once (hd_file (hfd fd)) (hd_pos (hfd fd)) (unat cnt) a, st)))"

definition ps4_vfs_pread ::
  "(i32 \<Rightarrow> u8 list) \<Rightarrow> (i32 \<Rightarrow> host_fd) \<Rightarrow> i32 \<Rightarrow> u64 \<Rightarrow> i64 \<Rightarrow> io_answer list \<Rightarrow> vfs \<Rightarrow> (i32 + u8 list) option" where
  "ps4_vfs_pread archive hfd fd cnt offs as st =
     (if ps4_vfs_is_virtual_fd fd then
        (case live_slot st fd of
           None \<Rightarrow> Some (Inl EBADF)
         | Some s \<Rightarrow>
             let f = v_files st ! s in
             if offs <s 0 \<or> offs \<ge> vf_size f then Some (Inr [])
             else io_loop (archive (vf_pak_fd f)) (unat (vf_data f + offs)) (unat (clip_read f offs cnt)) as [])
      else if offs <s 0 then Some (Inl EINVAL)
      else if hd_regular (hfd fd) then io_loop (hd_file (hfd fd)) (unat offs) (unat cnt) as []
      else (case as of [] \<Rightarrow> None | a # _ \<Rightarrow> Some (io_once (hd_file (hfd fd)) (unat offs) (unat cnt) a)))"

section \<open>Seek and status\<close>

definition ps4_vfs_lseek ::
  "(i32 \<Rightarrow> i64 \<Rightarrow> i32 \<Rightarrow> i32 + i64) \<Rightarrow> i32 \<Rightarrow> i64 \<Rightarrow> i32 \<Rightarrow> vfs \<Rightarrow> (i32 + i64) \<times> vfs" where
  "ps4_vfs_lseek host_lseek fd offs whence st =
     (if ps4_vfs_is_virtual_fd fd then
        (case live_slot st fd of
           None \<Rightarrow> (Inl EBADF, st)
         | Some s \<Rightarrow>
             let f = v_files st ! s in
             if whence \<noteq> 0 \<and> whence \<noteq> 1 \<and> whence \<noteq> 2 then (Inl EINVAL, st)
             else
               let new_off = (if whence = 0 then offs else if whence = 1 then vf_cur f + offs
                              else vf_size f + offs)
               in if new_off <s 0 then (Inl EINVAL, st)
                  else (Inr new_off, set_file s (f\<lparr>vf_cur := new_off\<rparr>) st))
      else (host_lseek fd offs whence, st))"

definition file_stat :: "u64 \<Rightarrow> vstat" where
  "file_stat sz = \<lparr>vs_mode = 0x8000 OR 420, vs_nlink = 1, vs_size = sz, vs_blksize = 4096, vs_blocks = (sz + 511) div 512\<rparr>"

definition dir_stat :: vstat where
  "dir_stat = \<lparr>vs_mode = 0x4000 OR 493, vs_nlink = 2, vs_size = 4096, vs_blksize = 4096, vs_blocks = 0\<rparr>"

definition ps4_vfs_fstat :: "(i32 \<Rightarrow> i32 + vstat) \<Rightarrow> i32 \<Rightarrow> vfs \<Rightarrow> i32 + vstat" where
  "ps4_vfs_fstat host_fstat fd st =
     (if ps4_vfs_is_virtual_fd fd then
        (case live_slot st fd of
           None \<Rightarrow> Inl EBADF
         | Some s \<Rightarrow> Inr (file_stat (vf_size (v_files st ! s))))
      else host_fstat fd)"

definition ps4_vfs_stat :: "host_fs \<Rightarrow> pak_state \<Rightarrow> string option \<Rightarrow> vfs \<Rightarrow> (i32 + vstat) option" where
  "ps4_vfs_stat h pk guest_path st =
     (case guest_path of None \<Rightarrow> Some (Inl EFAULT)
      | Some g \<Rightarrow>
          let ok = (\<lambda>r. case hf_stat h r of Inr s \<Rightarrow> Some s | Inl _ \<Rightarrow> None) in
          (case resolved_with h st ok g of
             Some s \<Rightarrow> Some (Inr s)
           | None \<Rightarrow>
          (case locale_try (resolved_with h st ok) (cut1024 g) of
             Some s \<Rightarrow> Some (Inr s)
           | None \<Rightarrow>
          (case get_app0_subpath g of
             None \<Rightarrow> Some (Inl ENOENT)
           | Some sub \<Rightarrow>
               (case ps4_pak_lookup pk (Some sub) of
                  None \<Rightarrow> None
                | Some (Some (fd, off, sz, cmpr)) \<Rightarrow> Some (Inr (file_stat sz))
                | Some None \<Rightarrow>
                    (case ps4_pak_dir_exists pk (Some sub) of
                       None \<Rightarrow> None
                     | Some True \<Rightarrow> Some (Inr dir_stat)
                     | Some False \<Rightarrow> Some (Inl ENOENT)))))))"

definition ps4_vfs_lstat :: "host_fs \<Rightarrow> pak_state \<Rightarrow> string option \<Rightarrow> vfs \<Rightarrow> (i32 + vstat) option" where
  "ps4_vfs_lstat h pk guest_path st = ps4_vfs_stat h pk guest_path st"

definition ps4_vfs_access :: "host_fs \<Rightarrow> pak_state \<Rightarrow> string option \<Rightarrow> u32 \<Rightarrow> vfs \<Rightarrow> (i32 + unit) option" where
  "ps4_vfs_access h pk guest_path mode st =
     (case guest_path of None \<Rightarrow> Some (Inl EFAULT)
      | Some g \<Rightarrow>
          let ok = (\<lambda>r. if hf_access h r mode then Some () else None) in
          (case resolved_with h st ok g of
             Some s \<Rightarrow> Some (Inr ())
           | None \<Rightarrow>
          (case locale_try (resolved_with h st ok) (cut1024 g) of
             Some s \<Rightarrow> Some (Inr ())
           | None \<Rightarrow>
          (case get_app0_subpath g of
             None \<Rightarrow> Some (Inl ENOENT)
           | Some sub \<Rightarrow>
               (case ps4_pak_lookup pk (Some sub) of
                  None \<Rightarrow> None
                | Some hit \<Rightarrow>
                    (case (if hit \<noteq> None then Some True else ps4_pak_dir_exists pk (Some sub)) of
                       None \<Rightarrow> None
                     | Some True \<Rightarrow> if mode AND W_OK \<noteq> 0 then Some (Inl EACCES) else Some (Inr ())
                     | Some False \<Rightarrow> Some (Inl ENOENT)))))))"

text \<open>
  Mapping a virtual file: an anonymous mapping at \<open>at_addr\<close> (\<open>None\<close> when the host refuses with the
  error \<open>e\<close>), zeroed, that receives what one \<open>pread\<close> delivers. The result is the address and the
  content.
\<close>

definition ps4_vfs_mmap ::
  "(i32 \<Rightarrow> u8 list) \<Rightarrow> (i32 + u64) \<Rightarrow> (i32 \<Rightarrow> i32 + u64 \<times> u8 list) \<Rightarrow> u64 \<Rightarrow> i32 \<Rightarrow> i64 \<Rightarrow> io_answer \<Rightarrow> vfs
   \<Rightarrow> i32 + u64 \<times> u8 list" where
  "ps4_vfs_mmap archive at_addr host_mmap len fd offs a st =
     (if ps4_vfs_is_virtual_fd fd then
        (case live_slot st fd of
           None \<Rightarrow> Inl EBADF
         | Some s \<Rightarrow>
             let f = v_files st ! s in
             (case at_addr of
                Inl e \<Rightarrow> Inl e
              | Inr addr \<Rightarrow>
                  let zero = replicate (unat len) 0;
                      got = (if \<not> offs <s 0 \<and> offs < vf_size f
                             then (case io_once (archive (vf_pak_fd f)) (unat (vf_data f + offs)) (unat (clip_read f offs len)) a of
                                     Inr bs \<Rightarrow> bs | Inl _ \<Rightarrow> [])
                             else [])
                  in Inr (addr, got @ drop (length got) zero)))
      else host_mmap fd)"

definition ps4_vfs_destroy :: "vfs \<Rightarrow> vfs" where
  "ps4_vfs_destroy st = \<lparr>v_root = None, v_mounts = [], v_files = replicate MAX_VIRTUAL_FILES vfile_zero\<rparr>"

end
