(* ===== verification/VfsProps.thy ===== *)
theory VfsProps
  imports VfsPaths VfsFiles CText
begin

text \<open>
  Descriptors of archive entries: the table of 256 slots behaves as a map from descriptors to open
  files, and reading delivers the entry's bytes.
\<close>

section \<open>Well-formed states\<close>

definition vfs_wf :: "vfs \<Rightarrow> bool" where
  "vfs_wf st \<longleftrightarrow> length (v_files st) = MAX_VIRTUAL_FILES \<and> length (v_mounts st) \<le> MAX_VFS_MOUNTS
     \<and> (\<forall>m \<in> set (v_mounts st). length (vm_guest m) < 64 \<and> length (vm_host m) < 1024)
     \<and> (\<forall>f \<in> set (v_files st). length (vf_path f) < 512)"

text \<open>The states any sequence of calls leads to from the first initialisation.\<close>

inductive vfs_reach :: "vfs \<Rightarrow> bool" where
  reach_init: "vfs_reach (ps4_vfs_init h hint st0)"
| reach_mount: "vfs_reach st \<Longrightarrow> vfs_reach (snd (ps4_vfs_mount g p st))"
| reach_unmount: "vfs_reach st \<Longrightarrow> vfs_reach (snd (ps4_vfs_unmount g st))"
| reach_open: "vfs_reach st \<Longrightarrow> ps4_vfs_open h pk g flags mode st = Some (r, st') \<Longrightarrow> vfs_reach st'"
| reach_close: "vfs_reach st \<Longrightarrow> vfs_reach (snd (ps4_vfs_close hc fd st))"
| reach_read: "vfs_reach st \<Longrightarrow> ps4_vfs_read archive hfd fd cnt as st = Some (r, st') \<Longrightarrow> vfs_reach st'"
| reach_lseek: "vfs_reach st \<Longrightarrow> vfs_reach (snd (ps4_vfs_lseek hl fd offs whence st))"
| reach_destroy: "vfs_reach st \<Longrightarrow> vfs_reach (ps4_vfs_destroy st)"

lemma free_slot_Some: "free_slot fs = Some s \<Longrightarrow> s < length fs \<and> \<not> vf_active (fs ! s)"
  by (auto simp: free_slot_def find_Some_iff)

lemma live_slot_Some: "live_slot st fd = Some s \<Longrightarrow> s = vfd_slot fd \<and> s < length (v_files st) \<and> vf_active (v_files st ! s)"
  by (auto simp: live_slot_def Let_def split: if_splits)

text \<open>What an open can do: nothing to the state, or fill one free slot.\<close>

lemma vfs_open_cases:
  assumes "ps4_vfs_open h pk g flags mode st = Some (r, st')"
  shows "st' = st \<or>
    (\<exists>gp sub fd off sz cmpr s. g = Some gp \<and> get_app0_subpath gp = Some sub \<and>
       ps4_pak_lookup pk (Some sub) = Some (Some (fd, off, sz, cmpr)) \<and> flags AND O_ACCMODE = 0 \<and>
       free_slot (v_files st) = Some s \<and> r = Inr (of_nat (PS4_VFS_VIRTUAL_FD_BASE + s)) \<and>
       st' = st\<lparr>v_files := (v_files st)[s := \<lparr>vf_active = True, vf_pak_fd = fd, vf_data = off, vf_size = sz,
                     vf_cur = 0, vf_path = strncpy_name 512 gp\<rparr>]\<rparr>)"
  using assms by (auto simp: ps4_vfs_open_def split: option.splits if_splits prod.splits)

lemma set_file_wf:
  "vfs_wf st \<Longrightarrow> length (vf_path f) < 512 \<Longrightarrow> vfs_wf (set_file s f st)"
  by (auto simp: vfs_wf_def set_file_def dest!: set_update_subset_insert [THEN subsetD])

lemma wf_path: "vfs_wf st \<Longrightarrow> s < length (v_files st) \<Longrightarrow> length (vf_path (v_files st ! s)) < 512"
  by (auto simp: vfs_wf_def)

lemma set_mounts_wf:
  "vfs_wf st \<Longrightarrow> length (vm_guest m) < 64 \<Longrightarrow> length (vm_host m) < 1024 \<Longrightarrow>
   vfs_wf (st\<lparr>v_mounts := (v_mounts st)[i := m]\<rparr>)"
  by (auto simp: vfs_wf_def dest!: set_update_subset_insert [THEN subsetD])

lemma mount_wf: "vfs_wf st \<Longrightarrow> vfs_wf (snd (ps4_vfs_mount g p st))"
proof -
  assume wf: "vfs_wf st"
  have m: "length (vm_guest (v_mounts st ! i)) < 64" if "find_mount x (v_mounts st) = Some i" for x i
    using find_mount_Some [OF that] wf by (auto simp: vfs_wf_def)
  show ?thesis
    using wf m
    by (auto simp: ps4_vfs_mount_def strncpy_name_def not_le intro!: set_mounts_wf split: option.splits)
      (auto simp: vfs_wf_def)
qed

lemma unmount_wf: "vfs_wf st \<Longrightarrow> vfs_wf (snd (ps4_vfs_unmount g st))"
proof -
  assume wf: "vfs_wf st"
  have "length (vm_guest (v_mounts st ! i)) < 64 \<and> length (vm_host (v_mounts st ! i)) < 1024"
    if "find_mount x (v_mounts st) = Some i" for x i
    using find_mount_Some [OF that] wf by (auto simp: vfs_wf_def)
  then show ?thesis
    using wf by (auto simp: ps4_vfs_unmount_def intro!: set_mounts_wf split: option.splits)
qed

lemma open_wf: "vfs_wf st \<Longrightarrow> ps4_vfs_open h pk g flags mode st = Some (r, st') \<Longrightarrow> vfs_wf st'"
  using set_file_wf [of st] by (fastforce dest!: vfs_open_cases simp: set_file_def strncpy_name_def)

lemma file_op_wf:
  assumes "vfs_wf st"
  shows "vfs_wf (snd (ps4_vfs_close hc fd st))" and "vfs_wf (snd (ps4_vfs_lseek hl fd offs whence st))"
    and "ps4_vfs_read archive hfd fd cnt as st = Some (r, st') \<Longrightarrow> vfs_wf st'"
  using assms
  by (auto simp: ps4_vfs_close_def ps4_vfs_lseek_def ps4_vfs_read_def Let_def set_file_wf wf_path
      dest!: live_slot_Some split: option.splits if_splits sum.splits list.splits)

lemma vfs_init_wf: "vfs_wf (ps4_vfs_init h hint st0)"
  by (auto simp: vfs_wf_def ps4_vfs_init_def vfile_zero_def)

text \<open>
  C16. Every state the calls can reach keeps the sizes the C declarations fix: 256 file
  slots, at most 32 mounts, and names that fit their arrays with the terminator.
\<close>

theorem vfs_reachable_wf:
  assumes "vfs_reach st"
  shows "vfs_wf st"
  using assms
proof induction
  case (reach_init h hint st0)
  show ?case by (rule vfs_init_wf)
next
  case (reach_destroy st)
  show ?case by (auto simp: vfs_wf_def ps4_vfs_destroy_def vfile_zero_def)
qed (blast intro: mount_wf unmount_wf open_wf file_op_wf)+

lemma vfs_reachable_wf_witness:
  "vfs_wf (snd (ps4_vfs_mount (Some ''/temp0'') (Some ''/h/t'') (ps4_vfs_init small_host (Some ''/h'') small_vfs)))"
  by (rule vfs_reachable_wf [OF reach_mount [OF reach_init]])

section \<open>The descriptors as a map\<close>

text \<open>The open file behind a descriptor: archive descriptor, offset, size and position.\<close>

definition open_files :: "vfs \<Rightarrow> i32 \<rightharpoonup> i32 \<times> u64 \<times> u64 \<times> u64" where
  "open_files st fd =
     (if ps4_vfs_is_virtual_fd fd then
        map_option (\<lambda>s. let f = v_files st ! s in (vf_pak_fd f, vf_data f, vf_size f, vf_cur f)) (live_slot st fd)
      else None)"

lemma virtual_slot:
  assumes "ps4_vfs_is_virtual_fd fd"
  shows "vfd_slot fd < MAX_VIRTUAL_FILES" and "fd = of_nat (PS4_VFS_VIRTUAL_FD_BASE + vfd_slot fd)"
proof -
  have b: "int PS4_VFS_VIRTUAL_FD_BASE \<le> sint fd" "sint fd < int (PS4_VFS_VIRTUAL_FD_BASE + MAX_VIRTUAL_FILES)"
    using assms by (simp_all add: ps4_vfs_is_virtual_fd_def)
  then show "vfd_slot fd < MAX_VIRTUAL_FILES" by (simp add: vfd_slot_def)
  have s: "int (PS4_VFS_VIRTUAL_FD_BASE + vfd_slot fd) = sint fd" using b by (simp add: vfd_slot_def)
  have "(of_nat (PS4_VFS_VIRTUAL_FD_BASE + vfd_slot fd) :: i32) = of_int (int (PS4_VFS_VIRTUAL_FD_BASE + vfd_slot fd))"
    by (simp only: of_int_of_nat_eq)
  also have "\<dots> = fd" unfolding s by simp
  finally show "fd = of_nat (PS4_VFS_VIRTUAL_FD_BASE + vfd_slot fd)" by (rule sym)
qed

lemma slot_virtual:
  assumes "s < MAX_VIRTUAL_FILES"
  shows "ps4_vfs_is_virtual_fd (of_nat (PS4_VFS_VIRTUAL_FD_BASE + s))"
    and "vfd_slot (of_nat (PS4_VFS_VIRTUAL_FD_BASE + s)) = s"
proof -
  have "sint (of_nat (PS4_VFS_VIRTUAL_FD_BASE + s) :: i32) = int (PS4_VFS_VIRTUAL_FD_BASE + s)"
  proof -
    have "sint (word_of_int (int (PS4_VFS_VIRTUAL_FD_BASE + s)) :: i32) = int (PS4_VFS_VIRTUAL_FD_BASE + s)"
      using assms by (intro sint32) (simp_all add: PS4_VFS_VIRTUAL_FD_BASE_def MAX_VIRTUAL_FILES_def)
    then show ?thesis by simp
  qed
  then show "ps4_vfs_is_virtual_fd (of_nat (PS4_VFS_VIRTUAL_FD_BASE + s))"
    and "vfd_slot (of_nat (PS4_VFS_VIRTUAL_FD_BASE + s)) = s"
    using assms by (simp_all add: ps4_vfs_is_virtual_fd_def vfd_slot_def)
qed

lemma virtual_slot_inj:
  "ps4_vfs_is_virtual_fd a \<Longrightarrow> ps4_vfs_is_virtual_fd b \<Longrightarrow> vfd_slot a = vfd_slot b \<Longrightarrow> a = b"
  using virtual_slot(2) by metis

lemma open_files_set:
  assumes "ps4_vfs_is_virtual_fd fd" and "vfd_slot fd < length (v_files st)"
  shows "open_files (set_file (vfd_slot fd) f st) =
    (open_files st)(fd := (if vf_active f then Some (vf_pak_fd f, vf_data f, vf_size f, vf_cur f) else None))"
proof
  fix a
  show "open_files (set_file (vfd_slot fd) f st) a =
    ((open_files st)(fd := (if vf_active f then Some (vf_pak_fd f, vf_data f, vf_size f, vf_cur f) else None))) a"
  proof (cases "a = fd")
    case True
    then show ?thesis using assms by (simp add: open_files_def live_slot_def set_file_def Let_def)
  next
    case False
    then have "vfd_slot a \<noteq> vfd_slot fd" if "ps4_vfs_is_virtual_fd a"
      using virtual_slot_inj [OF that assms(1)] by blast
    then show ?thesis using False by (auto simp: open_files_def live_slot_def set_file_def Let_def)
  qed
qed

text \<open>The new position of a seek in an open file, \<open>None\<close> for an error.\<close>

definition seek_to :: "i32 \<times> u64 \<times> u64 \<times> u64 \<Rightarrow> i64 \<Rightarrow> i32 \<Rightarrow> i64 option" where
  "seek_to f offs whence =
     (let (_, _, sz, cur) = f;
          pos = (if whence = 0 then offs else if whence = 1 then cur + offs else sz + offs)
      in if whence \<in> {0, 1, 2} \<and> 0 \<le>s pos then Some pos else None)"

lemma word_sge: "\<not> x <s 0 \<longleftrightarrow> 0 \<le>s x" for x :: "'a::len word"
  by (auto simp: word_sless_alt word_sle_eq)

text \<open>
  C14. On the map of open files, closing a virtual descriptor removes it and fails with
  \<open>EBADF\<close> when it is not open; a seek moves its position to the place asked for, or fails leaving
  the map as it is; and an open that takes an archive entry adds the entry under a virtual
  descriptor that was not open.
\<close>

theorem vfs_descriptors_refine:
  assumes "vfs_wf st" and "ps4_vfs_is_virtual_fd fd"
  shows "fst (ps4_vfs_close hc fd st) = (if open_files st fd = None then Inl EBADF else Inr ())
    \<and> open_files (snd (ps4_vfs_close hc fd st)) = (open_files st)(fd := None)
    \<and> (case open_files st fd of
         None \<Rightarrow> ps4_vfs_lseek hl fd offs whence st = (Inl EBADF, st)
       | Some f \<Rightarrow>
           (case seek_to f offs whence of
              None \<Rightarrow> ps4_vfs_lseek hl fd offs whence st = (Inl EINVAL, st)
            | Some pos \<Rightarrow>
                fst (ps4_vfs_lseek hl fd offs whence st) = Inr pos
                \<and> open_files (snd (ps4_vfs_lseek hl fd offs whence st)) =
                    (open_files st)(fd \<mapsto> (fst f, fst (snd f), fst (snd (snd f)), pos))))
    \<and> (\<forall>h pk g flags mode r st'. ps4_vfs_open h pk g flags mode st = Some (r, st') \<and> st' \<noteq> st \<longrightarrow>
         (\<exists>v sub pfd off sz cmpr. r = Inr v \<and> ps4_vfs_is_virtual_fd v \<and> open_files st v = None
            \<and> ps4_pak_lookup pk (Some sub) = Some (Some (pfd, off, sz, cmpr))
            \<and> open_files st' = (open_files st)(v \<mapsto> (pfd, off, sz, 0))))"
proof (intro conjI allI impI)
  have len: "length (v_files st) = MAX_VIRTUAL_FILES" using assms(1) by (simp add: vfs_wf_def)
  have sl: "vfd_slot fd < length (v_files st)" using virtual_slot(1) [OF assms(2)] len by simp
  note set = open_files_set [OF assms(2) sl]
  have live: "open_files st fd = None \<longleftrightarrow> live_slot st fd = None"
    using assms(2) by (simp add: open_files_def)
  show "fst (ps4_vfs_close hc fd st) = (if open_files st fd = None then Inl EBADF else Inr ())"
    using assms(2) live by (auto simp: ps4_vfs_close_def split: option.splits)
  show "open_files (snd (ps4_vfs_close hc fd st)) = (open_files st)(fd := None)"
  proof (cases "live_slot st fd")
    case None
    then show ?thesis using assms(2) live by (auto simp: ps4_vfs_close_def)
  next
    case (Some s)
    then have "s = vfd_slot fd" using live_slot_Some by blast
    then show ?thesis using assms(2) Some set by (simp add: ps4_vfs_close_def)
  qed
  show "case open_files st fd of
         None \<Rightarrow> ps4_vfs_lseek hl fd offs whence st = (Inl EBADF, st)
       | Some f \<Rightarrow>
           (case seek_to f offs whence of
              None \<Rightarrow> ps4_vfs_lseek hl fd offs whence st = (Inl EINVAL, st)
            | Some pos \<Rightarrow>
                fst (ps4_vfs_lseek hl fd offs whence st) = Inr pos
                \<and> open_files (snd (ps4_vfs_lseek hl fd offs whence st)) =
                    (open_files st)(fd \<mapsto> (fst f, fst (snd f), fst (snd (snd f)), pos)))"
  proof (cases "live_slot st fd")
    case None
    then show ?thesis using assms(2) live by (auto simp: ps4_vfs_lseek_def)
  next
    case (Some s)
    then have s: "s = vfd_slot fd" and act: "vf_active (v_files st ! vfd_slot fd)" using live_slot_Some by blast+
    let ?f = "v_files st ! vfd_slot fd"
    have o: "open_files st fd = Some (vf_pak_fd ?f, vf_data ?f, vf_size ?f, vf_cur ?f)"
      using assms(2) Some s by (simp add: open_files_def Let_def)
    show ?thesis
      using assms(2) Some s act set
      by (auto simp: o ps4_vfs_lseek_def seek_to_def Let_def word_sge split: option.splits if_splits)
  qed
  fix h pk g flags mode r st'
  assume op: "ps4_vfs_open h pk g flags mode st = Some (r, st') \<and> st' \<noteq> st"
  obtain gp sub pfd off sz cmpr s where
    "get_app0_subpath gp = Some sub" and lk: "ps4_pak_lookup pk (Some sub) = Some (Some (pfd, off, sz, cmpr))" and
    fs: "free_slot (v_files st) = Some s" and r: "r = Inr (of_nat (PS4_VFS_VIRTUAL_FD_BASE + s))" and
    st': "st' = set_file s \<lparr>vf_active = True, vf_pak_fd = pfd, vf_data = off, vf_size = sz,
                     vf_cur = 0, vf_path = strncpy_name 512 gp\<rparr> st"
    using vfs_open_cases [OF conjunct1 [OF op]] conjunct2 [OF op] unfolding set_file_def by blast
  let ?v = "of_nat (PS4_VFS_VIRTUAL_FD_BASE + s) :: i32"
  have sb: "s < MAX_VIRTUAL_FILES" and na: "\<not> vf_active (v_files st ! s)" using free_slot_Some [OF fs] len by simp_all
  have v: "ps4_vfs_is_virtual_fd ?v" "vfd_slot ?v = s" using slot_virtual [OF sb] by blast+
  have "open_files st ?v = None" using na v by (simp add: open_files_def live_slot_def)
  moreover have "open_files st' = (open_files st)(?v \<mapsto> (pfd, off, sz, 0))"
    using open_files_set [OF v(1), of st] sb len unfolding st' v(2) by simp
  ultimately show "\<exists>v sub pfd off sz cmpr. r = Inr v \<and> ps4_vfs_is_virtual_fd v \<and> open_files st v = None
            \<and> ps4_pak_lookup pk (Some sub) = Some (Some (pfd, off, sz, cmpr))
            \<and> open_files st' = (open_files st)(v \<mapsto> (pfd, off, sz, 0))"
    using r v(1) lk by blast
qed

lemma vfs_descriptors_refine_witness:
  "open_files (snd (ps4_vfs_close (\<lambda>_. Inr ()) 10000 (ps4_vfs_init small_host None small_vfs))) =
     (open_files (ps4_vfs_init small_host None small_vfs))(10000 := None)"
proof -
  have v: "ps4_vfs_is_virtual_fd 10000"
    by (simp add: ps4_vfs_is_virtual_fd_def PS4_VFS_VIRTUAL_FD_BASE_def MAX_VIRTUAL_FILES_def)
  show ?thesis using vfs_descriptors_refine [OF vfs_init_wf v] by blast
qed

section \<open>Reading\<close>

text \<open>
  However the host splits a read and however often it is interrupted, without an error the loop
  delivers all the bytes, once as many answers with data have come as there are bytes.
\<close>

lemma io_loop_exact:
  assumes "acc = take (length acc) (drop offs file)" and "length acc \<le> want" and "offs + want \<le> length file"
    and "\<forall>e. IoErr e \<notin> set as" and "want \<le> length acc + length (filter (\<lambda>a. a \<noteq> IoEintr) as)"
  shows "io_loop file offs want as acc = Some (Inr (take want (drop offs file)))"
  using assms
proof (induction as arbitrary: acc)
  case Nil
  then show ?case by (subst io_loop.simps) simp
next
  case (Cons a as)
  show ?case
  proof (cases "want \<le> length acc")
    case True
    then show ?thesis using Cons.prems(1,2) by (subst io_loop.simps) simp
  next
    case False
    show ?thesis
    proof (cases a)
      case IoEintr
      then show ?thesis using False Cons by (subst io_loop.simps) simp
    next
      case (IoErr e)
      then show ?thesis using Cons.prems(4) by auto
    next
      case (IoGot k)
      let ?bs = "host_bytes file (offs + length acc) (want - length acc) k"
      have lb: "length ?bs = min (want - length acc) (Suc k)"
        using Cons.prems(3) by (simp add: host_bytes_def)
      have "?bs \<noteq> []" using lb False by auto
      have "acc @ ?bs = take (length acc) (drop offs file) @ take (length ?bs) (drop (length acc) (drop offs file))"
        using Cons.prems(1) lb by (simp add: host_bytes_def add.commute)
      then have "acc @ ?bs = take (length (acc @ ?bs)) (drop offs file)"
        by (metis length_append take_add)
      then have "io_loop file offs want as (acc @ ?bs) = Some (Inr (take want (drop offs file)))"
        using Cons.prems lb False IoGot by (intro Cons.IH) auto
      then show ?thesis using False IoGot \<open>?bs \<noteq> []\<close> by (subst io_loop.simps) (simp add: Let_def)
    qed
  qed
qed

text \<open>
  C13. Reading an open archive entry returns exactly the bytes of the entry from the
  position on, as many as were asked for or are left, in spite of short reads and interruptions of
  the host, and moves the position behind them.
\<close>

theorem vfs_read_exact:
  assumes "open_files st fd = Some (pfd, off, sz, cur)"
    and "unat off + unat sz \<le> length (archive pfd)" and "unat off + unat sz < 2 ^ 64" and "unat sz + unat cnt < 2 ^ 64"
    and "\<forall>e. IoErr e \<notin> set as" and "unat cnt \<le> length (filter (\<lambda>a. a \<noteq> IoEintr) as)"
  shows "\<exists>st'. ps4_vfs_read archive hfd fd cnt as st =
       Some (Inr (take (unat cnt) (drop (unat cur) (take (unat sz) (drop (unat off) (archive pfd))))), st')
     \<and> open_files st' = (open_files st)(fd \<mapsto> (pfd, off, sz,
         cur + of_nat (length (take (unat cnt) (drop (unat cur) (take (unat sz) (drop (unat off) (archive pfd))))))))"
proof -
  let ?data = "archive pfd" and ?f = "v_files st ! vfd_slot fd"
  have v: "ps4_vfs_is_virtual_fd fd" using assms(1) by (simp add: open_files_def split: if_splits)
  have ls: "live_slot st fd = Some (vfd_slot fd)" and f: "vf_pak_fd ?f = pfd" "vf_data ?f = off" "vf_size ?f = sz" "vf_cur ?f = cur"
    using assms(1) v live_slot_Some by (auto simp: open_files_def Let_def split: option.splits)
  have sl: "vfd_slot fd < length (v_files st)" and act: "vf_active ?f" using live_slot_Some [OF ls] by simp_all
  show ?thesis
  proof (cases "sz \<le> cur")
    case True
    then have "unat sz \<le> unat cur" by (simp add: word_le_nat_alt)
    then have e: "drop (unat cur) (take (unat sz) (drop (unat off) ?data)) = []" by simp
    have "ps4_vfs_read archive hfd fd cnt as st = Some (Inr [], st)"
      using v ls f True by (simp add: ps4_vfs_read_def Let_def)
    then show ?thesis using assms(1) unfolding e by (auto simp: fun_upd_idem)
  next
    case False
    then have c: "unat cur < unat sz" by (simp add: word_le_nat_alt)
    have sum: "unat (cur + cnt) = unat cur + unat cnt" using c assms(4) by (simp add: unat_word_ariths)
    have clip: "unat (clip_read ?f cur cnt) = min (unat cnt) (unat sz - unat cur)"
      using c sum by (auto simp: clip_read_def f word_less_nat_alt unat_sub_le)
    have pos: "unat (off + cur) = unat off + unat cur" using c assms(3) by (simp add: unat_word_ariths)
    let ?n = "min (unat cnt) (unat sz - unat cur)"
    have io: "io_loop ?data (unat off + unat cur) ?n as [] = Some (Inr (take ?n (drop (unat off + unat cur) ?data)))"
      using assms(2,5,6) c by (intro io_loop_exact) auto
    have bs: "take ?n (drop (unat off + unat cur) ?data) = take (unat cnt) (drop (unat cur) (take (unat sz) (drop (unat off) ?data)))"
      by (simp add: drop_take add.commute)
    let ?f' = "?f\<lparr>vf_cur := cur + of_nat (length (take ?n (drop (unat off + unat cur) ?data)))\<rparr>"
    have r: "ps4_vfs_read archive hfd fd cnt as st =
        Some (Inr (take ?n (drop (unat off + unat cur) ?data)), set_file (vfd_slot fd) ?f' st)"
      using v ls False unfolding ps4_vfs_read_def Let_def by (simp add: f clip pos io)
    have "open_files (set_file (vfd_slot fd) ?f' st) =
        (open_files st)(fd \<mapsto> (pfd, off, sz, cur + of_nat (length (take ?n (drop (unat off + unat cur) ?data)))))"
      using open_files_set [OF v sl, of ?f'] act by (simp add: f)
    then show ?thesis using r unfolding bs by blast
  qed
qed

text \<open>An entry of four bytes read from its second byte by two short reads and an interruption.\<close>

definition one_file :: vfs where
  "one_file = \<lparr>v_root = None, v_mounts = [],
     v_files = [\<lparr>vf_active = True, vf_pak_fd = 3, vf_data = 2, vf_size = 4, vf_cur = 1, vf_path = []\<rparr>]\<rparr>"

lemma vfs_read_exact_witness:
  "\<exists>st'. ps4_vfs_read (\<lambda>_. [10, 11, 12, 13, 14, 15, 16]) (\<lambda>_. \<lparr>hd_file = [], hd_pos = 0, hd_regular = False\<rparr>) 10000 3
     [IoGot 0, IoEintr, IoGot 1, IoGot 7] one_file = Some (Inr [13, 14, 15], st')"
proof -
  have o: "open_files one_file 10000 = Some (3, 2, 4, 1)" by code_simp
  show ?thesis
    using vfs_read_exact [OF o, of "\<lambda>_. [10, 11, 12, 13, 14, 15, 16]" 3 "[IoGot 0, IoEintr, IoGot 1, IoGot 7]"
        "\<lambda>_. \<lparr>hd_file = [], hd_pos = 0, hd_regular = False\<rparr>"]
    by auto
qed

end
