(* ===== verification/GnmPm4.thy ===== *)
theory GnmPm4
  imports RtcShims
begin

unbundle bit_operations_syntax

text \<open>
  Command buffers of the graphics driver, \<open>libSceGnmDriver/ps4_gnmdriver.c\<close>: the functions that
  write PM4 packets into the buffer of the game, in the order of the source. A host pointer into
  guest memory is its offset from \<open>mem_base\<close>, and \<open>None\<close> is NULL; the offset of
  a host pointer outside guest memory wraps, so the bytes of \<open>guest_mem\<close> are those of the whole
  host. A writer returns the memory and its result code.
\<close>

section \<open>Pointers and packets\<close>

type_synonym hptr = "u64 option"

text \<open>The guest may pass an address of its memory or the host address of the same byte.\<close>

definition recomp_guest_to_host :: "u64 \<Rightarrow> guest_mem \<Rightarrow> u64 \<Rightarrow> hptr" where
  "recomp_guest_to_host base m gaddr =
     (if \<not> mem_mapped m \<or> gaddr = 0 then None
      else if base \<le> gaddr \<and> gaddr < base + mem_size m then Some (gaddr - base)
      else if gaddr < mem_size m then Some gaddr
      else None)"

definition PM4_TYPE3_HEADER :: "u32 \<Rightarrow> u32 \<Rightarrow> u32 \<Rightarrow> u32 \<Rightarrow> u32" where
  "PM4_TYPE3_HEADER opcode cnt shader_type pred =
     0xc0000000 OR push_bit 16 (cnt AND 0x3fff) OR push_bit 8 (opcode AND 0xff)
       OR push_bit 1 (shader_type AND 1) OR (pred AND 1)"

abbreviation (input) PM4_IT_NOP :: u32 where "PM4_IT_NOP \<equiv> 0x10"
abbreviation (input) PM4_IT_CLEAR_STATE :: u32 where "PM4_IT_CLEAR_STATE \<equiv> 0x12"
abbreviation (input) PM4_IT_DISPATCH_DIRECT :: u32 where "PM4_IT_DISPATCH_DIRECT \<equiv> 0x15"
abbreviation (input) PM4_IT_DISPATCH_INDIRECT :: u32 where "PM4_IT_DISPATCH_INDIRECT \<equiv> 0x16"
abbreviation (input) PM4_IT_DRAW_INDIRECT :: u32 where "PM4_IT_DRAW_INDIRECT \<equiv> 0x24"
abbreviation (input) PM4_IT_DRAW_INDEX_INDIRECT :: u32 where "PM4_IT_DRAW_INDEX_INDIRECT \<equiv> 0x25"
abbreviation (input) PM4_IT_DRAW_INDEX_2 :: u32 where "PM4_IT_DRAW_INDEX_2 \<equiv> 0x27"
abbreviation (input) PM4_IT_DRAW_INDIRECT_MULTI :: u32 where "PM4_IT_DRAW_INDIRECT_MULTI \<equiv> 0x2c"
abbreviation (input) PM4_IT_DRAW_INDEX_AUTO :: u32 where "PM4_IT_DRAW_INDEX_AUTO \<equiv> 0x2d"
abbreviation (input) PM4_IT_DRAW_INDEX_OFFSET_2 :: u32 where "PM4_IT_DRAW_INDEX_OFFSET_2 \<equiv> 0x35"
abbreviation (input) PM4_IT_WRITE_DATA :: u32 where "PM4_IT_WRITE_DATA \<equiv> 0x37"
abbreviation (input) PM4_IT_DRAW_INDEX_INDIRECT_MULTI :: u32 where "PM4_IT_DRAW_INDEX_INDIRECT_MULTI \<equiv> 0x38"
abbreviation (input) PM4_IT_WAIT_REG_MEM :: u32 where "PM4_IT_WAIT_REG_MEM \<equiv> 0x3c"
abbreviation (input) PM4_IT_EVENT_WRITE_EOP :: u32 where "PM4_IT_EVENT_WRITE_EOP \<equiv> 0x47"
abbreviation (input) PM4_IT_SET_CONTEXT_REG :: u32 where "PM4_IT_SET_CONTEXT_REG \<equiv> 0x69"
abbreviation (input) PM4_IT_SET_SH_REG :: u32 where "PM4_IT_SET_SH_REG \<equiv> 0x76"

text \<open>
  Consecutive stores to \<open>cmdbuf[0], cmdbuf[1], \<dots>\<close>. A stored value is a number or a register
  of the table \<open>regs\<close>, which is read at the moment of the store.
\<close>

datatype cmd_word = W u32 | R nat

definition reg_at :: "guest_mem \<Rightarrow> u64 \<Rightarrow> nat \<Rightarrow> u32" where
  "reg_at m regs i = rd_u32 m (regs + 4 * of_nat i)"

primrec put_words :: "u64 \<Rightarrow> u64 \<Rightarrow> cmd_word list \<Rightarrow> guest_mem \<Rightarrow> guest_mem" where
  "put_words regs p [] m = m"
| "put_words regs p (w # ws) m =
     put_words regs (p + 4) ws (wr_u32 m p (case w of W v \<Rightarrow> v | R i \<Rightarrow> reg_at m regs i))"

text \<open>The words that a call of \<open>write_trailing_nop\<close> stores.\<close>

definition write_trailing_nop :: "u32 \<Rightarrow> u32 list" where
  "write_trailing_nop data_block_size =
     (if data_block_size = 0 then []
      else PM4_TYPE3_HEADER PM4_IT_NOP (data_block_size - 1) 0 0 # replicate (unat data_block_size) 0)"

definition clear_context_state :: "u32 list" where
  "clear_context_state = [PM4_TYPE3_HEADER PM4_IT_CLEAR_STATE 0 0 0, 0]"

text \<open>A writer whose guard fails stores nothing and returns -1; the guard includes the pointers.\<close>

type_synonym cmd_result = "guest_mem \<times> i32"

definition emit :: "guest_mem \<Rightarrow> hptr \<Rightarrow> bool \<Rightarrow> u32 list \<Rightarrow> cmd_result" where
  "emit m cmdbuf ok ws =
     (case cmdbuf of None \<Rightarrow> (m, - 1) | Some p \<Rightarrow> if ok then (put_words 0 p (map W ws) m, 0) else (m, - 1))"

definition emit_regs :: "guest_mem \<Rightarrow> hptr \<Rightarrow> hptr \<Rightarrow> (u64 \<Rightarrow> bool) \<Rightarrow> (u64 \<Rightarrow> cmd_word list) \<Rightarrow> cmd_result" where
  "emit_regs m cmdbuf regs ok ws =
     (case (cmdbuf, regs) of
        (Some p, Some r) \<Rightarrow> if ok r then (put_words r p (ws r) m, 0) else (m, - 1)
      | _ \<Rightarrow> (m, - 1))"

section \<open>Initial hardware state\<close>

text \<open>One packet \<open>[header, register, value]\<close> of the tables.\<close>

definition ctx_regs :: "(u32 \<times> u32) list \<Rightarrow> u32 list" where
  "ctx_regs rs = concat (map (\<lambda>(r, v). [0xc0016900, r, v]) rs)"

definition sh_regs :: "(u32 \<times> u32) list \<Rightarrow> u32 list" where
  "sh_regs rs = concat (map (\<lambda>(r, v). [0xc0017600, r, v]) rs)"

definition g_initSequence350 :: "u32 list" where
  "g_initSequence350 =
     [0xc0001200, 0] @ sh_regs [(0x216, 0xffffffff), (0x217, 0xffffffff), (0x215, 0)]
     @ ctx_regs [(0x2f9, 0x2d), (0x282, 8), (0x280, 0x80008), (0x281, 0xffff0000), (0x204, 0), (0x206, 0x43f),
         (0x83, 0xffff), (0x317, 0x10), (0x2fa, 0x3f800000), (0x2fc, 0x3f800000), (0x2fb, 0x3f800000),
         (0x2fd, 0x3f800000), (0x202, 0xcc0010), (0x30e, 0xffffffff), (0x30f, 0xffffffff)]
     @ [0xc0002f00, 1]
     @ sh_regs [(7, 0x1701ff), (0x46, 0x1701fd), (0x87, 0x1701ff), (0xc7, 0x1701fd), (0x107, 0x17),
         (0x147, 0x1701fd), (0x47, 0x1c)]
     @ ctx_regs [(0x1b1, 2), (0x101, 0), (0x100, 0xffffffff), (0x103, 0), (0x284, 0), (0x290, 0), (0x2ae, 0),
         (0x102, 0), (0x292, 0), (0x293, 0x6020000), (0x2f8, 0), (0x2de, 0x1e9)]
     @ [0xc0036900, 0x295, 0x100, 0x100, 4, 0xc0017900, 0x200, 0xe0000000] @ ctx_regs [(0x2aa, 0xff)]"

definition g_ctxInitSequence400 :: "u32 list" where
  "g_ctxInitSequence400 =
     [0xc0012800, 0x80000000, 0x80000000, 0xc0001200, 0]
     @ ctx_regs [(0x2f9, 0x2d), (0x282, 8), (0x280, 0x80008), (0x281, 0xffff0000), (0x204, 0), (0x206, 0x43f),
         (0x83, 0xffff), (0x317, 0x10), (0x2fa, 0x3f800000), (0x2fc, 0x3f800000), (0x2fb, 0x3f800000),
         (0x2fd, 0x3f800000), (0x202, 0xcc0010), (0x30e, 0xffffffff), (0x30f, 0xffffffff)]
     @ [0xc0002f00, 1]
     @ ctx_regs [(0x1b1, 2), (0x101, 0), (0x100, 0xffffffff), (0x103, 0), (0x284, 0), (0x290, 0), (0x2ae, 0),
         (0x102, 0), (0x292, 0), (0x293, 0x6020000), (0x2f8, 0), (0x2de, 0x1e9)]
     @ [0xc0036900, 0x295, 0x100, 0x100, 4] @ ctx_regs [(0x2aa, 0xff)] @ [0xc09e1000, 0]"

abbreviation (input) PM4_HW_INIT_PACKET_SIZE :: u32 where "PM4_HW_INIT_PACKET_SIZE \<equiv> 0x100"
abbreviation (input) PM4_CTX_INIT_PACKET_SIZE_400 :: u32 where "PM4_CTX_INIT_PACKET_SIZE_400 \<equiv> 0x100"

text \<open>The initialisers return the number of words, 0 when they write none.\<close>

definition sceGnmDrawInitDefaultHardwareState350 :: "guest_mem \<Rightarrow> hptr \<Rightarrow> u32 \<Rightarrow> guest_mem \<times> u32" where
  "sceGnmDrawInitDefaultHardwareState350 m cmdbuf sz =
     (case cmdbuf of None \<Rightarrow> (m, 0) | Some p \<Rightarrow>
        if sz < PM4_HW_INIT_PACKET_SIZE then (m, 0)
        else
          let ws = clear_context_state @ drop 2 g_initSequence350;
              used = length ws;
              fill = (if used < unat PM4_HW_INIT_PACKET_SIZE - 1
                      then write_trailing_nop (PM4_HW_INIT_PACKET_SIZE - of_nat used - 1) else [])
          in (put_words 0 p (map W (ws @ fill)) m, PM4_HW_INIT_PACKET_SIZE))"

definition sceGnmDrawInitDefaultHardwareState :: "guest_mem \<Rightarrow> hptr \<Rightarrow> u32 \<Rightarrow> guest_mem \<times> u32" where
  "sceGnmDrawInitDefaultHardwareState m cmdbuf sz = sceGnmDrawInitDefaultHardwareState350 m cmdbuf sz"

definition sceGnmDrawInitDefaultHardwareState175 :: "guest_mem \<Rightarrow> hptr \<Rightarrow> u32 \<Rightarrow> guest_mem \<times> u32" where
  "sceGnmDrawInitDefaultHardwareState175 m cmdbuf sz = sceGnmDrawInitDefaultHardwareState350 m cmdbuf sz"

definition sceGnmDrawInitDefaultHardwareState200 :: "guest_mem \<Rightarrow> hptr \<Rightarrow> u32 \<Rightarrow> guest_mem \<times> u32" where
  "sceGnmDrawInitDefaultHardwareState200 m cmdbuf sz = sceGnmDrawInitDefaultHardwareState350 m cmdbuf sz"

definition sceGnmDrawInitToDefaultContextState400 :: "guest_mem \<Rightarrow> hptr \<Rightarrow> u32 \<Rightarrow> guest_mem \<times> u32" where
  "sceGnmDrawInitToDefaultContextState400 m cmdbuf sz =
     (case cmdbuf of None \<Rightarrow> (m, 0) | Some p \<Rightarrow>
        if sz \<noteq> PM4_CTX_INIT_PACKET_SIZE_400 then (m, 0)
        else (put_words 0 p (map W (g_ctxInitSequence400
                @ replicate (unat sz - length g_ctxInitSequence400) 0)) m, PM4_CTX_INIT_PACKET_SIZE_400))"

definition sceGnmDrawInitToDefaultContextState :: "guest_mem \<Rightarrow> hptr \<Rightarrow> u32 \<Rightarrow> guest_mem \<times> u32" where
  "sceGnmDrawInitToDefaultContextState m cmdbuf sz = sceGnmDrawInitToDefaultContextState400 m cmdbuf sz"

definition sceGnmDispatchInitDefaultHardwareState :: "guest_mem \<Rightarrow> hptr \<Rightarrow> u32 \<Rightarrow> guest_mem \<times> u32" where
  "sceGnmDispatchInitDefaultHardwareState m cmdbuf sz =
     (case cmdbuf of None \<Rightarrow> (m, 0) | Some p \<Rightarrow>
        if sz < 4 then (m, 0)
        else (put_words 0 p (map W (PM4_TYPE3_HEADER PM4_IT_NOP (sz - 2) 1 0 # replicate (unat (sz - 1)) 0)) m, sz))"

definition sceGnmResetVgtControl :: "guest_mem \<Rightarrow> hptr \<Rightarrow> u32 \<Rightarrow> cmd_result" where
  "sceGnmResetVgtControl m cmdbuf sz =
     emit m cmdbuf (3 \<le> sz) [PM4_TYPE3_HEADER PM4_IT_SET_CONTEXT_REG 1 0 0, 0x2de, 0x1e9]"

definition sceGnmSetVgtControl :: "guest_mem \<Rightarrow> hptr \<Rightarrow> u32 \<Rightarrow> u32 \<Rightarrow> cmd_result" where
  "sceGnmSetVgtControl m cmdbuf sz vgt_control =
     emit m cmdbuf (3 \<le> sz) [PM4_TYPE3_HEADER PM4_IT_SET_CONTEXT_REG 1 0 0, 0x2de, vgt_control]"

definition sceGnmSetGsRingSizes :: "guest_mem \<Rightarrow> hptr \<Rightarrow> u32 \<Rightarrow> u32 \<Rightarrow> cmd_result" where
  "sceGnmSetGsRingSizes m cmdbuf sz ring_sizes =
     emit m cmdbuf (3 \<le> sz) [PM4_TYPE3_HEADER PM4_IT_SET_CONTEXT_REG 1 0 0, 0x284, ring_sizes]"

definition sceGnmSetWaveLimitMultipliers :: "guest_mem \<Rightarrow> hptr \<Rightarrow> u32 \<Rightarrow> u32 \<Rightarrow> cmd_result" where
  "sceGnmSetWaveLimitMultipliers m cmdbuf sz mult =
     emit m cmdbuf (3 \<le> sz) [PM4_TYPE3_HEADER PM4_IT_SET_SH_REG 1 0 0, 0x215, mult]"

section \<open>Markers\<close>

definition sceGnmInsertDingDongMarker :: "guest_mem \<Rightarrow> hptr \<Rightarrow> u32 \<Rightarrow> cmd_result" where
  "sceGnmInsertDingDongMarker m cmdbuf sz = emit m cmdbuf (sz = 4) [PM4_TYPE3_HEADER PM4_IT_NOP 2 0 0, 0, 0, 0]"

definition sceGnmInsertPopMarker :: "guest_mem \<Rightarrow> hptr \<Rightarrow> u32 \<Rightarrow> cmd_result" where
  "sceGnmInsertPopMarker m cmdbuf sz =
     emit m cmdbuf (sz = 6) [PM4_TYPE3_HEADER PM4_IT_NOP 4 0 0, 2, 0, 0, 0, 0]"

text \<open>
  A string of the guest ends at its NUL, at the latest at the end of guest memory. The copied
  string is read after the two words before it are stored.
\<close>

definition marker_len :: "guest_mem \<Rightarrow> u64 \<Rightarrow> nat" where
  "marker_len m s = length (rd_str m s (unat (mem_size m - s)))"

definition copy_bytes :: "u64 \<Rightarrow> u64 \<Rightarrow> nat \<Rightarrow> guest_mem \<Rightarrow> guest_mem" where
  "copy_bytes d s n m = wr_bytes m d (rd_bytes m s n)"

definition text_marker :: "u32 \<Rightarrow> guest_mem \<Rightarrow> hptr \<Rightarrow> u32 \<Rightarrow> hptr \<Rightarrow> cmd_result" where
  "text_marker kind m cmdbuf sz marker =
     (case (cmdbuf, marker) of
        (Some p, Some s) \<Rightarrow>
          (let len = marker_len m s;
               packet_size = (of_nat ((len + 8) div 4 + (len + 12) div 8 * 2) :: u32)
           in if packet_size + 2 \<noteq> sz then (m, - 1)
              else
                let m1 = put_words 0 p [W (PM4_TYPE3_HEADER PM4_IT_NOP packet_size 0 0), W kind] m;
                    m2 = copy_bytes (p + 8) s (len + 1) m1
                in (wr_bytes m2 (p + 8 + of_nat (len + 1)) 
                     (replicate (unat (ucast (packet_size * 4) - of_nat (len + 1) :: u64)) 0), 0))
      | _ \<Rightarrow> (m, - 1))"

definition sceGnmInsertPushMarker :: "guest_mem \<Rightarrow> hptr \<Rightarrow> u32 \<Rightarrow> hptr \<Rightarrow> cmd_result" where
  "sceGnmInsertPushMarker m cmdbuf sz marker = text_marker 1 m cmdbuf sz marker"

definition sceGnmInsertSetMarker :: "guest_mem \<Rightarrow> hptr \<Rightarrow> u32 \<Rightarrow> hptr \<Rightarrow> cmd_result" where
  "sceGnmInsertSetMarker m cmdbuf sz marker = text_marker 4 m cmdbuf sz marker"

definition sceGnmInsertPushColorMarker :: "guest_mem \<Rightarrow> hptr \<Rightarrow> u32 \<Rightarrow> hptr \<Rightarrow> u32 \<Rightarrow> cmd_result" where
  "sceGnmInsertPushColorMarker m cmdbuf sz marker color =
     (case (cmdbuf, marker) of
        (Some p, Some s) \<Rightarrow>
          (let len = marker_len m s;
               packet_size = (of_nat ((len + 12) div 4 + (len + 16) div 8 * 2) :: u32)
           in if packet_size + 2 \<noteq> sz then (m, - 1)
              else
                let m1 = put_words 0 p [W (PM4_TYPE3_HEADER PM4_IT_NOP packet_size 0 0), W 3] m;
                    m2 = copy_bytes (p + 8) s (len + 1) m1
                in (wr_u32 m2 (p + 8 + of_nat len + 1 + 8) color, 0))
      | _ \<Rightarrow> (m, - 1))"

definition sceGnmInsertSetColorMarker :: i32 where "sceGnmInsertSetColorMarker = 0"
definition sceGnmInsertThreadTraceMarker :: i32 where "sceGnmInsertThreadTraceMarker = 0"

text \<open>\<open>labels\<close> is the answer of \<open>sceVideoOutGetBufferLabelAddress\<close>: result code and address.\<close>

definition sceGnmInsertWaitFlipDone ::
    "(i32 \<Rightarrow> i32 \<times> u64) \<Rightarrow> guest_mem \<Rightarrow> hptr \<Rightarrow> u32 \<Rightarrow> i32 \<Rightarrow> u32 \<Rightarrow> cmd_result" where
  "sceGnmInsertWaitFlipDone labels m cmdbuf sz vo_handle buf_idx =
     (let label = snd (labels vo_handle) + ucast buf_idx * 8
      in emit m cmdbuf (7 \<le> sz \<and> buf_idx < 16 \<and> 0 \<le> sint (fst (labels vo_handle)))
           [PM4_TYPE3_HEADER PM4_IT_WAIT_REG_MEM 5 0 0, 0x13, ucast label AND NOT 3, ucast (drop_bit 32 label), 0,
            0xffffffff, 10])"

end
