(* ===== verification/GnmDraw.thy ===== *)
theory GnmDraw
  imports GnmPm4
begin

unbundle bit_operations_syntax

text \<open>
  The draw, dispatch and shader packets of \<open>ps4_gnmdriver.c\<close>, and the packets of the compute wait
  and of the end of a frame.
\<close>

section \<open>Draws and dispatches\<close>

definition indirect_sgpr_offsets :: "u32 list" where
  "indirect_sgpr_offsets = [0, 0, 0x4c, 0, 0xcc, 0, 0x14c]"

definition pred_of :: "u32 \<Rightarrow> u32" where
  "pred_of flags = (if flags AND 1 \<noteq> 0 then 1 else 0)"

definition sgpr_word :: "u32 \<Rightarrow> u32 \<Rightarrow> u32" where
  "sgpr_word sgpr offs = (if sgpr = 0 then 0 else (sgpr AND 0xffff) + offs)"

definition sceGnmDrawIndex :: "guest_mem \<Rightarrow> hptr \<Rightarrow> u32 \<Rightarrow> u32 \<Rightarrow> u64 \<Rightarrow> u32 \<Rightarrow> u32 \<Rightarrow> cmd_result" where
  "sceGnmDrawIndex m cmdbuf sz index_count index_addr flags type =
     emit m cmdbuf (sz = 10 \<and> index_addr \<noteq> 0 \<and> index_addr AND 1 = 0 \<and> flags AND 0x1ffffffe = 0)
       ([PM4_TYPE3_HEADER PM4_IT_DRAW_INDEX_2 4 0 0, index_count, ucast (index_addr AND 0xffffffff),
         ucast (drop_bit 32 index_addr), index_count, 0] @ write_trailing_nop 3)"

definition sceGnmDrawIndexAuto :: "guest_mem \<Rightarrow> hptr \<Rightarrow> u32 \<Rightarrow> u32 \<Rightarrow> u32 \<Rightarrow> cmd_result" where
  "sceGnmDrawIndexAuto m cmdbuf sz index_count flags =
     emit m cmdbuf (sz = 7 \<and> flags AND 0x1ffffffe = 0)
       ([PM4_TYPE3_HEADER PM4_IT_DRAW_INDEX_AUTO 1 0 0, index_count, 2] @ write_trailing_nop 3)"

definition sceGnmDrawIndexOffset :: "guest_mem \<Rightarrow> hptr \<Rightarrow> u32 \<Rightarrow> u32 \<Rightarrow> u32 \<Rightarrow> u32 \<Rightarrow> cmd_result" where
  "sceGnmDrawIndexOffset m cmdbuf sz index_offset index_count flags =
     emit m cmdbuf (sz = 9)
       ([PM4_TYPE3_HEADER PM4_IT_DRAW_INDEX_OFFSET_2 3 0 (pred_of flags), index_count, index_offset, index_count, 0]
        @ write_trailing_nop 3)"

definition sceGnmDrawIndexIndirect ::
    "guest_mem \<Rightarrow> hptr \<Rightarrow> u32 \<Rightarrow> u32 \<Rightarrow> u32 \<Rightarrow> u32 \<Rightarrow> u32 \<Rightarrow> u32 \<Rightarrow> cmd_result" where
  "sceGnmDrawIndexIndirect m cmdbuf sz data_offset shader_stage vertex_sgpr instance_sgpr flags =
     emit m cmdbuf (sz = 9 \<and> shader_stage < 7 \<and> vertex_sgpr < 0x10 \<and> instance_sgpr < 0x10)
       (let offs = indirect_sgpr_offsets ! unat shader_stage
        in [PM4_TYPE3_HEADER PM4_IT_DRAW_INDEX_INDIRECT 3 0 (pred_of flags), data_offset,
            sgpr_word vertex_sgpr offs, sgpr_word instance_sgpr offs, 0] @ write_trailing_nop 3)"

definition sceGnmDrawIndirect ::
    "guest_mem \<Rightarrow> hptr \<Rightarrow> u32 \<Rightarrow> u32 \<Rightarrow> u32 \<Rightarrow> u32 \<Rightarrow> u32 \<Rightarrow> u32 \<Rightarrow> cmd_result" where
  "sceGnmDrawIndirect m cmdbuf sz data_offset shader_stage vertex_sgpr instance_sgpr flags =
     emit m cmdbuf (sz = 9 \<and> shader_stage < 7 \<and> vertex_sgpr < 0x10 \<and> instance_sgpr < 0x10)
       (let offs = indirect_sgpr_offsets ! unat shader_stage
        in [PM4_TYPE3_HEADER PM4_IT_DRAW_INDIRECT 3 0 (pred_of flags), data_offset,
            sgpr_word vertex_sgpr offs, sgpr_word instance_sgpr offs, 2] @ write_trailing_nop 3)"

text \<open>A shader stage out of range has offset 0 in the next two calls.\<close>

definition stage_offset :: "u32 \<Rightarrow> u32" where
  "stage_offset shader_stage = (if shader_stage < 7 then indirect_sgpr_offsets ! unat shader_stage else 0)"

definition sceGnmDrawIndexIndirectCountMulti ::
    "guest_mem \<Rightarrow> hptr \<Rightarrow> u32 \<Rightarrow> u32 \<Rightarrow> u32 \<Rightarrow> u64 \<Rightarrow> u32 \<Rightarrow> u32 \<Rightarrow> u32 \<Rightarrow> u32 \<Rightarrow> cmd_result" where
  "sceGnmDrawIndexIndirectCountMulti m cmdbuf sz data_offset max_count count_addr shader_stage vertex_sgpr
       instance_sgpr flags =
     emit m cmdbuf (sz = 16 \<and> vertex_sgpr < 0x10 \<and> instance_sgpr < 0x10)
       ([PM4_TYPE3_HEADER PM4_IT_NOP 1 0 0, 0, 0, PM4_TYPE3_HEADER 0x3a 8 0 (pred_of flags), data_offset,
         sgpr_word vertex_sgpr (stage_offset shader_stage), sgpr_word instance_sgpr (stage_offset shader_stage),
         push_bit 30 (if count_addr \<noteq> 0 then 1 else 0), max_count, ucast count_addr,
         ucast (drop_bit 32 count_addr), 20, 0] @ write_trailing_nop 2)"

definition sceGnmDrawIndexIndirectMulti ::
    "guest_mem \<Rightarrow> hptr \<Rightarrow> u32 \<Rightarrow> u32 \<Rightarrow> u32 \<Rightarrow> u32 \<Rightarrow> u32 \<Rightarrow> u32 \<Rightarrow> u32 \<Rightarrow> cmd_result" where
  "sceGnmDrawIndexIndirectMulti m cmdbuf sz data_offset max_count shader_stage vertex_sgpr instance_sgpr flags =
     emit m cmdbuf (sz = 11 \<and> vertex_sgpr < 0x10 \<and> instance_sgpr < 0x10)
       ([PM4_TYPE3_HEADER PM4_IT_DRAW_INDEX_INDIRECT_MULTI 5 0 (pred_of flags), data_offset,
         sgpr_word vertex_sgpr (stage_offset shader_stage), sgpr_word instance_sgpr (stage_offset shader_stage),
         max_count, 20, 0] @ write_trailing_nop 3)"

definition sceGnmDrawIndirectMulti ::
    "guest_mem \<Rightarrow> hptr \<Rightarrow> u32 \<Rightarrow> u32 \<Rightarrow> u32 \<Rightarrow> u32 \<Rightarrow> u32 \<Rightarrow> u32 \<Rightarrow> u32 \<Rightarrow> cmd_result" where
  "sceGnmDrawIndirectMulti m cmdbuf sz data_offset max_count shader_stage vertex_sgpr instance_sgpr flags =
     emit m cmdbuf (sz = 11 \<and> shader_stage < 7 \<and> vertex_sgpr < 0x10 \<and> instance_sgpr < 0x10)
       (let offs = indirect_sgpr_offsets ! unat shader_stage
        in [PM4_TYPE3_HEADER PM4_IT_DRAW_INDIRECT_MULTI 5 0 (pred_of flags), data_offset,
            sgpr_word vertex_sgpr offs, sgpr_word instance_sgpr offs, max_count, 16, 2] @ write_trailing_nop 3)"

definition sceGnmDispatchDirect ::
    "guest_mem \<Rightarrow> hptr \<Rightarrow> u32 \<Rightarrow> u32 \<Rightarrow> u32 \<Rightarrow> u32 \<Rightarrow> u32 \<Rightarrow> cmd_result" where
  "sceGnmDispatchDirect m cmdbuf sz threads_x threads_y threads_z flags =
     emit m cmdbuf (sz = 9)
       ([PM4_TYPE3_HEADER PM4_IT_DISPATCH_DIRECT 3 1 (pred_of flags), threads_x, threads_y, threads_z,
         (flags AND 0x18) + 1] @ write_trailing_nop 3)"

definition sceGnmDispatchIndirect :: "guest_mem \<Rightarrow> hptr \<Rightarrow> u32 \<Rightarrow> u32 \<Rightarrow> u32 \<Rightarrow> cmd_result" where
  "sceGnmDispatchIndirect m cmdbuf sz data_offset flags =
     emit m cmdbuf (sz = 7)
       ([PM4_TYPE3_HEADER PM4_IT_DISPATCH_INDIRECT 1 1 (pred_of flags), data_offset, (flags AND 0x18) + 1]
        @ write_trailing_nop 3)"

text \<open>The last two words of the NOP are left as they are.\<close>

definition sceGnmDispatchIndirectOnMec :: "guest_mem \<Rightarrow> hptr \<Rightarrow> u32 \<Rightarrow> u64 \<Rightarrow> u32 \<Rightarrow> cmd_result" where
  "sceGnmDispatchIndirectOnMec m cmdbuf sz args modifier =
     emit m cmdbuf (sz = 8 \<and> args \<noteq> 0 \<and> args AND 3 = 0)
       [0xc0021602 OR (modifier AND 1), ucast args, ucast (drop_bit 32 args), (modifier AND 0x18) OR 1, 0xc0021000, 0]"

definition sceGnmDrawIndirectCountMulti :: i32 where "sceGnmDrawIndirectCountMulti = 0"
definition sceGnmDrawIndexMultiInstanced :: i32 where "sceGnmDrawIndexMultiInstanced = 0"
definition sceGnmDrawOpaqueAuto :: i32 where "sceGnmDrawOpaqueAuto = 0"
definition sceGnmGetShaderProgramBaseAddress :: i32 where "sceGnmGetShaderProgramBaseAddress = 0"

section \<open>Shaders\<close>

text \<open>Packets that set one or two shader or context registers.\<close>

abbreviation (input) set_sh :: "u32 \<Rightarrow> u32 \<Rightarrow> cmd_word" where
  "set_sh cnt shader_type \<equiv> W (PM4_TYPE3_HEADER PM4_IT_SET_SH_REG cnt shader_type 0)"

abbreviation (input) set_ctx :: "u32 \<Rightarrow> cmd_word" where
  "set_ctx cnt \<equiv> W (PM4_TYPE3_HEADER PM4_IT_SET_CONTEXT_REG cnt 0 0)"

abbreviation (input) nop_words :: "u32 \<Rightarrow> cmd_word list" where
  "nop_words n \<equiv> map W (write_trailing_nop n)"

text \<open>The modifier replaces bits of the first resource word.\<close>

definition modified :: "u32 \<Rightarrow> u32 \<Rightarrow> u32 \<Rightarrow> u32" where
  "modified keep modifier rsrc = (if modifier = 0 then rsrc else (rsrc AND keep) OR modifier)"

definition sceGnmSetVsShader :: "guest_mem \<Rightarrow> hptr \<Rightarrow> u32 \<Rightarrow> hptr \<Rightarrow> u32 \<Rightarrow> cmd_result" where
  "sceGnmSetVsShader m cmdbuf sz vs_regs shader_modifier =
     emit_regs m cmdbuf vs_regs
       (\<lambda>r. 0x1c < sz \<and> reg_at m r 1 = 0 \<and> shader_modifier AND 0xfcfffc3f = 0)
       (\<lambda>r. [set_sh 2 0, W 0x48, R 0, W 0,
             set_sh 2 0, W 0x4a, W (modified 0xfcfffc3f shader_modifier (reg_at m r 2)), R 3,
             set_ctx 1, W 0x207, R 6, set_ctx 1, W 0x1b1, R 4, set_ctx 1, W 0x1c3, R 5] @ nop_words 11)"

definition sceGnmUpdateVsShader :: "guest_mem \<Rightarrow> hptr \<Rightarrow> u32 \<Rightarrow> hptr \<Rightarrow> u32 \<Rightarrow> cmd_result" where
  "sceGnmUpdateVsShader m cmdbuf sz vs_regs shader_modifier = sceGnmSetVsShader m cmdbuf sz vs_regs shader_modifier"

definition sceGnmSetEmbeddedVsShader :: "guest_mem \<Rightarrow> hptr \<Rightarrow> u32 \<Rightarrow> u32 \<Rightarrow> u32 \<Rightarrow> cmd_result" where
  "sceGnmSetEmbeddedVsShader m cmdbuf sz shader_id shader_modifier =
     emit m cmdbuf (0x1c < sz) (write_trailing_nop (sz - 1))"

definition sceGnmSetPsShader350 :: "guest_mem \<Rightarrow> hptr \<Rightarrow> u32 \<Rightarrow> hptr \<Rightarrow> cmd_result" where
  "sceGnmSetPsShader350 m cmdbuf sz ps_regs =
     (case ps_regs of
        None \<Rightarrow>
          emit m cmdbuf (0x27 < sz)
            ([PM4_TYPE3_HEADER PM4_IT_SET_SH_REG 2 0 0, 8, 0, 0, PM4_TYPE3_HEADER PM4_IT_SET_CONTEXT_REG 1 0 0,
              0x203, 0, PM4_TYPE3_HEADER PM4_IT_SET_CONTEXT_REG 1 0 0, 0x8f, 0xf] @ write_trailing_nop 0x1d)
      | Some _ \<Rightarrow>
          emit_regs m cmdbuf ps_regs (\<lambda>r. 0x27 < sz \<and> reg_at m r 1 = 0)
            (\<lambda>r. [set_sh 2 0, W 8, R 0, W 0, set_sh 2 0, W 10, R 2, R 3, set_ctx 2, W 0x1c4, R 4, R 5,
                  set_ctx 2, W 0x1b3, R 6, R 7, set_ctx 1, W 0x1b6, R 8, set_ctx 1, W 0x1b8, R 9,
                  set_ctx 1, W 0x203, R 10, set_ctx 1, W 0x8f, R 11] @ nop_words 11))"

definition sceGnmSetPsShader :: "guest_mem \<Rightarrow> hptr \<Rightarrow> u32 \<Rightarrow> hptr \<Rightarrow> cmd_result" where
  "sceGnmSetPsShader m cmdbuf sz ps_regs =
     (if ps_regs = None then
        emit m cmdbuf (0x27 < sz)
          ([PM4_TYPE3_HEADER PM4_IT_SET_SH_REG 2 0 0, 8, 0, 0, PM4_TYPE3_HEADER PM4_IT_SET_CONTEXT_REG 1 0 0,
            0x203, 0] @ write_trailing_nop 0x20)
      else sceGnmSetPsShader350 m cmdbuf sz ps_regs)"

definition sceGnmUpdatePsShader :: "guest_mem \<Rightarrow> hptr \<Rightarrow> u32 \<Rightarrow> hptr \<Rightarrow> cmd_result" where
  "sceGnmUpdatePsShader m cmdbuf sz ps_regs = sceGnmSetPsShader m cmdbuf sz ps_regs"

definition sceGnmUpdatePsShader350 :: "guest_mem \<Rightarrow> hptr \<Rightarrow> u32 \<Rightarrow> hptr \<Rightarrow> cmd_result" where
  "sceGnmUpdatePsShader350 m cmdbuf sz ps_regs = sceGnmSetPsShader350 m cmdbuf sz ps_regs"

definition sceGnmSetEmbeddedPsShader :: "guest_mem \<Rightarrow> hptr \<Rightarrow> u32 \<Rightarrow> u32 \<Rightarrow> u32 \<Rightarrow> cmd_result" where
  "sceGnmSetEmbeddedPsShader m cmdbuf sz shader_id shader_modifier =
     emit m cmdbuf (0x27 < sz) (write_trailing_nop (sz - 1))"

definition sceGnmSetGsShader :: "guest_mem \<Rightarrow> hptr \<Rightarrow> u32 \<Rightarrow> hptr \<Rightarrow> cmd_result" where
  "sceGnmSetGsShader m cmdbuf sz gs_regs =
     emit_regs m cmdbuf gs_regs (\<lambda>r. 0x1d \<le> sz \<and> reg_at m r 1 = 0)
       (\<lambda>r. [set_sh 2 0, W 0x88, R 0, W 0, set_sh 2 0, W 0x8a, R 2, R 3,
             set_ctx 1, W 0x2e5, R 4, set_ctx 1, W 0x29b, R 5, set_ctx 1, W 0x2e4, R 6] @ nop_words 11)"

definition sceGnmUpdateGsShader :: "guest_mem \<Rightarrow> hptr \<Rightarrow> u32 \<Rightarrow> hptr \<Rightarrow> cmd_result" where
  "sceGnmUpdateGsShader m cmdbuf sz gs_regs = sceGnmSetGsShader m cmdbuf sz gs_regs"

definition sceGnmSetHsShader :: "guest_mem \<Rightarrow> hptr \<Rightarrow> u32 \<Rightarrow> hptr \<Rightarrow> u32 \<Rightarrow> cmd_result" where
  "sceGnmSetHsShader m cmdbuf sz hs_regs param4 =
     emit_regs m cmdbuf hs_regs (\<lambda>r. 0x1e \<le> sz \<and> reg_at m r 1 = 0)
       (\<lambda>r. [set_sh 2 0, W 0x108, R 0, W 0, set_sh 2 0, W 0x10a, R 2, R 3,
             set_ctx 2, W 0x286, R 5, R 6, set_ctx 1, W 0x2db, R 4, set_ctx 1, W 0x2d6, W param4] @ nop_words 11)"

definition sceGnmUpdateHsShader :: "guest_mem \<Rightarrow> hptr \<Rightarrow> u32 \<Rightarrow> hptr \<Rightarrow> u32 \<Rightarrow> cmd_result" where
  "sceGnmUpdateHsShader m cmdbuf sz hs_regs ls_hs_config = sceGnmSetHsShader m cmdbuf sz hs_regs ls_hs_config"

definition sceGnmSetEsShader :: "guest_mem \<Rightarrow> hptr \<Rightarrow> u32 \<Rightarrow> hptr \<Rightarrow> u32 \<Rightarrow> cmd_result" where
  "sceGnmSetEsShader m cmdbuf sz es_regs shader_modifier =
     emit_regs m cmdbuf es_regs
       (\<lambda>r. 0x14 \<le> sz \<and> reg_at m r 1 = 0 \<and> shader_modifier AND 0xfcfffc3f = 0)
       (\<lambda>r. [set_sh 2 0, W 0xc8, R 0, W 0,
             set_sh 2 0, W 0xca, W (modified 0xfcfffc3f shader_modifier (reg_at m r 2)), R 3] @ nop_words 11)"

definition ls_mask :: "u32 \<Rightarrow> u32" where
  "ls_mask shader_modifier = (if shader_modifier AND 0xfffffc3f = 0 then 0xfffffc3f else 0xfcfffc3f)"

text \<open>The words \<open>cmdbuf[20..22]\<close> follow the NOP, which ends at word 19.\<close>

definition sceGnmSetLsShader :: "guest_mem \<Rightarrow> hptr \<Rightarrow> u32 \<Rightarrow> hptr \<Rightarrow> u32 \<Rightarrow> cmd_result" where
  "sceGnmSetLsShader m cmdbuf sz ls_regs shader_modifier =
     emit_regs m cmdbuf ls_regs
       (\<lambda>r. 0x17 \<le> sz \<and> reg_at m r 1 = 0 \<and> shader_modifier AND ls_mask shader_modifier = 0)
       (\<lambda>r. [set_sh 2 0, W 0x148, R 0, W 0,
             set_sh 2 0, W 0x14a, W (modified (ls_mask shader_modifier) shader_modifier (reg_at m r 2)), R 3]
            @ nop_words 11 @ [set_sh 1 0, W 0x14b, R 3])"

definition sceGnmSetCsShaderWithModifier :: "guest_mem \<Rightarrow> hptr \<Rightarrow> u32 \<Rightarrow> hptr \<Rightarrow> u32 \<Rightarrow> cmd_result" where
  "sceGnmSetCsShaderWithModifier m cmdbuf sz cs_regs modifier =
     emit_regs m cmdbuf cs_regs
       (\<lambda>r. 0x18 < sz \<and> reg_at m r 1 = 0 \<and> modifier AND 0xfffffc3f = 0)
       (\<lambda>r. [set_sh 2 1, W 0x20c, R 0, W 0,
             set_sh 2 1, W 0x212, W (modified 0xfffffc3f modifier (reg_at m r 2)), R 3,
             set_sh 3 1, W 0x207, R 4, R 5, R 6] @ nop_words 11)"

definition sceGnmSetCsShader :: "guest_mem \<Rightarrow> hptr \<Rightarrow> u32 \<Rightarrow> hptr \<Rightarrow> cmd_result" where
  "sceGnmSetCsShader m cmdbuf sz cs_regs = sceGnmSetCsShaderWithModifier m cmdbuf sz cs_regs 0"

section \<open>Waits of the compute queue\<close>

text \<open>The size 0 is accepted as unknown.\<close>

definition sceGnmComputeWaitOnAddress ::
    "guest_mem \<Rightarrow> hptr \<Rightarrow> u32 \<Rightarrow> u64 \<Rightarrow> u32 \<Rightarrow> u32 \<Rightarrow> u32 \<Rightarrow> cmd_result" where
  "sceGnmComputeWaitOnAddress m cmdbuf sz addr msk cmp_func ref =
     (case cmdbuf of None \<Rightarrow> (m, - 1) | Some p \<Rightarrow>
        if sz \<noteq> 0 \<and> sz < 0x0e then (m, - 1)
        else (put_words 0 p (map W [0xc0011000, 0, 0, 0xc0053c00, (cmp_func AND 7) OR 0x10, ucast addr,
                ucast (drop_bit 32 addr), ref, msk, 10, 0xc0021000, 0, 0, 0]) m, 0x0e))"

section \<open>End of a frame\<close>

text \<open>
  The words that mark a flip are no packet: the submission finds and replaces them. \<open>label\<close>
  is the pointer as the guest passes it.
\<close>

definition sceGnmPrepareFlip :: "guest_mem \<Rightarrow> hptr \<Rightarrow> u64 \<Rightarrow> u32 \<Rightarrow> cmd_result" where
  "sceGnmPrepareFlip m dcb label val =
     (case dcb of None \<Rightarrow> m
      | Some p \<Rightarrow> put_words 0 p (map W [0xabcdef10, ucast label, ucast (drop_bit 32 label), val])
                    (put_words 0 p (replicate 0x0f (W 0)) m),
      0x0f)"

definition prepare_eop :: "u32 \<Rightarrow> guest_mem \<Rightarrow> hptr \<Rightarrow> u64 \<Rightarrow> u32 \<Rightarrow> u32 \<Rightarrow> u32 \<Rightarrow> cmd_result" where
  "prepare_eop sentinel m dcb label val int_mode sys_ev =
     (case dcb of None \<Rightarrow> m
      | Some p \<Rightarrow> put_words 0 p (map W [sentinel, ucast label, ucast (drop_bit 32 label), val, int_mode, sys_ev])
                    (put_words 0 p (replicate 0x14 (W 0)) m),
      0x14)"

definition sceGnmPrepareFlipWithEopInterrupt ::
    "guest_mem \<Rightarrow> hptr \<Rightarrow> u64 \<Rightarrow> u32 \<Rightarrow> u32 \<Rightarrow> u32 \<Rightarrow> cmd_result" where
  "sceGnmPrepareFlipWithEopInterrupt m dcb label val int_mode sys_ev =
     prepare_eop 0xabcdef12 m dcb label val int_mode sys_ev"

definition sceGnmPrepareFlipWithEopInterruptRequeued ::
    "guest_mem \<Rightarrow> hptr \<Rightarrow> u64 \<Rightarrow> u32 \<Rightarrow> u32 \<Rightarrow> u32 \<Rightarrow> cmd_result" where
  "sceGnmPrepareFlipWithEopInterruptRequeued m dcb label val int_mode sys_ev =
     prepare_eop 0xabcdef13 m dcb label val int_mode sys_ev"

end
