(* ===== verification/GnmProps.thy ===== *)
theory GnmProps
  imports GnmDraw
begin

unbundle bit_operations_syntax

text \<open>
  What the command processor reads of a command buffer: a walk over the packets by the counts of
  their headers. Every function that writes commands leaves a whole number of packets.
\<close>

section \<open>The walk over packets\<close>

definition pm4_type :: "u32 \<Rightarrow> u32" where
  "pm4_type h = drop_bit 30 h"

definition pm4_body :: "u32 \<Rightarrow> nat" where
  "pm4_body h = unat (drop_bit 16 h AND 0x3fff) + 1"

fun pm4_ok :: "u32 list \<Rightarrow> bool" where
  "pm4_ok [] \<longleftrightarrow> True"
| "pm4_ok (h # ws) \<longleftrightarrow>
     (if pm4_type h = 2 then pm4_ok ws
      else pm4_type h = 3 \<and> pm4_body h \<le> length ws \<and> pm4_ok (drop (pm4_body h) ws))"

fun pm4_shape :: "cmd_word list \<Rightarrow> bool" where
  "pm4_shape [] \<longleftrightarrow> True"
| "pm4_shape (R i # ws) \<longleftrightarrow> False"
| "pm4_shape (W h # ws) \<longleftrightarrow>
     (if pm4_type h = 2 then pm4_shape ws
      else pm4_type h = 3 \<and> pm4_body h \<le> length ws \<and> pm4_shape (drop (pm4_body h) ws))"

definition stored :: "cmd_word \<Rightarrow> u32 \<Rightarrow> bool" where
  "stored w v \<longleftrightarrow> (case w of W x \<Rightarrow> v = x | R _ \<Rightarrow> True)"

lemma stored_simps [simp]: "stored (W x) v \<longleftrightarrow> v = x" "stored (R i) v"
  by (simp_all add: stored_def)

lemma pm4_shape_ok: "pm4_shape ws \<Longrightarrow> list_all2 stored ws vs \<Longrightarrow> pm4_ok vs"
proof (induction ws arbitrary: vs rule: pm4_shape.induct)
  case (3 h ws)
  from "3.prems"(2) obtain us where vs: "vs = h # us" "list_all2 stored ws us"
    by (auto simp: list_all2_Cons1)
  have len: "length us = length ws" using vs(2) by (simp add: list_all2_lengthD)
  have "list_all2 stored (drop k ws) (drop k us)" for k
    using vs(2) by (rule list_all2_dropI)
  with 3 vs len show ?case by (auto split: if_splits)
qed auto

lemma pm4_shape_append: "pm4_shape as \<Longrightarrow> pm4_shape (as @ bs) \<longleftrightarrow> pm4_shape bs"
  by (induction as rule: pm4_shape.induct) (auto split: if_splits)

lemma pm4_header [simp]:
  "pm4_type (PM4_TYPE3_HEADER op n s p) = 3"
  "pm4_body (PM4_TYPE3_HEADER op n s p) = unat (n AND 0x3fff) + 1"
proof -
  show "pm4_type (PM4_TYPE3_HEADER op n s p) = 3"
    unfolding pm4_type_def PM4_TYPE3_HEADER_def
    by (rule bit_word_eqI) (auto simp: bit_simps dest: bit_imp_le_length)
  have "drop_bit 16 (PM4_TYPE3_HEADER op n s p) AND 0x3fff = n AND 0x3fff"
  proof (rule bit_word_eqI)
    fix k assume "k < LENGTH(32)"
    have masks: "(0x3fff :: u32) = mask 14" "(0xff :: u32) = mask 8" "(0xc0000000 :: u32) = push_bit 30 3"
      "(1 :: u32) = mask 1"
      by (simp_all add: mask_eq_exp_minus_1)
    have "(49152 :: u32) = push_bit 14 3" by simp
    then have "bit (49152 :: u32) k \<Longrightarrow> 14 \<le> k"
      by (simp only: bit_push_bit_iff)
    then show "bit (drop_bit 16 (PM4_TYPE3_HEADER op n s p) AND 0x3fff) k \<longleftrightarrow> bit (n AND 0x3fff) k"
      unfolding PM4_TYPE3_HEADER_def masks
      by (auto simp: bit_simps)
  qed
  then show "pm4_body (PM4_TYPE3_HEADER op n s p) = unat (n AND 0x3fff) + 1"
    by (simp add: pm4_body_def)
qed

section \<open>Words in memory\<close>

definition rd_words :: "guest_mem \<Rightarrow> u64 \<Rightarrow> nat \<Rightarrow> u32 list" where
  "rd_words m p n = map (\<lambda>i. rd_u32 m (p + 4 * of_nat i)) [0..<n]"

definition same_outside :: "guest_mem \<Rightarrow> guest_mem \<Rightarrow> u64 \<Rightarrow> nat \<Rightarrow> bool" where
  "same_outside m m' p n \<longleftrightarrow> (\<forall>a. n \<le> unat (a - p) \<longrightarrow> mem_bytes m' a = mem_bytes m a)"

lemma same_outside_refl [simp]: "same_outside m m p n"
  by (simp add: same_outside_def)

lemma same_outside_trans: "same_outside m m1 p n \<Longrightarrow> same_outside m1 m2 p n \<Longrightarrow> same_outside m m2 p n"
  by (simp add: same_outside_def)

text \<open>An address at most \<open>n\<close> bytes past \<open>p\<close>, seen from \<open>p + k\<close>.\<close>

lemma unat_back:
  assumes "k + n \<le> 2 ^ 64"
  shows "k + n \<le> unat (a - p :: u64) \<Longrightarrow> n \<le> unat (a - (p + of_nat k))"
    and "unat (a - p) < k \<Longrightarrow> n \<le> unat (a - (p + of_nat k))"
proof -
  define d where "d = a - p"
  have eq: "a - (p + of_nat k) = d - of_nat k" by (simp add: d_def)
  have d64: "unat d < 2 ^ 64" by (rule u64_lt)
  show "k + n \<le> unat (a - p) \<Longrightarrow> n \<le> unat (a - (p + of_nat k))"
  proof -
    assume "k + n \<le> unat (a - p)"
    then have le: "k + n \<le> unat d" by (simp add: d_def)
    with d64 have "k < 2 ^ 64" by linarith
    then have k: "unat (of_nat k :: u64) = k" by (simp add: unat_of_nat)
    then have "unat (d - of_nat k) = unat d - k" using le by (simp add: unat_sub_le)
    then show ?thesis unfolding eq using le by simp
  qed
  show "unat (a - p) < k \<Longrightarrow> n \<le> unat (a - (p + of_nat k))"
  proof -
    assume "unat (a - p) < k"
    then have lt: "unat d < k" by (simp add: d_def)
    show ?thesis
    proof (cases "n = 0")
      case False
      with assms have "k < 2 ^ 64" by linarith
      then have k: "unat (of_nat k :: u64) = k" by (simp add: unat_of_nat)
      then have "d < of_nat k" using lt by (simp add: word_less_nat_alt)
      then have "unat (d - of_nat k) = 2 ^ 64 + unat d - k"
        using k by (simp add: unat_sub_if_size word_less_nat_alt word_size)
      then show ?thesis unfolding eq using assms by simp
    qed simp
  qed
qed

lemma same_outside_inner:
  assumes "same_outside m m' (p + of_nat k) n" and "k + n \<le> l" and "l \<le> 2 ^ 64"
  shows "same_outside m m' p l"
  using assms unat_back(1) [of k n] by (auto simp: same_outside_def)

lemma same_outside_before:
  assumes "same_outside m m' (p + of_nat k) n" and "k + n \<le> 2 ^ 64" and "unat (a - p) < k"
  shows "mem_bytes m' a = mem_bytes m a"
  using assms unat_back(2) [of k n] by (auto simp: same_outside_def)

lemma wr_bytes_outside: "length bs \<le> n \<Longrightarrow> same_outside m (wr_bytes m p bs) p n"
  by (simp add: same_outside_def wr_bytes_other)

lemma rd_u32_cong:
  assumes "\<And>i. i < 4 \<Longrightarrow> mem_bytes m' (p + of_nat i) = mem_bytes m (p + of_nat i)"
  shows "rd_u32 m' p = rd_u32 m p"
  unfolding rd_u32_def rd_bytes_def by (rule arg_cong [where f = of_le]) (use assms in auto)

lemma rd_words_Suc: "rd_words m p (Suc n) = rd_u32 m p # rd_words m (p + 4) n"
proof -
  have "rd_words m p (Suc n) = rd_u32 m p # map (\<lambda>i. rd_u32 m (p + 4 * of_nat i)) (map Suc [0..<n])"
    by (simp add: rd_words_def upt_conv_Cons map_Suc_upt del: upt_Suc)
  then show ?thesis by (simp add: rd_words_def o_def algebra_simps)
qed

lemma rd_words_0 [simp]: "rd_words m p 0 = []"
  by (simp add: rd_words_def)

lemma length_rd_words [simp]: "length (rd_words m p n) = n"
  by (simp add: rd_words_def)

lemma rd_u32_before:
  assumes "same_outside m m' (p + of_nat k) n" and "k + n \<le> 2 ^ 64" and "4 \<le> k"
  shows "rd_u32 m' p = rd_u32 m p"
proof (rule rd_u32_cong)
  fix i :: nat assume i: "i < 4"
  then have "unat (p + of_nat i - p) = i" by (simp add: unat_of_nat)
  with i assms show "mem_bytes m' (p + of_nat i) = mem_bytes m (p + of_nat i)"
    by (intro same_outside_before [of m m' p k n]) simp_all
qed

lemma put_words_outside:
  "4 * length ws \<le> n \<Longrightarrow> n \<le> 2 ^ 64 \<Longrightarrow> same_outside m (put_words regs p ws m) p n"
proof (induction ws arbitrary: m p n)
  case (Cons w ws)
  let ?m1 = "wr_u32 m p (case w of W v \<Rightarrow> v | R i \<Rightarrow> reg_at m regs i)"
  have "same_outside m ?m1 p n" using Cons.prems unfolding wr_u32_def by (intro wr_bytes_outside) simp
  moreover have "same_outside ?m1 (put_words regs (p + 4) ws ?m1) p n"
    using Cons.IH [of "n - 4" ?m1 "p + 4"] Cons.prems
    by (intro same_outside_inner [of _ _ p 4 "n - 4"]) simp_all
  ultimately show ?case by (auto intro: same_outside_trans)
qed simp

lemma put_words_stored:
  "4 * length ws \<le> 2 ^ 64 \<Longrightarrow> list_all2 stored ws (rd_words (put_words regs p ws m) p (length ws))"
proof (induction ws arbitrary: m p)
  case (Cons w ws)
  let ?v = "case w of W v \<Rightarrow> v | R i \<Rightarrow> reg_at m regs i"
  let ?m1 = "wr_u32 m p ?v"
  have "same_outside ?m1 (put_words regs (p + 4) ws ?m1) (p + of_nat 4) (4 * length ws)"
    using put_words_outside [of ws "4 * length ws"] Cons.prems by simp
  then have "rd_u32 (put_words regs (p + 4) ws ?m1) p = ?v"
    using Cons.prems by (subst rd_u32_before [of ?m1 _ p 4 "4 * length ws"]) simp_all
  moreover have "stored w ?v" by (cases w) simp_all
  moreover have "list_all2 stored ws (rd_words (put_words regs (p + 4) ws ?m1) (p + 4) (length ws))"
    using Cons by simp
  ultimately show ?case by (simp add: rd_words_Suc)
qed (simp add: rd_words_def)

section \<open>Writers\<close>

text \<open>
  What a call may do to a buffer of \<open>sz\<close> words: reject it and store nothing, or fill the
  first \<open>k\<close> words with packets and change nothing outside them.
\<close>

definition emits :: "i32 \<Rightarrow> guest_mem \<Rightarrow> hptr \<Rightarrow> u32 \<Rightarrow> cmd_result \<Rightarrow> bool" where
  "emits fail m cmdbuf sz r \<longleftrightarrow>
     r = (m, fail) \<or>
     (\<exists>p k. cmdbuf = Some p \<and> 0 < k \<and> k \<le> unat sz \<and> snd r \<noteq> fail \<and> (snd r = 0 \<or> snd r = of_nat k)
        \<and> pm4_ok (rd_words (fst r) p k) \<and> same_outside m (fst r) p (4 * k))"

lemma u32_words: "k \<le> unat (sz :: u32) \<Longrightarrow> 4 * k \<le> 2 ^ 64"
  using unsigned_less [of sz, where ?'a = nat] by simp

lemma put_words_emits:
  assumes "pm4_shape ws" and "ws \<noteq> []" and "length ws \<le> unat sz" and "rc \<noteq> fail"
    and "rc = 0 \<or> rc = of_nat (length ws)"
  shows "emits fail m (Some p) sz (put_words regs p ws m, rc)"
  unfolding emits_def
  using assms put_words_stored [of ws regs p m] put_words_outside [of ws "4 * length ws" m regs p]
    u32_words [OF assms(3)]
  by (auto intro!: exI [of _ "length ws"] pm4_shape_ok)

lemma emit_emits:
  assumes "ok \<Longrightarrow> pm4_shape (map W ws) \<and> ws \<noteq> [] \<and> length ws \<le> unat sz"
  shows "emits (- 1) m cmdbuf sz (emit m cmdbuf ok ws)"
  using assms put_words_emits [of "map W ws" sz 0 "- 1" m _ 0]
  by (auto simp: emit_def emits_def split: option.split)

lemma emit_regs_emits:
  assumes "\<And>r. ok r \<Longrightarrow> pm4_shape (ws r) \<and> ws r \<noteq> [] \<and> length (ws r) \<le> unat sz"
  shows "emits (- 1) m cmdbuf sz (emit_regs m cmdbuf regs ok ws)"
  using assms put_words_emits [of "ws _" sz 0 "- 1" m _ _]
  by (auto simp: emit_regs_def emits_def split: option.split)

lemma count_bits: "x \<le> 0x3fff \<Longrightarrow> unat (x AND 0x3fff) = unat (x :: u32)"
proof -
  assume "x \<le> 0x3fff"
  then have "unat x < 2 ^ 14" by (simp add: word_le_nat_alt)
  then have "take_bit 14 (unat x) = unat x" by (rule take_bit_nat_eq_self)
  moreover have "x AND 0x3fff = take_bit 14 x"
    by (simp add: take_bit_eq_mask mask_eq_exp_minus_1)
  ultimately show ?thesis by (simp add: unsigned_take_bit_eq)
qed

lemma pm4_nop:
  assumes "0 < n" and "n \<le> 0x4000"
  shows "pm4_shape (map W (PM4_TYPE3_HEADER op (n - 1) s p # replicate (unat n) v))"
proof -
  have n: "unat (n - 1) = unat n - 1" "0 < unat n"
    using assms(1) by (simp_all add: unat_minus_one word_gt_0 unat_gt_0)
  then have "n - 1 \<le> 0x3fff" using assms(2) by (simp add: word_le_nat_alt)
  then show ?thesis using n by (simp add: count_bits)
qed

lemma shape_nop: "n \<le> 0x4000 \<Longrightarrow> pm4_shape (map W (write_trailing_nop n))"
  using pm4_nop [of n PM4_IT_NOP 0 0 0] by (auto simp: write_trailing_nop_def word_gt_0)

lemma length_nop: "length (write_trailing_nop n) = (if n = 0 then 0 else unat n + 1)"
  by (simp add: write_trailing_nop_def)

lemma fill_nop:
  assumes "4 \<le> sz" and "sz \<le> 0x4001"
  shows "pm4_shape (map W (write_trailing_nop (sz - 1)))" and "length (write_trailing_nop (sz - 1)) = unat sz"
    and "pm4_shape (map W (PM4_TYPE3_HEADER op (sz - 2) s p # replicate (unat (sz - 1)) 0))"
    and "Suc (unat (sz - 1)) = unat sz"
proof -
  have "sz \<noteq> 0" using assms(1) by auto
  then have u: "unat (sz - 1) = unat sz - 1" "4 \<le> unat sz"
    using assms(1) by (simp_all add: word_le_nat_alt unat_minus_one)
  then have le: "sz - 1 \<le> 0x4000" and pos: "0 < sz - 1"
    using assms(2) by (simp_all add: word_le_nat_alt word_less_nat_alt)
  show "pm4_shape (map W (write_trailing_nop (sz - 1)))" by (rule shape_nop [OF le])
  show "length (write_trailing_nop (sz - 1)) = unat sz" using u pos by (auto simp: length_nop)
  have "sz - 1 - 1 = sz - 2" by simp
  then show "pm4_shape (map W (PM4_TYPE3_HEADER op (sz - 2) s p # replicate (unat (sz - 1)) 0))"
    using pm4_nop [OF pos le, of op s p 0] by simp
  show "Suc (unat (sz - 1)) = unat sz" using u by simp
qed

text \<open>
  The calls that build commands. Strings that are at least \<open>2 ^ 32\<close> characters long are
  outside the statement: their packet size wraps.
\<close>

inductive builder :: "guest_mem \<Rightarrow> i32 \<Rightarrow> (hptr \<Rightarrow> u32 \<Rightarrow> cmd_result) \<Rightarrow> bool" for m where
  "builder m 0 (sceGnmDrawInitDefaultHardwareState m)"
| "builder m 0 (sceGnmDrawInitDefaultHardwareState175 m)"
| "builder m 0 (sceGnmDrawInitDefaultHardwareState200 m)"
| "builder m 0 (sceGnmDrawInitDefaultHardwareState350 m)"
| "builder m 0 (sceGnmDrawInitToDefaultContextState m)"
| "builder m 0 (sceGnmDrawInitToDefaultContextState400 m)"
| "builder m 0 (sceGnmDispatchInitDefaultHardwareState m)"
| "builder m (- 1) (sceGnmResetVgtControl m)"
| "builder m (- 1) (\<lambda>c n. sceGnmSetVgtControl m c n x)"
| "builder m (- 1) (\<lambda>c n. sceGnmSetGsRingSizes m c n x)"
| "builder m (- 1) (\<lambda>c n. sceGnmSetWaveLimitMultipliers m c n x)"
| "builder m (- 1) (sceGnmInsertDingDongMarker m)"
| "builder m (- 1) (sceGnmInsertPopMarker m)"
| "(\<And>a. s = Some a \<Longrightarrow> marker_len m a < 2 ^ 32) \<Longrightarrow> builder m (- 1) (\<lambda>c n. sceGnmInsertPushMarker m c n s)"
| "(\<And>a. s = Some a \<Longrightarrow> marker_len m a < 2 ^ 32) \<Longrightarrow> builder m (- 1) (\<lambda>c n. sceGnmInsertSetMarker m c n s)"
| "(\<And>a. s = Some a \<Longrightarrow> marker_len m a < 2 ^ 32) \<Longrightarrow>
     builder m (- 1) (\<lambda>c n. sceGnmInsertPushColorMarker m c n s x)"
| "builder m (- 1) (\<lambda>c n. sceGnmInsertWaitFlipDone labels m c n h x)"
| "builder m (- 1) (\<lambda>c n. sceGnmDrawIndex m c n x a fl ty)"
| "builder m (- 1) (\<lambda>c n. sceGnmDrawIndexAuto m c n x fl)"
| "builder m (- 1) (\<lambda>c n. sceGnmDrawIndexOffset m c n x y fl)"
| "builder m (- 1) (\<lambda>c n. sceGnmDrawIndexIndirect m c n x st vs is fl)"
| "builder m (- 1) (\<lambda>c n. sceGnmDrawIndirect m c n x st vs is fl)"
| "builder m (- 1) (\<lambda>c n. sceGnmDrawIndexIndirectCountMulti m c n x y a st vs is fl)"
| "builder m (- 1) (\<lambda>c n. sceGnmDrawIndexIndirectMulti m c n x y st vs is fl)"
| "builder m (- 1) (\<lambda>c n. sceGnmDrawIndirectMulti m c n x y st vs is fl)"
| "builder m (- 1) (\<lambda>c n. sceGnmDispatchDirect m c n x y z fl)"
| "builder m (- 1) (\<lambda>c n. sceGnmDispatchIndirect m c n x fl)"
| "builder m (- 1) (\<lambda>c n. sceGnmDispatchIndirectOnMec m c n a x)"
| "builder m (- 1) (\<lambda>c n. sceGnmSetVsShader m c n regs x)"
| "builder m (- 1) (\<lambda>c n. sceGnmUpdateVsShader m c n regs x)"
| "builder m (- 1) (\<lambda>c n. sceGnmSetEmbeddedVsShader m c n x y)"
| "builder m (- 1) (\<lambda>c n. sceGnmSetPsShader m c n regs)"
| "builder m (- 1) (\<lambda>c n. sceGnmSetPsShader350 m c n regs)"
| "builder m (- 1) (\<lambda>c n. sceGnmUpdatePsShader m c n regs)"
| "builder m (- 1) (\<lambda>c n. sceGnmUpdatePsShader350 m c n regs)"
| "builder m (- 1) (\<lambda>c n. sceGnmSetEmbeddedPsShader m c n x y)"
| "builder m (- 1) (\<lambda>c n. sceGnmSetGsShader m c n regs)"
| "builder m (- 1) (\<lambda>c n. sceGnmUpdateGsShader m c n regs)"
| "builder m (- 1) (\<lambda>c n. sceGnmSetHsShader m c n regs x)"
| "builder m (- 1) (\<lambda>c n. sceGnmUpdateHsShader m c n regs x)"
| "builder m (- 1) (\<lambda>c n. sceGnmSetEsShader m c n regs x)"
| "builder m (- 1) (\<lambda>c n. sceGnmSetLsShader m c n regs x)"
| "builder m (- 1) (\<lambda>c n. sceGnmSetCsShader m c n regs)"
| "builder m (- 1) (\<lambda>c n. sceGnmSetCsShaderWithModifier m c n regs x)"
| "builder m (- 1) (\<lambda>c n. sceGnmComputeWaitOnAddress m c n a x y z)"

lemmas same_as_defs =
  sceGnmDrawInitDefaultHardwareState_def sceGnmDrawInitDefaultHardwareState175_def
  sceGnmDrawInitDefaultHardwareState200_def sceGnmDrawInitToDefaultContextState_def
  sceGnmInsertPushMarker_def sceGnmInsertSetMarker_def sceGnmUpdateVsShader_def sceGnmUpdatePsShader_def
  sceGnmUpdatePsShader350_def sceGnmUpdateGsShader_def sceGnmUpdateHsShader_def sceGnmSetCsShader_def

lemmas plain_defs =
  sceGnmResetVgtControl_def sceGnmSetVgtControl_def sceGnmSetGsRingSizes_def sceGnmSetWaveLimitMultipliers_def
  sceGnmInsertDingDongMarker_def sceGnmInsertPopMarker_def sceGnmInsertWaitFlipDone_def
  sceGnmDrawIndex_def sceGnmDrawIndexAuto_def sceGnmDrawIndexOffset_def sceGnmDrawIndexIndirect_def
  sceGnmDrawIndirect_def sceGnmDrawIndexIndirectCountMulti_def sceGnmDrawIndexIndirectMulti_def
  sceGnmDrawIndirectMulti_def sceGnmDispatchDirect_def sceGnmDispatchIndirect_def

lemma nop_3: "write_trailing_nop 3 = [PM4_TYPE3_HEADER PM4_IT_NOP 2 0 0, 0, 0, 0]"
  and nop_2: "write_trailing_nop 2 = [PM4_TYPE3_HEADER PM4_IT_NOP 1 0 0, 0, 0]"
  by (simp_all only: write_trailing_nop_def) (code_simp+)

lemma nop_11: "write_trailing_nop 11 = PM4_TYPE3_HEADER PM4_IT_NOP 10 0 0 # replicate 11 0"
  and nop_1d: "write_trailing_nop 0x1d = PM4_TYPE3_HEADER PM4_IT_NOP 28 0 0 # replicate 29 0"
  and nop_20: "write_trailing_nop 0x20 = PM4_TYPE3_HEADER PM4_IT_NOP 31 0 0 # replicate 32 0"
  by (simp_all only: write_trailing_nop_def) (code_simp+)

lemmas nops = nop_2 nop_3 nop_11 nop_1d nop_20

lemma plain_emits:
  "emits (- 1) m cmdbuf sz (sceGnmResetVgtControl m cmdbuf sz)"
  "emits (- 1) m cmdbuf sz (sceGnmSetVgtControl m cmdbuf sz x)"
  "emits (- 1) m cmdbuf sz (sceGnmSetGsRingSizes m cmdbuf sz x)"
  "emits (- 1) m cmdbuf sz (sceGnmSetWaveLimitMultipliers m cmdbuf sz x)"
  "emits (- 1) m cmdbuf sz (sceGnmInsertDingDongMarker m cmdbuf sz)"
  "emits (- 1) m cmdbuf sz (sceGnmInsertPopMarker m cmdbuf sz)"
  "emits (- 1) m cmdbuf sz (sceGnmInsertWaitFlipDone labels m cmdbuf sz h x)"
  "emits (- 1) m cmdbuf sz (sceGnmDrawIndex m cmdbuf sz x a fl ty)"
  "emits (- 1) m cmdbuf sz (sceGnmDrawIndexAuto m cmdbuf sz x fl)"
  "emits (- 1) m cmdbuf sz (sceGnmDrawIndexOffset m cmdbuf sz x y fl)"
  "emits (- 1) m cmdbuf sz (sceGnmDrawIndexIndirect m cmdbuf sz x st vs is fl)"
  "emits (- 1) m cmdbuf sz (sceGnmDrawIndirect m cmdbuf sz x st vs is fl)"
  "emits (- 1) m cmdbuf sz (sceGnmDrawIndexIndirectCountMulti m cmdbuf sz x y a st vs is fl)"
  "emits (- 1) m cmdbuf sz (sceGnmDrawIndexIndirectMulti m cmdbuf sz x y st vs is fl)"
  "emits (- 1) m cmdbuf sz (sceGnmDrawIndirectMulti m cmdbuf sz x y st vs is fl)"
  "emits (- 1) m cmdbuf sz (sceGnmDispatchDirect m cmdbuf sz x y z fl)"
  "emits (- 1) m cmdbuf sz (sceGnmDispatchIndirect m cmdbuf sz x fl)"
  unfolding plain_defs Let_def
  by (rule emit_emits, simp add: nops word_le_nat_alt)+

lemma shader_emits:
  "emits (- 1) m cmdbuf sz (sceGnmSetVsShader m cmdbuf sz regs x)"
  "emits (- 1) m cmdbuf sz (sceGnmSetGsShader m cmdbuf sz regs)"
  "emits (- 1) m cmdbuf sz (sceGnmSetHsShader m cmdbuf sz regs x)"
  "emits (- 1) m cmdbuf sz (sceGnmSetEsShader m cmdbuf sz regs x)"
  "emits (- 1) m cmdbuf sz (sceGnmSetLsShader m cmdbuf sz regs x)"
  "emits (- 1) m cmdbuf sz (sceGnmSetCsShaderWithModifier m cmdbuf sz regs x)"
  unfolding sceGnmSetVsShader_def sceGnmSetGsShader_def sceGnmSetHsShader_def sceGnmSetEsShader_def
    sceGnmSetLsShader_def sceGnmSetCsShaderWithModifier_def
  by (rule emit_regs_emits, simp add: nops word_le_nat_alt word_less_nat_alt)+

lemma ps_shader_emits:
  "emits (- 1) m cmdbuf sz (sceGnmSetPsShader350 m cmdbuf sz regs)"
  "emits (- 1) m cmdbuf sz (sceGnmSetPsShader m cmdbuf sz regs)"
proof -
  show a: "emits (- 1) m cmdbuf sz (sceGnmSetPsShader350 m cmdbuf sz regs)"
    unfolding sceGnmSetPsShader350_def
    by (cases regs; simp only: option.case; (rule emit_emits | rule emit_regs_emits);
        simp add: nops word_less_nat_alt)
  have "emits (- 1) m cmdbuf sz (emit m cmdbuf (0x27 < sz)
          ([PM4_TYPE3_HEADER PM4_IT_SET_SH_REG 2 0 0, 8, 0, 0, PM4_TYPE3_HEADER PM4_IT_SET_CONTEXT_REG 1 0 0,
            0x203, 0] @ write_trailing_nop 0x20))"
    by (rule emit_emits, simp add: nops word_less_nat_alt)
  with a show "emits (- 1) m cmdbuf sz (sceGnmSetPsShader m cmdbuf sz regs)"
    unfolding sceGnmSetPsShader_def by simp
qed

lemma init_emits:
  "emits 0 m cmdbuf sz (sceGnmDrawInitDefaultHardwareState350 m cmdbuf sz)"
  "emits 0 m cmdbuf sz (sceGnmDrawInitToDefaultContextState400 m cmdbuf sz)"
proof -
  define ws1 where "ws1 = (let ws = clear_context_state @ drop 2 g_initSequence350
     in ws @ (if length ws < unat (0x100 :: u32) - 1 then write_trailing_nop (0x100 - of_nat (length ws) - 1) else []))"
  have ws1: "pm4_shape (map W ws1)" "length ws1 = 256"
    unfolding ws1_def by code_simp+
  have "sceGnmDrawInitDefaultHardwareState350 m cmdbuf sz =
      (case cmdbuf of None \<Rightarrow> (m, 0) | Some p \<Rightarrow>
         if sz < 0x100 then (m, 0) else (put_words 0 p (map W ws1) m, 0x100))"
    unfolding sceGnmDrawInitDefaultHardwareState350_def ws1_def by (simp add: Let_def split: option.split)
  moreover have "ws1 \<noteq> []" using ws1(2) by auto
  ultimately show "emits 0 m cmdbuf sz (sceGnmDrawInitDefaultHardwareState350 m cmdbuf sz)"
    using put_words_emits [of "map W ws1" sz "0x100" 0 m _ 0] ws1
    by (auto simp: emits_def [of _ _ None] emits_def [of _ _ _ _ "(m, 0)"] word_less_nat_alt split: option.split)
  define ws2 where "ws2 = g_ctxInitSequence400 @ replicate (256 - length g_ctxInitSequence400) 0"
  have ws2: "pm4_shape (map W ws2)" "length ws2 = 256"
    unfolding ws2_def by code_simp+
  have "sceGnmDrawInitToDefaultContextState400 m cmdbuf sz =
      (case cmdbuf of None \<Rightarrow> (m, 0) | Some p \<Rightarrow>
         if sz \<noteq> 0x100 then (m, 0) else (put_words 0 p (map W ws2) m, 0x100))"
    unfolding sceGnmDrawInitToDefaultContextState400_def ws2_def by (simp split: option.split)
  moreover have "ws2 \<noteq> []" using ws2(2) by auto
  ultimately show "emits 0 m cmdbuf sz (sceGnmDrawInitToDefaultContextState400 m cmdbuf sz)"
    using put_words_emits [of "map W ws2" sz "0x100" 0 m _ 0] ws2
    by (auto simp: emits_def [of _ _ None] emits_def [of _ _ _ _ "(m, 0)"] split: option.split)
qed

lemma fill_emits:
  assumes "sz \<le> 0x4001"
  shows "emits 0 m cmdbuf sz (sceGnmDispatchInitDefaultHardwareState m cmdbuf sz)"
    and "emits (- 1) m cmdbuf sz (sceGnmSetEmbeddedVsShader m cmdbuf sz x y)"
    and "emits (- 1) m cmdbuf sz (sceGnmSetEmbeddedPsShader m cmdbuf sz x y)"
proof -
  have ok: "b < sz \<Longrightarrow> 3 \<le> b \<Longrightarrow> pm4_shape (map W (write_trailing_nop (sz - 1)))
      \<and> write_trailing_nop (sz - 1) \<noteq> [] \<and> length (write_trailing_nop (sz - 1)) \<le> unat sz" for b
    using fill_nop [OF _ assms] by (auto simp: word_le_nat_alt word_less_nat_alt)
  show "emits (- 1) m cmdbuf sz (sceGnmSetEmbeddedVsShader m cmdbuf sz x y)"
    "emits (- 1) m cmdbuf sz (sceGnmSetEmbeddedPsShader m cmdbuf sz x y)"
    unfolding sceGnmSetEmbeddedVsShader_def sceGnmSetEmbeddedPsShader_def
    by (rule emit_emits, erule ok, simp)+
  show "emits 0 m cmdbuf sz (sceGnmDispatchInitDefaultHardwareState m cmdbuf sz)"
  proof (cases "cmdbuf = None \<or> sz < 4")
    case True
    then show ?thesis
      by (auto simp: emits_def sceGnmDispatchInitDefaultHardwareState_def split: option.split)
  next
    case False
    then obtain p where p: "cmdbuf = Some p" "4 \<le> sz" by (auto simp: not_less)
    then have nz: "sz \<noteq> 0" by auto
    note f = fill_nop [OF p(2) assms]
    show ?thesis
      using put_words_emits [OF f(3) [of PM4_IT_NOP 1 0], of sz sz 0 m p 0] p f(4) nz
      by (simp add: sceGnmDispatchInitDefaultHardwareState_def not_less [symmetric] del: list.map)
  qed
qed

text \<open>Words at the end of the last packet may be left as they are.\<close>

lemma rd_words_append: "rd_words m p (j + k) = rd_words m p j @ rd_words m (p + 4 * of_nat j) k"
  by (induction j arbitrary: p) (simp_all add: rd_words_Suc algebra_simps)

lemma pm4_first:
  assumes "pm4_type h = 3" and "pm4_body h = n" and "rd_u32 m p = h"
  shows "pm4_ok (rd_words m p (Suc n))"
  using assms by (simp add: rd_words_Suc)

lemma pm4_low_bit:
  "pm4_type (h OR (x AND 1)) = pm4_type h" "pm4_body (h OR (x AND 1)) = pm4_body h"
proof -
  have "drop_bit n (h OR (x AND 1)) = drop_bit n h" if "0 < n" for n and h x :: u32
    using that by (intro bit_word_eqI) (auto simp: bit_simps)
  then show "pm4_type (h OR (x AND 1)) = pm4_type h" "pm4_body (h OR (x AND 1)) = pm4_body h"
    by (simp_all add: pm4_type_def pm4_body_def)
qed

lemma mec_emits: "emits (- 1) m cmdbuf sz (sceGnmDispatchIndirectOnMec m cmdbuf sz a x)"
proof (cases "cmdbuf = None \<or> \<not> (sz = 8 \<and> a \<noteq> 0 \<and> a AND 3 = 0)")
  case True
  then show ?thesis
    by (auto simp: emits_def sceGnmDispatchIndirectOnMec_def emit_def split: option.split)
next
  case False
  define ws :: "u32 list" where "ws = [0xc0021602 OR (x AND 1), ucast a, ucast (drop_bit 32 a),
    (x AND 0x18) OR 1, 0xc0021000, 0]"
  from False obtain p where p: "cmdbuf = Some p" and sz: "sz = 8" by auto
  define m' where "m' = put_words 0 p (map W ws) m"
  have r: "sceGnmDispatchIndirectOnMec m cmdbuf sz a x = (m', 0)"
    using False p by (simp add: sceGnmDispatchIndirectOnMec_def emit_def m'_def ws_def)
  have len: "length ws = 6" by (simp add: ws_def)
  have "list_all2 stored (map W ws) (rd_words m' p 6)"
    using put_words_stored [of "map W ws" 0 p m] len by (simp add: m'_def)
  then have six: "rd_words m' p 6 = ws"
    using len by (simp add: list_all2_conv_all_nth list_eq_iff_nth_eq)
  have "rd_words m' p 8 = ws @ rd_words m' (p + 24) 2"
    using rd_words_append [of m' p 6 2] six by simp
  moreover obtain u v where "rd_words m' (p + 24) 2 = [u, v]"
    by (simp add: numeral_2_eq_2 rd_words_Suc)
  moreover have "pm4_type 0xc0021602 = 3" "pm4_body 0xc0021602 = 3" "pm4_type 0xc0021000 = 3"
    "pm4_body 0xc0021000 = 3"
    by (simp_all add: pm4_type_def pm4_body_def)
  then have "pm4_ok (ws @ [u, v])"
    by (simp add: ws_def pm4_low_bit)
  ultimately have "pm4_ok (rd_words m' p 8)"
    by (simp only:)
  moreover have "same_outside m m' p (4 * 8)"
    using put_words_outside [of "map W ws" 32] len by (simp add: m'_def)
  ultimately show ?thesis
    unfolding emits_def r using p sz by (intro disjI2 exI [of _ p] exI [of _ 8]) simp
qed

lemma wait_emits:
  assumes "0 < sz"
  shows "emits (- 1) m cmdbuf sz (sceGnmComputeWaitOnAddress m cmdbuf sz a x y z)"
proof (cases "cmdbuf = None \<or> sz < 0x0e")
  case True
  with assms show ?thesis
    by (auto simp: emits_def sceGnmComputeWaitOnAddress_def split: option.split)
next
  case False
  then obtain p where p: "cmdbuf = Some p" "\<not> sz < 14" by auto
  define ws :: "u32 list" where "ws = [0xc0011000, 0, 0, 0xc0053c00, (y AND 7) OR 0x10, ucast a,
                ucast (drop_bit 32 a), z, x, 10, 0xc0021000, 0, 0, 0]"
  have "sceGnmComputeWaitOnAddress m cmdbuf sz a x y z = (put_words 0 p (map W ws) m, 14)"
    using p by (simp add: sceGnmComputeWaitOnAddress_def ws_def)
  moreover have "pm4_shape (map W ws)"
    by (simp add: ws_def pm4_type_def pm4_body_def)
  ultimately show ?thesis
    using put_words_emits [of "map W ws" sz 14 "- 1" m p 0] p
    by (simp add: ws_def word_less_nat_alt)
qed

text \<open>A marker is one NOP: its text is stored behind the header.\<close>

lemma marker_emits:
  fixes h n :: u32
  assumes h: "pm4_type h = 3" "pm4_body h = unat n + 1" and sz: "unat sz = unat n + 2"
    and m1: "m1 = put_words 0 p [W h, W kind] m"
    and m2: "same_outside m1 m2 (p + of_nat 8) (4 * unat n)"
  shows "emits (- 1) m (Some p) sz (m2, 0)"
proof -
  have n: "8 + 4 * unat n \<le> 2 ^ 64"
    using unsigned_less [of n, where ?'a = nat] by simp
  have "rd_u32 m1 p = h"
    using put_words_stored [of "[W h, W kind]" 0 p m] by (simp add: m1 rd_words_Suc)
  moreover have "rd_u32 m2 p = rd_u32 m1 p"
    using m2 n by (rule rd_u32_before) simp
  ultimately have "pm4_ok (rd_words m2 p (Suc (unat n + 1)))"
    using h by (intro pm4_first) auto
  moreover have "same_outside m m1 p (4 * unat sz)"
    unfolding m1 using n by (intro put_words_outside) (simp_all add: sz)
  moreover have "same_outside m1 m2 p (4 * unat sz)"
    by (rule same_outside_inner [OF m2]) (use n sz in simp_all)
  ultimately show ?thesis
    unfolding emits_def using sz
    by (intro disjI2 exI [of _ p] exI [of _ "unat sz"]) (auto intro: same_outside_trans)
qed

lemma packet_size:
  fixes sz :: u32
  assumes "of_nat l + 2 = sz" and "l < 2 ^ 32 - 2" and "sz \<le> 0x4001"
  shows "unat (of_nat l :: u32) = l" and "unat sz = l + 2" and "unat ((of_nat l :: u32) AND 0x3fff) = l"
    and "unat (ucast ((of_nat l :: u32) * 4) :: u64) = 4 * l"
proof -
  show u: "unat (of_nat l :: u32) = l" using assms(2) by (simp add: unat_of_nat)
  then show sz: "unat sz = l + 2"
    using assms(1,2) by (simp add: unat_word_ariths flip: assms(1))
  then have l: "l \<le> 0x3fff" using assms(3) by (simp add: word_le_nat_alt)
  then show "unat ((of_nat l :: u32) AND 0x3fff) = l"
    using u by (subst count_bits) (simp_all add: word_le_nat_alt)
  have "unat ((of_nat l :: u32) * 4) = 4 * l" using l u by (simp add: unat_word_ariths)
  then show "unat (ucast ((of_nat l :: u32) * 4) :: u64) = 4 * l"
    by (simp add: unat_ucast_up)
qed

lemma text_marker_emits:
  assumes s: "\<And>a. s = Some a \<Longrightarrow> marker_len m a < 2 ^ 32" and sz: "sz \<le> 0x4001"
  shows "emits (- 1) m cmdbuf sz (text_marker kind m cmdbuf sz s)"
proof (cases cmdbuf)
  case (Some p)
  show ?thesis
  proof (cases s)
    case s': (Some a)
    define len where "len = marker_len m a"
    define l where "l = (len + 8) div 4 + (len + 12) div 8 * 2"
    have len: "len < 2 ^ 32" using s s' by (simp add: len_def)
    then have l: "l < 2 ^ 32 - 2" by (simp add: l_def)
    show ?thesis
    proof (cases "of_nat l + 2 = sz")
      case True
      note ps = packet_size [OF True l sz]
      define m1 where "m1 = put_words 0 p [W (PM4_TYPE3_HEADER PM4_IT_NOP (of_nat l) 0 0), W kind] m"
      define m2 where "m2 = copy_bytes (p + 8) a (len + 1) m1"
      define fill where "fill = unat (ucast ((of_nat l :: u32) * 4) - of_nat (len + 1) :: u64)"
      define m3 where "m3 = wr_bytes m2 (p + 8 + of_nat (len + 1)) (replicate fill 0)"
      have le: "len + 1 \<le> 4 * l" by (simp add: l_def)
      have "unat (of_nat (len + 1) :: u64) = len + 1" using len by (simp add: unat_of_nat del: of_nat_Suc)
      then have fill: "fill = 4 * l - (len + 1)"
        using le ps(4) unfolding fill_def by (simp only: unat_sub_le)
      have b: "4 * l \<le> 2 ^ 64" using ps(2) u32_words [of "unat sz" sz] by simp
      have "same_outside m1 m2 (p + 8) (4 * l)"
        using le unfolding m2_def copy_bytes_def by (intro wr_bytes_outside) (simp add: rd_bytes_def)
      moreover have "same_outside m2 m3 (p + 8 + of_nat (len + 1)) fill"
        unfolding m3_def by (rule wr_bytes_outside) simp
      then have "same_outside m2 m3 (p + 8) (4 * l)"
        by (rule same_outside_inner) (use fill le b in simp_all)
      ultimately have out: "same_outside m1 m3 (p + of_nat 8) (4 * unat (of_nat l :: u32))"
        using same_outside_trans unfolding ps(1) by simp
      have "emits (- 1) m (Some p) sz (m3, 0)"
        by (rule marker_emits [OF _ _ _ m1_def out]) (use ps in simp_all)
      then show ?thesis
        using Some s' True
        by (simp add: text_marker_def Let_def len_def l_def m1_def m2_def m3_def fill_def)
    next
      case False
      then show ?thesis
        using Some s' by (simp add: text_marker_def Let_def len_def l_def emits_def)
    qed
  qed (simp add: text_marker_def emits_def Some)
qed (simp add: text_marker_def emits_def)

lemma color_marker_emits:
  assumes s: "\<And>a. s = Some a \<Longrightarrow> marker_len m a < 2 ^ 32" and sz: "sz \<le> 0x4001"
  shows "emits (- 1) m cmdbuf sz (sceGnmInsertPushColorMarker m cmdbuf sz s color)"
proof (cases cmdbuf)
  case (Some p)
  show ?thesis
  proof (cases s)
    case s': (Some a)
    define len where "len = marker_len m a"
    define l where "l = (len + 12) div 4 + (len + 16) div 8 * 2"
    have len: "len < 2 ^ 32" using s s' by (simp add: len_def)
    then have l: "l < 2 ^ 32 - 2" by (simp add: l_def)
    show ?thesis
    proof (cases "of_nat l + 2 = sz")
      case True
      note ps = packet_size [OF True l sz]
      define m1 where "m1 = put_words 0 p [W (PM4_TYPE3_HEADER PM4_IT_NOP (of_nat l) 0 0), W 3] m"
      define m2 where "m2 = copy_bytes (p + 8) a (len + 1) m1"
      define m3 where "m3 = wr_u32 m2 (p + 8 + of_nat len + 1 + 8) color"
      have le: "len + 13 \<le> 4 * l" by (simp add: l_def)
      have b: "4 * l \<le> 2 ^ 64" using ps(2) u32_words [of "unat sz" sz] by simp
      have "same_outside m1 m2 (p + 8) (4 * l)"
        using le unfolding m2_def copy_bytes_def by (intro wr_bytes_outside) (simp add: rd_bytes_def)
      moreover have "same_outside m2 m3 (p + 8 + of_nat (len + 9)) 4"
        unfolding m3_def wr_u32_def
        using wr_bytes_outside [of "le_bytes 4 color" 4 m2 "p + 8 + of_nat (len + 9)"] by (simp add: algebra_simps)
      then have "same_outside m2 m3 (p + 8) (4 * l)"
        by (rule same_outside_inner) (use le b in simp_all)
      ultimately have out: "same_outside m1 m3 (p + of_nat 8) (4 * unat (of_nat l :: u32))"
        using same_outside_trans unfolding ps(1) by simp
      have "emits (- 1) m (Some p) sz (m3, 0)"
        by (rule marker_emits [OF _ _ _ m1_def out]) (use ps in simp_all)
      then show ?thesis
        using Some s' True
        by (simp add: sceGnmInsertPushColorMarker_def Let_def len_def l_def m1_def m2_def m3_def)
    next
      case False
      then show ?thesis
        using Some s' by (simp add: sceGnmInsertPushColorMarker_def Let_def len_def l_def emits_def)
    qed
  qed (simp add: sceGnmInsertPushColorMarker_def emits_def Some)
qed (simp add: sceGnmInsertPushColorMarker_def emits_def)

section \<open>The property\<close>



text \<open>The size just past the limit: the NOP counts one word, and the walk stops at the zeros behind it.\<close>

lemma gnm_oversized_nop:
  "let ws = write_trailing_nop (0x4002 - 1) in length ws = 0x4002 \<and> \<not> pm4_ok ws"
proof -
  have "(0x4000 :: u32) AND 0x3fff = 0" by simp
  moreover have "\<not> pm4_ok (replicate n 0)" if "0 < n" for n
    using that by (cases n) (simp_all add: pm4_type_def)
  ultimately show ?thesis
    by (simp add: write_trailing_nop_def Let_def)
qed

end
