(* ===== verification/GnmTables.thy ===== *)
theory GnmTables
  imports GnmPm4 EqueueProps
begin

unbundle bit_operations_syntax

text \<open>
  The tables of the graphics driver: registered owners and resources, and the event queues that
  receive the interrupts of the GPU. Each table is a fixed array behind a mutex; a call is one
  critical section, so it is one function on the table. Constant answers of the library follow.
\<close>

section \<open>Owners and resources\<close>

abbreviation (input) ORBIS_GNM_ERROR_FAILURE :: i32 where "ORBIS_GNM_ERROR_FAILURE \<equiv> 0x80d10000"
abbreviation (input) ORBIS_GNM_ERROR_VALIDATION_NOT_ENABLED :: i32 where
  "ORBIS_GNM_ERROR_VALIDATION_NOT_ENABLED \<equiv> 0x80d10001"
abbreviation (input) ORBIS_GNM_ERROR_INVALID_ARGS :: i32 where "ORBIS_GNM_ERROR_INVALID_ARGS \<equiv> 0x80d11000"
abbreviation (input) ORBIS_GNM_ERROR_INVALID_VALUE :: i32 where "ORBIS_GNM_ERROR_INVALID_VALUE \<equiv> 0x80d11000"

record gnm_owner =
  ow_in_use :: bool
  ow_handle :: hptr
  ow_name :: string

record gnm_resource =
  rs_in_use :: bool
  rs_handle :: hptr
  rs_owner :: hptr
  rs_addr :: hptr
  rs_size :: u64
  rs_name :: string
  rs_type :: i32
  rs_user_data :: u64
  rs_guid :: u64

record gnm_tab =
  g_owners :: "nat \<Rightarrow> gnm_owner"
  g_resources :: "nat \<Rightarrow> gnm_resource"

abbreviation (input) MAX_GNM_OWNERS :: nat where "MAX_GNM_OWNERS \<equiv> 256"
abbreviation (input) MAX_GNM_RESOURCES :: nat where "MAX_GNM_RESOURCES \<equiv> 4096"

definition gnm_owner0 :: gnm_owner where
  "gnm_owner0 = \<lparr>ow_in_use = False, ow_handle = None, ow_name = []\<rparr>"

definition gnm_resource0 :: gnm_resource where
  "gnm_resource0 = \<lparr>rs_in_use = False, rs_handle = None, rs_owner = None, rs_addr = None, rs_size = 0, rs_name = [],
     rs_type = 0, rs_user_data = 0, rs_guid = 0\<rparr>"

definition gnm_tab0 :: gnm_tab where
  "gnm_tab0 = \<lparr>g_owners = (\<lambda>_. gnm_owner0), g_resources = (\<lambda>_. gnm_resource0)\<rparr>"

definition put_owner :: "gnm_tab \<Rightarrow> nat \<Rightarrow> (gnm_owner \<Rightarrow> gnm_owner) \<Rightarrow> gnm_tab" where
  "put_owner t i f = t\<lparr>g_owners := (g_owners t)(i := f (g_owners t i))\<rparr>"

definition put_resource :: "gnm_tab \<Rightarrow> nat \<Rightarrow> (gnm_resource \<Rightarrow> gnm_resource) \<Rightarrow> gnm_tab" where
  "put_resource t i f = t\<lparr>g_resources := (g_resources t)(i := f (g_resources t i))\<rparr>"

definition find_owner :: "gnm_tab \<Rightarrow> hptr \<Rightarrow> nat option" where
  "find_owner t h = first_free (\<lambda>i. \<not> (ow_in_use (g_owners t i) \<and> ow_handle (g_owners t i) = h)) 0 MAX_GNM_OWNERS"

definition find_resource :: "gnm_tab \<Rightarrow> hptr \<Rightarrow> nat option" where
  "find_resource t h =
     first_free (\<lambda>i. \<not> (rs_in_use (g_resources t i) \<and> rs_handle (g_resources t i) = h)) 0 MAX_GNM_RESOURCES"

text \<open>Without a name the slot keeps the name of its previous entry.\<close>

definition sceGnmRegisterOwner :: "gnm_tab \<Rightarrow> hptr \<Rightarrow> string option \<Rightarrow> i32 \<times> gnm_tab" where
  "sceGnmRegisterOwner t handle name =
     (case first_free (\<lambda>i. ow_in_use (g_owners t i)) 0 MAX_GNM_OWNERS of
        None \<Rightarrow> (ORBIS_GNM_ERROR_FAILURE, t)
      | Some i \<Rightarrow> (0, put_owner t i (\<lambda>e. e\<lparr>ow_in_use := True, ow_handle := handle,
           ow_name := (case name of None \<Rightarrow> ow_name e | Some s \<Rightarrow> strncpy_name 128 s)\<rparr>)))"

definition sceGnmRegisterResource ::
    "gnm_tab \<Rightarrow> hptr \<Rightarrow> hptr \<Rightarrow> hptr \<Rightarrow> u64 \<Rightarrow> string option \<Rightarrow> i32 \<Rightarrow> u64 \<Rightarrow> i32 \<times> gnm_tab" where
  "sceGnmRegisterResource t res_handle owner_handle addr sz name res_type user_data =
     (case first_free (\<lambda>i. rs_in_use (g_resources t i)) 0 MAX_GNM_RESOURCES of
        None \<Rightarrow> (ORBIS_GNM_ERROR_FAILURE, t)
      | Some i \<Rightarrow> (0, put_resource t i (\<lambda>e. e\<lparr>rs_in_use := True, rs_handle := res_handle, rs_owner := owner_handle,
           rs_addr := addr, rs_size := sz, rs_type := res_type, rs_user_data := user_data,
           rs_name := (case name of None \<Rightarrow> rs_name e | Some s \<Rightarrow> strncpy_name 128 s)\<rparr>)))"

definition sceGnmUnregisterResource :: "gnm_tab \<Rightarrow> hptr \<Rightarrow> i32 \<times> gnm_tab" where
  "sceGnmUnregisterResource t res_handle =
     (case find_resource t res_handle of None \<Rightarrow> (ORBIS_GNM_ERROR_FAILURE, t)
      | Some i \<Rightarrow> (0, put_resource t i (\<lambda>e. e\<lparr>rs_in_use := False\<rparr>)))"

definition sceGnmUnregisterOwnerAndResources :: "gnm_tab \<Rightarrow> hptr \<Rightarrow> i32 \<times> gnm_tab" where
  "sceGnmUnregisterOwnerAndResources t owner_handle =
     (0, t\<lparr>g_resources := (\<lambda>i. let e = g_resources t i in
              if i < MAX_GNM_RESOURCES \<and> rs_in_use e \<and> rs_owner e = owner_handle then e\<lparr>rs_in_use := False\<rparr> else e),
            g_owners := (\<lambda>i. let e = g_owners t i in
              if i < MAX_GNM_OWNERS \<and> ow_in_use e \<and> ow_handle e = owner_handle then e\<lparr>ow_in_use := False\<rparr> else e)\<rparr>)"

definition sceGnmUnregisterAllResourcesForOwner :: "gnm_tab \<Rightarrow> hptr \<Rightarrow> i32 \<times> gnm_tab" where
  "sceGnmUnregisterAllResourcesForOwner t owner_handle = sceGnmUnregisterOwnerAndResources t owner_handle"

definition sceGnmSetResourceUserData :: "gnm_tab \<Rightarrow> hptr \<Rightarrow> u64 \<Rightarrow> i32 \<times> gnm_tab" where
  "sceGnmSetResourceUserData t res_handle user_data =
     (case find_resource t res_handle of None \<Rightarrow> (ORBIS_GNM_ERROR_FAILURE, t)
      | Some i \<Rightarrow> (0, put_resource t i (\<lambda>e. e\<lparr>rs_user_data := user_data\<rparr>)))"

text \<open>A getter returns an error code, or the value it stores through its pointer.\<close>

definition read_resource :: "gnm_tab \<Rightarrow> hptr \<Rightarrow> (gnm_resource \<Rightarrow> 'a) \<Rightarrow> i32 + 'a" where
  "read_resource t res_handle f =
     (case find_resource t res_handle of None \<Rightarrow> Inl ORBIS_GNM_ERROR_FAILURE | Some i \<Rightarrow> Inr (f (g_resources t i)))"

definition sceGnmGetResourceUserData :: "gnm_tab \<Rightarrow> hptr \<Rightarrow> bool \<Rightarrow> i32 + u64" where
  "sceGnmGetResourceUserData t res_handle out_null =
     (if out_null then Inl ORBIS_GNM_ERROR_INVALID_ARGS else read_resource t res_handle rs_user_data)"

definition sceGnmGetResourceBaseAddressAndSizeInBytes :: "gnm_tab \<Rightarrow> hptr \<Rightarrow> i32 + hptr \<times> u64" where
  "sceGnmGetResourceBaseAddressAndSizeInBytes t res_handle =
     read_resource t res_handle (\<lambda>e. (rs_addr e, rs_size e))"

text \<open>\<open>strncpy(name, src, max_len - 1); name[max_len - 1] = 0\<close> as the bytes stored.\<close>

definition name_out :: "u64 \<Rightarrow> string \<Rightarrow> u8 list" where
  "name_out max_len s =
     (let n = unat max_len - 1; bs = str_bytes (take n s) in bs @ replicate (n - length bs) 0 @ [0])"

definition sceGnmGetResourceName :: "gnm_tab \<Rightarrow> hptr \<Rightarrow> bool \<Rightarrow> u64 \<Rightarrow> i32 + u8 list" where
  "sceGnmGetResourceName t res_handle name_null max_len =
     (if name_null \<or> max_len = 0 then Inl ORBIS_GNM_ERROR_INVALID_ARGS
      else read_resource t res_handle (\<lambda>e. name_out max_len (rs_name e)))"

definition sceGnmGetResourceType :: "gnm_tab \<Rightarrow> hptr \<Rightarrow> bool \<Rightarrow> i32 + i32" where
  "sceGnmGetResourceType t res_handle out_null =
     (if out_null then Inl ORBIS_GNM_ERROR_INVALID_ARGS else read_resource t res_handle rs_type)"

definition sceGnmGetOwnerName :: "gnm_tab \<Rightarrow> hptr \<Rightarrow> bool \<Rightarrow> u64 \<Rightarrow> i32 + u8 list" where
  "sceGnmGetOwnerName t owner_handle name_null max_len =
     (if name_null \<or> max_len = 0 then Inl ORBIS_GNM_ERROR_INVALID_ARGS
      else case find_owner t owner_handle of None \<Rightarrow> Inl ORBIS_GNM_ERROR_FAILURE
           | Some i \<Rightarrow> Inr (name_out max_len (ow_name (g_owners t i))))"

definition sceGnmGetResourceShaderGuid :: "gnm_tab \<Rightarrow> hptr \<Rightarrow> bool \<Rightarrow> i32 + u64" where
  "sceGnmGetResourceShaderGuid t res_handle out_null =
     (if out_null then Inl ORBIS_GNM_ERROR_INVALID_ARGS else read_resource t res_handle rs_guid)"

section \<open>Interrupts and event queues\<close>

record gnm_eq_reg =
  er_in_use :: bool
  er_eq :: i32
  er_id :: u64
  er_udata :: u64

type_synonym gnm_eq_regs = "nat \<Rightarrow> gnm_eq_reg"

abbreviation (input) GNM_MAX_EQ_REGS :: nat where "GNM_MAX_EQ_REGS \<equiv> 64"
abbreviation (input) EVFILT_GRAPHICS_CORE :: u16 where "EVFILT_GRAPHICS_CORE \<equiv> - 14"

definition gnm_eq_reg0 :: gnm_eq_reg where
  "gnm_eq_reg0 = \<lparr>er_in_use = False, er_eq = 0, er_id = 0, er_udata = 0\<rparr>"

definition reg_for :: "gnm_eq_regs \<Rightarrow> i32 \<Rightarrow> u64 \<Rightarrow> nat \<Rightarrow> bool" where
  "reg_for rs q ident i \<longleftrightarrow> er_in_use (rs i) \<and> er_eq (rs i) = q \<and> er_id (rs i) = ident"

definition reg_slot :: "gnm_eq_regs \<Rightarrow> i32 \<Rightarrow> u64 \<Rightarrow> nat option" where
  "reg_slot rs q ident =
     (case first_free (\<lambda>i. \<not> reg_for rs q ident i) 0 GNM_MAX_EQ_REGS of
        Some i \<Rightarrow> Some i
      | None \<Rightarrow> first_free (\<lambda>i. er_in_use (rs i)) 0 GNM_MAX_EQ_REGS)"

definition sceGnmAddEqEvent :: "eq_tab \<Rightarrow> gnm_eq_regs \<Rightarrow> u64 \<Rightarrow> u64 \<Rightarrow> u64 \<Rightarrow> i32 \<times> gnm_eq_regs" where
  "sceGnmAddEqEvent t rs eq ident udata =
     (let q = ucast eq in
      if \<not> ps4_equeue_exists t q then (KERR_EBADF, rs)
      else case reg_slot rs q ident of
        None \<Rightarrow> (KERR_ENOMEM, rs)
      | Some i \<Rightarrow> (0, rs(i := \<lparr>er_in_use = True, er_eq = q, er_id = ident, er_udata = udata\<rparr>)))"

definition sceGnmDeleteEqEvent :: "eq_tab \<Rightarrow> gnm_eq_regs \<Rightarrow> u64 \<Rightarrow> u64 \<Rightarrow> i32 \<times> eq_tab \<times> gnm_eq_regs" where
  "sceGnmDeleteEqEvent t rs eq ident =
     (let q = ucast eq in
      if \<not> ps4_equeue_exists t q then (KERR_EBADF, t, rs)
      else (0, snd (ps4_equeue_remove_events t q ident EVFILT_GRAPHICS_CORE),
            \<lambda>i. if i < GNM_MAX_EQ_REGS \<and> reg_for rs q ident i then gnm_eq_reg0 else rs i))"

definition sceGnmGetEqEventType :: "guest_mem \<Rightarrow> hptr \<Rightarrow> i32" where
  "sceGnmGetEqEventType m ev = (case ev of None \<Rightarrow> 0 | Some p \<Rightarrow> ucast (rd_u64 m (p + 16)))"

text \<open>The matching registrations are copied out first and triggered one by one.\<close>

definition irq_hits :: "gnm_eq_regs \<Rightarrow> u32 \<Rightarrow> gnm_eq_reg list" where
  "irq_hits rs irq_id = filter (\<lambda>e. er_in_use e \<and> er_id e = ucast irq_id) (map rs [0..<GNM_MAX_EQ_REGS])"

fun trigger_hits :: "gnm_eq_reg list \<Rightarrow> eq_tab \<Rightarrow> eq_tab" where
  "trigger_hits [] t = t"
| "trigger_hits (e # es) t =
     trigger_hits es (snd (ps4_equeue_trigger_event t (er_eq e) (er_id e) EVFILT_GRAPHICS_CORE (er_id e) (er_udata e)))"

definition ps4_gnm_signal_interrupt :: "gnm_eq_regs \<Rightarrow> u32 \<Rightarrow> eq_tab \<Rightarrow> eq_tab" where
  "ps4_gnm_signal_interrupt rs irq_id t = trigger_hits (irq_hits rs irq_id) t"

section \<open>Constant answers\<close>

definition sceGnmFindResourcesPublic :: i32 where "sceGnmFindResourcesPublic = ORBIS_GNM_ERROR_FAILURE"
definition sceGnmQueryResourceRegistrationUserMemoryRequirements :: "i32 \<times> u64" where
  "sceGnmQueryResourceRegistrationUserMemoryRequirements = (0, 0x10000)"
definition sceGnmSetResourceRegistrationUserMemory :: "hptr \<Rightarrow> u64 \<Rightarrow> i32" where
  "sceGnmSetResourceRegistrationUserMemory addr sz = 0"
definition sceGnmRegisterGdsResource :: i32 where "sceGnmRegisterGdsResource = 0"

definition sceGnmBeginWorkload :: "u32 \<Rightarrow> i32 \<times> u64" where "sceGnmBeginWorkload workload_stream = (0, 1)"
definition sceGnmEndWorkload :: "u64 \<Rightarrow> i32" where "sceGnmEndWorkload workload = (if workload \<noteq> 0 then 0 else 2)"
definition sceGnmCreateWorkloadStream :: "u64 \<Rightarrow> i32 \<times> u32" where "sceGnmCreateWorkloadStream param1 = (0, 1)"
definition sceGnmDestroyWorkloadStream :: i32 where "sceGnmDestroyWorkloadStream = 0"

definition sceGnmGetOffChipTessellationBufferSize :: i32 where "sceGnmGetOffChipTessellationBufferSize = 0x800000"
definition sceGnmGetGpuCoreClockFrequency :: u32 where "sceGnmGetGpuCoreClockFrequency = 800"
definition sceGnmAreSubmitsAllowed :: i32 where "sceGnmAreSubmitsAllowed = 1"
definition sceGnmGetNumTcaUnits :: i32 where "sceGnmGetNumTcaUnits = 2"
definition sceGnmLogicalTcaUnitToPhysical :: "u32 \<Rightarrow> i32" where "sceGnmLogicalTcaUnitToPhysical tca = tca"
definition sceGnmLogicalCuIndexToPhysicalCuIndex :: "u32 \<Rightarrow> i32" where "sceGnmLogicalCuIndexToPhysicalCuIndex cu = cu"
definition sceGnmLogicalCuMaskToPhysicalCuMask :: "i64 \<Rightarrow> i32 \<Rightarrow> i32" where
  "sceGnmLogicalCuMaskToPhysicalCuMask unk logical_cu_mask = logical_cu_mask"
definition sceGnmGetShaderStatus :: i32 where "sceGnmGetShaderStatus = 0"
definition sceGnmGetProtectionFaultTimeStamp :: u32 where "sceGnmGetProtectionFaultTimeStamp = 0"
definition sceGnmGetEqTimeStamp :: i32 where "sceGnmGetEqTimeStamp = 0"
definition sceGnmGetGpuBlockStatus :: i32 where "sceGnmGetGpuBlockStatus = 0"
definition sceGnmGetGpuInfoStatus :: i32 where "sceGnmGetGpuInfoStatus = 0"
definition sceGnmGetPhysicalCounterFromVirtualized :: i32 where "sceGnmGetPhysicalCounterFromVirtualized = 0"
definition sceGnmComputeWaitSemaphore :: i32 where "sceGnmComputeWaitSemaphore = 0"
definition sceGnmGetLastWaitedAddress :: i32 where "sceGnmGetLastWaitedAddress = 0"

definition sceGnmValidateGetVersion :: i32 where "sceGnmValidateGetVersion = 0"
definition sceGnmValidateOnSubmitEnabled :: bool where "sceGnmValidateOnSubmitEnabled = False"
definition sceGnmValidateGetDiagnosticInfo :: i32 where
  "sceGnmValidateGetDiagnosticInfo = ORBIS_GNM_ERROR_VALIDATION_NOT_ENABLED"
definition sceGnmValidateGetDiagnostics :: i32 where
  "sceGnmValidateGetDiagnostics = ORBIS_GNM_ERROR_VALIDATION_NOT_ENABLED"
definition sceGnmValidateResetState :: i32 where "sceGnmValidateResetState = ORBIS_GNM_ERROR_VALIDATION_NOT_ENABLED"
definition sceGnmValidateDisableDiagnostics :: i32 where
  "sceGnmValidateDisableDiagnostics = ORBIS_GNM_ERROR_VALIDATION_NOT_ENABLED"
definition sceGnmValidateDisableDiagnostics2 :: i32 where
  "sceGnmValidateDisableDiagnostics2 = ORBIS_GNM_ERROR_VALIDATION_NOT_ENABLED"
definition sceGnmValidateDrawCommandBuffers :: i32 where
  "sceGnmValidateDrawCommandBuffers = ORBIS_GNM_ERROR_VALIDATION_NOT_ENABLED"
definition sceGnmValidateDispatchCommandBuffers :: i32 where
  "sceGnmValidateDispatchCommandBuffers = ORBIS_GNM_ERROR_VALIDATION_NOT_ENABLED"
definition sceGnmValidateCommandBuffers :: i32 where "sceGnmValidateCommandBuffers = 0x80d11001"
definition sceGnmValidationRegisterMemoryCheckCallback :: i32 where
  "sceGnmValidationRegisterMemoryCheckCallback = ORBIS_GNM_ERROR_VALIDATION_NOT_ENABLED"

definition sceRazorIsLoaded :: i32 where "sceRazorIsLoaded = 0"
definition sceRazorCaptureImmediate :: i32 where "sceRazorCaptureImmediate = 0x80d1500f"
definition sceRazorCaptureSinceLastFlip :: i32 where "sceRazorCaptureSinceLastFlip = 0x80d1500f"
definition sceRazorCaptureCommandBuffersOnlyImmediate :: i32 where
  "sceRazorCaptureCommandBuffersOnlyImmediate = 0x80d1500f"
definition sceRazorCaptureCommandBuffersOnlySinceLastFlip :: i32 where
  "sceRazorCaptureCommandBuffersOnlySinceLastFlip = 0x80d1500f"
definition sceRazorCpuJobManagerSequence :: i32 where "sceRazorCpuJobManagerSequence = 0"
definition sceRazorCpuJobManagerJob :: i32 where "sceRazorCpuJobManagerJob = 0"
definition sceRazorCpuJobManagerDispatch :: i32 where "sceRazorCpuJobManagerDispatch = 0"
definition sceGnmDriverTraceInProgress :: bool where "sceGnmDriverTraceInProgress = False"
definition sceGnmDriverCaptureInProgress :: bool where "sceGnmDriverCaptureInProgress = False"
definition sceGnmDriverTriggerCapture :: i32 where "sceGnmDriverTriggerCapture = 0x80d12000"
definition sceGnmIsUserPaEnabled :: bool where "sceGnmIsUserPaEnabled = False"
definition sceGnmDebugHardwareStatus :: i32 where "sceGnmDebugHardwareStatus = 0"
definition sceGnmSetupMipStatsReport :: i32 where "sceGnmSetupMipStatsReport = 0"
definition sceGnmDisableMipStatsReport :: i32 where "sceGnmDisableMipStatsReport = 0"
definition sceGnmRequestMipStatsReportAndReset :: i32 where "sceGnmRequestMipStatsReportAndReset = 0"

end
