(* ===== verification/GnmQueues.thy ===== *)
theory GnmQueues
  imports GnmTables
begin

unbundle bit_operations_syntax

text \<open>
  Compute queues of the graphics driver: rings of packets in guest memory. A doorbell gives the
  offset up to which the game has filled a ring, and the driver hands the words between its
  cursor and that offset to the renderer.
\<close>

section \<open>State\<close>

record cqueue =
  cq_in_use :: bool
  cq_pipe :: u32
  cq_queue :: u32
  cq_base :: u64
  cq_size_dw :: u32
  cq_read_ptr :: hptr
  cq_next_dw :: u32

type_synonym cqueues = "nat \<Rightarrow> cqueue"

abbreviation (input) GNM_MAX_COMPUTE_QUEUES :: nat where "GNM_MAX_COMPUTE_QUEUES \<equiv> 56"

definition cqueue0 :: cqueue where
  "cqueue0 = \<lparr>cq_in_use = False, cq_pipe = 0, cq_queue = 0, cq_base = 0, cq_size_dw = 0, cq_read_ptr = None,
     cq_next_dw = 0\<rparr>"

section \<open>Doorbells\<close>

text \<open>
  A span of a ring that goes to the renderer, as first word and number of words. The answer of
  the renderer says whether the queue stopped at a wait; a span outside guest memory is skipped.
\<close>

type_synonym span = "u32 \<times> u32"

definition gnm_process_ring_span :: "guest_mem \<Rightarrow> (span \<Rightarrow> bool) \<Rightarrow> cqueue \<Rightarrow> u32 \<Rightarrow> u32 \<Rightarrow> span list \<times> bool" where
  "gnm_process_ring_span m waits q from_dw size_dw =
     (let addr = cq_base q + ucast from_dw * 4 in
      if \<not> mem_mapped m \<or> size_dw = 0 then ([], False)
      else if addr = 0 \<or> mem_size m \<le> addr \<or> mem_size m - addr < ucast size_dw * 4 then ([], False)
      else ([(from_dw, size_dw)], waits (from_dw, size_dw)))"

definition ring_advance :: "guest_mem \<Rightarrow> (span \<Rightarrow> bool) \<Rightarrow> cqueue \<Rightarrow> u32 \<Rightarrow> span list \<times> bool" where
  "ring_advance m waits q next_offs_dw =
     (let offs = cq_next_dw q;
          wraps = next_offs_dw < offs \<and> next_offs_dw \<noteq> 0;
          (tail_spans, w1) = (if wraps then gnm_process_ring_span m waits q offs (cq_size_dw q - offs) else ([], False));
          start = (if wraps then 0 else offs);
          stop = (if next_offs_dw \<noteq> 0 then next_offs_dw else cq_size_dw q);
          (spans, w2) = (if start < stop then gnm_process_ring_span m waits q start (stop - start) else ([], False))
      in (tail_spans @ spans, w1 \<or> w2))"

text \<open>
  \<open>known\<close>: a context is given or was remembered. The result is the list of spans handed to the
  renderer, the queues and the memory with the read pointer.
\<close>

definition ps4_gnm_dingdong ::
    "bool \<Rightarrow> (span \<Rightarrow> bool) \<Rightarrow> u32 \<Rightarrow> u32 \<Rightarrow> guest_mem \<times> cqueues \<Rightarrow> span list \<times> guest_mem \<times> cqueues" where
  "ps4_gnm_dingdong known waits gnm_vqid next_arg st =
     (let (m, qs) = st; i = unat gnm_vqid - 1; q = qs i in
      if gnm_vqid = 0 \<or> of_nat GNM_MAX_COMPUTE_QUEUES < gnm_vqid \<or> \<not> known then ([], m, qs)
      else if \<not> cq_in_use q \<or> cq_size_dw q = 0 then ([], m, qs)
      else
        let next_offs_dw = (if cq_size_dw q < next_arg then next_arg mod cq_size_dw q else next_arg) in
        if next_offs_dw = cq_next_dw q then ([], m, qs)
        else
          let (spans, waiting) = ring_advance m waits q next_offs_dw
          in (spans,
              (case cq_read_ptr q of
                 None \<Rightarrow> m
               | Some p \<Rightarrow> if waiting then m else wr_u32 m p (next_offs_dw mod cq_size_dw q)),
              qs(i := q\<lparr>cq_next_dw := next_offs_dw\<rparr>)))"

text \<open>Without a context in the call, the one remembered earlier is used.\<close>

definition sceGnmDingDong ::
    "bool \<Rightarrow> (span \<Rightarrow> bool) \<Rightarrow> u32 \<Rightarrow> u32 \<Rightarrow> guest_mem \<times> cqueues \<Rightarrow> span list \<times> guest_mem \<times> cqueues" where
  "sceGnmDingDong remembered waits gnm_vqid next_offs_dw st =
     ps4_gnm_dingdong remembered waits gnm_vqid next_offs_dw st"

definition sceGnmDingDongForWorkload ::
    "bool \<Rightarrow> (span \<Rightarrow> bool) \<Rightarrow> u32 \<Rightarrow> u32 \<Rightarrow> u64 \<Rightarrow> guest_mem \<times> cqueues \<Rightarrow> span list \<times> guest_mem \<times> cqueues" where
  "sceGnmDingDongForWorkload remembered waits gnm_vqid next_offs_dw workload_id st =
     ps4_gnm_dingdong remembered waits gnm_vqid next_offs_dw st"

section \<open>Mapping\<close>

definition queue_slot :: "cqueues \<Rightarrow> u32 \<Rightarrow> u32 \<Rightarrow> nat option" where
  "queue_slot qs pipe queue =
     (case first_free (\<lambda>i. \<not> (cq_in_use (qs i) \<and> cq_pipe (qs i) = pipe \<and> cq_queue (qs i) = queue)) 0
             GNM_MAX_COMPUTE_QUEUES of
        Some i \<Rightarrow> Some i
      | None \<Rightarrow> first_free (\<lambda>i. cq_in_use (qs i)) 0 GNM_MAX_COMPUTE_QUEUES)"

text \<open>\<open>base\<close> is the host address of guest memory: the alignment of the read pointer is that of the host.\<close>

definition sceGnmMapComputeQueue ::
    "u64 \<Rightarrow> u32 \<Rightarrow> u32 \<Rightarrow> u64 \<Rightarrow> u32 \<Rightarrow> hptr \<Rightarrow> guest_mem \<times> cqueues \<Rightarrow> i32 \<times> guest_mem \<times> cqueues" where
  "sceGnmMapComputeQueue base pipe_id queue_id ring_base_addr ring_size_dw read_ptr_addr st =
     (let (m, qs) = st in
      if 7 \<le> pipe_id then (0x80d17000, st)
      else if 8 \<le> queue_id then (0x80d17001, st)
      else if ring_base_addr mod 256 \<noteq> 0 then (0x80d17003, st)
      else if ring_size_dw = 0 \<or> ring_size_dw AND (ring_size_dw - 1) \<noteq> 0 then (0x80d17002, st)
      else if (case read_ptr_addr of None \<Rightarrow> 0 | Some p \<Rightarrow> base + p) mod 4 \<noteq> 0 then (0x80d17004, st)
      else case queue_slot qs pipe_id queue_id of
        None \<Rightarrow> (0x80d170ff, st)
      | Some i \<Rightarrow>
          (of_nat i + 1,
           (case read_ptr_addr of None \<Rightarrow> m | Some p \<Rightarrow> wr_u32 m p 0),
           qs(i := \<lparr>cq_in_use = True, cq_pipe = pipe_id, cq_queue = queue_id, cq_base = ring_base_addr,
                    cq_size_dw = ring_size_dw, cq_read_ptr = read_ptr_addr, cq_next_dw = 0\<rparr>)))"

definition sceGnmMapComputeQueueWithPriority ::
    "u64 \<Rightarrow> u32 \<Rightarrow> u32 \<Rightarrow> u64 \<Rightarrow> u32 \<Rightarrow> hptr \<Rightarrow> u32 \<Rightarrow> guest_mem \<times> cqueues \<Rightarrow> i32 \<times> guest_mem \<times> cqueues" where
  "sceGnmMapComputeQueueWithPriority base pipe_id queue_id ring_base_addr ring_size_dw read_ptr_addr pipePriority st =
     sceGnmMapComputeQueue base pipe_id queue_id ring_base_addr ring_size_dw read_ptr_addr st"

definition sceGnmUnmapComputeQueue :: "u32 \<Rightarrow> cqueues \<Rightarrow> i32 \<times> cqueues" where
  "sceGnmUnmapComputeQueue vqueue_id qs =
     (if vqueue_id = 0 \<or> 64 < vqueue_id then (- 1, qs)
      else let i = unat vqueue_id - 1 in
        (0, if i < GNM_MAX_COMPUTE_QUEUES \<and> cq_in_use (qs i) then qs(i := cqueue0) else qs))"

end
