(* ===== verification/GnmQueueProps.thy ===== *)
theory GnmQueueProps
  imports GnmQueues
begin

unbundle bit_operations_syntax

text \<open>
  What the doorbells of a compute queue hand to the renderer, seen as one stream of ring words,
  and the table of mapped queues: two hardware queues never share a virtual queue.
\<close>

section \<open>The stream of ring words\<close>

definition span_words :: "span \<Rightarrow> nat list" where
  "span_words s = [unat (fst s) ..< unat (fst s) + unat (snd s)]"

definition ring_words :: "nat \<Rightarrow> nat \<Rightarrow> nat \<Rightarrow> nat list" where
  "ring_words r c k = map (\<lambda>i. (c + i) mod r) [0..<k]"

text \<open>The number of new words a doorbell at offset \<open>n\<close> announces, for the cursor \<open>c\<close>.\<close>

definition ring_new :: "nat \<Rightarrow> nat \<Rightarrow> nat \<Rightarrow> nat" where
  "ring_new r c n = (if c = 0 \<and> n = r then r else (n + r - c) mod r)"

lemma ring_words_append: "ring_words r c (a + b) = ring_words r c a @ ring_words r (c + a) b"
proof -
  have "[0..<a + b] = [0..<a] @ [a..<a + b]" by (rule upt_add_eq_append) simp
  moreover have "[a..<a + b] = map (\<lambda>i. i + a) [0..<b]" by (simp add: map_add_upt add.commute)
  ultimately have "[0..<a + b] = [0..<a] @ map (\<lambda>i. i + a) [0..<b]" by simp
  then show ?thesis by (simp add: ring_words_def o_def ac_simps)
qed

lemma ring_words_mod: "ring_words r (c mod r) k = ring_words r c k"
  by (simp add: ring_words_def mod_add_left_eq)

lemma ring_words_inside: "c + k \<le> r \<Longrightarrow> ring_words r c k = [c..<c + k]"
proof -
  assume "c + k \<le> r"
  then have "ring_words r c k = map (\<lambda>i. i + c) [0..<k]" by (simp add: ring_words_def add.commute)
  then show ?thesis by (simp only: map_add_upt) (simp add: add.commute)
qed

lemma ring_words_start: "k \<le> r \<Longrightarrow> ring_words r r k = [0..<k]"
  using ring_words_inside [of 0 k r] ring_words_mod [of r r k] by simp

text \<open>The two spans of one doorbell are the new words.\<close>

lemma ring_split:
  assumes "0 < r" and "c \<le> r" and "n \<le> r" and "n \<noteq> c"
  shows "(if n < c \<and> n \<noteq> 0 then [c..<r] else []) @
      (let a = (if n < c \<and> n \<noteq> 0 then 0 else c); b = (if n \<noteq> 0 then n else r) in if a < b then [a..<b] else [])
    = ring_words r c (ring_new r c n)"
proof -
  consider (wrap) "n < c" "n \<noteq> 0" | (fwd) "c < n" | (zero) "n = 0" "c \<noteq> 0" using assms(4) by linarith
  then show ?thesis
  proof cases
    case wrap
    have "n + r - c = (r - c) + n" "(r - c) + n < r" using wrap assms(2) by linarith+
    then have new: "ring_new r c n = (r - c) + n"
      using wrap by (simp add: ring_new_def)
    have "c + (r - c) = r" using assms(2) by simp
    then have "ring_words r c (ring_new r c n) = [c..<r] @ [0..<n]"
      unfolding new ring_words_append using ring_words_inside [of c "r - c" r] ring_words_start [OF assms(3)] by simp
    then show ?thesis using wrap by simp
  next
    case fwd
    have new: "ring_new r c n = n - c"
    proof (cases "c = 0 \<and> n = r")
      case False
      have "n + r - c = (n - c) + r" using fwd assms by simp
      moreover have "n - c < r" using fwd False assms(3) by auto
      ultimately have "(n + r - c) mod r = n - c" by (simp only: mod_add_self2 mod_less)
      then show ?thesis using False by (simp only: ring_new_def if_False)
    qed (simp add: ring_new_def)
    show ?thesis unfolding new using fwd assms by (simp add: ring_words_inside)
  next
    case zero
    then have new: "ring_new r c n = r - c"
      using assms by (simp add: ring_new_def)
    show ?thesis unfolding new using zero assms by (simp add: ring_words_inside)
  qed
qed

section \<open>Doorbells\<close>

lemma unat_inj: "unat a = unat b \<Longrightarrow> a = b" for a b :: "'a::len word"
  by (simp add: unsigned_word_eqI)

text \<open>A mapped queue whose ring lies in guest memory, with its cursor on the ring.\<close>

definition ring_fits :: "guest_mem \<Rightarrow> cqueue \<Rightarrow> bool" where
  "ring_fits m q \<longleftrightarrow> mem_mapped m \<and> cq_in_use q \<and> cq_size_dw q \<noteq> 0 \<and> cq_base q \<noteq> 0
     \<and> unat (cq_base q) + 4 * unat (cq_size_dw q) \<le> unat (mem_size m) \<and> cq_next_dw q \<le> cq_size_dw q"

lemma span_handed:
  assumes "ring_fits m q" and "0 < unat k" and "unat a + unat k \<le> unat (cq_size_dw q)"
  shows "gnm_process_ring_span m waits q a k = ([(a, k)], waits (a, k))"
proof -
  have b: "unat (cq_base q) + 4 * unat (cq_size_dw q) \<le> unat (mem_size m)" "0 < unat (cq_base q)"
    using assms(1) by (simp_all add: ring_fits_def unat_gt_0)
  have M: "unat (mem_size m) < 2 ^ 64" by (rule u64_lt)
  have a: "unat (ucast a * 4 :: u64) = 4 * unat a" "unat (ucast k * 4 :: u64) = 4 * unat k"
    using assms(3) b M by (simp_all add: unat_word_ariths unat_ucast_up)
  have "unat (cq_base q) + unat (ucast a * 4 :: u64) < 2 ^ 64" using a assms(3) b M by linarith
  then have addr: "unat (cq_base q + ucast a * 4) = unat (cq_base q) + 4 * unat a"
    using a by (subst unat_word_ariths) simp
  define x where "x = cq_base q + ucast a * 4"
  have x: "unat x = unat (cq_base q) + 4 * unat a" using addr by (simp add: x_def)
  have lt: "unat x < unat (mem_size m)" using x b assms by linarith
  then have "unat (mem_size m - x) = unat (mem_size m) - unat x" by (simp add: unat_sub_le)
  then have "\<not> mem_size m - x < ucast k * 4"
    using a(2) x b assms(3) by (simp add: word_less_nat_alt)
  moreover have "x \<noteq> 0" using x b(2) by auto
  moreover have "\<not> mem_size m \<le> x" using lt by (simp add: word_le_nat_alt)
  moreover have "k \<noteq> 0" using assms(2) by auto
  ultimately show ?thesis using assms(1)
    by (simp add: gnm_process_ring_span_def ring_fits_def flip: x_def)
qed

lemma span_empty [simp]: "gnm_process_ring_span m waits q a 0 = ([], False)"
  by (simp add: gnm_process_ring_span_def)

lemma advance_words:
  assumes "ring_fits m q" and "n \<le> cq_size_dw q" and "n \<noteq> cq_next_dw q"
  shows "concat (map span_words (fst (ring_advance m waits q n)))
    = ring_words (unat (cq_size_dw q)) (unat (cq_next_dw q)) (ring_new (unat (cq_size_dw q)) (unat (cq_next_dw q)) (unat n))"
proof -
  define r c where "r = cq_size_dw q" and "c = cq_next_dw q"
  have rc: "0 < unat r" "unat c \<le> unat r" "unat n \<le> unat r" "unat n \<noteq> unat c"
    using assms by (auto simp: r_def c_def ring_fits_def word_le_nat_alt unat_gt_0 dest: unat_inj)
  have tail: "concat (map span_words (fst (gnm_process_ring_span m waits q c (r - c)))) = [unat c..<unat r]"
  proof (cases "c = r")
    case False
    have "unat (r - c) = unat r - unat c" using rc(2) by (rule unat_sub [unfolded word_le_nat_alt])
    moreover have "unat c \<noteq> unat r" using False by (auto dest: unat_inj)
    ultimately show ?thesis
      using span_handed [OF assms(1), of "r - c" c waits] rc by (simp add: span_words_def r_def)
  qed simp
  have part: "concat (map span_words (fst (gnm_process_ring_span m waits q a (b - a)))) = [unat a..<unat b]"
    if "a < b" "unat b \<le> unat r" for a b
  proof -
    have "unat (b - a) = unat b - unat a" using that by (simp add: unat_sub word_less_nat_alt word_le_nat_alt)
    then show ?thesis
      using span_handed [OF assms(1), of "b - a" a waits] that by (simp add: span_words_def r_def word_less_nat_alt)
  qed
  define wr where "wr \<longleftrightarrow> n < c \<and> n \<noteq> 0"
  define a b where "a = (if wr then 0 else c)" and "b = (if n \<noteq> 0 then n else r)"
  have b: "unat b \<le> unat r" using rc by (simp add: b_def)
  have "fst (ring_advance m waits q n) =
      (if wr then fst (gnm_process_ring_span m waits q c (r - c)) else [])
      @ (if a < b then fst (gnm_process_ring_span m waits q a (b - a)) else [])"
    by (simp add: ring_advance_def Let_def wr_def a_def b_def r_def c_def split: prod.split)
  then have "concat (map span_words (fst (ring_advance m waits q n))) =
      (if wr then [unat c..<unat r] else []) @ (if a < b then [unat a..<unat b] else [])"
    using tail part b by simp
  also have "\<dots> = (if unat n < unat c \<and> unat n \<noteq> 0 then [unat c..<unat r] else []) @
      (let a = (if unat n < unat c \<and> unat n \<noteq> 0 then 0 else unat c); b = (if unat n \<noteq> 0 then unat n else unat r)
       in if a < b then [a..<b] else [])"
    by (simp add: wr_def a_def b_def word_less_nat_alt Let_def unat_eq_0)
  also have "\<dots> = ring_words (unat r) (unat c) (ring_new (unat r) (unat c) (unat n))"
    by (rule ring_split [OF rc])
  finally show ?thesis by (simp add: r_def c_def)
qed

text \<open>A sequence of doorbells on one queue.\<close>

fun ring_run ::
    "(span \<Rightarrow> bool) \<Rightarrow> u32 \<Rightarrow> u32 list \<Rightarrow> guest_mem \<times> cqueues \<Rightarrow> span list \<times> guest_mem \<times> cqueues" where
  "ring_run waits v [] st = ([], st)"
| "ring_run waits v (a # as) st =
     (let (spans, st1) = ps4_gnm_dingdong True waits v a st;
          (spans', st2) = ring_run waits v as st1
      in (spans @ spans', st2))"

definition ring_offs :: "u32 \<Rightarrow> u32 \<Rightarrow> u32" where
  "ring_offs r a = (if r < a then a mod r else a)"

fun ring_total :: "nat \<Rightarrow> nat \<Rightarrow> nat list \<Rightarrow> nat" where
  "ring_total r c [] = 0"
| "ring_total r c (n # ns) = ring_new r c n + ring_total r n ns"

text \<open>The read pointer, when the renderer never stops at a wait.\<close>

definition read_ptr_ok :: "guest_mem \<Rightarrow> cqueue \<Rightarrow> bool" where
  "read_ptr_ok m q \<longleftrightarrow> (\<forall>p. cq_read_ptr q = Some p \<longrightarrow> rd_u32 m p = cq_next_dw q mod cq_size_dw q)"

lemma ring_offs_le: "r \<noteq> 0 \<Longrightarrow> ring_offs r a \<le> r"
  by (auto simp: ring_offs_def not_less word_le_nat_alt unat_mod unat_gt_0 intro!: less_imp_le)

lemma ring_new_same: "0 < r \<Longrightarrow> c \<le> r \<Longrightarrow> ring_new r c c = 0"
  by (simp add: ring_new_def)

lemma ring_new_end: "0 < r \<Longrightarrow> c \<le> r \<Longrightarrow> (c + ring_new r c n) mod r = n mod r"
proof (cases "c = 0 \<and> n = r")
  case False
  assume "0 < r" "c \<le> r"
  then have "(c + (n + r - c) mod r) mod r = (n + r) mod r"
    by (simp add: mod_add_right_eq)
  with False show ?thesis by (simp add: ring_new_def)
qed (simp add: ring_new_def)

lemma dingdong_step:
  assumes fits: "ring_fits m (qs i)" and v: "v \<noteq> 0" "unat v \<le> 56" "i = unat v - 1"
    and "ps4_gnm_dingdong True waits v a (m, qs) = (spans, m', qs')"
  defines "r \<equiv> cq_size_dw (qs i)" and "c \<equiv> cq_next_dw (qs i)" and "n \<equiv> ring_offs (cq_size_dw (qs i)) a"
  shows "concat (map span_words spans) = ring_words (unat r) (unat c) (ring_new (unat r) (unat c) (unat n))
    \<and> qs' = qs(i := (qs i)\<lparr>cq_next_dw := n\<rparr>) \<and> ring_fits m' (qs' i)
    \<and> ((\<forall>s. \<not> waits s) \<and> read_ptr_ok m (qs i) \<longrightarrow> read_ptr_ok m' (qs' i))"
proof -
  have q: "cq_in_use (qs i)" "cq_size_dw (qs i) \<noteq> 0" "c \<le> r" using fits by (simp_all add: ring_fits_def c_def r_def)
  have i: "unat v - Suc 0 = i" using v(3) by simp
  have guard: "\<not> (v = 0 \<or> of_nat 56 < v \<or> \<not> True)" "\<not> (\<not> cq_in_use (qs i) \<or> cq_size_dw (qs i) = 0)"
    using v q by (simp_all add: word_less_nat_alt)
  have n: "n \<le> r" using ring_offs_le q(2) by (simp add: n_def r_def)
  have n_eq: "(if cq_size_dw (qs i) < a then a mod cq_size_dw (qs i) else a) = n"
    by (simp add: n_def ring_offs_def)
  have rc: "0 < unat r" "unat c \<le> unat r" using q by (simp_all add: r_def unat_gt_0 word_le_nat_alt)
  show ?thesis
  proof (cases "n = c")
    case True
    then have "spans = []" "m' = m" "qs' = qs"
      using assms(5) guard n_eq by (simp_all add: ps4_gnm_dingdong_def Let_def c_def i)
    moreover have "ring_words (unat r) (unat c) (ring_new (unat r) (unat c) (unat n)) = []"
      using True rc by (simp add: ring_new_same ring_words_def)
    ultimately show ?thesis using True fits by (simp add: c_def fun_upd_idem)
  next
    case False
    define x where "x = ring_advance m waits (qs i) n"
    have x: "ring_advance m waits (qs i) n = (fst x, snd x)" by (simp add: x_def)
    have *: "spans = fst x" "qs' = qs(i := (qs i)\<lparr>cq_next_dw := n\<rparr>)"
      "m' = (case cq_read_ptr (qs i) of None \<Rightarrow> m | Some p \<Rightarrow> if snd x then m else wr_u32 m p (n mod r))"
      using assms(5) guard n_eq False x
      by (auto simp: ps4_gnm_dingdong_def Let_def r_def c_def i case_prod_beta split: option.splits if_splits)
    have "ring_fits m' (qs' i)"
      using fits n q * by (auto simp: ring_fits_def r_def wr_u32_def split: option.split)
    moreover have "\<not> snd x" if "\<forall>s. \<not> waits s"
      using that by (auto simp: x_def ring_advance_def gnm_process_ring_span_def Let_def split: prod.split)
    then have "read_ptr_ok m' (qs' i)" if "\<forall>s. \<not> waits s"
      using that * by (auto simp: read_ptr_ok_def r_def)
    ultimately show ?thesis
      using advance_words [OF fits, of n waits] n False * by (auto simp: x_def r_def c_def)
  qed
qed

text \<open>
  C18. For any doorbells on a mapped queue whose ring lies in guest memory, the words handed to
  the renderer are exactly the announced words of the ring, in ring order and each once: the
  stream continues at the cursor and goes on modulo the size of the ring, also across its end.
  The cursor ends at the last announced offset, and the read pointer of the game follows it
  when no packet waits. No other queue changes.
\<close>

theorem doorbells_in_order:
  assumes "ring_fits m (qs i)" and "v \<noteq> 0" and "unat v \<le> 56" and "i = unat v - 1"
    and "ring_run waits v as (m, qs) = (spans, m', qs')"
  defines "r \<equiv> cq_size_dw (qs i)" and "c \<equiv> cq_next_dw (qs i)"
    and "offs \<equiv> map (ring_offs (cq_size_dw (qs i))) as"
  shows "concat (map span_words spans) = ring_words (unat r) (unat c) (ring_total (unat r) (unat c) (map unat offs))
    \<and> qs' = qs(i := (qs i)\<lparr>cq_next_dw := last (c # offs)\<rparr>)
    \<and> ((\<forall>s. \<not> waits s) \<and> read_ptr_ok m (qs i) \<longrightarrow> read_ptr_ok m' (qs' i))"
  using assms(1,5) unfolding r_def c_def offs_def
proof (induction as arbitrary: m qs spans)
  case Nil
  then show ?case by (simp add: ring_words_def fun_upd_idem)
next
  case (Cons a as)
  obtain s1 m1 q1 where d: "ps4_gnm_dingdong True waits v a (m, qs) = (s1, m1, q1)" by (metis prod_cases3)
  obtain s2 where run: "ring_run waits v as (m1, q1) = (s2, m', qs')" and spans: "spans = s1 @ s2"
    using Cons.prems(2) d by (auto split: prod.splits)
  note st = dingdong_step [OF Cons.prems(1) assms(2-4) d]
  define r where "r = unat (cq_size_dw (qs i))"
  define c where "c = unat (cq_next_dw (qs i))"
  define n where "n = ring_offs (cq_size_dw (qs i)) a"
  have rc: "0 < r" "c \<le> r" using Cons.prems(1) by (simp_all add: ring_fits_def r_def c_def unat_gt_0 word_le_nat_alt)
  have q1: "q1 = qs(i := (qs i)\<lparr>cq_next_dw := n\<rparr>)" "ring_fits m1 (q1 i)" using st unfolding n_def by blast+
  note ih = Cons.IH [OF q1(2) run]
  have "ring_words r (unat n) k = ring_words r (c + ring_new r c (unat n)) k" for k
    using ring_words_mod [of r "unat n" k] ring_words_mod [of r "c + ring_new r c (unat n)" k] ring_new_end [OF rc]
    by simp
  then have "concat (map span_words spans)
      = ring_words r c (ring_total r c (map unat (map (ring_offs (cq_size_dw (qs i))) (a # as))))"
    using st ih q1(1) by (simp add: spans r_def c_def n_def ring_words_append)
  moreover have "qs' = qs(i := (qs i)\<lparr>cq_next_dw := last (cq_next_dw (qs i) # map (ring_offs (cq_size_dw (qs i))) (a # as))\<rparr>)"
  proof -
    have "q1 i = (qs i)\<lparr>cq_next_dw := n\<rparr>" using q1(1) by simp
    moreover have "qs' = q1(i := (q1 i)\<lparr>cq_next_dw := last (cq_next_dw (q1 i) # map (ring_offs (cq_size_dw (q1 i))) as)\<rparr>)"
      using ih by blast
    ultimately show ?thesis unfolding q1(1) by (simp add: n_def)
  qed
  moreover have "(\<forall>s. \<not> waits s) \<and> read_ptr_ok m (qs i) \<longrightarrow> read_ptr_ok m' (qs' i)"
    using st ih by blast
  ultimately show ?case unfolding r_def c_def by (intro conjI)
qed

definition ex_ring :: "guest_mem \<times> cqueues" where
  "ex_ring = (\<lparr>mem_mapped = True, mem_size = 4096, mem_bytes = (\<lambda>_. 0)\<rparr>,
     (\<lambda>_. cqueue0)(0 := \<lparr>cq_in_use = True, cq_pipe = 1, cq_queue = 2, cq_base = 256, cq_size_dw = 8,
        cq_read_ptr = None, cq_next_dw = 5\<rparr>))"

lemma doorbells_in_order_witness:
  "fst (ring_run (\<lambda>_. False) 1 [7, 3, 8] ex_ring) = [(5, 2), (7, 1), (0, 3), (3, 5)]
   \<and> concat (map span_words [(5, 2), (7, 1), (0, 3), (3, 5)]) = ring_words 8 5 11"
proof -
  obtain spans m' qs' where r: "ring_run (\<lambda>_. False) 1 [7, 3, 8] ex_ring = (spans, m', qs')"
    by (metis prod_cases3)
  have fits: "ring_fits (fst ex_ring) (snd ex_ring 0)"
    by (simp add: ring_fits_def ex_ring_def)
  have run: "fst (ring_run (\<lambda>_. False) 1 [7, 3, 8] ex_ring) = [(5, 2), (7, 1), (0, 3), (3, 5)]"
    by (simp add: ex_ring_def ps4_gnm_dingdong_def ring_advance_def gnm_process_ring_span_def)
  have t: "ring_total 8 5 [7, 3, 8] = 11" by (simp add: ring_new_def)
  have r': "ring_run (\<lambda>_. False) 1 [7, 3, 8] (fst ex_ring, snd ex_ring) = (spans, m', qs')" using r by simp
  have v: "(1 :: u32) \<noteq> 0" "unat (1 :: u32) \<le> 56" "0 = unat (1 :: u32) - 1" by simp_all
  have "concat (map span_words spans) = ring_words 8 5 (ring_total 8 5 [7, 3, 8])"
    using conjunct1 [OF doorbells_in_order [OF fits v r']]
    by (simp add: ex_ring_def ring_offs_def)
  with run show ?thesis unfolding r t by simp
qed

section \<open>The table of queues\<close>

text \<open>The states of the table under any calls and any changes of guest memory by the game.\<close>

inductive cq_reach :: "u64 \<Rightarrow> guest_mem \<times> cqueues \<Rightarrow> bool" for base where
  start: "cq_reach base (m, \<lambda>_. cqueue0)"
| guest: "cq_reach base (m, qs) \<Longrightarrow> cq_reach base (m', qs)"
| map_call: "cq_reach base st \<Longrightarrow> cq_reach base (snd (sceGnmMapComputeQueue base p q a r rp st))"
| unmap: "cq_reach base (m, qs) \<Longrightarrow> cq_reach base (m, snd (sceGnmUnmapComputeQueue v qs))"
| ding: "cq_reach base st \<Longrightarrow> cq_reach base (snd (ps4_gnm_dingdong known waits v n st))"

definition cq_live :: "cqueues \<Rightarrow> nat \<Rightarrow> u32 \<times> u32 \<Rightarrow> bool" where
  "cq_live qs i pq \<longleftrightarrow> i < 56 \<and> cq_in_use (qs i) \<and> (cq_pipe (qs i), cq_queue (qs i)) = pq"

definition cq_ok :: "cqueues \<Rightarrow> bool" where
  "cq_ok qs \<longleftrightarrow> (\<forall>i pq. cq_live qs i pq \<longrightarrow> fst pq < 7 \<and> snd pq < 8)
     \<and> (\<forall>i j pq. cq_live qs i pq \<longrightarrow> cq_live qs j pq \<longrightarrow> i = j)"

lemma slot_of_live:
  assumes "cq_ok qs" and "cq_live qs j (p, q)"
  shows "queue_slot qs p q = Some j"
proof -
  let ?f = "first_free (\<lambda>i. \<not> (cq_in_use (qs i) \<and> cq_pipe (qs i) = p \<and> cq_queue (qs i) = q)) 0 56"
  have "?f \<noteq> None" using assms(2) unfolding first_free_None by (auto simp: cq_live_def)
  then obtain i where i: "?f = Some i" by auto
  from first_free_Some [OF this] have "cq_live qs i (p, q)" by (simp add: cq_live_def)
  then have "i = j" using assms unfolding cq_ok_def by blast
  with i show ?thesis by (simp add: queue_slot_def)
qed

lemma slot_of_free:
  assumes "\<forall>j. \<not> cq_live qs j (p, q)" and "queue_slot qs p q = Some i"
  shows "i < 56 \<and> \<not> cq_in_use (qs i)"
proof -
  have "first_free (\<lambda>i. \<not> (cq_in_use (qs i) \<and> cq_pipe (qs i) = p \<and> cq_queue (qs i) = q)) 0 56 = None"
    using assms(1) unfolding first_free_None by (auto simp: cq_live_def)
  with assms(2) have "first_free (\<lambda>i. cq_in_use (qs i)) 0 56 = Some i" by (simp add: queue_slot_def)
  from first_free_Some [OF this] show ?thesis by simp
qed

text \<open>There are as many slots as hardware queues, so a valid queue always finds one.\<close>

lemma slot_exists:
  assumes ok: "cq_ok qs" and "p < 7" and "q < 8"
  shows "queue_slot qs p q \<noteq> None"
proof
  assume none: "queue_slot qs p q = None"
  then have used: "\<forall>i<56. cq_in_use (qs i)"
    by (auto simp: queue_slot_def first_free_None split: option.splits)
  have no: "\<not> cq_live qs j (p, q)" for j using none slot_of_live [OF ok] by auto
  define f where "f i = (unat (cq_pipe (qs i)), unat (cq_queue (qs i)))" for i
  have live: "cq_live qs i (cq_pipe (qs i), cq_queue (qs i))" if "i < 56" for i
    using used that by (simp add: cq_live_def)
  have inj: "inj_on f {..<56}"
  proof (rule inj_onI)
    fix i j assume ij: "i \<in> {..<56}" "j \<in> {..<56}" "f i = f j"
    then have "cq_pipe (qs i) = cq_pipe (qs j)" "cq_queue (qs i) = cq_queue (qs j)"
      by (auto simp: f_def dest: unat_inj)
    with live [of i] live [of j] ij ok show "i = j" unfolding cq_ok_def by fastforce
  qed
  have "f ` {..<56} \<subseteq> {..<7} \<times> {..<8} - {(unat p, unat q)}"
  proof
    fix x assume "x \<in> f ` {..<56}"
    then obtain i where i: "i < 56" "x = f i" by auto
    have "cq_pipe (qs i) < 7" "cq_queue (qs i) < 8"
      using ok live [OF i(1)] unfolding cq_ok_def by fastforce+
    moreover have "f i \<noteq> (unat p, unat q)"
      using no [of i] live [OF i(1)] by (auto simp: f_def dest: unat_inj)
    ultimately show "x \<in> {..<7} \<times> {..<8} - {(unat p, unat q)}"
      using i(2) by (simp add: f_def word_less_nat_alt)
  qed
  then have "card (f ` {..<56}) \<le> card ({..<7::nat} \<times> {..<8::nat} - {(unat p, unat q)})"
    by (rule card_mono [rotated]) simp
  also have "\<dots> = 55" using assms(2,3) by (simp add: card_Diff_singleton word_less_nat_alt)
  also have "card (f ` {..<56}) = 56" using inj by (simp add: card_image)
  finally show False by simp
qed

lemma cq_ok_upd:
  assumes ok: "cq_ok qs" and slot: "queue_slot qs p q = Some i" and "p < 7" and "q < 8"
    and e: "cq_in_use e" "cq_pipe e = p" "cq_queue e = q"
  shows "cq_ok (qs(i := e))"
proof -
  have only: "cq_live qs j (p, q) \<Longrightarrow> j = i" for j using slot_of_live [OF ok] slot by auto
  have l: "cq_live (qs(i := e)) j pq \<Longrightarrow> (j = i \<and> pq = (p, q)) \<or> (j \<noteq> i \<and> cq_live qs j pq)" for j pq
    using e by (auto simp: cq_live_def split: if_splits)
  show ?thesis
    unfolding cq_ok_def
  proof (intro conjI allI impI)
    fix j pq assume "cq_live (qs(i := e)) j pq"
    from l [OF this] show "fst pq < 7" "snd pq < 8" using assms(3,4) ok unfolding cq_ok_def by (cases pq; auto)+
  next
    fix j k pq assume "cq_live (qs(i := e)) j pq" "cq_live (qs(i := e)) k pq"
    from l [OF this(1)] l [OF this(2)] show "j = k" using only ok unfolding cq_ok_def by blast
  qed
qed

lemma cq_ok_sub: "cq_ok qs \<Longrightarrow> (\<And>i pq. cq_live qs' i pq \<Longrightarrow> cq_live qs i pq) \<Longrightarrow> cq_ok qs'"
  unfolding cq_ok_def by blast

lemma cq_reach_ok: "cq_reach base st \<Longrightarrow> cq_ok (snd st)"
proof (induction rule: cq_reach.induct)
  case (start m)
  then show ?case by (simp add: cq_ok_def cq_live_def cqueue0_def)
next
  case (map_call st p q a r rp)
  show ?case
  proof (cases "p < 7 \<and> q < 8")
    case True
    then show ?thesis
      using map_call.IH cq_ok_upd [of "snd st" p q _ "\<lparr>cq_in_use = True, cq_pipe = p, cq_queue = q, cq_base = a,
                    cq_size_dw = r, cq_read_ptr = rp, cq_next_dw = 0\<rparr>"]
      by (auto simp: sceGnmMapComputeQueue_def Let_def split: prod.split option.split)
  next
    case False
    then show ?thesis using map_call.IH
      by (auto simp: sceGnmMapComputeQueue_def Let_def not_less split: prod.split)
  qed
next
  case (unmap m qs v)
  then show ?case
    by (auto simp: sceGnmUnmapComputeQueue_def Let_def cq_live_def cqueue0_def
        elim!: cq_ok_sub split: if_splits)
next
  case (ding st known waits v n)
  have "cq_live (snd (snd (ps4_gnm_dingdong known waits v n st))) i pq \<Longrightarrow> cq_live (snd st) i pq" for i pq
    by (auto simp: ps4_gnm_dingdong_def Let_def cq_live_def split: prod.splits if_splits)
  with ding.IH show ?case by (rule cq_ok_sub)
qed simp



end
