(* ===== verification/GnmTableProps.thy ===== *)
theory GnmTableProps
  imports GnmTables
begin

text \<open>
  The registry of resources as a map from handles to resources, and the registrations for GPU
  interrupts as a map from queue and event to the value of the game.
\<close>

section \<open>Resources\<close>

definition rs_live :: "gnm_tab \<Rightarrow> nat \<Rightarrow> hptr \<Rightarrow> bool" where
  "rs_live t i h \<longleftrightarrow> i < 4096 \<and> rs_in_use (g_resources t i) \<and> rs_handle (g_resources t i) = h"

definition tab_ok :: "gnm_tab \<Rightarrow> bool" where
  "tab_ok t \<longleftrightarrow> (\<forall>i j h. rs_live t i h \<longrightarrow> rs_live t j h \<longrightarrow> i = j)"

definition res_view :: "gnm_tab \<Rightarrow> hptr \<Rightarrow> gnm_resource option" where
  "res_view t h = map_option (g_resources t) (find_resource t h)"

lemma find_resource_Some: "find_resource t h = Some i \<Longrightarrow> rs_live t i h"
  unfolding find_resource_def rs_live_def by (drule first_free_Some) auto

lemma find_resource_live: "tab_ok t \<Longrightarrow> find_resource t h = Some i \<longleftrightarrow> rs_live t i h"
proof
  assume ok: "tab_ok t" and l: "rs_live t i h"
  have "find_resource t h \<noteq> None"
    using l unfolding find_resource_def first_free_None by (auto simp: rs_live_def)
  then obtain j where j: "find_resource t h = Some j" by auto
  then have "j = i" using ok l find_resource_Some unfolding tab_ok_def by blast
  with j show "find_resource t h = Some i" by simp
qed (rule find_resource_Some)

lemma res_view_iff: "tab_ok t \<Longrightarrow> res_view t h = Some e \<longleftrightarrow> (\<exists>i. rs_live t i h \<and> e = g_resources t i)"
  by (auto simp: res_view_def find_resource_live)

lemma res_view_None: "tab_ok t \<Longrightarrow> res_view t h = None \<longleftrightarrow> (\<forall>i. \<not> rs_live t i h)"
  using find_resource_live [of t h] by (auto simp: res_view_def) (metis option.exhaust)

lemma res_view_eqI:
  assumes "tab_ok t'" and "\<And>h e. (\<exists>i. rs_live t' i h \<and> e = g_resources t' i) \<longleftrightarrow> v h = Some e"
  shows "res_view t' = v"
proof
  fix h
  show "res_view t' h = v h"
  proof (cases "v h")
    case None
    then have "\<not> rs_live t' i h" for i using assms(2) [of h "g_resources t' i"] by auto
    with None show ?thesis using res_view_None [OF assms(1)] by simp
  next
    case (Some e)
    then show ?thesis using assms(2) [of h e] res_view_iff [OF assms(1)] by simp
  qed
qed

text \<open>Filling an unused slot under a new handle, and changing or dropping a live one.\<close>

lemma put_fresh:
  assumes ok: "tab_ok t" and i: "i < 4096" "\<not> rs_in_use (g_resources t i)" and "res_view t h = None"
    and e: "rs_in_use (f (g_resources t i))" "rs_handle (f (g_resources t i)) = h"
  shows "tab_ok (put_resource t i f) \<and> res_view (put_resource t i f) = (res_view t)(h \<mapsto> f (g_resources t i))"
proof -
  have no: "\<not> rs_live t j h" for j using assms(4) res_view_None [OF ok] by simp
  have l: "rs_live (put_resource t i f) j k \<longleftrightarrow> (if j = i then k = h else rs_live t j k)" for j k
    using i e by (auto simp: rs_live_def put_resource_def)
  have ok': "tab_ok (put_resource t i f)"
    using ok no unfolding tab_ok_def l by (auto split: if_splits)
  have "res_view (put_resource t i f) = (res_view t)(h \<mapsto> f (g_resources t i))"
  proof (rule res_view_eqI [OF ok'])
    fix k x
    have ni: "\<not> rs_live t i k" using i by (simp add: rs_live_def)
    show "(\<exists>j. rs_live (put_resource t i f) j k \<and> x = g_resources (put_resource t i f) j)
        \<longleftrightarrow> ((res_view t)(h \<mapsto> f (g_resources t i))) k = Some x"
    proof (cases "k = h")
      case True
      then show ?thesis unfolding l using no by (auto simp: put_resource_def)
    next
      case False
      have "(\<exists>j. (if j = i then k = h else rs_live t j k) \<and> x = g_resources (put_resource t i f) j)
          \<longleftrightarrow> (\<exists>j. rs_live t j k \<and> x = g_resources t j)"
        using False ni by (intro ex_cong1) (auto simp: put_resource_def)
      then show ?thesis unfolding l using False res_view_iff [OF ok, of k x] by simp
    qed
  qed
  with ok' show ?thesis ..
qed

lemma put_live:
  assumes ok: "tab_ok t" and i: "rs_live t i h"
    and e: "rs_in_use (f (g_resources t i)) \<Longrightarrow> rs_handle (f (g_resources t i)) = h"
  shows "tab_ok (put_resource t i f) \<and> res_view (put_resource t i f) =
    (res_view t)(h := if rs_in_use (f (g_resources t i)) then Some (f (g_resources t i)) else None)"
proof -
  have only: "rs_live t j h \<Longrightarrow> j = i" for j using ok i unfolding tab_ok_def by blast
  have l: "rs_live (put_resource t i f) j k \<longleftrightarrow>
      (if j = i then k = h \<and> rs_in_use (f (g_resources t i)) else rs_live t j k)" for j k
    using i e by (auto simp: rs_live_def put_resource_def)
  have ok': "tab_ok (put_resource t i f)"
    using ok only unfolding tab_ok_def l by (auto split: if_splits)
  have "res_view (put_resource t i f) =
    (res_view t)(h := if rs_in_use (f (g_resources t i)) then Some (f (g_resources t i)) else None)"
  proof (rule res_view_eqI [OF ok'])
    fix k x
    have ni: "rs_live t i k \<Longrightarrow> k = h" using i by (simp add: rs_live_def)
    show "(\<exists>j. rs_live (put_resource t i f) j k \<and> x = g_resources (put_resource t i f) j)
        \<longleftrightarrow> ((res_view t)(h := if rs_in_use (f (g_resources t i)) then Some (f (g_resources t i)) else None)) k = Some x"
    proof (cases "k = h")
      case True
      then show ?thesis unfolding l using only by (auto simp: put_resource_def)
    next
      case False
      have "(\<exists>j. (if j = i then k = h \<and> rs_in_use (f (g_resources t i)) else rs_live t j k)
            \<and> x = g_resources (put_resource t i f) j) \<longleftrightarrow> (\<exists>j. rs_live t j k \<and> x = g_resources t j)"
        using False ni by (intro ex_cong1) (auto simp: put_resource_def)
      then show ?thesis unfolding l using False res_view_iff [OF ok, of k x] by simp
    qed
  qed
  with ok' show ?thesis ..
qed


lemma tab_ok0: "tab_ok gnm_tab0" "res_view gnm_tab0 h = None"
proof -
  have no: "\<not> rs_live gnm_tab0 i h" for i h by (simp add: rs_live_def gnm_tab0_def gnm_resource0_def)
  then show "tab_ok gnm_tab0" by (simp add: tab_ok_def)
  with no show "res_view gnm_tab0 h = None" by (simp add: res_view_None)
qed


text \<open>
  The registry has no check for a handle that is live, and a slot without a name keeps the name of
  the resource that used it before.
\<close>

lemma gnm_stale_name:
  "let t1 = snd (sceGnmRegisterResource gnm_tab0 (Some 64) None None 0 (Some ''shadow map'') 0 0);
       t2 = snd (sceGnmUnregisterResource t1 (Some 64));
       t3 = snd (sceGnmRegisterResource t2 (Some 128) None None 0 None 0 0)
   in map_option rs_name (res_view t3 (Some 128)) = Some ''shadow map''"
proof -
  let ?t1 = "put_resource gnm_tab0 0 (\<lambda>e. e\<lparr>rs_in_use := True, rs_handle := Some 64, rs_owner := None, rs_addr := None,
    rs_size := 0, rs_type := 0, rs_user_data := 0, rs_name := ''shadow map''\<rparr>)"
  have f: "first_free p 0 4096 = Some 0" if "\<not> p 0" for p using that by (simp add: first_free_first)
  have t1: "snd (sceGnmRegisterResource gnm_tab0 (Some 64) None None 0 (Some ''shadow map'') 0 0) = ?t1"
    by (simp add: sceGnmRegisterResource_def f gnm_tab0_def gnm_resource0_def strncpy_name_def)
  let ?t2 = "put_resource ?t1 0 (\<lambda>e. e\<lparr>rs_in_use := False\<rparr>)"
  have t2: "snd (sceGnmUnregisterResource ?t1 (Some 64)) = ?t2"
    by (simp add: sceGnmUnregisterResource_def find_resource_def f put_resource_def)
  show ?thesis
    unfolding t1 t2 Let_def
    by (simp add: sceGnmRegisterResource_def f put_resource_def res_view_def find_resource_def)
qed

section \<open>Interrupts\<close>

definition reg_of :: "gnm_eq_regs \<Rightarrow> i32 \<Rightarrow> u64 \<Rightarrow> u64 option" where
  "reg_of rs q ident = map_option (\<lambda>i. er_udata (rs i)) (first_free (\<lambda>i. \<not> reg_for rs q ident i) 0 64)"

definition regs_ok :: "gnm_eq_regs \<Rightarrow> bool" where
  "regs_ok rs \<longleftrightarrow> (\<forall>i<64. \<forall>j<64. \<forall>q ident. reg_for rs q ident i \<longrightarrow> reg_for rs q ident j \<longrightarrow> i = j)"

lemma regs_okD:
  "regs_ok rs \<Longrightarrow> i < 64 \<Longrightarrow> j < 64 \<Longrightarrow> reg_for rs q ident i \<Longrightarrow> reg_for rs q ident j \<Longrightarrow> i = j"
  unfolding regs_ok_def by blast

lemma reg_of_iff:
  assumes "regs_ok rs"
  shows "reg_of rs q ident = Some u \<longleftrightarrow> (\<exists>i<64. reg_for rs q ident i \<and> er_udata (rs i) = u)"
proof (cases "first_free (\<lambda>i. \<not> reg_for rs q ident i) 0 64")
  case None
  then have "\<forall>j<64. \<not> reg_for rs q ident j" by (simp add: first_free_None)
  moreover have "reg_of rs q ident = None" using None by (simp add: reg_of_def)
  ultimately show ?thesis by auto
next
  case (Some i)
  from first_free_Some [OF Some] have i: "i < 64" "reg_for rs q ident i" by auto
  have only: "j = i" if "j < 64" "reg_for rs q ident j" for j
    using regs_okD [OF assms that(1) i(1) that(2) i(2)] .
  have eq: "reg_of rs q ident = Some (er_udata (rs i))" using Some by (simp add: reg_of_def)
  show ?thesis
    unfolding eq option.inject
  proof
    show "er_udata (rs i) = u \<Longrightarrow> \<exists>i<64. reg_for rs q ident i \<and> er_udata (rs i) = u" using i by blast
    show "\<exists>i<64. reg_for rs q ident i \<and> er_udata (rs i) = u \<Longrightarrow> er_udata (rs i) = u" using only by blast
  qed
qed

lemma reg_of_eqI:
  assumes "regs_ok rs'" and "\<And>u. (\<exists>i<64. reg_for rs' q ident i \<and> er_udata (rs' i) = u) \<longleftrightarrow> x = Some u"
  shows "reg_of rs' q ident = x"
  using assms reg_of_iff [OF assms(1), of q ident] by (cases x; cases "reg_of rs' q ident") auto

lemma reg_slot_cases:
  "case reg_slot rs q ident of
     None \<Rightarrow> (\<forall>i<64. \<not> reg_for rs q ident i) \<and> (\<forall>i<64. er_in_use (rs i))
   | Some i \<Rightarrow> i < 64 \<and> (reg_for rs q ident i \<or> \<not> er_in_use (rs i) \<and> (\<forall>j<64. \<not> reg_for rs q ident j))"
proof (cases "first_free (\<lambda>i. \<not> reg_for rs q ident i) 0 64")
  case (Some i)
  from first_free_Some [OF Some] show ?thesis using Some by (simp add: reg_slot_def)
next
  case None
  then have no: "\<forall>j<64. \<not> reg_for rs q ident j" by (simp add: first_free_None)
  show ?thesis
  proof (cases "first_free (\<lambda>i. er_in_use (rs i)) 0 64")
    case (Some i)
    from first_free_Some [OF Some] show ?thesis using Some None no by (simp add: reg_slot_def)
  next
    case n: None
    then have "\<forall>i<64. er_in_use (rs i)" by (simp add: first_free_None)
    with n None no show ?thesis by (simp add: reg_slot_def)
  qed
qed

lemma add_reg:
  fixes u :: u64
  assumes ok: "regs_ok rs" and i: "i < 64"
    and slot: "reg_for rs q ident i \<or> \<not> er_in_use (rs i) \<and> (\<forall>j<64. \<not> reg_for rs q ident j)"
  defines "rs' \<equiv> rs(i := \<lparr>er_in_use = True, er_eq = q, er_id = ident, er_udata = u\<rparr>)"
  shows "regs_ok rs' \<and> (\<forall>p k. reg_of rs' p k = (if p = q \<and> k = ident then Some u else reg_of rs p k))"
proof -
  have only: "j < 64 \<Longrightarrow> reg_for rs q ident j \<Longrightarrow> j = i" for j
    using slot regs_okD [OF ok, of j i q ident] i by auto
  have l: "reg_for rs' p k j \<longleftrightarrow> (if j = i then p = q \<and> k = ident else reg_for rs p k j)" for p k j
    by (auto simp: rs'_def reg_for_def)
  have ok': "regs_ok rs'"
    unfolding regs_ok_def l
  proof (intro allI impI)
    fix j k p x
    assume jk: "j < 64" "k < 64" and j: "if j = i then p = q \<and> x = ident else reg_for rs p x j"
      and k: "if k = i then p = q \<and> x = ident else reg_for rs p x k"
    consider "j = i" "k = i" | "j = i" "k \<noteq> i" | "j \<noteq> i" "k = i" | "j \<noteq> i" "k \<noteq> i" by blast
    then show "j = k"
    proof cases
      case 2
      with j k have "reg_for rs q ident k" by simp
      from only [OF jk(2) this] 2 show ?thesis by simp
    next
      case 3
      with j k have "reg_for rs q ident j" by simp
      from only [OF jk(1) this] 3 show ?thesis by simp
    next
      case 4
      with j k have "reg_for rs p x j" "reg_for rs p x k" by simp_all
      with jk show ?thesis by (intro regs_okD [OF ok])
    qed simp
  qed
  have old: "reg_for rs p k i \<Longrightarrow> p = q \<and> k = ident" for p k using slot by (auto simp: reg_for_def)
  have "reg_of rs' p k = (if p = q \<and> k = ident then Some u else reg_of rs p k)" for p k
  proof (rule reg_of_eqI [OF ok'])
    fix w
    show "(\<exists>j<64. reg_for rs' p k j \<and> er_udata (rs' j) = w) \<longleftrightarrow>
        (if p = q \<and> k = ident then Some u else reg_of rs p k) = Some w"
    proof (cases "p = q \<and> k = ident")
      case True
      then show ?thesis unfolding l using only i by (auto simp: rs'_def)
    next
      case False
      have "(\<exists>j<64. (if j = i then p = q \<and> k = ident else reg_for rs p k j) \<and> er_udata (rs' j) = w)
          \<longleftrightarrow> (\<exists>j<64. reg_for rs p k j \<and> er_udata (rs j) = w)"
        using False old by (intro ex_cong1) (auto simp: rs'_def)
      then show ?thesis unfolding l if_not_P [OF False] reg_of_iff [OF ok] .
    qed
  qed
  with ok' show ?thesis by blast
qed

lemma trigger_hits_view:
  assumes "eq_tab_ok t" and "distinct (map er_eq es)" and "\<forall>e\<in>set es. er_id e = ident"
  shows "eq_tab_ok (trigger_hits es t) \<and>
    (\<forall>h. case eq_view t h of
       None \<Rightarrow> eq_view (trigger_hits es t) h = None
     | Some xs \<Rightarrow> \<exists>ys. eq_view (trigger_hits es t) h = Some ys \<and>
         (h \<notin> er_eq ` set es \<longrightarrow> ys = xs) \<and>
         (\<forall>e\<in>set es. er_eq e = h \<longrightarrow> trigger_list ident EVFILT_GRAPHICS_CORE ident (er_udata e) xs ys))"
  using assms
proof (induction es arbitrary: t)
  case Nil
  then show ?case by (simp split: option.split)
next
  case (Cons e es)
  define t1 where "t1 = snd (ps4_equeue_trigger_event t (er_eq e) (er_id e) EVFILT_GRAPHICS_CORE (er_id e) (er_udata e))"
  have d: "er_eq e \<notin> er_eq ` set es" "distinct (map er_eq es)" "er_id e = ident"
    using Cons.prems by auto
  show ?case
  proof (cases "eq_view t (er_eq e)")
    case None
    then have t1: "t1 = t" using dead_view(1) [OF Cons.prems(1)] by (simp add: t1_def)
    have ih: "eq_tab_ok (trigger_hits es t) \<and>
      (\<forall>h. case eq_view t h of
         None \<Rightarrow> eq_view (trigger_hits es t) h = None
       | Some xs \<Rightarrow> \<exists>ys. eq_view (trigger_hits es t) h = Some ys \<and>
           (h \<notin> er_eq ` set es \<longrightarrow> ys = xs) \<and>
           (\<forall>e\<in>set es. er_eq e = h \<longrightarrow> trigger_list ident EVFILT_GRAPHICS_CORE ident (er_udata e) xs ys))"
      using Cons by simp
    show ?thesis
      unfolding trigger_hits.simps t1_def [symmetric] t1
    proof (intro conjI allI)
      show "eq_tab_ok (trigger_hits es t)" using ih by blast
      fix h
      from ih have "case eq_view t h of
         None \<Rightarrow> eq_view (trigger_hits es t) h = None
       | Some xs \<Rightarrow> \<exists>ys. eq_view (trigger_hits es t) h = Some ys \<and>
           (h \<notin> er_eq ` set es \<longrightarrow> ys = xs) \<and>
           (\<forall>e\<in>set es. er_eq e = h \<longrightarrow> trigger_list ident EVFILT_GRAPHICS_CORE ident (er_udata e) xs ys)"
        by blast
      then show "case eq_view t h of
         None \<Rightarrow> eq_view (trigger_hits es t) h = None
       | Some xs \<Rightarrow> \<exists>ys. eq_view (trigger_hits es t) h = Some ys \<and>
           (h \<notin> er_eq ` set (e # es) \<longrightarrow> ys = xs) \<and>
           (\<forall>e\<in>set (e # es). er_eq e = h \<longrightarrow> trigger_list ident EVFILT_GRAPHICS_CORE ident (er_udata e) xs ys)"
        using None by (cases "h = er_eq e") (auto split: option.splits)
    qed
  next
    case (Some xs0)
    obtain ys0 where t1: "trigger_list ident EVFILT_GRAPHICS_CORE ident (er_udata e) xs0 ys0" "eq_tab_ok t1"
      "eq_view t1 = (eq_view t)(er_eq e \<mapsto> ys0)"
      using trigger_view [OF Cons.prems(1) Some, of ident EVFILT_GRAPHICS_CORE ident "er_udata e"] d(3)
      by (auto simp: t1_def)
    have ih: "eq_tab_ok (trigger_hits es t1) \<and>
      (\<forall>h. case eq_view t1 h of
         None \<Rightarrow> eq_view (trigger_hits es t1) h = None
       | Some xs \<Rightarrow> \<exists>ys. eq_view (trigger_hits es t1) h = Some ys \<and>
           (h \<notin> er_eq ` set es \<longrightarrow> ys = xs) \<and>
           (\<forall>e\<in>set es. er_eq e = h \<longrightarrow> trigger_list ident EVFILT_GRAPHICS_CORE ident (er_udata e) xs ys))"
      using Cons t1(2) by simp
    show ?thesis
      unfolding trigger_hits.simps t1_def [symmetric]
    proof (intro conjI allI)
      show "eq_tab_ok (trigger_hits es t1)" using ih by blast
      fix h
      from ih have h: "case eq_view t1 h of
         None \<Rightarrow> eq_view (trigger_hits es t1) h = None
       | Some xs \<Rightarrow> \<exists>ys. eq_view (trigger_hits es t1) h = Some ys \<and>
           (h \<notin> er_eq ` set es \<longrightarrow> ys = xs) \<and>
           (\<forall>e\<in>set es. er_eq e = h \<longrightarrow> trigger_list ident EVFILT_GRAPHICS_CORE ident (er_udata e) xs ys)"
        by blast
      show "case eq_view t h of
         None \<Rightarrow> eq_view (trigger_hits es t1) h = None
       | Some xs \<Rightarrow> \<exists>ys. eq_view (trigger_hits es t1) h = Some ys \<and>
           (h \<notin> er_eq ` set (e # es) \<longrightarrow> ys = xs) \<and>
           (\<forall>e\<in>set (e # es). er_eq e = h \<longrightarrow> trigger_list ident EVFILT_GRAPHICS_CORE ident (er_udata e) xs ys)"
      proof (cases "h = er_eq e")
        case True
        then have "eq_view (trigger_hits es t1) h = Some ys0" using h d(1) t1(3) by auto
        then show ?thesis using True Some t1(1) d(1) by (auto simp: image_iff)
      next
        case False
        then show ?thesis using h t1(3) by (auto split: option.splits)
      qed
    qed
  qed
qed

lemma delete_reg:
  fixes q :: i32 and ident :: u64
  assumes "regs_ok rs"
  defines "rs' \<equiv> (\<lambda>i. if i < 64 \<and> reg_for rs q ident i then gnm_eq_reg0 else rs i)"
  shows "regs_ok rs' \<and> (\<forall>p k. reg_of rs' p k = (if p = q \<and> k = ident then None else reg_of rs p k))"
proof -
  have l: "i < 64 \<Longrightarrow> reg_for rs' p k i \<longleftrightarrow> reg_for rs p k i \<and> \<not> (p = q \<and> k = ident)" for p k i
    by (auto simp: rs'_def reg_for_def gnm_eq_reg0_def)
  have same: "i < 64 \<Longrightarrow> reg_for rs' p k i \<Longrightarrow> rs' i = rs i" for p k i
    by (auto simp: rs'_def reg_for_def gnm_eq_reg0_def split: if_splits)
  have ok': "regs_ok rs'" using assms(1) l unfolding regs_ok_def by blast
  have reg: "reg_of rs' p k = (if p = q \<and> k = ident then None else reg_of rs p k)" for p k
  proof (rule reg_of_eqI [OF ok'])
    fix w
    have "(\<exists>i<64. reg_for rs' p k i \<and> er_udata (rs' i) = w)
        \<longleftrightarrow> (\<exists>i<64. reg_for rs p k i \<and> er_udata (rs i) = w) \<and> \<not> (p = q \<and> k = ident)"
      using l same by (metis (no_types))
    then show "(\<exists>i<64. reg_for rs' p k i \<and> er_udata (rs' i) = w) \<longleftrightarrow>
        (if p = q \<and> k = ident then None else reg_of rs p k) = Some w"
      using reg_of_iff [OF assms(1), of p k w] by auto
  qed
  with ok' show ?thesis by blast
qed

lemma irq_view:
  assumes "eq_tab_ok t" and "regs_ok rs"
  shows "eq_tab_ok (ps4_gnm_signal_interrupt rs irq t)"
    and "case eq_view t h of
         None \<Rightarrow> eq_view (ps4_gnm_signal_interrupt rs irq t) h = None
       | Some xs \<Rightarrow> \<exists>ys. eq_view (ps4_gnm_signal_interrupt rs irq t) h = Some ys \<and>
           (case reg_of rs h (ucast irq) of
              None \<Rightarrow> ys = xs
            | Some w \<Rightarrow> trigger_list (ucast irq) EVFILT_GRAPHICS_CORE (ucast irq) w xs ys)"
proof -
  define es where "es = irq_hits rs irq"
  have mem: "e \<in> set es \<longleftrightarrow> (\<exists>i<64. e = rs i \<and> reg_for rs (er_eq e) (ucast irq) i)" for e
    by (auto simp: es_def irq_hits_def reg_for_def)
  have "distinct (map er_eq (filter (\<lambda>e. er_in_use e \<and> er_id e = ucast irq) (map rs ns)))"
    if "distinct ns" "\<forall>i\<in>set ns. i < 64" for ns
    using that
  proof (induction ns)
    case (Cons n ns)
    have "rs n \<noteq> rs j \<or> n = j" if "j \<in> set ns" "er_in_use (rs n)" "er_in_use (rs j)"
        "er_id (rs n) = ucast irq" "er_id (rs j) = ucast irq" "er_eq (rs n) = er_eq (rs j)" for j
      using that Cons.prems assms(2) unfolding regs_ok_def reg_for_def by auto
    moreover have "n = j" if "j \<in> set ns" "er_in_use (rs n)" "er_in_use (rs j)"
        "er_id (rs n) = ucast irq" "er_id (rs j) = ucast irq" "er_eq (rs n) = er_eq (rs j)" for j
      using that Cons.prems assms(2) unfolding regs_ok_def reg_for_def by auto
    ultimately show ?case using Cons by auto
  qed simp
  then have d: "distinct (map er_eq es)" by (simp add: es_def irq_hits_def)
  have id: "\<forall>e\<in>set es. er_id e = ucast irq" by (auto simp: es_def irq_hits_def)
  note v = trigger_hits_view [OF assms(1) d id]
  show "eq_tab_ok (ps4_gnm_signal_interrupt rs irq t)"
    using v by (simp add: ps4_gnm_signal_interrupt_def es_def)
  have sg: "ps4_gnm_signal_interrupt rs irq t = trigger_hits es t"
    by (simp add: ps4_gnm_signal_interrupt_def es_def)
    have none: "h \<notin> er_eq ` set es" if "reg_of rs h (ucast irq) = None"
    proof
      assume "h \<in> er_eq ` set es"
      then obtain e where e: "e \<in> set es" "er_eq e = h" by blast
      then obtain i where "i < 64" "e = rs i" "reg_for rs h (ucast irq) i" using mem by blast
      then have "reg_of rs h (ucast irq) = Some (er_udata e)" unfolding reg_of_iff [OF assms(2)] by blast
      with that show False by simp
    qed
    have some: "\<exists>e\<in>set es. er_eq e = h \<and> er_udata e = w" if "reg_of rs h (ucast irq) = Some w" for w
      using that reg_of_iff [OF assms(2), of h "ucast irq" w] mem by (auto simp: reg_for_def)
    from v have "case eq_view t h of
         None \<Rightarrow> eq_view (trigger_hits es t) h = None
       | Some xs \<Rightarrow> \<exists>ys. eq_view (trigger_hits es t) h = Some ys \<and>
           (h \<notin> er_eq ` set es \<longrightarrow> ys = xs) \<and>
           (\<forall>e\<in>set es. er_eq e = h \<longrightarrow> trigger_list (ucast irq) EVFILT_GRAPHICS_CORE (ucast irq) (er_udata e) xs ys)"
      by blast
    then have "case eq_view t h of
         None \<Rightarrow> eq_view (trigger_hits es t) h = None
       | Some xs \<Rightarrow> \<exists>ys. eq_view (trigger_hits es t) h = Some ys \<and>
           (case reg_of rs h (ucast irq) of
              None \<Rightarrow> ys = xs
            | Some w \<Rightarrow> trigger_list (ucast irq) EVFILT_GRAPHICS_CORE (ucast irq) w xs ys)"
    proof (cases "eq_view t h")
      case (Some xs)
      assume "case eq_view t h of
         None \<Rightarrow> eq_view (trigger_hits es t) h = None
       | Some xs \<Rightarrow> \<exists>ys. eq_view (trigger_hits es t) h = Some ys \<and>
           (h \<notin> er_eq ` set es \<longrightarrow> ys = xs) \<and>
           (\<forall>e\<in>set es. er_eq e = h \<longrightarrow> trigger_list (ucast irq) EVFILT_GRAPHICS_CORE (ucast irq) (er_udata e) xs ys)"
      with Some obtain ys where ys: "eq_view (trigger_hits es t) h = Some ys" "h \<notin> er_eq ` set es \<longrightarrow> ys = xs"
        "\<forall>e\<in>set es. er_eq e = h \<longrightarrow> trigger_list (ucast irq) EVFILT_GRAPHICS_CORE (ucast irq) (er_udata e) xs ys"
        by auto
      have "case reg_of rs h (ucast irq) of None \<Rightarrow> ys = xs
            | Some w \<Rightarrow> trigger_list (ucast irq) EVFILT_GRAPHICS_CORE (ucast irq) w xs ys"
      proof (cases "reg_of rs h (ucast irq)")
        case None
        then show ?thesis using none ys(2) by simp
      next
        case (Some w)
        then show ?thesis using some [OF Some] ys(3) by auto
      qed
      with ys(1) Some show ?thesis by simp
    qed simp
    then show "case eq_view t h of
         None \<Rightarrow> eq_view (ps4_gnm_signal_interrupt rs irq t) h = None
       | Some xs \<Rightarrow> \<exists>ys. eq_view (ps4_gnm_signal_interrupt rs irq t) h = Some ys \<and>
           (case reg_of rs h (ucast irq) of
              None \<Rightarrow> ys = xs
            | Some w \<Rightarrow> trigger_list (ucast irq) EVFILT_GRAPHICS_CORE (ucast irq) w xs ys)"
      by (simp only: sg)
qed

text \<open>
  C21. The registrations are a map from queue and interrupt to the value of the game. Adding a
  registration on an open queue sets its entry, also when it exists, and fails only when all 64
  slots are in use; deleting one removes the entry and its pending events; and an interrupt
  triggers its event once on every open queue that is registered for it, with the registered
  value, and touches no other queue.
\<close>

theorem gnm_interrupts_exact:
  assumes "eq_tab_ok t" and "regs_ok rs"
  shows "(case sceGnmAddEqEvent t rs eq ident u of (rc, rs') \<Rightarrow>
       if eq_view t (ucast eq) = None then rc = KERR_EBADF \<and> rs' = rs
       else if reg_of rs (ucast eq) ident = None \<and> (\<forall>i<64. er_in_use (rs i)) then rc = KERR_ENOMEM \<and> rs' = rs
       else rc = 0 \<and> regs_ok rs' \<and>
         (\<forall>p k. reg_of rs' p k = (if p = ucast eq \<and> k = ident then Some u else reg_of rs p k)))
    \<and> (case sceGnmDeleteEqEvent t rs eq ident of (rc, t', rs') \<Rightarrow>
       (case eq_view t (ucast eq) of
          None \<Rightarrow> rc = KERR_EBADF \<and> t' = t \<and> rs' = rs
        | Some xs \<Rightarrow> rc = 0 \<and> regs_ok rs' \<and> eq_tab_ok t' \<and>
            (\<forall>p k. reg_of rs' p k = (if p = ucast eq \<and> k = ident then None else reg_of rs p k)) \<and>
            eq_view t' = (eq_view t)(ucast eq \<mapsto>
              filter (\<lambda>ev. \<not> (ke_ident ev = ident \<and> ke_filter ev = EVFILT_GRAPHICS_CORE)) xs)))
    \<and> eq_tab_ok (ps4_gnm_signal_interrupt rs irq t)
    \<and> (\<forall>h. case eq_view t h of
         None \<Rightarrow> eq_view (ps4_gnm_signal_interrupt rs irq t) h = None
       | Some xs \<Rightarrow> \<exists>ys. eq_view (ps4_gnm_signal_interrupt rs irq t) h = Some ys \<and>
           (case reg_of rs h (ucast irq) of
              None \<Rightarrow> ys = xs
            | Some w \<Rightarrow> trigger_list (ucast irq) EVFILT_GRAPHICS_CORE (ucast irq) w xs ys))"
proof (intro conjI)
  show "case sceGnmAddEqEvent t rs eq ident u of (rc, rs') \<Rightarrow>
       if eq_view t (ucast eq) = None then rc = KERR_EBADF \<and> rs' = rs
       else if reg_of rs (ucast eq) ident = None \<and> (\<forall>i<64. er_in_use (rs i)) then rc = KERR_ENOMEM \<and> rs' = rs
       else rc = 0 \<and> regs_ok rs' \<and>
         (\<forall>p k. reg_of rs' p k = (if p = ucast eq \<and> k = ident then Some u else reg_of rs p k))"
  proof (cases "reg_slot rs (ucast eq) ident")
    case None
    with reg_slot_cases [of rs "ucast eq" ident] reg_of_iff [OF assms(2), of "ucast eq" ident]
    have "reg_of rs (ucast eq) ident = None" "\<forall>i<64. er_in_use (rs i)" by (auto intro: option.exhaust)
    then show ?thesis
      using None dead_view(2) [OF assms(1), of "ucast eq"] by (simp add: sceGnmAddEqEvent_def Let_def)
  next
    case (Some i)
    with reg_slot_cases [of rs "ucast eq" ident] have i: "i < 64"
      "reg_for rs (ucast eq) ident i \<or> \<not> er_in_use (rs i) \<and> (\<forall>j<64. \<not> reg_for rs (ucast eq) ident j)" by auto
    have "\<not> (reg_of rs (ucast eq) ident = None \<and> (\<forall>i<64. er_in_use (rs i)))"
      using i reg_of_iff [OF assms(2), of "ucast eq" ident] by auto
    with add_reg [OF assms(2) i, of u] Some dead_view(2) [OF assms(1), of "ucast eq"]
    show ?thesis by (auto simp: sceGnmAddEqEvent_def Let_def)
  qed
next
  show "case sceGnmDeleteEqEvent t rs eq ident of (rc, t', rs') \<Rightarrow>
       (case eq_view t (ucast eq) of
          None \<Rightarrow> rc = KERR_EBADF \<and> t' = t \<and> rs' = rs
        | Some xs \<Rightarrow> rc = 0 \<and> regs_ok rs' \<and> eq_tab_ok t' \<and>
            (\<forall>p k. reg_of rs' p k = (if p = ucast eq \<and> k = ident then None else reg_of rs p k)) \<and>
            eq_view t' = (eq_view t)(ucast eq \<mapsto>
              filter (\<lambda>ev. \<not> (ke_ident ev = ident \<and> ke_filter ev = EVFILT_GRAPHICS_CORE)) xs))"
  proof (cases "eq_view t (ucast eq)")
    case None
    then show ?thesis using dead_view(2) [OF assms(1), of "ucast eq"] by (simp add: sceGnmDeleteEqEvent_def)
  next
    case (Some xs)
    then show ?thesis
      using dead_view(2) [OF assms(1), of "ucast eq"] remove_view [OF assms(1) Some, of ident EVFILT_GRAPHICS_CORE]
        delete_reg [OF assms(2), of "ucast eq" ident]
      by (auto simp: sceGnmDeleteEqEvent_def Let_def)
  qed
qed (use irq_view [OF assms] in blast)+

lemma ex_regs_ok: "regs_ok (\<lambda>_. gnm_eq_reg0)" "reg_of (\<lambda>_. gnm_eq_reg0) q k = None"
proof -
  have n: "\<not> reg_for (\<lambda>_. gnm_eq_reg0) q k i" for q k i by (simp add: reg_for_def gnm_eq_reg0_def)
  show ok: "regs_ok (\<lambda>_. gnm_eq_reg0)" using n by (simp add: regs_ok_def)
  show "reg_of (\<lambda>_. gnm_eq_reg0) q k = None"
    using n reg_of_iff [OF ok] by (cases "reg_of (\<lambda>_. gnm_eq_reg0) q k") auto
qed

lemma gnm_interrupts_exact_witness:
  "\<exists>rs'. sceGnmAddEqEvent ex_eq1 (\<lambda>_. gnm_eq_reg0) 1 0x40 7 = (0, rs') \<and> reg_of rs' 1 0x40 = Some 7"
proof -
  have "\<not> (\<forall>i<(64 :: nat). er_in_use ((\<lambda>_. gnm_eq_reg0) i))"
    by (simp add: gnm_eq_reg0_def) (rule exI [of _ 0], simp)
  then show ?thesis
    using conjunct1 [OF gnm_interrupts_exact [OF ex_eq1_facts(1) ex_regs_ok(1), where eq = 1 and ident = 64 and u = 7]]
      ex_eq1_facts(2) ex_regs_ok(2)
    by (cases "sceGnmAddEqEvent ex_eq1 (\<lambda>_. gnm_eq_reg0) 1 0x40 7") auto
qed

text \<open>
  The registrations of a deleted queue stay, and no call frees their slots: both calls refuse the
  queue. After 64 such registrations \<open>sceGnmAddEqEvent\<close> fails for every queue.
\<close>

lemma gnm_registrations_leak:
  assumes "eq_tab_ok t" and "er_in_use (rs i)" and "eq_view t (er_eq (rs i)) = None" and "i < 64"
  shows "snd (sceGnmAddEqEvent t rs eq ident u) i = rs i \<and> snd (snd (sceGnmDeleteEqEvent t rs eq ident)) i = rs i"
proof (cases "eq_view t (ucast eq)")
  case None
  then show ?thesis
    using dead_view(2) [OF assms(1), of "ucast eq"] by (simp add: sceGnmAddEqEvent_def sceGnmDeleteEqEvent_def)
next
  case (Some xs)
  then have ne: "er_eq (rs i) \<noteq> ucast eq" using assms(3) by auto
  then have "\<not> reg_for rs (ucast eq) ident i" by (simp add: reg_for_def)
  moreover have "reg_slot rs (ucast eq) ident \<noteq> Some i"
    using reg_slot_cases [of rs "ucast eq" ident] assms(2) ne by (auto simp: reg_for_def)
  ultimately show ?thesis
    by (auto simp: sceGnmAddEqEvent_def sceGnmDeleteEqEvent_def Let_def split: option.split)
qed

end
