(* ===== verification/GnmFlip.thy ===== *)
theory GnmFlip
  imports GnmDraw GnmTables
begin

unbundle bit_operations_syntax

text \<open>
  Submission of command buffers and flips in \<open>ps4_gnmdriver.c\<close>: the marks that
  \<open>sceGnmPrepareFlip*\<close> left in a command buffer are replaced by packets before the command
  processor sees it.
\<close>

section \<open>Replacing the marks of a flip\<close>

definition gnm_resolve_guest_or_host_ptr :: "u64 \<Rightarrow> guest_mem \<Rightarrow> u64 \<Rightarrow> u64 \<Rightarrow> hptr" where
  "gnm_resolve_guest_or_host_ptr base m addr size_bytes =
     (if addr = 0 then None
      else if mem_mapped m \<and> addr < mem_size m \<and> size_bytes \<le> mem_size m - addr then Some addr
      else if mem_mapped m \<and> base \<le> addr \<and> addr + size_bytes \<le> base + mem_size m then Some (addr - base)
      else if 0x10000 \<le> addr then Some (addr - base)
      else None)"

definition store_label :: "u64 \<Rightarrow> u64 \<Rightarrow> u32 \<Rightarrow> guest_mem \<Rightarrow> guest_mem" where
  "store_label base label val m =
     (case gnm_resolve_guest_or_host_ptr base m label 4 of None \<Rightarrow> m | Some x \<Rightarrow> wr_u32 m x val)"

definition join32 :: "u32 \<Rightarrow> u32 \<Rightarrow> u64" where
  "join32 lo hi = ucast lo OR push_bit 32 (ucast hi)"

definition is_flip_mark :: "u32 \<Rightarrow> bool" where
  "is_flip_mark w \<longleftrightarrow> 0xabcdef10 \<le> w \<and> w \<le> 0xabcdef13"

definition is_eop_mark :: "u32 \<Rightarrow> bool" where
  "is_eop_mark w \<longleftrightarrow> w = 0xabcdef12 \<or> w = 0xabcdef13"

text \<open>The length of the marked block, cut at the end of the buffer, and the packet that replaces it.\<close>

definition flip_len :: "u32 \<Rightarrow> nat \<Rightarrow> nat" where
  "flip_len w k = (let max_len = (if is_eop_mark w then 0x14 else 0x0f) in if max_len \<le> k then max_len else k)"

definition flip_nop :: "nat \<Rightarrow> u32 list" where
  "flip_nop len =
     (if 2 \<le> len then (0xc0001000 OR push_bit 16 (of_nat len - 2)) # replicate (len - 1) 0 else [0x80000000])"

text \<open>The first pass: \<open>p\<close> is \<open>&cmdb[i]\<close> and \<open>k\<close> the number of words that are left.\<close>

function flip_scan :: "u64 \<Rightarrow> u64 \<Rightarrow> nat \<Rightarrow> guest_mem \<Rightarrow> guest_mem \<times> bool" where
  "flip_scan base p k m =
     (if k = 0 then (m, False)
      else
        let w = reg_at m p 0 in
        if \<not> is_flip_mark w then flip_scan base (p + 4) (k - 1) m
        else
          let len = flip_len w k;
              m1 = (if 4 \<le> k then store_label base (join32 (reg_at m p 1) (reg_at m p 2)) (reg_at m p 3) m else m);
              m2 = put_words 0 p (map W (flip_nop len)) m1;
              (m3, eop) = flip_scan base (p + 4 * of_nat len) (k - len) m2
          in (m3, is_eop_mark w \<or> eop))"
  by pat_completeness auto
termination
  by (relation "measure (\<lambda>(base, p, k, m). k)") (auto simp: flip_len_def Let_def)

declare flip_scan.simps [simp del]

text \<open>The second pass: the packet of 64 words that the SDK leaves at the end of a buffer.\<close>

definition flip_tail :: "u64 \<Rightarrow> u64 \<Rightarrow> guest_mem \<Rightarrow> guest_mem \<times> bool" where
  "flip_tail base fp m =
     (let b = reg_at m fp; payload_type = b 1; unmapped = (\<not> mem_mapped m);
          head = (\<lambda>n. put_words 0 fp (map W [PM4_TYPE3_HEADER PM4_IT_NOP 3 0 0, 0, 0, 0, 0,
                                           PM4_TYPE3_HEADER PM4_IT_NOP n 0 0, 0x68750779]) m);
          eop_ctl = (b 5 AND 0x3f) + 0x500 + (b 6 AND 0x3f) * 0x1000
      in if payload_type = 0x68750777 then (head 0x39, False)
         else if payload_type = 0x68750778 then
           (let m1 = put_words 0 (fp + 4 * 0x3b) (map W [PM4_TYPE3_HEADER PM4_IT_WRITE_DATA 3 0 0, 0x500,
                       b 2 AND 0xfffffffc, b 3, b 4]) (head 0x34)
            in (if unmapped then store_label base (join32 (b 2 AND 0xfffffffc) (b 3)) (b 4) m1 else m1, False))
         else if payload_type = 0x68750781 then
           (let m1 = put_words 0 (fp + 4 * 0x3a) (map W [PM4_TYPE3_HEADER PM4_IT_EVENT_WRITE_EOP 4 0 0, eop_ctl,
                       b 2 AND 0xfffffffc, (b 3 AND 0xffff) OR 0x22000000, b 4, 0]) (head 0x33)
            in (if unmapped then store_label base (join32 (b 2 AND 0xfffffffc) (b 3 AND 0xffff)) (b 4) m1 else m1,
                unmapped))
         else if payload_type = 0x68750780 then
           (put_words 0 (fp + 4 * 0x3a) (map W [PM4_TYPE3_HEADER PM4_IT_EVENT_WRITE_EOP 4 0 0, eop_ctl, 0,
                0x01000000, 0, 0]) (head 0x33), unmapped)
         else (m, False))"

definition PatchFlipRequest :: "u64 \<Rightarrow> hptr \<Rightarrow> u32 \<Rightarrow> guest_mem \<Rightarrow> guest_mem \<times> bool" where
  "PatchFlipRequest base cmdb size_in_bytes m =
     (case cmdb of None \<Rightarrow> (m, False) | Some p \<Rightarrow>
        if size_in_bytes < 16 then (m, False)
        else
          let n = unat (drop_bit 2 size_in_bytes);
              (m1, eop1) = flip_scan base p n m;
              fp = p + 4 * of_nat (n - 64);
              (m2, eop2) = (if 64 \<le> n \<and> reg_at m1 fp 0 = 0xc03e1000 then flip_tail base fp m1 else (m1, False))
          in (m2, eop1 \<or> eop2))"

section \<open>Submission\<close>

text \<open>
  The state a submission works on: guest memory, the counter of frames and the event queues. The
  renderer processes the command buffers; \<open>draw\<close> is what that does to the state, given the
  addresses and sizes of the buffers, and \<open>flip\<close> the answer of the video output to
  \<open>(handle, buffer, mode, argument)\<close> with its effect on the state.
\<close>

record gnm_state =
  gs_mem :: guest_mem
  gs_frames :: u64
  gs_eqs :: eq_tab

type_synonym gnm_buffers = "(u64 \<times> u32) list"

record gnm_host =
  h_draw :: "gnm_buffers \<Rightarrow> gnm_buffers option \<Rightarrow> gnm_state \<Rightarrow> gnm_state"
  h_flip :: "i32 \<Rightarrow> i32 \<Rightarrow> u32 \<Rightarrow> i64 \<Rightarrow> gnm_state \<Rightarrow> i32 \<times> gnm_state"

text \<open>The arrays of addresses and sizes in guest memory.\<close>

definition buffers_at :: "guest_mem \<Rightarrow> u64 \<Rightarrow> u64 \<Rightarrow> nat \<Rightarrow> gnm_buffers" where
  "buffers_at m addrs sizes n = map (\<lambda>i. (rd_u64 m (addrs + 8 * of_nat i), reg_at m sizes i)) [0..<n]"

definition buffers_opt :: "guest_mem \<Rightarrow> hptr \<Rightarrow> hptr \<Rightarrow> nat \<Rightarrow> gnm_buffers option" where
  "buffers_opt m addrs sizes n =
     (case (addrs, sizes) of (Some a, Some s) \<Rightarrow> Some (buffers_at m a s n) | _ \<Rightarrow> None)"

definition submit_args_ok :: "guest_mem \<Rightarrow> u32 \<Rightarrow> hptr \<Rightarrow> hptr \<Rightarrow> hptr \<Rightarrow> hptr \<Rightarrow> bool" where
  "submit_args_ok m cnt dcb dcb_sizes ccb ccb_sizes \<longleftrightarrow>
     (cnt \<noteq> 0 \<longrightarrow> dcb \<noteq> None \<and> dcb_sizes \<noteq> None \<and> (ccb_sizes \<noteq> None \<longrightarrow> ccb \<noteq> None))
     \<and> (\<forall>i<unat cnt. (case dcb_sizes of None \<Rightarrow> True
            | Some s \<Rightarrow> reg_at m s i \<noteq> 0 \<and> reg_at m s i \<le> 0x3ffffc)
        \<and> (case ccb_sizes of None \<Rightarrow> True | Some s \<Rightarrow> reg_at m s i \<le> 0x3ffffc))"

definition ps4_gnm_process_command_buffers ::
    "gnm_host \<Rightarrow> u32 \<Rightarrow> hptr \<Rightarrow> hptr \<Rightarrow> hptr \<Rightarrow> hptr \<Rightarrow> gnm_state \<Rightarrow> gnm_state" where
  "ps4_gnm_process_command_buffers h cnt dcb dcb_sizes ccb ccb_sizes st =
     (if cnt = 0 then st
      else h_draw h (the (buffers_opt (gs_mem st) dcb dcb_sizes (unat cnt)))
             (buffers_opt (gs_mem st) ccb ccb_sizes (unat cnt)) st)"

definition sceGnmSubmitCommandBuffers ::
    "gnm_host \<Rightarrow> u32 \<Rightarrow> hptr \<Rightarrow> hptr \<Rightarrow> hptr \<Rightarrow> hptr \<Rightarrow> gnm_state \<Rightarrow> i32 \<times> gnm_state" where
  "sceGnmSubmitCommandBuffers h cnt dcb dcb_sizes ccb ccb_sizes st =
     (if \<not> submit_args_ok (gs_mem st) cnt dcb dcb_sizes ccb ccb_sizes then (ORBIS_GNM_ERROR_INVALID_VALUE, st)
      else (0, ps4_gnm_process_command_buffers h cnt dcb dcb_sizes ccb ccb_sizes st))"

definition sceGnmSubmitCommandBuffersForWorkload ::
    "gnm_host \<Rightarrow> u32 \<Rightarrow> u32 \<Rightarrow> hptr \<Rightarrow> hptr \<Rightarrow> hptr \<Rightarrow> hptr \<Rightarrow> gnm_state \<Rightarrow> i32 \<times> gnm_state" where
  "sceGnmSubmitCommandBuffersForWorkload h workload cnt dcb dcb_sizes ccb ccb_sizes st =
     sceGnmSubmitCommandBuffers h cnt dcb dcb_sizes ccb ccb_sizes st"

text \<open>Every buffer is patched before any is drawn; its address and size are read when its turn comes.\<close>

fun patch_buffers :: "u64 \<Rightarrow> u64 \<Rightarrow> u64 \<Rightarrow> nat \<Rightarrow> nat \<Rightarrow> guest_mem \<Rightarrow> guest_mem \<times> bool" where
  "patch_buffers base addrs sizes i 0 m = (m, False)"
| "patch_buffers base addrs sizes i (Suc k) m =
     (let cmdb = gnm_resolve_guest_or_host_ptr base m (rd_u64 m (addrs + 8 * of_nat i)) (ucast (reg_at m sizes i));
          (m1, e1) = PatchFlipRequest base cmdb (reg_at m sizes i) m;
          (m2, e2) = patch_buffers base addrs sizes (Suc i) k m1
      in (m2, e1 \<or> e2))"

definition signal_eop :: "gnm_eq_regs \<Rightarrow> bool \<Rightarrow> gnm_state \<Rightarrow> gnm_state" where
  "signal_eop rs fire st = (if fire then st\<lparr>gs_eqs := ps4_gnm_signal_interrupt rs 0x40 (gs_eqs st)\<rparr> else st)"

definition flip_result :: "i32 \<times> gnm_state \<Rightarrow> i32 \<times> gnm_state" where
  "flip_result r = (if fst r \<noteq> 0 then if fst r = - ENOSPC then 0x80d11081 else fst r else 0, snd r)"

definition sceGnmSubmitAndFlipCommandBuffers ::
    "gnm_host \<Rightarrow> u64 \<Rightarrow> gnm_eq_regs \<Rightarrow> u32 \<Rightarrow> hptr \<Rightarrow> hptr \<Rightarrow> hptr \<Rightarrow> hptr \<Rightarrow> u32 \<Rightarrow> u32 \<Rightarrow> u32 \<Rightarrow> i64
      \<Rightarrow> gnm_state \<Rightarrow> i32 \<times> gnm_state" where
  "sceGnmSubmitAndFlipCommandBuffers h base rs cnt dcb dcb_sizes ccb ccb_sizes vo_handle buf_idx flip_mode flip_arg st =
     (if \<not> submit_args_ok (gs_mem st) cnt dcb dcb_sizes ccb ccb_sizes then (ORBIS_GNM_ERROR_INVALID_VALUE, st)
      else
        let (m1, fire) = (case (dcb, dcb_sizes) of
                            (Some a, Some s) \<Rightarrow> patch_buffers base a s 0 (unat cnt) (gs_mem st)
                          | _ \<Rightarrow> (gs_mem st, False));
            st1 = ps4_gnm_process_command_buffers h cnt dcb dcb_sizes ccb ccb_sizes (st\<lparr>gs_mem := m1\<rparr>);
            st2 = st1\<lparr>gs_frames := gs_frames st1 + 1\<rparr>
        in flip_result (h_flip h vo_handle buf_idx flip_mode flip_arg (signal_eop rs fire st2)))"

definition sceGnmSubmitAndFlipCommandBuffersForWorkload ::
    "gnm_host \<Rightarrow> u64 \<Rightarrow> gnm_eq_regs \<Rightarrow> u32 \<Rightarrow> u32 \<Rightarrow> hptr \<Rightarrow> hptr \<Rightarrow> hptr \<Rightarrow> hptr \<Rightarrow> u32 \<Rightarrow> u32 \<Rightarrow> u32 \<Rightarrow> i64
      \<Rightarrow> gnm_state \<Rightarrow> i32 \<times> gnm_state" where
  "sceGnmSubmitAndFlipCommandBuffersForWorkload h base rs workload cnt dcb dcb_sizes ccb ccb_sizes vo_handle buf_idx
       flip_mode flip_arg st =
     sceGnmSubmitAndFlipCommandBuffers h base rs cnt dcb dcb_sizes ccb ccb_sizes vo_handle buf_idx flip_mode flip_arg st"

definition sceGnmSubmitDone :: "gnm_state \<Rightarrow> i32 \<times> gnm_state" where
  "sceGnmSubmitDone st = (0, st\<lparr>gs_frames := gs_frames st + 1\<rparr>)"

text \<open>\<open>init\<close> is the effect of \<open>ps4_gnmdriver_init\<close>, which allocates the tessellation ring once.\<close>

definition sceGnmRequestFlipAndSubmitDoneForWorkload ::
    "gnm_host \<Rightarrow> (gnm_state \<Rightarrow> gnm_state) \<Rightarrow> u64 \<Rightarrow> gnm_eq_regs \<Rightarrow> u64 \<Rightarrow> u64 \<Rightarrow> u32 \<Rightarrow> u32 \<Rightarrow> u32 \<Rightarrow> u32 \<Rightarrow> i64
      \<Rightarrow> gnm_state \<Rightarrow> i32 \<times> gnm_state" where
  "sceGnmRequestFlipAndSubmitDoneForWorkload h init base rs workload gpu_addr gpu_size vo_handle buf_idx flip_mode
       flip_arg st =
     (if gpu_addr \<noteq> 0 \<and> 0 < gpu_size \<and> 0x3ffffc < gpu_size then (ORBIS_GNM_ERROR_INVALID_VALUE, st)
      else
        let st1 = (if gpu_addr \<noteq> 0 \<and> 0 < gpu_size then
                     let cmdb = gnm_resolve_guest_or_host_ptr base (gs_mem st) gpu_addr (ucast gpu_size);
                         (m1, fire) = PatchFlipRequest base cmdb gpu_size (gs_mem st)
                     in signal_eop rs fire (h_draw h [(gpu_addr, gpu_size)] None (init (st\<lparr>gs_mem := m1\<rparr>)))
                   else st)
        in flip_result (h_flip h vo_handle buf_idx flip_mode flip_arg (snd (sceGnmSubmitDone st1))))"

definition sceGnmRequestFlipAndSubmitDone ::
    "gnm_host \<Rightarrow> (gnm_state \<Rightarrow> gnm_state) \<Rightarrow> u64 \<Rightarrow> gnm_eq_regs \<Rightarrow> u64 \<Rightarrow> u32 \<Rightarrow> u32 \<Rightarrow> u32 \<Rightarrow> u32 \<Rightarrow> i64
      \<Rightarrow> gnm_state \<Rightarrow> i32 \<times> gnm_state" where
  "sceGnmRequestFlipAndSubmitDone h init base rs gpu_addr gpu_size vo_handle buf_idx flip_mode flip_arg st =
     sceGnmRequestFlipAndSubmitDoneForWorkload h init base rs gpu_addr gpu_addr gpu_size vo_handle buf_idx flip_mode
       flip_arg st"

end
