(* ===== verification/GnmFlipProps.thy ===== *)
theory GnmFlipProps
  imports GnmFlip GnmProps
begin

unbundle bit_operations_syntax

text \<open>
  What the patch of a flip leaves in a command buffer: on the list of its words, every mark is
  replaced by a NOP of the same length, so a buffer of packets and marks becomes one of packets.
\<close>

section \<open>The first pass on lists\<close>

function patched :: "u32 list \<Rightarrow> u32 list" where
  "patched [] = []"
| "patched (w # ws) =
     (if is_flip_mark w then
        let len = flip_len w (Suc (length ws)) in flip_nop len @ patched (drop len (w # ws))
      else w # patched ws)"
  by pat_completeness auto
termination
  by (relation "measure length") (auto simp: flip_len_def Let_def)

function flip_labels :: "u32 list \<Rightarrow> (u64 \<times> u32) list" where
  "flip_labels [] = []"
| "flip_labels (w # ws) =
     (if is_flip_mark w then
        (if 3 \<le> length ws then [(join32 (ws ! 0) (ws ! 1), ws ! 2)] else [])
        @ flip_labels (drop (flip_len w (Suc (length ws))) (w # ws))
      else flip_labels ws)"
  by pat_completeness auto
termination
  by (relation "measure length") (auto simp: flip_len_def Let_def)

function flip_eop :: "u32 list \<Rightarrow> bool" where
  "flip_eop [] \<longleftrightarrow> False"
| "flip_eop (w # ws) \<longleftrightarrow>
     (if is_flip_mark w then is_eop_mark w \<or> flip_eop (drop (flip_len w (Suc (length ws))) (w # ws))
      else flip_eop ws)"
  by pat_completeness auto
termination
  by (relation "measure length") (auto simp: flip_len_def Let_def)

definition store_labels :: "u64 \<Rightarrow> (u64 \<times> u32) list \<Rightarrow> guest_mem \<Rightarrow> guest_mem" where
  "store_labels base ls m = fold (\<lambda>(l, v). store_label base l v) ls m"

text \<open>No label lies in the set \<open>B\<close> of addresses.\<close>

definition labels_clear :: "u64 \<Rightarrow> guest_mem \<Rightarrow> u64 set \<Rightarrow> (u64 \<times> u32) list \<Rightarrow> bool" where
  "labels_clear base m B ls \<longleftrightarrow> (\<forall>(l, v)\<in>set ls. \<forall>x. gnm_resolve_guest_or_host_ptr base m l 4 = Some x \<longrightarrow>
     (\<forall>a\<in>B. 4 \<le> unat (a - x)))"

definition same_frame :: "guest_mem \<Rightarrow> guest_mem \<Rightarrow> bool" where
  "same_frame m m' \<longleftrightarrow> mem_size m' = mem_size m \<and> mem_mapped m' = mem_mapped m"

lemma same_frame_refl [simp]: "same_frame m m"
  and same_frame_trans: "same_frame m m1 \<Longrightarrow> same_frame m1 m2 \<Longrightarrow> same_frame m m2"
  by (simp_all add: same_frame_def)

lemma store_label_frame [simp]: "same_frame m (store_label base l v m)"
  by (simp add: same_frame_def store_label_def wr_u32_def split: option.split)

lemma put_words_frame [simp]: "same_frame m (put_words r p ws m)"
proof (induction ws arbitrary: p m)
  case (Cons w ws)
  have "same_frame m (wr_u32 m p v)" for v by (simp add: same_frame_def wr_u32_def)
  then show ?case using Cons same_frame_trans by (simp) blast
qed simp

lemma resolve_frame: "same_frame m m' \<Longrightarrow> gnm_resolve_guest_or_host_ptr base m' l n = gnm_resolve_guest_or_host_ptr base m l n"
  by (simp add: gnm_resolve_guest_or_host_ptr_def same_frame_def)

lemma labels_clear_frame: "same_frame m m' \<Longrightarrow> labels_clear base m' B ls = labels_clear base m B ls"
  by (simp add: labels_clear_def resolve_frame)

lemma store_label_eq:
  assumes "labels_clear base m B [(l, v)]" and "a \<in> B"
  shows "mem_bytes (store_label base l v m) a = mem_bytes m a"
  using assms by (auto simp: labels_clear_def store_label_def wr_u32_def wr_bytes_other split: option.split)

text \<open>A label store reads of the memory only its frame, so it acts alike on memories that agree at an address.\<close>

lemma store_label_cong:
  assumes "same_frame m m'" and "mem_bytes m' a = mem_bytes m a"
  shows "mem_bytes (store_label base l v m') a = mem_bytes (store_label base l v m) a"
  using assms(2) unfolding store_label_def resolve_frame [OF assms(1)]
  by (auto simp: wr_u32_def wr_bytes_def split: option.split)

lemma store_labels_cong:
  assumes "same_frame m m'" and "mem_bytes m' a = mem_bytes m a"
  shows "mem_bytes (store_labels base ls m') a = mem_bytes (store_labels base ls m) a"
  using assms
proof (induction ls arbitrary: m m')
  case (Cons x ls)
  obtain l v where x: "x = (l, v)" by (cases x)
  have "same_frame (store_label base l v m) (store_label base l v m')"
    using Cons.prems(1) store_label_frame [of m base l v] store_label_frame [of m' base l v]
    by (simp add: same_frame_def)
  with Cons.IH [OF this store_label_cong [OF Cons.prems]] show ?case by (simp add: store_labels_def x)
qed (simp add: store_labels_def)

lemma store_labels_eq:
  assumes "labels_clear base m B ls" and "a \<in> B"
  shows "mem_bytes (store_labels base ls m) a = mem_bytes m a"
  using assms(1)
proof (induction ls arbitrary: m)
  case (Cons x ls)
  obtain l v where x: "x = (l, v)" by (cases x)
  have "labels_clear base (store_label base l v m) B ls"
    using Cons.prems unfolding labels_clear_frame [OF store_label_frame] by (simp add: labels_clear_def)
  from Cons.IH [OF this] store_label_eq [OF _ assms(2), of base m l v] Cons.prems
  show ?case by (simp add: store_labels_def x labels_clear_def)
qed (simp add: store_labels_def)

lemma store_labels_frame: "same_frame m (store_labels base ls m)"
proof (induction ls arbitrary: m)
  case (Cons x xs)
  obtain l v where x: "x = (l, v)" by (cases x)
  have "same_frame (store_label base l v m) (store_labels base xs (store_label base l v m))" by (rule Cons.IH)
  then show ?case using same_frame_trans [OF store_label_frame] by (simp add: store_labels_def x)
qed (simp add: store_labels_def)

section \<open>The first pass in memory\<close>

definition buf_bytes :: "u64 \<Rightarrow> nat \<Rightarrow> u64 set" where
  "buf_bytes p n = {a. unat (a - p) < n}"

lemma flip_len_pos: "0 < k \<Longrightarrow> 0 < flip_len w k \<and> flip_len w k \<le> k"
  by (simp add: flip_len_def Let_def)

lemma length_flip_nop: "0 < len \<Longrightarrow> length (flip_nop len) = len"
  by (simp add: flip_nop_def)

lemma rd_words_cong:
  assumes "\<And>a. a \<in> buf_bytes p (4 * n) \<Longrightarrow> mem_bytes m' a = mem_bytes m a" and "4 * n \<le> 2 ^ 64"
  shows "rd_words m' p n = rd_words m p n"
  unfolding rd_words_def
proof (rule map_cong [OF refl], rule rd_u32_cong)
  fix i k assume i: "i \<in> set [0..<n]" and k: "k < (4 :: nat)"
  define j where "j = 4 * i + k"
  have "j < 4 * n" using i k by (simp add: j_def)
  moreover from this assms(2) have "j < 2 ^ 64" by linarith
  then have "unat (of_nat j :: u64) = j" by (simp add: unat_of_nat)
  moreover have "p + 4 * of_nat i + of_nat k - p = (of_nat j :: u64)" by (simp add: j_def)
  ultimately show "mem_bytes m' (p + 4 * of_nat i + of_nat k) = mem_bytes m (p + 4 * of_nat i + of_nat k)"
    by (intro assms(1)) (simp add: buf_bytes_def)
qed

lemma drop_rd_words: "j \<le> n \<Longrightarrow> drop j (rd_words m p n) = rd_words m (p + 4 * of_nat j) (n - j)"
  using rd_words_append [of m p j "n - j"] by simp

lemma put_words_lits:
  assumes "4 * length ws \<le> 2 ^ 64"
  shows "rd_words (put_words 0 p (map W ws) m) p (length ws) = ws"
  using put_words_stored [of "map W ws" 0 p m] assms
  by (simp add: list_all2_conv_all_nth list_eq_iff_nth_eq)

lemma reg_at_nth: "i < n \<Longrightarrow> rd_words m p n ! i = reg_at m p i"
  by (simp add: rd_words_def reg_at_def)

text \<open>The part of a buffer behind its first \<open>j\<close> words.\<close>

lemma buf_bytes_drop:
  assumes "j \<le> n" and "4 * n \<le> 2 ^ 64"
  shows "buf_bytes (p + 4 * of_nat j) (4 * (n - j)) \<subseteq> buf_bytes p (4 * n)"
    and "buf_bytes p (4 * j) \<inter> buf_bytes (p + 4 * of_nat j) (4 * (n - j)) = {}"
    and "buf_bytes p (4 * j) \<subseteq> buf_bytes p (4 * n)"
proof -
  have s: "4 * j + 4 * (n - j) = 4 * n" using assms(1) by simp
  note b = unat_back [of "4 * j" "4 * (n - j)", unfolded s, OF assms(2)]
  have o: "p + 4 * of_nat j = p + of_nat (4 * j)" by simp
  show "buf_bytes (p + 4 * of_nat j) (4 * (n - j)) \<subseteq> buf_bytes p (4 * n)"
  proof
    fix a assume "a \<in> buf_bytes (p + 4 * of_nat j) (4 * (n - j))"
    then have "\<not> 4 * (n - j) \<le> unat (a - (p + of_nat (4 * j)))" unfolding o by (simp only: buf_bytes_def mem_Collect_eq not_le)
    then have "\<not> 4 * n \<le> unat (a - p)" using b(1) by blast
    then show "a \<in> buf_bytes p (4 * n)" by (simp add: buf_bytes_def)
  qed
  show "buf_bytes p (4 * j) \<inter> buf_bytes (p + 4 * of_nat j) (4 * (n - j)) = {}"
  proof -
    have "a \<notin> buf_bytes (p + 4 * of_nat j) (4 * (n - j))" if "a \<in> buf_bytes p (4 * j)" for a
    proof -
      have "unat (a - p) < 4 * j" using that by (simp add: buf_bytes_def)
      from b(2) [OF this] show ?thesis unfolding o by (simp only: buf_bytes_def mem_Collect_eq not_less)
    qed
    then show ?thesis by blast
  qed
  show "buf_bytes p (4 * j) \<subseteq> buf_bytes p (4 * n)" using assms(1) by (auto simp: buf_bytes_def)
qed

definition scan_ok :: "u64 \<Rightarrow> u64 \<Rightarrow> nat \<Rightarrow> guest_mem \<Rightarrow> guest_mem \<Rightarrow> bool \<Rightarrow> bool" where
  "scan_ok base p k m m' e \<longleftrightarrow> same_frame m m' \<and> e = flip_eop (rd_words m p k)
     \<and> rd_words m' p k = patched (rd_words m p k)
     \<and> (\<forall>a. a \<notin> buf_bytes p (4 * k) \<longrightarrow>
          mem_bytes m' a = mem_bytes (store_labels base (flip_labels (rd_words m p k)) m) a)"

text \<open>One step of the pass: the first \<open>j\<close> words have become \<open>us\<close>, and the rest follows.\<close>

lemma scan_step:
  assumes j: "0 < j" "j \<le> k" and k: "4 * k \<le> 2 ^ 64" and B: "buf_bytes p (4 * k) \<subseteq> B"
    and frame: "same_frame m m2"
    and m2: "\<And>a. a \<notin> buf_bytes p (4 * j) \<Longrightarrow> mem_bytes m2 a = mem_bytes (store_labels base ls1 m) a"
    and us: "rd_words m2 p j = us"
    and clear: "labels_clear base m B (ls1 @ ls2)"
    and ls2: "ls2 = flip_labels (rd_words m2 (p + 4 * of_nat j) (k - j))"
    and tail: "scan_ok base (p + 4 * of_nat j) (k - j) m2 m' e"
  shows "same_frame m m'" and "rd_words m2 (p + 4 * of_nat j) (k - j) = drop j (rd_words m p k)"
    and "rd_words m' p k = us @ patched (drop j (rd_words m p k))"
    and "\<forall>a. a \<notin> buf_bytes p (4 * k) \<longrightarrow> mem_bytes m' a = mem_bytes (store_labels base (ls1 @ ls2) m) a"
proof -
  note bd = buf_bytes_drop [OF j(2) k, of p]
  have clear1: "labels_clear base m B ls1" and clear2: "labels_clear base m2 B ls2"
    using clear unfolding labels_clear_frame [OF frame] by (auto simp: labels_clear_def)
  show "same_frame m m'" using frame tail by (simp add: scan_ok_def same_frame_def)
  have rest: "mem_bytes m2 a = mem_bytes m a" if "a \<in> buf_bytes (p + 4 * of_nat j) (4 * (k - j))" for a
  proof -
    have "a \<notin> buf_bytes p (4 * j)" "a \<in> B" using that bd B by blast+
    then show ?thesis using m2 [of a] store_labels_eq [OF clear1] by simp
  qed
  have "rd_words m2 (p + 4 * of_nat j) (k - j) = rd_words m (p + 4 * of_nat j) (k - j)"
    by (rule rd_words_cong [OF rest]) (use j k in simp_all)
  then show dr: "rd_words m2 (p + 4 * of_nat j) (k - j) = drop j (rd_words m p k)"
    using j by (simp add: drop_rd_words)
  have "rd_words m' p j = us"
    unfolding us [symmetric]
  proof (rule rd_words_cong)
    fix a assume a: "a \<in> buf_bytes p (4 * j)"
    then have "a \<notin> buf_bytes (p + 4 * of_nat j) (4 * (k - j))" "a \<in> B" using bd B by blast+
    then show "mem_bytes m' a = mem_bytes m2 a"
      using tail store_labels_eq [OF clear2, of a] ls2 by (simp add: scan_ok_def)
  qed (use j k in simp)
  moreover have "rd_words m' p k = rd_words m' p j @ rd_words m' (p + 4 * of_nat j) (k - j)"
    using rd_words_append [of m' p j "k - j"] j by simp
  ultimately show "rd_words m' p k = us @ patched (drop j (rd_words m p k))"
    using tail by (simp add: scan_ok_def dr)
  show "\<forall>a. a \<notin> buf_bytes p (4 * k) \<longrightarrow> mem_bytes m' a = mem_bytes (store_labels base (ls1 @ ls2) m) a"
  proof (intro allI impI)
    fix a assume "a \<notin> buf_bytes p (4 * k)"
    then have out: "a \<notin> buf_bytes (p + 4 * of_nat j) (4 * (k - j))" "a \<notin> buf_bytes p (4 * j)" using bd by blast+
    have fr: "same_frame (store_labels base ls1 m) m2"
    proof -
      have "same_frame m (store_labels base ls1 m)" by (rule store_labels_frame)
      with frame show ?thesis by (simp add: same_frame_def)
    qed
    have "mem_bytes m' a = mem_bytes (store_labels base ls2 m2) a"
      using tail out(1) ls2 by (simp add: scan_ok_def)
    also have "\<dots> = mem_bytes (store_labels base ls2 (store_labels base ls1 m)) a"
      by (rule store_labels_cong [OF fr m2 [OF out(2)]])
    finally show "mem_bytes m' a = mem_bytes (store_labels base (ls1 @ ls2) m) a"
      by (simp add: store_labels_def)
  qed
qed

lemma flip_scan_ok:
  assumes "4 * k \<le> 2 ^ 64" and "buf_bytes p (4 * k) \<subseteq> B" and "labels_clear base m B (flip_labels (rd_words m p k))"
  shows "scan_ok base p k m (fst (flip_scan base p k m)) (snd (flip_scan base p k m))"
  using assms
proof (induction k arbitrary: p m rule: less_induct)
  case (less k)
  show ?case
  proof (cases k)
    case 0
    then show ?thesis by (simp add: flip_scan.simps scan_ok_def store_labels_def)
  next
    case (Suc n)
    define w where "w = rd_u32 m p"
    define rest where "rest = rd_words m (p + 4) n"
    have ws: "rd_words m p k = w # rest" by (simp add: Suc rd_words_Suc w_def rest_def)
    have w: "reg_at m p 0 = w" by (simp add: reg_at_def w_def)
    have len_rest: "length rest = n" by (simp add: rest_def)
    show ?thesis
    proof (cases "is_flip_mark w")
      case False
      define r where "r = flip_scan base (p + 4) n m"
      have eq: "flip_scan base p k m = r" using False by (subst flip_scan.simps) (simp add: Suc w r_def)
      have sub: "buf_bytes (p + 4) (4 * n) \<subseteq> B"
        using buf_bytes_drop(1) [of 1 k p] less.prems(1,2) by (auto simp: Suc)
      have lb: "flip_labels (rd_words m p k) = flip_labels rest" using False by (simp add: ws)
      have tail: "scan_ok base (p + 4 * of_nat 1) (k - 1) m (fst r) (snd r)"
        using less.IH [of n "p + 4" m] less.prems sub lb by (simp add: Suc r_def rest_def)
      have one: "0 < (1 :: nat)" "1 \<le> k" by (simp_all add: Suc)
      have out: "mem_bytes m a = mem_bytes (store_labels base [] m) a" for a by (simp add: store_labels_def)
      have us: "rd_words m p 1 = [w]" by (simp add: rd_words_Suc w_def)
      have cl: "labels_clear base m B ([] @ flip_labels (rd_words m (p + 4 * of_nat 1) (k - 1)))"
        using less.prems(3) lb by (simp add: Suc rest_def)
      note step = scan_step [OF one less.prems(1,2) same_frame_refl out us cl refl tail]
      have "patched (rd_words m p k) = [w] @ patched (drop 1 (rd_words m p k))"
        "flip_eop (rd_words m p k) = flip_eop (drop 1 (rd_words m p k))"
        "flip_labels (rd_words m p k) = [] @ flip_labels (drop 1 (rd_words m p k))"
        using False by (simp_all add: ws)
      then show ?thesis
        using step tail step(2) unfolding eq scan_ok_def by (simp del: append_Cons append_Nil)
    next
      case True
      define len where "len = flip_len w k"
      have len: "0 < len" "len \<le> k" using flip_len_pos [of k w] Suc by (simp_all add: len_def)
      define ls1 where "ls1 = (if 4 \<le> k then [(join32 (reg_at m p 1) (reg_at m p 2), reg_at m p 3)] else [])"
      define m1 where "m1 = (if 4 \<le> k then store_label base (join32 (reg_at m p 1) (reg_at m p 2)) (reg_at m p 3) m else m)"
      define m2 where "m2 = put_words 0 p (map W (flip_nop len)) m1"
      define r where "r = flip_scan base (p + 4 * of_nat len) (k - len) m2"
      have eq: "flip_scan base p k m = (fst r, is_eop_mark w \<or> snd r)"
        using True Suc
        by (subst flip_scan.simps) (simp add: w Let_def len_def m1_def m2_def r_def case_prod_beta cong: if_cong)
      have m1: "m1 = store_labels base ls1 m" by (simp add: m1_def ls1_def store_labels_def)
      have fr: "same_frame m m2"
        unfolding m2_def by (rule same_frame_trans [OF _ put_words_frame]) (simp add: m1_def)
      have l4: "4 * len \<le> 2 ^ 64" using len less.prems(1) by simp
      have out: "mem_bytes m2 a = mem_bytes (store_labels base ls1 m) a" if "a \<notin> buf_bytes p (4 * len)" for a
        using that put_words_outside [of "map W (flip_nop len)" "4 * len" m1 0 p] l4 len
        by (simp add: m2_def m1 same_outside_def buf_bytes_def length_flip_nop)
      have us: "rd_words m2 p len = flip_nop len"
        using put_words_lits [of "flip_nop len" p m1] l4 len by (simp add: m2_def length_flip_nop)
      have i: "rest ! 0 = reg_at m p 1" "rest ! 1 = reg_at m p 2" "rest ! 2 = reg_at m p 3" if "4 \<le> k"
        using that reg_at_nth [of 1 k m p] reg_at_nth [of 2 k m p] reg_at_nth [of 3 k m p]
        by (simp_all add: ws numeral_2_eq_2 numeral_3_eq_3)
      have lb: "flip_labels (rd_words m p k) = ls1 @ flip_labels (drop len (rd_words m p k))"
        unfolding ws using True i by (auto simp: len_rest ls1_def len_def Suc)
      have clear1: "labels_clear base m B ls1"
        using less.prems(3) unfolding lb by (simp add: labels_clear_def)
      have dr: "rd_words m2 (p + 4 * of_nat len) (k - len) = drop len (rd_words m p k)"
        unfolding drop_rd_words [OF len(2)]
      proof (rule rd_words_cong)
        fix a assume "a \<in> buf_bytes (p + 4 * of_nat len) (4 * (k - len))"
        then have "a \<notin> buf_bytes p (4 * len)" "a \<in> B"
          using buf_bytes_drop [OF len(2) less.prems(1), of p] less.prems(2) by blast+
        then show "mem_bytes m2 a = mem_bytes m a" using out store_labels_eq [OF clear1] by simp
      qed (use less.prems(1) in simp)
      have sub: "buf_bytes (p + 4 * of_nat len) (4 * (k - len)) \<subseteq> B"
        using buf_bytes_drop(1) [OF len(2) less.prems(1), of p] less.prems(2) by blast
      have "labels_clear base m2 B (flip_labels (drop len (rd_words m p k)))"
        using less.prems(3) unfolding lb labels_clear_frame [OF fr] by (auto simp: labels_clear_def)
      then have tail: "scan_ok base (p + 4 * of_nat len) (k - len) m2 (fst r) (snd r)"
        using less.IH [of "k - len" "p + 4 * of_nat len" m2] less.prems(1) len sub dr by (simp add: r_def)
      have cl: "labels_clear base m B (ls1 @ flip_labels (rd_words m2 (p + 4 * of_nat len) (k - len)))"
        using less.prems(3) unfolding dr lb .
      note st = scan_step [OF len less.prems(1,2) fr out us cl refl tail]
      have "patched (rd_words m p k) = flip_nop len @ patched (drop len (rd_words m p k))"
        "flip_eop (rd_words m p k) \<longleftrightarrow> is_eop_mark w \<or> flip_eop (drop len (rd_words m p k))"
        unfolding ws using True by (simp_all add: len_def len_rest Suc Let_def)
      then show ?thesis
        using st tail unfolding eq scan_ok_def lb dr by simp
    qed
  qed
qed

section \<open>Packets and marks\<close>

text \<open>
  A command buffer as the game builds it: packets and filler words without a mark in them, and
  whole blocks that \<open>sceGnmPrepareFlip*\<close> wrote.
\<close>

inductive dcb :: "u32 list \<Rightarrow> bool" where
  "dcb []"
| packet: "pm4_type h = 3 \<Longrightarrow> length body = pm4_body h \<Longrightarrow> \<forall>w\<in>set (h # body). \<not> is_flip_mark w \<Longrightarrow> dcb rest
    \<Longrightarrow> dcb (h # body @ rest)"
| filler: "pm4_type h = 2 \<Longrightarrow> \<not> is_flip_mark h \<Longrightarrow> dcb rest \<Longrightarrow> dcb (h # rest)"
| block: "is_flip_mark w \<Longrightarrow> length body = (if is_eop_mark w then 0x13 else 0x0e) \<Longrightarrow> dcb rest
    \<Longrightarrow> dcb (w # body @ rest)"

lemma patched_plain: "\<forall>w\<in>set us. \<not> is_flip_mark w \<Longrightarrow> patched (us @ ws) = us @ patched ws"
  by (induction us) simp_all

lemma pm4_ok_append: "pm4_ok as \<Longrightarrow> pm4_ok (as @ bs) \<longleftrightarrow> pm4_ok bs"
  by (induction as rule: pm4_ok.induct) (auto split: if_splits)

lemma pm4_flip_nop: "pm4_ok (flip_nop 0x0f)" "pm4_ok (flip_nop 0x14)"
  by (simp_all add: flip_nop_def pm4_type_def pm4_body_def)

lemma patched_ok: "dcb ws \<Longrightarrow> pm4_ok (patched ws)"
proof (induction rule: dcb.induct)
  case (packet h body rest)
  have "patched (h # body @ rest) = h # body @ patched rest"
    using packet(3) patched_plain [of "h # body" rest] by simp
  moreover have "\<not> pm4_type h = 2" using packet(1) by simp
  ultimately show ?case using packet by simp
next
  case (block w body rest)
  then have "patched (w # body @ rest) = flip_nop (if is_eop_mark w then 0x14 else 0x0f) @ patched rest"
    by (simp add: flip_len_def Let_def)
  then show ?case using block pm4_flip_nop by (simp add: pm4_ok_append)
qed simp_all

lemma length_patched [simp]: "length (patched ws) = length ws"
proof (induction ws rule: patched.induct)
  case (2 w ws)
  then show ?case
    using flip_len_pos [of "Suc (length ws)" w] by (simp add: Let_def length_flip_nop)
qed simp

text \<open>The packets that take the place of the last 64 words.\<close>

lemma two_blocks:
  fixes fp :: u64 and m :: guest_mem
  assumes "7 \<le> j" and "j \<le> 64" and "length as = 7" and "length bs = 64 - j"
  defines "m1 \<equiv> put_words 0 fp (map W as) m"
  defines "m2 \<equiv> put_words 0 (fp + of_nat (4 * j)) (map W bs) m1"
  shows "\<exists>xs. length xs = j - 7 \<and> rd_words m2 fp 64 = as @ xs @ bs \<and> same_outside m m2 fp 256"
proof -
  have o2: "same_outside m1 m2 (fp + of_nat (4 * j)) (4 * (64 - j))"
    unfolding m2_def by (rule put_words_outside) (use assms in simp_all)
  have o1: "same_outside m m1 fp 256"
    unfolding m1_def by (rule put_words_outside) (use assms in simp_all)
  have "same_outside m1 m2 fp 256"
    by (rule same_outside_inner [OF o2]) (use assms(2) in simp_all)
  with o1 have out: "same_outside m m2 fp 256" by (rule same_outside_trans)
  have "rd_words m2 fp 7 = rd_words m1 fp 7"
  proof (rule rd_words_cong)
    fix a assume "a \<in> buf_bytes fp (4 * 7)"
    then have "unat (a - fp) < 4 * j" using assms(1) by (simp add: buf_bytes_def)
    then show "mem_bytes m2 a = mem_bytes m1 a"
      by (rule same_outside_before [OF o2, rotated]) (use assms(2) in simp)
  qed simp
  then have "rd_words m2 fp 7 = as"
    using put_words_lits [of as fp m] assms(3) by (simp add: m1_def)
  moreover have "rd_words m2 (fp + of_nat (4 * j)) (64 - j) = bs"
    using put_words_lits [of bs "fp + of_nat (4 * j)" m1] assms(2,4) by (simp add: m2_def)
  moreover have "rd_words m2 fp 64 = rd_words m2 fp j @ rd_words m2 (fp + 4 * of_nat j) (64 - j)"
    using rd_words_append [of m2 fp j "64 - j"] assms(2) by simp
  moreover have "rd_words m2 fp j = rd_words m2 fp 7 @ rd_words m2 (fp + 4 * of_nat 7) (j - 7)"
    using rd_words_append [of m2 fp 7 "j - 7"] assms(1) by simp
  ultimately show ?thesis
    using out by (intro exI [of _ "rd_words m2 (fp + 4 * of_nat 7) (j - 7)"]) simp
qed

lemma tail_shape:
  assumes "length xs = unat n" and "n \<le> 0x3fff" and "pm4_ok bs"
  shows "pm4_ok ([PM4_TYPE3_HEADER PM4_IT_NOP 3 0 0, 0, 0, 0, 0, PM4_TYPE3_HEADER PM4_IT_NOP n 0 0, c] @ xs @ bs)"
  using assms by (simp add: count_bits)

lemma tail_words:
  assumes "mem_mapped m" and "reg_at m fp 0 = 0xc03e1000"
  shows "pm4_ok (rd_words (fst (flip_tail base fp m)) fp 64)
    \<and> same_outside m (fst (flip_tail base fp m)) fp 256 \<and> snd (flip_tail base fp m) = False"
proof -
  define ty where "ty = reg_at m fp 1"
  let ?head = "\<lambda>n. [PM4_TYPE3_HEADER PM4_IT_NOP 3 0 0, 0, 0, 0, 0, PM4_TYPE3_HEADER PM4_IT_NOP n 0 0, 0x68750779]"
  have ok: "pm4_ok (rd_words m2 fp 64) \<and> same_outside m m2 fp 256"
    if "m2 = put_words 0 (fp + of_nat (4 * j)) (map W bs) (put_words 0 fp (map W (?head n)) m)"
      "7 \<le> j" "j \<le> 64" "length bs = 64 - j" "unat n = j - 7" "pm4_ok bs" for m2 j bs n
  proof -
    note n = that(5)
    have "length (?head n) = 7" by simp
    from two_blocks [OF that(2,3) this that(4), of fp m, folded that(1)]
    obtain xs where xs: "length xs = unat n" "rd_words m2 fp 64 = ?head n @ xs @ bs" "same_outside m m2 fp 256"
      using n by auto
    have "n \<le> 0x3fff" using that(3,5) by (simp add: word_le_nat_alt)
    with tail_shape [OF xs(1) _ that(6)] xs show ?thesis by simp
  qed
  consider "ty = 0x68750777" | "ty = 0x68750778" | "ty = 0x68750781" | "ty = 0x68750780"
    | "ty \<noteq> 0x68750777" "ty \<noteq> 0x68750778" "ty \<noteq> 0x68750781" "ty \<noteq> 0x68750780" by blast
  then show ?thesis
  proof cases
    case 1
    then show ?thesis using ok [of _ 64 "[]" 57] assms(1)
      by (simp add: flip_tail_def ty_def Let_def)
  next
    case 2
    then show ?thesis
      using ok [of _ 59 "[PM4_TYPE3_HEADER PM4_IT_WRITE_DATA 3 0 0, 0x500, reg_at m fp 2 AND 0xfffffffc,
          reg_at m fp 3, reg_at m fp 4]" 52] assms(1)
      by (simp add: flip_tail_def ty_def Let_def)
  next
    case 3
    then show ?thesis
      using ok [of _ 58 "[PM4_TYPE3_HEADER PM4_IT_EVENT_WRITE_EOP 4 0 0,
          (reg_at m fp 5 AND 0x3f) + 0x500 + (reg_at m fp 6 AND 0x3f) * 0x1000, reg_at m fp 2 AND 0xfffffffc,
          (reg_at m fp 3 AND 0xffff) OR 0x22000000, reg_at m fp 4, 0]" 51] assms(1)
      by (simp add: flip_tail_def ty_def Let_def)
  next
    case 4
    then show ?thesis
      using ok [of _ 58 "[PM4_TYPE3_HEADER PM4_IT_EVENT_WRITE_EOP 4 0 0,
          (reg_at m fp 5 AND 0x3f) + 0x500 + (reg_at m fp 6 AND 0x3f) * 0x1000, 0, 0x01000000, 0, 0]" 51] assms(1)
      by (simp add: flip_tail_def ty_def Let_def)
  next
    case 5
    have "pm4_ok (rd_words m fp (Suc 63))"
      by (rule pm4_first [of "0xc03e1000"]) (use assms(2) in \<open>simp_all add: pm4_type_def pm4_body_def reg_at_def\<close>)
    then show ?thesis using 5 by (simp add: flip_tail_def ty_def Let_def)
  qed
qed


definition ex_dcb :: "u32 list" where
  "ex_dcb = [0xabcdef12, 0x2000, 0, 7] @ replicate 16 0"

definition ex_dcb_mem :: guest_mem where
  "ex_dcb_mem = put_words 0 0x1000 (map W ex_dcb) \<lparr>mem_mapped = True, mem_size = 0x10000, mem_bytes = (\<lambda>_. 0)\<rparr>"


end
