(* ===== verification/GnmShims.thy ===== *)
theory GnmShims
  imports GnmFlip GnmQueues VmExtents
begin

text \<open>
  The guest calls of the graphics driver: arguments from registers, guest memory and the stack,
  the result in \<open>rax\<close>. A signed result code is sign-extended, a count is not. A stack argument
  whose address is outside guest memory is a null dereference of the C code: the call is \<open>None\<close>.
\<close>

section \<open>Arguments and results\<close>

abbreviation (input) gp :: "u64 \<Rightarrow> guest_mem \<Rightarrow> u64 \<Rightarrow> hptr" where
  "gp \<equiv> recomp_guest_to_host"

type_synonym cmd_shim = "u64 \<Rightarrow> guest_ctx \<Rightarrow> guest_mem \<Rightarrow> guest_ctx \<times> guest_mem"

definition cmd_ret :: "guest_ctx \<Rightarrow> cmd_result \<Rightarrow> guest_ctx \<times> guest_mem" where
  "cmd_ret c r = (ret_rc c (snd r), fst r)"

definition init_ret :: "guest_ctx \<Rightarrow> guest_mem \<times> u32 \<Rightarrow> guest_ctx \<times> guest_mem" where
  "init_ret c r = (ret_rax c (ucast (snd r)), fst r)"

definition stack32 :: "u64 \<Rightarrow> guest_mem \<Rightarrow> guest_ctx \<Rightarrow> u64 \<Rightarrow> u32 option" where
  "stack32 base m c offs =
     (if rsp c = 0 \<or> \<not> mem_mapped m then Some 0 else map_option (rd_u32 m) (gp base m (rsp c + offs)))"

definition stack64 :: "u64 \<Rightarrow> guest_mem \<Rightarrow> guest_ctx \<Rightarrow> u64 \<Rightarrow> u64 option" where
  "stack64 base m c offs =
     (if rsp c = 0 \<or> \<not> mem_mapped m then Some 0 else map_option (rd_u64 m) (gp base m (rsp c + offs)))"

definition opt_name :: "guest_mem \<Rightarrow> hptr \<Rightarrow> string option" where
  "opt_name m p = map_option (\<lambda>a. rd_str m a (unat (mem_size m - a))) p"

definition opt_store :: "guest_mem \<Rightarrow> hptr \<Rightarrow> u8 list \<Rightarrow> guest_mem" where
  "opt_store m p bs = (case p of None \<Rightarrow> m | Some a \<Rightarrow> wr_bytes m a bs)"

section \<open>Start and end of the driver\<close>

text \<open>
  The initialisation keeps its tables when it runs again and allocates the ring of the
  tessellation factors once, as long as its address is 0. \<open>vm\<close> is the guest's address space.
\<close>

record gnm_driver =
  gd_initialized :: bool
  gd_tess_ring :: u64
  gd_tab :: gnm_tab
  gd_vm :: vm

abbreviation (input) GNM_TESSELLATION_RING_SIZE :: u64 where "GNM_TESSELLATION_RING_SIZE \<equiv> 0x800000"

definition ps4_gnmdriver_init :: "bool \<Rightarrow> bool \<Rightarrow> gnm_driver \<Rightarrow> gnm_driver" where
  "ps4_gnmdriver_init pre_ok suf_ok g =
     (let g1 = (if gd_initialized g then g else g\<lparr>gd_tab := gnm_tab0, gd_initialized := True\<rparr>)
      in if gd_tess_ring g1 = 0 then
           let (a, v) = recomp_vm_alloc_named_aligned pre_ok suf_ok (gd_vm g1) GNM_TESSELLATION_RING_SIZE 0x10000 3 0
                          (Some ''gnm_tess_ring'')
           in g1\<lparr>gd_tess_ring := a, gd_vm := v\<rparr>
         else g1)"

definition ps4_gnmdriver_destroy :: "gnm_driver \<Rightarrow> gnm_driver" where
  "ps4_gnmdriver_destroy g = g\<lparr>gd_tab := gnm_tab0, gd_tess_ring := 0, gd_initialized := False\<rparr>"

definition sceGnmGetTheTessellationFactorRingBufferBaseAddress :: "gnm_driver \<Rightarrow> u64" where
  "sceGnmGetTheTessellationFactorRingBufferBaseAddress g = gd_tess_ring g"

definition shim_sceGnmGetTheTessellationFactorRingBufferBaseAddress ::
    "bool \<Rightarrow> bool \<Rightarrow> guest_ctx \<Rightarrow> gnm_driver \<Rightarrow> guest_ctx \<times> gnm_driver" where
  "shim_sceGnmGetTheTessellationFactorRingBufferBaseAddress pre_ok suf_ok c g =
     (let g1 = (if gd_tess_ring g = 0 then ps4_gnmdriver_init pre_ok suf_ok g else g)
      in (ret_rax c (sceGnmGetTheTessellationFactorRingBufferBaseAddress g1), g1))"

section \<open>Command buffers\<close>

definition shim_sceGnmDrawInitDefaultHardwareState :: cmd_shim where
  "shim_sceGnmDrawInitDefaultHardwareState base c m =
     init_ret c (sceGnmDrawInitDefaultHardwareState m (gp base m (rdi c)) (ucast (rsi c)))"

definition shim_sceGnmDrawInitDefaultHardwareState175 :: cmd_shim where
  "shim_sceGnmDrawInitDefaultHardwareState175 base c m =
     init_ret c (sceGnmDrawInitDefaultHardwareState175 m (gp base m (rdi c)) (ucast (rsi c)))"

definition shim_sceGnmDrawInitDefaultHardwareState200 :: cmd_shim where
  "shim_sceGnmDrawInitDefaultHardwareState200 base c m =
     init_ret c (sceGnmDrawInitDefaultHardwareState200 m (gp base m (rdi c)) (ucast (rsi c)))"

definition shim_sceGnmDrawInitDefaultHardwareState350 :: cmd_shim where
  "shim_sceGnmDrawInitDefaultHardwareState350 base c m =
     init_ret c (sceGnmDrawInitDefaultHardwareState350 m (gp base m (rdi c)) (ucast (rsi c)))"

definition shim_sceGnmDrawInitToDefaultContextState :: cmd_shim where
  "shim_sceGnmDrawInitToDefaultContextState base c m =
     init_ret c (sceGnmDrawInitToDefaultContextState m (gp base m (rdi c)) (ucast (rsi c)))"

definition shim_sceGnmDrawInitToDefaultContextState400 :: cmd_shim where
  "shim_sceGnmDrawInitToDefaultContextState400 base c m =
     init_ret c (sceGnmDrawInitToDefaultContextState400 m (gp base m (rdi c)) (ucast (rsi c)))"

definition shim_sceGnmDispatchInitDefaultHardwareState :: cmd_shim where
  "shim_sceGnmDispatchInitDefaultHardwareState base c m =
     init_ret c (sceGnmDispatchInitDefaultHardwareState m (gp base m (rdi c)) (ucast (rsi c)))"

definition shim_sceGnmResetVgtControl :: cmd_shim where
  "shim_sceGnmResetVgtControl base c m = cmd_ret c (sceGnmResetVgtControl m (gp base m (rdi c)) (ucast (rsi c)))"

definition shim_sceGnmSetVgtControl :: cmd_shim where
  "shim_sceGnmSetVgtControl base c m =
     cmd_ret c (sceGnmSetVgtControl m (gp base m (rdi c)) (ucast (rsi c)) (ucast (rdx c)))"

definition shim_sceGnmSetGsRingSizes :: cmd_shim where
  "shim_sceGnmSetGsRingSizes base c m =
     cmd_ret c (sceGnmSetGsRingSizes m (gp base m (rdi c)) (ucast (rsi c)) (ucast (rdx c)))"

definition shim_sceGnmSetWaveLimitMultipliers :: cmd_shim where
  "shim_sceGnmSetWaveLimitMultipliers base c m =
     cmd_ret c (sceGnmSetWaveLimitMultipliers m (gp base m (rdi c)) (ucast (rsi c)) (ucast (rdx c)))"

definition shim_sceGnmInsertDingDongMarker :: cmd_shim where
  "shim_sceGnmInsertDingDongMarker base c m =
     cmd_ret c (sceGnmInsertDingDongMarker m (gp base m (rdi c)) (ucast (rsi c)))"

definition shim_sceGnmInsertPopMarker :: cmd_shim where
  "shim_sceGnmInsertPopMarker base c m = cmd_ret c (sceGnmInsertPopMarker m (gp base m (rdi c)) (ucast (rsi c)))"

definition shim_sceGnmInsertPushMarker :: cmd_shim where
  "shim_sceGnmInsertPushMarker base c m =
     cmd_ret c (sceGnmInsertPushMarker m (gp base m (rdi c)) (ucast (rsi c)) (gp base m (rdx c)))"

definition shim_sceGnmInsertPushColorMarker :: cmd_shim where
  "shim_sceGnmInsertPushColorMarker base c m =
     cmd_ret c (sceGnmInsertPushColorMarker m (gp base m (rdi c)) (ucast (rsi c)) (gp base m (rdx c)) (ucast (rcx c)))"

definition shim_sceGnmInsertSetMarker :: cmd_shim where
  "shim_sceGnmInsertSetMarker base c m =
     cmd_ret c (sceGnmInsertSetMarker m (gp base m (rdi c)) (ucast (rsi c)) (gp base m (rdx c)))"

definition shim_sceGnmInsertWaitFlipDone :: "(i32 \<Rightarrow> i32 \<times> u64) \<Rightarrow> cmd_shim" where
  "shim_sceGnmInsertWaitFlipDone labels base c m =
     cmd_ret c (sceGnmInsertWaitFlipDone labels m (gp base m (rdi c)) (ucast (rsi c)) (ucast (rdx c)) (ucast (rcx c)))"

definition shim_sceGnmComputeWaitOnAddress :: cmd_shim where
  "shim_sceGnmComputeWaitOnAddress base c m =
     cmd_ret c (sceGnmComputeWaitOnAddress m (gp base m (rdi c)) (ucast (rsi c)) (rdx c) (ucast (rcx c)) (ucast (r8 c)) (ucast (r9 c)))"

definition shim_sceGnmDrawIndex :: cmd_shim where
  "shim_sceGnmDrawIndex base c m =
     cmd_ret c (sceGnmDrawIndex m (gp base m (rdi c)) (ucast (rsi c)) (ucast (rdx c)) (rcx c) (ucast (r8 c)) (ucast (r9 c)))"

definition shim_sceGnmDrawIndexAuto :: cmd_shim where
  "shim_sceGnmDrawIndexAuto base c m =
     cmd_ret c (sceGnmDrawIndexAuto m (gp base m (rdi c)) (ucast (rsi c)) (ucast (rdx c)) (ucast (rcx c)))"

definition shim_sceGnmDrawIndexOffset :: cmd_shim where
  "shim_sceGnmDrawIndexOffset base c m =
     cmd_ret c (sceGnmDrawIndexOffset m (gp base m (rdi c)) (ucast (rsi c)) (ucast (rdx c)) (ucast (rcx c)) (ucast (r8 c)))"

definition shim_sceGnmDispatchDirect :: cmd_shim where
  "shim_sceGnmDispatchDirect base c m =
     cmd_ret c (sceGnmDispatchDirect m (gp base m (rdi c)) (ucast (rsi c)) (ucast (rdx c)) (ucast (rcx c)) (ucast (r8 c)) (ucast (r9 c)))"

definition shim_sceGnmDispatchIndirect :: cmd_shim where
  "shim_sceGnmDispatchIndirect base c m =
     cmd_ret c (sceGnmDispatchIndirect m (gp base m (rdi c)) (ucast (rsi c)) (ucast (rdx c)) (ucast (rcx c)))"

definition shim_sceGnmDispatchIndirectOnMec :: cmd_shim where
  "shim_sceGnmDispatchIndirectOnMec base c m =
     cmd_ret c (sceGnmDispatchIndirectOnMec m (gp base m (rdi c)) (ucast (rsi c)) (rdx c) (ucast (rcx c)))"

definition shim_sceGnmSetVsShader :: cmd_shim where
  "shim_sceGnmSetVsShader base c m =
     cmd_ret c (sceGnmSetVsShader m (gp base m (rdi c)) (ucast (rsi c)) (gp base m (rdx c)) (ucast (rcx c)))"

definition shim_sceGnmUpdateVsShader :: cmd_shim where
  "shim_sceGnmUpdateVsShader base c m =
     cmd_ret c (sceGnmUpdateVsShader m (gp base m (rdi c)) (ucast (rsi c)) (gp base m (rdx c)) (ucast (rcx c)))"

definition shim_sceGnmSetEmbeddedVsShader :: cmd_shim where
  "shim_sceGnmSetEmbeddedVsShader base c m =
     cmd_ret c (sceGnmSetEmbeddedVsShader m (gp base m (rdi c)) (ucast (rsi c)) (ucast (rdx c)) (ucast (rcx c)))"

definition shim_sceGnmSetPsShader :: cmd_shim where
  "shim_sceGnmSetPsShader base c m =
     cmd_ret c (sceGnmSetPsShader m (gp base m (rdi c)) (ucast (rsi c)) (gp base m (rdx c)))"

definition shim_sceGnmSetPsShader350 :: cmd_shim where
  "shim_sceGnmSetPsShader350 base c m =
     cmd_ret c (sceGnmSetPsShader350 m (gp base m (rdi c)) (ucast (rsi c)) (gp base m (rdx c)))"

definition shim_sceGnmUpdatePsShader :: cmd_shim where
  "shim_sceGnmUpdatePsShader base c m =
     cmd_ret c (sceGnmUpdatePsShader m (gp base m (rdi c)) (ucast (rsi c)) (gp base m (rdx c)))"

definition shim_sceGnmUpdatePsShader350 :: cmd_shim where
  "shim_sceGnmUpdatePsShader350 base c m =
     cmd_ret c (sceGnmUpdatePsShader350 m (gp base m (rdi c)) (ucast (rsi c)) (gp base m (rdx c)))"

definition shim_sceGnmSetEmbeddedPsShader :: cmd_shim where
  "shim_sceGnmSetEmbeddedPsShader base c m =
     cmd_ret c (sceGnmSetEmbeddedPsShader m (gp base m (rdi c)) (ucast (rsi c)) (ucast (rdx c)) (ucast (rcx c)))"

definition shim_sceGnmSetGsShader :: cmd_shim where
  "shim_sceGnmSetGsShader base c m =
     cmd_ret c (sceGnmSetGsShader m (gp base m (rdi c)) (ucast (rsi c)) (gp base m (rdx c)))"

definition shim_sceGnmUpdateGsShader :: cmd_shim where
  "shim_sceGnmUpdateGsShader base c m =
     cmd_ret c (sceGnmUpdateGsShader m (gp base m (rdi c)) (ucast (rsi c)) (gp base m (rdx c)))"

definition shim_sceGnmSetHsShader :: cmd_shim where
  "shim_sceGnmSetHsShader base c m =
     cmd_ret c (sceGnmSetHsShader m (gp base m (rdi c)) (ucast (rsi c)) (gp base m (rdx c)) (ucast (rcx c)))"

definition shim_sceGnmUpdateHsShader :: cmd_shim where
  "shim_sceGnmUpdateHsShader base c m =
     cmd_ret c (sceGnmUpdateHsShader m (gp base m (rdi c)) (ucast (rsi c)) (gp base m (rdx c)) (ucast (rcx c)))"

definition shim_sceGnmSetEsShader :: cmd_shim where
  "shim_sceGnmSetEsShader base c m =
     cmd_ret c (sceGnmSetEsShader m (gp base m (rdi c)) (ucast (rsi c)) (gp base m (rdx c)) (ucast (rcx c)))"

definition shim_sceGnmSetLsShader :: cmd_shim where
  "shim_sceGnmSetLsShader base c m =
     cmd_ret c (sceGnmSetLsShader m (gp base m (rdi c)) (ucast (rsi c)) (gp base m (rdx c)) (ucast (rcx c)))"

definition shim_sceGnmSetCsShader :: cmd_shim where
  "shim_sceGnmSetCsShader base c m =
     cmd_ret c (sceGnmSetCsShader m (gp base m (rdi c)) (ucast (rsi c)) (gp base m (rdx c)))"

definition shim_sceGnmSetCsShaderWithModifier :: cmd_shim where
  "shim_sceGnmSetCsShaderWithModifier base c m =
     cmd_ret c (sceGnmSetCsShaderWithModifier m (gp base m (rdi c)) (ucast (rsi c)) (gp base m (rdx c)) (ucast (rcx c)))"

definition shim_sceGnmPrepareFlip :: cmd_shim where
  "shim_sceGnmPrepareFlip base c m = cmd_ret c (sceGnmPrepareFlip m (gp base m (rdi c)) (rsi c) (ucast (rdx c)))"

definition shim_sceGnmPrepareFlipWithEopInterrupt :: cmd_shim where
  "shim_sceGnmPrepareFlipWithEopInterrupt base c m =
     cmd_ret c (sceGnmPrepareFlipWithEopInterrupt m (gp base m (rdi c)) (rsi c) (ucast (rdx c)) (ucast (rcx c)) (ucast (r8 c)))"

definition shim_sceGnmPrepareFlipWithEopInterruptRequeued :: cmd_shim where
  "shim_sceGnmPrepareFlipWithEopInterruptRequeued base c m =
     cmd_ret c (sceGnmPrepareFlipWithEopInterruptRequeued m (gp base m (rdi c)) (rsi c) (ucast (rdx c)) (ucast (rcx c)) (ucast (r8 c)))"

text \<open>Calls with arguments on the stack.\<close>

definition shim_sceGnmDrawIndexIndirect ::
    "u64 \<Rightarrow> guest_ctx \<Rightarrow> guest_mem \<Rightarrow> (guest_ctx \<times> guest_mem) option" where
  "shim_sceGnmDrawIndexIndirect base c m =
     do { flags \<leftarrow> stack32 base m c 8;
          Some (cmd_ret c (sceGnmDrawIndexIndirect m (gp base m (rdi c)) (ucast (rsi c)) (ucast (rdx c)) (ucast (rcx c)) (ucast (r8 c)) (ucast (r9 c)) flags)) }"

definition shim_sceGnmDrawIndirect ::
    "u64 \<Rightarrow> guest_ctx \<Rightarrow> guest_mem \<Rightarrow> (guest_ctx \<times> guest_mem) option" where
  "shim_sceGnmDrawIndirect base c m =
     do { flags \<leftarrow> stack32 base m c 8;
          Some (cmd_ret c (sceGnmDrawIndirect m (gp base m (rdi c)) (ucast (rsi c)) (ucast (rdx c)) (ucast (rcx c)) (ucast (r8 c)) (ucast (r9 c)) flags)) }"

definition shim_sceGnmDrawIndexIndirectCountMulti ::
    "u64 \<Rightarrow> guest_ctx \<Rightarrow> guest_mem \<Rightarrow> (guest_ctx \<times> guest_mem) option" where
  "shim_sceGnmDrawIndexIndirectCountMulti base c m =
     do { vertex_sgpr \<leftarrow> stack32 base m c 8; instance_sgpr \<leftarrow> stack32 base m c 16; flags \<leftarrow> stack32 base m c 24;
          Some (cmd_ret c (sceGnmDrawIndexIndirectCountMulti m (gp base m (rdi c)) (ucast (rsi c)) (ucast (rdx c)) (ucast (rcx c)) (r8 c) (ucast (r9 c)) vertex_sgpr instance_sgpr flags)) }"

definition shim_sceGnmDrawIndexIndirectMulti ::
    "u64 \<Rightarrow> guest_ctx \<Rightarrow> guest_mem \<Rightarrow> (guest_ctx \<times> guest_mem) option" where
  "shim_sceGnmDrawIndexIndirectMulti base c m =
     do { instance_sgpr \<leftarrow> stack32 base m c 8; flags \<leftarrow> stack32 base m c 16;
          Some (cmd_ret c (sceGnmDrawIndexIndirectMulti m (gp base m (rdi c)) (ucast (rsi c)) (ucast (rdx c)) (ucast (rcx c)) (ucast (r8 c)) (ucast (r9 c)) instance_sgpr flags)) }"

definition shim_sceGnmDrawIndirectMulti ::
    "u64 \<Rightarrow> guest_ctx \<Rightarrow> guest_mem \<Rightarrow> (guest_ctx \<times> guest_mem) option" where
  "shim_sceGnmDrawIndirectMulti base c m =
     do { instance_sgpr \<leftarrow> stack32 base m c 8; flags \<leftarrow> stack32 base m c 16;
          Some (cmd_ret c (sceGnmDrawIndirectMulti m (gp base m (rdi c)) (ucast (rsi c)) (ucast (rdx c)) (ucast (rcx c)) (ucast (r8 c)) (ucast (r9 c)) instance_sgpr flags)) }"

section \<open>Constant answers\<close>

definition shim_sceGnmGetOffChipTessellationBufferSize :: "guest_ctx \<Rightarrow> guest_ctx" where
  "shim_sceGnmGetOffChipTessellationBufferSize c = ret_rc c sceGnmGetOffChipTessellationBufferSize"

definition shim_sceGnmGetGpuCoreClockFrequency :: "guest_ctx \<Rightarrow> guest_ctx" where
  "shim_sceGnmGetGpuCoreClockFrequency c = ret_rax c (ucast sceGnmGetGpuCoreClockFrequency)"

definition shim_sceGnmAreSubmitsAllowed :: "guest_ctx \<Rightarrow> guest_ctx" where
  "shim_sceGnmAreSubmitsAllowed c = ret_rc c sceGnmAreSubmitsAllowed"

definition shim_sceGnmGetNumTcaUnits :: "guest_ctx \<Rightarrow> guest_ctx" where
  "shim_sceGnmGetNumTcaUnits c = ret_rc c sceGnmGetNumTcaUnits"

definition shim_sceGnmGetShaderStatus :: "guest_ctx \<Rightarrow> guest_ctx" where
  "shim_sceGnmGetShaderStatus c = ret_rc c sceGnmGetShaderStatus"

definition shim_sceGnmGetProtectionFaultTimeStamp :: "guest_ctx \<Rightarrow> guest_ctx" where
  "shim_sceGnmGetProtectionFaultTimeStamp c = ret_rax c (ucast sceGnmGetProtectionFaultTimeStamp)"

definition shim_sceGnmGetEqTimeStamp :: "guest_ctx \<Rightarrow> guest_ctx" where
  "shim_sceGnmGetEqTimeStamp c = ret_rc c sceGnmGetEqTimeStamp"

definition shim_sceGnmGetGpuBlockStatus :: "guest_ctx \<Rightarrow> guest_ctx" where
  "shim_sceGnmGetGpuBlockStatus c = ret_rc c sceGnmGetGpuBlockStatus"

definition shim_sceGnmGetGpuInfoStatus :: "guest_ctx \<Rightarrow> guest_ctx" where
  "shim_sceGnmGetGpuInfoStatus c = ret_rc c sceGnmGetGpuInfoStatus"

definition shim_sceGnmGetPhysicalCounterFromVirtualized :: "guest_ctx \<Rightarrow> guest_ctx" where
  "shim_sceGnmGetPhysicalCounterFromVirtualized c = ret_rc c sceGnmGetPhysicalCounterFromVirtualized"

definition shim_sceGnmInsertSetColorMarker :: "guest_ctx \<Rightarrow> guest_ctx" where
  "shim_sceGnmInsertSetColorMarker c = ret_rc c sceGnmInsertSetColorMarker"

definition shim_sceGnmInsertThreadTraceMarker :: "guest_ctx \<Rightarrow> guest_ctx" where
  "shim_sceGnmInsertThreadTraceMarker c = ret_rc c sceGnmInsertThreadTraceMarker"

definition shim_sceGnmFindResourcesPublic :: "guest_ctx \<Rightarrow> guest_ctx" where
  "shim_sceGnmFindResourcesPublic c = ret_rc c sceGnmFindResourcesPublic"

definition shim_sceGnmRegisterGdsResource :: "guest_ctx \<Rightarrow> guest_ctx" where
  "shim_sceGnmRegisterGdsResource c = ret_rc c sceGnmRegisterGdsResource"

definition shim_sceGnmDestroyWorkloadStream :: "guest_ctx \<Rightarrow> guest_ctx" where
  "shim_sceGnmDestroyWorkloadStream c = ret_rc c sceGnmDestroyWorkloadStream"

definition shim_sceGnmComputeWaitSemaphore :: "guest_ctx \<Rightarrow> guest_ctx" where
  "shim_sceGnmComputeWaitSemaphore c = ret_rc c sceGnmComputeWaitSemaphore"

definition shim_sceGnmGetLastWaitedAddress :: "guest_ctx \<Rightarrow> guest_ctx" where
  "shim_sceGnmGetLastWaitedAddress c = ret_rc c sceGnmGetLastWaitedAddress"

definition shim_sceGnmValidateGetVersion :: "guest_ctx \<Rightarrow> guest_ctx" where
  "shim_sceGnmValidateGetVersion c = ret_rc c sceGnmValidateGetVersion"

definition shim_sceGnmValidateOnSubmitEnabled :: "guest_ctx \<Rightarrow> guest_ctx" where
  "shim_sceGnmValidateOnSubmitEnabled c = ret_rax c (if sceGnmValidateOnSubmitEnabled then 1 else 0)"

definition shim_sceGnmValidateGetDiagnosticInfo :: "guest_ctx \<Rightarrow> guest_ctx" where
  "shim_sceGnmValidateGetDiagnosticInfo c = ret_rc c sceGnmValidateGetDiagnosticInfo"

definition shim_sceGnmValidateGetDiagnostics :: "guest_ctx \<Rightarrow> guest_ctx" where
  "shim_sceGnmValidateGetDiagnostics c = ret_rc c sceGnmValidateGetDiagnostics"

definition shim_sceGnmValidateResetState :: "guest_ctx \<Rightarrow> guest_ctx" where
  "shim_sceGnmValidateResetState c = ret_rc c sceGnmValidateResetState"

definition shim_sceGnmValidateDisableDiagnostics :: "guest_ctx \<Rightarrow> guest_ctx" where
  "shim_sceGnmValidateDisableDiagnostics c = ret_rc c sceGnmValidateDisableDiagnostics"

definition shim_sceGnmValidateDisableDiagnostics2 :: "guest_ctx \<Rightarrow> guest_ctx" where
  "shim_sceGnmValidateDisableDiagnostics2 c = ret_rc c sceGnmValidateDisableDiagnostics2"

definition shim_sceGnmValidateDrawCommandBuffers :: "guest_ctx \<Rightarrow> guest_ctx" where
  "shim_sceGnmValidateDrawCommandBuffers c = ret_rc c sceGnmValidateDrawCommandBuffers"

definition shim_sceGnmValidateDispatchCommandBuffers :: "guest_ctx \<Rightarrow> guest_ctx" where
  "shim_sceGnmValidateDispatchCommandBuffers c = ret_rc c sceGnmValidateDispatchCommandBuffers"

definition shim_sceGnmValidationRegisterMemoryCheckCallback :: "guest_ctx \<Rightarrow> guest_ctx" where
  "shim_sceGnmValidationRegisterMemoryCheckCallback c = ret_rc c sceGnmValidationRegisterMemoryCheckCallback"

definition shim_sceRazorIsLoaded :: "guest_ctx \<Rightarrow> guest_ctx" where
  "shim_sceRazorIsLoaded c = ret_rc c sceRazorIsLoaded"

definition shim_sceRazorCaptureImmediate :: "guest_ctx \<Rightarrow> guest_ctx" where
  "shim_sceRazorCaptureImmediate c = ret_rc c sceRazorCaptureImmediate"

definition shim_sceRazorCaptureSinceLastFlip :: "guest_ctx \<Rightarrow> guest_ctx" where
  "shim_sceRazorCaptureSinceLastFlip c = ret_rc c sceRazorCaptureSinceLastFlip"

definition shim_sceRazorCaptureCommandBuffersOnlyImmediate :: "guest_ctx \<Rightarrow> guest_ctx" where
  "shim_sceRazorCaptureCommandBuffersOnlyImmediate c = ret_rc c sceRazorCaptureCommandBuffersOnlyImmediate"

definition shim_sceRazorCaptureCommandBuffersOnlySinceLastFlip :: "guest_ctx \<Rightarrow> guest_ctx" where
  "shim_sceRazorCaptureCommandBuffersOnlySinceLastFlip c = ret_rc c sceRazorCaptureCommandBuffersOnlySinceLastFlip"

definition shim_sceRazorCpuJobManagerSequence :: "guest_ctx \<Rightarrow> guest_ctx" where
  "shim_sceRazorCpuJobManagerSequence c = ret_rc c sceRazorCpuJobManagerSequence"

definition shim_sceRazorCpuJobManagerJob :: "guest_ctx \<Rightarrow> guest_ctx" where
  "shim_sceRazorCpuJobManagerJob c = ret_rc c sceRazorCpuJobManagerJob"

definition shim_sceRazorCpuJobManagerDispatch :: "guest_ctx \<Rightarrow> guest_ctx" where
  "shim_sceRazorCpuJobManagerDispatch c = ret_rc c sceRazorCpuJobManagerDispatch"

definition shim_sceGnmDriverTraceInProgress :: "guest_ctx \<Rightarrow> guest_ctx" where
  "shim_sceGnmDriverTraceInProgress c = ret_rax c (if sceGnmDriverTraceInProgress then 1 else 0)"

definition shim_sceGnmDriverCaptureInProgress :: "guest_ctx \<Rightarrow> guest_ctx" where
  "shim_sceGnmDriverCaptureInProgress c = ret_rax c (if sceGnmDriverCaptureInProgress then 1 else 0)"

definition shim_sceGnmDriverTriggerCapture :: "guest_ctx \<Rightarrow> guest_ctx" where
  "shim_sceGnmDriverTriggerCapture c = ret_rc c sceGnmDriverTriggerCapture"

definition shim_sceGnmIsUserPaEnabled :: "guest_ctx \<Rightarrow> guest_ctx" where
  "shim_sceGnmIsUserPaEnabled c = ret_rax c (if sceGnmIsUserPaEnabled then 1 else 0)"

definition shim_sceGnmDebugHardwareStatus :: "guest_ctx \<Rightarrow> guest_ctx" where
  "shim_sceGnmDebugHardwareStatus c = ret_rc c sceGnmDebugHardwareStatus"

definition shim_sceGnmSetupMipStatsReport :: "guest_ctx \<Rightarrow> guest_ctx" where
  "shim_sceGnmSetupMipStatsReport c = ret_rc c sceGnmSetupMipStatsReport"

definition shim_sceGnmDisableMipStatsReport :: "guest_ctx \<Rightarrow> guest_ctx" where
  "shim_sceGnmDisableMipStatsReport c = ret_rc c sceGnmDisableMipStatsReport"

definition shim_sceGnmRequestMipStatsReportAndReset :: "guest_ctx \<Rightarrow> guest_ctx" where
  "shim_sceGnmRequestMipStatsReportAndReset c = ret_rc c sceGnmRequestMipStatsReportAndReset"

definition shim_sceGnmDrawIndirectCountMulti :: "guest_ctx \<Rightarrow> guest_ctx" where
  "shim_sceGnmDrawIndirectCountMulti c = ret_rc c sceGnmDrawIndirectCountMulti"

definition shim_sceGnmDrawIndexMultiInstanced :: "guest_ctx \<Rightarrow> guest_ctx" where
  "shim_sceGnmDrawIndexMultiInstanced c = ret_rc c sceGnmDrawIndexMultiInstanced"

definition shim_sceGnmDrawOpaqueAuto :: "guest_ctx \<Rightarrow> guest_ctx" where
  "shim_sceGnmDrawOpaqueAuto c = ret_rc c sceGnmDrawOpaqueAuto"

definition shim_sceGnmGetShaderProgramBaseAddress :: "guest_ctx \<Rightarrow> guest_ctx" where
  "shim_sceGnmGetShaderProgramBaseAddress c = ret_rc c sceGnmGetShaderProgramBaseAddress"

definition shim_sceGnmLogicalTcaUnitToPhysical :: "guest_ctx \<Rightarrow> guest_ctx" where
  "shim_sceGnmLogicalTcaUnitToPhysical c = ret_rc c (sceGnmLogicalTcaUnitToPhysical (ucast (rdi c)))"

definition shim_sceGnmLogicalCuIndexToPhysicalCuIndex :: "guest_ctx \<Rightarrow> guest_ctx" where
  "shim_sceGnmLogicalCuIndexToPhysicalCuIndex c = ret_rc c (sceGnmLogicalCuIndexToPhysicalCuIndex (ucast (rdi c)))"

definition shim_sceGnmLogicalCuMaskToPhysicalCuMask :: "guest_ctx \<Rightarrow> guest_ctx" where
  "shim_sceGnmLogicalCuMaskToPhysicalCuMask c =
     ret_rc c (sceGnmLogicalCuMaskToPhysicalCuMask (rdi c) (ucast (rsi c)))"

text \<open>The fence of \<open>sceGnmFlushGarlic\<close> has no effect on the state; \<open>rax\<close> is kept.\<close>

definition shim_sceGnmFlushGarlic :: "guest_ctx \<Rightarrow> guest_ctx" where
  "shim_sceGnmFlushGarlic c = shim_return c"

definition shim_sceGnmRegisterOwnerForSystem :: "guest_ctx \<Rightarrow> guest_ctx" where
  "shim_sceGnmRegisterOwnerForSystem c = ret_rax c 0x80010001"

definition shim_sceGnmValidateCommandBuffers :: "guest_ctx \<Rightarrow> guest_ctx" where
  "shim_sceGnmValidateCommandBuffers c = ret_rax c 0x80d11001"

definition shim_Func_4774D83BB4DDBF9A :: "guest_ctx \<Rightarrow> guest_ctx" where
  "shim_Func_4774D83BB4DDBF9A c = ret_rax c 0"

definition shim_Func_BADE7B4C199140DD :: "guest_ctx \<Rightarrow> guest_ctx" where
  "shim_Func_BADE7B4C199140DD c = ret_rax c 0"

definition shim_sceGnmQueryResourceRegistrationUserMemoryRequirements :: cmd_shim where
  "shim_sceGnmQueryResourceRegistrationUserMemoryRequirements base c m =
     (let (rc, v) = sceGnmQueryResourceRegistrationUserMemoryRequirements
      in (ret_rc c rc, opt_store m (gp base m (rdi c)) (le_bytes 8 v)))"

definition shim_sceGnmSetResourceRegistrationUserMemory :: "u64 \<Rightarrow> guest_ctx \<Rightarrow> guest_mem \<Rightarrow> guest_ctx" where
  "shim_sceGnmSetResourceRegistrationUserMemory base c m =
     ret_rc c (sceGnmSetResourceRegistrationUserMemory (gp base m (rdi c)) (rsi c))"

definition shim_sceGnmBeginWorkload :: cmd_shim where
  "shim_sceGnmBeginWorkload base c m =
     (let (rc, v) = sceGnmBeginWorkload (ucast (rdi c))
      in (ret_rc c rc, opt_store m (gp base m (rsi c)) (le_bytes 8 v)))"

definition shim_sceGnmEndWorkload :: "guest_ctx \<Rightarrow> guest_ctx" where
  "shim_sceGnmEndWorkload c = ret_rc c (sceGnmEndWorkload (rdi c))"

definition shim_sceGnmCreateWorkloadStream :: cmd_shim where
  "shim_sceGnmCreateWorkloadStream base c m =
     (let (rc, v) = sceGnmCreateWorkloadStream (rdi c)
      in (ret_rc c rc, opt_store m (gp base m (rsi c)) (le_bytes 4 v)))"

section \<open>Owners and resources\<close>

type_synonym tab_shim = "u64 \<Rightarrow> guest_mem \<Rightarrow> guest_ctx \<Rightarrow> gnm_tab \<Rightarrow> guest_ctx \<times> gnm_tab"

definition tab_ret :: "guest_ctx \<Rightarrow> i32 \<times> gnm_tab \<Rightarrow> guest_ctx \<times> gnm_tab" where
  "tab_ret c r = (ret_rc c (fst r), snd r)"

text \<open>A getter stores its value only when it succeeds.\<close>

definition get_ret :: "guest_ctx \<Rightarrow> guest_mem \<Rightarrow> hptr \<Rightarrow> ('a \<Rightarrow> u8 list) \<Rightarrow> i32 + 'a \<Rightarrow> guest_ctx \<times> guest_mem" where
  "get_ret c m p f r =
     (case r of Inl rc \<Rightarrow> (ret_rc c rc, m) | Inr v \<Rightarrow> (ret_rc c 0, opt_store m p (f v)))"

definition shim_sceGnmRegisterOwner :: tab_shim where
  "shim_sceGnmRegisterOwner base m c t =
     tab_ret c (sceGnmRegisterOwner t (gp base m (rdi c)) (opt_name m (gp base m (rsi c))))"

definition shim_sceGnmRegisterResource ::
    "u64 \<Rightarrow> guest_mem \<Rightarrow> guest_ctx \<Rightarrow> gnm_tab \<Rightarrow> (guest_ctx \<times> gnm_tab) option" where
  "shim_sceGnmRegisterResource base m c t =
     do { user_data \<leftarrow> stack64 base m c 8;
          Some (tab_ret c (sceGnmRegisterResource t (gp base m (rdi c)) (gp base m (rsi c))
            (map_option (\<lambda>a. base + a) (gp base m (rdx c))) (rcx c) (opt_name m (gp base m (r8 c))) (ucast (r9 c))
            user_data)) }"

definition shim_sceGnmUnregisterResource :: tab_shim where
  "shim_sceGnmUnregisterResource base m c t = tab_ret c (sceGnmUnregisterResource t (gp base m (rdi c)))"

definition shim_sceGnmUnregisterOwnerAndResources :: tab_shim where
  "shim_sceGnmUnregisterOwnerAndResources base m c t =
     tab_ret c (sceGnmUnregisterOwnerAndResources t (gp base m (rdi c)))"

definition shim_sceGnmUnregisterAllResourcesForOwner :: tab_shim where
  "shim_sceGnmUnregisterAllResourcesForOwner base m c t =
     tab_ret c (sceGnmUnregisterAllResourcesForOwner t (gp base m (rdi c)))"

definition shim_sceGnmSetResourceUserData :: tab_shim where
  "shim_sceGnmSetResourceUserData base m c t =
     tab_ret c (sceGnmSetResourceUserData t (gp base m (rdi c)) (rsi c))"

definition shim_sceGnmGetResourceUserData :: "gnm_tab \<Rightarrow> cmd_shim" where
  "shim_sceGnmGetResourceUserData t base c m =
     (let p = gp base m (rsi c)
      in get_ret c m p (le_bytes 8) (sceGnmGetResourceUserData t (gp base m (rdi c)) (p = None)))"

text \<open>The address is stored before the size, and it is the host's; a NULL address is stored as 0.\<close>

definition shim_sceGnmGetResourceBaseAddressAndSizeInBytes :: "gnm_tab \<Rightarrow> cmd_shim" where
  "shim_sceGnmGetResourceBaseAddressAndSizeInBytes t base c m =
     (case sceGnmGetResourceBaseAddressAndSizeInBytes t (gp base m (rdi c)) of
        Inl rc \<Rightarrow> (ret_rc c rc, m)
      | Inr (a, sz) \<Rightarrow>
          (ret_rc c 0, opt_store (opt_store m (gp base m (rsi c)) (le_bytes 8 (case a of None \<Rightarrow> 0 | Some x \<Rightarrow> x)))
                         (gp base m (rdx c)) (le_bytes 8 sz)))"

definition shim_sceGnmGetResourceName :: "gnm_tab \<Rightarrow> cmd_shim" where
  "shim_sceGnmGetResourceName t base c m =
     (let p = gp base m (rsi c)
      in get_ret c m p id (sceGnmGetResourceName t (gp base m (rdi c)) (p = None) (rdx c)))"

definition shim_sceGnmGetResourceType :: "gnm_tab \<Rightarrow> cmd_shim" where
  "shim_sceGnmGetResourceType t base c m =
     (let p = gp base m (rsi c)
      in get_ret c m p (le_bytes 4) (sceGnmGetResourceType t (gp base m (rdi c)) (p = None)))"

definition shim_sceGnmGetOwnerName :: "gnm_tab \<Rightarrow> cmd_shim" where
  "shim_sceGnmGetOwnerName t base c m =
     (let p = gp base m (rsi c)
      in get_ret c m p id (sceGnmGetOwnerName t (gp base m (rdi c)) (p = None) (rdx c)))"

definition shim_sceGnmGetResourceShaderGuid :: "gnm_tab \<Rightarrow> cmd_shim" where
  "shim_sceGnmGetResourceShaderGuid t base c m =
     (let p = gp base m (rsi c)
      in get_ret c m p (le_bytes 8) (sceGnmGetResourceShaderGuid t (gp base m (rdi c)) (p = None)))"

section \<open>Compute queues and interrupts\<close>

definition shim_sceGnmDingDong ::
    "(span \<Rightarrow> bool) \<Rightarrow> guest_ctx \<Rightarrow> guest_mem \<times> cqueues \<Rightarrow> guest_ctx \<times> span list \<times> guest_mem \<times> cqueues" where
  "shim_sceGnmDingDong waits c st =
     (shim_return c, ps4_gnm_dingdong True waits (ucast (rdi c)) (ucast (rsi c)) st)"

definition shim_sceGnmDingDongForWorkload ::
    "(span \<Rightarrow> bool) \<Rightarrow> guest_ctx \<Rightarrow> guest_mem \<times> cqueues \<Rightarrow> guest_ctx \<times> span list \<times> guest_mem \<times> cqueues" where
  "shim_sceGnmDingDongForWorkload waits c st =
     (shim_return c, ps4_gnm_dingdong True waits (ucast (rdi c)) (ucast (rsi c)) st)"

definition shim_sceGnmMapComputeQueue ::
    "u64 \<Rightarrow> guest_ctx \<Rightarrow> guest_mem \<times> cqueues \<Rightarrow> guest_ctx \<times> guest_mem \<times> cqueues" where
  "shim_sceGnmMapComputeQueue base c st =
     (let (rc, st') = sceGnmMapComputeQueue base (ucast (rdi c)) (ucast (rsi c)) (rdx c) (ucast (rcx c))
                        (gp base (fst st) (r8 c)) st
      in (ret_rc c rc, st'))"

definition shim_sceGnmMapComputeQueueWithPriority ::
    "u64 \<Rightarrow> guest_ctx \<Rightarrow> guest_mem \<times> cqueues \<Rightarrow> guest_ctx \<times> guest_mem \<times> cqueues" where
  "shim_sceGnmMapComputeQueueWithPriority base c st =
     (let (rc, st') = sceGnmMapComputeQueueWithPriority base (ucast (rdi c)) (ucast (rsi c)) (rdx c) (ucast (rcx c))
                        (gp base (fst st) (r8 c)) (ucast (r9 c)) st
      in (ret_rc c rc, st'))"

definition shim_sceGnmUnmapComputeQueue :: "guest_ctx \<Rightarrow> cqueues \<Rightarrow> guest_ctx \<times> cqueues" where
  "shim_sceGnmUnmapComputeQueue c qs =
     (let (rc, qs') = sceGnmUnmapComputeQueue (ucast (rdi c)) qs in (ret_rc c rc, qs'))"

definition shim_sceGnmAddEqEvent :: "eq_tab \<Rightarrow> guest_ctx \<Rightarrow> gnm_eq_regs \<Rightarrow> guest_ctx \<times> gnm_eq_regs" where
  "shim_sceGnmAddEqEvent t c rs = (let (rc, rs') = sceGnmAddEqEvent t rs (rdi c) (rsi c) (rdx c) in (ret_rc c rc, rs'))"

definition shim_sceGnmDeleteEqEvent ::
    "guest_ctx \<Rightarrow> eq_tab \<times> gnm_eq_regs \<Rightarrow> guest_ctx \<times> eq_tab \<times> gnm_eq_regs" where
  "shim_sceGnmDeleteEqEvent c st =
     (let (rc, st') = sceGnmDeleteEqEvent (fst st) (snd st) (rdi c) (rsi c) in (ret_rc c rc, st'))"

definition shim_sceGnmGetEqEventType :: "u64 \<Rightarrow> guest_ctx \<Rightarrow> guest_mem \<Rightarrow> guest_ctx" where
  "shim_sceGnmGetEqEventType base c m = ret_rc c (sceGnmGetEqEventType m (gp base m (rdi c)))"

section \<open>Submission\<close>

text \<open>Raising the priority of the submitting host thread has no effect on the state.\<close>

type_synonym submit_shim = "gnm_host \<Rightarrow> u64 \<Rightarrow> guest_ctx \<Rightarrow> gnm_state \<Rightarrow> guest_ctx \<times> gnm_state"

definition sub_ret :: "guest_ctx \<Rightarrow> i32 \<times> gnm_state \<Rightarrow> guest_ctx \<times> gnm_state" where
  "sub_ret c r = (ret_rc c (fst r), snd r)"

definition shim_sceGnmSubmitCommandBuffers :: submit_shim where
  "shim_sceGnmSubmitCommandBuffers h base c st =
     (let a = gp base (gs_mem st)
      in sub_ret c (sceGnmSubmitCommandBuffers h (ucast (rdi c)) (a (rsi c)) (a (rdx c)) (a (rcx c)) (a (r8 c)) st))"

definition shim_sceGnmSubmitCommandBuffersForWorkload :: submit_shim where
  "shim_sceGnmSubmitCommandBuffersForWorkload h base c st =
     (let a = gp base (gs_mem st)
      in sub_ret c (sceGnmSubmitCommandBuffersForWorkload h (ucast (rdi c)) (ucast (rsi c)) (a (rdx c)) (a (rcx c))
           (a (r8 c)) (a (r9 c)) st))"

definition shim_sceGnmSubmitAndFlipCommandBuffers ::
    "gnm_host \<Rightarrow> u64 \<Rightarrow> gnm_eq_regs \<Rightarrow> guest_ctx \<Rightarrow> gnm_state \<Rightarrow> (guest_ctx \<times> gnm_state) option" where
  "shim_sceGnmSubmitAndFlipCommandBuffers h base rs c st =
     (let m = gs_mem st; a = gp base m in
      do { buf_idx \<leftarrow> stack32 base m c 8; flip_mode \<leftarrow> stack32 base m c 16; flip_arg \<leftarrow> stack64 base m c 24;
          Some (sub_ret c (sceGnmSubmitAndFlipCommandBuffers h base rs (ucast (rdi c)) (a (rsi c)) (a (rdx c))
            (a (rcx c)) (a (r8 c)) (ucast (r9 c)) buf_idx flip_mode flip_arg st)) })"

definition shim_sceGnmSubmitAndFlipCommandBuffersForWorkload ::
    "gnm_host \<Rightarrow> u64 \<Rightarrow> gnm_eq_regs \<Rightarrow> guest_ctx \<Rightarrow> gnm_state \<Rightarrow> (guest_ctx \<times> gnm_state) option" where
  "shim_sceGnmSubmitAndFlipCommandBuffersForWorkload h base rs c st =
     (let m = gs_mem st; a = gp base m in
      do { vo_handle \<leftarrow> stack32 base m c 8; buf_idx \<leftarrow> stack32 base m c 16; flip_mode \<leftarrow> stack32 base m c 24;
          flip_arg \<leftarrow> stack64 base m c 32;
          Some (sub_ret c (sceGnmSubmitAndFlipCommandBuffersForWorkload h base rs (ucast (rdi c)) (ucast (rsi c))
            (a (rdx c)) (a (rcx c)) (a (r8 c)) (a (r9 c)) vo_handle buf_idx flip_mode flip_arg st)) })"

definition shim_sceGnmSubmitDone :: "guest_ctx \<Rightarrow> gnm_state \<Rightarrow> guest_ctx \<times> gnm_state" where
  "shim_sceGnmSubmitDone c st = sub_ret c (sceGnmSubmitDone st)"

definition shim_sceGnmRequestFlipAndSubmitDone ::
    "gnm_host \<Rightarrow> (gnm_state \<Rightarrow> gnm_state) \<Rightarrow> u64 \<Rightarrow> gnm_eq_regs \<Rightarrow> guest_ctx \<Rightarrow> gnm_state \<Rightarrow> guest_ctx \<times> gnm_state" where
  "shim_sceGnmRequestFlipAndSubmitDone h init base rs c st =
     sub_ret c (sceGnmRequestFlipAndSubmitDone h init base rs (rdi c) (ucast (rsi c)) (ucast (rdx c)) (ucast (rcx c))
       (ucast (r8 c)) (r9 c) st)"

definition shim_sceGnmRequestFlipAndSubmitDoneForWorkload ::
    "gnm_host \<Rightarrow> (gnm_state \<Rightarrow> gnm_state) \<Rightarrow> u64 \<Rightarrow> gnm_eq_regs \<Rightarrow> guest_ctx \<Rightarrow> gnm_state
      \<Rightarrow> (guest_ctx \<times> gnm_state) option" where
  "shim_sceGnmRequestFlipAndSubmitDoneForWorkload h init base rs c st =
     do { flip_arg \<leftarrow> stack64 base (gs_mem st) c 8;
          Some (sub_ret c (sceGnmRequestFlipAndSubmitDoneForWorkload h init base rs (rdi c) (rsi c) (ucast (rdx c))
            (ucast (rcx c)) (ucast (r8 c)) (ucast (r9 c)) flip_arg st)) }"

section \<open>A failed allocation\<close>

text \<open>
  The allocator reports failure by the address -1, which the driver takes for the address of the
  ring: it is returned to the game, and the allocation is never tried again.
\<close>

lemma tess_ring_failure_kept:
  assumes "gd_tess_ring g = 0" and "fst (recomp_vm_alloc_named_aligned pre_ok suf_ok (gd_vm g) 0x800000 0x10000 3 0
      (Some ''gnm_tess_ring'')) = BAD_ADDR"
  shows "gd_tess_ring (ps4_gnmdriver_init pre_ok suf_ok g) = BAD_ADDR"
    and "gd_tess_ring (ps4_gnmdriver_init p q (ps4_gnmdriver_init pre_ok suf_ok g)) = BAD_ADDR"
  using assms by (simp_all add: ps4_gnmdriver_init_def Let_def case_prod_beta)

end
