(* ===== verification/Spec2Isabelle.thy ===== *)
theory Spec2Isabelle
  imports GuestFlags MemShimProps SyncObjects EventFlagProps SemaProps KsemProps EqueueProps RwLock RunOnce
    PresentProps SfoProps PakProps RtcText MemBudgetProps GpuWindows SettingsProps GameKey VfsProps GnmProps GnmQueueProps GnmTableProps GnmFlipProps GnmShims
begin

text \<open>
  \<^bold>\<open>Verification of the PS4Recomp runtime.\<close>

  PS4Recomp translates PS4 executables to C; the translated code runs on the runtime under
  \<open>src/pkg/runtime\<close>, which plays the part of the console's kernel and libraries. This
  development models that runtime's C code: the memory manager, the synchronisation objects, the
  event queues, and some of the libraries, as functions on explicit states, and proves what the
  callers rely on.

  \<^bold>\<open>Parts and interactions.\<close> Recompiled code holds its registers in a context (\<open>GuestMem\<close>,
  \<open>GuestFlags\<close>: \<open>core/recomp_context.h\<close>) and calls a kernel function through a shim, which takes
  arguments from registers and guest memory, runs the function and stores result and out values.
  Guest addresses are handed out by the virtual memory manager (\<open>core/recomp_runtime.c\<close>); the
  mapping API (\<open>kernel/memory/ps4_direct_mem.c\<close>) combines it with the blocks of physical
  memory and the list of aliases of physical memory. Synchronisation objects of the guest
  (\<open>kernel/sync\<close>, \<open>kernel/equeue\<close>) are either slots of fixed tables, named by a handle, or
  nodes hung into guest memory on first use. The frame queue connects the renderer and the
  presenter (\<open>modules/libSceVideoOut\<close>).

  \<^bold>\<open>Theories.\<close>
  \<^item> \<open>Prelude\<close>, \<open>Ranges\<close>: machine integers, rounding to powers of two, C strings, half-open
    address ranges. \<open>SlotTable\<close>: the contract of a table of slots with generation handles, a locale
    interpreted for the event flags and kernel semaphores. \<open>CParse\<close>: \<open>strtoull\<close> with a unit suffix
    (\<open>parse_mem_size_str\<close>).
  \<^item> \<open>GuestMem\<close>, \<open>GuestFlags\<close>: registers, byte-addressed guest memory, \<open>errno\<close>; the flag setters
    of the recompiled arithmetic, CRC32, the x87 stack.
  \<^item> \<open>VmExtents\<close>, \<open>VmFree\<close>, \<open>VmInit\<close> model the extent list of \<open>recomp_runtime.c\<close>: allocation with best
    fit, fixed placement, splitting, the three locked phases of \<open>recomp_vm_free\<close>, naming,
    start-up. \<open>VmView\<close> reads the list as a function from addresses to what they hold;
    \<open>VmProps\<close> states the properties over that view.
  \<^item> \<open>DirectBlocks\<close>, \<open>DirectAlias\<close> model physical memory of \<open>ps4_direct_mem.c\<close>: the block list, the size
    rule, the aliases. \<open>DirectView\<close>, \<open>DirectProps\<close>: their reading as a partition and as a partial
    function, and the properties.
  \<^item> \<open>MemApi\<close>, \<open>MemShims\<close> model the mapping API over both and its shims; \<open>MemView\<close>, \<open>MemProps\<close>,
    \<open>MemShimProps\<close> hold the properties that span the two memories and guest memory.
  \<^item> \<open>SyncObjects\<close>, \<open>EventFlag\<close>, \<open>Semaphore\<close>, \<open>KernelSema\<close>, \<open>Equeue\<close>, \<open>RwLock\<close>, \<open>RunOnce\<close>,
    \<open>GuestMutex\<close>, \<open>MutexTable\<close> model the objects of the same names, with \<open>EventFlagProps\<close>,
    \<open>SemaProps\<close>, \<open>KsemProps\<close>, \<open>EqueueProps\<close>, \<open>MutexInv\<close>, \<open>MutexProps\<close>, \<open>MutexTabProps\<close>.
  \<^item> \<open>PresentQueue\<close>, \<open>PresentProps\<close>: the frame queue. \<open>Sfo\<close>, \<open>SfoProps\<close>: the reader of \<open>param.sfo\<close>,
    over the bounded reads of \<open>ByteReads\<close>. \<open>OpenTable\<close>, \<open>Pak\<close> with \<open>PakTables\<close>, \<open>PakParse\<close>, \<open>PakProps\<close>:
    the hash tables and the archive index of \<open>kernel/vfs/ps4_pak.c\<close>.
  \<^item> \<open>Calendar\<close>: the reference calendar; \<open>Rtc\<close>, \<open>RtcShims\<close>: the clock library; \<open>RtcCivil\<close>, \<open>RtcProps\<close>,
    \<open>RtcText\<close>: its dates and texts against the calendar.

  \<^bold>\<open>Conventions.\<close> A C record is a record or part of one, a linked list a list, a 32- or 64-bit
  integer a word of that width; \<open>int\<close> results are 32-bit words, sign-extended into the result
  register. The process state is separate from a thread's registers. What the host decides
  (\<open>calloc\<close>, \<open>mmap\<close>, \<open>madvise\<close>, files, the clock) is an argument of the definition that
  uses it. Reads outside a buffer and calls that never return are the value \<open>None\<close>.

  A blocking call is a loop over wake-ups: each wake-up is a function that says what the other
  threads did to the object while this one slept, or that the deadline has passed; the result is
  \<open>None\<close> while the thread still sleeps after the given wake-ups. So a statement about all lists of
  wake-ups is one about all interleavings of critical sections. The guest mutex and condition
  variable are a step machine instead, one step per access to a shared word, with any number of
  threads on one mutex and one condition variable under sequential consistency (\<open>GuestMutex\<close>),
  because their fast paths take no lock; \<open>MutexInv\<close> holds its invariant.

  \<^bold>\<open>Bounds.\<close> Loops over lists, tables and byte ranges are structural recursions over them, so there
  is no fuel, except in the retry loops of the atomic operations, which are steps of the machine.

  \<^bold>\<open>Not modelled.\<close> The weak memory order of the host below the mutex machine; overlap of guest
  memory bytes under two direct mappings of the same physical page (the aliases are modelled, the
  bytes are not shared); host signals, thread contexts and stack switching; floating point; the
  Metal and Cocoa parts, the codecs and network libraries, which call the host; the recompiler
  itself, which is written in Go.
\<close>

end
